(* ===== verification/Prelude.thy ===== *)
theory Prelude
  imports Complex_Main "HOL-Library.List_Lexorder" "HOL-Library.Product_Lexorder"
    "HOL-Library.Multiset"
begin

section \<open>Shared notions: outcomes, strings, ordered maps, stable sorting\<close>

text \<open>
  What every component of the model uses and none of them owns:
  \<^item> the outcome of code that may throw (\<open>'a outcome\<close>);
  \<^item> JavaScript strings as lists of UTF-16 code units (\<open>jsstr\<close>), with \<open>js\<close> for ASCII literals, and the
    character classes of the source's fixed regular expressions;
  \<^item> insertion-ordered maps (the language's \<open>Map\<close> and plain objects) and the stable
    \<open>Array.prototype.sort\<close>, each stated as an interface (a locale) with the laws its clients use;
  \<^item> the collections \<open>js_simps\<close> and \<open>step_simps\<close>, filled by the components.
\<close>

named_theorems js_simps \<open>rewrite rules that evaluate JavaScript strings, values and numbers\<close>
named_theorems step_simps \<open>rewrite rules for the steps of the stateful components\<close>

subsection \<open>Outcomes\<close>

text \<open>A call returns a value (\<open>Inr\<close>) or throws (\<open>Inl\<close>). The class of the error is kept, its message where the
  code composes one that a caller reads.\<close>

datatype exn = TypeErr | RangeErr | Err "nat list"

type_synonym 'a outcome = "exn + 'a"

definition returns :: "'a outcome \<Rightarrow> bool" where
  "returns r \<longleftrightarrow> (case r of Inl _ \<Rightarrow> False | Inr _ \<Rightarrow> True)"

definition rbind :: "'a outcome \<Rightarrow> ('a \<Rightarrow> 'b outcome) \<Rightarrow> 'b outcome" where
  "rbind r f = (case r of Inl e \<Rightarrow> Inl e | Inr x \<Rightarrow> f x)"

lemma returns_simps [simp]: "returns (Inr x)" "\<not> returns (Inl e)"
  by (simp_all add: returns_def)

lemma returns_iff: "returns r \<longleftrightarrow> (\<exists>x. r = Inr x)"
  by (cases r) auto

lemma rbind_simps [simp]: "rbind (Inr x) f = f x" "rbind (Inl e) f = Inl e"
  by (simp_all add: rbind_def)

lemma rbind_Inr_iff: "rbind r f = Inr y \<longleftrightarrow> (\<exists>x. r = Inr x \<and> f x = Inr y)"
  by (cases r) auto

lemma rbind_Inl_iff: "rbind r f = Inl e \<longleftrightarrow> r = Inl e \<or> (\<exists>x. r = Inr x \<and> f x = Inl e)"
  by (cases r) auto

text \<open>\<open>xs.map(f)\<close> with an \<open>f\<close> that may throw: left to right, stopping at the first throw.\<close>

fun rmap :: "('a \<Rightarrow> 'b outcome) \<Rightarrow> 'a list \<Rightarrow> 'b list outcome" where
  "rmap f [] = Inr []"
| "rmap f (x # xs) = rbind (f x) (\<lambda>y. rbind (rmap f xs) (\<lambda>ys. Inr (y # ys)))"

lemma rmap_cong [fundef_cong]:
  "xs = ys \<Longrightarrow> (\<And>x. x \<in> set ys \<Longrightarrow> f x = g x) \<Longrightarrow> rmap f xs = rmap g ys"
  by (induction ys arbitrary: xs) auto

lemma rmap_Inr_iff: "rmap f xs = Inr ys \<longleftrightarrow> list_all2 (\<lambda>x y. f x = Inr y) xs ys"
  by (induction xs arbitrary: ys) (auto simp: rbind_Inr_iff list_all2_Cons1)

lemma rmap_returns: "(\<And>x. x \<in> set xs \<Longrightarrow> returns (f x)) \<Longrightarrow> returns (rmap f xs)"
proof (induction xs)
  case (Cons x xs)
  have "returns (f x)" by (rule Cons.prems) simp
  moreover have "returns (rmap f xs)" by (rule Cons.IH) (simp add: Cons.prems)
  ultimately show ?case by (auto simp: returns_iff)
qed simp

subsection \<open>Strings\<close>

text \<open>A JavaScript string is a sequence of UTF-16 code units. Indexing, \<open>length\<close>, \<open>slice\<close>, \<open><\<close> and
  regular expressions without the \<open>u\<close> flag all work on code units. \<open>js ''abc''\<close> is the string literal.\<close>

type_synonym jsstr = "nat list"

definition js :: "string \<Rightarrow> jsstr" where
  "js s = map of_char s"

lemma js_eq [simp]: "js s = js t \<longleftrightarrow> s = t"
  by (simp add: js_def inj_map_eq_map inj_on_def)

lemma js_append [simp]: "js s @ js t = js (s @ t)"
  by (simp add: js_def)

lemma js_Nil [simp]: "js [] = []"
  by (simp add: js_def)

lemma js_eq_Nil [simp]: "js s = [] \<longleftrightarrow> s = []" "[] = js s \<longleftrightarrow> s = []"
  by (simp_all add: js_def)

lemma length_js [simp]: "length (js s) = length s"
  by (simp add: js_def)

lemma js_Cons: "js (c # s) = of_char c # js s"
  by (simp add: js_def)

text \<open>Character classes of the fixed regular expressions.\<close>

definition is_digit :: "nat \<Rightarrow> bool" where
  "is_digit c \<longleftrightarrow> 48 \<le> c \<and> c \<le> 57"

definition is_lower :: "nat \<Rightarrow> bool" where
  "is_lower c \<longleftrightarrow> 97 \<le> c \<and> c \<le> 122"

definition is_upper :: "nat \<Rightarrow> bool" where
  "is_upper c \<longleftrightarrow> 65 \<le> c \<and> c \<le> 90"

definition is_lower_hex :: "nat \<Rightarrow> bool" where
  "is_lower_hex c \<longleftrightarrow> is_digit c \<or> (97 \<le> c \<and> c \<le> 102)"

text \<open>\<open>/^[0-9a-f]{64}$/\<close>, the shape of every digest of the program (\<open>HEX64\<close>, \<open>HEX_64\<close>, \<open>HEX32\<close>).\<close>

definition is_hex64 :: "jsstr \<Rightarrow> bool" where
  "is_hex64 s \<longleftrightarrow> length s = 64 \<and> list_all is_lower_hex s"

definition starts_with :: "jsstr \<Rightarrow> jsstr \<Rightarrow> bool" where
  "starts_with s p \<longleftrightarrow> take (length p) s = p"

definition ends_with :: "jsstr \<Rightarrow> jsstr \<Rightarrow> bool" where
  "ends_with s p \<longleftrightarrow> length p \<le> length s \<and> drop (length s - length p) s = p"

lemma starts_with_iff: "starts_with s p \<longleftrightarrow> (\<exists>t. s = p @ t)"
  by (auto simp: starts_with_def) (metis append_take_drop_id)

lemma starts_with_trans: "starts_with s p \<Longrightarrow> starts_with p q \<Longrightarrow> starts_with s q"
  by (auto simp: starts_with_iff)

fun js_join :: "jsstr \<Rightarrow> jsstr list \<Rightarrow> jsstr" where
  "js_join sep [] = []"
| "js_join sep [x] = x"
| "js_join sep (x # y # zs) = x @ sep @ js_join sep (y # zs)"

text \<open>\<open>s.split(c)\<close> for a one-unit separator.\<close>

fun js_split :: "nat \<Rightarrow> jsstr \<Rightarrow> jsstr list" where
  "js_split c [] = [[]]"
| "js_split c (x # xs) =
     (if x = c then [] # js_split c xs
      else (case js_split c xs of [] \<Rightarrow> [[x]] | y # ys \<Rightarrow> (x # y) # ys))"

lemma js_split_ne [simp]: "js_split c s \<noteq> []"
  by (cases s) (auto split: list.splits)

lemma js_join_split: "js_join [c] (js_split c s) = s"
proof (induction s)
  case (Cons x s)
  obtain a as where sp: "js_split c s = a # as" by (cases "js_split c s") auto
  with Cons show ?case by (cases as) auto
qed simp

subsection \<open>Insertion-ordered maps\<close>

text \<open>
  The language's \<open>Map\<close>: entries in insertion order; setting a key that is present replaces its value
  and keeps its place. \<open>omap_set\<close> and \<open>map_of\<close> are its \<open>set\<close> and \<open>get\<close>. The locale states what clients
  rely on: lookup after update, and that entries never repeat a key.
\<close>

fun omap_set :: "'k \<Rightarrow> 'v \<Rightarrow> ('k \<times> 'v) list \<Rightarrow> ('k \<times> 'v) list" where
  "omap_set k v [] = [(k, v)]"
| "omap_set k v ((k', v') # m) = (if k' = k then (k, v) # m else (k', v') # omap_set k v m)"

definition omap_of_list :: "('k \<times> 'v) list \<Rightarrow> ('k \<times> 'v) list" where
  "omap_of_list kvs = fold (\<lambda>(k, v). omap_set k v) kvs []"

locale ordered_map =
  fixes mset' :: "'k \<Rightarrow> 'v \<Rightarrow> 'm \<Rightarrow> 'm"
    and mget :: "'m \<Rightarrow> 'k \<Rightarrow> 'v option"
    and mkeys :: "'m \<Rightarrow> 'k list"
  assumes get_set: "mget (mset' k v m) j = (if j = k then Some v else mget m j)"
    and keys_set: "set (mkeys (mset' k v m)) = insert k (set (mkeys m))"
    and distinct_set: "distinct (mkeys m) \<Longrightarrow> distinct (mkeys (mset' k v m))"
    and get_keys: "(mget m k \<noteq> None) = (k \<in> set (mkeys m))"
begin

text \<open>Folding a list of entries into a map: the last entry of a key wins, the keys are exactly the entries' keys.\<close>

lemma get_fold_notin: "k \<notin> fst ` set kvs \<Longrightarrow> mget (fold (\<lambda>(k, v). mset' k v) kvs m) k = mget m k"
  by (induction kvs arbitrary: m) (auto simp: get_set)

lemma get_fold_last:
  "mget (fold (\<lambda>(k, v). mset' k v) (kvs @ [(k, v)]) m) k = Some v"
  by (simp add: get_set)

lemma keys_fold: "set (mkeys (fold (\<lambda>(k, v). mset' k v) kvs m)) = set (mkeys m) \<union> fst ` set kvs"
  by (induction kvs arbitrary: m) (auto simp: keys_set)

lemma distinct_fold: "distinct (mkeys m) \<Longrightarrow> distinct (mkeys (fold (\<lambda>(k, v). mset' k v) kvs m))"
  by (induction kvs arbitrary: m) (auto simp: distinct_set)

lemma get_fold_eq:
  "mget (fold (\<lambda>(k, v). mset' k v) kvs m) k =
     (case map_of (rev kvs) k of None \<Rightarrow> mget m k | Some v \<Rightarrow> Some v)"
  by (induction kvs arbitrary: m)
    (auto simp: get_set map_add_def split: option.splits)

end

lemma omap_set_keys: "map fst (omap_set k v m) = (if k \<in> fst ` set m then map fst m else map fst m @ [k])"
  by (induction m) force+

lemma map_of_omap_set: "map_of (omap_set k v m) j = (if j = k then Some v else map_of m j)"
  by (induction m) auto

interpretation om: ordered_map omap_set map_of "map fst"
proof unfold_locales
  fix k :: 'k and v :: 'v and m :: "('k \<times> 'v) list" and j
  show "map_of (omap_set k v m) j = (if j = k then Some v else map_of m j)"
    by (rule map_of_omap_set)
  show "set (map fst (omap_set k v m)) = insert k (set (map fst m))"
    by (subst omap_set_keys) auto
  show "distinct (map fst m) \<Longrightarrow> distinct (map fst (omap_set k v m))"
    by (auto simp: omap_set_keys)
  show "(map_of m k \<noteq> None) = (k \<in> set (map fst m))"
    by (simp add: map_of_eq_None_iff)
qed

lemma omap_of_list_get: "map_of (omap_of_list kvs) k = map_of (rev kvs) k"
  by (simp add: omap_of_list_def om.get_fold_eq split: option.splits)

lemma omap_of_list_distinct: "distinct (map fst (omap_of_list kvs))"
  unfolding omap_of_list_def by (rule om.distinct_fold) simp

lemma omap_of_list_keys: "set (map fst (omap_of_list kvs)) = fst ` set kvs"
  unfolding omap_of_list_def by (simp add: om.keys_fold [of kvs "[]", simplified])

lemma omap_of_list_snoc: "omap_of_list (kvs @ [(k, v)]) = omap_set k v (omap_of_list kvs)"
  by (simp add: omap_of_list_def)

lemma set_omap_of_list: "set (omap_of_list kvs) = {(k, v). map_of (rev kvs) k = Some v}"
proof -
  have "\<And>k v. (k, v) \<in> set (omap_of_list kvs) \<longleftrightarrow> map_of (rev kvs) k = Some v"
    by (metis map_of_eq_Some_iff omap_of_list_distinct omap_of_list_get)
  then show ?thesis by auto
qed

subsection \<open>Stable sorting\<close>

text \<open>
  \<open>Array.prototype.sort(cmp)\<close> is stable. For a comparator that is a total preorder the result is determined by
  that, so insertion sort gives it: \<open>js_sort le\<close>, with \<open>le x y\<close> for \<open>cmp(x, y) <= 0\<close>. The interface is what callers
  use: the same elements, in order, and the first element is a least one.
\<close>

fun js_insert :: "('a \<Rightarrow> 'a \<Rightarrow> bool) \<Rightarrow> 'a \<Rightarrow> 'a list \<Rightarrow> 'a list" where
  "js_insert le x [] = [x]"
| "js_insert le x (y # ys) = (if le x y then x # y # ys else y # js_insert le x ys)"

fun js_sort :: "('a \<Rightarrow> 'a \<Rightarrow> bool) \<Rightarrow> 'a list \<Rightarrow> 'a list" where
  "js_sort le [] = []"
| "js_sort le (x # xs) = js_insert le x (js_sort le xs)"

definition total_preorder :: "('a \<Rightarrow> 'a \<Rightarrow> bool) \<Rightarrow> bool" where
  "total_preorder le \<longleftrightarrow> (\<forall>x y. le x y \<or> le y x) \<and> (\<forall>x y z. le x y \<longrightarrow> le y z \<longrightarrow> le x z)"

locale stable_sorter =
  fixes sorter :: "('a \<Rightarrow> 'a \<Rightarrow> bool) \<Rightarrow> 'a list \<Rightarrow> 'a list"
  assumes sort_mset: "mset (sorter le xs) = mset xs"
    and sort_ordered: "total_preorder le \<Longrightarrow> sorted_wrt le (sorter le xs)"
    and sort_stable: "total_preorder le \<Longrightarrow> (\<And>x y. x \<in> set xs \<Longrightarrow> y \<in> set xs \<Longrightarrow> P x \<Longrightarrow> P y \<Longrightarrow> le x y) \<Longrightarrow>
      filter P (sorter le xs) = filter P xs"
begin

lemma sort_set: "set (sorter le xs) = set xs"
  by (metis sort_mset set_mset_mset)

lemma sort_length: "length (sorter le xs) = length xs"
  by (metis sort_mset size_mset)

lemma sort_eq_Nil: "sorter le xs = [] \<longleftrightarrow> xs = []"
  by (metis sort_mset mset_zero_iff)

lemma sort_hd_mem: "xs \<noteq> [] \<Longrightarrow> hd (sorter le xs) \<in> set xs"
  by (metis list.set_sel(1) sort_eq_Nil sort_set)

lemma sort_hd_least:
  assumes "total_preorder le" "x \<in> set xs"
  shows "le (hd (sorter le xs)) x"
proof -
  have "sorter le xs \<noteq> []" using assms(2) by (auto simp: sort_eq_Nil)
  then obtain y ys where s: "sorter le xs = y # ys" by (cases "sorter le xs") auto
  have "x \<in> set (y # ys)" using assms(2) sort_set [of le xs] s by simp
  moreover have "sorted_wrt le (y # ys)" using sort_ordered [OF assms(1), of xs] s by simp
  moreover have "le y y" using assms(1) by (auto simp: total_preorder_def)
  ultimately show ?thesis by (auto simp: s)
qed

end

lemma js_insert_mset: "mset (js_insert le x xs) = add_mset x (mset xs)"
  by (induction xs) auto

lemma js_sort_mset: "mset (js_sort le xs) = mset xs"
  by (induction xs) (auto simp: js_insert_mset)

lemma js_insert_set: "set (js_insert le x xs) = insert x (set xs)"
  by (induction xs) auto

lemma js_insert_sorted:
  "total_preorder le \<Longrightarrow> sorted_wrt le xs \<Longrightarrow> sorted_wrt le (js_insert le x xs)"
proof (induction xs)
  case (Cons y ys)
  show ?case
  proof (cases "le x y")
    case True
    with Cons.prems have "\<forall>z \<in> set ys. le x z" unfolding total_preorder_def by auto
    with True Cons.prems show ?thesis by simp
  next
    case False
    with Cons.prems(1) have "le y x" unfolding total_preorder_def by blast
    with False Cons show ?thesis by (simp add: js_insert_set)
  qed
qed simp

lemma js_insert_filter_neg: "\<not> P x \<Longrightarrow> filter P (js_insert le x xs) = filter P xs"
  by (induction xs) auto

lemma js_insert_filter_pos:
  "P x \<Longrightarrow> (\<And>y. y \<in> set xs \<Longrightarrow> P y \<Longrightarrow> le x y) \<Longrightarrow> filter P (js_insert le x xs) = x # filter P xs"
  by (induction xs) auto

lemma js_sort_set: "set (js_sort le xs) = set xs"
  by (metis js_sort_mset set_mset_mset)

lemma js_sort_filter:
  "(\<And>x y. x \<in> set xs \<Longrightarrow> y \<in> set xs \<Longrightarrow> P x \<Longrightarrow> P y \<Longrightarrow> le x y) \<Longrightarrow> filter P (js_sort le xs) = filter P xs"
proof (induction xs)
  case (Cons a xs)
  have ih: "filter P (js_sort le xs) = filter P xs"
    by (rule Cons.IH) (auto intro: Cons.prems)
  show ?case
  proof (cases "P a")
    case True
    have "filter P (js_insert le a (js_sort le xs)) = a # filter P (js_sort le xs)"
      using True by (rule js_insert_filter_pos) (auto simp: js_sort_set intro: Cons.prems True)
    with True ih show ?thesis by simp
  qed (simp add: js_insert_filter_neg ih)
qed simp

lemma js_sort_sorted: "total_preorder le \<Longrightarrow> sorted_wrt le (js_sort le xs)"
  by (induction xs) (auto intro: js_insert_sorted)

interpretation jss: stable_sorter js_sort
  by unfold_locales (auto simp: js_sort_mset js_sort_sorted js_sort_filter)

text \<open>A comparator given by a key into a linear order is a total preorder.\<close>

lemma total_preorder_key [intro]: "total_preorder (\<lambda>x y. (f x :: 'b :: linorder) \<le> f y)"
  by (auto simp: total_preorder_def)

lemma js_sort_id: "sorted_wrt le xs \<Longrightarrow> js_sort le xs = xs"
proof (induction xs)
  case (Cons x xs)
  then show ?case by (cases xs) auto
qed simp

subsection \<open>Lists\<close>

lemma find_None_iff': "find P xs = None \<longleftrightarrow> (\<forall>x \<in> set xs. \<not> P x)"
  by (auto simp: find_None_iff)

lemma filter_filter_imp: "(\<And>x. x \<in> set xs \<Longrightarrow> P x \<Longrightarrow> Q x) \<Longrightarrow> filter P (filter Q xs) = filter P xs"
  by (induction xs) auto

end
