(* ===== verification/JsNum.thy ===== *)
theory JsNum
  imports Prelude "HOL-Library.Log_Nat"
begin

section \<open>Numbers of the language: IEEE 754 binary64\<close>

text \<open>
  A JavaScript number is a binary64 value. The model keeps its exact value as a rational (\<open>Fin q\<close>) beside the
  infinities and NaN; the two zeros are one value here, since the sources read numbers only with comparisons,
  \<open>===\<close>, \<open>includes\<close> and text conversion, which do not tell them apart. The result of an arithmetic operation is the
  exact result rounded to nearest, ties to even (\<open>rnd\<close>), so sums and products that leave the safe
  integers are rounded or become infinite as they do in the program. The theorems say when rounding changes
  nothing (integers up to \<open>2 ^ 53\<close>) and that it never reverses an order, which is all the policy arithmetic needs.
\<close>

datatype jnum = NaN | NInf | Fin rat | PInf

subsection \<open>Rounding\<close>

text \<open>Round half to even.\<close>

definition rhe :: "rat \<Rightarrow> int" where
  "rhe q = (let f = \<lfloor>q\<rfloor>; d = q - of_int f in
     if d < 1/2 then f else if d > 1/2 then f + 1 else if even f then f else f + 1)"

text \<open>The binary exponent of a positive rational: \<open>2 powi e \<le> q < 2 powi (e + 1)\<close>.\<close>

definition exp2 :: "rat \<Rightarrow> int" where
  "exp2 q = (let (a, b) = quotient_of q; e = bitlen a - bitlen b in if 2 powi e \<le> q then e else e - 1)"

text \<open>The exponent of the last place of a binary64 value with binary exponent \<open>e\<close> (53 significant bits, subnormals at
  \<open>-1074\<close>), and rounding a positive rational on that grid.\<close>

definition ulp_exp :: "int \<Rightarrow> int" where
  "ulp_exp e = max (e - 52) (- 1074)"

definition rnd_pos :: "rat \<Rightarrow> rat" where
  "rnd_pos q = (let u = 2 powi ulp_exp (exp2 q) in of_int (rhe (q / u)) * u)"

definition rnd :: "rat \<Rightarrow> jnum" where
  "rnd q =
     (if q = 0 then Fin 0
      else if q > 0 then (if rnd_pos q \<ge> 2 ^ 1024 then PInf else Fin (rnd_pos q))
      else (if rnd_pos (- q) \<ge> 2 ^ 1024 then NInf else Fin (- rnd_pos (- q))))"

subsection \<open>Comparisons and arithmetic\<close>

text \<open>\<open><\<close> and \<open><=\<close>: false when either side is NaN.\<close>

fun jlt :: "jnum \<Rightarrow> jnum \<Rightarrow> bool" where
  "jlt NaN _ = False"
| "jlt _ NaN = False"
| "jlt NInf b = (b \<noteq> NInf)"
| "jlt (Fin x) NInf = False"
| "jlt (Fin x) (Fin y) = (x < y)"
| "jlt (Fin x) PInf = True"
| "jlt PInf _ = False"

definition jle :: "jnum \<Rightarrow> jnum \<Rightarrow> bool" where
  "jle a b \<longleftrightarrow> a \<noteq> NaN \<and> b \<noteq> NaN \<and> \<not> jlt b a"

fun jneg :: "jnum \<Rightarrow> jnum" where
  "jneg NaN = NaN"
| "jneg NInf = PInf"
| "jneg PInf = NInf"
| "jneg (Fin x) = Fin (- x)"

fun jadd :: "jnum \<Rightarrow> jnum \<Rightarrow> jnum" where
  "jadd NaN _ = NaN"
| "jadd _ NaN = NaN"
| "jadd (Fin x) (Fin y) = rnd (x + y)"
| "jadd (Fin _) b = b"
| "jadd a (Fin _) = a"
| "jadd PInf PInf = PInf"
| "jadd NInf NInf = NInf"
| "jadd _ _ = NaN"

definition jsub :: "jnum \<Rightarrow> jnum \<Rightarrow> jnum" where
  "jsub a b = jadd a (jneg b)"

fun jmul :: "jnum \<Rightarrow> jnum \<Rightarrow> jnum" where
  "jmul NaN _ = NaN"
| "jmul _ NaN = NaN"
| "jmul (Fin x) (Fin y) = rnd (x * y)"
| "jmul (Fin x) b = (if x = 0 then NaN else if x > 0 then b else jneg b)"
| "jmul a (Fin x) = (if x = 0 then NaN else if x > 0 then a else jneg a)"
| "jmul a b = (if a = b then PInf else NInf)"

text \<open>\<open>Math.max\<close>.\<close>

definition jmax :: "jnum \<Rightarrow> jnum \<Rightarrow> jnum" where
  "jmax a b = (if a = NaN \<or> b = NaN then NaN else if jlt a b then b else a)"

definition jint :: "int \<Rightarrow> jnum" where
  "jint i = Fin (of_int i)"

text \<open>\<open>Number.isFinite\<close>, \<open>Number.isInteger\<close> and \<open>Number.isSafeInteger\<close>; \<open>to_int\<close> is the integer a safe integer is.\<close>

definition is_finite_num :: "jnum \<Rightarrow> bool" where
  "is_finite_num n \<longleftrightarrow> (case n of Fin _ \<Rightarrow> True | _ \<Rightarrow> False)"

definition is_integer_num :: "jnum \<Rightarrow> bool" where
  "is_integer_num n \<longleftrightarrow> (case n of Fin q \<Rightarrow> of_int \<lfloor>q\<rfloor> = q | _ \<Rightarrow> False)"

definition max_safe :: int where
  "max_safe = 9007199254740991"

definition is_safe_int :: "jnum \<Rightarrow> bool" where
  "is_safe_int n \<longleftrightarrow> (case n of Fin q \<Rightarrow> of_int \<lfloor>q\<rfloor> = q \<and> \<bar>\<lfloor>q\<rfloor>\<bar> \<le> max_safe | _ \<Rightarrow> False)"

definition num_int :: "jnum \<Rightarrow> int" where
  "num_int n = (case n of Fin q \<Rightarrow> \<lfloor>q\<rfloor> | _ \<Rightarrow> 0)"

subsection \<open>Facts about rounding\<close>

lemma jint_finite [simp]: "is_finite_num (jint i)"
  by (simp add: jint_def is_finite_num_def)

lemma jint_integer [simp]: "is_integer_num (jint i)"
  by (simp add: jint_def is_integer_num_def)

lemma rhe_int [simp]: "rhe (of_int i) = i"
  by (simp add: rhe_def)

lemma rhe_bounds: "of_int (rhe q) - q \<le> 1/2" "q - of_int (rhe q) \<le> 1/2"
  unfolding rhe_def Let_def by (auto simp: field_simps) linarith+

lemma rhe_mono: "p \<le> q \<Longrightarrow> rhe p \<le> rhe q"
proof (cases "\<lfloor>p\<rfloor> = \<lfloor>q\<rfloor>")
  case True
  assume "p \<le> q"
  with True show ?thesis by (auto simp: rhe_def Let_def)
next
  case False
  assume "p \<le> q"
  with False have f: "\<lfloor>p\<rfloor> + 1 \<le> \<lfloor>q\<rfloor>" using floor_mono [of p q] by linarith
  have "rhe p \<le> \<lfloor>p\<rfloor> + 1" by (simp add: rhe_def Let_def)
  also have "\<dots> \<le> \<lfloor>q\<rfloor>" by (rule f)
  also have "\<dots> \<le> rhe q" by (simp add: rhe_def Let_def)
  finally show ?thesis .
qed

lemma rhe_ge: "of_int i \<le> q \<Longrightarrow> i \<le> rhe q"
  using rhe_mono [of "of_int i" q] by simp

lemma rhe_le: "q \<le> of_int i \<Longrightarrow> rhe q \<le> i"
  using rhe_mono [of q "of_int i"] by simp

lemma exp2_bounds:
  assumes "q > 0"
  shows "2 powi exp2 q \<le> q" "q < 2 powi (exp2 q + 1)"
proof -
  obtain a b where ab: "quotient_of q = (a, b)" by (cases "quotient_of q")
  have b: "b > 0" using quotient_of_denom_pos [OF ab] .
  have q: "q = of_int a / of_int b" using quotient_of_div [OF ab] .
  with assms b have a: "a > 0" by (simp add: zero_less_divide_iff)
  define la lb where "la = bitlen a" and "lb = bitlen b"
  have la: "la > 0" "lb > 0" using a b by (simp_all add: la_def lb_def bitlen_alt_def)
  have A: "2 ^ nat (la - 1) \<le> a" "a < 2 ^ nat la"
    using bitlen_bounds [OF a] by (simp_all add: la_def)
  have B: "2 ^ nat (lb - 1) \<le> b" "b < 2 ^ nat lb"
    using bitlen_bounds [OF b] by (simp_all add: lb_def)
  have pw: "(2::rat) powi m = of_int (2 ^ nat m)" if "m \<ge> 0" for m :: int
    using that by (simp add: power_int_def)
  have A': "2 powi (la - 1) \<le> (of_int a :: rat)" "of_int a < (2::rat) powi la"
    using A la pw [of "la - 1"] pw [of la] by (simp_all only: of_int_le_iff of_int_less_iff; simp)+
  have B': "2 powi (lb - 1) \<le> (of_int b :: rat)" "of_int b < (2::rat) powi lb"
    using B la pw [of "lb - 1"] pw [of lb] by (simp_all only: of_int_le_iff of_int_less_iff; simp)+
  have up: "q < 2 powi (la - lb + 1)"
  proof -
    have "q < 2 powi la / 2 powi (lb - 1)"
      unfolding q using A'(2) B'(1) by (intro frac_less) (use a in simp_all)
    then show ?thesis by (simp add: power_int_diff power_int_add field_simps)
  qed
  have lo: "2 powi (la - lb - 1) \<le> q"
  proof -
    have "2 powi (la - 1) / 2 powi lb \<le> q"
      unfolding q using A'(1) B'(2) a b by (intro frac_le) simp_all
    then show ?thesis by (simp add: power_int_diff power_int_add field_simps)
  qed
  have e: "exp2 q = (if 2 powi (la - lb) \<le> q then la - lb else la - lb - 1)"
    by (simp add: exp2_def ab la_def lb_def)
  show "2 powi exp2 q \<le> q" "q < 2 powi (exp2 q + 1)"
    using up lo by (auto simp: e)
qed

lemma powi_2_less_iff: "(2::rat) powi a < 2 powi b \<longleftrightarrow> a < b"
  using power_int_strict_increasing [of a b "2::rat"] power_int_increasing [of b a "2::rat"] by (cases "a < b") auto

lemma exp2_unique:
  assumes "q > 0" "2 powi e \<le> q" "q < 2 powi (e + 1)"
  shows "exp2 q = e"
proof -
  have "(2::rat) powi e < 2 powi (exp2 q + 1)" "(2::rat) powi exp2 q < 2 powi (e + 1)"
    using exp2_bounds [OF assms(1)] assms(2,3) by linarith+
  then have "e < exp2 q + 1" "exp2 q < e + 1"
    by (simp_all add: powi_2_less_iff)
  then show ?thesis by linarith
qed

lemma exp2_mono: "0 < p \<Longrightarrow> p \<le> q \<Longrightarrow> exp2 p \<le> exp2 q"
proof -
  assume p: "0 < p" "p \<le> q"
  then have "(2::rat) powi exp2 p < 2 powi (exp2 q + 1)"
    using exp2_bounds [of p] exp2_bounds [of q] by linarith
  then show ?thesis by (simp add: powi_2_less_iff)
qed

lemma powi_2_int: "k \<ge> 0 \<Longrightarrow> (2::rat) powi k = of_int (2 ^ nat k)"
  by (simp add: power_int_def)

lemma powi_2_split: "u \<le> k \<Longrightarrow> (2::rat) powi k / 2 powi u = of_int (2 ^ nat (k - u))"
  using powi_2_int [of "k - u"] by (simp add: power_int_diff)

lemma rnd_pos_le:
  assumes "p \<le> 2 powi k" "ulp_exp (exp2 p) \<le> k"
  shows "rnd_pos p \<le> 2 powi k"
proof -
  let ?u = "ulp_exp (exp2 p)"
  have "p / 2 powi ?u \<le> of_int (2 ^ nat (k - ?u))"
    using assms powi_2_split [OF assms(2)] divide_right_mono [OF assms(1), of "2 powi ?u"] by simp
  then have "rhe (p / 2 powi ?u) \<le> 2 ^ nat (k - ?u)" by (rule rhe_le)
  then have "of_int (rhe (p / 2 powi ?u)) \<le> (2::rat) powi k / 2 powi ?u"
    using powi_2_split [OF assms(2)] by (metis of_int_le_iff)
  then show ?thesis by (simp add: rnd_pos_def Let_def pos_le_divide_eq)
qed

lemma rnd_pos_ge:
  assumes "2 powi k \<le> q" "ulp_exp (exp2 q) \<le> k"
  shows "2 powi k \<le> rnd_pos q"
proof -
  let ?u = "ulp_exp (exp2 q)"
  have "of_int (2 ^ nat (k - ?u)) \<le> q / 2 powi ?u"
    using assms powi_2_split [OF assms(2)] divide_right_mono [OF assms(1), of "2 powi ?u"] by simp
  then have "2 ^ nat (k - ?u) \<le> rhe (q / 2 powi ?u)" by (rule rhe_ge)
  then have "(2::rat) powi k / 2 powi ?u \<le> of_int (rhe (q / 2 powi ?u))"
    using powi_2_split [OF assms(2)] by (metis of_int_le_iff)
  then show ?thesis by (simp add: rnd_pos_def Let_def pos_divide_le_eq)
qed

lemma rnd_pos_nonneg: "0 < q \<Longrightarrow> 0 \<le> rnd_pos q"
proof -
  assume "0 < q"
  then have "0 \<le> rhe (q / 2 powi ulp_exp (exp2 q))" by (intro rhe_ge) simp
  then show ?thesis by (simp add: rnd_pos_def Let_def)
qed

lemma rnd_pos_mono:
  assumes "0 < p" "p \<le> q"
  shows "rnd_pos p \<le> rnd_pos q"
proof (cases "ulp_exp (exp2 p) = ulp_exp (exp2 q)")
  case True
  have "p / 2 powi ulp_exp (exp2 q) \<le> q / 2 powi ulp_exp (exp2 q)"
    using assms(2) by (intro divide_right_mono) simp_all
  then show ?thesis
    by (auto simp: rnd_pos_def Let_def True intro!: mult_right_mono rhe_mono)
next
  case False
  have e: "exp2 p \<le> exp2 q" by (rule exp2_mono [OF assms])
  with False have u: "ulp_exp (exp2 p) < exp2 q - 52" "ulp_exp (exp2 q) = exp2 q - 52" "exp2 p < exp2 q"
    by (auto simp: ulp_exp_def max_def split: if_splits)
  have "p < 2 powi (exp2 p + 1)" by (rule exp2_bounds(2) [OF assms(1)])
  also have "\<dots> \<le> 2 powi exp2 q" using u(3) by (intro power_int_increasing) auto
  finally have "rnd_pos p \<le> 2 powi exp2 q" using u(1) by (intro rnd_pos_le) auto
  also have "\<dots> \<le> rnd_pos q"
    using assms u(2) by (intro rnd_pos_ge exp2_bounds) auto
  finally show ?thesis .
qed

lemma jle_simps [simp]:
  "jle (Fin x) (Fin y) \<longleftrightarrow> x \<le> y" "jle NInf (Fin x)" "jle (Fin x) PInf" "\<not> jle PInf (Fin x)" "\<not> jle (Fin x) NInf"
  "jle NInf NInf" "jle NInf PInf" "jle PInf PInf" "\<not> jle PInf NInf" "\<not> jle NaN b" "\<not> jle b NaN"
  by (auto simp: jle_def)

text \<open>Rounding never reverses an order.\<close>

lemma rnd_mono: "p \<le> q \<Longrightarrow> jle (rnd p) (rnd q)"
proof -
  assume pq: "p \<le> q"
  consider "p > 0" | "p \<le> 0" "q \<ge> 0" | "q < 0" by linarith
  then show ?thesis
  proof cases
    case 1
    with pq have "rnd_pos p \<le> rnd_pos q" by (intro rnd_pos_mono)
    with 1 pq show ?thesis by (auto simp: rnd_def)
  next
    case 2
    then show ?thesis
      using rnd_pos_nonneg [of q] rnd_pos_nonneg [of "- p"] by (auto simp: rnd_def)
  next
    case 3
    with pq have "rnd_pos (- q) \<le> rnd_pos (- p)" by (intro rnd_pos_mono) auto
    with 3 pq show ?thesis by (auto simp: rnd_def)
  qed
qed

lemma rnd_pos_int:
  assumes "0 < i" "i \<le> 2 ^ 53"
  shows "rnd_pos (of_int i) = of_int i"
proof -
  let ?e = "exp2 (of_int i)"
  have e0: "?e \<ge> 0"
  proof -
    have "(2::rat) powi 0 < 2 powi (?e + 1)"
      using exp2_bounds(2) [of "of_int i"] assms(1) by simp
    then show ?thesis by (simp only: powi_2_less_iff)
  qed
  show ?thesis
  proof (cases "i = 2 ^ 53")
    case True
    have e: "?e = 53" by (rule exp2_unique) (simp_all add: True)
    show ?thesis by (simp add: rnd_pos_def Let_def e ulp_exp_def) (simp add: True rhe_def)
  next
    case False
    have "(2::rat) powi ?e < 2 powi 53"
    proof -
      have "i < 2 ^ 53" using False assms(2) by simp
      then have "(of_int i :: rat) < of_int (2 ^ 53)" by (simp only: of_int_less_iff)
      with exp2_bounds(1) [of "of_int i"] assms(1) show ?thesis by simp
    qed
    then have e: "?e < 53" by (simp only: powi_2_less_iff)
    let ?u = "ulp_exp ?e"
    have u: "?u \<le> 0" using e by (simp add: ulp_exp_def)
    have "of_int i / (2::rat) powi ?u = of_int (i * 2 ^ nat (- ?u))"
      using u powi_2_int [of "- ?u"] by (simp add: power_int_minus divide_inverse)
    then have "rnd_pos (of_int i) = of_int (i * 2 ^ nat (- ?u)) * 2 powi ?u"
      by (simp only: rnd_pos_def Let_def rhe_int)
    also have "\<dots> = of_int i * (2 powi (- ?u) * 2 powi ?u)"
      using u powi_2_int [of "- ?u"] by simp
    finally show ?thesis by (simp add: power_int_minus)
  qed
qed

text \<open>Integers up to \<open>2 ^ 53\<close> are exact.\<close>

lemma rnd_int: "\<bar>i\<bar> \<le> 2 ^ 53 \<Longrightarrow> rnd (of_int i) = Fin (of_int i)"
proof -
  assume i: "\<bar>i\<bar> \<le> 2 ^ 53"
  have big: "(of_int j :: rat) < 2 ^ 1024" if "j \<le> 2 ^ 53" for j
  proof -
    have "(of_int j :: rat) \<le> of_int (2 ^ 53)" using that by (simp only: of_int_le_iff)
    also have "\<dots> < 2 ^ 1024" by simp
    finally show ?thesis .
  qed
  consider "i = 0" | "i > 0" | "i < 0" by linarith
  then show ?thesis
  proof cases
    case 2
    with i big [of i] show ?thesis by (auto simp: rnd_def rnd_pos_int)
  next
    case 3
    with i big [of "- i"] rnd_pos_int [of "- i"] show ?thesis by (auto simp: rnd_def)
  qed (simp add: rnd_def)
qed

end
