(* ===== verification/JsVal.thy ===== *)
theory JsVal
  imports JsNum
begin

section \<open>Values of the language, member access and text conversion\<close>

text \<open>
  The sources read unknown JSON: a policy, an action's parameters, a receipt. \<open>jsval\<close> is the value such a
  variable holds. Objects list their own members in enumeration order. \<open>VInst\<close> is an object whose prototype is not
  \<open>Object.prototype\<close> (a class instance), \<open>VOther\<close> a function, symbol or bigint (its \<open>typeof\<close> and
  its text), \<open>VHole\<close> an absent element of a sparse array, which only \<open>canonical\<close> tells from \<open>undefined\<close>.
  The text of a number is the language's shortest round-trip decimal (\<open>Number::toString\<close>), and \<open>json_text\<close> is
  \<open>jsonText\<close> of \<^verbatim>\<open>packages/verify/src/text.ts\<close>.
\<close>

datatype jsval =
    VUndef
  | VNull
  | VBool bool
  | VNum jnum
  | VStr jsstr
  | VArr "jsval list"
  | VObj "(jsstr \<times> jsval) list"
  | VInst "(jsstr \<times> jsval) list"
  | VOther jsstr jsstr
  | VHole

subsection \<open>Member access\<close>

text \<open>The own members of an object (\<open>Object.entries\<close>), none for a value that is not an object.\<close>

definition members :: "jsval \<Rightarrow> (jsstr \<times> jsval) list" where
  "members v = (case v of VObj fs \<Rightarrow> fs | VInst fs \<Rightarrow> fs | _ \<Rightarrow> [])"

definition own :: "jsval \<Rightarrow> jsstr \<Rightarrow> jsval option" where
  "own v k = map_of (members v) k"

text \<open>\<open>v.k\<close> for a member name fixed in the source (none of them is a member of \<open>Object.prototype\<close>), and \<open>k in v\<close>.\<close>

definition fld :: "jsval \<Rightarrow> jsstr \<Rightarrow> jsval" where
  "fld v k = (case own v k of None \<Rightarrow> VUndef | Some x \<Rightarrow> x)"

definition has_own :: "jsval \<Rightarrow> jsstr \<Rightarrow> bool" where
  "has_own v k \<longleftrightarrow> own v k \<noteq> None"

text \<open>What every plain object inherits: the functions of \<open>Object.prototype\<close> and the accessor \<open>__proto__\<close>. A member
  read with a name taken from data (\<open>v[k]\<close>) reaches them when the object has no own member of that name.\<close>

definition proto_functions :: "jsstr list" where
  "proto_functions = map js [''constructor'', ''toString'', ''valueOf'', ''hasOwnProperty'', ''isPrototypeOf'',
     ''propertyIsEnumerable'', ''toLocaleString'', ''__defineGetter__'', ''__defineSetter__'',
     ''__lookupGetter__'', ''__lookupSetter__'']"

definition native_text :: "jsstr \<Rightarrow> jsstr" where
  "native_text k = js ''function '' @ (if k = js ''constructor'' then js ''Object'' else k) @ js ''() { [native code] }''"

definition inherited :: "jsstr \<Rightarrow> jsval" where
  "inherited k =
     (if k = js ''__proto__'' then VInst []
      else if k \<in> set proto_functions then VOther (js ''function'') (native_text k)
      else VUndef)"

definition jget :: "jsval \<Rightarrow> jsstr \<Rightarrow> jsval" where
  "jget v k = (case own v k of None \<Rightarrow> inherited k | Some x \<Rightarrow> x)"

text \<open>The members of an object spread into a new one, later members over earlier ones.\<close>

definition spread :: "(jsstr \<times> jsval) list \<Rightarrow> (jsstr \<times> jsval) list \<Rightarrow> (jsstr \<times> jsval) list" where
  "spread fs gs = fold (\<lambda>(k, v). omap_set k v) gs fs"

text \<open>\<open>v == null\<close>, and reads at the member types the interfaces declare (a value of another type reads as absent).\<close>

definition nullish :: "jsval \<Rightarrow> bool" where
  "nullish v \<longleftrightarrow> v = VUndef \<or> v = VNull"

definition str_opt :: "jsval \<Rightarrow> jsstr option" where
  "str_opt v = (case v of VStr s \<Rightarrow> Some s | _ \<Rightarrow> None)"

definition num_opt :: "jsval \<Rightarrow> jnum option" where
  "num_opt v = (case v of VNum n \<Rightarrow> Some n | _ \<Rightarrow> None)"

definition elems :: "jsval \<Rightarrow> jsval list" where
  "elems v = (case v of VArr xs \<Rightarrow> xs | _ \<Rightarrow> [])"

text \<open>\<open>isPlainObject\<close> of \<^verbatim>\<open>validate.ts\<close> and its namesakes in the other packages: an object that is not an array.\<close>

definition is_obj :: "jsval \<Rightarrow> bool" where
  "is_obj v \<longleftrightarrow> (case v of VObj _ \<Rightarrow> True | VInst _ \<Rightarrow> True | _ \<Rightarrow> False)"

definition is_str :: "jsval \<Rightarrow> bool" where
  "is_str v \<longleftrightarrow> (case v of VStr _ \<Rightarrow> True | _ \<Rightarrow> False)"

definition is_arr :: "jsval \<Rightarrow> bool" where
  "is_arr v \<longleftrightarrow> (case v of VArr _ \<Rightarrow> True | _ \<Rightarrow> False)"

definition is_bool :: "jsval \<Rightarrow> bool" where
  "is_bool v \<longleftrightarrow> (case v of VBool _ \<Rightarrow> True | _ \<Rightarrow> False)"

text \<open>\<open>list.includes(x)\<close> and set membership (SameValueZero) where the two sides come from different documents: primitives by
  value, objects by identity, so two objects are never the same.\<close>

fun same_value :: "jsval \<Rightarrow> jsval \<Rightarrow> bool" where
  "same_value (VBool a) (VBool b) = (a = b)"
| "same_value (VNum a) (VNum b) = (a = b)"
| "same_value (VStr a) (VStr b) = (a = b)"
| "same_value VNull VNull = True"
| "same_value VUndef VUndef = True"
| "same_value _ _ = False"

definition list_has :: "jsval list \<Rightarrow> jsval \<Rightarrow> bool" where
  "list_has xs v \<longleftrightarrow> list_ex (\<lambda>x. same_value x v) xs"

lemma list_has_str: "list_has xs (VStr s) \<longleftrightarrow> VStr s \<in> set xs"
proof -
  have "same_value x (VStr s) \<longleftrightarrow> x = VStr s" for x by (cases x) auto
  then show ?thesis by (auto simp: list_has_def list_ex_iff)
qed

text \<open>Truthiness, for the tests the sources make on optional values.\<close>

fun truthy :: "jsval \<Rightarrow> bool" where
  "truthy VUndef = False"
| "truthy VNull = False"
| "truthy (VBool b) = b"
| "truthy (VNum n) = (n \<noteq> NaN \<and> n \<noteq> Fin 0)"
| "truthy (VStr s) = (s \<noteq> [])"
| "truthy _ = True"

lemmas jsval_reads [js_simps] =
  members_def own_def fld_def has_own_def nullish_def str_opt_def num_opt_def elems_def
  is_obj_def is_str_def is_arr_def is_bool_def

subsection \<open>The text of a number\<close>

text \<open>Decimal digits of a nonnegative integer, most significant first.\<close>

function dec_digits :: "int \<Rightarrow> jsstr" where
  "dec_digits n = (if n < 10 then [48 + nat n] else dec_digits (n div 10) @ [48 + nat (n mod 10)])"
  by pat_completeness auto
termination
  by (relation "measure nat") auto

declare dec_digits.simps [simp del]

text \<open>The decimal exponent of a positive rational: \<open>10 powi (n - 1) \<le> q < 10 powi n\<close> for \<open>n = dec_exp q\<close>.\<close>

definition dec_exp :: "rat \<Rightarrow> int" where
  "dec_exp q = (let (a, b) = quotient_of q;
       e = int (length (dec_digits a)) - int (length (dec_digits b))
     in if 10 powi e \<le> q then e + 1 else e)"

text \<open>The \<open>k\<close>-digit decimals next to \<open>q\<close> that read back as \<open>q\<close>: \<open>Some (n, s)\<close> stands for \<open>s * 10 powi (n - k)\<close>. The
  nearer one wins, the even one on a tie.\<close>

definition dec_try :: "rat \<Rightarrow> nat \<Rightarrow> (int \<times> int) option" where
  "dec_try q k = (let n = dec_exp q; sc = 10 powi (n - int k); t = q / sc; lo = \<lfloor>t\<rfloor>; hi = lo + 1;
       back = (\<lambda>s. rnd (of_int s * sc) = Fin q);
       out = (\<lambda>s. Some (if s = 10 ^ k then (n + 1, 10 ^ (k - 1)) else (n, s)))
     in if back lo \<and> back hi then (if t - of_int lo < 1/2 \<or> (t - of_int lo = 1/2 \<and> even lo) then out lo else out hi)
        else if back lo then out lo else if back hi then out hi else None)"

text \<open>The fewest digits that read back: a binary64 value needs at most 17. The last line is only reached for a rational
  that is no binary64 value.\<close>

definition dec_shortest :: "rat \<Rightarrow> nat \<times> int \<times> int" where
  "dec_shortest q =
     (case find (\<lambda>k. dec_try q k \<noteq> None) [1..<18] of
        Some k \<Rightarrow> (k, the (dec_try q k))
      | None \<Rightarrow> (17, dec_exp q, rhe (q / 10 powi (dec_exp q - 17))))"

definition int_text :: "int \<Rightarrow> jsstr" where
  "int_text i = (if i < 0 then js ''-'' @ dec_digits (- i) else dec_digits i)"

definition exp_text :: "int \<Rightarrow> jsstr" where
  "exp_text e = js ''e'' @ (if e < 0 then js ''-'' else js ''+'') @ dec_digits \<bar>e\<bar>"

definition pos_text :: "rat \<Rightarrow> jsstr" where
  "pos_text q = (let (k, n, s) = dec_shortest q; ds = dec_digits s in
     if int k \<le> n \<and> n \<le> 21 then ds @ replicate (nat (n - int k)) 48
     else if 0 < n \<and> n \<le> 21 then take (nat n) ds @ js ''.'' @ drop (nat n) ds
     else if - 6 < n \<and> n \<le> 0 then js ''0.'' @ replicate (nat (- n)) 48 @ ds
     else if k = 1 then ds @ exp_text (n - 1)
     else take 1 ds @ js ''.'' @ drop 1 ds @ exp_text (n - 1))"

fun num_text :: "jnum \<Rightarrow> jsstr" where
  "num_text NaN = js ''NaN''"
| "num_text PInf = js ''Infinity''"
| "num_text NInf = js ''-Infinity''"
| "num_text (Fin q) =
     (if q = 0 then js ''0'' else if q < 0 then js ''-'' @ pos_text (- q) else pos_text q)"

subsection \<open>\<open>jsonText\<close>\<close>

fun json_text :: "jsval \<Rightarrow> jsstr" where
  "json_text VUndef = js ''undefined''"
| "json_text VHole = js ''undefined''"
| "json_text VNull = js ''null''"
| "json_text (VBool b) = (if b then js ''true'' else js ''false'')"
| "json_text (VNum n) = num_text n"
| "json_text (VStr s) = s"
| "json_text (VOther _ t) = t"
| "json_text (VArr xs) =
     js_join (js '','') (map (\<lambda>el. if nullish el \<or> el = VHole then [] else json_text el) xs)"
| "json_text (VObj _) = js ''[object Object]''"
| "json_text (VInst _) = js ''[object Object]''"

end
