(* ===== verification/NumText.thy ===== *)
theory NumText
  imports JsVal
begin

section \<open>The text of a number reads back as the number\<close>

text \<open>
  \<open>num_read\<close> is how \<open>JSON.parse\<close> reads a number's text: the decimal it denotes, rounded. The results: the
  text of an integer up to \<open>2 ^ 53\<close> is its decimal digits, and the text of a number whose shortest decimal exists
  (\<open>has_text\<close>, every binary64 value) reads back as that number, so no two such numbers share a text.
\<close>

subsection \<open>Reading a number\<close>

definition digits_val :: "jsstr \<Rightarrow> int" where
  "digits_val s = foldl (\<lambda>a c. a * 10 + (int c - 48)) 0 s"

definition before :: "nat \<Rightarrow> jsstr \<Rightarrow> jsstr" where
  "before c s = takeWhile (\<lambda>x. x \<noteq> c) s"

definition after :: "nat \<Rightarrow> jsstr \<Rightarrow> jsstr" where
  "after c s = drop 1 (dropWhile (\<lambda>x. x \<noteq> c) s)"

text \<open>The exponent after \<open>e\<close> has an explicit sign in the texts \<open>num_text\<close> writes.\<close>

definition exp_val :: "jsstr \<Rightarrow> int" where
  "exp_val s = (case s of [] \<Rightarrow> 0 | c # cs \<Rightarrow> if c = 45 then - digits_val cs else digits_val cs)"

definition decimal_val :: "jsstr \<Rightarrow> rat" where
  "decimal_val s = (let m = before 101 s; i = before 46 m; f = after 46 m in
     of_int (digits_val (i @ f)) * 10 powi (exp_val (after 101 s) - int (length f)))"

definition num_read :: "jsstr \<Rightarrow> jnum" where
  "num_read s = (case s of c # cs \<Rightarrow> if c = 45 then rnd (- decimal_val cs) else rnd (decimal_val s) | [] \<Rightarrow> NaN)"

text \<open>Some decimal of at most 17 digits reads back as \<open>q\<close>.\<close>

definition has_text :: "jnum \<Rightarrow> bool" where
  "has_text x \<longleftrightarrow> (case x of Fin q \<Rightarrow> q = 0 \<or> list_ex (\<lambda>k. dec_try \<bar>q\<bar> k \<noteq> None) [1..<18] | _ \<Rightarrow> False)"

subsection \<open>Decimal digits\<close>

lemma dec_digits_digit: "0 \<le> n \<Longrightarrow> c \<in> set (dec_digits n) \<Longrightarrow> is_digit c"
proof (induction n rule: dec_digits.induct)
  case (1 n)
  show ?case
  proof (cases "n < 10")
    case True
    with 1 show ?thesis by (auto simp: dec_digits.simps [of n] is_digit_def)
  next
    case False
    have "n mod 10 < 10" by simp
    then have "nat (n mod 10) < 10" by simp
    with False 1 show ?thesis by (auto simp: dec_digits.simps [of n] is_digit_def)
  qed
qed

lemma dec_digits_ne [simp]: "dec_digits n \<noteq> []"
  by (simp add: dec_digits.simps [of n])

lemma digits_val_snoc: "digits_val (s @ [c]) = digits_val s * 10 + (int c - 48)"
  by (simp add: digits_val_def)

lemma digits_val_Nil [simp]: "digits_val [] = 0"
  by (simp add: digits_val_def)

lemma digits_val_zeros: "digits_val (s @ replicate m 48) = digits_val s * 10 ^ m"
proof (induction m)
  case (Suc m)
  have "s @ replicate (Suc m) 48 = (s @ replicate m 48) @ [48]"
    by (simp add: replicate_append_same)
  with Suc show ?case by (simp only: digits_val_snoc) simp
qed simp

lemma digits_val_append: "digits_val (s @ t) = digits_val s * 10 ^ length t + digits_val t"
proof (induction t rule: rev_induct)
  case (snoc c t)
  have "digits_val (s @ t @ [c]) = digits_val (s @ t) * 10 + (int c - 48)"
    using digits_val_snoc [of "s @ t" c] by simp
  with snoc show ?case by (simp add: digits_val_snoc algebra_simps)
qed simp

lemma digits_val_lead_zeros: "digits_val (replicate m 48 @ s) = digits_val s"
proof -
  have "digits_val (replicate m 48) = 0" using digits_val_zeros [of "[]" m] by simp
  then show ?thesis by (simp add: digits_val_append)
qed

lemma digits_val_dec: "0 \<le> n \<Longrightarrow> digits_val (dec_digits n) = n"
proof (induction n rule: dec_digits.induct)
  case (1 n)
  show ?case
  proof (cases "n < 10")
    case True
    with 1 show ?thesis by (simp add: dec_digits.simps [of n] digits_val_def)
  next
    case False
    with 1 show ?thesis by (simp add: dec_digits.simps [of n] digits_val_snoc)
  qed
qed

lemma dec_digits_inj: "0 \<le> m \<Longrightarrow> 0 \<le> n \<Longrightarrow> dec_digits m = dec_digits n \<Longrightarrow> m = n"
  by (metis digits_val_dec)

lemma dec_digits_length: "0 < n \<Longrightarrow> 10 ^ (length (dec_digits n) - 1) \<le> n \<and> n < 10 ^ length (dec_digits n)"
proof (induction n rule: dec_digits.induct)
  case (1 n)
  show ?case
  proof (cases "n < 10")
    case True
    with 1 show ?thesis by (simp add: dec_digits.simps [of n])
  next
    case False
    define l where "l = length (dec_digits (n div 10))"
    have l: "l > 0" by (simp add: l_def)
    have "10 ^ (l - 1) \<le> n div 10 \<and> n div 10 < 10 ^ l"
      using 1 False by (simp add: l_def pos_imp_zdiv_pos_iff)
    moreover have "length (dec_digits n) = Suc l"
      using False by (simp add: dec_digits.simps [of n] l_def)
    moreover have "(10::int) ^ l = 10 * 10 ^ (l - 1)"
      using l by (cases l) auto
    ultimately show ?thesis by auto
  qed
qed

lemma pow10_less_iff: "(10::int) ^ a < 10 ^ b \<longleftrightarrow> a < b"
  by simp

lemma dec_digits_length_eq:
  assumes "10 ^ (k - 1) \<le> n" "n < 10 ^ k" "k > 0"
  shows "length (dec_digits n) = k"
proof -
  let ?l = "length (dec_digits n)"
  have n: "0 < n" using assms(1) by (rule less_le_trans [rotated]) simp
  have "(10::int) ^ (?l - 1) < 10 ^ k" "(10::int) ^ (k - 1) < 10 ^ ?l"
    using dec_digits_length [OF n] assms by linarith+
  then have "?l - 1 < k" "k - 1 < ?l" by (simp_all only: pow10_less_iff)
  moreover have "?l > 0" by simp
  ultimately show ?thesis using assms(3) by linarith
qed

lemma dec_digits_mult10: "0 < n \<Longrightarrow> dec_digits (n * 10 ^ m) = dec_digits n @ replicate m 48"
proof (induction m)
  case (Suc m)
  have "n * 10 ^ Suc m \<ge> 10"
    using Suc.prems mult_mono [of 1 n 10 "10 * 10 ^ m"] by simp
  then have "dec_digits (n * 10 ^ Suc m) = dec_digits (n * 10 ^ m) @ [48]"
    by (subst dec_digits.simps) simp
  with Suc show ?case by (simp add: replicate_append_same)
qed simp

subsection \<open>The decimal exponent\<close>

lemma powi_10_less_iff: "(10::rat) powi a < 10 powi b \<longleftrightarrow> a < b"
  using power_int_strict_increasing [of a b "10::rat"] power_int_increasing [of b a "10::rat"] by (cases "a < b") auto

lemma powi_10_nat: "k \<ge> 0 \<Longrightarrow> (10::rat) powi k = of_int (10 ^ nat k)"
  by (simp add: power_int_def)

lemma dec_digits_length_powi:
  assumes "0 < a"
  shows "10 powi (int (length (dec_digits a)) - 1) \<le> (of_int a :: rat)"
    and "(of_int a :: rat) < 10 powi int (length (dec_digits a))"
proof -
  let ?l = "length (dec_digits a)"
  have l: "?l > 0" by simp
  then have "nat (int ?l - 1) = ?l - 1" by linarith
  with l have p: "(10::rat) powi (int ?l - 1) = of_int (10 ^ (?l - 1))" "(10::rat) powi int ?l = of_int (10 ^ ?l)"
    by (simp_all add: powi_10_nat del: of_int_power)
  show "10 powi (int ?l - 1) \<le> (of_int a :: rat)" "(of_int a :: rat) < 10 powi int ?l"
    unfolding p using dec_digits_length [OF assms] by (simp_all only: of_int_le_iff of_int_less_iff)
qed

lemma dec_exp_bounds:
  assumes "q > 0"
  shows "10 powi (dec_exp q - 1) \<le> q" "q < 10 powi dec_exp q"
proof -
  obtain a b where ab: "quotient_of q = (a, b)" by (cases "quotient_of q")
  have b: "b > 0" using quotient_of_denom_pos [OF ab] .
  have q: "q = of_int a / of_int b" using quotient_of_div [OF ab] .
  with assms b have a: "a > 0" by (simp add: zero_less_divide_iff)
  define la lb where "la = int (length (dec_digits a))" and "lb = int (length (dec_digits b))"
  note A = dec_digits_length_powi [OF a, folded la_def]
  note B = dec_digits_length_powi [OF b, folded lb_def]
  have up: "q < 10 powi (la - lb + 1)"
  proof -
    have "q < 10 powi la / 10 powi (lb - 1)"
      unfolding q using A(2) B(1) a by (intro frac_less) simp_all
    then show ?thesis by (simp add: power_int_diff power_int_add field_simps)
  qed
  have lo: "10 powi (la - lb - 1) \<le> q"
  proof -
    have "10 powi (la - 1) / 10 powi lb \<le> q"
      unfolding q using A(1) B(2) a b by (intro frac_le) simp_all
    then show ?thesis by (simp add: power_int_diff power_int_add field_simps)
  qed
  have e: "dec_exp q = (if 10 powi (la - lb) \<le> q then la - lb + 1 else la - lb)"
    by (simp add: dec_exp_def ab la_def lb_def)
  show "10 powi (dec_exp q - 1) \<le> q" "q < 10 powi dec_exp q"
    using up lo by (auto simp: e)
qed

lemma dec_exp_unique: "10 powi (e - 1) \<le> q \<Longrightarrow> q < 10 powi e \<Longrightarrow> dec_exp q = e"
proof -
  assume h: "10 powi (e - 1) \<le> q" "q < 10 powi e"
  then have "q > 0" using zero_less_power_int [of "10::rat" "e - 1"] by linarith
  then have "(10::rat) powi (e - 1) < 10 powi dec_exp q" "(10::rat) powi (dec_exp q - 1) < 10 powi e"
    using dec_exp_bounds [of q] h by linarith+
  then have "e - 1 < dec_exp q" "dec_exp q - 1 < e" by (simp_all only: powi_10_less_iff)
  then show ?thesis by linarith
qed

text \<open>A decimal \<open>dec_try\<close> finds has exactly \<open>k\<close> digits and reads back as \<open>q\<close>.\<close>

lemma dec_try_spec:
  assumes q: "q > 0" and k: "k > 0" and t: "dec_try q k = Some (n, s)"
  shows "10 ^ (k - 1) \<le> s" "s < 10 ^ k" "rnd (of_int s * 10 powi (n - int k)) = Fin q"
    "n = dec_exp q \<or> n = dec_exp q + 1"
proof -
  define N sc where "N = dec_exp q" and "sc = (10::rat) powi (N - int k)"
  define lo where "lo = \<lfloor>q / sc\<rfloor>"
  have sc: "sc > 0" by (simp add: sc_def)
  have kk: "(10::int) ^ k = 10 * 10 ^ (k - 1)" using k by (cases k) auto
  have "of_int (10 ^ (k - 1)) * sc = 10 powi (N - 1)"
  proof -
    have "(10::rat) powi (N - 1) = 10 powi int (k - 1) * 10 powi (N - int k)"
      using k by (simp add: power_int_add [symmetric])
    then show ?thesis by (simp add: sc_def)
  qed
  then have lo1: "of_int (10 ^ (k - 1)) \<le> q / sc"
    using dec_exp_bounds(1) [OF q] sc by (simp only: pos_le_divide_eq N_def)
  have "of_int (10 ^ k) * sc = 10 powi N"
    by (simp add: sc_def power_int_add [symmetric] flip: power_int_of_nat)
  then have hi1: "q / sc < of_int (10 ^ k)"
    using dec_exp_bounds(2) [OF q] sc by (simp only: pos_divide_less_eq N_def)
  have lo: "10 ^ (k - 1) \<le> lo" "lo < 10 ^ k"
    using lo1 hi1 unfolding lo_def by (simp_all only: le_floor_iff floor_less_iff)
  define out where "out = (\<lambda>s0::int. if s0 = 10 ^ k then (N + 1, 10 ^ (k - 1)) else (N, s0))"
  have "dec_try q k = (let ok = (\<lambda>s0. rnd (of_int s0 * sc) = Fin q) in
      if ok lo \<and> ok (lo + 1) then (if q / sc - of_int lo < 1/2 \<or> (q / sc - of_int lo = 1/2 \<and> even lo) then Some (out lo) else Some (out (lo + 1)))
      else if ok lo then Some (out lo) else if ok (lo + 1) then Some (out (lo + 1)) else None)"
    by (simp only: dec_try_def Let_def N_def [symmetric] sc_def [symmetric] lo_def [symmetric] out_def if_distrib [where f = Some])
  with t have "rnd (of_int lo * sc) = Fin q \<and> out lo = (n, s) \<or> rnd (of_int (lo + 1) * sc) = Fin q \<and> out (lo + 1) = (n, s)"
    unfolding Let_def by (auto split: if_split_asm simp del: of_int_add)
  then have "\<exists>s0. (s0 = lo \<or> s0 = lo + 1) \<and> rnd (of_int s0 * sc) = Fin q \<and>
      (n, s) = (if s0 = 10 ^ k then (N + 1, 10 ^ (k - 1)) else (N, s0))"
    unfolding out_def by metis
  then obtain s0 where s0: "s0 = lo \<or> s0 = lo + 1" "rnd (of_int s0 * sc) = Fin q"
      "(n, s) = (if s0 = 10 ^ k then (N + 1, 10 ^ (k - 1)) else (N, s0))" by blast
  have "10 ^ (k - 1) \<le> s \<and> s < 10 ^ k \<and> rnd (of_int s * 10 powi (n - int k)) = Fin q \<and> (n = N \<or> n = N + 1)"
  proof (cases "s0 = 10 ^ k")
    case True
    have "(10::rat) powi (N + 1 - int k) = 10 * sc" by (simp add: sc_def power_int_add power_int_diff)
    then have "of_int (10 ^ (k - 1)) * (10::rat) powi (N + 1 - int k) = of_int (10 ^ k) * sc"
      by (simp add: kk)
    with True s0 show ?thesis by (simp add: kk mult_ac)
  next
    case False
    with s0 lo show ?thesis by (auto simp: sc_def)
  qed
  then show "10 ^ (k - 1) \<le> s" "s < 10 ^ k" "rnd (of_int s * 10 powi (n - int k)) = Fin q"
    "n = dec_exp q \<or> n = dec_exp q + 1" by (auto simp: N_def)
qed

subsection \<open>Reading back\<close>

lemma dec_shortest_spec:
  assumes "q > 0" "list_ex (\<lambda>k. dec_try q k \<noteq> None) [1..<18]" "dec_shortest q = (k, n, s)"
  shows "0 < k" "10 ^ (k - 1) \<le> s" "s < 10 ^ k" "rnd (of_int s * 10 powi (n - int k)) = Fin q"
    "n = dec_exp q \<or> n = dec_exp q + 1"
proof -
  from assms(2) obtain j where j: "find (\<lambda>k. dec_try q k \<noteq> None) [1..<18] = Some j"
    by (cases "find (\<lambda>k. dec_try q k \<noteq> None) [1..<18]") (auto simp: find_None_iff list_ex_iff)
  then have "dec_try q j \<noteq> None" "j \<in> set [1..<18]"
    by (auto simp: find_Some_iff)
  moreover from j assms(3) have "k = j" "dec_try q j \<noteq> None \<Longrightarrow> dec_try q j = Some (n, s)"
    by (auto simp: dec_shortest_def)
  ultimately have k: "0 < k" "dec_try q k = Some (n, s)" by auto
  show "0 < k" by (rule k)
  show "10 ^ (k - 1) \<le> s" "s < 10 ^ k" "rnd (of_int s * 10 powi (n - int k)) = Fin q"
    "n = dec_exp q \<or> n = dec_exp q + 1"
    using dec_try_spec [OF assms(1) k] .
qed

lemma before_after_split:
  "c \<notin> set s \<Longrightarrow> before c (s @ c # t) = s" "c \<notin> set s \<Longrightarrow> after c (s @ c # t) = t"
  "c \<notin> set s \<Longrightarrow> before c s = s" "c \<notin> set s \<Longrightarrow> after c s = []"
proof -
  assume c: "c \<notin> set s"
  then have "\<And>x. x \<in> set s \<Longrightarrow> x \<noteq> c" by auto
  then show "before c (s @ c # t) = s" "after c (s @ c # t) = t"
    by (simp_all add: before_def after_def takeWhile_append2 dropWhile_append2)
  from c have d: "dropWhile (\<lambda>x. x \<noteq> c) s = []" by (auto simp: dropWhile_eq_Nil_conv)
  show "after c s = []" by (simp only: after_def d drop_Nil)
  from c show "before c s = s" by (auto simp: before_def takeWhile_eq_all_conv)
qed

lemma js_marks:
  "js ''.'' = [46]" "js ''0.'' = [48, 46]" "js ''e'' = [101]" "js ''-'' = [45]" "js ''+'' = [43]" "js ''0'' = [48]"
  by (simp_all add: js_def)

lemma digits_not_mark: "0 \<le> s \<Longrightarrow> c \<notin> set (dec_digits s)" if "c = 46 \<or> c = 101 \<or> c = 45"
  using that dec_digits_digit [of s c] by (auto simp: is_digit_def)

lemma exp_text_val: "exp_text e = 101 # t \<Longrightarrow> exp_val t = e"
  by (auto simp: exp_text_def js_marks exp_val_def digits_val_dec split: if_splits)

lemma exp_text_eq: "\<exists>t. exp_text e = 101 # t"
  by (simp add: exp_text_def js_marks)

lemma decimal_val_plain:
  "46 \<notin> set i \<Longrightarrow> 101 \<notin> set i \<Longrightarrow> decimal_val i = of_int (digits_val i)"
  by (simp add: decimal_val_def Let_def before_after_split exp_val_def)

lemma decimal_val_point:
  assumes "46 \<notin> set i" "101 \<notin> set i" "101 \<notin> set f"
  shows "decimal_val (i @ 46 # f) = of_int (digits_val (i @ f)) * 10 powi (- int (length f))"
proof -
  have "101 \<notin> set (i @ 46 # f)" using assms by auto
  with assms show ?thesis
    by (simp add: decimal_val_def Let_def before_after_split exp_val_def)
qed

lemma decimal_val_exp:
  assumes "46 \<notin> set i" "101 \<notin> set i"
  shows "decimal_val (i @ exp_text e) = of_int (digits_val i) * 10 powi e"
proof -
  obtain t where t: "exp_text e = 101 # t" using exp_text_eq by blast
  with assms show ?thesis
    by (simp add: decimal_val_def Let_def before_after_split exp_text_val)
qed

lemma decimal_val_point_exp:
  assumes "46 \<notin> set i" "101 \<notin> set i" "101 \<notin> set f"
  shows "decimal_val (i @ 46 # f @ exp_text e) = of_int (digits_val (i @ f)) * 10 powi (e - int (length f))"
proof -
  obtain t where t: "exp_text e = 101 # t" using exp_text_eq by blast
  have n: "101 \<notin> set (i @ 46 # f)" using assms by auto
  have e: "i @ 46 # f @ exp_text e = (i @ 46 # f) @ 101 # t" using t by simp
  have "before 101 (i @ 46 # f @ exp_text e) = i @ 46 # f" "after 101 (i @ 46 # f @ exp_text e) = t"
    unfolding e using n by (rule before_after_split)+
  with assms show ?thesis
    by (simp add: decimal_val_def Let_def before_after_split(1,2) exp_text_val [OF t])
qed

text \<open>Every format of the text denotes the decimal it was made from.\<close>

lemma decimal_val_pos_text:
  assumes sh: "dec_shortest q = (k, n, s)" and k: "0 < k" and s: "10 ^ (k - 1) \<le> s" "s < 10 ^ k"
  shows "decimal_val (pos_text q) = of_int s * 10 powi (n - int k)"
proof -
  let ?ds = "dec_digits s"
  have s0: "0 < s" using s(1) by (rule less_le_trans [rotated]) simp
  have len: "length ?ds = k" using dec_digits_length_eq [OF s k] .
  have nm: "46 \<notin> set ?ds" "101 \<notin> set ?ds" using s0 digits_not_mark by auto
  then have nt: "46 \<notin> set (take m ?ds)" "101 \<notin> set (take m ?ds)" "101 \<notin> set (drop m ?ds)" for m
    by (auto dest: in_set_takeD in_set_dropD)
  have dv: "digits_val ?ds = s" using s0 by (intro digits_val_dec) simp
  have ptext: "pos_text q =
     (if int k \<le> n \<and> n \<le> 21 then ?ds @ replicate (nat (n - int k)) 48
      else if 0 < n \<and> n \<le> 21 then take (nat n) ?ds @ 46 # drop (nat n) ?ds
      else if - 6 < n \<and> n \<le> 0 then [48] @ 46 # (replicate (nat (- n)) 48 @ ?ds)
      else if k = 1 then ?ds @ exp_text (n - 1)
      else take 1 ?ds @ 46 # drop 1 ?ds @ exp_text (n - 1))"
    by (simp add: pos_text_def sh Let_def js_marks)
  consider (a) "int k \<le> n" "n \<le> 21" | (b) "n < int k" "0 < n" "n \<le> 21" | (c) "n < int k" "- 6 < n" "n \<le> 0"
    | (d) "\<not> (int k \<le> n \<and> n \<le> 21)" "\<not> (0 < n \<and> n \<le> 21)" "\<not> (- 6 < n \<and> n \<le> 0)" "k = 1"
    | (e) "\<not> (int k \<le> n \<and> n \<le> 21)" "\<not> (0 < n \<and> n \<le> 21)" "\<not> (- 6 < n \<and> n \<le> 0)" "k \<noteq> 1"
    by linarith
  then show ?thesis
  proof cases
    case a
    then have "pos_text q = ?ds @ replicate (nat (n - int k)) 48" by (simp add: ptext)
    moreover have "46 \<notin> set (?ds @ replicate (nat (n - int k)) 48)" "101 \<notin> set (?ds @ replicate (nat (n - int k)) 48)"
      using nm by auto
    ultimately show ?thesis
      using a powi_10_nat [of "n - int k"] by (simp add: decimal_val_plain digits_val_zeros dv)
  next
    case b
    then have "pos_text q = take (nat n) ?ds @ 46 # drop (nat n) ?ds" by (simp add: ptext)
    then show ?thesis using b nt by (simp add: decimal_val_point dv len of_nat_diff)
  next
    case c
    have "101 \<notin> set (replicate (nat (- n)) 48 @ ?ds)" using nm by auto
    then have "decimal_val ([48] @ 46 # (replicate (nat (- n)) 48 @ ?ds)) =
        of_int (digits_val ([48] @ (replicate (nat (- n)) 48 @ ?ds))) * 10 powi (- int (length (replicate (nat (- n)) 48 @ ?ds)))"
      by (intro decimal_val_point) auto
    moreover have "digits_val ([48] @ (replicate (nat (- n)) 48 @ ?ds)) = s"
      using digits_val_lead_zeros [of "Suc (nat (- n))" ?ds] dv by simp
    ultimately show ?thesis using c k by (simp add: ptext len)
  next
    case d
    have "pos_text q = ?ds @ exp_text (n - 1)"
      unfolding ptext if_not_P [OF d(1)] if_not_P [OF d(2)] if_not_P [OF d(3)] if_P [OF d(4)] ..
    then show ?thesis using nm d by (simp add: decimal_val_exp dv)
  next
    case e
    have "pos_text q = take 1 ?ds @ 46 # drop 1 ?ds @ exp_text (n - 1)"
      unfolding ptext if_not_P [OF e(1)] if_not_P [OF e(2)] if_not_P [OF e(3)] if_not_P [OF e(4)] ..
    moreover have "n - 1 - int (k - 1) = n - int k" using k by (simp add: of_nat_diff)
    moreover have "decimal_val (take 1 ?ds @ 46 # drop 1 ?ds @ exp_text (n - 1)) = of_int s * 10 powi (n - 1 - int (k - 1))"
      by (subst decimal_val_point_exp [OF nt]) (simp only: append_take_drop_id dv length_drop len)
    ultimately show ?thesis by simp
  qed
qed

lemma pos_text_head: "\<exists>c cs. pos_text q = c # cs \<and> is_digit c"
  if "dec_shortest q = (k, n, s)" "0 < s"
proof -
  obtain c cs where ds: "dec_digits s = c # cs" by (cases "dec_digits s") simp_all
  then have c: "is_digit c" using dec_digits_digit [of s c] that(2) by auto
  have z: "is_digit 48" by (simp add: is_digit_def)
  show ?thesis
    using c z by (auto simp: pos_text_def that(1) Let_def js_marks ds take_Cons' split: if_splits)
qed

lemma pos_text_read:
  assumes "q > 0" "list_ex (\<lambda>k. dec_try q k \<noteq> None) [1..<18]"
  shows "rnd (decimal_val (pos_text q)) = Fin q" "num_read (pos_text q) = Fin q"
proof -
  obtain k n s where sh: "dec_shortest q = (k, n, s)" by (cases "dec_shortest q") auto
  note sp = dec_shortest_spec [OF assms sh]
  show r: "rnd (decimal_val (pos_text q)) = Fin q"
    using decimal_val_pos_text [OF sh sp(1-3)] sp(4) by simp
  have "0 < s" using sp(2) by (rule less_le_trans [rotated]) simp
  then obtain c cs where "pos_text q = c # cs" "is_digit c" using pos_text_head [OF sh] by blast
  with r show "num_read (pos_text q) = Fin q" by (auto simp: num_read_def is_digit_def)
qed

lemma rnd_minus: "rnd q = Fin q \<Longrightarrow> q > 0 \<Longrightarrow> rnd (- q) = Fin (- q)"
  by (auto simp: rnd_def split: if_splits)

text \<open>The round trip: the text of a number reads back as the number.\<close>

lemma num_read_text: "has_text x \<Longrightarrow> num_read (num_text x) = x"
proof -
  assume h: "has_text x"
  then obtain q where x: "x = Fin q" and q: "q = 0 \<or> list_ex (\<lambda>k. dec_try \<bar>q\<bar> k \<noteq> None) [1..<18]"
    by (auto simp: has_text_def split: jnum.splits)
  consider "q = 0" | "q > 0" | "q < 0" by linarith
  then show ?thesis
  proof cases
    case 1
    then show ?thesis
      by (simp add: x js_marks num_read_def decimal_val_plain digits_val_def rnd_def)
  next
    case 2
    with q pos_text_read [of q] show ?thesis by (simp add: x)
  next
    case 3
    with q have r: "rnd (decimal_val (pos_text (- q))) = Fin (- q)" by (intro pos_text_read) auto
    have d: "rnd (- decimal_val (pos_text (- q))) = Fin q"
    proof (cases "decimal_val (pos_text (- q)) > 0")
      case True
      then show ?thesis using r 3 by (auto simp: rnd_def split: if_splits)
    next
      case False
      then show ?thesis using r 3 rnd_pos_nonneg [of "- decimal_val (pos_text (- q))"]
        by (auto simp: rnd_def split: if_splits)
    qed
    with 3 show ?thesis by (simp add: x js_marks num_read_def)
  qed
qed

lemma num_text_inj: "has_text x \<Longrightarrow> has_text y \<Longrightarrow> num_text x = num_text y \<Longrightarrow> x = y"
  by (metis num_read_text)

subsection \<open>Integers\<close>

text \<open>An integer that rounds to a safe integer is that integer.\<close>

lemma rnd_int_safe: "rnd (of_int j) = Fin (of_int i) \<Longrightarrow> \<bar>i\<bar> \<le> max_safe \<Longrightarrow> j = i"
proof -
  assume r: "rnd (of_int j) = Fin (of_int i)" and i: "\<bar>i\<bar> \<le> max_safe"
  have ints: "rnd (of_int (2 ^ 53)) = Fin (of_int (2 ^ 53))" "rnd (of_int (- (2 ^ 53))) = Fin (of_int (- (2 ^ 53)))"
    by (rule rnd_int; simp)+
  consider "\<bar>j\<bar> \<le> 2 ^ 53" | "j > 2 ^ 53" | "j < - (2 ^ 53)" by linarith
  then show ?thesis
  proof cases
    case 1
    with r show ?thesis by (simp add: rnd_int)
  next
    case 2
    then have "(of_int (2 ^ 53) :: rat) \<le> of_int j" by (simp only: of_int_le_iff)
    then have "jle (Fin (of_int (2 ^ 53))) (Fin (of_int i))" using rnd_mono [of "of_int (2 ^ 53)" "of_int j"] ints r by simp
    then have "2 ^ 53 \<le> i" by (simp only: jle_simps of_int_le_iff)
    with i show ?thesis by (simp add: max_safe_def)
  next
    case 3
    then have "(of_int j :: rat) \<le> of_int (- (2 ^ 53))" by (simp only: of_int_le_iff)
    then have "jle (Fin (of_int i)) (Fin (of_int (- (2 ^ 53))))" using rnd_mono [of "of_int j" "of_int (- (2 ^ 53))"] ints r by simp
    then have "i \<le> - (2 ^ 53)" by (simp only: jle_simps of_int_le_iff)
    with i show ?thesis by (simp add: max_safe_def)
  qed
qed

lemma dec_exp_int: "0 < i \<Longrightarrow> dec_exp (of_int i) = int (length (dec_digits i))"
  by (rule dec_exp_unique) (use dec_digits_length_powi in auto)

lemma dec_digits_length_safe: "0 < i \<Longrightarrow> i \<le> max_safe \<Longrightarrow> length (dec_digits i) \<le> 16"
proof (rule ccontr)
  assume i: "0 < i" "i \<le> max_safe" and "\<not> length (dec_digits i) \<le> 16"
  then have "(10::int) ^ 16 \<le> 10 ^ (length (dec_digits i) - 1)" by (intro power_increasing) auto
  also have "\<dots> \<le> i" using dec_digits_length i(1) by blast
  finally show False using i(2) by (simp add: max_safe_def)
qed

lemma dec_try_int:
  assumes "0 < i" "i \<le> max_safe"
  shows "dec_try (of_int i) (length (dec_digits i)) \<noteq> None"
proof -
  have "rnd (of_int i) = Fin (of_int i)" using assms by (intro rnd_int) (simp add: max_safe_def)
  then show ?thesis using assms(1) by (auto simp: dec_try_def dec_exp_int Let_def)
qed

lemma has_text_int: "\<bar>i\<bar> \<le> max_safe \<Longrightarrow> has_text (jint i)"
proof -
  assume i: "\<bar>i\<bar> \<le> max_safe"
  show ?thesis
  proof (cases "i = 0")
    case False
    with i have "dec_try (of_int \<bar>i\<bar>) (length (dec_digits \<bar>i\<bar>)) \<noteq> None"
      by (intro dec_try_int) simp_all
    moreover have "length (dec_digits \<bar>i\<bar>) \<in> set [1..<18]"
      using False i dec_digits_length_safe [of "\<bar>i\<bar>"] by (simp add: Suc_le_eq)
    ultimately have "\<exists>k \<in> set [1..<18]. dec_try (of_int \<bar>i\<bar>) k \<noteq> None" by blast
    then have "list_ex (\<lambda>k. dec_try \<bar>of_int i\<bar> k \<noteq> None) [1..<18]"
      unfolding list_ex_iff of_int_abs [symmetric] .
    then show ?thesis by (simp add: has_text_def jint_def)
  qed (simp add: has_text_def jint_def)
qed

lemma pos_text_int:
  assumes i: "0 < i" "i \<le> max_safe"
  shows "pos_text (of_int i) = dec_digits i"
proof -
  let ?q = "of_int i :: rat" and ?l = "length (dec_digits i)"
  obtain k n s where sh: "dec_shortest ?q = (k, n, s)" by (cases "dec_shortest ?q") auto
  have l: "1 \<le> ?l" "?l \<le> 16" using dec_digits_length_safe [OF i] by (simp_all add: Suc_le_eq)
  have ex: "list_ex (\<lambda>k. dec_try ?q k \<noteq> None) [1..<18]"
    unfolding list_ex_iff using dec_try_int [OF i] l by (intro bexI [of _ ?l]) auto
  note sp = dec_shortest_spec [OF _ ex sh]
  have kl: "k \<le> ?l"
  proof -
    have "\<exists>j. find (\<lambda>k. dec_try ?q k \<noteq> None) [1..<18] = Some j"
      using ex by (cases "find (\<lambda>k. dec_try ?q k \<noteq> None) [1..<18]") (auto simp: find_None_iff list_ex_iff)
    then obtain j where j: "find (\<lambda>k. dec_try ?q k \<noteq> None) [1..<18] = Some j" ..
    then have "k = j" using sh by (simp add: dec_shortest_def)
    from j obtain m where m: "m < length [1..<18]" "[1..<18] ! m = j" "\<forall>m'<m. \<not> dec_try ?q ([1..<18] ! m') \<noteq> None"
      unfolding find_Some_iff by blast
    have "\<not> ?l - 1 < m"
    proof
      assume lm: "?l - 1 < m"
      with m(3) have "\<not> dec_try ?q ([1..<18] ! (?l - 1)) \<noteq> None" by blast
      moreover have "[1..<18] ! (?l - 1) = ?l" using l by (subst nth_upt) auto
      ultimately show False using dec_try_int [OF i] by simp
    qed
    moreover have "j = 1 + m" using m(1,2) by (subst (asm) nth_upt) auto
    ultimately show ?thesis using \<open>k = j\<close> l by linarith
  qed
  have n: "int k \<le> n" "n \<le> 17" using sp(5) i(1) kl l by (auto simp: dec_exp_int)
  have s0: "0 < s" using sp(2) i(1) by (auto intro: less_le_trans [rotated])
  have "of_int s * (10::rat) powi (n - int k) = of_int (s * 10 ^ nat (n - int k))"
    unfolding of_int_mult of_int_power of_int_numeral power_int_def using n(1) by simp
  then have "rnd (of_int (s * 10 ^ nat (n - int k))) = Fin (of_int i)"
    using sp(4) i(1) by (metis of_int_0_less_iff)
  then have "s * 10 ^ nat (n - int k) = i" using i by (intro rnd_int_safe) auto
  moreover have "pos_text ?q = dec_digits s @ replicate (nat (n - int k)) 48"
    using n by (simp add: pos_text_def sh)
  ultimately show ?thesis using dec_digits_mult10 [OF s0, of "nat (n - int k)"] by metis
qed

text \<open>The text of a safe integer is its decimal digits.\<close>

lemma num_text_int: "\<bar>i\<bar> \<le> max_safe \<Longrightarrow> num_text (jint i) = int_text i"
proof -
  assume i: "\<bar>i\<bar> \<le> max_safe"
  consider "i = 0" | "i > 0" | "i < 0" by linarith
  then show ?thesis
  proof cases
    case 1
    then show ?thesis by (simp add: jint_def int_text_def js_marks dec_digits.simps)
  next
    case 2
    with i show ?thesis by (simp add: jint_def int_text_def pos_text_int)
  next
    case 3
    with i pos_text_int [of "- i"] show ?thesis by (simp add: jint_def int_text_def)
  qed
qed

end
