(* ===== verification/Bytes.thy ===== *)
theory Bytes
  imports Canonical
begin

section \<open>Bytes: UTF-8, hexadecimal\<close>

text \<open>
  The byte helpers of \<^verbatim>\<open>packages/verify/src/anchor.ts\<close>: \<open>TextEncoder.encode\<close>, \<open>toHex\<close>, \<open>fromHex\<close> and the digest shape
  \<open>isHex32\<close>. Bytes are natural numbers below 256. UTF-8 is injective on well-formed strings, the canonical text is one, so
  the bytes a signature or digest covers determine the document.
\<close>

type_synonym bytes = "nat list"

subsection \<open>\<open>TextEncoder.encode\<close>\<close>

text \<open>A lone surrogate is written as U+FFFD; a pair as the four bytes of its code point.\<close>

definition utf8_unit :: "nat \<Rightarrow> bytes" where
  "utf8_unit c =
     (if c < 0x80 then [c]
      else if c < 0x800 then [0xc0 + c div 64, 0x80 + c mod 64]
      else [0xe0 + c div 4096, 0x80 + c div 64 mod 64, 0x80 + c mod 64])"

definition utf8_pair :: "nat \<Rightarrow> nat \<Rightarrow> bytes" where
  "utf8_pair h l = (let p = (h - 0xd800) * 1024 + (l - 0xdc00) + 0x10000
     in [0xf0 + p div 262144, 0x80 + p div 4096 mod 64, 0x80 + p div 64 mod 64, 0x80 + p mod 64])"

fun utf8 :: "jsstr \<Rightarrow> bytes" where
  "utf8 [] = []"
| "utf8 (c # cs) =
     (if hi_surrogate c then
        (case cs of
           [] \<Rightarrow> utf8_unit 0xfffd
         | d # ds \<Rightarrow> if lo_surrogate d then utf8_pair c d @ utf8 ds else utf8_unit 0xfffd @ utf8 cs)
      else if lo_surrogate c then utf8_unit 0xfffd @ utf8 cs
      else utf8_unit c @ utf8 cs)"

subsection \<open>Hexadecimal\<close>

definition hex_byte :: "nat \<Rightarrow> jsstr" where
  "hex_byte b = [hex_digit (b div 16), hex_digit (b mod 16)]"

definition to_hex :: "bytes \<Rightarrow> jsstr" where
  "to_hex bs = concat (map hex_byte bs)"

text \<open>\<open>parseInt(.., 16)\<close> of two lower-case hex digits.\<close>

definition hex_value :: "nat \<Rightarrow> nat" where
  "hex_value h = (if is_digit h then h - 48 else h - 87)"

fun hex_bytes :: "jsstr \<Rightarrow> bytes" where
  "hex_bytes (a # b # s) = (16 * hex_value a + hex_value b) # hex_bytes s"
| "hex_bytes _ = []"

definition from_hex :: "jsval \<Rightarrow> bytes outcome" where
  "from_hex v = (case v of VStr s \<Rightarrow> if is_hex64 s then Inr (hex_bytes s) else Inl TypeErr | _ \<Rightarrow> Inl TypeErr)"

definition is_hex32 :: "jsval \<Rightarrow> bool" where
  "is_hex32 v = (case v of VStr s \<Rightarrow> is_hex64 s | _ \<Rightarrow> False)"

definition is_size :: "jsval \<Rightarrow> bool" where
  "is_size v = (case v of VNum n \<Rightarrow> is_safe_int n \<and> jle (Fin 0) n | _ \<Rightarrow> False)"

subsection \<open>Hexadecimal is a bijection between 32-byte strings and digests\<close>

definition is_bytes :: "nat \<Rightarrow> bytes \<Rightarrow> bool" where
  "is_bytes n bs \<longleftrightarrow> length bs = n \<and> (\<forall>b \<in> set bs. b < 256)"

lemma hex_digit_lower: "d < 16 \<Longrightarrow> is_lower_hex (hex_digit d)"
  by (auto simp: hex_digit_def is_lower_hex_def is_digit_def)

lemma hex_value_digit: "d < 16 \<Longrightarrow> hex_value (hex_digit d) = d"
  by (auto simp: hex_digit_def hex_value_def is_digit_def)

lemma hex_digit_value: "is_lower_hex h \<Longrightarrow> hex_digit (hex_value h) = h"
  by (auto simp: hex_digit_def hex_value_def is_digit_def is_lower_hex_def)

lemma hex_value_less: "is_lower_hex h \<Longrightarrow> hex_value h < 16"
  by (auto simp: hex_value_def is_digit_def is_lower_hex_def)

lemma to_hex_Cons: "to_hex (b # bs) = hex_digit (b div 16) # hex_digit (b mod 16) # to_hex bs"
  by (simp add: to_hex_def hex_byte_def)

lemma to_hex_Nil [simp]: "to_hex [] = []"
  by (simp add: to_hex_def)

lemma length_to_hex [simp]: "length (to_hex bs) = 2 * length bs"
  by (induction bs) (auto simp: to_hex_Cons)

lemma to_hex_lower: "\<forall>b \<in> set bs. b < 256 \<Longrightarrow> list_all is_lower_hex (to_hex bs)"
  by (induction bs) (auto simp: to_hex_Cons intro!: hex_digit_lower)

lemma hex_bytes_to_hex: "\<forall>b \<in> set bs. b < 256 \<Longrightarrow> hex_bytes (to_hex bs) = bs"
  by (induction bs) (auto simp: to_hex_Cons hex_value_digit)

lemma to_hex_hex_bytes: "even (length s) \<Longrightarrow> list_all is_lower_hex s \<Longrightarrow> to_hex (hex_bytes s) = s"
proof (induction s rule: hex_bytes.induct)
  case (1 a b s)
  then have "hex_value a < 16" "hex_value b < 16" by (auto intro: hex_value_less)
  then have "(16 * hex_value a + hex_value b) div 16 = hex_value a" "(16 * hex_value a + hex_value b) mod 16 = hex_value b" by simp_all
  with 1 show ?case by (simp add: to_hex_Cons hex_digit_value)
qed auto

lemma hex_bytes_range: "list_all is_lower_hex s \<Longrightarrow> \<forall>b \<in> set (hex_bytes s). b < 256"
proof (induction s rule: hex_bytes.induct)
  case (1 a b s)
  then have "hex_value a < 16" "hex_value b < 16" by (auto intro: hex_value_less)
  with 1 show ?case by auto
qed auto

lemma length_hex_bytes: "length (hex_bytes s) = length s div 2"
  by (induction s rule: hex_bytes.induct) auto

lemma hex_bytes_is_bytes: "is_hex64 s \<Longrightarrow> is_bytes 32 (hex_bytes s)"
  using hex_bytes_range by (auto simp: is_hex64_def is_bytes_def length_hex_bytes)

lemma to_hex_is_hex64: "is_bytes 32 bs \<Longrightarrow> is_hex64 (to_hex bs)"
  using to_hex_lower by (auto simp: is_hex64_def is_bytes_def)

lemma to_hex_from: "is_hex64 s \<Longrightarrow> to_hex (hex_bytes s) = s"
  by (auto simp: is_hex64_def intro!: to_hex_hex_bytes)

lemma from_to_hex: "is_bytes n bs \<Longrightarrow> hex_bytes (to_hex bs) = bs"
  by (auto simp: is_bytes_def intro!: hex_bytes_to_hex)

lemma to_hex_inj: "is_bytes n bs \<Longrightarrow> is_bytes m cs \<Longrightarrow> to_hex bs = to_hex cs \<Longrightarrow> bs = cs"
  by (metis from_to_hex)

subsection \<open>UTF-8 is injective on well-formed strings\<close>

text \<open>The code units of a JavaScript string are below 65536.\<close>

definition units :: "jsstr \<Rightarrow> bool" where
  "units s \<longleftrightarrow> (\<forall>c \<in> set s. c < 65536)"

text \<open>A decoder of one character, the inverse of the two encoders.\<close>

definition utf8_first :: "bytes \<Rightarrow> jsstr \<times> bytes" where
  "utf8_first bs = (case bs of
      a # r \<Rightarrow>
        if a < 0x80 then ([a], r)
        else if a < 0xe0 then (case r of b # r \<Rightarrow> ([(a - 0xc0) * 64 + (b - 0x80)], r) | _ \<Rightarrow> ([], r))
        else if a < 0xf0 then (case r of b # c # r \<Rightarrow> ([(a - 0xe0) * 4096 + (b - 0x80) * 64 + (c - 0x80)], r) | _ \<Rightarrow> ([], r))
        else (case r of
            b # c # d # r \<Rightarrow>
              let p = (a - 0xf0) * 262144 + (b - 0x80) * 4096 + (c - 0x80) * 64 + (d - 0x80) - 0x10000
              in ([0xd800 + p div 1024, 0xdc00 + p mod 1024], r)
          | _ \<Rightarrow> ([], r))
    | [] \<Rightarrow> ([], []))"

lemma split_64: "(c::nat) div 4096 * 4096 + c div 64 mod 64 * 64 + c mod 64 = c"
proof -
  have "c div 4096 = c div 64 div 64" by (simp add: div_mult2_eq [symmetric])
  moreover have "c div 64 div 64 * 64 + c div 64 mod 64 = c div 64" by simp
  moreover have "c div 64 * 64 + c mod 64 = c" by simp
  ultimately show ?thesis by linarith
qed

lemma utf8_first_unit: "c < 65536 \<Longrightarrow> utf8_first (utf8_unit c @ r) = ([c], r)"
proof -
  assume c: "c < 65536"
  have "c div 4096 < 16" using c by (simp add: less_mult_imp_div_less)
  moreover have "c < 2048 \<Longrightarrow> c div 64 < 32" by (simp add: less_mult_imp_div_less)
  ultimately show ?thesis using split_64 [of c] by (auto simp: utf8_unit_def utf8_first_def)
qed

lemma utf8_first_pair: "hi_surrogate h \<Longrightarrow> lo_surrogate l \<Longrightarrow> utf8_first (utf8_pair h l @ r) = ([h, l], r)"
proof -
  assume h: "hi_surrogate h" and l: "lo_surrogate l"
  define x where "x = (h - 0xd800) * 1024 + (l - 0xdc00)"
  define p where "p = x + 0x10000"
  have "l - 0xdc00 < 1024" using l by (simp add: lo_surrogate_def) linarith
  then have x: "x div 1024 = h - 0xd800" "x mod 1024 = l - 0xdc00"
    using l by (simp_all add: x_def lo_surrogate_def div_mult_self3 mod_mult_self3 del: add_diff_assoc)
  have "p div 262144 = p div 4096 div 64" by (simp add: div_mult2_eq [symmetric])
  moreover have "p div 4096 div 64 * 64 + p div 4096 mod 64 = p div 4096" by simp
  ultimately have "p div 262144 * 262144 + p div 4096 mod 64 * 4096 = p div 4096 * 4096" by linarith
  with split_64 [of p] have "p div 262144 * 262144 + p div 4096 mod 64 * 4096 + p div 64 mod 64 * 64 + p mod 64 = p" by linarith
  then show ?thesis using x h l
    unfolding utf8_pair_def utf8_first_def x_def [symmetric] p_def [symmetric]
    by (simp add: Let_def hi_surrogate_def lo_surrogate_def p_def)
qed

lemma utf8_ne: "utf8_unit c \<noteq> []" "utf8_pair h l \<noteq> []"
  by (simp_all add: utf8_unit_def utf8_pair_def Let_def)

lemma utf8_Nil_iff [simp]: "utf8 s = [] \<longleftrightarrow> s = []"
  by (cases s) (auto simp: utf8_ne split: list.splits)

lemma utf8_first_utf8:
  "\<not> has_lone_surrogate s \<Longrightarrow> units s \<Longrightarrow> s \<noteq> [] \<Longrightarrow>
     \<exists>c t. s = c @ t \<and> c \<noteq> [] \<and> \<not> has_lone_surrogate t \<and> utf8_first (utf8 s) = (c, utf8 t)"
proof (cases s)
  case (Cons c cs)
  assume s: "\<not> has_lone_surrogate s" "units s"
  show ?thesis
  proof (cases "hi_surrogate c")
    case True
    with s Cons obtain d ds where d: "cs = d # ds" "lo_surrogate d" "\<not> has_lone_surrogate ds"
      by (auto split: list.splits if_splits)
    with True Cons have "utf8_first (utf8 s) = ([c, d], utf8 ds)" by (simp add: utf8_first_pair)
    with d Cons show ?thesis by (intro exI [of _ "[c, d]"] exI [of _ ds]) simp
  next
    case False
    with s Cons have n: "\<not> lo_surrogate c" "\<not> has_lone_surrogate cs" "c < 65536" by (auto simp: units_def split: if_splits)
    with False Cons have "utf8_first (utf8 s) = ([c], utf8 cs)" by (simp add: utf8_first_unit)
    with n Cons show ?thesis by (intro exI [of _ "[c]"] exI [of _ cs]) simp
  qed
qed simp

lemma utf8_inj:
  "\<not> has_lone_surrogate s \<Longrightarrow> \<not> has_lone_surrogate t \<Longrightarrow> units s \<Longrightarrow> units t \<Longrightarrow> utf8 s = utf8 t \<Longrightarrow> s = t"
proof (induction "length s" arbitrary: s t rule: less_induct)
  case less
  show ?case
  proof (cases "s = []")
    case True
    with less.prems(5) show ?thesis using utf8_Nil_iff [of t] by simp
  next
    case False
    with less.prems(5) have "t \<noteq> []" using utf8_Nil_iff [of t] utf8_Nil_iff [of s] by force
    from utf8_first_utf8 [OF less.prems(1,3) False] obtain c s' where
      s: "s = c @ s'" "c \<noteq> []" "\<not> has_lone_surrogate s'" "utf8_first (utf8 s) = (c, utf8 s')" by blast
    from utf8_first_utf8 [OF less.prems(2,4) \<open>t \<noteq> []\<close>] obtain d t' where
      t: "t = d @ t'" "d \<noteq> []" "\<not> has_lone_surrogate t'" "utf8_first (utf8 t) = (d, utf8 t')" by blast
    from s(4) t(4) less.prems(5) have e: "c = d" "utf8 s' = utf8 t'" by simp_all
    have "s' = t'"
      by (rule less.hyps) (use s t e less.prems in \<open>auto simp: units_def\<close>)
    with e s t show ?thesis by simp
  qed
qed

end
