(* ===== verification/CanonicalFacts.thy ===== *)
theory CanonicalFacts
  imports Canonical NumText Bytes
begin

section \<open>Canonical JSON: one text per value, one value per text\<close>

text \<open>
  The correctness of \<open>canonical\<close>. \<open>jnorm\<close> sorts the members of every object of a value, so \<open>jnorm u = jnorm v\<close> says
  that two values are the same JSON document. The results: \<open>canonical\<close> returns exactly on the JSON values whose strings are
  well-formed Unicode (\<open>json_ok\<close>); its text is itself well-formed Unicode; it depends on \<open>jnorm\<close> only; and it is
  injective up to \<open>jnorm\<close>, by reading the text back from the left: a string ends at its closing quote, a number at the first
  character that no number contains, an array or object at its bracket.
\<close>

subsection \<open>An induction rule and the normal form\<close>

lemma jsval_tree_induct [case_names VUndef VNull VBool VNum VStr VArr VObj VInst VOther VHole]:
  assumes "P VUndef" "P VNull" "\<And>b. P (VBool b)" "\<And>n. P (VNum n)" "\<And>s. P (VStr s)"
    and "\<And>xs. (\<And>x. x \<in> set xs \<Longrightarrow> P x) \<Longrightarrow> P (VArr xs)"
    and "\<And>fs. (\<And>k v. (k, v) \<in> set fs \<Longrightarrow> P v) \<Longrightarrow> P (VObj fs)"
    and "\<And>fs. P (VInst fs)" "\<And>a b. P (VOther a b)" "P VHole"
  shows "P v"
  by (induction v) (auto intro: assms)

primrec jnorm :: "jsval \<Rightarrow> jsval" where
  "jnorm VUndef = VUndef"
| "jnorm VNull = VNull"
| "jnorm (VBool b) = VBool b"
| "jnorm (VNum n) = VNum n"
| "jnorm (VStr s) = VStr s"
| "jnorm (VArr xs) = VArr (map jnorm xs)"
| "jnorm (VObj fs) = VObj (sort_members (map (map_prod id jnorm) fs))"
| "jnorm (VInst fs) = VInst (map (map_prod id jnorm) fs)"
| "jnorm (VOther a b) = VOther a b"
| "jnorm VHole = VHole"

lemma js_insert_map: "js_insert le (h x) (map h xs) = map h (js_insert (\<lambda>a b. le (h a) (h b)) x xs)"
  by (induction xs) auto

lemma js_sort_map: "js_sort le (map h xs) = map h (js_sort (\<lambda>a b. le (h a) (h b)) xs)"
  by (induction xs) (auto simp: js_insert_map)

lemma sort_members_map: "sort_members (map (map_prod id f) fs) = map (map_prod id f) (sort_members fs)"
  by (simp add: sort_members_def js_sort_map)

lemma sort_members_sorted: "sorted_wrt (\<lambda>a b. fst a \<le> fst b) (sort_members fs)"
  unfolding sort_members_def by (rule jss.sort_ordered) auto

lemma sort_members_idem: "sort_members (sort_members fs) = sort_members fs"
  using js_sort_id [OF sort_members_sorted] by (simp add: sort_members_def)

lemma keyed_lists_eq:
  assumes k: "map fst xs = map fst ys" and e: "set xs = set ys" and d: "distinct (map fst xs)"
  shows "xs = ys"
proof (rule nth_equalityI)
  show l: "length xs = length ys" using arg_cong [OF k, of length] by simp
  fix i assume i: "i < length xs"
  have "map fst xs ! i = map fst ys ! i" using k by simp
  with i l have f: "fst (xs ! i) = fst (ys ! i)" by simp
  have m: "xs ! i \<in> set xs" "ys ! i \<in> set xs" using i l nth_mem [of i xs] nth_mem [of i ys] by (simp_all add: e)
  have "inj_on fst (set xs)" using d by (simp add: distinct_map)
  from this f m show "xs ! i = ys ! i" by (rule inj_onD)
qed

text \<open>Members in any order sort to the same list, when no name is repeated.\<close>

lemma sort_members_perm:
  assumes "mset fs = mset gs" "distinct (map fst fs)"
  shows "sort_members fs = sort_members gs"
proof -
  have "map fst (sort_members fs) = map fst (sort_members gs)"
  proof (rule sorted_distinct_set_unique)
    show "sorted (map fst (sort_members fs))" "sorted (map fst (sort_members gs))"
      using sort_members_sorted by (auto simp: sorted_map)
    have "mset (map fst (sort_members fs)) = mset (map fst fs)" "mset (map fst (sort_members gs)) = mset (map fst fs)"
      using assms(1) by simp_all
    then show "distinct (map fst (sort_members fs))" "distinct (map fst (sort_members gs))"
      using assms(2) by (metis mset_eq_imp_distinct_iff)+
    show "set (map fst (sort_members fs)) = set (map fst (sort_members gs))"
      using mset_eq_setD [OF assms(1)] by simp
  qed
  moreover have "set (sort_members fs) = set (sort_members gs)" using mset_eq_setD [OF assms(1)] by simp
  moreover have "distinct (map fst (sort_members fs))"
    using assms(2) by (metis mset_sort_members mset_map mset_eq_imp_distinct_iff)
  ultimately show ?thesis by (intro keyed_lists_eq)
qed

subsection \<open>Reading a text back from the left\<close>

text \<open>What can follow a value inside a document: nothing, a comma or a closing bracket.\<close>

definition delim :: "jsstr \<Rightarrow> bool" where
  "delim r \<longleftrightarrow> r = [] \<or> hd r \<in> {44, 93, 125}"

lemma delim_Cons [simp]: "delim (c # r) \<longleftrightarrow> c = 44 \<or> c = 93 \<or> c = 125"
  by (auto simp: delim_def)

lemma escape_not_quote: "json_escape c = x # xs \<Longrightarrow> x \<noteq> 34"
  by (auto simp: json_escape_def split: if_splits)

lemma escape_ne: "\<exists>x xs. json_escape c = x # xs"
  by (auto simp: json_escape_def)

lemma hex_digit_inj: "a < 16 \<Longrightarrow> b < 16 \<Longrightarrow> hex_digit a = hex_digit b \<Longrightarrow> a = b"
  by (auto simp: hex_digit_def split: if_splits)

text \<open>The reader of one escaped character: the inverse of \<open>json_escape\<close> on what it writes.\<close>

lemma numeral_nth_4: "(a # b # c # d # r) ! 2 = c" "(a # b # c # d # r) ! 3 = d" "drop 4 (a # b # c # d # r) = r"
  by (simp_all add: numeral_2_eq_2 numeral_3_eq_3 numeral_Bit0)

definition hex_val :: "nat \<Rightarrow> nat" where
  "hex_val h = (if h < 58 then h - 48 else h - 87)"

fun read_escape :: "jsstr \<Rightarrow> nat \<times> jsstr" where
  "read_escape (c # r) =
     (if c \<noteq> 92 then (c, r)
      else (case r of [] \<Rightarrow> (c, r)
       | d # r' \<Rightarrow>
           if d = 34 \<or> d = 92 then (d, r') else if d = 98 then (8, r') else if d = 102 then (12, r')
           else if d = 110 then (10, r') else if d = 114 then (13, r') else if d = 116 then (9, r')
           else (16 * hex_val (r' ! 2) + hex_val (r' ! 3), drop 4 r')))"
| "read_escape [] = (0, [])"

lemma hex_val_digit: "d < 16 \<Longrightarrow> hex_val (hex_digit d) = d"
  by (auto simp: hex_val_def hex_digit_def)

lemma read_json_escape: "read_escape (json_escape c @ r) = (c, r)"
proof -
  consider "c \<in> {34, 92, 8, 12, 10, 13, 9}" | "c \<notin> {34, 92, 8, 12, 10, 13, 9}" "c < 32" | "c \<notin> {34, 92, 8, 12, 10, 13, 9}" "\<not> c < 32"
    by blast
  then show ?thesis
  proof cases
    case 1
    then show ?thesis by (elim insertE emptyE) (simp_all add: json_escape_def)
  next
    case 2
    then have "json_escape c = [92, 117, 48, 48, hex_digit (c div 16), hex_digit (c mod 16)]"
      by (simp add: json_escape_def)
    moreover have "hex_val (hex_digit (c div 16)) = c div 16" "hex_val (hex_digit (c mod 16)) = c mod 16"
      using 2(2) by (intro hex_val_digit; simp)+
    ultimately show ?thesis by (simp add: numeral_nth_4)
  next
    case 3
    then show ?thesis by (simp add: json_escape_def)
  qed
qed

lemma escape_prefix:
  assumes "json_escape c @ r = json_escape c' @ r'"
  shows "c = c' \<and> r = r'"
proof -
  have "(c, r) = read_escape (json_escape c @ r)" by (simp only: read_json_escape)
  also have "\<dots> = (c', r')" unfolding assms by (rule read_json_escape)
  finally show ?thesis by simp
qed

declare read_escape.simps [simp del]

lemma quote_body_prefix:
  "concat (map json_escape s) @ 34 # r = concat (map json_escape s') @ 34 # r' \<Longrightarrow> s = s' \<and> r = r'"
proof (induction s arbitrary: s')
  case Nil
  show ?case
  proof (cases s')
    case (Cons c cs)
    then show ?thesis using Nil escape_ne [of c] escape_not_quote [of c] by auto
  qed (use Nil in simp)
next
  case (Cons c cs)
  show ?case
  proof (cases s')
    case Nil
    then show ?thesis using Cons.prems escape_ne [of c] escape_not_quote [of c] by auto
  next
    case (Cons d ds)
    with Cons.prems have "json_escape c @ (concat (map json_escape cs) @ 34 # r)
        = json_escape d @ (concat (map json_escape ds) @ 34 # r')" by simp
    then have "c = d \<and> concat (map json_escape cs) @ 34 # r = concat (map json_escape ds) @ 34 # r'"
      by (rule escape_prefix)
    with Cons.IH [of ds] Cons show ?thesis by blast
  qed
qed

lemma quote_prefix: "json_quote s @ r = json_quote s' @ r' \<Longrightarrow> s = s' \<and> r = r'"
  using quote_body_prefix [of s r s' r'] by (simp add: json_quote_def)

text \<open>The characters of a number.\<close>

definition num_char :: "nat \<Rightarrow> bool" where
  "num_char c \<longleftrightarrow> is_digit c \<or> c \<in> {43, 45, 46, 101}"

lemma take_num_chars:
  assumes "list_all num_char t" "delim r"
  shows "takeWhile num_char (t @ r) = t"
proof -
  have "takeWhile num_char r = []" using assms(2) by (cases r) (auto simp: num_char_def is_digit_def)
  with assms(1) show ?thesis by (simp add: takeWhile_append list_all_iff)
qed

lemma num_chars_prefix:
  assumes "list_all num_char t" "list_all num_char t'" "delim r" "delim r'" "t @ r = t' @ r'"
  shows "t = t' \<and> r = r'"
proof -
  have "t = takeWhile num_char (t @ r)" using assms(1,3) by (simp add: take_num_chars)
  also have "\<dots> = t'" unfolding assms(5) using assms(2,4) by (rule take_num_chars)
  finally have "t = t'" .
  with assms(5) show ?thesis by simp
qed

lemma dec_digits_num_chars: "0 \<le> n \<Longrightarrow> list_all num_char (dec_digits n)"
  using dec_digits_digit by (auto simp: list_all_iff num_char_def)

lemma num_char_parts: "list_all num_char s \<Longrightarrow> list_all num_char (take n s) \<and> list_all num_char (drop n s)"
  by (auto simp: list_all_iff dest: in_set_takeD in_set_dropD)

lemma exp_text_num_chars: "list_all num_char (exp_text e)"
  using dec_digits_num_chars [of "\<bar>e\<bar>"] by (auto simp: exp_text_def js_def num_char_def)

lemma list_all_replicate: "list_all P (replicate n x) \<longleftrightarrow> n = 0 \<or> P x"
  by (auto simp: list_all_iff)

lemma pos_text_num_chars:
  assumes "has_text (Fin q)" "q > 0"
  shows "list_all num_char (pos_text q)"
proof -
  obtain k n s where sh: "dec_shortest q = (k, n, s)" by (cases "dec_shortest q") auto
  have "list_ex (\<lambda>k. dec_try q k \<noteq> None) [1..<18]" using assms by (simp add: has_text_def)
  then have "10 ^ (k - 1) \<le> s" by (rule dec_shortest_spec [OF assms(2) _ sh])
  then have "0 \<le> s" by (rule order_trans [rotated]) simp
  then have d: "list_all num_char (dec_digits s)" by (rule dec_digits_num_chars)
  show ?thesis
    using d exp_text_num_chars num_char_parts [OF d]
    by (simp add: pos_text_def sh Let_def js_def num_char_def is_digit_def list_all_append list_all_replicate)
qed

lemma num_text_num_chars: "has_text n \<Longrightarrow> list_all num_char (num_text n)"
proof (cases n)
  case (Fin q)
  assume t: "has_text n"
  consider "q = 0" | "q > 0" | "q < 0" by linarith
  then show ?thesis
  proof cases
    case 3
    with t Fin have "has_text (Fin (- q))" by (simp add: has_text_def)
    with 3 have "list_all num_char (pos_text (- q))" by (intro pos_text_num_chars) auto
    with 3 Fin show ?thesis by (simp add: js_def num_char_def)
  qed (use t Fin pos_text_num_chars in \<open>auto simp: js_def num_char_def is_digit_def\<close>)
qed (simp_all add: has_text_def)

subsection \<open>The values \<open>canonical\<close> accepts\<close>

primrec json_ok :: "jsval \<Rightarrow> bool" where
  "json_ok VUndef = False"
| "json_ok VNull = True"
| "json_ok (VBool b) = True"
| "json_ok (VNum n) = is_finite_num n"
| "json_ok (VStr s) = (\<not> has_lone_surrogate s)"
| "json_ok (VArr xs) = list_all id (map json_ok xs)"
| "json_ok (VObj fs) = list_all (\<lambda>kv. \<not> has_lone_surrogate (fst kv) \<and> snd kv) (map (map_prod id json_ok) fs)"
| "json_ok (VInst fs) = False"
| "json_ok (VOther a b) = False"
| "json_ok VHole = False"

lemma json_ok_simps [simp]:
  "json_ok (VArr xs) \<longleftrightarrow> (\<forall>x \<in> set xs. json_ok x)"
  "json_ok (VObj fs) \<longleftrightarrow> (\<forall>(k, v) \<in> set fs. \<not> has_lone_surrogate k \<and> json_ok v)"
  by (auto simp: list_all_iff)

declare json_ok.simps(6,7) [simp del]

lemma returns_rbind: "returns (rbind r f) \<longleftrightarrow> (\<exists>x. r = Inr x \<and> returns (f x))"
  by (cases r) auto

lemma returns_rmap: "returns (rmap f xs) \<longleftrightarrow> (\<forall>x \<in> set xs. returns (f x))"
proof (induction xs)
  case (Cons x xs)
  then show ?case by (cases "f x"; cases "rmap f xs") auto
qed simp

lemma canonical_string_returns: "returns (canonical_string s) \<longleftrightarrow> \<not> has_lone_surrogate s"
  by (simp add: canonical_string_def)

lemma canonical_returns: "returns (canonical v) \<longleftrightarrow> json_ok v"
proof (induction v rule: jsval_tree_induct)
  case (VArr xs)
  have "VHole \<in> set xs \<Longrightarrow> \<not> (\<forall>x \<in> set xs. json_ok x)" by force
  with VArr show ?case by (auto simp: returns_rbind returns_iff [symmetric] returns_rmap)
next
  case (VObj fs)
  have "returns (canonical (VObj fs)) \<longleftrightarrow> (\<forall>(k, v) \<in> set fs. v \<noteq> VUndef \<and> returns (canonical_string k) \<and> returns (canonical v))"
    by (auto simp: returns_rbind returns_iff [symmetric] returns_rmap split: prod.splits)
  also have "\<dots> \<longleftrightarrow> json_ok (VObj fs)"
    using VObj by (auto simp: canonical_string_returns)
  finally show ?case .
qed (simp_all add: canonical_string_returns)

subsection \<open>Injectivity\<close>

text \<open>The numbers of a value.\<close>

primrec nums :: "jsval \<Rightarrow> jnum list" where
  "nums VUndef = []"
| "nums VNull = []"
| "nums (VBool b) = []"
| "nums (VNum n) = [n]"
| "nums (VStr s) = []"
| "nums (VArr xs) = concat (map nums xs)"
| "nums (VObj fs) = concat (map snd (map (map_prod id nums) fs))"
| "nums (VInst fs) = []"
| "nums (VOther a b) = []"
| "nums VHole = []"

lemma nums_simps [simp]:
  "list_all P (nums (VArr xs)) \<longleftrightarrow> (\<forall>x \<in> set xs. list_all P (nums x))"
  "list_all P (nums (VObj fs)) \<longleftrightarrow> (\<forall>(k, v) \<in> set fs. list_all P (nums v))"
  by (auto simp: list_all_iff)

declare nums.simps(6,7) [simp del]

text \<open>The text of a comma-separated list of items, read from the left: if the items read back one by one, so does the list.\<close>

definition item_reads :: "('a \<Rightarrow> jsstr outcome) \<Rightarrow> ('a \<Rightarrow> 'b) \<Rightarrow> 'a \<Rightarrow> 'a \<Rightarrow> bool" where
  "item_reads f g x y \<longleftrightarrow> (\<forall>t t' r r'. f x = Inr t \<longrightarrow> f y = Inr t' \<longrightarrow> delim r \<longrightarrow> delim r' \<longrightarrow>
     t @ r = t' @ r' \<longrightarrow> g x = g y \<and> r = r')"

definition starts_item :: "jsstr \<Rightarrow> bool" where
  "starts_item t \<longleftrightarrow> (\<exists>c cs. t = c # cs \<and> c \<notin> {44, 58, 93, 125})"

lemma js_join_Cons: "js_join [44] (t # ts) = t @ (if ts = [] then [] else 44 # js_join [44] ts)"
  by (cases ts) auto

lemma list_prefix:
  assumes "\<And>x y. x \<in> set xs \<Longrightarrow> y \<in> set ys \<Longrightarrow> item_reads f g x y"
    and "\<And>x t. x \<in> set xs \<union> set ys \<Longrightarrow> f x = Inr t \<Longrightarrow> starts_item t"
    and "rmap f xs = Inr ts" "rmap f ys = Inr ts'" "c = 93 \<or> c = 125"
    and "js_join [44] ts @ c # r = js_join [44] ts' @ c # r'"
  shows "map g xs = map g ys \<and> r = r'"
  using assms
proof (induction xs arbitrary: ys ts ts')
  case Nil
  then show ?case
  proof (cases ys)
    case (Cons y zs)
    with Nil obtain t us where "f y = Inr t" "ts' = t # us" by (auto simp: rbind_Inr_iff)
    with Nil Cons have "starts_item t" by auto
    with Nil.prems(3,5,6) \<open>ts' = t # us\<close> show ?thesis by (auto simp: starts_item_def js_join_Cons)
  qed simp
next
  case (Cons x xs)
  from Cons.prems(3) obtain t us where t: "f x = Inr t" "rmap f xs = Inr us" "ts = t # us" by (auto simp: rbind_Inr_iff)
  show ?case
  proof (cases ys)
    case Nil
    with Cons.prems t(1) have "starts_item t" by auto
    with Nil Cons.prems(4,5,6) t(3) show ?thesis by (auto simp: starts_item_def js_join_Cons)
  next
    case (Cons y zs)
    with Cons.prems(4) obtain t' us' where t': "f y = Inr t'" "rmap f zs = Inr us'" "ts' = t' # us'"
      by (auto simp: rbind_Inr_iff)
    define k where "k us r = (if us = [] then [c] else 44 # js_join [44] us @ [c]) @ r" for us r
    have eq: "t @ k us r = t' @ k us' r'" using Cons.prems(6) t(3) t'(3) by (simp add: js_join_Cons k_def split: if_splits)
    have "item_reads f g x y" using Cons.prems(1) Cons by simp
    moreover have "delim (k us r)" "delim (k us' r')" using Cons.prems(5) by (auto simp: k_def)
    ultimately have h: "g x = g y" "k us r = k us' r'" using t(1) t'(1) eq unfolding item_reads_def by blast+
    show ?thesis
    proof (cases "us = [] \<or> us' = []")
      case True
      then have e: "us = []" "us' = []" "r = r'" using h(2) Cons.prems(5) by (auto simp: k_def split: if_splits)
      then have "xs = []" "zs = []" using t(2) t'(2) by (auto simp: rmap_Inr_iff)
      with e h Cons show ?thesis by simp
    next
      case False
      then have j: "js_join [44] us @ c # r = js_join [44] us' @ c # r'" using h(2) by (simp add: k_def)
      have "map g xs = map g zs \<and> r = r'"
        by (rule Cons.IH [OF _ _ t(2) t'(2) Cons.prems(5) j]) (use Cons.prems(1,2) Cons in auto)
      with h Cons show ?thesis by simp
    qed
  qed
qed

text \<open>The first character of a text tells what kind of value it is the text of.\<close>

fun kind :: "jsval \<Rightarrow> nat" where
  "kind VNull = 0"
| "kind (VBool b) = (if b then 1 else 2)"
| "kind (VStr s) = 3"
| "kind (VArr xs) = 4"
| "kind (VObj fs) = 5"
| "kind (VNum n) = 6"
| "kind _ = 7"

definition char_kind :: "nat \<Rightarrow> nat" where
  "char_kind c = (if c = 110 then 0 else if c = 116 then 1 else if c = 102 then 2 else if c = 34 then 3
     else if c = 91 then 4 else if c = 123 then 5 else if c = 45 \<or> is_digit c then 6 else 7)"

lemma dec_shortest_pos:
  assumes q: "q > 0" and sh: "dec_shortest q = (k, n, s)"
  shows "0 < s"
proof (cases "list_ex (\<lambda>k. dec_try q k \<noteq> None) [1..<18]")
  case True
  from dec_shortest_spec [OF q True sh] have "(10::int) ^ (k - 1) \<le> s" by simp
  then show ?thesis by (rule less_le_trans [rotated]) simp
next
  case False
  then have "find (\<lambda>k. dec_try q k \<noteq> None) [1..<18] = None" by (auto simp: find_None_iff list_ex_iff)
  with sh have s: "s = rhe (q / 10 powi (dec_exp q - 17))" by (auto simp: dec_shortest_def)
  have "(10::rat) powi (dec_exp q - 17) \<le> 10 powi (dec_exp q - 1)" by (rule power_int_increasing) auto
  also have "\<dots> \<le> q" using dec_exp_bounds [OF q] by simp
  finally have "of_int 1 \<le> q / 10 powi (dec_exp q - 17)" by (simp add: field_simps)
  then have "1 \<le> s" unfolding s by (rule rhe_ge)
  then show ?thesis by simp
qed

lemma num_text_head: "is_finite_num n \<Longrightarrow> \<exists>c cs. num_text n = c # cs \<and> (c = 45 \<or> is_digit c)"
proof (cases n)
  case (Fin q)
  have h: "\<exists>c cs. pos_text q = c # cs \<and> is_digit c" if "q > 0"
  proof -
    obtain k n s where sh: "dec_shortest q = (k, n, s)" by (cases "dec_shortest q") auto
    show ?thesis by (rule pos_text_head [OF sh dec_shortest_pos [OF that sh]])
  qed
  consider "q = 0" | "q > 0" | "q < 0" by linarith
  then show ?thesis
  proof cases
    case 2
    with h obtain c cs where "pos_text q = c # cs" "is_digit c" by blast
    with 2 Fin show ?thesis by simp
  qed (simp_all add: Fin js_def is_digit_def)
qed (auto simp: is_finite_num_def)

lemma canonical_head: "canonical v = Inr t \<Longrightarrow> t \<noteq> [] \<and> char_kind (hd t) = kind v \<and> hd t \<notin> {44, 58, 93, 125}"
proof (cases v)
  case (VNum n)
  assume "canonical v = Inr t"
  with VNum have "is_finite_num n" "t = num_text n" by (auto split: if_splits)
  with num_text_head [of n] obtain c cs where "t = c # cs" "c = 45 \<or> is_digit c" by auto
  moreover from this(2) have "char_kind c = 6" "c \<notin> {44, 58, 93, 125}" by (auto simp: char_kind_def is_digit_def)
  ultimately show ?thesis using VNum by simp
qed (auto simp: js_def char_kind_def is_digit_def canonical_string_def json_quote_def rbind_Inr_iff split: if_splits)

lemma canonical_kind:
  assumes "canonical u = Inr t" "canonical v = Inr t'" "t @ r = t' @ r'"
  shows "kind u = kind v"
  using canonical_head [OF assms(1)] canonical_head [OF assms(2)] arg_cong [OF assms(3), of hd] by simp

definition member_text :: "jsstr \<times> jsval \<Rightarrow> jsstr outcome" where
  "member_text kv = (case kv of (k, v) \<Rightarrow> if v = VUndef then Inl TypeErr
     else rbind (canonical_string k) (\<lambda>kt. rbind (canonical v) (\<lambda>vt. Inr (kt @ js '':'' @ vt))))"

lemma canonical_obj: "canonical (VObj fs) = rbind (rmap member_text (sort_members fs))
    (\<lambda>ts. Inr (js ''{'' @ js_join (js '','') ts @ js ''}''))"
  by (simp add: member_text_def [abs_def])

lemma member_reads:
  assumes "item_reads canonical jnorm v w"
  shows "item_reads member_text (map_prod id jnorm) (k, v) (l, w)"
  unfolding item_reads_def
proof (intro allI impI)
  fix t t' r r'
  assume m: "member_text (k, v) = Inr t" "member_text (l, w) = Inr t'" and d: "delim r" "delim r'" and e: "t @ r = t' @ r'"
  from m obtain vt wt where vt: "canonical v = Inr vt" "t = json_quote k @ 58 # vt"
    and wt: "canonical w = Inr wt" "t' = json_quote l @ 58 # wt"
    by (auto simp: member_text_def rbind_Inr_iff canonical_string_def js_def split: if_splits)
  from e vt(2) wt(2) have "json_quote k @ (58 # vt @ r) = json_quote l @ (58 # wt @ r')" by simp
  then have "k = l \<and> 58 # vt @ r = 58 # wt @ r'" by (rule quote_prefix)
  moreover from this have "jnorm v = jnorm w \<and> r = r'"
    using assms d vt(1) wt(1) unfolding item_reads_def by blast
  ultimately show "map_prod id jnorm (k, v) = map_prod id jnorm (l, w) \<and> r = r'" by simp
qed

lemma member_starts: "member_text kv = Inr t \<Longrightarrow> starts_item t"
  by (cases kv) (auto simp: member_text_def canonical_string_def json_quote_def starts_item_def rbind_Inr_iff split: if_splits)

lemma canonical_starts: "canonical v = Inr t \<Longrightarrow> starts_item t"
  using canonical_head [of v t] by (cases t) (auto simp: starts_item_def)

text \<open>The heart of injectivity: two texts that agree up to what follows them come from the same document.\<close>

lemma canonical_reads:
  "list_all has_text (nums u) \<Longrightarrow> list_all has_text (nums v) \<Longrightarrow> item_reads canonical jnorm u v"
proof (induction u arbitrary: v rule: jsval_tree_induct)
  case (VNum n)
  show ?case unfolding item_reads_def
  proof (intro allI impI)
    fix t t' r r'
    assume c: "canonical (VNum n) = Inr t" "canonical v = Inr t'" and d: "delim r" "delim r'" and e: "t @ r = t' @ r'"
    have "kind v = 6" using canonical_kind [OF c e] by simp
    then obtain m where v: "v = VNum m" by (cases v) (auto split: if_splits)
    have t: "t = num_text n" "t' = num_text m" using c v by (auto split: if_splits)
    have "has_text n" "has_text m" using VNum.prems v by simp_all
    then have "t = t' \<and> r = r'" using num_chars_prefix [OF _ _ d e] t num_text_num_chars by blast
    with \<open>has_text n\<close> \<open>has_text m\<close> t v show "jnorm (VNum n) = jnorm v \<and> r = r'" using num_text_inj by auto
  qed
next
  case (VStr s)
  show ?case unfolding item_reads_def
  proof (intro allI impI)
    fix t t' r r'
    assume c: "canonical (VStr s) = Inr t" "canonical v = Inr t'" and e: "t @ r = t' @ r'"
    have "kind v = 3" using canonical_kind [OF c e] by simp
    then obtain s' where v: "v = VStr s'" by (cases v) (auto split: if_splits)
    with c e quote_prefix [of s r s' r'] show "jnorm (VStr s) = jnorm v \<and> r = r'"
      by (auto simp: canonical_string_def split: if_splits)
  qed
next
  case (VArr xs)
  show ?case unfolding item_reads_def
  proof (intro allI impI)
    fix t t' r r'
    assume c: "canonical (VArr xs) = Inr t" "canonical v = Inr t'" and e: "t @ r = t' @ r'"
    have "kind v = 4" using canonical_kind [OF c e] by simp
    then obtain ys where v: "v = VArr ys" by (cases v) (auto split: if_splits)
    from c v obtain ts ts' where ts: "rmap canonical xs = Inr ts" "rmap canonical ys = Inr ts'"
      "t = 91 # js_join [44] ts @ [93]" "t' = 91 # js_join [44] ts' @ [93]"
      by (auto simp: rbind_Inr_iff js_def split: if_splits)
    have "map jnorm xs = map jnorm ys \<and> r = r'"
    proof (rule list_prefix [OF _ _ ts(1,2)])
      show "js_join [44] ts @ 93 # r = js_join [44] ts' @ 93 # r'" using e ts(3,4) by simp
      show "item_reads canonical jnorm x y" if "x \<in> set xs" "y \<in> set ys" for x y
        using VArr.IH [OF that(1)] VArr.prems v that by simp
    qed (auto intro: canonical_starts)
    with v show "jnorm (VArr xs) = jnorm v \<and> r = r'" by simp
  qed
next
  case (VObj fs)
  show ?case unfolding item_reads_def
  proof (intro allI impI)
    fix t t' r r'
    assume c: "canonical (VObj fs) = Inr t" "canonical v = Inr t'" and e: "t @ r = t' @ r'"
    have "kind v = 5" using canonical_kind [OF c e] by simp
    then obtain gs where v: "v = VObj gs" by (cases v) (auto split: if_splits)
    from c v obtain ts ts' where ts: "rmap member_text (sort_members fs) = Inr ts" "rmap member_text (sort_members gs) = Inr ts'"
      "t = 123 # js_join [44] ts @ [125]" "t' = 123 # js_join [44] ts' @ [125]"
      unfolding v canonical_obj by (auto simp: rbind_Inr_iff js_def)
    have "map (map_prod id jnorm) (sort_members fs) = map (map_prod id jnorm) (sort_members gs) \<and> r = r'"
    proof (rule list_prefix [OF _ _ ts(1,2)])
      show "js_join [44] ts @ 125 # r = js_join [44] ts' @ 125 # r'" using e ts(3,4) by simp
      show "item_reads member_text (map_prod id jnorm) x y" if "x \<in> set (sort_members fs)" "y \<in> set (sort_members gs)" for x y
        using VObj.IH VObj.prems v that by (cases x; cases y) (auto intro!: member_reads VObj.IH)
    qed (auto intro: member_starts)
    with v show "jnorm (VObj fs) = jnorm v \<and> r = r'" by (simp add: sort_members_map)
  qed
next
  case VNull
  show ?case unfolding item_reads_def
  proof (intro allI impI)
    fix t t' r r'
    assume c: "canonical VNull = Inr t" "canonical v = Inr t'" and e: "t @ r = t' @ r'"
    have "kind v = 0" using canonical_kind [OF c e] by simp
    then have "v = VNull" by (cases v) (auto split: if_splits)
    with c e show "jnorm VNull = jnorm v \<and> r = r'" by simp
  qed
next
  case (VBool b)
  show ?case unfolding item_reads_def
  proof (intro allI impI)
    fix t t' r r'
    assume c: "canonical (VBool b) = Inr t" "canonical v = Inr t'" and e: "t @ r = t' @ r'"
    have "kind v = kind (VBool b)" using canonical_kind [OF c e] by simp
    then have "v = VBool b" by (cases v) (auto split: if_splits)
    with c e show "jnorm (VBool b) = jnorm v \<and> r = r'" by simp
  qed
qed (simp_all add: item_reads_def)

subsection \<open>Independence of member order\<close>

lemma jnorm_undef [simp]: "jnorm v = VUndef \<longleftrightarrow> v = VUndef" "jnorm v = VHole \<longleftrightarrow> v = VHole"
  by (cases v; simp)+

lemma rmap_map: "rmap f (map g xs) = rmap (f \<circ> g) xs"
  by (induction xs) auto

lemma canonical_jnorm: "canonical (jnorm v) = canonical v"
proof (induction v rule: jsval_tree_induct)
  case (VArr xs)
  have "rmap canonical (map jnorm xs) = rmap canonical xs"
    unfolding rmap_map by (rule rmap_cong) (simp_all add: VArr)
  moreover have "VHole \<in> jnorm ` set xs \<longleftrightarrow> VHole \<in> set xs" by (force simp: eq_commute [of VHole])
  ultimately show ?case by simp
next
  case (VObj fs)
  have "rmap member_text (map (map_prod id jnorm) (sort_members fs)) = rmap member_text (sort_members fs)"
    unfolding rmap_map by (rule rmap_cong) (auto simp: member_text_def VObj)
  then show ?case
    unfolding jnorm.simps canonical_obj by (simp add: sort_members_map sort_members_idem)
qed simp_all

lemma canonical_inj:
  assumes "list_all has_text (nums u)" "list_all has_text (nums v)" "canonical u = Inr t" "canonical v = Inr t"
  shows "jnorm u = jnorm v"
proof -
  have "item_reads canonical jnorm u v" using assms(1,2) by (rule canonical_reads)
  moreover have "delim []" by (simp add: delim_def)
  ultimately show ?thesis using assms(3,4) unfolding item_reads_def by blast
qed

subsection \<open>The text is well-formed Unicode, and its bytes determine the document\<close>

lemma lone_append: "\<not> has_lone_surrogate s \<Longrightarrow> has_lone_surrogate (s @ t) = has_lone_surrogate t"
proof (induction s rule: has_lone_surrogate.induct)
  case (2 c cs)
  show ?case
  proof (cases "hi_surrogate c")
    case True
    with 2 show ?thesis by (cases cs) (simp_all split: if_splits)
  next
    case False
    with 2 show ?thesis by (simp split: if_splits)
  qed
qed simp

lemma lone_plain: "\<forall>c \<in> set s. c < 0xd800 \<Longrightarrow> \<not> has_lone_surrogate s"
  by (induction s) (auto simp: hi_surrogate_def lo_surrogate_def)

lemma escape_plain: "c < 0xd800 \<Longrightarrow> \<forall>d \<in> set (json_escape c). d < 0xd800"
  by (auto simp: json_escape_def hex_digit_def)

lemma escape_big: "0xd800 \<le> c \<Longrightarrow> json_escape c = [c]"
  by (auto simp: json_escape_def)

lemma lone_escape: "\<not> has_lone_surrogate s \<Longrightarrow> \<not> has_lone_surrogate (concat (map json_escape s))"
proof (induction s rule: has_lone_surrogate.induct)
  case (2 c cs)
  show ?case
  proof (cases "hi_surrogate c")
    case True
    with 2 show ?thesis by (auto simp: escape_big hi_surrogate_def lo_surrogate_def split: list.splits if_splits)
  next
    case False
    with 2 have c: "\<not> lo_surrogate c" "\<not> has_lone_surrogate (concat (map json_escape cs))" by (auto split: if_splits)
    have "\<not> has_lone_surrogate (json_escape c)"
    proof (cases "c < 0xd800")
      case True
      then show ?thesis by (intro lone_plain escape_plain)
    next
      case big: False
      with False c show ?thesis by (simp add: escape_big)
    qed
    with c show ?thesis by (simp add: lone_append)
  qed
qed simp

lemma lone_quote: "\<not> has_lone_surrogate s \<Longrightarrow> \<not> has_lone_surrogate (json_quote s)"
  by (simp add: json_quote_def lone_append [OF lone_escape] hi_surrogate_def lo_surrogate_def)

lemma lone_join:
  "\<forall>t \<in> set ts. \<not> has_lone_surrogate t \<Longrightarrow> \<not> has_lone_surrogate (js_join [44] ts)"
  by (induction ts) (auto simp: js_join_Cons lone_append hi_surrogate_def lo_surrogate_def)

lemma dec_digits_plain: "list_all (\<lambda>c. c < 0xd800) (dec_digits i)"
  proof (induction i rule: dec_digits.induct)
  case (1 n)
  have "nat (n mod 10) < 10" by (simp add: nat_less_iff)
  moreover have "n < 10 \<Longrightarrow> nat n < 10" by linarith
  ultimately show ?case using 1 by (subst dec_digits.simps) auto
qed

lemma list_all_parts: "list_all P s \<Longrightarrow> list_all P (take n s) \<and> list_all P (drop n s)"
  by (auto simp: list_all_iff dest: in_set_takeD in_set_dropD)

lemma num_text_plain: "list_all (\<lambda>c. c < 0xd800) (num_text n)"
proof -
  have e: "list_all (\<lambda>c. c < 0xd800) (exp_text i)" for i
    using dec_digits_plain [of "\<bar>i\<bar>"] by (simp add: exp_text_def js_def)
  have p: "list_all (\<lambda>c. c < 0xd800) (pos_text q)" for q
  proof -
    obtain k n s where sh: "dec_shortest q = (k, n, s)" by (cases "dec_shortest q") auto
    show ?thesis
      using dec_digits_plain [of s] list_all_parts [OF dec_digits_plain, of _ s] e
      by (simp add: pos_text_def sh Let_def js_def list_all_replicate)
  qed
  show ?thesis using p by (cases n) (simp_all add: js_def)
qed

lemma rmap_mem: "rmap f xs = Inr ts \<Longrightarrow> t \<in> set ts \<Longrightarrow> \<exists>x \<in> set xs. f x = Inr t"
  by (induction xs arbitrary: ts) (auto simp: rbind_Inr_iff)

lemma canonical_well_formed: "canonical v = Inr t \<Longrightarrow> \<not> has_lone_surrogate t"
proof (induction v arbitrary: t rule: jsval_tree_induct)
  case (VNum n)
  then show ?case using num_text_plain [of n] by (auto simp: list_all_iff lone_plain split: if_splits)
next
  case (VArr xs)
  then obtain ts where ts: "rmap canonical xs = Inr ts" "t = 91 # js_join [44] ts @ [93]"
    by (auto simp: rbind_Inr_iff js_def split: if_splits)
  have "\<forall>t \<in> set ts. \<not> has_lone_surrogate t"
    using rmap_mem [OF ts(1)] VArr.IH by blast
  then show ?case
    unfolding ts(2) by (simp add: lone_append [OF lone_join] hi_surrogate_def lo_surrogate_def)
next
  case (VObj fs)
  then obtain ts where ts: "rmap member_text (sort_members fs) = Inr ts" "t = 123 # js_join [44] ts @ [125]"
    unfolding canonical_obj by (auto simp: rbind_Inr_iff js_def)
  have m: "\<not> has_lone_surrogate t" if kv: "kv \<in> set fs" "member_text kv = Inr t" for kv t
  proof -
    obtain k v where v: "kv = (k, v)" by (cases kv)
    with kv(2) obtain vt where vt: "canonical v = Inr vt" "t = json_quote k @ 58 # vt" "\<not> has_lone_surrogate k"
      by (auto simp: member_text_def rbind_Inr_iff canonical_string_def js_def split: if_splits)
    with VObj.IH [of k v vt] kv(1) v have "\<not> has_lone_surrogate vt" by simp
    with vt show ?thesis by (simp add: lone_append [OF lone_quote] hi_surrogate_def lo_surrogate_def)
  qed
  have "\<forall>t \<in> set ts. \<not> has_lone_surrogate t"
    using rmap_mem [OF ts(1)] m by fastforce
  then show ?case
    unfolding ts(2) by (simp add: lone_append [OF lone_join] hi_surrogate_def lo_surrogate_def)
qed (auto simp: js_def canonical_string_def hi_surrogate_def lo_surrogate_def lone_quote split: if_splits)

text \<open>A document whose strings consist of code units has a canonical text that does.\<close>

primrec units_in :: "jsval \<Rightarrow> bool" where
  "units_in VUndef = True"
| "units_in VNull = True"
| "units_in (VBool b) = True"
| "units_in (VNum n) = True"
| "units_in (VStr s) = units s"
| "units_in (VArr xs) = list_all id (map units_in xs)"
| "units_in (VObj fs) = list_all (\<lambda>(k, b). units k \<and> b) (map (map_prod id units_in) fs)"
| "units_in (VInst fs) = True"
| "units_in (VOther a b) = True"
| "units_in VHole = True"

lemma units_in_simps [simp]:
  "units_in (VArr xs) \<longleftrightarrow> (\<forall>x \<in> set xs. units_in x)"
  "units_in (VObj fs) \<longleftrightarrow> (\<forall>(k, v) \<in> set fs. units k \<and> units_in v)"
  by (auto simp: list_all_iff split_def)

declare units_in.simps(6,7) [simp del]

lemma units_append [simp]: "units (s @ t) \<longleftrightarrow> units s \<and> units t" "units (c # s) \<longleftrightarrow> c < 65536 \<and> units s" "units []"
  by (auto simp: units_def)

lemma units_plain: "list_all (\<lambda>c. c < 0xd800) s \<Longrightarrow> units s"
  by (auto simp: list_all_iff units_def)

lemma units_js [simp]: "units (js s)"
  unfolding js_def units_def by (auto intro: less_trans [OF nat_of_char_less_256])

lemma units_escape: "c < 65536 \<Longrightarrow> units (json_escape c)"
proof -
  assume "c < 65536"
  moreover have "c mod 16 < 16" by simp
  ultimately show ?thesis by (auto simp: units_def json_escape_def hex_digit_def simp del: mod_less_divisor)
qed

lemma units_quote: "units s \<Longrightarrow> units (json_quote s)"
proof -
  assume u: "units s"
  have "\<forall>c \<in> set s. units (json_escape c)" using u units_escape by (auto simp: units_def)
  then have "units (concat (map json_escape s))" by (auto simp: units_def)
  then show ?thesis by (simp add: json_quote_def)
qed

lemma units_join: "\<forall>t \<in> set ts. units t \<Longrightarrow> units (js_join [44] ts)"
  by (induction ts) (auto simp: js_join_Cons)

lemma canonical_units: "canonical v = Inr t \<Longrightarrow> units_in v \<Longrightarrow> units t"
proof (induction v arbitrary: t rule: jsval_tree_induct)
  case (VNum n)
  then show ?case using units_plain [OF num_text_plain [of n]] by (auto split: if_splits)
next
  case (VArr xs)
  then obtain ts where ts: "rmap canonical xs = Inr ts" "t = 91 # js_join [44] ts @ [93]"
    by (auto simp: rbind_Inr_iff js_def split: if_splits)
  have "\<forall>t \<in> set ts. units t" using rmap_mem [OF ts(1)] VArr by fastforce
  then show ?case by (simp add: ts(2) units_join)
next
  case (VObj fs)
  then obtain ts where ts: "rmap member_text (sort_members fs) = Inr ts" "t = 123 # js_join [44] ts @ [125]"
    unfolding canonical_obj by (auto simp: rbind_Inr_iff js_def)
  have m: "units t" if kv: "kv \<in> set fs" "member_text kv = Inr t" for kv t
  proof -
    obtain k v where v: "kv = (k, v)" by (cases kv)
    with kv(2) obtain vt where vt: "canonical v = Inr vt" "t = json_quote k @ 58 # vt"
      by (auto simp: member_text_def rbind_Inr_iff canonical_string_def js_def split: if_splits)
    with VObj.IH [of k v vt] VObj.prems(2) kv(1) v have "units vt" "units k" by auto
    with vt show ?thesis by (simp add: units_quote)
  qed
  have "\<forall>t \<in> set ts. units t" using rmap_mem [OF ts(1)] m by fastforce
  then show ?case by (simp add: ts(2) units_join)
qed (auto simp: canonical_string_def units_quote split: if_splits)

subsection \<open>Properties\<close>

text \<open>C16: two documents have the same canonical text exactly when they are equal up to the order of members: the text that a
  signature or a digest covers is unique for a document and determines it. (\<open>has_text\<close>: every number of the document is
  a number of the language, which has a decimal that reads back as it.)\<close>

theorem canonical_unique:
  assumes "list_all has_text (nums u)" "list_all has_text (nums v)" "json_ok u" "json_ok v"
  shows "canonical u = canonical v \<longleftrightarrow> jnorm u = jnorm v"
proof
  assume e: "canonical u = canonical v"
  obtain t where t: "canonical u = Inr t" using assms(3) canonical_returns [of u] by (auto simp: returns_iff)
  show "jnorm u = jnorm v" by (rule canonical_inj [OF assms(1,2) t]) (use e t in simp)
next
  assume "jnorm u = jnorm v"
  then show "canonical u = canonical v" by (metis canonical_jnorm)
qed

theorem canonical_unique_witness:
  "canonical (VObj [(js ''b'', VNum (jint 3)), (js ''a'', VArr [VNull])]) =
   canonical (VObj [(js ''a'', VArr [VNull]), (js ''b'', VNum (jint 3))])"
  by (subst canonical_unique)
    (simp_all add: has_text_int max_safe_def js_def hi_surrogate_def lo_surrogate_def sort_members_def jint_def is_finite_num_def
      has_text_int [of 3, unfolded jint_def, simplified])

text \<open>C17: \<open>canonical\<close> returns exactly on JSON values whose strings and member names are well-formed Unicode; anything JSON
  would drop or coerce (undefined, a non-finite number, a sparse array, a class instance, a function, a lone surrogate),
  at any depth, makes it throw.\<close>

theorem canonical_total: "returns (canonical v) \<longleftrightarrow> json_ok v"
  by (rule canonical_returns)

text \<open>The UTF-8 bytes of the canonical text, which are what is hashed and signed, determine the document. (Code units are
  below 65536.)\<close>

theorem canonical_bytes_bind:
  assumes "list_all has_text (nums u)" "list_all has_text (nums v)"
    and "canonical u = Inr s" "canonical v = Inr t" "units s" "units t" "utf8 s = utf8 t"
  shows "jnorm u = jnorm v"
proof -
  have "s = t"
    by (rule utf8_inj [OF canonical_well_formed [OF assms(3)] canonical_well_formed [OF assms(4)] assms(5-7)])
  then show ?thesis using canonical_inj [OF assms(1,2,3)] assms(4) by simp
qed

theorem canonical_bytes_bind_witness:
  "jnorm (VObj [(js ''b'', VBool True), (js ''a'', VNull)]) = jnorm (VObj [(js ''a'', VNull), (js ''b'', VBool True)])"
proof (rule canonical_bytes_bind)
  show "canonical (VObj [(js ''b'', VBool True), (js ''a'', VNull)]) = Inr (js ''{\"a\":null,\"b\":true}'')"
    "canonical (VObj [(js ''a'', VNull), (js ''b'', VBool True)]) = Inr (js ''{\"a\":null,\"b\":true}'')"
    by (simp_all add: sort_members_def canonical_string_def json_quote_def json_escape_def js_def hi_surrogate_def lo_surrogate_def)
  show "units (js ''{\"a\":null,\"b\":true}'')" "units (js ''{\"a\":null,\"b\":true}'')"
    by (simp_all add: units_def js_def)
qed (simp_all add: nums.simps)

end
