(* ===== verification/Merkle.thy ===== *)
theory Merkle
  imports Bytes
begin

section \<open>Merkle trees: roots, inclusion proofs, consistency proofs\<close>

text \<open>
  The tree functions of \<^verbatim>\<open>packages/verify/src/anchor.ts\<close>, over a digest function \<open>sha\<close> (WebCrypto's SHA-256, a parameter).
  \<open>merkle_root_v1\<close> is the legacy root over hexadecimal strings; the rest is RFC 9162: leaf and node hashes, the tree
  hash, audit paths, consistency proofs and the two verifiers, which walk the proof with the indices of the
  leaf and of the last leaf at each level. Sizes are natural numbers: the code checks that they are safe integers, and on
  those its halving and doubling are exact.
\<close>

subsection \<open>Hashes\<close>

definition sha256_hex :: "(bytes \<Rightarrow> bytes) \<Rightarrow> bytes \<Rightarrow> jsstr" where
  "sha256_hex sha bs = to_hex (sha bs)"

definition leaf_hash :: "(bytes \<Rightarrow> bytes) \<Rightarrow> bytes \<Rightarrow> jsstr" where
  "leaf_hash sha leaf = to_hex (sha ([0] @ leaf))"

definition node_bytes :: "(bytes \<Rightarrow> bytes) \<Rightarrow> bytes \<Rightarrow> bytes \<Rightarrow> bytes" where
  "node_bytes sha l r = sha ([1] @ l @ r)"

definition node_hash :: "(bytes \<Rightarrow> bytes) \<Rightarrow> jsval \<Rightarrow> jsval \<Rightarrow> jsstr outcome" where
  "node_hash sha left right =
     rbind (from_hex left) (\<lambda>l. rbind (from_hex right) (\<lambda>r. Inr (to_hex (node_bytes sha l r))))"

definition receipt_leaf_hash :: "(bytes \<Rightarrow> bytes) \<Rightarrow> jsval \<Rightarrow> jsstr outcome" where
  "receipt_leaf_hash sha payload = rbind (canonical payload) (\<lambda>t. Inr (leaf_hash sha (utf8 t)))"

definition receipt_leaf_hash_v1 :: "(bytes \<Rightarrow> bytes) \<Rightarrow> jsval \<Rightarrow> jsstr outcome" where
  "receipt_leaf_hash_v1 sha payload = rbind (canonical payload) (\<lambda>t. Inr (sha256_hex sha (utf8 t)))"

subsection \<open>The legacy root\<close>

fun pair_level :: "(bytes \<Rightarrow> bytes) \<Rightarrow> jsstr list \<Rightarrow> jsstr list" where
  "pair_level sha [] = []"
| "pair_level sha [a] = [sha256_hex sha (utf8 (a @ a))]"
| "pair_level sha (a # b # level) = sha256_hex sha (utf8 (a @ b)) # pair_level sha level"

lemma length_pair_level: "length (pair_level sha level) = (length level + 1) div 2"
  by (induction sha level rule: pair_level.induct) auto

function root_v1_loop :: "(bytes \<Rightarrow> bytes) \<Rightarrow> jsstr list \<Rightarrow> jsstr list" where
  "root_v1_loop sha level = (if 1 < length level then root_v1_loop sha (pair_level sha level) else level)"
  by pat_completeness auto
termination
  by (relation "measure (length \<circ> snd)") (auto simp: length_pair_level)

declare root_v1_loop.simps [simp del]

definition merkle_root_v1 :: "(bytes \<Rightarrow> bytes) \<Rightarrow> jsstr list \<Rightarrow> jsstr" where
  "merkle_root_v1 sha leaves = (if leaves = [] then sha256_hex sha [] else hd (root_v1_loop sha leaves))"

subsection \<open>The RFC 9162 tree hash\<close>

text \<open>\<open>splitPoint\<close>: the largest power of two strictly smaller than \<open>n\<close> (\<open>n > 1\<close>).\<close>

function split_from :: "nat \<Rightarrow> nat \<Rightarrow> nat" where
  "split_from n k = (if 0 < k \<and> k * 2 < n then split_from n (k * 2) else k)"
  by pat_completeness auto
termination
  by (relation "measure (\<lambda>(n, k). n - k)") auto

declare split_from.simps [simp del]

definition split_point :: "nat \<Rightarrow> nat" where
  "split_point n = split_from n 1"

lemma split_from_spec:
  "0 < k \<Longrightarrow> k < n \<Longrightarrow> \<exists>j. split_from n k = k * 2 ^ j \<and> split_from n k < n \<and> n \<le> 2 * split_from n k"
proof (induction n k rule: split_from.induct)
  case (1 n k)
  show ?case
  proof (cases "k * 2 < n")
    case True
    with 1 obtain j where "split_from n (k * 2) = k * 2 * 2 ^ j \<and> split_from n (k * 2) < n \<and> n \<le> 2 * split_from n (k * 2)"
      by auto
    with True 1(2) show ?thesis
      by (intro exI [of _ "Suc j"]) (simp add: split_from.simps [of n k])
  qed (use 1 in \<open>auto simp: split_from.simps [of n k] intro: exI [of _ 0]\<close>)
qed

lemma split_point_spec:
  assumes "1 < n"
  obtains t where "split_point n = 2 ^ t" "2 ^ t < n" "n \<le> 2 * 2 ^ t"
  using split_from_spec [of 1 n] assms unfolding split_point_def by auto

lemma split_point_bounds: "1 < n \<Longrightarrow> 0 < split_point n \<and> split_point n < n"
  by (metis split_point_spec zero_less_power pos2)

lemma split_halves:
  "n = hi - lo \<Longrightarrow> n \<noteq> 0 \<Longrightarrow> n \<noteq> 1 \<Longrightarrow> k = split_point n \<Longrightarrow> lo + k - lo < hi - lo \<and> hi - (lo + k) < hi - lo"
proof -
  assume a: "n = hi - lo" "n \<noteq> 0" "n \<noteq> 1" "k = split_point n"
  then have "0 < k \<and> k < n" using split_point_bounds [of n] by simp
  with a(1) show ?thesis by linarith
qed

lemma split_halves':
  "n = hi - lo \<Longrightarrow> \<not> n \<le> 1 \<Longrightarrow> k = split_point n \<Longrightarrow> lo + k - lo < hi - lo \<and> hi - (lo + k) < hi - lo"
  by (rule split_halves) auto

function mth :: "(bytes \<Rightarrow> bytes) \<Rightarrow> bytes list \<Rightarrow> nat \<Rightarrow> nat \<Rightarrow> bytes" where
  "mth sha d lo hi =
     (let n = hi - lo in
      if n = 0 then sha []
      else if n = 1 then d ! lo
      else let k = split_point n in node_bytes sha (mth sha d lo (lo + k)) (mth sha d (lo + k) hi))"
  by pat_completeness auto
termination
  by (relation "measure (\<lambda>(sha, d, lo, hi). hi - lo)") (simp_all only: in_measure wf_measure prod.case split_halves split_halves')

declare mth.simps [simp del]

definition leaf_bytes :: "jsval \<Rightarrow> bytes list outcome" where
  "leaf_bytes leaf_hashes = (if \<not> is_arr leaf_hashes then Inl TypeErr else rmap from_hex (elems leaf_hashes))"

definition merkle_tree_hash :: "(bytes \<Rightarrow> bytes) \<Rightarrow> jsval \<Rightarrow> jsstr outcome" where
  "merkle_tree_hash sha leaf_hashes =
     rbind (leaf_bytes leaf_hashes) (\<lambda>d. Inr (to_hex (mth sha d 0 (length d))))"

subsection \<open>Inclusion proofs\<close>

function path :: "(bytes \<Rightarrow> bytes) \<Rightarrow> nat \<Rightarrow> bytes list \<Rightarrow> nat \<Rightarrow> nat \<Rightarrow> bytes list" where
  "path sha m d lo hi =
     (let n = hi - lo in
      if n \<le> 1 then []
      else let k = split_point n in
        if m < k then path sha m d lo (lo + k) @ [mth sha d (lo + k) hi]
        else path sha (m - k) d (lo + k) hi @ [mth sha d lo (lo + k)])"
  by pat_completeness auto
termination
  by (relation "measure (\<lambda>(sha, m, d, lo, hi). hi - lo)") (simp_all only: in_measure wf_measure prod.case split_halves split_halves')

declare path.simps [simp del]

record inclusion_proof =
  leaf_index :: nat
  tree_size :: nat
  audit_path :: "jsstr list"

text \<open>\<open>inclusionProof(leafHashes, index)\<close>; the index is any number.\<close>

definition inclusion_proof :: "(bytes \<Rightarrow> bytes) \<Rightarrow> jsval \<Rightarrow> jnum \<Rightarrow> inclusion_proof outcome" where
  "inclusion_proof sha leaf_hashes index =
     rbind (leaf_bytes leaf_hashes) (\<lambda>d.
       if \<not> is_safe_int index \<or> num_int index < 0 \<or> int (length d) \<le> num_int index then Inl RangeErr
       else let i = nat (num_int index) in
         Inr \<lparr> leaf_index = i, tree_size = length d, audit_path = map to_hex (path sha i d 0 (length d)) \<rparr>)"

text \<open>\<open>while (fn % 2 === 0 && fn !== 0) { fn /= 2; sn /= 2 }\<close>.\<close>

function strip_even :: "nat \<Rightarrow> nat \<Rightarrow> nat \<times> nat" where
  "strip_even f s = (if f mod 2 = 0 \<and> f \<noteq> 0 then strip_even (f div 2) (s div 2) else (f, s))"
  by pat_completeness auto
termination
  by (relation "measure fst") auto

declare strip_even.simps [simp del]

text \<open>The loop over the audit path; \<open>None\<close> is its early \<open>return false\<close>.\<close>

fun inclusion_loop :: "(bytes \<Rightarrow> bytes) \<Rightarrow> bytes list \<Rightarrow> nat \<Rightarrow> nat \<Rightarrow> bytes \<Rightarrow> (nat \<times> bytes) option" where
  "inclusion_loop sha [] f s r = Some (s, r)"
| "inclusion_loop sha (sib # ps) f s r =
     (if s = 0 then None
      else if f mod 2 = 1 \<or> f = s then
        let r' = node_bytes sha sib r; (f', s') = (if f mod 2 = 0 then strip_even f s else (f, s))
        in inclusion_loop sha ps (f' div 2) (s' div 2) r'
      else inclusion_loop sha ps (f div 2) (s div 2) (node_bytes sha r sib))"

definition str_bytes :: "jsval \<Rightarrow> bytes" where
  "str_bytes v = (case v of VStr s \<Rightarrow> hex_bytes s | _ \<Rightarrow> [])"

definition size_of :: "jsval \<Rightarrow> nat" where
  "size_of v = (case v of VNum n \<Rightarrow> nat (num_int n) | _ \<Rightarrow> 0)"

text \<open>\<open>verifyInclusionProof(input)\<close>: every member of the input is unknown.\<close>

definition verify_inclusion_proof :: "(bytes \<Rightarrow> bytes) \<Rightarrow> jsval \<Rightarrow> bool" where
  "verify_inclusion_proof sha input =
     (let lh = fld input (js ''leaf_hash''); li = fld input (js ''leaf_index''); ts = fld input (js ''tree_size'');
          ap = fld input (js ''audit_path''); root = fld input (js ''root'') in
      if \<not> is_hex32 lh \<or> \<not> is_hex32 root \<or> \<not> is_size li \<or> \<not> is_size ts then False
      else if \<not> is_arr ap \<or> \<not> list_all is_hex32 (elems ap) then False
      else if size_of ts \<le> size_of li then False
      else (case inclusion_loop sha (map str_bytes (elems ap)) (size_of li) (size_of ts - 1) (str_bytes lh) of
              None \<Rightarrow> False
            | Some (s, r) \<Rightarrow> s = 0 \<and> VStr (to_hex r) = root))"

subsection \<open>Consistency proofs\<close>

text \<open>The branch for \<open>n \<le> 1\<close> stands for calls the callers never make (\<open>0 < m \<le> n\<close> holds in all of them).\<close>

function subproof :: "(bytes \<Rightarrow> bytes) \<Rightarrow> nat \<Rightarrow> bytes list \<Rightarrow> nat \<Rightarrow> nat \<Rightarrow> bool \<Rightarrow> bytes list" where
  "subproof sha m d lo hi b =
     (let n = hi - lo in
      if m = n then if b then [] else [mth sha d lo hi]
      else if n \<le> 1 then []
      else let k = split_point n in
        if m \<le> k then subproof sha m d lo (lo + k) b @ [mth sha d (lo + k) hi]
        else subproof sha (m - k) d (lo + k) hi False @ [mth sha d lo (lo + k)])"
  by pat_completeness auto
termination
  by (relation "measure (\<lambda>(sha, m, d, lo, hi, b). hi - lo)") (simp_all only: in_measure wf_measure prod.case split_halves split_halves')

declare subproof.simps [simp del]

record consistency_proof =
  first_size :: nat
  second_size :: nat
  proof_hashes :: "jsstr list"

definition consistency_proof :: "(bytes \<Rightarrow> bytes) \<Rightarrow> jsval \<Rightarrow> jnum \<Rightarrow> consistency_proof outcome" where
  "consistency_proof sha leaf_hashes fs =
     rbind (leaf_bytes leaf_hashes) (\<lambda>d.
       if \<not> is_safe_int fs \<or> num_int fs < 0 \<or> int (length d) < num_int fs then Inl RangeErr
       else let m = nat (num_int fs) in
         Inr \<lparr> first_size = m, second_size = length d,
           proof_hashes = (if m = 0 \<or> m = length d then [] else map to_hex (subproof sha m d 0 (length d) True)) \<rparr>)"

text \<open>\<open>isPowerOfTwo\<close>; \<open>Math.log2\<close> is exact on powers of two, and the second test removes the rounding of the others.\<close>

fun is_power_of_two :: "nat \<Rightarrow> bool" where
  "is_power_of_two n =
     (if n = 0 then False else if n = 1 then True else if n mod 2 = 0 then is_power_of_two (n div 2) else False)"

declare is_power_of_two.simps [simp del]

text \<open>\<open>while (fn % 2 === 1) { fn /= 2; sn /= 2 }\<close>.\<close>

function strip_odd :: "nat \<Rightarrow> nat \<Rightarrow> nat \<times> nat" where
  "strip_odd f s = (if f mod 2 = 1 then strip_odd (f div 2) (s div 2) else (f, s))"
  by pat_completeness auto
termination
  by (relation "measure fst") (auto elim: oddE)

declare strip_odd.simps [simp del]

fun consistency_loop :: "(bytes \<Rightarrow> bytes) \<Rightarrow> bytes list \<Rightarrow> nat \<Rightarrow> nat \<Rightarrow> bytes \<Rightarrow> bytes \<Rightarrow> (nat \<times> bytes \<times> bytes) option" where
  "consistency_loop sha [] f s fr sr = Some (s, fr, sr)"
| "consistency_loop sha (c # ps) f s fr sr =
     (if s = 0 then None
      else if f mod 2 = 1 \<or> f = s then
        let fr' = node_bytes sha c fr; sr' = node_bytes sha c sr;
            (f', s') = (if f mod 2 = 0 then strip_even f s else (f, s))
        in consistency_loop sha ps (f' div 2) (s' div 2) fr' sr'
      else consistency_loop sha ps (f div 2) (s div 2) fr (node_bytes sha sr c))"

definition verify_consistency_proof :: "(bytes \<Rightarrow> bytes) \<Rightarrow> jsval \<Rightarrow> bool" where
  "verify_consistency_proof sha input =
     (let v1 = fld input (js ''first_size''); v2 = fld input (js ''second_size'');
          r1 = fld input (js ''first_root''); r2 = fld input (js ''second_root''); pr = fld input (js ''proof'');
          m = size_of v1; n = size_of v2 in
      if \<not> is_size v1 \<or> \<not> is_size v2 \<or> n < m then False
      else if \<not> is_hex32 r1 \<or> \<not> is_hex32 r2 then False
      else if \<not> is_arr pr \<or> \<not> list_all is_hex32 (elems pr) then False
      else if m = 0 then elems pr = []
      else if m = n then elems pr = [] \<and> r1 = r2
      else (case (if is_power_of_two m then r1 # elems pr else elems pr) of
              [] \<Rightarrow> False
            | p # ps \<Rightarrow>
                let (f, s) = strip_odd (m - 1) (n - 1) in
                (case consistency_loop sha (map str_bytes ps) f s (str_bytes p) (str_bytes p) of
                   None \<Rightarrow> False
                 | Some (s', fr, sr) \<Rightarrow> VStr (to_hex fr) = r1 \<and> VStr (to_hex sr) = r2 \<and> s' = 0)))"

end
