(* ===== verification/MerkleFacts.thy ===== *)
theory MerkleFacts
  imports Merkle
begin

section \<open>Merkle proofs: completeness and soundness\<close>

text \<open>
  Both verifiers walk their proof with the same index arithmetic, so their correctness is proved once, for \<open>walk\<close>: a
  walk over the proof of a subtree, lifted to the whole tree. Completeness: the proofs that \<open>inclusion_proof\<close> and
  \<open>consistency_proof\<close> build are accepted. Soundness makes no assumption on the digest function: if a proof is accepted for
  something else than what the tree holds, then two different inputs of the digest, one hashed by that verification and
  one by the verification of the honest proof, have the same digest, so the forger has found a collision.
\<close>

subsection \<open>The walk\<close>

text \<open>\<open>lf\<close> combines the state with a sibling on its left, \<open>rt\<close> with one on its right.\<close>

fun walk :: "('p \<Rightarrow> 'a \<Rightarrow> 'a) \<Rightarrow> ('a \<Rightarrow> 'p \<Rightarrow> 'a) \<Rightarrow> 'p list \<Rightarrow> nat \<Rightarrow> nat \<Rightarrow> 'a \<Rightarrow> (nat \<times> nat \<times> 'a) option" where
  "walk lf rt [] f s x = Some (f, s, x)"
| "walk lf rt (p # ps) f s x =
     (if s = 0 then None
      else if f mod 2 = 1 \<or> f = s then
        (let (f', s') = (if f mod 2 = 0 then strip_even f s else (f, s))
         in walk lf rt ps (f' div 2) (s' div 2) (lf p x))
      else walk lf rt ps (f div 2) (s div 2) (rt x p))"

lemma inclusion_loop_walk:
  "inclusion_loop sha ps f s r =
     map_option snd (walk (\<lambda>p r. node_bytes sha p r) (\<lambda>r p. node_bytes sha r p) ps f s r)"
  by (induction ps arbitrary: f s r) (auto simp: Let_def split: prod.splits)

lemma consistency_loop_walk:
  "consistency_loop sha ps f s fr sr =
     map_option snd (walk (\<lambda>p (fr, sr). (node_bytes sha p fr, node_bytes sha p sr)) (\<lambda>(fr, sr) p. (fr, node_bytes sha sr p)) ps f s (fr, sr))"
  by (induction ps arbitrary: f s fr sr) (auto simp: Let_def split: prod.splits)

lemma walk_append:
  "walk lf rt (ps @ qs) f s x = (case walk lf rt ps f s x of None \<Rightarrow> None | Some (f', s', y) \<Rightarrow> walk lf rt qs f' s' y)"
  by (induction ps arbitrary: f s x) (auto simp: Let_def split: prod.splits)

text \<open>\<open>strip_even\<close> divides both numbers by the same power of two.\<close>

lemma strip_even_spec:
  "f \<noteq> 0 \<Longrightarrow> \<exists>w. strip_even f s = (f div 2 ^ w, s div 2 ^ w) \<and> f div 2 ^ w mod 2 = 1 \<and> 2 ^ w dvd f"
proof (induction f s rule: strip_even.induct)
  case (1 f s)
  show ?case
  proof (cases "f mod 2 = 0")
    case True
    then have "f div 2 \<noteq> 0" using 1(2) by auto
    from 1(1) [OF conjI [OF True 1(2)] this] obtain w where "strip_even (f div 2) (s div 2) = (f div 2 div 2 ^ w, s div 2 div 2 ^ w)"
      "f div 2 div 2 ^ w mod 2 = 1" "2 ^ w dvd f div 2" by blast
    with True 1(2) show ?thesis
      by (intro exI [of _ "Suc w"]) (auto simp: strip_even.simps [of f s] div_mult2_eq elim: dvdE)
  next
    case False
    then show ?thesis by (intro exI [of _ 0]) (simp add: strip_even.simps [of f s])
  qed
qed

lemma strip_even_add:
  assumes "f \<noteq> 0" "f < 2 ^ t"
  shows "\<exists>w < t. strip_even f s = (f div 2 ^ w, s div 2 ^ w) \<and>
    strip_even (f + 2 ^ t) (s + 2 ^ t) = (f div 2 ^ w + 2 ^ (t - w), s div 2 ^ w + 2 ^ (t - w))"
  using assms
proof (induction f s arbitrary: t rule: strip_even.induct)
  case (1 f s)
  then obtain t' where t: "t = Suc t'" by (cases t) auto
  show ?case
  proof (cases "f mod 2 = 0")
    case True
    then have "f div 2 \<noteq> 0" "f div 2 < 2 ^ t'" using 1(2,3) t by auto
    from 1(1) [OF conjI [OF True 1(2)] this] obtain w where w: "w < t'" "strip_even (f div 2) (s div 2) = (f div 2 div 2 ^ w, s div 2 div 2 ^ w)"
      "strip_even (f div 2 + 2 ^ t') (s div 2 + 2 ^ t') = (f div 2 div 2 ^ w + 2 ^ (t' - w), s div 2 div 2 ^ w + 2 ^ (t' - w))"
      by blast
    have "(f + 2 ^ t) div 2 = f div 2 + 2 ^ t'" "(s + 2 ^ t) div 2 = s div 2 + 2 ^ t'" "(f + 2 ^ t) mod 2 = 0 \<and> f + 2 ^ t \<noteq> 0"
      using True t by auto
    then have "strip_even (f + 2 ^ t) (s + 2 ^ t) = strip_even (f div 2 + 2 ^ t') (s div 2 + 2 ^ t')"
      by (subst strip_even.simps) (simp del: power_Suc add_is_0)
    with w True 1(2) t show ?thesis
      by (intro exI [of _ "Suc w"]) (simp add: strip_even.simps [of f s] div_mult2_eq)
  next
    case False
    with t have "(f + 2 ^ t) mod 2 \<noteq> 0" by auto
    then have "strip_even (f + 2 ^ t) (s + 2 ^ t) = (f + 2 ^ t, s + 2 ^ t)"
      by (subst strip_even.simps) (simp del: power_Suc)
    with False t show ?thesis
      by (intro exI [of _ 0]) (simp add: strip_even.simps [of f s])
  qed
qed

subsection \<open>Lifting a walk from a subtree to the whole tree\<close>

text \<open>The left subtree of a tree is full: its last index is \<open>2 ^ t - 1\<close>, and in the whole tree the walk never meets the last node.\<close>

lemma walk_left:
  assumes "walk lf rt ps f (2 ^ t - 1) x = Some (0, 0, y)" "f < 2 ^ t" "s div 2 ^ t = 1"
  shows "walk lf rt ps f s x = Some (0, 1, y)"
  using assms
proof (induction ps arbitrary: f s t x)
  case Nil
  have "t = 0"
  proof (rule ccontr)
    assume "t \<noteq> 0"
    then have "(2::nat) \<le> 2 ^ t" by (cases t) simp_all
    with Nil.prems(1) show False by simp
  qed
  with Nil show ?case by simp
next
  case (Cons p ps)
  then obtain t' where t: "t = Suc t'" by (cases t) auto
  have half: "(2 ^ t - 1) div 2 = (2 ^ t' - 1 :: nat)" "f div 2 < 2 ^ t'" "s div 2 div 2 ^ t' = 1"
    using Cons.prems(2,3) t by (auto simp: div_mult2_eq)
  have odd: "(2 ^ t - 1) mod 2 = (1 :: nat)" by (simp add: t mod_2_eq_odd)
  have s: "f < s" "s \<noteq> 0"
  proof -
    have "2 ^ t \<le> s" using Cons.prems(3) by (metis div_less not_less zero_neq_one)
    with Cons.prems(2) show "f < s" "s \<noteq> 0" by auto
  qed
  show ?case
  proof (cases "f mod 2 = 1")
    case True
    with Cons.prems(1) half have "walk lf rt ps (f div 2) (2 ^ t' - 1) (lf p x) = Some (0, 0, y)"
      by (auto split: if_splits)
    from Cons.IH [OF this half(2,3)] True s show ?thesis by simp
  next
    case False
    with odd have "f \<noteq> 2 ^ t - 1" by auto
    with False Cons.prems(1) half have "walk lf rt ps (f div 2) (2 ^ t' - 1) (rt x p) = Some (0, 0, y)"
      by (auto split: if_splits)
    from Cons.IH [OF this half(2,3)] False s show ?thesis by simp
  qed
qed

text \<open>In the right subtree both indices are smaller by \<open>2 ^ t\<close>.\<close>

lemma walk_right:
  assumes "walk lf rt ps f s x = Some (0, 0, y)" "f \<le> s" "s < 2 ^ t"
  shows "\<exists>u. walk lf rt ps (f + 2 ^ t) (s + 2 ^ t) x = Some (2 ^ u, 2 ^ u, y)"
  using assms
proof (induction ps arbitrary: f s t x)
  case Nil
  then show ?case by (intro exI [of _ t]) simp
next
  case (Cons p ps)
  then have s0: "s \<noteq> 0" by (auto split: if_splits)
  with Cons.prems(3) obtain t' where t: "t = Suc t'" by (cases t) auto
  have par: "(f + 2 ^ t) mod 2 = f mod 2" using t by auto
  have half: "(f + 2 ^ t) div 2 = f div 2 + 2 ^ t'" "(s + 2 ^ t) div 2 = s div 2 + 2 ^ t'" "f div 2 \<le> s div 2" "s div 2 < 2 ^ t'"
    using Cons.prems(2,3) t by (auto intro: div_le_mono)
  consider "f mod 2 = 1" | "f mod 2 \<noteq> 1" "f = s" | "f mod 2 \<noteq> 1" "f \<noteq> s" by blast
  then show ?case
  proof cases
    case 1
    with Cons.prems(1) s0 have "walk lf rt ps (f div 2) (s div 2) (lf p x) = Some (0, 0, y)" by simp
    from Cons.IH [OF this half(3,4)] 1 par half s0 show ?thesis by auto
  next
    case 2
    have "f \<noteq> 0" "f < 2 ^ t" using 2 s0 Cons.prems(3) by auto
    from strip_even_add [OF this, of s] obtain w where w: "w < t" "strip_even f s = (f div 2 ^ w, s div 2 ^ w)"
      "strip_even (f + 2 ^ t) (s + 2 ^ t) = (f div 2 ^ w + 2 ^ (t - w), s div 2 ^ w + 2 ^ (t - w))" by blast
    then obtain v where v: "t - w = Suc v" by (metis Suc_diff_Suc)
    have "walk lf rt ps (f div 2 ^ w div 2) (s div 2 ^ w div 2) (lf p x) = Some (0, 0, y)"
      using Cons.prems(1) 2 s0 w(2) by (auto simp: Let_def)
    moreover have "f div 2 ^ w div 2 \<le> s div 2 ^ w div 2" using 2(2) by simp
    moreover have "s div 2 ^ w div 2 < 2 ^ v"
    proof -
      have "t = w + Suc v" using v w(1) by simp
      then have "s < 2 ^ w * 2 * 2 ^ v" using Cons.prems(3) by (simp add: power_add ac_simps)
      then show ?thesis by (simp add: div_mult2_eq [symmetric] less_mult_imp_div_less ac_simps)
    qed
    ultimately have "\<exists>u. walk lf rt ps (f div 2 ^ w div 2 + 2 ^ v) (s div 2 ^ w div 2 + 2 ^ v) (lf p x) = Some (2 ^ u, 2 ^ u, y)"
      by (rule Cons.IH)
    moreover have "(a + 2 * 2 ^ v) div 2 = a div 2 + 2 ^ v" for a :: nat by simp
    ultimately show ?thesis using 2 par s0 w(3) v by (simp add: Let_def add.commute)
  next
    case 3
    with Cons.prems(1) s0 have "walk lf rt ps (f div 2) (s div 2) (rt x p) = Some (0, 0, y)" by simp
    from Cons.IH [OF this half(3,4)] 3 par half s0 show ?thesis by auto
  qed
qed

text \<open>The last steps: the sibling on the right of a left subtree, on the left of a right one.\<close>

lemma walk_last_right: "walk lf rt [p] 0 1 x = Some (0, 0, rt x p)"
  by simp

lemma strip_even_pow2: "strip_even (2 ^ u) (2 ^ u) = (1, 1)"
  by (induction u) (simp_all add: strip_even.simps)

lemma walk_last_left: "walk lf rt [p] (2 ^ u) (2 ^ u) x = Some (0, 0, lf p x)"
  by (cases u) (auto simp: strip_even_pow2 strip_even_pow2 [of "Suc _", simplified])

subsection \<open>Completeness of inclusion proofs\<close>

lemma div_pow2_one:
  assumes "(2::nat) ^ t < n" "n \<le> 2 * 2 ^ t"
  shows "(n - 1) div 2 ^ t = 1"
proof -
  have "n - 1 = 2 ^ t * 1 + (n - 1 - 2 ^ t)" "n - 1 - 2 ^ t < 2 ^ t" using assms by auto
  then show ?thesis by (metis div_mult_self4 div_less add_0_right mult_numeral_1_right power_not_zero zero_neq_numeral numeral_One)
qed

lemma mth_node:
  assumes "1 < hi - lo"
  shows "mth sha d lo hi = node_bytes sha (mth sha d lo (lo + split_point (hi - lo))) (mth sha d (lo + split_point (hi - lo)) hi)"
  using assms by (subst mth.simps) (auto simp: Let_def)

lemma mth_leaf: "mth sha d lo (Suc lo) = d ! lo"
  by (subst mth.simps) simp

abbreviation incl_walk :: "(bytes \<Rightarrow> bytes) \<Rightarrow> bytes list \<Rightarrow> nat \<Rightarrow> nat \<Rightarrow> bytes \<Rightarrow> (nat \<times> nat \<times> bytes) option" where
  "incl_walk sha \<equiv> walk (\<lambda>p r. node_bytes sha p r) (\<lambda>r p. node_bytes sha r p)"

lemma path_walk:
  "i < n \<Longrightarrow> incl_walk sha (path sha i d lo (lo + n)) i (n - 1) (d ! (lo + i)) = Some (0, 0, mth sha d lo (lo + n))"
proof (induction n arbitrary: i lo rule: less_induct)
  case (less n)
  show ?case
  proof (cases "n \<le> 1")
    case True
    with less.prems have "n = 1" by linarith
    with less.prems show ?thesis by (simp add: path.simps mth_leaf)
  next
    case False
    then obtain t where t: "split_point n = 2 ^ t" "2 ^ t < n" "n \<le> 2 * 2 ^ t" using split_point_spec [of n] by auto
    let ?k = "2 ^ t :: nat"
    have node: "mth sha d lo (lo + n) = node_bytes sha (mth sha d lo (lo + ?k)) (mth sha d (lo + ?k) (lo + n))"
      using False t(1) by (subst mth_node) auto
    show ?thesis
    proof (cases "i < ?k")
      case True
      have "incl_walk sha (path sha i d lo (lo + ?k)) i (?k - 1) (d ! (lo + i)) = Some (0, 0, mth sha d lo (lo + ?k))"
        by (rule less.IH [OF t(2) True])
      from walk_left [OF this True div_pow2_one [OF t(2,3)]]
      show ?thesis using False True t(1) node
        by (subst path.simps) (simp add: Let_def walk_append walk_last_right [simplified])
    next
      case right: False
      let ?n = "n - ?k" and ?i = "i - ?k"
      have b: "?i < ?n" "?n < n" "?n - 1 < ?k" "?i \<le> ?n - 1" "?i + ?k = i" "?n - 1 + ?k = n - 1" "lo + ?k + ?n = lo + n" "lo + ?k + ?i = lo + i"
        using right less.prems t(2,3) by auto
      have "incl_walk sha (path sha ?i d (lo + ?k) (lo + ?k + ?n)) ?i (?n - 1) (d ! (lo + ?k + ?i))
          = Some (0, 0, mth sha d (lo + ?k) (lo + ?k + ?n))"
        by (rule less.IH [OF b(2,1)])
      from walk_right [OF this b(4,3)] obtain u where
        "incl_walk sha (path sha ?i d (lo + ?k) (lo + n)) i (n - 1) (d ! (lo + i)) = Some (2 ^ u, 2 ^ u, mth sha d (lo + ?k) (lo + n))"
        unfolding b by blast
      then show ?thesis using False right t(1) node
        by (subst path.simps) (simp add: Let_def walk_append walk_last_left del: walk.simps)
    qed
  qed
qed

subsection \<open>Completeness of consistency proofs\<close>

lemma pow2_iff: "is_power_of_two m \<longleftrightarrow> (\<exists>t. m = 2 ^ t)"
proof (induction m rule: is_power_of_two.induct)
  case (1 m)
  show ?case
  proof (cases "m = 0 \<or> m = 1")
    case True
    then show ?thesis by (auto simp: is_power_of_two.simps [of m] intro: exI [of _ 0])
  next
    case False
    have "(\<exists>t. m = 2 ^ t) \<longleftrightarrow> m mod 2 = 0 \<and> (\<exists>t. m div 2 = 2 ^ t)"
    proof
      assume "\<exists>t. m = 2 ^ t"
      then obtain t where t: "m = 2 ^ t" by blast
      with False obtain t' where "t = Suc t'" by (cases t) auto
      with t show "m mod 2 = 0 \<and> (\<exists>t. m div 2 = 2 ^ t)" by auto
    next
      assume "m mod 2 = 0 \<and> (\<exists>t. m div 2 = 2 ^ t)"
      then obtain t where "m mod 2 = 0" "m div 2 = 2 ^ t" by auto
      then show "\<exists>t. m = 2 ^ t" by (intro exI [of _ "Suc t"]) auto
    qed
    with False 1 show ?thesis by (subst is_power_of_two.simps) auto
  qed
qed

text \<open>\<open>strip_odd\<close> drops the trailing ones of \<open>m - 1\<close>, as many as \<open>m\<close> has trailing zeros.\<close>

lemma strip_odd_spec:
  "\<exists>z. strip_odd f s = (f div 2 ^ z, s div 2 ^ z) \<and> 2 ^ z dvd Suc f \<and> even (f div 2 ^ z)"
proof (induction f s rule: strip_odd.induct)
  case (1 f s)
  show ?case
  proof (cases "f mod 2 = 1")
    case True
    with 1 obtain z where z: "strip_odd (f div 2) (s div 2) = (f div 2 div 2 ^ z, s div 2 div 2 ^ z)"
      "2 ^ z dvd Suc (f div 2)" "even (f div 2 div 2 ^ z)" by blast
    from True have "Suc f = 2 * Suc (f div 2)" by presburger
    with z(2) have "2 * 2 ^ z dvd Suc f" by (metis mult_dvd_mono dvd_refl)
    with True z show ?thesis
      by (intro exI [of _ "Suc z"]) (simp add: strip_odd.simps [of f s] div_mult2_eq)
  next
    case False
    then show ?thesis by (intro exI [of _ 0]) (simp add: strip_odd.simps [of f s] even_iff_mod_2_eq_zero)
  qed
qed

lemma strip_odd_full: "strip_odd (2 ^ t - 1) (2 ^ t - 1) = (0, 0)"
proof (induction t)
  case (Suc t)
  have "(2 ^ Suc t - 1) mod 2 = (1::nat)" "(2 ^ Suc t - 1) div 2 = (2 ^ t - 1 :: nat)"
    by (simp_all add: mod_2_eq_odd)
  then show ?case using Suc by (subst strip_odd.simps) (simp del: power_Suc One_nat_def)
qed (simp add: strip_odd.simps)

abbreviation cons_walk :: "(bytes \<Rightarrow> bytes) \<Rightarrow> bytes list \<Rightarrow> nat \<Rightarrow> nat \<Rightarrow> bytes \<times> bytes \<Rightarrow> (nat \<times> nat \<times> bytes \<times> bytes) option" where
  "cons_walk sha \<equiv> walk (\<lambda>p (fr, sr). (node_bytes sha p fr, node_bytes sha p sr)) (\<lambda>(fr, sr) p. (fr, node_bytes sha sr p))"

text \<open>The path the verifier walks: the proof, with the first root in front when the first size is a power of two.\<close>

definition cons_path :: "(bytes \<Rightarrow> bytes) \<Rightarrow> nat \<Rightarrow> bytes list \<Rightarrow> nat \<Rightarrow> nat \<Rightarrow> bool \<Rightarrow> bytes list" where
  "cons_path sha m d lo n b =
     (if b \<and> (\<exists>t. m = 2 ^ t) then mth sha d lo (lo + m) # subproof sha m d lo (lo + n) b else subproof sha m d lo (lo + n) b)"

definition cons_ok :: "(bytes \<Rightarrow> bytes) \<Rightarrow> nat \<Rightarrow> bytes list \<Rightarrow> nat \<Rightarrow> nat \<Rightarrow> nat \<Rightarrow> bool \<Rightarrow> bool" where
  "cons_ok sha m d lo n z b \<longleftrightarrow> (\<exists>p ps. cons_path sha m d lo n b = p # ps \<and>
     cons_walk sha ps ((m - 1) div 2 ^ z) ((n - 1) div 2 ^ z) (p, p) = Some (0, 0, mth sha d lo (lo + m), mth sha d lo (lo + n)))"

lemma div_diff_pow2:
  assumes "z \<le> t"
  shows "(2 ^ t - 1) div 2 ^ z = (2 ^ (t - z) - 1 :: nat)"
proof -
  have "2 ^ t = (2 ^ (t - z) * 2 ^ z :: nat)" using assms by (simp add: power_add [symmetric])
  moreover have "(a * c - 1) div c = a - 1" if pos: "0 < c" "0 < a" for a c :: nat
  proof -
    obtain a' c' where ac: "a = Suc a'" "c = Suc c'" using pos by (auto simp: gr0_conv_Suc)
    then have "a * c - 1 = c' + a' * c" by simp
    then show ?thesis unfolding ac by (simp del: mult_Suc_right)
  qed
  ultimately show ?thesis by simp
qed

lemma pow2_le_exp: "2 ^ z dvd m \<Longrightarrow> 0 < m \<Longrightarrow> m \<le> 2 ^ t \<Longrightarrow> z \<le> (t::nat)" for m :: nat
proof (rule ccontr)
  assume "2 ^ z dvd m" "0 < m" "m \<le> 2 ^ t" "\<not> z \<le> t"
  then have "(2::nat) ^ z \<le> m" "(2::nat) ^ t < 2 ^ z" by (auto dest: dvd_imp_le)
  with \<open>m \<le> 2 ^ t\<close> show False by simp
qed

lemma subproof_full: "subproof sha m d lo (lo + m) b = (if b then [] else [mth sha d lo (lo + m)])"
  by (simp add: subproof.simps [of sha m])

lemma subproof_walk:
  assumes "0 < m" "m \<le> n" "m = n \<Longrightarrow> \<exists>t. m = 2 ^ t" "2 ^ z dvd m" "even ((m - 1) div 2 ^ z)"
  shows "cons_ok sha m d lo n z b"
  using assms
proof (induction n arbitrary: m lo b rule: less_induct)
  case (less n m lo b)
  show ?case
  proof (cases "m = n")
    case True
    with less.prems obtain t where t: "m = 2 ^ t" by blast
    with less.prems(1,4) have zt: "z \<le> t" by (simp add: dvd_power_iff_le)
    have "t = z"
    proof (rule ccontr)
      assume "t \<noteq> z"
      with zt have "odd ((2::nat) ^ (t - z) - 1)" by simp
      with less.prems(5) t div_diff_pow2 [OF zt] show False by simp
    qed
    with True t show ?thesis
      by (auto simp: cons_ok_def cons_path_def subproof_full)
  next
    case False
    with less.prems(1,2) have mn: "m < n" "1 < n" by auto
    then obtain t where t: "split_point n = 2 ^ t" "2 ^ t < n" "n \<le> 2 * 2 ^ t" using split_point_spec [of n] by auto
    let ?k = "2 ^ t :: nat"
    have node: "mth sha d lo (lo + n) = node_bytes sha (mth sha d lo (lo + ?k)) (mth sha d (lo + ?k) (lo + n))"
      using mn(2) t(1) by (subst mth_node) auto
    show ?thesis
    proof (cases "m \<le> ?k")
      case True
      have zt: "z \<le> t" using pow2_le_exp less.prems(1,4) True by blast
      have "cons_ok sha m d lo ?k z b"
        by (rule less.IH [OF t(2) less.prems(1) True _ less.prems(4,5)]) blast
      then obtain p ps where p: "cons_path sha m d lo ?k b = p # ps"
        "cons_walk sha ps ((m - 1) div 2 ^ z) (2 ^ (t - z) - 1) (p, p) = Some (0, 0, mth sha d lo (lo + m), mth sha d lo (lo + ?k))"
        unfolding cons_ok_def div_diff_pow2 [OF zt] by blast
      have "(m - 1) div 2 ^ z < 2 ^ (t - z)"
        using True less.prems(1) zt by (simp add: div_less_iff_less_mult power_add [symmetric])
      moreover have "(n - 1) div 2 ^ z div 2 ^ (t - z) = 1"
        using div_pow2_one [OF t(2,3)] zt by (simp add: div_mult2_eq [symmetric] power_add [symmetric])
      ultimately have "cons_walk sha ps ((m - 1) div 2 ^ z) ((n - 1) div 2 ^ z) (p, p) = Some (0, 1, mth sha d lo (lo + m), mth sha d lo (lo + ?k))"
        by (rule walk_left [OF p(2)])
      then have "cons_walk sha (ps @ [mth sha d (lo + ?k) (lo + n)]) ((m - 1) div 2 ^ z) ((n - 1) div 2 ^ z) (p, p)
          = Some (0, 0, mth sha d lo (lo + m), mth sha d lo (lo + n))"
        by (simp add: walk_append node)
      moreover have "subproof sha m d lo (lo + n) b = subproof sha m d lo (lo + ?k) b @ [mth sha d (lo + ?k) (lo + n)]"
        using False mn t(1) True by (subst subproof.simps) (simp add: Let_def)
      then have "cons_path sha m d lo n b = p # ps @ [mth sha d (lo + ?k) (lo + n)]"
        using p(1) by (auto simp: cons_path_def split: if_splits)
      ultimately show ?thesis unfolding cons_ok_def by blast
    next
      case right: False
      let ?n = "n - ?k" and ?m = "m - ?k"
      have b: "0 < ?m" "?m \<le> ?n" "?n < n" "?n - 1 < ?k" "?n - 1 + ?k = n - 1" "?m - 1 + ?k = m - 1" "lo + ?k + ?n = lo + n" "lo + ?k + ?m = lo + m" "?m < ?k"
        using right mn t(2,3) by auto
      have zt: "z < t"
      proof (rule ccontr)
        assume "\<not> z < t"
        then have "?k dvd m" using less.prems(4) by (meson dvd_trans le_imp_power_dvd not_less)
        then have "?k dvd ?m" using right by (simp add: dvd_diff_nat)
        with b(1,9) show False by (auto dest: dvd_imp_le)
      qed
      then have zk: "(?k::nat) = 2 ^ z * 2 ^ (t - z)" by (simp add: power_add [symmetric])
      have div: "(x + ?k) div 2 ^ z = x div 2 ^ z + 2 ^ (t - z)" for x :: nat
        unfolding zk by simp
      have "2 ^ z dvd ?m" using less.prems(4) zk right by (simp add: dvd_diff_nat)
      moreover have "even ((?m - 1) div 2 ^ z)"
        using less.prems(5) div [of "?m - 1"] zt unfolding b(6) by simp
      moreover have "?m \<noteq> ?n" using right mn by linarith
      ultimately have "cons_ok sha ?m d (lo + ?k) ?n z False"
        by (intro less.IH [OF b(3,1,2)]) auto
      then obtain p ps where p: "cons_path sha ?m d (lo + ?k) ?n False = p # ps"
        "cons_walk sha ps ((?m - 1) div 2 ^ z) ((?n - 1) div 2 ^ z) (p, p) = Some (0, 0, mth sha d (lo + ?k) (lo + m), mth sha d (lo + ?k) (lo + n))"
        unfolding cons_ok_def b by blast
      have "(?m - 1) div 2 ^ z \<le> (?n - 1) div 2 ^ z" using b(2) by (intro div_le_mono) simp
      moreover have "(?n - 1) div 2 ^ z < 2 ^ (t - z)"
        using b(4) zk by (simp add: div_less_iff_less_mult mult.commute)
      ultimately obtain u where u: "cons_walk sha ps ((?m - 1) div 2 ^ z + 2 ^ (t - z)) ((?n - 1) div 2 ^ z + 2 ^ (t - z)) (p, p)
          = Some (2 ^ u, 2 ^ u, mth sha d (lo + ?k) (lo + m), mth sha d (lo + ?k) (lo + n))"
        using walk_right [OF p(2)] by blast
      have "(?m - 1) div 2 ^ z + 2 ^ (t - z) = (m - 1) div 2 ^ z" "(?n - 1) div 2 ^ z + 2 ^ (t - z) = (n - 1) div 2 ^ z"
        using div [of "?m - 1"] div [of "?n - 1"] unfolding b(5,6) by simp_all
      with u have "cons_walk sha ps ((m - 1) div 2 ^ z) ((n - 1) div 2 ^ z) (p, p)
          = Some (2 ^ u, 2 ^ u, mth sha d (lo + ?k) (lo + m), mth sha d (lo + ?k) (lo + n))" by simp
      moreover have "mth sha d lo (lo + m) = node_bytes sha (mth sha d lo (lo + ?k)) (mth sha d (lo + ?k) (lo + m))"
      proof -
        have "(1::nat) \<le> 2 ^ t" by simp
        then have "1 < m" using right by linarith
        moreover have "split_point m = ?k"
        proof -
          obtain s where s: "split_point m = 2 ^ s" "2 ^ s < m" "m \<le> 2 * 2 ^ s" using split_point_spec [OF \<open>1 < m\<close>] by auto
          have "(2::nat) ^ s < 2 ^ Suc t" "(2::nat) ^ t < 2 ^ Suc s" using s right mn t(3) by auto
          then have "s < Suc t" "t < Suc s" by (meson power_less_imp_less_exp one_less_numeral_iff semiring_norm(76))+
          then have "s = t" by simp
          with s show ?thesis by simp
        qed
        ultimately show ?thesis by (subst mth_node) auto
      qed
      ultimately have "cons_walk sha (ps @ [mth sha d lo (lo + ?k)]) ((m - 1) div 2 ^ z) ((n - 1) div 2 ^ z) (p, p)
          = Some (0, 0, mth sha d lo (lo + m), mth sha d lo (lo + n))"
        by (simp add: walk_append node walk_last_left del: walk.simps)
      moreover have "subproof sha m d lo (lo + n) b = subproof sha ?m d (lo + ?k) (lo + n) False @ [mth sha d lo (lo + ?k)]"
        using False mn t(1) right by (subst subproof.simps) (simp add: Let_def)
      moreover have "\<not> (\<exists>s. m = 2 ^ s)"
      proof
        assume "\<exists>s. m = 2 ^ s"
        then obtain s where s: "m = 2 ^ s" ..
        with right have "t < s" by (meson not_le power_increasing one_le_numeral)
        then have "2 * ?k \<le> m" unfolding s by (metis Suc_leI power_Suc power_increasing one_le_numeral)
        with mn t(3) show False by simp
      qed
      ultimately show ?thesis using p(1) unfolding cons_ok_def cons_path_def b by auto
    qed
  qed
qed

subsection \<open>Soundness\<close>

text \<open>The inputs of the digest that a verification of an audit path hashes.\<close>

fun inclusion_inputs :: "(bytes \<Rightarrow> bytes) \<Rightarrow> bytes list \<Rightarrow> nat \<Rightarrow> nat \<Rightarrow> bytes \<Rightarrow> bytes list" where
  "inclusion_inputs sha [] f s r = []"
| "inclusion_inputs sha (p # ps) f s r =
     (if s = 0 then []
      else if f mod 2 = 1 \<or> f = s then
        let (f', s') = (if f mod 2 = 0 then strip_even f s else (f, s))
        in ([1] @ p @ r) # inclusion_inputs sha ps (f' div 2) (s' div 2) (node_bytes sha p r)
      else ([1] @ r @ p) # inclusion_inputs sha ps (f div 2) (s div 2) (node_bytes sha r p))"

text \<open>Two different inputs, one of each list, with one digest.\<close>

definition collision :: "(bytes \<Rightarrow> bytes) \<Rightarrow> bytes list \<Rightarrow> bytes list \<Rightarrow> bool" where
  "collision sha xs ys \<longleftrightarrow> (\<exists>x \<in> set xs. \<exists>y \<in> set ys. x \<noteq> y \<and> sha x = sha y)"

lemma collision_Cons: "collision sha xs ys \<Longrightarrow> collision sha (x # xs) (y # ys)"
  by (auto simp: collision_def)

lemma step_collision:
  assumes "node_bytes sha a b = node_bytes sha a' b'" "length a = length a'" "length b = length b'"
  shows "(a = a' \<and> b = b') \<or> collision sha (([1] @ a @ b) # xs) (([1] @ a' @ b') # ys)"
  using assms by (auto simp: node_bytes_def collision_def)

definition digest_size :: "(bytes \<Rightarrow> bytes) \<Rightarrow> bool" where
  "digest_size sha \<longleftrightarrow> (\<forall>x. is_bytes 32 (sha x))"

lemma node_bytes_length: "digest_size sha \<Longrightarrow> length (node_bytes sha a b) = 32"
  by (simp add: node_bytes_def digest_size_def is_bytes_def)

lemma inclusion_forge:
  assumes "digest_size sha"
    and "inclusion_loop sha ps f s r = Some (0, R)" "inclusion_loop sha qs f s r' = Some (0, R)"
    and "\<forall>p \<in> set ps \<union> set qs. length p = 32" "length r = 32" "length r' = 32"
  shows "(r = r' \<and> ps = qs) \<or> collision sha (inclusion_inputs sha ps f s r) (inclusion_inputs sha qs f s r')"
  using assms(2-)
proof (induction ps arbitrary: qs f s r r')
  case Nil
  then show ?case by (cases qs) auto
next
  case (Cons p ps)
  then have s0: "s \<noteq> 0" by (auto split: if_splits)
  with Cons.prems(2) obtain q qs' where qs: "qs = q # qs'" by (cases qs) auto
  have len: "length p = 32" "length q = 32" using Cons.prems(3) qs by auto
  obtain f' s' where fs: "(f', s') = (if f mod 2 = 0 then strip_even f s else (f, s))"
    by (cases "if f mod 2 = 0 then strip_even f s else (f, s)") auto
  show ?case
  proof (cases "f mod 2 = 1 \<or> f = s")
    case True
    let ?r = "node_bytes sha p r" and ?r' = "node_bytes sha q r'"
    have ih: "(?r = ?r' \<and> ps = qs') \<or> collision sha (inclusion_inputs sha ps (f' div 2) (s' div 2) ?r) (inclusion_inputs sha qs' (f' div 2) (s' div 2) ?r')"
      by (rule Cons.IH)
        (use Cons.prems qs True s0 fs in \<open>auto simp: Let_def node_bytes_length [OF assms(1)] split: prod.splits if_splits\<close>)
    have ins: "inclusion_inputs sha (p # ps) f s r = ([1] @ p @ r) # inclusion_inputs sha ps (f' div 2) (s' div 2) ?r"
      "inclusion_inputs sha (q # qs') f s r' = ([1] @ q @ r') # inclusion_inputs sha qs' (f' div 2) (s' div 2) ?r'"
      using True s0 by (simp_all add: fs [symmetric])
    from ih show ?thesis
    proof
      assume e: "?r = ?r' \<and> ps = qs'"
      with step_collision [of sha p r q r'] len Cons.prems(4,5) show ?thesis unfolding qs ins by auto
    qed (simp add: qs ins collision_Cons del: inclusion_inputs.simps)
  next
    case False
    let ?r = "node_bytes sha r p" and ?r' = "node_bytes sha r' q"
    have ih: "(?r = ?r' \<and> ps = qs') \<or> collision sha (inclusion_inputs sha ps (f div 2) (s div 2) ?r) (inclusion_inputs sha qs' (f div 2) (s div 2) ?r')"
      by (rule Cons.IH) (use Cons.prems qs False s0 in \<open>auto simp: node_bytes_length [OF assms(1)]\<close>)
    have ins: "inclusion_inputs sha (p # ps) f s r = ([1] @ r @ p) # inclusion_inputs sha ps (f div 2) (s div 2) ?r"
      "inclusion_inputs sha (q # qs') f s r' = ([1] @ r' @ q) # inclusion_inputs sha qs' (f div 2) (s div 2) ?r'"
      using False s0 by simp_all
    from ih show ?thesis
    proof
      assume e: "?r = ?r' \<and> ps = qs'"
      with step_collision [of sha r p r' q] len Cons.prems(4,5) show ?thesis unfolding qs ins by auto
    qed (simp add: qs ins collision_Cons del: inclusion_inputs.simps)
  qed
qed

text \<open>The second root of a consistency proof evolves as the hash of an audit path does.\<close>

lemma consistency_second:
  "consistency_loop sha ps f s fr sr = Some (s', FR, SR) \<Longrightarrow> inclusion_loop sha ps f s sr = Some (s', SR)"
  by (induction ps arbitrary: f s fr sr) (auto simp: Let_def split: prod.splits if_splits)

subsection \<open>The verifiers on the proofs of the builders\<close>

lemma is_hex32_VStr [simp]: "is_hex32 (VStr s) = is_hex64 s"
  by (simp add: is_hex32_def)

lemma leaf_bytes_ok: "list_all is_hex32 leaves \<Longrightarrow> leaf_bytes (VArr leaves) = Inr (map str_bytes leaves)"
proof -
  have "list_all is_hex32 leaves \<Longrightarrow> rmap from_hex leaves = Inr (map str_bytes leaves)"
    by (induction leaves) (auto simp: is_hex32_def from_hex_def str_bytes_def split: jsval.splits)
  then show "list_all is_hex32 leaves \<Longrightarrow> ?thesis" by (simp add: leaf_bytes_def is_arr_def elems_def)
qed

lemma str_bytes_hex: "is_bytes 32 b \<Longrightarrow> str_bytes (VStr (to_hex b)) = b"
  by (simp add: str_bytes_def from_to_hex)

lemma str_bytes_length: "is_hex32 v \<Longrightarrow> is_bytes 32 (str_bytes v)"
  by (auto simp: is_hex32_def str_bytes_def hex_bytes_is_bytes split: jsval.splits)

lemma str_bytes_inj: "is_hex32 u \<Longrightarrow> is_hex32 v \<Longrightarrow> str_bytes u = str_bytes v \<Longrightarrow> u = v"
  by (auto simp: is_hex32_def str_bytes_def split: jsval.splits) (metis to_hex_from)

lemma map_str_bytes_hex: "\<forall>b \<in> set bs. is_bytes 32 b \<Longrightarrow> map str_bytes (map (VStr \<circ> to_hex) bs) = bs"
  by (induction bs) (auto simp: str_bytes_hex)

lemma mth_is_bytes:
  assumes "digest_size sha" "\<forall>b \<in> set d. is_bytes 32 b" "hi \<le> length d"
  shows "is_bytes 32 (mth sha d lo hi)"
proof (cases "hi - lo = 1")
  case True
  with assms have "d ! lo \<in> set d" by (intro nth_mem) simp
  with True assms(2) show ?thesis by (subst mth.simps) (simp add: Let_def)
next
  case False
  with assms(1) show ?thesis by (subst mth.simps) (simp add: Let_def digest_size_def node_bytes_def)
qed

lemma path_is_bytes:
  "digest_size sha \<Longrightarrow> \<forall>b \<in> set d. is_bytes 32 b \<Longrightarrow> hi \<le> length d \<Longrightarrow> \<forall>b \<in> set (path sha i d lo hi). is_bytes 32 b"
proof (induction sha i d lo hi rule: path.induct [case_names step])
  case (step sha i d lo hi)
  show ?case
  proof (cases "hi - lo \<le> 1")
    case False
    then have k: "split_point (hi - lo) < hi - lo" using split_point_bounds [of "hi - lo"] by simp
    then have le: "lo + split_point (hi - lo) \<le> length d" using step.prems(3) by linarith
    show ?thesis
    proof (cases "i < split_point (hi - lo)")
      case True
      from step.IH(1) [OF refl False refl True step.prems(1,2) le] False True
      show ?thesis
        using mth_is_bytes [OF step.prems, of "lo + split_point (hi - lo)"] by (subst path.simps) (auto simp: Let_def)
    next
      case right: False
      from step.IH(2) [OF refl False refl right step.prems] False right
      show ?thesis
        using mth_is_bytes [OF step.prems(1,2) le, of lo] by (subst path.simps) (auto simp: Let_def)
    qed
  qed (simp add: path.simps)
qed

lemma size_ok: "n \<le> nat max_safe \<Longrightarrow> is_size (VNum (jint (int n))) \<and> size_of (VNum (jint (int n))) = n"
  by (simp add: is_size_def size_of_def is_safe_int_def jint_def num_int_def is_integer_num_def max_safe_def)

lemma num_int_jint [simp]: "num_int (jint i) = i"
  by (simp add: num_int_def jint_def)

lemma is_safe_jint: "is_safe_int (jint i) \<longleftrightarrow> \<bar>i\<bar> \<le> max_safe"
  by (simp add: is_safe_int_def jint_def)

text \<open>The input a caller gives the verifier for a proof.\<close>

definition inclusion_input :: "jsval \<Rightarrow> inclusion_proof \<Rightarrow> jsstr \<Rightarrow> jsval" where
  "inclusion_input leaf p rh = VObj
     [(js ''leaf_hash'', leaf), (js ''leaf_index'', VNum (jint (int (leaf_index p)))),
      (js ''tree_size'', VNum (jint (int (tree_size p)))), (js ''audit_path'', VArr (map VStr (audit_path p))),
      (js ''root'', VStr rh)]"

lemma inclusion_input_fld [simp]:
  "fld (inclusion_input leaf p rh) (js ''leaf_hash'') = leaf"
  "fld (inclusion_input leaf p rh) (js ''leaf_index'') = VNum (jint (int (leaf_index p)))"
  "fld (inclusion_input leaf p rh) (js ''tree_size'') = VNum (jint (int (tree_size p)))"
  "fld (inclusion_input leaf p rh) (js ''audit_path'') = VArr (map VStr (audit_path p))"
  "fld (inclusion_input leaf p rh) (js ''root'') = VStr rh"
  by (simp_all add: inclusion_input_def fld_def own_def members_def)

text \<open>The leaves of a tree: hexadecimal digests, fewer than the safe integers.\<close>

definition tree_leaves :: "jsval list \<Rightarrow> bool" where
  "tree_leaves leaves \<longleftrightarrow> list_all is_hex32 leaves \<and> int (length leaves) \<le> max_safe"

lemma tree_leaves_bytes: "tree_leaves leaves \<Longrightarrow> \<forall>b \<in> set (map str_bytes leaves). is_bytes 32 b"
  by (auto simp: tree_leaves_def list_all_iff str_bytes_length)

lemma inclusion_complete_lemma:
  assumes sha: "digest_size sha" and lv: "tree_leaves leaves" and i: "i < length leaves"
  shows "\<exists>p root. inclusion_proof sha (VArr leaves) (jint (int i)) = Inr p
     \<and> merkle_tree_hash sha (VArr leaves) = Inr root
     \<and> leaf_index p = i \<and> tree_size p = length leaves
     \<and> inclusion_loop sha (map str_bytes (map VStr (audit_path p))) i (length leaves - 1) (str_bytes (leaves ! i)) = Some (0, hex_bytes root)
     \<and> list_all is_hex32 (map VStr (audit_path p)) \<and> is_hex64 root
     \<and> verify_inclusion_proof sha (inclusion_input (leaves ! i) p root)"
proof -
  let ?d = "map str_bytes leaves"
  let ?ps = "path sha i ?d 0 (length leaves)" and ?root = "mth sha ?d 0 (length leaves)"
  note db = tree_leaves_bytes [OF lv]
  have lb: "leaf_bytes (VArr leaves) = Inr ?d" using lv by (simp add: leaf_bytes_ok tree_leaves_def)
  have n: "int (length leaves) \<le> max_safe" using lv by (simp add: tree_leaves_def)
  have pb: "\<forall>b \<in> set ?ps. is_bytes 32 b" by (rule path_is_bytes [OF sha db]) simp
  have rb: "is_bytes 32 ?root" by (rule mth_is_bytes [OF sha db]) simp
  define p where "p = \<lparr> leaf_index = i, tree_size = length leaves, audit_path = map to_hex ?ps \<rparr>"
  have ip: "inclusion_proof sha (VArr leaves) (jint (int i)) = Inr p"
    using i n by (simp add: inclusion_proof_def lb is_safe_jint Let_def p_def)
  have mt: "merkle_tree_hash sha (VArr leaves) = Inr (to_hex ?root)"
    by (simp add: merkle_tree_hash_def lb)
  have hex: "map str_bytes (map VStr (audit_path p)) = ?ps"
    using map_str_bytes_hex [OF pb] by (simp add: p_def o_def)
  have walk: "inclusion_loop sha ?ps i (length leaves - 1) (str_bytes (leaves ! i)) = Some (0, ?root)"
    using path_walk [OF i, of sha ?d 0] i by (simp add: inclusion_loop_walk)
  have all: "list_all is_hex32 (map VStr (audit_path p))"
    using pb by (auto simp: p_def list_all_iff intro: to_hex_is_hex64)
  have hx: "is_hex64 (to_hex ?root)" by (rule to_hex_is_hex64 [OF rb])
  have lh: "is_hex32 (leaves ! i)" using lv i by (auto simp: tree_leaves_def list_all_length)
  have sz: "is_size (VNum (jint (int i)))" "is_size (VNum (jint (int (length leaves))))"
    using size_ok [of i] size_ok [of "length leaves"] i n by auto
  have so: "size_of (VNum (jint (int j))) = j" for j by (simp add: size_of_def)
  have "verify_inclusion_proof sha (inclusion_input (leaves ! i) p (to_hex ?root))"
    using lh hx sz all i walk hex
    by (simp add: verify_inclusion_proof_def Let_def so is_arr_def elems_def) (simp add: p_def so)
  with ip mt walk hex all hx show ?thesis
    by (intro exI [of _ p] exI [of _ "to_hex ?root"]) (simp add: from_to_hex [OF rb] p_def)
qed

definition consistency_input :: "consistency_proof \<Rightarrow> jsstr \<Rightarrow> jsstr \<Rightarrow> jsval" where
  "consistency_input p r1 r2 = VObj
     [(js ''first_size'', VNum (jint (int (first_size p)))), (js ''second_size'', VNum (jint (int (second_size p)))),
      (js ''first_root'', VStr r1), (js ''second_root'', VStr r2), (js ''proof'', VArr (map VStr (proof_hashes p)))]"

lemma consistency_input_fld [simp]:
  "fld (consistency_input p r1 r2) (js ''first_size'') = VNum (jint (int (first_size p)))"
  "fld (consistency_input p r1 r2) (js ''second_size'') = VNum (jint (int (second_size p)))"
  "fld (consistency_input p r1 r2) (js ''first_root'') = VStr r1"
  "fld (consistency_input p r1 r2) (js ''second_root'') = VStr r2"
  "fld (consistency_input p r1 r2) (js ''proof'') = VArr (map VStr (proof_hashes p))"
  by (simp_all add: consistency_input_def fld_def own_def members_def)

lemma mth_take: "hi \<le> m \<Longrightarrow> mth sha (take m d) lo hi = mth sha d lo hi"
proof (induction sha d lo hi rule: mth.induct [case_names step])
  case (step sha d lo hi)
  show ?case
  proof (cases "hi - lo = 0 \<or> hi - lo = 1")
    case True
    with step.prems show ?thesis by (auto simp: mth.simps)
  next
    case False
    then have "1 < hi - lo" by linarith
    then have "split_point (hi - lo) < hi - lo" using split_point_bounds [of "hi - lo"] by simp
    then have le: "lo + split_point (hi - lo) \<le> m" using step.prems by linarith
    have "mth sha (take m d) lo (lo + split_point (hi - lo)) = mth sha d lo (lo + split_point (hi - lo))"
      by (rule step.IH(1) [OF refl _ _ refl le]) (use False in auto)
    moreover have "mth sha (take m d) (lo + split_point (hi - lo)) hi = mth sha d (lo + split_point (hi - lo)) hi"
      by (rule step.IH(2) [OF refl _ _ refl step.prems]) (use False in auto)
    ultimately show ?thesis
      unfolding mth_node [OF \<open>1 < hi - lo\<close>, of sha "take m d"] mth_node [OF \<open>1 < hi - lo\<close>, of sha d] by (simp only:)
  qed
qed

lemma subproof_is_bytes:
  "digest_size sha \<Longrightarrow> \<forall>b \<in> set d. is_bytes 32 b \<Longrightarrow> hi \<le> length d \<Longrightarrow> \<forall>b \<in> set (subproof sha m d lo hi c). is_bytes 32 b"
proof (induction sha m d lo hi c rule: subproof.induct [case_names step])
  case (step sha m d lo hi c)
  consider "m = hi - lo" | "m \<noteq> hi - lo" "hi - lo \<le> 1" | "m \<noteq> hi - lo" "\<not> hi - lo \<le> 1" by blast
  then show ?case
  proof cases
    case 1
    then show ?thesis using mth_is_bytes [OF step.prems, of lo] by (subst subproof.simps) (simp add: Let_def)
  next
    case 2
    then show ?thesis by (subst subproof.simps) (simp add: Let_def)
  next
    case 3
    then have k: "split_point (hi - lo) < hi - lo" using split_point_bounds [of "hi - lo"] by simp
    then have le: "lo + split_point (hi - lo) \<le> length d" using step.prems(3) by linarith
    show ?thesis
    proof (cases "m \<le> split_point (hi - lo)")
      case True
      from step.IH(1) [OF refl 3 refl True step.prems(1,2) le] 3 True
      show ?thesis
        using mth_is_bytes [OF step.prems, of "lo + split_point (hi - lo)"] by (subst subproof.simps) (auto simp: Let_def)
    next
      case right: False
      from step.IH(2) [OF refl 3 refl right step.prems] 3 right
      show ?thesis
        using mth_is_bytes [OF step.prems(1,2) le, of lo] by (subst subproof.simps) (auto simp: Let_def)
    qed
  qed
qed

text \<open>What the verifier of consistency computes on an honest proof, for \<open>0 < m < n\<close>.\<close>

lemma consistency_honest:
  assumes sha: "digest_size sha" and lv: "tree_leaves leaves" and m: "0 < m" "m < length leaves"
  defines "d \<equiv> map str_bytes leaves" and "n \<equiv> length leaves"
  shows "\<exists>p ps. (if is_power_of_two m then mth sha d 0 m # subproof sha m d 0 n True else subproof sha m d 0 n True) = p # ps
     \<and> (\<forall>b \<in> set (p # ps). is_bytes 32 b)
     \<and> consistency_loop sha ps (fst (strip_odd (m - 1) (n - 1))) (snd (strip_odd (m - 1) (n - 1))) p p
        = Some (0, mth sha d 0 m, mth sha d 0 n)"
proof -
  obtain z where z: "strip_odd (m - 1) (n - 1) = ((m - 1) div 2 ^ z, (n - 1) div 2 ^ z)" "2 ^ z dvd m" "even ((m - 1) div 2 ^ z)"
    using strip_odd_spec [of "m - 1" "n - 1"] m(1) by auto
  have "cons_ok sha m d 0 n z True" using m z by (intro subproof_walk) (auto simp: n_def)
  then obtain p ps where p: "cons_path sha m d 0 n True = p # ps"
    "cons_walk sha ps ((m - 1) div 2 ^ z) ((n - 1) div 2 ^ z) (p, p) = Some (0, 0, mth sha d 0 m, mth sha d 0 n)"
    unfolding cons_ok_def by auto
  have path: "(if is_power_of_two m then mth sha d 0 m # subproof sha m d 0 n True else subproof sha m d 0 n True) = p # ps"
    using p(1) by (simp add: cons_path_def pow2_iff split: if_splits)
  note db = tree_leaves_bytes [OF lv, folded d_def]
  have "\<forall>b \<in> set (subproof sha m d 0 n True). is_bytes 32 b" by (rule subproof_is_bytes [OF sha db]) (simp add: d_def n_def)
  moreover have "is_bytes 32 (mth sha d 0 m)" using m by (intro mth_is_bytes [OF sha db]) (simp add: d_def)
  ultimately have "\<forall>b \<in> set (p # ps). is_bytes 32 b" unfolding path [symmetric] by simp
  with path p(2) z(1) show ?thesis by (auto simp: consistency_loop_walk)
qed

text \<open>The inputs of the digest behind the second root, while a consistency proof is checked.\<close>

definition consistency_path :: "jsval \<Rightarrow> jsval list" where
  "consistency_path input =
     (let pr = elems (fld input (js ''proof'')) in
      if is_power_of_two (size_of (fld input (js ''first_size''))) then fld input (js ''first_root'') # pr else pr)"

definition consistency_inputs :: "(bytes \<Rightarrow> bytes) \<Rightarrow> jsval \<Rightarrow> bytes list" where
  "consistency_inputs sha input =
     (case consistency_path input of
        [] \<Rightarrow> []
      | p # ps \<Rightarrow>
          let (f, s) = strip_odd (size_of (fld input (js ''first_size'')) - 1) (size_of (fld input (js ''second_size'')) - 1)
          in inclusion_inputs sha (map str_bytes ps) f s (str_bytes p))"

text \<open>What acceptance means when \<open>0 < m < n\<close>.\<close>

lemma consistency_accepted:
  assumes acc: "verify_consistency_proof sha input"
    and sizes: "size_of (fld input (js ''first_size'')) = m" "size_of (fld input (js ''second_size'')) = n" "0 < m" "m \<noteq> n"
  shows "\<exists>p ps fr sr r1 r2. consistency_path input = p # ps \<and> list_all is_hex32 (p # ps)
    \<and> consistency_loop sha (map str_bytes ps) (fst (strip_odd (m - 1) (n - 1))) (snd (strip_odd (m - 1) (n - 1))) (str_bytes p) (str_bytes p) = Some (0, fr, sr)
    \<and> fld input (js ''first_root'') = VStr r1 \<and> fld input (js ''second_root'') = VStr r2 \<and> is_hex64 r1 \<and> is_hex64 r2
    \<and> to_hex fr = r1 \<and> to_hex sr = r2 \<and> m < n"
proof -
  have g: "is_hex32 (fld input (js ''first_root''))" "is_hex32 (fld input (js ''second_root''))"
    "list_all is_hex32 (elems (fld input (js ''proof'')))" "m < n"
    using acc sizes unfolding verify_consistency_proof_def Let_def by (auto split: if_splits)
  obtain r1 r2 where r: "fld input (js ''first_root'') = VStr r1" "fld input (js ''second_root'') = VStr r2"
    using g(1,2) by (auto simp: is_hex32_def split: jsval.splits)
  have cp: "(if is_power_of_two m then fld input (js ''first_root'') # elems (fld input (js ''proof'')) else elems (fld input (js ''proof'')))
      = consistency_path input"
    by (simp add: consistency_path_def sizes Let_def)
  have core: "case consistency_path input of [] \<Rightarrow> False
      | p # ps \<Rightarrow> (case strip_odd (m - 1) (n - 1) of (f, s) \<Rightarrow>
          (case consistency_loop sha (map str_bytes ps) f s (str_bytes p) (str_bytes p) of
             None \<Rightarrow> False
           | Some (s', fr, sr) \<Rightarrow> VStr (to_hex fr) = fld input (js ''first_root'') \<and> VStr (to_hex sr) = fld input (js ''second_root'') \<and> s' = 0))"
    using acc g sizes(3,4) unfolding verify_consistency_proof_def Let_def sizes(1,2) cp by (simp split: if_splits)
  then have "consistency_path input \<noteq> []" by (auto split: list.splits)
  then obtain p ps where p: "consistency_path input = p # ps" by (cases "consistency_path input") auto
  have all: "list_all is_hex32 (p # ps)"
    unfolding p [symmetric] using g by (simp add: consistency_path_def Let_def)
  obtain f s where fs: "strip_odd (m - 1) (n - 1) = (f, s)" by fastforce
  have "\<exists>fr sr. consistency_loop sha (map str_bytes ps) f s (str_bytes p) (str_bytes p) = Some (0, fr, sr)
      \<and> VStr (to_hex fr) = VStr r1 \<and> VStr (to_hex sr) = VStr r2"
    using core unfolding p fs r by (auto split: option.splits)
  with p all r g fs show ?thesis by auto
qed

lemma inclusion_loop_bytes:
  assumes "digest_size sha"
  shows "inclusion_loop sha ps f s x = Some (s', R) \<Longrightarrow> is_bytes 32 x \<Longrightarrow> is_bytes 32 R"
  using assms by (induction ps arbitrary: f s x) (auto simp: Let_def digest_size_def node_bytes_def split: prod.splits if_splits)

lemma consistency_loop_bytes:
  assumes "digest_size sha"
  shows "consistency_loop sha ps f s x y = Some (s', R, S) \<Longrightarrow> is_bytes 32 x \<Longrightarrow> is_bytes 32 y \<Longrightarrow> is_bytes 32 R \<and> is_bytes 32 S"
  using assms by (induction ps arbitrary: f s x y) (auto simp: Let_def digest_size_def node_bytes_def split: prod.splits if_splits)

lemma consistency_complete_lemma:
  assumes sha: "digest_size sha" and lv: "tree_leaves leaves" and m: "m \<le> length leaves"
  shows "\<exists>p r1 r2. consistency_proof sha (VArr leaves) (jint (int m)) = Inr p
     \<and> merkle_tree_hash sha (VArr (take m leaves)) = Inr r1 \<and> merkle_tree_hash sha (VArr leaves) = Inr r2
     \<and> verify_consistency_proof sha (consistency_input p r1 r2)"
proof -
  let ?d = "map str_bytes leaves" and ?n = "length leaves"
  note db = tree_leaves_bytes [OF lv]
  have n: "int ?n \<le> max_safe" using lv by (simp add: tree_leaves_def)
  have lb: "leaf_bytes (VArr leaves) = Inr ?d" using lv by (simp add: leaf_bytes_ok tree_leaves_def)
  have "list_all is_hex32 (take m leaves)" using lv by (auto simp: tree_leaves_def list_all_iff dest: in_set_takeD)
  then have "leaf_bytes (VArr (take m leaves)) = Inr (take m ?d)" by (simp add: leaf_bytes_ok take_map)
  then have r1: "merkle_tree_hash sha (VArr (take m leaves)) = Inr (to_hex (mth sha ?d 0 m))"
    using m by (simp add: merkle_tree_hash_def mth_take min_def)
  have r2: "merkle_tree_hash sha (VArr leaves) = Inr (to_hex (mth sha ?d 0 ?n))"
    by (simp add: merkle_tree_hash_def lb)
  have hx: "is_hex64 (to_hex (mth sha ?d 0 m))" "is_hex64 (to_hex (mth sha ?d 0 ?n))"
    using m by (auto intro!: to_hex_is_hex64 mth_is_bytes [OF sha db])
  let ?hs = "if m = 0 \<or> m = ?n then [] else map to_hex (subproof sha m ?d 0 ?n True)"
  define p where "p = \<lparr> first_size = m, second_size = ?n, proof_hashes = ?hs \<rparr>"
  have cp: "consistency_proof sha (VArr leaves) (jint (int m)) = Inr p"
    using m n by (simp add: consistency_proof_def lb is_safe_jint Let_def p_def)
  have sz: "is_size (VNum (jint (int m)))" "is_size (VNum (jint (int ?n)))" using size_ok [of m] size_ok [of ?n] m n by auto
  have so: "size_of (VNum (jint (int j))) = j" for j by (simp add: size_of_def)
  have "verify_consistency_proof sha (consistency_input p (to_hex (mth sha ?d 0 m)) (to_hex (mth sha ?d 0 ?n)))"
  proof (cases "m = 0 \<or> m = ?n")
    case True
    with m hx sz show ?thesis by (auto simp: verify_consistency_proof_def p_def so is_arr_def elems_def)
  next
    case False
    with m have "0 < m" "m < ?n" by auto
    from consistency_honest [OF sha lv this] obtain q qs where q:
      "(if is_power_of_two m then mth sha ?d 0 m # subproof sha m ?d 0 ?n True else subproof sha m ?d 0 ?n True) = q # qs"
      "\<forall>b \<in> set (q # qs). is_bytes 32 b"
      "consistency_loop sha qs (fst (strip_odd (m - 1) (?n - 1))) (snd (strip_odd (m - 1) (?n - 1))) q q
        = Some (0, mth sha ?d 0 m, mth sha ?d 0 ?n)"
      by blast
    have "map (VStr \<circ> to_hex) (if is_power_of_two m then mth sha ?d 0 m # subproof sha m ?d 0 ?n True else subproof sha m ?d 0 ?n True)
        = map (VStr \<circ> to_hex) (q # qs)" using q(1) by (simp only:)
    then have vs: "(if is_power_of_two m then VStr (to_hex (mth sha ?d 0 m)) # map VStr ?hs else map VStr ?hs)
        = VStr (to_hex q) # map (VStr \<circ> to_hex) qs"
      using False by (simp split: if_splits)
    have hs: "list_all is_hex32 (map VStr ?hs)"
      using q(1,2) False by (auto simp: list_all_iff split: if_splits intro!: to_hex_is_hex64)
    have b: "str_bytes (VStr (to_hex q)) = q" "map str_bytes (map (VStr \<circ> to_hex) qs) = qs"
      using q(2) map_str_bytes_hex [of qs] by (auto simp: str_bytes_hex)
    define input where "input = consistency_input p (to_hex (mth sha ?d 0 m)) (to_hex (mth sha ?d 0 ?n))"
    have f: "fld input (js ''first_size'') = VNum (jint (int m))" "fld input (js ''second_size'') = VNum (jint (int ?n))"
      "fld input (js ''first_root'') = VStr (to_hex (mth sha ?d 0 m))" "fld input (js ''second_root'') = VStr (to_hex (mth sha ?d 0 ?n))"
      "fld input (js ''proof'') = VArr (map VStr ?hs)"
      by (simp_all add: input_def p_def)
    have "verify_consistency_proof sha input"
      unfolding verify_consistency_proof_def f elems_def Let_def so jsval.case vs list.case b
      using False m hx sz hs q(3) by (simp add: is_arr_def split_beta)
    then show ?thesis by (simp add: input_def)
  qed
  with cp r1 r2 show ?thesis by blast
qed

subsection \<open>Properties\<close>

text \<open>Every leaf of every tree has an accepted inclusion proof: for any list of leaf digests and any position,
  \<open>inclusionProof\<close> returns, and \<open>verifyInclusionProof\<close> accepts its result with the tree's root.\<close>

theorem inclusion_complete:
  assumes "digest_size sha" "tree_leaves leaves" "i < length leaves"
  shows "\<exists>p r. inclusion_proof sha (VArr leaves) (jint (int i)) = Inr p
     \<and> merkle_tree_hash sha (VArr leaves) = Inr r
     \<and> verify_inclusion_proof sha (inclusion_input (leaves ! i) p r)"
  using inclusion_complete_lemma [OF assms] by blast

text \<open>A digest for the witnesses: 32 bytes, the first of them the sum of the input modulo 256.\<close>

definition sum_digest :: "bytes \<Rightarrow> bytes" where
  "sum_digest bs = (sum_list bs mod 256) # replicate 31 0"

lemma sum_digest_size: "digest_size sum_digest"
  by (simp add: digest_size_def is_bytes_def sum_digest_def)

definition three_leaves :: "jsval list" where
  "three_leaves = [VStr (replicate 64 48), VStr (replicate 64 49), VStr (replicate 64 50)]"

lemma three_leaves_ok: "tree_leaves three_leaves" "length three_leaves = 3"
  by (simp_all add: three_leaves_def tree_leaves_def is_hex64_def list_all_iff is_lower_hex_def is_digit_def max_safe_def)

theorem inclusion_complete_witness:
  "\<exists>p r. inclusion_proof sum_digest (VArr three_leaves) (jint (int 2)) = Inr p
     \<and> merkle_tree_hash sum_digest (VArr three_leaves) = Inr r
     \<and> verify_inclusion_proof sum_digest (inclusion_input (three_leaves ! 2) p r)"
  by (rule inclusion_complete) (simp_all add: sum_digest_size three_leaves_ok)

lemma inclusion_sound_lemma:
  assumes sha: "digest_size sha" and lv: "tree_leaves leaves"
    and acc: "verify_inclusion_proof sha input"
    and size: "size_of (fld input (js ''tree_size'')) = length leaves"
    and rt: "merkle_tree_hash sha (VArr leaves) = Inr r" "fld input (js ''root'') = VStr r"
  defines "i \<equiv> size_of (fld input (js ''leaf_index''))"
  shows "fld input (js ''leaf_hash'') = leaves ! i
    \<or> (\<exists>p. inclusion_proof sha (VArr leaves) (jint (int i)) = Inr p \<and>
        collision sha
          (inclusion_inputs sha (map str_bytes (elems (fld input (js ''audit_path'')))) i (length leaves - 1)
            (str_bytes (fld input (js ''leaf_hash''))))
          (inclusion_inputs sha (map str_bytes (map VStr (audit_path p))) i (length leaves - 1) (str_bytes (leaves ! i))))"
proof -
  let ?lh = "fld input (js ''leaf_hash'')" and ?ap = "fld input (js ''audit_path'')"
  from acc have lh: "is_hex32 ?lh" and ap: "list_all is_hex32 (elems ?ap)" and i: "i < length leaves"
    unfolding verify_inclusion_proof_def Let_def size i_def by (auto split: if_splits)
  from acc obtain R where loop: "inclusion_loop sha (map str_bytes (elems ?ap)) i (length leaves - 1) (str_bytes ?lh) = Some (0, R)"
    "to_hex R = r"
    unfolding verify_inclusion_proof_def Let_def size i_def rt(2) by (auto split: if_splits option.splits)
  from inclusion_complete_lemma [OF sha lv i] obtain p where p: "inclusion_proof sha (VArr leaves) (jint (int i)) = Inr p"
    "inclusion_loop sha (map str_bytes (map VStr (audit_path p))) i (length leaves - 1) (str_bytes (leaves ! i)) = Some (0, hex_bytes r)"
    "list_all is_hex32 (map VStr (audit_path p))"
    using rt(1) by auto
  have li: "is_hex32 (leaves ! i)" using lv i by (auto simp: tree_leaves_def list_all_length)
  have len: "\<forall>b \<in> set (map str_bytes (elems ?ap)) \<union> set (map str_bytes (map VStr (audit_path p))). length b = 32"
    using ap p(3) str_bytes_length by (auto simp: list_all_iff is_bytes_def)
  have R: "R = hex_bytes r"
  proof -
    have "is_bytes 32 R" using inclusion_loop_bytes [OF sha loop(1)] lh str_bytes_length by blast
    with loop(2) show ?thesis using from_to_hex [of 32 R] by simp
  qed
  from inclusion_forge [OF sha loop(1) [unfolded R] p(2) len] lh li
  show ?thesis using str_bytes_inj [OF lh li] str_bytes_length [OF lh] str_bytes_length [OF li] p(1)
    by (auto simp: is_bytes_def)
qed

text \<open>C4: an accepted inclusion proof against a tree's root is for that tree's leaf, or exhibits a collision: if the
  verifier accepts any input whose root and tree size are the tree's, then the leaf hash is the tree's leaf at that index, or two
  different inputs of the digest, one hashed while checking this proof and one while checking the honest proof, have the same digest.\<close>

theorem inclusion_sound:
  assumes sha: "digest_size sha" and lv: "tree_leaves leaves"
    and acc: "verify_inclusion_proof sha input"
    and size: "size_of (fld input (js ''tree_size'')) = length leaves"
    and rt: "merkle_tree_hash sha (VArr leaves) = Inr r" "fld input (js ''root'') = VStr r"
  defines "i \<equiv> size_of (fld input (js ''leaf_index''))"
  shows "fld input (js ''leaf_hash'') = leaves ! i
    \<or> (\<exists>p. inclusion_proof sha (VArr leaves) (jint (int i)) = Inr p \<and>
        collision sha
          (inclusion_inputs sha (map str_bytes (elems (fld input (js ''audit_path'')))) i (length leaves - 1)
            (str_bytes (fld input (js ''leaf_hash''))))
          (inclusion_inputs sha (map str_bytes (map VStr (audit_path p))) i (length leaves - 1) (str_bytes (leaves ! i))))"
  unfolding i_def by (rule inclusion_sound_lemma [OF sha lv acc size rt])

theorem inclusion_sound_witness:
  "\<exists>r v. merkle_tree_hash sum_digest (VArr three_leaves) = Inr r \<and> verify_inclusion_proof sum_digest v \<and>
     (fld v (js ''leaf_hash'') = three_leaves ! size_of (fld v (js ''leaf_index''))
      \<or> (\<exists>p. inclusion_proof sum_digest (VArr three_leaves) (jint (int (size_of (fld v (js ''leaf_index''))))) = Inr p \<and>
          collision sum_digest
            (inclusion_inputs sum_digest (map str_bytes (elems (fld v (js ''audit_path'')))) (size_of (fld v (js ''leaf_index'')))
              (length three_leaves - 1) (str_bytes (fld v (js ''leaf_hash''))))
            (inclusion_inputs sum_digest (map str_bytes (map VStr (audit_path p))) (size_of (fld v (js ''leaf_index'')))
              (length three_leaves - 1) (str_bytes (three_leaves ! size_of (fld v (js ''leaf_index'')))))))"
proof -
  obtain p r where p: "merkle_tree_hash sum_digest (VArr three_leaves) = Inr r" "tree_size p = length three_leaves"
    "verify_inclusion_proof sum_digest (inclusion_input (three_leaves ! 1) p r)"
    using inclusion_complete_lemma [OF sum_digest_size three_leaves_ok(1), of 1] three_leaves_ok(2) by auto
  have sz: "size_of (fld (inclusion_input (three_leaves ! 1) p r) (js ''tree_size'')) = length three_leaves"
    by (simp add: p(2) size_of_def)
  have rt: "fld (inclusion_input (three_leaves ! 1) p r) (js ''root'') = VStr r" by simp
  show ?thesis
    by (intro exI conjI, rule p(1), rule p(3), rule inclusion_sound [OF sum_digest_size three_leaves_ok(1) p(3) sz p(1) rt])
qed

text \<open>An honest consistency proof is accepted: for any list of leaf digests and any size of a prefix, the proof
  that \<open>consistencyProof\<close> builds is accepted with the roots of the prefix and of the whole tree.\<close>

theorem consistency_complete:
  assumes "digest_size sha" "tree_leaves leaves" "m \<le> length leaves"
  shows "\<exists>p r1 r2. consistency_proof sha (VArr leaves) (jint (int m)) = Inr p
     \<and> merkle_tree_hash sha (VArr (take m leaves)) = Inr r1 \<and> merkle_tree_hash sha (VArr leaves) = Inr r2
     \<and> verify_consistency_proof sha (consistency_input p r1 r2)"
  using assms by (rule consistency_complete_lemma)

theorem consistency_complete_witness:
  "\<exists>p r1 r2. consistency_proof sum_digest (VArr three_leaves) (jint (int 2)) = Inr p
     \<and> merkle_tree_hash sum_digest (VArr (take 2 three_leaves)) = Inr r1 \<and> merkle_tree_hash sum_digest (VArr three_leaves) = Inr r2
     \<and> verify_consistency_proof sum_digest (consistency_input p r1 r2)"
  by (rule consistency_complete) (simp_all add: sum_digest_size three_leaves_ok)

text \<open>C15: an accepted consistency proof against a tree's root speaks about that tree's prefix, or exhibits a collision: if
  the verifier accepts any input whose second root and second size are the tree's, with a positive first size \<open>m\<close>, then the first
  root is the root of the tree's first \<open>m\<close> leaves, or two different inputs of the digest, one hashed while checking this proof
  and one while checking the honest proof, have the same digest. So a log that rewrote its past cannot
  show a consistency proof for it.\<close>

theorem consistency_sound:
  assumes sha: "digest_size sha" and lv: "tree_leaves leaves"
    and acc: "verify_consistency_proof sha input"
    and size: "size_of (fld input (js ''second_size'')) = length leaves" "0 < size_of (fld input (js ''first_size''))"
    and rt: "merkle_tree_hash sha (VArr leaves) = Inr r" "fld input (js ''second_root'') = VStr r"
  defines "m \<equiv> size_of (fld input (js ''first_size''))"
  shows "\<exists>p r1. consistency_proof sha (VArr leaves) (jint (int m)) = Inr p \<and> merkle_tree_hash sha (VArr (take m leaves)) = Inr r1
    \<and> (fld input (js ''first_root'') = VStr r1
       \<or> collision sha (consistency_inputs sha input) (consistency_inputs sha (consistency_input p r1 r)))"
proof -
  let ?n = "length leaves"
  have mn: "m \<le> ?n" using acc size unfolding verify_consistency_proof_def Let_def m_def by (auto split: if_splits)
  from consistency_complete_lemma [OF sha lv mn] obtain p r1 where p: "consistency_proof sha (VArr leaves) (jint (int m)) = Inr p"
    "merkle_tree_hash sha (VArr (take m leaves)) = Inr r1" "verify_consistency_proof sha (consistency_input p r1 r)"
    using rt(1) by auto
  have psz: "first_size p = m" "second_size p = ?n"
    using p(1) lv leaf_bytes_ok [of leaves] by (auto simp: consistency_proof_def tree_leaves_def Let_def split: if_splits)
  have "fld input (js ''first_root'') = VStr r1
       \<or> collision sha (consistency_inputs sha input) (consistency_inputs sha (consistency_input p r1 r))"
  proof (cases "m = ?n")
    case True
    then have "fld input (js ''first_root'') = fld input (js ''second_root'')"
      using acc size unfolding verify_consistency_proof_def Let_def m_def by (auto split: if_splits)
    with True p(2) rt show ?thesis by simp
  next
    case False
    have pos: "0 < m" using size(2) by (simp add: m_def)
    let ?f = "fst (strip_odd (m - 1) (?n - 1))" and ?s = "snd (strip_odd (m - 1) (?n - 1))"
    have mm: "size_of (fld input (js ''first_size'')) = m" by (simp add: m_def)
    from consistency_accepted [OF acc mm size(1) pos False] obtain q qs fr sr where
      q: "consistency_path input = q # qs" "list_all is_hex32 (q # qs)"
        "consistency_loop sha (map str_bytes qs) ?f ?s (str_bytes q) (str_bytes q) = Some (0, fr, sr)"
        "fld input (js ''first_root'') = VStr (to_hex fr)" "to_hex sr = r"
      using rt(2) by auto
    from consistency_accepted [OF p(3), of m ?n] psz pos False obtain h hs fr' sr' where
      h: "consistency_path (consistency_input p r1 r) = h # hs" "list_all is_hex32 (h # hs)"
        "consistency_loop sha (map str_bytes hs) ?f ?s (str_bytes h) (str_bytes h) = Some (0, fr', sr')"
        "to_hex fr' = r1" "to_hex sr' = r"
      by (auto simp: size_of_def)
    have b: "is_bytes 32 (str_bytes q)" "is_bytes 32 (str_bytes h)" using q(2) h(2) str_bytes_length by auto
    have sr: "sr = sr'"
      using to_hex_inj [of 32 sr 32 sr'] consistency_loop_bytes [OF sha q(3) b(1) b(1)] consistency_loop_bytes [OF sha h(3) b(2) b(2)] q(5) h(5)
      by simp
    have len: "\<forall>b \<in> set (map str_bytes qs) \<union> set (map str_bytes hs). length b = 32"
      using q(2) h(2) str_bytes_length by (auto simp: list_all_iff is_bytes_def)
    have ins: "consistency_inputs sha input = inclusion_inputs sha (map str_bytes qs) ?f ?s (str_bytes q)"
      "consistency_inputs sha (consistency_input p r1 r) = inclusion_inputs sha (map str_bytes hs) ?f ?s (str_bytes h)"
      using q(1) h(1) psz size(1) by (simp_all add: consistency_inputs_def m_def split_beta size_of_def)
    from inclusion_forge [OF sha consistency_second [OF q(3), unfolded sr] consistency_second [OF h(3)] len] b
    have "(str_bytes q = str_bytes h \<and> map str_bytes qs = map str_bytes hs)
      \<or> collision sha (consistency_inputs sha input) (consistency_inputs sha (consistency_input p r1 r))"
      unfolding ins by (simp add: is_bytes_def)
    then show ?thesis
    proof
      assume e: "str_bytes q = str_bytes h \<and> map str_bytes qs = map str_bytes hs"
      with q(3) h(3) have "fr = fr'" by simp
      with q(4) h(4) show ?thesis by simp
    qed simp
  qed
  with p(1,2) show ?thesis by blast
qed

theorem consistency_sound_witness:
  "\<exists>r v. merkle_tree_hash sum_digest (VArr three_leaves) = Inr r \<and> verify_consistency_proof sum_digest v \<and>
     (\<exists>p r1. consistency_proof sum_digest (VArr three_leaves) (jint (int (size_of (fld v (js ''first_size''))))) = Inr p
        \<and> merkle_tree_hash sum_digest (VArr (take (size_of (fld v (js ''first_size''))) three_leaves)) = Inr r1
        \<and> (fld v (js ''first_root'') = VStr r1
           \<or> collision sum_digest (consistency_inputs sum_digest v) (consistency_inputs sum_digest (consistency_input p r1 r))))"
proof -
  obtain p r1 r where p: "consistency_proof sum_digest (VArr three_leaves) (jint (int 2)) = Inr p"
    "merkle_tree_hash sum_digest (VArr three_leaves) = Inr r" "verify_consistency_proof sum_digest (consistency_input p r1 r)"
    using consistency_complete_lemma [OF sum_digest_size three_leaves_ok(1), of 2] three_leaves_ok(2) by auto
  have psz: "first_size p = 2" "second_size p = length three_leaves"
    using p(1) three_leaves_ok leaf_bytes_ok [of three_leaves]
    by (auto simp: consistency_proof_def tree_leaves_def Let_def split: if_splits)
  have sz: "size_of (fld (consistency_input p r1 r) (js ''second_size'')) = length three_leaves"
    "0 < size_of (fld (consistency_input p r1 r) (js ''first_size''))"
    by (simp_all add: psz size_of_def)
  have rt: "fld (consistency_input p r1 r) (js ''second_root'') = VStr r" by simp
  show ?thesis
    using p(2,3) consistency_sound [OF sum_digest_size three_leaves_ok(1) p(3) sz p(2) rt]
    by (intro exI [of _ r] exI [of _ "consistency_input p r1 r"]) (intro conjI)
qed

text \<open>The weakness of the legacy root that the code keeps it for reading only: a list of leaves of odd length has the same root
  as the list with its last leaf repeated, for any digest. The v1 root does not bind the number of receipts.\<close>

theorem merkle_root_v1_ambiguous:
  assumes "even (length leaves)" "leaves \<noteq> []"
  shows "merkle_root_v1 sha (leaves @ [x]) = merkle_root_v1 sha (leaves @ [x, x])"
proof -
  have "even (length leaves) \<Longrightarrow> pair_level sha (leaves @ [x]) = pair_level sha (leaves @ [x, x])"
    by (induction sha leaves rule: pair_level.induct) auto
  moreover have "1 < length (leaves @ [x])" "1 < length (leaves @ [x, x])" using assms(2) by (cases leaves; simp)+
  ultimately have "root_v1_loop sha (leaves @ [x]) = root_v1_loop sha (leaves @ [x, x])"
    using assms(1) by (simp only: root_v1_loop.simps [of sha "leaves @ [x]"] root_v1_loop.simps [of sha "leaves @ [x, x]"] if_True)
  then show ?thesis by (simp add: merkle_root_v1_def)
qed

theorem merkle_root_v1_ambiguous_witness:
  "merkle_root_v1 sum_digest ([js ''a'', js ''b''] @ [js ''c'']) = merkle_root_v1 sum_digest ([js ''a'', js ''b''] @ [js ''c'', js ''c''])"
  by (rule merkle_root_v1_ambiguous) simp_all

end
