(* ===== verification/Validate.thy ===== *)
theory Validate
  imports NumText
begin

section \<open>Schema validation of policies and actions\<close>

text \<open>
  \<^verbatim>\<open>packages/verify/src/validate.ts\<close>: the checks of a policy document and of an action before they are evaluated. Errors
  are the code's texts. A sparse array's holes are skipped by \<open>every\<close> (\<open>arr_every\<close>). The table of clause validators is a
  plain object, so a clause type named like a member of \<open>Object.prototype\<close> finds a function that is no validator:
  \<open>clause_validator\<close> says what calling it does.
\<close>

subsection \<open>Field checks\<close>

definition is_nonempty_string :: "jsval \<Rightarrow> bool" where
  "is_nonempty_string v = (case v of VStr s \<Rightarrow> s \<noteq> [] | _ \<Rightarrow> False)"

definition is_int_in_range :: "jsval \<Rightarrow> int \<Rightarrow> int \<Rightarrow> bool" where
  "is_int_in_range v lo hi = (case v of VNum n \<Rightarrow> is_safe_int n \<and> lo \<le> num_int n \<and> num_int n \<le> hi | _ \<Rightarrow> False)"

definition is_integer :: "jsval \<Rightarrow> bool" where
  "is_integer v = (case v of VNum n \<Rightarrow> is_integer_num n | _ \<Rightarrow> False)"

definition is_finite_number :: "jsval \<Rightarrow> bool" where
  "is_finite_number v = (case v of VNum n \<Rightarrow> is_finite_num n | _ \<Rightarrow> False)"

definition arr_every :: "(jsval \<Rightarrow> bool) \<Rightarrow> jsval list \<Rightarrow> bool" where
  "arr_every P xs = list_all (\<lambda>x. x = VHole \<or> P x) xs"

fun distinct_strings :: "jsstr list \<Rightarrow> jsval list \<Rightarrow> bool" where
  "distinct_strings seen [] = True"
| "distinct_strings seen (v # vs) =
     (case v of VStr s \<Rightarrow> if s = [] \<or> s \<in> set seen then False else distinct_strings (s # seen) vs | _ \<Rightarrow> False)"

definition is_nonempty_string_array :: "jsval \<Rightarrow> bool" where
  "is_nonempty_string_array v = (case v of VArr xs \<Rightarrow> if xs = [] then False else distinct_strings [] xs | _ \<Rightarrow> False)"

definition is_string_array :: "jsval \<Rightarrow> bool" where
  "is_string_array v = (case v of VArr xs \<Rightarrow> arr_every is_str xs | _ \<Rightarrow> False)"

definition is_integer_array :: "jsval \<Rightarrow> bool" where
  "is_integer_array v = (case v of VArr xs \<Rightarrow> arr_every is_integer xs | _ \<Rightarrow> False)"

text \<open>\<open>DURATION_RE\<close>: each optional group is digits closed by its own letter, so the match is decided from left to right:
  \<open>strip_unit u s\<close> removes the group of the letter \<open>u\<close> when it is there. The two lookaheads ask for something after \<open>P\<close> and after \<open>T\<close>.\<close>

definition strip_unit :: "nat \<Rightarrow> jsstr \<Rightarrow> jsstr" where
  "strip_unit u s =
     (let ds = takeWhile is_digit s; r = dropWhile is_digit s in
      if ds \<noteq> [] \<and> r \<noteq> [] \<and> hd r = u then tl r else s)"

definition duration_re :: "jsstr \<Rightarrow> bool" where
  "duration_re s =
     (case s of
        [] \<Rightarrow> False
      | p # r \<Rightarrow> p = 80 \<and> r \<noteq> [] \<and>
          (case strip_unit 68 r of
             [] \<Rightarrow> True
           | t # r' \<Rightarrow> t = 84 \<and> r' \<noteq> [] \<and> strip_unit 83 (strip_unit 77 (strip_unit 72 r')) = []))"

definition is_duration :: "jsval \<Rightarrow> bool" where
  "is_duration v = (case v of VStr s \<Rightarrow> duration_re s | _ \<Rightarrow> False)"

text \<open>\<open>HHMM_RE\<close>.\<close>

definition hhmm_re :: "jsstr \<Rightarrow> bool" where
  "hhmm_re s =
     (case s of
        [a, b, c, d, e] \<Rightarrow>
          (((a = 48 \<or> a = 49) \<and> is_digit b) \<or> (a = 50 \<and> 48 \<le> b \<and> b \<le> 51)) \<and> c = 58 \<and> 48 \<le> d \<and> d \<le> 53 \<and> is_digit e
      | _ \<Rightarrow> False)"

definition only_keys :: "jsval \<Rightarrow> string list \<Rightarrow> bool" where
  "only_keys o' allowed = list_all (\<lambda>(k, v). k \<in> set (map js allowed)) (members o')"

definition has_keys :: "jsval \<Rightarrow> string list \<Rightarrow> bool" where
  "has_keys o' required = list_all (\<lambda>k. has_own o' (js k)) required"

definition max_json_depth :: nat where
  "max_json_depth = 64"

function is_finite_json_value :: "jsval \<Rightarrow> nat \<Rightarrow> bool" where
  "is_finite_json_value v depth =
     (case v of
        VNull \<Rightarrow> True
      | VBool _ \<Rightarrow> True
      | VStr _ \<Rightarrow> True
      | VNum n \<Rightarrow> is_finite_num n
      | VArr xs \<Rightarrow> if max_json_depth \<le> depth then False else list_all (\<lambda>x. x = VHole \<or> is_finite_json_value x (depth + 1)) xs
      | VObj fs \<Rightarrow> if max_json_depth \<le> depth then False else list_all (\<lambda>kv. is_finite_json_value (snd kv) (depth + 1)) fs
      | VInst fs \<Rightarrow> if max_json_depth \<le> depth then False else list_all (\<lambda>kv. is_finite_json_value (snd kv) (depth + 1)) fs
      | _ \<Rightarrow> False)"
  by pat_completeness auto
termination
  by (relation "measure (\<lambda>(v, depth). max_json_depth - depth)") auto

declare is_finite_json_value.simps [simp del]

subsection \<open>Actions\<close>

record validation_result =
  valid :: bool
  errors :: "jsstr list"

text \<open>\<open>if (cond) errors.push(text)\<close>.\<close>

definition err_if :: "bool \<Rightarrow> string \<Rightarrow> jsstr list" where
  "err_if b t = (if b then [js t] else [])"

definition result_of :: "jsstr list \<Rightarrow> validation_result" where
  "result_of es = \<lparr> valid = (es = []), errors = es \<rparr>"

definition validate_action :: "jsval \<Rightarrow> validation_result" where
  "validate_action value =
     (if \<not> is_obj value then \<lparr> valid = False, errors = [js ''/ action must be an object''] \<rparr>
      else let f = (\<lambda>k. fld value (js k)); has = (\<lambda>k. has_own value (js k)) in
        result_of (
          err_if (\<not> only_keys value [''action_type'', ''asset'', ''amount'', ''signer'', ''params'']) ''/ action has unknown properties'' @
          err_if (\<not> is_nonempty_string (f ''action_type'')) ''/action_type must be a nonempty string'' @
          err_if (has ''asset'' \<and> \<not> is_nonempty_string (f ''asset'')) ''/asset must be a nonempty string'' @
          err_if (has ''amount'' \<and> \<not> is_int_in_range (f ''amount'') 0 max_safe) ''/amount must be a nonnegative safe integer'' @
          err_if (has ''signer'' \<and> \<not> is_nonempty_string (f ''signer'')) ''/signer must be a nonempty string'' @
          (if has ''params'' then
             if \<not> is_obj (f ''params'') then [js ''/params must be an object'']
             else err_if (\<not> is_finite_json_value (f ''params'') 0) ''/params must be finite JSON''
           else [])))"

subsection \<open>Clauses\<close>

definition clause_base_keys :: "string list" where
  "clause_base_keys = [''id'', ''type'', ''mode'', ''description'']"

fun distinct_scalars :: "jsval list \<Rightarrow> jsval list \<Rightarrow> bool" where
  "distinct_scalars seen [] = True"
| "distinct_scalars seen (v # vs) =
     (if (v = VNull \<or> is_str v \<or> is_bool v \<or> is_finite_number v) \<and> \<not> list_has seen v then distinct_scalars (v # seen) vs else False)"

definition is_scalar_bound :: "jsval \<Rightarrow> bool" where
  "is_scalar_bound v =
     (let f = (\<lambda>k. fld v (js k)); has = (\<lambda>k. has_own v (js k)) in
      if \<not> is_obj v then False
      else if \<not> only_keys v [''min'', ''max'', ''enum'', ''pattern''] then False
      else if members v = [] then False
      else if has ''min'' \<and> \<not> is_finite_number (f ''min'') then False
      else if has ''max'' \<and> \<not> is_finite_number (f ''max'') then False
      else if has ''pattern'' \<and> \<not> is_str (f ''pattern'') then False
      else if has ''enum'' then
        (case f ''enum'' of VArr e \<Rightarrow> if e = [] then False else distinct_scalars [] e | _ \<Rightarrow> False)
      else True)"

definition is_param_bound :: "jsval \<Rightarrow> bool" where
  "is_param_bound v =
     (let f = (\<lambda>k. fld v (js k)); has = (\<lambda>k. has_own v (js k)) in
      if \<not> is_obj v then False
      else if has ''items'' \<or> has ''match'' then
        if \<not> only_keys v [''items'', ''match''] then False
        else if \<not> has ''items'' \<or> \<not> is_scalar_bound (f ''items'') then False
        else if has ''match'' \<and> f ''match'' \<noteq> VStr (js ''all'') \<and> f ''match'' \<noteq> VStr (js ''any'') then False
        else True
      else is_scalar_bound v)"

definition validate_assets :: "jsval \<Rightarrow> bool" where
  "validate_assets v =
     (if \<not> is_obj v then False
      else list_all (\<lambda>(k, entry). is_obj entry \<and> only_keys entry [''decimals''] \<and> has_keys entry [''decimals''] \<and>
             is_int_in_range (fld entry (js ''decimals'')) 0 18) (members v))"

definition is_scope :: "jsval \<Rightarrow> bool" where
  "is_scope v \<longleftrightarrow> v = VStr (js ''principal'') \<or> v = VStr (js ''global'')"

text \<open>The table \<open>CLAUSE_VALIDATORS\<close>, one definition per entry.\<close>

definition opt :: "jsval \<Rightarrow> string \<Rightarrow> (jsval \<Rightarrow> bool) \<Rightarrow> bool" where
  "opt c k P = (has_own c (js k) \<longrightarrow> P (fld c (js k)))"

definition v_spend_limit :: "jsval \<Rightarrow> bool" where
  "v_spend_limit c =
     (let has = (\<lambda>k. has_own c (js k)) in
      only_keys c (clause_base_keys @ [''asset'', ''max_per_action'', ''max_per_window'', ''window'', ''scope'']) \<and>
      is_str (fld c (js ''asset'')) \<and>
      (has ''max_per_action'' \<or> (has ''max_per_window'' \<and> has ''window'')) \<and>
      (\<not> has ''max_per_window'' \<or> has ''window'') \<and>
      opt c ''max_per_action'' (\<lambda>v. is_int_in_range v 0 max_safe) \<and>
      opt c ''max_per_window'' (\<lambda>v. is_int_in_range v 0 max_safe) \<and>
      opt c ''window'' is_duration \<and>
      opt c ''scope'' is_scope)"

definition v_rate_limit :: "jsval \<Rightarrow> bool" where
  "v_rate_limit c =
     (only_keys c (clause_base_keys @ [''action_types'', ''max_count'', ''window'', ''scope'']) \<and>
      is_nonempty_string_array (fld c (js ''action_types'')) \<and> is_int_in_range (fld c (js ''max_count'')) 0 max_safe \<and>
      is_duration (fld c (js ''window'')) \<and>
      opt c ''scope'' is_scope)"

definition v_address_allowlist :: "jsval \<Rightarrow> bool" where
  "v_address_allowlist c =
     (only_keys c (clause_base_keys @ [''addresses'', ''chain_ids'']) \<and>
      is_nonempty_string_array (fld c (js ''addresses'')) \<and> opt c ''chain_ids'' is_integer_array)"

definition v_address_denylist :: "jsval \<Rightarrow> bool" where
  "v_address_denylist c =
     (only_keys c (clause_base_keys @ [''addresses'', ''chain_ids'', ''best_effort'']) \<and>
      is_nonempty_string_array (fld c (js ''addresses'')) \<and> opt c ''chain_ids'' is_integer_array \<and>
      opt c ''best_effort'' is_bool)"

definition v_contract_allowlist :: "jsval \<Rightarrow> bool" where
  "v_contract_allowlist c =
     (only_keys c (clause_base_keys @ [''contracts'', ''selectors'', ''chain_ids'']) \<and>
      is_nonempty_string_array (fld c (js ''contracts'')) \<and> opt c ''selectors'' is_string_array \<and>
      opt c ''chain_ids'' is_integer_array)"

text \<open>\<open>endpoint_allowlist\<close> and \<open>endpoint_denylist\<close> have the same fields.\<close>

definition v_endpoint_list :: "jsval \<Rightarrow> bool" where
  "v_endpoint_list c =
     (only_keys c (clause_base_keys @ [''hosts'', ''paths'', ''methods'']) \<and>
      is_nonempty_string_array (fld c (js ''hosts'')) \<and> opt c ''paths'' is_string_array \<and>
      opt c ''methods'' is_string_array)"

definition max_exceptions :: nat where
  "max_exceptions = 50"

definition v_action_allowlist :: "jsval \<Rightarrow> bool" where
  "v_action_allowlist c =
     (if \<not> only_keys c (clause_base_keys @ [''action_types'', ''param_bounds'', ''exceptions'']) then False
      else if \<not> is_nonempty_string_array (fld c (js ''action_types'')) then False
      else if has_own c (js ''param_bounds'') \<and>
          (let pb = fld c (js ''param_bounds'') in
           \<not> is_obj pb \<or> members pb = [] \<or> \<not> list_all (\<lambda>(k, v). is_param_bound v) (members pb)) then False
      else if has_own c (js ''exceptions'') then
        (case fld c (js ''exceptions'') of
           VArr ex \<Rightarrow>
             if length ex < 1 \<or> max_exceptions < length ex then False
             else arr_every (\<lambda>e. is_obj e \<and> 1 \<le> length (members e) \<and> length (members e) \<le> 16 \<and>
                    list_all (\<lambda>(k, v). is_param_bound v) (members e)) ex
         | _ \<Rightarrow> False)
      else True)"

definition is_hhmm :: "jsval \<Rightarrow> bool" where
  "is_hhmm v = (case v of VStr s \<Rightarrow> hhmm_re s | _ \<Rightarrow> False)"

definition v_time_window :: "jsval \<Rightarrow> bool" where
  "v_time_window c =
     (only_keys c (clause_base_keys @ [''days'', ''start'', ''end'', ''timezone'']) \<and>
      opt c ''days'' is_string_array \<and> is_hhmm (fld c (js ''start'')) \<and> is_hhmm (fld c (js ''end'')) \<and>
      opt c ''timezone'' (\<lambda>v. v = VStr (js ''UTC'')))"

definition v_require_approval :: "jsval \<Rightarrow> bool" where
  "v_require_approval c =
     (only_keys c (clause_base_keys @ [''action_types'', ''approvers'', ''min_approvals'', ''timeout'']) \<and>
      is_nonempty_string_array (fld c (js ''action_types'')) \<and> is_nonempty_string_array (fld c (js ''approvers'')) \<and>
      opt c ''min_approvals'' (\<lambda>v. is_int_in_range v 1 max_safe) \<and> opt c ''timeout'' is_duration)"

definition v_sequence :: "jsval \<Rightarrow> bool" where
  "v_sequence c =
     (only_keys c (clause_base_keys @ [''first_action_types'', ''then_action_types'', ''min_gap'', ''forbidden_within'']) \<and>
      is_nonempty_string_array (fld c (js ''first_action_types'')) \<and> is_nonempty_string_array (fld c (js ''then_action_types'')) \<and>
      (has_own c (js ''min_gap'') \<or> has_own c (js ''forbidden_within'')) \<and>
      opt c ''min_gap'' is_duration \<and> opt c ''forbidden_within'' is_duration)"

definition v_oracle_condition :: "jsval \<Rightarrow> bool" where
  "v_oracle_condition c =
     (only_keys c (clause_base_keys @ [''oracle_id'', ''predicate'', ''best_effort'']) \<and>
      is_str (fld c (js ''oracle_id'')) \<and> is_str (fld c (js ''predicate'')) \<and> fld c (js ''best_effort'') = VBool True)"

definition v_key_policy :: "jsval \<Rightarrow> bool" where
  "v_key_policy c =
     (only_keys c (clause_base_keys @ [''active_keys'', ''rotation_delay'', ''max_key_age'']) \<and>
      is_nonempty_string_array (fld c (js ''active_keys'')) \<and>
      opt c ''rotation_delay'' is_duration \<and> opt c ''max_key_age'' is_duration)"

definition v_force_push_guard :: "jsval \<Rightarrow> bool" where
  "v_force_push_guard c =
     (only_keys c (clause_base_keys @ [''protected_refs'']) \<and> opt c ''protected_refs'' is_nonempty_string_array)"

definition clause_validators :: "(jsstr \<times> (jsval \<Rightarrow> bool)) list" where
  "clause_validators =
     [(js ''spend_limit'', v_spend_limit), (js ''rate_limit'', v_rate_limit),
      (js ''address_allowlist'', v_address_allowlist), (js ''address_denylist'', v_address_denylist),
      (js ''contract_allowlist'', v_contract_allowlist), (js ''endpoint_allowlist'', v_endpoint_list),
      (js ''endpoint_denylist'', v_endpoint_list), (js ''action_allowlist'', v_action_allowlist),
      (js ''time_window'', v_time_window), (js ''require_approval'', v_require_approval),
      (js ''sequence'', v_sequence), (js ''oracle_condition'', v_oracle_condition),
      (js ''key_policy'', v_key_policy), (js ''force_push_guard'', v_force_push_guard)]"

text \<open>\<open>CLAUSE_VALIDATORS[type]\<close> and its call. \<open>None\<close>: no such member. \<open>Object\<close> (the inherited \<open>constructor\<close>) returns the
  clause and \<open>Object.prototype.toString\<close> a text, both truthy; the other inherited functions throw without a receiver, and
  \<open>Object.prototype\<close> (found under \<open>__proto__\<close>) cannot be called.\<close>

definition clause_validator :: "jsstr \<Rightarrow> jsval \<Rightarrow> bool outcome option" where
  "clause_validator type c =
     (case map_of clause_validators type of
        Some v \<Rightarrow> Some (Inr (v c))
      | None \<Rightarrow>
          if type = js ''constructor'' \<or> type = js ''toString'' then Some (Inr True)
          else if truthy (inherited type) then Some (Inl TypeErr)
          else None)"

definition at_clause :: "nat \<Rightarrow> string \<Rightarrow> jsstr" where
  "at_clause i t = js ''/clauses/'' @ dec_digits (int i) @ js t"

definition is_clause_mode :: "jsval \<Rightarrow> bool" where
  "is_clause_mode v \<longleftrightarrow> v = VStr (js ''enforce'') \<or> v = VStr (js ''monitor'') \<or> v = VStr (js ''require_approval'')"

definition validate_clause :: "jsval \<Rightarrow> nat \<Rightarrow> jsstr list outcome" where
  "validate_clause c index =
     (if \<not> is_obj c then Inr [at_clause index '' must be an object'']
      else
        let e_id = (if \<not> is_nonempty_string (fld c (js ''id'')) then [at_clause index ''/id must be a nonempty string''] else []) in
        case fld c (js ''type'') of
          VStr t \<Rightarrow>
            let e_mode = (if has_own c (js ''mode'') \<and> \<not> is_clause_mode (fld c (js ''mode'')) then [at_clause index ''/mode is invalid''] else []);
                e_desc = (if has_own c (js ''description'') \<and> \<not> is_str (fld c (js ''description''))
                          then [at_clause index ''/description must be a string''] else []);
                es = e_id @ e_mode @ e_desc in
            (case clause_validator t c of
               None \<Rightarrow> Inr (es @ [at_clause index ''/type \"'' @ t @ js ''\" is not a supported clause type''])
             | Some r \<Rightarrow> rbind r (\<lambda>ok. Inr (if ok then es
                 else es @ [at_clause index '' does not match the '' @ t @ js '' clause schema''])))
        | _ \<Rightarrow> Inr (e_id @ [at_clause index ''/type must be a string'']))"

fun validate_clauses :: "jsval list \<Rightarrow> nat \<Rightarrow> jsstr list outcome" where
  "validate_clauses [] i = Inr []"
| "validate_clauses (c # cs) i =
     (if c = VHole then validate_clauses cs (Suc i)
      else rbind (validate_clause c i) (\<lambda>es. rbind (validate_clauses cs (Suc i)) (\<lambda>es'. Inr (es @ es'))))"

definition policy_keys :: "string list" where
  "policy_keys = [''vocabulary_version'', ''assets'', ''policy_id'', ''version'', ''agent_id'', ''clauses'']"

definition validate_policy_shape :: "jsval \<Rightarrow> validation_result outcome" where
  "validate_policy_shape value =
     (if \<not> is_obj value then Inr \<lparr> valid = False, errors = [js ''/ policy must be an object''] \<rparr>
      else let f = (\<lambda>k. fld value (js k)); has = (\<lambda>k. has_own value (js k));
          es =
            err_if (\<not> only_keys value policy_keys) ''/ policy has unknown properties'' @
            err_if (\<not> has_keys value [''vocabulary_version'', ''policy_id'', ''version'', ''clauses'']) ''/ policy is missing required fields'' @
            err_if (f ''vocabulary_version'' \<noteq> VStr (js ''1.0'')) ''/vocabulary_version must be \"1.0\"'' @
            err_if (\<not> is_nonempty_string (f ''policy_id'')) ''/policy_id must be a nonempty string'' @
            err_if (\<not> is_int_in_range (f ''version'') 1 max_safe) ''/version must be an integer >= 1'' @
            err_if (has ''agent_id'' \<and> \<not> is_str (f ''agent_id'')) ''/agent_id must be a string'' @
            err_if (has ''assets'' \<and> \<not> validate_assets (f ''assets'')) ''/assets is invalid''
        in if \<not> is_arr (f ''clauses'') \<or> elems (f ''clauses'') = []
           then Inr (result_of (es @ [js ''/clauses must be a nonempty array'']))
           else rbind (validate_clauses (elems (f ''clauses'')) 0) (\<lambda>es'. Inr (result_of (es @ es'))))"

end
