(* ===== verification/Endpoint.thy ===== *)
theory Endpoint
  imports Validate
begin

section \<open>HTTP destinations and globs\<close>

text \<open>
  How \<^verbatim>\<open>packages/verify/src/violates.ts\<close> compares hosts and paths. The two host regular expressions are decided from left to
  right: the brackets and the colon are outside the character classes before them. The WHATWG host parser (\<open>new URL\<close>) is the parameter \<open>url_host\<close>
  of \<open>env\<close>: the host name, or \<open>None\<close> when the constructor throws. \<open>env\<close> also holds the other code outside the
  repository: \<open>Date.parse\<close>, SHA-256, and the regular expressions a policy brings along.
\<close>

record env =
  date_parse :: "jsstr \<Rightarrow> int option"
  sha256 :: "nat list \<Rightarrow> nat list"
  re_ok :: "jsstr \<Rightarrow> bool"
  re_test :: "jsstr \<Rightarrow> jsstr \<Rightarrow> bool"
  url_host :: "jsstr \<Rightarrow> jsstr option"

subsection \<open>Globs\<close>

text \<open>The regular expression built from a glob, as tokens: \<open>[^/]*\<close>, \<open>.*\<close> (which stops at a line terminator) and a character.\<close>

datatype glob_token = Star | Star_Star | Lit nat

fun glob_tokens :: "jsstr \<Rightarrow> glob_token list" where
  "glob_tokens [] = []"
| "glob_tokens (c # cs) =
     (if c = 42 then
        (case cs of
           [] \<Rightarrow> [Star]
         | d # ds \<Rightarrow> if d = 42 then Star_Star # glob_tokens ds else Star # glob_tokens cs)
      else Lit c # glob_tokens cs)"

definition line_terminator :: "nat \<Rightarrow> bool" where
  "line_terminator c \<longleftrightarrow> c = 10 \<or> c = 13 \<or> c = 0x2028 \<or> c = 0x2029"

fun glob_matches :: "glob_token list \<Rightarrow> jsstr \<Rightarrow> bool" where
  "glob_matches [] s = (s = [])"
| "glob_matches (Lit c # ts) s = (case s of [] \<Rightarrow> False | x # xs \<Rightarrow> x = c \<and> glob_matches ts xs)"
| "glob_matches (Star # ts) [] = glob_matches ts []"
| "glob_matches (Star # ts) (x # xs) = (glob_matches ts (x # xs) \<or> (x \<noteq> 47 \<and> glob_matches (Star # ts) xs))"
| "glob_matches (Star_Star # ts) [] = glob_matches ts []"
| "glob_matches (Star_Star # ts) (x # xs) = (glob_matches ts (x # xs) \<or> (\<not> line_terminator x \<and> glob_matches (Star_Star # ts) xs))"

definition glob_match :: "jsstr \<Rightarrow> jsstr \<Rightarrow> bool" where
  "glob_match glob s = glob_matches (glob_tokens glob) s"

subsection \<open>Host text\<close>

text \<open>\<open>String.prototype.trim\<close> and \<open>toLowerCase\<close>. Of the code units that lower case turns into ASCII there are A to Z and the
  Kelvin sign; what the others become fails every later test alike.\<close>

definition is_space :: "nat \<Rightarrow> bool" where
  "is_space c \<longleftrightarrow> (9 \<le> c \<and> c \<le> 13) \<or> c = 32 \<or> c = 160 \<or> c = 0x1680 \<or> (0x2000 \<le> c \<and> c \<le> 0x200a) \<or>
     c = 0x2028 \<or> c = 0x2029 \<or> c = 0x202f \<or> c = 0x205f \<or> c = 0x3000 \<or> c = 0xfeff"

definition js_trim :: "jsstr \<Rightarrow> jsstr" where
  "js_trim s = rev (dropWhile is_space (rev (dropWhile is_space s)))"

definition lower_unit :: "nat \<Rightarrow> nat" where
  "lower_unit c = (if is_upper c then c + 32 else if c = 0x212a then 107 else c)"

definition js_lower :: "jsstr \<Rightarrow> jsstr" where
  "js_lower s = map lower_unit s"

definition name_char :: "nat \<Rightarrow> bool" where
  "name_char c \<longleftrightarrow> is_lower c \<or> is_digit c \<or> c = 95 \<or> c = 45"

definition addr_char :: "nat \<Rightarrow> bool" where
  "addr_char c \<longleftrightarrow> is_lower_hex c \<or> c = 58 \<or> c = 46"

text \<open>\<open>(?::(\d{1,5}))?$\<close>: \<open>None\<close> when it does not match, \<open>Some []\<close> when there is no port.\<close>

definition port_suffix :: "jsstr \<Rightarrow> jsstr option" where
  "port_suffix s =
     (case s of
        [] \<Rightarrow> Some []
      | c # ds \<Rightarrow> if c = 58 \<and> 1 \<le> length ds \<and> length ds \<le> 5 \<and> list_all is_digit ds then Some ds else None)"

text \<open>\<open>/^(\[[0-9a-f:.]+\])(?::(\d{1,5}))?$/\<close>: the bracketed text and the port's digits.\<close>

definition bracket_host :: "jsstr \<Rightarrow> (jsstr \<times> jsstr) option" where
  "bracket_host s =
     (case s of
        [] \<Rightarrow> None
      | c # r \<Rightarrow>
          let body = takeWhile addr_char r; rest = dropWhile addr_char r in
          if c \<noteq> 91 \<or> body = [] then None
          else (case rest of
             [] \<Rightarrow> None
           | d # rest' \<Rightarrow> if d \<noteq> 93 then None else map_option (\<lambda>p. (91 # body @ [93], p)) (port_suffix rest')))"

text \<open>\<open>(?:[a-z0-9_-]+\.)*[a-z0-9_-]+\<close>: nonempty labels separated by dots.\<close>

definition dotted_name :: "jsstr \<Rightarrow> bool" where
  "dotted_name s \<longleftrightarrow> list_all (\<lambda>l. l \<noteq> [] \<and> list_all name_char l) (js_split 46 s)"

definition not_colon :: "nat \<Rightarrow> bool" where
  "not_colon c \<longleftrightarrow> c \<noteq> 58"

definition bare_host :: "jsval \<Rightarrow> jsstr option" where
  "bare_host host =
     (case host of
        VStr s \<Rightarrow>
          let t = js_lower (js_trim s); h = (if t \<noteq> [] \<and> last t = 46 then butlast t else t) in
          if h = [] \<or> 260 < length h then None
          else if bracket_host h \<noteq> None then Some h
          else if dotted_name (takeWhile not_colon h) \<and> port_suffix (dropWhile not_colon h) \<noteq> None then Some h
          else None
      | _ \<Rightarrow> None)"

text \<open>\<open>/^((?:[a-z0-9_-]+\.)*[a-z0-9_-]+)\.?(?::(\d{1,5}))?$/\<close>: the name without the trailing dot, and the port's digits.\<close>

definition name_host :: "jsstr \<Rightarrow> (jsstr \<times> jsstr) option" where
  "name_host s =
     (let h = takeWhile not_colon s; n = (if h \<noteq> [] \<and> last h = 46 then butlast h else h) in
      if dotted_name n then map_option (\<lambda>p. (n, p)) (port_suffix (dropWhile not_colon s)) else None)"

subsection \<open>IPv6\<close>

text \<open>\<open>text.split("::")\<close>.\<close>

fun split_double :: "jsstr \<Rightarrow> jsstr list" where
  "split_double [] = [[]]"
| "split_double (a # s) =
     (case s of
        [] \<Rightarrow> [[a]]
      | b # r \<Rightarrow>
          if a = 58 \<and> b = 58 then [] # split_double r
          else (case split_double s of [] \<Rightarrow> [[a]] | y # ys \<Rightarrow> (a # y) # ys))"

definition hex_num :: "jsstr \<Rightarrow> nat" where
  "hex_num s = foldl (\<lambda>a c. a * 16 + (if is_digit c then c - 48 else c - 87)) 0 s"

text \<open>A group, \<open>None\<close> for NaN.\<close>

definition group16 :: "jsstr \<Rightarrow> nat option" where
  "group16 g = (if 1 \<le> length g \<and> length g \<le> 4 \<and> list_all is_lower_hex g then Some (hex_num g) else None)"

definition ipv6_part :: "jsstr \<Rightarrow> nat option list" where
  "ipv6_part part = (if part = [] then [] else map group16 (js_split 58 part))"

definition ipv6_pieces :: "jsstr \<Rightarrow> nat list option" where
  "ipv6_pieces text' =
     (let halves = split_double text' in
      if 2 < length halves then None
      else
        let head = ipv6_part (halves ! 0); tail = (if length halves = 2 then ipv6_part (halves ! 1) else []);
            zeros = 8 - int (length head) - int (length tail)
        in if None \<in> set (head @ tail) \<or> zeros < 0 \<or> (length halves = 1 \<and> zeros \<noteq> 0) then None
           else Some (map the head @ replicate (nat zeros) 0 @ map the tail))"

subsection \<open>Destinations\<close>

record destination =
  d_host :: jsstr
  d_port :: "int option"
  d_address :: bool
  d_loopback :: bool

text \<open>\<open>/^(\d{1,3})\.\d{1,3}\.\d{1,3}\.\d{1,3}$/\<close>: the first number's digits.\<close>

definition dotted_quad :: "jsstr \<Rightarrow> jsstr option" where
  "dotted_quad h =
     (case js_split 46 h of
        [a, b, c, d] \<Rightarrow>
          if list_all (\<lambda>g. 1 \<le> length g \<and> length g \<le> 3 \<and> list_all is_digit g) [a, b, c, d] then Some a else None
      | _ \<Rightarrow> None)"

definition host_destination :: "jsstr \<Rightarrow> int option \<Rightarrow> destination" where
  "host_destination host port =
     (case dotted_quad host of
        Some a \<Rightarrow> \<lparr> d_host = host, d_port = port, d_address = True, d_loopback = (a = js ''127'' \<or> a = js ''0'') \<rparr>
      | None \<Rightarrow> \<lparr> d_host = host, d_port = port, d_address = False,
                 d_loopback = (host = js ''localhost'' \<or> ends_with host (js ''.localhost'')) \<rparr>)"

definition quad_text :: "nat list \<Rightarrow> jsstr" where
  "quad_text p = js_join (js ''.'') (map (\<lambda>n. dec_digits (int n)) [p ! 6 div 256, p ! 6 mod 256, p ! 7 div 256, p ! 7 mod 256])"

definition endpoint_destination :: "env \<Rightarrow> jsval \<Rightarrow> destination option" where
  "endpoint_destination e value =
     (case value of
        VStr s \<Rightarrow>
          let t = js_lower (js_trim s) in
          if t = [] \<or> 260 < length t then None
          else (case (case bracket_host t of Some p \<Rightarrow> Some p | None \<Rightarrow> name_host t) of
             None \<Rightarrow> None
           | Some (h, pd) \<Rightarrow>
               let port = (if pd = [] then None else Some (digits_val pd)) in
               if (case port of None \<Rightarrow> False | Some n \<Rightarrow> 65535 < n) then None
               else (case url_host e h of
                  None \<Rightarrow> None
                | Some host \<Rightarrow>
                    if starts_with host (js ''['') then
                      (case ipv6_pieces (butlast (tl host)) of
                         None \<Rightarrow> None
                       | Some p \<Rightarrow>
                           let mapped = list_all (\<lambda>x. x = 0) (take 5 p) \<and> p ! 5 = 0xffff in
                           if \<not> mapped then
                             Some \<lparr> d_host = host, d_port = port, d_address = True,
                                    d_loopback = (list_all (\<lambda>x. x = 0) (take 7 p) \<and> (p ! 7 = 0 \<or> p ! 7 = 1)) \<rparr>
                           else Some (host_destination (quad_text p) port))
                    else Some (host_destination host port)))
      | _ \<Rightarrow> None)"

definition allowlist_entry_names :: "env \<Rightarrow> jsval \<Rightarrow> destination \<Rightarrow> bool" where
  "allowlist_entry_names e entry dest =
     (case endpoint_destination e entry of
        None \<Rightarrow> False
      | Some d \<Rightarrow> d_host d = d_host dest \<and> d_port d = d_port dest)"

definition denylist_entry_covers :: "env \<Rightarrow> jsval \<Rightarrow> destination \<Rightarrow> bool" where
  "denylist_entry_covers e entry dest =
     (case endpoint_destination e entry of
        None \<Rightarrow> False
      | Some d \<Rightarrow>
          if (if d_loopback d then \<not> d_loopback dest else d_host d \<noteq> d_host dest) then False
          else d_port d = None \<or> d_port d = d_port dest \<or> (d_port dest = None \<and> (d_port d = Some 80 \<or> d_port d = Some 443)))"

subsection \<open>The endpoint denylist\<close>

definition or_else :: "jsval \<Rightarrow> jsval \<Rightarrow> jsval" where
  "or_else v d = (if nullish v then d else v)"

definition arr_some :: "(jsval \<Rightarrow> bool) \<Rightarrow> jsval list \<Rightarrow> bool" where
  "arr_some P xs = list_ex (\<lambda>x. x \<noteq> VHole \<and> P x) xs"

definition glob_hits :: "jsval \<Rightarrow> jsstr \<Rightarrow> bool" where
  "glob_hits g s = (case g of VStr glob \<Rightarrow> glob_match glob s | _ \<Rightarrow> False)"

text \<open>\<open>!list || list.length === 0 || test(list)\<close>, for an optional list of the clause.\<close>

definition if_listed :: "jsval \<Rightarrow> (jsval list \<Rightarrow> bool) \<Rightarrow> bool" where
  "if_listed v P \<longleftrightarrow> \<not> truthy v \<or> elems v = [] \<or> P (elems v)"

definition plain_path :: "jsval \<Rightarrow> bool" where
  "plain_path path = (case path of VStr s \<Rightarrow> starts_with s (js ''/'') | _ \<Rightarrow> False)"

definition path_text :: "jsval \<Rightarrow> jsstr" where
  "path_text path = (case path of VStr s \<Rightarrow> s | _ \<Rightarrow> [])"

definition denylist_denial :: "env \<Rightarrow> jsval \<Rightarrow> jsval \<Rightarrow> jsval \<Rightarrow> jsval \<Rightarrow> jsstr option" where
  "denylist_denial e clause host raw_path meth =
     (let path = or_else raw_path (VStr (js ''/''));
          t = json_text host @ json_text (or_else raw_path (VStr [])) in
      case endpoint_destination e host of
        None \<Rightarrow> Some (js ''HTTP '' @ t @ js '' is not a plain host and path'')
      | Some dest \<Rightarrow>
          if \<not> plain_path path then Some (js ''HTTP '' @ t @ js '' is not a plain host and path'')
          else if \<not> arr_some (\<lambda>h. denylist_entry_covers e h dest) (elems (fld clause (js ''hosts''))) then None
          else if if_listed (fld clause (js ''paths'')) (arr_some (\<lambda>g. glob_hits g (path_text path)))
               \<and> if_listed (fld clause (js ''methods'')) (\<lambda>ms. list_has ms meth)
          then Some (js ''HTTP '' @ t @ js '' is denied'') else None)"

definition endpoint_denylist_clauses :: "env \<Rightarrow> jsval \<Rightarrow> jsval \<Rightarrow> jsval list" where
  "endpoint_denylist_clauses e policy call =
     (if nullish (fld call (js ''host'')) then []
      else filter (\<lambda>clause. fld clause (js ''type'') = VStr (js ''endpoint_denylist'') \<and> is_arr (fld clause (js ''hosts'')) \<and>
             denylist_denial e clause (fld call (js ''host'')) (fld call (js ''path'')) (fld call (js ''method'')) \<noteq> None)
           (elems (fld policy (js ''clauses''))))"

end
