(* ===== verification/Calendar.thy ===== *)
theory Calendar
  imports NumText
begin

section \<open>Instants: durations, weekdays and \<open>toISOString\<close>\<close>

text \<open>
  What the evaluator does with time: \<open>durationToMs\<close> of \<^verbatim>\<open>packages/verify/src/violates.ts\<close>, and the two \<open>Date\<close> methods it calls,
  \<open>getUTCDay\<close> and \<open>toISOString\<close>, on an integral time value (milliseconds since 1970). \<open>Date.parse\<close> is a parameter of the
  model (a field of \<open>env\<close>).
\<close>

subsection \<open>\<open>durationToMs\<close>\<close>

text \<open>The optional groups of \<open>/^P(?:(\d+)D)?(?:T(?:(\d+)H)?(?:(\d+)M)?(?:(\d+)S)?)?$/\<close>: the digits of a group and what follows it. \<open>Number(digits)\<close>
  rounds to a binary64 number, infinity when it is too large.\<close>

definition take_unit :: "nat \<Rightarrow> jsstr \<Rightarrow> jsstr \<times> jsstr" where
  "take_unit u s =
     (let ds = takeWhile is_digit s; r = dropWhile is_digit s in
      if ds \<noteq> [] \<and> r \<noteq> [] \<and> hd r = u then (ds, tl r) else ([], s))"

definition digits_num :: "jsstr \<Rightarrow> jnum" where
  "digits_num ds = (if ds = [] then Fin 0 else rnd (of_int (digits_val ds)))"

definition duration_groups :: "jsstr \<Rightarrow> (jsstr \<times> jsstr \<times> jsstr \<times> jsstr) option" where
  "duration_groups s =
     (case s of
        [] \<Rightarrow> None
      | p # r \<Rightarrow>
          if p \<noteq> 80 then None
          else (case take_unit 68 r of
             (dd, []) \<Rightarrow> Some (dd, [], [], [])
           | (dd, t # r') \<Rightarrow>
               if t \<noteq> 84 then None
               else (case take_unit 72 r' of (hh, r1) \<Rightarrow>
                    (case take_unit 77 r1 of (mm, r2) \<Rightarrow>
                    (case take_unit 83 r2 of (ss, r3) \<Rightarrow> if r3 = [] then Some (dd, hh, mm, ss) else None)))))"

definition duration_to_ms :: "jsstr \<Rightarrow> jnum outcome" where
  "duration_to_ms d =
     (case duration_groups d of
        None \<Rightarrow> Inl (Err (js ''unsupported duration: '' @ d))
      | Some (dd, hh, mm, ss) \<Rightarrow>
          Inr (jadd
            (jmul (jmul (jadd (jmul (jadd (jmul (digits_num dd) (jint 24)) (digits_num hh)) (jint 60)) (digits_num mm)) (jint 60)) (jint 1000))
            (jmul (digits_num ss) (jint 1000))))"

subsection \<open>\<open>Date\<close>\<close>

definition ms_per_day :: int where
  "ms_per_day = 86400000"

definition week_day :: "int \<Rightarrow> jsstr" where
  "week_day t = map js [''Sun'', ''Mon'', ''Tue'', ''Wed'', ''Thu'', ''Fri'', ''Sat''] ! nat ((t div ms_per_day + 4) mod 7)"

text \<open>Year, month and day of a day number in the proleptic Gregorian calendar: days are counted from 1 March of year 0, in
  eras of 400 years.\<close>

definition civil :: "int \<Rightarrow> int \<times> int \<times> int" where
  "civil days =
     (let z = days + 719468; era = z div 146097; doe = z mod 146097;
          yoe = (doe - doe div 1460 + doe div 36524 - doe div 146096) div 365;
          doy = doe - (365 * yoe + yoe div 4 - yoe div 100);
          mp = (5 * doy + 2) div 153; d = doy - (153 * mp + 2) div 5 + 1;
          m = (if mp < 10 then mp + 3 else mp - 9)
      in (yoe + era * 400 + (if m \<le> 2 then 1 else 0), m, d))"

text \<open>Digits padded to a width.\<close>

definition pad :: "nat \<Rightarrow> int \<Rightarrow> jsstr" where
  "pad w n = (let ds = dec_digits n in replicate (w - length ds) 48 @ ds)"

definition iso_year :: "int \<Rightarrow> jsstr" where
  "iso_year y = (if 0 \<le> y \<and> y \<le> 9999 then pad 4 y else if y < 0 then js ''-'' @ pad 6 (- y) else js ''+'' @ pad 6 y)"

definition to_iso :: "int \<Rightarrow> jsstr" where
  "to_iso t =
     (case civil (t div ms_per_day) of
        (y, m, d) \<Rightarrow>
          let r = t mod ms_per_day in
          iso_year y @ js ''-'' @ pad 2 m @ js ''-'' @ pad 2 d @ js ''T'' @ pad 2 (r div 3600000) @ js '':'' @
          pad 2 (r div 60000 mod 60) @ js '':'' @ pad 2 (r div 1000 mod 60) @ js ''.'' @ pad 3 (r mod 1000) @ js ''Z'')"

definition iso_hhmm :: "int \<Rightarrow> jsstr" where
  "iso_hhmm t = take 5 (drop 11 (to_iso t))"

end
