(* ===== verification/Violates.thy ===== *)
theory Violates
  imports Endpoint Calendar Bytes
begin

section \<open>The verdict: \<open>violates\<close>\<close>

text \<open>
  \<^verbatim>\<open>packages/verify/src/violates.ts\<close>: policy validation, and the deterministic evaluation of a claimed action against a policy and the
  prior receipts. Documents are \<open>jsval\<close>; the evaluation of each clause type is a definition of its own, giving \<open>Pass\<close>, \<open>Undet\<close> (a
  global clause without every gateway's receipts) or \<open>Match\<close> with the explanation and the bound that failed. A throw is an
  \<open>Inl\<close>. The claimed receipt is taken to be an object of its own, not one of the receipts, as it is when they come from separate
  documents.
\<close>

subsection \<open>\<open>JSON.stringify\<close>\<close>

definition escape4 :: "nat \<Rightarrow> jsstr" where
  "escape4 c = [0x5c, 0x75, hex_digit (c div 4096), hex_digit (c div 256 mod 16), hex_digit (c div 16 mod 16), hex_digit (c mod 16)]"

fun escape_units :: "jsstr \<Rightarrow> jsstr" where
  "escape_units [] = []"
| "escape_units (c # cs) =
     (if hi_surrogate c then
        (case cs of
           [] \<Rightarrow> escape4 c
         | d # ds \<Rightarrow> if lo_surrogate d then [c, d] @ escape_units ds else escape4 c @ escape_units cs)
      else if lo_surrogate c then escape4 c @ escape_units cs
      else json_escape c @ escape_units cs)"

definition stringify_string :: "jsstr \<Rightarrow> jsstr" where
  "stringify_string s = [0x22] @ escape_units s @ [0x22]"

text \<open>\<open>None\<close> is \<open>undefined\<close>: such a member is left out, such an element is \<open>null\<close>.\<close>

primrec stringify :: "jsval \<Rightarrow> jsstr option" where
  "stringify VUndef = None"
| "stringify VHole = None"
| "stringify VNull = Some (js ''null'')"
| "stringify (VBool b) = Some (if b then js ''true'' else js ''false'')"
| "stringify (VNum n) = Some (if is_finite_num n then num_text n else js ''null'')"
| "stringify (VStr s) = Some (stringify_string s)"
| "stringify (VOther a b) = None"
| "stringify (VArr xs) =
     Some (js ''['' @ js_join (js '','') (map (\<lambda>t. case t of None \<Rightarrow> js ''null'' | Some s \<Rightarrow> s) (map stringify xs)) @ js '']'')"
| "stringify (VObj fs) =
     Some (js ''{'' @ js_join (js '','')
       (concat (map (\<lambda>(k, t). case t of None \<Rightarrow> [] | Some s \<Rightarrow> [stringify_string k @ js '':'' @ s]) (map (map_prod id stringify) fs))) @ js ''}'')"
| "stringify (VInst fs) =
     Some (js ''{'' @ js_join (js '','')
       (concat (map (\<lambda>(k, t). case t of None \<Rightarrow> [] | Some s \<Rightarrow> [stringify_string k @ js '':'' @ s]) (map (map_prod id stringify) fs))) @ js ''}'')"

subsection \<open>\<open>validatePolicy\<close>\<close>

definition str_of :: "jsval \<Rightarrow> jsstr" where
  "str_of v = (case v of VStr s \<Rightarrow> s | _ \<Rightarrow> [])"

text \<open>The patterns of a bound: its own and that of its \<open>items\<close>.\<close>

definition bound_patterns :: "jsval \<Rightarrow> jsval list" where
  "bound_patterns b = [fld b (js ''pattern''), fld (fld b (js ''items'')) (js ''pattern'')]"

definition pattern_errors :: "env \<Rightarrow> jsstr \<Rightarrow> jsval \<Rightarrow> jsstr list" where
  "pattern_errors e where' b =
     concat (map (\<lambda>p. case p of VStr s \<Rightarrow> if re_ok e s then [] else [where' @ js '' has an invalid pattern''] | _ \<Rightarrow> []) (bound_patterns b))"

definition exception_errors :: "env \<Rightarrow> jsval \<Rightarrow> jsstr list" where
  "exception_errors e clause =
     (if fld clause (js ''type'') = VStr (js ''action_allowlist'') \<and> truthy (fld clause (js ''exceptions''))
      then concat (map (\<lambda>x. concat (map (\<lambda>(field, b).
             pattern_errors e (js ''/clauses/'' @ json_text (fld clause (js ''id'')) @ js ''/exceptions/'' @ field) b) (members x)))
             (elems (fld clause (js ''exceptions''))))
      else [])"

definition bound_errors :: "env \<Rightarrow> jsval \<Rightarrow> jsstr list" where
  "bound_errors e clause =
     (if fld clause (js ''type'') = VStr (js ''action_allowlist'') \<and> truthy (fld clause (js ''param_bounds''))
      then concat (map (\<lambda>(field, b).
             let where' = js ''/clauses/'' @ json_text (fld clause (js ''id'')) @ js ''/param_bounds/'' @ field in
             (case (fld b (js ''min''), fld b (js ''max'')) of
                (VNum lo, VNum hi) \<Rightarrow> if jlt hi lo then [where' @ js '' min exceeds max''] else []
              | _ \<Rightarrow> []) @ pattern_errors e where' b)
             (members (fld clause (js ''param_bounds''))))
      else [])"

definition approvals_errors :: "jsval \<Rightarrow> jsstr list" where
  "approvals_errors clause =
     (if fld clause (js ''type'') = VStr (js ''require_approval'') \<and> \<not> nullish (fld clause (js ''min_approvals'')) \<and>
         fld clause (js ''min_approvals'') \<noteq> VNum (jint 1)
      then [js ''/clauses/'' @ json_text (fld clause (js ''id'')) @ js ''/min_approvals only one approval is supported before DEV10'']
      else [])"

fun semantic_errors :: "env \<Rightarrow> jsval list \<Rightarrow> jsval list \<Rightarrow> jsstr list" where
  "semantic_errors e ids [] = []"
| "semantic_errors e ids (clause # cs) =
     (if list_has ids (fld clause (js ''id'')) then [js ''/clauses duplicate id '' @ the (stringify (fld clause (js ''id'')))] else []) @
     approvals_errors clause @ exception_errors e clause @ bound_errors e clause @
     semantic_errors e (fld clause (js ''id'') # ids) cs"

definition validate_policy :: "env \<Rightarrow> jsval \<Rightarrow> validation_result outcome" where
  "validate_policy e value =
     rbind (validate_policy_shape value) (\<lambda>shape.
       if \<not> valid shape then Inr (result_of (errors shape))
       else if VHole \<in> set (elems (fld value (js ''clauses''))) then Inl TypeErr
       else Inr (result_of (errors shape @ semantic_errors e [] (elems (fld value (js ''clauses''))))))"

definition validate_intent :: "jsval \<Rightarrow> validation_result" where
  "validate_intent value = validate_action value"

subsection \<open>Receipts\<close>

definition norm :: "jsval \<Rightarrow> jsval" where
  "norm r = (let v = (if truthy r \<and> truthy (fld r (js ''payload'')) then fld r (js ''payload'') else r) in if truthy v then v else VObj [])"

text \<open>\<open>Date.parse(isoTs ?? "")\<close>.\<close>

definition ms :: "env \<Rightarrow> jsval \<Rightarrow> jnum" where
  "ms e ts = (case date_parse e (json_text (or_else ts (VStr []))) of None \<Rightarrow> NaN | Some t \<Rightarrow> jint t)"

definition intent_of :: "jsval \<Rightarrow> jsval" where
  "intent_of r = fld r (js ''intent'')"

definition params_of :: "jsval \<Rightarrow> jsval" where
  "params_of r = or_else (fld (intent_of r) (js ''params'')) (VObj [])"

definition timestamp_of :: "jsval \<Rightarrow> jsval" where
  "timestamp_of r = fld r (js ''timestamp'')"

definition executed_of :: "jsval \<Rightarrow> bool" where
  "executed_of r \<longleftrightarrow> fld r (js ''executed'') = VBool True"

subsection \<open>Bounds on parameters\<close>

definition num_of :: "jsval \<Rightarrow> jnum" where
  "num_of v = (case v of VNum n \<Rightarrow> n | _ \<Rightarrow> NaN)"

definition regex_fails :: "env \<Rightarrow> jsval \<Rightarrow> jsval \<Rightarrow> bool" where
  "regex_fails e pattern v = (truthy pattern \<and> (case v of VStr s \<Rightarrow> \<not> re_test e (str_of pattern) s | _ \<Rightarrow> True))"

definition element_satisfies_bound :: "env \<Rightarrow> jsval \<Rightarrow> jsval \<Rightarrow> bool" where
  "element_satisfies_bound e el b =
     (let en = fld b (js ''enum''); lo = fld b (js ''min''); hi = fld b (js ''max'') in
      if truthy en \<and> \<not> list_has (elems en) el then False
      else if (\<not> nullish lo \<or> \<not> nullish hi) \<and> \<not> is_finite_number el then False
      else if \<not> nullish lo \<and> jlt (num_of el) (num_of lo) then False
      else if \<not> nullish hi \<and> jlt (num_of hi) (num_of el) then False
      else if regex_fails e (fld b (js ''pattern'')) el then False
      else True)"

definition meets_bound :: "env \<Rightarrow> jsval \<Rightarrow> jsval \<Rightarrow> bool" where
  "meets_bound e val b =
     (let items = fld b (js ''items'') in
      if truthy items then
        (case val of
           VArr xs \<Rightarrow>
             if xs = [] then False
             else if fld b (js ''match'') = VStr (js ''any'') then arr_some (\<lambda>el. element_satisfies_bound e el items) xs
             else arr_every (\<lambda>el. element_satisfies_bound e el items) xs
         | _ \<Rightarrow> False)
      else val \<noteq> VUndef \<and> element_satisfies_bound e val b)"

definition excepted :: "env \<Rightarrow> jsval \<Rightarrow> jsval \<Rightarrow> bool" where
  "excepted e clause p =
     arr_some (\<lambda>x. list_all (\<lambda>(field, b). meets_bound e (jget p field) b) (members x)) (elems (fld clause (js ''exceptions'')))"

subsection \<open>The evaluation of a clause\<close>

datatype clause_result = Pass | Undet | Match jsstr jsstr

record eval_ctx =
  claimed :: jsval
  unique :: "(bool \<times> jsval) list"
  at_ms :: int
  incomplete :: bool

definition x_intent :: "eval_ctx \<Rightarrow> jsval" where
  "x_intent x = intent_of (claimed x)"

definition x_params :: "eval_ctx \<Rightarrow> jsval" where
  "x_params x = params_of (claimed x)"

definition x_action :: "eval_ctx \<Rightarrow> jsval" where
  "x_action x = fld (x_intent x) (js ''action_type'')"

definition strict_eq :: "jsval \<Rightarrow> jsval \<Rightarrow> bool" where
  "strict_eq a b \<longleftrightarrow> same_value a b \<and> a \<noteq> VNum NaN"

definition listing :: "jsval \<Rightarrow> string \<Rightarrow> jsval \<Rightarrow> bool" where
  "listing clause k v = list_has (elems (fld clause (js k))) v"

definition in_window :: "env \<Rightarrow> eval_ctx \<Rightarrow> jsval \<Rightarrow> jnum \<Rightarrow> bool" where
  "in_window e x r w = (let t = ms e (timestamp_of r) in jle t (jint (at_ms x)) \<and> jlt (jsub (jint (at_ms x)) w) t)"

definition needs_all :: "eval_ctx \<Rightarrow> jsval \<Rightarrow> bool" where
  "needs_all x clause \<longleftrightarrow> fld clause (js ''scope'') = VStr (js ''global'') \<and> incomplete x"

definition duration_of :: "jsval \<Rightarrow> jnum outcome" where
  "duration_of v = duration_to_ms (str_of v)"

definition amount_num :: "jsval \<Rightarrow> jnum" where
  "amount_num r = num_of (or_else (fld (intent_of r) (js ''amount'')) (VNum (Fin 0)))"

definition safe_amount :: "jsval \<Rightarrow> bool" where
  "safe_amount r = (case fld (intent_of r) (js ''amount'') of VNum n \<Rightarrow> is_safe_int n | _ \<Rightarrow> False)"

definition has_asset :: "jsval \<Rightarrow> jsval \<Rightarrow> bool" where
  "has_asset asset r = strict_eq (fld (intent_of r) (js ''asset'')) asset"

definition eval_spend_limit :: "env \<Rightarrow> eval_ctx \<Rightarrow> jsval \<Rightarrow> clause_result outcome" where
  "eval_spend_limit e x clause =
     (let asset = fld clause (js ''asset''); cap = fld clause (js ''max_per_action''); wcap = fld clause (js ''max_per_window'');
          amt = (if has_asset asset (claimed x) then amount_num (claimed x) else Fin 0) in
      if has_asset asset (claimed x) \<and> \<not> safe_amount (claimed x) then
        Inr (Match (js ''amount for asset '' @ json_text asset @ js '' must be a nonnegative safe integer'') (js ''amount:type''))
      else if \<not> nullish cap \<and> jlt (num_of cap) amt then
        Inr (Match (js ''per-action '' @ num_text amt @ js '' exceeds max_per_action '' @ json_text cap) (js ''amount:max_per_action''))
      else if nullish wcap then Inr Pass
      else if needs_all x clause then Inr Undet
      else rbind (duration_of (fld clause (js ''window''))) (\<lambda>w.
        let relevant = filter (\<lambda>r. has_asset asset r \<and> in_window e x r w) (map snd (unique x)) in
        if \<not> list_all safe_amount relevant then
          Inr (Match (js ''window for asset '' @ json_text asset @ js '' contains an invalid amount'') (js ''amount:type''))
        else let sum = foldl (\<lambda>s r. jadd s (amount_num r)) (Fin 0) relevant in
          if jlt (num_of wcap) sum then
            Inr (Match (js ''windowed total '' @ num_text sum @ js '' exceeds max_per_window '' @ json_text wcap) (js ''amount:max_per_window''))
          else Inr Pass))"

definition eval_rate_limit :: "env \<Rightarrow> eval_ctx \<Rightarrow> jsval \<Rightarrow> clause_result outcome" where
  "eval_rate_limit e x clause =
     (if needs_all x clause then Inr Undet
      else rbind (duration_of (fld clause (js ''window''))) (\<lambda>w.
        let count = length (filter (\<lambda>r. listing clause ''action_types'' (fld (intent_of r) (js ''action_type'')) \<and> in_window e x r w) (map snd (unique x)));
            cap = fld clause (js ''max_count'') in
        if jlt (num_of cap) (jint (int count)) then
          Inr (Match (js ''count '' @ num_text (jint (int count)) @ js '' exceeds max_count '' @ json_text cap) (js ''action_type:max_count''))
        else Inr Pass))"

definition eval_require_approval :: "eval_ctx \<Rightarrow> jsval \<Rightarrow> clause_result" where
  "eval_require_approval x clause =
     (if listing clause ''action_types'' (x_action x) then
        let a = fld (claimed x) (js ''approval'');
            ok = truthy a \<and> listing clause ''approvers'' (fld a (js ''approver'')) \<and>
                 strict_eq (fld a (js ''intent_hash'')) (fld (claimed x) (js ''intent_hash'')) in
        if \<not> ok then Match (js ''executed without a valid approval record'') (js ''approval:approvers'') else Pass
      else Pass)"

definition opt_duration :: "jsval \<Rightarrow> jnum outcome" where
  "opt_duration v = (if truthy v then duration_of v else Inr (Fin 0))"

definition eval_sequence :: "env \<Rightarrow> eval_ctx \<Rightarrow> jsval \<Rightarrow> clause_result outcome" where
  "eval_sequence e x clause =
     (let mg = fld clause (js ''min_gap''); fw = fld clause (js ''forbidden_within'') in
      if listing clause ''then_action_types'' (x_action x) \<and> (truthy mg \<or> truthy fw) then
        rbind (opt_duration mg) (\<lambda>min_gap. rbind (opt_duration fw) (\<lambda>forbidden.
          let gap = jmax min_gap forbidden; bound = (if jle forbidden min_gap then js ''min_gap'' else js ''forbidden_within'') in
          if list_ex (\<lambda>(is_c, r). \<not> is_c \<and> listing clause ''first_action_types'' (fld (intent_of r) (js ''action_type'')) \<and>
                (let t = ms e (timestamp_of r) in jlt (jsub (jint (at_ms x)) t) gap \<and> jle t (jint (at_ms x)))) (unique x)
          then Inr (Match (js ''then-action occurred before the required sequence gap'') (js ''timestamp:'' @ bound))
          else Inr Pass))
      else Inr Pass)"

definition eval_time_window :: "eval_ctx \<Rightarrow> jsval \<Rightarrow> clause_result" where
  "eval_time_window x clause =
     (let day = week_day (at_ms x); hhmm = iso_hhmm (at_ms x);
          start = str_of (fld clause (js ''start'')); end' = str_of (fld clause (js ''end''));
          day_ok = if_listed (fld clause (js ''days'')) (\<lambda>ds. list_has ds (VStr day));
          time_ok = (if start \<le> end' then start \<le> hhmm \<and> hhmm \<le> end' else start \<le> hhmm \<or> hhmm \<le> end') in
      if \<not> (day_ok \<and> time_ok) then
        Match (js ''executed outside allowed window ('' @ hhmm @ js '' UTC)'') (if day_ok then js ''timestamp:hours'' else js ''timestamp:days'')
      else Pass)"

definition eval_endpoint_allowlist :: "env \<Rightarrow> eval_ctx \<Rightarrow> jsval \<Rightarrow> clause_result" where
  "eval_endpoint_allowlist e x clause =
     (let p = x_params x; host = fld p (js ''host'') in
      if nullish host then Pass
      else
        let path = or_else (fld p (js ''path'')) (VStr (js ''/''));
            host_ok = (case endpoint_destination e host of None \<Rightarrow> False
              | Some dest \<Rightarrow> arr_some (\<lambda>h. allowlist_entry_names e h dest) (elems (fld clause (js ''hosts''))));
            path_ok = (plain_path path \<and> if_listed (fld clause (js ''paths'')) (arr_some (\<lambda>g. glob_hits g (path_text path))));
            method_ok = if_listed (fld clause (js ''methods'')) (\<lambda>ms. list_has ms (fld p (js ''method''))) in
        if \<not> (host_ok \<and> path_ok \<and> method_ok) then
          Match (js ''HTTP '' @ json_text (or_else (fld p (js ''method'')) (VStr [])) @ js '' '' @ json_text host @
                 json_text (or_else (fld p (js ''path'')) (VStr [])) @ js '' not allowlisted'')
            (if \<not> host_ok then js ''host:hosts'' else if \<not> path_ok then js ''path:paths'' else js ''method:methods'')
        else Pass)"

definition eval_endpoint_denylist :: "env \<Rightarrow> eval_ctx \<Rightarrow> jsval \<Rightarrow> clause_result" where
  "eval_endpoint_denylist e x clause =
     (let p = x_params x; host = fld p (js ''host'') in
      if nullish host then Pass
      else (case denylist_denial e clause host (fld p (js ''path'')) (fld p (js ''method'')) of
         None \<Rightarrow> Pass
       | Some denial \<Rightarrow>
           Match denial
             (if endpoint_destination e host = None then js ''host:format''
              else if \<not> plain_path (or_else (fld p (js ''path'')) (VStr (js ''/''))) then js ''path:format'' else js ''host:hosts'')))"

definition chain_ok :: "jsval \<Rightarrow> jsval \<Rightarrow> bool" where
  "chain_ok clause p = if_listed (fld clause (js ''chain_ids'')) (\<lambda>cs. list_has cs (fld p (js ''chain_id'')))"

definition eval_address_allowlist :: "eval_ctx \<Rightarrow> jsval \<Rightarrow> clause_result" where
  "eval_address_allowlist x clause =
     (let p = x_params x; to' = fld p (js ''to'') in
      if nullish to' then Pass
      else if chain_ok clause p \<and> \<not> listing clause ''addresses'' to' then
        Match (js ''destination '' @ json_text to' @ js '' not allowlisted'') (js ''to:addresses'')
      else Pass)"

definition eval_address_denylist :: "eval_ctx \<Rightarrow> jsval \<Rightarrow> clause_result" where
  "eval_address_denylist x clause =
     (let p = x_params x; to' = fld p (js ''to'') in
      if \<not> nullish to' \<and> listing clause ''addresses'' to' \<and> chain_ok clause p then
        Match (js ''destination '' @ json_text to' @ js '' is denied'') (js ''to:addresses'')
      else Pass)"

definition eval_contract_allowlist :: "eval_ctx \<Rightarrow> jsval \<Rightarrow> clause_result" where
  "eval_contract_allowlist x clause =
     (let p = x_params x; contract = fld p (js ''contract''); selector = fld p (js ''selector'') in
      if nullish contract then Pass
      else if \<not> chain_ok clause p then Pass
      else
        let contract_ok = listing clause ''contracts'' contract;
            sel_ok = if_listed (fld clause (js ''selectors'')) (\<lambda>ss. \<not> nullish selector \<and> list_has ss selector) in
        if \<not> (contract_ok \<and> sel_ok) then
          Match (js ''contract '' @ json_text contract @ js '' '' @ json_text (or_else selector (VStr [])) @ js '' not allowlisted'')
            (if contract_ok then js ''selector:selectors'' else js ''contract:contracts'')
        else Pass)"

text \<open>One parameter bound of an action allowlist; \<open>Pass\<close> goes on to the next.\<close>

definition check_bound :: "env \<Rightarrow> jsval \<Rightarrow> jsstr \<Rightarrow> jsval \<Rightarrow> clause_result" where
  "check_bound e p field b =
     (let val = jget p field; items = fld b (js ''items''); lo = fld b (js ''min''); hi = fld b (js ''max'') in
      if truthy items then
        let any = (fld b (js ''match'') = VStr (js ''any'')) in
        (case val of
           VArr xs \<Rightarrow>
             if (if any then arr_some (\<lambda>el. element_satisfies_bound e el items) xs
                 else arr_every (\<lambda>el. element_satisfies_bound e el items) xs)
             then Pass
             else Match (js ''param '' @ field @ js '' array fails '' @ (if any then js ''any'' else js ''all'') @ js ''-match bound'') (field @ js '':items'')
         | _ \<Rightarrow> Match (js ''param '' @ field @ js '' must be an array'') (field @ js '':type''))
      else if truthy (fld b (js ''enum'')) \<and> \<not> list_has (elems (fld b (js ''enum''))) val then
        Match (js ''param '' @ field @ js ''='' @ json_text val @ js '' not in enum'') (field @ js '':enum'')
      else if (\<not> nullish lo \<or> \<not> nullish hi) \<and> \<not> is_finite_number val then
        Match (js ''param '' @ field @ js '' must be a finite number'') (field @ js '':type'')
      else if \<not> nullish lo \<and> jlt (num_of val) (num_of lo) then
        Match (js ''param '' @ field @ js ''='' @ json_text val @ js '' below min '' @ json_text lo) (field @ js '':min'')
      else if \<not> nullish hi \<and> jlt (num_of hi) (num_of val) then
        Match (js ''param '' @ field @ js ''='' @ json_text val @ js '' above max '' @ json_text hi) (field @ js '':max'')
      else if regex_fails e (fld b (js ''pattern'')) val then
        Match (js ''param '' @ field @ js '' fails pattern'') (field @ js '':pattern'')
      else Pass)"

fun check_bounds :: "env \<Rightarrow> jsval \<Rightarrow> (jsstr \<times> jsval) list \<Rightarrow> clause_result" where
  "check_bounds e p [] = Pass"
| "check_bounds e p ((field, b) # bs) =
     (case check_bound e p field b of Match t fb \<Rightarrow> Match t fb | _ \<Rightarrow> check_bounds e p bs)"

definition eval_action_allowlist :: "env \<Rightarrow> eval_ctx \<Rightarrow> jsval \<Rightarrow> clause_result" where
  "eval_action_allowlist e x clause =
     (if listing clause ''action_types'' (x_action x) \<and> truthy (fld clause (js ''param_bounds'')) \<and> \<not> excepted e clause (x_params x)
      then check_bounds e (x_params x) (members (fld clause (js ''param_bounds'')))
      else Pass)"

definition eval_key_policy :: "eval_ctx \<Rightarrow> jsval \<Rightarrow> clause_result" where
  "eval_key_policy x clause =
     (let signer = fld (x_intent x) (js ''signer'') in
      if \<not> nullish signer \<and> \<not> listing clause ''active_keys'' signer then
        Match (js ''signed by key '' @ json_text signer @ js '' outside the active key set'') (js ''signer:active_keys'')
      else Pass)"

definition default_refs :: "jsval list" where
  "default_refs = map (VStr \<circ> js) [''main'', ''master'', ''release/**'']"

definition eval_force_push_guard :: "eval_ctx \<Rightarrow> jsval \<Rightarrow> clause_result" where
  "eval_force_push_guard x clause =
     (let p = x_params x; flag = (\<lambda>k. fld p (js k) = VBool True) in
      if x_action x \<noteq> VStr (js ''git.push'') then Pass
      else
        let refs = (if elems (fld clause (js ''protected_refs'')) \<noteq> [] then elems (fld clause (js ''protected_refs'')) else default_refs);
            ref = str_opt (fld p (js ''ref''));
            hits = (case ref of None \<Rightarrow> True | Some s \<Rightarrow> arr_some (\<lambda>g. glob_hits g s) refs) in
        if flag ''all'' \<and> flag ''force'' then
          Match (js ''force-push to all branches (--all/--mirror) reaches protected refs and is denied'') (js ''ref:protected_refs'')
        else if flag ''delete'' \<and> hits then
          Match (case ref of None \<Rightarrow> js ''delete of an unresolved target ref is denied''
                 | Some s \<Rightarrow> js ''delete of protected ref '' @ s @ js '' is denied'') (js ''ref:protected_refs'')
        else if flag ''force'' \<and> hits then
          Match (case ref of None \<Rightarrow> js ''force-push with an unresolved target ref is denied''
                 | Some s \<Rightarrow> js ''force-push to protected ref '' @ s @ js '' is denied'') (js ''ref:protected_refs'')
        else Pass)"

text \<open>The body of the loop over the clauses; clause types it does not know are skipped.\<close>

definition eval_clause :: "env \<Rightarrow> eval_ctx \<Rightarrow> jsval \<Rightarrow> clause_result outcome" where
  "eval_clause e x clause =
     (let t = fld clause (js ''type'') in
      if t = VStr (js ''spend_limit'') then eval_spend_limit e x clause
      else if t = VStr (js ''rate_limit'') then eval_rate_limit e x clause
      else if t = VStr (js ''require_approval'') then Inr (eval_require_approval x clause)
      else if t = VStr (js ''sequence'') then eval_sequence e x clause
      else if t = VStr (js ''time_window'') then Inr (eval_time_window x clause)
      else if t = VStr (js ''endpoint_allowlist'') then Inr (eval_endpoint_allowlist e x clause)
      else if t = VStr (js ''endpoint_denylist'') then Inr (eval_endpoint_denylist e x clause)
      else if t = VStr (js ''address_allowlist'') then Inr (eval_address_allowlist x clause)
      else if t = VStr (js ''address_denylist'') then Inr (eval_address_denylist x clause)
      else if t = VStr (js ''contract_allowlist'') then Inr (eval_contract_allowlist x clause)
      else if t = VStr (js ''action_allowlist'') then Inr (eval_action_allowlist e x clause)
      else if t = VStr (js ''key_policy'') then Inr (eval_key_policy x clause)
      else if t = VStr (js ''force_push_guard'') then Inr (eval_force_push_guard x clause)
      else Inr Pass)"

subsection \<open>The verdict\<close>

datatype mode = Enforce | Require_approval | Monitor

record verdict =
  violated :: bool
  clause_id :: "jsstr option"
  explanation :: jsstr
  inputs_hash :: jsstr
  undetermined :: bool
  failed_bound :: "jsstr option"

record options =
  opt_at :: "jsstr option"
  opt_complete :: "bool option"

definition inputs_hash_of :: "env \<Rightarrow> jsval \<Rightarrow> jsval list \<Rightarrow> jsval \<Rightarrow> jsval \<Rightarrow> jsstr outcome" where
  "inputs_hash_of e policy receipts c at' =
     rbind (canonical (VObj [(js ''policy'', policy), (js ''receipts'', VArr receipts), (js ''claimed'', c), (js ''at'', at')]))
       (\<lambda>t. Inr (to_hex (sha256 e (utf8 t))))"

definition mk_verdict :: "bool \<Rightarrow> jsstr option \<Rightarrow> jsstr \<Rightarrow> jsstr \<Rightarrow> verdict" where
  "mk_verdict v c t h = \<lparr> violated = v, clause_id = c, explanation = t, inputs_hash = h, undetermined = False, failed_bound = None \<rparr>"

text \<open>The key under which an executed receipt counts once.\<close>

definition occurrence :: "jsval \<Rightarrow> jsval" where
  "occurrence r =
     (let action_id = or_else (fld r (js ''action_id'')) (fld (fld r (js ''action_ref'')) (js ''action_id'')) in
      if \<not> nullish action_id then action_id
      else VStr (json_text (or_else (fld r (js ''intent_hash'')) (case stringify (intent_of r) of None \<Rightarrow> VUndef | Some t \<Rightarrow> VStr t))
        @ js ''@'' @ json_text (or_else (timestamp_of r) (VStr []))))"

text \<open>The executed receipts, the claimed one last and marked, one for each key.\<close>

definition executed_unique :: "jsval list \<Rightarrow> jsval \<Rightarrow> (bool \<times> jsval) list" where
  "executed_unique rs c =
     map snd (omap_of_list (map (\<lambda>(b, r). (occurrence r, (b, r)))
       (filter (\<lambda>(b, r). executed_of r) (map (Pair False) rs @ [(True, c)]))))"

definition clause_mode :: "jsval \<Rightarrow> mode" where
  "clause_mode clause =
     (if fld clause (js ''type'') = VStr (js ''require_approval'') then Require_approval
      else if fld clause (js ''mode'') = VStr (js ''monitor'') then Monitor
      else if fld clause (js ''mode'') = VStr (js ''require_approval'') then Require_approval
      else Enforce)"

fun priority :: "mode \<Rightarrow> nat" where
  "priority Enforce = 3"
| "priority Require_approval = 2"
| "priority Monitor = 1"

text \<open>An element of \<open>found\<close>.\<close>

record finding =
  f_clause :: "jsstr option"
  f_text :: jsstr
  f_bound :: "jsstr option"
  f_mode :: mode
  f_order :: int

definition record_of :: "jsval \<Rightarrow> nat \<Rightarrow> jsstr \<Rightarrow> jsstr \<Rightarrow> finding" where
  "record_of clause i t b =
     \<lparr> f_clause = Some (str_of (fld clause (js ''id''))), f_text = t, f_bound = Some b, f_mode = clause_mode clause, f_order = int i \<rparr>"

definition is_type :: "jsval \<Rightarrow> string \<Rightarrow> bool" where
  "is_type clause t \<longleftrightarrow> fld clause (js ''type'') = VStr (js t)"

text \<open>The union of the action allowlists, checked first.\<close>

definition allowlist_findings :: "eval_ctx \<Rightarrow> jsval list \<Rightarrow> finding list" where
  "allowlist_findings x clauses =
     (let als = filter (\<lambda>(i, clause). is_type clause ''action_allowlist'') (enumerate 0 clauses) in
      if als \<noteq> [] \<and> \<not> list_ex (\<lambda>(i, clause). listing clause ''action_types'' (x_action x)) als then
        map (\<lambda>(i, clause). record_of clause i (js ''action type '' @ json_text (x_action x) @ js '' is not allowlisted'') (js ''action_type:action_types'')) als
      else [])"

definition covers :: "eval_ctx \<Rightarrow> jsval \<Rightarrow> bool" where
  "covers x clause =
     (let t = is_type clause; p = x_params x; action = x_action x in
      if t ''action_allowlist'' \<or> t ''rate_limit'' \<or> t ''require_approval'' then listing clause ''action_types'' action
      else if t ''spend_limit'' then strict_eq (fld (x_intent x) (js ''asset'')) (fld clause (js ''asset''))
      else if t ''sequence'' then listing clause ''first_action_types'' action \<or> listing clause ''then_action_types'' action
      else if t ''endpoint_allowlist'' \<or> t ''endpoint_denylist'' then action = VStr (js ''http.call'') \<and> is_str (fld p (js ''host''))
      else if t ''address_allowlist'' \<or> t ''address_denylist'' then is_str (fld p (js ''to''))
      else if t ''contract_allowlist'' then is_str (fld p (js ''contract''))
      else if t ''time_window'' then True
      else if t ''key_policy'' then is_str (fld (x_intent x) (js ''signer''))
      else if t ''force_push_guard'' then action = VStr (js ''git.push'')
      else False)"

definition uncovered_findings :: "eval_ctx \<Rightarrow> jsval list \<Rightarrow> finding list" where
  "uncovered_findings x clauses =
     (if list_ex (covers x) clauses then []
      else [\<lparr> f_clause = None, f_text = js ''action type '' @ json_text (x_action x) @ js '' is not covered by a supported policy clause'',
             f_bound = None, f_mode = Enforce, f_order = max_safe \<rparr>])"

text \<open>The loop: the findings in policy order, and the last clause that could not be decided.\<close>

fun clause_findings :: "env \<Rightarrow> eval_ctx \<Rightarrow> nat \<Rightarrow> jsval list \<Rightarrow> (finding list \<times> jsstr option) outcome" where
  "clause_findings e x i [] = Inr ([], None)"
| "clause_findings e x i (clause # cs) =
     rbind (eval_clause e x clause) (\<lambda>r.
     rbind (clause_findings e x (Suc i) cs) (\<lambda>(fs, und).
       Inr (case r of
              Pass \<Rightarrow> (fs, und)
            | Undet \<Rightarrow> (fs, case und of None \<Rightarrow> Some (str_of (fld clause (js ''id''))) | Some u \<Rightarrow> Some u)
            | Match t b \<Rightarrow> (record_of clause i t b # fs, und))))"

text \<open>\<open>found.sort(...)\<close>: higher priority first, then the clause's place in the policy.\<close>

definition finding_le :: "finding \<Rightarrow> finding \<Rightarrow> bool" where
  "finding_le a b \<longleftrightarrow> priority (f_mode b) < priority (f_mode a) \<or> (priority (f_mode a) = priority (f_mode b) \<and> f_order a \<le> f_order b)"

definition decide :: "jsstr \<Rightarrow> finding list \<Rightarrow> jsstr option \<Rightarrow> verdict" where
  "decide hash found und =
     (if found \<noteq> [] then
        let f = hd (js_sort finding_le found) in
        (mk_verdict True (f_clause f) (f_text f) hash)\<lparr> failed_bound := f_bound f \<rparr>
      else case und of
        Some u \<Rightarrow> (mk_verdict False (Some u) (js ''global-scope clause needs all gateways' receipts; set incomplete'') hash)
                    \<lparr> undetermined := True, failed_bound := Some (js ''receipts:scope'') \<rparr>
      | None \<Rightarrow> mk_verdict False None (js ''no clause violated'') hash)"

definition clauses_of :: "jsval \<Rightarrow> jsval list" where
  "clauses_of policy = elems (fld policy (js ''clauses''))"

definition prior_ok :: "env \<Rightarrow> jsval \<Rightarrow> bool" where
  "prior_ok e r \<longleftrightarrow> (executed_of r \<longrightarrow> valid (validate_intent (intent_of r)) \<and> is_finite_num (ms e (timestamp_of r)))"

definition eval_at :: "env \<Rightarrow> jsval \<Rightarrow> options \<Rightarrow> jnum" where
  "eval_at e c opts = (case opt_at opts of Some s \<Rightarrow> if s \<noteq> [] then ms e (VStr s) else ms e (timestamp_of c) | None \<Rightarrow> ms e (timestamp_of c))"

definition evaluate :: "env \<Rightarrow> jsval \<Rightarrow> eval_ctx \<Rightarrow> jsstr \<Rightarrow> verdict outcome" where
  "evaluate e policy x hash =
     rbind (clause_findings e x 0 (clauses_of policy)) (\<lambda>(fs, und).
       Inr (decide hash (allowlist_findings x (clauses_of policy) @ uncovered_findings x (clauses_of policy) @ fs) und))"

definition violates :: "env \<Rightarrow> jsval \<Rightarrow> jsval \<Rightarrow> jsval \<Rightarrow> options \<Rightarrow> verdict outcome" where
  "violates e policy receipts claim opts =
     (let c = norm claim; rs = map norm (elems receipts); at' = eval_at e c opts;
          hash = (case inputs_hash_of e policy rs c (case opt_at opts of Some s \<Rightarrow> VStr s | None \<Rightarrow> timestamp_of c) of
                    Inr h \<Rightarrow> h | Inl _ \<Rightarrow> to_hex (sha256 e (utf8 (js ''invalid non-JSON policy or action input'')))) in
      rbind (validate_policy e policy) (\<lambda>pv.
        if \<not> valid pv then Inr (mk_verdict True None (js ''invalid policy: '' @ js_join (js ''; '') (errors pv)) hash)
        else let iv = validate_intent (intent_of c) in
        if \<not> valid iv then Inr (mk_verdict True None (js ''invalid action: '' @ js_join (js ''; '') (errors iv)) hash)
        else if \<not> is_finite_num at' then Inr (mk_verdict True None (js ''invalid evaluation timestamp'') hash)
        else if \<not> list_all (prior_ok e) rs then Inr (mk_verdict True None (js ''invalid executed receipt in policy input'') hash)
        else if \<not> executed_of c then Inr (mk_verdict False None (js ''claimed action was not executed'') hash)
        else evaluate e policy
          \<lparr> claimed = c, unique = executed_unique rs c, at_ms = num_int at', incomplete = (opt_complete opts = Some False) \<rparr> hash))"

subsection \<open>The history a policy reads\<close>

datatype history_need = Need_none | Need_window jnum | Need_all

definition stateless_clauses :: "string list" where
  "stateless_clauses = [''action_allowlist'', ''require_approval'', ''time_window'', ''endpoint_allowlist'', ''endpoint_denylist'',
     ''address_allowlist'', ''address_denylist'', ''contract_allowlist'', ''key_policy'', ''force_push_guard'']"

text \<open>\<open>None\<close>: the loop returned \<open>all\<close>.\<close>

fun horizon :: "jsval list \<Rightarrow> jnum \<Rightarrow> jnum option outcome" where
  "horizon [] h = Inr (Some h)"
| "horizon (clause # cs) h =
     (if is_type clause ''rate_limit'' then rbind (duration_of (fld clause (js ''window''))) (\<lambda>w. horizon cs (jmax h w))
      else if is_type clause ''spend_limit'' then
        if \<not> nullish (fld clause (js ''max_per_window'')) then rbind (duration_of (fld clause (js ''window''))) (\<lambda>w. horizon cs (jmax h w))
        else horizon cs h
      else if is_type clause ''sequence'' then
        rbind (opt_duration (fld clause (js ''min_gap''))) (\<lambda>a. rbind (opt_duration (fld clause (js ''forbidden_within''))) (\<lambda>b.
          if truthy (fld clause (js ''min_gap'')) \<or> truthy (fld clause (js ''forbidden_within'')) then horizon cs (jmax (jmax h a) b)
          else horizon cs h))
      else if list_ex (is_type clause) stateless_clauses then horizon cs h
      else Inr None)"

definition history_need :: "env \<Rightarrow> jsval \<Rightarrow> history_need outcome" where
  "history_need e policy =
     rbind (validate_policy e policy) (\<lambda>pv.
       if \<not> valid pv then Inr Need_all
       else Inr (case horizon (clauses_of policy) (Fin 0) of
              Inl _ \<Rightarrow> Need_all
            | Inr None \<Rightarrow> Need_all
            | Inr (Some h) \<Rightarrow> if \<not> is_safe_int h then Need_all else if jlt (Fin 0) h then Need_window h else Need_none))"

definition bound_prior :: "env \<Rightarrow> history_need \<Rightarrow> jsval list \<Rightarrow> jsval \<Rightarrow> jsval list" where
  "bound_prior e need receipts at' =
     (case need of
        Need_none \<Rightarrow> []
      | Need_all \<Rightarrow> receipts
      | Need_window w \<Rightarrow>
          if \<not> is_finite_num (ms e at') then receipts
          else filter (\<lambda>r. \<not> jle (ms e (timestamp_of (norm r))) (jsub (ms e at') w)) receipts)"

end
