(* ===== verification/NumFacts.thy ===== *)
theory NumFacts
  imports Calendar Validate
begin

section \<open>Exactness of the evaluator's arithmetic\<close>

text \<open>
  The evaluator computes with binary64 numbers. For the values it meets (safe integers, time values of at most \<open>8.64e15\<close>
  milliseconds) its comparisons give the answers of exact integer arithmetic: the start of a window, the gap of a sequence,
  and a total of amounts against a limit, however large the total is.
\<close>

definition max_time :: int where
  "max_time = 8640000000000000"

lemma jlt_jint [simp]: "jlt (jint a) (jint b) \<longleftrightarrow> a < b"
  by (simp add: jint_def)

lemma jle_jint [simp]: "jle (jint a) (jint b) \<longleftrightarrow> a \<le> b"
  by (auto simp: jle_def jint_def)

lemma jint_inject [simp]: "jint a = jint b \<longleftrightarrow> a = b"
  by (simp add: jint_def)

lemma jmax_jint [simp]: "jmax (jint a) (jint b) = jint (max a b)"
  by (auto simp: jmax_def jint_def max_def)

lemma rnd_jint: "\<bar>i\<bar> \<le> 2 ^ 53 \<Longrightarrow> rnd (of_int i) = jint i"
  by (simp add: rnd_int jint_def)

lemma jadd_jint: "\<bar>a + b\<bar> \<le> 2 ^ 53 \<Longrightarrow> jadd (jint a) (jint b) = jint (a + b)"
  using rnd_jint [of "a + b"] by (simp add: jint_def)

lemma jmul_jint: "\<bar>a * b\<bar> \<le> 2 ^ 53 \<Longrightarrow> jmul (jint a) (jint b) = jint (a * b)"
  using rnd_jint [of "a * b"] by (simp add: jint_def)

lemma jsub_jint: "jsub (jint a) (jint b) = rnd (of_int (a - b))"
  by (simp add: jsub_def jint_def)

text \<open>An integer that is exact compares with a rounded integer as with the integer itself.\<close>

lemma jlt_rnd:
  assumes "\<bar>t\<bar> < 2 ^ 53"
  shows "jlt (rnd (of_int i)) (jint t) \<longleftrightarrow> i < t" "jlt (jint t) (rnd (of_int i)) \<longleftrightarrow> t < i"
proof -
  have e: "rnd (of_int j) = jint j" if "\<bar>j\<bar> \<le> 2 ^ 53" for j by (rule rnd_jint [OF that])
  have top: "rnd (of_int (2 ^ 53)) = jint (2 ^ 53)" "rnd (of_int (- (2 ^ 53))) = jint (- (2 ^ 53))" by (rule e, simp)+
  consider "\<bar>i\<bar> \<le> 2 ^ 53" | "2 ^ 53 < i" | "i < - (2 ^ 53)" by linarith
  then have "(jlt (rnd (of_int i)) (jint t) \<longleftrightarrow> i < t) \<and> (jlt (jint t) (rnd (of_int i)) \<longleftrightarrow> t < i)"
  proof cases
    case 1
    then show ?thesis by (simp add: e)
  next
    case 2
    have "jle (rnd (of_int (2 ^ 53))) (rnd (of_int i))" by (rule rnd_mono) (use 2 in \<open>simp only: of_int_le_iff\<close>)
    then have "jle (jint (2 ^ 53)) (rnd (of_int i))" unfolding top .
    then show ?thesis using 2 assms by (cases "rnd (of_int i)") (auto simp: jle_def jint_def)
  next
    case 3
    have "jle (rnd (of_int i)) (rnd (of_int (- (2 ^ 53))))" by (rule rnd_mono) (use 3 in \<open>simp only: of_int_le_iff\<close>)
    then have "jle (rnd (of_int i)) (jint (- (2 ^ 53)))" unfolding top .
    then show ?thesis using 3 assms by (cases "rnd (of_int i)") (auto simp: jle_def jint_def)
  qed
  then show "jlt (rnd (of_int i)) (jint t) \<longleftrightarrow> i < t" "jlt (jint t) (rnd (of_int i)) \<longleftrightarrow> t < i" by auto
qed

lemma window_start_exact: "\<bar>t\<bar> \<le> max_time \<Longrightarrow> jlt (jsub (jint at') (jint w)) (jint t) \<longleftrightarrow> at' - w < t"
  unfolding jsub_jint by (rule jlt_rnd(1)) (simp add: max_time_def)

lemma gap_exact: "0 \<le> g \<Longrightarrow> g \<le> max_safe \<Longrightarrow> jlt (jsub (jint at') (jint t)) (jint g) \<longleftrightarrow> at' - t < g"
  unfolding jsub_jint by (rule jlt_rnd(1)) (simp add: max_safe_def)

text \<open>A running total of nonnegative amounts: exact up to \<open>2 ^ 53\<close>, and above every safe limit afterwards.\<close>

definition total_ok :: "jnum \<Rightarrow> int \<Rightarrow> bool" where
  "total_ok acc s \<longleftrightarrow> (s \<le> 2 ^ 53 \<and> acc = jint s) \<or> (2 ^ 53 < s \<and> jle (jint (2 ^ 53)) acc)"

lemma total_step:
  assumes "total_ok acc s" "0 \<le> s" "0 \<le> a"
  shows "total_ok (jadd acc (jint a)) (s + a)"
proof (cases "s \<le> 2 ^ 53")
  case True
  with assms have acc: "acc = jint s" by (auto simp: total_ok_def)
  show ?thesis
  proof (cases "s + a \<le> 2 ^ 53")
    case True
    with assms acc show ?thesis by (simp add: total_ok_def jadd_jint)
  next
    case False
    have "jle (rnd (of_int (2 ^ 53))) (rnd (of_int (s + a)))"
      by (rule rnd_mono) (use False in \<open>simp only: of_int_le_iff\<close>)
    then have "jle (jint (2 ^ 53)) (jadd acc (jint a))" using rnd_jint [of "2 ^ 53"] acc by (simp add: jint_def)
    with False show ?thesis by (simp add: total_ok_def)
  qed
next
  case False
  with assms have acc: "jle (jint (2 ^ 53)) acc" by (auto simp: total_ok_def)
  have "jle (jint (2 ^ 53)) (jadd acc (jint a))"
  proof (cases acc)
    case (Fin q)
    with acc have "of_int (2 ^ 53) \<le> q" by (auto simp: jle_def jint_def)
    with assms(3) have "of_int (2 ^ 53) \<le> q + of_int a" by (meson add_increasing2 of_int_0_le_iff)
    then have "jle (rnd (of_int (2 ^ 53))) (rnd (q + of_int a))" by (rule rnd_mono)
    with Fin show ?thesis using rnd_jint [of "2 ^ 53"] by (simp add: jint_def)
  qed (use acc in \<open>auto simp: jle_def jint_def\<close>)
  with False assms show ?thesis by (simp add: total_ok_def)
qed

lemma total_foldl:
  "total_ok acc s \<Longrightarrow> 0 \<le> s \<Longrightarrow> \<forall>a \<in> set as. 0 \<le> a \<Longrightarrow> total_ok (foldl (\<lambda>t a. jadd t (jint a)) acc as) (s + sum_list as)"
proof (induction as arbitrary: acc s)
  case (Cons a as)
  have "total_ok (jadd acc (jint a)) (s + a)" using Cons.prems by (intro total_step) auto
  then have "total_ok (foldl (\<lambda>t a. jadd t (jint a)) (jadd acc (jint a)) as) (s + a + sum_list as)"
    using Cons.prems by (intro Cons.IH) auto
  then show ?case by (simp add: add.assoc)
qed simp

lemma total_exceeds:
  assumes "\<forall>a \<in> set as. 0 \<le> a" "cap \<le> max_safe"
  shows "jlt (jint cap) (foldl (\<lambda>t a. jadd t (jint a)) (jint 0) as) \<longleftrightarrow> cap < sum_list as"
proof -
  have "total_ok (foldl (\<lambda>t a. jadd t (jint a)) (jint 0) as) (0 + sum_list as)"
    using assms(1) by (intro total_foldl) (auto simp: total_ok_def)
  then show ?thesis using assms(2)
    by (cases "foldl (\<lambda>t a. jadd t (jint a)) (jint 0) as") (auto simp: total_ok_def max_safe_def jle_def jint_def)
qed

subsection \<open>Durations\<close>

text \<open>A duration that validation accepts has groups, and its milliseconds are exact when they are a safe integer.\<close>

definition duration_exact :: "jsstr \<Rightarrow> int" where
  "duration_exact s =
     (case duration_groups s of
        None \<Rightarrow> 0
      | Some (dd, hh, mm, ss) \<Rightarrow>
          ((digits_val dd * 24 + digits_val hh) * 60 + digits_val mm) * 60 * 1000 + digits_val ss * 1000)"

lemma take_unit_strip: "snd (take_unit u s) = strip_unit u s"
  by (simp add: take_unit_def strip_unit_def Let_def)

lemma take_unit_digits: "take_unit u s = (ds, r) \<Longrightarrow> list_all is_digit ds"
  by (auto simp: take_unit_def Let_def list_all_iff dest: set_takeWhileD split: if_splits)

lemma digits_val_nonneg: "list_all is_digit ds \<Longrightarrow> 0 \<le> digits_val ds"
proof (induction ds rule: rev_induct)
  case (snoc c ds)
  then have "48 \<le> c" by (simp add: is_digit_def)
  with snoc show ?case by (simp add: digits_val_snoc)
qed simp

lemma duration_groups_re: "duration_re s \<Longrightarrow> \<exists>g. duration_groups s = Some g"
proof (cases s)
  case (Cons p r)
  assume d: "duration_re s"
  obtain dd r1 where u: "take_unit 68 r = (dd, r1)" by fastforce
  then have "strip_unit 68 r = r1" using take_unit_strip [of 68 r] by simp
  show ?thesis
  proof (cases r1)
    case Nil
    with d u Cons show ?thesis by (simp add: duration_re_def duration_groups_def)
  next
    case (Cons t r')
    obtain hh r2 where h: "take_unit 72 r' = (hh, r2)" by fastforce
    obtain mm r3 where m: "take_unit 77 r2 = (mm, r3)" by fastforce
    obtain ss r4 where x: "take_unit 83 r3 = (ss, r4)" by fastforce
    have "strip_unit 83 (strip_unit 77 (strip_unit 72 r')) = r4"
      using take_unit_strip [of 72 r'] take_unit_strip [of 77 r2] take_unit_strip [of 83 r3] h m x by simp
    with d \<open>s = p # r\<close> Cons u h m x \<open>strip_unit 68 r = r1\<close> show ?thesis
      by (auto simp: duration_re_def duration_groups_def)
  qed
qed (simp add: duration_re_def)

lemma duration_groups_digits:
  assumes "duration_groups s = Some (dd, hh, mm, ss)"
  shows "list_all is_digit dd \<and> list_all is_digit hh \<and> list_all is_digit mm \<and> list_all is_digit ss"
  using assms by (auto simp: duration_groups_def dest!: take_unit_digits split: list.splits prod.splits if_splits)

lemma digits_num_exact: "digits_val ds \<le> 2 ^ 53 \<Longrightarrow> list_all is_digit ds \<Longrightarrow> digits_num ds = jint (digits_val ds)"
  using digits_val_nonneg [of ds] by (auto simp: digits_num_def rnd_jint jint_def [of 0])

lemma duration_nonneg: "0 \<le> duration_exact s"
proof (cases "duration_groups s")
  case (Some g)
  then obtain dd hh mm ss where g: "duration_groups s = Some (dd, hh, mm, ss)" by (cases g) auto
  with duration_groups_digits [OF g] show ?thesis
    by (auto simp: duration_exact_def intro!: add_nonneg_nonneg mult_nonneg_nonneg digits_val_nonneg)
qed (simp add: duration_exact_def)

lemma duration_exact_ms:
  assumes d: "duration_re s" and safe: "duration_exact s \<le> max_safe"
  shows "duration_to_ms s = Inr (jint (duration_exact s))"
proof -
  obtain dd hh mm ss where g: "duration_groups s = Some (dd, hh, mm, ss)" using duration_groups_re [OF d] by auto
  let ?d = "digits_val dd" and ?h = "digits_val hh" and ?m = "digits_val mm" and ?s = "digits_val ss"
  have nn: "0 \<le> ?d" "0 \<le> ?h" "0 \<le> ?m" "0 \<le> ?s" using duration_groups_digits [OF g] digits_val_nonneg by auto
  have e: "duration_exact s = ((?d * 24 + ?h) * 60 + ?m) * 60 * 1000 + ?s * 1000" by (simp add: duration_exact_def g)
  have lim: "((?d * 24 + ?h) * 60 + ?m) * 60 * 1000 + ?s * 1000 \<le> 9007199254740991" using safe e by (simp add: max_safe_def)
  have num: "digits_num dd = jint ?d" "digits_num hh = jint ?h" "digits_num mm = jint ?m" "digits_num ss = jint ?s"
    using duration_groups_digits [OF g] lim nn by (auto intro!: digits_num_exact)
  have "jmul (jint ?d) (jint 24) = jint (?d * 24)" using lim nn by (intro jmul_jint) simp
  moreover have "jadd (jint (?d * 24)) (jint ?h) = jint (?d * 24 + ?h)" using lim nn by (intro jadd_jint) simp
  moreover have "jmul (jint (?d * 24 + ?h)) (jint 60) = jint ((?d * 24 + ?h) * 60)" using lim nn by (intro jmul_jint) simp
  moreover have "jadd (jint ((?d * 24 + ?h) * 60)) (jint ?m) = jint ((?d * 24 + ?h) * 60 + ?m)" using lim nn by (intro jadd_jint) simp
  moreover have "jmul (jint ((?d * 24 + ?h) * 60 + ?m)) (jint 60) = jint (((?d * 24 + ?h) * 60 + ?m) * 60)" using lim nn by (intro jmul_jint) simp
  moreover have "jmul (jint (((?d * 24 + ?h) * 60 + ?m) * 60)) (jint 1000) = jint (((?d * 24 + ?h) * 60 + ?m) * 60 * 1000)"
    using lim nn by (intro jmul_jint) simp
  moreover have "jmul (jint ?s) (jint 1000) = jint (?s * 1000)" using lim nn by (intro jmul_jint) simp
  moreover have "jadd (jint (((?d * 24 + ?h) * 60 + ?m) * 60 * 1000)) (jint (?s * 1000)) = jint (duration_exact s)"
    unfolding e using lim nn by (intro jadd_jint) simp
  ultimately show ?thesis by (simp only: duration_to_ms_def g option.case prod.case num)
qed

lemma duration_returns: "duration_re s \<Longrightarrow> returns (duration_to_ms s)"
  using duration_groups_re [of s] by (auto simp: duration_to_ms_def)

end
