(* ===== verification/PolicyFacts.thy ===== *)
theory PolicyFacts
  imports Violates NumFacts
begin

section \<open>What an accepted policy guarantees\<close>

text \<open>
  From \<open>validate_policy\<close> accepting a policy to the facts the evaluation relies on: every clause is an object with an id and a
  type, its own validator accepted it, so the numbers and durations it needs are there. One lemma for each clause type whose
  evaluation reads a number or a duration.
\<close>

definition accepted :: "env \<Rightarrow> jsval \<Rightarrow> bool" where
  "accepted e policy = (case validate_policy e policy of Inr r \<Rightarrow> valid r | Inl _ \<Rightarrow> False)"

lemma valid_result_of [simp]: "valid (result_of es) \<longleftrightarrow> es = []"
  by (simp add: result_of_def)

lemma validate_clauses_ok: "validate_clauses cs i = Inr [] \<Longrightarrow> c \<in> set cs \<Longrightarrow> c \<noteq> VHole \<Longrightarrow> \<exists>j. validate_clause c j = Inr []"
  by (induction cs i rule: validate_clauses.induct) (auto simp: rbind_Inr_iff split: if_splits)

definition clause_ok :: "jsval \<Rightarrow> bool" where
  "clause_ok c \<longleftrightarrow> is_obj c \<and> is_nonempty_string (fld c (js ''id'')) \<and>
     (\<exists>t. fld c (js ''type'') = VStr t \<and> clause_validator t c = Some (Inr True)) \<and>
     (has_own c (js ''mode'') \<longrightarrow> is_clause_mode (fld c (js ''mode'')))"

lemma validate_clause_ok: "validate_clause c j = Inr [] \<Longrightarrow> clause_ok c"
  by (auto simp: validate_clause_def clause_ok_def Let_def rbind_Inr_iff split: if_splits jsval.splits option.splits)

lemma shape_result: "validate_policy_shape p = Inr sh \<Longrightarrow> \<exists>es. sh = result_of es"
  by (auto simp: validate_policy_shape_def Let_def rbind_Inr_iff split: if_splits)
    (auto simp: result_of_def)

lemma accepted_shape:
  assumes "accepted e policy"
  shows "validate_policy_shape policy = Inr (result_of [])" "VHole \<notin> set (clauses_of policy)"
    "semantic_errors e [] (clauses_of policy) = []"
proof -
  from assms obtain r where r: "validate_policy e policy = Inr r" "valid r"
    by (auto simp: accepted_def split: sum.splits)
  then obtain sh where sh: "validate_policy_shape policy = Inr sh" by (auto simp: validate_policy_def rbind_Inr_iff)
  then obtain es where es: "sh = result_of es" using shape_result by blast
  with r sh have "es = [] \<and> VHole \<notin> set (clauses_of policy) \<and> semantic_errors e [] (clauses_of policy) = []"
    by (cases "es = []") (auto simp: validate_policy_def clauses_of_def result_of_def split: if_splits)
  with sh es show "validate_policy_shape policy = Inr (result_of [])" "VHole \<notin> set (clauses_of policy)"
    "semantic_errors e [] (clauses_of policy) = []" by auto
qed

lemma shape_clauses:
  assumes "validate_policy_shape policy = Inr (result_of [])"
  shows "validate_clauses (clauses_of policy) 0 = Inr []" "clauses_of policy \<noteq> []"
  using assms unfolding clauses_of_def
  by (auto simp: validate_policy_shape_def Let_def rbind_Inr_iff result_of_def split: if_splits)

lemma accepted_clause: "accepted e policy \<Longrightarrow> c \<in> set (clauses_of policy) \<Longrightarrow> clause_ok c"
  using accepted_shape [of e policy] shape_clauses [of policy] validate_clauses_ok [of "clauses_of policy" 0 c] validate_clause_ok
  by metis

subsection \<open>Ids are unique\<close>

lemma semantic_distinct:
  "semantic_errors e ids cs = [] \<Longrightarrow> \<forall>c \<in> set cs. is_str (fld c (js ''id'')) \<Longrightarrow>
     distinct (map (\<lambda>c. fld c (js ''id'')) cs) \<and> (\<forall>c \<in> set cs. \<not> list_has ids (fld c (js ''id'')))"
proof (induction cs arbitrary: ids)
  case (Cons c cs)
  then obtain s where s: "fld c (js ''id'') = VStr s" by (auto simp: is_str_def split: jsval.splits)
  have "semantic_errors e (VStr s # ids) cs = []" "\<forall>c \<in> set cs. is_str (fld c (js ''id''))"
    using Cons.prems s by simp_all
  from Cons.IH [OF this]
  have ih: "distinct (map (\<lambda>c. fld c (js ''id'')) cs)" "\<forall>d \<in> set cs. \<not> list_has (VStr s # ids) (fld d (js ''id''))"
    by simp_all
  have "VStr s \<notin> (\<lambda>c. fld c (js ''id'')) ` set cs"
  proof
    assume "VStr s \<in> (\<lambda>c. fld c (js ''id'')) ` set cs"
    then obtain d where "d \<in> set cs" "fld d (js ''id'') = VStr s" by auto
    with ih(2) show False by (auto simp: list_has_str)
  qed
  moreover have "\<not> list_has ids (VStr s)" using Cons.prems(1) s by (auto split: if_splits)
  moreover have "\<forall>d \<in> set cs. \<not> list_has ids (fld d (js ''id''))" using ih(2) by (auto simp: list_has_def)
  ultimately show ?case using ih s by auto
qed simp

lemma nonempty_string_iff: "is_nonempty_string v \<longleftrightarrow> (\<exists>s. v = VStr s \<and> s \<noteq> [])"
  by (auto simp: is_nonempty_string_def split: jsval.splits)

lemma accepted_ids: "accepted e policy \<Longrightarrow> distinct (map (\<lambda>c. fld c (js ''id'')) (clauses_of policy))"
proof -
  assume a: "accepted e policy"
  have "\<forall>c \<in> set (clauses_of policy). is_str (fld c (js ''id''))"
    using accepted_clause [OF a] by (fastforce simp: clause_ok_def nonempty_string_iff is_str_def)
  with accepted_shape(3) [OF a] semantic_distinct show ?thesis by blast
qed

subsection \<open>Fields of a clause\<close>

definition safe_nat :: "jsval \<Rightarrow> bool" where
  "safe_nat v \<longleftrightarrow> (\<exists>i. v = VNum (jint i) \<and> 0 \<le> i \<and> i \<le> max_safe)"

lemma safe_int_jint: "is_safe_int n \<Longrightarrow> n = jint (num_int n)"
  by (auto simp: is_safe_int_def jint_def num_int_def split: jnum.splits)

lemma range_safe_nat: "is_int_in_range v 0 max_safe \<Longrightarrow> safe_nat v"
  by (auto simp: is_int_in_range_def safe_nat_def split: jsval.splits) (metis safe_int_jint)

definition duration_string :: "jsval \<Rightarrow> bool" where
  "duration_string v \<longleftrightarrow> (\<exists>s. v = VStr s \<and> duration_re s)"

lemma is_duration_string: "is_duration v \<Longrightarrow> duration_string v"
  by (auto simp: is_duration_def duration_string_def split: jsval.splits)

lemma fld_nullish: "\<not> has_own c k \<Longrightarrow> nullish (fld c k)"
  by (auto simp: has_own_def fld_def nullish_def split: option.splits)

lemma opt_D: "opt c k P \<Longrightarrow> \<not> nullish (fld c (js k)) \<Longrightarrow> P (fld c (js k))"
  using fld_nullish [of c "js k"] by (auto simp: opt_def)

lemma truthy_not_nullish: "truthy v \<Longrightarrow> \<not> nullish v"
  by (auto simp: nullish_def)

lemma clause_ok_validator: "clause_ok c \<Longrightarrow> is_type c t \<Longrightarrow> clause_validator (js t) c = Some (Inr True)"
  by (auto simp: clause_ok_def is_type_def)

lemma spend_limit_fields:
  assumes "clause_ok c" "is_type c ''spend_limit''"
  shows "is_str (fld c (js ''asset''))" "\<not> nullish (fld c (js ''max_per_action'')) \<Longrightarrow> safe_nat (fld c (js ''max_per_action''))"
    "\<not> nullish (fld c (js ''max_per_window'')) \<Longrightarrow> safe_nat (fld c (js ''max_per_window'')) \<and> duration_string (fld c (js ''window''))"
proof -
  have v: "v_spend_limit c" using clause_ok_validator [OF assms] by (simp add: clause_validator_def clause_validators_def)
  then show "is_str (fld c (js ''asset''))" "\<not> nullish (fld c (js ''max_per_action'')) \<Longrightarrow> safe_nat (fld c (js ''max_per_action''))"
    by (auto simp: v_spend_limit_def Let_def intro: range_safe_nat dest: opt_D)
  assume w: "\<not> nullish (fld c (js ''max_per_window''))"
  then have "has_own c (js ''max_per_window'')" using fld_nullish by blast
  with v have "has_own c (js ''window'')" by (simp add: v_spend_limit_def Let_def)
  with v have "is_duration (fld c (js ''window''))" by (simp add: v_spend_limit_def Let_def opt_def)
  with v w show "safe_nat (fld c (js ''max_per_window'')) \<and> duration_string (fld c (js ''window''))"
    by (auto simp: v_spend_limit_def Let_def intro: range_safe_nat is_duration_string dest: opt_D)
qed

lemma rate_limit_fields:
  assumes "clause_ok c" "is_type c ''rate_limit''"
  shows "safe_nat (fld c (js ''max_count''))" "duration_string (fld c (js ''window''))"
proof -
  have v: "v_rate_limit c" using clause_ok_validator [OF assms] by (simp add: clause_validator_def clause_validators_def)
  then show "safe_nat (fld c (js ''max_count''))" "duration_string (fld c (js ''window''))"
    by (auto simp: v_rate_limit_def intro: range_safe_nat is_duration_string)
qed

lemma sequence_fields:
  assumes "clause_ok c" "is_type c ''sequence''"
  shows "truthy (fld c (js ''min_gap'')) \<Longrightarrow> duration_string (fld c (js ''min_gap''))"
    "truthy (fld c (js ''forbidden_within'')) \<Longrightarrow> duration_string (fld c (js ''forbidden_within''))"
proof -
  have v: "v_sequence c" using clause_ok_validator [OF assms] by (simp add: clause_validator_def clause_validators_def)
  then show "truthy (fld c (js ''min_gap'')) \<Longrightarrow> duration_string (fld c (js ''min_gap''))"
    "truthy (fld c (js ''forbidden_within'')) \<Longrightarrow> duration_string (fld c (js ''forbidden_within''))"
    by (auto simp: v_sequence_def intro: is_duration_string dest: truthy_not_nullish opt_D)
qed

subsection \<open>The evaluation of an accepted clause returns\<close>

lemma duration_of_returns: "duration_string v \<Longrightarrow> returns (duration_of v)"
  by (auto simp: duration_string_def duration_of_def str_of_def duration_returns)

lemma opt_duration_returns: "(truthy v \<Longrightarrow> duration_string v) \<Longrightarrow> returns (opt_duration v)"
  by (auto simp: opt_duration_def duration_of_returns)

lemma returns_bindI: "returns r \<Longrightarrow> (\<And>x. r = Inr x \<Longrightarrow> returns (f x)) \<Longrightarrow> returns (rbind r f)"
  by (cases r) auto

lemma eval_clause_returns: "clause_ok c \<Longrightarrow> returns (eval_clause e x c)"
proof -
  assume ok: "clause_ok c"
  have "is_type c ''spend_limit'' \<Longrightarrow> returns (eval_spend_limit e x c)"
    using spend_limit_fields(3) [OF ok]
    by (auto simp: eval_spend_limit_def Let_def intro!: returns_bindI duration_of_returns)
  moreover have "is_type c ''rate_limit'' \<Longrightarrow> returns (eval_rate_limit e x c)"
    using rate_limit_fields(2) [OF ok]
    by (auto simp: eval_rate_limit_def Let_def intro!: returns_bindI duration_of_returns)
  moreover have "is_type c ''sequence'' \<Longrightarrow> returns (eval_sequence e x c)"
    using sequence_fields [OF ok]
    by (auto simp: eval_sequence_def Let_def intro!: returns_bindI opt_duration_returns)
  ultimately show ?thesis by (simp add: eval_clause_def Let_def is_type_def)
qed

lemma clause_findings_returns: "\<forall>c \<in> set cs. clause_ok c \<Longrightarrow> returns (clause_findings e x i cs)"
  by (induction cs arbitrary: i) (auto intro!: returns_bindI eval_clause_returns split: prod.splits)

end
