(* ===== verification/ViolatesFacts.thy ===== *)
theory ViolatesFacts
  imports PolicyFacts
begin

section \<open>What a verdict means\<close>

text \<open>
  The specification of the evaluator, clause by clause, in exact integers and plain quantifiers (\<open>clause_allows\<close>), and
  the proof that \<open>violates\<close> decides it: on an accepted policy and valid inputs it returns, and the verdict is \<open>violated\<close>
  exactly when the action is not permitted. The hypotheses are named: \<open>times_ok\<close> is the documented range of \<open>Date.parse\<close>,
  \<open>durations_safe\<close> says that the policy's durations are safe integers of milliseconds (the condition \<open>historyNeed\<close> checks too).
\<close>

definition times_ok :: "env \<Rightarrow> bool" where
  "times_ok e \<longleftrightarrow> (\<forall>s t. date_parse e s = Some t \<longrightarrow> \<bar>t\<bar> \<le> max_time)"

subsection \<open>The specification\<close>

definition int_of :: "jsval \<Rightarrow> int" where
  "int_of v = num_int (num_of v)"

definition amount_int :: "jsval \<Rightarrow> int" where
  "amount_int r = num_int (amount_num r)"

definition parsed_time :: "env \<Rightarrow> jsval \<Rightarrow> int option" where
  "parsed_time e r = date_parse e (json_text (or_else (timestamp_of r) (VStr [])))"

text \<open>The receipt's time is within the last \<open>w\<close> milliseconds before the evaluation.\<close>

definition in_time :: "env \<Rightarrow> eval_ctx \<Rightarrow> jsval \<Rightarrow> int \<Rightarrow> bool" where
  "in_time e x r w = (case parsed_time e r of None \<Rightarrow> False | Some t \<Rightarrow> at_ms x - w < t \<and> t \<le> at_ms x)"

definition millis :: "jsval \<Rightarrow> int" where
  "millis v = (if truthy v then duration_exact (str_of v) else 0)"

definition spend_allows :: "env \<Rightarrow> eval_ctx \<Rightarrow> jsval \<Rightarrow> bool" where
  "spend_allows e x c \<longleftrightarrow>
     (let asset = fld c (js ''asset''); cap = fld c (js ''max_per_action''); wcap = fld c (js ''max_per_window'');
          spent = filter (\<lambda>r. has_asset asset r \<and> in_time e x r (millis (fld c (js ''window'')))) (map snd (unique x)) in
      (has_asset asset (claimed x) \<longrightarrow> safe_amount (claimed x) \<and> (\<not> nullish cap \<longrightarrow> amount_int (claimed x) \<le> int_of cap)) \<and>
      (\<not> nullish wcap \<and> \<not> needs_all x c \<longrightarrow>
        (\<forall>r \<in> set spent. safe_amount r) \<and> (\<Sum>r\<leftarrow>spent. amount_int r) \<le> int_of wcap))"

definition rate_allows :: "env \<Rightarrow> eval_ctx \<Rightarrow> jsval \<Rightarrow> bool" where
  "rate_allows e x c \<longleftrightarrow>
     needs_all x c \<or>
     int (length (filter (\<lambda>r. listing c ''action_types'' (fld (intent_of r) (js ''action_type'')) \<and> in_time e x r (millis (fld c (js ''window''))))
       (map snd (unique x)))) \<le> int_of (fld c (js ''max_count''))"

definition approval_allows :: "eval_ctx \<Rightarrow> jsval \<Rightarrow> bool" where
  "approval_allows x c \<longleftrightarrow>
     (listing c ''action_types'' (x_action x) \<longrightarrow>
       (let a = fld (claimed x) (js ''approval'') in
        truthy a \<and> listing c ''approvers'' (fld a (js ''approver'')) \<and>
        strict_eq (fld a (js ''intent_hash'')) (fld (claimed x) (js ''intent_hash''))))"

text \<open>No earlier receipt of a first type lies closer before the evaluation than the longer of the two gaps.\<close>

definition sequence_allows :: "env \<Rightarrow> eval_ctx \<Rightarrow> jsval \<Rightarrow> bool" where
  "sequence_allows e x c \<longleftrightarrow>
     (listing c ''then_action_types'' (x_action x) \<longrightarrow>
       (\<forall>r t. (False, r) \<in> set (unique x) \<longrightarrow> listing c ''first_action_types'' (fld (intent_of r) (js ''action_type'')) \<longrightarrow>
          parsed_time e r = Some t \<longrightarrow> t \<le> at_ms x \<longrightarrow>
          max (millis (fld c (js ''min_gap''))) (millis (fld c (js ''forbidden_within''))) \<le> at_ms x - t))"

definition time_allows :: "eval_ctx \<Rightarrow> jsval \<Rightarrow> bool" where
  "time_allows x c \<longleftrightarrow>
     if_listed (fld c (js ''days'')) (\<lambda>ds. list_has ds (VStr (week_day (at_ms x)))) \<and>
     (let s = str_of (fld c (js ''start'')); t = str_of (fld c (js ''end'')); h = iso_hhmm (at_ms x) in
      (s \<le> t \<longrightarrow> s \<le> h \<and> h \<le> t) \<and> (\<not> s \<le> t \<longrightarrow> s \<le> h \<or> h \<le> t))"

definition endpoint_allows :: "env \<Rightarrow> eval_ctx \<Rightarrow> jsval \<Rightarrow> bool" where
  "endpoint_allows e x c \<longleftrightarrow>
     (let p = x_params x; path = or_else (fld p (js ''path'')) (VStr (js ''/'')) in
      nullish (fld p (js ''host'')) \<or>
      ((\<exists>dest. endpoint_destination e (fld p (js ''host'')) = Some dest \<and>
          arr_some (\<lambda>h. allowlist_entry_names e h dest) (elems (fld c (js ''hosts'')))) \<and>
       plain_path path \<and> if_listed (fld c (js ''paths'')) (arr_some (\<lambda>g. glob_hits g (path_text path))) \<and>
       if_listed (fld c (js ''methods'')) (\<lambda>ms. list_has ms (fld p (js ''method'')))))"

definition endpoint_not_denied :: "env \<Rightarrow> eval_ctx \<Rightarrow> jsval \<Rightarrow> bool" where
  "endpoint_not_denied e x c \<longleftrightarrow>
     (let p = x_params x; path = or_else (fld p (js ''path'')) (VStr (js ''/'')) in
      nullish (fld p (js ''host'')) \<or>
      (\<exists>dest. endpoint_destination e (fld p (js ''host'')) = Some dest \<and> plain_path path \<and>
         \<not> (arr_some (\<lambda>h. denylist_entry_covers e h dest) (elems (fld c (js ''hosts''))) \<and>
            if_listed (fld c (js ''paths'')) (arr_some (\<lambda>g. glob_hits g (path_text path))) \<and>
            if_listed (fld c (js ''methods'')) (\<lambda>ms. list_has ms (fld p (js ''method''))))))"

definition address_allows :: "eval_ctx \<Rightarrow> jsval \<Rightarrow> bool" where
  "address_allows x c \<longleftrightarrow>
     (let to' = fld (x_params x) (js ''to'') in
      \<not> nullish to' \<and> chain_ok c (x_params x) \<longrightarrow> listing c ''addresses'' to')"

definition address_not_denied :: "eval_ctx \<Rightarrow> jsval \<Rightarrow> bool" where
  "address_not_denied x c \<longleftrightarrow>
     (let to' = fld (x_params x) (js ''to'') in
      \<not> nullish to' \<and> chain_ok c (x_params x) \<longrightarrow> \<not> listing c ''addresses'' to')"

definition contract_allows :: "eval_ctx \<Rightarrow> jsval \<Rightarrow> bool" where
  "contract_allows x c \<longleftrightarrow>
     (let k = fld (x_params x) (js ''contract''); sel = fld (x_params x) (js ''selector'') in
      \<not> nullish k \<and> chain_ok c (x_params x) \<longrightarrow>
        listing c ''contracts'' k \<and> if_listed (fld c (js ''selectors'')) (\<lambda>ss. \<not> nullish sel \<and> list_has ss sel))"

text \<open>A parameter satisfies a bound: an array bound asks for an array whose elements satisfy it, all of them or any of them.\<close>

definition param_allows :: "env \<Rightarrow> jsval \<Rightarrow> jsval \<Rightarrow> bool" where
  "param_allows e val b \<longleftrightarrow>
     (let items = fld b (js ''items'') in
      if truthy items then
        (\<exists>xs. val = VArr xs \<and>
          (if fld b (js ''match'') = VStr (js ''any'') then \<exists>v \<in> set xs. v \<noteq> VHole \<and> element_satisfies_bound e v items
           else \<forall>v \<in> set xs. v \<noteq> VHole \<longrightarrow> element_satisfies_bound e v items))
      else element_satisfies_bound e val b)"

definition action_allows :: "env \<Rightarrow> eval_ctx \<Rightarrow> jsval \<Rightarrow> bool" where
  "action_allows e x c \<longleftrightarrow>
     (listing c ''action_types'' (x_action x) \<longrightarrow> \<not> truthy (fld c (js ''param_bounds'')) \<or> excepted e c (x_params x) \<or>
       (\<forall>(field, b) \<in> set (members (fld c (js ''param_bounds''))). param_allows e (jget (x_params x) field) b))"

definition key_allows :: "eval_ctx \<Rightarrow> jsval \<Rightarrow> bool" where
  "key_allows x c \<longleftrightarrow>
     (\<not> nullish (fld (x_intent x) (js ''signer'')) \<longrightarrow> listing c ''active_keys'' (fld (x_intent x) (js ''signer'')))"

text \<open>A push that forces or deletes does not reach a protected ref; one whose ref is unknown reaches every ref.\<close>

definition push_allows :: "eval_ctx \<Rightarrow> jsval \<Rightarrow> bool" where
  "push_allows x c \<longleftrightarrow>
     (let p = x_params x; set_flag = (\<lambda>k. fld p (js k) = VBool True);
          refs = (if elems (fld c (js ''protected_refs'')) \<noteq> [] then elems (fld c (js ''protected_refs'')) else default_refs) in
      x_action x = VStr (js ''git.push'') \<longrightarrow>
        \<not> (set_flag ''all'' \<and> set_flag ''force'') \<and>
        (set_flag ''force'' \<or> set_flag ''delete'' \<longrightarrow>
          (\<exists>s. fld p (js ''ref'') = VStr s \<and> \<not> arr_some (\<lambda>g. glob_hits g s) refs)))"

definition clause_allows :: "env \<Rightarrow> eval_ctx \<Rightarrow> jsval \<Rightarrow> bool" where
  "clause_allows e x c \<longleftrightarrow>
     (is_type c ''spend_limit'' \<longrightarrow> spend_allows e x c) \<and>
     (is_type c ''rate_limit'' \<longrightarrow> rate_allows e x c) \<and>
     (is_type c ''require_approval'' \<longrightarrow> approval_allows x c) \<and>
     (is_type c ''sequence'' \<longrightarrow> sequence_allows e x c) \<and>
     (is_type c ''time_window'' \<longrightarrow> time_allows x c) \<and>
     (is_type c ''endpoint_allowlist'' \<longrightarrow> endpoint_allows e x c) \<and>
     (is_type c ''endpoint_denylist'' \<longrightarrow> endpoint_not_denied e x c) \<and>
     (is_type c ''address_allowlist'' \<longrightarrow> address_allows x c) \<and>
     (is_type c ''address_denylist'' \<longrightarrow> address_not_denied x c) \<and>
     (is_type c ''contract_allowlist'' \<longrightarrow> contract_allows x c) \<and>
     (is_type c ''action_allowlist'' \<longrightarrow> action_allows e x c) \<and>
     (is_type c ''key_policy'' \<longrightarrow> key_allows x c) \<and>
     (is_type c ''force_push_guard'' \<longrightarrow> push_allows x c)"

text \<open>The action is permitted: some action allowlist lists it (when there is any), some clause covers it, and every clause allows it.\<close>

definition permitted :: "env \<Rightarrow> eval_ctx \<Rightarrow> jsval \<Rightarrow> bool" where
  "permitted e x policy \<longleftrightarrow>
     (let cs = clauses_of policy in
      ((\<exists>c \<in> set cs. is_type c ''action_allowlist'') \<longrightarrow>
        (\<exists>c \<in> set cs. is_type c ''action_allowlist'' \<and> listing c ''action_types'' (x_action x))) \<and>
      (\<exists>c \<in> set cs. covers x c) \<and>
      (\<forall>c \<in> set cs. clause_allows e x c))"

subsection \<open>Clause by clause\<close>

definition is_match :: "clause_result \<Rightarrow> bool" where
  "is_match r \<longleftrightarrow> (case r of Match _ _ \<Rightarrow> True | _ \<Rightarrow> False)"

lemma is_match_simps [simp]: "\<not> is_match Pass" "\<not> is_match Undet" "is_match (Match t b)"
  by (simp_all add: is_match_def)

lemma not_match_Pass: "r \<noteq> Undet \<Longrightarrow> \<not> is_match r \<longleftrightarrow> r = Pass"
  by (cases r) auto

definition durations_safe :: "jsval \<Rightarrow> bool" where
  "durations_safe c \<longleftrightarrow> millis (fld c (js ''window'')) \<le> max_safe \<and> millis (fld c (js ''min_gap'')) \<le> max_safe \<and>
     millis (fld c (js ''forbidden_within'')) \<le> max_safe"

definition ctx_ok :: "env \<Rightarrow> eval_ctx \<Rightarrow> bool" where
  "ctx_ok e x \<longleftrightarrow> (\<forall>r \<in> insert (claimed x) (snd ` set (unique x)). valid (validate_intent (intent_of r)))"

lemma valid_amount: "valid (validate_intent i) \<Longrightarrow> \<not> nullish (fld i (js ''amount'')) \<Longrightarrow> safe_nat (fld i (js ''amount''))"
  using fld_nullish [of i "js ''amount''"]
  by (auto simp: validate_intent_def validate_action_def Let_def err_if_def intro!: range_safe_nat split: if_splits)

lemma amount_exact:
  assumes "valid (validate_intent (intent_of r))"
  shows "amount_num r = jint (amount_int r)" "0 \<le> amount_int r" "amount_int r \<le> max_safe"
proof -
  have "\<exists>i. amount_num r = jint i \<and> 0 \<le> i \<and> i \<le> max_safe"
  proof (cases "nullish (fld (intent_of r) (js ''amount''))")
    case True
    then show ?thesis by (intro exI [of _ 0]) (simp add: amount_num_def or_else_def num_of_def jint_def max_safe_def)
  next
    case False
    with valid_amount [OF assms] show ?thesis by (auto simp: safe_nat_def amount_num_def or_else_def num_of_def)
  qed
  then show "amount_num r = jint (amount_int r)" "0 \<le> amount_int r" "amount_int r \<le> max_safe"
    by (auto simp: amount_int_def num_int_def jint_def)
qed

lemma ms_parsed: "ms e (timestamp_of r) = (case parsed_time e r of None \<Rightarrow> NaN | Some t \<Rightarrow> jint t)"
  by (simp add: ms_def parsed_time_def)

lemma parsed_range: "times_ok e \<Longrightarrow> parsed_time e r = Some t \<Longrightarrow> \<bar>t\<bar> \<le> max_time"
  by (auto simp: times_ok_def parsed_time_def)

lemma jint_not_NaN [simp]: "jint i \<noteq> NaN" "NaN \<noteq> jint i"
  by (simp_all add: jint_def)

lemma jsub_NaN [simp]: "jsub a NaN = NaN"
  by (cases a) (simp_all add: jsub_def)

lemma jint_zero: "Fin 0 = jint 0"
  by (simp add: jint_def)

lemma in_window_exact: "times_ok e \<Longrightarrow> in_window e x r (jint w) \<longleftrightarrow> in_time e x r w"
  using parsed_range [of e r]
  by (auto simp: in_window_def in_time_def ms_parsed Let_def window_start_exact jle_def split: option.splits)

lemma duration_of_exact:
  "duration_string v \<Longrightarrow> millis v \<le> max_safe \<Longrightarrow> duration_of v = Inr (jint (millis v))"
proof -
  assume "duration_string v" and m: "millis v \<le> max_safe"
  then obtain s where s: "v = VStr s" "duration_re s" by (auto simp: duration_string_def)
  then have "s \<noteq> []" by (auto simp: duration_re_def)
  with s have "millis v = duration_exact s" by (simp add: millis_def str_of_def)
  with s m duration_exact_ms [of s] show ?thesis by (simp add: duration_of_def str_of_def)
qed

lemma opt_duration_exact:
  "(truthy v \<Longrightarrow> duration_string v) \<Longrightarrow> millis v \<le> max_safe \<Longrightarrow> opt_duration v = Inr (jint (millis v))"
  using duration_of_exact [of v] by (auto simp: opt_duration_def) (simp add: millis_def jint_def)

lemma millis_nonneg: "0 \<le> millis v"
  by (simp add: millis_def duration_nonneg)

lemma safe_nat_int: "safe_nat v \<Longrightarrow> num_of v = jint (int_of v) \<and> 0 \<le> int_of v \<and> int_of v \<le> max_safe"
  by (auto simp: safe_nat_def num_of_def int_of_def num_int_def jint_def)

lemma spend_total:
  assumes "\<forall>r \<in> set rs. valid (validate_intent (intent_of r))" "safe_nat v"
  shows "jlt (num_of v) (foldl (\<lambda>s r. jadd s (amount_num r)) (Fin 0) rs) \<longleftrightarrow> int_of v < (\<Sum>r\<leftarrow>rs. amount_int r)"
proof -
  have "foldl (\<lambda>s r. jadd s (amount_num r)) acc rs = foldl (\<lambda>t a. jadd t (jint a)) acc (map amount_int rs)" for acc
    using assms(1) by (induction rs arbitrary: acc) (simp_all add: amount_exact(1))
  moreover have "\<forall>a \<in> set (map amount_int rs). 0 \<le> a" using assms(1) amount_exact(2) by auto
  ultimately show ?thesis
    using total_exceeds [of "map amount_int rs" "int_of v"] safe_nat_int [OF assms(2)] by (simp add: jint_def)
qed

lemma spend_limit_iff:
  assumes ok: "clause_ok c" "is_type c ''spend_limit''" and safe: "durations_safe c" and t: "times_ok e" and x: "ctx_ok e x"
  shows "\<exists>r. eval_spend_limit e x c = Inr r \<and> (is_match r \<longleftrightarrow> \<not> spend_allows e x c)"
proof -
  note f = spend_limit_fields [OF ok]
  have vc: "valid (validate_intent (intent_of (claimed x)))" using x by (simp add: ctx_ok_def)
  have vr: "\<forall>r \<in> set (filter P (map snd (unique x))). valid (validate_intent (intent_of r))" for P
    using x by (auto simp: ctx_ok_def)
  define cap where "cap = fld c (js ''max_per_action'')"
  define wcap where "wcap = fld c (js ''max_per_window'')"
  define own where "own = has_asset (fld c (js ''asset'')) (claimed x)"
  have cap: "\<not> nullish cap \<Longrightarrow> jlt (num_of cap) (if own then amount_num (claimed x) else Fin 0) \<longleftrightarrow> own \<and> int_of cap < amount_int (claimed x)"
    using safe_nat_int [of cap] f(2) amount_exact [OF vc] by (auto simp: cap_def jint_zero)
  show ?thesis
  proof (cases "nullish wcap")
    case True
    then show ?thesis using cap
      by (cases "nullish cap"; cases own)
        (auto simp: eval_spend_limit_def spend_allows_def Let_def own_def [symmetric] cap_def [symmetric] wcap_def [symmetric])
  next
    case False
    with f(3) have w: "safe_nat wcap" "duration_string (fld c (js ''window''))" by (simp_all add: wcap_def)
    then have d: "duration_of (fld c (js ''window'')) = Inr (jint (millis (fld c (js ''window''))))"
      using safe by (intro duration_of_exact) (simp_all add: durations_safe_def)
    define rel where "rel = filter (\<lambda>r. has_asset (fld c (js ''asset'')) r \<and> in_time e x r (millis (fld c (js ''window'')))) (map snd (unique x))"
    have sum: "jlt (num_of wcap) (foldl (\<lambda>s r. jadd s (amount_num r)) (Fin 0) rel) \<longleftrightarrow> int_of wcap < (\<Sum>r\<leftarrow>rel. amount_int r)"
      using vr w(1) unfolding rel_def by (intro spend_total) blast+
    show ?thesis using False cap sum
      by (cases "nullish cap"; cases own)
        (auto simp: eval_spend_limit_def spend_allows_def Let_def d in_window_exact [OF t] rel_def [symmetric] own_def [symmetric] cap_def [symmetric]
          wcap_def [symmetric] list_all_iff)
  qed
qed

lemma rate_limit_iff:
  assumes ok: "clause_ok c" "is_type c ''rate_limit''" and safe: "durations_safe c" and t: "times_ok e"
  shows "\<exists>r. eval_rate_limit e x c = Inr r \<and> (is_match r \<longleftrightarrow> \<not> rate_allows e x c)"
proof -
  note f = rate_limit_fields [OF ok]
  have d: "duration_of (fld c (js ''window'')) = Inr (jint (millis (fld c (js ''window''))))"
    using safe f(2) by (intro duration_of_exact) (simp_all add: durations_safe_def)
  show ?thesis using safe_nat_int [OF f(1)]
    by (auto simp: eval_rate_limit_def rate_allows_def Let_def d in_window_exact [OF t])
qed

lemma sequence_iff:
  assumes ok: "clause_ok c" "is_type c ''sequence''" and safe: "durations_safe c" and t: "times_ok e"
  shows "\<exists>r. eval_sequence e x c = Inr r \<and> (is_match r \<longleftrightarrow> \<not> sequence_allows e x c)"
proof -
  note f = sequence_fields [OF ok]
  define mg where "mg = millis (fld c (js ''min_gap''))"
  define fw where "fw = millis (fld c (js ''forbidden_within''))"
  have d: "opt_duration (fld c (js ''min_gap'')) = Inr (jint mg)" "opt_duration (fld c (js ''forbidden_within'')) = Inr (jint fw)"
    using safe f unfolding mg_def fw_def by (auto simp: durations_safe_def intro!: opt_duration_exact)
  have g: "0 \<le> max mg fw" "max mg fw \<le> max_safe" using safe millis_nonneg by (auto simp: durations_safe_def mg_def fw_def max.coboundedI1)
  have z: "max mg fw = 0" if "\<not> (truthy (fld c (js ''min_gap'')) \<or> truthy (fld c (js ''forbidden_within'')))"
    using that by (simp add: mg_def fw_def millis_def)
  define gap where "gap = max mg fw"
  have near: "(let u = ms e (timestamp_of r) in jlt (jsub (jint (at_ms x)) u) (jint gap) \<and> jle u (jint (at_ms x)))
      \<longleftrightarrow> (\<exists>u. parsed_time e r = Some u \<and> u \<le> at_ms x \<and> at_ms x - u < gap)" for r
    using g unfolding gap_def [symmetric] by (cases "parsed_time e r") (auto simp: ms_parsed Let_def gap_exact jle_def jsub_NaN)
  show ?thesis
    unfolding eval_sequence_def sequence_allows_def Let_def d rbind_simps jmax_jint mg_def [symmetric] fw_def [symmetric] gap_def [symmetric]
    using z [folded gap_def] near [unfolded Let_def]
    by (cases "truthy (fld c (js ''min_gap'')) \<or> truthy (fld c (js ''forbidden_within''))")
      (auto simp: list_ex_iff not_le)
qed

lemma approval_iff: "is_match (eval_require_approval x c) \<longleftrightarrow> \<not> approval_allows x c"
  by (auto simp: eval_require_approval_def approval_allows_def Let_def)

lemma time_window_iff: "is_match (eval_time_window x c) \<longleftrightarrow> \<not> time_allows x c"
  by (auto simp: eval_time_window_def time_allows_def Let_def)

lemma endpoint_allowlist_iff: "is_match (eval_endpoint_allowlist e x c) \<longleftrightarrow> \<not> endpoint_allows e x c"
  by (auto simp: eval_endpoint_allowlist_def endpoint_allows_def Let_def split: option.splits)

lemma endpoint_denylist_iff: "is_match (eval_endpoint_denylist e x c) \<longleftrightarrow> \<not> endpoint_not_denied e x c"
  by (auto simp: eval_endpoint_denylist_def endpoint_not_denied_def denylist_denial_def Let_def split: option.splits)

lemma address_allowlist_iff: "is_match (eval_address_allowlist x c) \<longleftrightarrow> \<not> address_allows x c"
  by (auto simp: eval_address_allowlist_def address_allows_def Let_def)

lemma address_denylist_iff: "is_match (eval_address_denylist x c) \<longleftrightarrow> \<not> address_not_denied x c"
  by (auto simp: eval_address_denylist_def address_not_denied_def Let_def)

lemma contract_allowlist_iff: "is_match (eval_contract_allowlist x c) \<longleftrightarrow> \<not> contract_allows x c"
  by (auto simp: eval_contract_allowlist_def contract_allows_def Let_def)

lemma check_bound_iff: "is_match (check_bound e p field b) \<longleftrightarrow> \<not> param_allows e (jget p field) b"
proof (cases "truthy (fld b (js ''items''))")
  case True
  then show ?thesis
    by (cases "jget p field")
      (auto simp: check_bound_def param_allows_def Let_def arr_some_def arr_every_def list_ex_iff list_all_iff)
next
  case False
  then show ?thesis
    by (auto simp: check_bound_def param_allows_def element_satisfies_bound_def Let_def)
qed

lemma check_bounds_iff: "is_match (check_bounds e p bs) \<longleftrightarrow> \<not> (\<forall>(field, b) \<in> set bs. param_allows e (jget p field) b)"
proof (induction bs)
  case (Cons fb bs)
  obtain field b where fb: "fb = (field, b)" by (cases fb)
  show ?case using Cons check_bound_iff [of e p field b] by (cases "check_bound e p field b") (auto simp: fb)
qed simp

lemma action_allowlist_iff: "is_match (eval_action_allowlist e x c) \<longleftrightarrow> \<not> action_allows e x c"
  by (auto simp: eval_action_allowlist_def action_allows_def check_bounds_iff)

lemma key_policy_iff: "is_match (eval_key_policy x c) \<longleftrightarrow> \<not> key_allows x c"
  by (auto simp: eval_key_policy_def key_allows_def Let_def)

lemma force_push_iff: "is_match (eval_force_push_guard x c) \<longleftrightarrow> \<not> push_allows x c"
  by (auto simp: eval_force_push_guard_def push_allows_def Let_def str_opt_def split: jsval.splits option.splits)

lemma eval_clause_iff:
  assumes ok: "clause_ok c" and safe: "durations_safe c" and t: "times_ok e" and x: "ctx_ok e x"
  shows "\<exists>r. eval_clause e x c = Inr r \<and> (is_match r \<longleftrightarrow> \<not> clause_allows e x c)"
proof -
  obtain t' where ty: "fld c (js ''type'') = VStr t'" using ok by (auto simp: clause_ok_def)
  have ty2: "is_type c s \<longleftrightarrow> t' = js s" for s by (auto simp: is_type_def ty)
  note iffs = approval_iff time_window_iff endpoint_allowlist_iff endpoint_denylist_iff address_allowlist_iff address_denylist_iff
    contract_allowlist_iff action_allowlist_iff key_policy_iff force_push_iff
  consider "t' = js ''spend_limit''" | "t' = js ''rate_limit''" | "t' = js ''sequence''"
    | "t' \<noteq> js ''spend_limit''" "t' \<noteq> js ''rate_limit''" "t' \<noteq> js ''sequence''" by blast
  then show ?thesis
  proof cases
    case 1
    with spend_limit_iff [OF ok _ safe t x] show ?thesis by (simp add: eval_clause_def clause_allows_def Let_def ty2 ty)
  next
    case 2
    with rate_limit_iff [OF ok _ safe t] show ?thesis by (simp add: eval_clause_def clause_allows_def Let_def ty2 ty)
  next
    case 3
    with sequence_iff [OF ok _ safe t] show ?thesis by (simp add: eval_clause_def clause_allows_def Let_def ty2 ty)
  next
    case 4
    then show ?thesis by (auto simp: eval_clause_def clause_allows_def Let_def ty2 ty iffs)
  qed
qed

subsection \<open>The whole evaluation\<close>

lemma clause_findings_iff:
  assumes "\<forall>c \<in> set cs. \<exists>r. eval_clause e x c = Inr r \<and> (is_match r \<longleftrightarrow> \<not> clause_allows e x c)"
  shows "\<exists>fs und. clause_findings e x i cs = Inr (fs, und) \<and> (fs = [] \<longleftrightarrow> (\<forall>c \<in> set cs. clause_allows e x c))"
  using assms
proof (induction cs arbitrary: i)
  case (Cons c cs)
  from Cons.prems obtain r where r: "eval_clause e x c = Inr r" "is_match r \<longleftrightarrow> \<not> clause_allows e x c" by auto
  have "\<forall>c \<in> set cs. \<exists>r. eval_clause e x c = Inr r \<and> (is_match r \<longleftrightarrow> \<not> clause_allows e x c)" using Cons.prems by simp
  from Cons.IH [OF this, of "Suc i"] obtain fs und where f: "clause_findings e x (Suc i) cs = Inr (fs, und)"
    "fs = [] \<longleftrightarrow> (\<forall>c \<in> set cs. clause_allows e x c)"
    by blast
  from r f show ?case by (cases r) auto
qed simp

lemma allowlist_findings_Nil:
  "allowlist_findings x cs = [] \<longleftrightarrow>
     ((\<exists>c \<in> set cs. is_type c ''action_allowlist'') \<longrightarrow> (\<exists>c \<in> set cs. is_type c ''action_allowlist'' \<and> listing c ''action_types'' (x_action x)))"
proof -
  define als where "als = filter (\<lambda>(i, c). is_type c ''action_allowlist'') (enumerate 0 cs)"
  have snds: "snd ` set (enumerate 0 cs) = set cs" using arg_cong [OF map_snd_enumerate [of 0 cs], of set] by (simp only: set_map)
  have "set als = {p \<in> set (enumerate 0 cs). is_type (snd p) ''action_allowlist''}" by (auto simp: als_def)
  then have als: "snd ` set als = {c \<in> set cs. is_type c ''action_allowlist''}" unfolding snds [symmetric] by auto
  have "allowlist_findings x cs = [] \<longleftrightarrow> als = [] \<or> (\<exists>p \<in> set als. listing (snd p) ''action_types'' (x_action x))"
    by (auto simp: allowlist_findings_def Let_def als_def [symmetric] list_ex_iff split_beta)
  also have "\<dots> \<longleftrightarrow> snd ` set als = {} \<or> (\<exists>c \<in> snd ` set als. listing c ''action_types'' (x_action x))" by auto
  finally show ?thesis unfolding als by blast
qed

lemma executed_unique_mem: "(b, r) \<in> set (executed_unique rs c) \<Longrightarrow> r \<in> set rs \<union> {c} \<and> executed_of r"
proof -
  assume "(b, r) \<in> set (executed_unique rs c)"
  then obtain k where "(k, (b, r)) \<in> set (omap_of_list (map (\<lambda>(b, r). (occurrence r, (b, r)))
      (filter (\<lambda>(b, r). executed_of r) (map (Pair False) rs @ [(True, c)]))))"
    by (auto simp: executed_unique_def)
  then have "(k, (b, r)) \<in> set (map (\<lambda>(b, r). (occurrence r, (b, r))) (filter (\<lambda>(b, r). executed_of r) (map (Pair False) rs @ [(True, c)])))"
    by (auto simp: set_omap_of_list dest: map_of_SomeD)
  then show ?thesis by (auto split: if_splits)
qed

lemma decide_violated [simp]: "violated (decide h fs und) \<longleftrightarrow> fs \<noteq> []"
  by (auto simp: decide_def mk_verdict_def Let_def split: option.splits)

text \<open>The context the evaluation builds for a claimed action.\<close>

definition context_of :: "env \<Rightarrow> jsval \<Rightarrow> jsval \<Rightarrow> options \<Rightarrow> eval_ctx" where
  "context_of e receipts claim opts =
     \<lparr> claimed = norm claim, unique = executed_unique (map norm (elems receipts)) (norm claim),
       at_ms = num_int (eval_at e (norm claim) opts), incomplete = (opt_complete opts = Some False) \<rparr>"

text \<open>The inputs are well formed: the policy and the action validate, the evaluation has a time, every executed prior receipt is valid.\<close>

definition inputs_ok :: "env \<Rightarrow> jsval \<Rightarrow> jsval \<Rightarrow> jsval \<Rightarrow> options \<Rightarrow> bool" where
  "inputs_ok e policy receipts claim opts \<longleftrightarrow>
     accepted e policy \<and> valid (validate_intent (intent_of (norm claim))) \<and>
     is_finite_num (eval_at e (norm claim) opts) \<and> list_all (prior_ok e) (map norm (elems receipts))"

lemma context_ctx_ok: "inputs_ok e policy receipts claim opts \<Longrightarrow> ctx_ok e (context_of e receipts claim opts)"
  by (auto simp: ctx_ok_def context_of_def inputs_ok_def prior_ok_def list_all_iff dest!: executed_unique_mem)

lemma violates_evaluate:
  assumes "inputs_ok e policy receipts claim opts" "executed_of (norm claim)"
  shows "\<exists>h. violates e policy receipts claim opts = evaluate e policy (context_of e receipts claim opts) h"
proof -
  from assms(1) obtain pv where "validate_policy e policy = Inr pv" "valid pv"
    by (auto simp: inputs_ok_def accepted_def split: sum.splits)
  with assms show ?thesis
    by (auto simp: violates_def inputs_ok_def context_of_def Let_def)
qed

lemma evaluate_iff:
  assumes "accepted e policy" "\<forall>c \<in> set (clauses_of policy). durations_safe c" "times_ok e" "ctx_ok e x"
  shows "\<exists>v. evaluate e policy x h = Inr v \<and> (violated v \<longleftrightarrow> \<not> permitted e x policy)"
proof -
  have "\<forall>c \<in> set (clauses_of policy). \<exists>r. eval_clause e x c = Inr r \<and> (is_match r \<longleftrightarrow> \<not> clause_allows e x c)"
    using accepted_clause [OF assms(1)] assms(2-4) eval_clause_iff by blast
  from clause_findings_iff [OF this, of 0] obtain fs und where
    "clause_findings e x 0 (clauses_of policy) = Inr (fs, und)" "fs = [] \<longleftrightarrow> (\<forall>c \<in> set (clauses_of policy). clause_allows e x c)"
    by blast
  then show ?thesis
    by (auto simp: evaluate_def permitted_def Let_def allowlist_findings_Nil uncovered_findings_def list_ex_iff)
qed

end
