(* ===== verification/VerdictProps.thy ===== *)
theory VerdictProps
  imports ViolatesFacts
begin

section \<open>Properties of the verdict\<close>

text \<open>
  The claims about \<open>violates\<close> as a whole: it decides the specification of \<open>ViolatesFacts\<close>, throws only when policy
  validation throws, names the clause that comes first by mode and place, and ignores receipts of actions that
  were not executed. The last part is about the table of clause validators, which a clause type from the document indexes.
\<close>

subsection \<open>Which clause is named\<close>

lemma finding_le_key: "finding_le a b \<longleftrightarrow> (3 - priority (f_mode a), f_order a) \<le> (3 - priority (f_mode b), f_order b)"
  by (cases "f_mode a"; cases "f_mode b") (auto simp: finding_le_def)

lemma finding_le_preorder: "total_preorder finding_le"
proof -
  have "finding_le = (\<lambda>(a :: finding) b. (3 - priority (f_mode a), f_order a) \<le> (3 - priority (f_mode b), f_order b))"
    by (intro ext) (rule finding_le_key)
  then have "total_preorder finding_le = total_preorder (\<lambda>(a :: finding) b. (3 - priority (f_mode a), f_order a) \<le> (3 - priority (f_mode b), f_order b))"
    by (rule arg_cong)
  then show ?thesis by (simp only: total_preorder_key)
qed

lemma clause_findings_Cons:
  assumes "clause_findings e x i (c # cs) = Inr (fs, und)"
  obtains r fs' und' where "eval_clause e x c = Inr r" "clause_findings e x (Suc i) cs = Inr (fs', und')"
    "fs = (case r of Match t b \<Rightarrow> record_of c i t b # fs' | _ \<Rightarrow> fs')"
    "und = (case r of Undet \<Rightarrow> (case und' of None \<Rightarrow> Some (str_of (fld c (js ''id''))) | Some u \<Rightarrow> Some u) | _ \<Rightarrow> und')"
proof (cases "eval_clause e x c")
  case r: (Inr r)
  with assms obtain fs' und' where p: "clause_findings e x (Suc i) cs = Inr (fs', und')"
    by (cases "clause_findings e x (Suc i) cs") auto
  show thesis by (rule that [OF r p]) (use assms r p in \<open>cases r; simp\<close>)+
qed (use assms in simp)

lemma ex_less_Suc: "(\<exists>j. j < Suc n \<and> P j) \<longleftrightarrow> P 0 \<or> (\<exists>j. j < n \<and> P (Suc j))"
  using less_Suc_eq_0_disj [of _ n] by auto

lemma clause_findings_mem:
  "clause_findings e x i cs = Inr (fs, und) \<Longrightarrow>
     f \<in> set fs \<longleftrightarrow> (\<exists>j. j < length cs \<and> (\<exists>t b. eval_clause e x (cs ! j) = Inr (Match t b) \<and> f = record_of (cs ! j) (i + j) t b))"
proof (induction cs arbitrary: i fs und)
  case (Cons c cs)
  from Cons.prems obtain r fs' und' where r: "eval_clause e x c = Inr r" "clause_findings e x (Suc i) cs = Inr (fs', und')"
    "fs = (case r of Match t b \<Rightarrow> record_of c i t b # fs' | _ \<Rightarrow> fs')"
    by (rule clause_findings_Cons)
  note ih = Cons.IH [OF r(2)]
  have "f \<in> set fs \<longleftrightarrow> (\<exists>t b. eval_clause e x c = Inr (Match t b) \<and> f = record_of c i t b) \<or> f \<in> set fs'"
    using r(1,3) by (cases r) auto
  then show ?case unfolding ih length_Cons ex_less_Suc by simp
qed simp

text \<open>Clause \<open>i\<close> of the policy has a finding: its own evaluation matches, or it is an action allowlist and none of them lists the action.\<close>

definition unlisted :: "eval_ctx \<Rightarrow> jsval list \<Rightarrow> bool" where
  "unlisted x cs \<longleftrightarrow> \<not> (\<exists>c \<in> set cs. is_type c ''action_allowlist'' \<and> listing c ''action_types'' (x_action x))"

definition reported :: "env \<Rightarrow> eval_ctx \<Rightarrow> jsval list \<Rightarrow> nat \<Rightarrow> bool" where
  "reported e x cs i \<longleftrightarrow> i < length cs \<and>
     ((\<exists>t b. eval_clause e x (cs ! i) = Inr (Match t b)) \<or> (is_type (cs ! i) ''action_allowlist'' \<and> unlisted x cs))"

lemma allowlist_findings_mem:
  "f \<in> set (allowlist_findings x cs) \<longleftrightarrow> unlisted x cs \<and> (\<exists>i. i < length cs \<and> is_type (cs ! i) ''action_allowlist'' \<and>
     f = record_of (cs ! i) i (js ''action type '' @ json_text (x_action x) @ js '' is not allowlisted'') (js ''action_type:action_types''))"
proof -
  define als where "als = filter (\<lambda>(i, c). is_type c ''action_allowlist'') (enumerate 0 cs)"
  have als: "(i, c) \<in> set als \<longleftrightarrow> i < length cs \<and> cs ! i = c \<and> is_type c ''action_allowlist''" for i c
    by (auto simp: als_def in_set_enumerate_eq)
  have unl: "unlisted x cs \<longleftrightarrow> \<not> list_ex (\<lambda>(i, c). listing c ''action_types'' (x_action x)) als"
  proof -
    have "list_ex (\<lambda>(i, c). listing c ''action_types'' (x_action x)) als \<longleftrightarrow> (\<exists>i c. (i, c) \<in> set als \<and> listing c ''action_types'' (x_action x))"
      by (auto simp: list_ex_iff)
    also have "\<dots> \<longleftrightarrow> (\<exists>i < length cs. is_type (cs ! i) ''action_allowlist'' \<and> listing (cs ! i) ''action_types'' (x_action x))"
      by (auto simp: als)
    also have "\<dots> \<longleftrightarrow> list_ex (\<lambda>c. is_type c ''action_allowlist'' \<and> listing c ''action_types'' (x_action x)) cs"
      by (auto simp: list_ex_length)
    finally show ?thesis by (simp add: unlisted_def list_ex_iff)
  qed
  have "allowlist_findings x cs = (if als \<noteq> [] \<and> unlisted x cs then
      map (\<lambda>(i, c). record_of c i (js ''action type '' @ json_text (x_action x) @ js '' is not allowlisted'') (js ''action_type:action_types'')) als else [])"
    by (simp add: allowlist_findings_def Let_def als_def [symmetric] unl)
  then have "f \<in> set (allowlist_findings x cs) \<longleftrightarrow> unlisted x cs \<and> (\<exists>i c. (i, c) \<in> set als \<and>
      f = record_of c i (js ''action type '' @ json_text (x_action x) @ js '' is not allowlisted'') (js ''action_type:action_types''))"
    by (cases als) (auto simp: image_iff)
  then show ?thesis unfolding als by blast
qed

text \<open>All findings of an evaluation.\<close>

definition all_findings :: "eval_ctx \<Rightarrow> jsval list \<Rightarrow> finding list \<Rightarrow> finding list" where
  "all_findings x cs fs = allowlist_findings x cs @ uncovered_findings x cs @ fs"

lemma reported_finding:
  assumes "clause_findings e x 0 cs = Inr (fs, und)" "reported e x cs i"
  shows "\<exists>t b. record_of (cs ! i) i t b \<in> set (all_findings x cs fs)"
proof -
  from assms(2) consider t b where "i < length cs" "eval_clause e x (cs ! i) = Inr (Match t b)"
    | "i < length cs" "is_type (cs ! i) ''action_allowlist''" "unlisted x cs" by (auto simp: reported_def)
  then show ?thesis
  proof cases
    case (1 t b)
    then have "record_of (cs ! i) (0 + i) t b \<in> set fs" unfolding clause_findings_mem [OF assms(1)] by blast
    then show ?thesis by (auto simp: all_findings_def)
  next
    case 2
    then show ?thesis unfolding all_findings_def set_append Un_iff allowlist_findings_mem by blast
  qed
qed

lemma finding_reported:
  assumes "clause_findings e x 0 cs = Inr (fs, und)" "f \<in> set (all_findings x cs fs)"
  shows "f_clause f = None \<and> f \<in> set (uncovered_findings x cs) \<or> (\<exists>i t b. reported e x cs i \<and> f = record_of (cs ! i) i t b)"
  using assms clause_findings_mem [OF assms(1), of f]
  by (auto simp: reported_def all_findings_def allowlist_findings_mem) (auto simp: uncovered_findings_def split: if_splits)

lemma record_of_sel [simp]:
  "f_clause (record_of c i t b) = Some (str_of (fld c (js ''id'')))" "f_mode (record_of c i t b) = clause_mode c"
  "f_order (record_of c i t b) = int i"
  by (simp_all add: record_of_def)

lemma decide_clause: "fs \<noteq> [] \<Longrightarrow> clause_id (decide h fs und) = f_clause (hd (js_sort finding_le fs))"
  by (simp add: decide_def mk_verdict_def Let_def)

lemma decide_first:
  assumes "clause_findings e x 0 cs = Inr (fs, und)" "all_findings x cs fs \<noteq> []"
    "clause_id (decide h (all_findings x cs fs) und) = Some cid"
  shows "\<exists>i. reported e x cs i \<and> str_of (fld (cs ! i) (js ''id'')) = cid \<and>
    (\<forall>j. reported e x cs j \<longrightarrow> priority (clause_mode (cs ! j)) < priority (clause_mode (cs ! i)) \<or>
       (priority (clause_mode (cs ! j)) = priority (clause_mode (cs ! i)) \<and> i \<le> j))"
proof -
  define f where "f = hd (js_sort finding_le (all_findings x cs fs))"
  have f: "f \<in> set (all_findings x cs fs)" unfolding f_def by (rule jss.sort_hd_mem [OF assms(2)])
  have c: "f_clause f = Some cid" using assms(2,3) by (simp add: decide_clause f_def)
  from finding_reported [OF assms(1) f] c obtain i t b where i: "reported e x cs i" "f = record_of (cs ! i) i t b" by auto
  have "priority (clause_mode (cs ! j)) < priority (clause_mode (cs ! i)) \<or>
       (priority (clause_mode (cs ! j)) = priority (clause_mode (cs ! i)) \<and> i \<le> j)" if j: "reported e x cs j" for j
  proof -
    from reported_finding [OF assms(1) j] obtain t' b' where "record_of (cs ! j) j t' b' \<in> set (all_findings x cs fs)" by blast
    then have "finding_le f (record_of (cs ! j) j t' b')" unfolding f_def by (rule jss.sort_hd_least [OF finding_le_preorder])
    then show ?thesis using i(2) by (auto simp: finding_le_def)
  qed
  with i c show ?thesis by auto
qed

lemma evaluate_decide:
  "evaluate e policy x h = Inr v \<Longrightarrow>
     \<exists>fs und. clause_findings e x 0 (clauses_of policy) = Inr (fs, und) \<and> v = decide h (all_findings x (clauses_of policy) fs) und"
  by (auto simp: evaluate_def all_findings_def rbind_Inr_iff split: prod.splits)

subsection \<open>The properties\<close>

lemma violates_decides:
  assumes "times_ok e" "inputs_ok e policy receipts claim opts" "executed_of (norm claim)"
    and "\<forall>c \<in> set (clauses_of policy). durations_safe c"
  shows "\<exists>v. violates e policy receipts claim opts = Inr v \<and>
    (violated v \<longleftrightarrow> \<not> permitted e (context_of e receipts claim opts) policy)"
proof -
  from violates_evaluate [OF assms(2,3)] obtain h where
    h: "violates e policy receipts claim opts = evaluate e policy (context_of e receipts claim opts) h" by blast
  have "accepted e policy" using assms(2) by (simp add: inputs_ok_def)
  from evaluate_iff [OF this assms(4,1) context_ctx_ok [OF assms(2)]] h show ?thesis by simp
qed

text \<open>C1: on well-formed inputs \<open>violates\<close> returns a verdict, and it is \<open>violated\<close> exactly when the action is not permitted:
  some action allowlist must list it when there is one, some clause must cover it, and every clause must allow it, in the sense of
  the specification (exact sums and counts over the unique executed receipts of the window, exact gaps, bounds on every parameter).\<close>

theorem violates_correct:
  assumes "times_ok e" "inputs_ok e policy receipts claim opts" "executed_of (norm claim)"
    and "\<forall>c \<in> set (clauses_of policy). durations_safe c"
  shows "\<exists>v. violates e policy receipts claim opts = Inr v \<and>
    (violated v \<longleftrightarrow> \<not> permitted e (context_of e receipts claim opts) policy)"
  by (rule violates_decides [OF assms])


text \<open>A verdict that names a clause names the one that comes first: the clause is reported by the evaluation, and every other
  reported clause has a mode of lower priority (enforce, then require_approval, then monitor), or the same and a later place.\<close>

theorem verdict_names_first:
  assumes "inputs_ok e policy receipts claim opts" "executed_of (norm claim)"
    and "violates e policy receipts claim opts = Inr v" "violated v" "clause_id v = Some cid"
  shows "\<exists>i. reported e (context_of e receipts claim opts) (clauses_of policy) i \<and> str_of (fld (clauses_of policy ! i) (js ''id'')) = cid \<and>
    (\<forall>j. reported e (context_of e receipts claim opts) (clauses_of policy) j \<longrightarrow>
       priority (clause_mode (clauses_of policy ! j)) < priority (clause_mode (clauses_of policy ! i)) \<or>
       (priority (clause_mode (clauses_of policy ! j)) = priority (clause_mode (clauses_of policy ! i)) \<and> i \<le> j))"
proof -
  from violates_evaluate [OF assms(1,2)] assms(3) obtain h where
    "evaluate e policy (context_of e receipts claim opts) h = Inr v" by auto
  from evaluate_decide [OF this] obtain fs und where
    fs: "clause_findings e (context_of e receipts claim opts) 0 (clauses_of policy) = Inr (fs, und)"
    "v = decide h (all_findings (context_of e receipts claim opts) (clauses_of policy) fs) und" by blast
  then show ?thesis using assms(4,5) by (intro decide_first [OF fs(1), of h]) auto
qed

subsection \<open>A concrete policy\<close>

definition demo_env :: env where
  "demo_env = \<lparr> date_parse = (\<lambda>s. if s = js ''old'' then Some (- 500000000) else Some 1000), sha256 = (\<lambda>_. replicate 32 0),
     re_ok = (\<lambda>_. True), re_test = (\<lambda>_ _. True), url_host = Some \<rparr>"

definition demo_clause :: jsval where
  "demo_clause = VObj [(js ''id'', VStr (js ''s1'')), (js ''type'', VStr (js ''spend_limit'')), (js ''asset'', VStr (js ''USD'')),
     (js ''max_per_action'', VNum (jint 100)), (js ''max_per_window'', VNum (jint 150)), (js ''window'', VStr (js ''P1D''))]"

definition policy_with :: "jsval list \<Rightarrow> jsval" where
  "policy_with clauses = VObj [(js ''vocabulary_version'', VStr (js ''1.0'')), (js ''policy_id'', VStr (js ''p'')), (js ''version'', VNum (jint 1)),
     (js ''clauses'', VArr clauses)]"

definition demo_policy :: jsval where
  "demo_policy = policy_with [demo_clause]"

definition payment :: "string \<Rightarrow> int \<Rightarrow> string \<Rightarrow> jsval" where
  "payment i n t = VObj [(js ''intent'', VObj [(js ''action_type'', VStr (js ''pay'')), (js ''asset'', VStr (js ''USD'')), (js ''amount'', VNum (jint n))]),
     (js ''executed'', VBool True), (js ''action_id'', VStr (js i)), (js ''timestamp'', VStr (js t))]"

definition refused :: jsval where
  "refused = VObj [(js ''intent'', VObj [(js ''action_type'', VStr (js ''pay''))]), (js ''executed'', VBool False)]"

definition no_options :: options where
  "no_options = \<lparr> opt_at = None, opt_complete = None \<rparr>"

lemma demo_times: "times_ok demo_env"
  by (simp add: times_ok_def demo_env_def max_time_def)

lemma demo_accepted: "accepted demo_env demo_policy"
  by code_simp

lemma demo_clauses [simp]: "clauses_of demo_policy = [demo_clause]"
  by (simp add: demo_policy_def policy_with_def clauses_of_def fld_def own_def members_def elems_def)

lemma demo_durations: "\<forall>c \<in> set (clauses_of demo_policy). durations_safe c"
  unfolding demo_clauses by code_simp

lemma demo_inputs: "inputs_ok demo_env demo_policy (VArr [payment ''a'' 60 ''now'']) (payment ''b'' 80 ''now'') no_options"
  unfolding inputs_ok_def using demo_accepted by (intro conjI) (assumption | code_simp)+

lemma demo_executed: "executed_of (norm (payment ''b'' 80 ''now''))"
  by code_simp

theorem violates_correct_witness:
  "\<exists>v. violates demo_env demo_policy (VArr [payment ''a'' 60 ''now'']) (payment ''b'' 80 ''now'') no_options = Inr v \<and>
    (violated v \<longleftrightarrow> \<not> permitted demo_env (context_of demo_env (VArr [payment ''a'' 60 ''now'']) (payment ''b'' 80 ''now'') no_options) demo_policy)"
  by (rule violates_correct [OF demo_times demo_inputs demo_executed demo_durations])

text \<open>Two clauses match a payment that nobody approved: the approval rule and a time window of lower priority.\<close>

definition two_clauses :: "jsval list" where
  "two_clauses =
     [VObj [(js ''id'', VStr (js ''w'')), (js ''type'', VStr (js ''key_policy'')), (js ''active_keys'', VArr [VStr (js ''k'')]), (js ''mode'', VStr (js ''monitor''))],
      VObj [(js ''id'', VStr (js ''a'')), (js ''type'', VStr (js ''require_approval'')), (js ''action_types'', VArr [VStr (js ''pay'')]),
        (js ''approvers'', VArr [VStr (js ''boss'')])]]"

definition unapproved :: jsval where
  "unapproved = VObj [(js ''intent'', VObj [(js ''action_type'', VStr (js ''pay'')), (js ''signer'', VStr (js ''z''))]), (js ''executed'', VBool True),
     (js ''action_id'', VStr (js ''x'')), (js ''timestamp'', VStr (js ''now''))]"

lemma two_accepted: "accepted demo_env (policy_with two_clauses)"
  by code_simp

lemma two_inputs: "inputs_ok demo_env (policy_with two_clauses) (VArr []) unapproved no_options"
  unfolding inputs_ok_def using two_accepted by (intro conjI) (assumption | code_simp)+

lemma clauses_policy_with [simp]: "clauses_of (policy_with cs) = cs"
  by (simp add: policy_with_def clauses_of_def fld_def own_def members_def elems_def)

lemma two_findings:
  "clause_findings demo_env (context_of demo_env (VArr []) unapproved no_options) 0 two_clauses =
     Inr ([record_of (two_clauses ! 0) 0 (js ''signed by key z outside the active key set'') (js ''signer:active_keys''),
           record_of (two_clauses ! 1) 1 (js ''executed without a valid approval record'') (js ''approval:approvers'')], None)"
  by code_simp

lemma two_covered:
  "allowlist_findings (context_of demo_env (VArr []) unapproved no_options) two_clauses = []"
  "uncovered_findings (context_of demo_env (VArr []) unapproved no_options) two_clauses = []"
  by code_simp+

lemma two_decide: "clause_id (decide h [record_of (two_clauses ! 0) 0 t b, record_of (two_clauses ! 1) 1 t' b'] None) = Some (js ''a'')"
  "violated (decide h [record_of (two_clauses ! 0) 0 t b, record_of (two_clauses ! 1) 1 t' b'] None)"
  by (simp_all add: decide_def mk_verdict_def finding_le_def record_of_def two_clauses_def clause_mode_def fld_def own_def members_def str_of_def)

theorem verdict_names_first_witness:
  "\<exists>i. reported demo_env (context_of demo_env (VArr []) unapproved no_options) two_clauses i \<and>
     str_of (fld (two_clauses ! i) (js ''id'')) = js ''a''"
proof -
  have ex: "executed_of (norm unapproved)" by code_simp
  obtain h where "violates demo_env (policy_with two_clauses) (VArr []) unapproved no_options =
      evaluate demo_env (policy_with two_clauses) (context_of demo_env (VArr []) unapproved no_options) h"
    using violates_evaluate [OF two_inputs ex] by blast
  then obtain v where "violates demo_env (policy_with two_clauses) (VArr []) unapproved no_options = Inr v" "violated v" "clause_id v = Some (js ''a'')"
    using two_decide by (simp add: evaluate_def two_findings two_covered)
  from verdict_names_first [OF two_inputs ex this] show ?thesis by auto
qed

subsection \<open>Actions that were not executed\<close>

text \<open>An action that was not executed never violates: on well-formed inputs the verdict is not violated and not undetermined.\<close>

theorem not_executed_not_violated:
  assumes "inputs_ok e policy receipts claim opts" "\<not> executed_of (norm claim)"
  shows "\<exists>v. violates e policy receipts claim opts = Inr v \<and> \<not> violated v \<and> \<not> undetermined v"
proof -
  from assms(1) obtain pv where "validate_policy e policy = Inr pv" "valid pv"
    by (auto simp: inputs_ok_def accepted_def split: sum.splits)
  with assms show ?thesis by (auto simp: violates_def inputs_ok_def Let_def mk_verdict_def)
qed

lemma demo_refused: "inputs_ok demo_env demo_policy (VArr []) (VObj [(js ''intent'', VObj [(js ''action_type'', VStr (js ''pay''))]), (js ''timestamp'', VStr (js ''now''))]) no_options"
  unfolding inputs_ok_def using demo_accepted by (intro conjI) (assumption | code_simp)+

theorem not_executed_not_violated_witness:
  "\<exists>v. violates demo_env demo_policy (VArr []) (VObj [(js ''intent'', VObj [(js ''action_type'', VStr (js ''pay''))]), (js ''timestamp'', VStr (js ''now''))]) no_options = Inr v
     \<and> \<not> violated v \<and> \<not> undetermined v"
  by (rule not_executed_not_violated [OF demo_refused]) code_simp

text \<open>A verdict without the hash of its inputs.\<close>

definition decision :: "verdict \<Rightarrow> bool \<times> jsstr option \<times> jsstr \<times> bool \<times> jsstr option" where
  "decision v = (violated v, clause_id v, explanation v, undetermined v, failed_bound v)"

lemma decision_mk [simp]: "decision (mk_verdict v c t h) = (v, c, t, False, None)"
  by (simp add: decision_def mk_verdict_def)

lemma decision_decide: "decision (decide h fs und) = decision (decide h' fs und)"
  by (simp add: decide_def decision_def mk_verdict_def Let_def split: option.splits)

lemma decision_evaluate: "map_sum id decision (evaluate e policy x h) = map_sum id decision (evaluate e policy x h')"
  using decision_decide [of h _ _ h'] by (cases "clause_findings e x 0 (clauses_of policy)") (auto simp: evaluate_def)

lemma executed_unique_filter: "executed_unique (filter executed_of rs) c = executed_unique rs c"
  by (simp add: executed_unique_def filter_map o_def split_beta)

text \<open>Receipts of actions that were not executed count for nothing: leaving them out changes nothing but the hash of the inputs.\<close>

theorem unexecuted_receipts_ignored:
  "map_sum id decision (violates e policy (VArr (filter (\<lambda>r. executed_of (norm r)) rs)) claim opts)
   = map_sum id decision (violates e policy (VArr rs) claim opts)"
proof -
  have m: "map norm (filter (\<lambda>r. executed_of (norm r)) rs) = filter executed_of (map norm rs)"
    by (simp add: filter_map o_def)
  have p: "list_all (prior_ok e) (filter executed_of xs) = list_all (prior_ok e) xs" for xs
    by (induction xs) (auto simp: prior_ok_def)
  show ?thesis
  proof (cases "validate_policy e policy")
    case (Inr pv)
    then show ?thesis
      unfolding violates_def Let_def elems_def jsval.case m p executed_unique_filter
      by (auto intro: decision_evaluate)
  qed (simp add: violates_def Let_def)
qed

end
