(* ===== verification/Dispatch.thy ===== *)
theory Dispatch
  imports Violates
begin

section \<open>The dispatch boundary: approvals, delegated scopes, budgets\<close>

text \<open>
  \<^verbatim>\<open>packages/gateway/src/dispatch.ts\<close> and the digests of \<^verbatim>\<open>packages/gateway/src/crypto.ts\<close>: the request hash an approval binds,
  the check of a single-use approval against the action about to be dispatched, delegated scopes and their order, action budgets and
  their acknowledgement. Documents that arrive from outside are \<open>jsval\<close>; once validated they are read into records (\<open>approval_of\<close>,
  \<open>delegation_of\<close>, \<open>budget_of\<close>), instants as the numbers \<open>Date.parse\<close> gives. The registry of approver keys and the Ed25519
  verification are parameters: \<open>key_lookup\<close> is \<open>resolve\<close> (\<open>None\<close> when it gives null or throws), \<open>verifier\<close> takes the
  message bytes, the PEM text and the base64 signature.
\<close>

subsection \<open>Digests\<close>

definition text_hash :: "env \<Rightarrow> jsstr \<Rightarrow> jsstr" where
  "text_hash e t = to_hex (sha256 e (utf8 t))"

definition intent_hash :: "env \<Rightarrow> jsval \<Rightarrow> jsstr outcome" where
  "intent_hash e intent = rbind (canonical intent) (\<lambda>t. Inr (text_hash e t))"

definition derive_kid :: "env \<Rightarrow> jsval \<Rightarrow> jsstr outcome" where
  "derive_kid e jwk =
     rbind (canonical (VObj (map (\<lambda>k. (js k, fld jwk (js k))) [''crv'', ''kty'', ''x''])))
       (\<lambda>t. Inr (js ''key:'' @ take 16 (text_hash e t)))"

subsection \<open>The request hash\<close>

definition request_hash_domain :: jsstr where
  "request_hash_domain = js ''scopebond:dispatch-request/v1'' @ [10]"

definition non_request_params :: "jsstr list" where
  "non_request_params = map js [''action_group'', ''action_group_size'', ''action_group_seq'']"

text \<open>\<open>out[k] = v\<close> makes an own member, except under the name \<open>__proto__\<close>: there an object becomes the prototype of \<open>out\<close>, and any
  other value is dropped.\<close>

definition request_params :: "jsval \<Rightarrow> jsval" where
  "request_params params =
     (let fs = filter (\<lambda>(k, v). k \<notin> set non_request_params) (members (or_else params (VObj [])));
          own = filter (\<lambda>(k, v). k \<noteq> js ''__proto__'') fs in
      if list_ex (\<lambda>(k, v). k = js ''__proto__'' \<and> (is_obj v \<or> is_arr v)) fs then VInst own else VObj own)"

definition request_hash :: "env \<Rightarrow> jsval \<Rightarrow> jsstr outcome" where
  "request_hash e request = rbind (canonical request) (\<lambda>t. Inr (text_hash e (request_hash_domain @ t)))"

subsection \<open>Approvals\<close>

definition approval_max_lifetime_ms :: int where
  "approval_max_lifetime_ms = 5 * 60000"

definition approval_max_skew_ms :: int where
  "approval_max_skew_ms = 30000"

record dispatch_approval =
  da_version :: jsstr
  da_id :: jsstr
  da_approver :: jsval
  da_actor :: jsstr
  da_action_type :: jsstr
  da_target :: jsstr
  da_policy_digest :: jsstr
  da_request_hash :: jsstr
  da_issued_at :: jsstr
  da_expires_at :: jsstr
  da_signature :: jsstr

definition approval_of :: "jsval \<Rightarrow> dispatch_approval" where
  "approval_of v =
     (let s = (\<lambda>k. str_of (fld v (js k))) in
      \<lparr> da_version = s ''version'', da_id = s ''approval_id'', da_approver = fld v (js ''approver''), da_actor = s ''actor'',
        da_action_type = s ''action_type'', da_target = s ''target'', da_policy_digest = s ''policy_digest'',
        da_request_hash = s ''request_hash'', da_issued_at = s ''issued_at'', da_expires_at = s ''expires_at'',
        da_signature = s ''signature'' \<rparr>)"

definition approval_claims :: "dispatch_approval \<Rightarrow> jsval" where
  "approval_claims a =
     VObj [(js ''version'', VStr (da_version a)), (js ''approval_id'', VStr (da_id a)), (js ''approver'', da_approver a),
       (js ''actor'', VStr (da_actor a)), (js ''action_type'', VStr (da_action_type a)), (js ''target'', VStr (da_target a)),
       (js ''policy_digest'', VStr (da_policy_digest a)), (js ''request_hash'', VStr (da_request_hash a)),
       (js ''issued_at'', VStr (da_issued_at a)), (js ''expires_at'', VStr (da_expires_at a))]"

text \<open>\<open>ID\<close>: \<open>/^[\x21-\x7e]{8,200}$/\<close>.\<close>

definition printable :: "nat \<Rightarrow> bool" where
  "printable c \<longleftrightarrow> 0x21 \<le> c \<and> c \<le> 0x7e"

definition id_re :: "jsstr \<Rightarrow> bool" where
  "id_re s \<longleftrightarrow> 8 \<le> length s \<and> length s \<le> 200 \<and> list_all printable s"

definition is_id :: "jsval \<Rightarrow> bool" where
  "is_id v \<longleftrightarrow> (case v of VStr s \<Rightarrow> id_re s | _ \<Rightarrow> False)"

definition valid_time :: "env \<Rightarrow> jsval \<Rightarrow> bool" where
  "valid_time e v \<longleftrightarrow> (case v of VStr s \<Rightarrow> date_parse e s \<noteq> None | _ \<Rightarrow> False)"

definition approval_keys :: "string list" where
  "approval_keys = [''version'', ''approval_id'', ''approver'', ''actor'', ''action_type'', ''target'', ''policy_digest'',
     ''request_hash'', ''issued_at'', ''expires_at'', ''signature'']"

definition validate_dispatch_approval :: "env \<Rightarrow> jsval \<Rightarrow> bool" where
  "validate_dispatch_approval e v =
     (let f = (\<lambda>k. fld v (js k)); ap = f ''approver'' in
      if \<not> is_obj v then False
      else if length (members v) \<noteq> length approval_keys \<or> \<not> has_keys v approval_keys then False
      else f ''version'' = VStr (js ''1.0'') \<and> is_id (f ''approval_id'') \<and>
        is_obj ap \<and> is_nonempty_string (fld ap (js ''kid'')) \<and> fld ap (js ''alg'') = VStr (js ''Ed25519'') \<and>
        is_nonempty_string (f ''actor'') \<and> is_nonempty_string (f ''action_type'') \<and>
        is_str (f ''target'') \<and> is_nonempty_string (f ''policy_digest'') \<and>
        is_hex32 (f ''request_hash'') \<and>
        valid_time e (f ''issued_at'') \<and> valid_time e (f ''expires_at'') \<and>
        is_str (f ''signature'') \<and> 40 \<le> length (str_of (f ''signature'')))"

datatype approval_rejection =
    Malformed | Unknown_approver | Bad_signature | Self_approval | Wrong_actor | Wrong_action
  | Wrong_target | Wrong_policy | Changed_request | Expired | Not_yet_valid | Bad_lifetime

record approval_subject =
  as_actor :: jsstr
  as_action_type :: jsstr
  as_target :: jsstr
  as_policy_digest :: jsstr
  as_request_hash :: jsstr

record key_record =
  kr_pem :: jsstr
  kr_purposes :: "jsstr list"
  kr_revoked :: bool

type_synonym key_lookup = "jsstr \<Rightarrow> jsstr \<Rightarrow> key_record option"
type_synonym verifier = "bytes \<Rightarrow> jsstr \<Rightarrow> jsstr \<Rightarrow> bool outcome"

text \<open>\<open>Date.parse\<close> of a text already seen to be a time.\<close>

definition time_of :: "env \<Rightarrow> jsstr \<Rightarrow> int" where
  "time_of e s = (case date_parse e s of None \<Rightarrow> 0 | Some t \<Rightarrow> t)"

definition max_life :: "jnum option \<Rightarrow> jnum" where
  "max_life configured =
     (case configured of
        None \<Rightarrow> jint approval_max_lifetime_ms
      | Some c \<Rightarrow> if c = NaN then jint approval_max_lifetime_ms
                  else if jlt c (jint approval_max_lifetime_ms) then c else jint approval_max_lifetime_ms)"

definition signature_problem :: "verifier \<Rightarrow> key_lookup \<Rightarrow> dispatch_approval \<Rightarrow> approval_rejection option" where
  "signature_problem ed keys a =
     (case keys (str_of (fld (da_approver a) (js ''kid''))) (js ''approver'') of
        None \<Rightarrow> Some Unknown_approver
      | Some r \<Rightarrow>
          if kr_revoked r \<or> js ''approver'' \<notin> set (kr_purposes r) then Some Unknown_approver
          else (case rbind (canonical (approval_claims a)) (\<lambda>t. ed (utf8 t) (kr_pem r) (da_signature a)) of
             Inl _ \<Rightarrow> Some Bad_signature
           | Inr ok \<Rightarrow> if \<not> ok then Some Bad_signature else None))"

definition check_approval ::
  "env \<Rightarrow> verifier \<Rightarrow> key_lookup \<Rightarrow> jsval \<Rightarrow> approval_subject \<Rightarrow> int \<Rightarrow> jnum option \<Rightarrow> jnum option \<Rightarrow> approval_rejection + dispatch_approval" where
  "check_approval e ed keys v subject now configured max_skew =
     (if \<not> validate_dispatch_approval e v then Inl Malformed
      else let a = approval_of v;
          skew = (case max_skew of None \<Rightarrow> jint approval_max_skew_ms | Some s \<Rightarrow> s);
          issued = time_of e (da_issued_at a); expires = time_of e (da_expires_at a) in
        if expires \<le> issued \<or> jlt (max_life configured) (jsub (jint expires) (jint issued)) then Inl Bad_lifetime
        else if jlt (jadd (jint now) skew) (jint issued) then Inl Not_yet_valid
        else if expires \<le> now then Inl Expired
        else if da_actor a \<noteq> as_actor subject then Inl Wrong_actor
        else if da_action_type a \<noteq> as_action_type subject then Inl Wrong_action
        else if da_target a \<noteq> as_target subject then Inl Wrong_target
        else if da_policy_digest a \<noteq> as_policy_digest subject then Inl Wrong_policy
        else if da_request_hash a \<noteq> as_request_hash subject then Inl Changed_request
        else if str_of (fld (da_approver a) (js ''kid'')) = as_actor subject then Inl Self_approval
        else (case signature_problem ed keys a of Some r \<Rightarrow> Inl r | None \<Rightarrow> Inr a))"

subsection \<open>Delegated scopes\<close>

record delegated_scope =
  sc_action_types :: "jsstr list"
  sc_targets :: "jsstr list option"

record delegation =
  dl_id :: jsstr
  dl_parent :: "jsstr option"
  dl_actor :: jsstr
  dl_scope :: delegated_scope
  dl_scope_digest :: jsstr
  dl_issued :: int
  dl_expires :: int

definition strs :: "jsstr list \<Rightarrow> jsval" where
  "strs xs = VArr (map VStr xs)"

definition sort_strings :: "jsstr list \<Rightarrow> jsstr list" where
  "sort_strings xs = js_sort (\<le>) xs"

definition scope_digest :: "env \<Rightarrow> delegated_scope \<Rightarrow> jsstr outcome" where
  "scope_digest e scope =
     rbind (canonical (VObj [(js ''action_types'', strs (sort_strings (sc_action_types scope))),
         (js ''targets'', case sc_targets scope of None \<Rightarrow> VNull | Some ts \<Rightarrow> strs (sort_strings ts))]))
       (\<lambda>t. Inr (text_hash e (js ''scopebond:delegated-scope/v1'' @ [10] @ t)))"

definition target_covers :: "jsstr \<Rightarrow> jsstr \<Rightarrow> bool" where
  "target_covers parent child \<longleftrightarrow> parent = child \<or> (ends_with parent (js ''*'') \<and> starts_with child (butlast parent))"

definition target_in_scope :: "delegated_scope \<Rightarrow> jsstr \<Rightarrow> bool" where
  "target_in_scope scope target \<longleftrightarrow>
     (case sc_targets scope of None \<Rightarrow> True | Some ts \<Rightarrow> list_ex (\<lambda>t. target_covers t target) ts)"

definition action_in_scope :: "delegated_scope \<Rightarrow> jsstr \<Rightarrow> jsstr \<Rightarrow> bool" where
  "action_in_scope scope action_type target \<longleftrightarrow> action_type \<in> set (sc_action_types scope) \<and> target_in_scope scope target"

definition is_sub_scope :: "delegated_scope \<Rightarrow> delegated_scope \<Rightarrow> bool" where
  "is_sub_scope child parent =
     (if sc_action_types child = [] \<or> \<not> list_all (\<lambda>t. t \<in> set (sc_action_types parent)) (sc_action_types child) then False
      else (case sc_targets parent of
         None \<Rightarrow> True
       | Some ps \<Rightarrow>
           (case sc_targets child of
              None \<Rightarrow> False
            | Some ts \<Rightarrow> if ts = [] then False else list_all (\<lambda>t. list_ex (\<lambda>p. target_covers p t) ps) ts)))"

datatype delegation_problem =
    DMalformed | DDigest_mismatch | DUnknown_parent | DParent_revoked | DParent_expired | DNot_subset
  | DOutlives_parent | DAlready_exists | DExpired | DDepth

definition max_delegation_depth :: nat where
  "max_delegation_depth = 16"

definition nonempty_strings :: "jsval \<Rightarrow> bool" where
  "nonempty_strings v \<longleftrightarrow> (case v of VArr xs \<Rightarrow> arr_every is_nonempty_string xs | _ \<Rightarrow> False)"

definition validate_delegation :: "env \<Rightarrow> jsval \<Rightarrow> bool" where
  "validate_delegation e d =
     (let f = (\<lambda>k. fld d (js k)); s = f ''scope'' in
      if \<not> is_obj d \<or> \<not> is_obj s then False
      else is_id (f ''delegation_id'') \<and> (f ''parent_id'' = VNull \<or> is_id (f ''parent_id'')) \<and>
        is_nonempty_string (f ''actor'') \<and> nonempty_strings (fld s (js ''action_types'')) \<and> elems (fld s (js ''action_types'')) \<noteq> [] \<and>
        (fld s (js ''targets'') = VUndef \<or> nonempty_strings (fld s (js ''targets''))) \<and> is_str (f ''scope_digest'') \<and>
        valid_time e (f ''issued_at'') \<and> valid_time e (f ''expires_at'') \<and>
        time_of e (str_of (f ''issued_at'')) < time_of e (str_of (f ''expires_at'')))"

definition scope_of :: "jsval \<Rightarrow> delegated_scope" where
  "scope_of s = \<lparr> sc_action_types = map str_of (elems (fld s (js ''action_types''))),
     sc_targets = (if fld s (js ''targets'') = VUndef then None else Some (map str_of (elems (fld s (js ''targets''))))) \<rparr>"

definition delegation_of :: "env \<Rightarrow> jsval \<Rightarrow> delegation" where
  "delegation_of e d =
     (let s = (\<lambda>k. str_of (fld d (js k))) in
      \<lparr> dl_id = s ''delegation_id'', dl_parent = str_opt (fld d (js ''parent_id'')), dl_actor = s ''actor'',
        dl_scope = scope_of (fld d (js ''scope'')), dl_scope_digest = s ''scope_digest'',
        dl_issued = time_of e (s ''issued_at''), dl_expires = time_of e (s ''expires_at'') \<rparr>)"

subsection \<open>Scope entries of the workspace\<close>

definition delegation_scope_digest :: "env \<Rightarrow> jsstr list \<Rightarrow> jsstr outcome" where
  "delegation_scope_digest e entries =
     rbind (canonical (strs (sort_strings (rev (remdups (rev entries))))))
       (\<lambda>t. Inr (text_hash e (js ''scopebond:delegation-scope/v1'' @ [10] @ t)))"

text \<open>The closed vocabulary of kinds, and \<open>scopeEntryDigest\<close> of one of them.\<close>

definition scope_entry_digest :: "env \<Rightarrow> jsstr \<Rightarrow> jsstr \<Rightarrow> jsstr outcome" where
  "scope_entry_digest e kind val =
     (if kind \<noteq> js ''action'' \<and> kind \<noteq> js ''privilege'' then Inl (Err (js ''unknown scope entry kind: '' @ kind))
      else Inr (text_hash e (js ''scopebond:scope-entry/v1'' @ [0] @ kind @ [0] @ val)))"

definition privilege_scope_entry :: "env \<Rightarrow> jsstr \<Rightarrow> jsstr \<Rightarrow> jsstr outcome" where
  "privilege_scope_entry e resource_scope permission = scope_entry_digest e (js ''privilege'') (resource_scope @ [0] @ permission)"

text \<open>\<open>ACTION_ENTRY_TYPE\<close>: one to three segments separated by dots, each a lower-case letter and at most 40 more characters.\<close>

definition entry_segment :: "jsstr \<Rightarrow> bool" where
  "entry_segment s \<longleftrightarrow> s \<noteq> [] \<and> is_lower (hd s) \<and> length s \<le> 41 \<and> list_all (\<lambda>c. is_lower c \<or> is_digit c \<or> c = 95) (tl s)"

definition action_entry_type :: "jsstr \<Rightarrow> bool" where
  "action_entry_type s \<longleftrightarrow> (let segs = js_split 46 s in length segs \<le> 3 \<and> list_all entry_segment segs)"

definition action_scope_entry :: "env \<Rightarrow> jsstr \<Rightarrow> jsstr option \<Rightarrow> jsstr outcome" where
  "action_scope_entry e action_type target =
     (if \<not> action_entry_type action_type then Inl (Err (js ''invalid action_type for a scope entry''))
      else if (case target of None \<Rightarrow> False | Some t \<Rightarrow> length t < 1 \<or> 200 < length t \<or> 0 \<in> set t \<or> t = js ''*'')
      then Inl (Err (js ''invalid target for a scope entry''))
      else scope_entry_digest e (js ''action'') (action_type @ [0] @ (case target of None \<Rightarrow> js ''*'' | Some t \<Rightarrow> t)))"

text \<open>\<open>actionScopeEntries\<close>: the entry for the exact target, and for any.\<close>

definition action_scope_entries :: "env \<Rightarrow> jsstr \<Rightarrow> jsstr \<Rightarrow> (jsstr \<times> jsstr) outcome" where
  "action_scope_entries e action_type target =
     rbind (action_scope_entry e action_type (Some target)) (\<lambda>x. rbind (action_scope_entry e action_type None) (\<lambda>y. Inr (x, y)))"

subsection \<open>Action budgets\<close>

datatype budget_authority = Installation | Shared_gateway

record budget_policy =
  bp_id :: jsstr
  bp_actor :: jsstr
  bp_operations :: "jsstr list"
  bp_authority :: budget_authority
  bp_max :: int
  bp_window :: int
  bp_enforce :: bool
  bp_version :: int
  bp_expires_at :: jsstr
  bp_ack :: "jsstr option"
  bp_revoked :: bool
  bp_document :: jsval

text \<open>A validated document, read: \<open>bp_ack\<close> is the digest the acknowledgement echoes, \<open>None\<close> for a null acknowledgement.\<close>

definition budget_of :: "jsval \<Rightarrow> budget_policy" where
  "budget_of p =
     (let f = (\<lambda>k. fld p (js k)) in
      \<lparr> bp_id = str_of (f ''budget_id''), bp_actor = str_of (f ''actor''), bp_operations = map str_of (elems (f ''operations'')),
        bp_authority = (if f ''authority_scope'' = VStr (js ''shared_gateway'') then Shared_gateway else Installation),
        bp_max = num_int (num_of (f ''max'')), bp_window = num_int (num_of (f ''window_seconds'')),
        bp_enforce = (f ''mode'' = VStr (js ''enforce'')), bp_version = num_int (num_of (f ''version'')),
        bp_expires_at = str_of (f ''expires_at''), bp_ack = str_opt (fld (f ''acknowledgement'') (js ''digest'')),
        bp_revoked = truthy (f ''revoked''), bp_document = p \<rparr>)"

definition budget_digest :: "env \<Rightarrow> budget_policy \<Rightarrow> jsstr outcome" where
  "budget_digest e p =
     rbind (canonical (VObj (filter (\<lambda>(k, v). k \<noteq> js ''acknowledgement'') (members (bp_document p)))))
       (\<lambda>t. Inr (text_hash e (js ''scopebond:action-budget/v1'' @ [10] @ t)))"

definition int_between :: "jsval \<Rightarrow> int \<Rightarrow> int \<Rightarrow> bool" where
  "int_between v lo hi \<longleftrightarrow> is_integer v \<and> lo \<le> num_int (num_of v) \<and> num_int (num_of v) \<le> hi"

definition validate_budget_policy :: "env \<Rightarrow> jsval \<Rightarrow> bool" where
  "validate_budget_policy e p =
     (let f = (\<lambda>k. fld p (js k)); ack = f ''acknowledgement'' in
      if \<not> is_obj p then False
      else is_id (f ''budget_id'') \<and> is_nonempty_string (f ''actor'') \<and>
        nonempty_strings (f ''operations'') \<and> elems (f ''operations'') \<noteq> [] \<and>
        (f ''authority_scope'' = VStr (js ''installation'') \<or> f ''authority_scope'' = VStr (js ''shared_gateway'')) \<and>
        int_between (f ''max'') 1 1000000000 \<and> int_between (f ''window_seconds'') 1 (366 * 86400) \<and>
        (f ''mode'' = VStr (js ''monitor'') \<or> f ''mode'' = VStr (js ''enforce'')) \<and>
        is_integer (f ''version'') \<and> 1 \<le> num_int (num_of (f ''version'')) \<and>
        valid_time e (f ''expires_at'') \<and>
        (ack = VNull \<or> (is_obj ack \<and> is_str (fld ack (js ''digest'')) \<and> valid_time e (fld ack (js ''acknowledged_at'')))))"

text \<open>\<open>defaultBudgetTemplate\<close>; \<open>toISOString\<close> throws outside the range of time values.\<close>

definition default_budget_template :: "env \<Rightarrow> jsstr \<Rightarrow> jsstr list \<Rightarrow> int \<Rightarrow> jsval outcome" where
  "default_budget_template e actor operations now =
     (let expires = now + 90 * ms_per_day in
      if 8640000000000000 < \<bar>expires\<bar> then Inl RangeErr
      else Inr (VObj
        [(js ''budget_id'', VStr (js ''budget:'' @ take 24 (text_hash e (actor @ [0] @ js_join (js '','') operations)))),
         (js ''actor'', VStr actor), (js ''operations'', strs operations), (js ''authority_scope'', VStr (js ''installation'')),
         (js ''max'', VNum (jint 100)), (js ''window_seconds'', VNum (jint 60)), (js ''mode'', VStr (js ''monitor'')),
         (js ''version'', VNum (jint 1)), (js ''expires_at'', VStr (to_iso expires)), (js ''acknowledgement'', VNull)]))"

definition budget_acknowledged :: "env \<Rightarrow> budget_policy \<Rightarrow> bool outcome" where
  "budget_acknowledged e p =
     (case bp_ack p of None \<Rightarrow> Inr False | Some d \<Rightarrow> rbind (budget_digest e p) (\<lambda>h. Inr (d = h)))"

subsection \<open>The guard's contract\<close>

record dispatch_intent =
  di_action_type :: jsstr
  di_target :: jsstr
  di_request :: jsval

record dispatch_request =
  dr_actor :: jsstr
  dr_action_group :: jsstr
  dr_policy_digest :: jsstr
  dr_intents :: "dispatch_intent list"
  dr_delegation_id :: "jsstr option"

datatype dispatch_reason =
    Ok | Approval_required | Approval_rejected | Approval_replayed | Approval_unavailable | Delegation_unknown | Delegation_revoked
  | Delegation_expired | Delegation_out_of_scope | Delegation_wrong_actor | Budget_exceeded | Budget_unacknowledged
  | Budget_expired | Budget_revoked | Budget_capability_unsupported | Clock_rollback | Counter_unavailable
  | Install_refused | Tool_unknown

datatype budget_state = Within | At_limit | Over | Unavailable | Unenforceable

record budget_observation =
  bo_id :: jsstr
  bo_version :: int
  bo_enforce :: bool
  bo_authority :: budget_authority
  bo_count :: int
  bo_max :: int
  bo_window :: int
  bo_state :: budget_state
  bo_repeated :: bool

record dispatch_decision =
  dd_allow :: bool
  dd_reason :: dispatch_reason
  dd_detail :: jsstr
  dd_consumed :: "jsstr list"
  dd_budgets :: "budget_observation list"

subsection \<open>A request from an intent\<close>

definition nonempty_str :: "jsval \<Rightarrow> jsstr option" where
  "nonempty_str v = (case v of VStr s \<Rightarrow> if s \<noteq> [] then Some s else None | _ \<Rightarrow> None)"

fun first_some :: "'a option list \<Rightarrow> 'a option" where
  "first_some [] = None"
| "first_some (x # xs) = (case x of None \<Rightarrow> first_some xs | Some y \<Rightarrow> Some y)"

definition or_empty :: "jsstr option \<Rightarrow> jsstr" where
  "or_empty x = (case x of None \<Rightarrow> [] | Some s \<Rightarrow> s)"

definition intent_target :: "jsval \<Rightarrow> jsstr" where
  "intent_target intent =
     (let p = or_else (fld intent (js ''params'')) (VObj []); f = (\<lambda>k. nonempty_str (fld p (js k))) in
      if fld intent (js ''action_type'') = VStr (js ''mcp.tool.call'') then or_empty (f ''server'') @ js ''/'' @ or_empty (f ''tool'')
      else or_empty (first_some [f ''path'', f ''ref'', f ''url'', f ''program'', f ''resource'', nonempty_str (fld intent (js ''asset''))]))"

definition dispatch_intent_of :: "jsval \<Rightarrow> dispatch_intent" where
  "dispatch_intent_of intent =
     (let f = (\<lambda>k. fld intent (js k)) in
      \<lparr> di_action_type = str_of (f ''action_type''), di_target = intent_target intent,
        di_request = VObj ([(js ''action_type'', f ''action_type''), (js ''params'', request_params (f ''params''))] @
          (if f ''asset'' \<noteq> VUndef then [(js ''asset'', f ''asset'')] else []) @
          (if f ''amount'' \<noteq> VUndef then [(js ''amount'', f ''amount'')] else [])) \<rparr>)"

definition dispatch_approval_binding :: "env \<Rightarrow> jsval \<Rightarrow> (jsstr \<times> jsstr) outcome" where
  "dispatch_approval_binding e intent =
     (let d = dispatch_intent_of intent in rbind (request_hash e (di_request d)) (\<lambda>h. Inr (h, di_target d)))"

end
