(* ===== verification/DispatchStore.thy ===== *)
theory DispatchStore
  imports Dispatch
begin

section \<open>The dispatch store and its guard\<close>

text \<open>
  \<^verbatim>\<open>packages/gateway/src/dispatch-store.ts\<close>. The store is the SQLite file every hook, proxy and gateway of the machine shares: one record
  field per table. Each method is a function of the store and of the readings of the wall clock it takes. \<open>transaction\<close> keeps the new tables only when its body
  commits. A violated primary key throws. The guard's \<open>authorize\<close> runs in phases between which other processes may write: \<open>prepare\<close> (the
  approvals are checked, the workspace is asked about a delegation), the dry run, the consumption in the workspace, and the final
  transaction \<open>finish\<close>. The workspace is the parameter \<open>cloud\<close>: its answers. A delegation's row keeps its instants as numbers; the text the code makes of
  them and parses again is left out.
\<close>

subsection \<open>Tables\<close>

record consumption =
  cs_id :: jsstr
  cs_actor :: jsstr
  cs_action_type :: jsstr
  cs_request_hash :: jsstr
  cs_group :: jsstr
  cs_at :: int

record reservation =
  rv_budget :: jsstr
  rv_group :: jsstr
  rv_at :: int
  rv_version :: int

datatype cloud_state = Active | Ended | Revoked | State_expired | Invalid_scope | Unknown_ancestry | Not_found

record cloud_delegation =
  cd_state :: cloud_state
  cd_grants :: bool
  cd_entries :: "jsstr list"
  cd_expires_at :: "int option"

record store =
  st_high :: "int option"
  st_consumed :: "consumption list"
  st_delegations :: "delegation list"
  st_cache :: "(jsstr \<times> cloud_delegation \<times> int) list"
  st_revoked :: "(jsstr \<times> int) list"
  st_reservations :: "reservation list"

definition empty_store :: store where
  "empty_store = \<lparr> st_high = None, st_consumed = [], st_delegations = [], st_cache = [], st_revoked = [], st_reservations = [] \<rparr>"

definition transaction :: "(store \<Rightarrow> (bool \<times> 'v \<times> store) outcome) \<Rightarrow> store \<Rightarrow> 'v outcome \<times> store" where
  "transaction f s =
     (case f s of
        Inl x \<Rightarrow> (Inl x, s)
      | Inr (commit, v, s') \<Rightarrow> (Inr v, if commit then s' else s))"

subsection \<open>Time\<close>

definition clock_tolerance_ms :: int where
  "clock_tolerance_ms = 2000"

definition high_water :: "store \<Rightarrow> int" where
  "high_water s = (case st_high s of None \<Rightarrow> 0 | Some v \<Rightarrow> v)"

definition effective_now :: "int \<Rightarrow> store \<Rightarrow> (int \<times> bool) \<times> store" where
  "effective_now wall s =
     (let high = high_water s; rolled_back = wall < high - clock_tolerance_ms; eff = max wall high in
      ((eff, rolled_back), if high < eff then s\<lparr> st_high := Some eff \<rparr> else s))"

subsection \<open>Delegations\<close>

definition find_delegation :: "store \<Rightarrow> jsstr \<Rightarrow> delegation option" where
  "find_delegation s i = find (\<lambda>d. dl_id d = i) (st_delegations s)"

definition is_revoked :: "store \<Rightarrow> jsstr \<Rightarrow> bool" where
  "is_revoked s i \<longleftrightarrow> i \<in> fst ` set (st_revoked s)"

definition has_delegation :: "store \<Rightarrow> jsstr \<Rightarrow> bool" where
  "has_delegation s i \<longleftrightarrow> find_delegation s i \<noteq> None"

definition parent_problem :: "store \<Rightarrow> int \<Rightarrow> delegation \<Rightarrow> delegation_problem option" where
  "parent_problem s now d =
     (case dl_parent d of
        None \<Rightarrow> None
      | Some pid \<Rightarrow>
          (case find_delegation s pid of
             None \<Rightarrow> Some DUnknown_parent
           | Some parent \<Rightarrow>
               if is_revoked s pid then Some DParent_revoked
               else if dl_expires parent \<le> now then Some DParent_expired
               else if \<not> is_sub_scope (dl_scope d) (dl_scope parent) then Some DNot_subset
               else if dl_expires parent < dl_expires d then Some DOutlives_parent
               else None))"

text \<open>\<open>addDelegation\<close>: \<open>None\<close> is \<open>ok: true\<close>.\<close>

definition add_body :: "delegation \<Rightarrow> int \<Rightarrow> store \<Rightarrow> (bool \<times> delegation_problem option \<times> store) outcome" where
  "add_body d wall s0 =
     (case effective_now wall s0 of ((now, _), s) \<Rightarrow>
        if dl_expires d \<le> now then Inr (False, Some DExpired, s)
        else if has_delegation s (dl_id d) then Inr (False, Some DAlready_exists, s)
        else (case parent_problem s now d of
           Some p \<Rightarrow> Inr (False, Some p, s)
         | None \<Rightarrow> Inr (True, None, s\<lparr> st_delegations := st_delegations s @ [d] \<rparr>)))"

definition add_delegation :: "env \<Rightarrow> jsval \<Rightarrow> int \<Rightarrow> store \<Rightarrow> delegation_problem option outcome \<times> store" where
  "add_delegation e input wall s =
     (if \<not> validate_delegation e input then (Inr (Some DMalformed), s)
      else let d = delegation_of e input in
        case scope_digest e (dl_scope d) of
          Inl x \<Rightarrow> (Inl x, s)
        | Inr h \<Rightarrow> if h \<noteq> dl_scope_digest d then (Inr (Some DDigest_mismatch), s) else transaction (add_body d wall) s)"

definition revoke :: "jsstr \<Rightarrow> int \<Rightarrow> store \<Rightarrow> store" where
  "revoke i wall s = (if is_revoked s i then s else s\<lparr> st_revoked := st_revoked s @ [(i, wall)] \<rparr>)"

fun import_loop :: "jsval list \<Rightarrow> int \<Rightarrow> store \<Rightarrow> nat \<times> store" where
  "import_loop [] wall s = (0, s)"
| "import_loop (v # vs) wall s =
     (if \<not> is_nonempty_string v then import_loop vs wall s
      else let added = (if is_revoked s (str_of v) then 0 else 1) in
        case import_loop vs wall (revoke (str_of v) wall s) of (n, s') \<Rightarrow> (added + n, s'))"

definition import_revocations :: "jsval list \<Rightarrow> int \<Rightarrow> store \<Rightarrow> nat \<times> store" where
  "import_revocations ids wall s =
     (case transaction (\<lambda>s. case import_loop ids wall s of (n, s') \<Rightarrow> Inr (True, n, s')) s of
        (Inr n, s') \<Rightarrow> (n, s')
      | (Inl _, s') \<Rightarrow> (0, s'))"

definition list_delegations :: "store \<Rightarrow> (delegation \<times> bool) list" where
  "list_delegations s = map (\<lambda>d. (d, is_revoked s (dl_id d))) (js_sort (\<lambda>a b. dl_issued a \<le> dl_issued b) (st_delegations s))"

definition cached_delegation :: "store \<Rightarrow> jsstr \<Rightarrow> int \<Rightarrow> int \<Rightarrow> cloud_delegation option" where
  "cached_delegation s session now ttl =
     (case map_of (st_cache s) session of
        None \<Rightarrow> None
      | Some (d, fetched_at) \<Rightarrow> if now < fetched_at \<or> ttl < now - fetched_at then None else Some d)"

definition put_cached_delegation :: "jsstr \<Rightarrow> cloud_delegation \<Rightarrow> int \<Rightarrow> store \<Rightarrow> store" where
  "put_cached_delegation session d now s = s\<lparr> st_cache := omap_set session (d, now) (st_cache s) \<rparr>"

definition drop_cached_delegation :: "jsstr \<Rightarrow> store \<Rightarrow> store" where
  "drop_cached_delegation session s = s\<lparr> st_cache := filter (\<lambda>(k, _). k \<noteq> session) (st_cache s) \<rparr>"

text \<open>\<open>checkDelegation\<close>: the walk from the leaf to the root, \<open>n\<close> steps at most (the depth runs from 0 to 16).\<close>

fun check_chain :: "store \<Rightarrow> jsstr \<Rightarrow> int \<Rightarrow> dispatch_intent list \<Rightarrow> nat \<Rightarrow> bool \<Rightarrow> jsstr option \<Rightarrow> dispatch_reason" where
  "check_chain s actor now intents n leaf None = Ok"
| "check_chain s actor now intents 0 leaf (Some c) = Delegation_unknown"
| "check_chain s actor now intents (Suc n) leaf (Some c) =
     (case find_delegation s c of
        None \<Rightarrow> Delegation_unknown
      | Some d \<Rightarrow>
          if is_revoked s c then Delegation_revoked
          else if dl_expires d \<le> now then Delegation_expired
          else if leaf \<and> dl_actor d \<noteq> actor then Delegation_wrong_actor
          else if \<not> list_all (\<lambda>i. action_in_scope (dl_scope d) (di_action_type i) (di_target i)) intents then Delegation_out_of_scope
          else check_chain s actor now intents n False (dl_parent d))"

definition check_delegation :: "store \<Rightarrow> jsstr \<Rightarrow> jsstr \<Rightarrow> int \<Rightarrow> dispatch_intent list \<Rightarrow> dispatch_reason" where
  "check_delegation s i actor now intents = check_chain s actor now intents (max_delegation_depth + 1) True (Some i)"

subsection \<open>Budgets\<close>

definition count_since :: "store \<Rightarrow> jsstr \<Rightarrow> int \<Rightarrow> int" where
  "count_since s b since = int (length (filter (\<lambda>r. rv_budget r = b \<and> since < rv_at r) (st_reservations s)))"

definition budget_count :: "jsstr \<Rightarrow> int \<Rightarrow> int \<Rightarrow> store \<Rightarrow> (int \<times> int \<times> bool) \<times> store" where
  "budget_count b window wall s0 =
     (case effective_now wall s0 of ((now, rolled_back), s) \<Rightarrow> ((count_since s b (now - window * 1000), now, rolled_back), s))"

definition reserve_budget :: "budget_policy \<Rightarrow> jsstr \<Rightarrow> int \<Rightarrow> store \<Rightarrow> bool \<times> int" where
  "reserve_budget p grp now s =
     (list_ex (\<lambda>r. rv_budget r = bp_id p \<and> rv_group r = grp) (st_reservations s),
      count_since s (bp_id p) (now - bp_window p * 1000))"

definition unique_failed :: "string \<Rightarrow> exn" where
  "unique_failed columns = Err (js ''UNIQUE constraint failed: '' @ js columns)"

definition insert_reservation :: "jsstr \<Rightarrow> int \<Rightarrow> budget_policy \<Rightarrow> store \<Rightarrow> store outcome" where
  "insert_reservation grp now p s =
     (if list_ex (\<lambda>r. rv_budget r = bp_id p \<and> rv_group r = grp) (st_reservations s)
      then Inl (unique_failed ''budget_reservations.budget_id, budget_reservations.action_group'')
      else Inr (s\<lparr> st_reservations :=
             filter (\<lambda>r. \<not> (rv_budget r = bp_id p \<and> rv_at r \<le> now - max (bp_window p) 1 * 1000 * 2))
               (st_reservations s @ [\<lparr> rv_budget = bp_id p, rv_group = grp, rv_at = now, rv_version = bp_version p \<rparr>]) \<rparr>))"

definition approval_consumed :: "store \<Rightarrow> jsstr \<Rightarrow> bool" where
  "approval_consumed s i \<longleftrightarrow> i \<in> cs_id ` set (st_consumed s)"

definition consume_approval :: "jsstr \<Rightarrow> int \<Rightarrow> dispatch_approval \<Rightarrow> store \<Rightarrow> store outcome" where
  "consume_approval grp now a s =
     (if approval_consumed s (da_id a) then Inl (unique_failed ''approval_consumptions.approval_id'')
      else Inr (s\<lparr> st_consumed := st_consumed s @
             [\<lparr> cs_id = da_id a, cs_actor = da_actor a, cs_action_type = da_action_type a, cs_request_hash = da_request_hash a,
                cs_group = grp, cs_at = now \<rparr>] \<rparr>))"

text \<open>A loop of writes inside the transaction: the first throw ends it.\<close>

fun write_all :: "('a \<Rightarrow> 's \<Rightarrow> 's outcome) \<Rightarrow> 'a list \<Rightarrow> 's \<Rightarrow> 's outcome" where
  "write_all f [] s = Inr s"
| "write_all f (x # xs) s = rbind (f x s) (write_all f xs)"

subsection \<open>The guard: configuration and the workspace\<close>

datatype consume_refusal =
    CNot_found | CWrong_environment | CRevoked | CConsumed | CExpired | CActor_mismatch | CAction_mismatch | CPolicy_mismatch
  | CRequest_mismatch | CTarget_mismatch | CClock_uncertain

fun refusal_text :: "consume_refusal \<Rightarrow> jsstr" where
  "refusal_text CNot_found = js ''not_found''"
| "refusal_text CWrong_environment = js ''wrong_environment''"
| "refusal_text CRevoked = js ''revoked''"
| "refusal_text CConsumed = js ''consumed''"
| "refusal_text CExpired = js ''expired''"
| "refusal_text CActor_mismatch = js ''actor_mismatch''"
| "refusal_text CAction_mismatch = js ''action_mismatch''"
| "refusal_text CPolicy_mismatch = js ''policy_mismatch''"
| "refusal_text CRequest_mismatch = js ''request_mismatch''"
| "refusal_text CTarget_mismatch = js ''target_mismatch''"
| "refusal_text CClock_uncertain = js ''clock_uncertain''"

datatype consume_answer = Consumed | Refused consume_refusal | Server_refused int | Unreachable jsstr

datatype active_answer = Active_approval "jsstr option" | Active_failed jsstr

datatype delegation_answer = Delegation_answer cloud_delegation "bool option" | Delegation_failed jsstr jsstr

record consume_request =
  cq_approval_id :: jsstr
  cq_request_hash :: jsstr
  cq_action_type :: jsstr
  cq_policy_digest :: jsstr
  cq_target_id :: jsstr

record cloud =
  cl_consume :: "consume_request \<Rightarrow> consume_answer"
  cl_delegation :: "jsstr \<Rightarrow> (jsstr \<times> jsstr) option \<Rightarrow> delegation_answer"
  cl_active :: "jsstr \<Rightarrow> jsstr \<Rightarrow> jsstr \<Rightarrow> active_answer"
  cl_target_id :: "jsstr \<Rightarrow> jsstr"

record guard_config =
  gc_keys :: "key_lookup option"
  gc_require_approval :: "jsstr list"
  gc_approvals :: "jsval list"
  gc_max_lifetime :: "jnum option"
  gc_cloud :: "cloud option"
  gc_cache_ms :: "int option"
  gc_budgets :: "budget_policy list"
  gc_shared_gateway :: bool

definition deny :: "dispatch_reason \<Rightarrow> jsstr \<Rightarrow> budget_observation list \<Rightarrow> dispatch_decision" where
  "deny reason detail budgets = \<lparr> dd_allow = False, dd_reason = reason, dd_detail = detail, dd_consumed = [], dd_budgets = budgets \<rparr>"

definition unavailable :: "budget_policy list \<Rightarrow> bool \<Rightarrow> jsstr \<Rightarrow> dispatch_decision" where
  "unavailable policies must_deny detail =
     (let budgets = map (\<lambda>p. \<lparr> bo_id = bp_id p, bo_version = bp_version p, bo_enforce = bp_enforce p, bo_authority = bp_authority p,
                              bo_count = 0, bo_max = bp_max p, bo_window = bp_window p, bo_state = Unavailable, bo_repeated = False \<rparr>) policies in
      if must_deny then deny Counter_unavailable (js ''the dispatch counter could not be used ('' @ detail @ js '')'') budgets
      else \<lparr> dd_allow = True, dd_reason = Ok, dd_detail = js ''monitoring only: the counter was unavailable'', dd_consumed = [], dd_budgets = budgets \<rparr>)"

definition exn_text :: "exn \<Rightarrow> jsstr" where
  "exn_text x = (case x of Err t \<Rightarrow> t | _ \<Rightarrow> [])"

definition is_cloud_approval_ref :: "jsval \<Rightarrow> bool" where
  "is_cloud_approval_ref v \<longleftrightarrow> is_obj v \<and> length (members v) = 1 \<and>
     (case fld v (js ''cloud_approval_id'') of VStr s \<Rightarrow> 1 \<le> length s \<and> length s \<le> 100 \<and> list_all printable s | _ \<Rightarrow> False)"

definition workspace_refusal :: "consume_answer \<Rightarrow> jsstr \<Rightarrow> jsstr \<Rightarrow> dispatch_reason \<times> jsstr" where
  "workspace_refusal answer action_type i =
     (case answer of
        Unreachable detail \<Rightarrow> (Approval_unavailable, js ''the workspace could not be reached to consume approval '' @ i @ js '' for '' @ action_type @
           js '', and no valid local approval was presented ('' @ detail @ js '')'')
      | Refused CConsumed \<Rightarrow> (Approval_replayed, js ''approval '' @ i @ js '' was already used'')
      | Refused r \<Rightarrow> (Approval_rejected, js ''the workspace did not approve '' @ action_type @ js '' with '' @ i @ js '' ('' @ refusal_text r @ js '')'')
      | Server_refused n \<Rightarrow> (Approval_rejected, js ''the workspace did not approve '' @ action_type @ js '' with '' @ i @ js '' (status '' @ int_text n @ js '')'')
      | Consumed \<Rightarrow> (Ok, []))"

end
