(* ===== verification/Guard.thy ===== *)
theory Guard
  imports DispatchStore
begin

section \<open>The guard's decision\<close>

text \<open>
  \<open>createDispatchGuard(config).authorize\<close> of \<^verbatim>\<open>packages/gateway/src/dispatch-store.ts\<close>, in the phases of \<open>DispatchStore\<close>. \<open>wall\<close> numbers the
  readings of the clock in the order the code takes them. An allowed decision carries the approvals consumed and the budgets observed.
\<close>

subsection \<open>Choosing approvals\<close>

definition requires_approval :: "guard_config \<Rightarrow> jsstr \<Rightarrow> bool" where
  "requires_approval cfg action_type \<longleftrightarrow> list_ex (\<lambda>t. t = js ''*'' \<or> t = action_type) (gc_require_approval cfg)"

fun rejection_text :: "approval_rejection \<Rightarrow> jsstr" where
  "rejection_text Malformed = js ''malformed''"
| "rejection_text Unknown_approver = js ''unknown_approver''"
| "rejection_text Bad_signature = js ''bad_signature''"
| "rejection_text Self_approval = js ''self_approval''"
| "rejection_text Wrong_actor = js ''wrong_actor''"
| "rejection_text Wrong_action = js ''wrong_action''"
| "rejection_text Wrong_target = js ''wrong_target''"
| "rejection_text Wrong_policy = js ''wrong_policy''"
| "rejection_text Changed_request = js ''changed_request''"
| "rejection_text Expired = js ''expired''"
| "rejection_text Not_yet_valid = js ''not_yet_valid''"
| "rejection_text Bad_lifetime = js ''bad_lifetime''"

text \<open>The loop over the candidates: the first valid approval not chosen already, and the last rejection before it.\<close>

fun pick_candidate ::
  "(jsval \<Rightarrow> approval_rejection + dispatch_approval) \<Rightarrow> jsstr list \<Rightarrow> jsval list \<Rightarrow> approval_rejection option \<Rightarrow>
     dispatch_approval option \<times> approval_rejection option" where
  "pick_candidate check taken [] last_reject = (None, last_reject)"
| "pick_candidate check taken (c # cs) last_reject =
     (case check c of
        Inl r \<Rightarrow> pick_candidate check taken cs (Some r)
      | Inr a \<Rightarrow> if da_id a \<in> set taken then pick_candidate check taken cs last_reject else (Some a, last_reject))"

text \<open>A reference the workspace holds: one presented, or the active one it names for this request. The second component is the note on a failed lookup.\<close>

definition workspace_candidate :: "cloud \<Rightarrow> jsstr list \<Rightarrow> jsstr list \<Rightarrow> approval_subject \<Rightarrow> jsstr option \<times> jsstr" where
  "workspace_candidate cl refs taken subject =
     (case find (\<lambda>i. i \<notin> set taken) refs of
        Some i \<Rightarrow> (Some i, [])
      | None \<Rightarrow>
          (case cl_active cl (as_request_hash subject) (as_action_type subject) (cl_target_id cl (as_target subject)) of
             Active_approval (Some i) \<Rightarrow> (if i \<in> set taken then None else Some i, [])
           | Active_approval None \<Rightarrow> (None, [])
           | Active_failed reason \<Rightarrow> (None, js ''; the workspace could not be asked for an active approval ('' @ reason @ js '')'')))"

text \<open>The loop over the intents: the local and the workspace approvals chosen, by the index of the intent, or the refusal.\<close>

type_synonym choice = "(nat \<times> dispatch_approval) list \<times> (nat \<times> jsstr) list"

definition approval_failure ::
  "guard_config \<Rightarrow> jsval list \<Rightarrow> dispatch_intent \<Rightarrow> approval_subject \<Rightarrow> approval_rejection option \<Rightarrow> jsstr \<Rightarrow> dispatch_reason \<times> jsstr" where
  "approval_failure cfg candidates i subject last_reject note' =
     (let hint = (case gc_cloud cfg of None \<Rightarrow> []
          | Some cl \<Rightarrow> js ''; to approve it in the workspace use request_hash '' @ as_request_hash subject @ js '' and target_id '' @
              cl_target_id cl (di_target i) @ note') in
      if candidates = [] \<or> gc_keys cfg = None then
        (Approval_required, di_action_type i @ js '' needs a single-use approval and none was presented'' @ hint)
      else (Approval_rejected, js ''no presented approval is valid for this exact '' @ di_action_type i @ js '' ('' @
         (case last_reject of None \<Rightarrow> js ''no match'' | Some r \<Rightarrow> rejection_text r) @ js '')'' @ hint))"

fun choose_approvals ::
  "env \<Rightarrow> verifier \<Rightarrow> guard_config \<Rightarrow> dispatch_request \<Rightarrow> int \<Rightarrow> jsval list \<Rightarrow> jsstr list \<Rightarrow> nat \<Rightarrow> dispatch_intent list \<Rightarrow> choice \<Rightarrow>
     ((dispatch_reason \<times> jsstr) + choice) outcome" where
  "choose_approvals e ed cfg req now candidates refs n [] ch = Inr (Inr ch)"
| "choose_approvals e ed cfg req now candidates refs n (i # intents) (chosen, cloud_chosen) =
     (if \<not> requires_approval cfg (di_action_type i) then choose_approvals e ed cfg req now candidates refs (Suc n) intents (chosen, cloud_chosen)
      else rbind (request_hash e (di_request i)) (\<lambda>h.
        let subject = \<lparr> as_actor = dr_actor req, as_action_type = di_action_type i, as_target = di_target i,
                        as_policy_digest = dr_policy_digest req, as_request_hash = h \<rparr>;
            (picked, last_reject) = (case gc_keys cfg of
               None \<Rightarrow> (None, None)
             | Some keys \<Rightarrow> pick_candidate (\<lambda>c. check_approval e ed keys c subject now (gc_max_lifetime cfg) None)
                 (map (da_id \<circ> snd) chosen) candidates None)
        in case picked of
             Some a \<Rightarrow> choose_approvals e ed cfg req now candidates refs (Suc n) intents (chosen @ [(n, a)], cloud_chosen)
           | None \<Rightarrow>
               (case (case gc_cloud cfg of None \<Rightarrow> (None, []) | Some cl \<Rightarrow> workspace_candidate cl refs (map snd cloud_chosen) subject) of
                  (Some r, _) \<Rightarrow> choose_approvals e ed cfg req now candidates refs (Suc n) intents (chosen, cloud_chosen @ [(n, r)])
                | (None, note') \<Rightarrow> Inr (Inl (approval_failure cfg candidates i subject last_reject note')))))"

subsection \<open>A delegation the workspace resolves\<close>

definition entries_cover :: "env \<Rightarrow> cloud \<Rightarrow> jsstr list \<Rightarrow> dispatch_intent \<Rightarrow> bool" where
  "entries_cover e cl held i =
     (case action_scope_entries e (di_action_type i) (cl_target_id cl (di_target i)) of
        Inl _ \<Rightarrow> False
      | Inr (exact, any) \<Rightarrow> exact \<in> set held \<or> any \<in> set held)"

fun state_text :: "cloud_state \<Rightarrow> jsstr" where
  "state_text Active = js ''active''"
| "state_text Ended = js ''ended''"
| "state_text Revoked = js ''revoked''"
| "state_text State_expired = js ''expired''"
| "state_text Invalid_scope = js ''invalid_scope''"
| "state_text Unknown_ancestry = js ''unknown_ancestry''"
| "state_text Not_found = js ''not_found''"

definition judge_workspace ::
  "env \<Rightarrow> cloud \<Rightarrow> jsstr \<Rightarrow> int \<Rightarrow> cloud_delegation \<Rightarrow> bool option \<Rightarrow> dispatch_intent list \<Rightarrow> (dispatch_reason \<times> jsstr) option" where
  "judge_workspace e cl session now d cov intents =
     (let sd = js ''the session delegation '' @ session in
      if cd_state d = Revoked then Some (Delegation_revoked, sd @ js '' was revoked'')
      else if cd_state d = State_expired \<or> cd_state d = Ended then Some (Delegation_expired, sd @ js '' is '' @ state_text (cd_state d))
      else if cd_state d \<noteq> Active \<or> \<not> cd_grants d then Some (Delegation_unknown, sd @ js '' grants nothing ('' @ state_text (cd_state d) @ js '')'')
      else if (case cd_expires_at d of None \<Rightarrow> False | Some t \<Rightarrow> t \<le> now) then Some (Delegation_expired, sd @ js '' expired'')
      else (case find (\<lambda>(n, i). \<not> (if n = 0 \<and> cov \<noteq> None then the cov else entries_cover e cl (cd_entries d) i)) (enumerate 0 intents) of
         None \<Rightarrow> None
       | Some (n, i) \<Rightarrow> Some (Delegation_out_of_scope, sd @ js '' does not cover '' @ di_action_type i @ js '' on this target'')))"

definition check_workspace_delegation ::
  "env \<Rightarrow> cloud \<Rightarrow> jsstr \<Rightarrow> dispatch_intent list \<Rightarrow> int \<Rightarrow> int \<Rightarrow> int \<Rightarrow> store \<Rightarrow> (dispatch_reason \<times> jsstr) option \<times> store" where
  "check_workspace_delegation e cl session intents ttl wall wall' s0 =
     (case effective_now wall s0 of ((now, _), s) \<Rightarrow>
        case cached_delegation s session now ttl of
          Some d \<Rightarrow> (judge_workspace e cl session now d None intents, s)
        | None \<Rightarrow>
            (case cl_delegation cl session
                (case intents of [] \<Rightarrow> None | i # _ \<Rightarrow> Some (di_action_type i, cl_target_id cl (di_target i))) of
               Delegation_failed reason why \<Rightarrow>
                 (Some (Delegation_unknown, js ''the session delegation '' @ session @ js '' could not be resolved ('' @ reason @ js '': '' @ why @
                    js ''); unknown ancestry grants nothing''), s)
             | Delegation_answer d cov \<Rightarrow>
                 let s1 = drop_cached_delegation session s;
                     s2 = (if cd_state d = Active \<and> cd_grants d
                           then (case effective_now wall' s1 of ((now', _), s1') \<Rightarrow> put_cached_delegation session d now' s1') else s1)
                 in (judge_workspace e cl session now d cov intents, s2)))"

subsection \<open>The transaction\<close>

record prepared =
  pr_req :: dispatch_request
  pr_policies :: "budget_policy list"
  pr_chosen :: "(nat \<times> dispatch_approval) list"
  pr_cloud :: "(nat \<times> jsstr) list"
  pr_workspace :: bool
  pr_shared_gateway :: bool
  pr_must_deny :: bool

definition observe :: "budget_policy \<Rightarrow> int \<Rightarrow> budget_state \<Rightarrow> bool \<Rightarrow> budget_observation" where
  "observe p cnt st repeated =
     \<lparr> bo_id = bp_id p, bo_version = bp_version p, bo_enforce = bp_enforce p, bo_authority = bp_authority p,
       bo_count = cnt, bo_max = bp_max p, bo_window = bp_window p, bo_state = st, bo_repeated = repeated \<rparr>"

text \<open>Why a budget policy cannot be counted now.\<close>

definition budget_problem :: "env \<Rightarrow> budget_policy \<Rightarrow> int \<Rightarrow> bool \<Rightarrow> (dispatch_reason \<times> jsstr) option outcome" where
  "budget_problem e p now rolled_back =
     (if bp_revoked p then Inr (Some (Budget_revoked, js ''the budget policy was withdrawn''))
      else if (case date_parse e (bp_expires_at p) of None \<Rightarrow> False | Some t \<Rightarrow> t \<le> now)
      then Inr (Some (Budget_expired, js ''the budget policy expired''))
      else rbind (budget_acknowledged e p) (\<lambda>ack.
        if \<not> ack then rbind (budget_digest e p) (\<lambda>d.
          Inr (Some (Budget_unacknowledged, js ''the budget policy has no acknowledgement of digest '' @ take 12 d)))
        else if rolled_back then Inr (Some (Clock_rollback, js ''the system clock is behind a time this counter already saw''))
        else Inr None))"

text \<open>One policy: why it refuses (if it does), what is observed, and whether its slot is to be taken.\<close>

definition budget_step ::
  "env \<Rightarrow> bool \<Rightarrow> jsstr \<Rightarrow> int \<Rightarrow> bool \<Rightarrow> store \<Rightarrow> budget_policy \<Rightarrow> ((dispatch_reason \<times> jsstr) option \<times> budget_observation \<times> bool) outcome" where
  "budget_step e shared grp now rolled_back s p =
     (let hard = bp_enforce p; refuse = (\<lambda>q. Inr (if hard then Some q else None, observe p 0 Unenforceable False, False)) in
      if bp_authority p = Shared_gateway \<and> \<not> shared then
        refuse (Budget_capability_unsupported,
          js ''budget '' @ bp_id p @ js '' needs a shared in-path gateway; independent hooks cannot enforce a limit shared across installations'')
      else rbind (budget_problem e p now rolled_back) (\<lambda>problem.
        case problem of
          Some q \<Rightarrow> refuse q
        | None \<Rightarrow>
            (case reserve_budget p grp now s of (repeated, cnt) \<Rightarrow>
               let after = (if repeated then cnt else cnt + 1);
                   over = (\<not> repeated \<and> bp_max p \<le> cnt)
               in Inr (if over \<and> hard then Some (Budget_exceeded, int_text (bp_max p) @ js '' actions in '' @ int_text (bp_window p) @
                         js ''s already dispatched for this agent on this installation'') else None,
                       observe p (if over \<and> hard then cnt else after) (if over then Over else if after = bp_max p then At_limit else Within) repeated,
                       \<not> repeated))))"

text \<open>The loop over the policies: a refusal, or the observations and the policies whose slot is to be taken.\<close>

fun budget_loop ::
  "env \<Rightarrow> bool \<Rightarrow> jsstr \<Rightarrow> int \<Rightarrow> bool \<Rightarrow> store \<Rightarrow> budget_policy list \<Rightarrow> budget_observation list \<Rightarrow> budget_policy list \<Rightarrow>
     (dispatch_decision + budget_observation list \<times> budget_policy list) outcome" where
  "budget_loop e shared grp now rolled_back s [] obs ins = Inr (Inr (obs, ins))"
| "budget_loop e shared grp now rolled_back s (p # ps) obs ins =
     rbind (budget_step e shared grp now rolled_back s p) (\<lambda>(refusal, ob, take_slot).
       case refusal of
         Some (reason, detail) \<Rightarrow> Inr (Inl (deny reason detail (obs @ [ob])))
       | None \<Rightarrow> budget_loop e shared grp now rolled_back s ps (obs @ [ob]) (if take_slot then ins @ [p] else ins))"

fun approval_problem :: "env \<Rightarrow> int \<Rightarrow> store \<Rightarrow> dispatch_approval list \<Rightarrow> (dispatch_reason \<times> jsstr) option" where
  "approval_problem e now s [] = None"
| "approval_problem e now s (a # as) =
     (if time_of e (da_expires_at a) \<le> now then Some (Approval_rejected, js ''the approval expired'')
      else if approval_consumed s (da_id a) then Some (Approval_replayed, js ''approval '' @ da_id a @ js '' was already used'')
      else approval_problem e now s as)"

fun reason_text :: "dispatch_reason \<Rightarrow> jsstr" where
  "reason_text Delegation_unknown = js ''delegation_unknown''"
| "reason_text Delegation_revoked = js ''delegation_revoked''"
| "reason_text Delegation_expired = js ''delegation_expired''"
| "reason_text Delegation_out_of_scope = js ''delegation_out_of_scope''"
| "reason_text Delegation_wrong_actor = js ''delegation_wrong_actor''"
| "reason_text _ = []"

text \<open>The delegation's verdict, when a local delegation is to be checked.\<close>

definition delegation_problem :: "prepared \<Rightarrow> int \<Rightarrow> store \<Rightarrow> (dispatch_reason \<times> jsstr) option" where
  "delegation_problem pr now s =
     (case dr_delegation_id (pr_req pr) of
        None \<Rightarrow> None
      | Some i \<Rightarrow>
          if pr_workspace pr then None
          else (let v = check_delegation s i (dr_actor (pr_req pr)) now (dr_intents (pr_req pr)) in
            if v = Ok then None
            else Some (v, js ''the session delegation '' @ i @ js '' does not permit this action ('' @ reason_text v @ js '')'')))"

definition decide_body :: "env \<Rightarrow> prepared \<Rightarrow> int \<Rightarrow> store \<Rightarrow> (bool \<times> dispatch_decision \<times> store) outcome" where
  "decide_body e pr wall s0 =
     (case effective_now wall s0 of ((now, rolled_back), s) \<Rightarrow>
        let grp = dr_action_group (pr_req pr); approvals = map snd (pr_chosen pr) in
        case delegation_problem pr now s of
          Some (reason, detail) \<Rightarrow> Inr (False, deny reason detail [], s)
        | None \<Rightarrow>
            (case approval_problem e now s approvals of
               Some (reason, detail) \<Rightarrow> Inr (False, deny reason detail [], s)
             | None \<Rightarrow> rbind (budget_loop e (pr_shared_gateway pr) grp now rolled_back s (pr_policies pr) [] []) (\<lambda>r.
                 case r of
                   Inl refusal \<Rightarrow> Inr (False, refusal, s)
                 | Inr (obs, ins) \<Rightarrow>
                     rbind (write_all (insert_reservation grp now) ins s) (\<lambda>s1.
                     rbind (write_all (consume_approval grp now) approvals s1) (\<lambda>s2.
                       Inr (True, \<lparr> dd_allow = True, dd_reason = Ok, dd_detail = [], dd_consumed = map da_id approvals, dd_budgets = obs \<rparr>, s2))))))"

text \<open>The final transaction; a throw inside it is the answer \<open>unavailable\<close>, with the store as it was.\<close>

definition finish :: "env \<Rightarrow> prepared \<Rightarrow> int \<Rightarrow> store \<Rightarrow> dispatch_decision \<times> store" where
  "finish e pr wall s =
     (case transaction (decide_body e pr wall) s of
        (Inr d, s') \<Rightarrow> (d, s')
      | (Inl x, s') \<Rightarrow> (unavailable (pr_policies pr) (pr_must_deny pr) (exn_text x), s'))"

text \<open>The dry run before an approval is spent in the workspace: the same body, never committed.\<close>

definition dry_run :: "env \<Rightarrow> prepared \<Rightarrow> int \<Rightarrow> store \<Rightarrow> dispatch_decision \<times> store" where
  "dry_run e pr wall s =
     (case transaction (\<lambda>s. rbind (decide_body e pr wall s) (\<lambda>(c, d, s'). Inr (False, d, s'))) s of
        (Inr d, s') \<Rightarrow> (d, s')
      | (Inl x, s') \<Rightarrow> (unavailable (pr_policies pr) (pr_must_deny pr) (exn_text x), s'))"

subsection \<open>\<open>authorize\<close>\<close>

text \<open>Before the transaction: nothing to check at all (\<open>Inl\<close> with the store untouched), a refusal, or what the transaction is to decide.
  \<open>opened\<close> is the store when its file opens, else the error's message.\<close>

definition applicable :: "guard_config \<Rightarrow> dispatch_request \<Rightarrow> budget_policy list" where
  "applicable cfg req =
     filter (\<lambda>p. bp_actor p = dr_actor req \<and> list_ex (\<lambda>i. di_action_type i \<in> set (bp_operations p)) (dr_intents req)) (gc_budgets cfg)"

definition prepare ::
  "env \<Rightarrow> verifier \<Rightarrow> guard_config \<Rightarrow> dispatch_request \<Rightarrow> (nat \<Rightarrow> int) \<Rightarrow> jsstr + store \<Rightarrow> (dispatch_decision + prepared) outcome \<times> (jsstr + store)" where
  "prepare e ed cfg req wall opened =
     (let policies = applicable cfg req; enforcing = list_ex bp_enforce policies;
          needs = list_ex (\<lambda>i. requires_approval cfg (di_action_type i)) (dr_intents req);
          must_deny = (enforcing \<or> needs \<or> dr_delegation_id req \<noteq> None) in
      if \<not> (enforcing \<or> needs \<or> dr_delegation_id req \<noteq> None \<or> policies \<noteq> []) then
        (Inr (Inl \<lparr> dd_allow = True, dd_reason = Ok, dd_detail = [], dd_consumed = [], dd_budgets = [] \<rparr>), opened)
      else case opened of
        Inl message \<Rightarrow> (Inr (Inl (unavailable policies must_deny message)), opened)
      | Inr s0 \<Rightarrow>
          (case effective_now (wall 0) s0 of ((now, _), s) \<Rightarrow>
             let presented = (if needs then gc_approvals cfg else []);
                 refs = map (\<lambda>c. str_of (fld c (js ''cloud_approval_id''))) (filter is_cloud_approval_ref presented);
                 candidates = filter (\<lambda>c. \<not> is_cloud_approval_ref c) presented in
             case (if needs then choose_approvals e ed cfg req now candidates refs 0 (dr_intents req) ([], []) else Inr (Inr ([], []))) of
               Inl x \<Rightarrow> (Inl x, Inr s)
             | Inr (Inl (reason, detail)) \<Rightarrow> (Inr (Inl (deny reason detail [])), Inr s)
             | Inr (Inr (chosen, cloud_chosen)) \<Rightarrow>
                 let pr = (\<lambda>ws. \<lparr> pr_req = req, pr_policies = policies, pr_chosen = chosen, pr_cloud = cloud_chosen, pr_workspace = ws,
                                 pr_shared_gateway = gc_shared_gateway cfg, pr_must_deny = must_deny \<rparr>) in
                 (case (dr_delegation_id req, gc_cloud cfg) of
                    (Some i, Some cl) \<Rightarrow>
                      if has_delegation s i then (Inr (Inr (pr False)), Inr s)
                      else (case check_workspace_delegation e cl i (dr_intents req) (case gc_cache_ms cfg of None \<Rightarrow> 15000 | Some t \<Rightarrow> t) (wall 1) (wall 2) s of
                         (Some (reason, detail), s') \<Rightarrow> (Inr (Inl (deny reason detail [])), Inr s')
                       | (None, s') \<Rightarrow> (Inr (Inr (pr True)), Inr s'))
                  | _ \<Rightarrow> (Inr (Inr (pr False)), Inr s))))"

text \<open>The consumption in the workspace, approval by approval: the ids consumed, and the refusal that ended the loop.\<close>

fun consume_in_workspace :: "env \<Rightarrow> cloud \<Rightarrow> dispatch_request \<Rightarrow> (nat \<times> jsstr) list \<Rightarrow> (jsstr list \<times> dispatch_decision option) outcome" where
  "consume_in_workspace e cl req [] = Inr ([], None)"
| "consume_in_workspace e cl req ((n, approval_id) # rest) =
     (let i = dr_intents req ! n in
      rbind (request_hash e (di_request i)) (\<lambda>h.
        case cl_consume cl \<lparr> cq_approval_id = approval_id, cq_request_hash = h, cq_action_type = di_action_type i,
                             cq_policy_digest = dr_policy_digest req, cq_target_id = cl_target_id cl (di_target i) \<rparr> of
          Consumed \<Rightarrow> rbind (consume_in_workspace e cl req rest) (\<lambda>(ids, d). Inr (approval_id # ids, d))
        | answer \<Rightarrow> (case workspace_refusal answer (di_action_type i) approval_id of (reason, detail) \<Rightarrow> Inr ([], Some (deny reason detail [])))))"

text \<open>\<open>authorize\<close> when no other process writes in between: the decision, the store after it and the approvals spent in the workspace.\<close>

definition authorize ::
  "env \<Rightarrow> verifier \<Rightarrow> guard_config \<Rightarrow> dispatch_request \<Rightarrow> (nat \<Rightarrow> int) \<Rightarrow> jsstr + store \<Rightarrow> dispatch_decision outcome \<times> (jsstr + store) \<times> jsstr list" where
  "authorize e ed cfg req wall opened =
     (case prepare e ed cfg req wall opened of
        (Inl x, o') \<Rightarrow> (Inl x, o', [])
      | (Inr (Inl d), o') \<Rightarrow> (Inr d, o', [])
      | (Inr (Inr pr), Inl m) \<Rightarrow> (Inr (unavailable (pr_policies pr) (pr_must_deny pr) m), Inl m, [])
      | (Inr (Inr pr), Inr s) \<Rightarrow>
          (case (if pr_cloud pr = [] then None else gc_cloud cfg) of
             None \<Rightarrow> (case finish e pr (wall 4) s of (d, s') \<Rightarrow> (Inr d, Inr s', []))
           | Some cl \<Rightarrow>
               (case dry_run e pr (wall 3) s of (dry, s1) \<Rightarrow>
                  if \<not> dd_allow dry then (Inr dry, Inr s1, [])
                  else (case consume_in_workspace e cl req (pr_cloud pr) of
                     Inl x \<Rightarrow> (Inr (unavailable (pr_policies pr) (pr_must_deny pr) (exn_text x)), Inr s1, [])
                   | Inr (ids, Some refusal) \<Rightarrow> (Inr refusal, Inr s1, ids)
                   | Inr (ids, None) \<Rightarrow>
                       (case finish e pr (wall 4) s1 of (d, s2) \<Rightarrow>
                          (Inr (if ids \<noteq> [] \<and> dd_allow d then d\<lparr> dd_consumed := dd_consumed d @ ids \<rparr> else d), Inr s2, ids))))))"

end
