(* ===== verification/GuardFacts.thy ===== *)
theory GuardFacts
  imports Guard
begin

section \<open>What the store and the guard keep\<close>

text \<open>
  The lemmas of the dispatch boundary: a table written once for each key (the locale \<open>write_once\<close>, interpreted on the table of consumed approvals and on the
  budget reservations of one action), the clock, the loop over the budgets, and what an allowed or refused decision of \<open>finish\<close> means for the store.
\<close>

subsection \<open>A table with a unique key\<close>

locale write_once =
  fixes used :: "'s \<Rightarrow> 'k \<Rightarrow> bool"
    and put :: "'a \<Rightarrow> 's \<Rightarrow> 's outcome"
    and key :: "'a \<Rightarrow> 'k"
  assumes write_fresh: "put x s = Inr s' \<Longrightarrow> \<not> used s (key x)"
    and used_write: "put x s = Inr s' \<Longrightarrow> used s' k \<longleftrightarrow> k = key x \<or> used s k"
begin

lemma write_all_used: "write_all put xs s = Inr s' \<Longrightarrow> used s' k \<longleftrightarrow> k \<in> key ` set xs \<or> used s k"
proof (induction xs arbitrary: s)
  case (Cons x xs)
  then obtain s1 where s1: "put x s = Inr s1" "write_all put xs s1 = Inr s'" by (auto simp: rbind_Inr_iff)
  show ?case using Cons.IH [OF s1(2)] used_write [OF s1(1), of k] by auto
qed simp

lemma write_all_fresh: "write_all put xs s = Inr s' \<Longrightarrow> x \<in> set xs \<Longrightarrow> \<not> used s (key x)"
proof (induction xs arbitrary: s)
  case (Cons y xs)
  then obtain s1 where s1: "put y s = Inr s1" "write_all put xs s1 = Inr s'" by (auto simp: rbind_Inr_iff)
  show ?case using Cons.IH [OF s1(2)] Cons.prems(2) used_write [OF s1(1), of "key x"] write_fresh [OF s1(1)] by auto
qed simp

lemma write_all_distinct: "write_all put xs s = Inr s' \<Longrightarrow> distinct (map key xs)"
proof (induction xs arbitrary: s)
  case (Cons x xs)
  then obtain s1 where s1: "put x s = Inr s1" "write_all put xs s1 = Inr s'" by (auto simp: rbind_Inr_iff)
  have "key x \<notin> key ` set xs" using write_all_fresh [OF s1(2)] used_write [OF s1(1), of "key x"] by auto
  with Cons.IH [OF s1(2)] show ?case by simp
qed simp

end

interpretation ap: write_once approval_consumed "consume_approval grp now" da_id for grp now
  by unfold_locales (auto simp: consume_approval_def approval_consumed_def split: if_splits)

definition slot_taken :: "jsstr \<Rightarrow> store \<Rightarrow> jsstr \<Rightarrow> bool" where
  "slot_taken grp s b \<longleftrightarrow> (\<exists>r \<in> set (st_reservations s). rv_budget r = b \<and> rv_group r = grp)"

lemma insert_reservation_Inr:
  "insert_reservation grp now p s = Inr s' \<longleftrightarrow> \<not> slot_taken grp s (bp_id p) \<and> s' = s\<lparr> st_reservations :=
     filter (\<lambda>r. \<not> (rv_budget r = bp_id p \<and> rv_at r \<le> now - max (bp_window p) 1 * 1000 * 2)) (st_reservations s) @
     [\<lparr> rv_budget = bp_id p, rv_group = grp, rv_at = now, rv_version = bp_version p \<rparr>] \<rparr>"
  by (auto simp: insert_reservation_def slot_taken_def list_ex_iff)

interpretation sl: write_once "slot_taken grp" "insert_reservation grp now" bp_id for grp now
proof unfold_locales
  fix p s s' k
  assume w: "insert_reservation grp now p s = Inr s'"
  then show "\<not> slot_taken grp s (bp_id p)" by (simp add: insert_reservation_Inr)
  show "slot_taken grp s' k \<longleftrightarrow> k = bp_id p \<or> slot_taken grp s k"
    using w unfolding insert_reservation_Inr by (cases "k = bp_id p") (auto simp: slot_taken_def)
qed

subsection \<open>Frames\<close>

lemma write_all_frame: "(\<And>x s s'. f x s = Inr s' \<Longrightarrow> g s' = g s) \<Longrightarrow> write_all f xs s = Inr s' \<Longrightarrow> g s' = g s"
  by (induction xs arbitrary: s) (auto simp: rbind_Inr_iff)

lemma consume_frame [simp]:
  assumes "consume_approval grp now a s = Inr s'"
  shows "st_high s' = st_high s" "st_delegations s' = st_delegations s" "st_revoked s' = st_revoked s" "st_reservations s' = st_reservations s"
    "map cs_id (st_consumed s') = map cs_id (st_consumed s) @ [da_id a]"
  using assms by (auto simp: consume_approval_def split: if_splits)

lemma insert_frame [simp]:
  assumes "insert_reservation grp now p s = Inr s'"
  shows "st_high s' = st_high s" "st_delegations s' = st_delegations s" "st_revoked s' = st_revoked s" "st_consumed s' = st_consumed s"
  using assms by (auto simp: insert_reservation_def split: if_splits)

lemma consume_all:
  assumes "write_all (consume_approval grp now) as s = Inr s'"
  shows "st_high s' = st_high s" "st_delegations s' = st_delegations s" "st_revoked s' = st_revoked s" "st_reservations s' = st_reservations s"
    "map cs_id (st_consumed s') = map cs_id (st_consumed s) @ map da_id as"
proof -
  note fr = write_all_frame [OF _ assms]
  show "st_high s' = st_high s" "st_delegations s' = st_delegations s" "st_revoked s' = st_revoked s" "st_reservations s' = st_reservations s"
    by (rule fr; simp)+
  show "map cs_id (st_consumed s') = map cs_id (st_consumed s) @ map da_id as"
    using assms by (induction as arbitrary: s) (auto simp: rbind_Inr_iff)
qed

lemma insert_all:
  assumes "write_all (insert_reservation grp now) ps s = Inr s'"
  shows "st_high s' = st_high s" "st_delegations s' = st_delegations s" "st_revoked s' = st_revoked s" "st_consumed s' = st_consumed s"
proof -
  note fr = write_all_frame [OF _ assms]
  show "st_high s' = st_high s" "st_delegations s' = st_delegations s" "st_revoked s' = st_revoked s" "st_consumed s' = st_consumed s"
    by (rule fr; simp)+
qed

subsection \<open>The clock\<close>

definition now_of :: "int \<Rightarrow> store \<Rightarrow> int" where
  "now_of wall s = max wall (high_water s)"

lemma effective_now_cases:
  obtains rb s1 where "effective_now wall s = ((now_of wall s, rb), s1)" "high_water s1 = now_of wall s"
    "st_consumed s1 = st_consumed s" "st_reservations s1 = st_reservations s" "st_delegations s1 = st_delegations s" "st_revoked s1 = st_revoked s"
    "st_cache s1 = st_cache s"
  by (auto simp: effective_now_def now_of_def high_water_def Let_def max_def split: option.splits)

lemma now_of_ge: "high_water s \<le> now_of wall s"
  by (simp add: now_of_def)

subsection \<open>The loop over the budgets\<close>

definition counts :: "budget_observation \<Rightarrow> bool" where
  "counts ob \<longleftrightarrow> \<not> bo_repeated ob \<and> bo_state ob \<in> {Within, At_limit, Over}"

lemma observe_sel [simp]:
  "bo_id (observe p c st rp) = bp_id p" "bo_repeated (observe p c st rp) = rp" "bo_state (observe p c st rp) = st"
  "bo_enforce (observe p c st rp) = bp_enforce p"
  by (simp_all add: observe_def)

lemma deny_sel [simp]: "dd_allow (deny r d b) = False" "dd_consumed (deny r d b) = []" "dd_budgets (deny r d b) = b"
  "dd_reason (deny r d b) = r"
  by (simp_all add: deny_def)

lemma budget_step_facts:
  assumes "budget_step e shared grp now rb s p = Inr (refusal, ob, take_slot)"
  shows "bo_id ob = bp_id p" "refusal \<noteq> None \<Longrightarrow> bp_enforce p" "refusal = None \<Longrightarrow> counts ob = take_slot"
    "take_slot \<Longrightarrow> refusal = None \<Longrightarrow> bp_enforce p \<Longrightarrow> count_since s (bp_id p) (now - bp_window p * 1000) < bp_max p"
    "bp_enforce p \<Longrightarrow> refusal = None \<Longrightarrow> budget_problem e p now rb = Inr None"
  using assms by (auto simp: budget_step_def Let_def rbind_Inr_iff reserve_budget_def counts_def split: if_splits option.splits)

lemma budget_loop_Cons:
  assumes "budget_loop e shared grp now rb s (p # ps) obs ins = Inr r"
  obtains (refused) q ob take_slot where "budget_step e shared grp now rb s p = Inr (Some q, ob, take_slot)" "r = Inl (deny (fst q) (snd q) (obs @ [ob]))"
  | (passed) ob take_slot where "budget_step e shared grp now rb s p = Inr (None, ob, take_slot)"
      "budget_loop e shared grp now rb s ps (obs @ [ob]) (if take_slot then ins @ [p] else ins) = Inr r"
proof (cases "budget_step e shared grp now rb s p")
  case (Inr t)
  obtain refusal ob take_slot where t: "t = (refusal, ob, take_slot)" by (cases t)
  show thesis
  proof (cases refusal)
    case None
    then show thesis using passed assms Inr t by simp
  next
    case (Some q)
    then show thesis using refused assms Inr t by (cases q) simp
  qed
qed (use assms in simp)

text \<open>The policies whose slot is taken are those of the counting observations, in order; an enforcing one had room.\<close>

lemma budget_loop_taken:
  "budget_loop e shared grp now rb s ps obs ins = Inr (Inr (obs', ins')) \<Longrightarrow>
     (\<exists>o2 i2. obs' = obs @ o2 \<and> ins' = ins @ i2 \<and> map bp_id i2 = map bo_id (filter counts o2) \<and> set i2 \<subseteq> set ps \<and>
       (\<forall>p \<in> set i2. bp_enforce p \<longrightarrow> count_since s (bp_id p) (now - bp_window p * 1000) < bp_max p))"
proof (induction ps arbitrary: obs ins)
  case (Cons p ps)
  from Cons.prems show ?case
  proof (cases rule: budget_loop_Cons)
    case (passed ob take_slot)
    note st = budget_step_facts [OF passed(1)]
    from Cons.IH [OF passed(2)] obtain o2 i2 where
      ih: "obs' = (obs @ [ob]) @ o2" "ins' = (if take_slot then ins @ [p] else ins) @ i2" "map bp_id i2 = map bo_id (filter counts o2)" "set i2 \<subseteq> set ps"
      "\<forall>p \<in> set i2. bp_enforce p \<longrightarrow> count_since s (bp_id p) (now - bp_window p * 1000) < bp_max p" by blast
    show ?thesis
      by (rule exI [of _ "ob # o2"], rule exI [of _ "(if take_slot then [p] else []) @ i2"]) (use ih st in \<open>cases take_slot; auto\<close>)
  qed simp
qed simp

lemma budget_loop_refusal:
  "budget_loop e shared grp now rb s ps obs ins = Inr (Inl d) \<Longrightarrow> \<not> dd_allow d \<and> dd_consumed d = [] \<and> (\<exists>p \<in> set ps. bp_enforce p)"
proof (induction ps arbitrary: obs ins)
  case (Cons p ps)
  from Cons.prems show ?case
  proof (cases rule: budget_loop_Cons)
    case (refused q ob take_slot)
    then show ?thesis using budget_step_facts(2) [OF refused(1)] by auto
  next
    case (passed ob take_slot)
    from Cons.IH [OF passed(2)] show ?thesis by auto
  qed
qed simp

subsection \<open>The final transaction\<close>

text \<open>What the transaction does when it allows: the approvals were alive and unused, the slots had room, and the two tables grew by them.\<close>

lemma approval_problem_None:
  "approval_problem e now s as = None \<longleftrightarrow> (\<forall>a \<in> set as. now < time_of e (da_expires_at a) \<and> \<not> approval_consumed s (da_id a))"
  by (induction as) (auto simp: not_le split: if_splits)

lemma decide_body_cases:
  assumes "decide_body e pr wall s = Inr (c, d, s')"
  obtains (refused) "\<not> c" "\<not> dd_allow d" "dd_consumed d = []"
  | (allowed) rb s1 obs ins s2 where "c" "dd_allow d" "effective_now wall s = ((now_of wall s, rb), s1)"
      "dd_consumed d = map da_id (map snd (pr_chosen pr))" "dd_budgets d = obs"
      "delegation_problem pr (now_of wall s) s1 = None"
      "approval_problem e (now_of wall s) s1 (map snd (pr_chosen pr)) = None"
      "budget_loop e (pr_shared_gateway pr) (dr_action_group (pr_req pr)) (now_of wall s) rb s1 (pr_policies pr) [] [] = Inr (Inr (obs, ins))"
      "write_all (insert_reservation (dr_action_group (pr_req pr)) (now_of wall s)) ins s1 = Inr s2"
      "write_all (consume_approval (dr_action_group (pr_req pr)) (now_of wall s)) (map snd (pr_chosen pr)) s2 = Inr s'"
proof -
  obtain rb s1 where e: "effective_now wall s = ((now_of wall s, rb), s1)" by (rule effective_now_cases)
  show thesis
  proof (cases "delegation_problem pr (now_of wall s) s1")
    case (Some q)
    with assms e have "\<not> c \<and> \<not> dd_allow d \<and> dd_consumed d = []" by (auto simp: decide_body_def Let_def split: prod.splits)
    then show thesis using refused by blast
  next
    case dn: None
    show thesis
    proof (cases "approval_problem e (now_of wall s) s1 (map snd (pr_chosen pr))")
      case (Some q)
      with assms e dn have "\<not> c \<and> \<not> dd_allow d \<and> dd_consumed d = []" by (auto simp: decide_body_def Let_def split: prod.splits)
      then show thesis using refused by blast
    next
      case an: None
      obtain r where r: "budget_loop e (pr_shared_gateway pr) (dr_action_group (pr_req pr)) (now_of wall s) rb s1 (pr_policies pr) [] [] = Inr r"
        using assms e dn an by (auto simp: decide_body_def Let_def rbind_Inr_iff)
      show thesis
      proof (cases r)
        case (Inl q)
        with assms e dn an r have "c = False" "d = q" by (simp_all add: decide_body_def Let_def)
        then show thesis using refused budget_loop_refusal [OF r [unfolded Inl]] by blast
      next
        case (Inr q)
        obtain obs ins where q: "q = (obs, ins)" by (cases q)
        from assms e dn an r Inr q show thesis
          by (auto simp: decide_body_def Let_def rbind_Inr_iff intro!: allowed)
      qed
    qed
  qed
qed

text \<open>A refusal of the final transaction leaves the store as it was.\<close>

lemma finish_cases:
  assumes "finish e pr wall s = (d, s')"
  obtains (refused) "\<not> dd_allow d" "dd_consumed d = []" "s' = s"
  | (monitoring) "s' = s" "\<not> pr_must_deny pr" "dd_consumed d = []" "dd_allow d" "\<forall>ob \<in> set (dd_budgets d). \<not> counts ob"
  | (allowed) "dd_allow d" "decide_body e pr wall s = Inr (True, d, s')"
proof (cases "decide_body e pr wall s")
  case (Inl x)
  with assms have d: "d = unavailable (pr_policies pr) (pr_must_deny pr) (exn_text x)" "s' = s" by (simp_all add: finish_def transaction_def)
  show thesis
  proof (cases "pr_must_deny pr")
    case True
    with d show thesis by (intro refused) (simp_all add: unavailable_def Let_def)
  next
    case False
    with d show thesis by (intro monitoring) (auto simp: unavailable_def Let_def counts_def)
  qed
next
  case (Inr r)
  obtain c d0 s0 where r: "r = (c, d0, s0)" by (cases r)
  with Inr assms have eq: "d = d0" "s' = (if c then s0 else s)" by (auto simp: finish_def transaction_def)
  from Inr r have b: "decide_body e pr wall s = Inr (c, d, s0)" using eq by simp
  from b show thesis
  proof (cases rule: decide_body_cases)
    case refused
    then show thesis using that(1) eq by simp
  next
    case allowed
    then show thesis using that(3) eq b by simp
  qed
qed

end
