(* ===== verification/DispatchProps.thy ===== *)
theory DispatchProps
  imports GuardFacts
begin

section \<open>Properties of the dispatch boundary\<close>

text \<open>
  A history is a sequence of writes by any number of processes: decisions of the guard's final transaction (\<open>finish\<close>, for whatever was prepared before) and the
  other writes of the store. \<open>history e s tr\<close> says that \<open>s\<close> is the store after a history from the empty store, \<open>tr\<close> its decisions in order, each with
  the time it was taken at. The properties hold for every history: an approval is consumed once, a budget's window never holds more than its limit, the clock never
  goes back, a revoked delegation never permits anything again.
\<close>

subsection \<open>Histories\<close>

record entry =
  en_prepared :: prepared
  en_now :: int
  en_decision :: dispatch_decision

inductive other_write :: "env \<Rightarrow> store \<Rightarrow> store \<Rightarrow> bool" for e where
  read_clock: "effective_now wall s = (t, s') \<Longrightarrow> other_write e s s'"
| add: "add_delegation e input wall s = (r, s') \<Longrightarrow> other_write e s s'"
| revocation: "other_write e s (revoke i wall s)"
| import_list: "import_revocations ids wall s = (n, s') \<Longrightarrow> other_write e s s'"
| put_cache: "other_write e s (put_cached_delegation session d now s)"
| drop_cache: "other_write e s (drop_cached_delegation session s)"

inductive history :: "env \<Rightarrow> store \<Rightarrow> entry list \<Rightarrow> bool" for e where
  start: "history e empty_store []"
| other: "history e s tr \<Longrightarrow> other_write e s s' \<Longrightarrow> history e s' tr"
| decided: "history e s tr \<Longrightarrow> finish e pr wall s = (d, s') \<Longrightarrow>
     history e s' (tr @ [\<lparr> en_prepared = pr, en_now = now_of wall s, en_decision = d \<rparr>])"

text \<open>What the other writes keep.\<close>

lemma revoke_frame [simp]: "st_consumed (revoke i w s) = st_consumed s" "st_reservations (revoke i w s) = st_reservations s"
  "st_delegations (revoke i w s) = st_delegations s" "high_water (revoke i w s) = high_water s"
  by (simp_all add: revoke_def high_water_def)

lemma is_revoked_revoke [simp]: "is_revoked (revoke i w s) j \<longleftrightarrow> j = i \<or> is_revoked s j"
  by (auto simp: revoke_def is_revoked_def)

lemma import_loop_frame:
  "import_loop ids w s = (n, s') \<Longrightarrow> st_consumed s' = st_consumed s \<and> st_reservations s' = st_reservations s \<and> st_delegations s' = st_delegations s \<and>
     high_water s' = high_water s \<and> (is_revoked s j \<longrightarrow> is_revoked s' j)"
  by (induction ids arbitrary: s n) (auto split: if_splits prod.splits)

lemma import_frame:
  assumes "import_revocations ids w s = (n, s')"
  shows "st_consumed s' = st_consumed s \<and> st_reservations s' = st_reservations s \<and> st_delegations s' = st_delegations s \<and>
     high_water s' = high_water s \<and> (is_revoked s j \<longrightarrow> is_revoked s' j)"
proof -
  obtain m t where "import_loop ids w s = (m, t)" by (cases "import_loop ids w s")
  with assms import_loop_frame [OF this, of j] show ?thesis by (simp add: import_revocations_def transaction_def)
qed

lemma add_delegation_cases:
  assumes "add_delegation e input w s = (r, s')"
  obtains (same) "s' = s" "r \<noteq> Inr None"
  | (added) rb s1 where "r = Inr None" "effective_now w s = ((now_of w s, rb), s1)" "s' = s1\<lparr> st_delegations := st_delegations s1 @ [delegation_of e input] \<rparr>"
      "now_of w s < dl_expires (delegation_of e input)" "\<not> has_delegation s1 (dl_id (delegation_of e input))"
      "parent_problem s1 (now_of w s) (delegation_of e input) = None"
proof -
  obtain rb s1 where e: "effective_now w s = ((now_of w s, rb), s1)" by (rule effective_now_cases)
  show thesis
    using assms e
    by (auto simp: add_delegation_def transaction_def add_body_def Let_def not_le split: if_splits sum.splits option.splits intro: that)
qed

lemma other_write_frame:
  assumes "other_write e s s'"
  shows "st_consumed s' = st_consumed s \<and> st_reservations s' = st_reservations s \<and> high_water s \<le> high_water s' \<and>
    (is_revoked s j \<longrightarrow> is_revoked s' j) \<and> (\<exists>ds. st_delegations s' = st_delegations s @ ds)"
  using assms
proof cases
  case (read_clock wall t)
  obtain rb s1 where "effective_now wall s = ((now_of wall s, rb), s1)" "high_water s1 = now_of wall s"
    "st_consumed s1 = st_consumed s" "st_reservations s1 = st_reservations s" "st_delegations s1 = st_delegations s" "st_revoked s1 = st_revoked s"
    by (rule effective_now_cases)
  with read_clock show ?thesis by (auto simp: is_revoked_def now_of_def)
next
  case (add input wall r)
  from add show ?thesis
  proof (cases rule: add_delegation_cases)
    case (added rb s1)
    obtain rb' s1' where "effective_now wall s = ((now_of wall s, rb'), s1')" "high_water s1' = now_of wall s"
      "st_consumed s1' = st_consumed s" "st_reservations s1' = st_reservations s" "st_delegations s1' = st_delegations s" "st_revoked s1' = st_revoked s"
      by (rule effective_now_cases)
    with added show ?thesis by (auto simp: is_revoked_def now_of_def high_water_def)
  qed simp
next
  case (import_list ids wall n)
  from import_frame [OF this, of j] show ?thesis by simp
next
  case (revocation i wall)
  then show ?thesis by simp
qed (auto simp: put_cached_delegation_def drop_cached_delegation_def high_water_def is_revoked_def)

subsection \<open>An allowed decision\<close>

lemma effective_now_eq:
  assumes "effective_now wall s = ((t, rb), s1)"
  shows "t = now_of wall s" "high_water s1 = now_of wall s" "st_consumed s1 = st_consumed s" "st_reservations s1 = st_reservations s"
    "st_delegations s1 = st_delegations s" "st_revoked s1 = st_revoked s"
proof -
  obtain rb' s1' where "effective_now wall s = ((now_of wall s, rb'), s1')" "high_water s1' = now_of wall s"
    "st_consumed s1' = st_consumed s" "st_reservations s1' = st_reservations s" "st_delegations s1' = st_delegations s" "st_revoked s1' = st_revoked s"
    by (rule effective_now_cases)
  with assms show "t = now_of wall s" "high_water s1 = now_of wall s" "st_consumed s1 = st_consumed s" "st_reservations s1 = st_reservations s"
    "st_delegations s1 = st_delegations s" "st_revoked s1 = st_revoked s" by auto
qed

text \<open>The effect of the final transaction on the tables, and what it has checked.\<close>

lemma finish_effect:
  assumes "finish e pr wall s = (d, s')"
  shows "st_delegations s' = st_delegations s" "st_revoked s' = st_revoked s" "high_water s \<le> high_water s'"
    "map cs_id (st_consumed s') = map cs_id (st_consumed s) @ dd_consumed d"
    "distinct (dd_consumed d)" "x \<in> set (dd_consumed d) \<Longrightarrow> x \<notin> cs_id ` set (st_consumed s)"
proof -
  have all: "st_delegations s' = st_delegations s \<and> st_revoked s' = st_revoked s \<and> high_water s \<le> high_water s' \<and>
    map cs_id (st_consumed s') = map cs_id (st_consumed s) @ dd_consumed d \<and> distinct (dd_consumed d) \<and>
    (\<forall>x \<in> set (dd_consumed d). x \<notin> cs_id ` set (st_consumed s))"
    if b: "decide_body e pr wall s = Inr (True, d, s')"
    using b
  proof (cases rule: decide_body_cases)
    case (allowed rb s1 obs ins s2)
    note e = effective_now_eq [OF allowed(3)]
    note i = insert_all [OF allowed(9)] and c = consume_all [OF allowed(10)]
    have hw: "high_water s' = high_water s1" using i(1) c(1) by (simp add: high_water_def)
    have d: "distinct (map da_id (map snd (pr_chosen pr)))" by (rule ap.write_all_distinct [OF allowed(10)])
    have f: "x \<notin> cs_id ` set (st_consumed s)" if "x \<in> set (dd_consumed d)" for x
    proof -
      from that allowed(4) obtain a where a: "a \<in> set (map snd (pr_chosen pr))" "x = da_id a" by auto
      from ap.write_all_fresh [OF allowed(10) a(1)] a(2) show ?thesis using e i by (simp add: approval_consumed_def)
    qed
    show ?thesis using e i c hw d f allowed(4) now_of_ge [of s wall] by simp
  qed simp
  have all': "st_delegations s' = st_delegations s \<and> st_revoked s' = st_revoked s \<and> high_water s \<le> high_water s' \<and>
    map cs_id (st_consumed s') = map cs_id (st_consumed s) @ dd_consumed d \<and> distinct (dd_consumed d) \<and>
    (\<forall>x \<in> set (dd_consumed d). x \<notin> cs_id ` set (st_consumed s))"
    using assms by (cases rule: finish_cases) (simp_all add: all)
  then show "st_delegations s' = st_delegations s" "st_revoked s' = st_revoked s" "high_water s \<le> high_water s'"
    "map cs_id (st_consumed s') = map cs_id (st_consumed s) @ dd_consumed d"
    "distinct (dd_consumed d)" "x \<in> set (dd_consumed d) \<Longrightarrow> x \<notin> cs_id ` set (st_consumed s)" by blast+
qed

lemma consumed_log: "history e s tr \<Longrightarrow> map cs_id (st_consumed s) = concat (map (\<lambda>n. dd_consumed (en_decision n)) tr) \<and> distinct (map cs_id (st_consumed s))"
proof (induction rule: history.induct)
  case (other s tr s')
  have c: "st_consumed s' = st_consumed s" using other_write_frame [OF other(2)] by blast
  from other.IH show ?case unfolding c .
next
  case (decided s tr pr wall d s')
  note f = finish_effect [OF decided(2)]
  have "set (map cs_id (st_consumed s)) \<inter> set (dd_consumed d) = {}" using f(6) by auto
  then have "distinct (map cs_id (st_consumed s) @ dd_consumed d)"
    unfolding distinct_append using conjunct2 [OF decided.IH] f(5) by blast
  then show ?case using decided.IH f(4) by simp
qed (simp add: empty_store_def)

text \<open>C18: an approval is consumed at most once, in any history of decisions and other writes by any number of processes: no approval id appears twice among those
  consumed by all the decisions together.\<close>

theorem approvals_single_use:
  assumes "history e s tr"
  shows "distinct (concat (map (\<lambda>n. dd_consumed (en_decision n)) tr))"
  using consumed_log [OF assms] by auto

text \<open>A refusal leaves nothing spent: when the final transaction denies, the store is exactly what it was.\<close>

theorem refusal_spends_nothing:
  assumes "finish e pr wall s = (d, s')" "\<not> dd_allow d"
  shows "s' = s"
  using assms by (cases rule: finish_cases) auto

subsection \<open>The clock\<close>

lemma finish_allowed_high:
  assumes "decide_body e pr wall s = Inr (True, d, s')"
  shows "high_water s' = now_of wall s"
  using assms
proof (cases rule: decide_body_cases)
  case (allowed rb s1 obs ins s2)
  then show ?thesis using effective_now_eq [OF allowed(3)] insert_all(1) [OF allowed(9)] consume_all(1) [OF allowed(10)]
    by (simp add: high_water_def)
qed simp

text \<open>Entries whose decision wrote the store: the allowed ones, except where the store could not be used and nothing was enforced.\<close>

definition committed :: "entry \<Rightarrow> bool" where
  "committed n \<longleftrightarrow> dd_allow (en_decision n) \<and> (pr_must_deny (en_prepared n) \<or> dd_consumed (en_decision n) \<noteq> [] \<or> (\<exists>ob \<in> set (dd_budgets (en_decision n)). counts ob))"

lemma finish_committed:
  assumes "finish e pr wall s = (d, s')" "committed \<lparr> en_prepared = pr, en_now = now_of wall s, en_decision = d \<rparr>"
  shows "decide_body e pr wall s = Inr (True, d, s')"
  using assms(1) by (cases rule: finish_cases) (use assms(2) in \<open>auto simp: committed_def\<close>)

lemma committed_times:
  "history e s tr \<Longrightarrow> sorted (map en_now (filter committed tr)) \<and> (\<forall>n \<in> set (filter committed tr). en_now n \<le> high_water s)"
proof (induction rule: history.induct)
  case (other s tr s')
  with other_write_frame [OF other(2)] show ?case by force
next
  case (decided s tr pr wall d s')
  note f = finish_effect [OF decided(2)]
  show ?case
  proof (cases "committed \<lparr> en_prepared = pr, en_now = now_of wall s, en_decision = d \<rparr>")
    case True
    from finish_allowed_high [OF finish_committed [OF decided(2) True]] have h: "high_water s' = now_of wall s" .
    have "en_now n \<le> now_of wall s" if "n \<in> set (filter committed tr)" for n
      using decided.IH that now_of_ge [of s wall] by fastforce
    then show ?thesis using decided.IH True h by (auto simp: sorted_append)
  next
    case False
    then show ?thesis using decided.IH f(3) by force
  qed
qed (simp add: empty_store_def)

text \<open>Time never goes back for the decisions: in any history the times of the allowed decisions (those that enforced anything, consumed an approval or took a budget slot) never decrease, however the
  wall clock is set between them.\<close>

theorem decision_times_monotone:
  assumes "history e s tr"
  shows "sorted (map en_now (filter committed tr))"
  using committed_times [OF assms] by blast

subsection \<open>Budgets\<close>

text \<open>A decision took a slot of the budget \<open>b\<close>; the times of those decisions.\<close>

definition takes :: "jsstr \<Rightarrow> entry \<Rightarrow> bool" where
  "takes b n \<longleftrightarrow> dd_allow (en_decision n) \<and> (\<exists>ob \<in> set (dd_budgets (en_decision n)). bo_id ob = b \<and> counts ob)"

definition slots :: "jsstr \<Rightarrow> entry list \<Rightarrow> int list" where
  "slots b tr = map en_now (filter (takes b) tr)"

text \<open>Every policy presented under the id \<open>b\<close> enforces the limit \<open>m\<close> in windows of \<open>w\<close> seconds.\<close>

definition enforces :: "jsstr \<Rightarrow> int \<Rightarrow> int \<Rightarrow> entry \<Rightarrow> bool" where
  "enforces b m w n \<longleftrightarrow> (\<forall>p \<in> set (pr_policies (en_prepared n)). bp_id p = b \<longrightarrow> bp_enforce p \<and> bp_max p = m \<and> bp_window p = w)"

lemma filter_filter_keep: "(\<And>x. x \<in> set xs \<Longrightarrow> P x \<Longrightarrow> Q x) \<Longrightarrow> filter P (filter Q xs) = filter P xs"
  by (induction xs) auto

lemma length_filter_imp: "(\<And>x. P x \<Longrightarrow> Q x) \<Longrightarrow> length (filter P xs) \<le> length (filter Q xs)"
  by (induction xs) auto

lemma count_insert:
  assumes "insert_reservation grp now p s = Inr s'" "bp_id p = b \<Longrightarrow> 0 \<le> bp_window p \<and> now - bp_window p * 1000 \<le> since"
  shows "count_since s' b since = count_since s b since + (if bp_id p = b \<and> since < now then 1 else 0)"
proof -
  have keep: "filter (\<lambda>r. rv_budget r = b \<and> since < rv_at r)
      (filter (\<lambda>r. \<not> (rv_budget r = bp_id p \<and> rv_at r \<le> now - max (bp_window p) 1 * 1000 * 2)) (st_reservations s)) =
    filter (\<lambda>r. rv_budget r = b \<and> since < rv_at r) (st_reservations s)"
  proof (rule filter_filter_keep)
    fix r
    assume r: "rv_budget r = b \<and> since < rv_at r"
    show "\<not> (rv_budget r = bp_id p \<and> rv_at r \<le> now - max (bp_window p) 1 * 1000 * 2)"
    proof
      assume q: "rv_budget r = bp_id p \<and> rv_at r \<le> now - max (bp_window p) 1 * 1000 * 2"
      with r have "0 \<le> bp_window p \<and> now - bp_window p * 1000 \<le> since" by (intro assms(2)) simp
      with q r show False by (simp add: max_def split: if_splits)
    qed
  qed
  have s': "st_reservations s' =
      filter (\<lambda>r. \<not> (rv_budget r = bp_id p \<and> rv_at r \<le> now - max (bp_window p) 1 * 1000 * 2)) (st_reservations s) @
      [\<lparr> rv_budget = bp_id p, rv_group = grp, rv_at = now, rv_version = bp_version p \<rparr>]"
    using assms(1) unfolding insert_reservation_Inr by simp
  show ?thesis unfolding count_since_def s' filter_append keep by simp
qed

lemma count_insert_all:
  assumes "write_all (insert_reservation grp now) ps s = Inr s'" "\<forall>p \<in> set ps. bp_id p = b \<longrightarrow> 0 \<le> bp_window p \<and> now - bp_window p * 1000 \<le> since"
  shows "count_since s' b since = count_since s b since + (if b \<in> bp_id ` set ps \<and> since < now then 1 else 0)"
  using assms
proof (induction ps arbitrary: s)
  case (Cons p ps)
  then obtain s1 where s1: "insert_reservation grp now p s = Inr s1" "write_all (insert_reservation grp now) ps s1 = Inr s'"
    by (auto simp: rbind_Inr_iff)
  have "count_since s1 b since = count_since s b since + (if bp_id p = b \<and> since < now then 1 else 0)"
    by (rule count_insert [OF s1(1)]) (use Cons.prems(2) in auto)
  moreover have "count_since s' b since = count_since s1 b since + (if b \<in> bp_id ` set ps \<and> since < now then 1 else 0)"
    by (rule Cons.IH [OF s1(2)]) (use Cons.prems(2) in auto)
  moreover have "bp_id p \<notin> bp_id ` set ps" using sl.write_all_distinct [OF Cons.prems(1)] by simp
  ultimately show ?case by auto
qed simp

lemma finish_counts:
  assumes "decide_body e pr wall s = Inr (True, d, s')"
    and pol: "\<forall>p \<in> set (pr_policies pr). bp_id p = b \<longrightarrow> bp_enforce p \<and> bp_max p = m \<and> bp_window p = w" and w: "0 \<le> w"
    and since: "now_of wall s - w * 1000 \<le> since"
  defines "t \<equiv> \<exists>ob \<in> set (dd_budgets d). bo_id ob = b \<and> counts ob"
  shows "count_since s' b since = count_since s b since + (if t \<and> since < now_of wall s then 1 else 0)"
    "t \<Longrightarrow> count_since s b (now_of wall s - w * 1000) < m"
proof -
  from assms(1) show "count_since s' b since = count_since s b since + (if t \<and> since < now_of wall s then 1 else 0)"
    "t \<Longrightarrow> count_since s b (now_of wall s - w * 1000) < m"
  proof (atomize (full), cases rule: decide_body_cases)
    case (allowed rb s1 obs ins s2)
    note ef = effective_now_eq [OF allowed(3)]
    from budget_loop_taken [OF allowed(8)] have
      ids: "map bp_id ins = map bo_id (filter counts obs)" and sub: "set ins \<subseteq> set (pr_policies pr)" and
      room: "\<forall>p \<in> set ins. bp_enforce p \<longrightarrow> count_since s1 (bp_id p) (now_of wall s - bp_window p * 1000) < bp_max p" by auto
    have c1: "count_since s1 x y = count_since s x y" for x y using ef(4) by (simp add: count_since_def)
    have c2: "count_since s' x y = count_since s2 x y" for x y using consume_all(4) [OF allowed(10)] by (simp add: count_since_def)
    have "bp_id ` set ins = bo_id ` {ob \<in> set obs. counts ob}" using arg_cong [OF ids, of set] by simp
    then have t: "t \<longleftrightarrow> b \<in> bp_id ` set ins" unfolding t_def allowed(5) by auto
    have "count_since s2 b since = count_since s1 b since + (if b \<in> bp_id ` set ins \<and> since < now_of wall s then 1 else 0)"
      by (rule count_insert_all [OF allowed(9)]) (use pol sub w since in auto)
    moreover have "t \<longrightarrow> count_since s b (now_of wall s - w * 1000) < m" using t room sub pol c1 by fastforce
    ultimately show "count_since s' b since = count_since s b since + (if t \<and> since < now_of wall s then 1 else 0) \<and>
      (t \<longrightarrow> count_since s b (now_of wall s - w * 1000) < m)" using t c1 c2 by simp
  qed simp
qed

lemma takes_committed: "takes b n \<Longrightarrow> committed n"
  by (auto simp: takes_def committed_def)

lemma slots_le: "history e s tr \<Longrightarrow> x \<in> set (slots b tr) \<Longrightarrow> x \<le> high_water s"
  using committed_times takes_committed by (force simp: slots_def)

text \<open>The table agrees with the history on every window that can still matter, and no window ever holds more than the limit.\<close>

lemma budget_invariant:
  "history e s tr \<Longrightarrow> \<forall>n \<in> set tr. enforces b m w n \<Longrightarrow> 0 \<le> w \<Longrightarrow> 0 \<le> m \<Longrightarrow>
     (\<forall>since. high_water s - w * 1000 \<le> since \<longrightarrow> count_since s b since = int (length (filter (\<lambda>x. since < x) (slots b tr)))) \<and>
     (\<forall>t. int (length (filter (\<lambda>x. t - w * 1000 < x \<and> x \<le> t) (slots b tr))) \<le> m)"
proof (induction rule: history.induct)
  case start
  then show ?case by (simp add: count_since_def empty_store_def slots_def)
next
  case (other s tr s')
  have "high_water s \<le> high_water s'" "\<And>y. count_since s' b y = count_since s b y"
    using other_write_frame [OF other(2)] by (auto simp: count_since_def)
  with other.IH [OF other.prems] show ?case by auto
next
  case (decided s tr pr wall d s')
  define n where "n = \<lparr> en_prepared = pr, en_now = now_of wall s, en_decision = d \<rparr>"
  have ih1: "\<And>since. high_water s - w * 1000 \<le> since \<Longrightarrow> count_since s b since = int (length (filter (\<lambda>x. since < x) (slots b tr)))"
    and ih2: "\<And>t. int (length (filter (\<lambda>x. t - w * 1000 < x \<and> x \<le> t) (slots b tr))) \<le> m"
    using decided.IH decided.prems by auto
  have sn: "slots b (tr @ [n]) = slots b tr @ (if takes b n then [now_of wall s] else [])"
    by (simp add: slots_def n_def)
  have le: "x \<le> now_of wall s" if "x \<in> set (slots b tr)" for x
    using slots_le [OF decided(1) that] now_of_ge [of s wall] by linarith
  show ?case
  proof (cases "decide_body e pr wall s = Inr (True, d, s')")
    case True
    have pol: "\<forall>p \<in> set (pr_policies pr). bp_id p = b \<longrightarrow> bp_enforce p \<and> bp_max p = m \<and> bp_window p = w"
      using decided.prems(1) by (auto simp: enforces_def)
    have allow: "dd_allow d" using True by (cases rule: decide_body_cases) auto
    have tk: "takes b n \<longleftrightarrow> (\<exists>ob \<in> set (dd_budgets d). bo_id ob = b \<and> counts ob)" using allow by (simp add: takes_def n_def)
    note fc = finish_counts [OF True pol decided.prems(2), folded tk]
    have hw: "high_water s' = now_of wall s" by (rule finish_allowed_high [OF True])
    have "count_since s' b since = int (length (filter (\<lambda>x. since < x) (slots b (tr @ [n]))))" if "high_water s' - w * 1000 \<le> since" for since
    proof -
      have "high_water s - w * 1000 \<le> since" using that hw now_of_ge [of s wall] by linarith
      from fc(1) [of since] ih1 [OF this] that hw show ?thesis by (simp add: sn)
    qed
    moreover have "int (length (filter (\<lambda>x. t - w * 1000 < x \<and> x \<le> t) (slots b (tr @ [n])))) \<le> m" for t
    proof (cases "takes b n \<and> t - w * 1000 < now_of wall s \<and> now_of wall s \<le> t")
      case True
      have "count_since s b (now_of wall s - w * 1000) < m" using fc(2) [of "now_of wall s - w * 1000"] True by simp
      then have room: "int (length (filter (\<lambda>x. now_of wall s - w * 1000 < x) (slots b tr))) < m"
        using ih1 [of "now_of wall s - w * 1000"] now_of_ge [of s wall] by simp
      have "length (filter (\<lambda>x. t - w * 1000 < x \<and> x \<le> t) (slots b tr)) \<le> length (filter (\<lambda>x. now_of wall s - w * 1000 < x) (slots b tr))"
        by (rule length_filter_imp) (use True in linarith)
      then show ?thesis using room True by (simp add: sn)
    next
      case False
      then show ?thesis using ih2 [of t] by (auto simp: sn)
    qed
    ultimately show ?thesis unfolding n_def by blast
  next
    case False
    have "\<not> takes b n" and same: "s' = s"
      using decided(2) False by (cases rule: finish_cases; auto simp: takes_def n_def)+
    then have "slots b (tr @ [n]) = slots b tr" by (simp add: sn)
    then show ?thesis using ih1 ih2 same unfolding n_def by simp
  qed
qed

text \<open>C6: an enforced budget is never exceeded: in any history, however many processes race and however the wall clock is set, the decisions that take a slot of a
  budget with limit \<open>m\<close> in windows of \<open>w\<close> seconds are at most \<open>m\<close> in every window of that length.\<close>

theorem budget_never_exceeded:
  assumes "history e s tr" "\<forall>n \<in> set tr. enforces b m w n" "0 \<le> w" "0 \<le> m"
  shows "int (length (filter (\<lambda>x. t - w * 1000 < x \<and> x \<le> t) (slots b tr))) \<le> m"
  using budget_invariant [OF assms] by blast

end
