(* ===== verification/ScopeProps.thy ===== *)
theory ScopeProps
  imports DispatchProps ViolatesFacts
begin

section \<open>Properties of delegations and approvals\<close>

text \<open>
  The walk over a delegation's ancestors decides a declarative condition on the chain; a revocation holds for every descendant for good; a registered child
  stays within its parent, so that for stores without double wildcards the walk comes down to its leaf and the revocations. The order of scopes has one gap,
  a parent target ending in two wildcards, shown by an example. The check of an approval is stated as the conjunction of its bindings.
\<close>

subsection \<open>The chain of a delegation\<close>

inductive ancestry :: "store \<Rightarrow> jsstr \<Rightarrow> delegation list \<Rightarrow> bool" for s where
  root_grant: "find_delegation s i = Some d \<Longrightarrow> dl_parent d = None \<Longrightarrow> ancestry s i [d]"
| child_grant: "find_delegation s i = Some d \<Longrightarrow> dl_parent d = Some p \<Longrightarrow> ancestry s p ds \<Longrightarrow> ancestry s i (d # ds)"

inductive_cases ancestry_Cons: "ancestry s i (d # ds)"

lemma ancestry_ne: "ancestry s i ds \<Longrightarrow> ds \<noteq> []"
  by (cases rule: ancestry.cases) auto

lemma find_delegation_id: "find_delegation s i = Some d \<Longrightarrow> dl_id d = i \<and> d \<in> set (st_delegations s)"
  by (auto simp: find_delegation_def find_Some_iff)

definition permits :: "store \<Rightarrow> int \<Rightarrow> dispatch_intent list \<Rightarrow> delegation \<Rightarrow> bool" where
  "permits s now intents d \<longleftrightarrow> \<not> is_revoked s (dl_id d) \<and> now < dl_expires d \<and>
     (\<forall>i \<in> set intents. action_in_scope (dl_scope d) (di_action_type i) (di_target i))"

lemma check_chain_Ok:
  "check_chain s actor now intents n leaf (Some i) = Ok \<longleftrightarrow>
     (\<exists>ds. ancestry s i ds \<and> length ds \<le> n \<and> (leaf \<longrightarrow> dl_actor (hd ds) = actor) \<and> (\<forall>d \<in> set ds. permits s now intents d))"
proof (induction n arbitrary: i leaf)
  case 0
  then show ?case by (auto dest: ancestry_ne)
next
  case (Suc n)
  show ?case
  proof (cases "find_delegation s i")
    case None
    then show ?thesis by (auto elim: ancestry.cases)
  next
    case (Some d)
    have id: "dl_id d = i" using find_delegation_id [OF Some] by blast
    have step: "check_chain s actor now intents (Suc n) leaf (Some i) = Ok \<longleftrightarrow>
        permits s now intents d \<and> (leaf \<longrightarrow> dl_actor d = actor) \<and> check_chain s actor now intents n False (dl_parent d) = Ok"
      using Some id by (auto simp: permits_def list_all_iff not_le)
    show ?thesis
    proof (cases "dl_parent d")
      case None
      have "ancestry s i ds \<longleftrightarrow> ds = [d]" for ds using Some None by (auto elim: ancestry.cases intro: ancestry.intros)
      then show ?thesis unfolding step None by auto
    next
      case p: (Some p)
      have "ancestry s i ds \<longleftrightarrow> (\<exists>ds'. ds = d # ds' \<and> ancestry s p ds')" for ds
        using Some p by (auto elim: ancestry.cases intro: ancestry.intros)
      then show ?thesis unfolding step p Suc.IH by fastforce
    qed
  qed
qed

text \<open>The walk over a delegation's ancestors answers ok exactly when the chain from the delegation to a root is known and has at most seventeen members, none of them
  revoked or expired, the leaf is the actor's, and every member's scope covers every intent.\<close>

theorem delegation_check_correct:
  "check_delegation s i actor now intents = Ok \<longleftrightarrow>
     (\<exists>ds. ancestry s i ds \<and> length ds \<le> 17 \<and> dl_actor (hd ds) = actor \<and> (\<forall>d \<in> set ds. permits s now intents d))"
  unfolding check_delegation_def check_chain_Ok by (simp add: max_delegation_depth_def)

subsection \<open>Revocation\<close>

definition store_write :: "env \<Rightarrow> store \<Rightarrow> store \<Rightarrow> bool" where
  "store_write e s s' \<longleftrightarrow> other_write e s s' \<or> (\<exists>pr wall d. finish e pr wall s = (d, s'))"

lemma find_snoc: "find P xs = Some y \<Longrightarrow> find P (xs @ ys) = Some y"
  by (induction xs) auto

lemma store_write_keeps:
  assumes "store_write e s s'"
  shows "is_revoked s j \<Longrightarrow> is_revoked s' j" "find_delegation s i = Some d \<Longrightarrow> find_delegation s' i = Some d"
proof -
  have "(is_revoked s j \<longrightarrow> is_revoked s' j) \<and> (\<exists>ds. st_delegations s' = st_delegations s @ ds)"
    using assms unfolding store_write_def
  proof
    assume "other_write e s s'"
    from other_write_frame [OF this] show ?thesis by blast
  next
    assume "\<exists>pr wall d. finish e pr wall s = (d, s')"
    then obtain pr wall d where "finish e pr wall s = (d, s')" by blast
    from finish_effect(1,2) [OF this] show ?thesis by (simp add: is_revoked_def)
  qed
  then show "is_revoked s j \<Longrightarrow> is_revoked s' j" "find_delegation s i = Some d \<Longrightarrow> find_delegation s' i = Some d"
    by (auto simp: find_delegation_def intro: find_snoc)
qed

lemma ancestry_keeps: "store_write e s s' \<Longrightarrow> ancestry s i ds \<Longrightarrow> ancestry s' i ds"
proof (rotate_tac, induction rule: ancestry.induct)
  case (root_grant i d)
  then show ?case using store_write_keeps(2) by (blast intro: ancestry.root_grant)
next
  case (child_grant i d p ds)
  then show ?case using store_write_keeps(2) by (blast intro: ancestry.child_grant)
qed

lemma ancestry_unique: "ancestry s i ds \<Longrightarrow> ancestry s i ds' \<Longrightarrow> ds = ds'"
proof (induction arbitrary: ds' rule: ancestry.induct)
  case (root_grant i d)
  then show ?case by (auto elim: ancestry.cases)
next
  case (child_grant i d p ds)
  from child_grant.prems show ?case
  proof cases
    case (child_grant d' p' ds'')
    then show ?thesis using child_grant.hyps child_grant.IH by auto
  qed (use child_grant.hyps in auto)
qed

text \<open>C19: revocation is final and reaches every descendant: once a delegation is revoked, no delegation below it permits any action again, whatever is written afterwards.\<close>

theorem revocation_final:
  assumes "ancestry s i ds" "d \<in> set ds" "is_revoked s (dl_id d)" "(store_write e)\<^sup>*\<^sup>* s s'"
  shows "check_delegation s' i actor now intents \<noteq> Ok"
proof -
  from assms(4) have k: "ancestry s' i ds \<and> is_revoked s' (dl_id d)"
  proof (induction rule: rtranclp_induct)
    case (step y z)
    then show ?case using ancestry_keeps [OF step.hyps(2)] store_write_keeps(1) [OF step.hyps(2)] by blast
  qed (use assms in simp)
  have "ds' = ds" if "ancestry s' i ds'" for ds' using ancestry_unique [OF that] k by blast
  with k assms(2) show ?thesis unfolding delegation_check_correct permits_def by blast
qed

subsection \<open>The order of scopes\<close>

definition double_star :: "jsstr \<Rightarrow> bool" where
  "double_star t \<longleftrightarrow> ends_with t (js ''**'')"

lemma ends_with_iff: "ends_with s p \<longleftrightarrow> (\<exists>q. s = q @ p)"
proof
  assume "ends_with s p"
  then show "\<exists>q. s = q @ p" by (auto simp: ends_with_def) (metis append_take_drop_id)
qed (auto simp: ends_with_def)

lemma target_covers_iff: "target_covers p c \<longleftrightarrow> p = c \<or> (\<exists>q r. p = q @ [42] \<and> c = q @ r)"
  by (auto simp: target_covers_def ends_with_iff starts_with_iff js_def)

lemma target_covers_trans:
  assumes "target_covers p t" "target_covers t x" "\<not> double_star p"
  shows "target_covers p x"
proof (cases "p = t \<or> t = x")
  case False
  from False assms(1) obtain q r where 1: "p = q @ [42]" "t = q @ r" unfolding target_covers_iff by blast
  from False assms(2) obtain q' r' where 2: "t = q' @ [42]" "x = q' @ r'" unfolding target_covers_iff by blast
  have "r \<noteq> []"
  proof
    assume "r = []"
    with 1 2 have "p = q' @ [42, 42]" by simp
    then show False using assms(3) by (simp add: double_star_def ends_with_iff js_def)
  qed
  with 1 2 have "\<exists>r0. q' = q @ r0" by (metis append_assoc append_butlast_last_id butlast_append butlast_snoc)
  with 1 2 show ?thesis by (auto simp: target_covers_iff)
qed (use assms in auto)

lemma sub_scope_covers:
  assumes "is_sub_scope c p" "\<forall>ts. sc_targets p = Some ts \<longrightarrow> (\<forall>t \<in> set ts. \<not> double_star t)" "action_in_scope c a t"
  shows "action_in_scope p a t"
proof -
  have "a \<in> set (sc_action_types p)" using assms(1,3) by (auto simp: is_sub_scope_def action_in_scope_def list_all_iff split: if_splits)
  moreover have "target_in_scope p t"
  proof (cases "sc_targets p")
    case (Some ps)
    with assms(1) have "case sc_targets c of None \<Rightarrow> False | Some ts \<Rightarrow> ts \<noteq> [] \<and> list_all (\<lambda>t. list_ex (\<lambda>p. target_covers p t) ps) ts"
      by (cases "sc_targets c") (simp_all add: is_sub_scope_def split: if_splits)
    then obtain ts where ts: "sc_targets c = Some ts" "\<forall>u \<in> set ts. \<exists>v \<in> set ps. target_covers v u"
      by (cases "sc_targets c") (auto simp: list_all_iff list_ex_iff)
    have "target_in_scope c t" using assms(3) by (simp add: action_in_scope_def)
    with ts(1) obtain u where "u \<in> set ts" "target_covers u t" by (auto simp: target_in_scope_def list_ex_iff)
    with ts(2) obtain v where "v \<in> set ps" "target_covers v u" by blast
    moreover have "\<not> double_star v" using assms(2) Some \<open>v \<in> set ps\<close> by blast
    ultimately have "target_covers v t" using target_covers_trans \<open>target_covers u t\<close> by blast
    with \<open>v \<in> set ps\<close> Some show ?thesis unfolding target_in_scope_def list_ex_iff by (simp only: option.case) blast
  qed (simp add: target_in_scope_def)
  ultimately show ?thesis by (simp add: action_in_scope_def)
qed

text \<open>A scope accepted as a subset of another permits nothing the other does not, when no target of the other ends in two wildcards.\<close>

theorem sub_scope_sound:
  assumes "is_sub_scope child parent" "\<forall>ts. sc_targets parent = Some ts \<longrightarrow> (\<forall>t \<in> set ts. \<not> double_star t)"
    "action_in_scope child action_type target"
  shows "action_in_scope parent action_type target"
  by (rule sub_scope_covers [OF assms])

definition tree_scope :: "string \<Rightarrow> delegated_scope" where
  "tree_scope t = \<lparr> sc_action_types = [js ''fs.read''], sc_targets = Some [js t] \<rparr>"

theorem sub_scope_sound_witness: "action_in_scope (tree_scope ''src/*'') (js ''fs.read'') (js ''src/lib/a'')"
proof (rule sub_scope_sound)
  show "is_sub_scope (tree_scope ''src/lib/*'') (tree_scope ''src/*'')" by code_simp
  show "\<forall>ts. sc_targets (tree_scope ''src/*'') = Some ts \<longrightarrow> (\<forall>t \<in> set ts. \<not> double_star t)"
    by (simp add: tree_scope_def double_star_def ends_with_def js_def)
  show "action_in_scope (tree_scope ''src/lib/*'') (js ''fs.read'') (js ''src/lib/a'')" by code_simp
qed

text \<open>With a parent target ending in two wildcards the check accepts a child that permits more than its parent: \<open>src/*\<close> is taken for a subset of
  \<open>src/**\<close>, but covers \<open>src/a\<close>, which the parent (the prefix \<open>src/*\<close>) does not.\<close>

theorem sub_scope_widens:
  "is_sub_scope (tree_scope ''src/*'') (tree_scope ''src/**'') \<and>
   action_in_scope (tree_scope ''src/*'') (js ''fs.read'') (js ''src/a'') \<and>
   \<not> action_in_scope (tree_scope ''src/**'') (js ''fs.read'') (js ''src/a'')"
  by code_simp

subsection \<open>Registered delegations\<close>

definition registered :: "store \<Rightarrow> bool" where
  "registered s \<longleftrightarrow> distinct (map dl_id (st_delegations s)) \<and>
     (\<forall>d \<in> set (st_delegations s). \<forall>p. dl_parent d = Some p \<longrightarrow>
        (\<exists>q. find_delegation s p = Some q \<and> is_sub_scope (dl_scope d) (dl_scope q) \<and> dl_expires d \<le> dl_expires q))"

lemma parent_problem_None:
  "parent_problem s now d = None \<Longrightarrow> dl_parent d = Some p \<Longrightarrow>
     \<exists>q. find_delegation s p = Some q \<and> is_sub_scope (dl_scope d) (dl_scope q) \<and> dl_expires d \<le> dl_expires q"
  by (auto simp: parent_problem_def split: option.splits if_splits)

lemma registered_add:
  assumes "registered s" "st_delegations s' = st_delegations s @ [d]" "\<not> has_delegation s (dl_id d)"
    "\<And>p. dl_parent d = Some p \<Longrightarrow> \<exists>q. find_delegation s p = Some q \<and> is_sub_scope (dl_scope d) (dl_scope q) \<and> dl_expires d \<le> dl_expires q"
  shows "registered s'"
proof -
  have keep: "find_delegation s p = Some q \<Longrightarrow> find_delegation s' p = Some q" for p q using assms(2) by (simp add: find_delegation_def find_snoc)
  have "dl_id d \<notin> dl_id ` set (st_delegations s)" using assms(3) by (auto simp: has_delegation_def find_delegation_def find_None_iff)
  then show ?thesis unfolding registered_def assms(2) using assms(1,4) keep
    by (auto simp: registered_def) (metis keep)+
qed

lemma registered_same: "registered s \<Longrightarrow> st_delegations s' = st_delegations s \<Longrightarrow> registered s'"
  by (simp add: registered_def find_delegation_def)

lemma history_registered: "history e s tr \<Longrightarrow> registered s"
proof (induction rule: history.induct)
  case start
  then show ?case by (simp add: registered_def empty_store_def)
next
  case (decided s tr pr wall d s')
  then show ?case using finish_effect(1) registered_same by blast
next
  case (other s tr s')
  from other(2) show ?case
  proof cases
    case (add input wall r)
    from add show ?thesis
    proof (cases rule: add_delegation_cases)
      case (added rb s1)
      have d1: "st_delegations s1 = st_delegations s" using effective_now_eq [OF added(2)] by simp
      have "registered s1" by (rule registered_same [OF other.IH d1])
      then show ?thesis by (rule registered_add [where d = "delegation_of e input"]) (use added parent_problem_None in auto)
    qed (use other.IH in simp)
  next
    case (read_clock wall t)
    then show ?thesis using effective_now_cases [of wall s] registered_same [OF other.IH] by (metis Pair_inject)
  next
    case (import_list ids wall n)
    then show ?thesis using import_frame registered_same [OF other.IH] by blast
  qed (use other.IH in \<open>auto intro: registered_same simp: put_cached_delegation_def drop_cached_delegation_def\<close>)
qed

text \<open>No stored scope has a target ending in two wildcards.\<close>

definition single_stars :: "store \<Rightarrow> bool" where
  "single_stars s \<longleftrightarrow> (\<forall>d \<in> set (st_delegations s). \<forall>ts. sc_targets (dl_scope d) = Some ts \<longrightarrow> (\<forall>t \<in> set ts. \<not> double_star t))"

lemma leaf_bounds:
  "ancestry s i ds \<Longrightarrow> registered s \<Longrightarrow> single_stars s \<Longrightarrow> d \<in> set ds \<Longrightarrow>
     dl_expires (hd ds) \<le> dl_expires d \<and> (\<forall>a t. action_in_scope (dl_scope (hd ds)) a t \<longrightarrow> action_in_scope (dl_scope d) a t)"
proof (induction arbitrary: d rule: ancestry.induct)
  case (child_grant i c p ds)
  show ?case
  proof (cases "d = c")
    case False
    with child_grant.prems have d: "d \<in> set ds" by simp
    note ih = child_grant.IH [OF child_grant.prems(1,2) d]
    have c: "c \<in> set (st_delegations s)" using find_delegation_id [OF child_grant.hyps(1)] by blast
    from child_grant.prems(1) c child_grant.hyps(2) obtain q where
      q: "find_delegation s p = Some q" "is_sub_scope (dl_scope c) (dl_scope q)" "dl_expires c \<le> dl_expires q"
      unfolding registered_def by blast
    have hd: "hd ds = q" using child_grant.hyps(3) q(1) by (auto elim: ancestry.cases)
    have "q \<in> set (st_delegations s)" using find_delegation_id [OF q(1)] by blast
    then have "\<forall>ts. sc_targets (dl_scope q) = Some ts \<longrightarrow> (\<forall>t \<in> set ts. \<not> double_star t)"
      using child_grant.prems(2) by (simp add: single_stars_def)
    from sub_scope_covers [OF q(2) this] ih q(3) hd show ?thesis by auto
  qed simp
qed simp

text \<open>C20: the store refines the walk to its leaf: in any history without double wildcards, a delegation permits an action exactly when its own grant does, its chain is known and
  short enough, and nothing above it is revoked; the expiry and the scopes of its ancestors never decide.\<close>

theorem delegation_leaf_decides:
  assumes "history e s tr" "single_stars s"
  shows "check_delegation s i actor now intents = Ok \<longleftrightarrow>
    (\<exists>ds. ancestry s i ds \<and> length ds \<le> 17 \<and> dl_actor (hd ds) = actor \<and> permits s now intents (hd ds) \<and> (\<forall>d \<in> set ds. \<not> is_revoked s (dl_id d)))"
    (is "_ \<longleftrightarrow> (\<exists>ds. ?Q ds)")
proof -
  have "(\<forall>d \<in> set ds. permits s now intents d) \<longleftrightarrow> permits s now intents (hd ds) \<and> (\<forall>d \<in> set ds. \<not> is_revoked s (dl_id d))"
    if a: "ancestry s i ds" for ds
  proof
    assume r: "permits s now intents (hd ds) \<and> (\<forall>d \<in> set ds. \<not> is_revoked s (dl_id d))"
    show "\<forall>d \<in> set ds. permits s now intents d"
    proof
      fix d assume d: "d \<in> set ds"
      from leaf_bounds [OF a history_registered [OF assms(1)] assms(2) d] r d show "permits s now intents d" by (auto simp: permits_def)
    qed
  qed (use ancestry_ne [OF a] in \<open>auto simp: permits_def\<close>)
  then show ?thesis unfolding delegation_check_correct by blast
qed

end
