(* ===== verification/ApprovalProps.thy ===== *)
theory ApprovalProps
  imports ScopeProps
begin

section \<open>Properties of approvals and of \<open>authorize\<close>\<close>

text \<open>
  The check of an approval as the conjunction of its bindings; what an allowed \<open>authorize\<close> has consumed for each intent that needs an approval; what a refusal
  leaves in the store; and that monitoring alone never refuses.
\<close>

subsection \<open>The check of one approval\<close>

definition lifetime_bound :: "int option \<Rightarrow> int" where
  "lifetime_bound configured = (case configured of None \<Rightarrow> approval_max_lifetime_ms | Some c \<Rightarrow> min c approval_max_lifetime_ms)"

lemma max_life_jint: "max_life (map_option jint c) = jint (lifetime_bound c)"
  by (auto simp: max_life_def lifetime_bound_def min_def split: option.splits)

definition bound_to :: "dispatch_approval \<Rightarrow> approval_subject \<Rightarrow> bool" where
  "bound_to a subject \<longleftrightarrow> da_actor a = as_actor subject \<and> da_action_type a = as_action_type subject \<and> da_target a = as_target subject \<and>
     da_policy_digest a = as_policy_digest subject \<and> da_request_hash a = as_request_hash subject"

lemma time_of_range: "times_ok e \<Longrightarrow> \<bar>time_of e s\<bar> \<le> max_time"
  by (auto simp: times_ok_def time_of_def max_time_def split: option.splits)

text \<open>An approval is accepted exactly when it is well formed, lives no longer than five minutes (or the narrower configured bound), has begun (within the clock skew) and not
  expired, names exactly this actor, action, target, policy and request, was not signed by the actor itself, and carries a valid signature of a current approver key.\<close>

theorem check_approval_correct:
  assumes "times_ok e" "\<forall>c. configured = Some c \<longrightarrow> \<bar>c\<bar> < 2 ^ 53"
  shows "check_approval e ed keys v subject now (map_option jint configured) None = Inr a \<longleftrightarrow>
    validate_dispatch_approval e v \<and> a = approval_of v \<and>
    time_of e (da_issued_at a) < time_of e (da_expires_at a) \<and>
    time_of e (da_expires_at a) - time_of e (da_issued_at a) \<le> lifetime_bound configured \<and>
    time_of e (da_issued_at a) \<le> now + 30000 \<and> now < time_of e (da_expires_at a) \<and>
    bound_to a subject \<and> str_of (fld (da_approver a) (js ''kid'')) \<noteq> as_actor subject \<and> signature_problem ed keys a = None"
proof -
  define b where "b = approval_of v"
  have lb: "\<bar>lifetime_bound configured\<bar> < 2 ^ 53"
    using assms(2) by (auto simp: lifetime_bound_def approval_max_lifetime_ms_def min_def split: option.splits)
  have life: "jlt (max_life (map_option jint configured)) (jsub (jint x) (jint y)) \<longleftrightarrow> lifetime_bound configured < x - y" for x y
    unfolding max_life_jint jsub_jint by (rule jlt_rnd(2) [OF lb])
  have skew: "jlt (jadd (jint now) (jint approval_max_skew_ms)) (jint (time_of e t)) \<longleftrightarrow> now + 30000 < time_of e t" for t
  proof -
    have "jadd (jint now) (jint approval_max_skew_ms) = rnd (of_int (now + 30000))" by (simp add: jint_def approval_max_skew_ms_def)
    moreover have "\<bar>time_of e t\<bar> < 2 ^ 53" using time_of_range [OF assms(1), of t] by (simp add: max_time_def)
    ultimately show ?thesis using jlt_rnd(1) by metis
  qed
  show ?thesis
    unfolding check_approval_def Let_def b_def [symmetric] option.case life skew
    by (cases "signature_problem ed keys b") (auto simp: bound_to_def not_le not_less)
qed

subsection \<open>Choosing\<close>

definition subject_of :: "dispatch_request \<Rightarrow> dispatch_intent \<Rightarrow> jsstr \<Rightarrow> approval_subject" where
  "subject_of req i h = \<lparr> as_actor = dr_actor req, as_action_type = di_action_type i, as_target = di_target i,
     as_policy_digest = dr_policy_digest req, as_request_hash = h \<rparr>"

definition approved_for :: "env \<Rightarrow> verifier \<Rightarrow> guard_config \<Rightarrow> dispatch_request \<Rightarrow> int \<Rightarrow> dispatch_intent \<Rightarrow> dispatch_approval \<Rightarrow> bool" where
  "approved_for e ed cfg req now i a \<longleftrightarrow>
     (\<exists>keys h. gc_keys cfg = Some keys \<and> request_hash e (di_request i) = Inr h \<and>
        (\<exists>c \<in> set (gc_approvals cfg). check_approval e ed keys c (subject_of req i h) now (gc_max_lifetime cfg) None = Inr a))"

lemma pick_candidate_Some:
  "pick_candidate chk taken cs lr = (Some a, lr') \<Longrightarrow> (\<exists>c \<in> set cs. chk c = Inr a) \<and> da_id a \<notin> set taken"
  by (induction cs arbitrary: lr) (auto split: sum.splits if_splits)

lemma choose_step:
  assumes "requires_approval cfg (di_action_type i)" "gc_cloud cfg = None"
    "choose_approvals e ed cfg req now cs refs n (i # is) (ch, cl) = Inr (Inr ch')"
  obtains keys h c a where "gc_keys cfg = Some keys" "request_hash e (di_request i) = Inr h" "c \<in> set cs"
    "check_approval e ed keys c (subject_of req i h) now (gc_max_lifetime cfg) None = Inr a" "da_id a \<notin> set (map (da_id \<circ> snd) ch)"
    "choose_approvals e ed cfg req now cs refs (Suc n) is (ch @ [(n, a)], cl) = Inr (Inr ch')"
proof -
  from assms obtain h where h: "request_hash e (di_request i) = Inr h" by (auto simp: rbind_Inr_iff)
  show thesis
  proof (cases "gc_keys cfg")
    case None
    then show thesis using assms h by simp
  next
    case (Some keys)
    obtain p lr where p: "pick_candidate (\<lambda>c. check_approval e ed keys c (subject_of req i h) now (gc_max_lifetime cfg) None)
        (map (da_id \<circ> snd) ch) cs None = (p, lr)" by fastforce
    show thesis
    proof (cases p)
      case None
      then show thesis using assms h Some p by (simp add: subject_of_def Let_def)
    next
      case a: (Some a)
      from pick_candidate_Some [OF p [unfolded a]] obtain c where "c \<in> set cs"
        "check_approval e ed keys c (subject_of req i h) now (gc_max_lifetime cfg) None = Inr a" "da_id a \<notin> set (map (da_id \<circ> snd) ch)" by blast
      then show thesis using assms h Some p a by (intro that) (simp_all add: subject_of_def Let_def)
    qed
  qed
qed

lemma choose_local:
  "choose_approvals e ed cfg req now cs refs n is (ch, cl) = Inr (Inr (ch', cl')) \<Longrightarrow> gc_cloud cfg = None \<Longrightarrow> set cs \<subseteq> set (gc_approvals cfg) \<Longrightarrow>
     distinct (map (da_id \<circ> snd) ch) \<Longrightarrow>
     cl' = cl \<and> distinct (map (da_id \<circ> snd) ch') \<and>
     (\<exists>as. map snd ch' = map snd ch @ as \<and>
        list_all2 (approved_for e ed cfg req now) (filter (\<lambda>i. requires_approval cfg (di_action_type i)) is) as)"
proof (induction "is" arbitrary: n ch cl)
  case (Cons i "is")
  show ?case
  proof (cases "requires_approval cfg (di_action_type i)")
    case False
    with Cons.prems(1) have "choose_approvals e ed cfg req now cs refs (Suc n) is (ch, cl) = Inr (Inr (ch', cl'))" by simp
    from Cons.IH [OF this Cons.prems(2-4)] False show ?thesis by simp
  next
    case True
    from choose_step [OF True Cons.prems(2,1)] obtain keys h c a where
      a: "gc_keys cfg = Some keys" "request_hash e (di_request i) = Inr h" "c \<in> set cs"
      "check_approval e ed keys c (subject_of req i h) now (gc_max_lifetime cfg) None = Inr a" "da_id a \<notin> set (map (da_id \<circ> snd) ch)"
      "choose_approvals e ed cfg req now cs refs (Suc n) is (ch @ [(n, a)], cl) = Inr (Inr (ch', cl'))" by blast
    have af: "approved_for e ed cfg req now i a" unfolding approved_for_def using a(1-4) Cons.prems(3) by blast
    have "distinct (map (da_id \<circ> snd) (ch @ [(n, a)]))" using Cons.prems(4) a(5) by (simp add: comp_def)
    from Cons.IH [OF a(6) Cons.prems(2,3) this] obtain as where
      "cl' = cl" "distinct (map (da_id \<circ> snd) ch')" "map snd ch' = map snd ch @ a # as"
      "list_all2 (approved_for e ed cfg req now) (filter (\<lambda>i. requires_approval cfg (di_action_type i)) is) as" by auto
    then show ?thesis using True af by (auto simp: comp_def intro: exI [of _ "a # as"])
  qed
qed simp

subsection \<open>What \<open>authorize\<close> does without a workspace\<close>

definition needs_approval :: "guard_config \<Rightarrow> dispatch_request \<Rightarrow> bool" where
  "needs_approval cfg req \<longleftrightarrow> list_ex (\<lambda>i. requires_approval cfg (di_action_type i)) (dr_intents req)"

lemma prepare_cases:
  assumes "prepare e ed cfg req wall (Inr s) = (r, o')" "gc_cloud cfg = None"
  obtains (idle) d where "r = Inr (Inl d)" "o' = Inr s" "dd_allow d" "dd_consumed d = []" "\<not> needs_approval cfg req" "dr_delegation_id req = None"
      "applicable cfg req = []"
  | (threw) rb s1 x where "effective_now (wall 0) s = ((now_of (wall 0) s, rb), s1)" "r = Inl x" "o' = Inr s1" "needs_approval cfg req"
  | (refused) rb s1 d where "effective_now (wall 0) s = ((now_of (wall 0) s, rb), s1)" "r = Inr (Inl d)" "o' = Inr s1" "\<not> dd_allow d"
      "needs_approval cfg req"
  | (ready) rb s1 pr where "effective_now (wall 0) s = ((now_of (wall 0) s, rb), s1)" "r = Inr (Inr pr)" "o' = Inr s1"
      "pr_req pr = req" "pr_policies pr = applicable cfg req" "pr_cloud pr = []" "\<not> pr_workspace pr"
      "pr_must_deny pr \<longleftrightarrow> list_ex bp_enforce (applicable cfg req) \<or> needs_approval cfg req \<or> dr_delegation_id req \<noteq> None"
      "distinct (map da_id (map snd (pr_chosen pr)))"
      "list_all2 (approved_for e ed cfg req (now_of (wall 0) s)) (filter (\<lambda>i. requires_approval cfg (di_action_type i)) (dr_intents req)) (map snd (pr_chosen pr))"
proof -
  define policies where "policies = applicable cfg req"
  define needs where "needs = list_ex (\<lambda>i. requires_approval cfg (di_action_type i)) (dr_intents req)"
  obtain rb s1 where e: "effective_now (wall 0) s = ((now_of (wall 0) s, rb), s1)" by (rule effective_now_cases)
  show thesis
  proof (cases "list_ex bp_enforce policies \<or> needs \<or> dr_delegation_id req \<noteq> None \<or> policies \<noteq> []")
    case False
    then show thesis using assms(1)
      by (intro idle) (auto simp: prepare_def Let_def policies_def [symmetric] needs_def [symmetric] needs_approval_def)
  next
    case True
    define presented where "presented = (if needs then gc_approvals cfg else [])"
    define refs where "refs = map (\<lambda>c. str_of (fld c (js ''cloud_approval_id''))) (filter is_cloud_approval_ref presented)"
    define cands where "cands = filter (\<lambda>c. \<not> is_cloud_approval_ref c) presented"
    define ch where "ch = (if needs then choose_approvals e ed cfg req (now_of (wall 0) s) cands refs 0 (dr_intents req) ([], []) else Inr (Inr ([], [])))"
    define mk where "mk = (\<lambda>chosen. \<lparr> pr_req = req, pr_policies = policies, pr_chosen = chosen, pr_cloud = [], pr_workspace = False,
        pr_shared_gateway = gc_shared_gateway cfg, pr_must_deny = (list_ex bp_enforce policies \<or> needs \<or> dr_delegation_id req \<noteq> None) \<rparr>)"
    have eq: "(r, o') = (case ch of Inl x \<Rightarrow> (Inl x, Inr s1) | Inr (Inl (reason, detail)) \<Rightarrow> (Inr (Inl (deny reason detail [])), Inr s1)
        | Inr (Inr (chosen, cl)) \<Rightarrow> (Inr (Inr ((mk chosen)\<lparr> pr_cloud := cl \<rparr>)), Inr s1))"
      unfolding assms(1) [symmetric] prepare_def Let_def policies_def [symmetric] needs_def [symmetric] sum.case e prod.case presented_def [symmetric]
        refs_def [symmetric] cands_def [symmetric] ch_def [symmetric] mk_def
      using True assms(2) by (auto split: sum.splits option.splits)
    show thesis
    proof (cases ch)
      case (Inl x)
      then show thesis using eq by (intro threw [OF e]) (auto simp: ch_def needs_def needs_approval_def split: if_splits)
    next
      case (Inr q)
      show thesis
      proof (cases q)
        case (Inl d)
        then show thesis using eq Inr by (cases d) (intro refused [OF e], auto simp: ch_def needs_def needs_approval_def split: if_splits)
      next
        case chosen: (Inr c)
        obtain chosen' cl where c: "c = (chosen', cl)" by (cases c)
        have sub: "set cands \<subseteq> set (gc_approvals cfg)" by (auto simp: cands_def presented_def split: if_splits)
        have loc: "cl = [] \<and> distinct (map (da_id \<circ> snd) chosen') \<and>
            list_all2 (approved_for e ed cfg req (now_of (wall 0) s)) (filter (\<lambda>i. requires_approval cfg (di_action_type i)) (dr_intents req)) (map snd chosen')"
        proof (cases needs)
          case True
          with Inr chosen c have "choose_approvals e ed cfg req (now_of (wall 0) s) cands refs 0 (dr_intents req) ([], []) = Inr (Inr (chosen', cl))"
            by (simp add: ch_def)
          from choose_local [OF this assms(2) sub] show ?thesis by simp
        next
          case False
          then have "filter (\<lambda>i. requires_approval cfg (di_action_type i)) (dr_intents req) = []" by (auto simp: needs_def filter_empty_conv list_ex_iff)
          with False Inr chosen c show ?thesis by (simp add: ch_def)
        qed
        have "r = Inr (Inr (mk chosen'))" "o' = Inr s1" using eq Inr chosen c loc by (simp_all add: mk_def)
        then show thesis using loc
          by (intro ready [OF e, of "mk chosen'"]) (simp_all add: mk_def policies_def needs_def needs_approval_def o_def)
      qed
    qed
  qed
qed

lemma authorize_ready:
  assumes "prepare e ed cfg req wall (Inr s) = (Inr (Inr pr), Inr s1)" "pr_cloud pr = []"
  shows "authorize e ed cfg req wall (Inr s) = (case finish e pr (wall 4) s1 of (d, s') \<Rightarrow> (Inr d, Inr s', []))"
  using assms by (simp add: authorize_def)

text \<open>An allowed action was approved, intent by intent: without a workspace, the approvals an allowed \<open>authorize\<close> consumed are distinct, one for each intent that needs
  one, in order, each checked against that intent's actor, action, target, policy and request hash, unused before and used up afterwards.\<close>

theorem authorize_approved:
  assumes "authorize e ed cfg req wall (Inr s) = (Inr d, Inr s', ids)" "gc_cloud cfg = None" "dd_allow d" "needs_approval cfg req"
  shows "\<exists>as. dd_consumed d = map da_id as \<and> distinct (map da_id as) \<and>
    list_all2 (approved_for e ed cfg req (now_of (wall 0) s)) (filter (\<lambda>i. requires_approval cfg (di_action_type i)) (dr_intents req)) as \<and>
    (\<forall>a \<in> set as. \<not> approval_consumed s (da_id a) \<and> approval_consumed s' (da_id a))"
proof -
  obtain r o' where p: "prepare e ed cfg req wall (Inr s) = (r, o')" by fastforce
  from p assms(2) show ?thesis
  proof (cases rule: prepare_cases)
    case (ready rb s1 pr)
    have f: "finish e pr (wall 4) s1 = (d, s')"
      using authorize_ready [of e ed cfg req wall s pr s1] p ready assms(1) by (auto split: prod.splits)
    have "decide_body e pr (wall 4) s1 = Inr (True, d, s')"
      using f by (cases rule: finish_cases) (use ready assms(3,4) in auto)
    then show ?thesis
    proof (cases rule: decide_body_cases)
      case (allowed rb' s2 obs ins s3)
      have c1: "st_consumed s1 = st_consumed s" "st_consumed s2 = st_consumed s1" "st_consumed s3 = st_consumed s2"
        using effective_now_eq(3) [OF ready(1)] effective_now_eq(3) [OF allowed(3)] insert_all(4) [OF allowed(9)] by simp_all
      have "\<forall>a \<in> set (map snd (pr_chosen pr)). \<not> approval_consumed s (da_id a) \<and> approval_consumed s' (da_id a)"
        using ap.write_all_fresh [OF allowed(10)] ap.write_all_used [OF allowed(10)] c1 by (auto simp: approval_consumed_def)
      then show ?thesis using ready(9,10) allowed(4) by (intro exI [of _ "map snd (pr_chosen pr)"]) simp
    qed simp
  qed (use p assms in \<open>auto simp: authorize_def\<close>)
qed

text \<open>A refusal spends nothing: whatever \<open>authorize\<close> refuses, the consumed approvals, the budget reservations, the delegations and the revocations are what
  they were.\<close>

theorem authorize_refusal_spends_nothing:
  assumes "authorize e ed cfg req wall (Inr s) = (Inr d, Inr s', ids)" "gc_cloud cfg = None" "\<not> dd_allow d"
  shows "st_consumed s' = st_consumed s \<and> st_reservations s' = st_reservations s \<and> st_delegations s' = st_delegations s \<and> st_revoked s' = st_revoked s"
proof -
  obtain r o' where p: "prepare e ed cfg req wall (Inr s) = (r, o')" by fastforce
  from p assms(2) show ?thesis
  proof (cases rule: prepare_cases)
    case (ready rb s1 pr)
    have f: "finish e pr (wall 4) s1 = (d, s')"
      using authorize_ready [of e ed cfg req wall s pr s1] p ready assms(1) by (auto split: prod.splits)
    have "s' = s1" using f by (cases rule: finish_cases) (use assms(3) in auto)
    then show ?thesis using effective_now_eq(3-6) [OF ready(1)] by simp
  next
    case (refused rb s1 d')
    then show ?thesis using p assms(1) effective_now_eq(3-6) [OF refused(1)] by (simp add: authorize_def)
  qed (use p assms in \<open>auto simp: authorize_def\<close>)
qed

lemma budget_loop_monitoring:
  "\<forall>p \<in> set ps. \<not> bp_enforce p \<Longrightarrow> budget_loop e shared grp now rb s ps obs ins \<noteq> Inr (Inl d)"
  using budget_loop_refusal by blast

text \<open>Monitoring alone never refuses: with no enforcing budget that applies, no intent that needs an approval and no delegation, \<open>authorize\<close> allows, also when the
  store cannot be opened.\<close>

theorem monitoring_never_refuses:
  assumes "\<forall>p \<in> set (applicable cfg req). \<not> bp_enforce p" "\<not> needs_approval cfg req" "dr_delegation_id req = None" "gc_cloud cfg = None"
  shows "\<exists>d o'. authorize e ed cfg req wall opened = (Inr d, o', []) \<and> dd_allow d"
proof (cases opened)
  case (Inl m)
  have ne: "\<not> list_ex bp_enforce (applicable cfg req)" using assms(1) by (simp add: list_ex_iff)
  show ?thesis using assms(2,3) ne unfolding Inl
    by (cases "applicable cfg req = []") (simp_all add: authorize_def prepare_def Let_def unavailable_def needs_approval_def)
next
  case (Inr s)
  obtain r o' where p: "prepare e ed cfg req wall (Inr s) = (r, o')" by fastforce
  from p assms(4) show ?thesis
  proof (cases rule: prepare_cases)
    case (ready rb s1 pr)
    obtain d s' where f: "finish e pr (wall 4) s1 = (d, s')" by fastforce
    have md: "\<not> pr_must_deny pr" using ready(8) assms(1-3) by (simp add: list_ex_iff)
    have no_chosen: "pr_chosen pr = []" using ready(10) assms(2) by (auto simp: needs_approval_def list_ex_iff filter_empty_conv)
    have "dd_allow d"
    proof (rule ccontr)
      assume r: "\<not> dd_allow d"
      obtain rb2 s2 where e2: "effective_now (wall 4) s1 = ((now_of (wall 4) s1, rb2), s2)" by (rule effective_now_cases)
      have dp: "delegation_problem pr x y = None" for x y using ready(4) assms(3) by (simp add: delegation_problem_def)
      show False
      proof (cases "budget_loop e (pr_shared_gateway pr) (dr_action_group (pr_req pr)) (now_of (wall 4) s1) rb2 s2 (pr_policies pr) [] []")
        case (Inl x)
        then have "decide_body e pr (wall 4) s1 = Inl x" by (simp add: decide_body_def e2 dp no_chosen)
        then show False using f r md by (auto simp: finish_def transaction_def unavailable_def Let_def)
      next
        case (Inr q)
        then obtain obs ins where "q = Inr (obs, ins)"
          using budget_loop_monitoring [of "pr_policies pr"] ready(5) assms(1) by (cases q) auto
        with Inr show False using f r md
          by (auto simp: finish_def transaction_def decide_body_def e2 dp no_chosen unavailable_def Let_def rbind_def split: sum.splits)
      qed
    qed
    then show ?thesis using Inr authorize_ready [of e ed cfg req wall s pr s1] p ready f by simp
  qed (use p assms Inr in \<open>auto simp: authorize_def\<close>)
qed

end
