(* ===== verification/DispatchDemo.thy ===== *)
theory DispatchDemo
  imports ApprovalProps CanonicalFacts
begin

section \<open>The dispatch boundary on concrete inputs\<close>

text \<open>
  One approver, one agent, one approval of one push, a budget of one action an hour and a delegation with a child. Each property of the dispatch boundary is applied to
  them.
\<close>

definition gate_env :: env where
  "gate_env = \<lparr> date_parse = (\<lambda>s. if s = js ''t0'' then Some 0 else if s = js ''t1'' then Some 60000 else if s = js ''t9'' then Some 900000 else None),
     sha256 = (\<lambda>_. replicate 32 0), re_ok = (\<lambda>_. True), re_test = (\<lambda>_ _. True), url_host = Some \<rparr>"

definition zero_hash :: jsstr where
  "zero_hash = to_hex (replicate 32 0)"

lemma not_lone_js [simp]: "\<not> has_lone_surrogate (js s)"
proof (rule lone_plain)
  show "\<forall>c \<in> set (js s). c < 0xd800" unfolding js_def by (auto intro: less_trans [OF nat_of_char_less_256])
qed

lemma zero_hash_hex [simp]: "is_hex64 zero_hash"
  unfolding zero_hash_def by (rule to_hex_is_hex64) (simp add: is_bytes_def)

lemma zero_hash_plain [simp]: "\<not> has_lone_surrogate zero_hash"
  by (rule lone_plain) (auto simp: zero_hash_def to_hex_def hex_byte_def hex_digit_def)

lemma text_hash_gate [simp]: "text_hash gate_env t = zero_hash"
  by (simp add: text_hash_def gate_env_def zero_hash_def)

lemma gate_dates [simp]: "date_parse gate_env (js ''t0'') = Some 0" "date_parse gate_env (js ''t1'') = Some 60000" "date_parse gate_env (js ''t9'') = Some 900000"
  by (simp_all add: gate_env_def)

definition push_doc :: jsval where
  "push_doc = VObj [(js ''version'', VStr (js ''1.0'')), (js ''approval_id'', VStr (js ''approval-1'')),
     (js ''approver'', VObj [(js ''kid'', VStr (js ''key:boss'')), (js ''alg'', VStr (js ''Ed25519''))]), (js ''actor'', VStr (js ''agent'')),
     (js ''action_type'', VStr (js ''git.push'')), (js ''target'', VStr (js ''main'')), (js ''policy_digest'', VStr (js ''p'')),
     (js ''request_hash'', VStr zero_hash), (js ''issued_at'', VStr (js ''t0'')), (js ''expires_at'', VStr (js ''t1'')),
     (js ''signature'', VStr (replicate 40 65))]"

definition boss_keys :: key_lookup where
  "boss_keys kid purpose = (if kid = js ''key:boss'' then Some \<lparr> kr_pem = js ''pem'', kr_purposes = [js ''approver''], kr_revoked = False \<rparr> else None)"

definition accept_all :: verifier where
  "accept_all msg pem sig = Inr True"

lemma push_approval: "approval_of push_doc =
    \<lparr> da_version = js ''1.0'', da_id = js ''approval-1'', da_approver = VObj [(js ''kid'', VStr (js ''key:boss'')), (js ''alg'', VStr (js ''Ed25519''))],
      da_actor = js ''agent'', da_action_type = js ''git.push'', da_target = js ''main'', da_policy_digest = js ''p'', da_request_hash = zero_hash,
      da_issued_at = js ''t0'', da_expires_at = js ''t1'', da_signature = replicate 40 65 \<rparr>"
  by (simp add: approval_of_def push_doc_def Let_def js_simps str_of_def)

lemma push_fields [simp]: "da_id (approval_of push_doc) = js ''approval-1''" "da_actor (approval_of push_doc) = js ''agent''"
  "da_action_type (approval_of push_doc) = js ''git.push''" "da_target (approval_of push_doc) = js ''main''"
  "da_policy_digest (approval_of push_doc) = js ''p''" "da_request_hash (approval_of push_doc) = zero_hash"
  "da_issued_at (approval_of push_doc) = js ''t0''" "da_expires_at (approval_of push_doc) = js ''t1''"
  "str_of (fld (da_approver (approval_of push_doc)) (js ''kid'')) = js ''key:boss''"
  by (simp_all add: push_approval js_simps str_of_def)

lemma push_valid [simp]: "validate_dispatch_approval gate_env push_doc"
  by (simp add: validate_dispatch_approval_def push_doc_def Let_def js_simps approval_keys_def has_keys_def is_id_def id_re_def
      is_nonempty_string_def is_hex32_def valid_time_def str_of_def) (simp add: js_def printable_def)

lemma push_signature [simp]: "signature_problem accept_all boss_keys (approval_of push_doc) = None"
proof -
  have "json_ok (approval_claims (approval_of push_doc))" by (simp add: push_approval approval_claims_def)
  then have "returns (canonical (approval_claims (approval_of push_doc)))" by (simp only: canonical_returns)
  then obtain t where "canonical (approval_claims (approval_of push_doc)) = Inr t" by (auto simp: returns_iff)
  then show ?thesis by (simp add: signature_problem_def boss_keys_def accept_all_def)
qed

definition push_subject :: approval_subject where
  "push_subject = \<lparr> as_actor = js ''agent'', as_action_type = js ''git.push'', as_target = js ''main'', as_policy_digest = js ''p'', as_request_hash = zero_hash \<rparr>"

lemma gate_times: "times_ok gate_env"
  by (auto simp: times_ok_def gate_env_def max_time_def split: if_splits)

lemma push_times [simp]: "time_of gate_env (js ''t0'') = 0" "time_of gate_env (js ''t1'') = 60000"
  by (simp_all add: time_of_def)

theorem check_approval_correct_witness:
  "check_approval gate_env accept_all boss_keys push_doc push_subject 5 (map_option jint None) None = Inr (approval_of push_doc)"
  by (rule iffD2 [OF check_approval_correct [OF gate_times]])
    (simp_all add: lifetime_bound_def approval_max_lifetime_ms_def bound_to_def push_subject_def)

lemma push_checked: "0 \<le> now \<Longrightarrow> now < 60000 \<Longrightarrow> check_approval gate_env accept_all boss_keys push_doc push_subject now None None = Inr (approval_of push_doc)"
proof -
  assume n: "0 \<le> now" "now < 60000"
  have sig: "signature_problem accept_all boss_keys (approval_of push_doc) = None" by (rule push_signature)
  have life: "\<not> jlt (max_life None) (jsub (jint 60000) (jint 0))"
    unfolding max_life_def option.case jsub_jint approval_max_lifetime_ms_def by (subst jlt_rnd(2)) simp_all
  have "jadd (jint now) (jint approval_max_skew_ms) = rnd (of_int (now + 30000))" by (simp add: jint_def approval_max_skew_ms_def)
  then have skew: "\<not> jlt (jadd (jint now) (jint approval_max_skew_ms)) (jint 0)"
    using n by (simp only:) (subst jlt_rnd(1), simp_all)
  show ?thesis using n sig life skew by (simp add: check_approval_def Let_def push_subject_def)
qed

definition push_request :: dispatch_request where
  "push_request = \<lparr> dr_actor = js ''agent'', dr_action_group = js ''call-1'', dr_policy_digest = js ''p'',
     dr_intents = [\<lparr> di_action_type = js ''git.push'', di_target = js ''main'', di_request = VNull \<rparr>],
     dr_delegation_id = None \<rparr>"

definition push_config :: guard_config where
  "push_config = \<lparr> gc_keys = Some boss_keys, gc_require_approval = [js ''git.push''], gc_approvals = [push_doc], gc_max_lifetime = None, gc_cloud = None,
     gc_cache_ms = None, gc_budgets = [], gc_shared_gateway = False \<rparr>"

definition push_store :: store where
  "push_store = \<lparr> st_high = Some 5, st_consumed = [\<lparr> cs_id = js ''approval-1'', cs_actor = js ''agent'', cs_action_type = js ''git.push'',
     cs_request_hash = zero_hash, cs_group = js ''call-1'', cs_at = 5 \<rparr>], st_delegations = [], st_cache = [], st_revoked = [], st_reservations = [] \<rparr>"

definition push_prepared :: prepared where
  "push_prepared = \<lparr> pr_req = push_request, pr_policies = [], pr_chosen = [(0, approval_of push_doc)], pr_cloud = [], pr_workspace = False,
     pr_shared_gateway = False, pr_must_deny = True \<rparr>"

lemma push_cloud [simp]: "pr_cloud push_prepared = []"
  by (simp add: push_prepared_def)

lemma not_reference [simp]: "\<not> is_cloud_approval_ref push_doc"
  by (simp add: is_cloud_approval_ref_def push_doc_def js_simps)

lemma push_prepare:
  assumes "0 \<le> now" "now < 60000" "high_water s \<le> now"
  shows "prepare gate_env accept_all push_config push_request (\<lambda>_. now) (Inr s) = (Inr (Inr push_prepared), Inr (snd (effective_now now s)))"
proof -
  obtain rb s1 where e: "effective_now now s = ((now_of now s, rb), s1)" by (rule effective_now_cases)
  have n: "now_of now s = now" using assms(3) by (simp add: now_of_def)
  show ?thesis using push_checked [OF assms(1,2), unfolded push_subject_def]
    by (simp add: e n prepare_def Let_def push_config_def push_request_def applicable_def requires_approval_def request_hash_def push_prepared_def)
qed

lemma push_first: "finish gate_env push_prepared 5 (snd (effective_now 5 empty_store)) =
    (\<lparr> dd_allow = True, dd_reason = Ok, dd_detail = [], dd_consumed = [js ''approval-1''], dd_budgets = [] \<rparr>, push_store)"
  "finish gate_env push_prepared 5 empty_store =
    (\<lparr> dd_allow = True, dd_reason = Ok, dd_detail = [], dd_consumed = [js ''approval-1''], dd_budgets = [] \<rparr>, push_store)"
  by (simp_all add: finish_def transaction_def decide_body_def effective_now_def high_water_def Let_def empty_store_def push_prepared_def push_request_def
      delegation_problem_def approval_consumed_def consume_approval_def push_store_def)

lemma push_second: "0 \<le> h \<Longrightarrow> finish gate_env push_prepared 6 (push_store\<lparr> st_high := Some h \<rparr>) =
    (deny Approval_replayed (js ''approval approval-1 was already used'') [], push_store\<lparr> st_high := Some h \<rparr>)" if "h \<le> 6"
  using that by (simp add: finish_def transaction_def decide_body_def effective_now_def high_water_def Let_def empty_store_def push_prepared_def push_request_def
      delegation_problem_def approval_consumed_def push_store_def)

lemma push_second': "finish gate_env push_prepared 6 push_store = (deny Approval_replayed (js ''approval approval-1 was already used'') [], push_store)"
  using push_second [of 5] by (simp add: push_store_def)

lemma push_allowed:
  "authorize gate_env accept_all push_config push_request (\<lambda>_. 5) (Inr empty_store) =
     (Inr \<lparr> dd_allow = True, dd_reason = Ok, dd_detail = [], dd_consumed = [js ''approval-1''], dd_budgets = [] \<rparr>, Inr push_store, [])"
  using push_prepare [of 5 empty_store] push_first(1)
  by (simp add: authorize_def empty_store_def high_water_def)

theorem authorize_approved_witness:
  "\<exists>as. [js ''approval-1''] = map da_id as \<and> distinct (map da_id as) \<and>
     list_all2 (approved_for gate_env accept_all push_config push_request (now_of 5 empty_store))
       (filter (\<lambda>i. requires_approval push_config (di_action_type i)) (dr_intents push_request)) as \<and>
     (\<forall>a \<in> set as. \<not> approval_consumed empty_store (da_id a) \<and> approval_consumed push_store (da_id a))"
proof -
  have "needs_approval push_config push_request" by (simp add: needs_approval_def push_config_def push_request_def requires_approval_def)
  from authorize_approved [OF push_allowed _ _ this] show ?thesis by (simp add: push_config_def)
qed

lemma push_replayed:
  "authorize gate_env accept_all push_config push_request (\<lambda>_. 6) (Inr push_store) =
     (Inr (deny Approval_replayed (js ''approval approval-1 was already used'') []), Inr (push_store\<lparr> st_high := Some 6 \<rparr>), [])"
  using push_prepare [of 6 push_store] push_second [of 6]
  by (simp add: authorize_def push_store_def high_water_def effective_now_def)

theorem authorize_refusal_spends_nothing_witness:
  "st_consumed (push_store\<lparr> st_high := Some 6 \<rparr>) = st_consumed push_store"
  using authorize_refusal_spends_nothing [OF push_replayed] by (simp add: push_config_def)

theorem monitoring_never_refuses_witness:
  "\<exists>d o'. authorize gate_env accept_all (push_config\<lparr> gc_require_approval := [] \<rparr>) push_request (\<lambda>_. 5) (Inl (js ''disk full'')) = (Inr d, o', []) \<and> dd_allow d"
  by (rule monitoring_never_refuses) (simp_all add: push_config_def push_request_def applicable_def needs_approval_def requires_approval_def)

subsection \<open>A history\<close>

definition push_history :: "entry list" where
  "push_history = [\<lparr> en_prepared = push_prepared, en_now = now_of 5 empty_store,
       en_decision = \<lparr> dd_allow = True, dd_reason = Ok, dd_detail = [], dd_consumed = [js ''approval-1''], dd_budgets = [] \<rparr> \<rparr>,
     \<lparr> en_prepared = push_prepared, en_now = now_of 6 push_store, en_decision = deny Approval_replayed (js ''approval approval-1 was already used'') [] \<rparr>]"

lemma push_history_ok: "history gate_env push_store push_history"
  using history.decided [OF history.decided [OF history.start push_first(2)] push_second'] by (simp add: push_history_def)

theorem approvals_single_use_witness: "distinct (concat (map (\<lambda>n. dd_consumed (en_decision n)) push_history))"
  by (rule approvals_single_use [OF push_history_ok])

theorem decision_times_monotone_witness: "sorted (map en_now (filter committed push_history))"
  by (rule decision_times_monotone [OF push_history_ok])

theorem refusal_spends_nothing_witness: "snd (finish gate_env push_prepared 6 push_store) = push_store"
  using refusal_spends_nothing [OF push_second'] by (simp add: push_second')

subsection \<open>A budget of one action an hour\<close>

definition hourly :: budget_policy where
  "hourly = \<lparr> bp_id = js ''budget-1'', bp_actor = js ''agent'', bp_operations = [js ''git.push''], bp_authority = Installation, bp_max = 1, bp_window = 3600,
     bp_enforce = True, bp_version = 1, bp_expires_at = js ''t9'', bp_ack = Some zero_hash, bp_revoked = False,
     bp_document = VObj [(js ''budget_id'', VStr (js ''budget-1''))] \<rparr>"

definition hourly_prepared :: "string \<Rightarrow> prepared" where
  "hourly_prepared g = push_prepared\<lparr> pr_req := push_request\<lparr> dr_action_group := js g \<rparr>, pr_policies := [hourly], pr_chosen := [] \<rparr>"

definition one_slot :: store where
  "one_slot = empty_store\<lparr> st_high := Some 5, st_reservations := [\<lparr> rv_budget = js ''budget-1'', rv_group = js ''a'', rv_at = 5, rv_version = 1 \<rparr>] \<rparr>"

definition hourly_allowed :: dispatch_decision where
  "hourly_allowed = \<lparr> dd_allow = True, dd_reason = Ok, dd_detail = [], dd_consumed = [], dd_budgets = [observe hourly 1 At_limit False] \<rparr>"

lemma hourly_fields [simp]: "bp_id hourly = js ''budget-1''" "bp_authority hourly = Installation" "bp_max hourly = 1" "bp_window hourly = 3600" "bp_enforce hourly"
  "bp_version hourly = 1"
  by (simp_all add: hourly_def)

lemma hourly_counts [simp]: "budget_problem gate_env hourly 5 False = Inr None" "budget_problem gate_env hourly 6 False = Inr None"
  by (simp_all add: budget_problem_def budget_acknowledged_def budget_digest_def hourly_def js_simps sort_members_def canonical_string_def)

lemma hourly_first: "finish gate_env (hourly_prepared ''a'') 5 empty_store = (hourly_allowed, one_slot)"
  by (simp add: finish_def transaction_def decide_body_def effective_now_def high_water_def Let_def empty_store_def hourly_prepared_def push_prepared_def push_request_def
      delegation_problem_def budget_step_def reserve_budget_def count_since_def insert_reservation_def hourly_allowed_def one_slot_def clock_tolerance_ms_def)

lemma hourly_second: "dd_reason (fst (finish gate_env (hourly_prepared ''b'') 6 one_slot)) = Budget_exceeded \<and>
    snd (finish gate_env (hourly_prepared ''b'') 6 one_slot) = one_slot"
  by (simp add: finish_def transaction_def decide_body_def effective_now_def high_water_def Let_def empty_store_def hourly_prepared_def push_prepared_def push_request_def
      delegation_problem_def budget_step_def reserve_budget_def count_since_def one_slot_def clock_tolerance_ms_def)

definition hourly_history :: "entry list" where
  "hourly_history = [\<lparr> en_prepared = hourly_prepared ''a'', en_now = now_of 5 empty_store, en_decision = hourly_allowed \<rparr>,
     \<lparr> en_prepared = hourly_prepared ''b'', en_now = now_of 6 one_slot, en_decision = fst (finish gate_env (hourly_prepared ''b'') 6 one_slot) \<rparr>]"

lemma hourly_history_ok: "history gate_env one_slot hourly_history"
proof -
  have "finish gate_env (hourly_prepared ''b'') 6 one_slot = (fst (finish gate_env (hourly_prepared ''b'') 6 one_slot), one_slot)"
    using hourly_second by (simp add: prod_eq_iff)
  from history.decided [OF history.decided [OF history.start hourly_first] this] show ?thesis by (simp add: hourly_history_def)
qed

theorem budget_never_exceeded_witness:
  "int (length (filter (\<lambda>x. 100 - 3600 * 1000 < x \<and> x \<le> 100) (slots (js ''budget-1'') hourly_history))) \<le> 1"
  by (rule budget_never_exceeded [OF hourly_history_ok])
    (simp_all add: enforces_def hourly_history_def hourly_prepared_def push_prepared_def hourly_def)

subsection \<open>A delegation and its child\<close>

definition owner_grant :: delegation where
  "owner_grant = \<lparr> dl_id = js ''grant-root'', dl_parent = None, dl_actor = js ''agent'', dl_scope = tree_scope ''src/*'', dl_scope_digest = zero_hash,
     dl_issued = 0, dl_expires = 900000 \<rparr>"

definition child_delegation :: delegation where
  "child_delegation = \<lparr> dl_id = js ''grant-child'', dl_parent = Some (js ''grant-root''), dl_actor = js ''helper'', dl_scope = tree_scope ''src/lib/*'',
     dl_scope_digest = zero_hash, dl_issued = 0, dl_expires = 60000 \<rparr>"

definition grant_doc :: "string \<Rightarrow> jsval \<Rightarrow> string \<Rightarrow> string \<Rightarrow> string \<Rightarrow> jsval" where
  "grant_doc i parent actor target expires = VObj [(js ''delegation_id'', VStr (js i)), (js ''parent_id'', parent), (js ''actor'', VStr (js actor)),
     (js ''scope'', VObj [(js ''action_types'', VArr [VStr (js ''fs.read'')]), (js ''targets'', VArr [VStr (js target)])]),
     (js ''scope_digest'', VStr zero_hash), (js ''issued_at'', VStr (js ''t0'')), (js ''expires_at'', VStr (js expires))]"

definition grant_store :: store where
  "grant_store = empty_store\<lparr> st_high := Some 5, st_delegations := [owner_grant, child_delegation] \<rparr>"

lemma grant_docs:
  "validate_delegation gate_env (grant_doc ''grant-root'' VNull ''agent'' ''src/*'' ''t9'')"
  "validate_delegation gate_env (grant_doc ''grant-child'' (VStr (js ''grant-root'')) ''helper'' ''src/lib/*'' ''t1'')"
  "delegation_of gate_env (grant_doc ''grant-root'' VNull ''agent'' ''src/*'' ''t9'') = owner_grant"
  "delegation_of gate_env (grant_doc ''grant-child'' (VStr (js ''grant-root'')) ''helper'' ''src/lib/*'' ''t1'') = child_delegation"
  by (simp_all add: validate_delegation_def delegation_of_def grant_doc_def Let_def js_simps is_id_def id_re_def is_nonempty_string_def nonempty_strings_def
      arr_every_def valid_time_def str_of_def time_of_def scope_of_def owner_grant_def child_delegation_def tree_scope_def)
    (simp_all add: js_def printable_def)

lemma tree_digest: "scope_digest gate_env (tree_scope t) = Inr zero_hash"
  by (simp add: scope_digest_def tree_scope_def strs_def sort_strings_def sort_members_def canonical_string_def)

lemma tree_sub: "is_sub_scope (tree_scope ''src/lib/*'') (tree_scope ''src/*'')"
  by code_simp

lemma grants_added:
  "add_delegation gate_env (grant_doc ''grant-root'' VNull ''agent'' ''src/*'' ''t9'') 5 empty_store =
     (Inr None, empty_store\<lparr> st_high := Some 5, st_delegations := [owner_grant] \<rparr>)"
  "add_delegation gate_env (grant_doc ''grant-child'' (VStr (js ''grant-root'')) ''helper'' ''src/lib/*'' ''t1'') 5
     (empty_store\<lparr> st_high := Some 5, st_delegations := [owner_grant] \<rparr>) = (Inr None, grant_store)"
  using tree_sub
  by (simp_all add: add_delegation_def grant_docs Let_def owner_grant_def child_delegation_def tree_digest transaction_def add_body_def effective_now_def high_water_def
      empty_store_def has_delegation_def find_delegation_def parent_problem_def is_revoked_def grant_store_def)

lemma grant_history: "history gate_env grant_store []"
  by (rule history.other [OF history.other [OF history.start other_write.add [OF grants_added(1)]] other_write.add [OF grants_added(2)]])

lemma grant_ancestry: "ancestry grant_store (js ''grant-child'') [child_delegation, owner_grant]"
  by (rule ancestry.child_grant [OF _ _ ancestry.root_grant])
    (simp_all add: find_delegation_def grant_store_def child_delegation_def owner_grant_def)

theorem delegation_leaf_decides_witness:
  "check_delegation grant_store (js ''grant-child'') (js ''helper'') 8 [] = Ok \<longleftrightarrow>
    (\<exists>ds. ancestry grant_store (js ''grant-child'') ds \<and> length ds \<le> 17 \<and> dl_actor (hd ds) = js ''helper'' \<and>
       permits grant_store 8 [] (hd ds) \<and> (\<forall>d \<in> set ds. \<not> is_revoked grant_store (dl_id d)))"
  by (rule delegation_leaf_decides [OF grant_history])
    (simp add: single_stars_def grant_store_def owner_grant_def child_delegation_def tree_scope_def double_star_def ends_with_def js_def)

theorem revocation_final_witness:
  "check_delegation (revoke (js ''grant-root'') 7 grant_store) (js ''grant-child'') (js ''helper'') 8 [] \<noteq> Ok"
proof (rule revocation_final [where s = "revoke (js ''grant-root'') 7 grant_store" and d = owner_grant and e = gate_env])
  show "ancestry (revoke (js ''grant-root'') 7 grant_store) (js ''grant-child'') [child_delegation, owner_grant]"
    by (rule ancestry_keeps [OF _ grant_ancestry, of gate_env]) (auto simp: store_write_def intro: other_write.revocation)
qed (simp_all add: owner_grant_def)

end
