(* ===== verification/Coerce.thy ===== *)
theory Coerce
  imports Bytes NumText Endpoint
begin

section \<open>Conversions of the language and base64\<close>

text \<open>
  What the verifiers apply to members they have not checked: \<open>String(v)\<close>, \<open>Number(v)\<close>, \<open><\<close> between values of any type, and \<open>atob\<close>. A
  plain object reads as \<open>[object Object]\<close>; one with a member \<open>toString\<close> of its own (JSON data is never callable) makes the conversion
  throw.
\<close>

subsection \<open>Text\<close>

function to_str :: "jsval \<Rightarrow> jsstr outcome" where
  "to_str v =
     (case v of
        VArr xs \<Rightarrow> rbind (rmap (\<lambda>el. if nullish el \<or> el = VHole then Inr [] else to_str el) xs) (\<lambda>ts. Inr (js_join (js '','') ts))
      | VObj fs \<Rightarrow> if has_own v (js ''toString'') then Inl TypeErr else Inr (js ''[object Object]'')
      | VInst fs \<Rightarrow> if has_own v (js ''toString'') then Inl TypeErr else Inr (js ''[object Object]'')
      | _ \<Rightarrow> Inr (json_text v))"
  by pat_completeness auto
termination
  by (relation "measure size") (auto dest: size_list_estimation' [where f = size and y = "size _"])

declare to_str.simps [simp del]

lemma to_str_str [simp]: "to_str (VStr s) = Inr s"
  by (simp add: to_str.simps)

subsection \<open>Numbers\<close>

definition digit_in :: "nat \<Rightarrow> nat \<Rightarrow> nat option" where
  "digit_in base c =
     (let d = (if is_digit c then c - 48 else if is_lower c then c - 87 else if is_upper c then c - 55 else 99) in
      if d < base then Some d else None)"

definition radix_num :: "nat \<Rightarrow> jsstr \<Rightarrow> jnum" where
  "radix_num base s =
     (if s = [] \<or> list_ex (\<lambda>c. digit_in base c = None) s then NaN
      else rnd (of_nat (foldl (\<lambda>a c. a * base + the (digit_in base c)) 0 s)))"

text \<open>A decimal literal without its sign.\<close>

definition exponent_part :: "jsstr \<Rightarrow> int option" where
  "exponent_part x =
     (case x of
        [] \<Rightarrow> Some 0
      | e # y \<Rightarrow>
          let sg = take 1 y; ds = (if sg = js ''-'' \<or> sg = js ''+'' then drop 1 y else y) in
          if ds = [] \<or> \<not> list_all is_digit ds then None
          else Some (if sg = js ''-'' then - digits_val ds else digits_val ds))"

definition decimal_literal :: "jsstr \<Rightarrow> rat option" where
  "decimal_literal s =
     (let m = takeWhile (\<lambda>c. c \<noteq> 101 \<and> c \<noteq> 69) s; x = dropWhile (\<lambda>c. c \<noteq> 101 \<and> c \<noteq> 69) s;
          i = before 46 m; f = after 46 m in
      if i @ f = [] \<or> \<not> list_all is_digit (i @ f) then None
      else map_option (\<lambda>e. of_int (digits_val (i @ f)) * 10 powi (e - int (length f))) (exponent_part x))"

definition unsigned_num :: "jsstr \<Rightarrow> jnum" where
  "unsigned_num s =
     (if s = js ''Infinity'' then PInf else (case decimal_literal s of None \<Rightarrow> NaN | Some q \<Rightarrow> rnd q))"

definition str_num :: "jsstr \<Rightarrow> jnum" where
  "str_num s =
     (let t = js_trim s; p = take 2 t; r = drop 2 t in
      if t = [] then Fin 0
      else if p = js ''0x'' \<or> p = js ''0X'' then radix_num 16 r
      else if p = js ''0o'' \<or> p = js ''0O'' then radix_num 8 r
      else if p = js ''0b'' \<or> p = js ''0B'' then radix_num 2 r
      else if take 1 t = js ''-'' then jneg (unsigned_num (drop 1 t))
      else if take 1 t = js ''+'' then unsigned_num (drop 1 t)
      else unsigned_num t)"

text \<open>The primitive an operator reads instead of an array, an object or a function.\<close>

definition to_prim :: "jsval \<Rightarrow> jsval outcome" where
  "to_prim v =
     (case v of
        VArr xs \<Rightarrow> rbind (to_str v) (\<lambda>t. Inr (VStr t))
      | VObj fs \<Rightarrow> rbind (to_str v) (\<lambda>t. Inr (VStr t))
      | VInst fs \<Rightarrow> rbind (to_str v) (\<lambda>t. Inr (VStr t))
      | VOther k t \<Rightarrow> if k = js ''symbol'' then Inl TypeErr else Inr (VStr t)
      | _ \<Rightarrow> Inr v)"

definition prim_num :: "jsval \<Rightarrow> jnum" where
  "prim_num v =
     (case v of VNum n \<Rightarrow> n | VNull \<Rightarrow> Fin 0 | VBool b \<Rightarrow> if b then Fin 1 else Fin 0 | VStr s \<Rightarrow> str_num s | _ \<Rightarrow> NaN)"

definition to_num :: "jsval \<Rightarrow> jnum outcome" where
  "to_num v = rbind (to_prim v) (\<lambda>p. Inr (prim_num p))"

lemma to_num_num [simp]: "to_num (VNum n) = Inr n"
  by (simp add: to_num_def to_prim_def prim_num_def)

text \<open>\<open>a < b\<close>: two strings by their code units, anything else as numbers.\<close>

definition js_less :: "jsval \<Rightarrow> jsval \<Rightarrow> bool outcome" where
  "js_less a b =
     rbind (to_prim a) (\<lambda>x. rbind (to_prim b) (\<lambda>y.
       Inr (case (x, y) of (VStr s, VStr t) \<Rightarrow> s < t | _ \<Rightarrow> jlt (prim_num x) (prim_num y))))"

lemma js_less_num [simp]: "js_less (VNum a) (VNum b) = Inr (jlt a b)"
  by (simp add: js_less_def to_prim_def prim_num_def)

subsection \<open>\<open>atob\<close>\<close>

definition b64_value :: "nat \<Rightarrow> nat option" where
  "b64_value c =
     (if is_upper c then Some (c - 65) else if is_lower c then Some (c - 71) else if is_digit c then Some (c + 4)
      else if c = 43 then Some 62 else if c = 47 then Some 63 else None)"

fun b64_bytes :: "nat list \<Rightarrow> bytes" where
  "b64_bytes (a # b # c # d # s) =
     (a * 4 + b div 16) # (b mod 16 * 16 + c div 4) # (c mod 4 * 64 + d) # b64_bytes s"
| "b64_bytes [a, b, c] = [a * 4 + b div 16, b mod 16 * 16 + c div 4]"
| "b64_bytes [a, b] = [a * 4 + b div 16]"
| "b64_bytes _ = []"

text \<open>The forgiving decoder: ASCII white space is removed, then at most two padding signs of a text whose length is a multiple
  of four.\<close>

definition strip_pad :: "jsstr \<Rightarrow> jsstr" where
  "strip_pad t =
     (if length t mod 4 \<noteq> 0 then t
      else if ends_with t (js ''=='') then take (length t - 2) t
      else if ends_with t (js ''='') then take (length t - 1) t
      else t)"

definition atob :: "jsstr \<Rightarrow> bytes outcome" where
  "atob s =
     (let u = strip_pad (filter (\<lambda>c. c \<notin> {9, 10, 12, 13, 32}) s) in
      if length u mod 4 = 1 \<or> list_ex (\<lambda>c. b64_value c = None) u then Inl (Err (js ''InvalidCharacterError''))
      else Inr (b64_bytes (map (\<lambda>c. the (b64_value c)) u)))"

subsection \<open>Decoding inverts encoding\<close>

text \<open>The standard encoding (RFC 4648), as a reference: what the signers write.\<close>

definition b64_char :: "nat \<Rightarrow> nat" where
  "b64_char n = (if n < 26 then n + 65 else if n < 52 then n + 71 else if n < 62 then n - 4 else if n = 62 then 43 else 47)"

fun btoa :: "bytes \<Rightarrow> jsstr" where
  "btoa (x # y # z # bs) =
     b64_char (x div 4) # b64_char (x mod 4 * 16 + y div 16) # b64_char (y mod 16 * 4 + z div 64) # b64_char (z mod 64) # btoa bs"
| "btoa [x, y] = [b64_char (x div 4), b64_char (x mod 4 * 16 + y div 16), b64_char (y mod 16 * 4), 61]"
| "btoa [x] = [b64_char (x div 4), b64_char (x mod 4 * 16), 61, 61]"
| "btoa [] = []"

lemma b64_value_char: "n < 64 \<Longrightarrow> b64_value (b64_char n) = Some n"
  by (auto simp: b64_value_def b64_char_def is_upper_def is_lower_def is_digit_def)

lemma b64_char_plain: "n < 64 \<Longrightarrow> b64_char n \<notin> {9, 10, 12, 13, 32, 61}"
  by (auto simp: b64_char_def)

text \<open>The text without its padding, and the sextets it stands for.\<close>

fun sextets :: "bytes \<Rightarrow> nat list" where
  "sextets (x # y # z # bs) = (x div 4) # (x mod 4 * 16 + y div 16) # (y mod 16 * 4 + z div 64) # (z mod 64) # sextets bs"
| "sextets [x, y] = [x div 4, x mod 4 * 16 + y div 16, y mod 16 * 4]"
| "sextets [x] = [x div 4, x mod 4 * 16]"
| "sextets [] = []"

lemma sextets_range: "\<forall>b \<in> set bs. b < 256 \<Longrightarrow> \<forall>n \<in> set (sextets bs). n < 64"
proof (induction bs rule: sextets.induct)
  case (1 x y z bs)
  then have "x div 4 < 64" "x mod 4 < 4" "y div 16 < 16" "y mod 16 < 16" "z div 64 < 4"
    by (simp_all add: less_mult_imp_div_less)
  with 1 show ?case by auto
next
  case (2 x y)
  then have "x div 4 < 64" "x mod 4 < 4" "y div 16 < 16" "y mod 16 < 16" by (simp_all add: less_mult_imp_div_less)
  then show ?case by auto
next
  case (3 x)
  then have "x div 4 < 64" "x mod 4 < 4" by (simp_all add: less_mult_imp_div_less)
  then show ?case by auto
qed simp

lemma b64_bytes_sextets: "\<forall>b \<in> set bs. b < 256 \<Longrightarrow> b64_bytes (sextets bs) = bs"
proof (induction bs rule: sextets.induct)
  case (1 x y z bs)
  then have "x mod 4 < 4" "y div 16 < 16" "y mod 16 < 16" "z div 64 < 4" by (simp_all add: less_mult_imp_div_less)
  with 1 show ?case by (simp add: div_mult2_eq [symmetric])
next
  case (2 x y)
  then have "y div 16 < 16" by (simp add: less_mult_imp_div_less)
  then show ?case by simp
qed auto

lemma btoa_sextets:
  "\<exists>k. btoa bs = map b64_char (sextets bs) @ replicate k 61 \<and> k \<le> 2 \<and> (length (sextets bs) + k) mod 4 = 0"
proof (induction bs rule: btoa.induct)
  case (1 x y z bs)
  then obtain k where k: "btoa bs = map b64_char (sextets bs) @ replicate k 61" "k \<le> 2" "(length (sextets bs) + k) mod 4 = 0"
    by (elim exE conjE) (rule that)
  have "length (sextets (x # y # z # bs)) + k = length (sextets bs) + k + 4" by simp
  then have "(length (sextets (x # y # z # bs)) + k) mod 4 = 0" using k(3) by (simp only: mod_add_self2)
  with k(1,2) show ?case by (intro exI [of _ k]) simp
next
  case (2 x y)
  show ?case by (rule exI [of _ 1]) simp
next
  case (3 x)
  show ?case by (rule exI [of _ 2]) (simp add: numeral_2_eq_2)
qed simp

lemma strip_pad_replicate:
  assumes "\<forall>c \<in> set s. c \<noteq> 61" "k \<le> 2" "(length s + k) mod 4 = 0"
  shows "strip_pad (s @ replicate k 61) = s"
proof -
  have n: "\<not> ends_with s (t @ [61])" for t
  proof
    assume "ends_with s (t @ [61])"
    then have "drop (length s - length (t @ [61])) s = t @ [61]" by (simp add: ends_with_def)
    then have "61 \<in> set s" using in_set_dropD [of 61 "length s - length (t @ [61])" s] by simp
    with assms(1) show False by blast
  qed
  consider "k = 0" | "k = 1" | "k = 2" using assms(2) by linarith
  then show ?thesis
  proof cases
    case 1
    then show ?thesis using n [of "[61]"] n [of "[]"] by (simp add: strip_pad_def js_def)
  next
    case 2
    have "\<not> ends_with (s @ [61]) (js ''=='')"
    proof
      assume e: "ends_with (s @ [61]) (js ''=='')"
      then have s: "s \<noteq> []" by (auto simp: ends_with_def)
      have "drop (length s - 1) s @ [61] = [61, 61]" using e s by (auto simp: ends_with_def js_def Suc_le_eq)
      then have "drop (length s - 1) s = [61]" by simp
      then have "61 \<in> set s" by (metis in_set_dropD list.set_intros(1))
      with assms(1) show False by blast
    qed
    moreover have "ends_with (s @ [61]) (js ''='')" by (simp add: ends_with_def js_def)
    ultimately show ?thesis using 2 assms(3) by (simp add: strip_pad_def)
  next
    case 3
    moreover have "ends_with (s @ [61, 61]) (js ''=='')" by (simp add: ends_with_def js_def)
    ultimately show ?thesis using assms(3) by (simp add: strip_pad_def numeral_2_eq_2)
  qed
qed

lemma atob_btoa:
  assumes "\<forall>b \<in> set bs. b < 256"
  shows "atob (btoa bs) = Inr bs"
proof -
  obtain k where k: "btoa bs = map b64_char (sextets bs) @ replicate k 61" "k \<le> 2" "(length (sextets bs) + k) mod 4 = 0"
    using btoa_sextets [of bs] by (elim exE conjE) (rule that)
  have r: "\<forall>n \<in> set (sextets bs). n < 64" using sextets_range [OF assms] .
  have p: "\<forall>c \<in> set (map b64_char (sextets bs)). c \<notin> {9, 10, 12, 13, 32, 61}" using r b64_char_plain by auto
  then have f: "filter (\<lambda>c. c \<notin> {9, 10, 12, 13, 32}) (btoa bs) = btoa bs" unfolding k(1) by (auto simp: filter_id_conv)
  have "\<forall>c \<in> set (map b64_char (sextets bs)). c \<noteq> 61" using p by blast
  moreover have "(length (map b64_char (sextets bs)) + k) mod 4 = 0" using k(3) by simp
  ultimately have u: "strip_pad (btoa bs) = map b64_char (sextets bs)"
    unfolding k(1) using k(2) by (intro strip_pad_replicate)
  have v: "map (\<lambda>c. the (b64_value c)) (map b64_char (sextets bs)) = sextets bs"
    using r by (auto simp: b64_value_char intro!: map_idI)
  have "length (sextets bs) mod 4 \<noteq> 1" using k(2,3) by presburger
  moreover have "\<not> list_ex (\<lambda>c. b64_value c = None) (map b64_char (sextets bs))"
    using r by (auto simp: list_ex_iff b64_value_char)
  ultimately show ?thesis unfolding atob_def Let_def f u v b64_bytes_sextets [OF assms] by simp
qed

end
