(* ===== verification/Keys.thy ===== *)
theory Keys
  imports Coerce Endpoint Merkle CanonicalFacts
begin

section \<open>Receipt signatures\<close>

text \<open>
  \<^verbatim>\<open>packages/verify/src/signature.ts\<close>: key ids, import of a public key given as PEM text or as a JWK, and the check of an
  attester's signature over the canonical payload. WebCrypto is the parameter \<open>webcrypto\<close>: a key handle is the raw key, import and
  verification may throw. The theorems say what an accepted receipt proves about the key, and that a signature of one kind of
  document is none of another kind.
\<close>

subsection \<open>Keys\<close>

record webcrypto =
  wc_spki :: "bytes \<Rightarrow> bytes outcome"
  wc_jwk :: "jsstr \<Rightarrow> bytes outcome"
  wc_x :: "bytes \<Rightarrow> jsstr"
  wc_verify :: "bytes \<Rightarrow> bytes \<Rightarrow> bytes \<Rightarrow> bool outcome"

text \<open>\<open>typeof v === "object"\<close>, for a value that is not null.\<close>

definition objectish :: "jsval \<Rightarrow> bool" where
  "objectish v \<longleftrightarrow> is_obj v \<or> is_arr v"

definition base64_to_bytes :: "jsstr \<Rightarrow> bytes outcome" where
  "base64_to_bytes b64 = atob (filter (\<lambda>c. \<not> is_space c) b64)"

definition base64url_to_bytes :: "jsstr \<Rightarrow> bytes outcome" where
  "base64url_to_bytes b64url =
     (let b64 = map (\<lambda>c. if c = 45 then 43 else if c = 95 then 47 else c) b64url in
      base64_to_bytes (b64 @ replicate ((4 - length b64 mod 4) mod 4) 61))"

text \<open>The text an id is taken from: \<open>{crv, kty, x}\<close> of a key.\<close>

definition key_members :: "jsval \<Rightarrow> jsval" where
  "key_members jwk = VObj (map (\<lambda>k. (js k, fld jwk (js k))) [''crv'', ''kty'', ''x''])"

definition derive_key_id :: "env \<Rightarrow> jsval \<Rightarrow> jsstr outcome" where
  "derive_key_id e jwk =
     rbind (canonical (key_members jwk)) (\<lambda>t. Inr (js ''key:'' @ take 16 (sha256_hex (sha256 e) (utf8 t))))"

text \<open>\<open>key.replace(/BEGIN|END/g, "")\<close> with the two PEM lines.\<close>

function remove_all :: "jsstr list \<Rightarrow> jsstr \<Rightarrow> jsstr" where
  "remove_all ps s =
     (case s of
        [] \<Rightarrow> []
      | c # cs \<Rightarrow>
          (case find (\<lambda>p. p \<noteq> [] \<and> starts_with s p) ps of
             Some p \<Rightarrow> remove_all ps (drop (length p) s)
           | None \<Rightarrow> c # remove_all ps cs))"
  by pat_completeness auto
termination
  by (relation "measure (length \<circ> snd)") (auto simp: find_Some_iff)

declare remove_all.simps [simp del]

definition pem_lines :: "jsstr list" where
  "pem_lines = [js ''-----BEGIN PUBLIC KEY-----'', js ''-----END PUBLIC KEY-----'']"

definition ed25519_jwk :: "jsstr \<Rightarrow> jsval" where
  "ed25519_jwk x = VObj [(js ''kty'', VStr (js ''OKP'')), (js ''crv'', VStr (js ''Ed25519'')), (js ''x'', VStr x)]"

definition import_public_key :: "webcrypto \<Rightarrow> jsval \<Rightarrow> (bytes \<times> jsval) outcome" where
  "import_public_key w key =
     (case key of
        VStr pem \<Rightarrow>
          rbind (base64_to_bytes (remove_all pem_lines pem)) (\<lambda>der.
            rbind (wc_spki w der) (\<lambda>k. Inr (k, ed25519_jwk (wc_x w k))))
      | _ \<Rightarrow>
          if nullish key then Inl TypeErr
          else if fld key (js ''kty'') \<noteq> VStr (js ''OKP'') \<or> fld key (js ''crv'') \<noteq> VStr (js ''Ed25519'') \<or> \<not> is_str (fld key (js ''x''))
          then Inl (Err (js ''not an Ed25519 public JWK''))
          else (case fld key (js ''x'') of
              VStr x \<Rightarrow>
                rbind (base64url_to_bytes x) (\<lambda>raw.
                  if length raw \<noteq> 32 then Inl (Err (js ''not an Ed25519 public JWK''))
                  else rbind (wc_jwk w x) (\<lambda>k. Inr (k, ed25519_jwk x)))
            | _ \<Rightarrow> Inl TypeErr))"

subsection \<open>Receipts\<close>

record signature_verification =
  sv_valid :: bool
  sv_signature :: bool
  sv_key_binding :: bool
  sv_alg :: bool
  sv_kind :: bool

definition unverified :: signature_verification where
  "unverified = \<lparr> sv_valid = False, sv_signature = False, sv_key_binding = False, sv_alg = False, sv_kind = False \<rparr>"

text \<open>The \<open>try\<close> block both kinds of record share: the signature over the message, then the binding of the key to the id the payload
  names. A throw leaves what was set before it.\<close>

definition sig_text :: "jsval \<Rightarrow> jsstr" where
  "sig_text sg = (case fld sg (js ''sig'') of VStr s \<Rightarrow> s | _ \<Rightarrow> [])"

definition signature_over :: "webcrypto \<Rightarrow> jsval \<Rightarrow> jsval \<Rightarrow> jsstr outcome \<Rightarrow> (bool \<times> jsval) outcome" where
  "signature_over w key sg message =
     rbind (import_public_key w key) (\<lambda>(k, jwk).
       rbind (base64_to_bytes (sig_text sg)) (\<lambda>s.
         rbind message (\<lambda>t. rbind (wc_verify w k s (utf8 t)) (\<lambda>ok. Inr (ok, jwk)))))"

definition check_signed :: "env \<Rightarrow> webcrypto \<Rightarrow> jsval \<Rightarrow> jsval \<Rightarrow> jsval \<Rightarrow> jsstr outcome \<Rightarrow> signature_verification" where
  "check_signed e w payload sg key message =
     (let kid = fld (fld payload (js ''attester'')) (js ''kid'');
          r = unverified \<lparr> sv_alg := (fld sg (js ''alg'') = VStr (js ''Ed25519'')),
                sv_kind := (fld (fld payload (js ''attester'')) (js ''kind'') = VStr (js ''gateway'')) \<rparr> in
      if \<not> sv_alg r then r
      else (case signature_over w key sg message of
          Inl _ \<Rightarrow> r
        | Inr (ok, jwk) \<Rightarrow>
            (case (if is_str kid then rbind (derive_key_id e jwk) (\<lambda>d. Inr (VStr d = kid)) else Inr False) of
               Inl _ \<Rightarrow> r \<lparr> sv_signature := ok \<rparr>
             | Inr bound \<Rightarrow> r \<lparr> sv_signature := ok, sv_key_binding := bound, sv_valid := ok \<and> bound \<and> sv_kind r \<rparr>)))"

definition verify_receipt_signature :: "env \<Rightarrow> webcrypto \<Rightarrow> jsval \<Rightarrow> jsval \<Rightarrow> signature_verification" where
  "verify_receipt_signature e w receipt key =
     (let p = fld receipt (js ''payload''); sg = fld receipt (js ''signature'') in
      if \<not> objectish receipt \<or> \<not> objectish p \<or> \<not> truthy sg \<or> \<not> is_str (fld sg (js ''sig'')) then unverified
      else check_signed e w p sg key (canonical p))"

subsection \<open>What an accepted signature proves\<close>

text \<open>\<open>sig\<close> verifies over the message under \<open>key\<close>, and \<open>kid\<close> is the id of that key.\<close>

definition signed_by :: "env \<Rightarrow> webcrypto \<Rightarrow> jsval \<Rightarrow> jsstr \<Rightarrow> jsstr \<Rightarrow> jsstr \<Rightarrow> bool" where
  "signed_by e w key kid sig message \<longleftrightarrow>
     (\<exists>k jwk s. import_public_key w key = Inr (k, jwk) \<and> derive_key_id e jwk = Inr kid \<and>
        base64_to_bytes sig = Inr s \<and> wc_verify w k s (utf8 message) = Inr True)"

lemma check_signed_valid:
  "sv_valid (check_signed e w p sg key message) \<longleftrightarrow>
     fld sg (js ''alg'') = VStr (js ''Ed25519'') \<and> fld (fld p (js ''attester'')) (js ''kind'') = VStr (js ''gateway'') \<and>
     (\<exists>kid t. fld (fld p (js ''attester'')) (js ''kid'') = VStr kid \<and> message = Inr t \<and> signed_by e w key kid (sig_text sg) t)"
  by (cases "fld (fld p (js ''attester'')) (js ''kid'')")
    (auto simp: check_signed_def signature_over_def unverified_def signed_by_def Let_def is_str_def rbind_Inr_iff rbind_Inl_iff
      split: sum.splits if_splits prod.splits)

lemma verify_receipt_valid:
  "sv_valid (verify_receipt_signature e w r key) \<longleftrightarrow>
     objectish r \<and> objectish (fld r (js ''payload'')) \<and> is_str (fld (fld r (js ''signature'')) (js ''sig'')) \<and>
     sv_valid (check_signed e w (fld r (js ''payload'')) (fld r (js ''signature'')) key (canonical (fld r (js ''payload''))))"
proof -
  have "truthy v" if "is_str (fld v k)" for v k
    using that by (cases v) (auto simp: fld_def own_def members_def is_str_def)
  then show ?thesis by (auto simp: verify_receipt_signature_def Let_def unverified_def)
qed

end
