(* ===== verification/AnchorLog.thy ===== *)
theory AnchorLog
  imports Keys MerkleFacts
begin

section \<open>Anchors of the receipt log\<close>

text \<open>
  The last part of \<^verbatim>\<open>packages/verify/src/anchor.ts\<close>: what an anchor commits to, its hash, the root over the receipts, the signature
  of a version 2 anchor and the walk over an anchor log. Anchors and keys are unknown documents. The loop of \<open>verifyAnchorChain\<close> is
  \<open>chain_loop\<close>, one round of it \<open>anchor_problem\<close> (the error it returns with, or \<open>None\<close>); the comparison of two unchecked sizes may throw.
\<close>

subsection \<open>One anchor\<close>

definition algo_v1 :: jsval where
  "algo_v1 = VStr (js ''sha256-merkle'')"

definition algo_v2 :: jsval where
  "algo_v2 = VStr (js ''rfc9162-sha256'')"

definition is_anchor_v2 :: "jsval \<Rightarrow> bool" where
  "is_anchor_v2 a \<longleftrightarrow> objectish a \<and> fld a (js ''algo'') = algo_v2"

definition anchor_body :: "jsval \<Rightarrow> jsval" where
  "anchor_body a =
     VObj (filter (\<lambda>(k, v). k \<noteq> js ''anchor_hash'' \<and> (is_anchor_v2 a \<longrightarrow> k \<noteq> js ''signature'')) (members a))"

definition anchor_hash :: "env \<Rightarrow> jsval \<Rightarrow> jsstr outcome" where
  "anchor_hash e a = rbind (canonical (anchor_body a)) (\<lambda>t. Inr (sha256_hex (sha256 e) (utf8 t)))"

definition anchor_root :: "env \<Rightarrow> jsval \<Rightarrow> jsval list \<Rightarrow> jsstr outcome" where
  "anchor_root e algo payloads =
     (if algo = algo_v2 then
        rbind (rmap (receipt_leaf_hash (sha256 e)) payloads) (\<lambda>ls. merkle_tree_hash (sha256 e) (VArr (map VStr ls)))
      else if algo = VUndef \<or> algo = algo_v1 then
        rbind (rmap (receipt_leaf_hash_v1 (sha256 e)) payloads) (\<lambda>ls. Inr (merkle_root_v1 (sha256 e) ls))
      else rbind (to_str algo) (\<lambda>t. Inl (Err (js ''unsupported anchor algo: '' @ t))))"

definition verify_anchor_root :: "env \<Rightarrow> jsval \<Rightarrow> jsval list \<Rightarrow> bool" where
  "verify_anchor_root e anchor payloads =
     (let n = VNum (jint (int (length payloads))); root = anchor_root e (fld anchor (js ''algo'')) payloads in
      if is_anchor_v2 anchor then
        n = fld anchor (js ''tree_size'') \<and> (case root of Inl _ \<Rightarrow> False | Inr r \<Rightarrow> VStr r = fld anchor (js ''root''))
      else n = fld anchor (js ''count'') \<and> (case root of Inl _ \<Rightarrow> False | Inr r \<Rightarrow> VStr r = fld anchor (js ''merkle_root'')))"

definition anchor_kid :: "env \<Rightarrow> jsval \<Rightarrow> jsstr outcome" where
  "anchor_kid e jwk =
     rbind (canonical (key_members jwk)) (\<lambda>t. Inr (js ''key:'' @ take 16 (sha256_hex (sha256 e) (utf8 t))))"

text \<open>The steps of \<open>verifyAnchorSignature\<close> after the checks of shape; any throw is its \<open>catch\<close>.\<close>

definition anchor_signature :: "env \<Rightarrow> webcrypto \<Rightarrow> jsval \<Rightarrow> jsval \<Rightarrow> bool outcome" where
  "anchor_signature e w anchor jwk =
     rbind (anchor_kid e jwk) (\<lambda>kid.
       if fld (fld anchor (js ''attester'')) (js ''kid'') \<noteq> VStr kid then Inr False
       else rbind (canonical (anchor_body anchor)) (\<lambda>t.
         if VStr (to_hex (sha256 e (utf8 t))) \<noteq> fld anchor (js ''anchor_hash'') then Inr False
         else (case fld jwk (js ''x'') of
             VStr x \<Rightarrow> rbind (wc_jwk w x) (\<lambda>k. rbind (atob (sig_text (fld anchor (js ''signature'')))) (\<lambda>s. wc_verify w k s (utf8 t)))
           | _ \<Rightarrow> Inl TypeErr)))"

definition verify_anchor_signature :: "env \<Rightarrow> webcrypto \<Rightarrow> jsval \<Rightarrow> jsval \<Rightarrow> bool" where
  "verify_anchor_signature e w anchor jwk =
     (let sg = fld anchor (js ''signature'') in
      if \<not> is_anchor_v2 anchor then False
      else if fld anchor (js ''type'') \<noteq> VStr (js ''scopebond:anchor'') \<or> \<not> is_size (fld anchor (js ''tree_size'')) \<or>
        \<not> is_hex32 (fld anchor (js ''root'')) then False
      else if fld sg (js ''alg'') \<noteq> VStr (js ''Ed25519'') \<or> \<not> is_str (fld sg (js ''sig'')) then False
      else if fld jwk (js ''kty'') \<noteq> VStr (js ''OKP'') \<or> fld jwk (js ''crv'') \<noteq> VStr (js ''Ed25519'') \<or> \<not> is_str (fld jwk (js ''x''))
      then False
      else anchor_signature e w anchor jwk = Inr True)"

subsection \<open>An anchor log\<close>

record chain_result =
  cr_valid :: bool
  cr_error :: "jsstr option"
  cr_index :: "nat option"

definition anchor_size :: "jsval \<Rightarrow> jsval" where
  "anchor_size a = fld a (if is_anchor_v2 a then js ''tree_size'' else js ''count'')"

text \<open>\<open>prev ? prev.seq + 1 : a.seq\<close>; the sequence numbers are safe integers, so adding one is exact.\<close>

definition next_seq :: "jsval \<Rightarrow> jsval" where
  "next_seq prev = (case fld prev (js ''seq'') of VNum n \<Rightarrow> VNum (jadd n (jint 1)) | _ \<Rightarrow> VUndef)"

definition shape_problem :: "jsval \<Rightarrow> bool \<Rightarrow> string option" where
  "shape_problem a seen_v2 =
     (let algo = fld a (js ''algo'') in
      if \<not> objectish a \<or> \<not> is_size (fld a (js ''seq'')) \<or> \<not> is_str (fld a (js ''anchor_hash'')) then Some ''malformed anchor''
      else if \<not> is_anchor_v2 a \<and> algo \<noteq> VUndef \<and> algo \<noteq> algo_v1 then Some ''unsupported algo''
      else if seen_v2 \<and> \<not> is_anchor_v2 a then Some ''v1 anchor after a v2 anchor (downgrade)''
      else None)"

definition link_problem :: "env \<Rightarrow> jsval option \<Rightarrow> nat \<Rightarrow> jsval \<Rightarrow> string option" where
  "link_problem e prev i a =
     (let ph = fld a (js ''prev_anchor_hash'') in
      if (case prev of None \<Rightarrow> False | Some p \<Rightarrow> fld a (js ''seq'') \<noteq> next_seq p) then Some ''sequence gap''
      else (case anchor_hash e a of
          Inl _ \<Rightarrow> Some ''anchor is not canonicalizable''
        | Inr h \<Rightarrow>
            if VStr h \<noteq> fld a (js ''anchor_hash'') then Some ''anchor_hash mismatch''
            else if (case prev of None \<Rightarrow> ph = VNum NaN | Some p \<Rightarrow> ph \<noteq> fld p (js ''anchor_hash''))
            then Some ''prev_anchor_hash does not link''
            else if i = 0 \<and> prev = None \<and> fld a (js ''seq'') = VNum (jint 1) \<and> ph \<noteq> VNull
            then Some ''first anchor must have prev_anchor_hash null''
            else None))"

definition anchor_problem ::
  "env \<Rightarrow> webcrypto \<Rightarrow> jsval \<Rightarrow> jsval option \<Rightarrow> bool \<Rightarrow> nat \<Rightarrow> jsval \<Rightarrow> string option outcome" where
  "anchor_problem e w jwk prev seen_v2 i a =
     (case shape_problem a seen_v2 of
        Some p \<Rightarrow> Inr (Some p)
      | None \<Rightarrow>
          (case link_problem e prev i a of
             Some p \<Rightarrow> Inr (Some p)
           | None \<Rightarrow>
               rbind (case prev of None \<Rightarrow> Inr False | Some p \<Rightarrow> js_less (anchor_size a) (anchor_size p)) (\<lambda>shrank.
                 if shrank then Inr (Some ''log shrank'')
                 else if is_anchor_v2 a \<and> \<not> (truthy jwk \<and> verify_anchor_signature e w a jwk)
                 then Inr (Some ''bad or unverifiable v2 signature'')
                 else Inr None)))"

fun chain_loop :: "env \<Rightarrow> webcrypto \<Rightarrow> jsval \<Rightarrow> jsval option \<Rightarrow> bool \<Rightarrow> nat \<Rightarrow> jsval list \<Rightarrow> chain_result outcome" where
  "chain_loop e w jwk prev seen_v2 i [] = Inr \<lparr> cr_valid = True, cr_error = None, cr_index = None \<rparr>"
| "chain_loop e w jwk prev seen_v2 i (a # as) =
     rbind (anchor_problem e w jwk prev seen_v2 i a) (\<lambda>p. case p of
        Some err \<Rightarrow> Inr \<lparr> cr_valid = False, cr_error = Some (js err), cr_index = Some i \<rparr>
      | None \<Rightarrow> chain_loop e w jwk (Some a) (seen_v2 \<or> is_anchor_v2 a) (i + 1) as)"

definition verify_anchor_chain :: "env \<Rightarrow> webcrypto \<Rightarrow> jsval \<Rightarrow> jsval \<Rightarrow> chain_result outcome" where
  "verify_anchor_chain e w anchors jwk =
     (if \<not> is_arr anchors then Inr \<lparr> cr_valid = False, cr_error = Some (js ''anchors must be an array''), cr_index = None \<rparr>
      else chain_loop e w jwk None False 0 (elems anchors))"

end
