(* ===== verification/AnchorProps.thy ===== *)
theory AnchorProps
  imports AnchorLog
begin

section \<open>What an accepted anchor log proves\<close>

text \<open>
  \<open>verifyAnchorChain\<close> accepts exactly the logs whose anchors are sound one by one and follow each other pairwise; the hash of the last
  anchor of an accepted log determines every anchor before it; and an inclusion proof against an anchor whose root was checked against
  the receipts is a proof about one of those receipts.
\<close>

subsection \<open>The walk\<close>

text \<open>An anchor by itself: its shape, its hash and, from version 2 on, its signature.\<close>

definition anchor_sound :: "env \<Rightarrow> webcrypto \<Rightarrow> jsval \<Rightarrow> jsval \<Rightarrow> bool" where
  "anchor_sound e w jwk a \<longleftrightarrow>
     objectish a \<and> is_size (fld a (js ''seq'')) \<and> fld a (js ''algo'') \<in> {VUndef, algo_v1, algo_v2} \<and>
     (\<exists>h. anchor_hash e a = Inr h \<and> fld a (js ''anchor_hash'') = VStr h) \<and>
     (is_anchor_v2 a \<longrightarrow> truthy jwk \<and> verify_anchor_signature e w a jwk)"

text \<open>An anchor after another: the next sequence number, the link, a size that has not shrunk, no return to version 1.\<close>

definition anchor_follows :: "jsval \<Rightarrow> jsval \<Rightarrow> bool" where
  "anchor_follows p a \<longleftrightarrow>
     fld a (js ''seq'') = next_seq p \<and> fld a (js ''prev_anchor_hash'') = fld p (js ''anchor_hash'') \<and>
     js_less (anchor_size a) (anchor_size p) = Inr False \<and> (is_anchor_v2 p \<longrightarrow> is_anchor_v2 a)"

definition anchor_starts :: "jsval \<Rightarrow> bool" where
  "anchor_starts a \<longleftrightarrow> (fld a (js ''seq'') = VNum (jint 1) \<longrightarrow> fld a (js ''prev_anchor_hash'') = VNull)"

lemma body_member:
  assumes "fld a (js k) = v" "v \<noteq> VUndef" "k \<noteq> ''anchor_hash''" "k \<noteq> ''signature''"
  shows "(js k, v) \<in> set (filter (\<lambda>(k, v). k \<noteq> js ''anchor_hash'' \<and> (is_anchor_v2 a \<longrightarrow> k \<noteq> js ''signature'')) (members a))"
  using assms by (auto simp: fld_def own_def split: option.splits dest!: map_of_SomeD)

lemma json_member: "json_ok (VObj fs) \<Longrightarrow> (k, v) \<in> set fs \<Longrightarrow> json_ok v"
  by auto

lemma hashed_not_NaN: "anchor_hash e a = Inr h \<Longrightarrow> fld a (js ''prev_anchor_hash'') \<noteq> VNum NaN"
proof
  assume h: "anchor_hash e a = Inr h" and n: "fld a (js ''prev_anchor_hash'') = VNum NaN"
  from h have "returns (canonical (anchor_body a))" by (auto simp: anchor_hash_def rbind_Inr_iff returns_iff)
  then have "json_ok (anchor_body a)" by (simp only: canonical_returns)
  from json_member [OF this [unfolded anchor_body_def] body_member [OF n]] show False by (simp add: is_finite_num_def)
qed

lemma shape_problem_None:
  "shape_problem a seen = None \<longleftrightarrow>
     objectish a \<and> is_size (fld a (js ''seq'')) \<and> is_str (fld a (js ''anchor_hash'')) \<and>
     fld a (js ''algo'') \<in> {VUndef, algo_v1, algo_v2} \<and> (seen \<longrightarrow> is_anchor_v2 a)"
  by (auto simp: shape_problem_def Let_def is_anchor_v2_def)

lemma link_problem_None:
  "link_problem e prev i a = None \<longleftrightarrow>
     (\<exists>h. anchor_hash e a = Inr h \<and> fld a (js ''anchor_hash'') = VStr h) \<and>
     (case prev of
        None \<Rightarrow> i = 0 \<longrightarrow> anchor_starts a
      | Some p \<Rightarrow> fld a (js ''seq'') = next_seq p \<and> fld a (js ''prev_anchor_hash'') = fld p (js ''anchor_hash''))"
  using hashed_not_NaN [of e a]
  by (auto simp: link_problem_def anchor_starts_def Let_def split: option.splits sum.splits if_splits)

lemma anchor_problem_None:
  "anchor_problem e w jwk prev seen i a = Inr None \<longleftrightarrow>
     anchor_sound e w jwk a \<and> (seen \<longrightarrow> is_anchor_v2 a) \<and>
     (case prev of
        None \<Rightarrow> i = 0 \<longrightarrow> anchor_starts a
      | Some p \<Rightarrow> fld a (js ''seq'') = next_seq p \<and> fld a (js ''prev_anchor_hash'') = fld p (js ''anchor_hash'') \<and>
          js_less (anchor_size a) (anchor_size p) = Inr False)"
  using shape_problem_None [of a seen] link_problem_None [of e prev i a]
  by (cases "shape_problem a seen"; cases "link_problem e prev i a"; cases prev)
    (auto simp: anchor_problem_def anchor_sound_def is_str_def rbind_Inr_iff split: if_splits)

definition accepted_log :: "env \<Rightarrow> webcrypto \<Rightarrow> jsval \<Rightarrow> jsval list \<Rightarrow> bool" where
  "accepted_log e w jwk as \<longleftrightarrow> (\<exists>r. verify_anchor_chain e w (VArr as) jwk = Inr r \<and> cr_valid r)"

lemma chain_loop_Some:
  "(\<exists>r. chain_loop e w jwk (Some p) (is_anchor_v2 p) i as = Inr r \<and> cr_valid r) \<longleftrightarrow>
     (\<forall>a \<in> set as. anchor_sound e w jwk a) \<and> successively anchor_follows (p # as)"
proof (induction as arbitrary: p i)
  case (Cons a as)
  have v: "anchor_problem e w jwk (Some p) (is_anchor_v2 p) i a = Inr None \<longleftrightarrow> anchor_sound e w jwk a \<and> anchor_follows p a"
    unfolding anchor_problem_None anchor_follows_def by auto
  show ?case
  proof (cases "anchor_problem e w jwk (Some p) (is_anchor_v2 p) i a = Inr None")
    case True
    with v have "is_anchor_v2 p \<or> is_anchor_v2 a \<longleftrightarrow> is_anchor_v2 a" by (auto simp: anchor_follows_def)
    with True v Cons.IH [of a "i + 1"] show ?thesis by auto
  next
    case False
    then have "\<not> (\<exists>r. chain_loop e w jwk (Some p) (is_anchor_v2 p) i (a # as) = Inr r \<and> cr_valid r)"
      by (auto simp: rbind_Inr_iff split: option.splits)
    with False v show ?thesis by auto
  qed
qed simp

lemma accepted_log_iff:
  "accepted_log e w jwk as \<longleftrightarrow>
     (\<forall>a \<in> set as. anchor_sound e w jwk a) \<and> successively anchor_follows as \<and> (as \<noteq> [] \<longrightarrow> anchor_starts (hd as))"
proof (cases as)
  case Nil
  then show ?thesis by (simp add: accepted_log_def verify_anchor_chain_def is_arr_def elems_def)
next
  case (Cons a bs)
  have v: "anchor_problem e w jwk None False 0 a = Inr None \<longleftrightarrow> anchor_sound e w jwk a \<and> anchor_starts a"
    unfolding anchor_problem_None by auto
  show ?thesis
  proof (cases "anchor_problem e w jwk None False 0 a = Inr None")
    case True
    with v chain_loop_Some [of e w jwk a 1 bs] Cons show ?thesis
      by (auto simp: accepted_log_def verify_anchor_chain_def is_arr_def elems_def)
  next
    case False
    then have "\<not> (\<exists>r. chain_loop e w jwk None False 0 (a # bs) = Inr r \<and> cr_valid r)"
      by (auto simp: rbind_Inr_iff split: option.splits)
    with False v Cons show ?thesis by (auto simp: accepted_log_def verify_anchor_chain_def is_arr_def elems_def)
  qed
qed

text \<open>C21: an anchor log is accepted exactly when every anchor is sound by itself (shape, algorithm, recomputed hash, and from
  version 2 on a valid signature), every anchor after the first follows the one before it (the next sequence number, the link to its
  hash, a size that is not smaller, no downgrade), and an anchor numbered 1 at the start links to nothing.\<close>

theorem anchor_chain_correct:
  "(\<exists>r. verify_anchor_chain e w (VArr as) jwk = Inr r \<and> cr_valid r) \<longleftrightarrow>
     (\<forall>i < length as. anchor_sound e w jwk (as ! i)) \<and>
     (\<forall>i. i + 1 < length as \<longrightarrow> anchor_follows (as ! i) (as ! (i + 1))) \<and>
     (as \<noteq> [] \<longrightarrow> anchor_starts (as ! 0))"
  using accepted_log_iff [of e w jwk as]
  by (auto simp: accepted_log_def all_set_conv_all_nth successively_conv_nth hd_conv_nth)

subsection \<open>The last hash binds the log\<close>

text \<open>The bytes an anchor's hash is taken over, and a document whose text can be read back: its numbers are binary64 values
  and its strings consist of code units.\<close>

definition body_bytes :: "jsval \<Rightarrow> bytes" where
  "body_bytes a = (case canonical (anchor_body a) of Inl _ \<Rightarrow> [] | Inr t \<Rightarrow> utf8 t)"

definition readable :: "jsval \<Rightarrow> bool" where
  "readable v \<longleftrightarrow> list_all has_text (nums v) \<and> units_in v"

lemma readable_bytes:
  "readable u \<Longrightarrow> readable v \<Longrightarrow> canonical u = Inr s \<Longrightarrow> canonical v = Inr t \<Longrightarrow> utf8 s = utf8 t \<Longrightarrow> jnorm u = jnorm v"
  unfolding readable_def by (metis canonical_inj canonical_units canonical_well_formed utf8_inj)

lemma map_of_sorted: "map_of (sort_members fs) k = map_of fs k"
proof -
  have f: "filter (\<lambda>x. fst x = k) (sort_members fs) = filter (\<lambda>x. fst x = k) fs"
    unfolding sort_members_def by (rule js_sort_filter) auto
  have "map_of gs k = map_of (filter (\<lambda>x. fst x = k) gs) k" for gs :: "(jsstr \<times> 'a) list" by (induction gs) auto
  then show ?thesis using f by metis
qed

lemma jnorm_member:
  assumes "jnorm (VObj fs) = jnorm (VObj gs)"
  shows "map_option jnorm (map_of fs k) = map_option jnorm (map_of gs k)"
proof -
  have s: "sort_members (map (map_prod id jnorm) fs) = sort_members (map (map_prod id jnorm) gs)"
    using assms by (simp add: sort_members_map)
  have m: "map_of (map (map_prod id jnorm) hs) k = map_option jnorm (map_of hs k)" for hs :: "(jsstr \<times> jsval) list"
    by (induction hs) auto
  show ?thesis using arg_cong [OF s, of "\<lambda>h. map_of h k"] unfolding map_of_sorted m .
qed

lemma jnorm_str [simp]: "jnorm v = VStr s \<longleftrightarrow> v = VStr s" "VStr s = jnorm v \<longleftrightarrow> v = VStr s"
  by (cases v; simp; blast)+

lemma body_fld: "k \<noteq> ''anchor_hash'' \<Longrightarrow> k \<noteq> ''signature'' \<Longrightarrow> fld (anchor_body a) (js k) = fld a (js k)"
proof -
  assume k: "k \<noteq> ''anchor_hash''" "k \<noteq> ''signature''"
  have "map_of (filter (\<lambda>(k, v). P k) fs) j = map_of fs j" if "P j" for P j and fs :: "(jsstr \<times> jsval) list"
    using that by (induction fs) auto
  from this [of "\<lambda>k. k \<noteq> js ''anchor_hash'' \<and> (is_anchor_v2 a \<longrightarrow> k \<noteq> js ''signature'')" "js k" "members a"] k
  show ?thesis by (simp add: anchor_body_def fld_def own_def members_def)
qed

lemma same_body_link:
  assumes "jnorm (anchor_body a) = jnorm (anchor_body b)" "fld a (js ''prev_anchor_hash'') = VStr s"
  shows "fld b (js ''prev_anchor_hash'') = VStr s"
proof -
  have "map_option jnorm (own (anchor_body a) (js ''prev_anchor_hash'')) = map_option jnorm (own (anchor_body b) (js ''prev_anchor_hash''))"
    using jnorm_member [OF assms(1) [unfolded anchor_body_def]] by (simp add: own_def members_def anchor_body_def)
  moreover have "own (anchor_body a) (js ''prev_anchor_hash'') = Some (VStr s)"
    using body_fld [of "''prev_anchor_hash''" a] assms(2) by (auto simp: fld_def split: option.splits)
  ultimately have "own (anchor_body b) (js ''prev_anchor_hash'') = Some (VStr s)"
    by (cases "own (anchor_body b) (js ''prev_anchor_hash'')") simp_all
  then show ?thesis using body_fld [of "''prev_anchor_hash''" b] by (simp add: fld_def)
qed

text \<open>Two anchors with one recomputed hash have the same body, or their texts collide.\<close>

lemma same_hash_body:
  assumes sha: "digest_size (sha256 e)" and r: "readable (anchor_body a)" "readable (anchor_body b)"
    and h: "anchor_hash e a = Inr h" "anchor_hash e b = Inr h"
  shows "jnorm (anchor_body a) = jnorm (anchor_body b) \<or> collision (sha256 e) [body_bytes a] [body_bytes b]"
proof -
  obtain s t where t: "canonical (anchor_body a) = Inr s" "canonical (anchor_body b) = Inr t"
    "to_hex (sha256 e (utf8 s)) = to_hex (sha256 e (utf8 t))"
    using h by (auto simp: anchor_hash_def rbind_Inr_iff sha256_hex_def)
  have "sha256 e (utf8 s) = sha256 e (utf8 t)"
    using sha t(3) unfolding digest_size_def is_bytes_def by (metis hex_bytes_to_hex)
  then show ?thesis using readable_bytes [OF r t(1,2)] t by (auto simp: collision_def body_bytes_def)
qed

lemma accepted_snoc:
  "accepted_log e w jwk (as @ [a]) \<Longrightarrow> accepted_log e w jwk as"
  by (auto simp: accepted_log_iff successively_append_iff split: if_splits)

lemma log_bound:
  assumes sha: "digest_size (sha256 e)"
  shows "accepted_log e w k as \<Longrightarrow> accepted_log e w' k' bs \<Longrightarrow> length as \<le> length bs \<Longrightarrow> as \<noteq> [] \<Longrightarrow>
    \<forall>x \<in> set as \<union> set bs. readable (anchor_body x) \<Longrightarrow>
    fld (last as) (js ''anchor_hash'') = fld (last bs) (js ''anchor_hash'') \<Longrightarrow>
    map (\<lambda>x. jnorm (anchor_body x)) as = map (\<lambda>x. jnorm (anchor_body x)) (drop (length bs - length as) bs) \<or>
    collision (sha256 e) (map body_bytes as) (map body_bytes bs)"
proof (induction as arbitrary: bs rule: rev_induct)
  case (snoc a as)
  then obtain bs' b where bs: "bs = bs' @ [b]" by (cases bs rule: rev_cases) auto
  from snoc.prems bs obtain h where h: "anchor_hash e a = Inr h" "anchor_hash e b = Inr h"
    by (auto simp: accepted_log_iff anchor_sound_def)
  have rd: "readable (anchor_body a)" "readable (anchor_body b)" using snoc.prems(5) bs by auto
  consider "jnorm (anchor_body a) = jnorm (anchor_body b)" | "collision (sha256 e) [body_bytes a] [body_bytes b]"
    using same_hash_body [OF sha rd h] by blast
  then show ?case
  proof cases
    case 2
    then show ?thesis by (auto simp: collision_def bs)
  next
    case 1
    show ?thesis
    proof (cases as rule: rev_cases)
      case Nil
      with 1 bs show ?thesis by simp
    next
      case (snoc as' a')
      with snoc.prems(3) bs obtain bs'' b' where bs': "bs' = bs'' @ [b']" by (cases bs' rule: rev_cases) auto
      from snoc.prems(1,2) have f: "anchor_follows a' a" "anchor_follows b' b"
        unfolding snoc bs bs' by (auto simp: accepted_log_iff successively_append_iff)
      from snoc.prems(1) obtain s where "fld a' (js ''anchor_hash'') = VStr s"
        unfolding snoc by (auto simp: accepted_log_iff anchor_sound_def)
      with f same_body_link [OF 1] have l: "fld (last as) (js ''anchor_hash'') = fld (last bs') (js ''anchor_hash'')"
        by (auto simp: anchor_follows_def snoc bs')
      have "map (\<lambda>x. jnorm (anchor_body x)) as = map (\<lambda>x. jnorm (anchor_body x)) (drop (length bs' - length as) bs') \<or>
          collision (sha256 e) (map body_bytes as) (map body_bytes bs')"
        by (rule snoc.IH [OF _ _ _ _ _ l]) (use snoc.prems snoc bs accepted_snoc in auto)
      with 1 snoc.prems(3) show ?thesis by (auto simp: bs collision_def)
    qed
  qed
qed simp

text \<open>The last hash of an accepted log binds everything before it. Take two accepted logs, whatever keys they were checked
  with, whose last anchors carry one hash: the shorter is, anchor by anchor and up to the order of members, the end of the
  longer, or two different texts hashed while checking them have the same digest. (Documents whose numbers are binary64 values and
  whose text consists of code units.)\<close>

theorem anchor_log_bound:
  assumes "digest_size (sha256 e)"
    and "\<forall>x \<in> set as \<union> set bs. readable (anchor_body x)"
    and "verify_anchor_chain e w (VArr as) k = Inr r" "cr_valid r"
    and "verify_anchor_chain e w' (VArr bs) k' = Inr r'" "cr_valid r'"
    and "as \<noteq> []" "length as \<le> length bs"
    and "fld (last as) (js ''anchor_hash'') = fld (last bs) (js ''anchor_hash'')"
  shows "map (\<lambda>x. jnorm (anchor_body x)) as = map (\<lambda>x. jnorm (anchor_body x)) (drop (length bs - length as) bs)
    \<or> collision (sha256 e) (map body_bytes as) (map body_bytes bs)"
  by (rule log_bound [OF assms(1) _ _ assms(8,7,2,9)]) (use assms(3-6) in \<open>auto simp: accepted_log_def\<close>)

subsection \<open>Inclusion against an anchor\<close>

lemma leaf_hash_texts:
  assumes sha: "digest_size sha" and h: "leaf_hash sha x = leaf_hash sha y"
  shows "x = y \<or> collision sha [0 # x] [0 # y]"
proof -
  have "sha (0 # x) = sha (0 # y)"
    using sha h unfolding digest_size_def is_bytes_def leaf_hash_def by (metis append_Cons append_Nil hex_bytes_to_hex)
  then show ?thesis by (auto simp: collision_def)
qed

lemma receipt_leaves:
  assumes sha: "digest_size sha" and ls: "rmap (receipt_leaf_hash sha) payloads = Inr ls"
  shows "length ls = length payloads" "list_all is_hex32 (map VStr ls)"
    "i < length payloads \<Longrightarrow> receipt_leaf_hash sha (payloads ! i) = Inr (ls ! i)"
proof -
  from ls have a: "list_all2 (\<lambda>p l. receipt_leaf_hash sha p = Inr l) payloads ls" by (simp add: rmap_Inr_iff)
  then show "length ls = length payloads" by (simp add: list_all2_lengthD)
  show "i < length payloads \<Longrightarrow> receipt_leaf_hash sha (payloads ! i) = Inr (ls ! i)" using list_all2_nthD [OF a] by blast
  have hex: "is_hex64 l" if "receipt_leaf_hash sha p = Inr l" for p l
    using that sha by (auto simp: receipt_leaf_hash_def rbind_Inr_iff leaf_hash_def digest_size_def intro: to_hex_is_hex64)
  have "\<forall>j < length ls. is_hex64 (ls ! j)"
    using hex list_all2_nthD [OF a] list_all2_lengthD [OF a] by metis
  then show "list_all is_hex32 (map VStr ls)" by (simp add: list_all_length)
qed

text \<open>What the verifier hashes for a payload.\<close>

definition payload_bytes :: "jsval \<Rightarrow> bytes" where
  "payload_bytes p = (case canonical p of Inl _ \<Rightarrow> [] | Inr t \<Rightarrow> utf8 t)"

lemma anchored_leaf:
  assumes sha: "digest_size (sha256 e)" and rd: "\<forall>x \<in> insert p (set payloads). readable x"
    and v2: "is_anchor_v2 a" and root: "verify_anchor_root e a payloads"
    and leaf: "receipt_leaf_hash (sha256 e) p = Inr lh" "fld input (js ''leaf_hash'') = VStr lh"
    and tree: "fld input (js ''root'') = fld a (js ''root'')" "fld input (js ''tree_size'') = fld a (js ''tree_size'')"
    and acc: "verify_inclusion_proof (sha256 e) input"
    and i: "i = size_of (fld input (js ''leaf_index''))"
    and ls: "rmap (receipt_leaf_hash (sha256 e)) payloads = Inr ls"
  shows "i < length payloads \<and>
     (jnorm p = jnorm (payloads ! i) \<or> collision (sha256 e) [0 # payload_bytes p] [0 # payload_bytes (payloads ! i)] \<or>
      (\<exists>q. inclusion_proof (sha256 e) (VArr (map VStr ls)) (jint (int i)) = Inr q \<and>
         collision (sha256 e)
           (inclusion_inputs (sha256 e) (map str_bytes (elems (fld input (js ''audit_path'')))) i (length payloads - 1) (hex_bytes lh))
           (inclusion_inputs (sha256 e) (map str_bytes (map VStr (audit_path q))) i (length payloads - 1) (hex_bytes (ls ! i)))))"
proof -
  note rl = receipt_leaves [OF sha ls]
  from root v2 obtain r where r: "merkle_tree_hash (sha256 e) (VArr (map VStr ls)) = Inr r" "fld a (js ''root'') = VStr r"
    "fld a (js ''tree_size'') = VNum (jint (int (length payloads)))"
    by (auto simp: verify_anchor_root_def anchor_root_def is_anchor_v2_def ls Let_def split: sum.splits)
  from acc have szs: "is_size (fld input (js ''tree_size''))" "is_size (fld input (js ''leaf_index''))"
    "size_of (fld input (js ''leaf_index'')) < size_of (fld input (js ''tree_size''))"
    by (auto simp: verify_inclusion_proof_def Let_def split: if_splits)
  have n: "size_of (fld input (js ''tree_size'')) = length payloads" by (simp add: tree r(3) size_of_def)
  have max: "int (length payloads) \<le> max_safe" using szs(1) by (simp add: tree r(3) is_size_def is_safe_int_def jint_def)
  have i': "i < length payloads" using szs(3) n i by simp
  have lv: "tree_leaves (map VStr ls)" using rl(1,2) max by (simp add: tree_leaves_def)
  have "fld input (js ''leaf_hash'') = map VStr ls ! i \<or>
     (\<exists>q. inclusion_proof (sha256 e) (VArr (map VStr ls)) (jint (int i)) = Inr q \<and>
         collision (sha256 e)
           (inclusion_inputs (sha256 e) (map str_bytes (elems (fld input (js ''audit_path'')))) i (length (map VStr ls) - 1)
              (str_bytes (fld input (js ''leaf_hash''))))
           (inclusion_inputs (sha256 e) (map str_bytes (map VStr (audit_path q))) i (length (map VStr ls) - 1)
              (str_bytes (map VStr ls ! i))))"
    unfolding i by (rule inclusion_sound_lemma [OF sha lv acc _ r(1)]) (simp_all add: n rl(1) tree(1) r(2))
  then consider "lh = ls ! i" | q where "inclusion_proof (sha256 e) (VArr (map VStr ls)) (jint (int i)) = Inr q"
    "collision (sha256 e)
       (inclusion_inputs (sha256 e) (map str_bytes (elems (fld input (js ''audit_path'')))) i (length payloads - 1) (hex_bytes lh))
       (inclusion_inputs (sha256 e) (map str_bytes (map VStr (audit_path q))) i (length payloads - 1) (hex_bytes (ls ! i)))"
    using i' rl(1) by (auto simp: leaf(2) str_bytes_def)
  then show ?thesis
  proof cases
    case 1
    with rl(3) [OF i'] leaf(1) obtain s t where t: "canonical p = Inr s" "canonical (payloads ! i) = Inr t"
      "leaf_hash (sha256 e) (utf8 s) = leaf_hash (sha256 e) (utf8 t)"
      by (auto simp: receipt_leaf_hash_def rbind_Inr_iff)
    have "readable p" "readable (payloads ! i)" using rd i' by auto
    then show ?thesis using leaf_hash_texts [OF sha t(3)] readable_bytes [OF _ _ t(1,2)] i' by (auto simp: payload_bytes_def t)
  qed (use i' in blast)
qed

text \<open>An inclusion proof against an anchor is a proof about the receipts behind it. Let a version 2 anchor's root have been
  checked against a list of receipt payloads. If a proof with the anchor's root and tree size is accepted for the leaf of a payload
  \<open>p\<close>, then its index is one of the list and \<open>p\<close> is the payload there (up to the order of members), or two different texts, among the
  two payloads' or among those hashed for this proof and for the honest one, have the same digest.\<close>

theorem anchored_inclusion:
  assumes "digest_size (sha256 e)" "\<forall>x \<in> insert p (set payloads). readable x"
    and "is_anchor_v2 a" "verify_anchor_root e a payloads"
    and "receipt_leaf_hash (sha256 e) p = Inr lh" "fld input (js ''leaf_hash'') = VStr lh"
    and "fld input (js ''root'') = fld a (js ''root'')" "fld input (js ''tree_size'') = fld a (js ''tree_size'')"
    and "verify_inclusion_proof (sha256 e) input"
    and "rmap (receipt_leaf_hash (sha256 e)) payloads = Inr ls"
  defines "i \<equiv> size_of (fld input (js ''leaf_index''))"
  shows "i < length payloads \<and>
     (jnorm p = jnorm (payloads ! i) \<or> collision (sha256 e) [0 # payload_bytes p] [0 # payload_bytes (payloads ! i)] \<or>
      (\<exists>q. inclusion_proof (sha256 e) (VArr (map VStr ls)) (jint (int i)) = Inr q \<and>
         collision (sha256 e)
           (inclusion_inputs (sha256 e) (map str_bytes (elems (fld input (js ''audit_path'')))) i (length payloads - 1) (hex_bytes lh))
           (inclusion_inputs (sha256 e) (map str_bytes (map VStr (audit_path q))) i (length payloads - 1) (hex_bytes (ls ! i)))))"
  by (rule anchored_leaf [OF assms(1-9) meta_eq_to_obj_eq [OF i_def] assms(10)])

end
