(* ===== verification/AnchorDemo.thy ===== *)
theory AnchorDemo
  imports AnchorProps DispatchDemo
begin

section \<open>Anchors on concrete inputs\<close>

text \<open>
  A log of two version 1 anchors, and a version 2 anchor over one receipt, under a digest that is constant (so every hash is
  \<open>zero_hash\<close>). The properties of the anchor log are applied to them.
\<close>

definition demo_anchor :: "int \<Rightarrow> jsval \<Rightarrow> jsval" where
  "demo_anchor n prev = VObj [(js ''seq'', VNum (jint n)), (js ''count'', VNum (jint n)), (js ''prev_anchor_hash'', prev),
     (js ''anchor_hash'', VStr zero_hash)]"

definition no_webcrypto :: webcrypto where
  "no_webcrypto = \<lparr> wc_spki = (\<lambda>_. Inl TypeErr), wc_jwk = (\<lambda>_. Inl TypeErr), wc_x = (\<lambda>_. []), wc_verify = (\<lambda>_ _ _. Inr False) \<rparr>"

lemma gate_digest [simp]: "digest_size (sha256 gate_env)"
  by (simp add: digest_size_def gate_env_def is_bytes_def)

lemma gate_sha [simp]: "to_hex (sha256 gate_env x) = zero_hash"
  by (simp add: gate_env_def zero_hash_def)

lemma gate_anchor_hash: "json_ok (anchor_body a) \<Longrightarrow> anchor_hash gate_env a = Inr zero_hash"
  using canonical_returns [of "anchor_body a"] by (auto simp: anchor_hash_def returns_iff sha256_hex_def)

lemma demo_anchor_fields [simp]:
  "fld (demo_anchor n prev) (js ''seq'') = VNum (jint n)" "fld (demo_anchor n prev) (js ''count'') = VNum (jint n)"
  "fld (demo_anchor n prev) (js ''prev_anchor_hash'') = prev" "fld (demo_anchor n prev) (js ''anchor_hash'') = VStr zero_hash"
  "fld (demo_anchor n prev) (js ''algo'') = VUndef" "objectish (demo_anchor n prev)" "\<not> is_anchor_v2 (demo_anchor n prev)"
  by (simp_all add: demo_anchor_def js_simps objectish_def is_anchor_v2_def algo_v2_def)

lemma demo_body: "anchor_body (demo_anchor n prev) =
    VObj [(js ''seq'', VNum (jint n)), (js ''count'', VNum (jint n)), (js ''prev_anchor_hash'', prev)]"
  by (simp add: anchor_body_def) (simp add: demo_anchor_def members_def)

lemma zero_hash_units [simp]: "units zero_hash"
  by (rule units_plain) (auto simp: zero_hash_def to_hex_def hex_byte_def hex_digit_def list_all_iff)

lemma demo_readable: "prev = VNull \<or> prev = VStr zero_hash \<Longrightarrow> 0 < n \<Longrightarrow> n \<le> 2 \<Longrightarrow> readable (anchor_body (demo_anchor n prev))"
  using has_text_int [of n] by (auto simp: demo_body readable_def max_safe_def jint_def)

lemma demo_sound: "prev = VNull \<or> prev = VStr zero_hash \<Longrightarrow> 0 < n \<Longrightarrow> n \<le> 2 \<Longrightarrow>
    anchor_sound gate_env w jwk (demo_anchor n prev)"
  unfolding anchor_sound_def
  by (auto simp: gate_anchor_hash demo_body is_size_def is_safe_int_def is_finite_num_def jint_def jle_def max_safe_def algo_v1_def)

definition demo_log :: "jsval list" where
  "demo_log = [demo_anchor 1 VNull, demo_anchor 2 (VStr zero_hash)]"

lemma demo_follows: "anchor_follows (demo_anchor 1 VNull) (demo_anchor 2 (VStr zero_hash))"
  using jadd_jint [of 1 1] by (simp add: anchor_follows_def next_seq_def anchor_size_def max_safe_def jint_def)

lemma demo_accepted_log: "accepted_log gate_env no_webcrypto VUndef demo_log"
  "accepted_log gate_env no_webcrypto VNull [demo_anchor 2 (VStr zero_hash)]"
  unfolding accepted_log_iff demo_log_def
  by (simp_all add: demo_sound demo_follows anchor_starts_def jint_def)

theorem anchor_log_bound_witness:
  "map (\<lambda>x. jnorm (anchor_body x)) [demo_anchor 2 (VStr zero_hash)] = map (\<lambda>x. jnorm (anchor_body x)) (drop 1 demo_log)
    \<or> collision (sha256 gate_env) (map body_bytes [demo_anchor 2 (VStr zero_hash)]) (map body_bytes demo_log)"
proof -
  obtain r r' where r: "verify_anchor_chain gate_env no_webcrypto (VArr [demo_anchor 2 (VStr zero_hash)]) VNull = Inr r" "cr_valid r"
    "verify_anchor_chain gate_env no_webcrypto (VArr demo_log) VUndef = Inr r'" "cr_valid r'"
    using demo_accepted_log unfolding accepted_log_def by blast
  have d: "\<forall>x \<in> set [demo_anchor 2 (VStr zero_hash)] \<union> set demo_log. readable (anchor_body x)"
    by (simp add: demo_log_def demo_readable)
  show ?thesis using anchor_log_bound [OF gate_digest d r] by (simp add: demo_log_def)
qed

theorem anchor_chain_correct_witness:
  "\<exists>r. verify_anchor_chain gate_env no_webcrypto (VArr demo_log) VUndef = Inr r \<and> cr_valid r"
  unfolding anchor_chain_correct
  by (simp add: demo_log_def demo_sound demo_follows anchor_starts_def jint_def less_Suc_eq numeral_2_eq_2)

text \<open>A tree of one receipt.\<close>

definition root_anchor :: jsval where
  "root_anchor = VObj [(js ''algo'', algo_v2), (js ''tree_size'', VNum (jint 1)), (js ''root'', VStr zero_hash)]"

definition leaf_input :: jsval where
  "leaf_input = VObj [(js ''leaf_hash'', VStr zero_hash), (js ''leaf_index'', VNum (jint 0)), (js ''tree_size'', VNum (jint 1)),
     (js ''audit_path'', VArr []), (js ''root'', VStr zero_hash)]"

lemma demo_leaf: "receipt_leaf_hash (sha256 gate_env) (VObj []) = Inr zero_hash"
  by (simp add: receipt_leaf_hash_def leaf_hash_def sort_members_def)

lemma demo_tree: "merkle_tree_hash (sha256 gate_env) (VArr [VStr zero_hash]) = Inr zero_hash"
  by (simp add: merkle_tree_hash_def leaf_bytes_def is_arr_def elems_def from_hex_def mth.simps [of _ _ 0]
      to_hex_hex_bytes [of zero_hash] is_hex64_def [symmetric])
    (simp add: zero_hash_def hex_bytes_to_hex)

theorem anchored_inclusion_witness:
  "(0::nat) < length [VObj []] \<and>
     (jnorm (VObj []) = jnorm ([VObj []] ! 0) \<or>
      collision (sha256 gate_env) [0 # payload_bytes (VObj [])] [0 # payload_bytes ([VObj []] ! 0)] \<or>
      (\<exists>q. inclusion_proof (sha256 gate_env) (VArr (map VStr [zero_hash])) (jint (int 0)) = Inr q \<and>
         collision (sha256 gate_env)
           (inclusion_inputs (sha256 gate_env) (map str_bytes (elems (VArr []))) 0 (length [VObj []] - 1) (hex_bytes zero_hash))
           (inclusion_inputs (sha256 gate_env) (map str_bytes (map VStr (audit_path q))) 0 (length [VObj []] - 1) (hex_bytes ([zero_hash] ! 0)))))"
proof -
  have i: "size_of (fld leaf_input (js ''leaf_index'')) = 0" by (simp add: leaf_input_def js_simps size_of_def jint_def num_int_def)
  have a: "fld leaf_input (js ''audit_path'') = VArr []" by (simp add: leaf_input_def js_simps)
  show ?thesis
  proof (rule anchored_inclusion [of gate_env "VObj []" "[VObj []]" root_anchor zero_hash leaf_input "[zero_hash]", unfolded i a])
    show "verify_anchor_root gate_env root_anchor [VObj []]"
      by (simp add: verify_anchor_root_def anchor_root_def root_anchor_def is_anchor_v2_def objectish_def js_simps demo_leaf demo_tree Let_def)
    show "verify_inclusion_proof (sha256 gate_env) leaf_input"
      by (simp add: verify_inclusion_proof_def leaf_input_def js_simps is_size_def is_safe_int_def jint_def jle_def size_of_def num_int_def
          str_bytes_def max_safe_def to_hex_hex_bytes is_hex64_def [symmetric] Let_def)
        (simp add: zero_hash_def hex_bytes_to_hex)
  qed (simp_all add: readable_def demo_leaf leaf_input_def root_anchor_def is_anchor_v2_def objectish_def js_simps)
qed

end
