(* ===== verification/SignatureProps.thy ===== *)
theory SignatureProps
  imports AnchorDemo
begin

section \<open>What an accepted receipt signature proves\<close>

text \<open>
  An accepted receipt carries a payload the key signed, provided the signature scheme is unforgeable; and a receipt's signed bytes carry
  no mark of their kind, so the signature of an anchor is accepted as that of a receipt whose payload is the anchor.
\<close>

lemma signed_payload:
  assumes v: "sv_valid (verify_receipt_signature e w r key)" and k: "import_public_key w key = Inr (k, jwk)"
    and unforgeable: "\<forall>s m. wc_verify w k s m = Inr True \<longrightarrow> (\<exists>d \<in> docs. \<exists>t. canonical d = Inr t \<and> m = utf8 t)"
    and rd: "\<forall>d \<in> insert (fld r (js ''payload'')) docs. readable d"
  shows "(\<exists>d \<in> docs. jnorm (fld r (js ''payload'')) = jnorm d) \<and>
    (\<exists>kid. derive_key_id e jwk = Inr kid \<and> fld (fld (fld r (js ''payload'')) (js ''attester'')) (js ''kid'') = VStr kid)"
proof -
  let ?p = "fld r (js ''payload'')"
  from v obtain kid t where t: "fld (fld ?p (js ''attester'')) (js ''kid'') = VStr kid" "canonical ?p = Inr t"
    "signed_by e w key kid (sig_text (fld r (js ''signature''))) t"
    unfolding verify_receipt_valid check_signed_valid by blast
  from t(3) k obtain s where s: "derive_key_id e jwk = Inr kid" "wc_verify w k s (utf8 t) = Inr True"
    by (auto simp: signed_by_def)
  with unforgeable obtain d u where d: "d \<in> docs" "canonical d = Inr u" "utf8 t = utf8 u" by blast
  have "jnorm ?p = jnorm d" by (rule readable_bytes [OF _ _ t(2) d(2,3)]) (use rd d(1) in blast)+
  with d(1) s(1) t(1) show ?thesis by blast
qed

text \<open>C22: an accepted receipt is one the attester signed: if the key verifies only messages that are canonical texts of the documents
  in \<open>docs\<close> (what its holder has signed), the payload of an accepted receipt is one of them up to the order of members, and the
  attester id it names is the id of this key.\<close>

theorem receipt_authentic:
  assumes "sv_valid (verify_receipt_signature e w r key)" "import_public_key w key = Inr (k, jwk)"
    and "\<forall>s m. wc_verify w k s m = Inr True \<longrightarrow> (\<exists>d \<in> docs. \<exists>t. canonical d = Inr t \<and> m = utf8 t)"
    and "\<forall>d \<in> insert (fld r (js ''payload'')) docs. readable d"
  shows "(\<exists>d \<in> docs. jnorm (fld r (js ''payload'')) = jnorm d) \<and>
    (\<exists>kid. derive_key_id e jwk = Inr kid \<and> fld (fld (fld r (js ''payload'')) (js ''attester'')) (js ''kid'') = VStr kid)"
  by (rule signed_payload [OF assms])

text \<open>One signed receipt: the key verifies the text of its payload only.\<close>

definition signed_doc :: jsval where
  "signed_doc = VObj [(js ''action_id'', VStr (js ''a1'')), (js ''attester'', VObj [(js ''kind'', VStr (js ''gateway'')),
     (js ''kid'', VStr (js ''key:'' @ take 16 zero_hash))])]"

definition signed_receipt :: jsval where
  "signed_receipt = VObj [(js ''payload'', signed_doc), (js ''signature'', VObj [(js ''alg'', VStr (js ''Ed25519'')), (js ''sig'', VStr [])])]"

definition one_message :: webcrypto where
  "one_message = \<lparr> wc_spki = (\<lambda>_. Inr []), wc_jwk = (\<lambda>_. Inr []), wc_x = (\<lambda>_. []),
     wc_verify = (\<lambda>k s m. Inr (\<exists>t. canonical signed_doc = Inr t \<and> m = utf8 t)) \<rparr>"

lemma zero_prefix [simp]: "\<not> has_lone_surrogate (js s @ take n zero_hash)" "units (js s @ take n zero_hash)"
proof -
  have p: "\<forall>c \<in> set (js s @ take n zero_hash). c < 0xd800"
  proof
    fix c assume "c \<in> set (js s @ take n zero_hash)"
    then consider "c \<in> set (js s)" | "c \<in> set zero_hash" by (auto dest: in_set_takeD)
    then show "c < 0xd800"
    proof cases
      case 1
      then show ?thesis unfolding js_def by (auto intro: less_trans [OF nat_of_char_less_256])
    qed (auto simp: zero_hash_def to_hex_def hex_byte_def hex_digit_def)
  qed
  then show "\<not> has_lone_surrogate (js s @ take n zero_hash)" by (rule lone_plain)
  show "units (js s @ take n zero_hash)" using p by (intro units_plain) (simp only: list_all_iff)
qed

lemma signed_doc_ok [simp]: "json_ok signed_doc" "readable signed_doc"
  by (simp_all add: signed_doc_def readable_def del: take_append js_append units_append)

lemma signed_key: "import_public_key one_message (VStr []) = Inr ([], ed25519_jwk [])"
  by (simp add: import_public_key_def remove_all.simps base64_to_bytes_def atob_def strip_pad_def ends_with_def js_def one_message_def)

lemma signed_kid: "derive_key_id gate_env (ed25519_jwk []) = Inr (js ''key:'' @ take 16 zero_hash)"
proof -
  have "json_ok (key_members (ed25519_jwk []))" by (simp add: key_members_def ed25519_jwk_def js_simps)
  then have "returns (canonical (key_members (ed25519_jwk [])))" by (simp only: canonical_returns)
  then show ?thesis by (auto simp: derive_key_id_def returns_iff sha256_hex_def)
qed

lemma signed_receipt_valid: "sv_valid (verify_receipt_signature gate_env one_message signed_receipt (VStr []))"
proof -
  obtain t where t: "canonical signed_doc = Inr t"
    using canonical_returns [of signed_doc] by (auto simp: returns_iff)
  have "base64_to_bytes [] = Inr []" by (simp add: base64_to_bytes_def atob_def strip_pad_def ends_with_def js_def)
  then have "signed_by gate_env one_message (VStr []) (js ''key:'' @ take 16 zero_hash) [] t"
    using signed_key signed_kid t by (simp add: signed_by_def) (simp add: one_message_def)
  moreover have "fld signed_receipt (js ''payload'') = signed_doc" "sig_text (fld signed_receipt (js ''signature'')) = []"
    "fld (fld signed_receipt (js ''signature'')) (js ''alg'') = VStr (js ''Ed25519'')" "objectish signed_receipt" "objectish signed_doc"
    "is_str (fld (fld signed_receipt (js ''signature'')) (js ''sig''))"
    "fld (fld signed_doc (js ''attester'')) (js ''kind'') = VStr (js ''gateway'')"
    "fld (fld signed_doc (js ''attester'')) (js ''kid'') = VStr (js ''key:'' @ take 16 zero_hash)"
    by (simp_all add: signed_receipt_def signed_doc_def sig_text_def objectish_def js_simps)
  ultimately show ?thesis unfolding verify_receipt_valid check_signed_valid using t by simp
qed

theorem receipt_authentic_witness:
  "(\<exists>d \<in> {signed_doc}. jnorm (fld signed_receipt (js ''payload'')) = jnorm d) \<and>
    (\<exists>kid. derive_key_id gate_env (ed25519_jwk []) = Inr kid \<and>
       fld (fld (fld signed_receipt (js ''payload'')) (js ''attester'')) (js ''kid'') = VStr kid)"
proof (rule receipt_authentic [OF signed_receipt_valid signed_key])
  show "\<forall>s m. wc_verify one_message [] s m = Inr True \<longrightarrow> (\<exists>d \<in> {signed_doc}. \<exists>t. canonical d = Inr t \<and> m = utf8 t)"
    by (simp add: one_message_def)
  show "\<forall>d \<in> insert (fld signed_receipt (js ''payload'')) {signed_doc}. readable d"
    by (simp add: signed_receipt_def js_simps)
qed

subsection \<open>Anchors and receipts share a domain\<close>

lemma strip_pad_take: "\<exists>n. strip_pad u = take n u \<and> set (drop n u) \<subseteq> {61}"
proof -
  have e: "js ''='' = [61]" "js ''=='' = [61, 61]" by (simp_all add: js_def)
  consider "strip_pad u = u" | "strip_pad u = take (length u - 2) u" "ends_with u [61, 61]" | "strip_pad u = take (length u - 1) u" "ends_with u [61]"
    unfolding strip_pad_def e by (cases "length u mod 4 = 0"; cases "ends_with u [61, 61]"; cases "ends_with u [61]") simp_all
  then show ?thesis
  proof cases
    case 1
    then show ?thesis by (intro exI [of _ "length u"]) simp
  next
    case 2
    then show ?thesis by (intro exI [of _ "length u - 2"]) (simp add: ends_with_def numeral_2_eq_2)
  next
    case 3
    then show ?thesis by (intro exI [of _ "length u - 1"]) (simp add: ends_with_def)
  qed
qed

lemma atob_spaces: "atob s = Inr b \<Longrightarrow> base64_to_bytes s = Inr b"
proof -
  assume a: "atob s = Inr b"
  have v: "b64_value c = None" if "is_space c" for c :: nat
    using that by (auto simp: is_space_def b64_value_def is_upper_def is_lower_def is_digit_def)
  define u where "u = filter (\<lambda>c. c \<notin> {9, 10, 12, 13, 32}) s"
  from a have "\<not> list_ex (\<lambda>c. b64_value c = None) (strip_pad u)"
    unfolding atob_def u_def [symmetric] Let_def by (simp split: if_splits)
  then have ns: "\<forall>c \<in> set (strip_pad u). \<not> is_space c" using v unfolding list_ex_iff by blast
  obtain n where n: "strip_pad u = take n u" "set (drop n u) \<subseteq> {61}" using strip_pad_take by blast
  have "set u = set (take n u) \<union> set (drop n u)" by (metis append_take_drop_id set_append)
  moreover have "\<not> is_space 61" by (simp add: is_space_def)
  ultimately have "\<forall>c \<in> set u. \<not> is_space c" using n ns by auto
  then have "filter (\<lambda>c. \<not> is_space c) u = u" by (simp add: filter_id_conv)
  then have "filter (\<lambda>c. c \<notin> {9, 10, 12, 13, 32}) (filter (\<lambda>c. \<not> is_space c) s) = u"
    unfolding u_def filter_filter by (simp only: conj_commute)
  with a show ?thesis unfolding base64_to_bytes_def atob_def u_def by simp
qed

text \<open>An anchor's signature is accepted as a receipt's. Neither kind of message is marked with its kind, and one key signs both, so
  the receipt whose payload is a signed anchor's body and whose signature is the anchor's verifies as a receipt of the same gateway
  (the receipt verifier asks for nothing else; its caller must look at the payload's type).\<close>

theorem anchor_passes_as_receipt:
  assumes "verify_anchor_signature e w a jwk" "fld (fld a (js ''attester'')) (js ''kind'') = VStr (js ''gateway'')"
    and "fld jwk (js ''x'') = VStr x" "base64url_to_bytes x = Inr raw" "length raw = 32"
  shows "sv_valid (verify_receipt_signature e w
    (VObj [(js ''payload'', anchor_body a), (js ''signature'', fld a (js ''signature''))]) jwk)"
proof -
  from assms(1) obtain kid t k s where v: "is_anchor_v2 a" "fld (fld a (js ''signature'')) (js ''alg'') = VStr (js ''Ed25519'')"
    "is_str (fld (fld a (js ''signature'')) (js ''sig''))" "fld jwk (js ''kty'') = VStr (js ''OKP'')" "fld jwk (js ''crv'') = VStr (js ''Ed25519'')"
    "anchor_kid e jwk = Inr kid" "fld (fld a (js ''attester'')) (js ''kid'') = VStr kid" "canonical (anchor_body a) = Inr t"
    "wc_jwk w x = Inr k" "atob (sig_text (fld a (js ''signature''))) = Inr s" "wc_verify w k s (utf8 t) = Inr True"
    using assms(3) by (auto simp: verify_anchor_signature_def anchor_signature_def Let_def rbind_Inr_iff split: if_splits)
  let ?r = "VObj [(js ''payload'', anchor_body a), (js ''signature'', fld a (js ''signature''))]"
  have j: "import_public_key w jwk = Inr (k, ed25519_jwk x)"
  proof -
    have "\<not> nullish jwk" "\<not> is_str jwk" using v(4) by (auto simp: js_simps split: jsval.splits)
    then show ?thesis using v(4,5,9) assms(3-5)
      by (cases jwk) (simp_all add: import_public_key_def is_str_def)
  qed
  have "key_members (ed25519_jwk x) = key_members jwk"
    using v(4,5) assms(3) by (simp add: key_members_def ed25519_jwk_def) (simp add: js_simps)
  then have d: "derive_key_id e (ed25519_jwk x) = Inr kid" using v(6) by (simp add: derive_key_id_def anchor_kid_def)
  have "signed_by e w jwk kid (sig_text (fld a (js ''signature''))) t"
    unfolding signed_by_def using j d atob_spaces [OF v(10)] v(11) by blast
  moreover have "fld ?r (js ''payload'') = anchor_body a" "fld ?r (js ''signature'') = fld a (js ''signature'')" "objectish ?r" "objectish (anchor_body a)"
    by (simp_all add: js_simps objectish_def anchor_body_def)
  moreover have "fld (anchor_body a) (js ''attester'') = fld a (js ''attester'')" by (rule body_fld) simp_all
  ultimately show ?thesis unfolding verify_receipt_valid check_signed_valid using v(2,3,7,8) assms(2) by simp
qed

definition gateway_key :: jsval where
  "gateway_key = ed25519_jwk (replicate 43 65)"

definition accepting :: webcrypto where
  "accepting = \<lparr> wc_spki = (\<lambda>_. Inr []), wc_jwk = (\<lambda>_. Inr []), wc_x = (\<lambda>_. []), wc_verify = (\<lambda>k s m. Inr True) \<rparr>"

definition signed_anchor :: jsval where
  "signed_anchor = VObj [(js ''type'', VStr (js ''scopebond:anchor'')), (js ''algo'', algo_v2), (js ''seq'', VNum (jint 1)),
     (js ''tree_size'', VNum (jint 1)), (js ''root'', VStr zero_hash), (js ''prev_anchor_hash'', VNull),
     (js ''attester'', VObj [(js ''kind'', VStr (js ''gateway'')), (js ''kid'', VStr (js ''key:'' @ take 16 zero_hash))]),
     (js ''anchor_hash'', VStr zero_hash), (js ''signature'', VObj [(js ''alg'', VStr (js ''Ed25519'')), (js ''sig'', VStr [])])]"

lemma btoa_zeros: "btoa (replicate (3 * n) 0 @ [0, 0]) = replicate (4 * n) 65 @ [65, 65, 65, 61]"
proof (induction n)
  case (Suc n)
  have "3 * Suc n = Suc (Suc (Suc (3 * n)))" "4 * Suc n = Suc (Suc (Suc (Suc (4 * n))))" by simp_all
  with Suc show ?case by (simp only: replicate_Suc append_Cons btoa.simps) (simp add: b64_char_def)
qed (simp add: b64_char_def)

lemma gateway_text: "btoa (replicate 32 0) = replicate 43 65 @ [61]"
proof -
  have "replicate 32 (0::nat) = replicate (3 * 10) 0 @ replicate 2 0" by (simp only: replicate_add [symmetric]) simp
  moreover have "replicate 43 (65::nat) = replicate (4 * 10) 65 @ replicate 3 65" by (simp only: replicate_add [symmetric]) simp
  ultimately show ?thesis using btoa_zeros [of 10] by (simp add: numeral_2_eq_2 numeral_3_eq_3)
qed

lemma gateway_raw: "base64url_to_bytes (replicate 43 65) = Inr (replicate 32 0)"
proof -
  have "filter (\<lambda>c. \<not> is_space c) (replicate 43 65 @ [61]) = replicate 43 65 @ [61]"
    by (auto simp: filter_id_conv is_space_def)
  then have "base64url_to_bytes (replicate 43 65) = atob (btoa (replicate 32 0))"
    by (simp add: base64url_to_bytes_def base64_to_bytes_def gateway_text)
  then show ?thesis using atob_btoa [of "replicate 32 0"] by simp
qed

lemma gateway_fields [simp]: "fld gateway_key (js ''x'') = VStr (replicate 43 65)" "fld gateway_key (js ''kty'') = VStr (js ''OKP'')"
  "fld gateway_key (js ''crv'') = VStr (js ''Ed25519'')"
  by (simp_all add: gateway_key_def ed25519_jwk_def js_simps)

lemma gateway_kid: "anchor_kid gate_env gateway_key = Inr (js ''key:'' @ take 16 zero_hash)"
proof -
  have "\<not> has_lone_surrogate (replicate 43 65)" by (rule lone_plain) simp
  then have "json_ok (key_members gateway_key)" by (simp add: key_members_def)
  then have "returns (canonical (key_members gateway_key))" by (simp only: canonical_returns)
  then show ?thesis by (auto simp: anchor_kid_def returns_iff sha256_hex_def)
qed

lemma signed_anchor_valid: "verify_anchor_signature gate_env accepting signed_anchor gateway_key"
proof -
  have b: "anchor_body signed_anchor = VObj (filter (\<lambda>(k, v). k \<noteq> js ''anchor_hash'' \<and> k \<noteq> js ''signature'') (members signed_anchor))"
    by (simp add: anchor_body_def) (simp add: signed_anchor_def is_anchor_v2_def objectish_def js_simps)
  have "json_ok (anchor_body signed_anchor)"
    unfolding b by (simp add: signed_anchor_def members_def algo_v2_def is_finite_num_def jint_def del: take_append js_append)
  then have "returns (canonical (anchor_body signed_anchor))" by (simp only: canonical_returns)
  then obtain t where t: "canonical (anchor_body signed_anchor) = Inr t" by (auto simp: returns_iff)
  have "atob [] = Inr []" by (simp add: atob_def strip_pad_def ends_with_def js_def)
  then show ?thesis
    by (simp add: verify_anchor_signature_def anchor_signature_def gateway_kid t Let_def)
      (simp add: signed_anchor_def is_anchor_v2_def objectish_def js_simps sig_text_def is_size_def is_safe_int_def jint_def jle_def max_safe_def accepting_def)
qed

theorem anchor_passes_as_receipt_witness:
  "sv_valid (verify_receipt_signature gate_env accepting
    (VObj [(js ''payload'', anchor_body signed_anchor), (js ''signature'', fld signed_anchor (js ''signature''))]) gateway_key)"
  by (rule anchor_passes_as_receipt [OF signed_anchor_valid _ gateway_fields(1) gateway_raw]) (simp_all add: signed_anchor_def js_simps)

end
