(* ===== verification/Summary.thy ===== *)
theory Summary
  imports Keys Validate
begin

section \<open>Summary records\<close>

text \<open>
  \<^verbatim>\<open>packages/verify/src/summary.ts\<close>: a signed stand-in for routine receipts. \<open>validate_summary\<close> is the closed shape and the rules
  across fields, \<open>verify_summary_signature\<close> the signature over its own domain, \<open>summary_order\<close> and \<open>summary_root\<close> the root over the
  covered receipts, \<open>verify_summary_coverage\<close> the check against those receipts. The members \<open>verifySummaryCoverage\<close> reads are not
  validated, so its conversions to text and its sums are those of the language and may throw.
\<close>

subsection \<open>Fields\<close>

definition summary_domain :: jsstr where
  "summary_domain = js ''scopebond:summary/v1'' @ [10]"

definition max_count :: int where
  "max_count = 1000000"

definition summary_results :: "jsstr list" where
  "summary_results = [js ''allow'', js ''not_evaluated'']"

text \<open>\<open>/^key:[0-9a-f]{16}$/\<close> and \<open>/^[a-z][a-z0-9-]{0,39}$/\<close>.\<close>

definition kid_re :: "jsstr \<Rightarrow> bool" where
  "kid_re s \<longleftrightarrow> length s = 20 \<and> take 4 s = js ''key:'' \<and> list_all is_lower_hex (drop 4 s)"

definition harness_re :: "jsstr \<Rightarrow> bool" where
  "harness_re s \<longleftrightarrow> (case s of [] \<Rightarrow> False
     | c # r \<Rightarrow> is_lower c \<and> length r \<le> 39 \<and> list_all (\<lambda>x. is_lower x \<or> is_digit x \<or> x = 45) r)"

definition is_text :: "jsval \<Rightarrow> nat \<Rightarrow> nat \<Rightarrow> bool" where
  "is_text v lo hi \<longleftrightarrow> (case v of VStr s \<Rightarrow> lo \<le> length s \<and> length s \<le> hi | _ \<Rightarrow> False)"

definition is_hex_text :: "jsval \<Rightarrow> bool" where
  "is_hex_text v \<longleftrightarrow> (case v of VStr s \<Rightarrow> is_hex64 s | _ \<Rightarrow> False)"

text \<open>The expression of a time: a pattern where \<open>d\<close> stands for a digit, then an optional fraction, then \<open>Z\<close> or an offset.\<close>

definition shape_re :: "string \<Rightarrow> jsstr \<Rightarrow> bool" where
  "shape_re p s \<longleftrightarrow> length s = length p \<and> list_all2 (\<lambda>q c. if q = CHR ''d'' then is_digit c else c = of_char q) p s"

definition zone_re :: "jsstr \<Rightarrow> bool" where
  "zone_re s \<longleftrightarrow> s = js ''Z'' \<or> shape_re ''+dd:dd'' s \<or> shape_re ''-dd:dd'' s"

definition time_re :: "jsstr \<Rightarrow> bool" where
  "time_re s \<longleftrightarrow> shape_re ''dddd-dd-ddTdd:dd:dd'' (take 19 s) \<and>
     (case drop 19 s of
        [] \<Rightarrow> False
      | c # r \<Rightarrow> if c = 46 then takeWhile is_digit r \<noteq> [] \<and> zone_re (dropWhile is_digit r) else zone_re (c # r))"

definition is_time :: "env \<Rightarrow> jsval \<Rightarrow> bool" where
  "is_time e v \<longleftrightarrow> (case v of VStr s \<Rightarrow> length s \<le> 40 \<and> time_re s \<and> date_parse e s \<noteq> None | _ \<Rightarrow> False)"

text \<open>\<open>Date.parse\<close> of a value already seen to be a time.\<close>

definition at_time :: "env \<Rightarrow> jsval \<Rightarrow> int" where
  "at_time e v = (case v of VStr s \<Rightarrow> (case date_parse e s of Some t \<Rightarrow> t | None \<Rightarrow> 0) | _ \<Rightarrow> 0)"

definition num_value :: "jsval \<Rightarrow> int" where
  "num_value v = (case v of VNum n \<Rightarrow> num_int n | _ \<Rightarrow> 0)"

subsection \<open>\<open>validateSummary\<close>\<close>

definition payload_keys :: "string list" where
  "payload_keys = [''type'', ''version'', ''canonicalization'', ''evidence_class'', ''summary_id'', ''attester'', ''session_id'', ''harness'',
     ''window'', ''receipt_count'', ''receipts_root'', ''notable_count'', ''counts'', ''dedupe'', ''timestamp'']"

definition payload_required :: "string list" where
  "payload_required = filter (\<lambda>k. k \<noteq> ''session_id'' \<and> k \<noteq> ''harness'') payload_keys"

definition indexed :: "string \<Rightarrow> nat \<Rightarrow> string \<Rightarrow> jsstr" where
  "indexed name i t = js name @ js ''['' @ dec_digits (int i) @ js '']'' @ js t"

definition count_keys :: "string list" where
  "count_keys = [''action_type'', ''result'', ''program'', ''cwd_digest'', ''count'']"

definition count_ok :: "jsval \<Rightarrow> bool" where
  "count_ok c \<longleftrightarrow>
     is_obj c \<and> only_keys c count_keys \<and> has_keys c count_keys \<and> is_text (fld c (js ''action_type'')) 1 100 \<and>
     fld c (js ''result'') \<in> set (map VStr summary_results) \<and>
     (fld c (js ''program'') = VNull \<or> is_text (fld c (js ''program'')) 1 100) \<and>
     (fld c (js ''cwd_digest'') = VNull \<or> is_hex_text (fld c (js ''cwd_digest''))) \<and>
     is_int_in_range (fld c (js ''count'')) 1 max_count"

definition count_errors :: "jsval list \<Rightarrow> jsstr list" where
  "count_errors cs = concat (map (\<lambda>(i, c). if count_ok c then [] else [indexed ''counts'' i '' is malformed'']) (enumerate 0 cs))"

text \<open>At most 500 counts of at most a million each: their sum is exact.\<close>

definition counted :: "jsval list \<Rightarrow> int" where
  "counted cs = sum_list (map (\<lambda>c. num_value (fld c (js ''count''))) (filter count_ok cs))"

definition repeat_keys :: "string list" where
  "repeat_keys = [''key'', ''count'', ''first_at'', ''last_at'']"

definition repeat_ok :: "env \<Rightarrow> jsval \<Rightarrow> bool" where
  "repeat_ok e d \<longleftrightarrow>
     is_obj d \<and> only_keys d repeat_keys \<and> is_hex_text (fld d (js ''key'')) \<and> is_int_in_range (fld d (js ''count'')) 2 max_count \<and>
     is_time e (fld d (js ''first_at'')) \<and> is_time e (fld d (js ''last_at''))"

definition repeat_errors :: "env \<Rightarrow> (int \<times> int) option \<Rightarrow> jsval \<Rightarrow> nat \<Rightarrow> jsval \<Rightarrow> jsstr list" where
  "repeat_errors e window covered i d =
     (if \<not> repeat_ok e d then [indexed ''dedupe'' i '' is malformed'']
      else let first = at_time e (fld d (js ''first_at'')); last = at_time e (fld d (js ''last_at'')) in
        (if last < first \<or> (case window of None \<Rightarrow> False | Some (start, finish) \<Rightarrow> first < start \<or> finish < last)
         then [indexed ''dedupe'' i '' must lie inside the window''] else []) @
        (if is_int_in_range covered 1 max_count \<and> num_value covered < num_value (fld d (js ''count''))
         then [indexed ''dedupe'' i '' repeats more than the receipts covered''] else []))"

definition repeats_errors :: "env \<Rightarrow> (int \<times> int) option \<Rightarrow> jsval \<Rightarrow> jsval list \<Rightarrow> jsstr list" where
  "repeats_errors e window covered ds = concat (map (\<lambda>(i, d). repeat_errors e window covered i d) (enumerate 0 ds))"

text \<open>The window, when it is well formed: \<open>start\<close> and \<open>end\<close> otherwise stay NaN.\<close>

definition window_of :: "env \<Rightarrow> jsval \<Rightarrow> (int \<times> int) option" where
  "window_of e w =
     (if \<not> is_obj w \<or> \<not> only_keys w [''kind'', ''start'', ''end''] \<or>
        (fld w (js ''kind'') \<noteq> VStr (js ''interval'') \<and> fld w (js ''kind'') \<noteq> VStr (js ''session'')) \<or>
        \<not> is_time e (fld w (js ''start'')) \<or> \<not> is_time e (fld w (js ''end''))
      then None else Some (at_time e (fld w (js ''start'')), at_time e (fld w (js ''end''))))"

definition signature_ok :: "jsval \<Rightarrow> bool" where
  "signature_ok sg \<longleftrightarrow>
     is_obj sg \<and> only_keys sg [''alg'', ''sig''] \<and> fld sg (js ''alg'') = VStr (js ''Ed25519'') \<and> is_text (fld sg (js ''sig'')) 1 200"

definition attester_ok :: "jsval \<Rightarrow> bool" where
  "attester_ok a \<longleftrightarrow>
     is_obj a \<and> only_keys a [''kind'', ''kid''] \<and> fld a (js ''kind'') = VStr (js ''gateway'') \<and>
     (case fld a (js ''kid'') of VStr s \<Rightarrow> kid_re s | _ \<Rightarrow> False)"

definition head_errors :: "env \<Rightarrow> jsval \<Rightarrow> jsstr list" where
  "head_errors e p =
     (let f = (\<lambda>k. fld p (js k)) in
      err_if (f ''type'' \<noteq> VStr (js ''scopebond:summary'')) ''type must be scopebond:summary'' @
      err_if (f ''version'' \<noteq> VStr (js ''1.0'')) ''version must be 1.0'' @
      err_if (f ''canonicalization'' \<noteq> VStr (js ''RFC8785'')) ''canonicalization must be RFC8785'' @
      err_if (f ''evidence_class'' \<noteq> VStr (js ''summary'')) ''evidence_class must be summary'' @
      err_if (\<not> is_text (f ''summary_id'') 16 200) ''summary_id must be 16 to 200 characters'' @
      err_if (\<not> attester_ok (f ''attester'')) ''attester must be { kind: gateway, kid: key:<16 hex> }'' @
      err_if (\<not> nullish (f ''session_id'') \<and> \<not> is_text (f ''session_id'') 1 200) ''session_id must be null or 1 to 200 characters'' @
      err_if (\<not> nullish (f ''harness'') \<and> (case f ''harness'' of VStr s \<Rightarrow> \<not> harness_re s | _ \<Rightarrow> True))
        ''harness must be null or a short lowercase name'' @
      (case window_of e (f ''window'') of
         None \<Rightarrow> [js ''window must be { kind: interval | session, start, end }'']
       | Some (start, finish) \<Rightarrow> err_if (finish < start) ''window must not end before it starts'') @
      err_if (\<not> is_int_in_range (f ''receipt_count'') 1 max_count) ''receipt_count must be an integer from 1'' @
      err_if (\<not> is_hex_text (f ''receipts_root'')) ''receipts_root must be 64 lowercase hex'' @
      err_if (\<not> is_int_in_range (f ''notable_count'') 0 max_count) ''notable_count must be an integer from 0'' @
      err_if (\<not> is_time e (f ''timestamp'')) ''timestamp must be an RFC 3339 time'')"

definition list_errors :: "env \<Rightarrow> jsval \<Rightarrow> jsstr list" where
  "list_errors e p =
     (let cs = fld p (js ''counts''); ds = fld p (js ''dedupe''); n = fld p (js ''receipt_count'');
          short = (\<lambda>v. is_arr v \<and> length (elems v) \<le> 500) in
      (if \<not> short cs then [js ''counts must be a list of at most 500''] else count_errors (elems cs)) @
      err_if (is_arr cs \<and> is_int_in_range n 1 max_count \<and> (if short cs then counted (elems cs) else 0) \<noteq> num_value n)
        ''the counts must add up to receipt_count'' @
      (if \<not> short ds then [js ''dedupe must be a list of at most 500'']
       else repeats_errors e (window_of e (fld p (js ''window''))) n (elems ds)))"

definition validate_summary :: "env \<Rightarrow> jsval \<Rightarrow> validation_result" where
  "validate_summary e v =
     (let sg = fld v (js ''signature''); p = fld v (js ''payload''); keys = [''payload'', ''signature''];
          e1 = err_if (\<not> signature_ok sg) ''signature must be { alg: Ed25519, sig }'';
          e2 = e1 @ (if only_keys p payload_keys then [] else
            [js ''payload has an unknown member (allowed: '' @ js_join (js '', '') (map js payload_keys) @ js '')'']) in
      if \<not> is_obj v \<or> \<not> only_keys v keys \<or> \<not> has_keys v keys
      then \<lparr> valid = False, errors = [js ''a summary is { payload, signature }''] \<rparr>
      else if \<not> is_obj p then \<lparr> valid = False, errors = e1 @ [js ''payload must be an object''] \<rparr>
      else if \<not> has_keys p payload_required
      then \<lparr> valid = False, errors = e2 @
        [js ''payload is missing a member (required: '' @ js_join (js '', '') (map js payload_required) @ js '')''] \<rparr>
      else result_of (e2 @ head_errors e p @ list_errors e p))"

subsection \<open>The signature\<close>

definition summary_signing_input :: "jsval \<Rightarrow> jsstr outcome" where
  "summary_signing_input payload = rbind (canonical payload) (\<lambda>t. Inr (summary_domain @ t))"

definition verify_summary_signature :: "env \<Rightarrow> webcrypto \<Rightarrow> jsval \<Rightarrow> jsval \<Rightarrow> signature_verification" where
  "verify_summary_signature e w v key =
     (let p = fld v (js ''payload''); sg = fld v (js ''signature'') in
      if \<not> objectish v \<or> \<not> is_obj p \<or> fld p (js ''type'') \<noteq> VStr (js ''scopebond:summary'') \<or> \<not> truthy sg \<or> \<not> is_str (fld sg (js ''sig''))
      then unverified
      else check_signed e w p sg key (summary_signing_input p))"

subsection \<open>The root\<close>

definition order_key :: "jsval \<Rightarrow> (jsstr \<times> jsstr \<times> jsstr) outcome" where
  "order_key p =
     rbind (canonical p) (\<lambda>t. Inr
       (json_text (or_else (fld p (js ''timestamp'')) (VStr [])),
        json_text (or_else (fld (fld p (js ''action_ref'')) (js ''action_id'')) (VStr [])), t))"

definition summary_order :: "jsval list \<Rightarrow> jsval list outcome" where
  "summary_order ps =
     rbind (rmap (\<lambda>p. rbind (order_key p) (\<lambda>k. Inr (k, p))) ps) (\<lambda>kps.
       Inr (map snd (js_sort (\<lambda>a b. fst a \<le> fst b) kps)))"

definition summary_root :: "env \<Rightarrow> jsval list \<Rightarrow> jsstr outcome" where
  "summary_root e ps =
     rbind (summary_order ps) (\<lambda>qs. rbind (rmap (receipt_leaf_hash (sha256 e)) qs) (\<lambda>ls. merkle_tree_hash (sha256 e) (VArr (map VStr ls))))"

subsection \<open>Coverage\<close>

record summary_coverage =
  sc_valid :: bool
  sc_count :: bool
  sc_root :: bool
  sc_window :: bool
  sc_routine :: bool
  sc_totals :: bool

definition not_covered :: summary_coverage where
  "not_covered = \<lparr> sc_valid = False, sc_count = False, sc_root = False, sc_window = False, sc_routine = False, sc_totals = False \<rparr>"

text \<open>\<open>xs.every(f)\<close> with an \<open>f\<close> that may throw: it stops at the first false.\<close>

fun every_o :: "('a \<Rightarrow> bool outcome) \<Rightarrow> 'a list \<Rightarrow> bool outcome" where
  "every_o f [] = Inr True"
| "every_o f (x # xs) = rbind (f x) (\<lambda>b. if b then every_o f xs else Inr False)"

definition date_of :: "env \<Rightarrow> jsval \<Rightarrow> int option outcome" where
  "date_of e v = rbind (to_str v) (\<lambda>s. Inr (date_parse e s))"

definition time_within :: "int option \<Rightarrow> int option \<Rightarrow> int option \<Rightarrow> bool" where
  "time_within start finish t = (case (start, finish, t) of (Some a, Some b, Some x) \<Rightarrow> a \<le> x \<and> x \<le> b | _ \<Rightarrow> False)"

text \<open>\<open>a + b\<close>, and the totals: a map from type and result to a sum, written as sorted lines.\<close>

definition js_add :: "jsval \<Rightarrow> jsval \<Rightarrow> jsval outcome" where
  "js_add a b =
     rbind (to_prim a) (\<lambda>x. rbind (to_prim b) (\<lambda>y.
       if is_str x \<or> is_str y then rbind (to_str x) (\<lambda>s. rbind (to_str y) (\<lambda>t. Inr (VStr (s @ t))))
       else Inr (VNum (jadd (prim_num x) (prim_num y)))))"

fun add_rows :: "(jsstr \<times> jsval) list \<Rightarrow> (jsval \<times> jsval \<times> jsval) list \<Rightarrow> (jsstr \<times> jsval) list outcome" where
  "add_rows m [] = Inr m"
| "add_rows m ((type, result, n) # rows) =
     rbind (to_str type) (\<lambda>a. rbind (to_str result) (\<lambda>b.
       let k = a @ [0] @ b in
       rbind (js_add (case map_of m k of None \<Rightarrow> VNum (Fin 0) | Some v \<Rightarrow> v) n) (\<lambda>v. add_rows (omap_set k v m) rows)))"

definition total_line :: "jsstr \<times> jsval \<Rightarrow> jsstr" where
  "total_line kv = fst kv @ js ''='' @ json_text (snd kv)"

definition totals :: "(jsval \<times> jsval \<times> jsval) list \<Rightarrow> jsstr outcome" where
  "totals rows =
     rbind (add_rows [] rows) (\<lambda>m.
       Inr (js_join [10] (map total_line
         (js_sort (\<lambda>a b. fst a @ js '','' @ json_text (snd a) \<le> fst b @ js '','' @ json_text (snd b)) m))))"

definition receipt_row :: "jsval \<Rightarrow> (jsval \<times> jsval \<times> jsval) outcome" where
  "receipt_row x =
     rbind (to_str (fld x (js ''realtime_result''))) (\<lambda>r.
       Inr (VStr (json_text (or_else (fld (fld x (js ''intent'')) (js ''action_type'')) (VStr []))), VStr r, VNum (Fin 1)))"

definition count_row :: "jsval \<Rightarrow> (jsval \<times> jsval \<times> jsval) outcome" where
  "count_row c = (if nullish c \<or> c = VHole then Inl TypeErr else Inr (fld c (js ''action_type''), fld c (js ''result''), fld c (js ''count'')))"

definition verify_summary_coverage :: "env \<Rightarrow> jsval \<Rightarrow> jsval list \<Rightarrow> summary_coverage outcome" where
  "verify_summary_coverage e v receipts =
     (let p = fld v (js ''payload''); payloads = map (\<lambda>r. fld r (js ''payload'')) receipts; w = fld p (js ''window'') in
      if \<not> truthy p \<or> \<not> truthy w \<or> \<not> is_arr (fld p (js ''counts'')) then Inr not_covered
      else if list_ex (\<lambda>x. \<not> is_obj x) payloads then Inr not_covered
      else let cnt = (VNum (jint (int (length payloads))) = fld p (js ''receipt_count''));
          rt = cnt \<and> (case summary_root e payloads of Inl _ \<Rightarrow> False | Inr r \<Rightarrow> VStr r = fld p (js ''receipts_root'')) in
        rbind (date_of e (fld w (js ''start''))) (\<lambda>start. rbind (date_of e (fld w (js ''end''))) (\<lambda>finish.
        rbind (every_o (\<lambda>x. rbind (date_of e (fld x (js ''timestamp''))) (\<lambda>t. Inr (time_within start finish t))) payloads) (\<lambda>win.
        rbind (every_o (\<lambda>x. rbind (to_str (fld x (js ''realtime_result''))) (\<lambda>r.
            Inr (r \<in> set summary_results \<and> fld x (js ''override'') = VUndef))) payloads) (\<lambda>routine.
        rbind (rbind (rmap receipt_row payloads) totals) (\<lambda>a.
        rbind (rbind (rmap count_row (elems (fld p (js ''counts'')))) totals) (\<lambda>b.
          Inr \<lparr> sc_valid = cnt \<and> rt \<and> win \<and> routine \<and> a = b, sc_count = cnt, sc_root = rt, sc_window = win,
                sc_routine = routine, sc_totals = (a = b) \<rparr>)))))))"

end
