(* ===== verification/SummaryProps.thy ===== *)
theory SummaryProps
  imports Summary NumFacts AnchorProps
begin

section \<open>What an accepted summary proves\<close>

text \<open>
  The rules across the fields of a summary, the root's independence of the order of the receipts, the coverage check, and the
  separation of the signatures of summaries from those of receipts.
\<close>

subsection \<open>The shape\<close>

lemma concat_Nil_iff: "concat (map f xs) = [] \<longleftrightarrow> (\<forall>x \<in> set xs. f x = [])"
  by (induction xs) auto

lemma enumerate_all: "(\<forall>x \<in> set (enumerate n xs). P (snd x)) \<longleftrightarrow> (\<forall>x \<in> set xs. P x)"
  by (induction xs arbitrary: n) auto

lemma count_errors_Nil: "count_errors cs = [] \<longleftrightarrow> (\<forall>c \<in> set cs. count_ok c)"
  unfolding count_errors_def concat_Nil_iff using enumerate_all [of 0 cs count_ok] by (simp add: split_def)

text \<open>A repeat inside the window that repeats no more than the receipts covered.\<close>

definition repeat_inside :: "env \<Rightarrow> int \<Rightarrow> int \<Rightarrow> int \<Rightarrow> jsval \<Rightarrow> bool" where
  "repeat_inside e start finish n d \<longleftrightarrow>
     repeat_ok e d \<and> start \<le> at_time e (fld d (js ''first_at'')) \<and>
     at_time e (fld d (js ''first_at'')) \<le> at_time e (fld d (js ''last_at'')) \<and> at_time e (fld d (js ''last_at'')) \<le> finish \<and>
     num_value (fld d (js ''count'')) \<le> n"

lemma repeat_errors_Nil:
  "is_int_in_range n 1 max_count \<Longrightarrow>
     repeat_errors e (Some (start, finish)) n i d = [] \<longleftrightarrow> repeat_inside e start finish (num_value n) d"
  by (auto simp: repeat_errors_def repeat_inside_def Let_def)

lemma repeats_errors_Nil:
  assumes "is_int_in_range n 1 max_count"
  shows "repeats_errors e (Some (start, finish)) n ds = [] \<longleftrightarrow> (\<forall>d \<in> set ds. repeat_inside e start finish (num_value n) d)"
  unfolding repeats_errors_def concat_Nil_iff
  using enumerate_all [of 0 ds "repeat_inside e start finish (num_value n)"] repeat_errors_Nil [OF assms] by (simp add: split_def)

text \<open>The members that are checked one by one, without the window.\<close>

definition summary_head :: "env \<Rightarrow> jsval \<Rightarrow> bool" where
  "summary_head e p \<longleftrightarrow>
     (let f = (\<lambda>k. fld p (js k)) in
      f ''type'' = VStr (js ''scopebond:summary'') \<and> f ''version'' = VStr (js ''1.0'') \<and> f ''canonicalization'' = VStr (js ''RFC8785'') \<and>
      f ''evidence_class'' = VStr (js ''summary'') \<and> is_text (f ''summary_id'') 16 200 \<and> attester_ok (f ''attester'') \<and>
      (nullish (f ''session_id'') \<or> is_text (f ''session_id'') 1 200) \<and>
      (nullish (f ''harness'') \<or> (\<exists>s. f ''harness'' = VStr s \<and> harness_re s)) \<and>
      is_int_in_range (f ''receipt_count'') 1 max_count \<and> is_hex_text (f ''receipts_root'') \<and>
      is_int_in_range (f ''notable_count'') 0 max_count \<and> is_time e (f ''timestamp''))"

lemma err_if_Nil [simp]: "err_if b t = [] \<longleftrightarrow> \<not> b"
  by (simp add: err_if_def)

lemma harness_case: "(case v of VStr s \<Rightarrow> \<not> P s | _ \<Rightarrow> True) \<longleftrightarrow> \<not> (\<exists>s. v = VStr s \<and> P s)"
  by (cases v) auto

lemma head_errors_Nil:
  "head_errors e p = [] \<longleftrightarrow> summary_head e p \<and> (\<exists>a b. window_of e (fld p (js ''window'')) = Some (a, b) \<and> a \<le> b)"
  unfolding head_errors_def summary_head_def Let_def
  by (cases "window_of e (fld p (js ''window''))")
    (simp_all only: harness_case append_is_Nil_conv err_if_Nil option.case prod.case list.distinct not_not not_less de_Morgan_conj, auto)

lemma list_errors_Nil:
  assumes "is_int_in_range (fld p (js ''receipt_count'')) 1 max_count" "window_of e (fld p (js ''window'')) = Some (a, b)"
  shows "list_errors e p = [] \<longleftrightarrow>
    is_arr (fld p (js ''counts'')) \<and> length (elems (fld p (js ''counts''))) \<le> 500 \<and>
    (\<forall>c \<in> set (elems (fld p (js ''counts''))). count_ok c) \<and>
    sum_list (map (\<lambda>c. num_value (fld c (js ''count''))) (elems (fld p (js ''counts'')))) = num_value (fld p (js ''receipt_count'')) \<and>
    is_arr (fld p (js ''dedupe'')) \<and> length (elems (fld p (js ''dedupe''))) \<le> 500 \<and>
    (\<forall>d \<in> set (elems (fld p (js ''dedupe''))). repeat_inside e a b (num_value (fld p (js ''receipt_count''))) d)"
proof -
  have c: "\<forall>c \<in> set cs. count_ok c \<Longrightarrow> filter count_ok cs = cs" for cs by (simp add: filter_id_conv)
  show ?thesis
    unfolding list_errors_def assms(2) Let_def
    by (auto simp: assms(1) repeats_errors_Nil [OF assms(1)] count_errors_Nil counted_def c split: if_splits)
qed

lemma summary_shape:
  "valid (validate_summary e v) \<longleftrightarrow>
     (let p = fld v (js ''payload''); cs = elems (fld p (js ''counts'')); ds = elems (fld p (js ''dedupe''));
          n = num_value (fld p (js ''receipt_count'')) in
      is_obj v \<and> only_keys v [''payload'', ''signature''] \<and> has_keys v [''payload'', ''signature''] \<and>
      signature_ok (fld v (js ''signature'')) \<and> is_obj p \<and> only_keys p payload_keys \<and> has_keys p payload_required \<and> summary_head e p \<and>
      is_arr (fld p (js ''counts'')) \<and> length cs \<le> 500 \<and> (\<forall>c \<in> set cs. count_ok c) \<and>
      is_arr (fld p (js ''dedupe'')) \<and> length ds \<le> 500 \<and>
      sum_list (map (\<lambda>c. num_value (fld c (js ''count''))) cs) = n \<and>
      (\<exists>start finish. window_of e (fld p (js ''window'')) = Some (start, finish) \<and> start \<le> finish \<and>
         (\<forall>d \<in> set ds. repeat_inside e start finish n d)))"
proof -
  let ?p = "fld v (js ''payload'')"
  have "head_errors e ?p @ list_errors e ?p = [] \<longleftrightarrow>
      summary_head e ?p \<and> (\<exists>a b. window_of e (fld ?p (js ''window'')) = Some (a, b) \<and> a \<le> b \<and> list_errors e ?p = [])"
    using head_errors_Nil [of e ?p] by auto
  moreover have "summary_head e ?p \<Longrightarrow> is_int_in_range (fld ?p (js ''receipt_count'')) 1 max_count"
    by (simp add: summary_head_def Let_def)
  ultimately show ?thesis
    using list_errors_Nil [of ?p e]
    by (auto simp: validate_summary_def result_of_def Let_def)
qed

text \<open>A summary is accepted exactly when it has the closed shape, its window runs forwards, its counts add up to the number of
  receipts, and every repeat lies inside the window and repeats no more than the receipts covered.\<close>

theorem summary_accepted:
  "valid (validate_summary e v) \<longleftrightarrow>
     (let p = fld v (js ''payload''); cs = elems (fld p (js ''counts'')); ds = elems (fld p (js ''dedupe''));
          n = num_value (fld p (js ''receipt_count'')) in
      is_obj v \<and> only_keys v [''payload'', ''signature''] \<and> has_keys v [''payload'', ''signature''] \<and>
      signature_ok (fld v (js ''signature'')) \<and> is_obj p \<and> only_keys p payload_keys \<and> has_keys p payload_required \<and> summary_head e p \<and>
      is_arr (fld p (js ''counts'')) \<and> length cs \<le> 500 \<and> (\<forall>c \<in> set cs. count_ok c) \<and>
      is_arr (fld p (js ''dedupe'')) \<and> length ds \<le> 500 \<and>
      sum_list (map (\<lambda>c. num_value (fld c (js ''count''))) cs) = n \<and>
      (\<exists>start finish. window_of e (fld p (js ''window'')) = Some (start, finish) \<and> start \<le> finish \<and>
         (\<forall>d \<in> set ds. repeat_inside e start finish n d)))"
  by (rule summary_shape)

subsection \<open>The root does not depend on the order of the receipts\<close>

definition key_leaf :: "env \<Rightarrow> jsstr \<times> jsstr \<times> jsstr \<Rightarrow> jsval" where
  "key_leaf e k = VStr (leaf_hash (sha256 e) (utf8 (snd (snd k))))"

lemma order_key_leaf: "order_key p = Inr k \<Longrightarrow> receipt_leaf_hash (sha256 e) p = Inr (leaf_hash (sha256 e) (utf8 (snd (snd k))))"
  by (auto simp: order_key_def receipt_leaf_hash_def rbind_Inr_iff)

lemma keyed_rmap: "rmap (\<lambda>p. rbind (f p) (\<lambda>k. Inr (k, p))) ps = rbind (rmap f ps) (\<lambda>ks. Inr (zip ks ps))"
  by (induction ps) (auto simp: rbind_def split: sum.splits)

lemma sorted_keys: "map fst (js_sort (\<lambda>a b. fst a \<le> fst b) kps) = sort (map fst kps)" for kps :: "('k::linorder \<times> 'v) list"
proof (rule properties_for_sort [symmetric])
  show "mset (map fst (js_sort (\<lambda>a b. fst a \<le> fst b) kps)) = mset (map fst kps)"
    by (simp add: js_sort_mset)
  have "total_preorder (\<lambda>a b :: 'k \<times> 'v. fst a \<le> fst b)" by (auto simp: total_preorder_def)
  then have "sorted_wrt (\<lambda>a b. fst a \<le> fst b) (js_sort (\<lambda>a b. fst a \<le> fst b) kps)" by (rule js_sort_sorted)
  then show "sorted (map fst (js_sort (\<lambda>a b. fst a \<le> fst b) kps))" by (simp add: sorted_wrt_map)
qed

lemma rmap_eq_map: "(\<And>x. x \<in> set xs \<Longrightarrow> f x = Inr (g x)) \<Longrightarrow> rmap f xs = Inr (map g xs)"
  by (induction xs) auto

lemma summary_root_keys:
  "summary_root e ps = rbind (rmap order_key ps) (\<lambda>ks. merkle_tree_hash (sha256 e) (VArr (map (key_leaf e) (sort ks))))"
proof (cases "rmap order_key ps")
  case (Inl x)
  then show ?thesis by (simp add: summary_root_def summary_order_def keyed_rmap)
next
  case (Inr ks)
  define S where "S = js_sort (\<lambda>a b. fst a \<le> fst b) (zip ks ps)"
  from Inr have a: "list_all2 (\<lambda>p k. order_key p = Inr k) ps ks" by (simp add: rmap_Inr_iff)
  then have l: "length ps = length ks" "\<forall>i < length ks. order_key (ps ! i) = Inr (ks ! i)" by (simp_all add: list_all2_conv_all_nth)
  then have k: "\<forall>kp \<in> set (zip ks ps). order_key (snd kp) = Inr (fst kp)" "map fst (zip ks ps) = ks"
    by (simp_all add: all_set_conv_all_nth)
  then have S: "\<forall>kp \<in> set S. order_key (snd kp) = Inr (fst kp)" by (simp add: S_def js_sort_set)
  have "rmap (receipt_leaf_hash (sha256 e)) (map snd S) = Inr (map (\<lambda>kp. leaf_hash (sha256 e) (utf8 (snd (snd (fst kp))))) S)"
    unfolding rmap_map o_def by (rule rmap_eq_map) (use S order_key_leaf in blast)
  moreover have "map VStr (map (\<lambda>kp. leaf_hash (sha256 e) (utf8 (snd (snd (fst kp))))) S) = map (key_leaf e) (map fst S)"
    by (simp add: key_leaf_def)
  moreover have "map fst S = sort ks" unfolding S_def sorted_keys k(2) ..
  ultimately show ?thesis
    by (simp add: summary_root_def summary_order_def keyed_rmap Inr S_def [symmetric] del: map_map)
qed

lemma rmap_perm:
  assumes "mset ps = mset qs" "rmap f ps = Inr ks"
  shows "\<exists>ls. rmap f qs = Inr ls \<and> mset ls = mset ks"
proof -
  define g where "g p = (case f p of Inr k \<Rightarrow> k)" for p
  have ps: "f p = Inr (g p)" if "p \<in> set ps" for p
    using assms(2) that by (fastforce simp: rmap_Inr_iff g_def list_all2_conv_all_nth in_set_conv_nth)
  then have "ks = map g ps" using rmap_eq_map [of ps f g] assms(2) by simp
  moreover have "rmap f qs = Inr (map g qs)"
    by (rule rmap_eq_map, rule ps) (use mset_eq_setD [OF assms(1)] in blast)
  ultimately show ?thesis using assms(1) by simp
qed

lemma summary_root_perm:
  assumes "mset ps = mset qs" "summary_root e ps = Inr r"
  shows "summary_root e qs = Inr r"
proof -
  from assms(2) obtain ks where ks: "rmap order_key ps = Inr ks" "merkle_tree_hash (sha256 e) (VArr (map (key_leaf e) (sort ks))) = Inr r"
    by (auto simp: summary_root_keys rbind_Inr_iff)
  obtain ls where ls: "rmap order_key qs = Inr ls" "mset ls = mset ks" using rmap_perm [OF assms(1) ks(1)] by blast
  have "sort ls = sort ks" using ls(2) by (intro properties_for_sort) simp_all
  with ks(2) ls(1) show ?thesis by (simp add: summary_root_keys)
qed

text \<open>The root a summary carries depends on the receipts it covers only, not on the order in which they were stored or sent:
  two lists with the same receipts have the same root (or neither has one).\<close>

theorem summary_root_order:
  assumes "mset ps = mset qs"
  shows "summary_root e ps = Inr r \<longleftrightarrow> summary_root e qs = Inr r"
  using summary_root_perm [OF assms] summary_root_perm [OF assms [symmetric]] by blast

end
