(* ===== verification/CoverageProps.thy ===== *)
theory CoverageProps
  imports SummaryProps Violates AnchorDemo
begin

section \<open>What a covered summary proves\<close>

text \<open>
  \<open>verifySummaryCoverage\<close> compares totals as text. The theory shows that the text determines the totals when no action type contains a
  line break, and reads the verdict as a statement about the receipts; a break in an action type, or a member with its own
  \<open>toString\<close>, shows the limits.
\<close>

subsection \<open>Lines\<close>

lemma split_line: "10 \<notin> set a \<Longrightarrow> js_split 10 (a @ 10 # s) = a # js_split 10 s"
  by (induction a) auto

lemma split_last: "10 \<notin> set a \<Longrightarrow> js_split 10 a = [a]"
  by (induction a) auto

lemma split_join: "ls \<noteq> [] \<Longrightarrow> \<forall>l \<in> set ls. 10 \<notin> set l \<Longrightarrow> js_split 10 (js_join [10] ls) = ls"
proof (induction ls)
  case (Cons l ls)
  then show ?case by (cases ls) (auto simp: split_line split_last)
qed simp

lemma join_Nil: "\<forall>l \<in> set ls. l \<noteq> [] \<Longrightarrow> js_join sep ls = [] \<longleftrightarrow> ls = []"
  by (induction sep ls rule: js_join.induct) auto

lemma join_inj:
  assumes "\<forall>l \<in> set ls \<union> set ls'. 10 \<notin> set l \<and> l \<noteq> []" "js_join [10] ls = js_join [10] ls'"
  shows "ls = ls'"
proof (cases "ls = []")
  case True
  with assms show ?thesis using join_Nil [of ls' "[10]"] by auto
next
  case False
  with assms have "ls' \<noteq> []" using join_Nil [of ls "[10]"] by auto
  then have "js_split 10 (js_join [10] ls') = ls'" using assms(1) by (intro split_join) auto
  moreover have "js_split 10 (js_join [10] ls) = ls" using False assms(1) by (intro split_join) auto
  ultimately show ?thesis using assms(2) by simp
qed

text \<open>The last occurrence of a separator splits a text.\<close>

lemma last_sep:
  assumes "a @ c # s = b @ c # t" "c \<notin> set s" "c \<notin> set t"
  shows "a = b \<and> s = t"
proof -
  have "takeWhile (\<lambda>x. x \<noteq> c) (rev s @ c # rev a) = rev s" "takeWhile (\<lambda>x. x \<noteq> c) (rev t @ c # rev b) = rev t"
    using assms(2,3) by (simp_all add: takeWhile_tail takeWhile_eq_all_conv) blast+
  moreover have "rev s @ c # rev a = rev t @ c # rev b" using arg_cong [OF assms(1), of rev] by simp
  ultimately have "rev s = rev t" by metis
  with assms(1) show ?thesis by simp
qed

subsection \<open>Totals\<close>

definition row_key :: "jsstr \<times> jsstr \<Rightarrow> jsstr" where
  "row_key tr = fst tr @ [0] @ snd tr"

text \<open>A row whose members have their types, and the sum of the rows with one key.\<close>

definition row_val :: "(jsstr \<times> jsstr) \<times> int \<Rightarrow> jsval \<times> jsval \<times> jsval" where
  "row_val r = (VStr (fst (fst r)), VStr (snd (fst r)), VNum (jint (snd r)))"

definition row_sum :: "((jsstr \<times> jsstr) \<times> int) list \<Rightarrow> jsstr \<Rightarrow> int" where
  "row_sum rows k = sum_list (map snd (filter (\<lambda>r. row_key (fst r) = k) rows))"

text \<open>The map holds the sums so far.\<close>

definition tallies :: "(jsstr \<times> jsval) list \<Rightarrow> (jsstr \<Rightarrow> int) \<Rightarrow> bool" where
  "tallies m f \<longleftrightarrow> distinct (map fst m) \<and> (\<forall>k. map_of m k = (if 0 < f k then Some (VNum (jint (f k))) else None)) \<and> (\<forall>k. 0 \<le> f k)"

lemma row_sum_Cons: "row_sum (r # rows) k = (if row_key (fst r) = k then snd r else 0) + row_sum rows k"
  by (simp add: row_sum_def)

lemma row_sum_le: "\<forall>r \<in> set rows. 0 < snd r \<Longrightarrow> 0 \<le> row_sum rows k \<and> row_sum rows k \<le> sum_list (map snd rows)"
  by (induction rows) (auto simp: row_sum_Cons row_sum_def [of "[]"])

lemma add_rows_tallies:
  "tallies m f \<Longrightarrow> \<forall>r \<in> set rows. 0 < snd r \<Longrightarrow> (\<And>k. f k + sum_list (map snd rows) \<le> max_safe) \<Longrightarrow>
     \<exists>m'. add_rows m (map row_val rows) = Inr m' \<and> tallies m' (\<lambda>k. f k + row_sum rows k)"
proof (induction rows arbitrary: m f)
  case Nil
  then show ?case by (simp add: row_sum_def)
next
  case (Cons r rows)
  obtain a b n where r: "r = ((a, b), n)" by (cases r) auto
  define k where "k = a @ [0] @ b"
  have rk: "row_key (fst r) = k" by (simp add: r row_key_def k_def)
  have n: "0 < n" using Cons.prems(2) r by auto
  have pos: "0 \<le> sum_list (map snd rows)" using Cons.prems(2) by (intro sum_list_nonneg) auto
  have b: "f k + n \<le> max_safe" using Cons.prems(3) [of k] pos by (simp add: r)
  have fk: "0 \<le> f k" "map_of m k = (if 0 < f k then Some (VNum (jint (f k))) else None)" using Cons.prems(1) by (auto simp: tallies_def)
  have z: "Fin 0 = jint 0" by (simp add: jint_def)
  have add: "js_add (case map_of m k of None \<Rightarrow> VNum (Fin 0) | Some v \<Rightarrow> v) (VNum (jint n)) = Inr (VNum (jint (f k + n)))"
  proof -
    have "jadd (jint (f k)) (jint n) = jint (f k + n)" by (rule jadd_jint) (use fk(1) n b in \<open>simp add: max_safe_def\<close>)
    moreover have "f k = 0 \<Longrightarrow> jadd (Fin 0) (jint n) = jint n" using calculation by (simp add: z)
    ultimately show ?thesis using fk by (auto simp: js_add_def to_prim_def is_str_def prim_num_def)
  qed
  have "tallies (omap_set k (VNum (jint (f k + n))) m) (f(k := f k + n))"
    using Cons.prems(1) add_nonneg_pos [OF fk(1) n] om.distinct_set [of m k]
    by (auto simp: tallies_def map_of_omap_set intro: less_imp_le)
  moreover have "(f(k := f k + n)) j + sum_list (map snd rows) \<le> max_safe" for j
    using Cons.prems(3) [of j] n by (auto simp: r)
  moreover have "\<forall>r \<in> set rows. 0 < snd r" using Cons.prems(2) by simp
  ultimately have "\<exists>m'. add_rows (omap_set k (VNum (jint (f k + n))) m) (map row_val rows) = Inr m' \<and>
      tallies m' (\<lambda>j. (f(k := f k + n)) j + row_sum rows j)" by (intro Cons.IH)
  then obtain m' where
    m': "add_rows (omap_set k (VNum (jint (f k + n))) m) (map row_val rows) = Inr m'"
      "tallies m' (\<lambda>j. (f(k := f k + n)) j + row_sum rows j)"
    by blast
  have "(\<lambda>j. (f(k := f k + n)) j + row_sum rows j) = (\<lambda>j. f j + row_sum (r # rows) j)"
    by (rule ext) (simp only: row_sum_Cons rk, simp add: r)
  moreover have "map row_val (r # rows) = (VStr a, VStr b, VNum (jint n)) # map row_val rows" by (simp add: r row_val_def)
  ultimately show ?case using m' add by (intro exI [of _ m'] conjI) (simp_all add: k_def Let_def)
qed

definition line_of :: "jsstr \<Rightarrow> int \<Rightarrow> jsstr" where
  "line_of k n = k @ 61 # dec_digits n"

lemma line_inj:
  assumes "line_of k n = line_of k' n'" "0 < n" "0 < n'"
  shows "k = k' \<and> n = n'"
proof -
  have d: "61 \<notin> set (dec_digits m)" if "0 < m" for m using dec_digits_digit [of m 61] that by (auto simp: is_digit_def)
  have "k = k' \<and> dec_digits n = dec_digits n'" using assms(1) d [OF assms(2)] d [OF assms(3)] unfolding line_of_def by (rule last_sep)
  with assms show ?thesis using dec_digits_inj [of n n'] by simp
qed

lemma totals_lines:
  assumes "\<forall>r \<in> set rows. 0 < snd r" "sum_list (map snd rows) \<le> max_safe"
  shows "\<exists>ls. totals (map row_val rows) = Inr (js_join [10] ls) \<and> set ls = {line_of k (row_sum rows k) | k. 0 < row_sum rows k}"
proof -
  have "tallies [] (\<lambda>_. 0)" by (simp add: tallies_def)
  from add_rows_tallies [OF this assms(1)] assms(2) obtain m where
    m: "add_rows [] (map row_val rows) = Inr m" "tallies m (\<lambda>k. row_sum rows k)" by auto
  define S where "S = js_sort (\<lambda>a b. fst a @ js '','' @ json_text (snd a) \<le> fst b @ js '','' @ json_text (snd b)) m"
  have mem: "(k, v) \<in> set m \<longleftrightarrow> 0 < row_sum rows k \<and> v = VNum (jint (row_sum rows k))" for k v
    using m(2) map_of_eq_Some_iff [of m k v] unfolding tallies_def by (metis option.inject option.distinct(1))
  have le: "row_sum rows k \<le> max_safe" for k using row_sum_le [OF assms(1), of k] assms(2) by linarith
  have "total_line (k, VNum (jint (row_sum rows k))) = line_of k (row_sum rows k)" if "0 < row_sum rows k" for k
    using that le [of k] num_text_int [of "row_sum rows k"] by (simp add: total_line_def line_of_def int_text_def js_def)
  note tl = this
  have "set S = (\<lambda>k. (k, VNum (jint (row_sum rows k)))) ` {k. 0 < row_sum rows k}" using mem by (auto simp: S_def js_sort_set)
  then have "set (map total_line S) = {line_of k (row_sum rows k) | k. 0 < row_sum rows k}"
    using tl by (auto simp: image_iff)
  moreover have "totals (map row_val rows) = Inr (js_join [10] (map total_line S))" by (simp add: totals_def m(1) S_def)
  ultimately show ?thesis by blast
qed

lemma totals_inj:
  assumes rows: "\<forall>r \<in> set rows \<union> set rows'. 0 < snd r \<and> 10 \<notin> set (row_key (fst r))"
    and small: "sum_list (map snd rows) \<le> max_safe" "sum_list (map snd rows') \<le> max_safe"
    and eq: "totals (map row_val rows) = totals (map row_val rows')"
  shows "row_sum rows k = row_sum rows' k"
proof -
  obtain ls ls' where ls: "totals (map row_val rows) = Inr (js_join [10] ls)" "set ls = {line_of k (row_sum rows k) | k. 0 < row_sum rows k}"
    "totals (map row_val rows') = Inr (js_join [10] ls')" "set ls' = {line_of k (row_sum rows' k) | k. 0 < row_sum rows' k}"
    using totals_lines [of rows] totals_lines [of rows'] rows small by auto
  have key: "\<exists>r \<in> set rs. row_key (fst r) = k" if "0 < row_sum rs k" for rs k
    using that by (induction rs) (auto simp: row_sum_Cons row_sum_def split: if_splits)
  have plain: "10 \<notin> set (line_of k (row_sum rs k)) \<and> line_of k (row_sum rs k) \<noteq> []"
    if "0 < row_sum rs k" "set rs \<subseteq> set rows \<union> set rows'" for rs k
    using key [OF that(1)] rows that dec_digits_digit [of "row_sum rs k" 10] by (auto simp: line_of_def is_digit_def)
  have "\<forall>l \<in> set ls \<union> set ls'. 10 \<notin> set l \<and> l \<noteq> []" using ls(2,4) plain by auto
  with eq ls(1,3) have "set ls = set ls'" using join_inj [of ls ls'] by simp
  then have e: "(\<exists>j. line_of k n = line_of j (row_sum rows j) \<and> 0 < row_sum rows j) \<longleftrightarrow>
      (\<exists>j. line_of k n = line_of j (row_sum rows' j) \<and> 0 < row_sum rows' j)" for n
    using ls(2,4) by auto
  have nn: "0 \<le> row_sum rows k" "0 \<le> row_sum rows' k" using row_sum_le [of rows k] row_sum_le [of rows' k] rows by auto
  show ?thesis
  proof (cases "0 < row_sum rows k")
    case True
    with e [of "row_sum rows k"] show ?thesis by (auto dest: line_inj)
  next
    case False
    have "\<not> 0 < row_sum rows' k"
    proof
      assume p: "0 < row_sum rows' k"
      with e [of "row_sum rows' k"] False show False by (auto dest: line_inj)
    qed
    with False nn show ?thesis by simp
  qed
qed

subsection \<open>The verdict\<close>

definition type_text :: "jsval \<Rightarrow> jsstr" where
  "type_text x = json_text (or_else (fld (fld x (js ''intent'')) (js ''action_type'')) (VStr []))"

text \<open>A receipt that a summary may stand for: inside the window, not denied, approved, overridden or timed out.\<close>

definition routine_inside :: "env \<Rightarrow> int \<Rightarrow> int \<Rightarrow> jsval \<Rightarrow> bool" where
  "routine_inside e start ending x \<longleftrightarrow>
     (\<exists>r \<in> set summary_results. to_str (fld x (js ''realtime_result'')) = Inr r) \<and> fld x (js ''override'') = VUndef \<and>
     (\<exists>t. date_of e (fld x (js ''timestamp'')) = Inr (Some t) \<and> start \<le> t \<and> t \<le> ending)"

lemma every_o_True: "every_o f xs = Inr True \<longleftrightarrow> (\<forall>x \<in> set xs. f x = Inr True)"
  by (induction xs) (auto simp: rbind_Inr_iff split: if_splits)

lemma window_dates:
  assumes "window_of e w = Some (start, ending)"
  shows "date_of e (fld w (js ''start'')) = Inr (Some start)" "date_of e (fld w (js ''end'')) = Inr (Some ending)"
  using assms
  by (auto simp: window_of_def is_time_def at_time_def date_of_def split: if_splits jsval.splits option.splits)

lemma summary_results_plain: "r \<in> set summary_results \<Longrightarrow> 0 \<notin> set r \<and> 10 \<notin> set r"
  by (auto simp: summary_results_def js_def)

lemma row_key_inj: "R \<in> set summary_results \<Longrightarrow> snd tr \<in> set summary_results \<Longrightarrow> row_key tr = row_key (T, R) \<longleftrightarrow> tr = (T, R)"
  using last_sep [of "fst tr" 0 "snd tr" T R] summary_results_plain by (cases tr) (auto simp: row_key_def)

lemma jint_one [simp]: "VNum (Fin 1) = VNum (jint 1)"
  by (simp add: jint_def)

text \<open>The rows of the receipts, when each has one of the two results.\<close>

definition receipt_tag :: "jsval \<Rightarrow> (jsstr \<times> jsstr) \<times> int" where
  "receipt_tag x = ((type_text x, case to_str (fld x (js ''realtime_result'')) of Inr r \<Rightarrow> r), 1)"

lemma receipt_rows:
  assumes "\<forall>x \<in> set xs. \<exists>r \<in> set summary_results. to_str (fld x (js ''realtime_result'')) = Inr r"
  shows "rmap receipt_row xs = Inr (map row_val (map receipt_tag xs))" "\<forall>t \<in> set (map receipt_tag xs). snd (fst t) \<in> set summary_results \<and> snd t = 1"
proof -
  have "receipt_row x = Inr (row_val (receipt_tag x))" if "x \<in> set xs" for x
    using assms that by (auto simp: receipt_row_def receipt_tag_def row_val_def type_text_def)
  then show "rmap receipt_row xs = Inr (map row_val (map receipt_tag xs))"
    using rmap_eq_map [of xs receipt_row "row_val \<circ> receipt_tag"] by simp
qed (use assms in \<open>auto simp: receipt_tag_def\<close>)

lemma receipt_sum:
  assumes "\<forall>x \<in> set xs. \<exists>r \<in> set summary_results. to_str (fld x (js ''realtime_result'')) = Inr r" "R \<in> set summary_results"
  shows "row_sum (map receipt_tag xs) (row_key (T, R)) =
    int (length (filter (\<lambda>x. type_text x = T \<and> to_str (fld x (js ''realtime_result'')) = Inr R) xs))"
  using assms(1)
proof (induction xs)
  case (Cons x xs)
  then obtain r where r: "r \<in> set summary_results" "to_str (fld x (js ''realtime_result'')) = Inr r" by auto
  then have "row_key (fst (receipt_tag x)) = row_key (T, R) \<longleftrightarrow> type_text x = T \<and> r = R"
    using row_key_inj [of R "fst (receipt_tag x)" T] assms(2) by (auto simp: receipt_tag_def)
  with r Cons show ?case by (simp add: row_sum_Cons receipt_tag_def)
qed (simp add: row_sum_def)

text \<open>The rows of a well-formed list of counts.\<close>

definition count_tag :: "jsval \<Rightarrow> (jsstr \<times> jsstr) \<times> int" where
  "count_tag c = ((str_of (fld c (js ''action_type'')), str_of (fld c (js ''result''))), num_value (fld c (js ''count'')))"

lemma count_ok_fields:
  assumes "count_ok c"
  shows "fld c (js ''action_type'') = VStr (fst (fst (count_tag c)))" "fld c (js ''result'') = VStr (snd (fst (count_tag c)))"
    "fld c (js ''count'') = VNum (jint (snd (count_tag c)))" "0 < snd (count_tag c)" "snd (fst (count_tag c)) \<in> set summary_results"
    "\<not> nullish c" "c \<noteq> VHole"
proof -
  from assms obtain a n where a: "fld c (js ''action_type'') = VStr a" "fld c (js ''count'') = VNum n" "is_safe_int n" "1 \<le> num_int n"
    by (auto simp: count_ok_def is_text_def is_int_in_range_def split: jsval.splits)
  moreover from a(3) have "n = jint (num_int n)" by (cases n) (auto simp: is_safe_int_def jint_def num_int_def)
  ultimately show "fld c (js ''action_type'') = VStr (fst (fst (count_tag c)))" "fld c (js ''count'') = VNum (jint (snd (count_tag c)))"
    "0 < snd (count_tag c)" by (simp_all add: count_tag_def str_of_def num_value_def)
  show "fld c (js ''result'') = VStr (snd (fst (count_tag c)))" "snd (fst (count_tag c)) \<in> set summary_results"
    using assms by (auto simp: count_ok_def count_tag_def str_of_def summary_results_def)
  show "\<not> nullish c" "c \<noteq> VHole" using assms by (auto simp: count_ok_def is_obj_def nullish_def)
qed

lemma count_rows: "\<forall>c \<in> set cs. count_ok c \<Longrightarrow> rmap count_row cs = Inr (map row_val (map count_tag cs))"
proof -
  assume ok: "\<forall>c \<in> set cs. count_ok c"
  have "count_row c = Inr (row_val (count_tag c))" if "c \<in> set cs" for c
    using count_ok_fields [of c] ok that by (auto simp: count_row_def row_val_def)
  then show ?thesis using rmap_eq_map [of cs count_row "row_val \<circ> count_tag"] by simp
qed

lemma count_sum:
  assumes "\<forall>c \<in> set cs. count_ok c" "R \<in> set summary_results"
  shows "row_sum (map count_tag cs) (row_key (T, R)) =
    sum_list (map (\<lambda>c. num_value (fld c (js ''count''))) (filter (\<lambda>c. fld c (js ''action_type'') = VStr T \<and> fld c (js ''result'') = VStr R) cs))"
  using assms(1)
proof (induction cs)
  case (Cons c cs)
  then have c: "count_ok c" by simp
  note f = count_ok_fields [OF c]
  have "row_key (fst (count_tag c)) = row_key (T, R) \<longleftrightarrow> fld c (js ''action_type'') = VStr T \<and> fld c (js ''result'') = VStr R"
    using row_key_inj [OF assms(2) f(5), of T] f(1,2) by (cases "fst (count_tag c)") auto
  with Cons show ?case by (simp add: row_sum_Cons) (simp add: count_tag_def)
qed (simp add: row_sum_def)

lemma sum_list_le: "\<forall>c \<in> set cs. count_ok c \<Longrightarrow> length cs \<le> 500 \<Longrightarrow> sum_list (map snd (map count_tag cs)) \<le> max_safe"
proof -
  assume ok: "\<forall>c \<in> set cs. count_ok c" and l: "length cs \<le> 500"
  have "snd (count_tag c) \<le> max_count" if "c \<in> set cs" for c
    using ok that by (auto simp: count_ok_def count_tag_def num_value_def is_int_in_range_def split: jsval.splits)
  then have "sum_list (map (\<lambda>c. snd (count_tag c)) cs) \<le> sum_list (map (\<lambda>_. max_count) cs)" by (intro sum_list_mono)
  also have "\<dots> \<le> max_safe" using l by (simp add: sum_list_triv max_count_def max_safe_def)
  finally show ?thesis by (simp add: o_def)
qed

lemma coverage_facts:
  assumes "verify_summary_coverage e v receipts = Inr c" "sc_valid c"
  defines "p \<equiv> fld v (js ''payload'')" and "xs \<equiv> map (\<lambda>r. fld r (js ''payload'')) receipts"
  obtains root start ending a rs cs where
    "VNum (jint (int (length receipts))) = fld p (js ''receipt_count'')" "summary_root e xs = Inr root" "fld p (js ''receipts_root'') = VStr root"
    "date_of e (fld (fld p (js ''window'')) (js ''start'')) = Inr start" "date_of e (fld (fld p (js ''window'')) (js ''end'')) = Inr ending"
    "\<forall>x \<in> set xs. \<exists>t. date_of e (fld x (js ''timestamp'')) = Inr t \<and> time_within start ending t"
    "\<forall>x \<in> set xs. \<exists>r \<in> set summary_results. to_str (fld x (js ''realtime_result'')) = Inr r \<and> fld x (js ''override'') = VUndef"
    "rmap receipt_row xs = Inr rs" "rmap count_row (elems (fld p (js ''counts''))) = Inr cs" "totals rs = Inr a" "totals cs = Inr a"
proof -
  from assms(1,2) obtain start ending win routine a b where c:
    "VNum (jint (int (length xs))) = fld p (js ''receipt_count'')" "\<exists>root. summary_root e xs = Inr root \<and> VStr root = fld p (js ''receipts_root'')"
    "date_of e (fld (fld p (js ''window'')) (js ''start'')) = Inr start" "date_of e (fld (fld p (js ''window'')) (js ''end'')) = Inr ending"
    "every_o (\<lambda>x. rbind (date_of e (fld x (js ''timestamp''))) (\<lambda>t. Inr (time_within start ending t))) xs = Inr win"
    "every_o (\<lambda>x. rbind (to_str (fld x (js ''realtime_result''))) (\<lambda>r.
            Inr (r \<in> set summary_results \<and> fld x (js ''override'') = VUndef))) xs = Inr routine"
    "rbind (rmap receipt_row xs) totals = Inr a" "rbind (rmap count_row (elems (fld p (js ''counts'')))) totals = Inr b" "win" "routine" "a = b"
    unfolding verify_summary_coverage_def Let_def p_def [symmetric] xs_def [symmetric]
    by (auto simp: not_covered_def rbind_Inr_iff split: if_splits sum.splits)
  from c(5,9) have w: "\<forall>x \<in> set xs. \<exists>t. date_of e (fld x (js ''timestamp'')) = Inr t \<and> time_within start ending t"
    by (auto simp: every_o_True rbind_Inr_iff)
  from c(6,10) have r: "\<forall>x \<in> set xs. \<exists>r \<in> set summary_results. to_str (fld x (js ''realtime_result'')) = Inr r \<and> fld x (js ''override'') = VUndef"
    by (auto simp: every_o_True rbind_Inr_iff)
  from c(2) obtain root where root: "summary_root e xs = Inr root" "fld p (js ''receipts_root'') = VStr root" by auto
  from c(7,8) obtain rs cs where "rmap receipt_row xs = Inr rs" "rmap count_row (elems (fld p (js ''counts''))) = Inr cs"
    "totals rs = Inr a" "totals cs = Inr a" using c(11) by (auto simp: rbind_Inr_iff)
  with that [OF _ root c(3,4) w r] c(1) show ?thesis by (simp add: xs_def)
qed

lemma coverage_sound:
  assumes valid: "valid (validate_summary e v)" and cov: "verify_summary_coverage e v receipts = Inr c" "sc_valid c"
  defines "p \<equiv> fld v (js ''payload'')" and "xs \<equiv> map (\<lambda>r. fld r (js ''payload'')) receipts"
    and "cs \<equiv> elems (fld (fld v (js ''payload'')) (js ''counts''))"
  assumes plain: "\<forall>x \<in> set xs. 10 \<notin> set (type_text x)" "\<forall>k \<in> set cs. 10 \<notin> set (str_of (fld k (js ''action_type'')))"
  shows "int (length receipts) = num_value (fld p (js ''receipt_count''))"
    and "\<exists>root. summary_root e xs = Inr root \<and> fld p (js ''receipts_root'') = VStr root"
    and "\<exists>start ending. window_of e (fld p (js ''window'')) = Some (start, ending) \<and> (\<forall>x \<in> set xs. routine_inside e start ending x)"
    and "\<forall>T. \<forall>R \<in> set summary_results.
      int (length (filter (\<lambda>x. type_text x = T \<and> to_str (fld x (js ''realtime_result'')) = Inr R) xs)) =
      sum_list (map (\<lambda>k. num_value (fld k (js ''count''))) (filter (\<lambda>k. fld k (js ''action_type'') = VStr T \<and> fld k (js ''result'') = VStr R) cs))"
proof -
  from coverage_facts [OF cov] obtain root start ending a rs cr where f:
    "VNum (jint (int (length receipts))) = fld p (js ''receipt_count'')" "summary_root e xs = Inr root" "fld p (js ''receipts_root'') = VStr root"
    "date_of e (fld (fld p (js ''window'')) (js ''start'')) = Inr start" "date_of e (fld (fld p (js ''window'')) (js ''end'')) = Inr ending"
    "\<forall>x \<in> set xs. \<exists>t. date_of e (fld x (js ''timestamp'')) = Inr t \<and> time_within start ending t"
    "\<forall>x \<in> set xs. \<exists>r \<in> set summary_results. to_str (fld x (js ''realtime_result'')) = Inr r \<and> fld x (js ''override'') = VUndef"
    "rmap receipt_row xs = Inr rs" "rmap count_row cs = Inr cr" "totals rs = Inr a" "totals cr = Inr a"
    unfolding p_def xs_def cs_def .
  from valid have v: "\<forall>k \<in> set cs. count_ok k" "length cs \<le> 500" "is_int_in_range (fld p (js ''receipt_count'')) 1 max_count"
    "\<exists>a b. window_of e (fld p (js ''window'')) = Some (a, b) \<and> a \<le> b"
    using summary_shape [of e v] by (auto simp: p_def cs_def summary_head_def Let_def)
  show "int (length receipts) = num_value (fld p (js ''receipt_count''))" using f(1) [symmetric] by (simp add: num_value_def)
  show "\<exists>root. summary_root e xs = Inr root \<and> fld p (js ''receipts_root'') = VStr root" using f(2,3) by blast
  from v(4) obtain s t where w: "window_of e (fld p (js ''window'')) = Some (s, t)" by blast
  have st: "start = Some s" "ending = Some t" using window_dates [OF w] f(4,5) by simp_all
  then show "\<exists>start ending. window_of e (fld p (js ''window'')) = Some (start, ending) \<and> (\<forall>x \<in> set xs. routine_inside e start ending x)"
    using w f(6,7) by (force simp: routine_inside_def time_within_def split: option.splits)
  have rt: "\<forall>x \<in> set xs. \<exists>r \<in> set summary_results. to_str (fld x (js ''realtime_result'')) = Inr r" using f(7) by blast
  have eq: "totals (map row_val (map receipt_tag xs)) = totals (map row_val (map count_tag cs))"
    using f(8-11) receipt_rows(1) [OF rt] count_rows [OF v(1)] by simp
  have len: "int (length xs) \<le> max_safe"
    using f(1) v(3) by (auto simp: xs_def is_int_in_range_def max_count_def max_safe_def split: jsval.splits)
  have ones: "sum_list (map snd (map receipt_tag xs)) = int (length xs)" by (induction xs) (auto simp: receipt_tag_def)
  have pl: "\<forall>r \<in> set (map receipt_tag xs) \<union> set (map count_tag cs). 0 < snd r \<and> 10 \<notin> set (row_key (fst r))"
  proof (intro ballI)
    fix r assume r: "r \<in> set (map receipt_tag xs) \<union> set (map count_tag cs)"
    then have k: "snd (fst r) \<in> set summary_results" "0 < snd r"
      using receipt_rows(2) [OF rt] count_ok_fields(4,5) v(1) by auto
    moreover have "10 \<notin> set (fst (fst r))" using r plain by (auto simp: receipt_tag_def count_tag_def)
    ultimately show "0 < snd r \<and> 10 \<notin> set (row_key (fst r))" using summary_results_plain [OF k(1)] by (simp add: row_key_def)
  qed
  show "\<forall>T. \<forall>R \<in> set summary_results.
      int (length (filter (\<lambda>x. type_text x = T \<and> to_str (fld x (js ''realtime_result'')) = Inr R) xs)) =
      sum_list (map (\<lambda>k. num_value (fld k (js ''count''))) (filter (\<lambda>k. fld k (js ''action_type'') = VStr T \<and> fld k (js ''result'') = VStr R) cs))"
    using totals_inj [OF pl _ sum_list_le [OF v(1,2)] eq] len ones receipt_sum [OF rt] count_sum [OF v(1)] by simp
qed

text \<open>C23: a valid summary that covers a list of receipts tells the truth about them: there are as many as it says, its root is theirs,
  each of them is a routine action inside the window, and for every action type and result its counts add up to the number of
  receipts with that type and result. (No action type contains a line break, which the comparison of totals uses as a separator.)\<close>

theorem summary_covers:
  assumes "valid (validate_summary e v)" "verify_summary_coverage e v receipts = Inr c" "sc_valid c"
  defines "p \<equiv> fld v (js ''payload'')" and "xs \<equiv> map (\<lambda>r. fld r (js ''payload'')) receipts"
    and "cs \<equiv> elems (fld (fld v (js ''payload'')) (js ''counts''))"
  assumes "\<forall>x \<in> set xs. 10 \<notin> set (type_text x)" "\<forall>k \<in> set cs. 10 \<notin> set (str_of (fld k (js ''action_type'')))"
  shows "int (length receipts) = num_value (fld p (js ''receipt_count'')) \<and>
    (\<exists>root. summary_root e xs = Inr root \<and> fld p (js ''receipts_root'') = VStr root) \<and>
    (\<exists>start ending. window_of e (fld p (js ''window'')) = Some (start, ending) \<and> (\<forall>x \<in> set xs. routine_inside e start ending x)) \<and>
    (\<forall>T. \<forall>R \<in> set summary_results.
      int (length (filter (\<lambda>x. type_text x = T \<and> to_str (fld x (js ''realtime_result'')) = Inr R) xs)) =
      sum_list (map (\<lambda>k. num_value (fld k (js ''count''))) (filter (\<lambda>k. fld k (js ''action_type'') = VStr T \<and> fld k (js ''result'') = VStr R) cs)))"
  unfolding p_def xs_def cs_def
  by (intro conjI coverage_sound [OF assms(1-3)]) (use assms(7,8) in \<open>simp_all add: xs_def cs_def\<close>)

text \<open>The check can throw on JSON data although it is documented never to: a window whose start has a member \<open>toString\<close>, or a receipt
  whose time or result does, has no text.\<close>

theorem coverage_throws:
  "verify_summary_coverage e
     (VObj [(js ''payload'', VObj [(js ''window'', VObj [(js ''start'', VObj [(js ''toString'', VNum n)])]), (js ''counts'', VArr [])])]) []
   = Inl TypeErr"
  by (simp add: verify_summary_coverage_def js_simps date_of_def to_str.simps Let_def)

section \<open>A summary on concrete inputs\<close>

text \<open>One receipt, and the summary that covers it.\<close>

definition sum_env :: env where
  "sum_env = gate_env \<lparr> date_parse := (\<lambda>_. Some 0) \<rparr>"

definition midnight :: jsval where
  "midnight = VStr (js ''2026-01-01T00:00:00Z'')"

definition routine_payload :: jsval where
  "routine_payload = VObj [(js ''timestamp'', midnight), (js ''realtime_result'', VStr (js ''allow'')),
     (js ''intent'', VObj [(js ''action_type'', VStr (js ''pay''))])]"

definition one_count :: jsval where
  "one_count = VObj [(js ''action_type'', VStr (js ''pay'')), (js ''result'', VStr (js ''allow'')), (js ''program'', VNull),
     (js ''cwd_digest'', VNull), (js ''count'', VNum (jint 1))]"

definition summary_payload :: jsval where
  "summary_payload = VObj [(js ''type'', VStr (js ''scopebond:summary'')), (js ''version'', VStr (js ''1.0'')),
     (js ''canonicalization'', VStr (js ''RFC8785'')), (js ''evidence_class'', VStr (js ''summary'')),
     (js ''summary_id'', VStr (js ''summary-00000001'')),
     (js ''attester'', VObj [(js ''kind'', VStr (js ''gateway'')), (js ''kid'', VStr (js ''key:0123456789abcdef''))]),
     (js ''window'', VObj [(js ''kind'', VStr (js ''interval'')), (js ''start'', midnight), (js ''end'', midnight)]),
     (js ''receipt_count'', VNum (jint 1)), (js ''receipts_root'', VStr zero_hash), (js ''notable_count'', VNum (jint 0)),
     (js ''counts'', VArr [one_count]), (js ''dedupe'', VArr []), (js ''timestamp'', midnight)]"

definition summary_record :: jsval where
  "summary_record = VObj [(js ''payload'', summary_payload), (js ''signature'', VObj [(js ''alg'', VStr (js ''Ed25519'')), (js ''sig'', VStr (js ''c2ln''))])]"

lemma midnight_time [simp]: "is_time sum_env midnight" "at_time sum_env midnight = 0" "date_of sum_env midnight = Inr (Some 0)"
  by (simp_all add: is_time_def midnight_def at_time_def date_of_def sum_env_def time_re_def zone_re_def shape_re_def js_def is_digit_def)

lemma summary_fields [simp]:
  "fld summary_record (js ''payload'') = summary_payload"
  "fld summary_payload (js ''counts'') = VArr [one_count]" "fld summary_payload (js ''receipt_count'') = VNum (jint 1)"
  "fld summary_payload (js ''receipts_root'') = VStr zero_hash" "fld summary_payload (js ''dedupe'') = VArr []"
  "fld summary_payload (js ''window'') = VObj [(js ''kind'', VStr (js ''interval'')), (js ''start'', midnight), (js ''end'', midnight)]"
  by (simp_all add: summary_record_def summary_payload_def js_simps)

lemma one_count_ok [simp]: "count_ok one_count" "num_value (fld one_count (js ''count'')) = 1"
  by (simp_all add: count_ok_def one_count_def js_simps only_keys_def has_keys_def count_keys_def is_text_def summary_results_def
      is_int_in_range_def is_safe_jint max_safe_def max_count_def num_value_def)

lemma one_count_fields [simp]: "fld one_count (js ''action_type'') = VStr (js ''pay'')" "fld one_count (js ''result'') = VStr (js ''allow'')"
  "fld one_count (js ''count'') = VNum (jint 1)" "\<not> nullish one_count" "one_count \<noteq> VHole"
  by (simp_all add: one_count_def js_simps)

lemma summary_window: "window_of sum_env (fld summary_payload (js ''window'')) = Some (0, 0)"
  by (simp add: window_of_def) (simp add: js_simps only_keys_def)

lemma summary_head_ok: "summary_head sum_env summary_payload"
proof -
  have k: "kid_re (js ''key:0123456789abcdef'')" by (simp add: kid_re_def js_def is_lower_hex_def is_digit_def)
  show ?thesis
    unfolding summary_head_def Let_def
    by (simp add: is_hex_text_def)
      (simp add: summary_payload_def js_simps is_text_def attester_ok_def only_keys_def k is_int_in_range_def is_safe_jint max_safe_def max_count_def)
qed

lemma summary_valid: "valid (validate_summary sum_env summary_record)"
  unfolding summary_shape Let_def
  using summary_head_ok
  by (simp add: summary_window [simplified] elems_def is_arr_def num_value_def)
    (simp add: summary_record_def summary_payload_def js_simps only_keys_def has_keys_def signature_ok_def is_text_def payload_keys_def payload_required_def)

lemma sum_digest [simp]: "sha256 sum_env = sha256 gate_env"
  by (simp add: sum_env_def)

lemma routine_root: "summary_root sum_env [routine_payload] = Inr zero_hash"
proof -
  have "json_ok routine_payload" by (simp add: routine_payload_def midnight_def)
  then have "returns (canonical routine_payload)" by (simp only: canonical_returns)
  then obtain t where "canonical routine_payload = Inr t" by (auto simp: returns_iff)
  then show ?thesis using demo_tree by (simp add: summary_root_keys order_key_def key_leaf_def leaf_hash_def)
qed

lemma routine_fields [simp]: "fld routine_payload (js ''timestamp'') = midnight" "fld routine_payload (js ''realtime_result'') = VStr (js ''allow'')"
  "fld routine_payload (js ''override'') = VUndef" "fld (fld routine_payload (js ''intent'')) (js ''action_type'') = VStr (js ''pay'')"
  "is_obj routine_payload"
  by (simp_all add: routine_payload_def js_simps)

lemma nullish_str [simp]: "\<not> nullish (VStr t)"
  by (simp add: nullish_def)

lemma summary_covered:
  "\<exists>c. verify_summary_coverage sum_env summary_record [VObj [(js ''payload'', routine_payload)]] = Inr c \<and> sc_valid c"
proof -
  have p: "fld (VObj [(js ''payload'', routine_payload)]) (js ''payload'') = routine_payload" by (simp add: js_simps)
  have "rmap count_row [one_count] = rmap receipt_row [routine_payload]"
    by (simp add: count_row_def receipt_row_def or_else_def)
  moreover have "\<exists>a. rbind (rmap receipt_row [routine_payload]) totals = Inr a"
    by (simp add: receipt_row_def or_else_def totals_def js_add_def to_prim_def is_str_def prim_num_def Let_def)
  moreover have "truthy summary_payload" by (simp add: summary_payload_def)
  moreover have "fld (VObj [(js ''kind'', VStr (js ''interval'')), (js ''start'', midnight), (js ''end'', midnight)]) (js ''start'') = midnight"
    "fld (VObj [(js ''kind'', VStr (js ''interval'')), (js ''start'', midnight), (js ''end'', midnight)]) (js ''end'') = midnight"
    by (simp_all add: js_simps)
  ultimately show ?thesis
    by (auto simp: verify_summary_coverage_def p routine_root is_arr_def elems_def time_within_def summary_results_def Let_def)
qed

theorem summary_covers_witness:
  "int (length [VObj [(js ''payload'', routine_payload)]]) = num_value (fld summary_payload (js ''receipt_count''))"
proof -
  obtain c where c: "verify_summary_coverage sum_env summary_record [VObj [(js ''payload'', routine_payload)]] = Inr c" "sc_valid c"
    using summary_covered by blast
  have p: "fld (VObj [(js ''payload'', routine_payload)]) (js ''payload'') = routine_payload" by (simp add: js_simps)
  have "type_text routine_payload = js ''pay''" by (simp add: type_text_def or_else_def)
  moreover have "10 \<notin> set (js ''pay'')" by (simp add: js_def)
  ultimately show ?thesis
    using summary_covers [OF summary_valid c] by (simp add: p elems_def str_of_def)
qed

theorem summary_root_order_witness:
  "summary_root sum_env [routine_payload, summary_payload] = Inr zero_hash \<longleftrightarrow>
   summary_root sum_env [summary_payload, routine_payload] = Inr zero_hash"
  by (rule summary_root_order) simp

theorem summary_accepted_witness:
  "valid (validate_summary sum_env summary_record)"
  by (rule iffD2 [OF summary_accepted]) (rule iffD1 [OF summary_shape summary_valid])

end
