(* ===== verification/Auth.thy ===== *)
theory Auth
  imports Dispatch Summary
begin

section \<open>Authentication of requests and approvals\<close>

text \<open>
  \<^verbatim>\<open>packages/gateway/src/auth.ts\<close>: signed intents and approvals, the registry of principal keys, the live check of a request
  (\<open>authenticate_request\<close>) and the offline check of the evidence a receipt keeps (\<open>verify_evidence\<close>). An \<open>AuthorizationError\<close> is a
  \<open>Denied\<close> with its text and status; any other exception is a \<open>Threw\<close>. Node's key parsing (\<open>open_key\<close>), its Ed25519
  verification and the configured registry are parameters.
\<close>

subsection \<open>Outcomes\<close>

datatype failure = Denied jsstr nat | Threw exn

type_synonym 'a checked = "failure + 'a"

definition lift_o :: "'a outcome \<Rightarrow> 'a checked" where
  "lift_o r = (case r of Inl x \<Rightarrow> Inl (Threw x) | Inr y \<Rightarrow> Inr y)"

definition cbind :: "'a checked \<Rightarrow> ('a \<Rightarrow> 'b checked) \<Rightarrow> 'b checked" where
  "cbind r f = (case r of Inl x \<Rightarrow> Inl x | Inr y \<Rightarrow> f y)"

text \<open>\<open>if (bad) throw new AuthorizationError(text, status)\<close>.\<close>

definition deny_if :: "bool \<Rightarrow> jsstr \<Rightarrow> nat \<Rightarrow> 'a checked \<Rightarrow> 'a checked" where
  "deny_if bad t status r = (if bad then Inl (Denied t status) else r)"

lemma lift_o_Inr [simp]: "lift_o r = Inr x \<longleftrightarrow> r = Inr x"
  by (cases r) (simp_all add: lift_o_def)

lemma lift_o_simps [simp]: "lift_o (Inr x) = Inr x" "lift_o (Inl x) = Inl (Threw x)"
  by (simp_all add: lift_o_def)

lemma cbind_Inr [simp]: "cbind r f = Inr y \<longleftrightarrow> (\<exists>x. r = Inr x \<and> f x = Inr y)"
  by (cases r) (auto simp: cbind_def)

lemma cbind_simps [simp]: "cbind (Inr x) f = f x" "cbind (Inl e) f = Inl e"
  by (simp_all add: cbind_def)

lemma deny_if_Inr [simp]: "deny_if b t s r = Inr x \<longleftrightarrow> \<not> b \<and> r = Inr x"
  by (simp add: deny_if_def)

subsection \<open>Keys\<close>

record principal_key =
  pk_kid :: jsstr
  pk_pem :: jsstr
  pk_purposes :: "jsstr list"
  pk_status :: "jsstr option"
  pk_not_before :: "jsstr option"
  pk_not_after :: "jsstr option"

definition pk_revoked :: "principal_key \<Rightarrow> bool" where
  "pk_revoked r \<longleftrightarrow> pk_status r = Some (js ''revoked'')"

type_synonym registry = "jsstr \<Rightarrow> jsstr \<Rightarrow> principal_key option outcome"

text \<open>\<open>createPublicKey(pem)\<close>: whether the key is an Ed25519 key, and its export as a JWK.\<close>

record opened_key =
  ok_ed25519 :: bool
  ok_jwk :: jsval

type_synonym opener = "jsstr \<Rightarrow> opened_key outcome"

text \<open>The constructor of \<open>StaticPrincipalKeyRegistry\<close>: records of one id are merged, a revocation stays.\<close>

definition merge_key :: "principal_key \<Rightarrow> principal_key \<Rightarrow> principal_key" where
  "merge_key existing r =
     existing \<lparr> pk_purposes := rev (remdups (rev (pk_purposes existing @ pk_purposes r))),
       pk_status := (if pk_revoked r then Some (js ''revoked'') else pk_status existing) \<rparr>"

fun load_keys :: "(jsstr \<times> principal_key) list \<Rightarrow> principal_key list \<Rightarrow> (jsstr \<times> principal_key) list outcome" where
  "load_keys m [] = Inr m"
| "load_keys m (r # rs) =
     (case map_of m (pk_kid r) of
        None \<Rightarrow> load_keys (omap_set (pk_kid r) r m) rs
      | Some x \<Rightarrow>
          if pk_pem x \<noteq> pk_pem r then Inl TypeErr
          else load_keys (omap_set (pk_kid r) (merge_key x r) m) rs)"

definition static_registry :: "principal_key list \<Rightarrow> (jsstr \<times> principal_key) list outcome" where
  "static_registry rs = load_keys [] rs"

definition static_resolve :: "(jsstr \<times> principal_key) list \<Rightarrow> jsstr \<Rightarrow> jsstr \<Rightarrow> principal_key option" where
  "static_resolve m kid purpose =
     (case map_of m kid of None \<Rightarrow> None | Some r \<Rightarrow> if purpose \<notin> set (pk_purposes r) then None else Some r)"

subsection \<open>Shapes\<close>

definition has_exact_keys :: "jsval \<Rightarrow> string list \<Rightarrow> bool" where
  "has_exact_keys v expected \<longleftrightarrow> sort_strings (map fst (members v)) = sort_strings (map js expected)"

definition valid_identity :: "jsval \<Rightarrow> bool" where
  "valid_identity v \<longleftrightarrow>
     is_obj v \<and> has_exact_keys v [''alg'', ''kid''] \<and> fld v (js ''alg'') = VStr (js ''Ed25519'') \<and>
     (case fld v (js ''kid'') of VStr s \<Rightarrow> kid_re s | _ \<Rightarrow> False)"

definition id_unit :: "nat \<Rightarrow> bool" where
  "id_unit c \<longleftrightarrow> is_upper c \<or> is_lower c \<or> is_digit c \<or> c \<in> {46, 95, 58, 45}"

definition valid_id :: "jsval \<Rightarrow> bool" where
  "valid_id v \<longleftrightarrow> (case v of VStr s \<Rightarrow> 16 \<le> length s \<and> length s \<le> 200 \<and> list_all id_unit s | _ \<Rightarrow> False)"

definition is_signature :: "jsval \<Rightarrow> bool" where
  "is_signature v \<longleftrightarrow> (case v of VStr s \<Rightarrow> 40 \<le> length s | _ \<Rightarrow> False)"

definition validate_intent_authorization :: "env \<Rightarrow> jsval \<Rightarrow> bool" where
  "validate_intent_authorization e v =
     (let f = (\<lambda>k. fld v (js k)) in
      if \<not> is_obj v \<or> \<not> has_exact_keys v [''expires_at'', ''intent_hash'', ''issued_at'', ''request_id'', ''signature'', ''signer'', ''version'']
      then False
      else f ''version'' = VStr (js ''1.0'') \<and> valid_id (f ''request_id'') \<and> valid_time e (f ''issued_at'') \<and>
        valid_time e (f ''expires_at'') \<and> valid_identity (f ''signer'') \<and> is_hex_text (f ''intent_hash'') \<and> is_signature (f ''signature''))"

definition validate_signed_approval :: "env \<Rightarrow> jsval \<Rightarrow> bool" where
  "validate_signed_approval e v =
     (let f = (\<lambda>k. fld v (js k)); p = f ''policy_ref'' in
      if \<not> is_obj v \<or> \<not> has_exact_keys v [''approval_id'', ''approver'', ''decision'', ''expires_at'', ''intent_hash'', ''issued_at'',
          ''policy_ref'', ''signature'', ''version''] \<or> \<not> is_obj p
      then False
      else f ''version'' = VStr (js ''1.0'') \<and> valid_id (f ''approval_id'') \<and> valid_time e (f ''issued_at'') \<and>
        valid_time e (f ''expires_at'') \<and> valid_identity (f ''approver'') \<and> is_hex_text (f ''intent_hash'') \<and>
        has_exact_keys p [''digest'', ''id'', ''version''] \<and> (fld p (js ''id'') = VNull \<or> is_str (fld p (js ''id''))) \<and>
        is_int_in_range (fld p (js ''version'')) 1 max_safe \<and> is_hex_text (fld p (js ''digest'')) \<and>
        f ''decision'' = VStr (js ''approve'') \<and> is_signature (f ''signature''))"

definition validate_authorization_evidence :: "env \<Rightarrow> jsval \<Rightarrow> bool" where
  "validate_authorization_evidence e v =
     (let f = (\<lambda>k. fld v (js k)) in
      if \<not> is_obj v \<or> \<not> has_exact_keys v [''agent'', ''approval'', ''mode''] then False
      else if f ''mode'' = VStr (js ''insecure_development'') \<or> f ''mode'' = VStr (js ''boundary'') \<or> f ''mode'' = VStr (js ''pep'')
      then f ''agent'' = VNull \<and> f ''approval'' = VNull
      else f ''mode'' = VStr (js ''authenticated'') \<and> validate_intent_authorization e (f ''agent'') \<and>
        (f ''approval'' = VNull \<or> validate_signed_approval e (f ''approval'')))"

subsection \<open>Claims\<close>

definition pick_members :: "jsval \<Rightarrow> string list \<Rightarrow> jsval" where
  "pick_members v ks = VObj (map (\<lambda>k. (js k, fld v (js k))) ks)"

definition intent_claims :: "jsval \<Rightarrow> jsval" where
  "intent_claims v = pick_members v [''version'', ''request_id'', ''issued_at'', ''expires_at'', ''signer'', ''intent_hash'']"

definition signed_approval_claims :: "jsval \<Rightarrow> jsval" where
  "signed_approval_claims v = pick_members v [''version'', ''approval_id'', ''issued_at'', ''expires_at'', ''approver'', ''intent_hash'',
     ''policy_ref'', ''decision'']"

definition verify_claims :: "verifier \<Rightarrow> jsval \<Rightarrow> jsval \<Rightarrow> jsstr \<Rightarrow> bool" where
  "verify_claims ed claims sig pem =
     (case rbind (canonical claims) (\<lambda>t. ed (utf8 t) pem (str_of sig)) of Inl _ \<Rightarrow> False | Inr b \<Rightarrow> b)"

subsection \<open>Freshness and key resolution\<close>

definition assert_fresh :: "env \<Rightarrow> jsval \<Rightarrow> jsval \<Rightarrow> jsstr \<Rightarrow> jnum \<Rightarrow> jnum \<Rightarrow> unit checked" where
  "assert_fresh e issued_at expires_at now max_lifetime max_skew =
     (case (date_parse e (str_of issued_at), date_parse e (str_of expires_at), date_parse e now) of
        (Some issued, Some expires, Some current) \<Rightarrow>
          deny_if (jlt (jadd (jint current) max_skew) (jint issued)) (js ''authorization issued_at is in the future'') 401
            (deny_if (expires \<le> current) (js ''authorization expired'') 401
              (deny_if (expires \<le> issued \<or> jlt max_lifetime (jint (expires - issued))) (js ''authorization lifetime is invalid'') 401 (Inr ())))
      | _ \<Rightarrow> Inl (Denied (js ''invalid authorization timestamp'') 401))"

text \<open>\<open>Date.parse\<close> of an optional bound: \<open>None\<close> when there is none (or an empty one), \<open>Some None\<close> when it is no time.\<close>

definition bound_time :: "env \<Rightarrow> jsstr option \<Rightarrow> int option option" where
  "bound_time e b = (case b of None \<Rightarrow> None | Some s \<Rightarrow> if s = [] then None else Some (date_parse e s))"

definition too_early :: "env \<Rightarrow> int option \<Rightarrow> principal_key \<Rightarrow> bool" where
  "too_early e now r = (case (now, bound_time e (pk_not_before r)) of (Some t, Some (Some b)) \<Rightarrow> t < b | _ \<Rightarrow> False)"

definition too_late :: "env \<Rightarrow> int option \<Rightarrow> principal_key \<Rightarrow> bool" where
  "too_late e now r = (case (now, bound_time e (pk_not_after r)) of (Some t, Some (Some b)) \<Rightarrow> b \<le> t | _ \<Rightarrow> False)"

definition resolve_verified_key :: "env \<Rightarrow> opener \<Rightarrow> registry \<Rightarrow> jsstr \<Rightarrow> jsstr \<Rightarrow> jsstr \<Rightarrow> principal_key checked" where
  "resolve_verified_key e open_key keys kid purpose now =
     cbind (lift_o (keys kid purpose)) (\<lambda>found.
       case found of
         None \<Rightarrow> Inl (Denied (js ''unknown or revoked '' @ purpose @ js '' key'') 401)
       | Some r \<Rightarrow>
           deny_if (pk_revoked r) (js ''unknown or revoked '' @ purpose @ js '' key'') 401
           (deny_if (pk_kid r \<noteq> kid \<or> purpose \<notin> set (pk_purposes r)) (purpose @ js '' key scope mismatch'') 401
           (case open_key (pk_pem r) of
              Inl _ \<Rightarrow> Inl (Denied (js ''invalid '' @ purpose @ js '' public key'') 401)
            | Inr k \<Rightarrow>
                deny_if (\<not> ok_ed25519 k) (js ''invalid '' @ purpose @ js '' public key'') 401
                (cbind (lift_o (derive_kid e (ok_jwk k))) (\<lambda>d.
                  deny_if (d \<noteq> kid) (purpose @ js '' kid is not bound to its public key'') 401
                  (deny_if (bound_time e (pk_not_before r) = Some None) (purpose @ js '' key has an invalid notBefore'') 401
                  (deny_if (bound_time e (pk_not_after r) = Some None) (purpose @ js '' key has an invalid notAfter'') 401
                  (deny_if (too_early e (date_parse e now) r) (purpose @ js '' key is not active yet'') 401
                  (deny_if (too_late e (date_parse e now) r) (purpose @ js '' key has expired'') 401 (Inr r))))))))))"

subsection \<open>A request\<close>

record auth_config =
  ac_keys :: registry
  ac_max_lifetime :: "jnum option"
  ac_max_skew :: "jnum option"

definition lifetime_of :: "auth_config \<Rightarrow> jnum" where
  "lifetime_of c = (case ac_max_lifetime c of None \<Rightarrow> jint 300000 | Some x \<Rightarrow> x)"

definition skew_of :: "auth_config \<Rightarrow> jnum" where
  "skew_of c = (case ac_max_skew c of None \<Rightarrow> jint 30000 | Some x \<Rightarrow> x)"

definition evidence_of :: "jsval \<Rightarrow> jsval \<Rightarrow> jsval" where
  "evidence_of agent approval = VObj [(js ''mode'', VStr (js ''authenticated'')), (js ''agent'', agent), (js ''approval'', approval)]"

text \<open>The agent's part: the hash of the intent it is about.\<close>

definition authenticate_agent ::
  "env \<Rightarrow> opener \<Rightarrow> verifier \<Rightarrow> jsval \<Rightarrow> jsval \<Rightarrow> auth_config \<Rightarrow> jsstr \<Rightarrow> jsstr set \<Rightarrow> jsstr checked" where
  "authenticate_agent e open_key ed intent au c now used =
     (let f = (\<lambda>k. fld au (js k)); kid = fld (f ''signer'') (js ''kid'') in
      deny_if (\<not> validate_intent_authorization e au) (js ''a valid signed intent authorization is required'') 401
      (cbind (assert_fresh e (f ''issued_at'') (f ''expires_at'') now (lifetime_of c) (skew_of c)) (\<lambda>_.
        deny_if (str_of (f ''request_id'') \<in> used) (js ''authorization request_id has already been used'') 409
        (cbind (lift_o (intent_hash e intent)) (\<lambda>h.
          deny_if (f ''intent_hash'' \<noteq> VStr h) (js ''signed authorization does not match the submitted intent'') 401
          (deny_if (fld intent (js ''signer'') \<noteq> kid) (js ''intent signer does not match the authenticated agent key'') 401
          (cbind (resolve_verified_key e open_key (ac_keys c) (str_of kid) (js ''agent'') now) (\<lambda>r.
            deny_if (\<not> verify_claims ed (intent_claims au) (f ''signature'') (pk_pem r)) (js ''invalid agent signature'') 401
            (Inr h)))))))))"

definition authenticate_approval ::
  "env \<Rightarrow> opener \<Rightarrow> verifier \<Rightarrow> jsval \<Rightarrow> jsstr \<Rightarrow> auth_config \<Rightarrow> jsstr \<Rightarrow> jsval \<Rightarrow> jsstr set \<Rightarrow> (jsstr \<times> jsstr) checked" where
  "authenticate_approval e open_key ed ap h c now policy_ref used =
     (let f = (\<lambda>k. fld ap (js k)); kid = fld (f ''approver'') (js ''kid'') in
      deny_if (\<not> validate_signed_approval e ap) (js ''a valid signed approval is required'') 401
      (cbind (assert_fresh e (f ''issued_at'') (f ''expires_at'') now (lifetime_of c) (skew_of c)) (\<lambda>_.
        deny_if (str_of (f ''approval_id'') \<in> used) (js ''approval_id has already been used'') 409
        (deny_if (f ''intent_hash'' \<noteq> VStr h) (js ''approval does not match the submitted intent'') 401
        (cbind (lift_o (canonical (f ''policy_ref''))) (\<lambda>a. cbind (lift_o (canonical policy_ref)) (\<lambda>b.
          deny_if (a \<noteq> b) (js ''approval does not match the active policy'') 401
          (cbind (resolve_verified_key e open_key (ac_keys c) (str_of kid) (js ''approver'') now) (\<lambda>r.
            deny_if (\<not> verify_claims ed (signed_approval_claims ap) (f ''signature'') (pk_pem r)) (js ''invalid approval signature'') 401
            (Inr (str_of kid, h)))))))))))"

definition authenticate_request ::
  "env \<Rightarrow> opener \<Rightarrow> verifier \<Rightarrow> jsval \<Rightarrow> jsval \<Rightarrow> jsval \<Rightarrow> auth_config \<Rightarrow> jsstr \<Rightarrow> jsval \<Rightarrow> jsstr set \<Rightarrow> jsstr set \<Rightarrow>
     (jsval \<times> (jsstr \<times> jsstr) option) checked" where
  "authenticate_request e open_key ed intent au approval c now policy_ref used_requests used_approvals =
     cbind (authenticate_agent e open_key ed intent au c now used_requests) (\<lambda>h.
       if nullish approval then Inr (evidence_of au VNull, None)
       else cbind (authenticate_approval e open_key ed approval h c now policy_ref used_approvals) (\<lambda>p.
         Inr (evidence_of au approval, Some p)))"

subsection \<open>Evidence kept by a receipt\<close>

record authorization_verification =
  av_authorization :: bool
  av_agent :: bool
  av_approval :: "bool option"

definition valid_at :: "env \<Rightarrow> int option \<Rightarrow> jnum \<Rightarrow> jsval \<Rightarrow> jsval \<Rightarrow> bool" where
  "valid_at e moment max_lifetime issued_at expires_at =
     (case (date_parse e (str_of issued_at), date_parse e (str_of expires_at), moment) of
        (Some issued, Some expires, Some t) \<Rightarrow>
          issued \<le> t \<and> t < expires \<and> issued < expires \<and> jle (jint (expires - issued)) max_lifetime
      | _ \<Rightarrow> False)"

definition valid_record :: "env \<Rightarrow> opener \<Rightarrow> principal_key list \<Rightarrow> int option \<Rightarrow> jsstr \<Rightarrow> jsstr \<Rightarrow> principal_key option" where
  "valid_record e open_key records moment kid purpose =
     (case find (\<lambda>r. pk_kid r = kid \<and> purpose \<in> set (pk_purposes r)) records of
        None \<Rightarrow> None
      | Some r \<Rightarrow>
          if pk_revoked r then None
          else (case open_key (pk_pem r) of
             Inl _ \<Rightarrow> None
           | Inr k \<Rightarrow>
               if \<not> ok_ed25519 k \<or> derive_kid e (ok_jwk k) \<noteq> Inr kid then None
               else if too_early e moment r \<or> too_late e moment r then None else Some r))"

definition evidence_signature ::
  "env \<Rightarrow> opener \<Rightarrow> verifier \<Rightarrow> principal_key list \<Rightarrow> int option \<Rightarrow> jnum \<Rightarrow> jsval \<Rightarrow> jsval \<Rightarrow> jsval \<Rightarrow> jsstr \<Rightarrow> bool" where
  "evidence_signature e open_key ed records moment max_lifetime v identity claims purpose =
     (valid_at e moment max_lifetime (fld v (js ''issued_at'')) (fld v (js ''expires_at'')) \<and>
      (case valid_record e open_key records moment (str_of (fld identity (js ''kid''))) purpose of
         None \<Rightarrow> False
       | Some r \<Rightarrow> verify_claims ed claims (fld v (js ''signature'')) (pk_pem r)))"

definition verify_evidence ::
  "env \<Rightarrow> opener \<Rightarrow> verifier \<Rightarrow> jsval \<Rightarrow> jsval \<Rightarrow> jsval \<Rightarrow> jsval \<Rightarrow> jsval \<Rightarrow> principal_key list \<Rightarrow> jnum \<Rightarrow>
     authorization_verification outcome" where
  "verify_evidence e open_key ed ev authorized signer policy_ref timestamp records max_lifetime =
     (let agent = fld ev (js ''agent''); ap = fld ev (js ''approval'') in
      if \<not> validate_authorization_evidence e ev \<or> fld ev (js ''mode'') \<noteq> VStr (js ''authenticated'')
      then Inr \<lparr> av_authorization = False, av_agent = False, av_approval = None \<rparr>
      else rbind (date_of e timestamp) (\<lambda>moment.
        let a = fld agent (js ''intent_hash'') = authorized \<and> signer = fld (fld agent (js ''signer'')) (js ''kid'') \<and>
              evidence_signature e open_key ed records moment max_lifetime agent (fld agent (js ''signer'')) (intent_claims agent) (js ''agent'') in
        if ap = VNull then Inr \<lparr> av_authorization = a, av_agent = a, av_approval = None \<rparr>
        else rbind
          (if fld ap (js ''intent_hash'') \<noteq> authorized then Inr False
           else rbind (canonical (fld ap (js ''policy_ref''))) (\<lambda>x. rbind (canonical policy_ref) (\<lambda>y. Inr (x = y))))
          (\<lambda>bound.
            let b = bound \<and> evidence_signature e open_key ed records moment max_lifetime ap (fld ap (js ''approver'')) (signed_approval_claims ap) (js ''approver'') in
            Inr \<lparr> av_authorization = a \<and> b, av_agent = a, av_approval = Some b \<rparr>)))"

end
