(* ===== verification/AuthProps.thy ===== *)
theory AuthProps
  imports Auth AnchorDemo
begin

section \<open>What authentication promises\<close>

text \<open>
  When a request is let in; that the evidence it leaves verifies offline, and when it does not; and what merging key records does.
\<close>

subsection \<open>The registry\<close>

text \<open>What a map of merged records says of the records loaded so far.\<close>

definition loaded :: "(jsstr \<times> principal_key) list \<Rightarrow> principal_key set \<Rightarrow> bool" where
  "loaded m R \<longleftrightarrow> distinct (map fst m) \<and> fst ` set m = pk_kid ` R \<and>
     (\<forall>kid r. map_of m kid = Some r \<longrightarrow>
        pk_kid r = kid \<and> (\<forall>x \<in> R. pk_kid x = kid \<longrightarrow> pk_pem x = pk_pem r) \<and>
        (pk_revoked r \<longleftrightarrow> (\<exists>x \<in> R. pk_kid x = kid \<and> pk_revoked x)) \<and>
        (\<forall>p. p \<in> set (pk_purposes r) \<longleftrightarrow> (\<exists>x \<in> R. pk_kid x = kid \<and> p \<in> set (pk_purposes x))))"

lemma loadedD: "loaded m R \<Longrightarrow> map_of m kid = Some r \<Longrightarrow>
    pk_kid r = kid \<and> (\<forall>x \<in> R. pk_kid x = kid \<longrightarrow> pk_pem x = pk_pem r) \<and>
    (pk_revoked r \<longleftrightarrow> (\<exists>x \<in> R. pk_kid x = kid \<and> pk_revoked x)) \<and>
    (\<forall>p. p \<in> set (pk_purposes r) \<longleftrightarrow> (\<exists>x \<in> R. pk_kid x = kid \<and> p \<in> set (pk_purposes x)))"
  unfolding loaded_def by (elim conjE allE [of _ kid] allE [of _ r]) (erule mp)

lemma merge_key_sel [simp]: "pk_kid (merge_key x r) = pk_kid x" "pk_pem (merge_key x r) = pk_pem x"
  "set (pk_purposes (merge_key x r)) = set (pk_purposes x) \<union> set (pk_purposes r)" "pk_revoked (merge_key x r) \<longleftrightarrow> pk_revoked x \<or> pk_revoked r"
  by (auto simp: merge_key_def pk_revoked_def)

lemma keys_omap: "fst ` set (omap_set k v m) = insert k (fst ` set m)"
  using om.keys_set [of k v m] unfolding set_map .

lemma load_keys_loaded: "load_keys m rs = Inr m' \<Longrightarrow> loaded m R \<Longrightarrow> loaded m' (R \<union> set rs)"
proof (induction rs arbitrary: m R)
  case (Cons r rs)
  show ?case
  proof (cases "map_of m (pk_kid r)")
    case None
    then have new: "\<forall>x \<in> R. pk_kid x \<noteq> pk_kid r" using Cons.prems(2) unfolding loaded_def by (metis imageI map_of_eq_None_iff)
    have "loaded (omap_set (pk_kid r) r m) (insert r R)"
      using Cons.prems(2) new unfolding loaded_def by (auto simp: keys_omap om.distinct_set map_of_omap_set)
    from Cons.IH [OF _ this] Cons.prems(1) None show ?thesis by simp
  next
    case (Some x)
    with Cons.prems(1) have pem: "pk_pem x = pk_pem r" "load_keys (omap_set (pk_kid r) (merge_key x r) m) rs = Inr m'"
      by (auto split: if_splits)
    have "loaded (omap_set (pk_kid r) (merge_key x r) m) (insert r R)"
      using Cons.prems(2) Some pem(1) unfolding loaded_def by (auto simp: keys_omap om.distinct_set map_of_omap_set)
    from Cons.IH [OF pem(2) this] show ?thesis by simp
  qed
qed simp

lemma registry_loaded: "static_registry rs = Inr m \<Longrightarrow> loaded m (set rs)"
  using load_keys_loaded [of "[]" rs m "{}"] by (simp add: static_registry_def loaded_def)

text \<open>However key records are split and ordered, the registry answers for a key id and a purpose exactly when some record has
  both; the record it returns has the one public key all records of that id have, the purposes of all of them, and is
  revoked exactly when any of them is.\<close>

theorem registry_merges:
  assumes "static_registry rs = Inr m"
  shows "(static_resolve m kid p = None \<longleftrightarrow> (\<forall>x \<in> set rs. pk_kid x = kid \<longrightarrow> p \<notin> set (pk_purposes x))) \<and>
    (\<forall>r. static_resolve m kid p = Some r \<longrightarrow>
       pk_kid r = kid \<and> (\<forall>x \<in> set rs. pk_kid x = kid \<longrightarrow> pk_pem x = pk_pem r) \<and>
       (pk_revoked r \<longleftrightarrow> (\<exists>x \<in> set rs. pk_kid x = kid \<and> pk_revoked x)) \<and>
       (\<forall>q. q \<in> set (pk_purposes r) \<longleftrightarrow> (\<exists>x \<in> set rs. pk_kid x = kid \<and> q \<in> set (pk_purposes x))))"
proof -
  note l = registry_loaded [OF assms]
  have dom: "map_of m kid = None \<Longrightarrow> \<forall>x \<in> set rs. pk_kid x \<noteq> kid"
    using l unfolding loaded_def by (metis imageI map_of_eq_None_iff)
  show ?thesis
  proof (cases "map_of m kid")
    case None
    with dom show ?thesis by (auto simp: static_resolve_def)
  next
    case (Some r)
    then have r: "pk_kid r = kid \<and> (\<forall>x \<in> set rs. pk_kid x = kid \<longrightarrow> pk_pem x = pk_pem r) \<and>
        (pk_revoked r \<longleftrightarrow> (\<exists>x \<in> set rs. pk_kid x = kid \<and> pk_revoked x)) \<and>
        (\<forall>p. p \<in> set (pk_purposes r) \<longleftrightarrow> (\<exists>x \<in> set rs. pk_kid x = kid \<and> p \<in> set (pk_purposes x)))"
      by (rule loadedD [OF l])
    have s: "static_resolve m kid p = (if p \<in> set (pk_purposes r) then Some r else None)"
      by (simp add: static_resolve_def Some)
    show ?thesis
    proof (cases "p \<in> set (pk_purposes r)")
      case True
      then show ?thesis unfolding s using r by (simp add: True)
    next
      case False
      then show ?thesis unfolding s using r by (simp add: False)
    qed
  qed
qed

subsection \<open>Live\<close>

text \<open>The record of a key that may be used now.\<close>

definition usable_key :: "env \<Rightarrow> opener \<Rightarrow> registry \<Rightarrow> jsstr \<Rightarrow> jsstr \<Rightarrow> jsstr \<Rightarrow> principal_key \<Rightarrow> bool" where
  "usable_key e open_key keys kid purpose now r \<longleftrightarrow>
     keys kid purpose = Inr (Some r) \<and> \<not> pk_revoked r \<and> pk_kid r = kid \<and> purpose \<in> set (pk_purposes r) \<and>
     (\<exists>k. open_key (pk_pem r) = Inr k \<and> ok_ed25519 k \<and> derive_kid e (ok_jwk k) = Inr kid) \<and>
     bound_time e (pk_not_before r) \<noteq> Some None \<and> bound_time e (pk_not_after r) \<noteq> Some None \<and>
     \<not> too_early e (date_parse e now) r \<and> \<not> too_late e (date_parse e now) r"

lemma resolve_usable: "resolve_verified_key e open_key keys kid purpose now = Inr r \<longleftrightarrow> usable_key e open_key keys kid purpose now r"
proof (cases "keys kid purpose")
  case (Inr found)
  show ?thesis
  proof (cases found)
    case (Some x)
    with Inr show ?thesis
      by (cases "open_key (pk_pem x)") (auto simp: resolve_verified_key_def usable_key_def)
  qed (use Inr in \<open>simp add: resolve_verified_key_def usable_key_def\<close>)
qed (simp add: resolve_verified_key_def usable_key_def)

text \<open>An envelope that is fresh: issued no later than the tolerated skew, not expired, no longer than allowed.\<close>

definition fresh :: "env \<Rightarrow> jsval \<Rightarrow> jsstr \<Rightarrow> jnum \<Rightarrow> jnum \<Rightarrow> bool" where
  "fresh e v now max_lifetime max_skew \<longleftrightarrow>
     (\<exists>i x t. date_parse e (str_of (fld v (js ''issued_at''))) = Some i \<and> date_parse e (str_of (fld v (js ''expires_at''))) = Some x \<and>
        date_parse e now = Some t \<and> \<not> jlt (jadd (jint t) max_skew) (jint i) \<and> t < x \<and> i < x \<and> \<not> jlt max_lifetime (jint (x - i)))"

lemma assert_fresh_iff:
  "assert_fresh e (fld v (js ''issued_at'')) (fld v (js ''expires_at'')) now l s = Inr u \<longleftrightarrow> fresh e v now l s"
  by (auto simp: assert_fresh_def fresh_def split: option.splits)

definition agent_accepted :: "env \<Rightarrow> opener \<Rightarrow> verifier \<Rightarrow> jsval \<Rightarrow> jsval \<Rightarrow> auth_config \<Rightarrow> jsstr \<Rightarrow> jsstr set \<Rightarrow> jsstr \<Rightarrow> bool" where
  "agent_accepted e open_key ed intent au c now used h \<longleftrightarrow>
     (let kid = fld (fld au (js ''signer'')) (js ''kid'') in
      validate_intent_authorization e au \<and> fresh e au now (lifetime_of c) (skew_of c) \<and> str_of (fld au (js ''request_id'')) \<notin> used \<and>
      intent_hash e intent = Inr h \<and> fld au (js ''intent_hash'') = VStr h \<and> fld intent (js ''signer'') = kid \<and>
      (\<exists>r. usable_key e open_key (ac_keys c) (str_of kid) (js ''agent'') now r \<and>
         verify_claims ed (intent_claims au) (fld au (js ''signature'')) (pk_pem r)))"

definition approval_accepted :: "env \<Rightarrow> opener \<Rightarrow> verifier \<Rightarrow> jsval \<Rightarrow> jsstr \<Rightarrow> auth_config \<Rightarrow> jsstr \<Rightarrow> jsval \<Rightarrow> jsstr set \<Rightarrow> bool" where
  "approval_accepted e open_key ed ap h c now policy_ref used \<longleftrightarrow>
     (let kid = fld (fld ap (js ''approver'')) (js ''kid'') in
      validate_signed_approval e ap \<and> fresh e ap now (lifetime_of c) (skew_of c) \<and> str_of (fld ap (js ''approval_id'')) \<notin> used \<and>
      fld ap (js ''intent_hash'') = VStr h \<and>
      (\<exists>t. canonical (fld ap (js ''policy_ref'')) = Inr t \<and> canonical policy_ref = Inr t) \<and>
      (\<exists>r. usable_key e open_key (ac_keys c) (str_of kid) (js ''approver'') now r \<and>
         verify_claims ed (signed_approval_claims ap) (fld ap (js ''signature'')) (pk_pem r)))"

lemma authenticate_agent_iff: "authenticate_agent e open_key ed intent au c now used = Inr h \<longleftrightarrow> agent_accepted e open_key ed intent au c now used h"
  unfolding authenticate_agent_def agent_accepted_def Let_def
  by (auto simp: assert_fresh_iff resolve_usable)

lemma authenticate_approval_iff:
  "authenticate_approval e open_key ed ap h c now policy_ref used = Inr p \<longleftrightarrow>
     approval_accepted e open_key ed ap h c now policy_ref used \<and> p = (str_of (fld (fld ap (js ''approver'')) (js ''kid'')), h)"
  unfolding authenticate_approval_def approval_accepted_def Let_def
  by (auto simp: assert_fresh_iff resolve_usable)

lemma authenticate_request_iff:
  "authenticate_request e open_key ed intent au ap c now policy_ref used_r used_a = Inr (ev, p) \<longleftrightarrow>
     (\<exists>h. agent_accepted e open_key ed intent au c now used_r h \<and>
        (if nullish ap then ev = evidence_of au VNull \<and> p = None
         else approval_accepted e open_key ed ap h c now policy_ref used_a \<and> ev = evidence_of au ap \<and>
           p = Some (str_of (fld (fld ap (js ''approver'')) (js ''kid'')), h)))"
  unfolding authenticate_request_def
  by (auto simp: authenticate_agent_iff authenticate_approval_iff)

text \<open>C24: a request is let in exactly when its signed intent is well formed, fresh and unused, names the hash of the submitted intent and
  its signer, and verifies under that signer's usable key (registered for agents, not revoked, bound to its id, inside its period); and,
  when an approval is presented, the approval is well formed, fresh and unused, names the same intent and the active policy, and
  verifies under its approver's usable key.\<close>

theorem authenticate_request_correct:
  "authenticate_request e open_key ed intent au ap c now policy_ref used_r used_a = Inr (ev, p) \<longleftrightarrow>
     (\<exists>h. agent_accepted e open_key ed intent au c now used_r h \<and>
        (if nullish ap then ev = evidence_of au VNull \<and> p = None
         else approval_accepted e open_key ed ap h c now policy_ref used_a \<and> ev = evidence_of au ap \<and>
           p = Some (str_of (fld (fld ap (js ''approver'')) (js ''kid'')), h)))"
  by (rule authenticate_request_iff)

subsection \<open>Offline\<close>

lemma found_record:
  assumes "static_registry rs = Inr m" "static_resolve m kid p = Some r"
  shows "find (\<lambda>x. pk_kid x = kid \<and> p \<in> set (pk_purposes x)) (map snd m) = Some r"
proof -
  note l = registry_loaded [OF assms(1)]
  from assms(2) have r: "map_of m kid = Some r" "p \<in> set (pk_purposes r)"
    by (auto simp: static_resolve_def split: option.splits if_splits)
  have d: "distinct (map fst m)" using l by (simp add: loaded_def)
  have u: "pk_kid x = k" if "(k, x) \<in> set m" for k x
    using loadedD [OF l map_of_is_SomeI [OF d that]] by simp
  have "\<exists>x \<in> set (map snd m). pk_kid x = kid \<and> p \<in> set (pk_purposes x)"
    using r map_of_SomeD [OF r(1)] u by force
  then obtain x where x: "find (\<lambda>x. pk_kid x = kid \<and> p \<in> set (pk_purposes x)) (map snd m) = Some x"
    by (metis (mono_tags, lifting) find_None_iff not_None_eq)
  then obtain i where i: "i < length (map snd m)" "x = map snd m ! i" "pk_kid x = kid" by (auto simp: find_Some_iff)
  then have "x \<in> set (map snd m)" using nth_mem by blast
  then obtain k where "(k, x) \<in> set m" by auto
  with u i(3) have "(kid, x) \<in> set m" by auto
  with d r(1) have "x = r" by (simp add: map_of_is_SomeI)
  with x show ?thesis by simp
qed

lemma usable_valid:
  assumes "static_registry rs = Inr m" "usable_key e open_key (\<lambda>k q. Inr (static_resolve m k q)) kid p now r"
  shows "valid_record e open_key (map snd m) (date_parse e now) kid p = Some r"
  using assms(2) found_record [OF assms(1), of kid p r] by (auto simp: usable_key_def valid_record_def)

text \<open>A fresh envelope that was not issued in the future is valid at the moment it was judged.\<close>

definition issued_by :: "env \<Rightarrow> jsval \<Rightarrow> jsstr \<Rightarrow> bool" where
  "issued_by e v now \<longleftrightarrow> (\<forall>i t. date_parse e (str_of (fld v (js ''issued_at''))) = Some i \<longrightarrow> date_parse e now = Some t \<longrightarrow> i \<le> t)"

lemma fresh_valid_at:
  "fresh e v now l s \<Longrightarrow> issued_by e v now \<Longrightarrow> l \<noteq> NaN \<Longrightarrow>
     valid_at e (date_parse e now) l (fld v (js ''issued_at'')) (fld v (js ''expires_at''))"
  by (auto simp: fresh_def issued_by_def valid_at_def jle_def jint_def)

lemma evidence_fields [simp]:
  "fld (evidence_of a p) (js ''mode'') = VStr (js ''authenticated'')" "fld (evidence_of a p) (js ''agent'') = a"
  "fld (evidence_of a p) (js ''approval'') = p" "is_obj (evidence_of a p)" "has_exact_keys (evidence_of a p) [''agent'', ''approval'', ''mode'']"
proof -
  have "sort_strings (map fst (members (evidence_of a p))) = sort_strings (map js [''mode'', ''agent'', ''approval''])"
    by (simp add: evidence_of_def members_def)
  also have "\<dots> = sort_strings (map js [''agent'', ''approval'', ''mode''])"
    by (simp add: sort_strings_def js_def)
  finally show "has_exact_keys (evidence_of a p) [''agent'', ''approval'', ''mode'']" by (simp only: has_exact_keys_def)
qed (simp_all add: evidence_of_def js_simps)

lemma nullish_evidence: "validate_signed_approval e ap \<Longrightarrow> ap \<noteq> VNull"
  by (auto simp: validate_signed_approval_def is_obj_def)

lemma live_offline:
  assumes reg: "static_registry rs = Inr m" "ac_keys c = (\<lambda>k q. Inr (static_resolve m k q))"
    and live: "authenticate_request e open_key ed intent au ap c now policy_ref used_r used_a = Inr (ev, p)"
    and issued: "issued_by e au now" "nullish ap \<or> issued_by e ap now" and l: "lifetime_of c \<noteq> NaN"
  shows "\<exists>h v. intent_hash e intent = Inr h \<and>
    verify_evidence e open_key ed ev (VStr h) (fld intent (js ''signer'')) policy_ref (VStr now) (map snd m) (lifetime_of c) = Inr v \<and>
    av_authorization v"
proof -
  let ?at = "date_parse e now" and ?rec = "map snd m"
  from live obtain h where a: "agent_accepted e open_key ed intent au c now used_r h"
    and b: "if nullish ap then ev = evidence_of au VNull else approval_accepted e open_key ed ap h c now policy_ref used_a \<and> ev = evidence_of au ap"
    unfolding authenticate_request_iff by (auto split: if_splits)
  let ?kid = "fld (fld au (js ''signer'')) (js ''kid'')"
  from a obtain r where au: "validate_intent_authorization e au" "fresh e au now (lifetime_of c) (skew_of c)" "intent_hash e intent = Inr h"
    "fld au (js ''intent_hash'') = VStr h" "fld intent (js ''signer'') = ?kid"
    "usable_key e open_key (ac_keys c) (str_of ?kid) (js ''agent'') now r" "verify_claims ed (intent_claims au) (fld au (js ''signature'')) (pk_pem r)"
    by (auto simp: agent_accepted_def Let_def)
  have s: "evidence_signature e open_key ed ?rec ?at (lifetime_of c) au (fld au (js ''signer'')) (intent_claims au) (js ''agent'')"
    using usable_valid [OF reg(1) au(6) [unfolded reg(2)]] fresh_valid_at [OF au(2) issued(1) l] au(7)
    by (simp add: evidence_signature_def)
  have d: "date_of e (VStr now) = Inr ?at" by (simp add: date_of_def)
  show ?thesis
  proof (cases "nullish ap")
    case True
    with b have ev: "ev = evidence_of au VNull" by simp
    show ?thesis using au(1,3-5) s
      by (intro exI [of _ h]) (simp add: verify_evidence_def ev d validate_authorization_evidence_def Let_def)
  next
    case False
    with b have ev: "ev = evidence_of au ap" and ac: "approval_accepted e open_key ed ap h c now policy_ref used_a" by simp_all
    let ?akid = "fld (fld ap (js ''approver'')) (js ''kid'')"
    from ac obtain q t where q: "validate_signed_approval e ap" "fresh e ap now (lifetime_of c) (skew_of c)" "fld ap (js ''intent_hash'') = VStr h"
      "canonical (fld ap (js ''policy_ref'')) = Inr t" "canonical policy_ref = Inr t"
      "usable_key e open_key (ac_keys c) (str_of ?akid) (js ''approver'') now q"
      "verify_claims ed (signed_approval_claims ap) (fld ap (js ''signature'')) (pk_pem q)"
      by (auto simp: approval_accepted_def Let_def)
    have "evidence_signature e open_key ed ?rec ?at (lifetime_of c) ap (fld ap (js ''approver'')) (signed_approval_claims ap) (js ''approver'')"
      using usable_valid [OF reg(1) q(6) [unfolded reg(2)]] fresh_valid_at [OF q(2) _ l] issued(2) False q(7)
      by (simp add: evidence_signature_def)
    with au(1,3-5) s q(1,3,4,5) nullish_evidence [OF q(1)] show ?thesis
      by (intro exI [of _ h]) (simp add: verify_evidence_def ev d validate_authorization_evidence_def Let_def)
  qed
qed

text \<open>C25: what is let in live verifies offline. The evidence of an accepted request, checked later with the registry's records at the
  moment the request was judged, is valid, provided neither envelope was issued after that moment.\<close>

theorem live_evidence_verifies:
  assumes "static_registry rs = Inr m" "ac_keys c = (\<lambda>k q. Inr (static_resolve m k q))"
    and "authenticate_request e open_key ed intent au ap c now policy_ref used_r used_a = Inr (ev, p)"
    and "issued_by e au now" "nullish ap \<or> issued_by e ap now" "lifetime_of c \<noteq> NaN"
  shows "\<exists>h v. intent_hash e intent = Inr h \<and>
    verify_evidence e open_key ed ev (VStr h) (fld intent (js ''signer'')) policy_ref (VStr now) (map snd m) (lifetime_of c) = Inr v \<and>
    av_authorization v"
  by (rule live_offline [OF assms])

text \<open>The two checks differ on the tolerated clock skew. A request whose authorization was issued after the gateway's time, by
  no more than the skew it tolerates, can be let in, but the evidence it leaves is never valid at the time of the receipt.\<close>

theorem skewed_evidence_fails:
  assumes "authenticate_request e open_key ed intent au VNull c now policy_ref used_r used_a = Inr (ev, p)"
    and "date_parse e (str_of (fld au (js ''issued_at''))) = Some i" "date_parse e now = Some t" "t < i"
  shows "\<exists>v. verify_evidence e open_key ed ev authorized signer policy_ref (VStr now) records l = Inr v \<and> \<not> av_authorization v"
proof -
  from assms(1) obtain h where "agent_accepted e open_key ed intent au c now used_r h" and ev: "ev = evidence_of au VNull"
    unfolding authenticate_request_iff by (auto simp: nullish_def)
  then have au: "validate_intent_authorization e au" by (simp add: agent_accepted_def Let_def)
  have "\<not> evidence_signature e open_key ed records (date_parse e now) l au (fld au (js ''signer'')) (intent_claims au) (js ''agent'')"
    using assms(2-4) by (auto simp: evidence_signature_def valid_at_def split: option.splits)
  with au show ?thesis by (simp add: verify_evidence_def ev date_of_def validate_authorization_evidence_def Let_def)
qed

section \<open>A signed request on concrete inputs\<close>

text \<open>One agent key, one intent it signed, let in at its time of issue, and again by a gateway whose clock is a little behind.\<close>

definition zero_kid :: jsstr where
  "zero_kid = js ''key:'' @ take 16 zero_hash"

definition agent_key :: principal_key where
  "agent_key = \<lparr> pk_kid = zero_kid, pk_pem = js ''pem'', pk_purposes = [js ''agent''], pk_status = None, pk_not_before = None, pk_not_after = None \<rparr>"

definition open_pem :: opener where
  "open_pem _ = Inr \<lparr> ok_ed25519 = True, ok_jwk = VObj [(js ''crv'', VStr (js ''Ed25519'')), (js ''kty'', VStr (js ''OKP'')), (js ''x'', VStr (js ''x''))] \<rparr>"

definition plain_intent :: jsval where
  "plain_intent = VObj [(js ''signer'', VStr zero_kid)]"

definition signed_between :: "string \<Rightarrow> string \<Rightarrow> jsval" where
  "signed_between i x = VObj [(js ''version'', VStr (js ''1.0'')), (js ''request_id'', VStr (js ''request-00000001'')), (js ''issued_at'', VStr (js i)),
     (js ''expires_at'', VStr (js x)), (js ''signer'', VObj [(js ''kid'', VStr zero_kid), (js ''alg'', VStr (js ''Ed25519''))]),
     (js ''intent_hash'', VStr zero_hash), (js ''signature'', VStr (replicate 40 65))]"

definition auth_demo :: "jnum option \<Rightarrow> jnum option \<Rightarrow> auth_config" where
  "auth_demo l s = \<lparr> ac_keys = (\<lambda>k q. Inr (static_resolve [(zero_kid, agent_key)] k q)), ac_max_lifetime = l, ac_max_skew = s \<rparr>"

lemma zero_hash_replicate: "zero_hash = replicate 64 48"
proof -
  have "to_hex (replicate n 0) = replicate (2 * n) 48" for n
    by (induction n) (simp_all add: to_hex_def hex_byte_def hex_digit_def)
  from this [of 32] show ?thesis by (simp add: zero_hash_def)
qed

lemma zero_kid_re [simp]: "kid_re zero_kid"
  by (simp add: zero_kid_def kid_re_def zero_hash_replicate) (simp add: js_def is_lower_hex_def is_digit_def list_all_iff)

lemma zero_kid_plain [simp]: "\<not> has_lone_surrogate zero_kid"
  by (rule lone_plain) (auto simp: zero_kid_def zero_hash_replicate js_def)

lemma agent_registry: "static_registry [agent_key] = Inr [(zero_kid, agent_key)]"
  by (simp add: static_registry_def agent_key_def)

theorem registry_merges_witness:
  "static_resolve [(zero_kid, agent_key)] zero_kid (js ''approver'') = None"
proof -
  have "js ''approver'' \<noteq> js ''agent''" by (simp add: js_def)
  then show ?thesis
    using registry_merges [OF agent_registry, of zero_kid "js ''approver''"] by (simp add: agent_key_def)
qed

lemma signed_fields [simp]: "fld (signed_between i x) (js ''signer'') = VObj [(js ''kid'', VStr zero_kid), (js ''alg'', VStr (js ''Ed25519''))]"
  "fld (signed_between i x) (js ''issued_at'') = VStr (js i)" "fld (signed_between i x) (js ''expires_at'') = VStr (js x)"
  "fld (signed_between i x) (js ''intent_hash'') = VStr zero_hash" "fld (signed_between i x) (js ''request_id'') = VStr (js ''request-00000001'')"
  "fld (signed_between i x) (js ''signature'') = VStr (replicate 40 65)" "fld (signed_between i x) (js ''version'') = VStr (js ''1.0'')"
  "fld plain_intent (js ''signer'') = VStr zero_kid"
  by (simp_all add: signed_between_def plain_intent_def js_simps)

lemma fld_kid: "fld (VObj [(js ''kid'', k), a]) (js ''kid'') = k"
  by (cases a) (simp add: js_simps)

lemma signed_shape:
  "date_parse gate_env (js i) \<noteq> None \<Longrightarrow> date_parse gate_env (js x) \<noteq> None \<Longrightarrow> validate_intent_authorization gate_env (signed_between i x)"
proof -
  assume "date_parse gate_env (js i) \<noteq> None" "date_parse gate_env (js x) \<noteq> None"
  then have t: "valid_time gate_env (VStr (js i))" "valid_time gate_env (VStr (js x))" by (auto simp: valid_time_def)
  have k: "has_exact_keys (signed_between i x) [''expires_at'', ''intent_hash'', ''issued_at'', ''request_id'', ''signature'', ''signer'', ''version'']"
    by (simp add: has_exact_keys_def signed_between_def members_def sort_strings_def js_def)
  have i: "has_exact_keys (VObj [(js ''kid'', VStr zero_kid), (js ''alg'', VStr (js ''Ed25519''))]) [''alg'', ''kid'']"
    by (simp add: has_exact_keys_def members_def sort_strings_def js_def)
  have o: "is_obj (signed_between i x)" by (simp add: signed_between_def is_obj_def)
  have n: "valid_id (VStr (js ''request-00000001''))"     "is_hex_text (VStr zero_hash)" "is_signature (VStr (replicate 40 65))"
    by (simp_all add: valid_time_def is_hex_text_def is_signature_def) (simp add: valid_id_def js_def id_unit_def is_lower_def is_upper_def is_digit_def)
  have "valid_identity (VObj [(js ''kid'', VStr zero_kid), (js ''alg'', VStr (js ''Ed25519''))])"
    unfolding valid_identity_def using i by (simp add: js_simps is_obj_def)
  with k o n t show ?thesis unfolding validate_intent_authorization_def Let_def by simp
qed

lemma plain_hash: "intent_hash gate_env plain_intent = Inr zero_hash"
proof -
  have "json_ok plain_intent" by (simp add: plain_intent_def)
  then have "returns (canonical plain_intent)" by (simp only: canonical_returns)
  then show ?thesis by (auto simp: intent_hash_def returns_iff)
qed

lemma demo_key: "usable_key gate_env open_pem (ac_keys (auth_demo l s)) zero_kid (js ''agent'') now agent_key"
proof -
  let ?j = "VObj [(js ''crv'', VStr (js ''Ed25519'')), (js ''kty'', VStr (js ''OKP'')), (js ''x'', VStr (js ''x''))]"
  have "json_ok ?j" by simp
  then have "returns (canonical ?j)" by (simp only: canonical_returns)
  then have "derive_kid gate_env ?j = Inr zero_kid" by (auto simp: derive_kid_def returns_iff zero_kid_def js_simps)
  then show ?thesis
    by (simp add: usable_key_def auth_demo_def static_resolve_def open_pem_def bound_time_def too_early_def too_late_def pk_revoked_def agent_key_def split: option.splits)
qed

lemma claims_pass: "json_ok c \<Longrightarrow> verify_claims accept_all c s pem"
  using canonical_returns [of c] by (auto simp: verify_claims_def accept_all_def returns_iff)

lemma agent_demo_accepted:
  assumes "fresh gate_env (signed_between i x) now (lifetime_of (auth_demo l s)) (skew_of (auth_demo l s))"
  shows "authenticate_request gate_env open_pem accept_all plain_intent (signed_between i x) VNull (auth_demo l s) now VNull {} {} =
    Inr (evidence_of (signed_between i x) VNull, None)"
proof -
  have "json_ok (intent_claims (signed_between i x))" by (simp add: intent_claims_def pick_members_def)
  then have "verify_claims accept_all (intent_claims (signed_between i x)) (fld (signed_between i x) (js ''signature'')) (pk_pem agent_key)" by (rule claims_pass)
  moreover have "validate_intent_authorization gate_env (signed_between i x)" using assms by (intro signed_shape) (auto simp: fresh_def str_of_def)
  ultimately have "agent_accepted gate_env open_pem accept_all plain_intent (signed_between i x) (auth_demo l s) now {} zero_hash"
    unfolding agent_accepted_def Let_def using assms plain_hash demo_key [of l s now] by (auto simp: str_of_def fld_kid)
  then show ?thesis by (auto simp: authenticate_request_iff nullish_def)
qed

lemma fresh_then: "fresh gate_env (signed_between ''t0'' ''t1'') (js ''t0'') (lifetime_of (auth_demo None None)) (skew_of (auth_demo None None))"
proof -
  have "jadd (jint 0) (jint 30000) = rnd (of_int (0 + 30000))" by (simp add: jint_def)
  then have "\<not> jlt (jadd (jint 0) (jint 30000)) (jint 0)" by (simp only:) (subst jlt_rnd(1), simp_all)
  then show ?thesis by (simp add: fresh_def str_of_def jint_def lifetime_of_def skew_of_def auth_demo_def)
qed

theorem live_evidence_verifies_witness:
  "\<exists>h v. intent_hash gate_env plain_intent = Inr h \<and>
    verify_evidence gate_env open_pem accept_all (evidence_of (signed_between ''t0'' ''t1'') VNull) (VStr h) (fld plain_intent (js ''signer'')) VNull
      (VStr (js ''t0'')) (map snd [(zero_kid, agent_key)]) (lifetime_of (auth_demo None None)) = Inr v \<and> av_authorization v"
  by (rule live_evidence_verifies [OF agent_registry _ agent_demo_accepted [OF fresh_then]])
    (simp_all add: auth_demo_def issued_by_def nullish_def lifetime_of_def jint_def str_of_def)

text \<open>An authorization issued one minute after the gateway's time, where a skew of a minute is tolerated.\<close>

lemma fresh_ahead: "fresh gate_env (signed_between ''t1'' ''t9'') (js ''t0'')
    (lifetime_of (auth_demo (Some (jint 900000)) (Some (jint 60000)))) (skew_of (auth_demo (Some (jint 900000)) (Some (jint 60000))))"
proof -
  have "jadd (jint 0) (jint 60000) = rnd (of_int (0 + 60000))" by (simp add: jint_def)
  then have "\<not> jlt (jadd (jint 0) (jint 60000)) (jint 60000)" by (simp only:) (subst jlt_rnd(1), simp_all)
  then show ?thesis by (simp add: fresh_def str_of_def jint_def lifetime_of_def skew_of_def auth_demo_def)
qed

theorem skewed_evidence_fails_witness:
  "\<exists>v. verify_evidence gate_env open_pem accept_all (evidence_of (signed_between ''t1'' ''t9'') VNull) (VStr zero_hash) (VStr zero_kid) VNull
      (VStr (js ''t0'')) [agent_key] (jint 300000) = Inr v \<and> \<not> av_authorization v"
  by (rule skewed_evidence_fails [OF agent_demo_accepted [OF fresh_ahead], of 60000 0]) (simp_all add: str_of_def)

end
