(* ===== verification/Engine.thy ===== *)
theory Engine
  imports Violates
begin

section \<open>The policy engine of the gateway\<close>

text \<open>
  \<^verbatim>\<open>packages/gateway/src/engine.ts\<close>: the verdict of the evaluator on the action as if it had run, and what the gateway does about
  it. Prior receipts are objects, as the stores keep them.
\<close>

record engine_decision =
  ed_allow :: bool
  ed_result :: jsstr
  ed_verdict :: verdict
  ed_mode :: "jsstr option"

text \<open>\<open>countCooperative\<close>: a cooperative allow counts as executed while a cooperative decision is made.\<close>

definition count_cooperative :: "jsval \<Rightarrow> jsval" where
  "count_cooperative r =
     (if fld r (js ''executed'') \<noteq> VBool True \<and> fld (fld r (js ''execution'')) (js ''state'') = VStr (js ''cooperative_allow'')
      then VObj (omap_set (js ''executed'') (VBool True) (members r)) else r)"

record engine_request =
  er_intent :: jsval
  er_approval :: jsval
  er_intent_hash :: jsstr

definition candidate_receipt :: "engine_request \<Rightarrow> jsstr \<Rightarrow> jsval" where
  "candidate_receipt q ts =
     VObj [(js ''intent'', er_intent q), (js ''executed'', VBool True), (js ''timestamp'', VStr ts), (js ''intent_hash'', VStr (er_intent_hash q)),
       (js ''approval'', er_approval q)]"

definition approval_applied :: "jsval \<Rightarrow> engine_request \<Rightarrow> bool" where
  "approval_applied policy q \<longleftrightarrow>
     truthy (er_approval q) \<and>
     list_ex (\<lambda>c. is_type c ''require_approval'' \<and>
       is_arr (fld c (js ''action_types'')) \<and> listing c ''action_types'' (fld (er_intent q) (js ''action_type'')) \<and>
       is_arr (fld c (js ''approvers'')) \<and> listing c ''approvers'' (fld (er_approval q) (js ''approver''))) (clauses_of policy)"

definition named_clause :: "jsval \<Rightarrow> verdict \<Rightarrow> jsval option" where
  "named_clause policy v =
     find (\<lambda>c. fld c (js ''id'') = (case clause_id v of None \<Rightarrow> VNull | Some k \<Rightarrow> VStr k)) (clauses_of policy)"

definition violated_mode :: "jsval \<Rightarrow> verdict \<Rightarrow> jsstr" where
  "violated_mode policy v =
     (case named_clause policy v of
        None \<Rightarrow> js ''enforce''
      | Some c \<Rightarrow>
          if is_type c ''require_approval'' then js ''require_approval''
          else (case fld c (js ''mode'') of VStr m \<Rightarrow> m | _ \<Rightarrow> js ''enforce''))"

definition decision_of :: "jsval \<Rightarrow> engine_request \<Rightarrow> verdict \<Rightarrow> engine_decision" where
  "decision_of policy q v =
     (if undetermined v then \<lparr> ed_allow = False, ed_result = js ''deny'', ed_verdict = v, ed_mode = Some (js ''enforce'') \<rparr>
      else if \<not> violated v then
        (if approval_applied policy q
         then \<lparr> ed_allow = True, ed_result = js ''approved'', ed_verdict = v, ed_mode = Some (js ''require_approval'') \<rparr>
         else \<lparr> ed_allow = True, ed_result = js ''allow'', ed_verdict = v, ed_mode = None \<rparr>)
      else (let m = violated_mode policy v in
        if m = js ''monitor'' then \<lparr> ed_allow = True, ed_result = js ''deny'', ed_verdict = v, ed_mode = Some m \<rparr>
        else if m = js ''require_approval'' then \<lparr> ed_allow = False, ed_result = js ''timeout'', ed_verdict = v, ed_mode = Some m \<rparr>
        else \<lparr> ed_allow = False, ed_result = js ''deny'', ed_verdict = v, ed_mode = Some m \<rparr>))"

definition engine_evaluate :: "env \<Rightarrow> jsval \<Rightarrow> jsval list \<Rightarrow> engine_request \<Rightarrow> jsstr \<Rightarrow> bool option \<Rightarrow> bool \<Rightarrow> engine_decision outcome" where
  "engine_evaluate e policy prior q ts whole cooperative =
     rbind (violates e policy (VArr (if cooperative then map count_cooperative prior else prior)) (candidate_receipt q ts)
              \<lparr> opt_at = Some ts, opt_complete = whole \<rparr>)
       (\<lambda>v. Inr (decision_of policy q v))"

end
