(* ===== verification/Receipt.thy ===== *)
theory Receipt
  imports Auth Violates
begin

section \<open>The receipt contract\<close>

text \<open>
  \<^verbatim>\<open>packages/gateway/src/receipts.ts\<close>: the shape of a receipt's payload and of its optional members, the verifier of a signed receipt, the
  minimization of an intent before it is signed, and the two builders of receipts. Payloads are JSON values, because the verifier reads
  receipts it has not made. \<open>String(v)\<close> of unchecked data may throw, so the contract is an outcome. Parameters: Node's key parsing
  (\<open>open_key\<close>), its check of a signature value (\<open>ed\<close>: the decoding of a value that is no string included), the
  attester's \<open>sign\<close>, and the scrubber of secrets inside strings (\<open>scrub\<close>, \<^verbatim>\<open>scrub.ts\<close>).
\<close>

subsection \<open>Optional members\<close>

definition has_only_keys :: "jsval \<Rightarrow> string list \<Rightarrow> bool" where
  "has_only_keys v allowed \<longleftrightarrow> length (members v) \<le> length allowed \<and> list_all (\<lambda>k. k \<in> set (map js allowed)) (map fst (members v))"

definition member_ok :: "jsval \<Rightarrow> string \<Rightarrow> (jsval \<Rightarrow> bool) \<Rightarrow> bool" where
  "member_ok v k P \<longleftrightarrow> fld v (js k) = VUndef \<or> P (fld v (js k))"

definition one_of :: "jsval \<Rightarrow> string list \<Rightarrow> bool" where
  "one_of v ks \<longleftrightarrow> (case v of VStr s \<Rightarrow> s \<in> set (map js ks) | _ \<Rightarrow> False)"

text \<open>The fixed expressions: a class of units and the number of them.\<close>

definition all_units :: "(nat \<Rightarrow> bool) \<Rightarrow> nat \<Rightarrow> nat \<Rightarrow> jsstr \<Rightarrow> bool" where
  "all_units P lo hi s \<longleftrightarrow> lo \<le> length s \<and> length s \<le> hi \<and> list_all P s"

definition str_sat :: "jsval \<Rightarrow> (jsstr \<Rightarrow> bool) \<Rightarrow> bool" where
  "str_sat v P \<longleftrightarrow> (case v of VStr s \<Rightarrow> P s | _ \<Rightarrow> False)"

definition override_keys :: "string list" where
  "override_keys = [''version'', ''rule'', ''method'', ''state'', ''repeat_of'', ''reason_digest'', ''reason_length'', ''os_user_digest'', ''decided_at'']"

definition override_rule :: "jsstr \<Rightarrow> bool" where
  "override_rule = all_units (\<lambda>c. is_lower c \<or> is_digit c \<or> c = 45) 1 64"

definition validate_override_record :: "env \<Rightarrow> jsval \<Rightarrow> bool" where
  "validate_override_record e v =
     (let f = (\<lambda>k. fld v (js k)) in
      is_obj v \<and> has_only_keys v override_keys \<and> length (members v) = length override_keys \<and>
      strict_eq (f ''version'') (VNum (jint 1)) \<and> str_sat (f ''rule'') override_rule \<and>
      one_of (f ''method'') [''agent_dialog'', ''harness_prompt'', ''allowance''] \<and> one_of (f ''state'') [''allowed'', ''offered''] \<and>
      (f ''repeat_of'' = VNull \<or> is_text (f ''repeat_of'') 16 200) \<and>
      (f ''os_user_digest'' = VNull \<or> is_hex_text (f ''os_user_digest'')) \<and>
      valid_time e (f ''decided_at'') \<and>
      (if one_of (f ''method'') [''agent_dialog'', ''allowance''] then
         f ''state'' = VStr (js ''allowed'') \<and>
         ((is_hex_text (f ''reason_digest'') \<and> is_int_in_range (f ''reason_length'') 1 500) \<or>
          (f ''reason_digest'' = VNull \<and> strict_eq (f ''reason_length'') (VNum (jint 0)))) \<and>
         (f ''method'' = VStr (js ''agent_dialog'') \<or> is_str (f ''repeat_of''))
       else f ''state'' = VStr (js ''offered'') \<and> f ''reason_digest'' = VNull \<and> f ''reason_length'' = VNull \<and> f ''repeat_of'' = VNull))"

text \<open>\<open>[...s].length\<close>: a surrogate pair counts once.\<close>

fun code_points :: "jsstr \<Rightarrow> nat" where
  "code_points [] = 0"
| "code_points [c] = 1"
| "code_points (c # d # s) = (if hi_surrogate c \<and> lo_surrogate d then Suc (code_points s) else Suc (code_points (d # s)))"

definition context_max :: "(string \<times> nat) list" where
  "context_max = [(''harness'', 40), (''harness_version'', 64), (''model'', 128), (''session_id'', 200), (''repository'', 200), (''branch'', 200)]"

definition receipt_context_keys :: "string list" where
  "receipt_context_keys = [''harness'', ''harness_version'', ''model'', ''session_id'', ''repository'', ''branch'']"

definition repo_unit :: "nat \<Rightarrow> bool" where
  "repo_unit c \<longleftrightarrow> is_upper c \<or> is_lower c \<or> is_digit c \<or> c \<in> {46, 95, 126, 37, 43, 45}"

text \<open>The classes exclude the slash, so the expression reads the parts between slashes.\<close>

definition context_repository :: "jsstr \<Rightarrow> bool" where
  "context_repository s \<longleftrightarrow>
     (case js_split 47 s of
        (c # r) # ps \<Rightarrow> (is_lower c \<or> is_digit c) \<and> list_all (\<lambda>x. is_lower x \<or> is_digit x \<or> x = 46 \<or> x = 45) r \<and>
          2 \<le> length ps \<and> list_all (\<lambda>p. p \<noteq> [] \<and> list_all repo_unit p) ps
      | _ \<Rightarrow> False)"

definition is_dot_segment :: "jsstr \<Rightarrow> bool" where
  "is_dot_segment p \<longleftrightarrow> p = js ''.'' \<or> p = js ''..'' \<or> take 3 p = js ''%2e'' \<or> take 3 p = js ''%2E''"

definition context_member :: "string \<Rightarrow> nat \<Rightarrow> jsval \<Rightarrow> bool" where
  "context_member k most v \<longleftrightarrow>
     v = VNull \<or>
     str_sat v (\<lambda>s. 1 \<le> code_points s \<and> code_points s \<le> most \<and> (k = ''harness'' \<longrightarrow> harness_re s) \<and>
       (k = ''repository'' \<longrightarrow> context_repository s \<and> \<not> list_ex is_dot_segment (drop 1 (js_split 47 s))))"

definition validate_receipt_context :: "jsval \<Rightarrow> bool" where
  "validate_receipt_context v \<longleftrightarrow>
     is_obj v \<and> has_only_keys v receipt_context_keys \<and>
     list_all (\<lambda>(k, most). has_own v (js k) \<longrightarrow> context_member k most (fld v (js k))) context_max"

definition receipt_budget_keys :: "string list" where
  "receipt_budget_keys = [''version'', ''scope'', ''budget_id'', ''budget_version'', ''mode'', ''operation'', ''count'', ''max'', ''state'']"

definition word_unit :: "nat \<Rightarrow> bool" where
  "word_unit c \<longleftrightarrow> is_lower c \<or> is_digit c \<or> c = 95"

definition budget_operation :: "jsstr \<Rightarrow> bool" where
  "budget_operation s \<longleftrightarrow>
     (case js_split 46 s of
        (c # r) # ps \<Rightarrow> is_lower c \<and> list_all word_unit r \<and> ps \<noteq> [] \<and> list_all (\<lambda>p. p \<noteq> [] \<and> list_all word_unit p) ps
      | _ \<Rightarrow> False)"

definition budget_states :: "string list" where
  "budget_states = [''within'', ''at_limit'', ''over'', ''unavailable'']"

definition validate_receipt_budget :: "jsval \<Rightarrow> bool" where
  "validate_receipt_budget v =
     (let f = (\<lambda>k. fld v (js k)) in
      is_obj v \<and> has_only_keys v receipt_budget_keys \<and> length (members v) = length receipt_budget_keys \<and>
      strict_eq (f ''version'') (VNum (jint 1)) \<and> f ''scope'' = VStr (js ''session'') \<and> str_sat (f ''budget_id'') (all_units id_unit 8 128) \<and>
      is_int_in_range (f ''budget_version'') 1 2147483647 \<and> one_of (f ''mode'') [''enforce'', ''monitor''] \<and>
      str_sat (f ''operation'') (\<lambda>s. length s \<le> 64 \<and> budget_operation s) \<and>
      is_int_in_range (f ''count'') 0 1000001 \<and> is_int_in_range (f ''max'') 0 1000000 \<and> one_of (f ''state'') budget_states)"

subsection \<open>What a plugin gave\<close>

definition valid_pattern_id :: "jsval \<Rightarrow> bool" where
  "valid_pattern_id v = is_hex_text v"

definition intel_max_length :: nat where
  "intel_max_length = 5464"

definition b64_unit :: "nat \<Rightarrow> bool" where
  "b64_unit c \<longleftrightarrow> is_upper c \<or> is_lower c \<or> is_digit c \<or> c = 43 \<or> c = 47"

fun intel_slot :: "jsstr \<Rightarrow> bool" where
  "intel_slot [] = True"
| "intel_slot (a # b # c # d # s) =
     (b64_unit a \<and> b64_unit b \<and>
      (if s = [] \<and> d = 61 then c = 61 \<or> b64_unit c else b64_unit c \<and> b64_unit d \<and> intel_slot s))"
| "intel_slot _ = False"

definition valid_intel_slot :: "jsval \<Rightarrow> bool" where
  "valid_intel_slot v = str_sat v (\<lambda>s. 4 \<le> length s \<and> length s \<le> intel_max_length \<and> intel_slot s \<and>
     (length s < intel_max_length \<or> ends_with s (js ''=='')))"

definition validate_receipt_intel :: "jsval \<Rightarrow> bool" where
  "validate_receipt_intel v \<longleftrightarrow>
     is_obj v \<and> has_only_keys v [''pattern_id'', ''intel''] \<and> member_ok v ''pattern_id'' valid_pattern_id \<and> member_ok v ''intel'' valid_intel_slot"

definition given :: "jsval \<Rightarrow> string \<Rightarrow> (jsstr \<times> jsval) list" where
  "given v k = (if fld v (js k) = VUndef then [] else [(js k, fld v (js k))])"

definition receipt_intel_members :: "jsval \<Rightarrow> (jsstr \<times> jsval) list" where
  "receipt_intel_members v = (if \<not> truthy v then [] else given v ''pattern_id'' @ given v ''intel'')"

subsection \<open>The clause a verdict matched\<close>

definition match_results :: "string list" where
  "match_results = [''deny'', ''approved'', ''timeout'']"

definition bound_unit :: "nat \<Rightarrow> bool" where
  "bound_unit c \<longleftrightarrow> is_upper c \<or> is_lower c \<or> is_digit c \<or> c \<in> {95, 46, 45}"

text \<open>The first class excludes the colon, so the expression reads what is before and after the first one.\<close>

definition failed_bound_re :: "jsstr \<Rightarrow> bool" where
  "failed_bound_re s \<longleftrightarrow>
     58 \<in> set s \<and> all_units bound_unit 1 64 (takeWhile (\<lambda>c. c \<noteq> 58) s) \<and>
     all_units (\<lambda>c. is_lower c \<or> c = 95) 1 32 (drop 1 (dropWhile (\<lambda>c. c \<noteq> 58) s))"

definition valid_clause_id :: "jsval \<Rightarrow> bool" where
  "valid_clause_id v = is_text v 1 200"

definition receipt_match :: "verdict option \<Rightarrow> jsstr \<Rightarrow> (jsstr \<times> jsval) list" where
  "receipt_match v result =
     (case v of
        None \<Rightarrow> []
      | Some d \<Rightarrow>
          (case clause_id d of
             None \<Rightarrow> []
           | Some c \<Rightarrow>
               if result \<notin> set (map js match_results) \<or> \<not> (violated d \<or> undetermined d) \<or> \<not> valid_clause_id (VStr c) then []
               else (js ''clause_id'', VStr c) #
                 (case failed_bound d of
                    None \<Rightarrow> []
                  | Some b \<Rightarrow> if failed_bound_re b then [(js ''failed_bound'', VStr b)] else [])))"

definition validate_receipt_match :: "jsval \<Rightarrow> bool outcome" where
  "validate_receipt_match p =
     (let has_bound = (fld p (js ''failed_bound'') \<noteq> VUndef) in
      if fld p (js ''clause_id'') = VUndef then Inr (\<not> has_bound)
      else if \<not> valid_clause_id (fld p (js ''clause_id'')) then Inr False
      else rbind (to_str (fld p (js ''realtime_result''))) (\<lambda>r.
        Inr (r \<in> set (map js match_results) \<and> (\<not> has_bound \<or> str_sat (fld p (js ''failed_bound'')) failed_bound_re))))"

subsection \<open>The evidence class\<close>

definition evidence_classes :: "string list" where
  "evidence_classes = [''signed_intent'', ''pep_authorized'', ''boundary'']"

definition boundary_gates :: "string list" where
  "boundary_gates = [''merge'', ''deploy'', ''egress'', ''platform_event'']"

definition classify_evidence_class :: "jsval \<Rightarrow> jsval" where
  "classify_evidence_class p =
     (if truthy (fld p (js ''evidence_class'')) then fld p (js ''evidence_class'')
      else if truthy (fld (fld p (js ''authorization'')) (js ''agent'')) then VStr (js ''signed_intent'') else VStr (js ''pep_authorized''))"

definition pep_principal_ok :: "jsval \<Rightarrow> bool" where
  "pep_principal_ok v \<longleftrightarrow>
     is_obj v \<and> has_only_keys v [''subject'', ''issuer''] \<and> str_sat (fld v (js ''subject'')) (\<lambda>s. s \<noteq> []) \<and>
     str_sat (fld v (js ''issuer'')) (\<lambda>s. s \<noteq> [])"

definition boundary_ok :: "jsval \<Rightarrow> bool" where
  "boundary_ok v =
     (let who = fld v (js ''attribution'') in
      is_obj v \<and> has_only_keys v [''gate'', ''outcome_ref'', ''attribution''] \<and> one_of (fld v (js ''gate'')) boundary_gates \<and>
      str_sat (fld v (js ''outcome_ref'')) (\<lambda>s. s \<noteq> []) \<and> is_obj who \<and> has_only_keys who [''kind'', ''actor''] \<and>
      one_of (fld who (js ''kind'')) [''asserted'', ''inferred''] \<and> str_sat (fld who (js ''actor'')) (\<lambda>s. s \<noteq> []))"

definition evidence_class_valid :: "jsval \<Rightarrow> bool" where
  "evidence_class_valid p =
     (let cls = fld p (js ''evidence_class''); has_principal = (fld p (js ''principal'') \<noteq> VUndef); has_boundary = (fld p (js ''boundary'') \<noteq> VUndef) in
      if cls \<noteq> VUndef \<and> \<not> one_of cls evidence_classes then False
      else if cls = VStr (js ''pep_authorized'') then \<not> has_boundary \<and> pep_principal_ok (fld p (js ''principal''))
      else if cls = VStr (js ''boundary'') then \<not> has_principal \<and> boundary_ok (fld p (js ''boundary''))
      else \<not> has_principal \<and> \<not> has_boundary)"

subsection \<open>The payload\<close>

definition realtime_results :: "string list" where
  "realtime_results = [''allow'', ''deny'', ''approved'', ''timeout'', ''not_evaluated'']"

text \<open>\<open>assertionForState\<close>; its keys are \<open>EXECUTION_STATES\<close>, and its values, with those, are \<open>ASSERTIONS\<close>.\<close>

definition assertion_for_state :: "(jsstr \<times> jsstr) list" where
  "assertion_for_state =
     [(js ''simulated'', js ''gateway_simulation''), (js ''observed_not_evaluated'', js ''none''), (js ''denied'', js ''none''),
      (js ''allowed_pending'', js ''none''), (js ''cooperative_allow'', js ''none''), (js ''executed'', js ''adapter_reported_success''),
      (js ''failed'', js ''adapter_reported_failure''), (js ''outcome_unknown'', js ''adapter_outcome_unknown''), (js ''observed_after'', js ''none'')]"

definition is_safe_number :: "jsval \<Rightarrow> bool" where
  "is_safe_number v = is_int_in_range v (- max_safe) max_safe"

definition legacy_keys :: "string list" where
  "legacy_keys = [''type'', ''intent'', ''intent_hash'', ''policy_hash'', ''policy_version'', ''verifier_version'',
     ''realtime_result'', ''executed'', ''execution_ref'', ''approval'', ''attester'', ''timestamp'']"

definition validate_legacy_payload :: "env \<Rightarrow> jsval \<Rightarrow> bool outcome" where
  "validate_legacy_payload e p =
     (let f = (\<lambda>k. fld p (js k)) in
      if \<not> (is_obj p \<and> is_obj (f ''intent'') \<and> is_obj (f ''attester'') \<and> has_only_keys p legacy_keys \<and>
          has_only_keys (f ''attester'') [''kind'', ''kid''] \<and> f ''type'' = VStr (js ''scopebond:receipt'') \<and>
          str_sat (fld (f ''intent'') (js ''action_type'')) (\<lambda>s. s \<noteq> []) \<and> is_str (f ''intent_hash'') \<and> is_str (f ''policy_hash'') \<and>
          is_int_in_range (f ''policy_version'') 1 max_safe \<and> is_str (f ''verifier_version''))
      then Inr False
      else rbind (to_str (f ''realtime_result'')) (\<lambda>r.
        if \<not> (r \<in> set (map js realtime_results) \<and> is_bool (f ''executed'') \<and> fld (f ''attester'') (js ''kind'') = VStr (js ''gateway'') \<and>
            is_str (fld (f ''attester'') (js ''kid'')))
        then Inr False
        else rbind (date_of e (f ''timestamp'')) (\<lambda>t. Inr (t \<noteq> None))))"

definition evidence_keys :: "string list" where
  "evidence_keys = [''type'', ''evidence_version'', ''canonicalization'', ''intent'', ''intent_hash'', ''action_ref'',
     ''policy_hash'', ''policy_version'', ''policy_ref'', ''verifier_version'', ''realtime_result'',
     ''executed'', ''execution_ref'', ''execution'', ''redaction'', ''authorization'', ''attester'', ''timestamp'',
     ''evidence_class'', ''principal'', ''boundary'', ''override'', ''context'', ''budget'', ''clause_id'', ''failed_bound'', ''pattern_id'', ''intel'']"

definition redaction_profile :: jsstr where
  "redaction_profile = js ''scopebond:minimized-intent/v1''"

definition paths_ok :: "jsval \<Rightarrow> bool" where
  "paths_ok v \<longleftrightarrow> is_arr v \<and> list_all (\<lambda>x. x = VHole \<or> is_str x) (elems v) \<and> distinct (elems v)"

definition evidence_records :: "jsval \<Rightarrow> bool" where
  "evidence_records p \<longleftrightarrow>
     is_obj p \<and> list_all (\<lambda>k. is_obj (fld p (js k))) [''intent'', ''action_ref'', ''policy_ref'', ''execution'', ''redaction'', ''authorization'', ''attester'']"

text \<open>The conjuncts between \<open>validateReceiptMatch\<close> and the first \<open>String(payload.realtime_result)\<close>.\<close>

definition evidence_shape :: "env \<Rightarrow> jsval \<Rightarrow> bool" where
  "evidence_shape e p =
     (let f = (\<lambda>k. fld p (js k)); g = (\<lambda>k l. fld (fld p (js k)) (js l)) in
      member_ok p ''pattern_id'' valid_pattern_id \<and> member_ok p ''intel'' valid_intel_slot \<and>
      member_ok p ''context'' validate_receipt_context \<and> member_ok p ''budget'' validate_receipt_budget \<and>
      member_ok p ''override'' (\<lambda>o'. validate_override_record e o' \<and> f ''realtime_result'' = VStr (js ''approved'')) \<and>
      has_only_keys (f ''action_ref'') [''action_id'', ''authorized_intent_hash'', ''evidence_intent_hash''] \<and>
      has_only_keys (f ''policy_ref'') [''id'', ''version'', ''digest''] \<and>
      has_only_keys (f ''execution'') [''state'', ''assertion'', ''reference'', ''external_effect''] \<and>
      has_only_keys (f ''redaction'') [''profile'', ''paths''] \<and> has_only_keys (f ''attester'') [''kind'', ''kid''] \<and>
      f ''type'' = VStr (js ''scopebond:receipt'') \<and> f ''evidence_version'' = VStr (js ''1.0'') \<and>
      f ''canonicalization'' = VStr (js ''RFC8785'') \<and> str_sat (g ''intent'' ''action_type'') (\<lambda>s. s \<noteq> []) \<and> is_hex_text (f ''intent_hash'') \<and>
      (g ''action_ref'' ''action_id'' = VUndef \<or> is_text (g ''action_ref'' ''action_id'') 16 200) \<and>
      is_hex_text (g ''action_ref'' ''authorized_intent_hash'') \<and> is_hex_text (g ''action_ref'' ''evidence_intent_hash'') \<and>
      is_hex_text (f ''policy_hash'') \<and> is_int_in_range (f ''policy_version'') 1 max_safe \<and>
      (g ''policy_ref'' ''id'' = VNull \<or> is_str (g ''policy_ref'' ''id'')) \<and> is_safe_number (g ''policy_ref'' ''version'') \<and>
      is_str (g ''policy_ref'' ''digest'') \<and> is_str (f ''verifier_version''))"

text \<open>The conjuncts after it, given the texts of the execution's state and assertion and of the result.\<close>

definition evidence_execution :: "env \<Rightarrow> jsval \<Rightarrow> jsstr \<Rightarrow> jsstr \<Rightarrow> jsstr \<Rightarrow> bool" where
  "evidence_execution e p state assertion result =
     (let f = (\<lambda>k. fld p (js k)); g = (\<lambda>k l. fld (fld p (js k)) (js l)) in
      result \<in> set (map js realtime_results) \<and>
      (state = js ''observed_not_evaluated'') = (f ''realtime_result'' = VStr (js ''not_evaluated'')) \<and>
      map_of assertion_for_state state = Some assertion \<and>
      f ''executed'' = VBool (state = js ''executed'' \<or> state = js ''observed_after'') \<and>
      (state = js ''observed_after'' \<longrightarrow> f ''realtime_result'' = VStr (js ''deny'')) \<and>
      (g ''execution'' ''reference'' = VNull \<or> is_str (g ''execution'' ''reference'')) \<and>
      strict_eq (g ''execution'' ''reference'') (f ''execution_ref'') \<and>
      g ''execution'' ''external_effect'' = VStr (js ''not_independently_verified'') \<and>
      g ''redaction'' ''profile'' = VStr redaction_profile \<and> validate_authorization_evidence e (f ''authorization'') \<and>
      (g ''authorization'' ''mode'' = VStr (js ''authenticated'') \<longrightarrow> g ''action_ref'' ''action_id'' \<noteq> VUndef \<longrightarrow>
         strict_eq (g ''action_ref'' ''action_id'') (fld (g ''authorization'' ''agent'') (js ''request_id''))) \<and>
      g ''attester'' ''kind'' = VStr (js ''gateway'') \<and> is_str (g ''attester'' ''kid''))"

definition validate_evidence_payload :: "env \<Rightarrow> jsval \<Rightarrow> bool outcome" where
  "validate_evidence_payload e p =
     (if \<not> evidence_records p then Inr False
      else rbind (to_str (fld (fld p (js ''execution'')) (js ''state''))) (\<lambda>state.
        rbind (to_str (fld (fld p (js ''execution'')) (js ''assertion''))) (\<lambda>assertion.
          if \<not> paths_ok (fld (fld p (js ''redaction'')) (js ''paths'')) \<or> \<not> has_only_keys p evidence_keys \<or> \<not> evidence_class_valid p then Inr False
          else rbind (validate_receipt_match p) (\<lambda>m.
            if \<not> m \<or> \<not> evidence_shape e p then Inr False
            else rbind (to_str (fld p (js ''realtime_result''))) (\<lambda>result.
              if \<not> evidence_execution e p state assertion result then Inr False
              else rbind (date_of e (fld p (js ''timestamp''))) (\<lambda>t. Inr (t \<noteq> None)))))))"

subsection \<open>Verification\<close>

text \<open>What Node makes of a signature value and says of it, for a text's bytes and a key.\<close>

type_synonym sig_check = "bytes \<Rightarrow> jsstr \<Rightarrow> jsval \<Rightarrow> bool outcome"

record receipt_verification =
  rvr_valid :: bool
  rvr_signature :: bool
  rvr_contract :: bool
  rvr_intent_hash :: bool
  rvr_policy_ref :: bool
  rvr_supported :: bool
  rvr_key_binding :: bool
  rvr_legacy :: bool
  rvr_class :: jsval
  rvr_authorization :: "bool option"
  rvr_agent :: "bool option"
  rvr_approval :: "bool option"
  rvr_fully :: bool

definition unreadable_receipt :: receipt_verification where
  "unreadable_receipt = \<lparr> rvr_valid = False, rvr_signature = False, rvr_contract = False, rvr_intent_hash = False, rvr_policy_ref = False,
     rvr_supported = False, rvr_key_binding = False, rvr_legacy = False, rvr_class = VNull, rvr_authorization = None, rvr_agent = None,
     rvr_approval = None, rvr_fully = False \<rparr>"

text \<open>The \<open>try\<close> block: whether the signature verifies and whether the key is the one the receipt names.\<close>

definition signature_and_key :: "env \<Rightarrow> opener \<Rightarrow> sig_check \<Rightarrow> jsval \<Rightarrow> jsstr \<Rightarrow> bool \<times> bool" where
  "signature_and_key e open_key ed receipt pem =
     (let payload = fld receipt (js ''payload''); sig = fld receipt (js ''signature'') in
      case rbind (open_key pem) (\<lambda>k.
          rbind (if fld sig (js ''alg'') \<noteq> VStr (js ''Ed25519'') then Inr False
                 else rbind (canonical payload) (\<lambda>t. ed (utf8 t) pem (fld sig (js ''sig'')))) (\<lambda>s.
            rbind (derive_kid e (ok_jwk k)) (\<lambda>kid. Inr (s, fld (fld payload (js ''attester'')) (js ''kid'') = VStr kid))))
      of Inl _ \<Rightarrow> (False, False) | Inr r \<Rightarrow> r)"

definition envelope_ok :: "jsval \<Rightarrow> bool" where
  "envelope_ok receipt \<longleftrightarrow>
     has_only_keys receipt [''payload'', ''signature''] \<and> is_obj (fld receipt (js ''signature'')) \<and>
     has_only_keys (fld receipt (js ''signature'')) [''alg'', ''sig'']"

definition intent_hash_matches :: "env \<Rightarrow> jsval \<Rightarrow> bool \<Rightarrow> bool outcome" where
  "intent_hash_matches e p legacy =
     (let action = fld p (js ''action_ref'') in
      if legacy then rbind (intent_hash e (fld p (js ''intent''))) (\<lambda>h. Inr (fld p (js ''intent_hash'') = VStr h))
      else if \<not> strict_eq (fld action (js ''authorized_intent_hash'')) (fld p (js ''intent_hash'')) then Inr False
      else rbind (intent_hash e (fld p (js ''intent''))) (\<lambda>h. Inr (fld action (js ''evidence_intent_hash'') = VStr h)))"

definition policy_ref_matches :: "jsval \<Rightarrow> bool" where
  "policy_ref_matches p \<longleftrightarrow>
     strict_eq (fld (fld p (js ''policy_ref'')) (js ''digest'')) (fld p (js ''policy_hash'')) \<and>
     strict_eq (fld (fld p (js ''policy_ref'')) (js ''version'')) (fld p (js ''policy_version''))"

text \<open>The members read without a guard before the evidence is checked.\<close>

definition authorization_check ::
  "env \<Rightarrow> opener \<Rightarrow> sig_check \<Rightarrow> jsval \<Rightarrow> principal_key list \<Rightarrow> authorization_verification outcome" where
  "authorization_check e open_key ed p keys =
     (if nullish (fld p (js ''action_ref'')) \<or> nullish (fld p (js ''intent'')) then Inl TypeErr
      else verify_evidence e open_key (\<lambda>msg pem sig. ed msg pem (VStr sig)) (fld p (js ''authorization''))
        (fld (fld p (js ''action_ref'')) (js ''authorized_intent_hash'')) (fld (fld p (js ''intent'')) (js ''signer'')) (fld p (js ''policy_ref''))
        (fld p (js ''timestamp'')) keys (jint 300000))"

definition verify_receipt ::
  "env \<Rightarrow> opener \<Rightarrow> sig_check \<Rightarrow> jsval \<Rightarrow> jsstr \<Rightarrow> principal_key list option \<Rightarrow> receipt_verification outcome" where
  "verify_receipt e open_key ed receipt pem keys =
     (let p = fld receipt (js ''payload''); (sig_valid, bound) = signature_and_key e open_key ed receipt pem;
          legacy = nullish (fld p (js ''evidence_version''));
          supported = (legacy \<or> fld p (js ''evidence_version'') = VStr (js ''1.0'')) in
      if \<not> truthy p \<or> \<not> truthy (fld (fld receipt (js ''signature'')) (js ''sig'')) then Inr unreadable_receipt
      else rbind (if \<not> envelope_ok receipt then Inr False
                  else if legacy then validate_legacy_payload e p else validate_evidence_payload e p) (\<lambda>contract.
        rbind (intent_hash_matches e p legacy) (\<lambda>hash_valid.
          let ref_valid = (legacy \<or> policy_ref_matches p);
              valid = (sig_valid \<and> contract \<and> supported \<and> hash_valid \<and> ref_valid \<and> (legacy \<or> bound)) in
          rbind (case keys of
                   Some ks \<Rightarrow> if legacy then Inr None else rbind (authorization_check e open_key ed p ks) (\<lambda>a. Inr (Some a))
                 | None \<Rightarrow> Inr None) (\<lambda>a.
            Inr \<lparr> rvr_valid = valid, rvr_signature = sig_valid, rvr_contract = contract, rvr_intent_hash = hash_valid,
                  rvr_policy_ref = ref_valid, rvr_supported = supported, rvr_key_binding = bound, rvr_legacy = legacy,
                  rvr_class = classify_evidence_class p, rvr_authorization = map_option av_authorization a, rvr_agent = map_option av_agent a,
                  rvr_approval = (case a of None \<Rightarrow> None | Some x \<Rightarrow> av_approval x),
                  rvr_fully = (valid \<and> (case a of None \<Rightarrow> False | Some x \<Rightarrow> av_authorization x)) \<rparr>))))"

end
