(* ===== verification/Minimize.thy ===== *)
theory Minimize
  imports Receipt
begin

section \<open>Minimization of evidence and the receipt builders\<close>

text \<open>
  \<^verbatim>\<open>packages/gateway/src/receipts.ts\<close>: what of an action's intent a receipt may keep, and the receipts of a gate (\<open>boundary\<close>) and of a
  proxy (\<open>pep\<close>). The scrubber of secrets inside a string (\<^verbatim>\<open>scrub.ts\<close>) is the parameter \<open>scrub\<close>, the attester's signature the
  parameter \<open>sign\<close>. The paths that were redacted are collected in the order of the walk.
\<close>

subsection \<open>Secret names\<close>

text \<open>\<open>toLowerCase\<close> as far as a comparison with an ASCII text can see it: the capital letters, the Kelvin sign and the capital I with a dot are the units
  it maps to ASCII.\<close>

definition lower_view :: "jsstr \<Rightarrow> jsstr" where
  "lower_view s = concat (map (\<lambda>c. if c = 0x130 then [105, 0x307] else [lower_unit c]) s)"

definition normalized_key :: "jsstr \<Rightarrow> jsstr" where
  "normalized_key k = map (\<lambda>c. if c = 95 then 45 else c) (lower_view (js_trim k))"

definition secret_keys :: "jsstr list" where
  "secret_keys = map js [''authorization'', ''proxy-authorization'', ''cookie'', ''set-cookie'', ''x-api-key'', ''api-key'',
     ''apikey'', ''password'', ''passwd'', ''secret'', ''client-secret'', ''client_secret'', ''access-token'',
     ''access_token'', ''refresh-token'', ''refresh_token'', ''private-key'', ''private_key'']"

definition is_secret_key :: "jsstr \<Rightarrow> bool" where
  "is_secret_key k \<longleftrightarrow>
     k \<in> set secret_keys \<or> k = js ''token'' \<or> k = js ''credential'' \<or> ends_with k (js ''-token'') \<or> ends_with k (js ''-secret'') \<or>
     ends_with k (js ''-password'') \<or> ends_with k (js ''-private-key'')"

definition is_body_key :: "jsstr \<Rightarrow> bool" where
  "is_body_key k \<longleftrightarrow> k = js ''body'' \<or> k = js ''request-body''"

definition clear_keys :: "jsstr list" where
  "clear_keys = map js [''action-type'', ''asset'', ''amount'', ''currency'']"

subsection \<open>Minimization\<close>

definition body_text :: "jsval \<Rightarrow> jsstr outcome" where
  "body_text child = (case child of VStr s \<Rightarrow> Inr s | _ \<Rightarrow> canonical child)"

text \<open>\<open>byteLength\<close> and the digest read the same text.\<close>

definition minimized_body :: "env \<Rightarrow> jsval \<Rightarrow> jsval outcome" where
  "minimized_body e child =
     rbind (body_text child) (\<lambda>t. Inr (VObj [(js ''content_digest'', VStr (js ''sha256:'' @ text_hash e t)),
       (js ''byte_length'', VNum (jint (int (length (utf8 t)))))]))"

text \<open>The object the loop assigns into: assigning \<open>__proto__\<close> makes no member, an object there becomes the prototype.\<close>

definition assigned :: "(jsstr \<times> jsval) list \<Rightarrow> jsval" where
  "assigned fs =
     (let kept = filter (\<lambda>(k, v). k \<noteq> js ''__proto__'') fs in
      if list_ex (\<lambda>(k, v). k = js ''__proto__'' \<and> (is_obj v \<or> is_arr v)) fs then VInst kept else VObj kept)"

definition typeof_object :: "jsval \<Rightarrow> bool" where
  "typeof_object v \<longleftrightarrow> v = VNull \<or> is_obj v \<or> is_arr v"

definition child_place :: "jsstr \<Rightarrow> jsstr \<Rightarrow> jsstr" where
  "child_place place key = (if place = [] then key else place @ js ''.'' @ key)"

definition item_place :: "jsstr \<Rightarrow> nat \<Rightarrow> jsstr" where
  "item_place place i = place @ js ''['' @ int_text (int i) @ js '']''"

function minimize_value :: "env \<Rightarrow> (jsstr \<Rightarrow> jsstr) \<Rightarrow> jsval \<Rightarrow> jsstr \<Rightarrow> (jsval \<times> jsstr list) outcome"
  and minimize_items :: "env \<Rightarrow> (jsstr \<Rightarrow> jsstr) \<Rightarrow> jsval list \<Rightarrow> nat \<Rightarrow> jsstr \<Rightarrow> (jsval list \<times> jsstr list) outcome"
  and minimize_members :: "env \<Rightarrow> (jsstr \<Rightarrow> jsstr) \<Rightarrow> (jsstr \<times> jsval) list \<Rightarrow> jsstr \<Rightarrow> ((jsstr \<times> jsval) list \<times> jsstr list) outcome"
where
  "minimize_value e scrub v place =
     (case v of
        VArr xs \<Rightarrow> rbind (minimize_items e scrub xs 0 place) (\<lambda>(ys, ps). Inr (VArr ys, ps))
      | VStr s \<Rightarrow> Inr (VStr (scrub s), if scrub s \<noteq> s then [place] else [])
      | VObj fs \<Rightarrow> rbind (minimize_members e scrub fs place) (\<lambda>(gs, ps). Inr (assigned gs, ps))
      | VInst fs \<Rightarrow> rbind (minimize_members e scrub fs place) (\<lambda>(gs, ps). Inr (assigned gs, ps))
      | _ \<Rightarrow> Inr (v, []))"
| "minimize_items e scrub [] i place = Inr ([], [])"
| "minimize_items e scrub (x # xs) i place =
     rbind (minimize_value e scrub x (item_place place i)) (\<lambda>(y, ps).
       rbind (minimize_items e scrub xs (Suc i) place) (\<lambda>(ys, qs). Inr (y # ys, ps @ qs)))"
| "minimize_members e scrub [] place = Inr ([], [])"
| "minimize_members e scrub ((k, child) # fs) place =
     (let cp = child_place place k; n = normalized_key k in
      rbind (if is_secret_key n then Inr (VStr (js ''[REDACTED]''), [cp])
             else if is_body_key n then rbind (minimized_body e child) (\<lambda>b. Inr (b, [cp]))
             else if n \<in> set clear_keys \<and> \<not> typeof_object child then Inr (child, [])
             else minimize_value e scrub child cp) (\<lambda>(y, ps).
        rbind (minimize_members e scrub fs place) (\<lambda>(ys, qs). Inr ((k, y) # ys, ps @ qs))))"
  by pat_completeness auto
termination
  by (relation "measure (\<lambda>p. case p of
       Inl (e, scrub, v, place) \<Rightarrow> size v
     | Inr (Inl (e, scrub, xs, i, place)) \<Rightarrow> size_list size xs
     | Inr (Inr (e, scrub, fs, place)) \<Rightarrow> size_list (size_prod (\<lambda>_. 0) size) fs)") auto

declare minimize_value.simps [simp del]

definition minimize_intent_for_evidence :: "env \<Rightarrow> (jsstr \<Rightarrow> jsstr) \<Rightarrow> jsval \<Rightarrow> (jsval \<times> jsstr list) outcome" where
  "minimize_intent_for_evidence e scrub intent =
     rbind (minimize_value e scrub intent (js ''intent'')) (\<lambda>(v, ps). Inr (v, sort_strings ps))"

subsection \<open>Builders\<close>

record attester =
  at_kid :: jsstr
  at_sign :: "jsstr \<Rightarrow> jsstr outcome"

definition build_receipt :: "(jsstr \<times> jsval) list \<Rightarrow> attester \<Rightarrow> jsval outcome" where
  "build_receipt fs att =
     (let payload = VObj ((js ''type'', VStr (js ''scopebond:receipt'')) # fs) in
      rbind (canonical payload) (\<lambda>t. rbind (at_sign att t) (\<lambda>sig.
        Inr (VObj [(js ''payload'', payload), (js ''signature'', VObj [(js ''alg'', VStr (js ''Ed25519'')), (js ''sig'', VStr sig)])]))))"

definition verifier_version :: jsstr where
  "verifier_version = js ''scopebond-verify@0.6.13''"

text \<open>The policy's canonical text; a policy that is null throws when its version is read.\<close>

definition policy_text :: "jsval \<Rightarrow> jsstr outcome" where
  "policy_text policy = rbind (canonical policy) (\<lambda>t. if policy = VNull then Inl TypeErr else Inr t)"

definition policy_version_of :: "jsval \<Rightarrow> jsval" where
  "policy_version_of policy = (case fld policy (js ''version'') of VNum n \<Rightarrow> VNum n | _ \<Rightarrow> VNum (jint 1))"

definition policy_id_of :: "jsval \<Rightarrow> jsval" where
  "policy_id_of policy = (case fld policy (js ''policy_id'') of VStr s \<Rightarrow> VStr s | _ \<Rightarrow> VNull)"

definition decision_state :: "jsstr \<Rightarrow> jsstr" where
  "decision_state result =
     (if result = js ''deny'' then js ''denied'' else if result = js ''not_evaluated'' then js ''observed_not_evaluated'' else js ''cooperative_allow'')"

text \<open>The members both builders give a receipt before its class, from the minimized intent and the digests.\<close>

definition attested_fields ::
  "jsval \<Rightarrow> jsstr list \<Rightarrow> jsstr \<Rightarrow> jsstr \<Rightarrow> jsstr \<Rightarrow> jsstr \<Rightarrow> jsval \<Rightarrow> jsstr \<Rightarrow> string \<Rightarrow> jsstr \<Rightarrow> jsstr \<Rightarrow> (jsstr \<times> jsval) list" where
  "attested_fields intent paths authorized evidence action policy_hash policy result mode kid ts =
     [(js ''evidence_version'', VStr (js ''1.0'')), (js ''canonicalization'', VStr (js ''RFC8785'')), (js ''intent'', intent),
      (js ''intent_hash'', VStr authorized),
      (js ''action_ref'', VObj [(js ''action_id'', VStr action), (js ''authorized_intent_hash'', VStr authorized), (js ''evidence_intent_hash'', VStr evidence)]),
      (js ''policy_hash'', VStr policy_hash), (js ''policy_version'', policy_version_of policy),
      (js ''policy_ref'', VObj [(js ''id'', policy_id_of policy), (js ''version'', policy_version_of policy), (js ''digest'', VStr policy_hash)]),
      (js ''verifier_version'', VStr verifier_version), (js ''realtime_result'', VStr result), (js ''executed'', VBool False),
      (js ''execution_ref'', VNull),
      (js ''execution'', VObj [(js ''state'', VStr (decision_state result)), (js ''assertion'', VStr (js ''none'')), (js ''reference'', VNull),
         (js ''external_effect'', VStr (js ''not_independently_verified''))]),
      (js ''redaction'', VObj [(js ''profile'', VStr redaction_profile), (js ''paths'', VArr (map VStr paths))]),
      (js ''authorization'', VObj [(js ''mode'', VStr (js mode)), (js ''agent'', VNull), (js ''approval'', VNull)]),
      (js ''attester'', VObj [(js ''kind'', VStr (js ''gateway'')), (js ''kid'', VStr kid)]), (js ''timestamp'', VStr ts)]"

record receipt_input =
  ri_intent :: jsval
  ri_policy :: jsval
  ri_result :: jsstr
  ri_now :: jsstr

record boundary_input = receipt_input +
  ri_gate :: jsstr
  ri_outcome_ref :: jsstr
  ri_kind :: jsstr
  ri_actor :: jsstr

record pep_input = receipt_input +
  ri_subject :: jsstr
  ri_issuer :: jsstr

definition build_boundary_receipt :: "env \<Rightarrow> (jsstr \<Rightarrow> jsstr) \<Rightarrow> boundary_input \<Rightarrow> attester \<Rightarrow> jsval outcome" where
  "build_boundary_receipt e scrub i att =
     rbind (minimize_intent_for_evidence e scrub (ri_intent i)) (\<lambda>(intent, paths).
     rbind (intent_hash e (ri_intent i)) (\<lambda>authorized. rbind (intent_hash e intent) (\<lambda>evidence.
     rbind (policy_text (ri_policy i)) (\<lambda>pt.
     rbind (canonical (VObj [(js ''gate'', VStr (ri_gate i)), (js ''outcome_ref'', VStr (ri_outcome_ref i)), (js ''intent_hash'', VStr authorized)])) (\<lambda>key.
       build_receipt
         (attested_fields intent paths authorized evidence (text_hash e key) (text_hash e pt) (ri_policy i) (ri_result i) ''boundary'' (at_kid att) (ri_now i) @
          [(js ''evidence_class'', VStr (js ''boundary'')),
           (js ''boundary'', VObj [(js ''gate'', VStr (ri_gate i)), (js ''outcome_ref'', VStr (ri_outcome_ref i)),
              (js ''attribution'', VObj [(js ''kind'', VStr (ri_kind i)), (js ''actor'', VStr (ri_actor i))])])]) att)))))"

definition build_pep_receipt :: "env \<Rightarrow> (jsstr \<Rightarrow> jsstr) \<Rightarrow> pep_input \<Rightarrow> attester \<Rightarrow> jsval outcome" where
  "build_pep_receipt e scrub i att =
     rbind (minimize_intent_for_evidence e scrub (ri_intent i)) (\<lambda>(intent, paths).
     rbind (intent_hash e (ri_intent i)) (\<lambda>authorized. rbind (intent_hash e intent) (\<lambda>evidence.
     rbind (policy_text (ri_policy i)) (\<lambda>pt.
     rbind (canonical (VObj [(js ''intent_hash'', VStr authorized), (js ''ts'', VStr (ri_now i)), (js ''subject'', VStr (ri_subject i))])) (\<lambda>key.
       build_receipt
         (attested_fields intent paths authorized evidence (text_hash e key) (text_hash e pt) (ri_policy i) (ri_result i) ''pep'' (at_kid att) (ri_now i) @
          [(js ''evidence_class'', VStr (js ''pep_authorized'')),
           (js ''principal'', VObj [(js ''subject'', VStr (ri_subject i)), (js ''issuer'', VStr (ri_issuer i))])]) att)))))"

section \<open>What a receipt keeps of an intent\<close>

text \<open>
  Minimization as an information-flow property: two intents that differ only in the values of secret members are minimized to the same
  evidence. \<open>same_public\<close> says that they do; a body is kept by its digest, so it must be the same.
\<close>

inductive same_public :: "jsval \<Rightarrow> jsval \<Rightarrow> bool" where
  same_refl: "same_public v v"
| same_arr: "list_all2 same_public xs ys \<Longrightarrow> same_public (VArr xs) (VArr ys)"
| same_obj: "list_all2 (\<lambda>f g. fst f = fst g \<and>
      (if is_secret_key (normalized_key (fst f)) then True
       else if is_body_key (normalized_key (fst f)) then snd f = snd g
       else same_public (snd f) (snd g))) fs gs \<Longrightarrow> same_public (VObj fs) (VObj gs)"

lemma same_public_typeof: "same_public v w \<Longrightarrow> typeof_object v \<longleftrightarrow> typeof_object w"
  by (cases rule: same_public.cases) (auto simp: typeof_object_def is_obj_def is_arr_def)

lemma same_public_leaf: "same_public v w \<Longrightarrow> \<not> typeof_object v \<Longrightarrow> w = v"
  by (cases rule: same_public.cases) (auto simp: typeof_object_def is_obj_def is_arr_def)

lemma same_items:
  assumes "list_all2 (\<lambda>x y. \<forall>p. minimize_value e scrub x p = minimize_value e scrub y p) xs ys"
  shows "minimize_items e scrub xs i p = minimize_items e scrub ys i p"
  using assms by (induction arbitrary: i rule: list_all2_induct) auto

lemma same_members:
  assumes "list_all2 (\<lambda>f g. fst f = fst g \<and>
      (if is_secret_key (normalized_key (fst f)) then True
       else if is_body_key (normalized_key (fst f)) then snd f = snd g
       else (typeof_object (snd f) \<longleftrightarrow> typeof_object (snd g)) \<and> (\<not> typeof_object (snd f) \<longrightarrow> snd g = snd f) \<and>
         (\<forall>p. minimize_value e scrub (snd f) p = minimize_value e scrub (snd g) p))) fs gs"
  shows "minimize_members e scrub fs p = minimize_members e scrub gs p"
  using assms
proof (induction rule: list_all2_induct)
  case (Cons f fs g gs)
  obtain k x y where f: "f = (k, x)" "g = (k, y)" using Cons.hyps(1) by (cases f; cases g) auto
  have "is_secret_key (normalized_key k) \<or> is_body_key (normalized_key k) \<and> x = y \<or> x = y \<or>
      \<not> is_body_key (normalized_key k) \<and> typeof_object x \<and> typeof_object y \<and> minimize_value e scrub x (child_place p k) = minimize_value e scrub y (child_place p k)"
    using Cons.hyps(1) by (auto simp: f split: if_splits)
  then show ?case unfolding f minimize_members.simps Let_def Cons.IH by (elim disjE) simp_all
qed simp

lemma same_public_minimized: "same_public v w \<Longrightarrow> minimize_value e scrub v p = minimize_value e scrub w p"
proof (induction v w arbitrary: p rule: same_public.induct)
  case (same_arr xs ys)
  then have "list_all2 (\<lambda>x y. \<forall>p. minimize_value e scrub x p = minimize_value e scrub y p) xs ys"
    by (rule list_all2_mono) (elim conjE)
  from same_items [OF this, of 0 p] show ?case by (simp add: minimize_value.simps)
next
  case (same_obj fs gs)
  have "minimize_members e scrub fs p = minimize_members e scrub gs p"
  proof (rule same_members, rule list_all2_mono [OF same_obj], goal_cases)
    case (1 f g)
    then show ?case using same_public_typeof [of "snd f" "snd g"] same_public_leaf [of "snd f" "snd g"] by (simp split: if_splits)
  qed
  then show ?case by (simp add: minimize_value.simps)
qed simp

text \<open>C27: the evidence a receipt keeps of an intent, with the list of redacted paths, tells nothing of the values under secret names at
  any depth: intents that differ only there have the same evidence (whatever the scrubber of ordinary strings does).\<close>

theorem evidence_hides_secrets:
  assumes "same_public intent intent'"
  shows "minimize_intent_for_evidence e scrub intent = minimize_intent_for_evidence e scrub intent'"
  unfolding minimize_intent_for_evidence_def by (simp only: same_public_minimized [OF assms])

definition login_intent :: "string \<Rightarrow> jsval" where
  "login_intent secret = VObj [(js ''action_type'', VStr (js ''http.request'')),
     (js ''params'', VArr [VObj [(js ''Access_Token'', VStr (js secret)), (js ''url'', VStr (js ''https://a.example''))]])]"

lemma access_token_secret: "is_secret_key (normalized_key (js ''Access_Token''))"
  by (simp add: is_secret_key_def normalized_key_def lower_view_def js_trim_def js_def is_space_def lower_unit_def is_upper_def secret_keys_def)

lemma plain_names: "\<not> is_body_key (normalized_key (js ''params''))" "\<not> is_body_key (normalized_key (js ''action_type''))"
  by (simp_all add: is_body_key_def normalized_key_def lower_view_def js_trim_def js_def is_space_def lower_unit_def is_upper_def)

lemma login_params: "same_public (VArr [VObj [(js ''Access_Token'', x), u]]) (VArr [VObj [(js ''Access_Token'', y), u]])"
  by (auto intro!: same_arr same_obj intro: same_refl simp: access_token_secret)

theorem evidence_hides_secrets_witness:
  "\<forall>e. minimize_intent_for_evidence e (\<lambda>s. s) (login_intent ''one'') = minimize_intent_for_evidence e (\<lambda>s. s) (login_intent ''another'')"
proof (intro allI evidence_hides_secrets)
  show "same_public (login_intent ''one'') (login_intent ''another'')"
    unfolding login_intent_def by (intro same_obj) (auto simp: login_params plain_names intro: same_refl)
qed

end
