(* ===== verification/Authority.thy ===== *)
theory Authority
  imports JsVal
begin

section \<open>The authority store\<close>

text \<open>
  \<open>MemoryReceiptStore\<close> of \<^verbatim>\<open>packages/gateway/src/receipts.ts\<close>: the append-only receipts, the log of anchors, and the write-ahead
  records of actions whose authority is reserved before anything is dispatched. Each method is a function of the store; one that throws
  leaves the store as it was. A signed receipt is its JSON value. The two \<open>Map\<close>s keep the order of insertion, the \<open>Set\<close> of stopped
  targets is the list of its elements. \<open>structuredClone\<close> of JSON data is the identity on values.
\<close>

subsection \<open>State\<close>

datatype final_state = St_denied | St_simulated | St_cooperative_allow | St_executed | St_failed | St_outcome_unknown | St_observed_after

datatype lifecycle_state = Reserved | Dispatching | Finished final_state

text \<open>\<open>rq_ids\<close> holds the values of \<open>authorization_ids\<close>, absent ones as \<open>None\<close>.\<close>

record authority_reservation =
  rq_action :: jsstr
  rq_candidate :: jsval
  rq_policy_ref :: jsval
  rq_policy_snapshot :: jsstr
  rq_ids :: "jsstr option list"
  rq_context :: "jsval option"

record authority_record =
  ar_reservation :: authority_reservation
  ar_state :: lifecycle_state
  ar_result :: "jsval option"
  ar_adapter :: "jsstr option"
  ar_pre :: "jsval option"
  ar_terminal :: "jsval option"

record receipt_store =
  rs_all :: "jsval list"
  rs_anchors :: "jsval list"
  rs_authority :: "(jsstr \<times> authority_record) list"
  rs_consumed :: "(jsstr \<times> jsstr) list"
  rs_stops :: "jsstr list"

definition new_receipt_store :: receipt_store where
  "new_receipt_store = \<lparr> rs_all = [], rs_anchors = [], rs_authority = [], rs_consumed = [], rs_stops = [] \<rparr>"

datatype prior_scope = Scope_none | Scope_since jsstr | Scope_all

subsection \<open>Receipts\<close>

definition put_receipt :: "jsval \<Rightarrow> receipt_store \<Rightarrow> receipt_store" where
  "put_receipt r s = s \<lparr> rs_all := rs_all s @ [r] \<rparr>"

definition list_receipts :: "receipt_store \<Rightarrow> jsval list" where
  "list_receipts s = rs_all s"

text \<open>Authority that is still held: reserved, being dispatched, or of unknown outcome.\<close>

definition is_held :: "authority_record \<Rightarrow> bool" where
  "is_held r \<longleftrightarrow> ar_state r = Reserved \<or> ar_state r = Dispatching \<or> ar_state r = Finished St_outcome_unknown"

definition executed_receipts :: "prior_scope option \<Rightarrow> receipt_store \<Rightarrow> jsval list" where
  "executed_receipts scope s =
     (if scope = Some Scope_none then []
      else map (\<lambda>r. fld r (js ''payload'')) (rs_all s) @
        map (\<lambda>r. rq_candidate (ar_reservation r)) (filter is_held (map snd (rs_authority s))))"

subsection \<open>Reservation, dispatch and completion\<close>

text \<open>What the policy says of a reservation: \<open>allow\<close>, and \<open>realtime_result\<close> where the decision has that member.\<close>

record authority_decision =
  ad_allow :: bool
  ad_result :: "jsval option"

definition real_ids :: "authority_reservation \<Rightarrow> jsstr list" where
  "real_ids q = filter (\<lambda>k. k \<noteq> []) (List.map_filter id (rq_ids q))"

definition new_authority :: "authority_reservation \<Rightarrow> 'd authority_decision_scheme \<Rightarrow> authority_record" where
  "new_authority q d =
     \<lparr> ar_reservation = q, ar_state = (if ad_allow d then Reserved else Finished St_denied), ar_result = ad_result d,
       ar_adapter = None, ar_pre = None, ar_terminal = None \<rparr>"

text \<open>\<open>None\<close> is the answer \<open>duplicate: true\<close>. \<open>decide\<close> is the caller's evaluation; a throw of it leaves the store alone.\<close>

definition reserve_action ::
  "authority_reservation \<Rightarrow> (jsval list \<Rightarrow> ('d authority_decision_scheme) outcome) \<Rightarrow> prior_scope option \<Rightarrow> receipt_store \<Rightarrow>
     'd authority_decision_scheme option outcome \<times> receipt_store" where
  "reserve_action q decide scope s =
     (if map_of (rs_authority s) (rq_action q) \<noteq> None then (Inr None, s)
      else if list_ex (\<lambda>k. map_of (rs_consumed s) k \<noteq> None) (real_ids q) then (Inr None, s)
      else (case decide (executed_receipts scope s) of
          Inl x \<Rightarrow> (Inl x, s)
        | Inr d \<Rightarrow>
            (Inr (Some d),
             s \<lparr> rs_authority := omap_set (rq_action q) (new_authority q d) (rs_authority s),
                rs_consumed := fold (\<lambda>k. omap_set k (rq_action q)) (real_ids q) (rs_consumed s) \<rparr>)))"

definition prepare_dispatch :: "jsstr \<Rightarrow> jsval \<Rightarrow> jsstr \<Rightarrow> receipt_store \<Rightarrow> unit outcome \<times> receipt_store" where
  "prepare_dispatch action r adapter s =
     (case map_of (rs_authority s) action of
        None \<Rightarrow> (Inl (Err (js ''action '' @ action @ js '' is not reserved for dispatch'')), s)
      | Some a \<Rightarrow>
          if ar_state a \<noteq> Reserved then (Inl (Err (js ''action '' @ action @ js '' is not reserved for dispatch'')), s)
          else (Inr (), s \<lparr> rs_authority :=
            omap_set action (a \<lparr> ar_state := Dispatching, ar_adapter := Some adapter, ar_pre := Some r \<rparr>) (rs_authority s) \<rparr>))"

definition finalize_action :: "jsstr \<Rightarrow> jsval \<Rightarrow> final_state \<Rightarrow> receipt_store \<Rightarrow> unit outcome \<times> receipt_store" where
  "finalize_action action r st s =
     (case map_of (rs_authority s) action of
        None \<Rightarrow> (Inl (Err (js ''unknown authority reservation '' @ action)), s)
      | Some a \<Rightarrow>
          (Inr (), s \<lparr> rs_all := rs_all s @ [r],
             rs_authority := omap_set action (a \<lparr> ar_state := Finished st, ar_terminal := Some r \<rparr>) (rs_authority s) \<rparr>))"

subsection \<open>Reads, stops and anchors\<close>

record lifecycle_record =
  lr_action :: jsstr
  lr_state :: lifecycle_state
  lr_reservation :: authority_reservation
  lr_result :: "jsval option"
  lr_adapter :: "jsstr option"
  lr_pre :: "jsval option"
  lr_terminal :: "jsval option"

definition lifecycle_of :: "jsstr \<Rightarrow> authority_record \<Rightarrow> lifecycle_record" where
  "lifecycle_of action a =
     \<lparr> lr_action = action, lr_state = ar_state a, lr_reservation = ar_reservation a, lr_result = ar_result a,
       lr_adapter = ar_adapter a, lr_pre = ar_pre a, lr_terminal = ar_terminal a \<rparr>"

definition get_action :: "jsstr \<Rightarrow> receipt_store \<Rightarrow> lifecycle_record option" where
  "get_action action s = map_option (lifecycle_of action) (map_of (rs_authority s) action)"

definition unresolved_actions :: "receipt_store \<Rightarrow> lifecycle_record list" where
  "unresolved_actions s = map (\<lambda>(k, a). lifecycle_of k a) (filter (\<lambda>(k, a). is_held a) (rs_authority s))"

record stop_state =
  ss_global :: bool
  ss_agents :: "jsstr list"

definition get_stop_state :: "receipt_store \<Rightarrow> stop_state" where
  "get_stop_state s = \<lparr> ss_global = (js ''global'' \<in> set (rs_stops s)), ss_agents = filter (\<lambda>k. k \<noteq> js ''global'') (rs_stops s) \<rparr>"

definition set_stopped :: "jsstr \<Rightarrow> bool \<Rightarrow> receipt_store \<Rightarrow> receipt_store" where
  "set_stopped target stopped s =
     s \<lparr> rs_stops := (if stopped then (if target \<in> set (rs_stops s) then rs_stops s else rs_stops s @ [target])
                     else filter (\<lambda>k. k \<noteq> target) (rs_stops s)) \<rparr>"

definition put_anchor :: "jsval \<Rightarrow> receipt_store \<Rightarrow> receipt_store" where
  "put_anchor a s = s \<lparr> rs_anchors := rs_anchors s @ [a] \<rparr>"

definition anchors_of :: "receipt_store \<Rightarrow> jsval list" where
  "anchors_of s = rs_anchors s"

end
