(* ===== verification/Gateway.thy ===== *)
theory Gateway
  imports Engine Minimize Authority DispatchStore
begin

section \<open>The gateway: one action from request to receipt\<close>

text \<open>
  \<^verbatim>\<open>packages/gateway/src/app.ts\<close> over the in-memory store. \<open>intake\<close> is the first part of \<open>handleAction\<close>, up to the reservation it
  builds; \<open>advance\<close> is the rest, cut where the code awaits: a \<open>phase\<close> is what the handler holds while it waits, so that other
  handlers, the kill switch and reconciliation can run in between. The answers of the outside (a person's override, the dispatch guard, the
  executor and its result query) are the argument \<open>answers\<close>. The executor's structural check and the random action id are parameters.
\<close>

subsection \<open>Configuration and requests\<close>

datatype executor_result = Ex_ok jsstr jsval | Ex_refused jsstr | Ex_threw jsstr

datatype query_result = Q_executed jsstr jsval | Q_failed "jsstr option" jsval | Q_unknown "jsstr option"

text \<open>\<open>executor.mode\<close>, which may be left out.\<close>

datatype executor_mode = Mode_simulation | Mode_dispatch | Mode_unset

record gateway_config =
  gw_check_only :: bool
  gw_mode :: executor_mode
  gw_outbound_off :: bool
  gw_executor_id :: "jsstr option"
  gw_can_query :: bool
  gw_complete :: "bool option"
  gw_auth :: "auth_config option"
  gw_guarded :: bool
  gw_attester :: attester
  gw_scrub :: "jsstr \<Rightarrow> jsstr"
  gw_open :: opener
  gw_verify :: verifier
  gw_validate :: "jsval \<Rightarrow> unit outcome"

record policy_state =
  ps_policy :: jsval
  ps_hash :: jsstr
  ps_version :: jsval
  ps_history :: history_need

record action_request =
  rqs_intent :: jsval
  rqs_authorization :: jsval
  rqs_approval :: jsval

record action_options =
  op_check_only :: "bool option"
  op_observed_after :: bool
  op_override :: bool
  op_context :: jsval
  op_budget :: jsval
  op_intel :: jsval

text \<open>\<open>createGateway\<close>'s and \<open>setPolicy\<close>'s snapshot of a policy.\<close>

definition load_policy :: "env \<Rightarrow> jsval \<Rightarrow> policy_state outcome" where
  "load_policy e policy =
     rbind (validate_policy e policy) (\<lambda>r.
       if \<not> valid r then Inl TypeErr
       else rbind (canonical policy) (\<lambda>t. rbind (history_need e policy) (\<lambda>h.
         Inr \<lparr> ps_policy = policy, ps_hash = text_hash e t,
           ps_version = (if nullish (fld policy (js ''version'')) then VNum (jint 1) else fld policy (js ''version'')), ps_history = h \<rparr>)))"

subsection \<open>Intake\<close>

definition is_stopped :: "receipt_store \<Rightarrow> jsval \<Rightarrow> bool" where
  "is_stopped s signer \<longleftrightarrow>
     (let stop = get_stop_state s in ss_global stop \<or> (case signer of VStr k \<Rightarrow> k \<noteq> [] \<and> k \<in> set (ss_agents stop) | _ \<Rightarrow> False))"

text \<open>The ids that receipts of the log carry, for a store that cannot look one id up.\<close>

definition evidence_id :: "string \<Rightarrow> string \<Rightarrow> jsval \<Rightarrow> jsstr option" where
  "evidence_id part k r =
     nonempty_str (fld (fld (fld (fld r (js ''payload'')) (js ''authorization'')) (js part)) (js k))"

definition used_ids :: "string \<Rightarrow> string \<Rightarrow> receipt_store \<Rightarrow> jsstr set" where
  "used_ids part k s = set (List.map_filter (evidence_id part k) (rs_all s))"

definition insecure_evidence :: jsval where
  "insecure_evidence = VObj [(js ''mode'', VStr (js ''insecure_development'')), (js ''agent'', VNull), (js ''approval'', VNull)]"

definition authorize_action ::
  "env \<Rightarrow> gateway_config \<Rightarrow> action_request \<Rightarrow> jsstr \<Rightarrow> jsval \<Rightarrow> receipt_store \<Rightarrow> (jsval \<times> jsval) checked" where
  "authorize_action e g q ts policy_ref s =
     (case gw_auth g of
        None \<Rightarrow> Inr (insecure_evidence, rqs_approval q)
      | Some c \<Rightarrow>
          cbind (authenticate_request e (gw_open g) (gw_verify g) (rqs_intent q) (rqs_authorization q) (rqs_approval q) c ts policy_ref
                  (used_ids ''agent'' ''request_id'' s) (used_ids ''approval'' ''approval_id'' s))
            (\<lambda>(ev, ap). Inr (ev, case ap of None \<Rightarrow> VUndef
               | Some (who, h) \<Rightarrow> VObj [(js ''approver'', VStr who), (js ''intent_hash'', VStr h)])))"

definition policy_ref_of :: "policy_state \<Rightarrow> jsval" where
  "policy_ref_of p = VObj [(js ''id'', policy_id_of (ps_policy p)), (js ''version'', ps_version p), (js ''digest'', VStr (ps_hash p))]"

record prepared_action =
  pa_intent :: jsval
  pa_hash :: jsstr
  pa_ts :: jsstr
  pa_action :: jsstr
  pa_policy :: policy_state
  pa_approval :: jsval
  pa_context :: "(jsstr \<times> jsval) list"
  pa_reservation :: authority_reservation
  pa_check_only :: bool
  pa_observed :: bool
  pa_override :: bool

text \<open>\<open>receiptContext\<close>.\<close>

definition context_fields ::
  "env \<Rightarrow> jsval \<Rightarrow> jsstr list \<Rightarrow> jsstr \<Rightarrow> jsstr \<Rightarrow> jsstr \<Rightarrow> policy_state \<Rightarrow> jsval \<Rightarrow> jsstr \<Rightarrow> jsstr \<Rightarrow> action_options \<Rightarrow> (jsstr \<times> jsval) list" where
  "context_fields e intent places h evidence action p authorization kid ts opts =
     [(js ''evidence_version'', VStr (js ''1.0'')), (js ''canonicalization'', VStr (js ''RFC8785'')), (js ''intent'', intent), (js ''intent_hash'', VStr h),
      (js ''action_ref'', VObj [(js ''action_id'', VStr action), (js ''authorized_intent_hash'', VStr h), (js ''evidence_intent_hash'', VStr evidence)]),
      (js ''policy_hash'', VStr (ps_hash p)), (js ''policy_version'', ps_version p), (js ''policy_ref'', policy_ref_of p),
      (js ''verifier_version'', VStr verifier_version),
      (js ''redaction'', VObj [(js ''profile'', VStr redaction_profile), (js ''paths'', VArr (map VStr places))]),
      (js ''authorization'', authorization), (js ''attester'', VObj [(js ''kind'', VStr (js ''gateway'')), (js ''kid'', VStr kid)]),
      (js ''timestamp'', VStr ts)] @
     (if truthy (fld authorization (js ''agent'')) then [(js ''evidence_class'', VStr (js ''signed_intent''))] else []) @
     (if truthy (op_context opts) then [(js ''context'', op_context opts)] else []) @
     (if truthy (op_budget opts) then [(js ''budget'', op_budget opts)] else []) @ receipt_intel_members (op_intel opts)"

text \<open>\<open>receiptFields\<close>.\<close>

fun state_text :: "final_state \<Rightarrow> jsstr" where
  "state_text St_denied = js ''denied''"
| "state_text St_simulated = js ''simulated''"
| "state_text St_cooperative_allow = js ''cooperative_allow''"
| "state_text St_executed = js ''executed''"
| "state_text St_failed = js ''failed''"
| "state_text St_outcome_unknown = js ''outcome_unknown''"
| "state_text St_observed_after = js ''observed_after''"

definition ref_value :: "jsstr option \<Rightarrow> jsval" where
  "ref_value r = (case r of None \<Rightarrow> VNull | Some t \<Rightarrow> VStr t)"

definition receipt_fields :: "(jsstr \<times> jsval) list \<Rightarrow> jsstr \<Rightarrow> jsstr \<Rightarrow> string \<Rightarrow> jsstr option \<Rightarrow> (jsstr \<times> jsval) list" where
  "receipt_fields context result state assertion ref =
     context @
     [(js ''realtime_result'', VStr result), (js ''executed'', VBool (state = js ''executed'' \<or> state = js ''observed_after'')),
      (js ''execution_ref'', ref_value ref),
      (js ''execution'', VObj [(js ''state'', VStr state), (js ''assertion'', VStr (js assertion)), (js ''reference'', ref_value ref),
         (js ''external_effect'', VStr (js ''not_independently_verified''))])]"

definition denied_state :: "bool \<Rightarrow> final_state" where
  "denied_state observed = (if observed then St_observed_after else St_denied)"

definition action_reservation ::
  "jsval \<Rightarrow> jsstr \<Rightarrow> jsstr \<Rightarrow> jsstr \<Rightarrow> bool \<Rightarrow> policy_state \<Rightarrow> jsstr \<Rightarrow> jsval \<Rightarrow> jsval \<Rightarrow> (jsstr \<times> jsval) list \<Rightarrow> authority_reservation" where
  "action_reservation intent h action ts check p snapshot authorization approval context =
     \<lparr> rq_action = action,
       rq_candidate = VObj [(js ''intent'', intent), (js ''action_id'', VStr action), (js ''intent_hash'', VStr h), (js ''executed'', VBool (\<not> check)),
         (js ''realtime_result'', VStr (js ''allow'')), (js ''timestamp'', VStr ts), (js ''approval'', approval)],
       rq_policy_ref = policy_ref_of p, rq_policy_snapshot = snapshot,
       rq_ids = [nonempty_str (fld (fld authorization (js ''agent'')) (js ''request_id'')),
         nonempty_str (fld (fld authorization (js ''approval'')) (js ''approval_id''))],
       rq_context = Some (VObj context) \<rparr>"

definition options_valid :: "action_options \<Rightarrow> bool" where
  "options_valid opts \<longleftrightarrow>
     (op_context opts = VUndef \<or> validate_receipt_context (op_context opts)) \<and>
     (op_intel opts = VUndef \<or> validate_receipt_intel (op_intel opts)) \<and> (op_budget opts = VUndef \<or> validate_receipt_budget (op_budget opts))"

definition intake ::
  "env \<Rightarrow> gateway_config \<Rightarrow> policy_state \<Rightarrow> action_request \<Rightarrow> action_options \<Rightarrow> jsstr \<Rightarrow> jsstr \<Rightarrow> receipt_store \<Rightarrow> prepared_action checked" where
  "intake e g p q opts ts uuid s =
     (let intent = rqs_intent q; check = (case op_check_only opts of None \<Rightarrow> gw_check_only g | Some b \<Rightarrow> b) \<or> op_observed_after opts in
      if \<not> valid (validate_intent intent) \<or> \<not> options_valid opts then Inl (Threw TypeErr)
      else cbind (lift_o (intent_hash e intent)) (\<lambda>h.
      cbind (lift_o (minimize_intent_for_evidence e (gw_scrub g) intent)) (\<lambda>(kept, places).
      cbind (lift_o (intent_hash e kept)) (\<lambda>evidence.
      cbind (authorize_action e g q ts (policy_ref_of p) s) (\<lambda>(authorization, approval).
      cbind (lift_o (gw_validate g intent)) (\<lambda>_.
        let action = (case fld (fld authorization (js ''agent'')) (js ''request_id'') of VStr k \<Rightarrow> k | _ \<Rightarrow> uuid);
            context = context_fields e kept places h evidence action p authorization (at_kid (gw_attester g)) ts opts in
        cbind (lift_o (canonical (ps_policy p))) (\<lambda>snapshot.
          Inr \<lparr> pa_intent = intent, pa_hash = h, pa_ts = ts, pa_action = action, pa_policy = p, pa_approval = approval, pa_context = context,
            pa_reservation = action_reservation kept h action ts check p snapshot authorization approval context,
            pa_check_only = check, pa_observed = op_observed_after opts, pa_override = op_override opts \<rparr>)))))))"

subsection \<open>The handler\<close>

record action_result =
  res_allowed :: bool
  res_reason :: jsstr
  res_verdict :: "verdict option"
  res_receipt :: jsval
  res_output :: jsval

text \<open>What is known when the receipt is built.\<close>

record outcome_of_action =
  oc_result :: jsstr
  oc_state :: final_state
  oc_assertion :: string
  oc_ref :: "jsstr option"
  oc_output :: jsval
  oc_decision :: "engine_decision option"
  oc_override :: "jsval option"
  oc_denial :: "jsstr option"
  oc_stopped :: bool

datatype phase =
    Checking prepared_action
  | Refusing prepared_action
  | Reserving prepared_action
  | Duplicate prepared_action
  | Asking prepared_action engine_decision
  | Overriding prepared_action engine_decision
  | Guarding prepared_action engine_decision "jsval option"
  | Guarded prepared_action engine_decision "jsval option"
  | Dispatching_check prepared_action engine_decision "jsval option" "jsstr option"
  | Simulating prepared_action engine_decision "jsval option"
  | Preparing prepared_action engine_decision "jsval option"
  | Executing prepared_action engine_decision "jsval option"
  | Finishing prepared_action outcome_of_action
  | Answered action_result
  | Failed exn

record answers =
  an_override :: "jsval option outcome"
  an_guard :: "dispatch_request \<Rightarrow> dispatch_decision outcome"
  an_execute :: "jsval \<Rightarrow> jsstr \<Rightarrow> executor_result"
  an_query :: "jsstr \<Rightarrow> query_result outcome"

definition since_margin_ms :: int where
  "since_margin_ms = 86400000"

definition prior_scope_of :: "env \<Rightarrow> history_need \<Rightarrow> jsstr \<Rightarrow> prior_scope" where
  "prior_scope_of e need ts =
     (case need of
        Need_none \<Rightarrow> Scope_none
      | Need_all \<Rightarrow> Scope_all
      | Need_window w \<Rightarrow>
          (case jsub (jsub (ms e (VStr ts)) w) (jint since_margin_ms) of
             Fin q \<Rightarrow> let t = (if q < 0 then \<lceil>q\<rceil> else \<lfloor>q\<rfloor>) in
               if 8640000000000000 < \<bar>t\<bar> \<or> fst (civil (t div ms_per_day)) < 1 then Scope_all else Scope_since (to_iso t)
           | _ \<Rightarrow> Scope_all))"

definition gateway_decide :: "env \<Rightarrow> gateway_config \<Rightarrow> prepared_action \<Rightarrow> jsval list \<Rightarrow> engine_decision outcome" where
  "gateway_decide e g pa prior =
     engine_evaluate e (ps_policy (pa_policy pa)) (bound_prior e (ps_history (pa_policy pa)) prior (VStr (pa_ts pa)))
       \<lparr> er_intent = pa_intent pa, er_approval = pa_approval pa, er_intent_hash = pa_hash pa \<rparr> (pa_ts pa)
       (Some (case gw_complete g of None \<Rightarrow> False | Some b \<Rightarrow> b)) (pa_check_only pa)"

text \<open>The store keeps of a decision whether it allows and its result; the handler keeps the whole decision.\<close>

record full_decision = authority_decision +
  fd_decision :: engine_decision

definition deciding :: "env \<Rightarrow> gateway_config \<Rightarrow> prepared_action \<Rightarrow> jsval list \<Rightarrow> full_decision outcome" where
  "deciding e g pa prior =
     rbind (gateway_decide e g pa prior) (\<lambda>d. Inr \<lparr> ad_allow = ed_allow d, ad_result = Some (VStr (ed_result d)), fd_decision = d \<rparr>)"

definition refusal :: "jsval list \<Rightarrow> authority_decision outcome" where
  "refusal prior = Inr \<lparr> ad_allow = False, ad_result = None \<rparr>"

definition unidentified_adapter :: jsstr where
  "unidentified_adapter = js ''scopebond:unidentified-dispatch-adapter''"

definition adapter_id :: "gateway_config \<Rightarrow> jsstr" where
  "adapter_id g = (case gw_executor_id g of None \<Rightarrow> unidentified_adapter | Some i \<Rightarrow> i)"

text \<open>The outcome of an action that runs nothing.\<close>

definition not_run :: "prepared_action \<Rightarrow> engine_decision \<Rightarrow> jsval option \<Rightarrow> jsstr option \<Rightarrow> bool \<Rightarrow> outcome_of_action" where
  "not_run pa d ov denial stopped =
     \<lparr> oc_result = (if stopped then js ''deny'' else ed_result d), oc_state = denied_state (pa_observed pa), oc_assertion = ''none'', oc_ref = None,
       oc_output = VUndef, oc_decision = Some d, oc_override = ov, oc_denial = denial, oc_stopped = stopped \<rparr>"

definition ran :: "engine_decision \<Rightarrow> jsval option \<Rightarrow> final_state \<Rightarrow> string \<Rightarrow> jsstr option \<Rightarrow> jsval \<Rightarrow> outcome_of_action" where
  "ran d ov st assertion ref out =
     \<lparr> oc_result = ed_result d, oc_state = st, oc_assertion = assertion, oc_ref = ref, oc_output = out, oc_decision = Some d, oc_override = ov,
       oc_denial = None, oc_stopped = False \<rparr>"

text \<open>\<open>queryAfterDispatchError\<close>: the texts of the error are hashed.\<close>

definition error_ref :: "env \<Rightarrow> jsstr \<Rightarrow> jsstr" where
  "error_ref e t = js ''error:sha256:'' @ text_hash e t"

definition query_after_error :: "env \<Rightarrow> gateway_config \<Rightarrow> jsstr \<Rightarrow> query_result outcome \<Rightarrow> query_result" where
  "query_after_error e g t q =
     (if \<not> gw_outbound_off g \<and> gw_can_query g then
        (case q of Inr (Q_executed r out) \<Rightarrow> Q_executed r out | Inr (Q_failed r out) \<Rightarrow> Q_failed r out | _ \<Rightarrow> Q_unknown (Some (error_ref e t)))
      else Q_unknown (Some (error_ref e t)))"

definition resolved :: "engine_decision \<Rightarrow> jsval option \<Rightarrow> query_result \<Rightarrow> outcome_of_action" where
  "resolved d ov q =
     (case q of
        Q_executed r out \<Rightarrow> ran d ov St_executed ''adapter_reported_success'' (Some r) out
      | Q_failed r out \<Rightarrow> ran d ov St_failed ''adapter_reported_failure'' r out
      | Q_unknown r \<Rightarrow> ran d ov St_outcome_unknown ''adapter_outcome_unknown'' r VUndef)"

definition match_of :: "outcome_of_action \<Rightarrow> (jsstr \<times> jsval) list" where
  "match_of c = receipt_match (map_option ed_verdict (oc_decision c)) (oc_result c)"

definition final_receipt :: "gateway_config \<Rightarrow> prepared_action \<Rightarrow> outcome_of_action \<Rightarrow> jsval outcome" where
  "final_receipt g pa c =
     build_receipt (receipt_fields (pa_context pa) (oc_result c) (state_text (oc_state c)) (oc_assertion c) (oc_ref c) @ match_of c @
       (case oc_override c of Some o' \<Rightarrow> if oc_result c = js ''approved'' then [(js ''override'', o')] else [] | None \<Rightarrow> [])) (gw_attester g)"

definition override_text :: "jsval \<Rightarrow> jsstr" where
  "override_text o' =
     js ''allowed by override ('' @
     (if fld o' (js ''method'') = VStr (js ''agent_dialog'') then js ''a person allowed it''
      else if fld o' (js ''method'') = VStr (js ''allowance'') then js ''a standing allowance'' else js ''offered at the agent's prompt'') @ js '')''"

text \<open>The long dash of the source is its UTF-16 unit.\<close>

definition plain_reason :: "outcome_of_action \<Rightarrow> jsstr" where
  "plain_reason c =
     (case oc_decision c of
        None \<Rightarrow> js ''kill switch active (fail closed)''
      | Some d \<Rightarrow>
          (case oc_denial c of
             Some t \<Rightarrow> t
           | None \<Rightarrow>
               if ed_allow d then
                 (case oc_override c of
                    Some o' \<Rightarrow> override_text o'
                  | None \<Rightarrow> if ed_mode d = Some (js ''monitor'') then js ''allowed (monitored, out of policy '' @ [0x2014] @ js '' covered at claim time)''
                            else js ''allowed'')
               else if explanation (ed_verdict d) \<noteq> [] then explanation (ed_verdict d) else js ''denied''))"

definition outbound_disabled :: "gateway_config \<Rightarrow> bool" where
  "outbound_disabled g \<longleftrightarrow> gw_outbound_off g \<and> gw_mode g = Mode_dispatch"

definition result_of :: "gateway_config \<Rightarrow> outcome_of_action \<Rightarrow> jsval \<Rightarrow> action_result" where
  "result_of g c receipt =
     \<lparr> res_allowed = (case oc_decision c of None \<Rightarrow> False | Some d \<Rightarrow> ed_allow d \<and> \<not> oc_stopped c),
       res_reason =
         (if oc_decision c = None then js ''kill switch active (fail closed)''
          else if outbound_disabled g then js ''outbound execution disabled (recovery mode)''
          else if oc_stopped c then js ''kill switch active before dispatch (fail closed)''
          else if oc_state c = St_outcome_unknown then js ''execution outcome unknown''
          else if oc_state c = St_failed then js ''execution failed without an external effect'' else plain_reason c),
       res_verdict = map_option ed_verdict (oc_decision c), res_receipt = receipt, res_output = oc_output c \<rparr>"

definition duplicate_result :: "prepared_action \<Rightarrow> receipt_store \<Rightarrow> phase" where
  "duplicate_result pa s =
     (case get_action (pa_action pa) s of
        None \<Rightarrow> Failed (Err (js ''action id has already been consumed''))
      | Some r \<Rightarrow>
          (case lr_terminal r of
             None \<Rightarrow> Failed (Err (js ''action id has already been consumed''))
           | Some receipt \<Rightarrow>
               let st = fld (fld (fld receipt (js ''payload'')) (js ''execution'')) (js ''state'') in
               Answered \<lparr> res_allowed = (st \<noteq> VStr (js ''denied'') \<and> st \<noteq> VStr (js ''observed_after'')),
                 res_reason = (if st = VStr (js ''outcome_unknown'') then js ''existing action outcome remains unknown''
                               else js ''existing result returned for duplicate action id''),
                 res_verdict = None, res_receipt = receipt, res_output = VUndef \<rparr>))"

text \<open>The text of a reason.\<close>

fun reason_name :: "dispatch_reason \<Rightarrow> jsstr" where
  "reason_name Ok = js ''ok''"
| "reason_name Approval_required = js ''approval_required''"
| "reason_name Approval_rejected = js ''approval_rejected''"
| "reason_name Approval_replayed = js ''approval_replayed''"
| "reason_name Approval_unavailable = js ''approval_unavailable''"
| "reason_name Delegation_unknown = js ''delegation_unknown''"
| "reason_name Delegation_revoked = js ''delegation_revoked''"
| "reason_name Delegation_expired = js ''delegation_expired''"
| "reason_name Delegation_out_of_scope = js ''delegation_out_of_scope''"
| "reason_name Delegation_wrong_actor = js ''delegation_wrong_actor''"
| "reason_name Budget_exceeded = js ''budget_exceeded''"
| "reason_name Budget_unacknowledged = js ''budget_unacknowledged''"
| "reason_name Budget_expired = js ''budget_expired''"
| "reason_name Budget_revoked = js ''budget_revoked''"
| "reason_name Budget_capability_unsupported = js ''budget_capability_unsupported''"
| "reason_name Clock_rollback = js ''clock_rollback''"
| "reason_name Counter_unavailable = js ''counter_unavailable''"
| "reason_name Install_refused = js ''install_refused''"
| "reason_name Tool_unknown = js ''tool_unknown''"

definition guard_text :: "dispatch_decision \<Rightarrow> jsstr" where
  "guard_text v = js ''dispatch boundary: '' @ reason_name (dd_reason v) @
     (if dd_detail v = [] then [] else js '' ('' @ dd_detail v @ js '')'')"

definition guard_request :: "prepared_action \<Rightarrow> dispatch_request" where
  "guard_request pa =
     (let intent = pa_intent pa in
      \<lparr> dr_actor = or_empty (str_opt (fld intent (js ''signer''))),
        dr_action_group = (case nonempty_str (fld (fld intent (js ''params'')) (js ''action_group'')) of Some k \<Rightarrow> k | None \<Rightarrow> pa_action pa),
        dr_policy_digest = ps_hash (pa_policy pa), dr_intents = [dispatch_intent_of intent], dr_delegation_id = None \<rparr>)"

definition denied_by_guard :: "engine_decision \<Rightarrow> engine_decision" where
  "denied_by_guard d = d \<lparr> ed_allow := False, ed_result := js ''deny'', ed_mode := Some (js ''enforce'') \<rparr>"

definition overridden :: "engine_decision \<Rightarrow> engine_decision" where
  "overridden d = d \<lparr> ed_allow := True, ed_result := js ''approved'', ed_mode := Some (js ''enforce'') \<rparr>"

definition stopped_for :: "receipt_store \<Rightarrow> prepared_action \<Rightarrow> bool" where
  "stopped_for s pa = is_stopped s (fld (pa_intent pa) (js ''signer''))"

fun advance :: "env \<Rightarrow> gateway_config \<Rightarrow> answers \<Rightarrow> phase \<Rightarrow> receipt_store \<Rightarrow> phase \<times> receipt_store" where
  "advance e g a (Checking pa) s = (if stopped_for s pa then Refusing pa else Reserving pa, s)"
| "advance e g a (Refusing pa) s =
     (case reserve_action (pa_reservation pa) refusal (Some Scope_none) s of
        (Inl x, s') \<Rightarrow> (Failed x, s')
      | (Inr None, s') \<Rightarrow> (Duplicate pa, s')
      | (Inr (Some d), s') \<Rightarrow>
          (Finishing pa \<lparr> oc_result = js ''deny'', oc_state = denied_state (pa_observed pa), oc_assertion = ''none'', oc_ref = None, oc_output = VUndef,
             oc_decision = None, oc_override = None, oc_denial = None, oc_stopped = True \<rparr>, s'))"
| "advance e g a (Reserving pa) s =
     (case reserve_action (pa_reservation pa) (deciding e g pa) (Some (prior_scope_of e (ps_history (pa_policy pa)) (pa_ts pa))) s of
        (Inl x, s') \<Rightarrow> (Failed x, s')
      | (Inr None, s') \<Rightarrow> (Duplicate pa, s')
      | (Inr (Some d), s') \<Rightarrow> (Asking pa (fd_decision d), s'))"
| "advance e g a (Duplicate pa) s = (duplicate_result pa s, s)"
| "advance e g a (Asking pa d) s =
     (if \<not> ed_allow d \<and> ed_result d = js ''deny'' \<and> pa_override pa \<and> \<not> pa_observed pa \<and> \<not> stopped_for s pa
      then Overriding pa d else Guarding pa d None, s)"
| "advance e g a (Overriding pa d) s =
     (case an_override a of
        Inl x \<Rightarrow> Failed x
      | Inr None \<Rightarrow> Guarding pa d None
      | Inr (Some o') \<Rightarrow> Guarding pa (overridden d) (Some o'), s)"
| "advance e g a (Guarding pa d ov) s =
     (if ed_allow d \<and> gw_guarded g \<and> \<not> stopped_for s pa then Guarded pa d ov else Dispatching_check pa d ov None, s)"
| "advance e g a (Guarded pa d ov) s =
     (let v = (case an_guard a (guard_request pa) of
           Inl x \<Rightarrow> \<lparr> dd_allow = False, dd_reason = Counter_unavailable, dd_detail = exn_text x, dd_consumed = [], dd_budgets = [] \<rparr>
         | Inr v \<Rightarrow> v) in
      if dd_allow v then Dispatching_check pa d ov None else Dispatching_check pa (denied_by_guard d) ov (Some (guard_text v)), s)"
| "advance e g a (Dispatching_check pa d ov denial) s =
     (let stopped = ed_allow d \<and> (outbound_disabled g \<or> stopped_for s pa) in
      if \<not> ed_allow d \<or> stopped then Finishing pa (not_run pa d ov denial stopped)
      else if pa_check_only pa then Finishing pa (ran d ov St_cooperative_allow ''none'' None VUndef)
      else if gw_mode g = Mode_simulation then Simulating pa d ov
      else Preparing pa d ov, s)"
| "advance e g a (Simulating pa d ov) s =
     (case an_execute a (pa_intent pa) (pa_action pa) of
        Ex_ok r out \<Rightarrow> Finishing pa (ran d ov St_simulated ''gateway_simulation'' (Some r) out)
      | Ex_refused t \<Rightarrow> Failed (Err t)
      | Ex_threw t \<Rightarrow> Failed (Err t), s)"
| "advance e g a (Preparing pa d ov) s =
     (case build_receipt (receipt_fields (pa_context pa) (ed_result d) (js ''allowed_pending'') ''none'' None @
            receipt_match (Some (ed_verdict d)) (ed_result d)) (gw_attester g) of
        Inl x \<Rightarrow> (Failed x, s)
      | Inr r \<Rightarrow>
          (case prepare_dispatch (pa_action pa) r (adapter_id g) s of
             (Inl x, s') \<Rightarrow> (Failed x, s')
           | (Inr _, s') \<Rightarrow> (Executing pa d ov, s')))"
| "advance e g a (Executing pa d ov) s =
     (Finishing pa (resolved d ov
        (case an_execute a (pa_intent pa) (pa_action pa) of
           Ex_ok r out \<Rightarrow> Q_executed r out
         | Ex_refused t \<Rightarrow> Q_failed (Some (error_ref e t)) VUndef
         | Ex_threw t \<Rightarrow> query_after_error e g t (an_query a (pa_action pa)))), s)"
| "advance e g a (Finishing pa c) s =
     (case final_receipt g pa c of
        Inl x \<Rightarrow> (Failed x, s)
      | Inr r \<Rightarrow>
          (case finalize_action (pa_action pa) r (oc_state c) s of
             (Inl x, s') \<Rightarrow> (Failed x, s')
           | (Inr _, s') \<Rightarrow> (Answered (result_of g c r), s')))"
| "advance e g a (Answered r) s = (Answered r, s)"
| "advance e g a (Failed x) s = (Failed x, s)"

end
