(* ===== verification/Runs.thy ===== *)
theory Runs
  imports Main
begin

section \<open>Runs of a stateful component\<close>

text \<open>
  A component is a relation between a state, an event and the next state; a run is a list of events, oldest first. The locale is the
  contract of a store in which things can be spent: an event spends nothing that was spent before, and what is spent stays spent. Its
  clients rely on one consequence: nothing is spent twice.
\<close>

inductive runs :: "('s \<Rightarrow> 'e \<Rightarrow> 's \<Rightarrow> bool) \<Rightarrow> 's \<Rightarrow> 'e list \<Rightarrow> 's \<Rightarrow> bool" for step and start where
  runs_Nil: "runs step start [] start"
| runs_snoc: "runs step start es s \<Longrightarrow> step s e s' \<Longrightarrow> runs step start (es @ [e]) s'"

lemma runs_snoc_iff: "runs step start (es @ [e]) s' \<longleftrightarrow> (\<exists>s. runs step start es s \<and> step s e s')"
  by (auto elim: runs.cases intro: runs_snoc)

lemma runs_Nil_iff [simp]: "runs step start [] s \<longleftrightarrow> s = start"
  by (auto elim: runs.cases intro: runs_Nil)

lemma runs_append: "runs step start (xs @ ys) s \<longleftrightarrow> (\<exists>m. runs step start xs m \<and> runs step m ys s)"
proof (induction ys arbitrary: s rule: rev_induct)
  case (snoc y ys)
  then show ?case unfolding append_assoc [symmetric] runs_snoc_iff by auto
qed simp

lemma runs_single: "runs step start [e] s \<longleftrightarrow> step start e s"
  using runs_snoc_iff [of step start "[]" e s] by simp

lemma runs_Cons: "runs step start (e # es) s \<longleftrightarrow> (\<exists>m. step start e m \<and> runs step m es s)"
  using runs_append [of step start "[e]" es s] by (simp add: runs_single)

lemma runs_invariant:
  assumes "runs step start es s" "I start" "\<And>s e s'. step s e s' \<Longrightarrow> I s \<Longrightarrow> I s'"
  shows "I s"
  using assms by induction auto

locale spending =
  fixes step :: "'s \<Rightarrow> 'e \<Rightarrow> 's \<Rightarrow> bool"
    and spends :: "'e \<Rightarrow> 'k set"
    and spent :: "'s \<Rightarrow> 'k set"
  assumes spends_fresh: "step s e s' \<Longrightarrow> spends e \<inter> spent s = {}"
    and spent_kept: "step s e s' \<Longrightarrow> spent s \<union> spends e \<subseteq> spent s'"
begin

lemma spent_by_run: "runs step start es s \<Longrightarrow> spent start \<union> (\<Union>e \<in> set es. spends e) \<subseteq> spent s"
proof (induction rule: runs.induct)
  case (runs_snoc es s e s')
  with spent_kept [OF runs_snoc.hyps(2)] show ?case by auto
qed simp

lemma spent_once:
  assumes "runs step start (xs @ e # ys @ [e']) s"
  shows "spends e \<inter> spends e' = {}"
proof -
  have eq: "xs @ e # ys @ [e'] = (xs @ e # ys) @ [e']" by simp
  from assms obtain m where "runs step start (xs @ e # ys) m" "step m e' s"
    unfolding eq runs_snoc_iff by blast
  then have "spends e \<subseteq> spent m" "spends e' \<inter> spent m = {}" using spent_by_run [of start "xs @ e # ys" m] spends_fresh by auto
  then show ?thesis by blast
qed

end

end
