(* ===== verification/AuthorityProps.thy ===== *)
theory AuthorityProps
  imports Authority Runs
begin

section \<open>What the authority store promises\<close>

text \<open>
  The store as a state machine: its events are the calls that change it (a call that throws or answers \<open>duplicate\<close> changes nothing).
  Every property is about any run from the empty store, by any interleaving of callers.
\<close>

datatype store_event =
    Put jsval
  | Reserve authority_reservation bool
  | Dispatch jsstr jsval jsstr
  | Finish jsstr jsval final_state
  | Stop jsstr bool
  | Anchored jsval

inductive store_step :: "receipt_store \<Rightarrow> store_event \<Rightarrow> receipt_store \<Rightarrow> bool" where
  step_put: "store_step s (Put r) (put_receipt r s)"
| step_reserve: "reserve_action q decide scope s = (Inr (Some (d :: authority_decision)), s') \<Longrightarrow> store_step s (Reserve q (ad_allow d)) s'"
| step_dispatch: "prepare_dispatch k r adapter s = (Inr (), s') \<Longrightarrow> store_step s (Dispatch k r adapter) s'"
| step_finish: "finalize_action k r st s = (Inr (), s') \<Longrightarrow> store_step s (Finish k r st) s'"
| step_stop: "store_step s (Stop t b) (set_stopped t b s)"
| step_anchor: "store_step s (Anchored a) (put_anchor a s)"

inductive_cases store_stepE: "store_step s e s'"

abbreviation store_run :: "store_event list \<Rightarrow> receipt_store \<Rightarrow> bool" where
  "store_run \<equiv> runs store_step new_receipt_store"

subsection \<open>The steps\<close>

lemma reserve_done:
  assumes "reserve_action q decide scope s = (Inr (Some d), s')"
  shows "map_of (rs_authority s) (rq_action q) = None" "\<forall>k \<in> set (real_ids q). map_of (rs_consumed s) k = None"
    "decide (executed_receipts scope s) = Inr d"
    "s' = s \<lparr> rs_authority := omap_set (rq_action q) (new_authority q d) (rs_authority s),
       rs_consumed := fold (\<lambda>k. omap_set k (rq_action q)) (real_ids q) (rs_consumed s) \<rparr>"
  using assms unfolding reserve_action_def by (auto split: if_splits sum.splits simp: list_ex_iff)

lemma prepare_done:
  assumes "prepare_dispatch k r adapter s = (Inr (), s')"
  obtains a where "map_of (rs_authority s) k = Some a" "ar_state a = Reserved"
    "s' = s \<lparr> rs_authority := omap_set k (a \<lparr> ar_state := Dispatching, ar_adapter := Some adapter, ar_pre := Some r \<rparr>) (rs_authority s) \<rparr>"
  using assms that unfolding prepare_dispatch_def by (auto split: option.splits if_splits)

lemma finalize_done:
  assumes "finalize_action k r st s = (Inr (), s')"
  obtains a where "map_of (rs_authority s) k = Some a"
    "s' = s \<lparr> rs_all := rs_all s @ [r], rs_authority := omap_set k (a \<lparr> ar_state := Finished st, ar_terminal := Some r \<rparr>) (rs_authority s) \<rparr>"
  using assms that unfolding finalize_action_def by (auto split: option.splits)

lemma fold_consumed: "map_of (fold (\<lambda>k. omap_set k v) ks m) j = (if j \<in> set ks then Some v else map_of m j)"
  by (induction ks arbitrary: m) (auto simp: map_of_omap_set)

lemmas store_frames = put_receipt_def set_stopped_def put_anchor_def

subsection \<open>Nothing is consumed twice\<close>

datatype token = Action jsstr | Id jsstr

definition event_tokens :: "store_event \<Rightarrow> token set" where
  "event_tokens e = (case e of Reserve q b \<Rightarrow> insert (Action (rq_action q)) (Id ` set (real_ids q)) | _ \<Rightarrow> {})"

definition store_tokens :: "receipt_store \<Rightarrow> token set" where
  "store_tokens s = Action ` dom (map_of (rs_authority s)) \<union> Id ` dom (map_of (rs_consumed s))"

interpretation tokens: spending store_step event_tokens store_tokens
proof unfold_locales
  fix s e s' assume st: "store_step s e s'"
  then show "event_tokens e \<inter> store_tokens s = {}"
  proof (cases rule: store_step.cases)
    case (step_reserve q decide scope d)
    from reserve_done(1,2) [OF step_reserve(2)] show ?thesis by (auto simp: step_reserve(1) event_tokens_def store_tokens_def)
  qed (simp_all add: event_tokens_def)
  from st show "store_tokens s \<union> event_tokens e \<subseteq> store_tokens s'"
  proof (cases rule: store_step.cases)
    case (step_reserve q decide scope d)
    show ?thesis unfolding reserve_done(4) [OF step_reserve(2)] step_reserve(1)
      by (auto simp: event_tokens_def store_tokens_def map_of_omap_set fold_consumed dom_def)
  next
    case (step_dispatch k r adapter)
    from step_dispatch(2) show ?thesis by (elim prepare_done) (auto simp: step_dispatch(1) event_tokens_def store_tokens_def map_of_omap_set dom_def)
  next
    case (step_finish k r st)
    from step_finish(2) show ?thesis by (elim finalize_done) (auto simp: step_finish(1) event_tokens_def store_tokens_def map_of_omap_set dom_def)
  qed (auto simp: event_tokens_def store_tokens_def store_frames)
qed

text \<open>C26: authority is consumed at most once. In every run of the store, two reservations that went through are of different actions
  and share no request id and no approval id, whatever happened in between (denials and failures included).\<close>

theorem authority_single_use:
  assumes "store_run (xs @ Reserve q b # ys @ [Reserve q' b']) s"
  shows "rq_action q \<noteq> rq_action q' \<and> set (real_ids q) \<inter> set (real_ids q') = {}"
  using tokens.spent_once [OF assms] by (auto simp: event_tokens_def)

subsection \<open>Held authority stays counted\<close>

text \<open>The record of a reservation: its own, and still held unless the action was finished by a receipt the store keeps.\<close>

definition record_sound :: "store_event list \<Rightarrow> receipt_store \<Rightarrow> authority_reservation \<Rightarrow> bool \<Rightarrow> bool" where
  "record_sound es s q b \<longleftrightarrow>
     (\<exists>a. map_of (rs_authority s) (rq_action q) = Some a \<and> ar_reservation a = q \<and>
        (ar_state a = Reserved \<longrightarrow> b \<and> (\<forall>r ad. Dispatch (rq_action q) r ad \<notin> set es) \<and> (\<forall>r st. Finish (rq_action q) r st \<notin> set es)) \<and>
        (b \<longrightarrow> is_held a \<or> (\<exists>r st. Finish (rq_action q) r st \<in> set es \<and> r \<in> set (rs_all s))))"

definition store_sound :: "store_event list \<Rightarrow> receipt_store \<Rightarrow> bool" where
  "store_sound es s \<longleftrightarrow>
     (\<forall>k. map_of (rs_authority s) k \<noteq> None \<longrightarrow> (\<exists>q b. Reserve q b \<in> set es \<and> rq_action q = k)) \<and>
     (\<forall>k r ad. Dispatch k r ad \<in> set es \<longrightarrow> map_of (rs_authority s) k \<noteq> None) \<and>
     (\<forall>k r st. Finish k r st \<in> set es \<longrightarrow> map_of (rs_authority s) k \<noteq> None) \<and>
     (\<forall>q b. Reserve q b \<in> set es \<longrightarrow> record_sound es s q b)"

lemma is_held_sel [simp]: "is_held (new_authority q d) \<longleftrightarrow> ad_allow d" "ar_reservation (new_authority q d) = q"
  "ar_state (new_authority q d) = Reserved \<longleftrightarrow> ad_allow d"
  by (simp_all add: is_held_def new_authority_def)

lemma record_soundI:
  assumes "record_sound es s q b" "\<And>k r ad. Dispatch k r ad \<in> set es' \<Longrightarrow> Dispatch k r ad \<in> set es"
    "\<And>k r st. Finish k r st \<in> set es' \<longleftrightarrow> Finish k r st \<in> set es" "rs_authority s' = rs_authority s" "set (rs_all s) \<subseteq> set (rs_all s')"
  shows "record_sound es' s' q b"
  using assms unfolding record_sound_def by (metis subsetD)

lemma sound_other:
  assumes "store_sound es s" "rs_authority s' = rs_authority s" "set (rs_all s) \<subseteq> set (rs_all s')"
    "\<And>q b. e \<noteq> Reserve q b" "\<And>k r ad. e \<noteq> Dispatch k r ad" "\<And>k r st. e \<noteq> Finish k r st"
  shows "store_sound (es @ [e]) s'"
proof -
  have same: "Reserve q b \<in> set (es @ [e]) \<longleftrightarrow> Reserve q b \<in> set es" "Dispatch k r ad \<in> set (es @ [e]) \<longleftrightarrow> Dispatch k r ad \<in> set es"
    "Finish k r st \<in> set (es @ [e]) \<longleftrightarrow> Finish k r st \<in> set es" for q b k r ad st
    using assms(4) [of q b] assms(5) [of k r ad] assms(6) [of k r st] by auto
  have "record_sound (es @ [e]) s' q b" if "record_sound es s q b" for q b
    by (rule record_soundI [OF that]) (use assms same in simp_all)
  with assms(1) show ?thesis unfolding store_sound_def same assms(2) by blast
qed

lemma run_sound: "store_run es s \<Longrightarrow> store_sound es s"
proof (induction rule: runs.induct)
  case runs_Nil
  show ?case by (simp add: store_sound_def new_receipt_store_def)
next
  case (runs_snoc es s e s')
  note IH = runs_snoc.IH
  from runs_snoc.hyps(2) show ?case
  proof (cases rule: store_step.cases)
    case (step_reserve q decide scope d)
    note d = reserve_done [OF step_reserve(2)]
    have old: "record_sound (es @ [e]) s' p b" if "record_sound es s p b" for p b
      using that d(1) unfolding record_sound_def d(4) step_reserve(1) by (auto simp: map_of_omap_set)
    have "\<forall>r ad. Dispatch (rq_action q) r ad \<notin> set es" "\<forall>r st. Finish (rq_action q) r st \<notin> set es"
      using IH d(1) unfolding store_sound_def by blast+
    then have new: "record_sound (es @ [e]) s' q (ad_allow d)"
      unfolding record_sound_def d(4) step_reserve(1) by (auto simp: map_of_omap_set)
    have "map_of (rs_authority s') k = (if k = rq_action q then Some (new_authority q d) else map_of (rs_authority s) k)" for k
      by (simp add: d(4) map_of_omap_set)
    with IH old new show ?thesis unfolding store_sound_def step_reserve(1) by (auto 0 4)
  next
    case (step_dispatch k r adapter)
    then obtain a where a: "map_of (rs_authority s) k = Some a" "ar_state a = Reserved"
      "s' = s \<lparr> rs_authority := omap_set k (a \<lparr> ar_state := Dispatching, ar_adapter := Some adapter, ar_pre := Some r \<rparr>) (rs_authority s) \<rparr>"
      by (elim prepare_done)
    have "record_sound (es @ [e]) s' p b" if "record_sound es s p b" for p b
      using that a unfolding record_sound_def step_dispatch(1) by (auto simp: map_of_omap_set is_held_def)
    with IH a(1) show ?thesis unfolding store_sound_def a(3) step_dispatch(1) by (auto simp: map_of_omap_set)
  next
    case (step_finish k r st)
    then obtain a where a: "map_of (rs_authority s) k = Some a"
      "s' = s \<lparr> rs_all := rs_all s @ [r], rs_authority := omap_set k (a \<lparr> ar_state := Finished st, ar_terminal := Some r \<rparr>) (rs_authority s) \<rparr>"
      by (elim finalize_done)
    have "record_sound (es @ [e]) s' p b" if "record_sound es s p b" for p b
      using that a unfolding record_sound_def step_finish(1) by (auto simp: map_of_omap_set)
    with IH a(1) show ?thesis unfolding store_sound_def a(2) step_finish(1) by (auto simp: map_of_omap_set)
  qed (use IH in \<open>auto intro!: sound_other simp: store_frames\<close>)
qed

text \<open>Authority that was granted is never lost from the history a policy is evaluated on. After any run, the candidate of a granted
  reservation is among the receipts the store answers with, or the action was finished and its receipt is among them.\<close>

theorem granted_authority_counted:
  assumes "store_run es s" "Reserve q True \<in> set es" "scope \<noteq> Some Scope_none"
  shows "rq_candidate q \<in> set (executed_receipts scope s) \<or>
    (\<exists>r st. Finish (rq_action q) r st \<in> set es \<and> fld r (js ''payload'') \<in> set (executed_receipts scope s))"
proof -
  from run_sound [OF assms(1)] assms(2) have "record_sound es s q True" by (simp add: store_sound_def)
  then obtain a where a: "map_of (rs_authority s) (rq_action q) = Some a" "ar_reservation a = q"
    "is_held a \<or> (\<exists>r st. Finish (rq_action q) r st \<in> set es \<and> r \<in> set (rs_all s))"
    unfolding record_sound_def by blast
  from map_of_SomeD [OF a(1)] have "a \<in> set (map snd (rs_authority s))" by force
  with a(2,3) assms(3) show ?thesis unfolding executed_receipts_def by auto
qed

lemma dispatch_first:
  assumes "store_run (es @ [Dispatch k r adapter]) s"
  shows "(\<exists>q. Reserve q True \<in> set es \<and> rq_action q = k) \<and> (\<forall>r' ad. Dispatch k r' ad \<notin> set es) \<and> (\<forall>r' st. Finish k r' st \<notin> set es)"
proof -
  from assms obtain m where m: "store_run es m" "store_step m (Dispatch k r adapter) s" unfolding runs_snoc_iff by blast
  from m(2) obtain a where a: "map_of (rs_authority m) k = Some a" "ar_state a = Reserved"
    by (cases rule: store_step.cases) (elim prepare_done)
  note sd = run_sound [OF m(1)]
  from sd a(1) obtain q b where q: "Reserve q b \<in> set es" "rq_action q = k" unfolding store_sound_def by blast
  with sd have "record_sound es m q b" unfolding store_sound_def by blast
  with a q(2) have "b" "\<forall>r ad. Dispatch k r ad \<notin> set es" "\<forall>r st. Finish k r st \<notin> set es" unfolding record_sound_def by auto
  with q show ?thesis by auto
qed

text \<open>At most one dispatch of an action in a run.\<close>

definition is_dispatch :: "jsstr \<Rightarrow> store_event \<Rightarrow> bool" where
  "is_dispatch k ev \<longleftrightarrow> (case ev of Dispatch j r ad \<Rightarrow> j = k | _ \<Rightarrow> False)"

lemma one_dispatch: "store_run es s \<Longrightarrow> length (filter (is_dispatch k) es) \<le> 1"
proof (induction rule: runs.induct)
  case (runs_snoc es s e s')
  show ?case
  proof (cases "is_dispatch k e")
    case True
    then obtain r ad where e: "e = Dispatch k r ad" by (auto simp: is_dispatch_def split: store_event.splits)
    from dispatch_first [of es k r ad s'] runs.runs_snoc [OF runs_snoc.hyps] have "\<forall>r' ad. Dispatch k r' ad \<notin> set es" by (auto simp: e)
    then have "filter (is_dispatch k) es = []" by (auto simp: filter_empty_conv is_dispatch_def split: store_event.splits)
    then show ?thesis by simp
  qed (use runs_snoc.IH in simp)
qed simp

text \<open>An action is dispatched only with authority, and once. When a dispatch is prepared, a reservation of that action was granted
  before, no dispatch of it was prepared before, and it was not finished.\<close>

theorem dispatched_once:
  assumes "store_run (es @ [Dispatch k r adapter]) s"
  shows "(\<exists>q. Reserve q True \<in> set es \<and> rq_action q = k) \<and> (\<forall>r' ad. Dispatch k r' ad \<notin> set es) \<and> (\<forall>r' st. Finish k r' st \<notin> set es)"
  by (rule dispatch_first [OF assms])

section \<open>A run of the authority store\<close>

text \<open>Two actions are reserved, the first is dispatched and finished; the properties of the store are applied to this run.\<close>

definition pay_candidate :: jsval where
  "pay_candidate = VObj [(js ''executed'', VBool True)]"

definition pay_reservation :: "string \<Rightarrow> string \<Rightarrow> authority_reservation" where
  "pay_reservation action request = \<lparr> rq_action = js action, rq_candidate = pay_candidate, rq_policy_ref = VNull, rq_policy_snapshot = [],
     rq_ids = [Some (js request), None], rq_context = None \<rparr>"

definition allow_all :: "jsval list \<Rightarrow> authority_decision outcome" where
  "allow_all _ = Inr \<lparr> ad_allow = True, ad_result = None \<rparr>"

definition pay_receipt :: jsval where
  "pay_receipt = VObj [(js ''payload'', VNull)]"

definition after_first :: receipt_store where
  "after_first = snd (reserve_action (pay_reservation ''action-1'' ''request-1'') allow_all None new_receipt_store)"

definition after_dispatch :: receipt_store where
  "after_dispatch = snd (prepare_dispatch (js ''action-1'') pay_receipt (js ''bank'') after_first)"

definition after_finish :: receipt_store where
  "after_finish = snd (finalize_action (js ''action-1'') pay_receipt St_executed after_dispatch)"

lemmas demo_store_simps = after_first_def after_dispatch_def after_finish_def reserve_action_def prepare_dispatch_def finalize_action_def
  new_receipt_store_def pay_reservation_def allow_all_def real_ids_def new_authority_def map_filter_def executed_receipts_def

lemma reserve_step: "reserve_action q allow_all None s = (Inr (Some d), s') \<Longrightarrow> store_step s (Reserve q True) s'"
  using step_reserve [of q allow_all None s d s'] by (auto dest!: reserve_done(3) simp: allow_all_def)

lemma first_step: "store_step new_receipt_store (Reserve (pay_reservation ''action-1'' ''request-1'') True) after_first"
  by (rule reserve_step) (simp add: demo_store_simps)

lemma dispatch_step: "store_step after_first (Dispatch (js ''action-1'') pay_receipt (js ''bank'')) after_dispatch"
  by (rule step_dispatch) (simp add: demo_store_simps)

lemma finish_step: "store_step after_dispatch (Finish (js ''action-1'') pay_receipt St_executed) after_finish"
  by (rule step_finish) (simp add: demo_store_simps)

lemma second_step: "\<exists>s. store_step after_finish (Reserve (pay_reservation ''action-2'' ''request-2'') True) s"
  by (rule exI, rule reserve_step) (simp add: demo_store_simps)

lemma dispatch_run: "store_run [Reserve (pay_reservation ''action-1'' ''request-1'') True, Dispatch (js ''action-1'') pay_receipt (js ''bank'')] after_dispatch"
  unfolding runs_Cons using first_step dispatch_step by (auto simp: runs_Nil_iff)

lemma second_run: "\<exists>s. store_run ([] @ Reserve (pay_reservation ''action-1'' ''request-1'') True #
    [Dispatch (js ''action-1'') pay_receipt (js ''bank''), Finish (js ''action-1'') pay_receipt St_executed] @
    [Reserve (pay_reservation ''action-2'' ''request-2'') True]) s"
  using first_step dispatch_step finish_step second_step by (auto simp: runs_Cons)

theorem authority_single_use_witness:
  "rq_action (pay_reservation ''action-1'' ''request-1'') \<noteq> rq_action (pay_reservation ''action-2'' ''request-2'') \<and>
     set (real_ids (pay_reservation ''action-1'' ''request-1'')) \<inter> set (real_ids (pay_reservation ''action-2'' ''request-2'')) = {}"
  using second_run by (elim exE) (rule authority_single_use)

theorem granted_authority_counted_witness:
  "rq_candidate (pay_reservation ''action-1'' ''request-1'') \<in> set (executed_receipts None after_dispatch) \<or>
    (\<exists>r st. Finish (rq_action (pay_reservation ''action-1'' ''request-1'')) r st
        \<in> set [Reserve (pay_reservation ''action-1'' ''request-1'') True, Dispatch (js ''action-1'') pay_receipt (js ''bank'')] \<and>
      fld r (js ''payload'') \<in> set (executed_receipts None after_dispatch))"
  by (rule granted_authority_counted [OF dispatch_run]) simp_all

theorem dispatched_once_witness:
  "\<exists>q. Reserve q True \<in> set [Reserve (pay_reservation ''action-1'' ''request-1'') True] \<and> rq_action q = js ''action-1''"
proof -
  have "store_run ([Reserve (pay_reservation ''action-1'' ''request-1'') True] @ [Dispatch (js ''action-1'') pay_receipt (js ''bank'')]) after_dispatch"
    using dispatch_run by simp
  from dispatched_once [OF this] show ?thesis by blast
qed

end
