(* ===== verification/GatewayProps.thy ===== *)
theory GatewayProps
  imports Gateway AuthorityProps
begin

section \<open>What the gateway promises\<close>

text \<open>
  The whole gateway as a state machine: one store and a pool of handlers. A step takes in a request, advances one handler by one await with any
  answers of the outside, or is any other use of the store (the kill switch, reconciliation, observations, another process). A run is
  a list of labels; \<open>Call\<close> is the moment the executor is called to dispatch an action, with the decision it rests on.
\<close>

datatype label =
    Take prepared_action
  | Advance nat
  | Call prepared_action engine_decision "jsval option"
  | Other store_event

type_synonym system = "receipt_store \<times> phase list"

definition label_of :: "nat \<Rightarrow> phase \<Rightarrow> label" where
  "label_of i p = (case p of Executing pa d ov \<Rightarrow> Call pa d ov | _ \<Rightarrow> Advance i)"

inductive sys_step :: "env \<Rightarrow> gateway_config \<Rightarrow> system \<Rightarrow> label \<Rightarrow> system \<Rightarrow> bool" for e g where
  sys_take: "intake e g p q opts ts uuid s = Inr pa \<Longrightarrow> sys_step e g (s, ps) (Take pa) (s, ps @ [Checking pa])"
| sys_advance: "i < length ps \<Longrightarrow> advance e g a (ps ! i) s = (p', s') \<Longrightarrow> sys_step e g (s, ps) (label_of i (ps ! i)) (s', ps[i := p'])"
| sys_other: "store_step s ev s' \<Longrightarrow> sys_step e g (s, ps) (Other ev) (s', ps)"

abbreviation sys_run :: "env \<Rightarrow> gateway_config \<Rightarrow> label list \<Rightarrow> system \<Rightarrow> bool" where
  "sys_run e g \<equiv> runs (sys_step e g) (new_receipt_store, [])"

subsection \<open>Handlers move the store only by its own steps\<close>

lemma reserve_cases:
  fixes f :: "jsval list \<Rightarrow> 'd authority_decision_scheme outcome"
  obtains r where "reserve_action q f scope s = (r, s)" "\<forall>d. r \<noteq> Inr (Some d)"
  | d s' where "reserve_action q f scope s = (Inr (Some d), s')"
proof -
  have "(\<exists>r. reserve_action q f scope s = (r, s) \<and> (\<forall>d. r \<noteq> Inr (Some d))) \<or> (\<exists>d s'. reserve_action q f scope s = (Inr (Some d), s'))"
    by (auto simp: reserve_action_def split: sum.splits)
  then show thesis using that by blast
qed

lemma reserve_event:
  assumes "reserve_action q f scope s = (Inr (Some d), s')"
  shows "store_step s (Reserve q (ad_allow d)) s'"
proof -
  note r = reserve_done [OF assms]
  have "reserve_action q (\<lambda>_. Inr (authority_decision.truncate d)) scope s = (Inr (Some (authority_decision.truncate d)), s')"
    using r(1,2) unfolding r(4) reserve_action_def
    by (auto simp: list_ex_iff new_authority_def authority_decision.truncate_def)
  from step_reserve [OF this] show ?thesis by (simp add: authority_decision.truncate_def)
qed

lemma prepare_event:
  "prepare_dispatch k r ad s = (x, s') \<Longrightarrow> (\<exists>er. x = Inl er \<and> s' = s) \<or> (x = Inr () \<and> store_step s (Dispatch k r ad) s')"
  using step_dispatch [of k r ad s s'] by (auto simp: prepare_dispatch_def split: option.splits if_splits)

lemma finalize_event:
  "finalize_action k r st s = (x, s') \<Longrightarrow> (\<exists>er. x = Inl er \<and> s' = s) \<or> (x = Inr () \<and> store_step s (Finish k r st) s')"
  using step_finish [of k r st s s'] by (auto simp: finalize_action_def split: option.splits)

definition is_executing :: "phase \<Rightarrow> bool" where
  "is_executing p \<longleftrightarrow> (case p of Executing pa d ov \<Rightarrow> True | _ \<Rightarrow> False)"

text \<open>What an advance does to the store: nothing, or one step of it; an executor is about to be called only after the step that prepares it.\<close>

lemma advance_effect:
  assumes "advance e g a p s = (p', s')"
  shows "(s' = s \<and> \<not> is_executing p') \<or> (\<exists>ev. store_step s ev s' \<and> \<not> is_executing p') \<or>
    (\<exists>pa d ov r. p = Preparing pa d ov \<and> p' = Executing pa d ov \<and> store_step s (Dispatch (pa_action pa) r (adapter_id g)) s')"
proof (cases p)
  case (Refusing pa)
  then show ?thesis using assms
    by (cases rule: reserve_cases [of "pa_reservation pa" refusal "Some Scope_none" s])
      (auto split: sum.splits option.splits dest: reserve_event simp: is_executing_def)
next
  case (Reserving pa)
  then show ?thesis using assms
    by (cases rule: reserve_cases [of "pa_reservation pa" "deciding e g pa" "Some (prior_scope_of e (ps_history (pa_policy pa)) (pa_ts pa))" s])
      (auto split: sum.splits option.splits dest: reserve_event simp: is_executing_def)
next
  case (Preparing pa d ov)
  then show ?thesis using assms by (auto split: sum.splits prod.splits dest!: prepare_event simp: is_executing_def)
next
  case (Finishing pa c)
  then show ?thesis using assms by (auto split: sum.splits prod.splits dest!: finalize_event simp: is_executing_def)
next
  case (Duplicate pa)
  then show ?thesis using assms by (auto simp: is_executing_def duplicate_result_def Let_def split: option.splits)
next
  case (Overriding pa d)
  then show ?thesis using assms by (auto simp: is_executing_def split: sum.splits option.splits)
next
  case (Simulating pa d ov)
  then show ?thesis using assms by (auto simp: is_executing_def split: executor_result.splits)
qed (use assms in \<open>auto simp: is_executing_def Let_def split: if_splits\<close>)

subsection \<open>An action is dispatched at most once\<close>

definition executing_action :: "jsstr \<Rightarrow> phase \<Rightarrow> bool" where
  "executing_action k p \<longleftrightarrow> (case p of Executing pa d ov \<Rightarrow> pa_action pa = k | _ \<Rightarrow> False)"

definition is_call :: "jsstr \<Rightarrow> label \<Rightarrow> bool" where
  "is_call k l \<longleftrightarrow> (case l of Call pa d ov \<Rightarrow> pa_action pa = k | _ \<Rightarrow> False)"

lemma is_call_label [simp]: "is_call k (label_of i p) \<longleftrightarrow> executing_action k p"
  by (simp add: is_call_def label_of_def executing_action_def split: phase.splits)

lemma no_call [simp]: "\<not> is_call k (Take pa)" "\<not> is_call k (Other ev)" "\<not> executing_action k (Checking pa)"
  by (simp_all add: is_call_def executing_action_def)

lemma executing_action_is: "executing_action k p \<Longrightarrow> is_executing p"
  by (simp add: executing_action_def is_executing_def split: phase.splits)

text \<open>Replacing one element changes a count by that element.\<close>

lemma count_update:
  "i < length xs \<Longrightarrow> length (filter P (xs[i := y])) + (if P (xs ! i) then 1 else 0) = length (filter P xs) + (if P y then 1 else 0)"
proof (induction xs arbitrary: i)
  case (Cons x xs)
  then show ?case by (cases i) auto
qed simp

lemma run_calls:
  "sys_run e g L sp \<Longrightarrow> \<exists>es. store_run es (fst sp) \<and>
     (\<forall>k. length (filter (is_call k) L) + length (filter (executing_action k) (snd sp)) \<le> length (filter (is_dispatch k) es))"
proof (induction rule: runs.induct)
  case runs_Nil
  show ?case by (intro exI [of _ "[]"]) simp
next
  case (runs_snoc L sp l sp')
  then obtain es where es: "store_run es (fst sp)"
    "\<And>k. length (filter (is_call k) L) + length (filter (executing_action k) (snd sp)) \<le> length (filter (is_dispatch k) es)" by blast
  from runs_snoc.hyps(2) show ?case
  proof (cases rule: sys_step.cases)
    case (sys_take p q opts ts uuid s pa ps)
    with es show ?thesis by (intro exI [of _ es]) simp
  next
    case (sys_other s ev s' ps)
    then have "store_run (es @ [ev]) s'" using es(1) by (auto intro: runs.runs_snoc)
    moreover have "length (filter (is_call k) (L @ [l])) + length (filter (executing_action k) ps) \<le> length (filter (is_dispatch k) (es @ [ev]))" for k
      using es(2) [of k] sys_other by (simp add: is_call_def)
    ultimately show ?thesis using sys_other by auto
  next
    case (sys_advance i ps a s p' s')
    note c = count_update [OF sys_advance(4), of "executing_action _" p']
    have l: "is_call k l \<longleftrightarrow> executing_action k (ps ! i)" for k using sys_advance(2) by simp
    from advance_effect [OF sys_advance(5)] consider
        (still) "s' = s" "\<not> is_executing p'" | (step) ev where "store_step s ev s'" "\<not> is_executing p'"
      | (prep) pa d ov r where "ps ! i = Preparing pa d ov" "p' = Executing pa d ov" "store_step s (Dispatch (pa_action pa) r (adapter_id g)) s'"
      by blast
    then show ?thesis
    proof cases
      case still
      have "length (filter (is_call k) (L @ [l])) + length (filter (executing_action k) (ps[i := p'])) \<le> length (filter (is_dispatch k) es)" for k
        using es(2) [of k] c [of k] l [of k] still(2) executing_action_is [of k p'] sys_advance(1) by (auto split: if_splits)
      with still es(1) sys_advance(1,3) show ?thesis by (intro exI [of _ es]) simp
    next
      case step
      have "length (filter (is_call k) (L @ [l])) + length (filter (executing_action k) (ps[i := p'])) \<le> length (filter (is_dispatch k) (es @ [ev]))" for k
        using es(2) [of k] c [of k] l [of k] step(2) executing_action_is [of k p'] sys_advance(1) by (auto split: if_splits)
      moreover have "store_run (es @ [ev]) s'" using es(1) step(1) sys_advance(1) by (auto intro: runs.runs_snoc)
      ultimately show ?thesis using sys_advance(3) by (intro exI [of _ "es @ [ev]"]) simp
    next
      case prep
      let ?ev = "Dispatch (pa_action pa) r (adapter_id g)"
      have "length (filter (is_call k) (L @ [l])) + length (filter (executing_action k) (ps[i := p'])) \<le> length (filter (is_dispatch k) (es @ [?ev]))" for k
        using es(2) [of k] c [of k] l [of k] prep(1,2) sys_advance(1) by (auto simp: executing_action_def is_dispatch_def split: if_splits)
      moreover have "store_run (es @ [?ev]) s'" using es(1) prep(3) sys_advance(1) by (auto intro: runs.runs_snoc)
      ultimately show ?thesis using sys_advance(3) by (intro exI [of _ "es @ [?ev]"]) simp
    qed
  qed
qed

text \<open>C2: whatever the number of requests in flight and however their steps, the kill switch and other users of the store
  interleave, the executor is called to dispatch an action at most once for each action id.\<close>

theorem effect_once:
  assumes "sys_run e g L (s, ps)"
  shows "length (filter (is_call k) L) \<le> 1"
proof -
  from run_calls [OF assms] obtain es where "store_run es s"
    "length (filter (is_call k) L) + length (filter (executing_action k) ps) \<le> length (filter (is_dispatch k) es)" by auto
  with one_dispatch [of es s k] show ?thesis by linarith
qed

subsection \<open>Only what the policy allowed is dispatched\<close>

text \<open>The decision is the policy's, taken on the history a store held at some moment of the run.\<close>

definition founded :: "env \<Rightarrow> gateway_config \<Rightarrow> label list \<Rightarrow> prepared_action \<Rightarrow> engine_decision \<Rightarrow> bool" where
  "founded e g L pa d \<longleftrightarrow>
     (\<exists>L1 L2 m ps. L = L1 @ L2 \<and> sys_run e g L1 (m, ps) \<and>
        gateway_decide e g pa (executed_receipts (Some (prior_scope_of e (ps_history (pa_policy pa)) (pa_ts pa))) m) = Inr d)"

definition unreserved :: "receipt_store \<Rightarrow> jsstr \<Rightarrow> bool" where
  "unreserved s k \<longleftrightarrow> (\<exists>a. map_of (rs_authority s) k = Some a \<and> ar_state a \<noteq> Reserved)"

definition phase_ok :: "env \<Rightarrow> gateway_config \<Rightarrow> label list \<Rightarrow> receipt_store \<Rightarrow> phase \<Rightarrow> bool" where
  "phase_ok e g L s p \<longleftrightarrow>
     (case p of
        Checking pa \<Rightarrow> rq_action (pa_reservation pa) = pa_action pa
      | Refusing pa \<Rightarrow> rq_action (pa_reservation pa) = pa_action pa
      | Reserving pa \<Rightarrow> rq_action (pa_reservation pa) = pa_action pa
      | Asking pa d \<Rightarrow> founded e g L pa d \<and> (\<not> ed_allow d \<longrightarrow> unreserved s (pa_action pa))
      | Overriding pa d \<Rightarrow> founded e g L pa d \<and> unreserved s (pa_action pa)
      | Guarding pa d ov \<Rightarrow> (if ov = None then founded e g L pa d else unreserved s (pa_action pa))
      | Guarded pa d ov \<Rightarrow> (if ov = None then founded e g L pa d else unreserved s (pa_action pa))
      | Dispatching_check pa d ov denial \<Rightarrow> ed_allow d \<longrightarrow> (if ov = None then founded e g L pa d else unreserved s (pa_action pa))
      | Preparing pa d ov \<Rightarrow> ed_allow d \<and> (if ov = None then founded e g L pa d else unreserved s (pa_action pa))
      | Executing pa d ov \<Rightarrow> ed_allow d \<and> ov = None \<and> founded e g L pa d
      | _ \<Rightarrow> True)"

lemma founded_more: "founded e g L pa d \<Longrightarrow> founded e g (L @ M) pa d"
  unfolding founded_def by (metis append.assoc)

lemma unreserved_step: "store_step s ev s' \<Longrightarrow> unreserved s k \<Longrightarrow> unreserved s' k"
proof (induction rule: store_step.induct)
  case (step_reserve q f scope s d s')
  from reserve_done(1) [OF step_reserve(1)] step_reserve(2) show ?case
    unfolding reserve_done(4) [OF step_reserve(1)] by (auto simp: unreserved_def map_of_omap_set)
next
  case (step_dispatch j r adapter s s')
  then show ?case by (elim prepare_done) (auto simp: unreserved_def map_of_omap_set)
next
  case (step_finish j r st s s')
  then show ?case by (elim finalize_done) (auto simp: unreserved_def map_of_omap_set)
qed (auto simp: unreserved_def store_frames)

lemma phase_ok_more:
  assumes "phase_ok e g L s p" "s' = s \<or> (\<exists>ev. store_step s ev s')"
  shows "phase_ok e g (L @ M) s' p"
  using assms founded_more [of e g L _ _ M] unreserved_step [of s _ s']
  by (cases p) (auto simp: phase_ok_def split: if_splits)

lemma deciding_done: "deciding e g pa prior = Inr d \<longleftrightarrow> (\<exists>x. gateway_decide e g pa prior = Inr x \<and> d = \<lparr> ad_allow = ed_allow x, ad_result = Some (VStr (ed_result x)), fd_decision = x \<rparr>)"
  by (auto simp: deciding_def rbind_Inr_iff)

lemma advance_ok:
  assumes run: "sys_run e g L (s, ps)" and p: "phase_ok e g L s p" and adv: "advance e g a p s = (p', s')"
  shows "phase_ok e g (L @ [l]) s' p'"
proof (cases p)
  case (Reserving pa)
  show ?thesis
  proof (cases rule: reserve_cases [of "pa_reservation pa" "deciding e g pa" "Some (prior_scope_of e (ps_history (pa_policy pa)) (pa_ts pa))" s])
    case (1 r)
    with adv Reserving show ?thesis by (auto simp: phase_ok_def split: sum.splits option.splits)
  next
    case (2 d t)
    note r = reserve_done [OF 2]
    from r(3) obtain x where x: "gateway_decide e g pa (executed_receipts (Some (prior_scope_of e (ps_history (pa_policy pa)) (pa_ts pa))) s) = Inr x"
      "d = \<lparr> ad_allow = ed_allow x, ad_result = Some (VStr (ed_result x)), fd_decision = x \<rparr>" unfolding deciding_done by blast
    from 2 adv Reserving have q: "p' = Asking pa (fd_decision d)" "s' = t" by simp_all
    have "founded e g (L @ [l]) pa x" unfolding founded_def using run x(1) by blast
    moreover have "\<not> ed_allow x \<Longrightarrow> unreserved t (pa_action pa)"
      using p Reserving by (auto simp: phase_ok_def unreserved_def r(4) map_of_omap_set new_authority_def x(2))
    ultimately show ?thesis by (simp add: q x(2) phase_ok_def)
  qed
next
  case (Preparing pa d ov)
  show ?thesis
  proof (cases "build_receipt (receipt_fields (pa_context pa) (ed_result d) (js ''allowed_pending'') ''none'' None @
            receipt_match (Some (ed_verdict d)) (ed_result d)) (gw_attester g)")
    case (Inr r)
    obtain x t where pd: "prepare_dispatch (pa_action pa) r (adapter_id g) s = (x, t)" by (cases "prepare_dispatch (pa_action pa) r (adapter_id g) s")
    show ?thesis
    proof (cases x)
      case (Inr u)
      with pd have pd': "prepare_dispatch (pa_action pa) r (adapter_id g) s = (Inr (), t)" by simp
      then have "\<not> unreserved s (pa_action pa)" by (elim prepare_done) (simp add: unreserved_def)
      with p Preparing have "ov = None" "ed_allow d" "founded e g L pa d" by (auto simp: phase_ok_def split: if_splits)
      with adv Preparing pd' \<open>build_receipt _ _ = Inr r\<close> show ?thesis by (auto simp: phase_ok_def intro: founded_more)
    qed (use adv Preparing pd Inr in \<open>auto simp: phase_ok_def\<close>)
  qed (use adv Preparing in \<open>auto simp: phase_ok_def\<close>)
next
  case (Refusing pa)
  then show ?thesis using adv
    by (cases rule: reserve_cases [of "pa_reservation pa" refusal "Some Scope_none" s]) (auto split: sum.splits option.splits simp: phase_ok_def)
next
  case (Finishing pa c)
  then show ?thesis using adv by (auto split: sum.splits prod.splits simp: phase_ok_def)
next
  case (Duplicate pa)
  then show ?thesis using adv by (auto simp: phase_ok_def duplicate_result_def Let_def split: option.splits)
next
  case (Simulating pa d ov)
  then show ?thesis using adv by (auto simp: phase_ok_def split: executor_result.splits)
next
  case (Overriding pa d)
  then show ?thesis using adv p by (auto simp: phase_ok_def founded_more split: sum.splits option.splits)
next
  case (Dispatching_check pa d ov denial)
  then show ?thesis using adv p by (auto simp: phase_ok_def founded_more Let_def split: if_splits)
next
  case (Guarded pa d ov)
  then show ?thesis using adv p by (auto simp: phase_ok_def founded_more Let_def denied_by_guard_def split: if_splits)
next
  case (Guarding pa d ov)
  then show ?thesis using adv p by (auto simp: phase_ok_def founded_more split: if_splits)
next
  case (Asking pa d)
  then show ?thesis using adv p by (auto simp: phase_ok_def founded_more split: if_splits)
qed (use adv p in \<open>auto simp: phase_ok_def\<close>)

lemma intake_action: "intake e g p q opts ts uuid s = Inr pa \<Longrightarrow> rq_action (pa_reservation pa) = pa_action pa"
  by (auto simp: intake_def Let_def action_reservation_def split: if_splits)

lemma sys_store:
  "sys_step e g (s, ps) l (s', ps') \<Longrightarrow> s' = s \<or> (\<exists>ev. store_step s ev s')"
  by (auto elim!: sys_step.cases dest!: advance_effect)

lemma run_ok: "sys_run e g L sp \<Longrightarrow> \<forall>p \<in> set (snd sp). phase_ok e g L (fst sp) p"
proof (induction rule: runs.induct)
  case (runs_snoc L sp l sp')
  obtain s ps s' ps' where sp: "sp = (s, ps)" "sp' = (s', ps')" by (cases sp; cases sp') auto
  from sys_store runs_snoc.hyps(2) have st: "s' = s \<or> (\<exists>ev. store_step s ev s')" unfolding sp .
  have old: "\<forall>p \<in> set ps. phase_ok e g (L @ [l]) s' p"
    using runs_snoc.IH phase_ok_more [OF _ st] by (simp add: sp)
  from runs_snoc.hyps(2) show ?case unfolding sp
  proof (cases rule: sys_step.cases)
    case (sys_take p q opts ts uuid pa)
    then have "phase_ok e g (L @ [l]) s' (Checking pa)" by (simp add: phase_ok_def intake_action)
    with old sys_take show "\<forall>p \<in> set (snd (s', ps')). phase_ok e g (L @ [l]) (fst (s', ps')) p" by simp
  next
    case (sys_advance i a p')
    from sys_advance(3) runs_snoc.IH have "phase_ok e g L s (ps ! i)" by (simp add: sp)
    from advance_ok [OF runs_snoc.hyps(1) [unfolded sp(1)] this sys_advance(4)] have "phase_ok e g (L @ [l]) s' p'" .
    moreover have "set ps' \<subseteq> insert p' (set ps)" unfolding sys_advance(2) by (rule set_update_subset_insert)
    ultimately show "\<forall>p \<in> set (snd (s', ps')). phase_ok e g (L @ [l]) (fst (s', ps')) p" using old by auto
  next
    case (sys_other ev)
    with old show "\<forall>p \<in> set (snd (s', ps')). phase_ok e g (L @ [l]) (fst (s', ps')) p" by simp
  qed
qed simp



text \<open>What a person overrides cannot be dispatched: its reservation is already closed as denied, so the handler that is about to dispatch it
  throws instead, whatever happened meanwhile, and the approvals the dispatch guard spent on it are lost.\<close>

theorem overridden_dispatch_fails:
  assumes "sys_run e g L (s, ps)" "Preparing pa d (Some o') \<in> set ps"
  shows "\<exists>x. advance e g a (Preparing pa d (Some o')) s = (Failed x, s)"
proof -
  from run_ok [OF assms(1)] assms(2) have "unreserved s (pa_action pa)" by (auto simp: phase_ok_def)
  then show ?thesis by (auto simp: unreserved_def prepare_dispatch_def split: sum.splits)
qed

subsection \<open>The kill switch\<close>

definition in_flight :: "phase \<Rightarrow> bool" where
  "in_flight p \<longleftrightarrow> (case p of Preparing pa d ov \<Rightarrow> True | Executing pa d ov \<Rightarrow> True | _ \<Rightarrow> False)"

definition any_call :: "label \<Rightarrow> bool" where
  "any_call l \<longleftrightarrow> (case l of Call pa d ov \<Rightarrow> True | _ \<Rightarrow> False)"

definition killed :: "receipt_store \<Rightarrow> bool" where
  "killed s \<longleftrightarrow> js ''global'' \<in> set (rs_stops s)"

lemma not_in_flight [simp]: "\<not> in_flight (Checking pa)"
  by (simp add: in_flight_def)

lemma any_call_label [simp]: "any_call (label_of i p) \<longleftrightarrow> is_executing p" "\<not> any_call (Take pa)" "\<not> any_call (Other ev)"
  by (simp_all add: any_call_def label_of_def is_executing_def split: phase.splits)

lemma killed_step: "store_step s ev s' \<Longrightarrow> killed s \<Longrightarrow> ev \<noteq> Stop (js ''global'') False \<Longrightarrow> killed s'"
proof (induction rule: store_step.induct)
  case (step_reserve q f scope s d s')
  then show ?case unfolding reserve_done(4) [OF step_reserve(1)] by (simp add: killed_def)
next
  case (step_dispatch j r adapter s s')
  then show ?case by (elim prepare_done) (simp add: killed_def)
next
  case (step_finish j r st s s')
  then show ?case by (elim finalize_done) (simp add: killed_def)
qed (auto simp: killed_def store_frames)

lemma killed_stops: "killed s \<Longrightarrow> stopped_for s pa"
  by (simp add: killed_def stopped_for_def is_stopped_def get_stop_state_def Let_def)

lemma advance_killed:
  assumes "advance e g a p s = (p', s')" "killed s"
  shows "killed s'" "in_flight p' \<longrightarrow> in_flight p \<and> \<not> is_executing p"
proof -
  have frame: "rs_stops s' = rs_stops s"
  proof (cases p)
    case (Refusing pa)
    then show ?thesis using assms(1)
      by (cases rule: reserve_cases [of "pa_reservation pa" refusal "Some Scope_none" s]) (auto split: sum.splits option.splits dest!: reserve_done(4))
  next
    case (Reserving pa)
    then show ?thesis using assms(1)
      by (cases rule: reserve_cases [of "pa_reservation pa" "deciding e g pa" "Some (prior_scope_of e (ps_history (pa_policy pa)) (pa_ts pa))" s])
        (auto split: sum.splits option.splits dest!: reserve_done(4))
  qed (use assms(1) in \<open>auto simp: Let_def prepare_dispatch_def finalize_action_def split: sum.splits option.splits if_splits prod.splits executor_result.splits\<close>)
  with assms(2) show "killed s'" by (simp add: killed_def)
  show "in_flight p' \<longrightarrow> in_flight p \<and> \<not> is_executing p"
  proof (cases p)
    case (Refusing pa)
    then show ?thesis using assms(1)
      by (cases rule: reserve_cases [of "pa_reservation pa" refusal "Some Scope_none" s]) (auto split: sum.splits option.splits simp: in_flight_def)
  next
    case (Reserving pa)
    then show ?thesis using assms(1)
      by (cases rule: reserve_cases [of "pa_reservation pa" "deciding e g pa" "Some (prior_scope_of e (ps_history (pa_policy pa)) (pa_ts pa))" s])
        (auto split: sum.splits option.splits simp: in_flight_def)
  next
    case (Duplicate pa)
    then show ?thesis using assms by (auto simp: in_flight_def duplicate_result_def Let_def split: option.splits)
  next
    case (Dispatching_check pa d ov denial)
    then show ?thesis using assms killed_stops [OF assms(2)] by (auto simp: in_flight_def Let_def split: if_splits)
  next
    case (Finishing pa c)
    then show ?thesis using assms by (auto simp: in_flight_def split: sum.splits prod.splits)
  next
    case (Simulating pa d ov)
    then show ?thesis using assms by (auto simp: in_flight_def split: executor_result.splits)
  next
    case (Overriding pa d)
    then show ?thesis using assms by (auto simp: in_flight_def split: sum.splits option.splits)
  next
    case (Guarded pa d ov)
    then show ?thesis using assms by (auto simp: in_flight_def Let_def split: if_splits)
  qed (use assms(1) in \<open>auto simp: in_flight_def is_executing_def split: if_splits\<close>)
qed

lemma kill_bound:
  assumes "runs (sys_step e g) sp L sp'" "killed (fst sp)" "Other (Stop (js ''global'') False) \<notin> set L"
  shows "killed (fst sp') \<and> length (filter any_call L) + length (filter in_flight (snd sp')) \<le> length (filter in_flight (snd sp))"
  using assms
proof (induction rule: runs.induct)
  case (runs_snoc L m l sp')
  then have IH: "killed (fst m)" "length (filter any_call L) + length (filter in_flight (snd m)) \<le> length (filter in_flight (snd sp))" by auto
  from runs_snoc.hyps(2) show ?case
  proof (cases rule: sys_step.cases)
    case (sys_take p q opts ts uuid s pa ps)
    with IH show ?thesis by simp
  next
    case (sys_advance i ps a s p' s')
    have k: "killed s'" "in_flight p' \<longrightarrow> in_flight (ps ! i) \<and> \<not> is_executing (ps ! i)"
      using advance_killed [OF sys_advance(5)] IH(1) sys_advance(1) by auto
    have x: "is_executing (ps ! i) \<longrightarrow> in_flight (ps ! i)" by (simp add: is_executing_def in_flight_def split: phase.splits)
    from count_update [OF sys_advance(4), of in_flight p'] k x IH sys_advance(1-3) show ?thesis by (auto split: if_splits)
  next
    case (sys_other s ev s' ps)
    with IH runs_snoc.prems(2) killed_step [of s ev s'] show ?thesis by auto
  qed
qed simp

text \<open>C12: the kill switch stops everything that is not already past its last check. From the moment the global stop is set, and as long as it
  is not lifted, the executor is called at most once for each handler that was already preparing or about to make its call.\<close>

theorem kill_switch_stops:
  assumes "runs (sys_step e g) (s, ps) L (s', ps')" "js ''global'' \<in> set (rs_stops s)" "Other (Stop (js ''global'') False) \<notin> set L"
  shows "length (filter any_call L) \<le> length (filter in_flight ps)"
  using kill_bound [OF assms(1) _ assms(3)] assms(2) by (simp add: killed_def)

subsection \<open>Two gaps\<close>

text \<open>A stop that is set and lifted again makes a handler skip the dispatch guard. The guard is skipped because the gateway is stopped, and
  the later check finds it running: with a guard configured, and whatever the guard would have answered, the action goes on to be dispatched.\<close>

theorem guard_skipped_by_stop:
  assumes "i < length ps" "ps ! i = Guarding pa d None" "ed_allow d" "\<not> pa_check_only pa" "gw_mode g = Mode_dispatch" "\<not> gw_outbound_off g"
    "\<not> stopped_for s pa"
  shows "\<exists>s'. runs (sys_step e g) (s, ps) [Other (Stop (js ''global'') True), Advance i, Other (Stop (js ''global'') False), Advance i]
    (s', ps[i := Preparing pa d None])"
proof -
  let ?on = "set_stopped (js ''global'') True s" and ?ps = "ps[i := Dispatching_check pa d None None]"
  let ?off = "set_stopped (js ''global'') False ?on"
  have ng: "js ''global'' \<notin> set (rs_stops s)" using assms(7) killed_stops [of s pa] by (auto simp: killed_def)
  have on: "stopped_for ?on pa" by (rule killed_stops) (simp add: killed_def set_stopped_def)
  have off: "\<not> stopped_for ?off pa"
    using assms(7) ng by (auto simp: set_stopped_def stopped_for_def is_stopped_def get_stop_state_def Let_def filter_id_conv)
  have "advance e g undefined (ps ! i) ?on = (Dispatching_check pa d None None, ?on)" by (simp add: assms(2) on)
  from sys_advance [OF assms(1) this] have 1: "sys_step e g (?on, ps) (Advance i) (?on, ?ps)" by (simp add: assms(2) label_of_def)
  have "advance e g undefined (?ps ! i) ?off = (Preparing pa d None, ?off)"
    using assms(1,3-6) off by (simp add: Let_def outbound_disabled_def)
  from sys_advance [OF _ this] assms(1) have 2: "sys_step e g (?off, ?ps) (Advance i) (?off, ps[i := Preparing pa d None])"
    by (simp add: label_of_def)
  have 0: "sys_step e g (s, ps) (Other (Stop (js ''global'') True)) (?on, ps)" "sys_step e g (?on, ?ps) (Other (Stop (js ''global'') False)) (?off, ?ps)"
    by (rule sys_other, rule step_stop)+
  have "runs (sys_step e g) (s, ps) [Other (Stop (js ''global'') True), Advance i, Other (Stop (js ''global'') False), Advance i]
      (?off, ps[i := Preparing pa d None])"
    unfolding runs_Cons runs_Nil_iff by (intro exI conjI) (rule 0 1 2 refl)+
  then show ?thesis by blast
qed

text \<open>Recovery mode does not hold back an executor that leaves its mode out: an allowed action goes on to be dispatched although
  outbound execution is disabled.\<close>

theorem recovery_mode_dispatches:
  assumes "gw_outbound_off g" "gw_mode g = Mode_unset" "ed_allow d" "\<not> pa_check_only pa" "\<not> stopped_for s pa"
  shows "advance e g a (Dispatching_check pa d ov denial) s = (Preparing pa d ov, s)"
  using assms by (simp add: Let_def outbound_disabled_def)

end
