(* ===== verification/EngineProps.thy ===== *)
theory EngineProps
  imports Engine VerdictProps CanonicalFacts
begin

section \<open>What the gateway decides\<close>



lemma candidate_norm [simp]: "norm (candidate_receipt q ts) = candidate_receipt q ts"
  by (simp add: norm_def candidate_receipt_def js_simps)

lemma candidate_executed [simp]: "executed_of (candidate_receipt q ts)"
  by (simp add: executed_of_def candidate_receipt_def js_simps)


lemma decision_of_verdict [simp]: "ed_verdict (decision_of policy q v) = v"
  by (simp add: decision_of_def Let_def)


subsection \<open>The hash of a live verdict\<close>

definition refused_hash :: "env \<Rightarrow> jsstr" where
  "refused_hash e = to_hex (sha256 e (utf8 (js ''invalid non-JSON policy or action input'')))"

lemma decide_hash [simp]: "inputs_hash (decide h fs und) = h"
  by (auto simp: decide_def mk_verdict_def Let_def split: list.splits option.splits)

lemma violates_hash:
  assumes "violates e policy receipts claim opts = Inr v"
    "inputs_hash_of e policy (map norm (elems receipts)) (norm claim) (case opt_at opts of Some s \<Rightarrow> VStr s | None \<Rightarrow> timestamp_of (norm claim)) = Inl x"
  shows "inputs_hash v = refused_hash e"
  using assms unfolding violates_def evaluate_def
  by (auto simp: Let_def rbind_Inr_iff mk_verdict_def refused_hash_def split: if_splits)

text \<open>An action that comes without an approval gets a verdict whose \<open>inputs_hash\<close> is one constant, whatever the policy, the history and
  the action: the candidate carries the absent approval as a member that is undefined, which has no canonical text.\<close>

theorem live_hash_constant:
  assumes "engine_evaluate e policy prior q ts whole cooperative = Inr d" "er_approval q = VUndef"
  shows "inputs_hash (ed_verdict d) = refused_hash e"
proof -
  let ?p = "if cooperative then map count_cooperative prior else prior"
  from assms(1) obtain v where v: "violates e policy (VArr ?p) (candidate_receipt q ts) \<lparr> opt_at = Some ts, opt_complete = whole \<rparr> = Inr v"
    "d = decision_of policy q v" by (auto simp: engine_evaluate_def rbind_Inr_iff)
  have "\<not> json_ok (VObj [(js ''policy'', policy), (js ''receipts'', VArr (map norm ?p)), (js ''claimed'', candidate_receipt q ts), (js ''at'', VStr ts)])"
    using assms(2) by (simp add: candidate_receipt_def)
  then have "\<not> returns (inputs_hash_of e policy (map norm ?p) (candidate_receipt q ts) (VStr ts))"
    unfolding canonical_returns [symmetric] by (auto simp: inputs_hash_of_def returns_iff rbind_Inr_iff)
  then obtain x where "inputs_hash_of e policy (map norm ?p) (candidate_receipt q ts) (VStr ts) = Inl x"
    by (cases "inputs_hash_of e policy (map norm ?p) (candidate_receipt q ts) (VStr ts)") auto
  with violates_hash [OF v(1), of x] show ?thesis by (simp add: v(2) elems_def)
qed

end
