(* ===== verification/Reconcile.thy ===== *)
theory Reconcile
  imports Gateway
begin

section \<open>Observation and reconciliation\<close>

text \<open>
  \<open>observeAction\<close>, \<open>unresolvedActions\<close> and \<open>reconcileAction\<close> of \<^verbatim>\<open>packages/gateway/src/app.ts\<close>. Reconciliation is cut where it
  awaits, as the handler is: between reading a record, asking the executor and finishing the action, other users of the store may run.
\<close>

subsection \<open>Observation\<close>

definition observed_fields :: "env \<Rightarrow> jsval \<Rightarrow> jsstr list \<Rightarrow> jsstr \<Rightarrow> jsstr \<Rightarrow> jsstr \<Rightarrow> policy_state \<Rightarrow> jsval \<Rightarrow> jsstr \<Rightarrow> jsstr \<Rightarrow> jsval \<Rightarrow> jsval \<Rightarrow> (jsstr \<times> jsval) list" where
  "observed_fields e intent places h evidence action p authorization kid ts context intel =
     [(js ''evidence_version'', VStr (js ''1.0'')), (js ''canonicalization'', VStr (js ''RFC8785'')), (js ''intent'', intent), (js ''intent_hash'', VStr h),
      (js ''action_ref'', VObj [(js ''action_id'', VStr action), (js ''authorized_intent_hash'', VStr h), (js ''evidence_intent_hash'', VStr evidence)]),
      (js ''policy_hash'', VStr (ps_hash p)), (js ''policy_version'', ps_version p), (js ''policy_ref'', policy_ref_of p),
      (js ''verifier_version'', VStr verifier_version), (js ''realtime_result'', VStr (js ''not_evaluated'')), (js ''executed'', VBool False),
      (js ''execution_ref'', VNull),
      (js ''execution'', VObj [(js ''state'', VStr (js ''observed_not_evaluated'')), (js ''assertion'', VStr (js ''none'')), (js ''reference'', VNull),
         (js ''external_effect'', VStr (js ''not_independently_verified''))]),
      (js ''redaction'', VObj [(js ''profile'', VStr redaction_profile), (js ''paths'', VArr (map VStr places))]),
      (js ''authorization'', authorization), (js ''attester'', VObj [(js ''kind'', VStr (js ''gateway'')), (js ''kid'', VStr kid)]),
      (js ''timestamp'', VStr ts)] @
     (if truthy context then [(js ''context'', context)] else []) @ receipt_intel_members intel"

definition observe_action ::
  "env \<Rightarrow> gateway_config \<Rightarrow> policy_state \<Rightarrow> action_request \<Rightarrow> jsval \<Rightarrow> jsval \<Rightarrow> jsstr \<Rightarrow> jsstr \<Rightarrow> receipt_store \<Rightarrow> jsval checked \<times> receipt_store" where
  "observe_action e g p q context intel ts uuid s =
     (let intent = rqs_intent q;
          built =
            (if \<not> valid (validate_intent intent) \<or> (context \<noteq> VUndef \<and> \<not> validate_receipt_context context) \<or>
                (intel \<noteq> VUndef \<and> \<not> validate_receipt_intel intel) then Inl (Threw TypeErr)
             else cbind (lift_o (intent_hash e intent)) (\<lambda>h.
             cbind (lift_o (minimize_intent_for_evidence e (gw_scrub g) intent)) (\<lambda>(kept, places).
             cbind (lift_o (intent_hash e kept)) (\<lambda>evidence.
             cbind (authorize_action e g q ts (policy_ref_of p) s) (\<lambda>(authorization, approval).
               let action = (case fld (fld authorization (js ''agent'')) (js ''request_id'') of VStr k \<Rightarrow> k | _ \<Rightarrow> uuid) in
               lift_o (build_receipt (observed_fields e kept places h evidence action p authorization (at_kid (gw_attester g)) ts context intel)
                 (gw_attester g)))))))
      in (case built of Inl x \<Rightarrow> (Inl x, s) | Inr r \<Rightarrow> (Inr r, put_receipt r s)))"

subsection \<open>Reconciliation\<close>

datatype reconciliation =
    Rec_reading jsstr
  | Rec_querying lifecycle_record
  | Rec_storing lifecycle_record query_result
  | Rec_reading_back jsstr
  | Rec_done "lifecycle_record option"
  | Rec_failed exn

definition reconciled_state :: "query_result \<Rightarrow> final_state" where
  "reconciled_state q = (case q of Q_executed _ _ \<Rightarrow> St_executed | Q_failed _ _ \<Rightarrow> St_failed | Q_unknown _ \<Rightarrow> St_outcome_unknown)"

definition reconciled_ref :: "query_result \<Rightarrow> jsstr option" where
  "reconciled_ref q = (case q of Q_executed r _ \<Rightarrow> Some r | Q_failed r _ \<Rightarrow> r | Q_unknown r \<Rightarrow> r)"

definition reconciled_fields :: "(jsstr \<times> jsval) list \<Rightarrow> jsval option \<Rightarrow> query_result \<Rightarrow> (jsstr \<times> jsval) list" where
  "reconciled_fields context result q =
     (let st = reconciled_state q; ref = ref_value (reconciled_ref q) in
      spread context
        [(js ''realtime_result'', case result of Some v \<Rightarrow> v | None \<Rightarrow> VStr (js ''allow'')), (js ''executed'', VBool (st = St_executed)),
         (js ''execution_ref'', ref),
         (js ''execution'', VObj [(js ''state'', VStr (state_text st)),
            (js ''assertion'', VStr (js (if st = St_executed then ''adapter_reported_success'' else ''adapter_reported_failure''))),
            (js ''reference'', ref), (js ''external_effect'', VStr (js ''not_independently_verified''))])])"

definition not_started :: query_result where
  "not_started = Q_failed (Some (js ''gateway:dispatch-not-started'')) VUndef"

definition unavailable :: "string \<Rightarrow> reconciliation" where
  "unavailable t = Rec_failed (Err (js t))"

fun reconcile_step :: "gateway_config \<Rightarrow> query_result outcome \<Rightarrow> reconciliation \<Rightarrow> receipt_store \<Rightarrow> reconciliation \<times> receipt_store" where
  "reconcile_step g q (Rec_reading k) s =
     (case get_action k s of
        None \<Rightarrow> unavailable ''unknown action lifecycle record''
      | Some r \<Rightarrow>
          if lr_state r \<noteq> Reserved \<and> lr_state r \<noteq> Dispatching \<and> lr_state r \<noteq> Finished St_outcome_unknown then Rec_done (Some r)
          else if lr_state r = Reserved then Rec_storing r not_started
          else if gw_outbound_off g then unavailable ''outbound result queries are disabled in recovery mode''
          else if \<not> gw_can_query g \<or> lr_adapter r \<noteq> Some (adapter_id g) then unavailable ''the configured adapter cannot query this action''
          else Rec_querying r, s)"
| "reconcile_step g q (Rec_querying r) s =
     (case q of
        Inr (Q_executed ref out) \<Rightarrow> Rec_storing r (Q_executed ref out)
      | Inr (Q_failed ref out) \<Rightarrow> Rec_storing r (Q_failed ref out)
      | _ \<Rightarrow> Rec_done (Some r), s)"
| "reconcile_step g q (Rec_storing r x) s =
     (case rq_context (lr_reservation r) of
        None \<Rightarrow> (unavailable ''legacy lifecycle record cannot reconstruct a receipt'', s)
      | Some context \<Rightarrow>
          (case build_receipt (reconciled_fields (members context) (lr_result r) x) (gw_attester g) of
             Inl err \<Rightarrow> (Rec_failed err, s)
           | Inr receipt \<Rightarrow>
               (case finalize_action (lr_action r) receipt (reconciled_state x) s of
                  (Inl err, s') \<Rightarrow> (Rec_failed err, s')
                | (Inr _, s') \<Rightarrow> (Rec_reading_back (lr_action r), s'))))"
| "reconcile_step g q (Rec_reading_back k) s = (Rec_done (get_action k s), s)"
| "reconcile_step g q (Rec_done r) s = (Rec_done r, s)"
| "reconcile_step g q (Rec_failed x) s = (Rec_failed x, s)"

text \<open>A reconciliation that nothing interrupts: four steps are as many as it takes.\<close>

definition reconcile_action :: "gateway_config \<Rightarrow> query_result outcome \<Rightarrow> jsstr \<Rightarrow> receipt_store \<Rightarrow> reconciliation \<times> receipt_store" where
  "reconcile_action g q k s = ((\<lambda>(p, t). reconcile_step g q p t) ^^ 4) (Rec_reading k, s)"

end
