(* ===== verification/ReconcileProps.thy ===== *)
theory ReconcileProps
  imports Reconcile GatewayProps EngineProps
begin

section \<open>What reconciliation and observation promise\<close>

text \<open>
  Reconciliation settles what it is given, in any order with the other steps of the gateway, but trusts a state it read before; an observation's
  receipt weighs nothing in later decisions.
\<close>

text \<open>A step of a reconciliation leaves the store alone, or is the step that finishes the action it read: it is one of the other uses
  of the store in the runs of the gateway, so what holds in every run of it holds with reconciliations running.\<close>

lemma reconcile_effect:
  assumes "reconcile_step g q p s = (p', s')"
  shows "s' = s \<or> (\<exists>r x receipt. p = Rec_storing r x \<and> store_step s (Finish (lr_action r) receipt (reconciled_state x)) s')"
proof (cases p)
  case (Rec_storing r x)
  then show ?thesis using assms by (auto split: option.splits sum.splits prod.splits dest!: finalize_event)
qed (use assms in \<open>auto simp: unavailable_def split: option.splits sum.splits query_result.splits if_splits\<close>)



lemma get_action_Some: "get_action k s = Some r \<Longrightarrow> lr_action r = k \<and> (\<exists>a. map_of (rs_authority s) k = Some a \<and> r = lifecycle_of k a)"
  by (auto simp: get_action_def lifecycle_of_def)





text \<open>A reconciliation can contradict an effect. A reconciliation that reads an action still reserved goes on to record it as failed
  because its dispatch was never started; a handler that prepares the dispatch in between is about to call the executor, and the
  record then says that the action failed before it began.\<close>

theorem late_reconcile_contradicts:
  assumes "reconcile_step g q (Rec_reading (pa_action pa)) s = (Rec_storing r x, s)" "lr_state r = Reserved"
    "advance e g a (Preparing pa d ov) s = (Executing pa d ov, s')"
    "rq_context (lr_reservation r) = Some context"
    "build_receipt (reconciled_fields (members context) (lr_result r) x) (gw_attester g) = Inr receipt"
  shows "x = not_started \<and>
    (\<exists>r' s''. reconcile_step g q' (Rec_storing r x) s' = (Rec_reading_back (pa_action pa), s'') \<and> get_action (pa_action pa) s'' = Some r' \<and>
       lr_state r' = Finished St_failed \<and> receipt \<in> set (rs_all s''))"
proof -
  from assms(1,2) have x: "x = not_started" and r: "get_action (pa_action pa) s = Some r"
    by (auto simp: unavailable_def split: option.splits if_splits)
  from assms(3) obtain p where p: "prepare_dispatch (pa_action pa) p (adapter_id g) s = (Inr (), s')"
    by (auto split: sum.splits prod.splits)
  obtain b where "map_of (rs_authority s') (pa_action pa) = Some b"
    using that by (rule prepare_done [OF p]) (simp add: map_of_omap_set)
  with x get_action_Some [OF r] assms(4,5) show ?thesis
    by (auto simp: finalize_action_def get_action_def lifecycle_of_def map_of_omap_set reconciled_state_def not_started_def)
qed

subsection \<open>Observations\<close>

lemma intel_keys: "k \<notin> {js ''pattern_id'', js ''intel''} \<Longrightarrow> map_of (receipt_intel_members v) k = None"
  by (auto simp: receipt_intel_members_def given_def)

lemma intel_no_payload: "map_of (receipt_intel_members v) (js ''payload'') = None"
  by (rule intel_keys) (simp add: js_def)

lemma context_no_payload: "map_of (if b then [(js ''context'', c)] else []) (js ''payload'') = None"
  by (simp add: js_def)

lemma observed_payload:
  assumes "observe_action e g p q context intel ts uuid s = (Inr r, s')"
  shows "s' = put_receipt r s" "executed_of (norm (fld r (js ''payload''))) = False" "count_cooperative (fld r (js ''payload'')) = fld r (js ''payload'')"
proof -
  from assms show "s' = put_receipt r s" by (auto simp: observe_action_def Let_def split: sum.splits)
  from assms have "\<exists>i pl h ev ac au kid. build_receipt (observed_fields e i pl h ev ac p au kid ts context intel) (gw_attester g) = Inr r"
    by (auto simp: observe_action_def Let_def split: sum.splits if_splits) (intro exI, assumption)+
  then obtain fs where r: "build_receipt fs (gw_attester g) = Inr r" and
    fs: "\<exists>i pl h ev ac au kid. fs = observed_fields e i pl h ev ac p au kid ts context intel" by blast
  from r have p: "fld r (js ''payload'') = VObj ((js ''type'', VStr (js ''scopebond:receipt'')) # fs)"
    by (auto simp: build_receipt_def Let_def rbind_Inr_iff js_simps)
  show "executed_of (norm (fld r (js ''payload''))) = False" "count_cooperative (fld r (js ''payload'')) = fld r (js ''payload'')"
    using fs unfolding p by (auto simp: norm_def executed_of_def count_cooperative_def observed_fields_def js_simps intel_no_payload context_no_payload map_add_def)
qed


lemma same_decision:
  assumes "decision v = decision v'"
  shows "ed_allow (decision_of policy q v) = ed_allow (decision_of policy q v')" "ed_result (decision_of policy q v) = ed_result (decision_of policy q v')"
    "ed_mode (decision_of policy q v) = ed_mode (decision_of policy q v')"
proof -
  from assms have e: "violated v = violated v'" "clause_id v = clause_id v'" "undetermined v = undetermined v'" by (simp_all add: decision_def)
  have m: "violated_mode policy v = violated_mode policy v'" by (simp add: violated_mode_def named_clause_def e(2))
  show "ed_allow (decision_of policy q v) = ed_allow (decision_of policy q v')" "ed_result (decision_of policy q v) = ed_result (decision_of policy q v')"
    "ed_mode (decision_of policy q v) = ed_mode (decision_of policy q v')"
    by (simp_all add: decision_of_def e m Let_def)
qed

definition what_is_done :: "engine_decision \<Rightarrow> bool \<times> jsstr \<times> jsstr option" where
  "what_is_done d = (ed_allow d, ed_result d, ed_mode d)"

lemma same_done: "decision v = decision v' \<Longrightarrow> what_is_done (decision_of policy q v) = what_is_done (decision_of policy q v')"
  unfolding what_is_done_def using same_decision by blast

lemma same_outcome:
  "map_sum id decision a = map_sum id decision b \<Longrightarrow>
     map_sum id what_is_done (rbind a (\<lambda>v. Inr (decision_of policy q v))) = map_sum id what_is_done (rbind b (\<lambda>v. Inr (decision_of policy q v)))"
  by (cases a; cases b) (auto intro: same_done)

lemma unexecuted_dropped:
  assumes "\<not> executed_of (norm x)"
  shows "map_sum id decision (violates e policy (VArr (xs @ x # ys)) claim opts) = map_sum id decision (violates e policy (VArr (xs @ ys)) claim opts)"
  using unexecuted_receipts_ignored [of e policy "xs @ x # ys" claim opts] unexecuted_receipts_ignored [of e policy "xs @ ys" claim opts] assms by simp

text \<open>C29: observing changes no decision. The receipt of an observation, wherever it stands in the history, leaves what the engine
  allows, the result it signs and the mode it reports as they would be without it.\<close>

theorem observation_changes_no_decision:
  assumes "observe_action e g p q context intel ts uuid s = (Inr r, s')"
  shows "map_sum id what_is_done (engine_evaluate e policy (xs @ fld r (js ''payload'') # ys) rq at' whole cooperative) =
    map_sum id what_is_done (engine_evaluate e policy (xs @ ys) rq at' whole cooperative)"
proof -
  note o = observed_payload(2,3) [OF assms]
  let ?f = "\<lambda>zs. if cooperative then map count_cooperative zs else zs" and ?opts = "\<lparr> opt_at = Some at', opt_complete = whole \<rparr>"
  have "map_sum id decision (violates e policy (VArr (?f (xs @ fld r (js ''payload'') # ys))) (candidate_receipt rq at') ?opts) =
      map_sum id decision (violates e policy (VArr (?f (xs @ ys))) (candidate_receipt rq at') ?opts)"
    using unexecuted_dropped [of "fld r (js ''payload'')" e policy "?f xs" "?f ys" "candidate_receipt rq at'" ?opts] o by (simp split: if_splits)
  then show ?thesis unfolding engine_evaluate_def by (rule same_outcome)
qed

end
