(* ===== verification/GatewayDemo.thy ===== *)
theory GatewayDemo
  imports GatewayProps EngineProps CoverageProps AuthorityProps ReconcileProps
begin

section \<open>One payment through the gateway\<close>

text \<open>
  A policy that lists one action type, a gateway without authentication whose executor dispatches, and one request followed through all its
  phases to the call of the executor. The properties of the engine and of the gateway are applied to it.
\<close>

definition pay_policy :: jsval where
  "pay_policy = policy_with [VObj [(js ''id'', VStr (js ''a'')), (js ''type'', VStr (js ''action_allowlist'')), (js ''action_types'', VArr [VStr (js ''pay'')])]]"

definition pay_intent :: "string \<Rightarrow> jsval" where
  "pay_intent k = VObj [(js ''action_type'', VStr (js k))]"

definition pay_query :: "string \<Rightarrow> engine_request" where
  "pay_query k = \<lparr> er_intent = pay_intent k, er_approval = VUndef, er_intent_hash = zero_hash \<rparr>"

lemma pay_accepted: "validate_policy sum_env pay_policy = Inr \<lparr> valid = True, errors = [] \<rparr>"
  by code_simp

lemma pay_valid: "valid (validate_intent (pay_intent ''pay''))" "valid (validate_intent (pay_intent ''steal''))"
  by code_simp+

lemma pay_clauses: "clauses_of pay_policy = [VObj [(js ''id'', VStr (js ''a'')), (js ''type'', VStr (js ''action_allowlist'')), (js ''action_types'', VArr [VStr (js ''pay'')])]]"
  by (simp add: pay_policy_def policy_with_def clauses_of_def js_simps)

lemma sum_ms: "ms sum_env v = Fin 0"
  by (simp add: ms_def sum_env_def jint_def)

abbreviation pay_claim :: "string \<Rightarrow> jsval" where
  "pay_claim k \<equiv> candidate_receipt (pay_query k) (js ''now'')"

definition pay_ctx :: "string \<Rightarrow> eval_ctx" where
  "pay_ctx k = \<lparr> claimed = pay_claim k, unique = [(True, pay_claim k)], at_ms = 0, incomplete = True \<rparr>"

lemma pay_findings:
  "clause_findings sum_env (pay_ctx ''pay'') 0 (clauses_of pay_policy) = Inr ([], None)"
  "clause_findings sum_env (pay_ctx ''steal'') 0 (clauses_of pay_policy) = Inr ([], None)"
  by code_simp+

lemma pay_others: "allowlist_findings (pay_ctx ''pay'') (clauses_of pay_policy) = []" "uncovered_findings (pay_ctx ''pay'') (clauses_of pay_policy) = []"
  by code_simp+

lemma steal_found: "allowlist_findings (pay_ctx ''steal'') (clauses_of pay_policy) \<noteq> []"
  by code_simp

lemma pay_unique: "executed_unique [] (pay_claim k) = [(True, pay_claim k)]"
  by (simp add: executed_unique_def omap_of_list_def)

lemma pay_claim_intent: "intent_of (pay_claim k) = pay_intent k"
  by (simp add: intent_of_def candidate_receipt_def pay_query_def js_simps)

lemma pay_violates:
  assumes "valid (validate_intent (pay_intent k))" "clause_findings sum_env (pay_ctx k) 0 (clauses_of pay_policy) = Inr ([], None)"
  shows "\<exists>h. violates sum_env pay_policy (VArr []) (pay_claim k) \<lparr> opt_at = Some (js ''now''), opt_complete = Some False \<rparr> =
    Inr (decide h (allowlist_findings (pay_ctx k) (clauses_of pay_policy) @ uncovered_findings (pay_ctx k) (clauses_of pay_policy)) None)"
  using assms pay_unique [of k]
  by (simp add: violates_def pay_accepted pay_claim_intent elems_def eval_at_def sum_ms is_finite_num_def evaluate_def pay_ctx_def num_int_def Let_def) (intro exI, rule refl)

lemma pay_decision: "\<exists>d. engine_evaluate sum_env pay_policy [] (pay_query ''pay'') (js ''now'') (Some False) False = Inr d \<and>
    ed_allow d \<and> ed_result d = js ''allow'' \<and> \<not> violated (ed_verdict d) \<and> \<not> undetermined (ed_verdict d)"
  using pay_violates [OF pay_valid(1) pay_findings(1)] pay_others
  by (auto simp: engine_evaluate_def decision_of_def approval_applied_def pay_query_def decide_def mk_verdict_def)

lemma pay_enforced: "violated_mode pay_policy v = js ''enforce''"
  by (simp add: violated_mode_def named_clause_def pay_clauses is_type_def js_simps split: option.splits)

lemma steal_decision: "\<exists>d. engine_evaluate sum_env pay_policy [] (pay_query ''steal'') (js ''now'') (Some False) False = Inr d \<and>
    \<not> ed_allow d \<and> ed_result d = js ''deny''"
  using pay_violates [OF pay_valid(2) pay_findings(2)] steal_found
  by (auto simp: engine_evaluate_def decision_of_def pay_enforced decide_def mk_verdict_def Let_def js_def)




theorem live_hash_constant_witness:
  "\<exists>d. engine_evaluate sum_env pay_policy [] (pay_query ''pay'') (js ''now'') (Some False) False = Inr d \<and> inputs_hash (ed_verdict d) = refused_hash sum_env"
proof -
  obtain d where d: "engine_evaluate sum_env pay_policy [] (pay_query ''pay'') (js ''now'') (Some False) False = Inr d" using pay_decision by blast
  from live_hash_constant [OF d] d show ?thesis by (simp add: pay_query_def)
qed

subsection \<open>The run\<close>

definition pay_state :: policy_state where
  "pay_state = \<lparr> ps_policy = pay_policy, ps_hash = zero_hash, ps_version = VNum (jint 1), ps_history = Need_none \<rparr>"

definition pay_gateway :: gateway_config where
  "pay_gateway = \<lparr> gw_check_only = False, gw_mode = Mode_dispatch, gw_outbound_off = False, gw_executor_id = Some (js ''bank''), gw_can_query = False,
     gw_complete = None, gw_auth = None, gw_guarded = False, gw_attester = \<lparr> at_kid = js ''key:0'', at_sign = (\<lambda>_. Inr (js ''sig'')) \<rparr>, gw_scrub = (\<lambda>t. t),
     gw_open = (\<lambda>_. Inl TypeErr), gw_verify = (\<lambda>_ _ _. Inr False), gw_validate = (\<lambda>_. Inr ()) \<rparr>"

definition pay_options :: "bool \<Rightarrow> action_options" where
  "pay_options b = \<lparr> op_check_only = None, op_observed_after = False, op_override = b, op_context = VUndef, op_budget = VUndef, op_intel = VUndef \<rparr>"

definition pay_request :: "string \<Rightarrow> action_request" where
  "pay_request k = \<lparr> rqs_intent = pay_intent k, rqs_authorization = VUndef, rqs_approval = VUndef \<rparr>"

definition pay_fields :: "bool \<Rightarrow> string \<Rightarrow> (jsstr \<times> jsval) list" where
  "pay_fields b k =
     context_fields sum_env (pay_intent k) [] zero_hash zero_hash (js ''action-1'') pay_state insecure_evidence (js ''key:0'') (js ''now'') (pay_options b)"

definition pay_action :: "bool \<Rightarrow> string \<Rightarrow> jsstr \<Rightarrow> prepared_action" where
  "pay_action b k snapshot = \<lparr> pa_intent = pay_intent k, pa_hash = zero_hash, pa_ts = js ''now'', pa_action = js ''action-1'', pa_policy = pay_state,
     pa_approval = VUndef, pa_context = pay_fields b k,
     pa_reservation = action_reservation (pay_intent k) zero_hash (js ''action-1'') (js ''now'') False pay_state snapshot insecure_evidence VUndef (pay_fields b k),
     pa_check_only = False, pa_observed = False, pa_override = b \<rparr>"

lemma pay_text_hash [simp]: "text_hash sum_env t = zero_hash"
  by (simp add: text_hash_def sum_env_def gate_env_def zero_hash_def)

lemma pay_intent_hash: "intent_hash sum_env (pay_intent k) = Inr zero_hash"
proof -
  have "json_ok (pay_intent k)" by (simp add: pay_intent_def)
  then have "returns (canonical (pay_intent k))" by (simp only: canonical_returns)
  then show ?thesis by (auto simp: intent_hash_def returns_iff)
qed

lemma pay_minimized: "minimize_intent_for_evidence sum_env (\<lambda>t. t) (pay_intent k) = Inr ((pay_intent k), [])"
proof -
  have k: "normalized_key (js ''action_type'') = js ''action-type''"
    by (simp add: normalized_key_def lower_view_def js_trim_def js_def is_space_def lower_unit_def is_upper_def)
  have s: "\<not> is_secret_key (js ''action-type'')" "\<not> is_body_key (js ''action-type'')" "js ''action-type'' \<in> set clear_keys"
    by (simp_all add: is_secret_key_def is_body_key_def clear_keys_def secret_keys_def) (simp_all add: js_def ends_with_def starts_with_def)
  show ?thesis
    by (simp add: minimize_intent_for_evidence_def pay_intent_def minimize_value.simps k s typeof_object_def is_obj_def is_arr_def assigned_def sort_strings_def)
qed

lemma one_finite: "is_finite_num (jint 1)"
  by code_simp

lemma pay_policy_text: "\<exists>t. canonical pay_policy = Inr t"
proof -
  have "json_ok pay_policy" by (simp add: pay_policy_def policy_with_def one_finite)
  then show ?thesis by (simp only: canonical_returns [symmetric] returns_iff)
qed

lemma pay_intake:
  assumes "valid (validate_intent (pay_intent k))"
  shows "\<exists>t. intake sum_env pay_gateway pay_state (pay_request k) (pay_options b) (js ''now'') (js ''action-1'') s = Inr (pay_action b k t)"
proof -
  obtain t where t: "canonical pay_policy = Inr t" using pay_policy_text by blast
  have "intake sum_env pay_gateway pay_state (pay_request k) (pay_options b) (js ''now'') (js ''action-1'') s = Inr (pay_action b k t)"
    using assms t pay_intent_hash pay_minimized
    by (simp add: intake_def pay_request_def pay_options_def options_valid_def pay_gateway_def authorize_action_def pay_state_def pay_action_def
        pay_fields_def insecure_evidence_def js_simps Let_def)
  then show ?thesis by blast
qed

definition pay_answers :: answers where
  "pay_answers = \<lparr> an_override = Inr (Some VNull), an_guard = (\<lambda>_. Inl TypeErr), an_execute = (\<lambda>_ _. Ex_ok (js ''ref'') VUndef), an_query = (\<lambda>_. Inl TypeErr) \<rparr>"

lemma new_not_stopped: "rs_stops s = [] \<Longrightarrow> \<not> stopped_for s pa"
  by (simp add: stopped_for_def is_stopped_def get_stop_state_def Let_def split: jsval.splits)

lemma insecure_json [simp]: "json_ok insecure_evidence" "\<not> truthy (fld insecure_evidence (js ''agent''))"
  by (simp_all add: insecure_evidence_def js_simps)

lemma pay_fields_json: "list_all (\<lambda>(k, v). json_ok v \<and> \<not> has_lone_surrogate k) (pay_fields b k)"
  by (simp add: pay_fields_def context_fields_def pay_options_def receipt_intel_members_def policy_ref_of_def pay_state_def policy_id_of_def
      pay_policy_def policy_with_def pay_intent_def verifier_version_def redaction_profile_def one_finite js_simps)

lemma pay_pending:
  assumes "ed_result d = js ''allow''" "\<not> violated (ed_verdict d)" "\<not> undetermined (ed_verdict d)"
  shows "\<exists>r. build_receipt (receipt_fields (pay_fields b k) (ed_result d) (js ''allowed_pending'') ''none'' None @
    receipt_match (Some (ed_verdict d)) (ed_result d)) (gw_attester pay_gateway) = Inr r"
proof -
  have m: "receipt_match (Some (ed_verdict d)) (ed_result d) = []" using assms by (auto simp: receipt_match_def split: option.splits)
  have "json_ok (VObj ((js ''type'', VStr (js ''scopebond:receipt'')) # receipt_fields (pay_fields b k) (ed_result d) (js ''allowed_pending'') ''none'' None))"
    using pay_fields_json [of b k] assms(1) by (auto simp: receipt_fields_def ref_value_def list_all_iff)
  then have "\<exists>t. canonical (VObj ((js ''type'', VStr (js ''scopebond:receipt'')) # receipt_fields (pay_fields b k) (ed_result d) (js ''allowed_pending'') ''none'' None)) = Inr t"
    by (simp only: canonical_returns [symmetric] returns_iff)
  then show ?thesis by (auto simp: build_receipt_def m pay_gateway_def Let_def)
qed

lemma pay_decide: "gateway_decide sum_env pay_gateway (pay_action b k t) [] = engine_evaluate sum_env pay_policy [] (pay_query k) (js ''now'') (Some False) False"
  by (simp add: gateway_decide_def pay_action_def pay_state_def bound_prior_def pay_query_def pay_gateway_def)

lemma one_advance:
  assumes "runs (sys_step e g) sp L (s, [p])" "advance e g a p s = (p', s')"
  shows "runs (sys_step e g) sp (L @ [label_of 0 p]) (s', [p'])"
  using runs_snoc [OF assms(1)] sys_advance [of 0 "[p]" e g a s p' s'] assms(2) by simp

lemmas pay_advance = one_advance [where e = sum_env and g = pay_gateway and a = pay_answers and sp = "(new_receipt_store, [])"]

lemma pay_config [simp]: "\<not> gw_guarded pay_gateway" "gw_mode pay_gateway = Mode_dispatch" "\<not> gw_outbound_off pay_gateway" "\<not> outbound_disabled pay_gateway"
  by (simp_all add: pay_gateway_def outbound_disabled_def)

lemma pay_action_sel [simp]:
  "pa_action (pay_action b k t) = js ''action-1''" "rq_action (pa_reservation (pay_action b k t)) = js ''action-1''"
  "real_ids (pa_reservation (pay_action b k t)) = []" "\<not> pa_check_only (pay_action b k t)" "\<not> pa_observed (pay_action b k t)"
  "pa_override (pay_action b k t) = b" "pa_context (pay_action b k t) = pay_fields b k" "ps_history (pa_policy (pay_action b k t)) = Need_none"
  by (simp_all add: pay_action_def action_reservation_def real_ids_def insecure_evidence_def nonempty_str_def map_filter_def pay_state_def js_simps)

text \<open>Every request is reserved, whatever the engine decides, and then asks what the decision means.\<close>

definition reserved_store :: "bool \<Rightarrow> string \<Rightarrow> jsstr \<Rightarrow> engine_decision \<Rightarrow> receipt_store" where
  "reserved_store b k t d = new_receipt_store \<lparr> rs_authority := [(js ''action-1'', new_authority (pa_reservation (pay_action b k t))
     \<lparr> ad_allow = ed_allow d, ad_result = Some (VStr (ed_result d)), fd_decision = d \<rparr>)] \<rparr>"

lemma pay_not_stopped [simp]: "\<not> stopped_for (reserved_store b k t d) pa" "\<not> stopped_for new_receipt_store pa"
  by (rule new_not_stopped, simp add: reserved_store_def new_receipt_store_def)+

lemma pay_reserved:
  assumes "valid (validate_intent (pay_intent k))" "engine_evaluate sum_env pay_policy [] (pay_query k) (js ''now'') (Some False) False = Inr d"
  shows "\<exists>t L. sys_run sum_env pay_gateway L (reserved_store b k t d, [Asking (pay_action b k t) d])"
proof -
  obtain t where t: "intake sum_env pay_gateway pay_state (pay_request k) (pay_options b) (js ''now'') (js ''action-1'') new_receipt_store = Inr (pay_action b k t)"
    using pay_intake [OF assms(1)] by blast
  let ?pa = "pay_action b k t"
  have dec: "deciding sum_env pay_gateway ?pa [] = Inr \<lparr> ad_allow = ed_allow d, ad_result = Some (VStr (ed_result d)), fd_decision = d \<rparr>"
    using assms(2) by (simp add: deciding_def pay_decide)
  have res: "reserve_action (pa_reservation ?pa) (deciding sum_env pay_gateway ?pa) (Some (prior_scope_of sum_env (ps_history (pa_policy ?pa)) (pa_ts ?pa)))
      new_receipt_store = (Inr (Some \<lparr> ad_allow = ed_allow d, ad_result = Some (VStr (ed_result d)), fd_decision = d \<rparr>), reserved_store b k t d)"
    by (simp add: reserve_action_def dec executed_receipts_def new_receipt_store_def reserved_store_def prior_scope_of_def)
  have 0: "sys_run sum_env pay_gateway [Take ?pa] (new_receipt_store, [Checking ?pa])"
    unfolding runs_single using sys_take [OF t, of "[]"] by simp
  have 1: "advance sum_env pay_gateway pay_answers (Checking ?pa) new_receipt_store = (Reserving ?pa, new_receipt_store)" by simp
  have 2: "advance sum_env pay_gateway pay_answers (Reserving ?pa) new_receipt_store = (Asking ?pa d, reserved_store b k t d)" using res by simp
  from pay_advance [OF pay_advance [OF 0 1] 2] show ?thesis by blast
qed

text \<open>A payment the policy allows reaches the call of the executor.\<close>

lemma pay_run:
  "\<exists>t d L s. ed_allow d \<and> sys_run sum_env pay_gateway L (s, [Executing (pay_action False ''pay'' t) d None])"
proof -
  obtain d where d: "engine_evaluate sum_env pay_policy [] (pay_query ''pay'') (js ''now'') (Some False) False = Inr d" "ed_allow d"
    "ed_result d = js ''allow''" "\<not> violated (ed_verdict d)" "\<not> undetermined (ed_verdict d)" using pay_decision by blast
  obtain t L where run: "sys_run sum_env pay_gateway L (reserved_store False ''pay'' t d, [Asking (pay_action False ''pay'' t) d])"
    using pay_reserved [OF pay_valid(1) d(1)] by blast
  let ?pa = "pay_action False ''pay'' t" and ?s = "reserved_store False ''pay'' t d"
  obtain r where r: "build_receipt (receipt_fields (pay_fields False ''pay'') (ed_result d) (js ''allowed_pending'') ''none'' None @
    receipt_match (Some (ed_verdict d)) (ed_result d)) (gw_attester pay_gateway) = Inr r" using pay_pending [OF d(3-5)] by blast
  obtain s2 where s2: "prepare_dispatch (js ''action-1'') r (adapter_id pay_gateway) ?s = (Inr (), s2)"
    by (simp add: prepare_dispatch_def reserved_store_def new_authority_def d(2))
  have a: "advance sum_env pay_gateway pay_answers (Asking ?pa d) ?s = (Guarding ?pa d None, ?s)"
    "advance sum_env pay_gateway pay_answers (Guarding ?pa d None) ?s = (Dispatching_check ?pa d None None, ?s)"
    "advance sum_env pay_gateway pay_answers (Dispatching_check ?pa d None None) ?s = (Preparing ?pa d None, ?s)"
    "advance sum_env pay_gateway pay_answers (Preparing ?pa d None) ?s = (Executing ?pa d None, s2)"
    using d(2) r s2 by (simp_all add: Let_def)
  from pay_advance [OF pay_advance [OF pay_advance [OF pay_advance [OF run a(1)] a(2)] a(3)] a(4)] d(2) show ?thesis by blast
qed

text \<open>An action the policy denies and a person allows goes on to prepare its dispatch.\<close>

lemma steal_run:
  "\<exists>t d L s. sys_run sum_env pay_gateway L (s, [Preparing (pay_action True ''steal'' t) d (Some VNull)])"
proof -
  obtain d where d: "engine_evaluate sum_env pay_policy [] (pay_query ''steal'') (js ''now'') (Some False) False = Inr d" "\<not> ed_allow d"
    "ed_result d = js ''deny''" using steal_decision by blast
  obtain t L where run: "sys_run sum_env pay_gateway L (reserved_store True ''steal'' t d, [Asking (pay_action True ''steal'' t) d])"
    using pay_reserved [OF pay_valid(2) d(1)] by blast
  let ?pa = "pay_action True ''steal'' t" and ?s = "reserved_store True ''steal'' t d" and ?d = "overridden d"
  have a: "advance sum_env pay_gateway pay_answers (Asking ?pa d) ?s = (Overriding ?pa d, ?s)"
    "advance sum_env pay_gateway pay_answers (Overriding ?pa d) ?s = (Guarding ?pa ?d (Some VNull), ?s)"
    "advance sum_env pay_gateway pay_answers (Guarding ?pa ?d (Some VNull)) ?s = (Dispatching_check ?pa ?d (Some VNull) None, ?s)"
    "advance sum_env pay_gateway pay_answers (Dispatching_check ?pa ?d (Some VNull) None) ?s = (Preparing ?pa ?d (Some VNull), ?s)"
    using d(2,3) by (simp_all add: Let_def overridden_def pay_answers_def)
  from pay_advance [OF pay_advance [OF pay_advance [OF pay_advance [OF run a(1)] a(2)] a(3)] a(4)] show ?thesis by blast
qed

subsection \<open>The properties of the gateway on these runs\<close>

theorem effect_once_witness:
  "\<exists>L sp. sys_run sum_env pay_gateway L sp \<and> L \<noteq> [] \<and> length (filter (is_call (js ''action-1'')) L) \<le> 1"
proof -
  obtain t d L s where r: "sys_run sum_env pay_gateway L (s, [Executing (pay_action False ''pay'' t) d None])" using pay_run by blast
  have "advance sum_env pay_gateway pay_answers (Executing (pay_action False ''pay'' t) d None) s =
      (fst (advance sum_env pay_gateway pay_answers (Executing (pay_action False ''pay'' t) d None) s), s)" by simp
  from pay_advance [OF r this] effect_once [OF pay_advance [OF r this]] show ?thesis by blast
qed


theorem overridden_dispatch_fails_witness:
  "\<exists>t d s x. advance sum_env pay_gateway pay_answers (Preparing (pay_action True ''steal'' t) d (Some VNull)) s = (Failed x, s)"
proof -
  obtain t d L s where r: "sys_run sum_env pay_gateway L (s, [Preparing (pay_action True ''steal'' t) d (Some VNull)])" using steal_run by blast
  from overridden_dispatch_fails [OF r] show ?thesis by auto
qed

definition quiet_verdict :: verdict where
  "quiet_verdict = mk_verdict False None [] []"

definition allowing :: engine_decision where
  "allowing = \<lparr> ed_allow = True, ed_result = js ''allow'', ed_verdict = quiet_verdict, ed_mode = None \<rparr>"

text \<open>The stop is set while a handler is about to call the executor: that one call still happens.\<close>

lemma killed_run:
  "\<exists>p. runs (sys_step sum_env pay_gateway) (set_stopped (js ''global'') True new_receipt_store, [Executing (pay_action False ''pay'' []) allowing None])
     [Call (pay_action False ''pay'' []) allowing None] (set_stopped (js ''global'') True new_receipt_store, [p])"
proof -
  let ?p = "Executing (pay_action False ''pay'' []) allowing None" and ?s = "set_stopped (js ''global'') True new_receipt_store"
  have "advance sum_env pay_gateway pay_answers ?p ?s = (fst (advance sum_env pay_gateway pay_answers ?p ?s), ?s)" by simp
  from one_advance [OF runs_Nil this] show ?thesis by (auto simp: label_of_def)
qed

theorem kill_switch_stops_witness:
  "length (filter any_call [Call (pay_action False ''pay'' []) allowing None]) \<le> length (filter in_flight [Executing (pay_action False ''pay'' []) allowing None])"
proof -
  obtain p where "runs (sys_step sum_env pay_gateway) (set_stopped (js ''global'') True new_receipt_store, [Executing (pay_action False ''pay'' []) allowing None])
     [Call (pay_action False ''pay'' []) allowing None] (set_stopped (js ''global'') True new_receipt_store, [p])" using killed_run by blast
  then show ?thesis by (rule kill_switch_stops) (simp_all add: set_stopped_def)
qed

definition guarded_gateway :: gateway_config where
  "guarded_gateway = pay_gateway \<lparr> gw_guarded := True \<rparr>"

definition recovery_gateway :: gateway_config where
  "recovery_gateway = pay_gateway \<lparr> gw_outbound_off := True, gw_mode := Mode_unset \<rparr>"

theorem guard_skipped_by_stop_witness:
  "\<exists>s'. runs (sys_step sum_env guarded_gateway) (new_receipt_store, [Guarding (pay_action False ''pay'' []) allowing None])
     [Other (Stop (js ''global'') True), Advance 0, Other (Stop (js ''global'') False), Advance 0]
     (s', [Guarding (pay_action False ''pay'' []) allowing None][0 := Preparing (pay_action False ''pay'' []) allowing None])"
  by (rule guard_skipped_by_stop) (simp_all add: allowing_def guarded_gateway_def)

theorem recovery_mode_dispatches_witness:
  "advance sum_env recovery_gateway pay_answers (Dispatching_check (pay_action False ''pay'' []) allowing None None) new_receipt_store =
     (Preparing (pay_action False ''pay'' []) allowing None, new_receipt_store)"
  by (rule recovery_mode_dispatches) (simp_all add: allowing_def recovery_gateway_def)

section \<open>A payment reconciled\<close>

text \<open>The reserved payment of the gateway's run, reconciled before and after its dispatch is prepared, and one observation.\<close>

abbreviation paying :: prepared_action where
  "paying \<equiv> pay_action False ''pay'' []"

abbreviation paid_store :: receipt_store where
  "paid_store \<equiv> reserved_store False ''pay'' [] allowing"

definition paid_record :: lifecycle_record where
  "paid_record = \<lparr> lr_action = js ''action-1'', lr_state = Reserved, lr_reservation = pa_reservation paying,
     lr_result = Some (VStr (js ''allow'')), lr_adapter = None, lr_pre = None, lr_terminal = None \<rparr>"

lemma paid_action: "get_action (js ''action-1'') paid_store = Some paid_record"
  by (simp add: get_action_def reserved_store_def lifecycle_of_def paid_record_def new_authority_def allowing_def)

lemma paid_context: "rq_context (lr_reservation paid_record) = Some (VObj (pay_fields False ''pay''))"
  by (simp add: paid_record_def pay_action_def action_reservation_def)

lemma omap_set_all: "list_all P fs \<Longrightarrow> P (k, v) \<Longrightarrow> list_all P (omap_set k v fs)"
  by (induction fs) (auto split: if_splits)

lemma json_fields_receipt:
  assumes "list_all (\<lambda>(k, v). json_ok v \<and> \<not> has_lone_surrogate k) fs"
  shows "\<exists>r. build_receipt fs (gw_attester pay_gateway) = Inr r"
proof -
  have "json_ok (VObj ((js ''type'', VStr (js ''scopebond:receipt'')) # fs))" using assms by (auto simp: list_all_iff)
  then have "\<exists>t. canonical (VObj ((js ''type'', VStr (js ''scopebond:receipt'')) # fs)) = Inr t"
    by (simp only: canonical_returns [symmetric] returns_iff)
  then show ?thesis by (auto simp: build_receipt_def pay_gateway_def Let_def)
qed

lemma paid_receipt:
  "\<exists>r. build_receipt (reconciled_fields (members (VObj (pay_fields False ''pay''))) (lr_result paid_record) not_started) (gw_attester pay_gateway) = Inr r"
  by (rule json_fields_receipt)
    (auto simp: reconciled_fields_def spread_def not_started_def reconciled_state_def reconciled_ref_def ref_value_def paid_record_def members_def Let_def
      intro!: omap_set_all pay_fields_json)


theorem late_reconcile_contradicts_witness:
  "\<exists>r receipt r' s' s''. advance sum_env pay_gateway pay_answers (Preparing paying allowing None) paid_store = (Executing paying allowing None, s') \<and>
    reconcile_step pay_gateway (Inl TypeErr) (Rec_storing r not_started) s' = (Rec_reading_back (pa_action paying), s'') \<and>
    get_action (pa_action paying) s'' = Some r' \<and> lr_state r' = Finished St_failed \<and> receipt \<in> set (rs_all s'')"
proof -
  obtain r where r: "build_receipt (reconciled_fields (members (VObj (pay_fields False ''pay''))) (lr_result paid_record) not_started)
    (gw_attester pay_gateway) = Inr r" using paid_receipt by blast
  obtain p where p: "build_receipt (receipt_fields (pay_fields False ''pay'') (ed_result allowing) (js ''allowed_pending'') ''none'' None @
    receipt_match (Some (ed_verdict allowing)) (ed_result allowing)) (gw_attester pay_gateway) = Inr p"
    using pay_pending [of allowing False "''pay''"] by (auto simp: allowing_def quiet_verdict_def mk_verdict_def)
  obtain s' where s': "prepare_dispatch (js ''action-1'') p (adapter_id pay_gateway) paid_store = (Inr (), s')"
    by (simp add: prepare_dispatch_def reserved_store_def new_authority_def allowing_def)
  have a: "advance sum_env pay_gateway pay_answers (Preparing paying allowing None) paid_store = (Executing paying allowing None, s')"
    using p s' by simp
  have b: "reconcile_step pay_gateway (Inl TypeErr) (Rec_reading (pa_action paying)) paid_store = (Rec_storing paid_record not_started, paid_store)"
    using paid_action by (simp add: paid_record_def)
  from late_reconcile_contradicts [OF b _ a paid_context r, of "Inl TypeErr"] a show ?thesis by (auto simp: paid_record_def simp del: advance.simps reconcile_step.simps)
qed

lemma observed_receipt:
  "\<exists>r. build_receipt (observed_fields sum_env (pay_intent ''pay'') [] zero_hash zero_hash (js ''action-1'') pay_state insecure_evidence
      (js ''key:0'') (js ''now'') VUndef VUndef) (gw_attester pay_gateway) = Inr r"
  by (rule json_fields_receipt) (simp add: observed_fields_def receipt_intel_members_def policy_ref_of_def pay_state_def policy_id_of_def
      pay_policy_def policy_with_def pay_intent_def verifier_version_def redaction_profile_def one_finite js_simps)

lemma pay_observed:
  "\<exists>r. observe_action sum_env pay_gateway pay_state (pay_request ''pay'') VUndef VUndef (js ''now'') (js ''action-1'') new_receipt_store =
    (Inr r, put_receipt r new_receipt_store)"
proof -
  obtain r where "build_receipt (observed_fields sum_env (pay_intent ''pay'') [] zero_hash zero_hash (js ''action-1'') pay_state insecure_evidence
      (js ''key:0'') (js ''now'') VUndef VUndef) (gw_attester pay_gateway) = Inr r" using observed_receipt by blast
  then have "observe_action sum_env pay_gateway pay_state (pay_request ''pay'') VUndef VUndef (js ''now'') (js ''action-1'') new_receipt_store =
    (Inr r, put_receipt r new_receipt_store)"
    by (simp add: observe_action_def pay_request_def authorize_action_def pay_valid pay_intent_hash pay_minimized pay_gateway_def insecure_evidence_def
        lift_o_def cbind_def js_simps Let_def)
  then show ?thesis by blast
qed

theorem observation_changes_no_decision_witness:
  "\<exists>r. map_sum id what_is_done (engine_evaluate sum_env pay_policy ([] @ fld r (js ''payload'') # []) (pay_query ''pay'') (js ''now'') (Some False) False) =
    map_sum id what_is_done (engine_evaluate sum_env pay_policy ([] @ []) (pay_query ''pay'') (js ''now'') (Some False) False)"
proof -
  obtain r where r: "observe_action sum_env pay_gateway pay_state (pay_request ''pay'') VUndef VUndef (js ''now'') (js ''action-1'') new_receipt_store =
    (Inr r, put_receipt r new_receipt_store)" using pay_observed by blast
  show ?thesis by (rule exI, rule observation_changes_no_decision [OF r])
qed

end
