(* ===== verification/Anchoring.thy ===== *)
theory Anchoring
  imports Gateway AnchorLog
begin

section \<open>The gateway's anchors and proofs\<close>

text \<open>
  \<open>anchor\<close>, \<open>findAnchor\<close> and the two proof routes of \<^verbatim>\<open>packages/gateway/src/app.ts\<close>, over the in-memory store. Anchoring is cut where
  it awaits the store: it reads the log, reads the anchors and signs, and appends. The leaves the proof routes remember are a prefix of
  the log's leaf hashes, extended on demand; one request is served at a time.
\<close>

subsection \<open>Making an anchor\<close>

definition payloads_of :: "receipt_store \<Rightarrow> jsval list" where
  "payloads_of s = map (\<lambda>r. fld r (js ''payload'')) (rs_all s)"

definition log_matches :: "env \<Rightarrow> jsval \<Rightarrow> jsval list \<Rightarrow> bool" where
  "log_matches e prev payloads =
     (case anchor_size prev of
        VNum n \<Rightarrow> jle n (jint (int (length payloads))) \<and> verify_anchor_root e prev (take (nat (num_int n)) payloads)
      | _ \<Rightarrow> False)"

text \<open>The members of the body, the previous anchor's number and hash carried on; a stored number is a number or absent.\<close>

definition new_anchor_body :: "jsval option \<Rightarrow> nat \<Rightarrow> jsstr \<Rightarrow> jsstr \<Rightarrow> jsstr \<Rightarrow> (jsstr \<times> jsval) list" where
  "new_anchor_body prev sz rt ts kid =
     [(js ''type'', VStr (js ''scopebond:anchor'')),
      (js ''seq'', VNum (case prev of None \<Rightarrow> jint 1 | Some p \<Rightarrow> (case fld p (js ''seq'') of VNum n \<Rightarrow> jadd n (jint 1) | _ \<Rightarrow> jint 1))),
      (js ''algo'', algo_v2), (js ''tree_size'', VNum (jint (int sz))), (js ''root'', VStr rt),
      (js ''prev_anchor_hash'',
         case prev of None \<Rightarrow> VNull | Some p \<Rightarrow> if nullish (fld p (js ''anchor_hash'')) then VNull else fld p (js ''anchor_hash'')),
      (js ''timestamp'', VStr ts), (js ''attester'', VObj [(js ''kind'', VStr (js ''gateway'')), (js ''kid'', VStr kid)])]"

definition make_anchor :: "env \<Rightarrow> attester \<Rightarrow> jsstr \<Rightarrow> jsval list \<Rightarrow> jsval list \<Rightarrow> jsval outcome" where
  "make_anchor e att ts payloads prior =
     rbind (rmap (receipt_leaf_hash (sha256 e)) payloads) (\<lambda>leaves.
       let prev = (if prior = [] then None else Some (last prior)) in
       if (case prev of None \<Rightarrow> False | Some p \<Rightarrow> \<not> log_matches e p payloads)
       then Inl (Err (js ''receipt log does not match the previous anchor; refusing to anchor''))
       else rbind (merkle_tree_hash (sha256 e) (VArr (map VStr leaves))) (\<lambda>rt.
         let body = new_anchor_body prev (length leaves) rt ts (at_kid att) in
         rbind (canonical (VObj body)) (\<lambda>bytes. rbind (at_sign att bytes) (\<lambda>sig.
           Inr (VObj (body @ [(js ''anchor_hash'', VStr (text_hash e bytes)),
             (js ''signature'', VObj [(js ''alg'', VStr (js ''Ed25519'')), (js ''sig'', VStr sig)])]))))))"

datatype anchoring = Reading_log | Reading_anchors "jsval list" | Appending jsval | Anchoring_done jsval | Anchoring_failed exn

fun anchor_step :: "env \<Rightarrow> attester \<Rightarrow> jsstr \<Rightarrow> anchoring \<Rightarrow> receipt_store \<Rightarrow> anchoring \<times> receipt_store" where
  "anchor_step e att ts Reading_log s = (Reading_anchors (payloads_of s), s)"
| "anchor_step e att ts (Reading_anchors payloads) s =
     (case make_anchor e att ts payloads (anchors_of s) of Inl x \<Rightarrow> Anchoring_failed x | Inr a \<Rightarrow> Appending a, s)"
| "anchor_step e att ts (Appending a) s = (Anchoring_done a, put_anchor a s)"
| "anchor_step e att ts (Anchoring_done a) s = (Anchoring_done a, s)"
| "anchor_step e att ts (Anchoring_failed x) s = (Anchoring_failed x, s)"

text \<open>An anchoring that nothing interrupts.\<close>

definition take_anchor :: "env \<Rightarrow> attester \<Rightarrow> jsstr \<Rightarrow> receipt_store \<Rightarrow> anchoring \<times> receipt_store" where
  "take_anchor e att ts s = ((\<lambda>(p, t). anchor_step e att ts p t) ^^ 3) (Reading_log, s)"

subsection \<open>Finding an anchor\<close>

definition is_seq_text :: "jsstr \<Rightarrow> bool" where
  "is_seq_text t \<longleftrightarrow> t \<noteq> [] \<and> hd t \<noteq> 48 \<and> list_all is_digit t \<and> length t \<le> 16"

definition find_anchor :: "jsstr option \<Rightarrow> receipt_store \<Rightarrow> jsval option" where
  "find_anchor seq s =
     (let all = anchors_of s in
      case seq of
        None \<Rightarrow> if all = [] then None else Some (last all)
      | Some t \<Rightarrow> if \<not> is_seq_text t then None else find (\<lambda>a. fld a (js ''seq'') = VNum (str_num t)) all)"

subsection \<open>The leaves the proof routes remember\<close>

record leaf_cache =
  lc_leaves :: "jsstr list"
  lc_index :: "(jsstr \<times> nat) list"

definition empty_cache :: leaf_cache where
  "empty_cache = \<lparr> lc_leaves = [], lc_index = [] \<rparr>"

definition push_leaf :: "jsstr \<Rightarrow> leaf_cache \<Rightarrow> leaf_cache" where
  "push_leaf leaf c =
     c \<lparr> lc_index := (if map_of (lc_index c) leaf = None then omap_set leaf (length (lc_leaves c)) (lc_index c) else lc_index c),
        lc_leaves := lc_leaves c @ [leaf] \<rparr>"

text \<open>\<open>extendAnchored\<close>: a leaf that cannot be hashed throws, and what was pushed before it stays.\<close>

fun push_leaves :: "env \<Rightarrow> jsval list \<Rightarrow> leaf_cache \<Rightarrow> exn option \<times> leaf_cache" where
  "push_leaves e [] c = (None, c)"
| "push_leaves e (p # ps) c =
     (case receipt_leaf_hash (sha256 e) p of Inl x \<Rightarrow> (Some x, c) | Inr leaf \<Rightarrow> push_leaves e ps (push_leaf leaf c))"

definition extend_anchored :: "env \<Rightarrow> nat \<Rightarrow> receipt_store \<Rightarrow> leaf_cache \<Rightarrow> exn option \<times> leaf_cache" where
  "extend_anchored e sz s c = push_leaves e (drop (length (lc_leaves c)) (take sz (payloads_of s))) c"

text \<open>The loop of \<open>anchoredLeaves\<close>: it goes round while the leaves grow, and \<open>None\<close> is its null.\<close>

function anchored_leaves :: "env \<Rightarrow> nat \<Rightarrow> receipt_store \<Rightarrow> leaf_cache \<Rightarrow> jsstr list option outcome \<times> leaf_cache" where
  "anchored_leaves e sz s c =
     (if sz \<le> length (lc_leaves c) then (Inr (Some (take sz (lc_leaves c))), c)
      else (case extend_anchored e sz s c of
          (Some x, c') \<Rightarrow> (Inl x, c')
        | (None, c') \<Rightarrow>
            if length (lc_leaves c') \<le> length (lc_leaves c) then (Inr None, c') else anchored_leaves e sz s c'))"
  by pat_completeness auto
termination
  by (relation "measure (\<lambda>(e, sz, s, c). sz - length (lc_leaves c))") auto

declare anchored_leaves.simps [simp del]

subsection \<open>The proof routes\<close>

text \<open>A reply: its status and its document, or the throw.\<close>

type_synonym reply = "(nat \<times> jsval) outcome"

definition error_reply :: "nat \<Rightarrow> string \<Rightarrow> reply" where
  "error_reply st t = Inr (st, VObj [(js ''error'', VStr (js t))])"

definition find_index :: "('a \<Rightarrow> bool) \<Rightarrow> 'a list \<Rightarrow> nat option" where
  "find_index P xs = map_option fst (find (\<lambda>(i, x). P x) (enumerate 0 xs))"

text \<open>The route for a version 2 anchor: \<open>leaf\<close> wins over \<open>intent_hash\<close>; an empty parameter is no parameter.\<close>

definition wanted_index :: "jsstr option \<Rightarrow> jsstr option \<Rightarrow> nat \<Rightarrow> receipt_store \<Rightarrow> leaf_cache \<Rightarrow> nat option" where
  "wanted_index leaf intent sz s c =
     (if leaf \<noteq> None \<and> leaf \<noteq> Some [] then map_of (lc_index c) (the leaf)
      else if intent \<noteq> None \<and> intent \<noteq> Some []
      then find_index (\<lambda>p. fld p (js ''intent_hash'') = VStr (the intent)) (take sz (payloads_of s))
      else None)"

definition proof_v2 :: "env \<Rightarrow> jsval \<Rightarrow> jsstr option \<Rightarrow> jsstr option \<Rightarrow> receipt_store \<Rightarrow> leaf_cache \<Rightarrow> reply \<times> leaf_cache" where
  "proof_v2 e anchor leaf intent s c =
     (let sz = size_of (fld anchor (js ''tree_size'')) in
      case anchored_leaves e sz s c of
        (Inl x, c') \<Rightarrow> (Inl x, c')
      | (Inr None, c') \<Rightarrow> (error_reply 409 ''receipt log is shorter than the anchor'', c')
      | (Inr (Some leaves), c') \<Rightarrow>
          (case wanted_index leaf intent sz s c' of
             None \<Rightarrow> error_reply 404 ''receipt not covered by this anchor''
           | Some i \<Rightarrow>
               if sz \<le> i then error_reply 404 ''receipt not covered by this anchor''
               else rbind (inclusion_proof (sha256 e) (VArr (map VStr leaves)) (jint (int i))) (\<lambda>p.
                 Inr (200, VObj [(js ''algo'', fld anchor (js ''algo'')), (js ''anchor_seq'', fld anchor (js ''seq'')),
                   (js ''root'', fld anchor (js ''root'')), (js ''leaf_hash'', VStr (leaves ! i)),
                   (js ''leaf_index'', VNum (jint (int (leaf_index p)))), (js ''tree_size'', VNum (jint (int (tree_size p)))),
                   (js ''audit_path'', VArr (map VStr (audit_path p))), (js ''anchor'', anchor)])), c'))"

text \<open>The cache of consistency proofs: the oldest entry leaves when there are 256.\<close>

definition consistency_reply :: "consistency_proof \<Rightarrow> jsval \<Rightarrow> jsval \<Rightarrow> reply" where
  "consistency_reply p first second =
     Inr (200, VObj [(js ''first_size'', VNum (jint (int (first_size p)))), (js ''second_size'', VNum (jint (int (second_size p)))),
       (js ''proof'', VArr (map VStr (proof_hashes p))), (js ''first_root'', fld first (js ''root'')),
       (js ''second_root'', fld second (js ''root'')), (js ''first'', first), (js ''second'', second)])"

definition consistency_key :: "jsval \<Rightarrow> jsval \<Rightarrow> jsstr" where
  "consistency_key first second = json_text (fld first (js ''anchor_hash'')) @ js '':'' @ json_text (fld second (js ''anchor_hash''))"

definition remember_proof :: "jsstr \<Rightarrow> consistency_proof \<Rightarrow> (jsstr \<times> consistency_proof) list \<Rightarrow> (jsstr \<times> consistency_proof) list" where
  "remember_proof k p m = omap_set k p (if 256 \<le> length m then tl m else m)"

definition consistency_route ::
  "env \<Rightarrow> jsstr option \<Rightarrow> jsstr option \<Rightarrow> receipt_store \<Rightarrow> leaf_cache \<Rightarrow> (jsstr \<times> consistency_proof) list \<Rightarrow>
     reply \<times> leaf_cache \<times> (jsstr \<times> consistency_proof) list" where
  "consistency_route e from_seq to_seq s c m =
     (case from_seq of
        None \<Rightarrow> (error_reply 400 ''from (anchor seq) is required'', c, m)
      | Some f \<Rightarrow>
          (case (find_anchor (Some f) s, find_anchor to_seq s) of
             (Some first, Some second) \<Rightarrow>
               if \<not> is_anchor_v2 first \<or> \<not> is_anchor_v2 second then (error_reply 400 ''consistency proofs require v2 anchors'', c, m)
               else if size_of (fld second (js ''tree_size'')) < size_of (fld first (js ''tree_size''))
               then (error_reply 400 ''from must not be larger than to'', c, m)
               else let k = consistency_key first second in
                 (case map_of m k of
                    Some p \<Rightarrow> (consistency_reply p first second, c, m)
                  | None \<Rightarrow>
                      (case anchored_leaves e (size_of (fld second (js ''tree_size''))) s c of
                         (Inl x, c') \<Rightarrow> (Inl x, c', m)
                       | (Inr None, c') \<Rightarrow> (error_reply 409 ''receipt log is shorter than the anchor'', c', m)
                       | (Inr (Some leaves), c') \<Rightarrow>
                           (case consistency_proof (sha256 e) (VArr (map VStr leaves)) (jint (int (size_of (fld first (js ''tree_size''))))) of
                              Inl x \<Rightarrow> (Inl x, c', m)
                            | Inr p \<Rightarrow> (consistency_reply p first second, c', remember_proof k p m))))
           | _ \<Rightarrow> (error_reply 404 ''anchor not found'', c, m)))"

end
