(* ===== verification/Control.thy ===== *)
theory Control
  imports Gateway
begin

section \<open>The emergency controls\<close>

text \<open>
  The control routes of \<^verbatim>\<open>packages/gateway/src/app.ts\<close>: the bearer token, the body of a kill or resume request and what the routes do
  with it. A reply is its status and, of the body, what the code decides. A request body is what \<open>c.req.json()\<close> answers, a throw or a
  document. Strings are lists of UTF-16 units, so \<open>charCodeAt\<close> is an element.
\<close>

unbundle bit_operations_syntax

subsection \<open>The token\<close>

definition char_code_at :: "jsstr \<Rightarrow> nat \<Rightarrow> nat" where
  "char_code_at s i = (if i < length s then s ! i else 0)"

definition constant_time_text_equal :: "jsstr \<Rightarrow> jsstr \<Rightarrow> bool" where
  "constant_time_text_equal left right =
     (if 4096 < length left then False
      else fold (\<lambda>i d. d OR (char_code_at left i XOR char_code_at right i)) [0..<max (length left) (length right)]
             (length left XOR length right) = 0)"

datatype control_answer = Granted | Control_refused nat jsstr

definition require_control :: "jsstr option \<Rightarrow> jsstr option \<Rightarrow> control_answer" where
  "require_control token header =
     (case token of
        None \<Rightarrow> Control_refused 503 (js ''control API is not configured'')
      | Some t \<Rightarrow>
          if t = [] then Control_refused 503 (js ''control API is not configured'')
          else if length t < 24 then Control_refused 503 (js ''control API token is invalid'')
          else if \<not> constant_time_text_equal (case header of None \<Rightarrow> [] | Some h \<Rightarrow> h) (js ''Bearer '' @ t)
          then Control_refused 401 (js ''unauthorized'') else Granted)"

subsection \<open>What a stop request names\<close>

definition is_agent_key_id :: "jsstr \<Rightarrow> bool" where
  "is_agent_key_id s \<longleftrightarrow> starts_with s (js ''key:'') \<and> length s = 20 \<and> list_all is_lower_hex (drop 4 s)"

datatype stop_answer = Stop_at jsstr | Stop_error jsstr bool

definition stop_expected :: jsstr where
  "stop_expected = js ''name the stop: {\"target\":\"global\"} or {\"agent\":\"key:<16 hex>\"}''"

definition stop_target :: "jsval option \<Rightarrow> stop_answer" where
  "stop_target body =
     (case body of
        None \<Rightarrow> Stop_error (js ''request body must be a JSON object; '' @ stop_expected) False
      | Some b \<Rightarrow>
          (case map fst (members b) of
             [k] \<Rightarrow>
               if k \<noteq> js ''agent'' \<and> k \<noteq> js ''target'' then Stop_error stop_expected False
               else (case fld b k of
                   VStr t \<Rightarrow>
                     if t = js ''global'' then Stop_at (js ''global'')
                     else if \<not> is_agent_key_id t then Stop_error (js ''invalid agent key id'') True
                     else Stop_at t
                 | _ \<Rightarrow> Stop_error stop_expected False)
           | _ \<Rightarrow> Stop_error stop_expected False))"

definition optional_json :: "jsval outcome \<Rightarrow> jsval option" where
  "optional_json parsed = (case parsed of Inl _ \<Rightarrow> None | Inr v \<Rightarrow> if is_obj v then Some v else None)"

subsection \<open>The routes\<close>

datatype control_reply = Reply_error nat jsstr | Reply_killed bool jsstr

definition kill_route :: "jsstr option \<Rightarrow> jsstr option \<Rightarrow> jsval outcome \<Rightarrow> receipt_store \<Rightarrow> control_reply \<times> receipt_store" where
  "kill_route token header body s =
     (case require_control token header of
        Control_refused st t \<Rightarrow> (Reply_error st t, s)
      | Granted \<Rightarrow>
          (case stop_target (optional_json body) of
             Stop_error t True \<Rightarrow> (Reply_error 400 t, s)
           | Stop_error t False \<Rightarrow> (Reply_killed True (js ''global''), set_stopped (js ''global'') True s)
           | Stop_at k \<Rightarrow> (Reply_killed True k, set_stopped k True s)))"

definition resume_route :: "jsstr option \<Rightarrow> jsstr option \<Rightarrow> jsval outcome \<Rightarrow> receipt_store \<Rightarrow> control_reply \<times> receipt_store" where
  "resume_route token header body s =
     (case require_control token header of
        Control_refused st t \<Rightarrow> (Reply_error st t, s)
      | Granted \<Rightarrow>
          (case stop_target (optional_json body) of
             Stop_error t b \<Rightarrow> (Reply_error 400 t, s)
           | Stop_at k \<Rightarrow> (Reply_killed False k, set_stopped k False s)))"

subsection \<open>What they promise\<close>

lemma fold_or_zero: "fold (\<lambda>i d. d OR f i) xs (b :: nat) = 0 \<longleftrightarrow> b = 0 \<and> (\<forall>i \<in> set xs. f i = 0)"
  by (induction xs arbitrary: b) (auto simp: or_eq_0_iff)

lemma nat_xor_eq_0: "(a XOR b :: nat) = 0 \<longleftrightarrow> a = b"
proof
  assume h: "a XOR b = 0"
  have "b = (a XOR a) XOR b" by (simp only: xor_self_eq xor.left_neutral)
  also have "\<dots> = a XOR (a XOR b)" by (rule xor.assoc)
  also have "\<dots> = a" unfolding h by (rule xor.right_neutral)
  finally show "a = b" by simp
qed simp

lemma text_equal_iff: "constant_time_text_equal left right \<longleftrightarrow> length left \<le> 4096 \<and> left = right"
proof (cases "length left \<le> 4096 \<and> length left = length right")
  case True
  then have "left = right \<longleftrightarrow> (\<forall>i \<in> {0..<length right}. left ! i = right ! i)" by (auto intro: nth_equalityI)
  with True show ?thesis by (simp add: constant_time_text_equal_def fold_or_zero nat_xor_eq_0 char_code_at_def)
next
  case False
  then show ?thesis by (auto simp: constant_time_text_equal_def fold_or_zero nat_xor_eq_0)
qed

text \<open>The comparison that takes the same time for every pair is equality, on everything the code compares.\<close>

theorem constant_time_equal_correct: "constant_time_text_equal left right \<longleftrightarrow> length left \<le> 4096 \<and> left = right"
  by (rule text_equal_iff)

lemma granted_iff:
  "require_control token header = Granted \<longleftrightarrow>
     (\<exists>t. token = Some t \<and> 24 \<le> length t \<and> length t \<le> 4089 \<and> header = Some (js ''Bearer '' @ t))"
  unfolding require_control_def text_equal_iff by (auto simp: js_def split: option.splits)

lemma set_stopped_set: "set (rs_stops (set_stopped t b s)) = (if b then insert t (set (rs_stops s)) else set (rs_stops s) - {t})"
  by (auto simp: set_stopped_def)

text \<open>The targets a body can name.\<close>

definition names_stop :: "jsval outcome \<Rightarrow> jsstr \<Rightarrow> bool" where
  "names_stop body t \<longleftrightarrow>
     (\<exists>b k. body = Inr b \<and> is_obj b \<and> members b = [(k, VStr t)] \<and> (k = js ''agent'' \<or> k = js ''target'') \<and>
        (t = js ''global'' \<or> is_agent_key_id t))"

lemma one_member:
  "members b = [(k, v)] \<Longrightarrow>
     stop_target (Some b) = Stop_at t \<longleftrightarrow> v = VStr t \<and> (k = js ''agent'' \<or> k = js ''target'') \<and> (t = js ''global'' \<or> is_agent_key_id t)"
  by (cases v) (auto simp: stop_target_def fld_def own_def)

lemma other_members: "length (members b) \<noteq> 1 \<Longrightarrow> stop_target (Some b) \<noteq> Stop_at t"
  by (auto simp: stop_target_def split: list.splits)

lemma stop_target_at: "stop_target (optional_json body) = Stop_at t \<longleftrightarrow> names_stop body t"
proof (cases "\<exists>b. body = Inr b \<and> is_obj b \<and> length (members b) = 1")
  case True
  then obtain b k v where "body = Inr b" "is_obj b" "members b = [(k, v)]"
    by (auto simp: length_Suc_conv)
  then show ?thesis by (auto simp: optional_json_def one_member names_stop_def)
next
  case False
  moreover have "stop_target None \<noteq> Stop_at t" by (simp add: stop_target_def)
  ultimately show ?thesis by (auto simp: optional_json_def other_members names_stop_def split: sum.splits)
qed

text \<open>A stop lifted is a stop named. Whatever a resume request holds, it changes the stops only with the control token and only by
  removing the one target its body names, and it removes it then.\<close>

theorem resume_lifts_named:
  "set (rs_stops (snd (resume_route token header body s))) =
     set (rs_stops s) - {t. require_control token header = Granted \<and> names_stop body t}"
  by (auto simp: resume_route_def set_stopped_set stop_target_at [symmetric] split: control_answer.splits stop_answer.splits)

text \<open>A body that names an agent by a key id that is not one.\<close>

definition misnames_agent :: "jsval outcome \<Rightarrow> bool" where
  "misnames_agent body \<longleftrightarrow>
     (\<exists>b k t. body = Inr b \<and> is_obj b \<and> members b = [(k, VStr t)] \<and> (k = js ''agent'' \<or> k = js ''target'') \<and>
        t \<noteq> js ''global'' \<and> \<not> is_agent_key_id t)"

lemma one_misnamed:
  "members b = [(k, v)] \<Longrightarrow>
     (\<exists>m. stop_target (Some b) = Stop_error m True) \<longleftrightarrow>
     (\<exists>t. v = VStr t \<and> (k = js ''agent'' \<or> k = js ''target'') \<and> t \<noteq> js ''global'' \<and> \<not> is_agent_key_id t)"
  by (cases v) (auto simp: stop_target_def fld_def own_def)

lemma stop_target_misnamed: "(\<exists>m. stop_target (optional_json body) = Stop_error m True) \<longleftrightarrow> misnames_agent body"
proof (cases "\<exists>b. body = Inr b \<and> is_obj b \<and> length (members b) = 1")
  case True
  then obtain b k v where "body = Inr b" "is_obj b" "members b = [(k, v)]"
    by (auto simp: length_Suc_conv)
  then show ?thesis by (auto simp: optional_json_def one_misnamed misnames_agent_def)
next
  case False
  moreover have "stop_target None \<noteq> Stop_error m True" for m by (simp add: stop_target_def)
  moreover have "length (members b) \<noteq> 1 \<Longrightarrow> stop_target (Some b) \<noteq> Stop_error m True" for b m
    by (auto simp: stop_target_def split: list.splits)
  ultimately show ?thesis by (auto simp: optional_json_def misnames_agent_def split: sum.splits)
qed

text \<open>A kill request with the control token always stops something, except one whose body names an agent by a malformed key: it stops
  the target it names, and everything when it names nothing; and it never lifts a stop.\<close>

theorem kill_stops:
  "set (rs_stops (snd (kill_route token header body s))) =
     set (rs_stops s) \<union> {t. require_control token header = Granted \<and>
       (names_stop body t \<or> (t = js ''global'' \<and> \<not> misnames_agent body \<and> (\<nexists>u. names_stop body u)))}"
  by (auto simp: kill_route_def set_stopped_set stop_target_at [symmetric] stop_target_misnamed [symmetric]
      split: control_answer.splits stop_answer.splits bool.splits)

end
