(* ===== verification/LegacyProof.thy ===== *)
theory LegacyProof
  imports Anchoring Control
begin

section \<open>Version 1 inclusion proofs\<close>

text \<open>
  \<^verbatim>\<open>packages/gateway/src/anchor.ts\<close>: the sibling list of a version 1 tree and its check, and the branch of the proof route of
  \<^verbatim>\<open>packages/gateway/src/app.ts\<close> for version 1 anchors. One round of the loop over a level is \<open>proof_pass\<close>, which gives the step
  found and the next level.
\<close>

subsection \<open>Proofs\<close>

record proof_step =
  ps_hash :: jsstr
  ps_right :: bool

definition hash_pair :: "(bytes \<Rightarrow> bytes) \<Rightarrow> jsstr \<Rightarrow> jsstr \<Rightarrow> jsstr" where
  "hash_pair sha a b = sha256_hex sha (utf8 (a @ b))"

definition found_step :: "nat \<Rightarrow> nat \<Rightarrow> jsstr \<Rightarrow> jsstr \<Rightarrow> proof_step list" where
  "found_step i idx a b =
     (if i = idx then [\<lparr> ps_hash = b, ps_right = True \<rparr>] else if i + 1 = idx then [\<lparr> ps_hash = a, ps_right = False \<rparr>] else [])"

fun proof_pass :: "(bytes \<Rightarrow> bytes) \<Rightarrow> nat \<Rightarrow> nat \<Rightarrow> jsstr list \<Rightarrow> proof_step list \<times> jsstr list" where
  "proof_pass sha i idx [] = ([], [])"
| "proof_pass sha i idx [a] = (found_step i idx a a, [hash_pair sha a a])"
| "proof_pass sha i idx (a # b # rest) =
     (let (ps, nxt) = proof_pass sha (i + 2) idx rest in (found_step i idx a b @ ps, hash_pair sha a b # nxt))"

lemma proof_pass_length: "length (snd (proof_pass sha i idx level)) = (length level + 1) div 2"
  by (induction sha i idx level rule: proof_pass.induct) (auto simp: split_beta)

function proof_loop :: "(bytes \<Rightarrow> bytes) \<Rightarrow> nat \<Rightarrow> jsstr list \<Rightarrow> proof_step list" where
  "proof_loop sha idx level =
     (if length level \<le> 1 then []
      else fst (proof_pass sha 0 idx level) @ proof_loop sha (idx div 2) (snd (proof_pass sha 0 idx level)))"
  by pat_completeness auto
termination
  by (relation "measure (\<lambda>(sha, idx, level). length level)") (auto simp: proof_pass_length)

declare proof_loop.simps [simp del]

definition merkle_proof_v1 :: "(bytes \<Rightarrow> bytes) \<Rightarrow> jsstr list \<Rightarrow> int \<Rightarrow> proof_step list" where
  "merkle_proof_v1 sha leaves index = (if index < 0 \<or> int (length leaves) \<le> index then [] else proof_loop sha (nat index) leaves)"

definition apply_step :: "(bytes \<Rightarrow> bytes) \<Rightarrow> proof_step \<Rightarrow> jsstr \<Rightarrow> jsstr" where
  "apply_step sha p h = (if ps_right p then hash_pair sha h (ps_hash p) else hash_pair sha (ps_hash p) h)"

definition verify_proof_v1 :: "(bytes \<Rightarrow> bytes) \<Rightarrow> jsstr \<Rightarrow> proof_step list \<Rightarrow> jsstr \<Rightarrow> bool" where
  "verify_proof_v1 sha leaf steps rt \<longleftrightarrow> fold (apply_step sha) steps leaf = rt"

subsection \<open>The route\<close>

definition step_json :: "proof_step \<Rightarrow> jsval" where
  "step_json p = VObj [(js ''hash'', VStr (ps_hash p)), (js ''side'', VStr (js (if ps_right p then ''right'' else ''left'')))]"

definition proof_v1 :: "env \<Rightarrow> jsval \<Rightarrow> jsstr option \<Rightarrow> jsstr option \<Rightarrow> receipt_store \<Rightarrow> reply" where
  "proof_v1 e anchor leaf intent s =
     (let payloads = take (size_of (fld anchor (js ''count''))) (payloads_of s) in
      rbind (rmap (receipt_leaf_hash_v1 (sha256 e)) payloads) (\<lambda>leaves.
        case (if leaf \<noteq> None \<and> leaf \<noteq> Some [] then find_index (\<lambda>l. l = the leaf) leaves
              else if intent \<noteq> None \<and> intent \<noteq> Some [] then find_index (\<lambda>p. fld p (js ''intent_hash'') = VStr (the intent)) payloads
              else None) of
          None \<Rightarrow> error_reply 404 ''receipt not covered by this anchor''
        | Some i \<Rightarrow>
            Inr (200, VObj [(js ''algo'', if nullish (fld anchor (js ''algo'')) then algo_v1 else fld anchor (js ''algo'')),
              (js ''anchor_seq'', fld anchor (js ''seq'')), (js ''merkle_root'', fld anchor (js ''merkle_root'')),
              (js ''leaf'', VStr (leaves ! i)), (js ''leaf_index'', VNum (jint (int i))),
              (js ''proof'', VArr (map step_json (merkle_proof_v1 (sha256 e) leaves (int i)))), (js ''anchor'', anchor)])))"

text \<open>\<open>GET /v1/anchors/proof\<close>: the control token is asked for only when an intent hash is given.\<close>

definition proof_route ::
  "env \<Rightarrow> control_answer \<Rightarrow> jsstr option \<Rightarrow> jsstr option \<Rightarrow> jsstr option \<Rightarrow> receipt_store \<Rightarrow> leaf_cache \<Rightarrow> reply \<times> leaf_cache" where
  "proof_route e control seq leaf intent s c =
     (case (if intent \<noteq> None then control else Granted) of
        Control_refused st t \<Rightarrow> (Inr (st, VObj [(js ''error'', VStr t)]), c)
      | Granted \<Rightarrow>
          (case find_anchor seq s of
             None \<Rightarrow> (Inr (404, VObj [(js ''error'', VStr (js ''anchor not found '' @ [0x2014] @ js '' POST /v1/anchor first''))]), c)
           | Some a \<Rightarrow> if is_anchor_v2 a then proof_v2 e a leaf intent s c else (proof_v1 e a leaf intent s, c)))"

subsection \<open>Every version 1 proof verifies\<close>

lemma pass_level: "snd (proof_pass sha i idx level) = pair_level sha level"
  by (induction sha i idx level rule: proof_pass.induct) (auto simp: split_beta hash_pair_def)

lemma pass_far: "idx < i \<Longrightarrow> fst (proof_pass sha i idx level) = []"
  by (induction sha i idx level rule: proof_pass.induct) (auto simp: split_beta found_step_def)

lemma pass_step:
  "i \<le> idx \<Longrightarrow> idx - i < length level \<Longrightarrow> even i \<Longrightarrow>
     fold (apply_step sha) (fst (proof_pass sha i idx level)) (level ! (idx - i)) = pair_level sha level ! ((idx - i) div 2)"
proof (induction sha i idx level rule: proof_pass.induct)
  case (2 sha i idx a)
  then show ?case by (simp add: found_step_def apply_step_def hash_pair_def)
next
  case (3 sha i idx a b rest)
  consider "idx = i" | "idx = i + 1" | "i + 2 \<le> idx" using 3(2) by linarith
  then show ?case
  proof cases
    case 3
    then have "idx - i = Suc (Suc (idx - (i + 2)))" by simp
    with 3 "3.IH" "3.prems" show ?thesis by (simp add: split_beta found_step_def)
  qed (simp_all add: split_beta found_step_def apply_step_def hash_pair_def pass_far)
qed simp

lemma loop_root:
  "idx < length level \<Longrightarrow> fold (apply_step sha) (proof_loop sha idx level) (level ! idx) = hd (root_v1_loop sha level)"
proof (induction sha idx level rule: proof_loop.induct)
  case (1 sha idx level)
  show ?case
  proof (cases "length level \<le> 1")
    case True
    with 1(2) have "level = [level ! idx]" by (cases level) auto
    then have "hd level = level ! idx" by (metis list.sel(1))
    with True show ?thesis by (simp add: proof_loop.simps root_v1_loop.simps)
  next
    case False
    have len: "idx div 2 < length (pair_level sha level)" using 1(2) by (simp add: length_pair_level)
    have "fold (apply_step sha) (fst (proof_pass sha 0 idx level)) (level ! idx) = pair_level sha level ! (idx div 2)"
      using pass_step [of 0 idx level sha] 1(2) by simp
    then show ?thesis
      using 1(1) [OF False] len False
      by (subst proof_loop.simps, subst root_v1_loop.simps) (simp add: pass_level)
  qed
qed

text \<open>Every leaf of a version 1 tree has a proof that verifies against the tree's root.\<close>

theorem legacy_proof_complete:
  assumes "i < length leaves"
  shows "verify_proof_v1 sha (leaves ! i) (merkle_proof_v1 sha leaves (int i)) (merkle_root_v1 sha leaves)"
  using loop_root [OF assms] assms by (auto simp: verify_proof_v1_def merkle_proof_v1_def merkle_root_v1_def)

theorem legacy_proof_complete_witness:
  "verify_proof_v1 (\<lambda>_. []) ([[97], [98], [99]] ! 2) (merkle_proof_v1 (\<lambda>_. []) [[97], [98], [99]] (int 2)) (merkle_root_v1 (\<lambda>_. []) [[97], [98], [99]])"
  by (rule legacy_proof_complete) simp

end
