(* ===== verification/ChainHeads.thy ===== *)
theory ChainHeads
  imports Dispatch Keys
begin

section \<open>Heads of the evidence chain\<close>

text \<open>
  The first part of \<^verbatim>\<open>packages/verify/src/chain.ts\<close>: the shape and signature of a chain head, the check of a published list of heads, and
  the comparison of the heads a computer kept with each other and with published ones. A problem of the code is a text; here it is a
  constructor with the values the text shows. The objects of the code's \<open>Set\<close> of reported heads are told apart by their place in
  the chain's list.
\<close>

subsection \<open>Shape\<close>

definition only_keys :: "jsval \<Rightarrow> string list \<Rightarrow> bool" where
  "only_keys v keys \<longleftrightarrow> js_join (js '','') (sort_strings (map fst (members v))) = js_join (js '','') (sort_strings (map js keys))"

definition is_hex64_str :: "jsval \<Rightarrow> bool" where
  "is_hex64_str v = (case v of VStr s \<Rightarrow> is_hex64 s | _ \<Rightarrow> False)"

definition segment_shape :: "jsval \<Rightarrow> jsval \<Rightarrow> bool" where
  "segment_shape sg ingest_seq \<longleftrightarrow>
     is_obj sg \<and> only_keys sg [''digest'', ''last_ingest_seq''] \<and> is_hex64_str (fld sg (js ''digest'')) \<and>
     is_size (fld sg (js ''last_ingest_seq'')) \<and> (case (fld sg (js ''last_ingest_seq''), ingest_seq) of (VNum a, VNum b) \<Rightarrow> \<not> jlt b a | _ \<Rightarrow> True)"

definition is_signed_chain_head :: "env \<Rightarrow> jsval \<Rightarrow> bool" where
  "is_signed_chain_head e v \<longleftrightarrow>
     (let h = fld v (js ''head''); f = \<lambda>k. fld h (js k); s = fld v (js ''signature'') in
      is_obj v \<and> is_obj h \<and> is_bool (fld v (js ''signed'')) \<and>
      only_keys h [''type'', ''version'', ''anchor_id'', ''ingest_seq'', ''segment'', ''issued_at''] \<and>
      f ''type'' = VStr (js ''scopebond:chain-head'') \<and> f ''version'' = VNum (jint 1) \<and> is_hex64_str (f ''anchor_id'') \<and> is_size (f ''ingest_seq'') \<and>
      (case f ''issued_at'' of VStr t \<Rightarrow> date_parse e t \<noteq> None | _ \<Rightarrow> False) \<and>
      (f ''segment'' = VNull \<or> segment_shape (f ''segment'') (f ''ingest_seq'')) \<and>
      (if fld v (js ''signed'') = VBool True
       then is_obj s \<and> fld s (js ''alg'') = VStr (js ''Ed25519'') \<and> is_str (fld s (js ''kid'')) \<and> is_str (fld s (js ''sig''))
       else s = VNull))"

subsection \<open>Signatures\<close>

definition ed25519_verify :: "webcrypto \<Rightarrow> jsstr \<Rightarrow> jsstr \<Rightarrow> jsstr \<Rightarrow> bool" where
  "ed25519_verify w spki message sig \<longleftrightarrow>
     rbind (base64_to_bytes spki) (\<lambda>b. rbind (wc_spki w b) (\<lambda>k. rbind (base64_to_bytes sig) (\<lambda>s. wc_verify w k s (utf8 message)))) = Inr True"

definition segment_key_id :: "env \<Rightarrow> jsstr \<Rightarrow> jsstr" where
  "segment_key_id e spki = js ''seg_'' @ take 16 (text_hash e spki)"

definition chain_head_context :: jsstr where
  "chain_head_context = js ''scopebond:chain-head/v1'' @ [10]"

definition anchor_list_context :: jsstr where
  "anchor_list_context = js ''scopebond:chain-anchors/v1'' @ [10]"

definition chain_head_signing_input :: "jsval \<Rightarrow> jsstr outcome" where
  "chain_head_signing_input head = rbind (canonical head) (\<lambda>t. Inr (chain_head_context @ t))"

definition verify_chain_head_signature :: "env \<Rightarrow> webcrypto \<Rightarrow> jsval \<Rightarrow> jsval \<Rightarrow> bool" where
  "verify_chain_head_signature e w signed key \<longleftrightarrow>
     (case (fld key (js ''kid''), fld key (js ''public_key_spki'')) of
        (VStr kid, VStr spki) \<Rightarrow>
          is_obj key \<and> is_signed_chain_head e signed \<and> fld signed (js ''signed'') = VBool True \<and>
          fld (fld signed (js ''signature'')) (js ''kid'') = VStr kid \<and> segment_key_id e spki = kid \<and>
          (case chain_head_signing_input (fld signed (js ''head'')) of
             Inl _ \<Rightarrow> False
           | Inr t \<Rightarrow> ed25519_verify w spki t (sig_text (fld signed (js ''signature''))))
      | _ \<Rightarrow> False)"

subsection \<open>A published list\<close>

datatype list_problem =
    Not_a_list | Unexpected_members | Malformed_head nat | Listed_twice jsval | Issued_another_day jsval | Bad_unsigned_list
  | Signed_head_unsigned_list jsval | No_key | Key_id_mismatch | Bad_list_signature | Head_of_other_key jsval jsval | Bad_head_signature jsval

record list_check =
  lk_signed :: bool
  lk_kid :: "jsstr option"
  lk_heads :: nat
  lk_problems :: "list_problem list"

definition lk_valid :: "list_check \<Rightarrow> bool" where
  "lk_valid c \<longleftrightarrow> lk_problems c = []"

definition is_day :: "jsstr \<Rightarrow> bool" where
  "is_day s \<longleftrightarrow> length s = 10 \<and> list_all is_digit (take 4 s) \<and> s ! 4 = 45 \<and> list_all is_digit (take 2 (drop 5 s)) \<and> s ! 7 = 45 \<and>
     list_all is_digit (drop 8 s)"

definition head_id :: "jsval \<Rightarrow> jsval" where
  "head_id v = fld (fld v (js ''head'')) (js ''anchor_id'')"

definition issued_day :: "jsval \<Rightarrow> jsval" where
  "issued_day v = (case fld (fld v (js ''head'')) (js ''issued_at'') of VStr t \<Rightarrow> VStr (take 10 t) | x \<Rightarrow> x)"

fun listed_problems :: "env \<Rightarrow> jsval \<Rightarrow> nat \<Rightarrow> jsval list \<Rightarrow> jsval list \<Rightarrow> list_problem list" where
  "listed_problems e date i seen [] = []"
| "listed_problems e date i seen (h # hs) =
     (if \<not> is_signed_chain_head e h then Malformed_head i # listed_problems e date (i + 1) seen hs
      else (if head_id h \<in> set seen then [Listed_twice (head_id h)] else []) @
        (if issued_day h \<noteq> date then [Issued_another_day (head_id h)] else []) @
        listed_problems e date (i + 1) (head_id h # seen) hs)"

definition list_signing_input :: "jsval \<Rightarrow> jsstr outcome" where
  "list_signing_input v =
     rbind (canonical (VObj (map (\<lambda>k. (js k, fld v (js k))) [''type'', ''version'', ''date'', ''key'', ''heads'']))) (\<lambda>t. Inr (anchor_list_context @ t))"

definition signed_head_problems :: "env \<Rightarrow> webcrypto \<Rightarrow> jsval \<Rightarrow> jsval \<Rightarrow> list_problem list" where
  "signed_head_problems e w key h =
     (if \<not> is_signed_chain_head e h \<or> fld h (js ''signed'') \<noteq> VBool True then []
      else let kid = fld (fld h (js ''signature'')) (js ''kid'') in
        if kid \<noteq> fld key (js ''kid'') then [Head_of_other_key (head_id h) kid]
        else if \<not> verify_chain_head_signature e w h key then [Bad_head_signature (head_id h)] else [])"

definition check_anchor_list :: "env \<Rightarrow> webcrypto \<Rightarrow> jsval \<Rightarrow> list_check" where
  "check_anchor_list e w v =
     (let date = fld v (js ''date''); heads = elems (fld v (js ''heads'')); key = fld v (js ''key''); sg = fld v (js ''signature'');
          out = (\<lambda>s k n ps. \<lparr> lk_signed = s, lk_kid = k, lk_heads = n, lk_problems = ps \<rparr>) in
      if \<not> is_obj v \<or> fld v (js ''type'') \<noteq> VStr (js ''scopebond:chain-anchors'') \<or> fld v (js ''version'') \<noteq> VNum (jint 1) \<or>
        (case date of VStr d \<Rightarrow> \<not> is_day d | _ \<Rightarrow> True) \<or> \<not> is_arr (fld v (js ''heads''))
      then out False None 0 [Not_a_list]
      else let ps = (if only_keys v [''type'', ''version'', ''date'', ''key'', ''heads'', ''signed'', ''signature''] then [] else [Unexpected_members]) @
            listed_problems e date 0 [] heads in
        if fld v (js ''signed'') \<noteq> VBool True then
          out False None (length heads) (ps @
            (if fld v (js ''signed'') \<noteq> VBool False \<or> sg \<noteq> VNull then [Bad_unsigned_list] else []) @
            map (\<lambda>h. Signed_head_unsigned_list (head_id h)) (filter (\<lambda>h. is_signed_chain_head e h \<and> fld h (js ''signed'') = VBool True) heads))
        else (case (fld key (js ''kid''), fld key (js ''public_key_spki'')) of
            (VStr kid, VStr spki) \<Rightarrow>
              if \<not> is_obj key \<or> fld key (js ''alg'') \<noteq> VStr (js ''Ed25519'') then out True None (length heads) (ps @ [No_key])
              else out True (Some kid) (length heads) (ps @
                (if segment_key_id e spki \<noteq> kid then [Key_id_mismatch] else []) @
                (if is_obj sg \<and> fld sg (js ''kid'') = VStr kid \<and> is_str (fld sg (js ''sig'')) \<and>
                    (case list_signing_input v of Inl _ \<Rightarrow> False | Inr t \<Rightarrow> ed25519_verify w spki t (sig_text sg))
                 then [] else [Bad_list_signature]) @
                concat (map (signed_head_problems e w key) heads))
          | _ \<Rightarrow> out True None (length heads) (ps @ [No_key])))"

subsection \<open>Comparing heads\<close>

text \<open>A head of a chain with where it came from and this computer's times; \<open>None\<close> is a time that is no number.\<close>

record sourced =
  so_head :: jsval
  so_kept :: bool
  so_sent :: "int option"
  so_held :: "int option"
  so_clock :: "jsstr option"

definition local_time :: "env \<Rightarrow> string \<Rightarrow> jsval \<Rightarrow> int option" where
  "local_time e k h =
     (let l = fld h (js ''local'') in
      case (if is_obj l then fld l (js k) else VUndef) of VStr t \<Rightarrow> date_parse e t | _ \<Rightarrow> None)"

definition local_clock :: "jsval \<Rightarrow> jsstr option" where
  "local_clock h =
     (let l = fld h (js ''local'') in
      case (if is_obj l then fld l (js ''clock'') else VUndef) of
        VStr t \<Rightarrow> if 0 < length t \<and> length t \<le> 64 then Some t else None
      | _ \<Rightarrow> None)"

text \<open>\<open><\<close> on numbers of which one may be missing.\<close>

definition olt :: "int option \<Rightarrow> int option \<Rightarrow> bool" where
  "olt a b = (case (a, b) of (Some x, Some y) \<Rightarrow> x < y | _ \<Rightarrow> False)"

definition other_clock :: "sourced \<Rightarrow> sourced \<Rightarrow> bool" where
  "other_clock a b \<longleftrightarrow> so_clock a \<noteq> None \<and> so_clock b \<noteq> None \<and> so_clock a \<noteq> so_clock b"

definition may_be_out_together :: "sourced \<Rightarrow> sourced \<Rightarrow> bool" where
  "may_be_out_together a b \<longleftrightarrow>
     (if other_clock a b then True
      else if olt (so_held b) (so_held a) then True
      else olt (if olt (so_held b) (so_sent b) then None else so_sent b) (so_held a))"

definition seq_of :: "sourced \<Rightarrow> int" where
  "seq_of s = (case fld (so_head s) (js ''ingest_seq'') of VNum n \<Rightarrow> num_int n | _ \<Rightarrow> 0)"

definition issued_of :: "env \<Rightarrow> sourced \<Rightarrow> int" where
  "issued_of e s = (case fld (so_head s) (js ''issued_at'') of VStr t \<Rightarrow> (case date_parse e t of Some n \<Rightarrow> n | None \<Rightarrow> 0) | _ \<Rightarrow> 0)"

definition seg_of :: "sourced \<Rightarrow> (int \<times> jsval) option" where
  "seg_of s =
     (let g = fld (so_head s) (js ''segment'') in
      if g = VNull then None
      else Some (case fld g (js ''last_ingest_seq'') of VNum n \<Rightarrow> num_int n | _ \<Rightarrow> 0, fld g (js ''digest'')))"

datatype heads_problem =
    Malformed_kept
  | Back_in_issue_order jsstr sourced sourced
  | Back_in_own_order jsstr sourced sourced
  | Back_in_received_order jsstr sourced sourced
  | Two_segments_end jsstr int "jsval \<times> bool" "jsval \<times> bool"

type_synonym placed = "nat \<times> sourced"

definition issue_le :: "env \<Rightarrow> placed \<Rightarrow> placed \<Rightarrow> bool" where
  "issue_le e x y \<longleftrightarrow>
     (let a = snd x; b = snd y in issued_of e a < issued_of e b \<or> (issued_of e a = issued_of e b \<and> seq_of a \<le> seq_of b))"

text \<open>The three passes; each gives the heads it reports, with the problem. \<open>reported\<close> holds places.\<close>

fun issue_pass :: "jsstr \<Rightarrow> placed list \<Rightarrow> (nat \<times> heads_problem) list" where
  "issue_pass k (a # b # rest) =
     (if seq_of (snd b) < seq_of (snd a) then [(fst b, Back_in_issue_order k (snd a) (snd b))] else []) @ issue_pass k (b # rest)"
| "issue_pass k _ = []"

text \<open>The first of the highest heads that satisfy a condition (\<open>before\<close>).\<close>

definition highest :: "(placed \<Rightarrow> bool) \<Rightarrow> placed list \<Rightarrow> placed option" where
  "highest ok xs =
     fold (\<lambda>a before. if \<not> ok a then before
        else (case before of None \<Rightarrow> Some a | Some c \<Rightarrow> if seq_of (snd c) < seq_of (snd a) then Some a else before)) xs None"

definition own_before :: "placed \<Rightarrow> placed \<Rightarrow> bool" where
  "own_before b a \<longleftrightarrow>
     so_kept (snd a) \<and> so_held (snd a) \<noteq> None \<and> \<not> olt (so_sent (snd b)) (so_held (snd a)) \<and> seq_of (snd b) < seq_of (snd a) \<and>
     \<not> other_clock (snd a) (snd b)"

definition own_judged :: "placed \<Rightarrow> bool" where
  "own_judged b \<longleftrightarrow> so_kept (snd b) \<and> so_sent (snd b) \<noteq> None \<and> \<not> olt (so_held (snd b)) (so_sent (snd b))"

definition own_pass :: "jsstr \<Rightarrow> nat list \<Rightarrow> placed list \<Rightarrow> (nat \<times> heads_problem) list" where
  "own_pass k reported xs =
     List.map_filter (\<lambda>b.
       if own_judged b \<and> fst b \<notin> set reported
       then map_option (\<lambda>a. (fst b, Back_in_own_order k (snd a) (snd b))) (highest (own_before b) xs) else None) xs"

fun received_pass :: "jsstr \<Rightarrow> nat list \<Rightarrow> placed list \<Rightarrow> placed list \<Rightarrow> (nat \<times> heads_problem) list" where
  "received_pass k reported earlier [] = []"
| "received_pass k reported earlier (b # later) =
     (if fst b \<in> set reported then []
      else (case highest (\<lambda>a. seq_of (snd b) < seq_of (snd a) \<and> \<not> may_be_out_together (snd a) (snd b)) earlier of
          None \<Rightarrow> []
        | Some a \<Rightarrow> [(fst b, Back_in_received_order k (snd a) (snd b))])) @ received_pass k reported (earlier @ [b]) later"

fun ends_pass :: "jsstr \<Rightarrow> (int \<times> jsval \<times> bool) list \<Rightarrow> placed list \<Rightarrow> heads_problem list" where
  "ends_pass k ends [] = []"
| "ends_pass k ends (s # rest) =
     (case seg_of (snd s) of
        None \<Rightarrow> ends_pass k ends rest
      | Some (at_seq, digest) \<Rightarrow>
          (case map_of ends at_seq of
             None \<Rightarrow> ends_pass k ((at_seq, digest, so_kept (snd s)) # ends) rest
           | Some p \<Rightarrow> (if fst p \<noteq> digest then [Two_segments_end k at_seq p (digest, so_kept (snd s))] else []) @ ends_pass k ends rest))"

definition chain_problems :: "env \<Rightarrow> jsstr \<Rightarrow> sourced list \<Rightarrow> heads_problem list" where
  "chain_problems e k list =
     (let placed = enumerate 0 list; ordered = js_sort (issue_le e) placed;
          first = issue_pass k ordered;
          mine = own_pass k (map fst first) placed;
          received = received_pass k (map fst (first @ mine)) [] (filter (\<lambda>x. so_kept (snd x)) placed) in
      map snd (first @ mine @ received) @ ends_pass k [] ordered)"

record heads_check =
  hc_problems :: "heads_problem list"
  hc_chains :: nat
  hc_matched :: nat

definition hc_ok :: "heads_check \<Rightarrow> bool" where
  "hc_ok c \<longleftrightarrow> hc_problems c = []"

definition chain_name :: "jsval \<Rightarrow> jsstr" where
  "chain_name v = (case head_id v of VStr k \<Rightarrow> k | _ \<Rightarrow> [])"

definition kept_source :: "env \<Rightarrow> jsval \<Rightarrow> sourced" where
  "kept_source e h =
     \<lparr> so_head = fld h (js ''head''), so_kept = True, so_sent = local_time e ''sent_at'' h, so_held = local_time e ''received_at'' h,
       so_clock = local_clock h \<rparr>"

definition published_source :: "jsval \<Rightarrow> sourced" where
  "published_source h = \<lparr> so_head = fld h (js ''head''), so_kept = False, so_sent = None, so_held = None, so_clock = None \<rparr>"

definition add_source :: "jsstr \<Rightarrow> sourced \<Rightarrow> (jsstr \<times> sourced list) list \<Rightarrow> (jsstr \<times> sourced list) list" where
  "add_source k s m = omap_set k ((case map_of m k of None \<Rightarrow> [] | Some xs \<Rightarrow> xs) @ [s]) m"

definition kept_chains :: "env \<Rightarrow> jsval list \<Rightarrow> (jsstr \<times> sourced list) list" where
  "kept_chains e kept = fold (\<lambda>h. add_source (chain_name h) (kept_source e h)) (filter (is_signed_chain_head e) kept) []"

definition compare_heads :: "env \<Rightarrow> jsval list \<Rightarrow> jsval list \<Rightarrow> heads_check" where
  "compare_heads e kept published =
     (let chains = kept_chains e kept;
          matching = filter (\<lambda>h. is_signed_chain_head e h \<and> map_of chains (chain_name h) \<noteq> None) published;
          all = fold (\<lambda>h. add_source (chain_name h) (published_source h)) matching chains in
      \<lparr> hc_problems = map (\<lambda>_. Malformed_kept) (filter (\<lambda>h. \<not> is_signed_chain_head e h) kept) @ concat (map (\<lambda>(k, list). chain_problems e k list) all),
        hc_chains = length all, hc_matched = length matching \<rparr>)"

end
