(* ===== verification/JsonParse.thy ===== *)
theory JsonParse
  imports CanonicalFacts
begin

section \<open>\<open>JSON.parse\<close>\<close>

text \<open>
  The language's reader of JSON text (ECMA-404): white space, the six kinds of values, escapes, and the number grammar; the decimal a
  number denotes is rounded to binary64. Members are created in the order of the text, the last of two members of one name wins, and
  they are enumerated integer indices first. \<open>None\<close> is a \<open>SyntaxError\<close>. The recursion counts down a bound on the nesting;
  \<open>json_fuel\<close> shows the bound \<open>json_parse\<close> starts with is never reached.
\<close>

subsection \<open>Tokens\<close>

definition is_ws :: "nat \<Rightarrow> bool" where
  "is_ws c \<longleftrightarrow> c = 32 \<or> c = 9 \<or> c = 10 \<or> c = 13"

definition skip_ws :: "jsstr \<Rightarrow> jsstr" where
  "skip_ws s = dropWhile is_ws s"

definition simple_escapes :: "(nat \<times> nat) list" where
  "simple_escapes = [(34, 34), (92, 92), (47, 47), (98, 8), (102, 12), (110, 10), (114, 13), (116, 9)]"

definition hex_nibble :: "nat \<Rightarrow> nat option" where
  "hex_nibble c =
     (if is_digit c then Some (c - 48) else if 97 \<le> c \<and> c \<le> 102 then Some (c - 87) else if 65 \<le> c \<and> c \<le> 70 then Some (c - 55) else None)"

definition unicode_escape :: "jsstr \<Rightarrow> (nat \<times> jsstr) option" where
  "unicode_escape s =
     (case map hex_nibble (take 4 s) of
        [Some a, Some b, Some c, Some d] \<Rightarrow> Some (4096 * a + 256 * b + 16 * c + d, drop 4 s)
      | _ \<Rightarrow> None)"

text \<open>One character of a string: itself, or what its escape denotes.\<close>

definition json_char :: "jsstr \<Rightarrow> (nat \<times> jsstr) option" where
  "json_char s =
     (case s of
        [] \<Rightarrow> None
      | c # r \<Rightarrow>
          if c < 32 then None
          else if c \<noteq> 92 then Some (c, r)
          else (case r of
              [] \<Rightarrow> None
            | d # u \<Rightarrow> if d = 117 then unicode_escape u else map_option (\<lambda>x. (x, u)) (map_of simple_escapes d)))"

lemma json_char_shorter: "json_char s = Some (c, r) \<Longrightarrow> length r < length s"
  by (auto simp: json_char_def unicode_escape_def split: list.splits if_splits option.splits)

text \<open>A string, from behind its opening quotation mark.\<close>

function json_string :: "jsstr \<Rightarrow> (jsstr \<times> jsstr) option" where
  "json_string s =
     (if take 1 s = [34] then Some ([], drop 1 s)
      else (case json_char s of
          None \<Rightarrow> None
        | Some (c, r) \<Rightarrow> (case json_string r of None \<Rightarrow> None | Some (t, u) \<Rightarrow> Some (c # t, u))))"
  by pat_completeness auto
termination
  by (relation "measure length") (auto dest: json_char_shorter)

declare json_string.simps [simp del]

lemma json_string_shorter: "json_string s = Some (t, r) \<Longrightarrow> length r < length s"
proof (induction s arbitrary: t r rule: json_string.induct)
  case (1 s)
  show ?case
  proof (cases "take 1 s = [34]")
    case True
    then have "r = drop 1 s" "s \<noteq> []" using 1(2) by (auto simp: json_string.simps [of s])
    then show ?thesis by (cases s) auto
  next
    case False
    with 1(2) obtain c v t' where c: "json_char s = Some (c, v)" "json_string v = Some (t', r)"
      by (auto simp: json_string.simps [of s] split: option.splits)
    with 1(1) [OF False c(1) refl c(2)] show ?thesis using json_char_shorter [OF c(1)] by simp
  qed
qed

text \<open>The fraction and the exponent of a number: their digits and value, and the rest.\<close>

definition json_fraction :: "jsstr \<Rightarrow> (jsstr \<times> jsstr) option" where
  "json_fraction s =
     (if take 1 s \<noteq> [46] then Some ([], s)
      else let f = takeWhile is_digit (drop 1 s) in if f = [] then None else Some (f, dropWhile is_digit (drop 1 s)))"

definition json_exponent :: "jsstr \<Rightarrow> (int \<times> jsstr) option" where
  "json_exponent s =
     (if take 1 s \<noteq> [101] \<and> take 1 s \<noteq> [69] then Some (0, s)
      else let x = drop 1 s; sg = take 1 x; y = (if sg = [45] \<or> sg = [43] then drop 1 x else x); d = takeWhile is_digit y in
        if d = [] then None else Some (if sg = [45] then - digits_val d else digits_val d, dropWhile is_digit y))"

definition json_number :: "jsstr \<Rightarrow> (jnum \<times> jsstr) option" where
  "json_number s =
     (let neg = (take 1 s = [45]); t = (if neg then drop 1 s else s); i = takeWhile is_digit t in
      if i = [] \<or> (hd i = 48 \<and> 1 < length i) then None
      else (case json_fraction (dropWhile is_digit t) of
          None \<Rightarrow> None
        | Some (f, u) \<Rightarrow>
            (case json_exponent u of
               None \<Rightarrow> None
             | Some (x, r) \<Rightarrow>
                 let q = of_int (digits_val (i @ f)) * 10 powi (x - int (length f)) in
                 Some (rnd (if neg then - q else q), r))))"

subsection \<open>Objects\<close>

definition index_key :: "jsstr \<Rightarrow> bool" where
  "index_key k \<longleftrightarrow> k = [48] \<or> (k \<noteq> [] \<and> hd k \<noteq> 48 \<and> list_all is_digit k \<and> digits_val k < 4294967295)"

definition enumerated :: "(jsstr \<times> jsval) list \<Rightarrow> (jsstr \<times> jsval) list" where
  "enumerated fs =
     js_sort (\<lambda>a b. digits_val (fst a) \<le> digits_val (fst b)) (filter (index_key \<circ> fst) fs) @ filter (Not \<circ> index_key \<circ> fst) fs"

definition new_object :: "(jsstr \<times> jsval) list \<Rightarrow> jsval" where
  "new_object fs = VObj (enumerated (omap_of_list fs))"

subsection \<open>Values\<close>

definition json_word :: "jsstr \<Rightarrow> (jsval \<times> jsstr) option" where
  "json_word s =
     (if starts_with s (js ''null'') then Some (VNull, drop 4 s)
      else if starts_with s (js ''true'') then Some (VBool True, drop 4 s)
      else if starts_with s (js ''false'') then Some (VBool False, drop 5 s)
      else map_option (\<lambda>(n, r). (VNum n, r)) (json_number s))"

fun json_value :: "nat \<Rightarrow> jsstr \<Rightarrow> (jsval \<times> jsstr) option"
  and json_elements :: "nat \<Rightarrow> jsstr \<Rightarrow> (jsval list \<times> jsstr) option"
  and json_members :: "nat \<Rightarrow> jsstr \<Rightarrow> ((jsstr \<times> jsval) list \<times> jsstr) option" where
  "json_value 0 s = None"
| "json_value (Suc n) s =
     (case skip_ws s of
        [] \<Rightarrow> None
      | c # t \<Rightarrow>
          if c = 34 then map_option (\<lambda>(x, r). (VStr x, r)) (json_string t)
          else if c = 91 then
            (if take 1 (skip_ws t) = [93] then Some (VArr [], drop 1 (skip_ws t))
             else map_option (\<lambda>(xs, r). (VArr xs, r)) (json_elements n t))
          else if c = 123 then
            (if take 1 (skip_ws t) = [125] then Some (VObj [], drop 1 (skip_ws t))
             else map_option (\<lambda>(fs, r). (new_object fs, r)) (json_members n t))
          else json_word (c # t))"
| "json_elements 0 s = None"
| "json_elements (Suc n) s =
     (case json_value n s of
        None \<Rightarrow> None
      | Some (v, r) \<Rightarrow>
          (case skip_ws r of
             [] \<Rightarrow> None
           | c # t \<Rightarrow>
               if c = 93 then Some ([v], t)
               else if c = 44 then map_option (\<lambda>(vs, u). (v # vs, u)) (json_elements n t)
               else None))"
| "json_members 0 s = None"
| "json_members (Suc n) s =
     (case skip_ws s of
        [] \<Rightarrow> None
      | q # t \<Rightarrow>
          if q \<noteq> 34 then None
          else (case json_string t of
              None \<Rightarrow> None
            | Some (k, u) \<Rightarrow>
                (case skip_ws u of
                   [] \<Rightarrow> None
                 | d # w \<Rightarrow>
                     if d \<noteq> 58 then None
                     else (case json_value n w of
                         None \<Rightarrow> None
                       | Some (v, r) \<Rightarrow>
                           (case skip_ws r of
                              [] \<Rightarrow> None
                            | c # x \<Rightarrow>
                                if c = 125 then Some ([(k, v)], x)
                                else if c = 44 then map_option (\<lambda>(fs, y). ((k, v) # fs, y)) (json_members n x)
                                else None)))))"

definition json_parse :: "jsstr \<Rightarrow> jsval option" where
  "json_parse s =
     (case json_value (2 * length s + 2) s of
        None \<Rightarrow> None
      | Some (v, r) \<Rightarrow> if skip_ws r = [] then Some v else None)"


subsection \<open>The bound is never reached\<close>

lemma length_skip [simp]: "length (skip_ws s) \<le> length s"
  by (simp add: skip_ws_def length_dropWhile_le)

lemma length_skip_drop [simp]:
  "length (dropWhile P (drop n s)) \<le> length s" "length (dropWhile P (drop n (drop m s))) \<le> length s" "length (skip_ws s) - n \<le> length s"
  using length_dropWhile_le [of P "drop n s"] length_dropWhile_le [of P "drop n (drop m s)"] length_skip [of s] by (simp_all del: length_skip)

lemma skip_Cons: "skip_ws s = c # t \<Longrightarrow> length t < length s"
  using length_skip [of s] by simp

lemma json_number_shorter: "json_number s = Some (x, r) \<Longrightarrow> length r < length s"
proof -
  assume h: "json_number s = Some (x, r)"
  define t where "t = (if take 1 s = [45] then drop 1 s else s)"
  have "json_number s = (let i = takeWhile is_digit t in
      if i = [] \<or> (hd i = 48 \<and> 1 < length i) then None
      else (case json_fraction (dropWhile is_digit t) of
          None \<Rightarrow> None
        | Some (f, u) \<Rightarrow>
            (case json_exponent u of
               None \<Rightarrow> None
             | Some (x, r) \<Rightarrow>
                 let q = of_int (digits_val (i @ f)) * 10 powi (x - int (length f)) in
                 Some (rnd (if take 1 s = [45] then - q else q), r))))"
    by (simp only: json_number_def t_def Let_def)
  with h obtain f u y where i: "takeWhile is_digit t \<noteq> []" and f: "json_fraction (dropWhile is_digit t) = Some (f, u)"
    and y: "json_exponent u = Some (y, r)"
    by (auto simp: Let_def split: if_split_asm option.split_asm)
  have "length r \<le> length u" using y
    by (auto simp: json_exponent_def Let_def simp del: drop_drop split: if_splits)
  also have "\<dots> \<le> length (dropWhile is_digit t)" using f
    by (auto simp: json_fraction_def Let_def split: if_splits)
  also have "\<dots> < length t" using i arg_cong [OF takeWhile_dropWhile_id [of is_digit t], of length]
    by (cases "takeWhile is_digit t") auto
  also have "\<dots> \<le> length s" by (simp add: t_def)
  finally show ?thesis .
qed

lemma json_word_shorter: "json_word s = Some (v, r) \<Longrightarrow> length r < length s"
  by (auto simp: json_word_def starts_with_iff js_def dest: json_number_shorter split: if_splits)

lemma json_shorter:
  "(json_value n s = Some (v, r) \<longrightarrow> length r < length s) \<and>
   (json_elements n s = Some (xs, r) \<longrightarrow> length r < length s) \<and>
   (json_members n s = Some (fs, r) \<longrightarrow> length r < length s)"
proof (induction n arbitrary: s v xs fs r)
  case (Suc n)
  have "length r < length s" if "json_value (Suc n) s = Some (v, r)"
  proof -
    from that obtain c t where c: "skip_ws s = c # t" by (auto split: list.splits)
    note l = skip_Cons [OF c] length_skip [of s, unfolded c]
    consider "c = 34" | "c = 91" | "c = 123" | "c \<noteq> 34" "c \<noteq> 91" "c \<noteq> 123" by blast
    then show ?thesis
    proof cases
      case 1
      with that c l json_string_shorter [of t] show ?thesis by fastforce
    next
      case 2
      with that c have "r = drop 1 (skip_ws t) \<or> (\<exists>ys. json_elements n t = Some (ys, r))" by (auto split: if_splits)
      with Suc.IH [of t] have "length r \<le> length t" by (auto intro: less_imp_le)
      with l show ?thesis by simp
    next
      case 3
      with that c have "r = drop 1 (skip_ws t) \<or> (\<exists>ys. json_members n t = Some (ys, r))" by (auto split: if_splits)
      with Suc.IH [of t] have "length r \<le> length t" by (auto intro: less_imp_le)
      with l show ?thesis by simp
    next
      case 4
      with that c l json_word_shorter [of "c # t" v r] show ?thesis by simp
    qed
  qed
  moreover have "length r < length s" if "json_elements (Suc n) s = Some (xs, r)"
  proof -
    from that obtain v w c t where v: "json_value n s = Some (v, w)" and c: "skip_ws w = c # t"
      and r: "(c = 93 \<and> r = t) \<or> (\<exists>ys. json_elements n t = Some (ys, r))"
      by (auto split: option.splits list.splits if_splits)
    from v have "length w < length s" using Suc.IH by blast
    moreover have "length t < length w" using skip_Cons [OF c] .
    moreover have "length r \<le> length t" using r Suc.IH [of t] by (auto intro: less_imp_le)
    ultimately show ?thesis by simp
  qed
  moreover have "length r < length s" if "json_members (Suc n) s = Some (fs, r)"
  proof -
    from that obtain t k u w v y c x where q: "skip_ws s = 34 # t" and k: "json_string t = Some (k, u)" and d: "skip_ws u = 58 # w"
      and v: "json_value n w = Some (v, y)" and c: "skip_ws y = c # x"
      and r: "(c = 125 \<and> r = x) \<or> (\<exists>gs. json_members n x = Some (gs, r))"
      by (auto split: option.splits list.splits if_splits)
    from v have "length y < length w" using Suc.IH by blast
    moreover have "length r \<le> length x" using r Suc.IH [of x] by (auto intro: less_imp_le)
    ultimately show ?thesis using skip_Cons [OF q] json_string_shorter [OF k] skip_Cons [OF d] skip_Cons [OF c] by simp
  qed
  ultimately show ?case by blast
qed simp

lemma json_fuel_step:
  "(2 * length s + 1 \<le> n \<longrightarrow> json_value (Suc n) s = json_value n s) \<and>
   (2 * length s + 2 \<le> n \<longrightarrow> json_elements (Suc n) s = json_elements n s) \<and>
   (2 * length s + 2 \<le> n \<longrightarrow> json_members (Suc n) s = json_members n s)"
proof (induction n arbitrary: s)
  case (Suc n)
  have "json_value (Suc (Suc n)) s = json_value (Suc n) s" if "2 * length s \<le> n"
  proof (cases "skip_ws s")
    case (Cons c t)
    have "2 * length t + 2 \<le> n" using that skip_Cons [OF Cons] by simp
    then have "json_elements (Suc n) t = json_elements n t" "json_members (Suc n) t = json_members n t" using Suc.IH by blast+
    then show ?thesis by (simp only: json_value.simps Cons list.case)
  qed simp
  moreover have "json_elements (Suc (Suc n)) s = json_elements (Suc n) s" if b: "2 * length s + 1 \<le> n"
  proof -
    have v: "json_value (Suc n) s = json_value n s" using b Suc.IH by blast
    have e: "json_elements (Suc n) t = json_elements n t" if "json_value n s = Some (x, w)" "skip_ws w = c # t" for x w c t
    proof -
      have "length w < length s" using that(1) json_shorter by blast
      with skip_Cons [OF that(2)] b have "2 * length t + 2 \<le> n" by simp
      then show ?thesis using Suc.IH by blast
    qed
    note eqs = json_elements.simps(2) [of "Suc n" s] json_elements.simps(2) [of n s] v
    show ?thesis
    proof (cases "json_value n s")
      case (Some p)
      show ?thesis
      proof (cases "skip_ws (snd p)")
        case (Cons c t)
        have "json_elements (Suc n) t = json_elements n t" by (rule e [of "fst p" "snd p" c]) (simp_all add: Some Cons)
        then show ?thesis by (simp only: eqs Some option.case Cons list.case split_beta)
      qed (simp add: eqs Some split_beta del: json_value.simps(2))
    qed (simp add: eqs del: json_value.simps(2))
  qed
  moreover have "json_members (Suc (Suc n)) s = json_members (Suc n) s" if b: "2 * length s + 1 \<le> n"
  proof -
    have v: "json_value (Suc n) w = json_value n w"
      if "skip_ws s = q # t" "json_string t = Some (k, u)" "skip_ws u = d # w" for q t k u d w
    proof -
      have "2 * length w + 1 \<le> n" using skip_Cons [OF that(1)] json_string_shorter [OF that(2)] skip_Cons [OF that(3)] b by simp
      then show ?thesis using Suc.IH by blast
    qed
    have m: "json_members (Suc n) x = json_members n x"
      if "skip_ws s = q # t" "json_string t = Some (k, u)" "skip_ws u = d # w" "json_value n w = Some (y, z)" "skip_ws z = c # x"
      for q t k u d w y z c x
    proof -
      have "length z < length w" using that(4) json_shorter by blast
      then have "2 * length x + 2 \<le> n"
        using skip_Cons [OF that(1)] json_string_shorter [OF that(2)] skip_Cons [OF that(3)] skip_Cons [OF that(5)] b by simp
      then show ?thesis using Suc.IH by blast
    qed
    note eqs = json_members.simps(2) [of "Suc n" s] json_members.simps(2) [of n s]
    show ?thesis
    proof (cases "skip_ws s")
      case (Cons q t)
      note q = Cons
      show ?thesis
      proof (cases "json_string t")
        case (Some p)
        show ?thesis
        proof (cases "skip_ws (snd p)")
          case (Cons d w)
          have v': "json_value (Suc n) w = json_value n w" by (rule v [of q t "fst p" "snd p" d]) (simp_all add: q Some Cons)
          show ?thesis
          proof (cases "json_value n w")
            case None
            then show ?thesis by (simp only: eqs q Some option.case Cons list.case split_beta v')
          next
            case (Some y)
            note y = Some
            show ?thesis
            proof (cases "skip_ws (snd y)")
              case (Cons c x)
              have "json_members (Suc n) x = json_members n x"
                by (rule m [of q t "fst p" "snd p" d w "fst y" "snd y" c])
                  (simp_all add: q \<open>json_string t = Some p\<close> \<open>skip_ws (snd p) = d # w\<close> y Cons)
              then show ?thesis
                by (simp only: eqs q \<open>json_string t = Some p\<close> \<open>skip_ws (snd p) = d # w\<close> y option.case Cons list.case split_beta v')
            qed (simp add: eqs q \<open>json_string t = Some p\<close> \<open>skip_ws (snd p) = d # w\<close> y split_beta v' del: json_value.simps(2) json_members.simps(2))
          qed
        qed (simp add: eqs q Some split_beta)
      qed (simp add: eqs q del: json_value.simps(2))
    qed simp
  qed
  ultimately show ?case by simp
qed simp

text \<open>Any larger bound gives the same result.\<close>

lemma json_fuel: "2 * length s + 1 \<le> n \<Longrightarrow> json_value n s = json_value (2 * length s + 1) s"
proof (induction n rule: dec_induct)
  case (step n)
  then show ?case using json_fuel_step [of s n] by simp
qed simp

end
