(* ===== verification/Segments.thy ===== *)
theory Segments
  imports ChainHeads Summary JsonParse
begin

section \<open>Evidence segments\<close>

text \<open>
  The last part of \<^verbatim>\<open>packages/verify/src/chain.ts\<close>: the check of downloaded evidence segments, one by one and chain by chain against the
  heads. A segment is the JSON text as served; its name is the digest of that text. Whatever the code makes of members it has not checked
  (\<open>String(v)\<close>, \<open>Number(v)\<close>, sums) is kept, throws included: then nothing passes.
\<close>

subsection \<open>One segment\<close>

datatype segment_problem =
    Key_not_ed25519 | Not_json nat | Not_a_segment jsstr | Not_canonical jsstr | Record_not_object jsstr nat
  | Out_of_sequence jsstr jsstr jsstr | Leaf_mismatch jsstr jsstr | Cannot_be_hashed jsstr jsstr | Bad_record_signature jsstr jsstr
  | Bounds_mismatch jsstr | Root_mismatch jsstr
  | Malformed_chain_head | Unreached jsstr jnum jnum | Not_given jsstr jsstr | Links_loop jsstr jsstr | Missing_between jsstr jnum jnum
  | Two_continue jsstr jsstr "jsstr list" | Starts_elsewhere jsstr jsstr jnum jnum | No_longer_in_chain jsstr jsval
  | Ends_elsewhere jsstr jsval jnum jsval
  | Could_not_check

text \<open>What the loop over a segment's records carries; \<open>sn_expected\<close> is the next sequence number.\<close>

record scan =
  sn_expected :: jsval
  sn_leaves :: "jsstr list"
  sn_checked :: nat
  sn_others :: nat
  sn_problems :: "segment_problem list"

definition bump :: "jsval \<Rightarrow> jsval" where
  "bump v = (case v of VNum n \<Rightarrow> VNum (jadd n (jint 1)) | _ \<Rightarrow> v)"

text \<open>The key the records are checked with: the key given and its id.\<close>

definition record_key :: "env \<Rightarrow> webcrypto \<Rightarrow> jsval \<Rightarrow> jsstr outcome" where
  "record_key e w key = rbind (import_public_key w key) (\<lambda>(k, jwk). derive_key_id e jwk)"

definition receipt_payload :: "jsval \<Rightarrow> jsval" where
  "receipt_payload r = fld (fld r (js ''receipt'')) (js ''payload'')"

definition record_leaf :: "jsval \<Rightarrow> jsstr" where
  "record_leaf r = (case fld r (js ''leaf'') of VStr s \<Rightarrow> s | _ \<Rightarrow> [])"

definition hashes_to_leaf :: "env \<Rightarrow> jsval \<Rightarrow> bool" where
  "hashes_to_leaf e r \<longleftrightarrow>
     truthy (receipt_payload r) \<and>
     (case canonical (receipt_payload r) of Inl _ \<Rightarrow> False | Inr t \<Rightarrow> text_hash e t = record_leaf r)"

definition leaf_problems :: "env \<Rightarrow> jsstr \<Rightarrow> jsval \<Rightarrow> segment_problem list outcome" where
  "leaf_problems e name r =
     (let p = receipt_payload r in
      if hashes_to_leaf e r then Inr []
      else rbind (to_str (fld r (js ''event_id''))) (\<lambda>s.
        Inr [if truthy p \<and> \<not> returns (canonical p) then Cannot_be_hashed name s else Leaf_mismatch name s]))"

definition record_verifies :: "env \<Rightarrow> webcrypto \<Rightarrow> jsval \<Rightarrow> jsval \<Rightarrow> bool" where
  "record_verifies e w key r \<longleftrightarrow>
     sv_valid (if fld (receipt_payload r) (js ''type'') = VStr (js ''scopebond:summary'')
       then verify_summary_signature e w (fld r (js ''receipt'')) key
       else verify_receipt_signature e w (fld r (js ''receipt'')) key)"

text \<open>The counts of signatures checked and of records of other keys, and the problems.\<close>

definition signature_problems :: "env \<Rightarrow> webcrypto \<Rightarrow> jsval \<Rightarrow> jsstr option \<Rightarrow> jsstr \<Rightarrow> jsval \<Rightarrow> (nat \<times> nat \<times> segment_problem list) outcome" where
  "signature_problems e w key kid name r =
     (case kid of
        None \<Rightarrow> Inr (0, 0, [])
      | Some k \<Rightarrow>
          if \<not> truthy (receipt_payload r) then Inr (0, 0, [])
          else if fld (fld (receipt_payload r) (js ''attester'')) (js ''kid'') \<noteq> VStr k then Inr (0, 1, [])
          else if record_verifies e w key r then Inr (1, 0, [])
          else rbind (to_str (fld r (js ''event_id''))) (\<lambda>s. Inr (1, 0, [Bad_record_signature name s])))"

definition sequence_problems :: "jsstr \<Rightarrow> jsval \<Rightarrow> jsval \<Rightarrow> segment_problem list outcome" where
  "sequence_problems name s expected =
     (if same_value s expected then Inr []
      else rbind (to_str s) (\<lambda>a. rbind (to_str expected) (\<lambda>b. Inr [Out_of_sequence name a b])))"

definition record_step :: "env \<Rightarrow> webcrypto \<Rightarrow> jsval \<Rightarrow> jsstr option \<Rightarrow> jsstr \<Rightarrow> nat \<Rightarrow> jsval \<Rightarrow> scan \<Rightarrow> scan outcome" where
  "record_step e w key kid name position r c =
     (if \<not> is_obj r then
        Inr (c \<lparr> sn_expected := bump (sn_expected c), sn_leaves := sn_leaves c @ [[]],
               sn_problems := sn_problems c @ [Record_not_object name position] \<rparr>)
      else let s = fld r (js ''ingest_seq'') in
        rbind (sequence_problems name s (sn_expected c)) (\<lambda>p1.
          rbind (leaf_problems e name r) (\<lambda>p2.
            rbind (signature_problems e w key kid name r) (\<lambda>(checked, others, p3).
              Inr (c \<lparr> sn_expected := (case s of VNum n \<Rightarrow> VNum (jadd n (jint 1)) | _ \<Rightarrow> sn_expected c),
                     sn_leaves := sn_leaves c @ [record_leaf r], sn_checked := sn_checked c + checked, sn_others := sn_others c + others,
                     sn_problems := sn_problems c @ p1 @ p2 @ p3 \<rparr>)))))"

fun record_loop :: "env \<Rightarrow> webcrypto \<Rightarrow> jsval \<Rightarrow> jsstr option \<Rightarrow> jsstr \<Rightarrow> nat \<Rightarrow> jsval list \<Rightarrow> scan \<Rightarrow> scan outcome" where
  "record_loop e w key kid name i [] c = Inr c"
| "record_loop e w key kid name i (r # rs) c =
     rbind (record_step e w key kid name i r c) (record_loop e w key kid name (i + 1) rs)"

subsection \<open>All segments\<close>

type_synonym segments = "(jsstr \<times> jsval) list"

record reading =
  rd_docs :: segments
  rd_records :: nat
  rd_checked :: nat
  rd_others :: nat
  rd_problems :: "segment_problem list"

definition bound :: "jsval \<Rightarrow> string \<Rightarrow> jsval" where
  "bound doc k = fld (fld doc (js ''bounds'')) (js k)"

definition doc_records :: "jsval \<Rightarrow> jsval list" where
  "doc_records doc = elems (fld doc (js ''records''))"

definition is_segment :: "jsval \<Rightarrow> bool" where
  "is_segment doc \<longleftrightarrow>
     fld doc (js ''type'') = VStr (js ''scopebond:evidence-segment'') \<and> is_arr (fld doc (js ''records'')) \<and> is_obj (fld doc (js ''bounds''))"

definition segment_step :: "env \<Rightarrow> webcrypto \<Rightarrow> jsval \<Rightarrow> jsstr option \<Rightarrow> nat \<Rightarrow> jsstr \<Rightarrow> reading \<Rightarrow> reading outcome" where
  "segment_step e w key kid i t c =
     (case json_parse t of
        None \<Rightarrow> Inr (c \<lparr> rd_problems := rd_problems c @ [Not_json i] \<rparr>)
      | Some doc \<Rightarrow>
          let name = text_hash e t in
          if \<not> is_segment doc then Inr (c \<lparr> rd_problems := rd_problems c @ [Not_a_segment name] \<rparr>)
          else rbind (record_loop e w key kid name 0 (doc_records doc)
                 \<lparr> sn_expected = bound doc ''first_ingest_seq'', sn_leaves = [], sn_checked = 0, sn_others = 0, sn_problems = [] \<rparr>) (\<lambda>r.
            let final = (case sn_expected r of VNum n \<Rightarrow> VNum (jsub n (jint 1)) | _ \<Rightarrow> VUndef) in
            Inr \<lparr> rd_docs = omap_set name doc (rd_docs c), rd_records = rd_records c + length (doc_records doc),
                  rd_checked = rd_checked c + sn_checked r, rd_others = rd_others c + sn_others r,
                  rd_problems = rd_problems c @ (if canonical doc = Inr t then [] else [Not_canonical name]) @ sn_problems r @
                    (if same_value (bound doc ''last_ingest_seq'') final then [] else [Bounds_mismatch name]) @
                    (if VStr (merkle_root_v1 (sha256 e) (sn_leaves r)) = fld (fld doc (js ''proof'')) (js ''merkle_root'') then []
                     else [Root_mismatch name]) \<rparr>))"

fun segment_loop :: "env \<Rightarrow> webcrypto \<Rightarrow> jsval \<Rightarrow> jsstr option \<Rightarrow> nat \<Rightarrow> jsstr list \<Rightarrow> reading \<Rightarrow> reading outcome" where
  "segment_loop e w key kid i [] c = Inr c"
| "segment_loop e w key kid i (t # ts) c = rbind (segment_step e w key kid i t c) (segment_loop e w key kid (i + 1) ts)"

subsection \<open>One chain\<close>

text \<open>A chain's heads, by anchor id, and the segments that continue each segment.\<close>

definition by_chain :: "env \<Rightarrow> jsval list \<Rightarrow> (jsstr \<times> jsval list) list" where
  "by_chain e heads =
     fold (\<lambda>h m. omap_set (chain_name h) ((case map_of m (chain_name h) of None \<Rightarrow> [] | Some xs \<Rightarrow> xs) @ [fld h (js ''head'')]) m)
       (filter (is_signed_chain_head e) heads) []"

definition link :: "jsval \<Rightarrow> jsstr option" where
  "link doc = str_opt (fld doc (js ''previous_segment_digest''))"

definition continuing :: "segments \<Rightarrow> (jsstr \<times> jsstr list) list" where
  "continuing docs =
     fold (\<lambda>(digest, doc) m. case link doc of
         None \<Rightarrow> m
       | Some p \<Rightarrow> omap_set p ((case map_of m p of None \<Rightarrow> [] | Some xs \<Rightarrow> xs) @ [digest]) m) docs []"

definition num_eq :: "jnum \<Rightarrow> jnum \<Rightarrow> bool" where
  "num_eq a b \<longleftrightarrow> a = b \<and> a \<noteq> NaN"

definition issued_ms :: "env \<Rightarrow> jsval \<Rightarrow> int" where
  "issued_ms e h = (case fld h (js ''issued_at'') of VStr t \<Rightarrow> (case date_parse e t of Some n \<Rightarrow> n | None \<Rightarrow> 0) | _ \<Rightarrow> 0)"

definition head_number :: "jsval \<Rightarrow> string \<Rightarrow> jnum" where
  "head_number h k = (case fld h (js k) of VNum n \<Rightarrow> n | _ \<Rightarrow> NaN)"

definition named_segment :: "jsval \<Rightarrow> jsstr option" where
  "named_segment h = str_opt (fld (fld h (js ''segment'')) (js ''digest''))"

text \<open>The walk from a segment back to the first; \<open>trail\<close> (the code's \<open>path\<close>) holds each digest with its last sequence number.\<close>

fun path_loop :: "nat \<Rightarrow> jsstr \<Rightarrow> segments \<Rightarrow> jsval option \<Rightarrow> jsstr option \<Rightarrow> (jsstr \<times> jnum) list \<Rightarrow>
    ((jsstr \<times> jnum) list \<times> segment_problem list) outcome" where
  "path_loop 0 k docs nx digest trail = Inr (trail, [])"
| "path_loop (Suc n) k docs nx digest trail =
     (case digest of
        None \<Rightarrow> Inr (trail, [])
      | Some d \<Rightarrow>
          (case map_of docs d of
             None \<Rightarrow> Inr (trail, [Not_given k d])
           | Some doc \<Rightarrow>
               rbind (to_num (bound doc ''last_ingest_seq'')) (\<lambda>final.
                 if map_of trail d \<noteq> None then Inr (trail, [Links_loop k d])
                 else rbind (case nx of
                       None \<Rightarrow> Inr []
                     | Some x \<Rightarrow> rbind (to_num (bound x ''first_ingest_seq'')) (\<lambda>f.
                         Inr (if num_eq f (jadd final (jint 1)) then [] else [Missing_between k (jadd final (jint 1)) (jsub f (jint 1))]))) (\<lambda>ps.
                   rbind (path_loop n k docs (Some doc) (link doc) (trail @ [(d, final)])) (\<lambda>(p, qs). Inr (p, ps @ qs))))))"

text \<open>The walk forward; the result is the last sequence number reached.\<close>

fun ahead_loop :: "nat \<Rightarrow> jsstr \<Rightarrow> segments \<Rightarrow> (jsstr \<times> jnum) list \<Rightarrow> jsstr list \<Rightarrow> jsstr \<Rightarrow> jnum \<Rightarrow> (jnum \<times> segment_problem list) outcome" where
  "ahead_loop 0 k docs trail ahead here final = Inr (final, [])"
| "ahead_loop (Suc n) k docs trail ahead here final =
     (let later = filter (\<lambda>d. map_of trail d = None \<and> d \<notin> set ahead) (case map_of (continuing docs) here of None \<Rightarrow> [] | Some xs \<Rightarrow> xs) in
      case later of
        [] \<Rightarrow> Inr (final, [])
      | d # others \<Rightarrow>
          if others \<noteq> [] then Inr (final, [Two_continue k here later])
          else (case map_of docs d of
              None \<Rightarrow> Inl TypeErr
            | Some doc \<Rightarrow>
                rbind (to_num (bound doc ''first_ingest_seq'')) (\<lambda>f.
                  rbind (to_num (bound doc ''last_ingest_seq'')) (\<lambda>l.
                    let want = jadd final (jint 1);
                        ps = (if jlt want f then [Missing_between k want (jsub f (jint 1))]
                              else if \<not> num_eq f want then [Starts_elsewhere k d f want] else []) in
                    rbind (ahead_loop n k docs trail (d # ahead) d l) (\<lambda>(reached, qs). Inr (reached, ps @ qs))))))"

definition max_walk :: nat where
  "max_walk = 1000000"

definition unreached :: "jsstr \<Rightarrow> jnum \<Rightarrow> jnum \<Rightarrow> segment_problem list" where
  "unreached k admitted reached = (if jlt reached admitted then [Unreached k (jadd reached (jint 1)) admitted] else [])"

definition named_problem :: "jsstr \<Rightarrow> (jsstr \<times> jnum) list \<Rightarrow> jsval \<Rightarrow> segment_problem list" where
  "named_problem k trail h =
     (case named_segment h of
        None \<Rightarrow> []
      | Some d \<Rightarrow>
          (let told = fld (fld h (js ''segment'')) (js ''last_ingest_seq'') in
           case map_of trail d of
             None \<Rightarrow> [No_longer_in_chain k h]
           | Some n \<Rightarrow> if same_value (VNum n) told \<and> n \<noteq> NaN then [] else [Ends_elsewhere k h n told]))"

text \<open>Whether the segments past the newest named one reach what the heads say was admitted.\<close>

definition ahead_check :: "segments \<Rightarrow> jsstr \<Rightarrow> (jsstr \<times> jnum) list \<Rightarrow> jsstr \<Rightarrow> jnum \<Rightarrow> segment_problem list outcome" where
  "ahead_check docs k trail d admitted =
     (case map_of docs d of
        None \<Rightarrow> Inr []
      | Some tip \<Rightarrow>
          rbind (to_num (bound tip ''last_ingest_seq'')) (\<lambda>final.
            rbind (ahead_loop max_walk k docs trail [] d final) (\<lambda>(reached, qs).
              Inr (qs @ unreached k admitted (if is_finite_num reached then reached else jint 0)))))"

definition chain_check :: "env \<Rightarrow> segments \<Rightarrow> jsstr \<Rightarrow> jsval list \<Rightarrow> (jsval option \<times> segment_problem list) outcome" where
  "chain_check e docs k list =
     (let ordered = js_sort (\<lambda>a b. issued_ms e a \<le> issued_ms e b) list;
          admitted = foldl (\<lambda>most h. jmax most (head_number h ''ingest_seq'')) (jint 0) list in
      case find (\<lambda>h. named_segment h \<noteq> None) (rev ordered) of
        None \<Rightarrow> Inr (None, unreached k admitted (jint 0))
      | Some newest \<Rightarrow>
          rbind (path_loop max_walk k docs None (named_segment newest) []) (\<lambda>(trail, ps).
            rbind (ahead_check docs k trail (the (named_segment newest)) admitted) (\<lambda>qs.
              Inr (Some (fld (fld newest (js ''segment'')) (js ''last_ingest_seq'')), ps @ qs @ concat (map (named_problem k trail) ordered)))))"

subsection \<open>The check\<close>

record segment_check =
  sg_problems :: "segment_problem list"
  sg_segments :: nat
  sg_records :: nat
  sg_covered :: "(jsstr \<times> jsval) list"
  sg_checked :: nat
  sg_others :: nat

definition sg_ok :: "segment_check \<Rightarrow> bool" where
  "sg_ok c \<longleftrightarrow> sg_problems c = []"

fun chains_loop :: "env \<Rightarrow> segments \<Rightarrow> (jsstr \<times> jsval list) list \<Rightarrow> ((jsstr \<times> jsval) list \<times> segment_problem list) outcome" where
  "chains_loop e docs [] = Inr ([], [])"
| "chains_loop e docs ((k, list) # rest) =
     rbind (chain_check e docs k list) (\<lambda>(c, ps).
       rbind (chains_loop e docs rest) (\<lambda>(cs, qs). Inr ((case c of None \<Rightarrow> cs | Some x \<Rightarrow> (k, x) # cs), ps @ qs)))"

definition check_segment_chain :: "env \<Rightarrow> webcrypto \<Rightarrow> jsval \<Rightarrow> jsstr list \<Rightarrow> jsval list \<Rightarrow> segment_check outcome" where
  "check_segment_chain e w key texts heads =
     (let kid = (if truthy key then (case record_key e w key of Inl _ \<Rightarrow> None | Inr k \<Rightarrow> Some k) else None);
          keyps = (if truthy key \<and> kid = None then [Key_not_ed25519] else []) in
      rbind (segment_loop e w key kid 0 texts \<lparr> rd_docs = [], rd_records = 0, rd_checked = 0, rd_others = 0, rd_problems = keyps \<rparr>) (\<lambda>r.
        rbind (chains_loop e (rd_docs r) (by_chain e heads)) (\<lambda>(covered, ps).
          Inr \<lparr> sg_problems = rd_problems r @ map (\<lambda>_. Malformed_chain_head) (filter (\<lambda>h. \<not> is_signed_chain_head e h) heads) @ ps,
                sg_segments = length (rd_docs r), sg_records = rd_records r, sg_covered = covered,
                sg_checked = rd_checked r, sg_others = rd_others r \<rparr>)))"

definition verify_segment_chain :: "env \<Rightarrow> webcrypto \<Rightarrow> jsval \<Rightarrow> jsstr list \<Rightarrow> jsval list \<Rightarrow> segment_check" where
  "verify_segment_chain e w key texts heads =
     (case check_segment_chain e w key texts heads of
        Inr c \<Rightarrow> c
      | Inl _ \<Rightarrow> \<lparr> sg_problems = [Could_not_check], sg_segments = 0, sg_records = 0, sg_covered = [], sg_checked = 0, sg_others = 0 \<rparr>)"

end
