(* ===== verification/SegmentsProps.thy ===== *)
theory SegmentsProps
  imports Segments NumFacts MerkleFacts
begin

section \<open>What accepted segments hold\<close>

text \<open>
  The check of segments works forward over records, back over links from the newest named segment and forward over the segments that continue
  it. \<open>covers\<close> says which sequence numbers the documents hold; each walk extends the range it covers, so that an accepted download
  holds every record its heads say was admitted.
\<close>

subsection \<open>Sequence numbers\<close>

lemma rnd_past: "rnd (of_int (2 ^ 53 + 1)) = jint (2 ^ 53)"
proof -
  have e: "exp2 (of_int (2 ^ 53 + 1)) = 53" by (rule exp2_unique) (simp_all add: power_int_def)
  have u: "(2::rat) powi ulp_exp 53 = 2" by (simp add: ulp_exp_def power_int_def)
  have r: "rhe ((9007199254740993::rat) / 2) = 4503599627370496" by (simp add: rhe_def Let_def floor_divide_of_int_eq [of 9007199254740993 2, simplified])
  have "rnd_pos (of_int (2 ^ 53 + 1)) = 9007199254740992" unfolding rnd_pos_def e u Let_def by (simp add: r)
  moreover have "(9007199254740992::rat) < 2 ^ 1024"
  proof -
    have "(9007199254740992::rat) = 2 ^ 53" by simp
    also have "\<dots> < 2 ^ 1024" by (rule power_strict_increasing) auto
    finally show ?thesis .
  qed
  ultimately show ?thesis by (simp add: rnd_def jint_def not_le)
qed

lemma count_up: "0 \<le> a \<Longrightarrow> a \<le> 2 ^ 53 \<Longrightarrow> jadd (jint a) (jint 1) = jint (min (a + 1) (2 ^ 53))"
proof (cases "a = 2 ^ 53")
  case True
  then show ?thesis using rnd_past by (simp add: jint_def)
qed (use jadd_jint [of a 1] in auto)

lemma count_down: "0 < a \<Longrightarrow> a \<le> 2 ^ 53 \<Longrightarrow> jsub (jint a) (jint 1) = jint (a - 1)"
  using rnd_jint [of "a - 1"] by (simp add: jsub_jint)

lemma count_down_zero: "jsub (jint 0) (jint 1) = jint (- 1)"
  using rnd_jint [of "- 1"] by (simp add: jsub_jint)

lemma same_num: "same_value (VNum a) (VNum b) \<longleftrightarrow> a = b"
  by simp

lemma same_value_num: "same_value s (VNum a) \<longleftrightarrow> s = VNum a"
  by (cases s) auto

text \<open>A record is sound: an object that hashes to its leaf.\<close>

definition sound_record :: "env \<Rightarrow> jsval \<Rightarrow> bool" where
  "sound_record e r \<longleftrightarrow> is_obj r \<and> hashes_to_leaf e r"

lemma record_step_ok:
  assumes "record_step e w key kid name i r c = Inr c'" "sn_problems c' = []"
  shows "sn_problems c = []" "sound_record e r" "same_value (fld r (js ''ingest_seq'')) (sn_expected c)"
    "sn_leaves c' = sn_leaves c @ [record_leaf r]"
    "sn_expected c' = (case fld r (js ''ingest_seq'') of VNum n \<Rightarrow> VNum (jadd n (jint 1)) | _ \<Rightarrow> sn_expected c)"
proof -
  have o: "is_obj r" using assms by (auto simp: record_step_def split: if_split_asm)
  from assms(1) o obtain p1 p2 n m p3 where p: "sequence_problems name (fld r (js ''ingest_seq'')) (sn_expected c) = Inr p1"
      "leaf_problems e name r = Inr p2" "signature_problems e w key kid name r = Inr (n, m, p3)"
    and c': "c' = c \<lparr> sn_expected := (case fld r (js ''ingest_seq'') of VNum n \<Rightarrow> VNum (jadd n (jint 1)) | _ \<Rightarrow> sn_expected c),
        sn_leaves := sn_leaves c @ [record_leaf r], sn_checked := sn_checked c + n, sn_others := sn_others c + m,
        sn_problems := sn_problems c @ p1 @ p2 @ p3 \<rparr>"
    by (auto simp: record_step_def Let_def rbind_Inr_iff)
  then have none: "sn_problems c = []" "p1 = []" "p2 = []" using assms(2) by simp_all
  then show "sn_problems c = []" by simp
  show "sound_record e r" using o p(2) none(3) by (auto simp: sound_record_def leaf_problems_def Let_def rbind_Inr_iff split: if_splits)
  show "same_value (fld r (js ''ingest_seq'')) (sn_expected c)"
    using p(1) none(2) by (auto simp: sequence_problems_def rbind_Inr_iff split: if_splits)
  show "sn_leaves c' = sn_leaves c @ [record_leaf r]"
    "sn_expected c' = (case fld r (js ''ingest_seq'') of VNum n \<Rightarrow> VNum (jadd n (jint 1)) | _ \<Rightarrow> sn_expected c)"
    by (simp_all add: c')
qed

lemma record_loop_ok:
  assumes "record_loop e w key kid name i rs c = Inr c'" "sn_problems c' = []" "sn_expected c = VNum (jint a)" "0 \<le> a" "a \<le> 2 ^ 53"
  shows "sn_problems c = []" "sn_leaves c' = sn_leaves c @ map record_leaf rs"
    "sn_expected c' = VNum (jint (min (a + int (length rs)) (2 ^ 53)))"
    "list_all (sound_record e) rs"
    "a \<le> s \<Longrightarrow> s < min (a + int (length rs)) (2 ^ 53) \<Longrightarrow> \<exists>r \<in> set rs. fld r (js ''ingest_seq'') = VNum (jint s)"
proof -
  have all: "sn_problems c = [] \<and> sn_leaves c' = sn_leaves c @ map record_leaf rs \<and>
      sn_expected c' = VNum (jint (min (a + int (length rs)) (2 ^ 53))) \<and> list_all (sound_record e) rs \<and>
      (\<forall>s. a \<le> s \<and> s < min (a + int (length rs)) (2 ^ 53) \<longrightarrow> (\<exists>r \<in> set rs. fld r (js ''ingest_seq'') = VNum (jint s)))"
    using assms
  proof (induction rs arbitrary: i c a)
    case (Cons r rs)
    obtain m where m: "record_step e w key kid name i r c = Inr m" "record_loop e w key kid name (i + 1) rs m = Inr c'"
      using Cons.prems(1) by (auto simp: rbind_Inr_iff)
    define b where "b = min (a + 1) (2 ^ 53)"
    have b: "0 \<le> b" "b \<le> 2 ^ 53" using Cons.prems(4) by (simp_all add: b_def)
    show ?case
    proof (cases "sn_problems m = []")
      case True
      note st = record_step_ok [OF m(1) True]
      have s: "fld r (js ''ingest_seq'') = VNum (jint a)" using st(3) Cons.prems(3) by (simp add: same_value_num)
      then have x: "sn_expected m = VNum (jint b)" using st(5) count_up [OF Cons.prems(4,5)] by (simp add: b_def)
      note ih = Cons.IH [OF m(2) Cons.prems(2) x b]
      have len: "min (b + int (length rs)) (2 ^ 53) = min (a + int (length (r # rs))) (2 ^ 53)" by (simp add: b_def min_def)
      have "\<exists>y \<in> set (r # rs). fld y (js ''ingest_seq'') = VNum (jint s')"
        if h: "a \<le> s'" "s' < min (a + int (length (r # rs))) (2 ^ 53)" for s'
      proof (cases "s' = a")
        case False
        then have "b \<le> s'" using h by (simp add: b_def)
        with ih h len have "\<exists>y \<in> set rs. fld y (js ''ingest_seq'') = VNum (jint s')" by metis
        then show ?thesis by simp
      qed (use s in simp)
      then show ?thesis using ih st unfolding len by auto
    next
      case False
      have keep: "sn_problems x = [] \<Longrightarrow> record_loop e w key kid name j ys y = Inr x \<Longrightarrow> sn_problems y = []" for x y j ys
      proof (induction ys arbitrary: j y)
        case (Cons z zs)
        then obtain v where v: "record_step e w key kid name j z y = Inr v" "record_loop e w key kid name (j + 1) zs v = Inr x"
          by (auto simp: rbind_Inr_iff)
        with Cons have "sn_problems v = []" by blast
        with record_step_ok(1) [OF v(1)] show ?case by blast
      qed simp
      with False m(2) Cons.prems(2) show ?thesis by blast
    qed
  qed simp
  then show "sn_problems c = []" "sn_leaves c' = sn_leaves c @ map record_leaf rs"
    "sn_expected c' = VNum (jint (min (a + int (length rs)) (2 ^ 53)))" "list_all (sound_record e) rs"
    "a \<le> s \<Longrightarrow> s < min (a + int (length rs)) (2 ^ 53) \<Longrightarrow> \<exists>r \<in> set rs. fld r (js ''ingest_seq'') = VNum (jint s)" by blast+
qed

subsection \<open>Segments\<close>

text \<open>A sound segment that runs from \<open>a\<close> to \<open>b\<close>.\<close>

definition sound_segment :: "env \<Rightarrow> jsval \<Rightarrow> int \<Rightarrow> int \<Rightarrow> bool" where
  "sound_segment e doc a b \<longleftrightarrow>
     0 \<le> a \<and> a \<le> b + 1 \<and> b < 2 ^ 53 \<and>
     bound doc ''first_ingest_seq'' = VNum (jint a) \<and> bound doc ''last_ingest_seq'' = VNum (jint b) \<and>
     list_all (sound_record e) (doc_records doc) \<and>
     (\<forall>s. a \<le> s \<and> s \<le> b \<longrightarrow> (\<exists>r \<in> set (doc_records doc). fld r (js ''ingest_seq'') = VNum (jint s))) \<and>
     fld (fld doc (js ''proof'')) (js ''merkle_root'') = VStr (merkle_root_v1 (sha256 e) (map record_leaf (doc_records doc)))"

definition sized :: "jsstr \<Rightarrow> bool" where
  "sized t \<longleftrightarrow> (case json_parse t of None \<Rightarrow> True | Some doc \<Rightarrow> is_size (bound doc ''first_ingest_seq''))"

text \<open>The documents kept, each sound and read from a given text whose digest is its name.\<close>

definition sound_docs :: "env \<Rightarrow> jsstr list \<Rightarrow> segments \<Rightarrow> bool" where
  "sound_docs e texts docs \<longleftrightarrow>
     distinct (map fst docs) \<and> length docs \<le> length texts \<and>
     (\<forall>d doc. map_of docs d = Some doc \<longrightarrow> (\<exists>t \<in> set texts. json_parse t = Some doc \<and> canonical doc = Inr t \<and> text_hash e t = d) \<and>
        (\<exists>a b. sound_segment e doc a b))"

lemma size_jint: "is_size v \<Longrightarrow> \<exists>a. v = VNum (jint a) \<and> 0 \<le> a \<and> a \<le> max_safe"
proof -
  assume h: "is_size v"
  then obtain q where q: "v = VNum (Fin q)" "of_int \<lfloor>q\<rfloor> = q" "\<bar>\<lfloor>q\<rfloor>\<bar> \<le> max_safe" "jle (Fin 0) (Fin q)"
    by (auto simp: is_size_def is_safe_int_def split: jsval.splits jnum.splits)
  then have "v = VNum (jint \<lfloor>q\<rfloor>)" by (simp only: jint_def)
  moreover have "0 \<le> \<lfloor>q\<rfloor>" using q(4) by (simp add: jle_def not_less)
  ultimately show ?thesis using q(3) by auto
qed

lemma segment_step_ok:
  assumes "segment_step e w key kid i t c = Inr c'" "rd_problems c' = []" "sized t"
  shows "rd_problems c = [] \<and> (\<exists>doc a b. json_parse t = Some doc \<and> canonical doc = Inr t \<and> sound_segment e doc a b \<and>
           rd_docs c' = omap_set (text_hash e t) doc (rd_docs c))"
proof -
  let ?start = "\<lambda>doc. \<lparr> sn_expected = bound doc ''first_ingest_seq'', sn_leaves = [], sn_checked = 0, sn_others = 0, sn_problems = [] \<rparr>"
  from assms(1,2) obtain doc r where doc: "json_parse t = Some doc" and r: "record_loop e w key kid (text_hash e t) 0 (doc_records doc) (?start doc) = Inr r"
    and p: "rd_problems c = []" "sn_problems r = []" "canonical doc = Inr t" "rd_docs c' = omap_set (text_hash e t) doc (rd_docs c)"
      "same_value (bound doc ''last_ingest_seq'') (case sn_expected r of VNum n \<Rightarrow> VNum (jsub n (jint 1)) | _ \<Rightarrow> VUndef)"
      "fld (fld doc (js ''proof'')) (js ''merkle_root'') = VStr (merkle_root_v1 (sha256 e) (sn_leaves r))"
    by (auto simp: segment_step_def Let_def rbind_Inr_iff split: option.split_asm if_split_asm)
  obtain a where a: "bound doc ''first_ingest_seq'' = VNum (jint a)" "0 \<le> a" "a \<le> max_safe"
    using assms(3) doc size_jint by (fastforce simp: sized_def)
  have a53: "a \<le> 2 ^ 53" using a(3) by (simp add: max_safe_def)
  have x: "sn_expected (?start doc) = VNum (jint a)" using a(1) by simp
  note rl = record_loop_ok [OF r p(2) x a(2) a53]
  define m where "m = min (a + int (length (doc_records doc))) (2 ^ 53)"
  have m: "0 \<le> m" "m \<le> 2 ^ 53" "a \<le> m" using a(2) a53 by (simp_all add: m_def)
  have "jsub (jint m) (jint 1) = jint (m - 1)" using count_down [of m] count_down_zero m by (cases "m = 0") auto
  then have l: "bound doc ''last_ingest_seq'' = VNum (jint (m - 1))" using p(5) rl(3) by (simp add: m_def same_value_num)
  have "sound_segment e doc a (m - 1)"
    unfolding sound_segment_def using a l m rl(2,4,5) p(6) by (auto simp: m_def)
  with doc p show ?thesis by blast
qed

lemma segment_loop_ok:
  assumes "segment_loop e w key kid i texts c = Inr c'" "rd_problems c' = []" "list_all sized texts" "sound_docs e seen (rd_docs c)"
  shows "rd_problems c = [] \<and> sound_docs e (seen @ texts) (rd_docs c')"
  using assms
proof (induction texts arbitrary: i c seen)
  case (Cons t ts)
  obtain m where m: "segment_step e w key kid i t c = Inr m" "segment_loop e w key kid (i + 1) ts m = Inr c'"
    using Cons.prems(1) by (auto simp: rbind_Inr_iff)
  have keep: "segment_loop e w key kid j us y = Inr x \<Longrightarrow> rd_problems x = [] \<Longrightarrow> list_all sized us \<Longrightarrow> rd_problems y = []" for x y j us
  proof (induction us arbitrary: j y)
    case (Cons u us)
    then obtain v where v: "segment_step e w key kid j u y = Inr v" "segment_loop e w key kid (j + 1) us v = Inr x"
      by (auto simp: rbind_Inr_iff)
    with Cons have "rd_problems v = []" by simp
    with segment_step_ok [OF v(1)] Cons.prems(3) show ?case by simp
  qed simp
  have ok: "rd_problems m = []" using keep [OF m(2) Cons.prems(2)] Cons.prems(3) by simp
  have "sized t" using Cons.prems(3) by simp
  from segment_step_ok [OF m(1) ok this] obtain doc a b where st: "rd_problems c = []" "json_parse t = Some doc" "canonical doc = Inr t"
    "sound_segment e doc a b" "rd_docs m = omap_set (text_hash e t) doc (rd_docs c)" by blast
  have "sound_docs e (seen @ [t]) (rd_docs m)"
  proof -
    have "length (rd_docs m) \<le> Suc (length (rd_docs c))"
      using arg_cong [OF omap_set_keys [of "text_hash e t" doc "rd_docs c"], of length] by (auto simp: st(5) split: if_splits)
    moreover have "distinct (map fst (rd_docs m))" using Cons.prems(4) st(5) om.distinct_set by (auto simp: sound_docs_def)
    ultimately show ?thesis using Cons.prems(4) st by (auto simp: sound_docs_def map_of_omap_set)
  qed
  from Cons.IH [OF m(2) Cons.prems(2) _ this] Cons.prems(3) st(1) show ?case by simp
qed simp


subsection \<open>Ranges the documents cover\<close>

definition holds :: "env \<Rightarrow> segments \<Rightarrow> int \<Rightarrow> bool" where
  "holds e docs s \<longleftrightarrow>
     (\<exists>d doc r. map_of docs d = Some doc \<and> r \<in> set (doc_records doc) \<and> fld r (js ''ingest_seq'') = VNum (jint s) \<and> sound_record e r)"

definition covers :: "env \<Rightarrow> segments \<Rightarrow> int \<Rightarrow> int \<Rightarrow> bool" where
  "covers e docs a b \<longleftrightarrow> (\<forall>s. a \<le> s \<and> s \<le> b \<longrightarrow> holds e docs s)"

lemma docs_sound: "sound_docs e texts docs \<Longrightarrow> map_of docs d = Some doc \<Longrightarrow> \<exists>a b. sound_segment e doc a b"
  unfolding sound_docs_def by blast

lemma covers_none [simp]: "covers e docs a (a - 1)" "covers e docs (a + 1) a"
  by (auto simp: covers_def)

lemma covers_join: "covers e docs a b \<Longrightarrow> covers e docs (b + 1) c \<Longrightarrow> covers e docs a c"
  unfolding covers_def by (metis le_cases not_le zless_imp_add1_zle)

lemma covers_segment: "map_of docs d = Some doc \<Longrightarrow> sound_segment e doc a b \<Longrightarrow> covers e docs a b"
  unfolding covers_def holds_def sound_segment_def list_all_iff by blast

lemma segment_bounds:
  assumes "sound_segment e doc a b"
  shows "to_num (bound doc ''first_ingest_seq'') = Inr (jint a)" "to_num (bound doc ''last_ingest_seq'') = Inr (jint b)"
    "jadd (jint b) (jint 1) = jint (b + 1)"
  using assms jadd_jint [of b 1] by (simp_all add: sound_segment_def)

lemma num_eq_jint [simp]: "num_eq (jint a) (jint b) \<longleftrightarrow> a = b"
  by (simp add: num_eq_def jint_def)

text \<open>The walk back: from the segment after, whose first number is known, to a first segment.\<close>

lemma path_loop_covers:
  assumes "path_loop n k docs (Some x) (link x) trail = Inr (p, [])" "sound_docs e texts docs" "sound_segment e x a b"
    and "n + length trail = m" "length docs < m" "distinct (map fst trail)" "fst ` set trail \<subseteq> fst ` set docs" "\<exists>d. map_of docs d = Some x"
  shows "\<exists>d0 x0 a0 b0. map_of docs d0 = Some x0 \<and> link x0 = None \<and> sound_segment e x0 a0 b0 \<and> a0 \<le> a \<and> covers e docs a0 (a - 1)"
  using assms
proof (induction n arbitrary: x a b trail p)
  case 0
  have "length trail = card (fst ` set trail)" using 0(6) by (metis distinct_card length_map set_map)
  also have "\<dots> \<le> card (fst ` set docs)" using 0(7) by (intro card_mono) auto
  also have "\<dots> \<le> length docs" using card_length [of "map fst docs"] by simp
  finally show ?case using 0(4,5) by simp
next
  case (Suc n)
  show ?case
  proof (cases "link x")
    case None
    with Suc.prems(3,8) covers_none(1) [of e docs a] show ?thesis by blast
  next
    case (Some d)
    obtain y where y: "map_of docs d = Some y" using Suc.prems(1) Some by (auto split: option.splits)
    obtain ya yb where ys: "sound_segment e y ya yb" using docs_sound [OF Suc.prems(2) y] by blast
    note yb = segment_bounds [OF ys] and xb = segment_bounds [OF Suc.prems(3)]
    have new: "map_of trail d = None" and eq: "a = yb + 1"
      and rec: "path_loop n k docs (Some y) (link y) (trail @ [(d, jint yb)]) = Inr (p, [])"
      using Suc.prems(1) Some y yb xb by (auto simp: rbind_Inr_iff split: if_splits)
    have "distinct (map fst (trail @ [(d, jint yb)]))" using Suc.prems(6) new by (auto simp: map_of_eq_None_iff)
    moreover have "fst ` set (trail @ [(d, jint yb)]) \<subseteq> fst ` set docs" using Suc.prems(7) map_of_SomeD [OF y] by force
    moreover have "n + length (trail @ [(d, jint yb)]) = m" using Suc.prems(4) by simp
    ultimately obtain d0 x0 a0 b0 where s0: "map_of docs d0 = Some x0" "link x0 = None" "sound_segment e x0 a0 b0" "a0 \<le> ya"
      "covers e docs a0 (ya - 1)" using Suc.IH [OF rec Suc.prems(2) ys _ Suc.prems(5)] y by blast
    have "covers e docs a0 yb" using covers_join [of e docs a0 "ya - 1" yb] s0(5) covers_segment [OF y ys] by simp
    moreover have "a0 \<le> a" using s0(4) ys eq by (auto simp: sound_segment_def)
    ultimately show ?thesis using s0 eq by (metis add_diff_cancel_right')
  qed
qed

lemma path_first:
  assumes "path_loop n k docs None (Some d) [] = Inr (p, [])" "sound_docs e texts docs" "0 < n"
  shows "\<exists>tip a b. map_of docs d = Some tip \<and> sound_segment e tip a b \<and>
     path_loop (n - 1) k docs (Some tip) (link tip) [(d, jint b)] = Inr (p, [])"
proof -
  obtain m where m: "n = Suc m" using assms(3) by (cases n) auto
  obtain tip where tip: "map_of docs d = Some tip" using assms(1) by (auto simp: m split: option.splits)
  obtain a b where ab: "sound_segment e tip a b" using docs_sound [OF assms(2) tip] by blast
  with segment_bounds [OF ab] assms(1) tip show ?thesis by (auto simp: m rbind_Inr_iff)
qed

text \<open>The walk forward.\<close>

lemma ahead_loop_covers:
  assumes "ahead_loop n k docs trail ahead here (jint b) = Inr (reached, [])" "sound_docs e texts docs" "b < 2 ^ 53" "- 1 \<le> b"
  shows "\<exists>c. reached = jint c \<and> b \<le> c \<and> covers e docs (b + 1) c"
  using assms
proof (induction n arbitrary: ahead here b)
  case 0
  then show ?case by (auto intro: exI [of _ b])
next
  case (Suc n)
  let ?later = "filter (\<lambda>d. map_of trail d = None \<and> d \<notin> set ahead) (case map_of (continuing docs) here of None \<Rightarrow> [] | Some xs \<Rightarrow> xs)"
  show ?case
  proof (cases ?later)
    case Nil
    then show ?thesis using Suc.prems(1) by (auto intro: exI [of _ b])
  next
    case (Cons d ds)
    have single: "ds = []" using Suc.prems(1) Cons by (auto simp: Let_def split: if_splits)
    obtain y where y: "map_of docs d = Some y" using Suc.prems(1) Cons single by (auto simp: Let_def split: option.splits)
    obtain ya yb where ys: "sound_segment e y ya yb" using docs_sound [OF Suc.prems(2) y] by blast
    note yb = segment_bounds [OF ys]
    have inc: "jadd (jint b) (jint 1) = jint (b + 1)" using Suc.prems(3,4) by (intro jadd_jint) simp
    have eq: "ya = b + 1" and rec: "ahead_loop n k docs trail (d # ahead) d (jint yb) = Inr (reached, [])"
      using Suc.prems(1) Cons single y yb inc by (auto simp: Let_def rbind_Inr_iff split: if_splits)
    have r: "yb < 2 ^ 53" "- 1 \<le> yb" "b \<le> yb" using ys eq by (auto simp: sound_segment_def)
    from Suc.IH [OF rec Suc.prems(2) r(1,2)] obtain c where c: "reached = jint c" "yb \<le> c" "covers e docs (yb + 1) c" by blast
    have "covers e docs (b + 1) c" using covers_join [OF _ c(3), of "b + 1"] covers_segment [OF y ys] eq by simp
    with c r show ?thesis by auto
  qed
qed

subsection \<open>One chain\<close>

lemma size_head:
  assumes "is_signed_chain_head e h"
  shows "\<exists>m. head_number (fld h (js ''head'')) ''ingest_seq'' = jint m \<and> 0 \<le> m \<and> fld (fld h (js ''head'')) (js ''ingest_seq'') = VNum (jint m)"
proof -
  have "is_size (fld (fld h (js ''head'')) (js ''ingest_seq''))" using assms by (simp add: is_signed_chain_head_def Let_def)
  from size_jint [OF this] show ?thesis by (auto simp: head_number_def)
qed

lemma most_admitted:
  assumes "\<forall>h \<in> set list. \<exists>m. head_number h k = jint m" "most = jint z"
  shows "\<exists>t. foldl (\<lambda>most h. jmax most (head_number h k)) most list = jint t \<and> z \<le> t \<and> (\<forall>h \<in> set list. \<forall>m. head_number h k = jint m \<longrightarrow> m \<le> t)"
  using assms
proof (induction list arbitrary: most z)
  case (Cons h list)
  obtain m where m: "head_number h k = jint m" using Cons.prems(1) by auto
  have "\<forall>h \<in> set list. \<exists>m. head_number h k = jint m" "jmax most (head_number h k) = jint (max z m)" using Cons.prems m by auto
  from Cons.IH [OF this] show ?case using m by auto
qed simp

lemma chain_check_covers:
  assumes "chain_check e docs k list = Inr (c, [])" "sound_docs e texts docs" "length docs < max_walk"
    and "\<forall>h \<in> set list. \<exists>m. head_number h ''ingest_seq'' = jint m" "h \<in> set list" "head_number h ''ingest_seq'' = jint m" "0 < m"
  shows "\<exists>d0 x0 a0 b0. map_of docs d0 = Some x0 \<and> link x0 = None \<and> sound_segment e x0 a0 b0 \<and> covers e docs a0 m"
proof -
  let ?ordered = "js_sort (\<lambda>a b. issued_ms e a \<le> issued_ms e b) list"
  let ?adm = "foldl (\<lambda>most h. jmax most (head_number h ''ingest_seq'')) (jint 0) list"
  obtain t where t: "?adm = jint t" "\<forall>h \<in> set list. \<forall>m. head_number h ''ingest_seq'' = jint m \<longrightarrow> m \<le> t"
    using most_admitted [OF assms(4) refl] by blast
  have mt: "m \<le> t" using t(2) assms(5,6) by blast
  have reach: "unreached k ?adm (jint z) = [] \<longleftrightarrow> t \<le> z" for z by (auto simp: unreached_def t(1))
  obtain newest where nw: "find (\<lambda>h. named_segment h \<noteq> None) (rev ?ordered) = Some newest"
  proof (cases "find (\<lambda>h. named_segment h \<noteq> None) (rev ?ordered)")
    case None
    then have "unreached k ?adm (jint 0) = []" using assms(1) by (simp add: chain_check_def Let_def)
    with reach [of 0] mt assms(7) show ?thesis by simp
  qed blast
  from nw obtain d where d: "named_segment newest = Some d" by (auto simp: find_Some_iff)
  from assms(1) nw d obtain trail where p: "path_loop max_walk k docs None (Some d) [] = Inr (trail, [])"
    and q: "ahead_check docs k trail d ?adm = Inr []"
    by (auto simp: chain_check_def Let_def rbind_Inr_iff)
  obtain tip a b where tip: "map_of docs d = Some tip" and ab: "sound_segment e tip a b"
    and p': "path_loop (max_walk - 1) k docs (Some tip) (link tip) [(d, jint b)] = Inr (trail, [])"
    using path_first [OF p assms(2)] by (auto simp: max_walk_def)
  note tb = segment_bounds [OF ab]
  have sub: "fst ` set [(d, jint b)] \<subseteq> fst ` set docs" using map_of_SomeD [OF tip] by force
  have "max_walk - 1 + length [(d, jint b)] = max_walk" by (simp add: max_walk_def)
  from path_loop_covers [OF p' assms(2) ab this assms(3) _ sub] tip
  obtain d0 x0 a0 b0 where s0: "map_of docs d0 = Some x0" "link x0 = None" "sound_segment e x0 a0 b0" "covers e docs a0 (a - 1)" by auto
  have behind: "covers e docs a0 b" using covers_join [of e docs a0 "a - 1" b] s0(4) covers_segment [OF tip ab] by simp
  from q tip tb obtain reached where al: "ahead_loop max_walk k docs trail [] d (jint b) = Inr (reached, [])"
      "unreached k ?adm (if is_finite_num reached then reached else jint 0) = []"
    by (auto simp: ahead_check_def rbind_Inr_iff)
  have "b < 2 ^ 53" "- 1 \<le> b" using ab by (auto simp: sound_segment_def)
  from ahead_loop_covers [OF al(1) assms(2) this] obtain c where c: "reached = jint c" "covers e docs (b + 1) c" by blast
  have "t \<le> c" using al(2) reach [of c] by (simp add: c(1) is_finite_num_def jint_def)
  then have "m \<le> c" using mt by simp
  with covers_join [OF behind c(2)] have "covers e docs a0 m" by (auto simp: covers_def)
  with s0 show ?thesis by blast
qed


subsection \<open>All chains\<close>

lemma fold_group:
  "map_of (fold (\<lambda>h m. omap_set (f h) ((case map_of m (f h) of None \<Rightarrow> [] | Some xs \<Rightarrow> xs) @ [g h]) m) hs m) k =
     (if filter (\<lambda>h. f h = k) hs = [] then map_of m k
      else Some ((case map_of m k of None \<Rightarrow> [] | Some xs \<Rightarrow> xs) @ map g (filter (\<lambda>h. f h = k) hs)))"
  by (induction hs arbitrary: m) (auto simp: map_of_omap_set split: option.splits)

lemma by_chain_of:
  assumes "h \<in> set heads" "is_signed_chain_head e h"
  shows "\<exists>list. (chain_name h, list) \<in> set (by_chain e heads) \<and> fld h (js ''head'') \<in> set list \<and>
    (\<forall>x \<in> set list. \<exists>y \<in> set heads. is_signed_chain_head e y \<and> x = fld y (js ''head''))"
proof -
  let ?mine = "filter (\<lambda>y. chain_name y = chain_name h) (filter (is_signed_chain_head e) heads)"
  have ne: "?mine \<noteq> []" using assms by (auto simp: filter_empty_conv)
  have "map_of (by_chain e heads) (chain_name h) = Some (map (\<lambda>y. fld y (js ''head'')) ?mine)"
    unfolding by_chain_def fold_group if_not_P [OF ne] by simp
  with map_of_SomeD [OF this] assms show ?thesis
    by (intro exI [of _ "map (\<lambda>y. fld y (js ''head'')) ?mine"]) auto
qed

lemma chains_loop_each:
  assumes "chains_loop e docs cs = Inr (c, [])" "(k, list) \<in> set cs"
  shows "\<exists>x. chain_check e docs k list = Inr (x, [])"
  using assms by (induction cs arbitrary: c) (auto simp: rbind_Inr_iff)

lemma accepted_parts:
  assumes "sg_ok (verify_segment_chain e w key texts heads)" "list_all sized texts"
  shows "\<exists>docs c. sound_docs e texts docs \<and> chains_loop e docs (by_chain e heads) = Inr (c, []) \<and> (\<forall>h \<in> set heads. is_signed_chain_head e h)"
proof -
  obtain r where r: "check_segment_chain e w key texts heads = Inr r" "sg_problems r = []"
    using assms(1) by (auto simp: verify_segment_chain_def sg_ok_def split: sum.splits)
  then obtain kid ps0 rd c ps where l: "segment_loop e w key kid 0 texts
        \<lparr> rd_docs = [], rd_records = 0, rd_checked = 0, rd_others = 0, rd_problems = ps0 \<rparr> = Inr rd"
    and ch: "chains_loop e (rd_docs rd) (by_chain e heads) = Inr (c, ps)"
    and p: "sg_problems r = rd_problems rd @ map (\<lambda>_. Malformed_chain_head) (filter (\<lambda>h. \<not> is_signed_chain_head e h) heads) @ ps"
    by (auto simp: check_segment_chain_def Let_def rbind_Inr_iff)
  from p r(2) have none: "rd_problems rd = []" "ps = []" "filter (\<lambda>h. \<not> is_signed_chain_head e h) heads = []" by auto
  have "sound_docs e [] []" by (simp add: sound_docs_def)
  then have "sound_docs e texts (rd_docs rd)" using segment_loop_ok [OF l none(1) assms(2), of "[]"] by simp
  with ch none show ?thesis by (auto simp: filter_empty_conv)
qed

text \<open>A record of the given texts, with its number: its payload hashes to its leaf, and its segment's root is over the leaves.\<close>

definition held_record :: "env \<Rightarrow> jsstr list \<Rightarrow> int \<Rightarrow> bool" where
  "held_record e texts s \<longleftrightarrow>
     (\<exists>t \<in> set texts. \<exists>doc r. json_parse t = Some doc \<and> canonical doc = Inr t \<and> r \<in> set (doc_records doc) \<and>
        fld r (js ''ingest_seq'') = VNum (jint s) \<and> hashes_to_leaf e r \<and>
        fld (fld doc (js ''proof'')) (js ''merkle_root'') = VStr (merkle_root_v1 (sha256 e) (map record_leaf (doc_records doc))))"

definition first_segment :: "jsstr list \<Rightarrow> int \<Rightarrow> bool" where
  "first_segment texts a \<longleftrightarrow>
     (\<exists>t \<in> set texts. \<exists>doc. json_parse t = Some doc \<and> link doc = None \<and> bound doc ''first_ingest_seq'' = VNum (jint a))"

lemma holds_held: "sound_docs e texts docs \<Longrightarrow> holds e docs s \<Longrightarrow> held_record e texts s"
  unfolding sound_docs_def holds_def held_record_def sound_record_def sound_segment_def by blast

text \<open>C31: what the heads say was admitted is held. When a download of segments passes, then for every head given, every record from the first number of a
  segment that links to none before it up to the head's sequence number is in one of the segments: its payload hashes to its leaf, and the
  segment's Merkle root is over its leaves. Nothing can be cut out of the middle or off the end. (Sequence numbers are sizes, and the chain is
  within the million segments the walk follows.)\<close>

theorem admitted_records_held:
  assumes "sg_ok (verify_segment_chain e w key texts heads)" "list_all sized texts" "length texts < max_walk"
    and "h \<in> set heads" "fld (fld h (js ''head'')) (js ''ingest_seq'') = VNum (jint m)" "0 < m"
  shows "\<exists>a. first_segment texts a \<and> (\<forall>s. a \<le> s \<and> s \<le> m \<longrightarrow> held_record e texts s)"
proof -
  obtain docs c where docs: "sound_docs e texts docs" and ch: "chains_loop e docs (by_chain e heads) = Inr (c, [])"
    and wf: "\<forall>h \<in> set heads. is_signed_chain_head e h"
    using accepted_parts [OF assms(1,2)] by blast
  obtain list where list: "(chain_name h, list) \<in> set (by_chain e heads)" "fld h (js ''head'') \<in> set list"
    and of: "\<forall>x \<in> set list. \<exists>y \<in> set heads. is_signed_chain_head e y \<and> x = fld y (js ''head'')"
    using by_chain_of [OF assms(4)] wf assms(4) by blast
  obtain x where x: "chain_check e docs (chain_name h) list = Inr (x, [])" using chains_loop_each [OF ch list(1)] by blast
  have sizes: "\<forall>x \<in> set list. \<exists>m. head_number x ''ingest_seq'' = jint m"
  proof
    fix x assume "x \<in> set list"
    with of obtain y where "is_signed_chain_head e y" "x = fld y (js ''head'')" by blast
    with size_head [of e y] show "\<exists>m. head_number x ''ingest_seq'' = jint m" by blast
  qed
  have m: "head_number (fld h (js ''head'')) ''ingest_seq'' = jint m" by (simp add: head_number_def assms(5))
  have "length docs < max_walk" using docs assms(3) by (simp add: sound_docs_def)
  from chain_check_covers [OF x docs this sizes list(2) m assms(6)] obtain d0 x0 a0 b0 where
    s0: "map_of docs d0 = Some x0" "link x0 = None" "sound_segment e x0 a0 b0" "covers e docs a0 m" by blast
  from s0(1-3) docs have "first_segment texts a0" unfolding first_segment_def sound_docs_def sound_segment_def by blast
  moreover from s0(4) have "\<forall>s. a0 \<le> s \<and> s \<le> m \<longrightarrow> held_record e texts s" unfolding covers_def using holds_held [OF docs] by blast
  ultimately show ?thesis by blast
qed


subsection \<open>The history before a segment\<close>

text \<open>
  Items that carry the digest of the item before them, as segments do. \<open>history x xs\<close>: \<open>xs\<close> are the items before \<open>x\<close>, latest first, back to one
  that names none. Items of one digest have one history, unless two different items share a digest.
\<close>

locale digest_links =
  fixes digest :: "'a \<Rightarrow> 'd" and names :: "'a \<Rightarrow> 'd option"
begin

fun history :: "'a \<Rightarrow> 'a list \<Rightarrow> bool" where
  "history x [] \<longleftrightarrow> names x = None"
| "history x (y # ys) \<longleftrightarrow> names x = Some (digest y) \<and> history y ys"

definition clash :: "'a set \<Rightarrow> bool" where
  "clash S \<longleftrightarrow> (\<exists>a \<in> S. \<exists>b \<in> S. a \<noteq> b \<and> digest a = digest b)"

lemma history_unique:
  "history x xs \<Longrightarrow> history y ys \<Longrightarrow> digest x = digest y \<Longrightarrow> x # xs = y # ys \<or> clash (set (x # xs) \<union> set (y # ys))"
proof (induction xs arbitrary: x y ys)
  case Nil
  then show ?case
  proof (cases "x = y")
    case True
    with Nil show ?thesis by (cases ys) auto
  qed (auto simp: clash_def)
next
  case (Cons z zs)
  show ?case
  proof (cases "x = y")
    case True
    with Cons.prems obtain u us where u: "ys = u # us" "history z zs" "history u us" "digest z = digest u" by (cases ys) auto
    from Cons.IH [OF u(2-4)] show ?thesis
    proof
      assume "clash (set (z # zs) \<union> set (u # us))"
      then have "clash (set (x # z # zs) \<union> set (y # ys))" unfolding clash_def u(1) by (meson UnCI UnE list.set_intros(2))
      then show ?thesis ..
    qed (simp add: u(1) True)
  qed (use Cons.prems in \<open>auto simp: clash_def\<close>)
qed

end

text \<open>The segments as served are such items: \<open>segment_link\<close> is the link of the document a text holds.\<close>

definition segment_link :: "jsstr \<Rightarrow> jsstr option" where
  "segment_link t = (case json_parse t of None \<Rightarrow> None | Some doc \<Rightarrow> link doc)"

interpretation sl: digest_links "text_hash e" segment_link for e .

text \<open>The digests the walk back visits, and the texts they name.\<close>

fun linked :: "segments \<Rightarrow> jsstr option \<Rightarrow> jsstr list \<Rightarrow> bool" where
  "linked docs g [] \<longleftrightarrow> g = None"
| "linked docs g (d # ds) \<longleftrightarrow> g = Some d \<and> (\<exists>doc. map_of docs d = Some doc \<and> linked docs (link doc) ds)"

lemma path_loop_linked:
  assumes "path_loop n k docs nx g trail = Inr (p, [])" "n + length trail = m" "length docs < m"
    and "distinct (map fst trail)" "fst ` set trail \<subseteq> fst ` set docs"
  shows "\<exists>ds. p = trail @ ds \<and> linked docs g (map fst ds)"
  using assms
proof (induction n arbitrary: nx g trail)
  case 0
  have "length trail = card (fst ` set trail)" using 0(4) by (metis distinct_card length_map set_map)
  also have "\<dots> \<le> card (fst ` set docs)" using 0(5) by (intro card_mono) auto
  also have "\<dots> \<le> length docs" using card_length [of "map fst docs"] by simp
  finally show ?case using 0(2,3) by simp
next
  case (Suc n)
  show ?case
  proof (cases g)
    case None
    with Suc.prems(1) show ?thesis by (intro exI [of _ "[]"]) simp
  next
    case (Some d)
    from Suc.prems(1) Some obtain doc l where doc: "map_of docs d = Some doc" and new: "map_of trail d = None"
      and rec: "path_loop n k docs (Some doc) (link doc) (trail @ [(d, l)]) = Inr (p, [])"
      by (auto simp: rbind_Inr_iff split: option.split_asm if_split_asm)
    have "n + length (trail @ [(d, l)]) = m" using Suc.prems(2) by simp
    moreover have "distinct (map fst (trail @ [(d, l)]))" using Suc.prems(4) new by (auto simp: map_of_eq_None_iff)
    moreover have "fst ` set (trail @ [(d, l)]) \<subseteq> fst ` set docs" using Suc.prems(5) map_of_SomeD [OF doc] by force
    ultimately obtain ds where "p = (trail @ [(d, l)]) @ ds" "linked docs (link doc) (map fst ds)"
      using Suc.IH [OF rec _ Suc.prems(3)] by blast
    with doc Some show ?thesis by (intro exI [of _ "(d, l) # ds"]) simp
  qed
qed

lemma linked_from: "linked docs g ds \<Longrightarrow> d \<in> set ds \<Longrightarrow> \<exists>rest. linked docs (Some d) (d # rest)"
proof (induction ds arbitrary: g)
  case (Cons x ds)
  show ?case
  proof (cases "d = x")
    case False
    with Cons show ?thesis by auto
  qed (use Cons.prems in auto)
qed simp

lemma linked_history:
  assumes "sound_docs e texts docs" "linked docs (Some d) (d # ds)"
  shows "\<exists>t ts. sl.history e t ts \<and> set (t # ts) \<subseteq> set texts \<and> text_hash e t = d"
  using assms(2)
proof (induction ds arbitrary: d)
  case Nil
  then obtain doc where doc: "map_of docs d = Some doc" "link doc = None" by auto
  then obtain t where t: "t \<in> set texts" "json_parse t = Some doc" "text_hash e t = d" using assms(1) unfolding sound_docs_def by blast
  then have "sl.history e t []" using doc(2) by (simp add: segment_link_def)
  with t show ?case by (intro exI [of _ t] exI [of _ "[]"]) simp
next
  case (Cons d' ds)
  then obtain doc where doc: "map_of docs d = Some doc" "link doc = Some d'" and l: "linked docs (Some d') (d' # ds)" by auto
  then obtain t where t: "t \<in> set texts" "json_parse t = Some doc" "text_hash e t = d" using assms(1) unfolding sound_docs_def by blast
  obtain u us where u: "sl.history e u us" "set (u # us) \<subseteq> set texts" "text_hash e u = d'" using Cons.IH [OF l] by blast
  then have "sl.history e t (u # us)" using doc(2) t by (simp add: segment_link_def)
  with t u show ?case by (intro exI [of _ t] exI [of _ "u # us"]) simp
qed

lemma named_history:
  assumes "sg_ok (verify_segment_chain e w key texts heads)" "list_all sized texts" "length texts < max_walk"
    and "h \<in> set heads" "named_segment (fld h (js ''head'')) = Some d"
  shows "\<exists>t ts. sl.history e t ts \<and> set (t # ts) \<subseteq> set texts \<and> text_hash e t = d"
proof -
  obtain docs c where docs: "sound_docs e texts docs" and ch: "chains_loop e docs (by_chain e heads) = Inr (c, [])"
    and wf: "\<forall>h \<in> set heads. is_signed_chain_head e h"
    using accepted_parts [OF assms(1,2)] by blast
  obtain list where list: "(chain_name h, list) \<in> set (by_chain e heads)" "fld h (js ''head'') \<in> set list"
    using by_chain_of [OF assms(4)] wf assms(4) by blast
  obtain x where x: "chain_check e docs (chain_name h) list = Inr (x, [])" using chains_loop_each [OF ch list(1)] by blast
  let ?ordered = "js_sort (\<lambda>a b. issued_ms e a \<le> issued_ms e b) list"
  have mem: "fld h (js ''head'') \<in> set ?ordered" using list(2) by (simp add: jss.sort_set)
  obtain newest where nw: "find (\<lambda>h. named_segment h \<noteq> None) (rev ?ordered) = Some newest"
  proof (cases "find (\<lambda>h. named_segment h \<noteq> None) (rev ?ordered)")
    case None
    with mem assms(5) show ?thesis by (auto simp: find_None_iff)
  qed blast
  from x nw obtain trail where p: "path_loop max_walk (chain_name h) docs None (named_segment newest) [] = Inr (trail, [])"
    and q: "\<forall>y \<in> set ?ordered. named_problem (chain_name h) trail y = []"
    by (auto simp: chain_check_def Let_def rbind_Inr_iff)
  have len: "length docs < max_walk" using docs assms(3) by (simp add: sound_docs_def)
  have ds: "linked docs (named_segment newest) (map fst trail)"
    using path_loop_linked [OF p _ len] by auto
  have "map_of trail d \<noteq> None" using q mem assms(5) by (auto simp: named_problem_def Let_def split: option.splits)
  then have "d \<in> set (map fst trail)" by (metis map_of_eq_None_iff set_map)
  from linked_from [OF ds this] obtain rest where "linked docs (Some d) (d # rest)" by blast
  then show ?thesis by (rule linked_history [OF docs])
qed

text \<open>C32: a head fixes the history before the segment it names. When two downloads pass and a head of each names the same digest, the segments from it
  back to the first are the same texts in both, or two different texts with one SHA-256 digest have been found.\<close>

theorem segment_history_fixed:
  assumes "sg_ok (verify_segment_chain e w key texts heads)" "list_all sized texts" "length texts < max_walk"
    and "sg_ok (verify_segment_chain e w' key' texts' heads')" "list_all sized texts'" "length texts' < max_walk"
    and "h \<in> set heads" "named_segment (fld h (js ''head'')) = Some d" "h' \<in> set heads'" "named_segment (fld h' (js ''head'')) = Some d"
  shows "\<exists>t ts. sl.history e t ts \<and> text_hash e t = d \<and> set (t # ts) \<subseteq> set texts \<and>
    (set (t # ts) \<subseteq> set texts' \<or> sl.clash e (set texts \<union> set texts'))"
proof -
  obtain t ts where t: "sl.history e t ts" "set (t # ts) \<subseteq> set texts" "text_hash e t = d"
    using named_history [OF assms(1-3,7,8)] by blast
  obtain u us where u: "sl.history e u us" "set (u # us) \<subseteq> set texts'" "text_hash e u = d"
    using named_history [OF assms(4-6,9,10)] by blast
  have "t # ts = u # us \<or> sl.clash e (set (t # ts) \<union> set (u # us))" using sl.history_unique [OF t(1) u(1)] t(3) u(3) by simp
  moreover have "sl.clash e (set (t # ts) \<union> set (u # us)) \<Longrightarrow> sl.clash e (set texts \<union> set texts')"
    using t(2) u(2) unfolding sl.clash_def by blast
  ultimately show ?thesis using t u(2) by metis
qed

end
