(* ===== verification/JsonRoundTrip.thy ===== *)
theory JsonRoundTrip
  imports JsonParse
begin

section \<open>Canonical text reads back\<close>

text \<open>
  \<open>json_parse\<close> inverts \<open>canonical\<close> up to the order of members: strings and their escapes, the four formats of a number's text, and
  arrays and objects of any depth. What a digest covers can be read back from the bytes it was taken of.
\<close>

subsection \<open>Reading back strings\<close>

lemma hex_nibble_digit: "d < 16 \<Longrightarrow> hex_nibble (hex_digit d) = Some d"
  by (auto simp: hex_nibble_def hex_digit_def is_digit_def)

lemma json_char_escape: "json_char (json_escape c @ r) = Some (c, r)"
proof -
  consider "c \<in> {34, 92, 8, 12, 10, 13, 9}" | "c \<notin> {34, 92, 8, 12, 10, 13, 9}" "c < 32" | "c \<notin> {34, 92, 8, 12, 10, 13, 9}" "\<not> c < 32"
    by blast
  then show ?thesis
  proof cases
    case 1
    then show ?thesis by (elim insertE emptyE) (simp_all add: json_escape_def json_char_def simple_escapes_def)
  next
    case 2
    then have e: "json_escape c = [92, 117, 48, 48, hex_digit (c div 16), hex_digit (c mod 16)]"
      by (simp add: json_escape_def)
    have "hex_nibble 48 = Some 0" using hex_nibble_digit [of 0] by (simp add: hex_digit_def)
    moreover have "hex_nibble (hex_digit (c div 16)) = Some (c div 16)" "hex_nibble (hex_digit (c mod 16)) = Some (c mod 16)"
      using 2(2) by (intro hex_nibble_digit; simp)+
    ultimately show ?thesis by (simp add: e json_char_def unicode_escape_def)
  next
    case 3
    then show ?thesis by (simp add: json_escape_def json_char_def)
  qed
qed

lemma json_string_reads: "json_string (concat (map json_escape s) @ 34 # r) = Some (s, r)"
proof (induction s)
  case Nil
  show ?case by (simp add: json_string.simps [of "34 # r"])
next
  case (Cons c s)
  obtain x xs where e: "json_escape c = x # xs" using escape_ne by blast
  then have "take 1 (json_escape c @ concat (map json_escape s) @ 34 # r) \<noteq> [34]" using escape_not_quote [OF e] by simp
  then show ?case
    using Cons by (simp add: json_string.simps [of "json_escape c @ concat (map json_escape s) @ 34 # r"] json_char_escape)
qed

subsection \<open>Reading back numbers\<close>

lemma dec_digits_head: "0 < n \<Longrightarrow> hd (dec_digits n) \<noteq> 48"
proof (induction n rule: dec_digits.induct)
  case (1 n)
  then show ?case by (cases "n < 10") (auto simp: dec_digits.simps [of n] pos_imp_zdiv_pos_iff)
qed

lemma dec_digits_all: "0 \<le> n \<Longrightarrow> list_all is_digit (dec_digits n)"
  using dec_digits_digit by (auto simp: list_all_iff)

lemma digits_nonneg: "list_all is_digit s \<Longrightarrow> 0 \<le> digits_val s"
  by (induction s rule: rev_induct) (auto simp: digits_val_snoc is_digit_def)

definition number_text :: "jsstr \<Rightarrow> jsstr \<Rightarrow> int option \<Rightarrow> jsstr" where
  "number_text i f x = i @ (if f = [] then [] else 46 # f) @ (case x of None \<Rightarrow> [] | Some e \<Rightarrow> exp_text e)"

definition number_parts :: "jsstr \<Rightarrow> jsstr \<Rightarrow> int option \<Rightarrow> rat \<Rightarrow> bool" where
  "number_parts i f x q \<longleftrightarrow>
     list_all is_digit i \<and> list_all is_digit f \<and> i \<noteq> [] \<and> (hd i = 48 \<longrightarrow> length i = 1) \<and>
     q = of_int (digits_val (i @ f)) * 10 powi ((case x of None \<Rightarrow> 0 | Some e \<Rightarrow> e) - int (length f))"

lemma pos_text_parts:
  assumes sh: "dec_shortest q = (k, n, s)" and k: "0 < k" and s: "10 ^ (k - 1) \<le> s" "s < 10 ^ k"
  shows "\<exists>i f x. pos_text q = number_text i f x \<and> number_parts i f x (of_int s * 10 powi (n - int k))"
proof -
  let ?ds = "dec_digits s"
  have s0: "0 < s" using s(1) by (rule less_le_trans [rotated]) simp
  have len: "length ?ds = k" using dec_digits_length_eq [OF s k] .
  have dv: "digits_val ?ds = s" using s0 by (intro digits_val_dec) simp
  have dg: "list_all is_digit ?ds" using s0 by (intro dec_digits_all) simp
  then have sub: "list_all is_digit (take m ?ds)" "list_all is_digit (drop m ?ds)" for m
    using list_all_parts by blast+
  have hd: "hd ?ds \<noteq> 48" by (rule dec_digits_head [OF s0])
  have z: "list_all is_digit (replicate m 48)" for m by (simp add: list_all_iff is_digit_def)
  have ptext: "pos_text q =
     (if int k \<le> n \<and> n \<le> 21 then ?ds @ replicate (nat (n - int k)) 48
      else if 0 < n \<and> n \<le> 21 then take (nat n) ?ds @ 46 # drop (nat n) ?ds
      else if - 6 < n \<and> n \<le> 0 then [48] @ 46 # (replicate (nat (- n)) 48 @ ?ds)
      else if k = 1 then ?ds @ exp_text (n - 1)
      else take 1 ?ds @ 46 # drop 1 ?ds @ exp_text (n - 1))"
    by (simp add: pos_text_def sh Let_def js_marks)
  consider (a) "int k \<le> n" "n \<le> 21" | (b) "n < int k" "0 < n" "n \<le> 21" | (c) "n < int k" "- 6 < n" "n \<le> 0"
    | (d) "\<not> (int k \<le> n \<and> n \<le> 21)" "\<not> (0 < n \<and> n \<le> 21)" "\<not> (- 6 < n \<and> n \<le> 0)" "k = 1"
    | (e) "\<not> (int k \<le> n \<and> n \<le> 21)" "\<not> (0 < n \<and> n \<le> 21)" "\<not> (- 6 < n \<and> n \<le> 0)" "k \<noteq> 1"
    by linarith
  then show ?thesis
  proof cases
    case a
    then have "pos_text q = number_text (?ds @ replicate (nat (n - int k)) 48) [] None" by (simp add: ptext number_text_def)
    moreover have "number_parts (?ds @ replicate (nat (n - int k)) 48) [] None (of_int s * 10 powi (n - int k))"
      using a hd dg z powi_10_nat [of "n - int k"] by (simp add: number_parts_def digits_val_zeros dv)
    ultimately show ?thesis by blast
  next
    case b
    then have ne: "take (nat n) ?ds \<noteq> []" "hd (take (nat n) ?ds) = hd ?ds" "drop (nat n) ?ds \<noteq> []" using len k by (auto simp: hd_take)
    then have "pos_text q = number_text (take (nat n) ?ds) (drop (nat n) ?ds) None" using b by (simp add: ptext number_text_def)
    moreover have "number_parts (take (nat n) ?ds) (drop (nat n) ?ds) None (of_int s * 10 powi (n - int k))"
      using b ne hd sub len by (simp add: number_parts_def dv of_nat_diff)
    ultimately show ?thesis by blast
  next
    case c
    then have "pos_text q = number_text [48] (replicate (nat (- n)) 48 @ ?ds) None" by (simp add: ptext number_text_def)
    moreover have "digits_val ([48] @ (replicate (nat (- n)) 48 @ ?ds)) = s"
      using digits_val_lead_zeros [of "Suc (nat (- n))" ?ds] dv by simp
    then have "number_parts [48] (replicate (nat (- n)) 48 @ ?ds) None (of_int s * 10 powi (n - int k))"
      using c dg z len by (simp add: number_parts_def is_digit_def)
    ultimately show ?thesis by blast
  next
    case d
    have "pos_text q = ?ds @ exp_text (n - 1)"
      unfolding ptext if_not_P [OF d(1)] if_not_P [OF d(2)] if_not_P [OF d(3)] if_P [OF d(4)] ..
    then have "pos_text q = number_text ?ds [] (Some (n - 1))" by (simp add: number_text_def)
    moreover have "number_parts ?ds [] (Some (n - 1)) (of_int s * 10 powi (n - int k))"
      using d dg hd by (simp add: number_parts_def dv)
    ultimately show ?thesis by blast
  next
    case e
    have "pos_text q = take 1 ?ds @ 46 # drop 1 ?ds @ exp_text (n - 1)"
      unfolding ptext if_not_P [OF e(1)] if_not_P [OF e(2)] if_not_P [OF e(3)] if_not_P [OF e(4)] ..
    moreover have ne: "drop 1 ?ds \<noteq> []" "take 1 ?ds \<noteq> []" "hd (take 1 ?ds) = hd ?ds" using e(4) k len by auto
    ultimately have "pos_text q = number_text (take 1 ?ds) (drop 1 ?ds) (Some (n - 1))" by (simp add: number_text_def)
    moreover have "n - 1 - int (k - 1) = n - int k" using k by (simp add: of_nat_diff)
    then have "number_parts (take 1 ?ds) (drop 1 ?ds) (Some (n - 1)) (of_int s * 10 powi (n - int k))"
      using ne hd sub len by (simp only: number_parts_def append_take_drop_id dv length_drop option.case) simp
    ultimately show ?thesis by blast
  qed
qed

lemma takeWhile_digits:
  assumes "list_all is_digit i" "r = [] \<or> \<not> is_digit (hd r)"
  shows "takeWhile is_digit (i @ r) = i" "dropWhile is_digit (i @ r) = r"
  using assms by (cases r; simp add: list_all_iff takeWhile_append2 dropWhile_append2)+

lemma delim_digit: "delim r \<Longrightarrow> r = [] \<or> (hd r \<in> {44, 93, 125} \<and> \<not> is_digit (hd r))"
  by (cases r) (auto simp: is_digit_def)

lemma json_exponent_reads:
  assumes "delim r"
  shows "json_exponent ((case x of None \<Rightarrow> [] | Some e \<Rightarrow> exp_text e) @ r) = Some (case x of None \<Rightarrow> 0 | Some e \<Rightarrow> e, r)"
proof (cases x)
  case None
  then show ?thesis using assms by (cases r) (auto simp: json_exponent_def)
next
  case (Some e)
  have d: "list_all is_digit (dec_digits \<bar>e\<bar>)" by (intro dec_digits_all) simp
  have r: "r = [] \<or> \<not> is_digit (hd r)" using delim_digit [OF assms] by blast
  show ?thesis
    using takeWhile_digits [OF d r]
    by (cases "e < 0") (simp_all add: Some exp_text_def js_marks json_exponent_def Let_def digits_val_dec)
qed

lemma json_number_reads:
  assumes p: "number_parts i f x q" and d: "delim r"
  shows "json_number (number_text i f x @ r) = Some (rnd q, r)" "json_number (45 # number_text i f x @ r) = Some (rnd (- q), r)"
proof -
  let ?x = "(case x of None \<Rightarrow> [] | Some e \<Rightarrow> exp_text e) @ r" and ?f = "if f = [] then [] else 46 # f"
  from p have i: "list_all is_digit i" "i \<noteq> []" "hd i = 48 \<Longrightarrow> length i = 1" and f: "list_all is_digit f" by (auto simp: number_parts_def)
  have x: "?x = [] \<or> (hd ?x \<noteq> 46 \<and> \<not> is_digit (hd ?x))"
    using delim_digit [OF d] by (cases x) (auto simp: exp_text_def js_marks is_digit_def)
  then have u: "?f @ ?x = [] \<or> \<not> is_digit (hd (?f @ ?x))" by (auto simp: is_digit_def)
  have fr: "json_fraction (?f @ ?x) = Some (f, ?x)"
  proof (cases "f = []")
    case True
    then show ?thesis using x by (cases ?x) (auto simp: json_fraction_def)
  next
    case False
    have "takeWhile is_digit (f @ ?x) = f" "dropWhile is_digit (f @ ?x) = ?x" using takeWhile_digits [OF f, of ?x] x by blast+
    with False show ?thesis by (simp add: json_fraction_def)
  qed
  have h: "take 1 (i @ ?f @ ?x) \<noteq> [45]" using i by (cases i) (auto simp: is_digit_def)
  have t: "number_text i f x @ r = i @ ?f @ ?x" by (simp add: number_text_def)
  have tw: "takeWhile is_digit (i @ ?f @ ?x) = i" "dropWhile is_digit (i @ ?f @ ?x) = ?f @ ?x" using takeWhile_digits [OF i(1) u] by blast+
  have ok: "\<not> (i = [] \<or> hd i = 48 \<and> 1 < length i)" using i(2,3) by auto
  have q: "of_int (digits_val (i @ f)) * 10 powi ((case x of None \<Rightarrow> 0 | Some e \<Rightarrow> e) - int (length f)) = q"
    using p by (simp only: number_parts_def)
  show "json_number (number_text i f x @ r) = Some (rnd q, r)"
    unfolding json_number_def Let_def t if_not_P [OF h] tw fr if_not_P [OF ok] option.case prod.case json_exponent_reads [OF d] q ..
  have m: "take 1 (45 # i @ ?f @ ?x) = [45]" "drop 1 (45 # i @ ?f @ ?x) = i @ ?f @ ?x" by simp_all
  show "json_number (45 # number_text i f x @ r) = Some (rnd (- q), r)"
    unfolding json_number_def Let_def t m if_P [OF refl] tw fr if_not_P [OF ok] option.case prod.case json_exponent_reads [OF d] q ..
qed


lemma json_number_text:
  assumes h: "has_text n" and d: "delim r"
  shows "json_number (num_text n @ r) = Some (n, r)"
proof -
  obtain q where n: "n = Fin q" and q: "q = 0 \<or> list_ex (\<lambda>k. dec_try \<bar>q\<bar> k \<noteq> None) [1..<18]"
    using h by (auto simp: has_text_def split: jnum.splits)
  have pos: "\<exists>i f x v. pos_text p = number_text i f x \<and> number_parts i f x v \<and> rnd v = Fin p"
    if p: "p > 0" "list_ex (\<lambda>k. dec_try p k \<noteq> None) [1..<18]" for p
  proof -
    obtain k m s where sh: "dec_shortest p = (k, m, s)" by (cases "dec_shortest p") auto
    note sp = dec_shortest_spec [OF p sh]
    show ?thesis using pos_text_parts [OF sh sp(1-3)] sp(4) by blast
  qed
  consider "q = 0" | "q > 0" | "q < 0" by linarith
  then show ?thesis
  proof cases
    case 1
    have "number_parts [48] [] None 0" by (simp add: number_parts_def is_digit_def digits_val_def)
    from json_number_reads(1) [OF this d] show ?thesis using 1 by (simp add: n js_marks number_text_def rnd_def)
  next
    case 2
    with q pos [of q] obtain i f x v where "pos_text q = number_text i f x" "number_parts i f x v" "rnd v = Fin q" by auto
    with json_number_reads(1) [OF this(2) d] 2 show ?thesis by (simp add: n)
  next
    case 3
    with q pos [of "- q"] obtain i f x v where p: "pos_text (- q) = number_text i f x" "number_parts i f x v" and v: "rnd v = Fin (- q)" by auto
    have "rnd (- v) = Fin q"
    proof (cases "v > 0")
      case True
      then show ?thesis using v 3 by (auto simp: rnd_def split: if_splits)
    next
      case False
      have "v \<ge> 0" using p(2) digits_nonneg [of "i @ f"] by (simp add: number_parts_def)
      with False v 3 show ?thesis by (simp add: rnd_def)
    qed
    with json_number_reads(2) [OF p(2) d] p(1) 3 show ?thesis by (simp add: n js_marks)
  qed
qed

subsection \<open>Reading back values\<close>

text \<open>The members of every object have distinct names, as the members of an object do.\<close>

primrec keyed :: "jsval \<Rightarrow> bool" where
  "keyed VUndef = True"
| "keyed VNull = True"
| "keyed (VBool b) = True"
| "keyed (VNum n) = True"
| "keyed (VStr s) = True"
| "keyed (VArr xs) = list_all id (map keyed xs)"
| "keyed (VObj fs) = (distinct (map fst fs) \<and> list_all snd (map (map_prod id keyed) fs))"
| "keyed (VInst fs) = True"
| "keyed (VOther a b) = True"
| "keyed VHole = True"

lemma keyed_simps [simp]:
  "keyed (VArr xs) \<longleftrightarrow> (\<forall>x \<in> set xs. keyed x)"
  "keyed (VObj fs) \<longleftrightarrow> distinct (map fst fs) \<and> (\<forall>(k, v) \<in> set fs. keyed v)"
  by (auto simp: list_all_iff)

declare keyed.simps(6,7) [simp del]

lemma omap_of_list_id:
  assumes "distinct (map fst fs)"
  shows "omap_of_list fs = fs"
proof -
  have "omap_set k v fs = fs @ [(k, v)]" if "k \<notin> fst ` set fs" for k v and fs :: "('a \<times> 'b) list"
    using that by (induction fs) auto
  with assms show ?thesis
    by (induction fs rule: rev_induct) (auto simp: omap_of_list_snoc omap_of_list_def [of "[]"])
qed

lemma mset_enumerated: "mset (enumerated fs) = mset fs"
  by (induction fs) (auto simp: enumerated_def jss.sort_mset)

text \<open>The value that is read back: the members of every object sorted, then enumerated.\<close>

primrec reread :: "jsval \<Rightarrow> jsval" where
  "reread VUndef = VUndef"
| "reread VNull = VNull"
| "reread (VBool b) = VBool b"
| "reread (VNum n) = VNum n"
| "reread (VStr s) = VStr s"
| "reread (VArr xs) = VArr (map reread xs)"
| "reread (VObj fs) = VObj (enumerated (sort_members (map (map_prod id reread) fs)))"
| "reread (VInst fs) = VInst fs"
| "reread (VOther a b) = VOther a b"
| "reread VHole = VHole"

lemma jnorm_reread: "keyed v \<Longrightarrow> jnorm (reread v) = jnorm v"
proof (induction v rule: jsval_tree_induct)
  case (VObj fs)
  let ?fs = "map (map_prod id reread) fs"
  have eq: "map (map_prod id jnorm) ?fs = map (map_prod id jnorm) fs" using VObj by auto
  have "map fst ?fs = map fst fs" by simp
  then have "distinct (map fst ?fs)" using VObj.prems by simp
  then have "distinct (map fst (enumerated (sort_members ?fs)))" by (metis mset_enumerated mset_sort_members mset_map mset_eq_imp_distinct_iff)
  then have "sort_members (enumerated (sort_members ?fs)) = sort_members ?fs"
    by (intro sort_members_perm) (simp_all add: mset_enumerated)
  then have "sort_members (map (map_prod id jnorm) (enumerated (sort_members ?fs))) = map (map_prod id jnorm) (sort_members ?fs)"
    by (simp add: sort_members_map)
  also have "\<dots> = sort_members (map (map_prod id jnorm) fs)" unfolding sort_members_map [symmetric] eq ..
  finally show ?case by simp
qed simp_all

lemma starts_value:
  assumes "canonical v = Inr t"
  shows "\<exists>c cs. t = c # cs \<and> \<not> is_ws c \<and> c \<notin> {44, 58, 93, 125}"
proof -
  obtain c cs where t: "t = c # cs" and c: "char_kind c = kind v" "c \<notin> {44, 58, 93, 125}"
    using canonical_head [OF assms] by (cases t) auto
  have "kind v \<noteq> 7" using assms by (cases v) auto
  then have "\<not> is_ws c" using c(1) by (auto simp: char_kind_def is_ws_def is_digit_def split: if_splits)
  with t c(2) show ?thesis by blast
qed

lemma skip_value: "canonical v = Inr t \<Longrightarrow> skip_ws (t @ r) = t @ r"
  using starts_value [of v t] by (auto simp: skip_ws_def)

text \<open>What the induction shows of a value.\<close>

definition parses_back :: "jsval \<Rightarrow> bool" where
  "parses_back v \<longleftrightarrow> (\<forall>t r n. canonical v = Inr t \<longrightarrow> delim r \<longrightarrow> 2 * length t + 1 \<le> n \<longrightarrow>
     json_value n (t @ r) = Some (reread v, r))"

lemma elements_back:
  assumes "\<And>x. x \<in> set xs \<Longrightarrow> parses_back x" "rmap canonical xs = Inr ts" "xs \<noteq> []" "2 * length (js_join [44] ts) + 2 \<le> n"
  shows "json_elements n (js_join [44] ts @ 93 # r) = Some (map reread xs, r)"
  using assms
proof (induction xs arbitrary: ts n)
  case (Cons x xs)
  obtain t ts' where ts: "ts = t # ts'" "canonical x = Inr t" "rmap canonical xs = Inr ts'"
    using Cons.prems(2) by (auto simp: rbind_Inr_iff)
  obtain m where n: "n = Suc m" using Cons.prems(4) by (cases n) auto
  let ?r = "(if ts' = [] then [] else 44 # js_join [44] ts') @ 93 # r"
  have len: "2 * length t + 1 \<le> m" using Cons.prems(4) by (simp add: n ts(1) js_join_Cons)
  have "delim ?r" by simp
  with Cons.prems(1) [of x] ts(2) len have u: "json_value m (t @ ?r) = Some (reread x, ?r)"
    unfolding parses_back_def by (metis list.set_intros(1))
  show ?case
  proof (cases "ts' = []")
    case True
    then have "xs = []" using ts(3) by (cases xs) (auto simp: rbind_Inr_iff)
    then show ?thesis using u True by (simp add: n ts(1) skip_ws_def is_ws_def)
  next
    case False
    then have ne: "xs \<noteq> []" using ts(3) by auto
    have "2 * length (js_join [44] ts') + 2 \<le> m" using Cons.prems(4) False by (simp add: n ts(1) js_join_Cons)
    from Cons.IH [OF Cons.prems(1) ts(3) ne this] have
      "json_elements m (js_join [44] ts' @ 93 # r) = Some (map reread xs, r)" by auto
    then show ?thesis using u False by (simp add: n ts(1) js_join_Cons skip_ws_def is_ws_def)
  qed
qed simp

lemma members_back:
  assumes "\<And>k v. (k, v) \<in> set fs \<Longrightarrow> parses_back v" "rmap member_text fs = Inr ts" "fs \<noteq> []" "2 * length (js_join [44] ts) + 2 \<le> n"
  shows "json_members n (js_join [44] ts @ 125 # r) = Some (map (map_prod id reread) fs, r)"
  using assms
proof (induction fs arbitrary: ts n)
  case (Cons kv fs)
  obtain k v where kv: "kv = (k, v)" by (cases kv)
  obtain t ts' where ts: "ts = t # ts'" "member_text (k, v) = Inr t" "rmap member_text fs = Inr ts'"
    using Cons.prems(2) by (auto simp: rbind_Inr_iff kv)
  then obtain vt where t: "t = json_quote k @ 58 # vt" "canonical v = Inr vt"
    by (auto simp: member_text_def rbind_Inr_iff canonical_string_def js_def split: if_splits)
  obtain m where n: "n = Suc m" using Cons.prems(4) by (cases n) auto
  let ?r = "(if ts' = [] then [] else 44 # js_join [44] ts') @ 125 # r"
  have len: "2 * length vt + 1 \<le> m" using Cons.prems(4) by (simp add: n ts(1) t(1) js_join_Cons)
  have "parses_back v" using Cons.prems(1) [of k v] kv by simp
  moreover have "delim ?r" by simp
  ultimately have u: "json_value m (vt @ ?r) = Some (reread v, ?r)"
    using t(2) len unfolding parses_back_def by metis
  have s: "json_string (concat (map json_escape k) @ 34 # 58 # vt @ ?r) = Some (k, 58 # vt @ ?r)" by (rule json_string_reads)
  have q: "js_join [44] ts @ 125 # r = 34 # concat (map json_escape k) @ 34 # 58 # vt @ ?r"
    by (simp add: ts(1) js_join_Cons t(1) json_quote_def)
  show ?case
  proof (cases "ts' = []")
    case True
    then have "fs = []" using ts(3) by (cases fs) (auto simp: rbind_Inr_iff)
    then show ?thesis using u True s unfolding q by (simp add: n skip_ws_def is_ws_def kv)
  next
    case False
    then have ne: "fs \<noteq> []" using ts(3) by auto
    have "2 * length (js_join [44] ts') + 2 \<le> m" using Cons.prems(4) False by (simp add: n ts(1) js_join_Cons)
    moreover have "\<And>k v. (k, v) \<in> set fs \<Longrightarrow> parses_back v" using Cons.prems(1) by force
    ultimately have
      "json_members m (js_join [44] ts' @ 125 # r) = Some (map (map_prod id reread) fs, r)"
      using Cons.IH [OF _ ts(3) ne] by blast
    then show ?thesis using u False s unfolding q by (simp add: n skip_ws_def is_ws_def kv id_def)
  qed
qed simp

lemma json_value_word: "0 < n \<Longrightarrow> \<not> is_ws c \<Longrightarrow> c \<notin> {34, 91, 123} \<Longrightarrow> json_value n (c # t) = json_word (c # t)"
  by (cases n) (simp_all add: skip_ws_def)

lemma canonical_parses: "list_all has_text (nums v) \<Longrightarrow> keyed v \<Longrightarrow> parses_back v"
proof (induction v rule: jsval_tree_induct)
  case (VNum x)
  show ?case unfolding parses_back_def
  proof (intro allI impI)
    fix t r n assume c: "canonical (VNum x) = Inr t" and d: "delim r" and n: "2 * length t + 1 \<le> (n::nat)"
    then have t: "t = num_text x" "is_finite_num x" by (auto split: if_splits)
    obtain m where m: "n = Suc m" using n by (cases n) auto
    obtain a cs where a: "num_text x = a # cs" "a = 45 \<or> is_digit a" using num_text_head [OF t(2)] by blast
    then have "\<not> is_ws a" "a \<notin> {34, 91, 123}" "a \<notin> {110, 116, 102}" by (auto simp: is_ws_def is_digit_def)
    moreover have "json_number (a # cs @ r) = Some (x, r)" using json_number_text [OF _ d, of x] VNum a(1) by simp
    ultimately show "json_value n (t @ r) = Some (reread (VNum x), r)"
      by (auto simp: m t(1) a(1) skip_ws_def json_word_def js_def starts_with_iff)
  qed
next
  case (VStr s)
  show ?case unfolding parses_back_def
  proof (intro allI impI)
    fix t r n assume c: "canonical (VStr s) = Inr t" and n: "2 * length t + 1 \<le> (n::nat)"
    then obtain m where m: "n = Suc m" by (cases n) auto
    from c have "t @ r = 34 # concat (map json_escape s) @ 34 # r" by (auto simp: canonical_string_def json_quote_def split: if_splits)
    then show "json_value n (t @ r) = Some (reread (VStr s), r)"
      by (simp add: m skip_ws_def is_ws_def json_string_reads)
  qed
next
  case (VArr xs)
  show ?case unfolding parses_back_def
  proof (intro allI impI)
    fix t r n assume c: "canonical (VArr xs) = Inr t" and n: "2 * length t + 1 \<le> (n::nat)"
    then obtain m where m: "n = Suc m" by (cases n) auto
    from c obtain ts where ts: "rmap canonical xs = Inr ts" "t = 91 # js_join [44] ts @ [93]"
      by (auto simp: rbind_Inr_iff js_def split: if_splits)
    show "json_value n (t @ r) = Some (reread (VArr xs), r)"
    proof (cases "xs = []")
      case True
      then show ?thesis using ts by (simp add: m skip_ws_def is_ws_def)
    next
      case False
      have "2 * length (js_join [44] ts) + 2 \<le> m" using n by (simp add: m ts(2))
      then have us: "json_elements m (js_join [44] ts @ 93 # r) = Some (map reread xs, r)"
        using elements_back [OF _ ts(1) False, of m r] VArr by auto
      obtain x xs' where x: "xs = x # xs'" using False by (cases xs) auto
      then obtain t1 ts' where t1: "ts = t1 # ts'" "canonical x = Inr t1" using ts(1) by (auto simp: rbind_Inr_iff)
      obtain a cs where "t1 = a # cs" "\<not> is_ws a" "a \<notin> {44, 58, 93, 125}" using starts_value [OF t1(2)] by blast
      then have "take 1 (skip_ws (js_join [44] ts @ 93 # r)) \<noteq> [93]" by (simp add: t1(1) js_join_Cons skip_ws_def)
      with us show ?thesis by (simp add: m ts(2) skip_ws_def is_ws_def)
    qed
  qed
next
  case (VObj fs)
  show ?case unfolding parses_back_def
  proof (intro allI impI)
    fix t r n assume c: "canonical (VObj fs) = Inr t" and n: "2 * length t + 1 \<le> (n::nat)"
    then obtain m where m: "n = Suc m" by (cases n) auto
    from c obtain ts where ts: "rmap member_text (sort_members fs) = Inr ts" "t = 123 # js_join [44] ts @ [125]"
      unfolding canonical_obj by (auto simp: rbind_Inr_iff js_def)
    show "json_value n (t @ r) = Some (reread (VObj fs), r)"
    proof (cases "fs = []")
      case True
      then show ?thesis using ts by (simp add: m skip_ws_def is_ws_def sort_members_def enumerated_def)
    next
      case False
      then have ne: "sort_members fs \<noteq> []" by (metis set_sort_members set_empty)
      have "2 * length (js_join [44] ts) + 2 \<le> m" using n by (simp add: m ts(2))
      moreover have pb: "\<And>k v. (k, v) \<in> set (sort_members fs) \<Longrightarrow> parses_back v" using VObj by fastforce
      ultimately have us: "json_members m (js_join [44] ts @ 125 # r) = Some (map (map_prod id reread) (sort_members fs), r)"
        using members_back [OF _ ts(1) ne, of m r] pb by blast
      have "map fst (map (map_prod id reread) (sort_members fs)) = map fst (sort_members fs)" by simp
      moreover have "distinct (map fst (sort_members fs))"
        using VObj.prems(2) by (metis keyed_simps(2) mset_sort_members mset_map mset_eq_imp_distinct_iff)
      ultimately have "omap_of_list (map (map_prod id reread) (sort_members fs)) = sort_members (map (map_prod id reread) fs)"
        unfolding sort_members_map by (intro omap_of_list_id) (simp only:)
      then have nrm: "new_object (map (map_prod id reread) (sort_members fs)) = reread (VObj fs)" by (simp add: new_object_def)
      obtain kv fs' where kv: "sort_members fs = kv # fs'" using ne by (cases "sort_members fs") auto
      then obtain t1 ts' where t1: "ts = t1 # ts'" "member_text kv = Inr t1" using ts(1) by (auto simp: rbind_Inr_iff)
      then have "take 1 (skip_ws (js_join [44] ts @ 125 # r)) \<noteq> [125]"
        by (cases kv) (auto simp: member_text_def canonical_string_def json_quote_def rbind_Inr_iff js_join_Cons skip_ws_def is_ws_def split: if_splits)
      with us nrm show ?thesis by (simp add: m ts(2) skip_ws_def is_ws_def)
    qed
  qed
qed (auto simp: parses_back_def js_def json_value_word is_ws_def json_word_def starts_with_iff)

lemma parse_canonical:
  assumes "list_all has_text (nums v)" "keyed v" "canonical v = Inr t"
  shows "json_parse t = Some (reread v)"
proof -
  have "delim []" by (simp add: delim_def)
  with canonical_parses [OF assms(1,2)] assms(3) have "json_value (2 * length t + 2) (t @ []) = Some (reread v, [])"
    unfolding parses_back_def by (metis add_leD1 add_le_cancel_left le_add2 nat_1_add_1 order_refl)
  then show ?thesis by (auto simp: json_parse_def skip_ws_def)
qed

subsection \<open>The property\<close>

text \<open>C33: canonical JSON round trips. The text \<open>canonical\<close> writes of a document is JSON, and reading it gives the document back up to the order of
  members, whose canonical text is again the one that was read.\<close>

theorem canonical_round_trip:
  assumes "list_all has_text (nums v)" "keyed v" "canonical v = Inr t"
  shows "\<exists>u. json_parse t = Some u \<and> jnorm u = jnorm v \<and> canonical u = Inr t"
proof -
  have "json_parse t = Some (reread v)" "jnorm (reread v) = jnorm v" using parse_canonical [OF assms] jnorm_reread [OF assms(2)] by blast+
  moreover from this(2) have "canonical (reread v) = Inr t" using canonical_jnorm assms(3) by metis
  ultimately show ?thesis by blast
qed

theorem canonical_round_trip_witness:
  "\<exists>u t. json_parse t = Some u \<and> canonical u = Inr t \<and>
     jnorm u = jnorm (VObj [(js ''b'', VNum (jint 3)), (js ''a'', VArr [VNull, VStr (js ''x'')])])"
proof -
  let ?v = "VObj [(js ''b'', VNum (jint 3)), (js ''a'', VArr [VNull, VStr (js ''x'')])]"
  have "json_ok ?v" by (simp add: js_def hi_surrogate_def lo_surrogate_def jint_def is_finite_num_def)
  then obtain t where "canonical ?v = Inr t" using canonical_returns [of ?v] by (auto simp: returns_iff)
  moreover have "list_all has_text (nums ?v)" using has_text_int [of 3] by (simp add: max_safe_def)
  moreover have "keyed ?v" by (simp add: js_def)
  ultimately show ?thesis using canonical_round_trip [of ?v t] by blast
qed

end
