(* ===== verification/ChainHeadsProps.thy ===== *)
theory ChainHeadsProps
  imports ChainHeads
begin

section \<open>When heads agree\<close>

text \<open>
  The comparison of heads, which looks at neighbours after a sort, at the highest head of several and at the first end of each segment, decides a
  condition on all pairs of heads of a chain (\<open>chain_agrees\<close>).
\<close>

subsection \<open>The condition\<close>

text \<open>This computer's own order: \<open>a\<close> was held when the delivery that \<open>b\<close> answered was sent, on one clock that did not step back.\<close>

definition held_before :: "sourced \<Rightarrow> sourced \<Rightarrow> bool" where
  "held_before a b \<longleftrightarrow>
     so_kept a \<and> so_kept b \<and> (\<exists>x y. so_held a = Some x \<and> so_sent b = Some y \<and> x \<le> y) \<and> \<not> olt (so_held b) (so_sent b) \<and> \<not> other_clock a b"

definition chain_agrees :: "env \<Rightarrow> sourced list \<Rightarrow> bool" where
  "chain_agrees e list \<longleftrightarrow>
     (\<forall>a \<in> set list. \<forall>b \<in> set list. issued_of e a < issued_of e b \<longrightarrow> seq_of a \<le> seq_of b) \<and>
     (\<forall>a \<in> set list. \<forall>b \<in> set list. held_before a b \<longrightarrow> seq_of a \<le> seq_of b) \<and>
     sorted_wrt (\<lambda>a b. may_be_out_together a b \<or> seq_of a \<le> seq_of b) (filter so_kept list) \<and>
     (\<forall>a \<in> set list. \<forall>b \<in> set list. \<forall>n d d'. seg_of a = Some (n, d) \<longrightarrow> seg_of b = Some (n, d') \<longrightarrow> d = d')"

subsection \<open>The passes\<close>

lemma issue_pass_Nil: "issue_pass k xs = [] \<longleftrightarrow> sorted_wrt (\<lambda>a b. seq_of (snd a) \<le> seq_of (snd b)) xs"
proof -
  have "issue_pass k xs = [] \<longleftrightarrow> successively (\<lambda>a b. seq_of (snd a) \<le> seq_of (snd b)) xs"
    by (induction k xs rule: issue_pass.induct) auto
  also have "\<dots> \<longleftrightarrow> sorted_wrt (\<lambda>a b. seq_of (snd a) \<le> seq_of (snd b)) xs"
    by (rule successively_conv_sorted_wrt) (auto simp: transp_def)
  finally show ?thesis .
qed

lemma issue_le_order: "total_preorder (issue_le e)"
  by (auto simp: total_preorder_def issue_le_def Let_def)

lemma issue_sorted:
  "issue_pass k (js_sort (issue_le e) xs) = [] \<longleftrightarrow>
     (\<forall>a \<in> set xs. \<forall>b \<in> set xs. issued_of e (snd a) < issued_of e (snd b) \<longrightarrow> seq_of (snd a) \<le> seq_of (snd b))"
proof -
  let ?s = "js_sort (issue_le e) xs"
  have le: "i < j \<Longrightarrow> j < length ?s \<Longrightarrow> issue_le e (?s ! i) (?s ! j)" for i j
    using jss.sort_ordered [OF issue_le_order, of e xs] by (simp add: sorted_wrt_iff_nth_less)
  have "sorted_wrt (\<lambda>a b. seq_of (snd a) \<le> seq_of (snd b)) ?s \<longleftrightarrow>
      (\<forall>a \<in> set ?s. \<forall>b \<in> set ?s. issued_of e (snd a) < issued_of e (snd b) \<longrightarrow> seq_of (snd a) \<le> seq_of (snd b))"
  proof
    assume s: "sorted_wrt (\<lambda>a b. seq_of (snd a) \<le> seq_of (snd b)) ?s"
    show "\<forall>a \<in> set ?s. \<forall>b \<in> set ?s. issued_of e (snd a) < issued_of e (snd b) \<longrightarrow> seq_of (snd a) \<le> seq_of (snd b)"
    proof (intro ballI impI)
      fix a b assume a: "a \<in> set ?s" and b: "b \<in> set ?s" and lt: "issued_of e (snd a) < issued_of e (snd b)"
      from a b obtain i j where ij: "i < length ?s" "?s ! i = a" "j < length ?s" "?s ! j = b" by (auto simp: in_set_conv_nth)
      have "i < j"
      proof (rule ccontr)
        assume "\<not> i < j"
        then have "j = i \<or> j < i" by linarith
        then show False using le [of j i] ij lt by (auto simp: issue_le_def Let_def)
      qed
      with s ij show "seq_of (snd a) \<le> seq_of (snd b)" by (auto simp: sorted_wrt_iff_nth_less)
    qed
  next
    assume all: "\<forall>a \<in> set ?s. \<forall>b \<in> set ?s. issued_of e (snd a) < issued_of e (snd b) \<longrightarrow> seq_of (snd a) \<le> seq_of (snd b)"
    have "seq_of (snd (?s ! i)) \<le> seq_of (snd (?s ! j))" if "i < j" "j < length ?s" for i j
      using le [OF that] all that by (auto simp: issue_le_def Let_def)
    then show "sorted_wrt (\<lambda>a b. seq_of (snd a) \<le> seq_of (snd b)) ?s" by (simp add: sorted_wrt_iff_nth_less)
  qed
  then show ?thesis by (simp add: issue_pass_Nil jss.sort_set)
qed

lemma highest_None: "highest ok xs = None \<longleftrightarrow> (\<forall>x \<in> set xs. \<not> ok x)"
proof -
  let ?f = "\<lambda>a before. if \<not> ok a then before
        else (case before of None \<Rightarrow> Some a | Some c \<Rightarrow> if seq_of (snd c) < seq_of (snd a) then Some a else before)"
  have "fold ?f xs m = None \<longleftrightarrow> m = None \<and> (\<forall>x \<in> set xs. \<not> ok x)" for m
    by (induction xs arbitrary: m) (auto split: option.splits)
  then show ?thesis by (simp add: highest_def)
qed

lemma map_filter_Nil: "List.map_filter f xs = [] \<longleftrightarrow> (\<forall>x \<in> set xs. f x = None)"
  by (induction xs) (auto simp: map_filter_simps split: option.splits)

lemma own_pass_Nil:
  "own_pass k [] xs = [] \<longleftrightarrow> (\<forall>b \<in> set xs. own_judged b \<longrightarrow> (\<forall>a \<in> set xs. \<not> own_before b a))"
  unfolding own_pass_def map_filter_Nil by (simp add: highest_None)

lemma received_one:
  "(case highest (\<lambda>a. seq_of (snd b) < seq_of (snd a) \<and> \<not> may_be_out_together (snd a) (snd b)) xs of
      None \<Rightarrow> [] | Some a \<Rightarrow> [(fst b, Back_in_received_order k (snd a) (snd b))]) = [] \<longleftrightarrow>
     (\<forall>a \<in> set xs. may_be_out_together (snd a) (snd b) \<or> seq_of (snd a) \<le> seq_of (snd b))"
proof -
  have "(case h of None \<Rightarrow> [] | Some a \<Rightarrow> [(fst b, Back_in_received_order k (snd a) (snd b))]) = [] \<longleftrightarrow> h = None" for h :: "placed option"
    by (simp split: option.split)
  then show ?thesis by (auto simp: highest_None not_less)
qed

lemma received_pass_Nil:
  "received_pass k [] earlier later = [] \<longleftrightarrow>
     (\<forall>b \<in> set later. \<forall>a \<in> set earlier. may_be_out_together (snd a) (snd b) \<or> seq_of (snd a) \<le> seq_of (snd b)) \<and>
     sorted_wrt (\<lambda>a b. may_be_out_together (snd a) (snd b) \<or> seq_of (snd a) \<le> seq_of (snd b)) later"
proof (induction later arbitrary: earlier)
  case (Cons b later)
  have "received_pass k [] earlier (b # later) = [] \<longleftrightarrow>
      (\<forall>a \<in> set earlier. may_be_out_together (snd a) (snd b) \<or> seq_of (snd a) \<le> seq_of (snd b)) \<and> received_pass k [] (earlier @ [b]) later = []"
    using received_one [where b = b and xs = earlier and k = k] by simp
  then show ?case unfolding Cons.IH by auto
qed simp

definition same_ends :: "placed list \<Rightarrow> bool" where
  "same_ends xs \<longleftrightarrow> (\<forall>x \<in> set xs. \<forall>y \<in> set xs. \<forall>n d d'. seg_of (snd x) = Some (n, d) \<longrightarrow> seg_of (snd y) = Some (n, d') \<longrightarrow> d = d')"

lemma same_ends_Cons:
  "same_ends (s # rest) \<longleftrightarrow>
     (\<forall>x \<in> set rest. \<forall>n d d'. seg_of (snd s) = Some (n, d) \<longrightarrow> seg_of (snd x) = Some (n, d') \<longrightarrow> d' = d) \<and> same_ends rest"
proof
  assume "same_ends (s # rest)"
  then show "(\<forall>x \<in> set rest. \<forall>n d d'. seg_of (snd s) = Some (n, d) \<longrightarrow> seg_of (snd x) = Some (n, d') \<longrightarrow> d' = d) \<and> same_ends rest"
    unfolding same_ends_def by (meson list.set_intros)
next
  assume r: "(\<forall>x \<in> set rest. \<forall>n d d'. seg_of (snd s) = Some (n, d) \<longrightarrow> seg_of (snd x) = Some (n, d') \<longrightarrow> d' = d) \<and> same_ends rest"
  show "same_ends (s # rest)" unfolding same_ends_def
  proof (intro ballI allI impI)
    fix x y n d d' assume a: "x \<in> set (s # rest)" "y \<in> set (s # rest)" "seg_of (snd x) = Some (n, d)" "seg_of (snd y) = Some (n, d')"
    show "d = d'"
    proof (cases "x = s")
      case True
      then show ?thesis using r a by (cases "y = s") auto
    next
      case False
      then have "x \<in> set rest" using a(1) by simp
      then show ?thesis using r a unfolding same_ends_def by (cases "y = s") (metis, metis set_ConsD)
    qed
  qed
qed

text \<open>The heads that agree with the ends seen so far.\<close>

definition fit_ends :: "(int \<times> jsval \<times> bool) list \<Rightarrow> placed list \<Rightarrow> bool" where
  "fit_ends ends xs \<longleftrightarrow> (\<forall>x \<in> set xs. \<forall>n d p. seg_of (snd x) = Some (n, d) \<longrightarrow> map_of ends n = Some p \<longrightarrow> d = fst p)"

lemma fit_ends_add:
  assumes "map_of ends n = None"
  shows "fit_ends ((n, d, b) # ends) xs \<longleftrightarrow> fit_ends ends xs \<and> (\<forall>x \<in> set xs. \<forall>d'. seg_of (snd x) = Some (n, d') \<longrightarrow> d' = d)"
proof -
  have "(\<forall>m c p. t = Some (m, c) \<longrightarrow> map_of ((n, d, b) # ends) m = Some p \<longrightarrow> c = fst p) \<longleftrightarrow>
      (\<forall>m c p. t = Some (m, c) \<longrightarrow> map_of ends m = Some p \<longrightarrow> c = fst p) \<and> (\<forall>d'. t = Some (n, d') \<longrightarrow> d' = d)" for t
  proof (cases t)
    case (Some mc)
    obtain m c where "mc = (m, c)" by (cases mc)
    with Some assms show ?thesis by (cases "m = n") auto
  qed simp
  then show ?thesis by (auto simp: fit_ends_def)
qed

lemma ends_pass_Nil: "ends_pass k ends xs = [] \<longleftrightarrow> fit_ends ends xs \<and> same_ends xs"
proof (induction xs arbitrary: ends)
  case (Cons s rest)
  show ?case
  proof (cases "seg_of (snd s)")
    case None
    then have "ends_pass k ends (s # rest) = ends_pass k ends rest" by simp
    then show ?thesis using None by (simp add: Cons.IH same_ends_Cons fit_ends_def)
  next
    case (Some nd)
    obtain n d where nd: "seg_of (snd s) = Some (n, d)" using Some by (cases nd) auto
    show ?thesis
    proof (cases "map_of ends n")
      case None
      have "ends_pass k ends (s # rest) = ends_pass k ((n, d, so_kept (snd s)) # ends) rest" using nd None by simp
      moreover have "fit_ends ends (s # rest) \<longleftrightarrow> fit_ends ends rest" using nd None by (simp add: fit_ends_def)
      ultimately show ?thesis by (auto simp: Cons.IH fit_ends_add [OF None] same_ends_Cons nd)
    next
      case (Some p)
      have e: "ends_pass k ends (s # rest) = [] \<longleftrightarrow> d = fst p \<and> ends_pass k ends rest = []" using nd Some by auto
      have f: "fit_ends ends (s # rest) \<longleftrightarrow> d = fst p \<and> fit_ends ends rest" using nd Some by (cases p) (auto simp: fit_ends_def)
      have "fit_ends ends rest \<Longrightarrow> x \<in> set rest \<Longrightarrow> seg_of (snd x) = Some (n, d') \<Longrightarrow> d' = fst p" for x d'
        using Some by (cases p) (auto simp: fit_ends_def)
      then show ?thesis unfolding e f Cons.IH same_ends_Cons nd by auto
    qed
  qed
qed (simp add: same_ends_def fit_ends_def)

text \<open>The places are the heads in their order.\<close>

lemma placed_all: "(\<forall>x \<in> set (enumerate n xs). P (snd x)) \<longleftrightarrow> (\<forall>x \<in> set xs. P x)"
  by (metis (no_types, lifting) imageE image_eqI map_snd_enumerate set_map)

lemma placed_sorted:
  "sorted_wrt (\<lambda>a b. R (snd a) (snd b)) (filter (\<lambda>x. P (snd x)) (enumerate n xs)) \<longleftrightarrow> sorted_wrt R (filter P xs)"
proof -
  have "map snd (filter (\<lambda>x. P (snd x)) (enumerate n xs)) = filter P xs"
    using filter_map [of P snd "enumerate n xs"] by (simp add: o_def)
  then show ?thesis using sorted_wrt_map [of R snd "filter (\<lambda>x. P (snd x)) (enumerate n xs)"] by simp
qed

subsection \<open>The chains\<close>

lemma own_condition: "own_judged b \<and> own_before b a \<longleftrightarrow> own_judged b \<and> held_before (snd a) (snd b) \<and> seq_of (snd b) < seq_of (snd a)"
  by (auto simp: own_judged_def own_before_def held_before_def olt_def split: option.splits)

lemma held_judged: "held_before (snd a) (snd b) \<Longrightarrow> own_judged b"
  by (auto simp: own_judged_def held_before_def)

lemma own_pass_agrees:
  "own_pass k [] (enumerate 0 list) = [] \<longleftrightarrow> (\<forall>a \<in> set list. \<forall>b \<in> set list. held_before a b \<longrightarrow> seq_of a \<le> seq_of b)"
proof -
  have "own_pass k [] (enumerate 0 list) = [] \<longleftrightarrow>
      (\<forall>b \<in> set (enumerate 0 list). \<forall>a \<in> set (enumerate 0 list). held_before (snd a) (snd b) \<longrightarrow> seq_of (snd a) \<le> seq_of (snd b))"
    unfolding own_pass_Nil using own_condition held_judged by (meson not_less)
  also have "\<dots> \<longleftrightarrow> (\<forall>b \<in> set list. \<forall>a \<in> set list. held_before a b \<longrightarrow> seq_of a \<le> seq_of b)"
    unfolding placed_all [of _ _ "\<lambda>a. held_before a (snd b) \<longrightarrow> seq_of a \<le> seq_of (snd b)" for b]
    by (rule placed_all [of _ _ "\<lambda>b. \<forall>a \<in> set list. held_before a b \<longrightarrow> seq_of a \<le> seq_of b"])
  finally show ?thesis by blast
qed

lemma issue_pass_agrees:
  "issue_pass k (js_sort (issue_le e) (enumerate 0 list)) = [] \<longleftrightarrow>
     (\<forall>a \<in> set list. \<forall>b \<in> set list. issued_of e a < issued_of e b \<longrightarrow> seq_of a \<le> seq_of b)"
  unfolding issue_sorted
  unfolding placed_all [of _ _ "\<lambda>b. issued_of e (snd a) < issued_of e b \<longrightarrow> seq_of (snd a) \<le> seq_of b" for a]
  by (rule placed_all [of _ _ "\<lambda>a. \<forall>b \<in> set list. issued_of e a < issued_of e b \<longrightarrow> seq_of a \<le> seq_of b"])

lemma same_ends_agrees:
  "same_ends (js_sort (issue_le e) (enumerate 0 list)) \<longleftrightarrow>
     (\<forall>a \<in> set list. \<forall>b \<in> set list. \<forall>n d d'. seg_of a = Some (n, d) \<longrightarrow> seg_of b = Some (n, d') \<longrightarrow> d = d')"
  unfolding same_ends_def jss.sort_set
  unfolding placed_all [of _ _ "\<lambda>b. \<forall>n d d'. seg_of (snd a) = Some (n, d) \<longrightarrow> seg_of b = Some (n, d') \<longrightarrow> d = d'" for a]
  by (rule placed_all [of _ _ "\<lambda>a. \<forall>b \<in> set list. \<forall>n d d'. seg_of a = Some (n, d) \<longrightarrow> seg_of b = Some (n, d') \<longrightarrow> d = d'"])

lemma chain_problems_Nil: "chain_problems e k list = [] \<longleftrightarrow> chain_agrees e list"
proof -
  let ?p = "enumerate 0 list" and ?o = "js_sort (issue_le e) (enumerate 0 list)"
  let ?r = "filter (\<lambda>x. so_kept (snd x)) ?p"
  have "chain_problems e k list = [] \<longleftrightarrow>
      issue_pass k ?o = [] \<and> own_pass k [] ?p = [] \<and> received_pass k [] [] ?r = [] \<and> ends_pass k [] ?o = []"
    by (auto simp: chain_problems_def Let_def)
  also have "\<dots> \<longleftrightarrow> chain_agrees e list"
    unfolding own_pass_agrees issue_pass_agrees ends_pass_Nil same_ends_agrees received_pass_Nil chain_agrees_def
    using placed_sorted [of "\<lambda>a b. may_be_out_together a b \<or> seq_of a \<le> seq_of b" so_kept 0 list]
    by (simp add: fit_ends_def)
  finally show ?thesis .
qed

definition sources_of :: "env \<Rightarrow> jsstr \<Rightarrow> jsval list \<Rightarrow> jsval list \<Rightarrow> sourced list" where
  "sources_of e k kept published =
     (let mine = filter (\<lambda>h. is_signed_chain_head e h \<and> chain_name h = k) in
      map (kept_source e) (mine kept) @ (if mine kept = [] then [] else map published_source (mine published)))"

lemma fold_sources:
  "map_of (fold (\<lambda>h. add_source (f h) (g h)) hs m) k =
     (if filter (\<lambda>h. f h = k) hs = [] then map_of m k
      else Some ((case map_of m k of None \<Rightarrow> [] | Some xs \<Rightarrow> xs) @ map g (filter (\<lambda>h. f h = k) hs)))"
  by (induction hs arbitrary: m) (auto simp: add_source_def map_of_omap_set split: option.splits)

lemma fold_sources_distinct:
  "distinct (map fst m) \<Longrightarrow> distinct (map fst (fold (\<lambda>h. add_source (f h) (g h)) hs m))"
  by (induction hs arbitrary: m) (auto simp: add_source_def om.distinct_set)

lemma all_sources:
  assumes "distinct (map fst m)"
  shows "(\<forall>(k, l) \<in> set m. P l) \<longleftrightarrow> (\<forall>k l. map_of m k = Some l \<longrightarrow> P l)"
  using map_of_eq_Some_iff [OF assms] by fastforce

lemma compared_chain:
  "map_of (fold (\<lambda>h. add_source (chain_name h) (published_source h))
       (filter (\<lambda>h. is_signed_chain_head e h \<and> map_of (kept_chains e kept) (chain_name h) \<noteq> None) published) (kept_chains e kept)) k =
     (if sources_of e k kept published = [] then None else Some (sources_of e k kept published))"
proof -
  let ?mine = "filter (\<lambda>h. is_signed_chain_head e h \<and> chain_name h = k)"
  have kept: "map_of (kept_chains e kept) k = (if ?mine kept = [] then None else Some (map (kept_source e) (?mine kept)))"
    by (simp add: kept_chains_def fold_sources filter_filter conj_commute)
  have pub: "filter (\<lambda>h. chain_name h = k) (filter (\<lambda>h. is_signed_chain_head e h \<and> map_of (kept_chains e kept) (chain_name h) \<noteq> None) published) =
      (if ?mine kept = [] then [] else ?mine published)"
    using kept by (auto simp: filter_filter filter_empty_conv intro!: filter_cong)
  show ?thesis unfolding fold_sources pub kept
    by (simp add: sources_of_def Let_def)
qed

lemma heads_agree_lemma:
  "hc_ok (compare_heads e kept published) \<longleftrightarrow>
     (\<forall>h \<in> set kept. is_signed_chain_head e h) \<and> (\<forall>k. chain_agrees e (sources_of e k kept published))"
proof -
  let ?all = "fold (\<lambda>h. add_source (chain_name h) (published_source h))
       (filter (\<lambda>h. is_signed_chain_head e h \<and> map_of (kept_chains e kept) (chain_name h) \<noteq> None) published) (kept_chains e kept)"
  have d: "distinct (map fst ?all)" unfolding kept_chains_def by (intro fold_sources_distinct) simp
  have "hc_ok (compare_heads e kept published) \<longleftrightarrow> (\<forall>h \<in> set kept. is_signed_chain_head e h) \<and> (\<forall>(k, l) \<in> set ?all. chain_agrees e l)"
    by (auto simp: hc_ok_def compare_heads_def Let_def filter_empty_conv chain_problems_Nil)
  also have "(\<forall>(k, l) \<in> set ?all. chain_agrees e l) \<longleftrightarrow> (\<forall>k. chain_agrees e (sources_of e k kept published))"
  proof -
    have "chain_agrees e []" by (simp add: chain_agrees_def)
    then have "(sources_of e k kept published \<noteq> [] \<longrightarrow> chain_agrees e (sources_of e k kept published)) \<longleftrightarrow>
        chain_agrees e (sources_of e k kept published)" for k by (cases "sources_of e k kept published = []") simp_all
    then show ?thesis unfolding all_sources [OF d] compared_chain by simp
  qed
  finally show ?thesis .
qed

text \<open>C30: heads agree exactly when, chain by chain, no pair of them disagrees. The comparison passes exactly when every kept head is well
  formed and, for every chain, of any two of its heads (kept ones, and published ones of chains the computer keeps): the one issued
  later does not have the lower sequence number; nor does a kept head whose delivery was sent when the other was already held, on one
  clock; nor does a kept head received later, unless the two may have been out together; and no two of them end different
  segments at one sequence number.\<close>

theorem heads_agree_correct:
  "hc_ok (compare_heads e kept published) \<longleftrightarrow>
     list_all (is_signed_chain_head e) kept \<and> (\<forall>k. chain_agrees e (sources_of e k kept published))"
  unfolding list_all_iff by (rule heads_agree_lemma)

text \<open>A workspace that goes back is caught. Once a head of a chain is held, a well-formed head of that chain with a lower sequence number that
  answers a delivery sent later by the same clock makes the comparison fail, whatever the workspace stamps on either.\<close>

theorem rollback_detected:
  assumes "a \<in> set kept" "b \<in> set kept" "chain_name a = chain_name b"
    and "held_before (kept_source e a) (kept_source e b)" "seq_of (kept_source e b) < seq_of (kept_source e a)"
  shows "\<not> hc_ok (compare_heads e kept published)"
proof
  assume "hc_ok (compare_heads e kept published)"
  then have wf: "\<forall>h \<in> set kept. is_signed_chain_head e h" and agree: "\<And>k. chain_agrees e (sources_of e k kept published)"
    using heads_agree_lemma by blast+
  have "kept_source e a \<in> set (sources_of e (chain_name a) kept published)" "kept_source e b \<in> set (sources_of e (chain_name a) kept published)"
    using assms(1-3) wf by (auto simp: sources_of_def Let_def)
  with agree [of "chain_name a"] assms(4,5) show False unfolding chain_agrees_def by force
qed

subsection \<open>Published lists\<close>

lemma listed_Nil:
  "listed_problems e date i seen hs = [] \<longleftrightarrow>
     list_all (is_signed_chain_head e) hs \<and> distinct (map head_id hs) \<and> set (map head_id hs) \<inter> set seen = {} \<and>
     list_all (\<lambda>h. issued_day h = date) hs"
  by (induction e date i seen hs rule: listed_problems.induct) auto

text \<open>What the check of a signed list establishes of it.\<close>

definition sound_list :: "env \<Rightarrow> webcrypto \<Rightarrow> jsval \<Rightarrow> jsstr \<Rightarrow> jsstr \<Rightarrow> bool" where
  "sound_list e w v kid spki \<longleftrightarrow>
     (let heads = elems (fld v (js ''heads'')); key = fld v (js ''key'') in
      fld key (js ''kid'') = VStr kid \<and> fld key (js ''public_key_spki'') = VStr spki \<and> segment_key_id e spki = kid \<and>
      (\<exists>t. list_signing_input v = Inr t \<and> ed25519_verify w spki t (sig_text (fld v (js ''signature'')))) \<and>
      list_all (is_signed_chain_head e) heads \<and> distinct (map head_id heads) \<and> list_all (\<lambda>h. issued_day h = fld v (js ''date'')) heads \<and>
      list_all (\<lambda>h. fld h (js ''signed'') = VBool True \<longrightarrow> verify_chain_head_signature e w h key) heads)"

text \<open>A signed list that passes is what its publisher signed. The list's own signature verifies over its canonical body under the key it
  publishes, whose id is derived from the key; every head is well formed and issued on the list's day, no chain is listed twice, and every
  signed head verifies under that key.\<close>

theorem published_list_sound:
  assumes "lk_valid (check_anchor_list e w v)" "lk_signed (check_anchor_list e w v)"
  shows "\<exists>kid spki. lk_kid (check_anchor_list e w v) = Some kid \<and> sound_list e w v kid spki"
proof -
  let ?heads = "elems (fld v (js ''heads''))" and ?key = "fld v (js ''key'')" and ?sg = "fld v (js ''signature'')"
  from assms obtain kid spki where k: "fld ?key (js ''kid'') = VStr kid" "fld ?key (js ''public_key_spki'') = VStr spki" "segment_key_id e spki = kid"
      "lk_kid (check_anchor_list e w v) = Some kid"
    and l: "listed_problems e (fld v (js ''date'')) 0 [] ?heads = []"
    and s: "case list_signing_input v of Inl _ \<Rightarrow> False | Inr t \<Rightarrow> ed25519_verify w spki t (sig_text ?sg)"
    and h: "\<forall>x \<in> set ?heads. signed_head_problems e w ?key x = []"
    unfolding check_anchor_list_def lk_valid_def Let_def
    by (auto split: if_splits jsval.splits)
  have "fld x (js ''signed'') = VBool True \<longrightarrow> verify_chain_head_signature e w x ?key" if "x \<in> set ?heads" for x
    using h that l by (auto simp: signed_head_problems_def listed_Nil list_all_iff Let_def split: if_splits)
  with k l s show ?thesis by (auto simp: sound_list_def listed_Nil list_all_iff Let_def split: sum.splits)
qed

end
