(* ===== verification/AnchoringProps.thy ===== *)
theory AnchoringProps
  imports Anchoring AnchorProps GatewayProps NumFacts
begin

section \<open>What the gateway's anchors and proofs promise\<close>

text \<open>
  Whatever else happens to the store, anchors taken one at a time keep its log verifiable and in step with the receipts; two overlapping ones
  do not. The proof routes answer from a cache that is always a prefix of the log's leaves, so the proof they give verifies.
\<close>

subsection \<open>One anchor\<close>

text \<open>The keys fit: signatures of the attester verify with the key whose id the attester carries.\<close>

definition signs_for :: "env \<Rightarrow> webcrypto \<Rightarrow> jsval \<Rightarrow> attester \<Rightarrow> bool" where
  "signs_for e w jwk att \<longleftrightarrow>
     truthy jwk \<and> fld jwk (js ''kty'') = VStr (js ''OKP'') \<and> fld jwk (js ''crv'') = VStr (js ''Ed25519'') \<and>
     anchor_kid e jwk = Inr (at_kid att) \<and>
     (\<exists>x k. fld jwk (js ''x'') = VStr x \<and> wc_jwk w x = Inr k \<and>
        (\<forall>t sig. at_sign att t = Inr sig \<longrightarrow> (\<exists>b. atob sig = Inr b \<and> wc_verify w k b (utf8 t) = Inr True)))"

definition next_number :: "jsval option \<Rightarrow> jnum" where
  "next_number prev = (case prev of None \<Rightarrow> jint 1 | Some p \<Rightarrow> (case fld p (js ''seq'') of VNum n \<Rightarrow> jadd n (jint 1) | _ \<Rightarrow> jint 1))"

definition last_of :: "'a list \<Rightarrow> 'a option" where
  "last_of xs = (if xs = [] then None else Some (last xs))"

lemma make_anchor_parts:
  assumes "make_anchor e att ts ps prior = Inr a"
  obtains ls rt t sig where "rmap (receipt_leaf_hash (sha256 e)) ps = Inr ls" "merkle_tree_hash (sha256 e) (VArr (map VStr ls)) = Inr rt"
    "canonical (VObj (new_anchor_body (last_of prior) (length ls) rt ts (at_kid att))) = Inr t" "at_sign att t = Inr sig"
    "a = VObj (new_anchor_body (last_of prior) (length ls) rt ts (at_kid att) @
       [(js ''anchor_hash'', VStr (text_hash e t)), (js ''signature'', VObj [(js ''alg'', VStr (js ''Ed25519'')), (js ''sig'', VStr sig)])])"
    "prior \<noteq> [] \<longrightarrow> log_matches e (last prior) ps"
  using assms that unfolding make_anchor_def last_of_def
  by (auto simp: rbind_Inr_iff Let_def split: if_splits)

lemma new_anchor_flds:
  assumes "a = VObj (new_anchor_body prev n rt ts kid @ [(js ''anchor_hash'', h), (js ''signature'', sg)])"
  shows "fld a (js ''type'') = VStr (js ''scopebond:anchor'')" "fld a (js ''seq'') = VNum (next_number prev)" "fld a (js ''algo'') = algo_v2"
    "fld a (js ''tree_size'') = VNum (jint (int n))" "fld a (js ''root'') = VStr rt"
    "fld a (js ''prev_anchor_hash'') = (case prev of None \<Rightarrow> VNull | Some p \<Rightarrow> if nullish (fld p (js ''anchor_hash'')) then VNull else fld p (js ''anchor_hash''))"
    "fld (fld a (js ''attester'')) (js ''kid'') = VStr kid" "fld a (js ''anchor_hash'') = h" "fld a (js ''signature'') = sg"
    "is_anchor_v2 a" "objectish a" "anchor_body a = VObj (new_anchor_body prev n rt ts kid)"
proof -
  show v: "is_anchor_v2 a" "objectish a" unfolding assms is_anchor_v2_def
    by (simp_all add: new_anchor_body_def objectish_def js_simps)
  show "anchor_body a = VObj (new_anchor_body prev n rt ts kid)"
    unfolding anchor_body_def using v(1) unfolding assms by (simp add: new_anchor_body_def members_def js_def)
qed (simp_all add: assms new_anchor_body_def next_number_def js_simps split: option.splits)

lemma tree_root_hex:
  assumes "digest_size sha" "rmap (receipt_leaf_hash sha) ps = Inr ls" "merkle_tree_hash sha (VArr (map VStr ls)) = Inr rt"
  shows "is_hex64 rt"
proof -
  have h: "list_all is_hex32 (map VStr ls)" by (rule receipt_leaves(2) [OF assms(1,2)])
  then have "\<forall>b \<in> set (map str_bytes (map VStr ls)). is_bytes 32 b" by (auto simp: list_all_iff str_bytes_length)
  from mth_is_bytes [OF assms(1) this] have "is_bytes 32 (mth sha (map str_bytes (map VStr ls)) 0 (length ls))" by simp
  with assms(3) h show ?thesis by (auto simp: merkle_tree_hash_def leaf_bytes_ok rbind_Inr_iff to_hex_is_hex64)
qed

lemma made_anchor:
  assumes made: "make_anchor e att ts ps prior = Inr a" and sha: "digest_size (sha256 e)" and keys: "signs_for e w jwk att"
    and n: "int (length ps) \<le> max_safe" and seq: "next_number (last_of prior) = jint (int m)" "int m \<le> max_safe"
  shows "is_anchor_v2 a" "anchor_sound e w jwk a" "fld a (js ''seq'') = VNum (jint (int m))" "fld a (js ''tree_size'') = VNum (jint (int (length ps)))"
    "verify_anchor_root e a ps"
    "fld a (js ''prev_anchor_hash'') = (case last_of prior of None \<Rightarrow> VNull | Some p \<Rightarrow> if nullish (fld p (js ''anchor_hash'')) then VNull else fld p (js ''anchor_hash''))"
    "prior \<noteq> [] \<longrightarrow> log_matches e (last prior) ps"
proof -
  from make_anchor_parts [OF made] obtain ls rt t sig where a: "rmap (receipt_leaf_hash (sha256 e)) ps = Inr ls"
    "merkle_tree_hash (sha256 e) (VArr (map VStr ls)) = Inr rt"
    "canonical (VObj (new_anchor_body (last_of prior) (length ls) rt ts (at_kid att))) = Inr t" "at_sign att t = Inr sig"
    "a = VObj (new_anchor_body (last_of prior) (length ls) rt ts (at_kid att) @
       [(js ''anchor_hash'', VStr (text_hash e t)), (js ''signature'', VObj [(js ''alg'', VStr (js ''Ed25519'')), (js ''sig'', VStr sig)])])"
    "prior \<noteq> [] \<longrightarrow> log_matches e (last prior) ps" by blast
  note f = new_anchor_flds [OF a(5)]
  have len: "length ls = length ps" by (rule receipt_leaves(1) [OF sha a(1)])
  show "is_anchor_v2 a" by (rule f(10))
  show "fld a (js ''seq'') = VNum (jint (int m))" using f(2) seq by simp
  show size: "fld a (js ''tree_size'') = VNum (jint (int (length ps)))" using f(4) len by simp
  show "fld a (js ''prev_anchor_hash'') = (case last_of prior of None \<Rightarrow> VNull | Some p \<Rightarrow> if nullish (fld p (js ''anchor_hash'')) then VNull else fld p (js ''anchor_hash''))"
    by (rule f(6))
  show "prior \<noteq> [] \<longrightarrow> log_matches e (last prior) ps" by (rule a(6))
  show "verify_anchor_root e a ps"
    using a(1,2) f(3,5,10) size by (simp add: verify_anchor_root_def anchor_root_def rbind_Inr_iff)
  have s: "is_size (VNum (jint (int (length ps))))" "is_size (VNum (jint (int m)))"
    using size_ok [of "length ps"] size_ok [of m] n seq(2) by simp_all
  obtain x k where k: "fld jwk (js ''x'') = VStr x" "wc_jwk w x = Inr k"
    "\<And>t sig. at_sign att t = Inr sig \<Longrightarrow> \<exists>b. atob sig = Inr b \<and> wc_verify w k b (utf8 t) = Inr True"
    using keys unfolding signs_for_def by blast
  obtain b where b: "atob sig = Inr b" "wc_verify w k b (utf8 t) = Inr True" using k(3) [OF a(4)] by blast
  have "anchor_signature e w a jwk = Inr True"
    using keys k(1,2) b f(7,8,9,12) a(3) by (simp add: anchor_signature_def signs_for_def text_hash_def sig_text_def js_simps)
  then have v: "verify_anchor_signature e w a jwk"
    using keys f size s(1) k(1) tree_root_hex [OF sha a(1,2)]
    by (simp add: verify_anchor_signature_def signs_for_def is_str_def js_simps Let_def)
  show "anchor_sound e w jwk a"
    using v keys f s(2) seq a(3) by (simp add: anchor_sound_def anchor_hash_def signs_for_def text_hash_def sha256_hex_def)
qed

subsection \<open>Every anchor log the gateway builds verifies\<close>

text \<open>The store with its anchors made one at a time: any use of the store that adds no anchor, or an anchoring that nothing interrupts.\<close>

datatype anchor_event = Use store_event | Anchor_at jsstr

inductive anchor_world :: "env \<Rightarrow> attester \<Rightarrow> receipt_store \<Rightarrow> anchor_event \<Rightarrow> receipt_store \<Rightarrow> bool" for e att where
  world_use: "store_step s ev s' \<Longrightarrow> \<forall>a. ev \<noteq> Anchored a \<Longrightarrow> anchor_world e att s (Use ev) s'"
| world_anchor: "take_anchor e att ts s = (Anchoring_done a, s') \<Longrightarrow> anchor_world e att s (Anchor_at ts) s'"

lemma take_anchor_done:
  assumes "take_anchor e att ts s = (Anchoring_done a, s')"
  shows "make_anchor e att ts (payloads_of s) (anchors_of s) = Inr a" "s' = put_anchor a s"
  using assms by (auto simp: take_anchor_def numeral_eq_Suc split: sum.splits)

lemma store_grows: "store_step s ev s' \<Longrightarrow> \<exists>xs. rs_all s' = rs_all s @ xs"
proof (induction rule: store_step.induct)
  case (step_reserve q decide scope s d s')
  show ?case unfolding reserve_done(4) [OF step_reserve(1)] by simp
next
  case (step_dispatch k r adapter s s')
  then show ?case by (elim prepare_done) simp
next
  case (step_finish k r st s s')
  then show ?case by (elim finalize_done) simp
qed (simp_all add: store_frames)

lemma store_anchors: "store_step s ev s' \<Longrightarrow> \<forall>a. ev \<noteq> Anchored a \<Longrightarrow> rs_anchors s' = rs_anchors s"
proof (induction rule: store_step.induct)
  case (step_reserve q decide scope s d s')
  show ?case unfolding reserve_done(4) [OF step_reserve(1)] by simp
next
  case (step_dispatch k r adapter s s')
  from step_dispatch(1) show ?case by (elim prepare_done) simp
next
  case (step_finish k r st s s')
  from step_finish(1) show ?case by (elim finalize_done) simp
qed (simp_all add: store_frames)

text \<open>The invariant: the log is accepted, its anchors are numbered from one, and each still matches its part of the log.\<close>

definition anchored_part :: "env \<Rightarrow> receipt_store \<Rightarrow> jsval \<Rightarrow> bool" where
  "anchored_part e s a \<longleftrightarrow>
     (\<exists>n. n \<le> length (rs_all s) \<and> fld a (js ''tree_size'') = VNum (jint (int n)) \<and> verify_anchor_root e a (take n (payloads_of s)))"

definition anchors_ok :: "env \<Rightarrow> webcrypto \<Rightarrow> jsval \<Rightarrow> receipt_store \<Rightarrow> bool" where
  "anchors_ok e w jwk s \<longleftrightarrow>
     accepted_log e w jwk (rs_anchors s) \<and> (\<forall>a \<in> set (rs_anchors s). is_anchor_v2 a \<and> anchored_part e s a) \<and>
     (\<forall>i < length (rs_anchors s). fld (rs_anchors s ! i) (js ''seq'') = VNum (jint (int (i + 1))))"

definition in_bounds :: "receipt_store \<Rightarrow> bool" where
  "in_bounds s \<longleftrightarrow> int (length (rs_all s)) \<le> max_safe \<and> int (length (rs_anchors s)) \<le> max_safe"

lemma part_kept:
  assumes "anchored_part e s a" "rs_all s' = rs_all s @ xs"
  shows "anchored_part e s' a"
proof -
  from assms(1) obtain n where n: "n \<le> length (rs_all s)" "fld a (js ''tree_size'') = VNum (jint (int n))" "verify_anchor_root e a (take n (payloads_of s))"
    unfolding anchored_part_def by blast
  then have "take n (payloads_of s') = take n (payloads_of s)" by (simp add: payloads_of_def assms(2))
  with n show ?thesis unfolding anchored_part_def using assms(2) by auto
qed

lemma accepted_add:
  assumes "accepted_log e w jwk as" "anchor_sound e w jwk a" "as \<noteq> [] \<Longrightarrow> anchor_follows (last as) a" "as = [] \<Longrightarrow> anchor_starts a"
  shows "accepted_log e w jwk (as @ [a])"
  using assms by (cases "as = []") (auto simp: accepted_log_iff successively_append_iff)

lemma last_seq:
  assumes "\<forall>i < length as. fld (as ! i) (js ''seq'') = VNum (jint (int (i + 1)))" "int (length as) < max_safe"
  shows "next_number (last_of as) = jint (int (length as + 1))"
proof (cases "as = []")
  case False
  then have "fld (last as) (js ''seq'') = VNum (jint (int (length as)))"
    using assms(1) [rule_format, of "length as - 1"] by (simp add: last_conv_nth)
  moreover have "jadd (jint (int (length as))) (jint 1) = jint (int (length as) + 1)"
    by (rule jadd_jint) (use assms(2) in \<open>simp add: max_safe_def\<close>)
  ultimately show ?thesis using False by (simp add: last_of_def next_number_def add.commute)
qed (simp add: last_of_def next_number_def)

lemma anchored_ok:
  assumes ok: "anchors_ok e w jwk s" and sha: "digest_size (sha256 e)" and keys: "signs_for e w jwk att"
    and made: "make_anchor e att ts (payloads_of s) (anchors_of s) = Inr a" and b: "in_bounds (put_anchor a s)"
  shows "anchors_ok e w jwk (put_anchor a s)"
proof -
  let ?as = "rs_anchors s" and ?n = "length (rs_all s)" and ?m = "length (rs_anchors s) + 1"
  have acc: "accepted_log e w jwk ?as" and parts: "\<forall>a \<in> set ?as. is_anchor_v2 a \<and> anchored_part e s a"
    and seqs: "\<forall>i < length ?as. fld (?as ! i) (js ''seq'') = VNum (jint (int (i + 1)))" using ok unfolding anchors_ok_def by auto
  have bounds: "int ?n \<le> max_safe" "int ?m \<le> max_safe" using b by (simp_all add: in_bounds_def put_anchor_def)
  have nxt: "next_number (last_of (anchors_of s)) = jint (int ?m)"
    using last_seq [OF seqs] bounds(2) by (simp add: anchors_of_def)
  have len: "length (payloads_of s) = ?n" by (simp add: payloads_of_def)
  note new = made_anchor [OF made sha keys _ nxt bounds(2), unfolded len, OF bounds(1)]
  have follows: "anchor_follows (last ?as) a" if "?as \<noteq> []"
  proof -
    let ?p = "last ?as"
    have "?p \<in> set ?as" using that by simp
    with parts have p: "is_anchor_v2 ?p" "anchored_part e s ?p" by auto
    then obtain k where k: "k \<le> ?n" "fld ?p (js ''tree_size'') = VNum (jint (int k))" unfolding anchored_part_def by blast
    have sound: "anchor_sound e w jwk ?p" using acc that by (simp add: accepted_log_iff)
    then have hash: "\<not> nullish (fld ?p (js ''anchor_hash''))" by (auto simp: anchor_sound_def nullish_def)
    have "fld ?p (js ''seq'') = VNum (jint (int (length ?as)))"
      using seqs [rule_format, of "length ?as - 1"] that by (simp add: last_conv_nth)
    moreover have "jadd (jint (int (length ?as))) (jint 1) = jint (int (length ?as) + 1)"
      by (rule jadd_jint) (use bounds(2) in \<open>simp add: max_safe_def\<close>)
    ultimately have "next_seq ?p = VNum (jint (int ?m))" by (simp add: next_seq_def add.commute)
    moreover have "\<not> jlt (jint (int ?n)) (jint (int k))" using k(1) by (simp add: jint_def)
    ultimately show ?thesis using new(1,3,4,6) p(1) k(2) that hash
      by (simp add: anchor_follows_def last_of_def anchors_of_def anchor_size_def)
  qed
  have starts: "anchor_starts a" if "?as = []"
    using new(6) that by (simp add: anchor_starts_def last_of_def anchors_of_def)
  have "anchored_part e (put_anchor a s) a"
    unfolding anchored_part_def using new(4,5) len by (auto simp: put_anchor_def payloads_of_def intro!: exI [of _ ?n])
  moreover have "anchored_part e (put_anchor a s) c" if "anchored_part e s c" for c
    using part_kept [OF that, of "put_anchor a s" "[]"] by (simp add: put_anchor_def)
  ultimately show ?thesis
    using accepted_add [OF acc new(2) follows starts] new(1,3) parts seqs
    by (auto simp: anchors_ok_def put_anchor_def nth_append less_Suc_eq)
qed

lemma world_grows: "anchor_world e att s ev s' \<Longrightarrow> in_bounds s' \<Longrightarrow> in_bounds s"
  by (elim anchor_world.cases) (auto simp: in_bounds_def put_anchor_def store_anchors dest!: store_grows take_anchor_done)

lemma world_ok:
  assumes "digest_size (sha256 e)" "signs_for e w jwk att"
  shows "runs (anchor_world e att) new_receipt_store es s \<Longrightarrow> in_bounds s \<Longrightarrow> anchors_ok e w jwk s"
proof (induction rule: runs.induct)
  case runs_Nil
  show ?case by (simp add: anchors_ok_def new_receipt_store_def accepted_log_iff)
next
  case (runs_snoc es s ev s')
  then have ok: "anchors_ok e w jwk s" using world_grows by blast
  from runs_snoc.hyps(2) show ?case
  proof (cases rule: anchor_world.cases)
    case (world_use ev')
    from store_grows [OF world_use(2)] store_anchors [OF world_use(2,3)] ok show ?thesis
      by (auto simp: anchors_ok_def dest: part_kept)
  next
    case (world_anchor ts a)
    from take_anchor_done [OF world_anchor(2)] anchored_ok [OF ok assms, of ts a] runs_snoc.prems show ?thesis by simp
  qed
qed

text \<open>C5: every anchor log the gateway builds verifies. Whatever is appended to the receipt log, reserved, dispatched or stopped in between,
  anchors made one at a time form a log that \<open>verifyAnchorChain\<close> accepts under the attester's key, and the root of each of them
  is the root of the receipts it counts, in the log as it is now.\<close>

theorem anchors_always_verify:
  assumes "runs (anchor_world e att) new_receipt_store es s" "digest_size (sha256 e)" "signs_for e w jwk att"
    "int (length (list_receipts s)) \<le> max_safe" "int (length (anchors_of s)) \<le> max_safe"
  shows "(\<exists>r. verify_anchor_chain e w (VArr (anchors_of s)) jwk = Inr r \<and> cr_valid r) \<and> (\<forall>a \<in> set (anchors_of s). anchored_part e s a)"
  using world_ok [OF assms(2,3,1)] assms(4,5)
  by (simp add: in_bounds_def anchors_ok_def accepted_log_def anchors_of_def list_receipts_def)

text \<open>Two anchorings that overlap break the log for good. When both have read the anchors before either has appended its own, the two
  anchors carry one number, and no log that goes on from them is ever accepted.\<close>

theorem overlapping_anchors_fork:
  assumes "anchor_step e att ts (Reading_anchors ps) s = (Appending a, s)" "anchor_step e att ts' (Reading_anchors ps') s = (Appending b, s)"
  shows "anchors_of (snd (anchor_step e att ts' (Appending b) (snd (anchor_step e att ts (Appending a) s)))) = anchors_of s @ [a, b] \<and>
    (\<nexists>r. verify_anchor_chain e w (VArr (anchors_of s @ [a, b] @ later)) jwk = Inr r \<and> cr_valid r)"
proof -
  have parts: "fld c (js ''seq'') = VNum (next_number (last_of (anchors_of s)))"
    if "make_anchor e att t ps (anchors_of s) = Inr c" for c t ps
    using that by (elim make_anchor_parts) (simp add: new_anchor_flds(2) [OF refl])
  from assms have seq: "fld a (js ''seq'') = VNum (next_number (last_of (anchors_of s)))" "fld b (js ''seq'') = fld a (js ''seq'')"
    by (auto split: sum.splits dest!: parts)
  have "\<not> accepted_log e w jwk (anchors_of s @ [a, b] @ later)"
  proof
    assume "accepted_log e w jwk (anchors_of s @ [a, b] @ later)"
    then have "anchor_sound e w jwk a" "anchor_follows a b" by (auto simp: accepted_log_iff successively_append_iff)
    then have size: "is_size (fld a (js ''seq''))" and nxt: "next_seq a = fld a (js ''seq'')"
      by (simp_all add: anchor_sound_def anchor_follows_def seq(2))
    from size obtain i where i: "fld a (js ''seq'') = VNum (jint i)" "0 \<le> i" "i \<le> max_safe"
      unfolding seq(1) is_size_def is_safe_int_def jint_def by (auto split: jnum.splits)
    then have "jadd (jint i) (jint 1) = jint (i + 1)" by (intro jadd_jint) (simp add: max_safe_def)
    with i nxt show False by (simp add: next_seq_def)
  qed
  then show ?thesis by (simp add: accepted_log_def put_anchor_def anchors_of_def)
qed

subsection \<open>Every proof the gateway serves verifies\<close>

fun first_pos :: "'a \<Rightarrow> 'a list \<Rightarrow> nat option" where
  "first_pos l [] = None"
| "first_pos l (x # xs) = (if x = l then Some 0 else map_option Suc (first_pos l xs))"

lemma first_pos_snoc:
  "first_pos l (xs @ [y]) = (case first_pos l xs of Some i \<Rightarrow> Some i | None \<Rightarrow> if y = l then Some (length xs) else None)"
  by (induction xs) (auto split: option.splits)

lemma first_pos_nth: "i < length xs \<Longrightarrow> \<exists>j. first_pos (xs ! i) xs = Some j \<and> j \<le> i \<and> xs ! j = xs ! i"
proof (induction xs arbitrary: i)
  case (Cons x xs)
  then show ?case by (cases i) fastforce+
qed simp

text \<open>The cache: the leaves of the first receipts, and of each leaf its first position.\<close>

definition index_ok :: "leaf_cache \<Rightarrow> bool" where
  "index_ok c \<longleftrightarrow> (\<forall>l. map_of (lc_index c) l = first_pos l (lc_leaves c))"

definition cache_ok :: "env \<Rightarrow> receipt_store \<Rightarrow> leaf_cache \<Rightarrow> bool" where
  "cache_ok e s c \<longleftrightarrow>
     rmap (receipt_leaf_hash (sha256 e)) (take (length (lc_leaves c)) (payloads_of s)) = Inr (lc_leaves c) \<and> index_ok c"

lemma index_push: "index_ok c \<Longrightarrow> index_ok (push_leaf l c)"
  by (auto simp: index_ok_def push_leaf_def first_pos_snoc map_of_omap_set split: option.splits)

lemma push_all:
  "rmap (receipt_leaf_hash (sha256 e)) ps = Inr ls \<Longrightarrow> index_ok c \<Longrightarrow>
     \<exists>c'. push_leaves e ps c = (None, c') \<and> lc_leaves c' = lc_leaves c @ ls \<and> index_ok c'"
proof (induction ps arbitrary: ls c)
  case (Cons p ps)
  then obtain l ls' where l: "receipt_leaf_hash (sha256 e) p = Inr l" "rmap (receipt_leaf_hash (sha256 e)) ps = Inr ls'" "ls = l # ls'"
    by (auto simp: rbind_Inr_iff)
  from Cons.IH [OF l(2) index_push [OF Cons.prems(2)], of l] obtain c' where
    "push_leaves e ps (push_leaf l c) = (None, c')" "lc_leaves c' = lc_leaves (push_leaf l c) @ ls'" "index_ok c'" by blast
  with l show ?case by (auto simp: push_leaf_def)
qed simp

lemma rmap_take: "rmap f xs = Inr ys \<Longrightarrow> rmap f (take k xs) = Inr (take k ys)"
  by (simp add: rmap_Inr_iff list_all2_takeI)

lemma rmap_drop: "rmap f xs = Inr ys \<Longrightarrow> rmap f (drop k xs) = Inr (drop k ys)"
  by (simp add: rmap_Inr_iff list_all2_dropI)

lemma served_leaves:
  assumes c: "cache_ok e s c" and n: "n \<le> length (payloads_of s)" and ls: "rmap (receipt_leaf_hash (sha256 e)) (take n (payloads_of s)) = Inr ls"
  shows "\<exists>c'. anchored_leaves e n s c = (Inr (Some ls), c') \<and> cache_ok e s c' \<and> take n (lc_leaves c') = ls \<and> n \<le> length (lc_leaves c')"
proof (cases "n \<le> length (lc_leaves c)")
  case True
  have "rmap (receipt_leaf_hash (sha256 e)) (take n (take (length (lc_leaves c)) (payloads_of s))) = Inr (take n (lc_leaves c))"
    using c by (intro rmap_take) (simp add: cache_ok_def)
  then have "ls = take n (lc_leaves c)" using ls True by (simp add: min_def)
  with True c show ?thesis by (subst anchored_leaves.simps) auto
next
  case False
  let ?k = "length (lc_leaves c)"
  have len: "length ls = n" using ls n by (auto simp: rmap_Inr_iff dest: list_all2_lengthD)
  have "rmap (receipt_leaf_hash (sha256 e)) (take ?k (take n (payloads_of s))) = Inr (take ?k ls)" by (rule rmap_take [OF ls])
  then have pre: "take ?k ls = lc_leaves c" using c False by (simp add: cache_ok_def min_def)
  have "index_ok c" using c by (simp add: cache_ok_def)
  from push_all [OF rmap_drop [OF ls] this, of ?k] obtain c' where
    c': "push_leaves e (drop ?k (take n (payloads_of s))) c = (None, c')" "lc_leaves c' = lc_leaves c @ drop ?k ls" "index_ok c'" by blast
  have all: "lc_leaves c' = ls" using c'(2) pre by (metis append_take_drop_id)
  then have ok: "cache_ok e s c'" using ls c'(3) len by (simp add: cache_ok_def)
  have "anchored_leaves e n s c' = (Inr (Some ls), c')" using all len by (subst anchored_leaves.simps) simp
  then have "anchored_leaves e n s c = (Inr (Some ls), c')"
    using False c'(1) all len by (subst anchored_leaves.simps) (simp add: extend_anchored_def)
  with ok all len show ?thesis by auto
qed

text \<open>The cache starts right and stays right while the log grows.\<close>

lemma cache_empty: "cache_ok e s empty_cache"
  by (simp add: cache_ok_def empty_cache_def index_ok_def)

lemma cache_kept:
  assumes "cache_ok e s c" "rs_all s' = rs_all s @ xs"
  shows "cache_ok e s' c"
proof -
  have "length (take (length (lc_leaves c)) (payloads_of s)) = length (lc_leaves c)"
    using assms(1) by (auto simp: cache_ok_def rmap_Inr_iff dest: list_all2_lengthD)
  then have "take (length (lc_leaves c)) (payloads_of s') = take (length (lc_leaves c)) (payloads_of s)"
    by (auto simp: payloads_of_def assms(2))
  with assms(1) show ?thesis by (simp add: cache_ok_def)
qed

lemma proof_doc_verifies:
  assumes "verify_inclusion_proof sha (inclusion_input (VStr l) p rt)"
  shows "verify_inclusion_proof sha (VObj [(js ''algo'', x1), (js ''anchor_seq'', x2), (js ''root'', VStr rt), (js ''leaf_hash'', VStr l),
     (js ''leaf_index'', VNum (jint (int (leaf_index p)))), (js ''tree_size'', VNum (jint (int (tree_size p)))),
     (js ''audit_path'', VArr (map VStr (audit_path p))), (js ''anchor'', x3)])"
  using assms unfolding verify_inclusion_proof_def by (simp add: js_simps inclusion_input_def)

text \<open>C13: every receipt an anchor covers can be proved. For an anchor that matches its part of the log, whatever the cache of leaves holds
  of the log so far, asking for the proof of any covered receipt by its leaf hash is answered with a document that
  \<open>verifyInclusionProof\<close> accepts, for that leaf and the anchor's own root, and the cache stays right.\<close>

theorem served_proof_verifies:
  assumes "digest_size (sha256 e)" "cache_ok e s c" "anchored_part e s a" "is_anchor_v2 a" "int (length (list_receipts s)) \<le> max_safe"
    and "i < size_of (fld a (js ''tree_size''))" "receipt_leaf_hash (sha256 e) (payloads_of s ! i) = Inr l"
  shows "\<exists>doc c'. proof_v2 e a (Some l) intent s c = (Inr (200, doc), c') \<and> verify_inclusion_proof (sha256 e) doc \<and>
    fld doc (js ''leaf_hash'') = VStr l \<and> fld doc (js ''root'') = fld a (js ''root'') \<and> cache_ok e s c'"
proof -
  from assms(3) obtain n where n: "n \<le> length (payloads_of s)" "fld a (js ''tree_size'') = VNum (jint (int n))" "verify_anchor_root e a (take n (payloads_of s))"
    by (auto simp: anchored_part_def payloads_of_def)
  have size: "size_of (fld a (js ''tree_size'')) = n" by (simp add: n(2) size_of_def)
  from n(3) assms(4) obtain ls rt where ls: "rmap (receipt_leaf_hash (sha256 e)) (take n (payloads_of s)) = Inr ls"
    and rt: "merkle_tree_hash (sha256 e) (VArr (map VStr ls)) = Inr rt" "fld a (js ''root'') = VStr rt"
    by (auto simp: verify_anchor_root_def anchor_root_def is_anchor_v2_def rbind_Inr_iff Let_def split: sum.splits)
  note leaves = receipt_leaves [OF assms(1) ls]
  have len: "length ls = n" using leaves(1) n(1) by simp
  have i: "i < n" using assms(6) size by simp
  then have l: "ls ! i = l" using leaves(3) [of i] assms(7) n(1) by simp
  have bound: "int (length ls) \<le> max_safe" using assms(5) n(1) len by (simp add: payloads_of_def list_receipts_def)
  have tree: "tree_leaves (map VStr ls)" using leaves(2) bound by (simp add: tree_leaves_def)
  from served_leaves [OF assms(2) n(1) ls] obtain c' where c': "anchored_leaves e n s c = (Inr (Some ls), c')" "cache_ok e s c'"
    "take n (lc_leaves c') = ls" "n \<le> length (lc_leaves c')" by blast
  have at: "lc_leaves c' ! i = l" using c'(3,4) i l by (metis nth_take)
  then obtain j where j: "first_pos l (lc_leaves c') = Some j" "j \<le> i" "lc_leaves c' ! j = l"
    using first_pos_nth [of i "lc_leaves c'"] i c'(4) by auto
  have jn: "j < n" using j(2) i by simp
  have lj: "ls ! j = l" using j(3) jn c'(3) by (metis nth_take)
  have "is_hex64 l" using leaves(2) i len l by (auto simp: list_all_length)
  then have "l \<noteq> []" by (auto simp: is_hex64_def)
  then have w: "wanted_index (Some l) intent n s c' = Some j" using c'(2) j(1) by (simp add: wanted_index_def cache_ok_def index_ok_def)
  from inclusion_complete_lemma [OF assms(1) tree, of j] lj jn len obtain p rt' where p: "inclusion_proof (sha256 e) (VArr (map VStr ls)) (jint (int j)) = Inr p"
    "merkle_tree_hash (sha256 e) (VArr (map VStr ls)) = Inr rt'" "verify_inclusion_proof (sha256 e) (inclusion_input (VStr l) p rt')" by auto
  with rt have v: "verify_inclusion_proof (sha256 e) (inclusion_input (VStr l) p rt)" by simp
  let ?doc = "VObj [(js ''algo'', fld a (js ''algo'')), (js ''anchor_seq'', fld a (js ''seq'')), (js ''root'', VStr rt), (js ''leaf_hash'', VStr l),
     (js ''leaf_index'', VNum (jint (int (leaf_index p)))), (js ''tree_size'', VNum (jint (int (tree_size p)))),
     (js ''audit_path'', VArr (map VStr (audit_path p))), (js ''anchor'', a)]"
  have "proof_v2 e a (Some l) intent s c = (Inr (200, ?doc), c')"
    unfolding proof_v2_def size Let_def using c'(1) w lj jn p(1) rt(2) by simp
  moreover have "fld ?doc (js ''leaf_hash'') = VStr l" "fld ?doc (js ''root'') = VStr rt" by (simp_all add: js_simps)
  ultimately show ?thesis using proof_doc_verifies [OF v] c'(2) rt(2) by metis
qed

end
