(* ===== verification/SegmentDemo.thy ===== *)
theory SegmentDemo
  imports SegmentsProps JsonRoundTrip ChainHeadsProps AnchoringProps AnchorDemo
begin

section \<open>A log anchored by the gateway\<close>

text \<open>A receipt is appended and anchored, under the constant digest and a key that accepts every signature.\<close>

definition bank_key :: jsval where
  "bank_key = VObj [(js ''kty'', VStr (js ''OKP'')), (js ''crv'', VStr (js ''Ed25519'')), (js ''x'', VStr (js ''AAAA''))]"

definition bank_crypto :: webcrypto where
  "bank_crypto = no_webcrypto \<lparr> wc_jwk := (\<lambda>_. Inr []), wc_verify := (\<lambda>_ _ _. Inr True) \<rparr>"

definition bank_attester :: attester where
  "bank_attester = \<lparr> at_kid = js ''key:'' @ take 16 zero_hash, at_sign = (\<lambda>_. Inr []) \<rparr>"

lemma bank_kid: "anchor_kid gate_env bank_key = Inr (at_kid bank_attester)"
proof -
  have "json_ok (key_members bank_key)" by (simp add: key_members_def bank_key_def js_simps)
  then show ?thesis using canonical_returns [of "key_members bank_key"]
    by (auto simp: anchor_kid_def bank_attester_def sha256_hex_def returns_iff)
qed

lemma atob_empty: "atob [] = Inr []"
  by code_simp

lemma bank_signs: "signs_for gate_env bank_crypto bank_key bank_attester"
  unfolding signs_for_def using bank_kid atob_empty
  by (simp add: bank_key_def bank_crypto_def bank_attester_def js_simps)

definition bank_receipt :: jsval where
  "bank_receipt = VObj [(js ''payload'', VObj [])]"

definition bank_store :: receipt_store where
  "bank_store = put_receipt bank_receipt new_receipt_store"

lemma bank_payloads: "payloads_of bank_store = [VObj []]"
  by (simp add: payloads_of_def bank_store_def bank_receipt_def put_receipt_def new_receipt_store_def js_simps)

lemma bank_leaf: "receipt_leaf_hash (sha256 gate_env) (VObj []) = Inr zero_hash"
proof -
  obtain t where "canonical (VObj []) = Inr t" using canonical_returns [of "VObj []"] by (auto simp: returns_iff)
  then show ?thesis by (simp add: receipt_leaf_hash_def leaf_hash_def)
qed

lemma zero_hex: "is_hex64 zero_hash"
  unfolding zero_hash_def by (rule to_hex_is_hex64) (simp add: is_bytes_def)

lemma bank_tree: "merkle_tree_hash (sha256 gate_env) (VArr [VStr zero_hash]) = Inr zero_hash"
  using leaf_bytes_ok [of "[VStr zero_hash]"] zero_hex by (simp add: merkle_tree_hash_def mth.simps str_bytes_def to_hex_from)

lemma bank_kid_text: "at_kid bank_attester = js ''key:0000000000000000''"
  by code_simp

lemma bank_body: "\<exists>t. canonical (VObj (new_anchor_body None 1 zero_hash ts (at_kid bank_attester))) = Inr t"
  if "\<not> has_lone_surrogate ts" for ts
proof -
  have "json_ok (VObj (new_anchor_body None 1 zero_hash ts (at_kid bank_attester)))"
    using that by (simp add: new_anchor_body_def algo_v2_def is_finite_num_def jint_def bank_kid_text)
  then show ?thesis by (simp only: canonical_returns [symmetric] returns_iff)
qed

lemma bank_anchor:
  assumes "\<not> has_lone_surrogate ts"
  shows "\<exists>a. make_anchor gate_env bank_attester ts (payloads_of bank_store) (anchors_of bank_store) = Inr a"
proof -
  have "anchors_of bank_store = []" by (simp add: anchors_of_def bank_store_def put_receipt_def new_receipt_store_def)
  with bank_body [OF assms] show ?thesis
    by (auto simp: make_anchor_def bank_payloads bank_leaf bank_tree Let_def) (simp add: bank_attester_def)
qed

lemma bank_taken:
  "make_anchor e att ts (payloads_of s) (anchors_of s) = Inr a \<Longrightarrow> take_anchor e att ts s = (Anchoring_done a, put_anchor a s)"
  by (simp add: take_anchor_def numeral_eq_Suc)

lemma bank_run:
  assumes "make_anchor gate_env bank_attester (js ''t0'') (payloads_of bank_store) (anchors_of bank_store) = Inr a"
  shows "runs (anchor_world gate_env bank_attester) new_receipt_store [Use (Put bank_receipt), Anchor_at (js ''t0'')] (put_anchor a bank_store)"
  unfolding runs_Cons runs_Nil_iff bank_store_def
  using world_use [OF step_put, of bank_receipt gate_env bank_attester new_receipt_store]
    world_anchor [OF bank_taken [OF assms]] by (auto simp: bank_store_def)

theorem anchors_always_verify_witness:
  "\<exists>a. (\<exists>r. verify_anchor_chain gate_env bank_crypto (VArr (anchors_of (put_anchor a bank_store))) bank_key = Inr r \<and> cr_valid r) \<and>
    (\<forall>b \<in> set (anchors_of (put_anchor a bank_store)). anchored_part gate_env (put_anchor a bank_store) b) \<and> anchors_of (put_anchor a bank_store) = [a]"
proof -
  obtain a where a: "make_anchor gate_env bank_attester (js ''t0'') (payloads_of bank_store) (anchors_of bank_store) = Inr a"
    using bank_anchor [of "js ''t0''"] by auto
  have "int (length (list_receipts (put_anchor a bank_store))) \<le> max_safe" "int (length (anchors_of (put_anchor a bank_store))) \<le> max_safe"
    "anchors_of (put_anchor a bank_store) = [a]"
    by (simp_all add: list_receipts_def anchors_of_def put_anchor_def bank_store_def put_receipt_def new_receipt_store_def max_safe_def)
  with anchors_always_verify [OF bank_run [OF a] gate_digest bank_signs] show ?thesis by blast
qed

theorem overlapping_anchors_fork_witness:
  "\<exists>a b. anchors_of (snd (anchor_step gate_env bank_attester (js ''t1'') (Appending b)
      (snd (anchor_step gate_env bank_attester (js ''t0'') (Appending a) bank_store)))) = anchors_of bank_store @ [a, b] \<and>
    (\<nexists>r. verify_anchor_chain gate_env bank_crypto (VArr (anchors_of bank_store @ [a, b] @ [])) bank_key = Inr r \<and> cr_valid r)"
proof -
  obtain a b where "make_anchor gate_env bank_attester (js ''t0'') (payloads_of bank_store) (anchors_of bank_store) = Inr a"
    "make_anchor gate_env bank_attester (js ''t1'') (payloads_of bank_store) (anchors_of bank_store) = Inr b"
    using bank_anchor [of "js ''t0''"] bank_anchor [of "js ''t1''"] by auto
  then have "anchor_step gate_env bank_attester (js ''t0'') (Reading_anchors (payloads_of bank_store)) bank_store = (Appending a, bank_store)"
    "anchor_step gate_env bank_attester (js ''t1'') (Reading_anchors (payloads_of bank_store)) bank_store = (Appending b, bank_store)" by simp_all
  from overlapping_anchors_fork [OF this] show ?thesis by blast
qed

theorem served_proof_verifies_witness:
  "\<exists>a doc c'. proof_v2 gate_env a (Some zero_hash) None (put_anchor a bank_store) empty_cache = (Inr (200, doc), c') \<and>
    verify_inclusion_proof (sha256 gate_env) doc \<and> fld doc (js ''leaf_hash'') = VStr zero_hash"
proof -
  obtain a where a: "make_anchor gate_env bank_attester (js ''t0'') (payloads_of bank_store) (anchors_of bank_store) = Inr a"
    using bank_anchor [of "js ''t0''"] by auto
  have p: "length (payloads_of bank_store) = 1" "rs_all (put_anchor a bank_store) = rs_all bank_store @ []" "length (rs_all bank_store) = 1"
    by (simp_all add: bank_payloads put_anchor_def) (simp add: bank_store_def put_receipt_def new_receipt_store_def)
  have nxt: "next_number (last_of (anchors_of bank_store)) = jint (int 1)"
    by (simp add: anchors_of_def bank_store_def put_receipt_def new_receipt_store_def last_of_def next_number_def)
  have b: "int (length (payloads_of bank_store)) \<le> max_safe" "int 1 \<le> max_safe" by (simp_all add: p max_safe_def)
  note m = made_anchor [OF a gate_digest bank_signs b(1) nxt b(2)]
  have same: "payloads_of (put_anchor a bank_store) = payloads_of bank_store" by (simp add: payloads_of_def put_anchor_def)
  have part: "anchored_part gate_env (put_anchor a bank_store) a"
    unfolding anchored_part_def using m(4,5) p same by (auto intro!: exI [of _ 1])
  have size: "0 < size_of (fld a (js ''tree_size''))" using m(4) p(1) by (simp add: size_of_def)
  have leaf: "receipt_leaf_hash (sha256 gate_env) (payloads_of (put_anchor a bank_store) ! 0) = Inr zero_hash"
    using bank_leaf by (simp add: same bank_payloads)
  have len: "int (length (list_receipts (put_anchor a bank_store))) \<le> max_safe" using p(2,3) by (simp add: list_receipts_def max_safe_def)
  from served_proof_verifies [OF gate_digest cache_empty part m(1) len size leaf, of None] show ?thesis by blast
qed

section \<open>Heads of one chain\<close>

text \<open>Two heads a computer kept of one chain, and a signed list of no heads.\<close>

definition kept_head :: "int \<Rightarrow> string \<Rightarrow> string \<Rightarrow> jsval" where
  "kept_head n sent held =
     VObj [(js ''head'', VObj [(js ''type'', VStr (js ''scopebond:chain-head'')), (js ''version'', VNum (jint 1)), (js ''anchor_id'', VStr zero_hash),
         (js ''ingest_seq'', VNum (jint n)), (js ''segment'', VNull), (js ''issued_at'', VStr (js ''t0''))]),
       (js ''signed'', VBool False), (js ''signature'', VNull),
       (js ''local'', VObj [(js ''sent_at'', VStr (js sent)), (js ''received_at'', VStr (js held))])]"

lemma kept_chain: "chain_name (kept_head n sent held) = zero_hash"
  by (simp add: chain_name_def head_id_def kept_head_def js_simps)

lemma kept_times:
  "local_time gate_env ''sent_at'' (kept_head n sent held) = date_parse gate_env (js sent)"
  "local_time gate_env ''received_at'' (kept_head n sent held) = date_parse gate_env (js held)"
  "local_clock (kept_head n sent held) = None"
  by (simp_all add: local_time_def local_clock_def kept_head_def is_obj_def js_simps Let_def)

lemma kept_seq: "seq_of (kept_source gate_env (kept_head n sent held)) = n"
  by (simp add: seq_of_def kept_source_def kept_head_def js_simps num_int_def jint_def)

theorem rollback_detected_witness:
  "\<not> hc_ok (compare_heads gate_env [kept_head 5 ''t0'' ''t0'', kept_head 3 ''t1'' ''t9''] [])"
proof (rule rollback_detected [where a = "kept_head 5 ''t0'' ''t0''" and b = "kept_head 3 ''t1'' ''t9''"])
  show "held_before (kept_source gate_env (kept_head 5 ''t0'' ''t0'')) (kept_source gate_env (kept_head 3 ''t1'' ''t9''))"
    by (simp add: held_before_def kept_source_def kept_times other_clock_def olt_def)
qed (simp_all add: kept_chain kept_seq)

definition list_spki :: jsstr where
  "list_spki = []"

definition list_crypto :: webcrypto where
  "list_crypto = bank_crypto \<lparr> wc_spki := (\<lambda>_. Inr []) \<rparr>"

definition list_kid :: jsstr where
  "list_kid = segment_key_id gate_env list_spki"

definition empty_list :: jsval where
  "empty_list =
     VObj [(js ''type'', VStr (js ''scopebond:chain-anchors'')), (js ''version'', VNum (jint 1)), (js ''date'', VStr (js ''2026-01-01'')),
       (js ''key'', VObj [(js ''alg'', VStr (js ''Ed25519'')), (js ''kid'', VStr list_kid), (js ''public_key_spki'', VStr list_spki)]),
       (js ''heads'', VArr []), (js ''signed'', VBool True),
       (js ''signature'', VObj [(js ''alg'', VStr (js ''Ed25519'')), (js ''kid'', VStr list_kid), (js ''sig'', VStr [])])]"

lemma list_kid_text: "list_kid = js ''seg_0000000000000000''"
  unfolding list_kid_def segment_key_id_def text_hash_gate by code_simp

lemma list_canonical: "\<exists>t. list_signing_input empty_list = Inr t"
proof -
  let ?b = "VObj (map (\<lambda>k. (js k, fld empty_list (js k))) [''type'', ''version'', ''date'', ''key'', ''heads''])"
  have "json_ok ?b"
    by (simp add: empty_list_def js_simps is_finite_num_def jint_def list_kid_text list_spki_def)
  then obtain t where "canonical ?b = Inr t" using canonical_returns [of ?b] by (auto simp: returns_iff)
  then show ?thesis unfolding list_signing_input_def by simp
qed

lemma list_day: "is_day (js ''2026-01-01'')"
  by code_simp

lemma list_members: "only_keys empty_list [''type'', ''version'', ''date'', ''key'', ''heads'', ''signed'', ''signature'']"
  by (simp add: only_keys_def empty_list_def members_def)

lemma list_verifies: "ed25519_verify list_crypto list_spki t []"
  using atob_empty by (simp add: ed25519_verify_def list_spki_def list_crypto_def bank_crypto_def base64_to_bytes_def)

theorem published_list_sound_witness:
  "\<exists>kid spki. lk_kid (check_anchor_list gate_env list_crypto empty_list) = Some kid \<and> sound_list gate_env list_crypto empty_list kid spki"
proof -
  obtain t where t: "list_signing_input empty_list = Inr t" using list_canonical by blast
  have f: "fld empty_list (js ''type'') = VStr (js ''scopebond:chain-anchors'')" "fld empty_list (js ''version'') = VNum (jint 1)"
    "fld empty_list (js ''date'') = VStr (js ''2026-01-01'')" "fld empty_list (js ''heads'') = VArr []" "fld empty_list (js ''signed'') = VBool True"
    "fld (fld empty_list (js ''key'')) (js ''kid'') = VStr list_kid" "fld (fld empty_list (js ''key'')) (js ''public_key_spki'') = VStr list_spki"
    "fld (fld empty_list (js ''key'')) (js ''alg'') = VStr (js ''Ed25519'')" "is_obj (fld empty_list (js ''key''))"
    "is_obj (fld empty_list (js ''signature''))" "fld (fld empty_list (js ''signature'')) (js ''kid'') = VStr list_kid"
    "fld (fld empty_list (js ''signature'')) (js ''sig'') = VStr []" "is_obj empty_list"
    by (simp_all add: empty_list_def js_simps is_obj_def)
  have "check_anchor_list gate_env list_crypto empty_list = \<lparr> lk_signed = True, lk_kid = Some list_kid, lk_heads = 0, lk_problems = [] \<rparr>"
    unfolding check_anchor_list_def f
    by (simp add: f t list_day list_members list_verifies is_arr_def is_str_def sig_text_def elems_def list_kid_def [symmetric] Let_def)
  then show ?thesis by (intro published_list_sound) (simp_all add: lk_valid_def)
qed

section \<open>A segment of one record\<close>

text \<open>
  One segment that holds the record numbered \<open>n\<close>, and a head that names it, under the constant digest. With \<open>n = 1\<close> the properties of the check are
  applied to it; with \<open>n = 50\<close> it shows a limit of the check.
\<close>

definition seg_record :: "int \<Rightarrow> jsval" where
  "seg_record n =
     VObj [(js ''event_id'', VStr (js ''e'')), (js ''ingest_seq'', VNum (jint n)), (js ''leaf'', VStr zero_hash),
       (js ''receipt'', VObj [(js ''payload'', VObj [(js ''n'', VNum (jint n))])])]"

definition seg_doc :: "int \<Rightarrow> jsval" where
  "seg_doc n =
     VObj [(js ''bounds'', VObj [(js ''first_ingest_seq'', VNum (jint n)), (js ''last_ingest_seq'', VNum (jint n))]),
       (js ''previous_segment_digest'', VNull), (js ''proof'', VObj [(js ''merkle_root'', VStr zero_hash)]),
       (js ''records'', VArr [seg_record n]), (js ''type'', VStr (js ''scopebond:evidence-segment''))]"

definition seg_text :: "int \<Rightarrow> jsstr" where
  "seg_text n = (case canonical (seg_doc n) of Inr t \<Rightarrow> t | Inl _ \<Rightarrow> [])"

lemma seg_json: "json_ok (seg_doc n)"
  by (simp add: seg_doc_def seg_record_def)

lemma seg_canonical: "canonical (seg_doc n) = Inr (seg_text n)"
proof -
  obtain t where "canonical (seg_doc n) = Inr t" using seg_json [of n] canonical_returns [of "seg_doc n"] by (auto simp: returns_iff)
  then show ?thesis by (simp add: seg_text_def)
qed

lemma js_names:
  "js ''bounds'' < js ''previous_segment_digest''" "js ''previous_segment_digest'' < js ''proof''" "js ''proof'' < js ''records''"
  "js ''records'' < js ''type''" "js ''first_ingest_seq'' < js ''last_ingest_seq''" "js ''event_id'' < js ''ingest_seq''"
  "js ''ingest_seq'' < js ''leaf''" "js ''leaf'' < js ''receipt''"
  by (simp_all add: js_def)

lemma sort_members_id: "sorted_wrt (\<lambda>a b. fst a < fst b) fs \<Longrightarrow> sort_members fs = fs"
proof (induction fs)
  case (Cons kv fs)
  then show ?case by (cases fs) (auto simp: sort_members_def)
qed (simp add: sort_members_def)

lemma enumerated_id: "list_all (\<lambda>kv. \<not> index_key (fst kv)) fs \<Longrightarrow> enumerated fs = fs"
proof -
  assume h: "list_all (\<lambda>kv. \<not> index_key (fst kv)) fs"
  then have "filter (index_key \<circ> fst) fs = []" "filter (Not \<circ> index_key \<circ> fst) fs = fs"
    by (auto simp: list_all_iff filter_empty_conv filter_id_conv)
  then show ?thesis by (simp add: enumerated_def)
qed

lemma not_index: "k \<noteq> [] \<Longrightarrow> \<not> is_digit (hd k) \<Longrightarrow> \<not> index_key k"
  by (cases k) (auto simp: index_key_def is_digit_def)

lemma seg_reread: "reread (seg_doc n) = seg_doc n"
  using js_names less_trans
  by (auto simp: seg_doc_def seg_record_def sort_members_id enumerated_id not_index js_def is_digit_def)

lemma seg_parses:
  assumes "0 \<le> n" "n \<le> max_safe"
  shows "json_parse (seg_text n) = Some (seg_doc n)"
proof -
  have "list_all has_text (nums (seg_doc n))" using has_text_int [of n] assms by (simp add: seg_doc_def seg_record_def)
  moreover have "keyed (seg_doc n)" by (simp add: seg_doc_def seg_record_def js_def)
  ultimately show ?thesis using parse_canonical [OF _ _ seg_canonical] seg_reread by metis
qed


definition seg_head :: "int \<Rightarrow> jsval" where
  "seg_head n =
     VObj [(js ''head'', VObj [(js ''type'', VStr (js ''scopebond:chain-head'')), (js ''version'', VNum (jint 1)), (js ''anchor_id'', VStr zero_hash),
         (js ''ingest_seq'', VNum (jint n)),
         (js ''segment'', VObj [(js ''digest'', VStr zero_hash), (js ''last_ingest_seq'', VNum (jint n))]), (js ''issued_at'', VStr (js ''t0''))]),
       (js ''signed'', VBool False), (js ''signature'', VNull)]"

lemma seg_fields [simp]:
  "is_segment (seg_doc n)" "doc_records (seg_doc n) = [seg_record n]" "link (seg_doc n) = None"
  "bound (seg_doc n) ''first_ingest_seq'' = VNum (jint n)" "bound (seg_doc n) ''last_ingest_seq'' = VNum (jint n)"
  "fld (fld (seg_doc n) (js ''proof'')) (js ''merkle_root'') = VStr zero_hash"
  by (simp_all add: seg_doc_def is_segment_def doc_records_def link_def bound_def str_opt_def is_arr_def is_obj_def elems_def js_simps)

lemma seg_record_fields [simp]:
  "is_obj (seg_record n)" "fld (seg_record n) (js ''ingest_seq'') = VNum (jint n)" "record_leaf (seg_record n) = zero_hash"
  by (simp_all add: seg_record_def record_leaf_def is_obj_def js_simps)

lemma seg_record_hashes [simp]: "hashes_to_leaf gate_env (seg_record n)"
proof -
  have "json_ok (VObj [(js ''n'', VNum (jint n))])" by simp
  then obtain t where "canonical (VObj [(js ''n'', VNum (jint n))]) = Inr t"
    using canonical_returns [of "VObj [(js ''n'', VNum (jint n))]"] by (auto simp: returns_iff)
  moreover have "receipt_payload (seg_record n) = VObj [(js ''n'', VNum (jint n))]"
    by (simp add: seg_record_def receipt_payload_def js_simps)
  ultimately show ?thesis by (simp add: hashes_to_leaf_def)
qed

lemma seg_root [simp]: "merkle_root_v1 sha [zero_hash] = zero_hash"
  by (simp add: merkle_root_v1_def root_v1_loop.simps)

lemma seg_head_fields [simp]:
  "chain_name (seg_head n) = zero_hash" "named_segment (fld (seg_head n) (js ''head'')) = Some zero_hash"
  "head_number (fld (seg_head n) (js ''head'')) ''ingest_seq'' = jint n"
  "fld (fld (seg_head n) (js ''head'')) (js ''ingest_seq'') = VNum (jint n)"
  "fld (fld (fld (seg_head n) (js ''head'')) (js ''segment'')) (js ''last_ingest_seq'') = VNum (jint n)"
  by (simp_all add: seg_head_def chain_name_def head_id_def named_segment_def head_number_def str_opt_def js_simps)

lemma seg_head_ok:
  assumes "0 \<le> n" "n \<le> max_safe"
  shows "is_signed_chain_head gate_env (seg_head n)"
proof -
  have z: "is_size (VNum (jint n))" using size_ok [of "nat n"] assms by (simp add: nat_le_iff max_safe_def)
  have k: "only_keys (fld (seg_head n) (js ''head'')) [''type'', ''version'', ''anchor_id'', ''ingest_seq'', ''segment'', ''issued_at'']"
    "only_keys (VObj [(js ''digest'', VStr zero_hash), (js ''last_ingest_seq'', VNum (jint n))]) [''digest'', ''last_ingest_seq'']"
    by (simp_all add: only_keys_def seg_head_def members_def js_simps)
  show ?thesis
    using z k by (simp add: is_signed_chain_head_def seg_head_def segment_shape_def is_hex64_str_def is_obj_def is_bool_def js_simps Let_def)
qed

lemma seg_scan:
  assumes "0 \<le> n" "n < max_safe"
  shows "record_loop gate_env w key None d 0 [seg_record n] \<lparr> sn_expected = VNum (jint n), sn_leaves = [], sn_checked = 0, sn_others = 0, sn_problems = [] \<rparr>
     = Inr \<lparr> sn_expected = VNum (jint (n + 1)), sn_leaves = [zero_hash], sn_checked = 0, sn_others = 0, sn_problems = [] \<rparr>"
  using jadd_jint [of n 1] assms
  by (simp add: record_step_def Let_def sequence_problems_def leaf_problems_def signature_problems_def max_safe_def)

lemma seg_accepted:
  assumes "0 \<le> n" "n < max_safe"
  shows "sg_ok (verify_segment_chain gate_env w VUndef [seg_text n] [seg_head n])"
proof -
  have parse: "json_parse (seg_text n) = Some (seg_doc n)" using assms by (intro seg_parses) auto
  have minus: "jsub (jint (n + 1)) (jint 1) = jint n" using rnd_jint [of n] assms by (simp add: jsub_jint max_safe_def)
  have plus: "jadd (jint n) (jint 1) = jint (n + 1)" using jadd_jint [of n 1] assms by (simp add: max_safe_def)
  have "segment_loop gate_env w VUndef None 0 [seg_text n] \<lparr> rd_docs = [], rd_records = 0, rd_checked = 0, rd_others = 0, rd_problems = [] \<rparr> =
      Inr \<lparr> rd_docs = [(zero_hash, seg_doc n)], rd_records = 1, rd_checked = 0, rd_others = 0, rd_problems = [] \<rparr>"
    by (simp add: segment_step_def parse Let_def seg_scan [OF assms] minus seg_canonical del: record_loop.simps)
  moreover have bc: "by_chain gate_env [seg_head n] = [(zero_hash, [fld (seg_head n) (js ''head'')])]"
    using seg_head_ok [of n] assms by (simp add: by_chain_def)
  have walk: "path_loop (Suc m) zero_hash [(zero_hash, seg_doc n)] None (Some zero_hash) [] = Inr ([(zero_hash, jint n)], [])" for m
    by (cases m) simp_all
  have on: "ahead_loop (Suc m) zero_hash [(zero_hash, seg_doc n)] [(zero_hash, jint n)] [] zero_hash (jint n) = Inr (jint n, [])" for m
    by (simp add: continuing_def)
  have "chain_check gate_env [(zero_hash, seg_doc n)] zero_hash [fld (seg_head n) (js ''head'')] = Inr (Some (VNum (jint n)), [])"
    using walk [of 999999] on [of 999999] assms
    by (simp add: chain_check_def Let_def ahead_check_def unreached_def named_problem_def max_walk_def)
  then show ?thesis
    using calculation seg_head_ok [of n] assms bc
    by (simp add: verify_segment_chain_def check_segment_chain_def Let_def sg_ok_def)
qed

lemma seg_sized: "0 \<le> n \<Longrightarrow> n \<le> max_safe \<Longrightarrow> list_all sized [seg_text n]"
  using size_ok [of "nat n"] by (simp add: sized_def seg_parses nat_le_iff max_safe_def)

theorem admitted_records_held_witness:
  "\<exists>a. first_segment [seg_text 1] a \<and> (\<forall>s. a \<le> s \<and> s \<le> 1 \<longrightarrow> held_record gate_env [seg_text 1] s)"
  by (rule admitted_records_held [OF seg_accepted [of 1] seg_sized [of 1], where h = "seg_head 1"]) (simp_all add: max_safe_def max_walk_def)

theorem segment_history_fixed_witness:
  "\<exists>t ts. sl.history gate_env t ts \<and> text_hash gate_env t = zero_hash \<and> set (t # ts) \<subseteq> {seg_text 1} \<and>
    (set (t # ts) \<subseteq> {seg_text 2} \<or> sl.clash gate_env ({seg_text 1} \<union> {seg_text 2}))"
proof -
  have "length [seg_text 1] < max_walk" "length [seg_text 2] < max_walk" by (simp_all add: max_walk_def)
  from segment_history_fixed [OF seg_accepted [of 1] seg_sized [of 1] this(1) seg_accepted [of 2] seg_sized [of 2] this(2), of "seg_head 1" zero_hash "seg_head 2"]
  show ?thesis by (simp add: max_safe_def)
qed

text \<open>The check does not ask where a chain begins: a segment that links to none and starts at record 50 passes with a head that says 50 records were
  admitted, though the first 49 are in no segment given.\<close>

theorem missing_start_passes:
  "sg_ok (verify_segment_chain gate_env no_webcrypto VUndef [seg_text 50] [seg_head 50]) \<and>
   fld (fld (seg_head 50) (js ''head'')) (js ''ingest_seq'') = VNum (jint 50) \<and> \<not> held_record gate_env [seg_text 50] 49"
proof -
  have "json_parse (seg_text 50) = Some (seg_doc 50)" by (intro seg_parses) (simp_all add: max_safe_def)
  then have "\<not> held_record gate_env [seg_text 50] 49" by (simp add: held_record_def)
  with seg_accepted [of 50] show ?thesis by (simp add: max_safe_def)
qed

end
