(* ===== verification/HistoryProps.thy ===== *)
theory HistoryProps
  imports VerdictProps
begin

section \<open>The history a policy needs\<close>

text \<open>
  \<open>historyNeed\<close> and \<open>boundPrior\<close> let a caller evaluate a policy on the recent part of its history. The results: a clause reads nothing of an
  earlier receipt past the horizon of the policy, so leaving out what \<open>boundPrior\<close> leaves out does not change the verdict.
\<close>

subsection \<open>Contexts that agree on the recent past\<close>

definition recent :: "env \<Rightarrow> eval_ctx \<Rightarrow> int \<Rightarrow> bool \<times> jsval \<Rightarrow> bool" where
  "recent e x h br \<longleftrightarrow> fst br \<or> (case parsed_time e (snd br) of None \<Rightarrow> False | Some t \<Rightarrow> at_ms x - h < t \<and> t \<le> at_ms x)"

definition same_recent :: "env \<Rightarrow> int \<Rightarrow> eval_ctx \<Rightarrow> eval_ctx \<Rightarrow> bool" where
  "same_recent e h x y \<longleftrightarrow> claimed y = claimed x \<and> at_ms y = at_ms x \<and> incomplete y = incomplete x \<and>
     mset (filter (recent e x h) (unique y)) = mset (filter (recent e x h) (unique x))"

definition reads_within :: "jsval \<Rightarrow> int \<Rightarrow> bool" where
  "reads_within c h \<longleftrightarrow>
     (is_type c ''rate_limit'' \<longrightarrow> millis (fld c (js ''window'')) \<le> h) \<and>
     (is_type c ''spend_limit'' \<and> \<not> nullish (fld c (js ''max_per_window'')) \<longrightarrow> millis (fld c (js ''window'')) \<le> h) \<and>
     (is_type c ''sequence'' \<longrightarrow> millis (fld c (js ''min_gap'')) \<le> h \<and> millis (fld c (js ''forbidden_within'')) \<le> h)"

lemma recent_part:
  assumes "same_recent e h x y" "\<And>br. P br \<Longrightarrow> recent e x h br"
  shows "mset (filter P (unique y)) = mset (filter P (unique x))"
proof -
  have P: "filter P (filter (recent e x h) xs) = filter P xs" for xs using assms(2) by (auto simp: filter_filter intro: filter_cong)
  have "filter_mset P (mset (filter (recent e x h) (unique y))) = filter_mset P (mset (filter (recent e x h) (unique x)))"
    using assms(1) by (simp add: same_recent_def)
  then show ?thesis unfolding mset_filter [symmetric] P .
qed

lemma same_parts:
  assumes "same_recent e h x y"
  shows "claimed y = claimed x" "at_ms y = at_ms x" "incomplete y = incomplete x"
  using assms by (simp_all only: same_recent_def)

lemma same_reads:
  assumes "same_recent e h x y"
  shows "x_action y = x_action x" "x_params y = x_params x" "x_intent y = x_intent x"
    "needs_all y c = needs_all x c" "covers y c = covers x c" "in_time e y r w = in_time e x r w"
  unfolding x_action_def x_params_def x_intent_def needs_all_def covers_def in_time_def by (simp_all only: same_parts [OF assms])

lemma recent_window:
  assumes "same_recent e h x y" "w \<le> h"
  shows "mset (filter (\<lambda>r. P r \<and> in_time e x r w) (map snd (unique y))) = mset (filter (\<lambda>r. P r \<and> in_time e x r w) (map snd (unique x)))"
proof -
  have "mset (filter (\<lambda>br. P (snd br) \<and> in_time e x (snd br) w) (unique y)) = mset (filter (\<lambda>br. P (snd br) \<and> in_time e x (snd br) w) (unique x))"
    using assms(2) by (intro recent_part [OF assms(1)]) (auto simp: recent_def in_time_def split: option.splits)
  then have "image_mset snd (mset (filter (\<lambda>br. P (snd br) \<and> in_time e x (snd br) w) (unique y))) =
      image_mset snd (mset (filter (\<lambda>br. P (snd br) \<and> in_time e x (snd br) w) (unique x)))" by (rule arg_cong)
  then show ?thesis unfolding filter_map o_def mset_map .
qed

lemma same_mset_set: "mset xs = mset ys \<Longrightarrow> set xs = set ys"
  by (rule mset_eq_setD)

lemma same_mset_sum: "mset xs = mset ys \<Longrightarrow> sum_list (map f xs) = sum_list (map f (ys :: 'a list))" for f :: "'a \<Rightarrow> int"
  by (metis mset_map sum_mset_sum_list)

lemma same_stateless:
  assumes "same_recent e h x y"
  shows "approval_allows y c = approval_allows x c" "time_allows y c = time_allows x c" "endpoint_allows e y c = endpoint_allows e x c"
    "endpoint_not_denied e y c = endpoint_not_denied e x c" "address_allows y c = address_allows x c" "address_not_denied y c = address_not_denied x c"
    "contract_allows y c = contract_allows x c" "action_allows e y c = action_allows e x c" "key_allows y c = key_allows x c" "push_allows y c = push_allows x c"
  unfolding approval_allows_def time_allows_def endpoint_allows_def endpoint_not_denied_def address_allows_def address_not_denied_def
    contract_allows_def action_allows_def key_allows_def push_allows_def same_parts [OF assms] same_reads [OF assms] by (rule refl)+

lemma same_clause:
  assumes s: "same_recent e h x y" and r: "reads_within c h"
  shows "clause_allows e y c = clause_allows e x c"
proof -
  note p = same_parts [OF s]
  have rate: "rate_allows e y c = rate_allows e x c" if "is_type c ''rate_limit''"
  proof -
    have w: "millis (fld c (js ''window'')) \<le> h" using r that by (simp add: reads_within_def)
    show ?thesis unfolding rate_allows_def same_reads [OF s] using arg_cong [OF recent_window [OF s w], of size] by (simp only: size_mset)
  qed
  have spend: "spend_allows e y c = spend_allows e x c" if "is_type c ''spend_limit''"
  proof (cases "nullish (fld c (js ''max_per_window''))")
    case True
    then show ?thesis by (simp add: spend_allows_def Let_def p(1))
  next
    case False
    then have w: "millis (fld c (js ''window'')) \<le> h" using r that by (simp add: reads_within_def)
    note m = recent_window [OF s w, of "has_asset (fld c (js ''asset''))"]
    show ?thesis unfolding spend_allows_def Let_def p(1) same_reads [OF s] same_mset_set [OF m] same_mset_sum [OF m] ..
  qed
  have sequence: "sequence_allows e y c = sequence_allows e x c" if "is_type c ''sequence''"
  proof -
    define g where "g = max (millis (fld c (js ''min_gap''))) (millis (fld c (js ''forbidden_within'')))"
    have g: "g \<le> h" using r that by (simp add: reads_within_def g_def)
    let ?bad = "\<lambda>br. \<not> fst br \<and> listing c ''first_action_types'' (fld (intent_of (snd br)) (js ''action_type'')) \<and>
      (\<exists>t. parsed_time e (snd br) = Some t \<and> t \<le> at_ms x \<and> at_ms x - t < g)"
    have "mset (filter ?bad (unique y)) = mset (filter ?bad (unique x))"
      using g by (intro recent_part [OF s]) (auto simp: recent_def)
    then have "(mset (filter ?bad (unique y)) = {#}) = (mset (filter ?bad (unique x)) = {#})" by (rule arg_cong)
    then have e: "filter ?bad (unique y) = [] \<longleftrightarrow> filter ?bad (unique x) = []" unfolding mset_zero_iff .
    have q: "(\<forall>r t. (False, r) \<in> set ps \<longrightarrow> listing c ''first_action_types'' (fld (intent_of r) (js ''action_type'')) \<longrightarrow>
        parsed_time e r = Some t \<longrightarrow> t \<le> at_ms x \<longrightarrow> g \<le> at_ms x - t) \<longleftrightarrow> filter ?bad ps = []" for ps
    proof
      assume a: "\<forall>r t. (False, r) \<in> set ps \<longrightarrow> listing c ''first_action_types'' (fld (intent_of r) (js ''action_type'')) \<longrightarrow>
        parsed_time e r = Some t \<longrightarrow> t \<le> at_ms x \<longrightarrow> g \<le> at_ms x - t"
      have "\<not> ?bad (b, r)" if "(b, r) \<in> set ps" for b r
        using a [rule_format, of r] that by (cases b) (auto simp only: fst_conv snd_conv not_less [symmetric])
      then show "filter ?bad ps = []" unfolding filter_empty_conv by (metis surj_pair)
    next
      assume "filter ?bad ps = []"
      then have a: "\<not> ?bad (False, r)" if "(False, r) \<in> set ps" for r using that unfolding filter_empty_conv by blast
      show "\<forall>r t. (False, r) \<in> set ps \<longrightarrow> listing c ''first_action_types'' (fld (intent_of r) (js ''action_type'')) \<longrightarrow>
        parsed_time e r = Some t \<longrightarrow> t \<le> at_ms x \<longrightarrow> g \<le> at_ms x - t"
        using a unfolding fst_conv snd_conv by (meson not_less)
    qed
    show ?thesis unfolding sequence_allows_def p(2) same_reads [OF s] g_def [symmetric] q e ..
  qed
  show ?thesis using rate spend sequence by (simp add: clause_allows_def same_stateless [OF s])
qed

lemma same_permitted:
  assumes "same_recent e h x y" "\<forall>c \<in> set (clauses_of policy). reads_within c h"
  shows "permitted e y policy = permitted e x policy"
proof -
  have "(\<forall>c \<in> set (clauses_of policy). clause_allows e y c) = (\<forall>c \<in> set (clauses_of policy). clause_allows e x c)"
    using assms(2) same_clause [OF assms(1)] by blast
  then show ?thesis unfolding permitted_def Let_def same_reads [OF assms(1)] by simp
qed

subsection \<open>The horizon\<close>

lemma reads_within_mono: "reads_within c h \<Longrightarrow> h \<le> h' \<Longrightarrow> reads_within c h'"
  by (auto simp: reads_within_def)

lemma horizon_covers:
  assumes "\<forall>c \<in> set cs. clause_ok c \<and> durations_safe c" "horizon cs (jint h) = Inr (Some r)" "0 \<le> h"
  shows "\<exists>h'. r = jint h' \<and> h \<le> h' \<and> (\<forall>c \<in> set cs. reads_within c h')"
  using assms
proof (induction cs arbitrary: h)
  case (Cons c cs)
  then have ok: "clause_ok c" and safe: "durations_safe c" by simp_all
  have kinds: "is_type c s \<Longrightarrow> is_type c t \<Longrightarrow> js s = js t" for s t by (simp add: is_type_def)
  have step: "\<exists>h'. r = jint h' \<and> h \<le> h' \<and> (\<forall>c \<in> set (c # cs). reads_within c h')"
    if "horizon cs (jint k) = Inr (Some r)" "h \<le> k" "reads_within c k" for k
    proof -
    note t = that
    have "0 \<le> k" using that(2) Cons.prems(3) by simp
    then obtain h' where "r = jint h'" "k \<le> h'" "\<forall>c \<in> set cs. reads_within c h'" using Cons.IH [of k] Cons.prems(1) t(1) by auto
    then show ?thesis using t(2,3) reads_within_mono by auto
  qed
  consider (rate) "is_type c ''rate_limit''" | (spend) "is_type c ''spend_limit''" "\<not> is_type c ''rate_limit''"
    | (sequence) "is_type c ''sequence''" "\<not> is_type c ''rate_limit''" "\<not> is_type c ''spend_limit''"
    | (other) "\<not> is_type c ''rate_limit''" "\<not> is_type c ''spend_limit''" "\<not> is_type c ''sequence''" by blast
  then show ?case
  proof cases
    case rate
    have d: "duration_of (fld c (js ''window'')) = Inr (jint (millis (fld c (js ''window''))))"
      using rate_limit_fields(2) [OF ok rate] safe by (intro duration_of_exact) (simp_all add: durations_safe_def)
    have k: "reads_within c (max h (millis (fld c (js ''window''))))"
      using rate kinds [OF rate, of "''spend_limit''"] kinds [OF rate, of "''sequence''"] by (auto simp: reads_within_def)
    show ?thesis by (rule step [OF _ _ k]) (use Cons.prems(2) rate d in simp_all)
  next
    case spend
    show ?thesis
    proof (cases "nullish (fld c (js ''max_per_window''))")
      case True
      have "reads_within c h" using spend True kinds [OF spend(1), of "''sequence''"] by (auto simp: reads_within_def)
      from step [OF _ _ this] show ?thesis using Cons.prems(2) spend True by simp
    next
      case False
      have d: "duration_of (fld c (js ''window'')) = Inr (jint (millis (fld c (js ''window''))))"
        using spend_limit_fields(3) [OF ok spend(1) False] safe by (intro duration_of_exact) (simp_all add: durations_safe_def)
      have k: "reads_within c (max h (millis (fld c (js ''window''))))"
        using spend kinds [OF spend(1), of "''sequence''"] by (auto simp: reads_within_def)
      show ?thesis by (rule step [OF _ _ k]) (use Cons.prems(2) spend False d in simp_all)
    qed
  next
    case sequence
    let ?a = "millis (fld c (js ''min_gap''))" and ?b = "millis (fld c (js ''forbidden_within''))"
    have d: "opt_duration (fld c (js ''min_gap'')) = Inr (jint ?a)" "opt_duration (fld c (js ''forbidden_within'')) = Inr (jint ?b)"
      using sequence_fields [OF ok sequence(1)] safe by (simp_all add: opt_duration_exact durations_safe_def)
    show ?thesis
    proof (cases "truthy (fld c (js ''min_gap'')) \<or> truthy (fld c (js ''forbidden_within''))")
      case True
      have k: "reads_within c (max (max h ?a) ?b)" using sequence by (auto simp: reads_within_def)
      show ?thesis by (rule step [OF _ _ k]) (use Cons.prems(2) sequence True d in simp_all)
    next
      case False
      have "reads_within c h" using sequence False Cons.prems(3) by (auto simp: reads_within_def millis_def)
      from step [OF _ _ this] show ?thesis using Cons.prems(2) sequence False d by simp
    qed
  next
    case other
    have "reads_within c h" using other by (simp add: reads_within_def)
    from step [OF _ _ this] show ?thesis using Cons.prems(2) other by (simp split: if_splits)
  qed
qed auto

subsection \<open>Leaving out receipts before the occurrences are counted once\<close>

lemma map_of_filter_consistent:
  assumes "\<And>k v v'. (k, v) \<in> set xs \<Longrightarrow> (k, v') \<in> set xs \<Longrightarrow> Q v = Q v'"
  shows "map_of (filter (\<lambda>kv. Q (snd kv)) xs) k = (case map_of xs k of None \<Rightarrow> None | Some v \<Rightarrow> if Q v then Some v else None)"
  using assms
proof (induction xs)
  case (Cons kv xs)
  obtain k' v' where kv: "kv = (k', v')" by (cases kv)
  have ih: "map_of (filter (\<lambda>kv. Q (snd kv)) xs) k = (case map_of xs k of None \<Rightarrow> None | Some v \<Rightarrow> if Q v then Some v else None)"
    using Cons.prems by (intro Cons.IH) auto
  show ?case
  proof (cases "k = k'")
    case False
    then show ?thesis using ih by (simp add: kv)
  next
    case True
    have "\<not> Q v'" if "map_of xs k = Some v" "\<not> Q v" for v
      using Cons.prems [of k v v'] map_of_SomeD [OF that(1)] that(2) True by (simp add: kv)
    moreover have "Q v'" if "map_of xs k = Some v" "Q v" for v
      using Cons.prems [of k v v'] map_of_SomeD [OF that(1)] that(2) True by (simp add: kv)
    ultimately show ?thesis using True ih by (auto simp: kv split: option.splits)
  qed
qed simp

lemma distinct_omap: "distinct (omap_of_list kvs)"
  using omap_of_list_distinct [of kvs] by (simp add: distinct_map)

lemma omap_filter:
  assumes c: "\<And>k v v'. (k, v) \<in> set kvs \<Longrightarrow> (k, v') \<in> set kvs \<Longrightarrow> Q v = Q v'" and q: "Q v0"
  shows "mset (filter (\<lambda>kv. Q (snd kv)) (omap_of_list (filter (\<lambda>kv. Q (snd kv)) kvs @ [(k0, v0)]))) =
    mset (filter (\<lambda>kv. Q (snd kv)) (omap_of_list (kvs @ [(k0, v0)])))"
proof -
  have m: "map_of (filter (\<lambda>kv. Q (snd kv)) (rev kvs)) k = (case map_of (rev kvs) k of None \<Rightarrow> None | Some v \<Rightarrow> if Q v then Some v else None)" for k
  proof (rule map_of_filter_consistent)
    fix k v v'
    assume "(k, v) \<in> set (rev kvs)" "(k, v') \<in> set (rev kvs)"
    then show "Q v = Q v'" unfolding set_rev by (rule c)
  qed
  have "kv \<in> set (filter (\<lambda>kv. Q (snd kv)) (omap_of_list (filter (\<lambda>kv. Q (snd kv)) kvs @ [(k0, v0)]))) \<longleftrightarrow>
    kv \<in> set (filter (\<lambda>kv. Q (snd kv)) (omap_of_list (kvs @ [(k0, v0)])))" for kv
  proof (cases kv)
    case (Pair k v)
    have "Q v \<and> map_of (rev (filter (\<lambda>kv. Q (snd kv)) kvs @ [(k0, v0)])) k = Some v \<longleftrightarrow> Q v \<and> map_of (rev (kvs @ [(k0, v0)])) k = Some v"
      using q by (cases "k = k0"; cases "map_of (rev kvs) k") (auto simp: rev_filter m)
    then show ?thesis unfolding Pair by (simp only: set_omap_of_list set_filter mem_Collect_eq snd_conv case_prod_conv conj_commute)
  qed
  then have "set (filter (\<lambda>kv. Q (snd kv)) (omap_of_list (filter (\<lambda>kv. Q (snd kv)) kvs @ [(k0, v0)]))) =
    set (filter (\<lambda>kv. Q (snd kv)) (omap_of_list (kvs @ [(k0, v0)])))" by (rule set_eqI)
  then show ?thesis by (subst set_eq_iff_mset_eq_distinct [symmetric]) (simp_all add: distinct_omap)
qed

text \<open>\<open>keep\<close> holds alike of the executed receipts of one occurrence.\<close>

definition alike :: "(jsval \<Rightarrow> 'a) \<Rightarrow> jsval list \<Rightarrow> bool" where
  "alike f rs \<longleftrightarrow> list_all (\<lambda>r. list_all (\<lambda>r'. executed_of r \<and> executed_of r' \<and> occurrence r = occurrence r' \<longrightarrow> f r = f r') rs) rs"

lemma alikeD: "alike f rs \<Longrightarrow> r \<in> set rs \<Longrightarrow> r' \<in> set rs \<Longrightarrow> executed_of r \<Longrightarrow> executed_of r' \<Longrightarrow> occurrence r = occurrence r' \<Longrightarrow> f r = f r'"
  unfolding alike_def list_all_iff by blast

lemma executed_unique_keep:
  assumes "alike keep rs" "executed_of c"
  shows "mset (filter (\<lambda>(b, r). b \<or> keep r) (executed_unique (filter keep rs) c)) = mset (filter (\<lambda>(b, r). b \<or> keep r) (executed_unique rs c))"
proof -
  define Q where "Q = (\<lambda>(b, r). b \<or> keep r)"
  define key where "key = (\<lambda>(b :: bool, r). (occurrence r, (b, r)))"
  define kvs where "kvs = map key (map (Pair False) (filter executed_of rs))"
  have e: "executed_unique rs c = map snd (omap_of_list (kvs @ [(occurrence c, (True, c))]))"
    using assms(2) by (simp add: executed_unique_def kvs_def key_def filter_map o_def)
  have f: "executed_unique (filter keep rs) c = map snd (omap_of_list (filter (\<lambda>kv. Q (snd kv)) kvs @ [(occurrence c, (True, c))]))"
    using assms(2) by (simp add: executed_unique_def kvs_def key_def filter_map o_def Q_def conj_commute)
  have "mset (filter (\<lambda>kv. Q (snd kv)) (omap_of_list (filter (\<lambda>kv. Q (snd kv)) kvs @ [(occurrence c, (True, c))]))) =
    mset (filter (\<lambda>kv. Q (snd kv)) (omap_of_list (kvs @ [(occurrence c, (True, c))])))"
    by (rule omap_filter) (auto simp: kvs_def key_def Q_def dest: alikeD [OF assms(1)])
  then have "image_mset snd (mset (filter (Q \<circ> snd) (omap_of_list (filter (\<lambda>kv. Q (snd kv)) kvs @ [(occurrence c, (True, c))])))) =
    image_mset snd (mset (filter (Q \<circ> snd) (omap_of_list (kvs @ [(occurrence c, (True, c))]))))"
    unfolding o_def by (rule arg_cong)
  then show ?thesis unfolding e f Q_def [symmetric] filter_map mset_map .
qed

subsection \<open>The same findings\<close>

definition same_result :: "clause_result \<Rightarrow> clause_result \<Rightarrow> bool" where
  "same_result r r' \<longleftrightarrow> (is_match r' \<longleftrightarrow> is_match r) \<and> (r' = Undet \<longleftrightarrow> r = Undet)"

definition same_finding :: "finding \<Rightarrow> finding \<Rightarrow> bool" where
  "same_finding f g \<longleftrightarrow> f_clause g = f_clause f \<and> f_mode g = f_mode f \<and> f_order g = f_order f"

lemma same_undet:
  assumes "same_recent e h x y"
  shows "eval_clause e y c = Inr Undet \<longleftrightarrow> eval_clause e x c = Inr Undet"
proof -
  have rate: "eval_rate_limit e z c = Inr Undet \<longleftrightarrow> needs_all z c" for z
    by (auto simp: eval_rate_limit_def Let_def rbind_Inr_iff)
  have seq: "eval_sequence e z c \<noteq> Inr Undet" for z
    by (auto simp: eval_sequence_def Let_def rbind_Inr_iff)
  have spend: "eval_spend_limit e z c = Inr Undet \<longleftrightarrow>
      \<not> (has_asset (fld c (js ''asset'')) (claimed z) \<and> \<not> safe_amount (claimed z)) \<and>
      \<not> (\<not> nullish (fld c (js ''max_per_action'')) \<and> jlt (num_of (fld c (js ''max_per_action'')))
          (if has_asset (fld c (js ''asset'')) (claimed z) then amount_num (claimed z) else Fin 0)) \<and>
      \<not> nullish (fld c (js ''max_per_window'')) \<and> needs_all z c" for z
    by (auto simp: eval_spend_limit_def Let_def rbind_Inr_iff)
  note same = same_parts [OF assms] same_reads [OF assms]
  have pure: "eval_require_approval y c = eval_require_approval x c" "eval_time_window y c = eval_time_window x c"
    "eval_endpoint_allowlist e y c = eval_endpoint_allowlist e x c" "eval_endpoint_denylist e y c = eval_endpoint_denylist e x c"
    "eval_address_allowlist y c = eval_address_allowlist x c" "eval_address_denylist y c = eval_address_denylist x c"
    "eval_contract_allowlist y c = eval_contract_allowlist x c" "eval_action_allowlist e y c = eval_action_allowlist e x c"
    "eval_key_policy y c = eval_key_policy x c" "eval_force_push_guard y c = eval_force_push_guard x c"
    unfolding eval_require_approval_def eval_time_window_def eval_endpoint_allowlist_def eval_endpoint_denylist_def eval_address_allowlist_def
      eval_address_denylist_def eval_contract_allowlist_def eval_action_allowlist_def eval_key_policy_def eval_force_push_guard_def same
    by (rule refl)+
  show ?thesis unfolding eval_clause_def Let_def pure by (simp add: rate spend seq same)
qed

lemma same_record: "same_finding (record_of c i t b) (record_of c i t' b')"
  by (simp add: same_finding_def)

lemma same_findings:
  assumes "\<forall>c \<in> set cs. \<exists>r r'. eval_clause e x c = Inr r \<and> eval_clause e y c = Inr r' \<and> same_result r r'"
  shows "\<exists>fs gs und. clause_findings e x i cs = Inr (fs, und) \<and> clause_findings e y i cs = Inr (gs, und) \<and> list_all2 same_finding fs gs"
  using assms
proof (induction cs arbitrary: i)
  case (Cons c cs)
  then obtain r r' where r: "eval_clause e x c = Inr r" "eval_clause e y c = Inr r'" "same_result r r'" by auto
  obtain fs gs und where ih: "clause_findings e x (Suc i) cs = Inr (fs, und)" "clause_findings e y (Suc i) cs = Inr (gs, und)"
    "list_all2 same_finding fs gs" using Cons.IH [of "Suc i"] Cons.prems by auto
  from r(3) ih(3) show ?case by (cases r; cases r') (auto simp: r(1,2) ih(1,2) same_result_def same_record)
qed simp

lemma finding_le_same: "same_finding f g \<Longrightarrow> same_finding f' g' \<Longrightarrow> finding_le f f' = finding_le g g'"
  by (simp add: same_finding_def finding_le_def)

lemma insert_same: "same_finding f g \<Longrightarrow> list_all2 same_finding fs gs \<Longrightarrow> list_all2 same_finding (js_insert finding_le f fs) (js_insert finding_le g gs)"
proof (induction fs arbitrary: gs)
  case (Cons f' fs)
  then show ?case using finding_le_same [of f g f' "hd gs"] by (cases gs) simp_all
qed simp

lemma sort_same: "list_all2 same_finding fs gs \<Longrightarrow> list_all2 same_finding (js_sort finding_le fs) (js_sort finding_le gs)"
proof (induction fs arbitrary: gs)
  case (Cons f fs)
  then show ?case by (cases gs) (simp_all add: insert_same)
qed simp

text \<open>What a verdict decides: whether the action violates, the clause it names, and whether it is left undecided.\<close>

definition outcome_of :: "verdict \<Rightarrow> bool \<times> jsstr option \<times> bool" where
  "outcome_of v = (violated v, clause_id v, undetermined v)"

lemma decide_same:
  assumes "list_all2 same_finding fs gs"
  shows "outcome_of (decide h fs und) = outcome_of (decide h' gs und)"
proof (cases "fs = []")
  case True
  then show ?thesis using assms by (simp add: decide_def outcome_of_def mk_verdict_def split: option.splits)
next
  case False
  then have n: "js_sort finding_le fs \<noteq> []" "gs \<noteq> []" using assms js_sort_set [of finding_le fs] by (auto simp del: set_empty simp: set_empty [symmetric])
  from sort_same [OF assms] n(1) have "same_finding (hd (js_sort finding_le fs)) (hd (js_sort finding_le gs))"
    by (cases "js_sort finding_le fs"; cases "js_sort finding_le gs") simp_all
  with False n(2) show ?thesis by (simp add: decide_def outcome_of_def mk_verdict_def Let_def same_finding_def)
qed

lemma evaluate_same:
  assumes s: "same_recent e h x y" and x: "ctx_ok e x" "ctx_ok e y" and t: "times_ok e"
    and c: "\<forall>c \<in> set (clauses_of policy). clause_ok c \<and> durations_safe c \<and> reads_within c h"
  shows "\<exists>v w. evaluate e policy x k = Inr v \<and> evaluate e policy y k' = Inr w \<and> outcome_of w = outcome_of v"
proof -
  have "\<exists>r r'. eval_clause e x c = Inr r \<and> eval_clause e y c = Inr r' \<and> same_result r r'" if "c \<in> set (clauses_of policy)" for c
  proof -
    have ok: "clause_ok c" "durations_safe c" "reads_within c h" using c that by auto
    from eval_clause_iff [OF ok(1,2) t x(1)] eval_clause_iff [OF ok(1,2) t x(2)] obtain r r' where
      r: "eval_clause e x c = Inr r" "is_match r \<longleftrightarrow> \<not> clause_allows e x c" "eval_clause e y c = Inr r'" "is_match r' \<longleftrightarrow> \<not> clause_allows e y c" by blast
    then have "same_result r r'" using same_clause [OF s ok(3)] same_undet [OF s, of c] by (simp add: same_result_def)
    with r show ?thesis by blast
  qed
  from same_findings [OF ballI, OF this] obtain fs gs und where
    f: "clause_findings e x 0 (clauses_of policy) = Inr (fs, und)" "clause_findings e y 0 (clauses_of policy) = Inr (gs, und)"
    "list_all2 same_finding fs gs" by blast
  have same: "allowlist_findings y cs = allowlist_findings x cs" "uncovered_findings y cs = uncovered_findings x cs" for cs
    unfolding allowlist_findings_def uncovered_findings_def same_reads [OF s] by (rule refl)+
  have "list_all2 same_finding (allowlist_findings x cs @ uncovered_findings x cs @ fs) (allowlist_findings x cs @ uncovered_findings x cs @ gs)" for cs
    using f(3) by (intro list_all2_appendI list_all2_refl) (simp_all add: same_finding_def)
  then have "outcome_of (decide k' (allowlist_findings x cs @ uncovered_findings x cs @ gs) und) =
      outcome_of (decide k (allowlist_findings x cs @ uncovered_findings x cs @ fs) und)" for cs
    by (rule decide_same [symmetric])
  then show ?thesis by (simp add: evaluate_def f(1,2) same)
qed

subsection \<open>Evaluation on the bounded history\<close>

lemma bound_prior_recent:
  assumes t: "times_ok e" and n: "history_need e policy = Inr need" and a: "accepted e policy"
    and d: "\<forall>c \<in> set (clauses_of policy). durations_safe c"
    and at': "ms e (VStr s) = jint (at_ms x)"
  obtains (every) "bound_prior e need rs (VStr s) = rs"
  | (part) h keep where "\<forall>c \<in> set (clauses_of policy). reads_within c h"
      "map norm (bound_prior e need rs (VStr s)) = filter keep (map norm rs)"
      "\<And>b r. recent e x h (b, r) \<Longrightarrow> b \<or> keep r" "\<And>r r'. ms e (timestamp_of r) = ms e (timestamp_of r') \<Longrightarrow> keep r = keep r'"
proof -
  from a obtain pv where pv: "validate_policy e policy = Inr pv" "valid pv" by (auto simp: accepted_def split: sum.splits)
  show thesis
  proof (cases "need = Need_all")
    case True
    then show thesis by (intro every) (simp add: bound_prior_def)
  next
    case False
    with n pv obtain r where r: "horizon (clauses_of policy) (jint 0) = Inr (Some r)" "need = (if jlt (Fin 0) r then Need_window r else Need_none)"
      by (auto simp: history_need_def jint_zero split: sum.splits option.splits if_splits)
    have "\<forall>c \<in> set (clauses_of policy). clause_ok c \<and> durations_safe c" using accepted_clause [OF a] d by blast
    from horizon_covers [OF this r(1)] obtain h where h: "r = jint h" "0 \<le> h" "\<forall>c \<in> set (clauses_of policy). reads_within c h" by auto
    define keep where "keep = (\<lambda>v. 0 < h \<and> \<not> jle (ms e (timestamp_of v)) (jsub (jint (at_ms x)) (jint h)))"
    have m: "map norm (bound_prior e need rs (VStr s)) = filter keep (map norm rs)"
    proof (cases "0 < h")
      case True
      then have nd: "need = Need_window (jint h)" using r(2) h(1) by (simp add: jint_zero)
      have "is_finite_num (jint (at_ms x))" by (simp add: jint_def is_finite_num_def)
      then show ?thesis using True unfolding nd by (simp add: bound_prior_def at' keep_def filter_map o_def)
    next
      case False
      then show ?thesis using r(2) h(1,2) by (simp add: bound_prior_def keep_def jint_zero)
    qed
    have "keep v" if "recent e x h (False, v)" for v
    proof -
      from that obtain u where u: "parsed_time e v = Some u" "at_ms x - h < u" "u \<le> at_ms x" by (auto simp: recent_def split: option.splits)
      then have "jlt (jsub (jint (at_ms x)) (jint h)) (jint u)" using window_start_exact [of u] parsed_range [OF t u(1)] by simp
      then show ?thesis using u unfolding keep_def ms_parsed by (simp add: jle_def)
    qed
    then show thesis using h(3) m by (intro part [of h keep]) (auto simp: keep_def recent_def)
  qed
qed

lemma violates_outcome:
  assumes t: "times_ok e" and i: "inputs_ok e policy (VArr rs) claim opts" and ex: "executed_of (norm claim)"
    and d: "\<forall>c \<in> set (clauses_of policy). durations_safe c" and o: "opt_at opts = Some s" "s \<noteq> []"
    and n: "history_need e policy = Inr need" and al: "alike (\<lambda>r. ms e (timestamp_of r)) (map norm rs)"
  shows "\<exists>v w. violates e policy (VArr rs) claim opts = Inr v \<and>
    violates e policy (VArr (bound_prior e need rs (VStr s))) claim opts = Inr w \<and> outcome_of w = outcome_of v"
proof -
  let ?bs = "bound_prior e need rs (VStr s)"
  define x where "x = context_of e (VArr rs) claim opts"
  define y where "y = context_of e (VArr ?bs) claim opts"
  have a: "accepted e policy" using i by (simp add: inputs_ok_def)
  have "is_finite_num (ms e (VStr s))" using i o by (simp add: inputs_ok_def eval_at_def)
  then have at': "ms e (VStr s) = jint (at_ms x)"
    using o by (auto simp: x_def context_of_def eval_at_def ms_def num_int_def jint_def is_finite_num_def split: option.splits)
  have sub: "set ?bs \<subseteq> set rs" by (auto simp: bound_prior_def split: history_need.splits if_splits)
  then have iy: "inputs_ok e policy (VArr ?bs) claim opts" using i by (auto simp: inputs_ok_def list_all_iff elems_def)
  have xy: "claimed y = claimed x" "at_ms y = at_ms x" "incomplete y = incomplete x" by (simp_all add: x_def y_def context_of_def)
  have u: "unique x = executed_unique (map norm rs) (norm claim)" "unique y = executed_unique (map norm ?bs) (norm claim)"
    by (simp_all add: x_def y_def context_of_def elems_def)
  obtain h where h: "\<forall>c \<in> set (clauses_of policy). reads_within c h" "same_recent e h x y"
  proof (rule bound_prior_recent [OF t n a d at', of rs])
    assume "?bs = rs"
    then have "same_recent e h x y" for h by (simp add: same_recent_def xy u)
    moreover have "\<exists>h. \<forall>c \<in> set cs. reads_within c h" for cs
    proof (induction cs)
      case (Cons c cs)
      then obtain h where h: "\<forall>c \<in> set cs. reads_within c h" by blast
      define m where "m = max h (max (millis (fld c (js ''window''))) (max (millis (fld c (js ''min_gap''))) (millis (fld c (js ''forbidden_within'')))))"
      have "reads_within c m" by (auto simp: reads_within_def m_def)
      moreover have "\<forall>d \<in> set cs. reads_within d m" using h reads_within_mono [of _ h m] by (auto simp: m_def)
      ultimately have "\<forall>d \<in> set (c # cs). reads_within d m" by simp
      then show ?case by blast
    qed simp
    ultimately show thesis using that by blast
  next
    fix h keep
    assume k: "\<forall>c \<in> set (clauses_of policy). reads_within c h" "map norm ?bs = filter keep (map norm rs)"
      "\<And>b r. recent e x h (b, r) \<Longrightarrow> b \<or> keep r" "\<And>r r'. ms e (timestamp_of r) = ms e (timestamp_of r') \<Longrightarrow> keep r = keep r'"
    have "alike keep (map norm rs)" using al k(4) unfolding alike_def list_all_iff by blast
    from executed_unique_keep [OF this ex] have
      m: "mset (filter (\<lambda>(b, r). b \<or> keep r) (unique y)) = mset (filter (\<lambda>(b, r). b \<or> keep r) (unique x))" unfolding u k(2) .
    have f: "filter (recent e x h) (filter (\<lambda>(b, r). b \<or> keep r) ps) = filter (recent e x h) ps" for ps
      using k(3) by (auto simp: filter_filter intro: filter_cong)
    have "filter_mset (recent e x h) (mset (filter (\<lambda>(b, r). b \<or> keep r) (unique y))) =
      filter_mset (recent e x h) (mset (filter (\<lambda>(b, r). b \<or> keep r) (unique x)))" using m by (rule arg_cong)
    then have "same_recent e h x y" unfolding same_recent_def xy mset_filter [symmetric] f by simp
    then show thesis using k(1) that by blast
  qed
  from violates_evaluate [OF i ex] violates_evaluate [OF iy ex] obtain k k' where
    "violates e policy (VArr rs) claim opts = evaluate e policy x k" "violates e policy (VArr ?bs) claim opts = evaluate e policy y k'"
    unfolding x_def y_def by blast
  moreover have "ctx_ok e x" "ctx_ok e y" unfolding x_def y_def by (rule context_ctx_ok [OF i], rule context_ctx_ok [OF iy])
  moreover have "\<forall>c \<in> set (clauses_of policy). clause_ok c \<and> durations_safe c \<and> reads_within c h"
    using accepted_clause [OF a] d h(1) by blast
  ultimately show ?thesis using evaluate_same [OF h(2) _ _ t] by metis
qed

subsection \<open>The property\<close>

text \<open>C34: leaving out what \<open>boundPrior\<close> leaves out of the history, for the need that \<open>historyNeed\<close> states, does not change what
  \<open>violates\<close> decides: the same verdict, naming the same clause, left undecided alike. The history is well formed (executed
  receipts are valid and have a time) and the receipts of one occurrence carry the same time.\<close>

theorem bounded_history_same_verdict:
  assumes "times_ok e" "inputs_ok e policy (VArr rs) claim opts" "executed_of (norm claim)" "\<forall>c \<in> set (clauses_of policy). durations_safe c"
    and "opt_at opts = Some s" "s \<noteq> []" "history_need e policy = Inr need" "alike (\<lambda>r. ms e (timestamp_of r)) (map norm rs)"
  shows "\<exists>v w. violates e policy (VArr rs) claim opts = Inr v \<and>
    violates e policy (VArr (bound_prior e need rs (VStr s))) claim opts = Inr w \<and> outcome_of w = outcome_of v"
  by (rule violates_outcome [OF assms])

text \<open>A payment of the day before is left out.\<close>

definition at_now :: options where
  "at_now = \<lparr> opt_at = Some (js ''now''), opt_complete = None \<rparr>"

definition two_days :: "jsval list" where
  "two_days = [payment ''o'' 120 ''old'', payment ''a'' 60 ''now'']"

lemma two_days_inputs: "inputs_ok demo_env demo_policy (VArr two_days) (payment ''b'' 80 ''now'') at_now"
  unfolding inputs_ok_def using demo_accepted by (intro conjI) (assumption | code_simp)+

lemma demo_window: "duration_of (fld demo_clause (js ''window'')) = Inr (jint 86400000)"
proof -
  have "millis (fld demo_clause (js ''window'')) = 86400000" "duration_string (fld demo_clause (js ''window''))"
    by (code_simp, simp add: demo_clause_def js_simps duration_string_def, code_simp)
  then show ?thesis using duration_of_exact [of "fld demo_clause (js ''window'')"] by (simp add: max_safe_def)
qed

lemma two_days_need: "history_need demo_env demo_policy = Inr (Need_window (jint 86400000))"
proof -
  have t: "is_type demo_clause ''spend_limit''" "\<not> is_type demo_clause ''rate_limit''" "\<not> nullish (fld demo_clause (js ''max_per_window''))"
    by code_simp+
  have "horizon [demo_clause] (jint 0) = Inr (Some (jint 86400000))" using t by (simp add: demo_window)
  moreover have "is_safe_int (jint 86400000)" by (simp add: is_safe_int_def jint_def max_safe_def)
  ultimately show ?thesis using demo_accepted by (auto simp: history_need_def accepted_def jint_zero split: sum.splits)
qed

lemma two_days_bound: "bound_prior demo_env (Need_window (jint 86400000)) two_days (VStr (js ''now'')) = [payment ''a'' 60 ''now'']"
  by code_simp

lemma two_days_alike: "alike (\<lambda>r. ms demo_env (timestamp_of r)) (map norm two_days)"
  by code_simp

theorem bounded_history_same_verdict_witness:
  "\<exists>v w. violates demo_env demo_policy (VArr two_days) (payment ''b'' 80 ''now'') at_now = Inr v \<and>
    violates demo_env demo_policy (VArr [payment ''a'' 60 ''now'']) (payment ''b'' 80 ''now'') at_now = Inr w \<and> outcome_of w = outcome_of v"
  using bounded_history_same_verdict [OF demo_times two_days_inputs demo_executed demo_durations _ _ two_days_need two_days_alike, of "js ''now''"]
  unfolding two_days_bound by (simp add: at_now_def js_simps)

end
