(* ===== verification/AllowPatterns.thy ===== *)
theory AllowPatterns
  imports Endpoint
begin

section \<open>Pattern allowances: their shape and bounds\<close>

text \<open>
  \<^verbatim>\<open>packages/policy-schema/src/allow-patterns.ts\<close>: what a person may allow beyond one exact action, and the check that every bound
  of it is narrow. Paths are compared segment by segment; \<open>toLowerCase\<close> and the platform are those of the \<open>computer\<close>.
\<close>

record computer =
  lower_text :: "jsstr \<Rightarrow> jsstr"
  windows :: bool

subsection \<open>Words and limits\<close>

definition allow_pattern_kinds :: "string list" where
  "allow_pattern_kinds = [''path_prefix'', ''path_glob'', ''package_name'', ''host'', ''mcp_tool'']"

definition max_patterns :: nat where "max_patterns = 8"
definition max_title :: nat where "max_title = 80"
definition max_value :: nat where "max_value = 500"
definition max_project :: nat where "max_project = 1000"
definition max_with :: nat where "max_with = 4"

definition delete_recipe :: jsstr where
  "delete_recipe = js ''delete-in-folder''"

text \<open>A word of one first character and at most \<open>n\<close> more.\<close>

definition word_re :: "(nat \<Rightarrow> bool) \<Rightarrow> (nat \<Rightarrow> bool) \<Rightarrow> nat \<Rightarrow> jsstr \<Rightarrow> bool" where
  "word_re start rest n s = (case s of [] \<Rightarrow> False | c # cs \<Rightarrow> start c \<and> length cs \<le> n \<and> list_all rest cs)"

definition id_char :: "nat \<Rightarrow> bool" where
  "id_char c \<longleftrightarrow> is_lower c \<or> is_digit c \<or> c = 46 \<or> c = 95 \<or> c = 45"

definition id_re :: "jsstr \<Rightarrow> bool" where
  "id_re = word_re (\<lambda>c. is_lower c \<or> is_digit c) id_char 63"

definition param_re :: "jsstr \<Rightarrow> bool" where
  "param_re = word_re (\<lambda>c. is_lower c \<or> c = 95) (\<lambda>c. is_lower c \<or> is_digit c \<or> c = 95) 63"

definition program_re :: "jsstr \<Rightarrow> bool" where
  "program_re = word_re (\<lambda>c. is_lower c \<or> is_digit c) id_char 63"

definition host_label :: "jsstr \<Rightarrow> bool" where
  "host_label l \<longleftrightarrow> l \<noteq> [] \<and> length l \<le> 63 \<and> list_all (\<lambda>c. is_lower c \<or> is_digit c \<or> c = 45) l \<and> hd l \<noteq> 45 \<and> last l \<noteq> 45"

definition host_re :: "jsstr \<Rightarrow> bool" where
  "host_re s \<longleftrightarrow> s \<noteq> [] \<and> length s \<le> 253 \<and> list_all host_label (js_split 46 s)"

definition name_re :: "jsstr \<Rightarrow> bool" where
  "name_re s \<longleftrightarrow> s \<noteq> [] \<and> length s \<le> 128 \<and>
     list_all (\<lambda>c. is_upper c \<or> is_lower c \<or> is_digit c \<or> c = 95 \<or> c = 46 \<or> c = 58 \<or> c = 45) s"

text \<open>\<open>RUNTIME_OR_WILDCARD\<close> and, without the two wildcards, the class the last segment of a file pattern is tested for.\<close>

definition runtime_char :: "nat \<Rightarrow> bool" where
  "runtime_char c \<longleftrightarrow> c \<in> set (js ''[]{}$`%'')"

definition runtime_or_wildcard :: "nat \<Rightarrow> bool" where
  "runtime_or_wildcard c \<longleftrightarrow> c = 42 \<or> c = 63 \<or> runtime_char c"

text \<open>A hidden character is one code unit: none of the ranges lies in the surrogates or above them.\<close>

definition hidden_char :: "nat \<Rightarrow> bool" where
  "hidden_char c \<longleftrightarrow> c < 0x20 \<or> c = 0x7f \<or> (0x200b \<le> c \<and> c \<le> 0x200f) \<or> (0x202a \<le> c \<and> c \<le> 0x202e) \<or>
     (0x2060 \<le> c \<and> c \<le> 0x2069) \<or> c = 0xfeff \<or> c = 0x2028 \<or> c = 0x2029"

definition plain_text :: "jsval \<Rightarrow> nat \<Rightarrow> bool" where
  "plain_text v n = (case v of VStr s \<Rightarrow> s \<noteq> [] \<and> length s \<le> n \<and> js_trim s = s \<and> \<not> list_ex hidden_char s | _ \<Rightarrow> False)"

subsection \<open>Paths\<close>

definition letter_drive :: "(nat \<Rightarrow> bool) \<Rightarrow> jsstr \<Rightarrow> bool" where
  "letter_drive letter p = (case p of a # b # _ \<Rightarrow> letter a \<and> b = 58 | _ \<Rightarrow> False)"

definition drive_path :: "(nat \<Rightarrow> bool) \<Rightarrow> jsstr \<Rightarrow> bool" where
  "drive_path letter p = (case p of a # b # c # _ \<Rightarrow> letter a \<and> b = 58 \<and> c = 47 | _ \<Rightarrow> False)"

definition is_letter :: "nat \<Rightarrow> bool" where
  "is_letter c \<longleftrightarrow> is_lower c \<or> is_upper c"

definition root_of :: "jsstr \<Rightarrow> jsstr option" where
  "root_of p =
     (if starts_with p (js ''~/'') then Some (js ''~/'')
      else if drive_path is_lower p then Some (take 3 p)
      else if starts_with p (js ''/'') then Some (js ''/'')
      else None)"

definition clean_segments :: "jsstr \<Rightarrow> jsstr list option" where
  "clean_segments rest =
     (if rest = [] then Some []
      else let segs = js_split 47 rest in
        if list_all (\<lambda>s. s \<noteq> [] \<and> s \<noteq> js ''.'' \<and> s \<noteq> js ''..'') segs then Some segs else None)"

definition full_path_segments :: "jsstr \<Rightarrow> jsstr list option" where
  "full_path_segments p =
     (case root_of p of
        None \<Rightarrow> None
      | Some r \<Rightarrow>
          if 92 \<in> set p \<or> list_ex runtime_or_wildcard p then None
          else case clean_segments (drop (length r) p) of
            Some segs \<Rightarrow> if segs \<noteq> [] then Some segs else None
          | None \<Rightarrow> None)"

fun double_star :: "jsstr \<Rightarrow> bool" where
  "double_star (a # b # s) \<longleftrightarrow> (a = 42 \<and> b = 42) \<or> double_star (b # s)"
| "double_star _ \<longleftrightarrow> False"

definition relative_segments :: "jsstr \<Rightarrow> bool \<Rightarrow> jsstr list option" where
  "relative_segments p glob =
     (if p = js ''.'' then Some []
      else if \<not> Option.is_none (root_of p) \<or> letter_drive is_letter p \<or> starts_with p (js ''~'') \<or> 92 \<in> set p then None
      else case clean_segments p of
        None \<Rightarrow> None
      | Some segs \<Rightarrow>
          if segs = [] then None
          else let l = last segs in
            if list_ex (list_ex runtime_or_wildcard) (butlast segs) then None
            else if \<not> glob then (if list_ex runtime_or_wildcard l then None else Some segs)
            else if list_ex runtime_char l \<or> double_star l then None else Some segs)"

definition same_segment :: "computer \<Rightarrow> bool \<Rightarrow> jsstr \<Rightarrow> jsstr \<Rightarrow> bool" where
  "same_segment pc fold' s t \<longleftrightarrow> (if fold' then lower_text pc s = lower_text pc t else s = t)"

definition within_segments :: "computer \<Rightarrow> jsstr list \<Rightarrow> jsstr list \<Rightarrow> bool \<Rightarrow> bool" where
  "within_segments pc inner outer fold' \<longleftrightarrow>
     \<not> length inner < length outer \<and> list_all2 (same_segment pc fold') outer (take (length outer) inner)"

subsection \<open>Recipes\<close>

definition is_kind :: "jsval \<Rightarrow> bool" where
  "is_kind v = (case v of VStr s \<Rightarrow> s \<in> set (map js allow_pattern_kinds) | _ \<Rightarrow> False)"

definition keys_in :: "jsval \<Rightarrow> string list \<Rightarrow> bool" where
  "keys_in v ks \<longleftrightarrow> list_all (\<lambda>(k, _). k \<in> set (map js ks)) (members v)"

definition str_test :: "(jsstr \<Rightarrow> bool) \<Rightarrow> jsval \<Rightarrow> bool" where
  "str_test P v = (case v of VStr s \<Rightarrow> P s | _ \<Rightarrow> False)"

definition when_err :: "bool \<Rightarrow> jsstr \<Rightarrow> jsstr list" where
  "when_err b s = (if b then [s] else [])"

text \<open>One recipe, with the ids seen before it; the errors, and the ids seen after it.\<close>

definition recipe_errors :: "jsstr \<Rightarrow> jsstr list \<Rightarrow> jsval \<Rightarrow> jsstr list \<times> jsstr list" where
  "recipe_errors at' ids p =
     (if \<not> is_obj p then ([at' @ js '' must be an object''], ids)
      else
        let unknown = filter (\<lambda>k. k \<notin> set (map js [''id'', ''title'', ''param'', ''kind''])) (map fst (members p));
            u = (case unknown of [] \<Rightarrow> [] | k # _ \<Rightarrow> [at' @ js '' has unknown field '' @ k]);
            (i, ids') = (case fld p (js ''id'') of
                VStr s \<Rightarrow> if \<not> id_re s then ([at' @ js ''.id must be a lower-case id''], ids)
                          else if s \<in> set ids then ([at' @ js ''.id repeats '' @ s], ids) else ([], s # ids)
              | _ \<Rightarrow> ([at' @ js ''.id must be a lower-case id''], ids)) in
        (u @ i
         @ when_err (\<not> plain_text (fld p (js ''title'')) max_title)
             (at' @ js ''.title must be 1 to '' @ int_text (int max_title) @ js '' characters of plain text'')
         @ when_err (\<not> str_test param_re (fld p (js ''param''))) (at' @ js ''.param must name a parameter'')
         @ when_err (\<not> is_kind (fld p (js ''kind'')))
             (at' @ js ''.kind must be one of '' @ js_join (js '', '') (map js allow_pattern_kinds)), ids'))"

fun recipes_errors :: "jsstr \<Rightarrow> nat \<Rightarrow> jsstr list \<Rightarrow> jsval list \<Rightarrow> jsstr list" where
  "recipes_errors at' i ids [] = []"
| "recipes_errors at' i ids (p # ps) =
     (let (es, ids') = recipe_errors (at' @ js ''['' @ int_text (int i) @ js '']'') ids p in es @ recipes_errors at' (Suc i) ids' ps)"

definition allow_pattern_errors :: "jsval \<Rightarrow> jsstr \<Rightarrow> jsstr list" where
  "allow_pattern_errors v at' =
     (case v of
        VArr ps \<Rightarrow>
          if ps = [] \<or> max_patterns < length ps then [at' @ js '' must hold 1 to '' @ int_text (int max_patterns) @ js '' recipes'']
          else recipes_errors at' 0 [] ps
      | _ \<Rightarrow> [at' @ js '' must be a list''])"

definition valid_allow_patterns :: "jsval \<Rightarrow> bool" where
  "valid_allow_patterns v \<longleftrightarrow> allow_pattern_errors v (js ''allow_patterns'') = []"

subsection \<open>Bounds\<close>

definition text_of :: "jsval \<Rightarrow> jsstr" where
  "text_of v = (case v of VStr s \<Rightarrow> s | _ \<Rightarrow> [])"

definition valid_with :: "jsval \<Rightarrow> bool" where
  "valid_with b \<longleftrightarrow>
     (let w = fld b (js ''with'') in
      w = VUndef \<or>
      (is_obj w \<and> length (members w) \<le> max_with \<and>
       list_all (\<lambda>(k, x). param_re k \<and> VStr k \<noteq> fld b (js ''param'') \<and> plain_text x 200) (members w)))"

text \<open>What depends on the kind of the bounds; the built-in delete recipe is told by its program.\<close>

definition valid_delete_bounds :: "computer \<Rightarrow> jsval \<Rightarrow> jsstr list \<Rightarrow> bool" where
  "valid_delete_bounds pc b project \<longleftrightarrow>
     fld b (js ''kind'') = VStr (js ''path_prefix'') \<and> str_test program_re (fld b (js ''program'')) \<and>
     (let v = text_of (fld b (js ''value'')); p = text_of (fld b (js ''project'')) in
      case full_path_segments v of
        None \<Rightarrow> False
      | Some value \<Rightarrow>
          map_option (lower_text pc) (root_of v) = map_option (lower_text pc) (root_of p) \<and>
          within_segments pc value project (drive_path is_lower p))"

definition valid_kind_bounds :: "jsval \<Rightarrow> bool" where
  "valid_kind_bounds b \<longleftrightarrow>
     (let k = fld b (js ''kind''); v = text_of (fld b (js ''value'')); w = fld b (js ''with'') in
      if k = VStr (js ''path_prefix'') then \<not> Option.is_none (relative_segments v False)
      else if k = VStr (js ''path_glob'') then \<not> Option.is_none (relative_segments v True) \<and> v \<noteq> js ''.''
      else if k = VStr (js ''package_name'') then length v \<le> 214 \<and> \<not> list_ex (\<lambda>c. is_space c \<or> c = 42 \<or> c = 63) v
      else if k = VStr (js ''host'') then host_re v
      else if k = VStr (js ''mcp_tool'') then name_re v \<and> is_obj w \<and> str_test name_re (fld w (js ''server''))
      else False)"

definition valid_bounds :: "computer \<Rightarrow> jsval \<Rightarrow> bool" where
  "valid_bounds pc b \<longleftrightarrow>
     is_obj b \<and> keys_in b [''kind'', ''param'', ''value'', ''project'', ''program'', ''with''] \<and>
     is_kind (fld b (js ''kind'')) \<and> str_test param_re (fld b (js ''param'')) \<and>
     plain_text (fld b (js ''value'')) max_value \<and> plain_text (fld b (js ''project'')) max_project \<and>
     (case full_path_segments (text_of (fld b (js ''project''))) of
        None \<Rightarrow> False
      | Some project \<Rightarrow>
          valid_with b \<and>
          (if fld b (js ''program'') \<noteq> VUndef then valid_delete_bounds pc b project else valid_kind_bounds b))"

definition action_type_re :: "jsstr \<Rightarrow> bool" where
  "action_type_re t \<longleftrightarrow>
     (let ws = js_split 46 t in
      length t \<le> 64 \<and> 2 \<le> length ws \<and> length ws \<le> 4 \<and>
      list_all (\<lambda>w. w \<noteq> [] \<and> is_lower (hd w) \<and> list_all (\<lambda>c. is_lower c \<or> is_digit c \<or> c = 95) (tl w)) ws)"

definition rule_re :: "jsstr \<Rightarrow> bool" where
  "rule_re s \<longleftrightarrow> s \<noteq> [] \<and> length s \<le> 64 \<and> list_all (\<lambda>c. is_lower c \<or> is_digit c \<or> c = 45) s"

definition valid_allowance_match :: "computer \<Rightarrow> jsval \<Rightarrow> bool" where
  "valid_allowance_match pc v \<longleftrightarrow>
     is_obj v \<and> keys_in v [''rule'', ''action_type'', ''recipe'', ''bounds''] \<and>
     str_test rule_re (fld v (js ''rule'')) \<and> str_test action_type_re (fld v (js ''action_type'')) \<and>
     str_test id_re (fld v (js ''recipe'')) \<and> valid_bounds pc (fld v (js ''bounds'')) \<and>
     (let b = fld v (js ''bounds''); built_in = (fld v (js ''recipe'') = VStr delete_recipe) in
      (built_in \<longleftrightarrow> fld b (js ''program'') \<noteq> VUndef) \<and>
      (built_in \<longrightarrow> fld v (js ''action_type'') = VStr (js ''shell.exec'') \<and> fld b (js ''param'') = VStr (js ''delete_targets'')))"

end
