(* ===== verification/Patterns.thy ===== *)
theory Patterns
  imports AllowPatterns
begin

section \<open>Places a delete never reaches, and how the hook spells a path\<close>

text \<open>
  The protected names of \<^verbatim>\<open>packages/hook/src/delete-scope.ts\<close>, the program name of \<^verbatim>\<open>packages/hook/src/shell.ts\<close>, and the
  comparison of paths in \<^verbatim>\<open>packages/hook/src/pattern-recipes.ts\<close>.
\<close>

subsection \<open>Texts\<close>

definition ascii_lower :: "jsstr \<Rightarrow> jsstr" where
  "ascii_lower = map (\<lambda>c. if is_upper c then c + 32 else c)"

fun contains :: "jsstr \<Rightarrow> jsstr \<Rightarrow> bool" where
  "contains t [] \<longleftrightarrow> t = []"
| "contains t (c # s) \<longleftrightarrow> starts_with (c # s) t \<or> contains t s"

subsection \<open>Protected places\<close>

definition protected_anywhere :: "jsstr list" where
  "protected_anywhere = map js [''.git'', ''.scopebond'', ''.ssh'', ''.aws'', ''.gnupg'', ''.azure'', ''.kube'', ''.docker'']"

definition protected_named :: "jsstr list" where
  "protected_named = map js [''.github'', ''.claude'', ''.cursor'', ''.codex'', ''.copilot'', ''.husky'', ''.githooks'', ''.circleci'',
     ''.buildkite'', ''.config'', ''.mcp.json'', ''.gitlab-ci.yml'', ''.gitlab-ci.yaml'', ''jenkinsfile'', ''azure-pipelines.yml'',
     ''azure-pipelines.yaml'', ''bitbucket-pipelines.yml'', ''.travis.yml'', ''.drone.yml'', ''cloudbuild.yml'', ''cloudbuild.yaml'',
     ''.envrc'', ''.npmrc'', ''.pypirc'', ''.netrc'', ''_netrc'', ''.git-credentials'', ''.credentials.json'']"

definition protected_places :: "jsstr list" where
  "protected_places = map js [''.github/workflows'', ''.github/actions'', ''.github/hooks'', ''.github/copilot'', ''.claude/settings.json'',
     ''.claude/settings.local.json'', ''.claude/hooks'', ''.claude/agents'', ''.claude/.credentials.json'', ''.cursor/hooks'',
     ''.cursor/hooks.json'', ''.cursor/mcp.json'', ''.codex/hooks.json'', ''.codex/config.toml'', ''.copilot/hooks'',
     ''.copilot/settings.json'', ''.copilot/mcp-config.json'', ''.config/gh'', ''.config/gcloud'']"

definition in_protected_place :: "computer \<Rightarrow> jsstr list \<Rightarrow> bool" where
  "in_protected_place pc segs \<longleftrightarrow>
     list_ex (\<lambda>place. contains (js ''/'' @ place @ js ''/'') (js ''/'' @ lower_text pc (js_join (js ''/'') segs) @ js ''/'')) protected_places"

definition secret_file :: "jsstr \<Rightarrow> bool" where
  "secret_file s \<longleftrightarrow> list_ex (ends_with (ascii_lower s)) (map js [''.key'', ''.pem'', ''.p12'', ''.pfx'', ''.jks'', ''.keystore''])"

definition env_template :: "jsstr \<Rightarrow> bool" where
  "env_template s \<longleftrightarrow> list_ex (ends_with (ascii_lower s)) (map js [''.example'', ''.sample'', ''.template'', ''.dist''])"

definition is_protected_name :: "computer \<Rightarrow> jsstr \<Rightarrow> bool" where
  "is_protected_name pc seg \<longleftrightarrow>
     (let s = lower_text pc seg in
      s \<in> set protected_anywhere \<or> s \<in> set protected_named \<or> secret_file s \<or>
      ((s = js ''.env'' \<or> starts_with s (js ''.env.'')) \<and> \<not> env_template s))"

definition names_protected_place :: "computer \<Rightarrow> jsstr list \<Rightarrow> bool" where
  "names_protected_place pc segs \<longleftrightarrow> list_ex (is_protected_name pc) segs \<or> in_protected_place pc segs"

definition delete_programs :: "jsstr list" where
  "delete_programs = map js [''rm'', ''rmdir'', ''unlink'', ''del'', ''erase'', ''rd'', ''deltree'', ''remove-item'', ''ri'']"

subsection \<open>Programs\<close>

text \<open>\<open>^.*[\\/]\<close> stays in the first line: the dot matches no line terminator.\<close>

definition base_name :: "jsstr \<Rightarrow> jsstr" where
  "base_name t =
     (let line = takeWhile (\<lambda>c. \<not> line_terminator c) t; rest = dropWhile (\<lambda>c. \<not> line_terminator c) t in
      rev (takeWhile (\<lambda>c. c \<noteq> 47 \<and> c \<noteq> 92) (rev line)) @ rest)"

definition strip_suffix :: "jsstr list \<Rightarrow> jsstr \<Rightarrow> jsstr" where
  "strip_suffix exts s = (case find (ends_with s) exts of None \<Rightarrow> s | Some x \<Rightarrow> take (length s - length x) s)"

definition canon_program :: "computer \<Rightarrow> jsstr \<Rightarrow> jsstr" where
  "canon_program pc t = strip_suffix (map js [''.exe'', ''.cmd'', ''.bat'', ''.com'', ''.ps1'']) (lower_text pc (base_name t))"

subsection \<open>Rules and paths\<close>

definition never_off_rule_ids :: "jsstr list" where
  "never_off_rule_ids = map js [''protect-scopebond-read'', ''protect-scopebond-write'', ''guardrail-config-write'', ''self-disable'',
     ''safe-install-malware'', ''blocked-services'', ''session-budgets'']"

definition rule_patternable :: "jsstr \<Rightarrow> bool" where
  "rule_patternable r \<longleftrightarrow> r \<notin> set never_off_rule_ids"

definition fold_case :: "computer \<Rightarrow> jsstr \<Rightarrow> bool" where
  "fold_case pc p \<longleftrightarrow> windows pc \<or> drive_path is_letter p"

text \<open>The loop that cuts trailing slashes, on the text read backwards, and the backslashes turned.\<close>

fun cut_slashes :: "jsstr \<Rightarrow> jsstr" where
  "cut_slashes (c # d # s) = (if c = 47 then cut_slashes (d # s) else c # d # s)"
| "cut_slashes s = s"

definition slash_form :: "jsstr \<Rightarrow> jsstr" where
  "slash_form p = rev (cut_slashes (rev (map (\<lambda>c. if c = 92 then 47 else c) p)))"

definition path_key :: "computer \<Rightarrow> jsstr \<Rightarrow> jsstr" where
  "path_key pc p = (let s = slash_form p in if fold_case pc s then lower_text pc s else s)"

definition engine_path :: "computer \<Rightarrow> jsstr \<Rightarrow> jsstr" where
  "engine_path pc p =
     (let t = slash_form p in
      if drive_path is_letter t then lower_text pc (take 1 t) @ drop 1 t
      else if starts_with t (js ''/'') \<and> (case t of _ # a # b # _ \<Rightarrow> is_letter a \<and> b = 47 | _ \<Rightarrow> False)
      then lower_text pc (take 1 (drop 1 t)) @ js '':'' @ drop 2 t
      else t)"

end
