(* ===== verification/Allowances.thy ===== *)
theory Allowances
  imports Patterns Violates "HOL-Library.While_Combinator"
begin

section \<open>Allowances\<close>

text \<open>
  \<^verbatim>\<open>packages/hook/src/allowances.ts\<close>: what a person or an admin lets through although a rule blocks it. An allowance is a value read
  from a file or from the workspace, checked by \<open>valid_allowance\<close>; the file's text is parsed before (\<open>None\<close>: it could not be read
  or parsed). Random ids and the clock are arguments.
\<close>

definition day_ms :: int where
  "day_ms = 86400000"

definition allowance_default_days :: int where "allowance_default_days = 30"
definition allowance_max_days :: int where "allowance_max_days = 365"
definition quiet_block_days :: int where "quiet_block_days = 30"

subsection \<open>The shape of an allowance\<close>

definition allowance_id :: "jsstr \<Rightarrow> bool" where
  "allowance_id s \<longleftrightarrow> starts_with s (js ''alw_'') \<and> 16 \<le> length (drop 4 s) \<and> length (drop 4 s) \<le> 64 \<and>
     list_all (\<lambda>c. is_letter c \<or> is_digit c \<or> c = 95 \<or> c = 45) (drop 4 s)"

definition one_of :: "string list \<Rightarrow> jsval \<Rightarrow> bool" where
  "one_of ws v = (case v of VStr s \<Rightarrow> s \<in> set (map js ws) | _ \<Rightarrow> False)"

text \<open>\<open>Date.parse\<close> of a text.\<close>

definition date_of :: "env \<Rightarrow> jsval \<Rightarrow> jnum" where
  "date_of e v = (case v of VStr s \<Rightarrow> (case date_parse e s of None \<Rightarrow> NaN | Some t \<Rightarrow> jint t) | _ \<Rightarrow> NaN)"

definition is_date :: "env \<Rightarrow> jsval \<Rightarrow> bool" where
  "is_date e v \<longleftrightarrow> is_str v \<and> is_finite_num (date_of e v)"

definition int_at_least :: "int \<Rightarrow> jsval \<Rightarrow> bool" where
  "int_at_least i v = (case v of VNum n \<Rightarrow> is_integer_num n \<and> jle (jint i) n | _ \<Rightarrow> False)"

definition num_value :: "jsval \<Rightarrow> jnum" where
  "num_value v = (case v of VNum n \<Rightarrow> n | _ \<Rightarrow> NaN)"

definition valid_reason :: "jsval \<Rightarrow> bool" where
  "valid_reason x \<longleftrightarrow>
     (let d = fld x (js ''reason_digest''); l = fld x (js ''reason_length'') in
      (d = VNull \<and> l = VNum (Fin 0)) \<or> (str_test is_hex64 d \<and> int_at_least 1 l \<and> jle (num_value l) (Fin 500)))"

definition valid_allowance :: "env \<Rightarrow> computer \<Rightarrow> jsval \<Rightarrow> bool" where
  "valid_allowance e pc x \<longleftrightarrow>
     (is_obj x \<or> is_arr x) \<and> str_test allowance_id (fld x (js ''id'')) \<and> str_test rule_re (fld x (js ''rule'')) \<and>
     str_test is_hex64 (fld x (js ''action_key'')) \<and> one_of [''computer'', ''person'', ''session''] (fld x (js ''scope'')) \<and>
     (fld x (js ''os_user_digest'') = VNull \<or> str_test is_hex64 (fld x (js ''os_user_digest''))) \<and>
     one_of [''active'', ''proposed'', ''revoked''] (fld x (js ''state'')) \<and> is_bool (fld x (js ''once'')) \<and>
     valid_reason x \<and>
     one_of [''person'', ''workspace''] (fld x (js ''created_by'')) \<and> is_date e (fld x (js ''created_at'')) \<and>
     is_date e (fld x (js ''expires_at'')) \<and> int_at_least 0 (fld x (js ''uses'')) \<and>
     (fld x (js ''scope'') = VStr (js ''person'') \<longrightarrow> is_str (fld x (js ''os_user_digest''))) \<and>
     (if fld x (js ''scope'') = VStr (js ''session'')
      then str_test (\<lambda>s. 1 \<le> length s \<and> length s \<le> 200) (fld x (js ''session_id'')) else fld x (js ''session_id'') = VUndef) \<and>
     (fld x (js ''kind'') = VUndef \<or> one_of [''allow'', ''quiet''] (fld x (js ''kind''))) \<and>
     (fld x (js ''match'') = VUndef \<or>
       (valid_allowance_match pc (fld x (js ''match'')) \<and> fld (fld x (js ''match'')) (js ''rule'') = fld x (js ''rule'') \<and>
        rule_patternable (text_of (fld x (js ''rule''))) \<and> fld x (js ''kind'') \<noteq> VStr (js ''quiet'')))"

definition read_allowances :: "env \<Rightarrow> computer \<Rightarrow> jsval option \<Rightarrow> jsval list" where
  "read_allowances e pc file =
     (case file of None \<Rightarrow> [] | Some parsed \<Rightarrow> filter (valid_allowance e pc) (elems (fld parsed (js ''items''))))"

definition newest :: "nat \<Rightarrow> 'a list \<Rightarrow> 'a list" where
  "newest n xs = drop (length xs - n) xs"

definition write_allowances :: "env \<Rightarrow> jsval list \<Rightarrow> int \<Rightarrow> jsval" where
  "write_allowances e items now =
     VObj [(js ''version'', VNum (jint 1)),
       (js ''items'', VArr (newest 1000 (filter (\<lambda>a. jlt (jint (now - 7 * day_ms)) (date_of e (fld a (js ''expires_at'')))) items)))]"

subsection \<open>Matching\<close>

text \<open>What an allowance is asked about: the rule, who asks, and when; and the exact action's key.\<close>

record asker =
  q_rule :: jsstr
  q_user :: "jsstr option"
  q_now :: int
  q_session :: "jsstr option"

record exact_query = asker +
  q_key :: jsstr

definition in_scope :: "jsval \<Rightarrow> 'a asker_scheme \<Rightarrow> bool" where
  "in_scope a q \<longleftrightarrow>
     fld a (js ''scope'') = VStr (js ''computer'') \<or>
     (if fld a (js ''scope'') = VStr (js ''session'')
      then (case q_session q of Some s \<Rightarrow> s \<noteq> [] \<and> fld a (js ''session_id'') = VStr s | None \<Rightarrow> False)
      else (case q_user q of Some u \<Rightarrow> fld a (js ''os_user_digest'') = VStr u | None \<Rightarrow> False))"

text \<open>Active, not ended, under the rule asked about, not expired.\<close>

definition standing :: "env \<Rightarrow> jsval \<Rightarrow> 'a asker_scheme \<Rightarrow> bool" where
  "standing e a q \<longleftrightarrow>
     fld a (js ''state'') = VStr (js ''active'') \<and> \<not> truthy (fld a (js ''ended_at'')) \<and> fld a (js ''rule'') = VStr (q_rule q) \<and>
     jlt (jint (q_now q)) (date_of e (fld a (js ''expires_at'')))"

definition is_quiet :: "jsval \<Rightarrow> bool" where
  "is_quiet a \<longleftrightarrow> fld a (js ''kind'') = VStr (js ''quiet'')"

definition used_up :: "jsval \<Rightarrow> bool" where
  "used_up a \<longleftrightarrow> truthy (fld a (js ''once'')) \<and> jlt (Fin 0) (num_value (fld a (js ''uses'')))"

definition match_allowance :: "env \<Rightarrow> jsval list \<Rightarrow> exact_query \<Rightarrow> jsval option" where
  "match_allowance e items q =
     find (\<lambda>a. \<not> is_quiet a \<and> fld a (js ''match'') = VUndef \<and> standing e a q \<and> fld a (js ''action_key'') = VStr (q_key q) \<and>
       \<not> used_up a \<and> in_scope a q) items"

definition match_quiet_block :: "env \<Rightarrow> jsval list \<Rightarrow> exact_query \<Rightarrow> jsval option" where
  "match_quiet_block e items q =
     find (\<lambda>a. is_quiet a \<and> standing e a q \<and> fld a (js ''action_key'') = VStr (q_key q) \<and> in_scope a q) items"

subsection \<open>File names with wildcards\<close>

text \<open>The two-pointer walk: the places in the pattern and the name, and after a star the star's place and the place in the name
  it was met at; \<open>None\<close> when the walk returned \<open>false\<close>.\<close>

record walk =
  w_i :: nat
  w_j :: nat
  w_star :: "nat option"
  w_mark :: nat

definition wildcard_step :: "jsstr \<Rightarrow> jsstr \<Rightarrow> walk option \<Rightarrow> walk option" where
  "wildcard_step p n st =
     (case st of None \<Rightarrow> None
      | Some w \<Rightarrow>
          if w_i w < length p \<and> (p ! w_i w = 63 \<or> p ! w_i w = n ! w_j w) then Some (w\<lparr> w_i := w_i w + 1, w_j := w_j w + 1 \<rparr>)
          else if w_i w < length p \<and> p ! w_i w = 42 then Some (w\<lparr> w_star := Some (w_i w), w_i := w_i w + 1, w_mark := w_j w \<rparr>)
          else (case w_star w of
                  Some s \<Rightarrow> Some (w\<lparr> w_i := s + 1, w_mark := w_mark w + 1, w_j := w_mark w + 1 \<rparr>)
                | None \<Rightarrow> None))"

definition wildcard_going :: "jsstr \<Rightarrow> walk option \<Rightarrow> bool" where
  "wildcard_going n st = (case st of None \<Rightarrow> False | Some w \<Rightarrow> w_j w < length n)"

definition wildcard_walk :: "jsstr \<Rightarrow> jsstr \<Rightarrow> walk option option" where
  "wildcard_walk p n = while_option (wildcard_going n) (wildcard_step p n) (Some \<lparr> w_i = 0, w_j = 0, w_star = None, w_mark = 0 \<rparr>)"

definition wildcard :: "computer \<Rightarrow> jsstr \<Rightarrow> jsstr \<Rightarrow> bool \<Rightarrow> bool" where
  "wildcard pc pattern name fold' =
     (let p = (if fold' then lower_text pc pattern else pattern); n = (if fold' then lower_text pc name else name) in
      case wildcard_walk p n of
        Some (Some w) \<Rightarrow> list_all (\<lambda>c. c = 42) (drop (w_i w) p)
      | _ \<Rightarrow> False)"

subsection \<open>Pattern allowances\<close>

record pattern_query = asker +
  q_action :: jsval
  q_project :: "jsstr option"
  q_real :: "(jsstr \<Rightarrow> jsstr option) option"
  q_home :: jsstr

definition root_text :: "computer \<Rightarrow> jsstr \<Rightarrow> jsstr" where
  "root_text pc p =
     (if starts_with p (js ''~/'') then js ''~/''
      else if drive_path is_letter p then lower_text pc (take 3 p)
      else js ''/'')"

definition real_place :: "'a pattern_query_scheme \<Rightarrow> jsstr \<Rightarrow> jsstr option" where
  "real_place q p = (case q_real q of None \<Rightarrow> None | Some f \<Rightarrow> f p)"

definition home_inside :: "computer \<Rightarrow> jsstr \<Rightarrow> jsstr \<Rightarrow> jsstr list \<Rightarrow> bool" where
  "home_inside pc home p project \<longleftrightarrow>
     (let h = engine_path pc home in
      case full_path_segments h of
        None \<Rightarrow> False
      | Some hs \<Rightarrow> root_text pc p \<noteq> js ''~/'' \<and> root_text pc h = root_text pc p \<and> within_segments pc hs project (fold_case pc p))"

text \<open>Where a target really is: inside where the folder really is, inside where the project really is.\<close>

definition really_inside :: "computer \<Rightarrow> jsstr \<Rightarrow> jsstr option \<Rightarrow> jsstr option \<Rightarrow> bool" where
  "really_inside pc r folder project =
     (case (full_path_segments r, Option.bind folder full_path_segments, Option.bind project full_path_segments) of
        (Some rs, Some fs, Some ps) \<Rightarrow>
          root_text pc r = root_text pc (the folder) \<and> root_text pc r = root_text pc (the project) \<and>
          within_segments pc rs fs (fold_case pc r) \<and> within_segments pc fs ps (fold_case pc r)
      | _ \<Rightarrow> False)"

definition target_covered :: "computer \<Rightarrow> pattern_query \<Rightarrow> jsstr \<Rightarrow> jsstr \<Rightarrow> jsstr list \<Rightarrow> jsval \<Rightarrow> bool" where
  "target_covered pc q value project folder t =
     (case t of
        VStr s \<Rightarrow>
          (case full_path_segments s of
             None \<Rightarrow> False
           | Some segs \<Rightarrow>
               \<not> names_protected_place pc segs \<and> root_text pc s = root_text pc value \<and> within_segments pc segs folder (fold_case pc value) \<and>
               (case real_place q s of
                  None \<Rightarrow> True
                | Some r \<Rightarrow> really_inside pc r (real_place q value) (real_place q project)))
      | _ \<Rightarrow> False)"

definition delete_covered :: "computer \<Rightarrow> jsval \<Rightarrow> jsval \<Rightarrow> pattern_query \<Rightarrow> bool" where
  "delete_covered pc b params q =
     (let program = fld params (js ''program''); targets = elems (fld params (js ''delete_targets''));
          v = text_of (fld b (js ''value'')); p = text_of (fld b (js ''project'')) in
      is_str program \<and> VStr (canon_program pc (text_of program)) = fld b (js ''program'') \<and> fld params (js ''program_scope'') = program \<and>
      targets \<noteq> [] \<and>
      (case (full_path_segments v, full_path_segments p) of
         (Some folder, Some project) \<Rightarrow>
           \<not> home_inside pc (q_home q) p project \<and> list_all (target_covered pc q v p folder) targets
       | _ \<Rightarrow> False))"

definition pattern_kind_covers :: "computer \<Rightarrow> jsval \<Rightarrow> jsstr \<Rightarrow> bool" where
  "pattern_kind_covers pc b v =
     (let k = fld b (js ''kind''); value = text_of (fld b (js ''value'')); fold' = fold_case pc (text_of (fld b (js ''project''))) in
      if k = VStr (js ''path_prefix'') then
        (case (relative_segments v False, relative_segments value False) of
           (Some segs, Some folder) \<Rightarrow> segs \<noteq> [] \<and> \<not> names_protected_place pc segs \<and> within_segments pc segs folder fold'
         | _ \<Rightarrow> False)
      else if k = VStr (js ''path_glob'') then
        (let glob = js_split 47 value in
         case relative_segments v False of
           None \<Rightarrow> False
         | Some segs \<Rightarrow> length segs = length glob \<and> \<not> names_protected_place pc segs \<and>
             within_segments pc (butlast segs) (butlast glob) fold' \<and> wildcard pc (last glob) (last segs) fold')
      else if k = VStr (js ''package_name'') then v = value
      else if k = VStr (js ''host'') then lower_text pc v = value
      else if k = VStr (js ''mcp_tool'') then v = value
      else False)"

definition pattern_covers :: "computer \<Rightarrow> jsval \<Rightarrow> pattern_query \<Rightarrow> bool" where
  "pattern_covers pc m q =
     (let params = or_else (fld (q_action q) (js ''params'')) (VObj []); b = fld m (js ''bounds'') in
      valid_allowance_match pc m \<and> fld m (js ''rule'') = VStr (q_rule q) \<and> rule_patternable (q_rule q) \<and>
      fld m (js ''action_type'') = fld (q_action q) (js ''action_type'') \<and>
      (if fld m (js ''recipe'') = VStr delete_recipe then delete_covered pc b params q
       else
         (case q_project q of None \<Rightarrow> False
          | Some p \<Rightarrow> p \<noteq> [] \<and> path_key pc p = path_key pc (text_of (fld b (js ''project'')))) \<and>
         (truthy (fld b (js ''with'')) \<longrightarrow> list_all (\<lambda>(k, w). jget params k = w) (members (fld b (js ''with'')))) \<and>
         (case jget params (text_of (fld b (js ''param''))) of
            VStr v \<Rightarrow> v \<noteq> [] \<and> pattern_kind_covers pc b v
          | _ \<Rightarrow> False)))"

definition match_pattern_allowance :: "env \<Rightarrow> computer \<Rightarrow> jsval list \<Rightarrow> pattern_query \<Rightarrow> jsval option" where
  "match_pattern_allowance e pc items q =
     find (\<lambda>a. \<not> is_quiet a \<and> fld a (js ''match'') \<noteq> VUndef \<and> standing e a q \<and> \<not> used_up a \<and> in_scope a q \<and>
       pattern_covers pc (fld a (js ''match'')) q) items"

subsection \<open>Making one\<close>

definition digest_of :: "env \<Rightarrow> jsstr \<Rightarrow> jsstr" where
  "digest_of e t = to_hex (sha256 e (utf8 t))"

definition pattern_key :: "env \<Rightarrow> jsval \<Rightarrow> jsstr outcome" where
  "pattern_key e m = rbind (canonical m) (\<lambda>t. Inr (digest_of e (js ''pattern:'' @ t)))"

definition iso_of :: "int \<Rightarrow> jsstr outcome" where
  "iso_of t = (if 8640000000000000 < \<bar>t\<bar> then Inl RangeErr else Inr (to_iso t))"

definition opt_str :: "jsstr option \<Rightarrow> jsval" where
  "opt_str s = (case s of None \<Rightarrow> VNull | Some t \<Rightarrow> VStr t)"

definition person_scope :: "jsstr option \<Rightarrow> jsval" where
  "person_scope user = VStr (case user of None \<Rightarrow> js ''computer'' | Some u \<Rightarrow> if u = [] then js ''computer'' else js ''person'')"

definition make_quiet_block :: "jsstr \<Rightarrow> jsstr \<Rightarrow> jsstr \<Rightarrow> jsstr option \<Rightarrow> int \<Rightarrow> jsval outcome" where
  "make_quiet_block id' rule key user now =
     rbind (iso_of now) (\<lambda>made. rbind (iso_of (now + quiet_block_days * day_ms)) (\<lambda>expires.
       Inr (VObj [(js ''id'', VStr id'), (js ''rule'', VStr rule), (js ''action_key'', VStr key), (js ''scope'', person_scope user),
         (js ''os_user_digest'', opt_str user), (js ''state'', VStr (js ''active'')), (js ''once'', VBool False),
         (js ''reason_digest'', VNull), (js ''reason_length'', VNum (Fin 0)), (js ''created_by'', VStr (js ''person'')),
         (js ''created_at'', VStr made), (js ''expires_at'', VStr expires), (js ''uses'', VNum (Fin 0)), (js ''sent_at'', VNull),
         (js ''kind'', VStr (js ''quiet''))])))"

datatype lasts = Once | Minutes_15 | Hour_1 | Tomorrow | Days_30 | Always

record allowance_input =
  a_rule :: jsstr
  a_key :: jsstr
  a_reason :: jsstr
  a_user :: "jsstr option"
  a_lasts :: lasts
  a_days :: "int option"
  a_needs_admin :: bool
  a_now :: int
  a_unblocked :: "jsstr option"

definition expires_after :: "lasts \<Rightarrow> int \<Rightarrow> int" where
  "expires_after l days =
     (case l of Minutes_15 \<Rightarrow> 15 * 60000 | Hour_1 \<Rightarrow> 60 * 60000 | Once \<Rightarrow> day_ms | Tomorrow \<Rightarrow> day_ms
      | Days_30 \<Rightarrow> 30 * day_ms | Always \<Rightarrow> days * day_ms)"

definition is_long :: "lasts \<Rightarrow> bool" where
  "is_long l \<longleftrightarrow> l = Always \<or> l = Days_30"

definition kept_days :: "int option \<Rightarrow> int" where
  "kept_days d = min allowance_max_days (max 1 (case d of None \<Rightarrow> allowance_default_days | Some n \<Rightarrow> n))"

definition allowance_fields :: "env \<Rightarrow> jsstr \<Rightarrow> allowance_input \<Rightarrow> jsstr \<Rightarrow> jsstr \<Rightarrow> (jsstr \<times> jsval) list" where
  "allowance_fields e id' i made expires =
     (let reason = take 500 (js_trim (a_reason i)) in
      [(js ''id'', VStr id'), (js ''rule'', VStr (a_rule i)), (js ''action_key'', VStr (a_key i)), (js ''scope'', person_scope (a_user i)),
       (js ''os_user_digest'', opt_str (a_user i)),
       (js ''state'', VStr (if is_long (a_lasts i) \<and> a_needs_admin i then js ''proposed'' else js ''active'')),
       (js ''once'', VBool (a_lasts i = Once)),
       (js ''reason_digest'', if reason \<noteq> [] then VStr (digest_of e reason) else VNull), (js ''reason_length'', VNum (jint (int (length reason))))]
      @ (if reason \<noteq> [] then [(js ''reason'', VStr reason)] else [])
      @ [(js ''created_by'', VStr (js ''person'')), (js ''created_at'', VStr made), (js ''expires_at'', VStr expires), (js ''uses'', VNum (Fin 0)),
         (js ''sent_at'', VNull)]
      @ (case a_unblocked i of None \<Rightarrow> [] | Some u \<Rightarrow> [(js ''unblocked'', VStr u)]))"

definition make_exact :: "env \<Rightarrow> jsstr \<Rightarrow> allowance_input \<Rightarrow> jsval outcome" where
  "make_exact e id' i =
     rbind (iso_of (a_now i)) (\<lambda>made. rbind (iso_of (a_now i + expires_after (a_lasts i) (kept_days (a_days i)))) (\<lambda>expires.
       Inr (VObj (allowance_fields e id' i made expires))))"

text \<open>With a match, the allowance is for the pattern: its key is the digest of the match.\<close>

definition make_allowance :: "env \<Rightarrow> jsstr \<Rightarrow> allowance_input \<Rightarrow> jsval option \<Rightarrow> bool \<Rightarrow> jsval outcome" where
  "make_allowance e id' i m pattern_needs_admin =
     (case m of
        None \<Rightarrow> make_exact e id' i
      | Some mv \<Rightarrow>
          rbind (pattern_key e mv) (\<lambda>k. rbind (make_exact e id' (i\<lparr> a_key := k \<rparr>)) (\<lambda>a.
            Inr (VObj (spread (members a) ((js ''match'', mv) #
              (if pattern_needs_admin then [(js ''state'', VStr (js ''proposed''))] else [])))))))"

subsection \<open>The workspace's view\<close>

definition revoked_ids :: "jsval \<Rightarrow> jsstr list" where
  "revoked_ids revoked = List.map_filter str_opt (elems revoked)"

definition merge_one :: "jsval option \<Rightarrow> jsval \<Rightarrow> jsval" where
  "merge_one mine a =
     (let m = (case mine of None \<Rightarrow> VUndef | Some v \<Rightarrow> v) in
      VObj (spread (members a)
        ([(js ''uses'', VNum (jmax (num_value (fld a (js ''uses''))) (num_value (or_else (fld m (js ''uses'')) (VNum (Fin 0)))))),
          (js ''sent_at'', or_else (or_else (fld m (js ''sent_at'')) (fld a (js ''sent_at''))) VNull)]
         @ (if truthy (fld m (js ''reason'')) then [(js ''reason'', fld m (js ''reason''))] else [])
         @ (if truthy (fld m (js ''ended_at''))
            then [(js ''ended_at'', fld m (js ''ended_at'')), (js ''ended_by'', fld m (js ''ended_by'')),
                  (js ''end_sent_at'', or_else (fld m (js ''end_sent_at'')) VNull)] else [])
         @ (if is_quiet m then [(js ''kind'', VStr (js ''quiet''))] else []))))"

definition deliver :: "jsval \<Rightarrow> (jsval \<times> jsval) list \<Rightarrow> (jsval \<times> jsval) list" where
  "deliver a by_id = omap_set (fld a (js ''id'')) (merge_one (map_of by_id (fld a (js ''id''))) a) by_id"

definition apply_revoked :: "jsstr list \<Rightarrow> jsval \<Rightarrow> jsval" where
  "apply_revoked ids a =
     (if str_test (\<lambda>s. s \<in> set ids) (fld a (js ''id'')) then VObj (spread (members a) [(js ''state'', VStr (js ''revoked''))]) else a)"

definition from_workspace :: "env \<Rightarrow> computer \<Rightarrow> jsval \<Rightarrow> jsval list" where
  "from_workspace e pc delivered =
     filter (\<lambda>a. fld a (js ''state'') \<noteq> VStr (js ''proposed'')) (filter (valid_allowance e pc) (elems delivered))"

definition merge_workspace_allowances :: "env \<Rightarrow> computer \<Rightarrow> jsval list \<Rightarrow> jsval \<Rightarrow> jsval \<Rightarrow> jsval list" where
  "merge_workspace_allowances e pc locals delivered revoked =
     map (apply_revoked (revoked_ids revoked))
       (map snd (fold deliver (from_workspace e pc delivered) (omap_of_list (map (\<lambda>a. (fld a (js ''id''), a)) locals))))"

definition without_workspace_allowances :: "jsval list \<Rightarrow> jsval \<Rightarrow> jsval list" where
  "without_workspace_allowances allowances delivered =
     (let ids = List.map_filter str_opt (map (\<lambda>a. if is_obj a then fld a (js ''id'') else VUndef) (elems delivered)) in
      filter (\<lambda>a. fld a (js ''created_by'') \<noteq> VStr (js ''workspace'') \<and> \<not> str_test (\<lambda>s. s \<in> set ids) (fld a (js ''id''))) allowances)"

subsection \<open>Ending one\<close>

datatype end_outcome = Ended | Gone

definition can_end :: "env \<Rightarrow> int \<Rightarrow> jsval \<Rightarrow> bool" where
  "can_end e now a \<longleftrightarrow>
     fld a (js ''created_by'') = VStr (js ''person'') \<and> \<not> truthy (fld a (js ''ended_at'')) \<and>
     (fld a (js ''state'') = VStr (js ''active'') \<or> fld a (js ''state'') = VStr (js ''proposed'')) \<and>
     jlt (jint now) (date_of e (fld a (js ''expires_at'')))"

text \<open>The answer, and the file's new content when it was written.\<close>

definition end_allowance :: "env \<Rightarrow> computer \<Rightarrow> jsval option \<Rightarrow> jsstr \<Rightarrow> int \<Rightarrow> (end_outcome \<times> jsval option) outcome" where
  "end_allowance e pc file id' now =
     (let items = read_allowances e pc file in
      case find (\<lambda>a. fld a (js ''id'') = VStr id') items of
        None \<Rightarrow> Inr (Gone, file)
      | Some a \<Rightarrow>
          if \<not> can_end e now a then Inr (Gone, file)
          else rbind (iso_of now) (\<lambda>t.
            Inr (Ended, Some (write_allowances e
              (map (\<lambda>x. if fld x (js ''id'') = VStr id'
                 then VObj (spread (members x) [(js ''ended_at'', VStr t), (js ''ended_by'', VStr (js ''person'')), (js ''end_sent_at'', VNull)])
                 else x) items) now))))"

subsection \<open>Recent blocks\<close>

definition read_blocked :: "jsval option \<Rightarrow> jsval list" where
  "read_blocked file = (case file of None \<Rightarrow> [] | Some parsed \<Rightarrow> elems (fld parsed (js ''items'')))"

definition record_blocked :: "env \<Rightarrow> jsval option \<Rightarrow> jsval \<Rightarrow> int \<Rightarrow> jsval" where
  "record_blocked e file item now =
     VObj [(js ''items'', VArr (newest 50
       (filter (\<lambda>b. jlt (jsub (jint now) (date_of e (fld b (js ''at'')))) (jint (7 * day_ms)))
         (filter (\<lambda>b. \<not> strict_eq (fld b (js ''id'')) (fld item (js ''id''))) (read_blocked file) @ [item]))))]"

definition mark_blocked :: "jsval option \<Rightarrow> jsstr \<Rightarrow> jsstr \<Rightarrow> int \<Rightarrow> jsval outcome" where
  "mark_blocked file id' acted now =
     rbind (rmap (\<lambda>b. if fld b (js ''id'') = VStr id'
         then rbind (iso_of now) (\<lambda>t. Inr (VObj (spread (members b) [(js ''acted'', VStr acted), (js ''acted_at'', VStr t)]))) else Inr b)
       (read_blocked file)) (\<lambda>items. Inr (VObj [(js ''items'', VArr items)]))"

end
