(* ===== verification/WildcardFacts.thy ===== *)
theory WildcardFacts
  imports Allowances
begin

section \<open>The wildcard walk\<close>

text \<open>
  What a file pattern means, independent of the walk: \<open>*\<close> stands for any run of characters and \<open>?\<close> for one. The walk returns, and
  it decides that meaning on names that hold no star.
\<close>

fun covers_name :: "jsstr \<Rightarrow> jsstr \<Rightarrow> bool" where
  "covers_name [] n \<longleftrightarrow> n = []"
| "covers_name (c # p) [] \<longleftrightarrow> c = 42 \<and> covers_name p []"
| "covers_name (c # p) (x # n) \<longleftrightarrow>
     (if c = 42 then covers_name p (x # n) \<or> covers_name (c # p) n else (c = 63 \<or> c = x) \<and> covers_name p n)"

subsection \<open>Stars\<close>

lemma covers_star_drop: "covers_name p (drop k n) \<Longrightarrow> covers_name (42 # p) n"
proof (induction n arbitrary: k)
  case (Cons x n)
  then show ?case by (cases k) auto
qed simp

lemma covers_star_iff: "covers_name (42 # p) n \<longleftrightarrow> (\<exists>k. covers_name p (drop k n))"
proof
  show "covers_name (42 # p) n \<Longrightarrow> \<exists>k. covers_name p (drop k n)"
  proof (induction n)
    case (Cons x n)
    then consider "covers_name p (x # n)" | "covers_name (42 # p) n" by auto
    then show ?case
    proof cases
      case 1
      then show ?thesis by (intro exI [of _ 0]) simp
    next
      case 2
      then obtain k where "covers_name p (drop k n)" using Cons.IH by blast
      then show ?thesis by (intro exI [of _ "Suc k"]) simp
    qed
  qed auto
qed (auto intro: covers_star_drop)

lemma covers_star_step: "covers_name (42 # p) n \<longleftrightarrow> covers_name p n \<or> covers_name (42 # p) (tl n)"
  by (cases n) auto

text \<open>A run of the pattern without a star takes as many characters.\<close>

lemma covers_run: "42 \<notin> set seg \<Longrightarrow> covers_name (seg @ p) n \<Longrightarrow> length seg \<le> length n \<and> covers_name p (drop (length seg) n)"
proof (induction seg arbitrary: n)
  case (Cons c seg)
  then show ?case by (cases n) auto
qed simp

lemma covers_stars: "covers_name p [] \<longleftrightarrow> list_all (\<lambda>c. c = 42) p"
  by (induction p) auto

subsection \<open>The invariant\<close>

text \<open>Either the places already passed are no loss, or the last star takes more characters than it has been given.\<close>

definition walk_ok :: "jsstr \<Rightarrow> jsstr \<Rightarrow> walk \<Rightarrow> bool" where
  "walk_ok p n w \<longleftrightarrow>
     w_i w \<le> length p \<and> w_j w \<le> length n \<and>
     (case w_star w of
        None \<Rightarrow> covers_name p n \<longleftrightarrow> covers_name (drop (w_i w) p) (drop (w_j w) n)
      | Some s \<Rightarrow>
          s < w_i w \<and> p ! s = 42 \<and> w_mark w \<le> w_j w \<and> w_j w - w_mark w = w_i w - Suc s \<and> 42 \<notin> set (drop (Suc s) (take (w_i w) p)) \<and>
          (covers_name p n \<longleftrightarrow> covers_name (drop (w_i w) p) (drop (w_j w) n) \<or> covers_name (drop s p) (drop (Suc (w_mark w)) n)))"

definition walk_inv :: "jsstr \<Rightarrow> jsstr \<Rightarrow> walk option \<Rightarrow> bool" where
  "walk_inv p n st = (case st of None \<Rightarrow> \<not> covers_name p n | Some w \<Rightarrow> walk_ok p n w)"

lemma split_pattern: "s < i \<Longrightarrow> i \<le> length p \<Longrightarrow> drop (Suc s) p = drop (Suc s) (take i p) @ drop i p"
  by (metis Suc_leI append_take_drop_id drop_append drop_eq_Nil2 append.right_neutral diff_is_0_eq drop_0 length_take min.absorb2)

lemma older_star:
  assumes "s < i" "i \<le> length p" "p ! s = 42" "42 \<notin> set (drop (Suc s) (take i p))" "covers_name (drop s p) ys"
  shows "\<exists>k. i - Suc s + k \<le> length ys \<and> covers_name (drop i p) (drop (i - Suc s + k) ys)"
proof -
  let ?seg = "drop (Suc s) (take i p)"
  have "drop s p = 42 # drop (Suc s) p" using assms(1,2,3) by (simp flip: Cons_nth_drop_Suc)
  then have "covers_name (42 # (?seg @ drop i p)) ys" using assms(1,2,5) split_pattern [of s i p] by simp
  then obtain k where "covers_name (?seg @ drop i p) (drop k ys)" unfolding covers_star_iff by blast
  from covers_run [OF assms(4) this] have k: "length ?seg \<le> length ys - k" "covers_name (drop i p) (drop (length ?seg) (drop k ys))" by simp_all
  have l: "length ?seg = i - Suc s" using assms(1,2) by simp
  show ?thesis
  proof (cases "k \<le> length ys")
    case True
    then show ?thesis using k l by (intro exI [of _ k]) (simp add: add.commute)
  next
    case False
    then have "i - Suc s = 0" using k(1) l by simp
    then show ?thesis using k(2) l False by (intro exI [of _ "length ys"]) simp
  qed
qed

lemma step_match:
  assumes ok: "walk_ok p n w" and j: "w_j w < length n" and i: "w_i w < length p" and m: "p ! w_i w = 63 \<or> p ! w_i w = n ! w_j w" and n: "42 \<notin> set n"
  shows "walk_ok p n (w\<lparr> w_i := w_i w + 1, w_j := w_j w + 1 \<rparr>)"
proof -
  have ns: "p ! w_i w \<noteq> 42" using m n j by (auto simp: in_set_conv_nth)
  have d: "drop (w_i w) p = p ! w_i w # drop (Suc (w_i w)) p" "drop (w_j w) n = n ! w_j w # drop (Suc (w_j w)) n"
    using i j by (simp_all add: Cons_nth_drop_Suc)
  have c: "covers_name (drop (w_i w) p) (drop (w_j w) n) \<longleftrightarrow> covers_name (drop (Suc (w_i w)) p) (drop (Suc (w_j w)) n)"
    using ns m unfolding d by auto
  have t: "take (Suc (w_i w)) p = take (w_i w) p @ [p ! w_i w]" using i by (rule take_Suc_conv_app_nth)
  show ?thesis
  proof (cases "w_star w")
    case None
    then show ?thesis using ok i j c by (simp add: walk_ok_def)
  next
    case (Some s)
    then show ?thesis using ok i j c ns by (auto simp: walk_ok_def t)
  qed
qed

lemma step_star:
  assumes ok: "walk_ok p n w" and j: "w_j w < length n" and i: "w_i w < length p" and m: "p ! w_i w = 42"
  shows "walk_ok p n (w\<lparr> w_star := Some (w_i w), w_i := w_i w + 1, w_mark := w_j w \<rparr>)"
proof -
  have d: "drop (w_i w) p = 42 # drop (Suc (w_i w)) p" using i m by (metis Cons_nth_drop_Suc)
  have c: "covers_name (drop (w_i w) p) (drop (w_j w) n) \<longleftrightarrow>
      covers_name (drop (Suc (w_i w)) p) (drop (w_j w) n) \<or> covers_name (drop (w_i w) p) (drop (Suc (w_j w)) n)"
    unfolding d by (subst covers_star_step) (simp add: drop_Suc drop_tl)
  have "covers_name p n \<longleftrightarrow> covers_name (drop (w_i w) p) (drop (w_j w) n)"
  proof (cases "w_star w")
    case None
    then show ?thesis using ok by (simp add: walk_ok_def)
  next
    case (Some s)
    with ok have s: "s < w_i w" "p ! s = 42" "w_mark w \<le> w_j w" "w_j w - w_mark w = w_i w - Suc s" "42 \<notin> set (drop (Suc s) (take (w_i w) p))"
      "covers_name p n \<longleftrightarrow> covers_name (drop (w_i w) p) (drop (w_j w) n) \<or> covers_name (drop s p) (drop (Suc (w_mark w)) n)"
      by (simp_all add: walk_ok_def)
    have "covers_name (drop (w_i w) p) (drop (w_j w) n)" if "covers_name (drop s p) (drop (Suc (w_mark w)) n)"
    proof -
      from older_star [OF s(1) less_imp_le [OF i] s(2,5) that] obtain k where
        "covers_name (drop (w_i w) p) (drop (w_i w - Suc s + k) (drop (Suc (w_mark w)) n))" by blast
      moreover have "w_i w - Suc s + k + Suc (w_mark w) = w_j w + Suc k" using s(3,4) by simp
      ultimately have "covers_name (drop (w_i w) p) (drop (w_j w + Suc k) n)" by (simp only: drop_drop)
      then have "covers_name (drop (w_i w) p) (drop (Suc k) (drop (w_j w) n))" by (simp only: drop_drop add.commute)
      then obtain l where "covers_name (drop (Suc (w_i w)) p) (drop l (drop (Suc k) (drop (w_j w) n)))" unfolding d covers_star_iff by blast
      then show ?thesis unfolding d covers_star_iff drop_drop [of l] by blast
    qed
    with s(6) show ?thesis by blast
  qed
  with c ok i j m show ?thesis by (simp add: walk_ok_def)
qed

lemma step_back:
  assumes ok: "walk_ok p n w" and j: "w_j w < length n" and s: "w_star w = Some s"
    and no: "\<not> (w_i w < length p \<and> (p ! w_i w = 63 \<or> p ! w_i w = n ! w_j w))" "\<not> (w_i w < length p \<and> p ! w_i w = 42)"
  shows "walk_ok p n (w\<lparr> w_i := s + 1, w_mark := w_mark w + 1, w_j := w_mark w + 1 \<rparr>)"
proof -
  have ok': "s < w_i w" "w_i w \<le> length p" "p ! s = 42" "w_mark w \<le> w_j w"
    "covers_name p n \<longleftrightarrow> covers_name (drop (w_i w) p) (drop (w_j w) n) \<or> covers_name (drop s p) (drop (Suc (w_mark w)) n)"
    using ok s by (simp_all add: walk_ok_def)
  have dn: "drop (w_j w) n = n ! w_j w # drop (Suc (w_j w)) n" using j by (simp add: Cons_nth_drop_Suc)
  have "\<not> covers_name (drop (w_i w) p) (drop (w_j w) n)"
  proof (cases "w_i w < length p")
    case True
    then have "drop (w_i w) p = p ! w_i w # drop (Suc (w_i w)) p" by (simp add: Cons_nth_drop_Suc)
    then show ?thesis using True no unfolding dn by auto
  next
    case False
    then show ?thesis using dn by simp
  qed
  moreover have "drop s p = 42 # drop (Suc s) p" using ok'(1,2,3) by (simp flip: Cons_nth_drop_Suc)
  ultimately have "covers_name p n \<longleftrightarrow> covers_name (drop (Suc s) p) (drop (Suc (w_mark w)) n) \<or> covers_name (drop s p) (drop (Suc (Suc (w_mark w))) n)"
    using ok'(5) covers_star_step [of "drop (Suc s) p" "drop (Suc (w_mark w)) n"] by (simp add: drop_Suc drop_tl)
  then show ?thesis using ok' j s by (simp add: walk_ok_def)
qed

lemma walk_inv_step:
  assumes "walk_inv p n st" "wildcard_going n st" "42 \<notin> set n"
  shows "walk_inv p n (wildcard_step p n st)"
proof (cases st)
  case (Some w)
  with assms(1,2) have ok: "walk_ok p n w" "w_j w < length n" by (simp_all add: walk_inv_def wildcard_going_def)
  consider (take') "w_i w < length p" "p ! w_i w = 63 \<or> p ! w_i w = n ! w_j w"
    | (star) "\<not> (w_i w < length p \<and> (p ! w_i w = 63 \<or> p ! w_i w = n ! w_j w))" "w_i w < length p" "p ! w_i w = 42"
    | (again) s where "\<not> (w_i w < length p \<and> (p ! w_i w = 63 \<or> p ! w_i w = n ! w_j w))" "\<not> (w_i w < length p \<and> p ! w_i w = 42)" "w_star w = Some s"
    | (fail) "\<not> (w_i w < length p \<and> (p ! w_i w = 63 \<or> p ! w_i w = n ! w_j w))" "\<not> (w_i w < length p \<and> p ! w_i w = 42)" "w_star w = None"
    by (cases "w_star w") blast+
  then show ?thesis
  proof cases
    case take'
    then show ?thesis using step_match [OF ok _ _ assms(3)] Some by (simp add: wildcard_step_def walk_inv_def)
  next
    case star
    then show ?thesis using step_star [OF ok] Some by (simp add: wildcard_step_def walk_inv_def)
  next
    case again
    have "wildcard_step p n st = Some (w\<lparr> w_i := s + 1, w_mark := w_mark w + 1, w_j := w_mark w + 1 \<rparr>)"
      unfolding Some wildcard_step_def option.case if_not_P [OF again(1)] if_not_P [OF again(2)] again(3) option.case ..
    then show ?thesis using step_back [OF ok again(3,1,2)] by (simp add: walk_inv_def)
  next
    case fail
    have dn: "drop (w_j w) n = n ! w_j w # drop (Suc (w_j w)) n" using ok(2) by (simp add: Cons_nth_drop_Suc)
    have "\<not> covers_name (drop (w_i w) p) (drop (w_j w) n)"
    proof (cases "w_i w < length p")
      case True
      then have "drop (w_i w) p = p ! w_i w # drop (Suc (w_i w)) p" by (simp add: Cons_nth_drop_Suc)
      then show ?thesis using True fail unfolding dn by auto
    next
      case False
      then show ?thesis using dn by simp
    qed
    moreover have "covers_name p n \<longleftrightarrow> covers_name (drop (w_i w) p) (drop (w_j w) n)" using ok(1) fail(3) by (simp add: walk_ok_def)
    moreover have "wildcard_step p n st = None"
      unfolding Some wildcard_step_def option.case if_not_P [OF fail(1)] if_not_P [OF fail(2)] fail(3) option.case ..
    ultimately show ?thesis by (simp add: walk_inv_def)
  qed
qed (use assms(2) in \<open>simp add: wildcard_going_def\<close>)

subsection \<open>The walk returns\<close>

definition walk_measure :: "jsstr \<Rightarrow> jsstr \<Rightarrow> walk option \<Rightarrow> nat \<times> nat \<times> nat \<times> nat" where
  "walk_measure p n st =
     (case st of None \<Rightarrow> (0, 0, 0, 0)
      | Some w \<Rightarrow> (1, length p - (case w_star w of None \<Rightarrow> 0 | Some s \<Rightarrow> Suc s),
          length n - w_mark w, length n - w_j w))"

definition walk_less :: "((nat \<times> nat \<times> nat \<times> nat) \<times> (nat \<times> nat \<times> nat \<times> nat)) set" where
  "walk_less = less_than <*lex*> less_than <*lex*> less_than <*lex*> less_than"

lemma walk_decreases:
  assumes "walk_inv p n st" "wildcard_going n st" "42 \<notin> set n"
  shows "(walk_measure p n (wildcard_step p n st), walk_measure p n st) \<in> walk_less"
proof (cases st)
  case (Some w)
  with assms(1,2) have ok: "walk_ok p n w" "w_j w < length n" by (simp_all add: walk_inv_def wildcard_going_def)
  have st: "s < w_i w \<and> w_mark w \<le> w_j w" if "w_star w = Some s" for s using ok(1) that by (simp add: walk_ok_def)
  show ?thesis
    using Some ok(2) st by (auto simp: wildcard_step_def walk_measure_def walk_less_def split: option.splits)
qed (use assms(2) in \<open>simp add: wildcard_going_def\<close>)

lemma walk_returns:
  assumes "42 \<notin> set n"
  shows "\<exists>st. wildcard_walk p n = Some st \<and> walk_inv p n st \<and> \<not> wildcard_going n st"
proof -
  let ?start = "Some \<lparr> w_i = 0, w_j = 0, w_star = None, w_mark = 0 \<rparr>"
  have start: "walk_inv p n ?start" by (simp add: walk_inv_def walk_ok_def)
  have "wf (inv_image walk_less (walk_measure p n))" by (simp add: walk_less_def wf_lex_prod)
  then have "wf {(t, s). (walk_inv p n s \<and> wildcard_going n s) \<and> t = wildcard_step p n s}"
    by (rule wf_subset) (auto simp: in_inv_image walk_decreases [OF _ _ assms])
  from wf_while_option_Some [OF this, of ?start] walk_inv_step [OF _ _ assms] start obtain st where
    st: "while_option (wildcard_going n) (wildcard_step p n) ?start = Some st" by blast
  have "walk_inv p n st" using while_option_rule [of "walk_inv p n", OF walk_inv_step [OF _ _ assms] st start] by blast
  moreover have "\<not> wildcard_going n st" using while_option_stop [OF st] .
  ultimately show ?thesis using st by (simp add: wildcard_walk_def)
qed

lemma walk_end:
  assumes "walk_ok p n w" "\<not> w_j w < length n"
  shows "covers_name p n \<longleftrightarrow> covers_name (drop (w_i w) p) []"
proof (cases "w_star w")
  case None
  then show ?thesis using assms by (simp add: walk_ok_def)
next
  case (Some s)
  with assms have s: "s < w_i w" "w_i w \<le> length p" "p ! s = 42" "w_mark w \<le> w_j w" "w_j w - w_mark w = w_i w - Suc s" "w_j w = length n"
    "42 \<notin> set (drop (Suc s) (take (w_i w) p))"
    "covers_name p n \<longleftrightarrow> covers_name (drop (w_i w) p) (drop (w_j w) n) \<or> covers_name (drop s p) (drop (Suc (w_mark w)) n)"
    by (auto simp: walk_ok_def)
  have "covers_name (drop (w_i w) p) []" if c: "covers_name (drop s p) (drop (Suc (w_mark w)) n)"
  proof -
    from older_star [OF s(1,2,3,7) c] obtain k where "w_i w - Suc s + k \<le> length n - Suc (w_mark w)"
      "covers_name (drop (w_i w) p) (drop (w_i w - Suc s + k) (drop (Suc (w_mark w)) n))" by auto
    then show ?thesis using s(4,5,6) by (cases "w_mark w < length n") auto
  qed
  with s(6,8) show ?thesis by auto
qed

lemma wildcard_walk_covers:
  assumes "42 \<notin> set n"
  shows "(case wildcard_walk p n of Some (Some w) \<Rightarrow> list_all (\<lambda>c. c = 42) (drop (w_i w) p) | _ \<Rightarrow> False) \<longleftrightarrow> covers_name p n"
proof -
  from walk_returns [OF assms, of p] obtain st where st: "wildcard_walk p n = Some st" "walk_inv p n st" "\<not> wildcard_going n st" by blast
  show ?thesis
  proof (cases st)
    case None
    then show ?thesis using st by (simp add: walk_inv_def)
  next
    case (Some w)
    then show ?thesis using st walk_end [of p n w] by (simp add: walk_inv_def wildcard_going_def covers_stars)
  qed
qed

end
