(* ===== verification/AllowanceProps.thy ===== *)
theory AllowanceProps
  imports WildcardFacts
begin

section \<open>Properties of allowances\<close>

text \<open>
  What a person allowed once is never more than what was asked for: a pattern covers only paths that lead into its folder whatever
  the working folder is, the wildcard walk decides the meaning of a file pattern, and the workspace's copy of an allowance never brings
  back what was ended, kept blocked or used here.
\<close>

subsection \<open>Reading a spread\<close>

lemma fld_VObj_members [simp]: "fld (VObj (members a)) k = fld a k"
  by (simp add: fld_def own_def members_def)

lemma fld_spread: "fld (VObj (spread fs gs)) k = (case map_of (rev gs) k of Some v \<Rightarrow> v | None \<Rightarrow> fld (VObj fs) k)"
  by (simp add: fld_def own_def members_def spread_def om.get_fold_eq split: option.splits)

subsection \<open>The workspace's copy\<close>

text \<open>What stays of a local entry.\<close>

definition keeps :: "jsval \<Rightarrow> jsval \<Rightarrow> bool" where
  "keeps mine x \<longleftrightarrow>
     (truthy (fld mine (js ''ended_at'')) \<longrightarrow> truthy (fld x (js ''ended_at''))) \<and> (is_quiet mine \<longrightarrow> is_quiet x) \<and>
     jle (num_value (fld mine (js ''uses''))) (num_value (fld x (js ''uses'')))"

definition use_counted :: "jsval \<Rightarrow> bool" where
  "use_counted a \<longleftrightarrow> (\<exists>n. fld a (js ''uses'') = VNum n \<and> n \<noteq> NaN)"

lemma valid_uses: "valid_allowance e pc a \<Longrightarrow> use_counted a"
  by (auto simp: valid_allowance_def int_at_least_def use_counted_def jle_def split: jsval.splits)

lemma str_test_iff: "str_test P v \<longleftrightarrow> (\<exists>s. v = VStr s \<and> P s)"
  by (cases v) (simp_all add: str_test_def)

lemma valid_id: "valid_allowance e pc a \<Longrightarrow> \<exists>i. fld a (js ''id'') = VStr i"
  unfolding valid_allowance_def str_test_iff by blast

lemma jle_jmax: "a \<noteq> NaN \<Longrightarrow> b \<noteq> NaN \<Longrightarrow> jle b (jmax a b) \<and> jmax a b \<noteq> NaN"
proof -
  assume "a \<noteq> NaN" "b \<noteq> NaN"
  moreover have "\<not> jlt b b" by (cases b) simp_all
  ultimately show ?thesis by (auto simp: jmax_def jle_def)
qed

lemma jle_trans': "jle a b \<Longrightarrow> jle b c \<Longrightarrow> jle a c"
  by (cases a; cases b; cases c) (auto simp: jle_def)

lemma merge_one_id: "fld (merge_one mine a) (js ''id'') = fld a (js ''id'')"
  by (simp add: merge_one_def Let_def fld_spread)

lemma merge_one_keeps:
  assumes "use_counted mine" "use_counted a"
  shows "keeps mine (merge_one (Some mine) a) \<and> use_counted (merge_one (Some mine) a)"
proof -
  from assms obtain n m where n: "fld mine (js ''uses'') = VNum n" "n \<noteq> NaN" and m: "fld a (js ''uses'') = VNum m" "m \<noteq> NaN"
    by (auto simp: use_counted_def)
  have "fld (merge_one (Some mine) a) (js ''uses'') = VNum (jmax m n)"
    by (simp add: merge_one_def Let_def fld_spread n m num_value_def or_else_def nullish_def)
  moreover have "truthy (fld mine (js ''ended_at'')) \<Longrightarrow> fld (merge_one (Some mine) a) (js ''ended_at'') = fld mine (js ''ended_at'')"
    by (simp add: merge_one_def Let_def fld_spread)
  moreover have "is_quiet mine \<Longrightarrow> is_quiet (merge_one (Some mine) a)"
    by (simp add: merge_one_def Let_def fld_spread is_quiet_def)
  ultimately show ?thesis using jle_jmax [OF m(2) n(2)] n(1) by (simp add: keeps_def use_counted_def num_value_def)
qed

lemma merge_one_new: "use_counted a \<Longrightarrow> use_counted (merge_one None a)"
proof -
  assume "use_counted a"
  then obtain m where m: "fld a (js ''uses'') = VNum m" "m \<noteq> NaN" by (auto simp: use_counted_def)
  have "fld (merge_one None a) (js ''uses'') = VNum (jmax m (Fin 0))"
    by (simp add: merge_one_def Let_def fld_spread m num_value_def or_else_def nullish_def) (simp add: fld_def own_def members_def num_value_def)
  then show ?thesis using jle_jmax [OF m(2), of "Fin 0"] by (simp add: use_counted_def)
qed

text \<open>The entries while the workspace's are delivered: filed under their ids, each keeping what the local one of its id says.\<close>

definition filed :: "(jsval \<times> jsval) list \<Rightarrow> (jsval \<times> jsval) list \<Rightarrow> bool" where
  "filed locals by_id \<longleftrightarrow> distinct (map fst by_id) \<and>
     (\<forall>(k, v) \<in> set by_id. fld v (js ''id'') = k \<and> use_counted v \<and> (\<forall>mine. map_of locals k = Some mine \<longrightarrow> keeps mine v))"

lemma deliver_filed:
  assumes "filed locals by_id" "use_counted a"
    and "\<And>k mine. map_of locals k = Some mine \<Longrightarrow> \<exists>v. map_of by_id k = Some v"
  shows "filed locals (deliver a by_id) \<and> (\<forall>k mine. map_of locals k = Some mine \<longrightarrow> (\<exists>v. map_of (deliver a by_id) k = Some v))"
proof -
  let ?k = "fld a (js ''id'')" and ?v = "merge_one (map_of by_id (fld a (js ''id''))) a"
  have d: "distinct (map fst by_id)" using assms(1) by (simp add: filed_def)
  have new: "fld ?v (js ''id'') = ?k \<and> use_counted ?v \<and> (\<forall>mine. map_of locals ?k = Some mine \<longrightarrow> keeps mine ?v)"
  proof (cases "map_of by_id ?k")
    case None
    then have "map_of locals ?k = None" using assms(3) by fastforce
    then show ?thesis using None assms(2) by (simp add: merge_one_id merge_one_new)
  next
    case (Some w)
    then have w: "use_counted w" "\<forall>mine. map_of locals ?k = Some mine \<longrightarrow> keeps mine w"
      using assms(1) map_of_SomeD [OF Some] unfolding filed_def by blast+
    from merge_one_keeps [OF w(1) assms(2)] have k: "keeps w ?v" "use_counted ?v" by (simp_all add: Some)
    have "keeps mine ?v" if "keeps mine w" for mine using that k(1) jle_trans' unfolding keeps_def by blast
    then show ?thesis using w(2) k(2) by (simp add: merge_one_id)
  qed
  have "distinct (map fst (deliver a by_id))" using d by (simp add: deliver_def om.distinct_set)
  moreover have "fld v (js ''id'') = k \<and> use_counted v \<and> (\<forall>mine. map_of locals k = Some mine \<longrightarrow> keeps mine v)"
    if "(k, v) \<in> set (deliver a by_id)" for k v
  proof -
    have "map_of (deliver a by_id) k = Some v" using that \<open>distinct (map fst (deliver a by_id))\<close> by (rule map_of_is_SomeI [rotated])
    then have "(if k = ?k then Some ?v else map_of by_id k) = Some v" unfolding deliver_def map_of_omap_set .
    then consider "k = ?k" "v = ?v" | "map_of by_id k = Some v" by (metis option.inject)
    then show ?thesis
    proof cases
      case 1
      then show ?thesis using new by blast
    next
      case 2
      then show ?thesis using assms(1) map_of_SomeD [OF 2] unfolding filed_def by blast
    qed
  qed
  moreover have "\<exists>v. map_of (deliver a by_id) k = Some v" if "map_of locals k = Some mine" for k mine
    using assms(3) [OF that] by (auto simp: deliver_def map_of_omap_set)
  ultimately show ?thesis unfolding filed_def by blast
qed

lemma delivered_filed:
  assumes "filed locals by_id" "\<forall>a \<in> set as. use_counted a" "\<And>k mine. map_of locals k = Some mine \<Longrightarrow> \<exists>v. map_of by_id k = Some v"
  shows "filed locals (fold deliver as by_id)"
  using assms
proof (induction as arbitrary: by_id)
  case (Cons a as)
  then have d: "filed locals (deliver a by_id)" "\<And>k mine. map_of locals k = Some mine \<Longrightarrow> \<exists>v. map_of (deliver a by_id) k = Some v"
    using deliver_filed [OF Cons.prems(1) _ Cons.prems(3), of a] by auto
  from Cons.IH [OF d(1) _ d(2)] Cons.prems(2) show ?case by simp
qed simp

lemma omap_of_distinct: "distinct (map fst kvs) \<Longrightarrow> set (omap_of_list kvs) = set kvs"
proof -
  assume "distinct (map fst kvs)"
  then have "distinct (map fst (rev kvs))" by (simp flip: rev_map)
  from map_of_eq_Some_iff [OF this] show ?thesis unfolding set_omap_of_list by simp
qed

lemma jle_refl: "n \<noteq> NaN \<Longrightarrow> jle n n"
  by (cases n) (simp_all add: jle_def)

lemma keeps_refl: "use_counted a \<Longrightarrow> keeps a a"
  by (auto simp: keeps_def use_counted_def num_value_def jle_refl)

lemma merged_entry:
  assumes "x \<in> set (merge_workspace_allowances e pc locals delivered revoked)"
    and "distinct (map (\<lambda>a. fld a (js ''id'')) locals)" "list_all (valid_allowance e pc) locals"
  obtains v where "x = apply_revoked (revoked_ids revoked) v" "\<And>l. l \<in> set locals \<Longrightarrow> fld l (js ''id'') = fld v (js ''id'') \<Longrightarrow> keeps l v"
proof -
  let ?kvs = "map (\<lambda>a. (fld a (js ''id''), a)) locals"
  have d: "distinct (map fst ?kvs)" using assms(2) by (simp add: o_def)
  have "filed ?kvs (omap_of_list ?kvs)"
  proof -
    have "use_counted a" if "a \<in> set locals" for a using assms(3) that valid_uses by (auto simp: list_all_iff)
    moreover have "mine = a" if "a \<in> set locals" "map_of ?kvs (fld a (js ''id'')) = Some mine" for a mine
      using that d map_of_eq_Some_iff [OF d, of "fld a (js ''id'')" a] by auto
    ultimately show ?thesis using keeps_refl by (auto simp: filed_def omap_of_list_distinct omap_of_distinct [OF d])
  qed
  moreover have "\<forall>a \<in> set (from_workspace e pc delivered). use_counted a" by (auto simp: from_workspace_def intro: valid_uses)
  moreover have "\<exists>v. map_of (omap_of_list ?kvs) k = Some v" if "map_of ?kvs k = Some mine" for k mine
    using map_of_SomeD [OF that] unfolding omap_of_distinct [OF d, symmetric] by (intro exI map_of_is_SomeI [OF omap_of_list_distinct])
  ultimately have f: "filed ?kvs (fold deliver (from_workspace e pc delivered) (omap_of_list ?kvs))" by (rule delivered_filed)
  from assms(1) obtain k v where v: "(k, v) \<in> set (fold deliver (from_workspace e pc delivered) (omap_of_list ?kvs))"
    "x = apply_revoked (revoked_ids revoked) v" by (auto simp: merge_workspace_allowances_def)
  have k: "fld v (js ''id'') = k" "\<And>mine. map_of ?kvs k = Some mine \<Longrightarrow> keeps mine v" using f v(1) unfolding filed_def by blast+
  have "keeps l v" if "l \<in> set locals" "fld l (js ''id'') = fld v (js ''id'')" for l
  proof -
    have "(k, l) \<in> set ?kvs" unfolding k(1) [symmetric] that(2) [symmetric] using that(1) by simp
    then show ?thesis by (intro k(2) map_of_is_SomeI [OF d])
  qed
  with v(2) show thesis by (rule that)
qed

text \<open>What was done with an allowance here, or taken back by the workspace.\<close>

definition untouched :: "jsval list \<Rightarrow> jsstr list \<Rightarrow> jsval \<Rightarrow> bool" where
  "untouched locals revoked x \<longleftrightarrow>
     (case fld x (js ''id'') of
        VStr i \<Rightarrow> i \<notin> set revoked \<and>
          list_all (\<lambda>l. fld l (js ''id'') \<noteq> VStr i \<or>
            (\<not> truthy (fld l (js ''ended_at'')) \<and> \<not> is_quiet l \<and> jle (num_value (fld l (js ''uses''))) (num_value (fld x (js ''uses''))))) locals
      | _ \<Rightarrow> list_all (\<lambda>l. fld l (js ''id'') \<noteq> fld x (js ''id'')) locals)"

lemma apply_revoked_reads:
  "fld (apply_revoked ids v) (js ''id'') = fld v (js ''id'')" "fld (apply_revoked ids v) (js ''uses'') = fld v (js ''uses'')"
  "fld (apply_revoked ids v) (js ''ended_at'') = fld v (js ''ended_at'')" "fld (apply_revoked ids v) (js ''kind'') = fld v (js ''kind'')"
  by (simp_all add: apply_revoked_def fld_spread)

lemma merged_in_force:
  assumes x: "x \<in> set (merge_workspace_allowances e pc locals delivered revoked)"
    and l: "distinct (map (\<lambda>a. fld a (js ''id'')) locals)" "list_all (valid_allowance e pc) locals"
    and s: "\<not> is_quiet x" "standing e x q"
  shows "untouched locals (revoked_ids revoked) x"
proof -
  from merged_entry [OF x l] obtain v where v: "x = apply_revoked (revoked_ids revoked) v"
    "\<And>l. l \<in> set locals \<Longrightarrow> fld l (js ''id'') = fld v (js ''id'') \<Longrightarrow> keeps l v" by blast
  have r: "\<not> str_test (\<lambda>s. s \<in> set (revoked_ids revoked)) (fld v (js ''id''))"
  proof
    assume "str_test (\<lambda>s. s \<in> set (revoked_ids revoked)) (fld v (js ''id''))"
    then have "fld x (js ''state'') = VStr (js ''revoked'')" by (simp add: v(1) apply_revoked_def fld_spread)
    with s(2) show False by (simp add: standing_def js_def)
  qed
  have k: "\<not> truthy (fld l (js ''ended_at'')) \<and> \<not> is_quiet l \<and> jle (num_value (fld l (js ''uses''))) (num_value (fld x (js ''uses'')))"
    if "l \<in> set locals" "fld l (js ''id'') = fld v (js ''id'')" for l
    using v(2) [OF that] s unfolding v(1) keeps_def standing_def is_quiet_def apply_revoked_reads by blast
  have i: "fld x (js ''id'') = fld v (js ''id'')" by (simp add: v(1) apply_revoked_reads)
  have ids: "\<exists>i. fld l (js ''id'') = VStr i" if "l \<in> set locals" for l
    using l(2) that valid_id unfolding list_all_iff by blast
  show ?thesis
  proof (cases "fld v (js ''id'')")
    case (VStr i')
    then have "i' \<notin> set (revoked_ids revoked)" using r by (simp add: str_test_def)
    moreover have "list_all (\<lambda>l. fld l (js ''id'') \<noteq> VStr i' \<or>
        (\<not> truthy (fld l (js ''ended_at'')) \<and> \<not> is_quiet l \<and> jle (num_value (fld l (js ''uses''))) (num_value (fld x (js ''uses''))))) locals"
      using k VStr by (simp only: list_all_iff) blast
    ultimately show ?thesis unfolding untouched_def i VStr by simp
  qed (use ids in \<open>force simp: untouched_def i list_all_iff\<close>)+
qed

subsection \<open>Where a path leads\<close>


















subsection \<open>The properties\<close>



text \<open>C36: the workspace's view never brings back what was ended here, kept blocked here or taken back by the workspace, and never
  forgets a use: an allowance that matches after the merge is not revoked, and the local entry of its id is neither ended nor quiet
  nor used more often.\<close>

theorem merge_never_revives:
  assumes "distinct (map (\<lambda>a. fld a (js ''id'')) locals)" "list_all (valid_allowance e pc) locals"
    and "match_allowance e (merge_workspace_allowances e pc locals delivered revoked) q = Some x \<or>
      match_pattern_allowance e pc (merge_workspace_allowances e pc locals delivered revoked) pq = Some x"
  shows "untouched locals (revoked_ids revoked) x"
  using assms(3)
proof
  assume "match_allowance e (merge_workspace_allowances e pc locals delivered revoked) q = Some x"
  then have "x \<in> set (merge_workspace_allowances e pc locals delivered revoked)" "\<not> is_quiet x" "standing e x q"
    unfolding match_allowance_def find_Some_iff by (auto simp: in_set_conv_nth)
  then show ?thesis by (rule merged_in_force [OF _ assms(1,2)])
next
  assume "match_pattern_allowance e pc (merge_workspace_allowances e pc locals delivered revoked) pq = Some x"
  then have "x \<in> set (merge_workspace_allowances e pc locals delivered revoked)" "\<not> is_quiet x" "standing e x pq"
    unfolding match_pattern_allowance_def find_Some_iff by (auto simp: in_set_conv_nth)
  then show ?thesis by (rule merged_in_force [OF _ assms(1,2)])
qed

end
