(* ===== verification/AllowanceMade.thy ===== *)
theory AllowanceMade
  imports AllowanceProps
begin

section \<open>What is made here is well formed\<close>

text \<open>
  An allowance or a quiet block made on this computer passes the check it is read back with, expires within a year, and one that has to
  wait for an admin lets nothing through. The clock's texts are read back as the times they stand for (\<open>clock_ok\<close>).
\<close>

definition clock_ok :: "env \<Rightarrow> int \<Rightarrow> bool" where
  "clock_ok e t \<longleftrightarrow> date_parse e (to_iso t) = Some t"

definition digests_ok :: "env \<Rightarrow> bool" where
  "digests_ok e \<longleftrightarrow> (\<forall>bs. is_bytes 32 (sha256 e bs))"

definition who_ok :: "jsstr option \<Rightarrow> bool" where
  "who_ok user \<longleftrightarrow> (case user of None \<Rightarrow> True | Some u \<Rightarrow> is_hex64 u)"

lemma hex64_nonempty: "is_hex64 u \<Longrightarrow> u \<noteq> []"
  by (auto simp: is_hex64_def)

lemma digest_hex: "digests_ok e \<Longrightarrow> is_hex64 (digest_of e t)"
  by (simp add: digests_ok_def digest_of_def to_hex_is_hex64)

lemma iso_of_date: "clock_ok e t \<Longrightarrow> iso_of t = Inr s \<Longrightarrow> date_parse e s = Some t"
  by (auto simp: clock_ok_def iso_of_def split: if_splits)

text \<open>The fields every made entry has; \<open>a\<close> may carry more.\<close>

definition made_ok :: "env \<Rightarrow> int \<Rightarrow> int \<Rightarrow> jsval \<Rightarrow> bool" where
  "made_ok e now expires a \<longleftrightarrow>
     is_obj a \<and> str_test allowance_id (fld a (js ''id'')) \<and> str_test rule_re (fld a (js ''rule'')) \<and>
     str_test is_hex64 (fld a (js ''action_key'')) \<and>
     (\<exists>user. who_ok user \<and> fld a (js ''scope'') = person_scope user \<and> fld a (js ''os_user_digest'') = opt_str user) \<and>
     one_of [''active'', ''proposed''] (fld a (js ''state'')) \<and> is_bool (fld a (js ''once'')) \<and> valid_reason a \<and>
     fld a (js ''created_by'') = VStr (js ''person'') \<and> (\<exists>s. fld a (js ''created_at'') = VStr s \<and> date_parse e s = Some now) \<and>
     (\<exists>s. fld a (js ''expires_at'') = VStr s \<and> date_parse e s = Some expires) \<and> fld a (js ''uses'') = VNum (Fin 0) \<and>
     fld a (js ''session_id'') = VUndef"

lemma made_valid:
  assumes "made_ok e now expires a" "fld a (js ''kind'') = VUndef \<or> one_of [''allow'', ''quiet''] (fld a (js ''kind''))"
    and "fld a (js ''match'') = VUndef \<or> (valid_allowance_match pc (fld a (js ''match'')) \<and> fld (fld a (js ''match'')) (js ''rule'') = fld a (js ''rule'') \<and>
      rule_patternable (text_of (fld a (js ''rule''))) \<and> fld a (js ''kind'') \<noteq> VStr (js ''quiet''))"
  shows "valid_allowance e pc a"
proof -
  from assms(1) obtain user s t where m: "who_ok user" "fld a (js ''scope'') = person_scope user" "fld a (js ''os_user_digest'') = opt_str user"
    "fld a (js ''created_at'') = VStr s" "date_parse e s = Some now" "fld a (js ''expires_at'') = VStr t" "date_parse e t = Some expires"
    unfolding made_ok_def by blast
  have scope: "one_of [''computer'', ''person'', ''session''] (person_scope user)" "person_scope user \<noteq> VStr (js ''session'')"
    "opt_str user = VNull \<or> str_test is_hex64 (opt_str user)" "person_scope user = VStr (js ''person'') \<longrightarrow> is_str (opt_str user)"
    using m(1) hex64_nonempty by (auto simp: person_scope_def one_of_def opt_str_def str_test_def who_ok_def is_str_def split: option.splits)
  have dates: "is_date e (VStr s)" "is_date e (VStr t)" using m(5,7) by (simp_all add: is_date_def date_of_def is_str_def)
  have states: "one_of [''active'', ''proposed''] v \<Longrightarrow> one_of [''active'', ''proposed'', ''revoked''] v" for v
    by (cases v) (auto simp: one_of_def)
  show ?thesis
    using assms scope dates states m(2,3,4,6) unfolding made_ok_def valid_allowance_def
    by (simp add: one_of_def int_at_least_def is_integer_num_def jle_def jint_def)
qed

lemma valid_reason_of:
  assumes "digests_ok e" "length r \<le> 500" "fld a (js ''reason_digest'') = (if r \<noteq> [] then VStr (digest_of e r) else VNull)"
    "fld a (js ''reason_length'') = VNum (jint (int (length r)))"
  shows "valid_reason a"
  using assms digest_hex [of e r]
  by (cases r) (auto simp: valid_reason_def Let_def str_test_def int_at_least_def num_value_def jint_def is_integer_num_def jle_def)

definition times_of :: "env \<Rightarrow> allowance_input \<Rightarrow> bool" where
  "times_of e i \<longleftrightarrow> clock_ok e (a_now i) \<and> clock_ok e (a_now i + expires_after (a_lasts i) (kept_days (a_days i)))"

lemma exact_ok:
  assumes "times_of e i" "digests_ok e" "allowance_id id'" "rule_re (a_rule i)" "is_hex64 (a_key i)" "who_ok (a_user i)"
    and "make_exact e id' i = Inr a"
  shows "made_ok e (a_now i) (a_now i + expires_after (a_lasts i) (kept_days (a_days i))) a \<and> fld a (js ''rule'') = VStr (a_rule i) \<and>
    fld a (js ''kind'') = VUndef \<and> fld a (js ''match'') = VUndef \<and>
    fld a (js ''state'') = VStr (if is_long (a_lasts i) \<and> a_needs_admin i then js ''proposed'' else js ''active'')"
proof -
  define r where "r = take 500 (js_trim (a_reason i))"
  from assms(7) obtain s t where st: "iso_of (a_now i) = Inr s" "iso_of (a_now i + expires_after (a_lasts i) (kept_days (a_days i))) = Inr t"
    "a = VObj (allowance_fields e id' i s t)" by (auto simp: make_exact_def rbind_Inr_iff)
  have f: "fld a (js ''id'') = VStr id'" "fld a (js ''rule'') = VStr (a_rule i)" "fld a (js ''action_key'') = VStr (a_key i)"
    "fld a (js ''scope'') = person_scope (a_user i)" "fld a (js ''os_user_digest'') = opt_str (a_user i)"
    "fld a (js ''state'') = VStr (if is_long (a_lasts i) \<and> a_needs_admin i then js ''proposed'' else js ''active'')"
    "fld a (js ''once'') = VBool (a_lasts i = Once)" "fld a (js ''created_by'') = VStr (js ''person'')" "fld a (js ''created_at'') = VStr s"
    "fld a (js ''expires_at'') = VStr t" "fld a (js ''uses'') = VNum (Fin 0)" "fld a (js ''session_id'') = VUndef"
    "fld a (js ''kind'') = VUndef" "fld a (js ''match'') = VUndef"
    "fld a (js ''reason_digest'') = (if r \<noteq> [] then VStr (digest_of e r) else VNull)" "fld a (js ''reason_length'') = VNum (jint (int (length r)))"
    unfolding st(3) allowance_fields_def Let_def r_def by (simp_all add: fld_def own_def members_def map_add_def split: option.splits)
  have "length r \<le> 500" by (simp add: r_def)
  then have "valid_reason a" by (rule valid_reason_of [OF assms(2) _ f(15,16)])
  moreover have "is_obj a" by (simp add: st(3) is_obj_def)
  ultimately show ?thesis using assms iso_of_date [OF _ st(1)] iso_of_date [OF _ st(2)]
    by (auto simp: made_ok_def times_of_def f str_test_def one_of_def is_bool_def)
qed

lemma made_spread:
  assumes "made_ok e now expires a" "\<forall>(k, v) \<in> set gs. k = js ''match'' \<or> (k = js ''state'' \<and> v = VStr (js ''proposed''))"
  shows "made_ok e now expires (VObj (spread (members a) gs))"
proof -
  let ?x = "VObj (spread (members a) gs)"
  have other: "fld ?x k = fld a k" if "k \<noteq> js ''match''" "k \<noteq> js ''state''" for k
    using assms(2) that by (auto simp: fld_spread dest!: map_of_SomeD split: option.splits)
  have "one_of [''active'', ''proposed''] (fld ?x (js ''state''))"
  proof (cases "map_of (rev gs) (js ''state'')")
    case None
    then show ?thesis using assms(1) by (simp add: fld_spread made_ok_def)
  next
    case (Some v)
    have "(js ''state'', v) \<in> set gs" using map_of_SomeD [OF Some] by simp
    from bspec [OF assms(2) this] have "v = VStr (js ''proposed'')" by simp
    then show ?thesis by (simp add: fld_spread Some one_of_def)
  qed
  moreover have "is_obj ?x" by (simp add: is_obj_def)
  moreover have "valid_reason ?x" using assms(1) by (simp add: made_ok_def valid_reason_def other)
  ultimately show ?thesis using assms(1) by (simp add: made_ok_def other)
qed

lemma expires_within: "expires_after l (kept_days d) \<le> 365 * day_ms"
  by (cases l) (auto simp: expires_after_def kept_days_def allowance_max_days_def day_ms_def min_def max_def)

text \<open>What a well-formed request for an allowance holds.\<close>

definition input_ok :: "env \<Rightarrow> computer \<Rightarrow> jsstr \<Rightarrow> allowance_input \<Rightarrow> jsval option \<Rightarrow> bool" where
  "input_ok e pc id' i m \<longleftrightarrow>
     times_of e i \<and> digests_ok e \<and> allowance_id id' \<and> rule_re (a_rule i) \<and> who_ok (a_user i) \<and>
     (case m of None \<Rightarrow> is_hex64 (a_key i)
      | Some mv \<Rightarrow> valid_allowance_match pc mv \<and> fld mv (js ''rule'') = VStr (a_rule i) \<and> rule_patternable (a_rule i))"

lemma made_allowance:
  assumes "input_ok e pc id' i m" "make_allowance e id' i m wait = Inr a"
  shows "valid_allowance e pc a \<and> made_ok e (a_now i) (a_now i + expires_after (a_lasts i) (kept_days (a_days i))) a \<and>
    ((is_long (a_lasts i) \<and> a_needs_admin i) \<or> (m \<noteq> None \<and> wait) \<longrightarrow> fld a (js ''state'') = VStr (js ''proposed''))"
proof (cases m)
  case None
  with assms have a: "make_exact e id' i = Inr a" by (simp add: make_allowance_def)
  have x: "times_of e i" "digests_ok e" "allowance_id id'" "rule_re (a_rule i)" "is_hex64 (a_key i)" "who_ok (a_user i)"
    using assms(1) None by (simp_all add: input_ok_def)
  from exact_ok [OF x a] made_valid [of e "a_now i" _ a pc] None show ?thesis by auto
next
  case (Some mv)
  with assms(2) obtain k b where b: "pattern_key e mv = Inr k" "make_exact e id' (i\<lparr> a_key := k \<rparr>) = Inr b"
    "a = VObj (spread (members b) ((js ''match'', mv) # (if wait then [(js ''state'', VStr (js ''proposed''))] else [])))"
    by (auto simp: make_allowance_def rbind_Inr_iff)
  have x: "times_of e i" "digests_ok e" "allowance_id id'" "rule_re (a_rule i)" "who_ok (a_user i)" "valid_allowance_match pc mv"
    "fld mv (js ''rule'') = VStr (a_rule i)" "rule_patternable (a_rule i)"
    using assms(1) Some by (simp_all add: input_ok_def)
  have "is_hex64 k" using b(1) digest_hex [OF x(2)] by (auto simp: pattern_key_def rbind_Inr_iff)
  then have e: "made_ok e (a_now i) (a_now i + expires_after (a_lasts i) (kept_days (a_days i))) b" "fld b (js ''rule'') = VStr (a_rule i)"
    "fld b (js ''kind'') = VUndef" "fld b (js ''state'') = VStr (if is_long (a_lasts i) \<and> a_needs_admin i then js ''proposed'' else js ''active'')"
    using exact_ok [of e "i\<lparr> a_key := k \<rparr>" id' b] x b(2) by (simp_all add: times_of_def)
  have m: "made_ok e (a_now i) (a_now i + expires_after (a_lasts i) (kept_days (a_days i))) a"
    unfolding b(3) by (rule made_spread [OF e(1)]) auto
  have f: "fld a (js ''match'') = mv" "fld a (js ''kind'') = VUndef" "fld a (js ''rule'') = VStr (a_rule i)"
    "fld a (js ''state'') = (if wait then VStr (js ''proposed'') else fld b (js ''state''))"
    unfolding b(3) by (simp_all add: fld_spread e(2,3))
  have "valid_allowance e pc a" using x by (intro made_valid [OF m]) (simp_all add: f text_of_def)
  with m f(4) e(4) Some show ?thesis by auto
qed

text \<open>C37: an allowance made on this computer has the shape the hook reads it back with, lasts a year at most, was not used, and
  stands for no one while it waits for an admin (a long one under such terms, a pattern where the workspace says so).\<close>

theorem made_allowance_valid:
  assumes "input_ok e pc id' i m" "make_allowance e id' i m wait = Inr a"
  shows "valid_allowance e pc a \<and> \<not> used_up a \<and>
    date_of e (fld a (js ''expires_at'')) = jint (a_now i + expires_after (a_lasts i) (kept_days (a_days i))) \<and>
    expires_after (a_lasts i) (kept_days (a_days i)) \<le> 365 * day_ms \<and>
    ((is_long (a_lasts i) \<and> a_needs_admin i) \<or> (m \<noteq> None \<and> wait) \<longrightarrow> \<not> standing e a (q :: 'q asker_scheme))"
proof -
  note made = made_allowance [OF assms]
  then obtain s where "fld a (js ''expires_at'') = VStr s" "date_parse e s = Some (a_now i + expires_after (a_lasts i) (kept_days (a_days i)))"
    unfolding made_ok_def by blast
  moreover have "\<not> used_up a" using made by (simp add: made_ok_def used_up_def num_value_def)
  ultimately show ?thesis using made expires_within by (auto simp: date_of_def standing_def js_def)
qed

end
