(* ===== verification/SessionBudgets.thy ===== *)
theory SessionBudgets
  imports Allowances
begin

section \<open>Session budgets\<close>

text \<open>
  \<^verbatim>\<open>packages/hook/src/session-budgets.ts\<close> and \<^verbatim>\<open>session-budget-shape.ts\<close>: how many tool calls one coding-agent session may make. The
  counts live in one file, read and written under a lock. The file's content is what \<open>JSON.parse\<close> gives for its text; the lock, a failing
  read or write and the clock are the environment of each operation.
\<close>

subsection \<open>The shape of a budget\<close>

definition int_in :: "jsval \<Rightarrow> int \<Rightarrow> int \<Rightarrow> bool" where
  "int_in v lo hi = (case v of VNum n \<Rightarrow> is_integer_num n \<and> jle (jint lo) n \<and> jle n (jint hi) | _ \<Rightarrow> False)"

definition budget_id_re :: "jsstr \<Rightarrow> bool" where
  "budget_id_re s \<longleftrightarrow> 8 \<le> length s \<and> length s \<le> 128 \<and> list_all (\<lambda>c. is_letter c \<or> is_digit c \<or> c \<in> set (js ''._:-'')) s"

definition operation_re :: "jsstr \<Rightarrow> bool" where
  "operation_re s \<longleftrightarrow>
     (case js_split 46 s of
        w # ws \<Rightarrow> w \<noteq> [] \<and> is_lower (hd w) \<and> ws \<noteq> [] \<and>
          list_all (\<lambda>v. v \<noteq> [] \<and> list_all (\<lambda>c. is_lower c \<or> is_digit c \<or> c = 95) v) (w # ws)
      | [] \<Rightarrow> False)"

definition valid_limit :: "jsval \<Rightarrow> bool" where
  "valid_limit l \<longleftrightarrow>
     is_obj l \<and> keys_in l [''operations'', ''max''] \<and> int_in (fld l (js ''max'')) 0 1000000 \<and> is_arr (fld l (js ''operations'')) \<and>
     (let ops = elems (fld l (js ''operations'')) in
      1 \<le> length ops \<and> length ops \<le> 20 \<and> distinct ops \<and> list_all (str_test (\<lambda>s. length s \<le> 64 \<and> operation_re s)) ops)"

definition valid_session_budget :: "env \<Rightarrow> jsval \<Rightarrow> bool" where
  "valid_session_budget e b \<longleftrightarrow>
     is_obj b \<and>
     keys_in b [''budget_id'', ''scope'', ''session_id'', ''limits'', ''mode'', ''version'', ''expires_at'', ''source'', ''count_shell_as_write''] \<and>
     str_test budget_id_re (fld b (js ''budget_id'')) \<and> fld b (js ''scope'') = VStr (js ''session'') \<and>
     str_test (\<lambda>s. 1 \<le> length s \<and> length s \<le> 200) (fld b (js ''session_id'')) \<and> is_arr (fld b (js ''limits'')) \<and>
     (let ls = elems (fld b (js ''limits'')) in 1 \<le> length ls \<and> length ls \<le> 10 \<and> list_all valid_limit ls) \<and>
     one_of [''enforce'', ''monitor''] (fld b (js ''mode'')) \<and> int_in (fld b (js ''version'')) 1 2147483647 \<and>
     is_date e (fld b (js ''expires_at'')) \<and>
     (fld b (js ''source'') = VUndef \<or> one_of [''request'', ''admin''] (fld b (js ''source''))) \<and>
     (fld b (js ''count_shell_as_write'') = VUndef \<or> is_bool (fld b (js ''count_shell_as_write'')))"

definition valid_session_budgets :: "env \<Rightarrow> jsval \<Rightarrow> bool" where
  "valid_session_budgets e v \<longleftrightarrow>
     (case v of VArr bs \<Rightarrow> length bs \<le> 50 \<and> list_all (valid_session_budget e) bs \<and> distinct (map (\<lambda>b. fld b (js ''budget_id'')) bs)
      | _ \<Rightarrow> False)"

record budget_limit =
  l_ops :: "jsstr list"
  l_max :: int

record session_budget =
  b_id :: jsstr
  b_session :: jsstr
  b_limits :: "budget_limit list"
  b_enforce :: bool
  b_version :: int
  b_expires :: int
  b_request :: bool
  b_shell_as_write :: bool

text \<open>A checked budget, read at its types: \<open>expires_at\<close> as the time it parses to.\<close>

definition limit_of :: "jsval \<Rightarrow> budget_limit" where
  "limit_of l = \<lparr> l_ops = map text_of (elems (fld l (js ''operations''))), l_max = num_int (num_value (fld l (js ''max''))) \<rparr>"

definition budget_of :: "env \<Rightarrow> jsval \<Rightarrow> session_budget" where
  "budget_of e b =
     \<lparr> b_id = text_of (fld b (js ''budget_id'')), b_session = text_of (fld b (js ''session_id'')),
       b_limits = map limit_of (elems (fld b (js ''limits''))), b_enforce = (fld b (js ''mode'') = VStr (js ''enforce'')),
       b_version = num_int (num_value (fld b (js ''version''))), b_expires = num_int (date_of e (fld b (js ''expires_at''))),
       b_request = (fld b (js ''source'') = VStr (js ''request'')), b_shell_as_write = (fld b (js ''count_shell_as_write'') = VBool True) \<rparr>"

definition read_session_budgets :: "env \<Rightarrow> jsval option \<Rightarrow> session_budget list" where
  "read_session_budgets e doc =
     (case doc of None \<Rightarrow> [] | Some d \<Rightarrow> map (budget_of e) (filter (valid_session_budget e) (elems (fld d (js ''session_budgets'')))))"

subsection \<open>What a shell command does\<close>

record budget_intent =
  i_type :: jsstr
  i_params :: jsval

fun path_parts :: "jsstr \<Rightarrow> jsstr list" where
  "path_parts [] = [[]]"
| "path_parts (c # s) = (if c = 47 \<or> c = 92 then [] # path_parts s else (case path_parts s of p # ps \<Rightarrow> (c # p) # ps | [] \<Rightarrow> [[c]]))"

definition program_of :: "computer \<Rightarrow> jsval \<Rightarrow> jsstr" where
  "program_of pc params =
     strip_suffix (map js [''.exe'', ''.cmd'', ''.bat'', ''.ps1'']) (lower_text pc (last (path_parts (text_of (fld params (js ''program''))))))"

text \<open>The digests the hook appends to a command text, cut out from left to right with the space before them.\<close>

definition digest_note :: "jsstr \<Rightarrow> bool" where
  "digest_note s \<longleftrightarrow> starts_with s (js ''(hmac-sha256:'') \<and> is_hex64 (take 64 (drop 13 s)) \<and> take 1 (drop 77 s) = js '')''"

function cut_digests :: "jsstr \<Rightarrow> jsstr" where
  "cut_digests s =
     (case s of [] \<Rightarrow> []
      | c # t \<Rightarrow> if c = 32 \<and> digest_note t then cut_digests (drop 78 t)
                 else if digest_note s then cut_digests (drop 78 s)
                 else c # cut_digests t)"
  by pat_completeness auto
termination
  by (relation "measure length") (auto simp: less_Suc_eq_le)

declare cut_digests.simps [simp del]

function space_words :: "jsstr \<Rightarrow> jsstr list" where
  "space_words s =
     (let w = takeWhile (\<lambda>c. \<not> is_space c) s; r = dropWhile is_space (dropWhile (\<lambda>c. \<not> is_space c) s) in
      if dropWhile (\<lambda>c. \<not> is_space c) s = [] then [w] else w # space_words r)"
  by pat_completeness auto
termination
proof (relation "measure length")
  fix s w r :: jsstr
  assume r: "r = dropWhile is_space (dropWhile (\<lambda>c. \<not> is_space c) s)" and ne: "dropWhile (\<lambda>c. \<not> is_space c) s \<noteq> []"
  then obtain c t where t: "dropWhile (\<lambda>c. \<not> is_space c) s = c # t" by (cases "dropWhile (\<lambda>c. \<not> is_space c) s") auto
  then have "is_space c" using hd_dropWhile [OF ne] by simp
  then have "r = dropWhile is_space t" by (simp add: r t)
  then have "length r \<le> length t" by (simp add: length_dropWhile_le)
  also have "length t < length s" using length_dropWhile_le [of "\<lambda>c. \<not> is_space c" s] by (simp add: t)
  finally show "(r, s) \<in> measure length" by simp
qed simp

declare space_words.simps [simp del]

definition args_of :: "jsval \<Rightarrow> jsstr list" where
  "args_of params =
     filter (\<lambda>w. \<not> starts_with w (js ''-'')) (drop 1 (space_words (js_trim (cut_digests (text_of (fld params (js ''command'')))))))"

definition js_install :: "jsstr list" where
  "js_install = map js [''install'', ''i'', ''ci'', ''add'', ''update'', ''up'', ''upgrade'']"

definition without_version :: "jsstr \<Rightarrow> jsstr" where
  "without_version p = rev (dropWhile (\<lambda>c. is_digit c \<or> c = 46) (rev p))"

definition arg :: "nat \<Rightarrow> jsstr list \<Rightarrow> jsstr option" where
  "arg i ws = (if i < length ws then Some (ws ! i) else None)"

definition arg_is :: "jsstr option \<Rightarrow> string list \<Rightarrow> bool" where
  "arg_is a ws = (case a of None \<Rightarrow> False | Some w \<Rightarrow> w \<in> set (map js ws))"

definition is_package_install :: "computer \<Rightarrow> budget_intent \<Rightarrow> bool" where
  "is_package_install pc i \<longleftrightarrow>
     i_type i = js ''shell.exec'' \<and>
     (let program = program_of pc (i_params i); a = arg 0 (args_of (i_params i)); b = arg 1 (args_of (i_params i)); plain = without_version program in
      if program \<in> set (map js [''npm'', ''pnpm'', ''yarn'', ''bun'']) then
        (if program = js ''yarn'' \<and> a = None then True else (case a of None \<Rightarrow> False | Some w \<Rightarrow> w \<in> set js_install))
      else if plain = js ''pip'' \<or> program = js ''pipx'' then arg_is a [''install'']
      else if plain = js ''python'' \<or> program = js ''py'' then arg_is a [''pip''] \<and> arg_is b [''install'']
      else if program = js ''uv'' then
        arg_is a [''add'', ''sync''] \<or> (arg_is a [''pip''] \<and> arg_is b [''install'']) \<or> (arg_is a [''tool''] \<and> arg_is b [''install''])
      else if program = js ''poetry'' then arg_is a [''add'', ''install'']
      else if program = js ''cargo'' \<or> program = js ''gem'' then arg_is a [''install'', ''add'']
      else if program = js ''go'' then arg_is a [''get'', ''install'']
      else False)"

definition agent_programs :: "jsstr list" where
  "agent_programs = map js [''claude'', ''codex'', ''cursor-agent'', ''copilot'', ''gemini'', ''aider'', ''opencode'']"

fun slash_tails :: "jsstr \<Rightarrow> jsstr list" where
  "slash_tails [] = []"
| "slash_tails (c # s) = (if c = 47 then s # slash_tails s else slash_tails s)"

definition agent_package :: "jsstr \<Rightarrow> bool" where
  "agent_package w \<longleftrightarrow>
     list_ex (\<lambda>t. list_ex (\<lambda>n. t = n \<or> starts_with t (n @ js ''@''))
       (map js [''claude-code'', ''codex'', ''copilot'', ''cursor-agent'', ''gemini-cli''])) (w # slash_tails w)"

definition is_agent_launch :: "computer \<Rightarrow> budget_intent \<Rightarrow> bool" where
  "is_agent_launch pc i \<longleftrightarrow>
     i_type i = js ''shell.exec'' \<and>
     (let program = program_of pc (i_params i); args = args_of (i_params i) in
      if program \<in> set agent_programs then True
      else if program = js ''gh'' then arg_is (arg 0 args) [''copilot'']
      else if program \<in> set (map js [''npx'', ''bunx'', ''pnpx'']) \<or> (program \<in> set (map js [''pnpm'', ''yarn'']) \<and> arg_is (arg 0 args) [''dlx''])
      then list_ex agent_package args
      else False)"

definition types_of :: "computer \<Rightarrow> budget_intent \<Rightarrow> session_budget \<Rightarrow> jsstr list" where
  "types_of pc i b =
     i_type i #
     (if is_package_install pc i then [js ''package.install'']
      else if b_shell_as_write b \<and> i_type i = js ''shell.exec'' then [js ''file.write''] else [])"

subsection \<open>The count file\<close>

record session_counts =
  sc_updated :: jnum
  sc_counts :: "(jsstr \<times> int) list"
  sc_groups :: "jsval list"
  sc_keep :: "jnum option"

type_synonym count_file = "(jsstr \<times> session_counts) list"

text \<open>The file on disk: missing, unreadable (with the error's code), or a text (\<open>None\<close>: \<open>JSON.parse\<close> throws).\<close>

datatype count_disk = Count_missing | Count_unreadable jsstr | Count_text "jsval option"

definition finite_value :: "jsval \<Rightarrow> bool" where
  "finite_value v = (case v of VNum n \<Rightarrow> is_finite_num n | _ \<Rightarrow> False)"

definition session_counts_ok :: "jsval \<Rightarrow> bool" where
  "session_counts_ok s \<longleftrightarrow>
     is_obj s \<and> finite_value (fld s (js ''updated_at'')) \<and> is_obj (fld s (js ''counts'')) \<and> is_arr (fld s (js ''groups'')) \<and>
     (fld s (js ''keep_until'') = VUndef \<or> finite_value (fld s (js ''keep_until''))) \<and>
     list_all (\<lambda>(_, n). int_in n 0 1000001) (members (fld s (js ''counts'')))"

definition session_counts_of :: "jsval \<Rightarrow> session_counts" where
  "session_counts_of s =
     \<lparr> sc_updated = num_value (fld s (js ''updated_at'')),
       sc_counts = map (\<lambda>(k, n). (k, num_int (num_value n))) (members (fld s (js ''counts''))),
       sc_groups = elems (fld s (js ''groups'')),
       sc_keep = (case fld s (js ''keep_until'') of VNum n \<Rightarrow> Some n | _ \<Rightarrow> None) \<rparr>"

definition read_counts :: "count_disk \<Rightarrow> jsstr + count_file" where
  "read_counts d =
     (case d of
        Count_missing \<Rightarrow> Inr []
      | Count_unreadable code \<Rightarrow> Inl (js ''the count file could not be read ('' @ code @ js '')'')
      | Count_text None \<Rightarrow> Inl (js ''the count file is damaged'')
      | Count_text (Some v) \<Rightarrow>
          if \<not> is_obj v \<or> fld v (js ''version'') \<noteq> VNum (jint 1) \<or> \<not> is_obj (fld v (js ''sessions'')) then Inl (js ''the count file is damaged'')
          else if \<not> list_all (\<lambda>(_, s). session_counts_ok s) (members (fld v (js ''sessions''))) then Inl (js ''the count file is damaged'')
          else Inr (map (\<lambda>(i, s). (i, session_counts_of s)) (members (fld v (js ''sessions'')))))"

definition counts_value :: "session_counts \<Rightarrow> jsval" where
  "counts_value s =
     VObj ([(js ''updated_at'', VNum (sc_updated s)), (js ''counts'', VObj (map (\<lambda>(k, n). (k, VNum (jint n))) (sc_counts s))),
        (js ''groups'', VArr (sc_groups s))] @ (case sc_keep s of None \<Rightarrow> [] | Some k \<Rightarrow> [(js ''keep_until'', VNum k)]))"

definition max_sessions :: nat where "max_sessions = 200"
definition max_groups :: nat where "max_groups = 50"
definition keep_ms :: int where "keep_ms = 2 * 24 * 60 * 60 * 1000"

text \<open>What is kept of the counts: those counted in the last two days or wanted longer, the most recent 200 of them.\<close>

definition wanted :: "int \<Rightarrow> jsstr \<times> session_counts \<Rightarrow> bool" where
  "wanted now = (\<lambda>(_, s). jlt (jsub (jint now) (sc_updated s)) (jint keep_ms) \<or>
     jlt (jint now) (case sc_keep s of None \<Rightarrow> Fin 0 | Some k \<Rightarrow> k))"

definition kept_counts :: "int \<Rightarrow> count_file \<Rightarrow> count_file" where
  "kept_counts now f = take max_sessions (js_sort (\<lambda>a b. jle (sc_updated (snd b)) (sc_updated (snd a))) (filter (wanted now) f))"

definition write_counts :: "int \<Rightarrow> count_file \<Rightarrow> count_disk" where
  "write_counts now f =
     Count_text (Some (VObj [(js ''version'', VNum (jint 1)), (js ''sessions'', VObj (map (\<lambda>(i, s). (i, counts_value s)) (kept_counts now f)))]))"

subsection \<open>A reservation\<close>

datatype budget_state = Within | At_limit | Over | Unavailable_count

record receipt_budget =
  rb_id :: jsstr
  rb_version :: int
  rb_enforce :: bool
  rb_operation :: jsstr
  rb_count :: int
  rb_max :: int
  rb_state :: budget_state

definition receipt_for :: "session_budget \<Rightarrow> jsstr \<Rightarrow> int \<Rightarrow> int \<Rightarrow> budget_state \<Rightarrow> receipt_budget" where
  "receipt_for b operation n limit st =
     \<lparr> rb_id = b_id b, rb_version = b_version b, rb_enforce = b_enforce b, rb_operation = operation, rb_count = n, rb_max = limit, rb_state = st \<rparr>"

text \<open>A limit's count key: the budget and its sorted action types.\<close>

definition count_key :: "session_budget \<Rightarrow> budget_limit \<Rightarrow> jsstr" where
  "count_key b l = b_id b @ js ''|'' @ js_join (js '','') (js_sort (\<le>) (l_ops l))"

record matched =
  m_budget :: session_budget
  m_limit :: budget_limit
  m_index :: nat
  m_key :: jsstr
  m_operation :: jsstr

definition limit_hit :: "computer \<Rightarrow> session_budget \<Rightarrow> budget_limit \<Rightarrow> budget_intent \<Rightarrow> bool" where
  "limit_hit pc b l i \<longleftrightarrow> list_ex (\<lambda>t. t \<in> set (l_ops l)) (types_of pc i b)"

fun index_of :: "('a \<Rightarrow> bool) \<Rightarrow> 'a list \<Rightarrow> nat option" where
  "index_of P [] = None"
| "index_of P (x # xs) = (if P x then Some 0 else map_option Suc (index_of P xs))"

definition match_limit :: "computer \<Rightarrow> budget_intent list \<Rightarrow> session_budget \<Rightarrow> budget_limit \<Rightarrow> matched list" where
  "match_limit pc intents b l =
     (case index_of (limit_hit pc b l) intents of
        None \<Rightarrow> []
      | Some n \<Rightarrow> [\<lparr> m_budget = b, m_limit = l, m_index = n, m_key = count_key b l,
           m_operation = (case find (\<lambda>t. t \<in> set (l_ops l)) (types_of pc (intents ! n) b) of Some t \<Rightarrow> t | None \<Rightarrow> []) \<rparr>])"

definition matched_limits :: "computer \<Rightarrow> session_budget list \<Rightarrow> budget_intent list \<Rightarrow> matched list" where
  "matched_limits pc budgets intents = concat (map (\<lambda>b. concat (map (match_limit pc intents b) (b_limits b))) budgets)"

definition live_budgets :: "session_budget list \<Rightarrow> int \<Rightarrow> session_budget list" where
  "live_budgets bs t = filter (\<lambda>b. t < b_expires b) bs"

text \<open>The words of a refusal.\<close>

definition verbs :: "(jsstr \<times> jsstr) list" where
  "verbs = map (\<lambda>(a, b). (js a, js b)) [(''file.write'', ''write files''), (''git.push'', ''push''), (''package.install'', ''install packages''),
     (''shell.exec'', ''run commands''), (''net.fetch'', ''fetch from the web''), (''mcp.tool.call'', ''call MCP tools''), (''file.read'', ''read files'')]"

definition times_text :: "int \<Rightarrow> jsstr" where
  "times_text n = (if n = 0 then js ''no times'' else if n = 1 then js ''once'' else int_text n @ js '' times'')"

definition unavailable_reason :: "jsstr \<Rightarrow> jsstr" where
  "unavailable_reason detail = js ''Scopebond blocked this: session budget. Scopebond could not check this session''
     @ [39] @ js ''s count ('' @ detail
     @ js ''), so it blocks what the budget limits rather than run without a limit. Run `scopebond doctor`, or ask an admin to lift the budget.''"

definition denial_reason :: "session_budget \<Rightarrow> jsstr \<Rightarrow> int \<Rightarrow> int \<Rightarrow> jsstr" where
  "denial_reason b operation limit used =
     js ''Scopebond blocked this: session budget. This session may ''
     @ (case map_of verbs operation of Some v \<Rightarrow> v | None \<Rightarrow> js ''run '' @ operation) @ js '' '' @ times_text limit @ js '' (''
     @ (if b_request b then js ''approved by an admin for this session'' else js ''set by your workspace for this session'')
     @ js ''; '' @ int_text used @ js '' used). Ask an admin to raise it.''"

definition agent_launch_reason :: jsstr where
  "agent_launch_reason = js ''Scopebond blocked this: session budget: starting another coding agent is not allowed in a budgeted session. A person can still start a new session.''"

text \<open>What an allowed call holds: the observations its receipts show, and whether it was counted.\<close>

record held =
  h_observed :: "(session_budget \<times> jsstr list \<times> receipt_budget) list"
  h_matched :: "matched list"
  h_session :: jsstr
  h_group :: jsstr
  h_counted :: bool
  h_post_hoc :: bool

datatype 'h reservation =
    Allowed 'h
  | Refused nat receipt_budget jsstr

definition allow_all :: "held reservation" where
  "allow_all = Allowed \<lparr> h_observed = [], h_matched = [], h_session = [], h_group = [], h_counted = False, h_post_hoc = False \<rparr>"

definition budget_for :: "computer \<Rightarrow> held \<Rightarrow> budget_intent \<Rightarrow> receipt_budget option" where
  "budget_for pc h i =
     map_option (snd \<circ> snd) (find (\<lambda>(b, ops, _). list_ex (\<lambda>t. t \<in> set ops) (types_of pc i b)) (h_observed h))"

definition no_counts :: "int \<Rightarrow> session_counts" where
  "no_counts t = \<lparr> sc_updated = jint t, sc_counts = [], sc_groups = [], sc_keep = None \<rparr>"

definition count_of :: "session_counts \<Rightarrow> jsstr \<Rightarrow> int" where
  "count_of s k = (case map_of (sc_counts s) k of None \<Rightarrow> 0 | Some n \<Rightarrow> n)"

definition count_state :: "int \<Rightarrow> int \<Rightarrow> budget_state" where
  "count_state n limit = (if limit < n then Over else if n = limit then At_limit else Within)"

definition observe :: "session_counts \<Rightarrow> bool \<Rightarrow> matched \<Rightarrow> receipt_budget" where
  "observe s repeated m =
     (let n = (if repeated then count_of s (m_key m) else count_of s (m_key m) + 1) in
      receipt_for (m_budget m) (m_operation m) n (l_max (m_limit m)) (count_state n (l_max (m_limit m))))"

definition over_limit :: "session_counts \<Rightarrow> bool \<Rightarrow> bool \<Rightarrow> matched \<Rightarrow> bool" where
  "over_limit s repeated post_hoc m \<longleftrightarrow> \<not> post_hoc \<and> b_enforce (m_budget m) \<and> rb_state (observe s repeated m) = Over"

definition count_up :: "matched \<Rightarrow> session_counts \<Rightarrow> session_counts" where
  "count_up m s = s\<lparr> sc_counts := omap_set (m_key m) (count_of s (m_key m) + 1) (sc_counts s) \<rparr>"

definition count_down :: "matched \<Rightarrow> session_counts \<Rightarrow> session_counts" where
  "count_down m s = s\<lparr> sc_counts := omap_set (m_key m) (max 0 (count_of s (m_key m) - 1)) (sc_counts s) \<rparr>"

definition counted_session :: "matched list \<Rightarrow> jsstr \<Rightarrow> int \<Rightarrow> int \<Rightarrow> session_counts \<Rightarrow> session_counts" where
  "counted_session hits gid t keep_until s =
     (fold count_up hits s)\<lparr> sc_groups := newest max_groups (sc_groups s @ [VStr gid]), sc_updated := jint t,
        sc_keep := Some (jmax (case sc_keep s of None \<Rightarrow> Fin 0 | Some k \<Rightarrow> k) (jint keep_until)) \<rparr>"

text \<open>The environment of an operation: why the lock could not be taken, and the name of the error a write throws.\<close>

record count_env =
  c_lock :: "jsstr option"
  c_write :: "jsstr option"

definition unavailable :: "matched list \<Rightarrow> bool \<Rightarrow> jsstr \<Rightarrow> held reservation" where
  "unavailable hits post_hoc detail =
     (let m = (case find (\<lambda>m. b_enforce (m_budget m)) hits of Some m \<Rightarrow> m | None \<Rightarrow> hd hits);
          r = receipt_for (m_budget m) (m_operation m) 0 (l_max (m_limit m)) Unavailable_count in
      if \<not> b_enforce (m_budget m) \<or> post_hoc then allow_all
      else Refused (m_index m) r (unavailable_reason detail))"

definition write_failed :: "jsstr \<Rightarrow> jsstr" where
  "write_failed name = js ''the count could not be written ('' @ name @ js '')''"

text \<open>The section under the lock. A write that throws leaves the file as it was.\<close>

definition reserve_locked ::
  "count_env \<Rightarrow> jsstr \<Rightarrow> matched list \<Rightarrow> jsstr \<Rightarrow> bool \<Rightarrow> int \<Rightarrow> int \<Rightarrow> count_disk \<Rightarrow> held reservation \<times> count_disk" where
  "reserve_locked ce sid hits gid post_hoc t keep_until d =
     (case c_lock ce of
        Some detail \<Rightarrow> (unavailable hits post_hoc detail, d)
      | None \<Rightarrow>
          (case read_counts d of
             Inl detail \<Rightarrow> (unavailable hits post_hoc detail, d)
           | Inr f \<Rightarrow>
               let s = (case map_of f sid of None \<Rightarrow> no_counts t | Some s \<Rightarrow> s);
                   repeated = (VStr gid \<in> set (sc_groups s));
                   obs = map (\<lambda>m. (m_budget m, l_ops (m_limit m), observe s repeated m)) hits;
                   held = \<lparr> h_observed = obs, h_matched = hits, h_session = sid, h_group = gid, h_counted = False, h_post_hoc = post_hoc \<rparr> in
               (case find (over_limit s repeated post_hoc) hits of
                  Some m \<Rightarrow>
                    (Refused (m_index m) (observe s repeated m)
                       (denial_reason (m_budget m) (m_operation m) (l_max (m_limit m)) (count_of s (m_key m))), d)
                | None \<Rightarrow>
                    if repeated then (Allowed held, d)
                    else (case c_write ce of
                            Some name \<Rightarrow> (unavailable hits post_hoc (write_failed name), d)
                          | None \<Rightarrow>
                              (Allowed (held\<lparr> h_counted := True \<rparr>),
                               write_counts t (omap_set sid (counted_session hits gid t keep_until s) f))))))"

definition reserve ::
  "computer \<Rightarrow> count_env \<Rightarrow> jsstr \<Rightarrow> session_budget list \<Rightarrow> jsstr \<Rightarrow> budget_intent list \<Rightarrow> bool \<Rightarrow> int \<Rightarrow> count_disk \<Rightarrow> held reservation \<times> count_disk" where
  "reserve pc ce sid mine gid intents post_hoc t d =
     (let budgets = live_budgets mine t in
      if budgets = [] then (allow_all, d)
      else
        (case (if post_hoc then None else index_of (is_agent_launch pc) intents, find b_enforce budgets) of
           (Some i, Some b) \<Rightarrow> (Refused i (receipt_for b (js ''shell.exec'') 1 0 Over) agent_launch_reason, d)
         | _ \<Rightarrow>
             let hits = matched_limits pc budgets intents in
             if hits = [] then (allow_all, d)
             else reserve_locked ce sid hits gid post_hoc t (Max (set (map b_expires budgets)) + day_ms) d))"

text \<open>Giving a counted call back; any failure leaves the count as it is.\<close>

definition release :: "count_env \<Rightarrow> held \<Rightarrow> int \<Rightarrow> count_disk \<Rightarrow> count_disk" where
  "release ce h now d =
     (if \<not> h_counted h \<or> h_post_hoc h then d
      else if c_lock ce \<noteq> None then d
      else (case read_counts d of
              Inl _ \<Rightarrow> d
            | Inr f \<Rightarrow>
                (case map_of f (h_session h) of
                   None \<Rightarrow> d
                 | Some s \<Rightarrow>
                     if c_write ce \<noteq> None then d
                     else write_counts now (omap_set (h_session h)
                       ((fold count_down (h_matched h) s)\<lparr> sc_groups := filter (\<lambda>g. g \<noteq> VStr (h_group h)) (sc_groups s) \<rparr>) f))))"

subsection \<open>The guards of a call\<close>

text \<open>
  The session a hook input names: none, an id, or the failure to work it out (\<open>keyedSessionId\<close> throws). \<open>all\<close> are the budgets of the rules
  document. When the id is unknown, every limited action type is refused.
\<close>

datatype named_session = No_session | Session_unknown | Session jsstr

datatype budget_guard = Unknown_guard "session_budget list" | Session_guard jsstr "session_budget list"

definition session_budget_guard :: "session_budget list \<Rightarrow> named_session \<Rightarrow> budget_guard option" where
  "session_budget_guard bs who =
     (if bs = [] then None
      else (case who of
              No_session \<Rightarrow> None
            | Session_unknown \<Rightarrow> Some (Unknown_guard bs)
            | Session sid \<Rightarrow> let mine = filter (\<lambda>b. b_session b = sid) bs in if mine = [] then None else Some (Session_guard sid mine)))"

definition unknown_reserve :: "computer \<Rightarrow> session_budget list \<Rightarrow> budget_intent list \<Rightarrow> bool \<Rightarrow> int \<Rightarrow> held reservation" where
  "unknown_reserve pc bs intents post_hoc t =
     (if post_hoc then allow_all
      else (case matched_limits pc (filter b_enforce (live_budgets bs t)) intents of
              [] \<Rightarrow> allow_all
            | m # _ \<Rightarrow> Refused (m_index m) (receipt_for (m_budget m) (m_operation m) 0 (l_max (m_limit m)) Unavailable_count)
                (unavailable_reason (js ''this session'' @ [39] @ js ''s id could not be read''))))"

definition guard_reserve ::
  "computer \<Rightarrow> count_env \<Rightarrow> budget_guard \<Rightarrow> jsstr \<Rightarrow> budget_intent list \<Rightarrow> bool \<Rightarrow> int \<Rightarrow> count_disk \<Rightarrow> held reservation \<times> count_disk" where
  "guard_reserve pc ce g gid intents post_hoc t d =
     (case g of
        Unknown_guard bs \<Rightarrow> (unknown_reserve pc bs intents post_hoc t, d)
      | Session_guard sid mine \<Rightarrow> reserve pc ce sid mine gid intents post_hoc t d)"

text \<open>
  With a harness named, the budgets of its own session and those of the session's old id both count. The first guard that refuses decides,
  and what the one before it held is given back.
\<close>

definition guards_for :: "session_budget list \<Rightarrow> named_session \<Rightarrow> named_session option \<Rightarrow> budget_guard list" where
  "guards_for bs current legacy =
     (if bs = [] then []
      else if current = Session_unknown \<or> legacy = Some Session_unknown then [Unknown_guard bs]
      else map the (filter (\<lambda>g. g \<noteq> None)
        [session_budget_guard bs current, case legacy of None \<Rightarrow> None | Some who \<Rightarrow> session_budget_guard bs who]))"

fun release_all :: "count_env \<Rightarrow> held list \<Rightarrow> int \<Rightarrow> count_disk \<Rightarrow> count_disk" where
  "release_all ce [] now d = d"
| "release_all ce (h # hs) now d = release_all ce hs now (release ce h now d)"

fun reserve_guards ::
  "computer \<Rightarrow> count_env \<Rightarrow> count_env \<Rightarrow> budget_guard list \<Rightarrow> held list \<Rightarrow> jsstr \<Rightarrow> budget_intent list \<Rightarrow> bool \<Rightarrow> int \<Rightarrow> count_disk \<Rightarrow>
     held list reservation \<times> count_disk" where
  "reserve_guards pc ce cr [] hs gid intents post_hoc t d = (Allowed hs, d)"
| "reserve_guards pc ce cr (g # gs) hs gid intents post_hoc t d =
     (case guard_reserve pc ce g gid intents post_hoc t d of
        (Refused n r why, d1) \<Rightarrow> (Refused n r why, release_all cr hs t d1)
      | (Allowed h, d1) \<Rightarrow> reserve_guards pc ce cr gs (hs @ [h]) gid intents post_hoc t d1)"

definition budget_for_all :: "computer \<Rightarrow> held list \<Rightarrow> budget_intent \<Rightarrow> receipt_budget option" where
  "budget_for_all pc hs i =
     (case find (\<lambda>r. \<not> Option.is_none r) (map (\<lambda>h. budget_for pc h i) hs) of None \<Rightarrow> None | Some r \<Rightarrow> r)"

end
