(* ===== verification/SessionBudgetProps.thy ===== *)
theory SessionBudgetProps
  imports SessionBudgets NumFacts
begin

section \<open>What a session budget limits\<close>

text \<open>
  The counts of a session are shared with every other process of the machine. A run is a sequence of the operations each process does
  under the lock: calls counted or refused, counts given back, and what other sessions write. The count of a limit never falls below the
  calls that stand, so no more calls run than the limit says.
\<close>

subsection \<open>Counts\<close>

lemma count_of_up [simp]: "count_of (count_up m s) k = count_of s k + (if m_key m = k then 1 else 0)"
  by (simp add: count_up_def count_of_def map_of_omap_set)

lemma count_up_rest [simp]:
  "sc_groups (count_up m s) = sc_groups s" "sc_updated (count_up m s) = sc_updated s" "sc_keep (count_up m s) = sc_keep s"
  by (simp_all add: count_up_def)

lemma count_of_down: "count_of (count_down m s) k = (if m_key m = k then max 0 (count_of s k - 1) else count_of s k)"
  by (simp add: count_down_def count_of_def map_of_omap_set)

lemma count_down_rest [simp]:
  "sc_groups (count_down m s) = sc_groups s" "sc_updated (count_down m s) = sc_updated s" "sc_keep (count_down m s) = sc_keep s"
  by (simp_all add: count_down_def)

definition key_adds :: "matched list \<Rightarrow> jsstr \<Rightarrow> int" where
  "key_adds hits k = int (length (filter (\<lambda>m. m_key m = k) hits))"

lemma count_of_ups: "count_of (fold count_up hits s) k = count_of s k + key_adds hits k"
  by (induction hits arbitrary: s) (simp_all add: key_adds_def)

lemma count_of_downs: "count_of s k - key_adds hits k \<le> count_of (fold count_down hits s) k"
proof (induction hits arbitrary: s)
  case (Cons m hits)
  show ?case using Cons.IH [of "count_down m s"] by (simp add: key_adds_def count_of_down split: if_splits)
qed (simp add: key_adds_def)

lemma count_of_downs_exact: "key_adds hits k \<le> count_of s k \<Longrightarrow> count_of (fold count_down hits s) k = count_of s k - key_adds hits k"
proof (induction hits arbitrary: s)
  case (Cons m hits)
  have "key_adds hits k \<le> count_of (count_down m s) k" using Cons.prems by (simp add: key_adds_def count_of_down split: if_splits)
  from Cons.IH [OF this] show ?case using Cons.prems by (simp add: key_adds_def count_of_down split: if_splits)
qed (simp add: key_adds_def)

lemma fold_count_rest [simp]:
  "sc_keep (fold count_up hits s) = sc_keep s" "sc_groups (fold count_up hits s) = sc_groups s"
  "sc_keep (fold count_down hits s) = sc_keep s" "sc_groups (fold count_down hits s) = sc_groups s"
  "sc_updated (fold count_down hits s) = sc_updated s"
  by (induction hits arbitrary: s) simp_all

lemma key_adds_mem: "m \<in> set hits \<Longrightarrow> m_key m = k \<Longrightarrow> 1 \<le> key_adds hits k"
  by (induction hits) (auto simp: key_adds_def)

subsection \<open>The file read back\<close>

lemma counts_of_value: "session_counts_of (counts_value s) = s"
  by (cases "sc_keep s")
    (auto simp: session_counts_of_def counts_value_def js_simps num_value_def jint_def num_int_def case_prod_beta comp_def intro!: session_counts.equality)

lemma counts_value_ok: "session_counts_ok (counts_value s) \<longleftrightarrow>
    is_finite_num (sc_updated s) \<and> (case sc_keep s of None \<Rightarrow> True | Some k \<Rightarrow> is_finite_num k) \<and> list_all (\<lambda>(_, n). 0 \<le> n \<and> n \<le> 1000001) (sc_counts s)"
  by (cases "sc_keep s")
    (auto simp: session_counts_ok_def counts_value_def js_simps finite_value_def int_in_def is_obj_def is_arr_def jint_def is_integer_num_def list_all_iff case_prod_beta)

definition counts_ok :: "session_counts \<Rightarrow> bool" where
  "counts_ok s \<longleftrightarrow>
     is_finite_num (sc_updated s) \<and> (case sc_keep s of None \<Rightarrow> True | Some k \<Rightarrow> is_finite_num k) \<and> list_all (\<lambda>(_, n). 0 \<le> n \<and> n \<le> 1000001) (sc_counts s)"

lemma read_written_eq:
  "read_counts (write_counts t f) =
     (if list_all (\<lambda>(_, s). counts_ok s) (kept_counts t f) then Inr (kept_counts t f) else Inl (js ''the count file is damaged''))"
  by (auto simp: read_counts_def write_counts_def js_simps is_obj_def jint_def list_all_iff case_prod_beta counts_of_value counts_value_ok counts_ok_def comp_def
    map_idI)

lemma read_written: "read_counts (write_counts t f) = Inr f' \<Longrightarrow> f' = kept_counts t f"
  by (simp add: read_written_eq split: if_splits)

text \<open>
  Fewer than 200 sessions are wanted: then a write drops none of them. (With more, the oldest counts go first; a budget lasts hours.)
\<close>

definition roomy :: "int \<Rightarrow> count_disk \<Rightarrow> bool" where
  "roomy t d = (case read_counts d of Inl _ \<Rightarrow> True | Inr f \<Rightarrow> length (filter (wanted t) f) < max_sessions)"

lemma filter_omap_set: "length (filter P (omap_set k v f)) \<le> length (filter P f) + 1"
  by (induction f) (auto simp: le_SucI)

lemma kept_roomy:
  assumes d: "distinct (map fst f)" and room: "length (filter (wanted t) f) \<le> max_sessions"
  shows "distinct (map fst (kept_counts t f))" "map_of (kept_counts t f) i = Some s \<longleftrightarrow> map_of f i = Some s \<and> wanted t (i, s)"
proof -
  let ?srt = "js_sort (\<lambda>a b. jle (sc_updated (snd b)) (sc_updated (snd a))) (filter (wanted t) f)"
  have m: "mset ?srt = mset (filter (wanted t) f)" by (rule js_sort_mset)
  from mset_eq_length [OF m] have k: "kept_counts t f = ?srt" using room by (simp add: kept_counts_def)
  from m have "mset (map fst ?srt) = mset (map fst (filter (wanted t) f))" by simp
  moreover have dd: "distinct (map fst (filter (wanted t) f))" using d by (simp add: distinct_map_filter)
  ultimately have dk: "distinct (map fst ?srt)" by (metis mset_eq_imp_distinct_iff)
  then show "distinct (map fst (kept_counts t f))" by (simp add: k)
  show "map_of (kept_counts t f) i = Some s \<longleftrightarrow> map_of f i = Some s \<and> wanted t (i, s)"
    using d dk unfolding k by (simp add: js_sort_set)
qed

lemma wanted_keep: "sc_keep s = Some k \<Longrightarrow> jle (jint u) k \<Longrightarrow> t < u \<Longrightarrow> wanted t (i, s)"
  by (cases k) (auto simp: wanted_def jint_def)

text \<open>What stays of the other entries, and of the one that is written.\<close>

lemma write_keeps:
  assumes "read_counts d = Inr f" "distinct (map fst f)" "roomy t d" and w: "read_counts (write_counts t (omap_set i s f)) = Inr f'"
  shows "distinct (map fst f')" "map_of f' j = Some s' \<longleftrightarrow> map_of (omap_set i s f) j = Some s' \<and> wanted t (j, s')"
proof -
  have f': "f' = kept_counts t (omap_set i s f)" by (rule read_written [OF w])
  have d: "distinct (map fst (omap_set i s f))" by (rule om.distinct_set [OF assms(2)])
  have r: "length (filter (wanted t) (omap_set i s f)) \<le> max_sessions"
    using filter_omap_set [of "wanted t" i s f] assms(1,3) by (simp add: roomy_def)
  show "distinct (map fst f')" "map_of f' j = Some s' \<longleftrightarrow> map_of (omap_set i s f) j = Some s' \<and> wanted t (j, s')"
    unfolding f' using kept_roomy [OF d r] by simp_all
qed

subsection \<open>What an operation does to the file\<close>

definition session_of :: "jsstr \<Rightarrow> int \<Rightarrow> count_file \<Rightarrow> session_counts" where
  "session_of sid t f = (case map_of f sid of None \<Rightarrow> no_counts t | Some s \<Rightarrow> s)"

definition kept_until :: "session_budget list \<Rightarrow> int \<Rightarrow> int" where
  "kept_until mine t = Max (set (map b_expires (live_budgets mine t))) + day_ms"

text \<open>A call that is counted: the file before it, and what it writes.\<close>

definition counts_call ::
  "computer \<Rightarrow> jsstr \<Rightarrow> session_budget list \<Rightarrow> jsstr \<Rightarrow> budget_intent list \<Rightarrow> bool \<Rightarrow> int \<Rightarrow> count_disk \<Rightarrow> held \<Rightarrow> count_disk \<Rightarrow> count_file \<Rightarrow> bool" where
  "counts_call pc sid mine gid intents post_hoc t d h d' f \<longleftrightarrow>
     read_counts d = Inr f \<and> live_budgets mine t \<noteq> [] \<and> h_counted h \<and> h_session h = sid \<and> h_group h = gid \<and> h_post_hoc h = post_hoc \<and>
     h_matched h = matched_limits pc (live_budgets mine t) intents \<and>
     list_all (\<lambda>m. \<not> over_limit (session_of sid t f) False post_hoc m) (h_matched h) \<and> VStr gid \<notin> set (sc_groups (session_of sid t f)) \<and>
     d' = write_counts t (omap_set sid (counted_session (h_matched h) gid t (kept_until mine t) (session_of sid t f)) f)"

lemma unavailable_not_counted: "unavailable hits post_hoc why = Allowed h \<Longrightarrow> \<not> h_counted h"
  by (auto simp: unavailable_def Let_def allow_all_def split: if_splits)

lemma reserve_locked_cases:
  assumes "reserve_locked ce sid hits gid post_hoc t u d = (r, d')"
  shows "(d' = d \<and> (\<forall>h. r = Allowed h \<longrightarrow> \<not> h_counted h)) \<or>
    (\<exists>f h. read_counts d = Inr f \<and> r = Allowed h \<and> h_counted h \<and> h_session h = sid \<and> h_group h = gid \<and> h_post_hoc h = post_hoc \<and> h_matched h = hits \<and>
      list_all (\<lambda>m. \<not> over_limit (session_of sid t f) False post_hoc m) hits \<and> VStr gid \<notin> set (sc_groups (session_of sid t f)) \<and>
      d' = write_counts t (omap_set sid (counted_session hits gid t u (session_of sid t f)) f))"
  using assms
  by (auto simp: reserve_locked_def Let_def session_of_def [symmetric] find_None_iff list_all_iff dest: unavailable_not_counted
    split: option.splits sum.splits if_splits)

lemma reserve_outcome:
  assumes "reserve pc ce sid mine gid intents post_hoc t d = (r, d')"
  shows "(d' = d \<and> (\<forall>h. r = Allowed h \<longrightarrow> \<not> h_counted h)) \<or>
    (\<exists>f h. r = Allowed h \<and> counts_call pc sid mine gid intents post_hoc t d h d' f)"
proof -
  let ?m = "matched_limits pc (live_budgets mine t) intents"
  consider "d' = d \<and> (\<forall>h. r = Allowed h \<longrightarrow> \<not> h_counted h)"
    | "live_budgets mine t \<noteq> []" "reserve_locked ce sid ?m gid post_hoc t (kept_until mine t) d = (r, d')"
    using assms by (auto simp: reserve_def Let_def allow_all_def kept_until_def split: if_splits option.splits)
  then show ?thesis
  proof cases
    case 2
    show ?thesis using reserve_locked_cases [OF 2(2)] 2(1) by (auto simp: counts_call_def)
  qed simp
qed

lemma release_cases:
  assumes "release ce h now d = d'"
  shows "d' = d \<or> (\<exists>f s. read_counts d = Inr f \<and> map_of f (h_session h) = Some s \<and> h_counted h \<and> \<not> h_post_hoc h \<and>
    d' = write_counts now (omap_set (h_session h) ((fold count_down (h_matched h) s)\<lparr> sc_groups := filter (\<lambda>g. g \<noteq> VStr (h_group h)) (sc_groups s) \<rparr>) f))"
  using assms by (auto simp: release_def split: sum.splits option.splits if_splits)

lemma finite_value_iff: "finite_value v \<longleftrightarrow> (\<exists>n. v = VNum n \<and> is_finite_num n)"
  by (cases v) (auto simp: finite_value_def)

lemma int_in_value: "int_in v lo hi \<Longrightarrow> lo \<le> num_int (num_value v) \<and> num_int (num_value v) \<le> hi"
  by (cases v) (auto simp: int_in_def num_value_def num_int_def is_integer_num_def jint_def le_floor_iff floor_le_iff split: jnum.splits)

lemma num_value_num [simp]: "num_value (VNum n) = n"
  by (simp add: num_value_def)

lemma counts_of_ok:
  assumes "session_counts_ok v"
  shows "counts_ok (session_counts_of v)"
proof -
  have "list_all (\<lambda>(_, n). 0 \<le> n \<and> n \<le> 1000001) (sc_counts (session_counts_of v))"
    using assms by (auto simp: session_counts_ok_def session_counts_of_def list_all_iff dest: int_in_value)
  then show ?thesis using assms
    by (auto simp: session_counts_ok_def counts_ok_def session_counts_of_def finite_value_iff split: option.splits)
qed

lemma read_counts_ok: "read_counts d = Inr f \<Longrightarrow> (i, s) \<in> set f \<Longrightarrow> counts_ok s"
  by (auto simp: read_counts_def list_all_iff split: count_disk.splits option.splits if_splits dest!: counts_of_ok)

lemma count_of_nonneg: "counts_ok s \<Longrightarrow> 0 \<le> count_of s k"
  by (auto simp: counts_ok_def count_of_def list_all_iff split: option.splits dest: map_of_SomeD)

lemma session_of_ok: "read_counts d = Inr f \<Longrightarrow> counts_ok (session_of sid t f)"
  using read_counts_ok [of d f sid]
  by (auto simp: session_of_def split: option.splits dest: map_of_SomeD) (simp add: counts_ok_def no_counts_def jint_def is_finite_num_def)

subsection \<open>Runs\<close>

definition outstanding :: "held reservation \<Rightarrow> held list \<Rightarrow> held list" where
  "outstanding r hs = (case r of Allowed h \<Rightarrow> if h_counted h then h # hs else hs | Refused _ _ _ \<Rightarrow> hs)"

text \<open>
  The operations of one session's calls (\<open>hs\<close>: the counted calls that stand), and of the other sessions, in any order. Time does not go back.
\<close>

inductive budget_run :: "computer \<Rightarrow> jsstr \<Rightarrow> session_budget list \<Rightarrow> int \<Rightarrow> count_disk \<Rightarrow> held list \<Rightarrow> bool" for pc sid mine where
  start: "(\<And>f. read_counts d = Inr f \<Longrightarrow> distinct (map fst f)) \<Longrightarrow> budget_run pc sid mine t d []"
| call: "budget_run pc sid mine t d hs \<Longrightarrow> t \<le> u \<Longrightarrow> roomy u d \<Longrightarrow> reserve pc ce sid mine gid intents post_hoc u d = (r, d') \<Longrightarrow>
    budget_run pc sid mine u d' (outstanding r hs)"
| give_back: "budget_run pc sid mine t d hs \<Longrightarrow> t \<le> u \<Longrightarrow> roomy u d \<Longrightarrow> h \<in> set hs \<Longrightarrow>
    budget_run pc sid mine u (release ce h u d) (remove1 h hs)"
| other_call: "budget_run pc sid mine t d hs \<Longrightarrow> t \<le> u \<Longrightarrow> roomy u d \<Longrightarrow> other \<noteq> sid \<Longrightarrow>
    reserve pc ce other theirs gid intents post_hoc u d = (r, d') \<Longrightarrow> budget_run pc sid mine u d' hs"
| other_back: "budget_run pc sid mine t d hs \<Longrightarrow> t \<le> u \<Longrightarrow> roomy u d \<Longrightarrow> h_session h \<noteq> sid \<Longrightarrow> budget_run pc sid mine u (release ce h u d) hs"

definition load :: "jsstr \<Rightarrow> held list \<Rightarrow> int" where
  "load k hs = sum_list (map (\<lambda>h. key_adds (h_matched h) k) hs)"

lemma load_simps [simp]: "load k [] = 0" "load k (h # hs) = key_adds (h_matched h) k + load k hs"
  by (simp_all add: load_def)

lemma key_adds_nonneg [simp]: "0 \<le> key_adds hits k"
  by (simp add: key_adds_def)

lemma load_nonneg [simp]: "0 \<le> load k hs"
  by (induction hs) simp_all

lemma load_remove: "h \<in> set hs \<Longrightarrow> load k hs = key_adds (h_matched h) k + load k (remove1 h hs)"
  by (induction hs) auto

text \<open>The count file holds at least the calls that stand, until a day past the budget's end.\<close>

definition holds_load :: "jsstr \<Rightarrow> jsstr \<Rightarrow> int \<Rightarrow> int \<Rightarrow> count_file \<Rightarrow> held list \<Rightarrow> bool" where
  "holds_load sid k u t f hs \<longleftrightarrow>
     distinct (map fst f) \<and>
     (t < u \<and> 0 < load k hs \<longrightarrow>
       (\<exists>s q. map_of f sid = Some s \<and> load k hs \<le> count_of s k \<and> sc_keep s = Some q \<and> jle (jint u) q))"

lemma holds_load_later: "holds_load sid k u t f hs \<Longrightarrow> t \<le> t' \<Longrightarrow> holds_load sid k u t' f hs"
  by (auto simp: holds_load_def)

lemma holds_load_write:
  assumes h: "holds_load sid k u t f hs" and r: "read_counts d = Inr f" "roomy t d" and w: "read_counts (write_counts t (omap_set i s f)) = Inr f'"
    and own: "i = sid \<Longrightarrow> t < u \<Longrightarrow> 0 < load k hs' \<Longrightarrow> load k hs' \<le> count_of s k \<and> (\<exists>q. sc_keep s = Some q \<and> jle (jint u) q)"
    and oth: "i \<noteq> sid \<Longrightarrow> hs' = hs"
  shows "holds_load sid k u t f' hs'"
proof -
  have df: "distinct (map fst f)" using h by (simp add: holds_load_def)
  note wk = write_keeps [OF r(1) df r(2) w]
  have "\<exists>s q. map_of f' sid = Some s \<and> load k hs' \<le> count_of s k \<and> sc_keep s = Some q \<and> jle (jint u) q" if t: "t < u" "0 < load k hs'"
  proof (cases "i = sid")
    case True
    with own t obtain q where q: "load k hs' \<le> count_of s k" "sc_keep s = Some q" "jle (jint u) q" by blast
    then have "map_of f' sid = Some s" using wk(2) [of sid s] True wanted_keep [OF q(2,3) t(1)] by (simp add: map_of_omap_set)
    then show ?thesis using q by blast
  next
    case False
    with h t oth obtain s' q where q: "map_of f sid = Some s'" "load k hs' \<le> count_of s' k" "sc_keep s' = Some q" "jle (jint u) q"
      by (auto simp: holds_load_def)
    then have "map_of f' sid = Some s'" using wk(2) [of sid s'] False wanted_keep [OF q(3,4) t(1)] by (simp add: map_of_omap_set)
    then show ?thesis using q by blast
  qed
  then show ?thesis using wk(1) by (simp add: holds_load_def)
qed

lemma jmax_above: "is_finite_num p \<Longrightarrow> u \<le> w \<Longrightarrow> jle (jint u) (jmax p (jint w))"
  by (cases p) (auto simp: is_finite_num_def jmax_def jint_def)

lemma counted_keep:
  assumes "counts_ok s" "u \<le> w"
  shows "\<exists>q. sc_keep (counted_session hits gid t w s) = Some q \<and> jle (jint u) q"
proof -
  have "jle (jint u) (jmax (case sc_keep s of None \<Rightarrow> Fin 0 | Some k \<Rightarrow> k) (jint w))"
    using assms by (intro jmax_above) (auto simp: counts_ok_def is_finite_num_def split: option.splits)
  then show ?thesis by (simp add: counted_session_def)
qed

lemma kept_until_covers:
  assumes "b \<in> set mine" "live_budgets mine t \<noteq> []"
  shows "b_expires b + day_ms \<le> kept_until mine t"
proof -
  have "b_expires b \<le> Max (set (map b_expires (live_budgets mine t)))"
  proof (cases "t < b_expires b")
    case True
    then show ?thesis using assms(1) by (intro Max_ge) (auto simp: live_budgets_def)
  next
    case False
    obtain x where x: "x \<in> set (live_budgets mine t)" using assms(2) by (cases "live_budgets mine t") auto
    then have "b_expires x \<le> Max (set (map b_expires (live_budgets mine t)))" by (intro Max_ge) auto
    moreover have "t < b_expires x" using x by (simp add: live_budgets_def)
    ultimately show ?thesis using False by simp
  qed
  then show ?thesis by (simp add: kept_until_def)
qed

lemma counted_call_load:
  assumes c: "counts_call pc sid mine gid intents post_hoc t d h d' f" and b: "b \<in> set mine" and room: "roomy t d"
    and i: "holds_load sid k (b_expires b + day_ms) t f hs" and f': "read_counts d' = Inr f'"
  shows "holds_load sid k (b_expires b + day_ms) t f' (h # hs)"
proof -
  let ?s = "session_of sid t f"
  have rd: "read_counts d = Inr f" and ne: "live_budgets mine t \<noteq> []"
    and w: "read_counts (write_counts t (omap_set sid (counted_session (h_matched h) gid t (kept_until mine t) ?s) f)) = Inr f'"
    using c f' by (auto simp: counts_call_def)
  have ok: "counts_ok ?s" by (rule session_of_ok [OF rd])
  show ?thesis
  proof (rule holds_load_write [OF i rd room w])
    assume t: "t < b_expires b + day_ms"
    have "load k hs \<le> count_of ?s k"
    proof (cases "0 < load k hs")
      case True
      then show ?thesis using i t by (auto simp: holds_load_def session_of_def)
    next
      case False
      then show ?thesis using load_nonneg [of k hs] count_of_nonneg [OF ok, of k] by linarith
    qed
    moreover have "\<exists>q. sc_keep (counted_session (h_matched h) gid t (kept_until mine t) ?s) = Some q \<and> jle (jint (b_expires b + day_ms)) q"
      by (rule counted_keep [OF ok kept_until_covers [OF b ne]])
    ultimately show "load k (h # hs) \<le> count_of (counted_session (h_matched h) gid t (kept_until mine t) ?s) k \<and>
        (\<exists>q. sc_keep (counted_session (h_matched h) gid t (kept_until mine t) ?s) = Some q \<and> jle (jint (b_expires b + day_ms)) q)"
      using count_of_ups [of "h_matched h" ?s k] by (simp add: counted_session_def count_of_def)
  qed simp
qed

lemma given_back_load:
  assumes rd: "read_counts d = Inr f" and s: "map_of f sid = Some s" and h: "h \<in> set hs" and room: "roomy t d" and i: "holds_load sid k u t f hs"
    and w: "read_counts (write_counts t (omap_set sid ((fold count_down (h_matched h) s)\<lparr> sc_groups := gs \<rparr>) f)) = Inr f'"
  shows "holds_load sid k u t f' (remove1 h hs)"
proof (rule holds_load_write [OF i rd room w])
  assume t: "t < u" and l: "0 < load k (remove1 h hs)"
  note lr = load_remove [OF h, of k]
  then have "0 < load k hs" using l key_adds_nonneg [of "h_matched h" k] by linarith
  then obtain q where q: "load k hs \<le> count_of s k" "sc_keep s = Some q" "jle (jint u) q" using i t s by (auto simp: holds_load_def)
  have "load k (remove1 h hs) \<le> count_of (fold count_down (h_matched h) s) k"
    using lr q(1) count_of_downs [of s k "h_matched h"] by linarith
  then show "load k (remove1 h hs) \<le> count_of ((fold count_down (h_matched h) s)\<lparr> sc_groups := gs \<rparr>) k \<and>
      (\<exists>q. sc_keep ((fold count_down (h_matched h) s)\<lparr> sc_groups := gs \<rparr>) = Some q \<and> jle (jint u) q)"
    using q by (simp add: count_of_def)
qed simp

lemma standing_cases:
  assumes "reserve pc ce sid mine gid intents post_hoc t d = (r, d')"
  obtains "d' = d" "outstanding r hs = hs"
  | f h where "outstanding r hs = h # hs" "counts_call pc sid mine gid intents post_hoc t d h d' f"
  using reserve_outcome [OF assms] by (auto simp: outstanding_def counts_call_def split: reservation.splits)

lemma run_handles: "budget_run pc sid mine t d hs \<Longrightarrow> h \<in> set hs \<Longrightarrow> h_session h = sid \<and> (\<forall>m \<in> set (h_matched h). m_key m = count_key (m_budget m) (m_limit m))"
proof (induction arbitrary: h rule: budget_run.induct)
  case (call t d hs u ce gid intents post_hoc r d')
  show ?case
  proof (rule standing_cases [OF call.hyps(4), of hs])
    assume "outstanding r hs = hs"
    then show ?thesis using call by simp
  next
    fix f h' assume "outstanding r hs = h' # hs" "counts_call pc sid mine gid intents post_hoc u d h' d' f"
    then show ?thesis using call.prems call.IH
      by (auto simp: counts_call_def matched_limits_def match_limit_def split: option.splits)
  qed
next
  case (give_back t d hs u h' ce)
  then show ?case using notin_set_remove1 by metis
qed simp_all

lemma run_load:
  "budget_run pc sid mine t d hs \<Longrightarrow> b \<in> set mine \<Longrightarrow> read_counts d = Inr f \<Longrightarrow> holds_load sid k (b_expires b + day_ms) t f hs"
proof (induction arbitrary: f rule: budget_run.induct)
  case (start d t)
  then show ?case by (simp add: holds_load_def)
next
  case (call t d hs u ce gid intents post_hoc r d')
  have i: "holds_load sid k (b_expires b + day_ms) u g hs" if "read_counts d = Inr g" for g
    by (rule holds_load_later [OF call.IH [OF call.prems(1) that] call.hyps(2)])
  show ?case
  proof (rule standing_cases [OF call.hyps(4), of hs])
    assume "d' = d" "outstanding r hs = hs"
    then show ?thesis using i call.prems by simp
  next
    fix g h assume st: "outstanding r hs = h # hs" and c: "counts_call pc sid mine gid intents post_hoc u d h d' g"
    have "read_counts d = Inr g" using c by (simp add: counts_call_def)
    from counted_call_load [OF c call.prems(1) call.hyps(3) i [OF this] call.prems(2)] show ?thesis by (simp add: st)
  qed
next
  case (give_back t d hs u h ce)
  have i: "holds_load sid k (b_expires b + day_ms) u g hs" if "read_counts d = Inr g" for g
    by (rule holds_load_later [OF give_back.IH [OF give_back.prems(1) that] give_back.hyps(2)])
  have sid: "h_session h = sid" using run_handles [OF give_back.hyps(1,4)] by simp
  show ?case
  proof (cases "release ce h u d = d")
    case True
    have l: "load k (remove1 h hs) \<le> load k hs" using load_remove [OF give_back.hyps(4), of k] key_adds_nonneg [of "h_matched h" k] by linarith
    then show ?thesis using i [of f] give_back.prems(2) True by (fastforce simp: holds_load_def)
  next
    case False
    then obtain g s gs where g: "read_counts d = Inr g" "map_of g sid = Some s"
      "release ce h u d = write_counts u (omap_set sid ((fold count_down (h_matched h) s)\<lparr> sc_groups := gs \<rparr>) g)"
      using release_cases [OF refl, of ce h u d] sid by auto
    show ?thesis
      by (rule given_back_load [OF g(1,2) give_back.hyps(4,3) i [OF g(1)] give_back.prems(2) [unfolded g(3)]])
  qed
next
  case (other_call t d hs u other ce theirs gid intents post_hoc r d')
  have i: "holds_load sid k (b_expires b + day_ms) u g hs" if "read_counts d = Inr g" for g
    by (rule holds_load_later [OF other_call.IH [OF other_call.prems(1) that] other_call.hyps(2)])
  show ?case
  proof (rule standing_cases [OF other_call.hyps(5), of "[]"])
    assume "d' = d"
    then show ?thesis using i other_call.prems by simp
  next
    fix g h assume c: "counts_call pc other theirs gid intents post_hoc u d h d' g"
    then have g: "read_counts d = Inr g" and d': "d' = write_counts u (omap_set other (counted_session (h_matched h) gid u (kept_until theirs u) (session_of other u g)) g)"
      by (auto simp: counts_call_def)
    show ?thesis
      by (rule holds_load_write [OF i [OF g] g other_call.hyps(3) other_call.prems(2) [unfolded d']]) (use other_call.hyps(4) in auto)
  qed
next
  case (other_back t d hs u h ce)
  have i: "holds_load sid k (b_expires b + day_ms) u g hs" if "read_counts d = Inr g" for g
    by (rule holds_load_later [OF other_back.IH [OF other_back.prems(1) that] other_back.hyps(2)])
  show ?case
  proof (cases "release ce h u d = d")
    case True
    then show ?thesis using i other_back.prems by simp
  next
    case False
    then obtain g s' where g: "read_counts d = Inr g" "release ce h u d = write_counts u (omap_set (h_session h) s' g)"
      using release_cases [OF refl, of ce h u d] by auto
    show ?thesis
      by (rule holds_load_write [OF i [OF g(1)] g(1) other_back.hyps(3) other_back.prems(2) [unfolded g(2)]]) (use other_back.hyps(4) in auto)
  qed
qed

subsection \<open>The limit\<close>

definition uses_limit :: "session_budget \<Rightarrow> budget_limit \<Rightarrow> held \<Rightarrow> bool" where
  "uses_limit b l h \<longleftrightarrow> \<not> h_post_hoc h \<and> list_ex (\<lambda>m. m_budget m = b \<and> m_limit m = l) (h_matched h)"

lemma uses_load:
  assumes "\<And>h. h \<in> set hs \<Longrightarrow> \<forall>m \<in> set (h_matched h). m_key m = count_key (m_budget m) (m_limit m)"
  shows "int (length (filter (uses_limit b l) hs)) \<le> load (count_key b l) hs"
  using assms
proof (induction hs)
  case (Cons h hs)
  have "int (length (filter (uses_limit b l) hs)) \<le> load (count_key b l) hs" by (rule Cons.IH) (use Cons.prems in auto)
  moreover have "1 \<le> key_adds (h_matched h) (count_key b l)" if "uses_limit b l h"
    using that Cons.prems [of h] by (auto simp: uses_limit_def list_ex_iff intro: key_adds_mem)
  moreover have "0 \<le> key_adds (h_matched h) (count_key b l)" by simp
  ultimately show ?case by (cases "uses_limit b l h") (simp_all del: key_adds_nonneg)
qed simp

lemma over_limit_count:
  "\<not> over_limit s False False m \<Longrightarrow> b_enforce (m_budget m) \<Longrightarrow> count_of s (m_key m) + 1 \<le> l_max (m_limit m)"
  by (auto simp: over_limit_def observe_def receipt_for_def count_state_def Let_def split: if_splits)

lemma call_within_limit:
  assumes run: "budget_run pc sid mine t d hs" and t: "t \<le> u" and b: "b \<in> set mine" "b_enforce b"
    and c: "counts_call pc sid mine gid intents post_hoc u d h d' f" and use: "uses_limit b l h"
  shows "int (length (filter (uses_limit b l) hs)) + 1 \<le> l_max l"
proof -
  obtain m where m: "m \<in> set (h_matched h)" "m_budget m = b" "m_limit m = l" using use by (auto simp: uses_limit_def list_ex_iff)
  have post: "\<not> post_hoc" using use c by (simp add: uses_limit_def counts_call_def)
  have hm: "h_matched h = matched_limits pc (live_budgets mine u) intents" and rd: "read_counts d = Inr f" using c by (auto simp: counts_call_def)
  have key: "m_key m = count_key b l" and lv: "u < b_expires b"
    using m unfolding hm by (auto simp: matched_limits_def match_limit_def live_budgets_def split: option.splits)
  have "\<not> over_limit (session_of sid u f) False False m" using c m(1) post by (auto simp: counts_call_def list_all_iff)
  from over_limit_count [OF this] have max: "count_of (session_of sid u f) (count_key b l) + 1 \<le> l_max l" using m b key by simp
  have "holds_load sid (count_key b l) (b_expires b + day_ms) u f hs" by (rule holds_load_later [OF run_load [OF run b(1) rd] t])
  then have "load (count_key b l) hs \<le> count_of (session_of sid u f) (count_key b l)" if "0 < load (count_key b l) hs"
    using lv that by (auto simp: holds_load_def session_of_def day_ms_def)
  then have "load (count_key b l) hs \<le> count_of (session_of sid u f) (count_key b l)"
    using count_of_nonneg [OF session_of_ok [OF rd], of sid u "count_key b l"] load_nonneg [of "count_key b l" hs] by linarith
  moreover have "int (length (filter (uses_limit b l) hs)) \<le> load (count_key b l) hs" using run_handles [OF run] by (intro uses_load) blast
  ultimately show ?thesis using max by linarith
qed

lemma filter_remove1_le: "length (filter P (remove1 x xs)) \<le> length (filter P xs)"
  by (induction xs) auto

text \<open>C10: in any run of one session's calls and every other session's, in any order and with any of the code's failures, no more counted calls
stand for a limit of an enforced budget than the limit says, while the machine keeps fewer than 200 sessions' counts.\<close>

theorem session_budget_bounded:
  assumes "budget_run pc sid mine t d hs" "b \<in> set mine" "b_enforce b"
  shows "length (filter (uses_limit b l) hs) \<le> nat (l_max l)"
  using assms
proof (induction rule: budget_run.induct)
  case (call t d hs u ce gid intents post_hoc r d')
  show ?case
  proof (rule standing_cases [OF call.hyps(4), of hs])
    assume "outstanding r hs = hs"
    then show ?thesis using call by simp
  next
    fix f h assume st: "outstanding r hs = h # hs" and c: "counts_call pc sid mine gid intents post_hoc u d h d' f"
    show ?thesis
    proof (cases "uses_limit b l h")
      case True
      from call_within_limit [OF call.hyps(1,2) call.prems c True] show ?thesis using True st by simp
    qed (use call st in simp)
  qed
next
  case (give_back t d hs u h ce)
  then show ?case using filter_remove1_le [of "uses_limit b l" h hs] by fastforce
qed simp_all

subsection \<open>Fail closed\<close>

lemma unavailable_refuses:
  assumes "m \<in> set hits" "b_enforce (m_budget m)" shows "unavailable hits False why \<noteq> Allowed h"
proof -
  obtain m' where m': "find (\<lambda>m. b_enforce (m_budget m)) hits = Some m'" using assms by (cases "find (\<lambda>m. b_enforce (m_budget m)) hits") (auto simp: find_None_iff)
  then have "b_enforce (m_budget m')" by (auto simp: find_Some_iff)
  then show ?thesis by (simp add: unavailable_def m' Let_def)
qed

lemma index_of_None: "index_of P xs = None \<longleftrightarrow> list_all (\<lambda>x. \<not> P x) xs"
  by (induction xs) auto

lemma index_of_Some: "list_ex P xs \<Longrightarrow> \<exists>n. index_of P xs = Some n"
  by (induction xs) auto

lemma matched_limit:
  assumes "b \<in> set bs" "l \<in> set (b_limits b)" "list_ex (limit_hit pc b l) intents"
  obtains m where "m \<in> set (matched_limits pc bs intents)" "m_budget m = b" "m_limit m = l" "m_key m = count_key b l"
proof -
  obtain n where n: "index_of (limit_hit pc b l) intents = Some n" using index_of_Some [OF assms(3)] by blast
  obtain m where m: "m \<in> set (match_limit pc intents b l)" "m_budget m = b" "m_limit m = l" "m_key m = count_key b l"
    by (simp add: match_limit_def n)
  from m(1) assms(1,2) have "m \<in> set (matched_limits pc bs intents)" by (auto simp: matched_limits_def)
  with m show thesis using that by blast
qed

lemma allowed_locked:
  assumes r: "reserve_locked ce sid hits gid False t u d = (Allowed h, d')" and m: "m \<in> set hits" "b_enforce (m_budget m)"
  shows "c_lock ce = None \<and> (\<exists>f. read_counts d = Inr f \<and>
    (VStr gid \<in> set (sc_groups (session_of sid t f)) \<or>
     c_write ce = None \<and> h_counted h \<and> count_of (session_of sid t f) (m_key m) < l_max (m_limit m)))"
proof -
  note no = unavailable_refuses [OF m]
  have lock: "c_lock ce = None" using r no by (auto simp: reserve_locked_def split: option.splits)
  obtain f where f: "read_counts d = Inr f" using r no lock by (auto simp: reserve_locked_def split: sum.splits)
  have "c_write ce = None \<and> h_counted h \<and> count_of (session_of sid t f) (m_key m) < l_max (m_limit m)"
    if g: "VStr gid \<notin> set (sc_groups (session_of sid t f))"
  proof -
    have fn: "find (over_limit (session_of sid t f) False False) hits = None" and w: "c_write ce = None" and c: "h_counted h"
      using r no g unfolding reserve_locked_def lock f by (auto simp: Let_def session_of_def [symmetric] split: option.splits)
    from fn m(1) have "\<not> over_limit (session_of sid t f) False False m" by (simp add: find_None_iff)
    from over_limit_count [OF this m(2)] show ?thesis using w c by simp
  qed
  then show ?thesis using lock f by blast
qed

text \<open>C38: a session budget fails closed. A call that an enforced limit in force speaks of runs only when the session is known, it starts no other
agent, the lock was held and the file was read; and then it was counted while the count was below the limit, or is the retry of a
call that was.\<close>

theorem limited_call_counted:
  assumes g: "session_budget_guard bs who = Some g" and r: "guard_reserve pc ce g gid intents False t d = (Allowed h, d')"
    and b: "b \<in> set bs" "b_enforce b" "t < b_expires b" "who = Session (b_session b) \<or> who = Session_unknown"
    and l: "l \<in> set (b_limits b)" "list_ex (limit_hit pc b l) intents"
  shows "who = Session (b_session b) \<and> list_all (\<lambda>i. \<not> is_agent_launch pc i) intents \<and> c_lock ce = None \<and>
    (\<exists>f. read_counts d = Inr f \<and>
      (VStr gid \<in> set (sc_groups (session_of (b_session b) t f)) \<or>
       c_write ce = None \<and> h_counted h \<and> count_of (session_of (b_session b) t f) (count_key b l) < l_max l))"
proof -
  have who: "who = Session (b_session b)"
  proof (rule ccontr)
    assume "who \<noteq> Session (b_session b)"
    then have g': "g = Unknown_guard bs" using b(4) g by (auto simp: session_budget_guard_def split: if_splits)
    have "b \<in> set (filter b_enforce (live_budgets bs t))" using b by (simp add: live_budgets_def)
    from matched_limit [OF this l] obtain m where "m \<in> set (matched_limits pc (filter b_enforce (live_budgets bs t)) intents)" by blast
    then show False using r by (auto simp: g' guard_reserve_def unknown_reserve_def split: list.splits)
  qed
  define mine where "mine = filter (\<lambda>x. b_session x = b_session b) bs"
  have g': "g = Session_guard (b_session b) mine" using g by (auto simp: who session_budget_guard_def mine_def Let_def split: if_splits)
  have bl: "b \<in> set (live_budgets mine t)" using b by (simp add: live_budgets_def mine_def)
  obtain e where e: "find b_enforce (live_budgets mine t) = Some e" using bl b(2) by (cases "find b_enforce (live_budgets mine t)") (auto simp: find_None_iff)
  obtain m where m: "m \<in> set (matched_limits pc (live_budgets mine t) intents)" "m_budget m = b" "m_limit m = l" "m_key m = count_key b l"
    by (rule matched_limit [OF bl l])
  have ne: "live_budgets mine t \<noteq> []" "matched_limits pc (live_budgets mine t) intents \<noteq> []" using bl m(1) by auto
  have no: "index_of (is_agent_launch pc) intents = None"
    using r ne(1) by (cases "index_of (is_agent_launch pc) intents") (simp_all add: g' guard_reserve_def reserve_def Let_def e)
  then have launch: "list_all (\<lambda>i. \<not> is_agent_launch pc i) intents" by (simp add: index_of_None)
  have "reserve_locked ce (b_session b) (matched_limits pc (live_budgets mine t) intents) gid False t (kept_until mine t) d = (Allowed h, d')"
    using r ne no by (simp add: g' guard_reserve_def reserve_def Let_def kept_until_def)
  from allowed_locked [OF this m(1)] m b(2) who launch show ?thesis by simp
qed

subsection \<open>A refusal gives back what it took\<close>

lemma list_all_omap_set: "list_all P m \<Longrightarrow> P (k, v) \<Longrightarrow> list_all P (omap_set k v m)"
  by (induction m) auto

lemma counts_ok_down: "counts_ok s \<Longrightarrow> counts_ok (fold count_down hits s)"
proof (induction hits arbitrary: s)
  case (Cons m hits)
  have "count_of s (m_key m) \<le> 1000001"
    using Cons.prems by (auto simp: counts_ok_def count_of_def list_all_iff split: option.splits dest: map_of_SomeD)
  then have "counts_ok (count_down m s)"
    using Cons.prems by (auto simp: counts_ok_def count_down_def intro!: list_all_omap_set)
  from Cons.IH [OF this] show ?case by simp
qed simp

lemma kept_subset: "set (kept_counts t f) \<subseteq> set f"
  by (auto simp: kept_counts_def js_sort_set dest: in_set_takeD)

lemma give_back_restores:
  assumes c: "counts_call pc sid mine gid intents False t d h d1 f" and room: "roomy t d" "distinct (map fst f)"
    and env: "c_lock cr = None" "c_write cr = None" and r1: "read_counts d1 = Inr f1" and room1: "roomy t d1"
  shows "\<exists>f2. read_counts (release cr h t d1) = Inr f2 \<and> (\<forall>k. count_of (session_of sid t f2) k = count_of (session_of sid t f) k)"
proof -
  let ?s = "session_of sid t f"
  let ?n = "counted_session (h_matched h) gid t (kept_until mine t) ?s"
  have rd: "read_counts d = Inr f" and h: "h_counted h" "h_session h = sid" "\<not> h_post_hoc h"
    and w: "read_counts (write_counts t (omap_set sid ?n f)) = Inr f1" and ne: "live_budgets mine t \<noteq> []"
    using c r1 by (auto simp: counts_call_def)
  note wk = write_keeps [OF rd room(2,1) w]
  obtain x where x: "x \<in> set mine" "t < b_expires x" using hd_in_set [OF ne] by (auto simp: live_budgets_def)
  have "t < kept_until mine t" using kept_until_covers [OF x(1) ne] x(2) by (simp add: day_ms_def)
  moreover obtain q where q: "sc_keep ?n = Some q" "jle (jint (kept_until mine t)) q"
    using counted_keep [OF session_of_ok [OF rd] order_refl] by blast
  ultimately have want: "wanted t (sid, s)" if "sc_keep s = sc_keep ?n" for s using that wanted_keep [of s q] by simp
  have m1: "map_of f1 sid = Some ?n" using wk(2) [of sid ?n] want [OF refl] by (simp add: map_of_omap_set)
  define n2 where "n2 = (fold count_down (h_matched h) ?n)\<lparr> sc_groups := filter (\<lambda>g. g \<noteq> VStr (h_group h)) (sc_groups ?n) \<rparr>"
  have d2: "release cr h t d1 = write_counts t (omap_set sid n2 f1)" using h env r1 m1 by (simp add: release_def n2_def)
  have ok2: "counts_ok n2"
    using counts_ok_down [OF read_counts_ok [OF r1 map_of_SomeD [OF m1]], of "h_matched h"] by (simp add: n2_def counts_ok_def)
  have "list_all (\<lambda>(_, s). counts_ok s) (omap_set sid n2 f1)" using read_counts_ok [OF r1] ok2 by (intro list_all_omap_set) (auto simp: list_all_iff)
  then have "list_all (\<lambda>(_, s). counts_ok s) (kept_counts t (omap_set sid n2 f1))" using kept_subset [of t "omap_set sid n2 f1"] by (auto simp: list_all_iff)
  then have r2: "read_counts (release cr h t d1) = Inr (kept_counts t (omap_set sid n2 f1))" by (simp add: d2 read_written_eq)
  from write_keeps(2) [OF r1 wk(1) room1 r2 [unfolded d2], of sid n2] want [of n2]
  have m2: "map_of (kept_counts t (omap_set sid n2 f1)) sid = Some n2" by (simp add: map_of_omap_set n2_def)
  have "count_of n2 k = count_of ?s k" for k
  proof -
    have n: "count_of ?n k = count_of ?s k + key_adds (h_matched h) k" using count_of_ups [of "h_matched h" ?s k] by (simp add: counted_session_def count_of_def)
    then have "key_adds (h_matched h) k \<le> count_of ?n k" using count_of_nonneg [OF session_of_ok [OF rd]] by simp
    from count_of_downs_exact [OF this] show ?thesis using n by (simp add: n2_def count_of_def)
  qed
  then show ?thesis using r2 m2 by (auto simp: session_of_def)
qed

lemma no_release [simp]: "\<not> h_counted h \<Longrightarrow> release ce h t d = d"
  by (simp add: release_def)

lemma guard_refused_keeps: "guard_reserve pc ce g gid intents post_hoc t d = (Refused n r why, d') \<Longrightarrow> d' = d"
proof (cases g)
  case (Session_guard sid mine)
  assume "guard_reserve pc ce g gid intents post_hoc t d = (Refused n r why, d')"
  then have "reserve pc ce sid mine gid intents post_hoc t d = (Refused n r why, d')" by (simp add: guard_reserve_def Session_guard)
  from reserve_outcome [OF this] show ?thesis by auto
qed (simp add: guard_reserve_def)

text \<open>C39: when the budgets of a session's old id refuse a call that those of its own id had counted, every count is as before the call.\<close>

theorem refused_call_gives_back:
  assumes r1: "guard_reserve pc ce (Session_guard sid mine) gid intents False t d = (Allowed h, d1)"
    and r2: "guard_reserve pc ce g gid intents False t d1 = (Refused n r why, d2)"
    and env: "c_lock cr = None" "c_write cr = None"
    and disk: "read_counts d = Inr f" "distinct (map fst f)" "roomy t d" "read_counts d1 = Inr f1" "roomy t d1"
  shows "\<exists>d3 f3. reserve_guards pc ce cr [Session_guard sid mine, g] [] gid intents False t d = (Refused n r why, d3) \<and>
    read_counts d3 = Inr f3 \<and> (\<forall>k. count_of (session_of sid t f3) k = count_of (session_of sid t f) k)"
proof -
  have d2: "d2 = d1" by (rule guard_refused_keeps [OF r2])
  have all: "reserve_guards pc ce cr [Session_guard sid mine, g] [] gid intents False t d = (Refused n r why, release cr h t d1)"
    by (simp add: r1 r2 d2)
  have "reserve pc ce sid mine gid intents False t d = (Allowed h, d1)" using r1 by (simp add: guard_reserve_def)
  from reserve_outcome [OF this]
  have "\<exists>f3. read_counts (release cr h t d1) = Inr f3 \<and> (\<forall>k. count_of (session_of sid t f3) k = count_of (session_of sid t f) k)"
  proof
    assume "d1 = d \<and> (\<forall>h'. Allowed h = Allowed h' \<longrightarrow> \<not> h_counted h')"
    then show ?thesis using disk by auto
  next
    assume "\<exists>f h'. Allowed h = Allowed h' \<and> counts_call pc sid mine gid intents False t d h' d1 f"
    then obtain f' where c: "counts_call pc sid mine gid intents False t d h d1 f'" by auto
    then have "f' = f" using disk(1) by (simp add: counts_call_def)
    from give_back_restores [OF c [unfolded this] disk(3,2) env disk(4,5)] show ?thesis .
  qed
  then show ?thesis using all by blast
qed

end
