(* ===== verification/AllowanceDemo.thy ===== *)
theory AllowanceDemo
  imports AllowanceMade VerdictProps SessionBudgetProps
begin

section \<open>Allowances at concrete inputs\<close>

definition unix :: computer where
  "unix = \<lparr> lower_text = ascii_lower, windows = False \<rparr>"


subsection \<open>A folder of a project\<close>

definition src_match :: jsval where
  "src_match = VObj [(js ''rule'', VStr (js ''read-files'')), (js ''action_type'', VStr (js ''file.read'')), (js ''recipe'', VStr (js ''folder'')),
     (js ''bounds'', VObj [(js ''kind'', VStr (js ''path_prefix'')), (js ''param'', VStr (js ''path'')), (js ''value'', VStr (js ''src'')),
        (js ''project'', VStr (js ''/w/p''))])]"

definition zero_key :: jsstr where
  "zero_key = replicate 64 48"







lemma src_fields [simp]: "fld src_match (js ''rule'') = VStr (js ''read-files'')" "fld src_match (js ''action_type'') = VStr (js ''file.read'')"
  "fld src_match (js ''recipe'') = VStr (js ''folder'')"
  "fld (fld src_match (js ''bounds'')) (js ''kind'') = VStr (js ''path_prefix'')" "fld (fld src_match (js ''bounds'')) (js ''param'') = VStr (js ''path'')"
  "fld (fld src_match (js ''bounds'')) (js ''value'') = VStr (js ''src'')" "fld (fld src_match (js ''bounds'')) (js ''project'') = VStr (js ''/w/p'')"
  "fld (fld src_match (js ''bounds'')) (js ''program'') = VUndef" "fld (fld src_match (js ''bounds'')) (js ''with'') = VUndef"
  "is_obj src_match" "is_obj (fld src_match (js ''bounds''))"
  by (simp_all add: src_match_def js_simps)











subsection \<open>A used allowance the workspace sends again\<close>

definition plain_allowance :: "string \<Rightarrow> int \<Rightarrow> jsval" where
  "plain_allowance i n = VObj [(js ''id'', VStr (js (''alw_0123456789abcde'' @ i))), (js ''rule'', VStr (js ''read-files'')), (js ''action_key'', VStr zero_key),
     (js ''scope'', VStr (js ''computer'')), (js ''os_user_digest'', VNull), (js ''state'', VStr (js ''active'')), (js ''once'', VBool False),
     (js ''reason_digest'', VNull), (js ''reason_length'', VNum (Fin 0)), (js ''created_by'', VStr (js ''person'')),
     (js ''created_at'', VStr (js ''now'')), (js ''expires_at'', VStr (js ''now'')), (js ''uses'', VNum (jint n))]"

definition exact_read :: exact_query where
  "exact_read = \<lparr> q_rule = js ''read-files'', q_user = None, q_now = 0, q_session = None, q_key = zero_key \<rparr>"

definition merged_demo :: "jsval list" where
  "merged_demo = merge_workspace_allowances demo_env unix [plain_allowance ''a'' 3, plain_allowance ''b'' 0] (VArr [plain_allowance ''a'' 0])
     (VArr [VStr (js ''alw_0123456789abcdeb'')])"

lemma plain_valid: "list_all (valid_allowance demo_env unix) [plain_allowance ''a'' 3, plain_allowance ''b'' 0]"
  by code_simp

lemma merged_found: "match_allowance demo_env merged_demo exact_read \<noteq> None"
  by code_simp

theorem merge_never_revives_witness:
  "\<exists>x. match_allowance demo_env merged_demo exact_read = Some x \<and>
    untouched [plain_allowance ''a'' 3, plain_allowance ''b'' 0] (revoked_ids (VArr [VStr (js ''alw_0123456789abcdeb'')])) x"
proof -
  obtain x where x: "match_allowance demo_env merged_demo exact_read = Some x" using merged_found by auto
  have d: "distinct (map (\<lambda>a. fld a (js ''id'')) [plain_allowance ''a'' 3, plain_allowance ''b'' 0])" by code_simp
  show ?thesis using x merge_never_revives [OF d plain_valid disjI1, OF x [unfolded merged_demo_def]] by blast
qed

subsection \<open>An allowance for an hour\<close>

definition hour_env :: env where
  "hour_env = demo_env\<lparr> date_parse := (\<lambda>s. if s = to_iso 0 then Some 0 else if s = to_iso 3600000 then Some 3600000 else None) \<rparr>"

definition hour_input :: allowance_input where
  "hour_input = \<lparr> a_rule = js ''read-files'', a_key = zero_key, a_reason = js ''tests'', a_user = None, a_lasts = Hour_1, a_days = None,
     a_needs_admin = False, a_now = 0, a_unblocked = None \<rparr>"

lemma hour_times: "times_of hour_env hour_input"
proof -
  have "to_iso 3600000 \<noteq> to_iso 0" by code_simp
  then show ?thesis by (simp add: times_of_def clock_ok_def hour_env_def hour_input_def expires_after_def)
qed

lemma hour_ok: "input_ok hour_env unix (js ''alw_0123456789abcdef'') hour_input None"
proof -
  have "digests_ok hour_env" by (simp add: digests_ok_def hour_env_def demo_env_def is_bytes_def)
  moreover have "allowance_id (js ''alw_0123456789abcdef'')" "rule_re (js ''read-files'')" "is_hex64 zero_key" by code_simp+
  ultimately show ?thesis using hour_times by (simp add: input_ok_def who_ok_def) (simp add: hour_input_def)
qed

theorem made_allowance_valid_witness:
  "\<exists>a. make_allowance hour_env (js ''alw_0123456789abcdef'') hour_input None False = Inr a \<and> valid_allowance hour_env unix a \<and> \<not> used_up a \<and>
    date_of hour_env (fld a (js ''expires_at'')) = jint 3600000"
proof -
  obtain a where a: "make_allowance hour_env (js ''alw_0123456789abcdef'') hour_input None False = Inr a"
    by (simp add: make_allowance_def make_exact_def iso_of_def hour_input_def expires_after_def)
  from made_allowance_valid [OF hour_ok a, of exact_read] a show ?thesis by (simp add: hour_input_def expires_after_def)
qed

section \<open>A session budget at a concrete input\<close>

text \<open>One write of a file for the session \<open>s1\<close>: the first is counted, the next refused.\<close>

definition write_limit :: budget_limit where
  "write_limit = \<lparr> l_ops = [js ''file.write''], l_max = 1 \<rparr>"

definition write_budget :: session_budget where
  "write_budget = \<lparr> b_id = js ''budget-1'', b_session = js ''s1'', b_limits = [write_limit], b_enforce = True, b_version = 1, b_expires = 100,
     b_request = False, b_shell_as_write = False \<rparr>"

definition write_intent :: budget_intent where
  "write_intent = \<lparr> i_type = js ''file.write'', i_params = VObj [] \<rparr>"

definition fine :: count_env where
  "fine = \<lparr> c_lock = None, c_write = None \<rparr>"

definition write_match :: matched where
  "write_match = \<lparr> m_budget = write_budget, m_limit = write_limit, m_index = 0, m_key = js ''budget-1|file.write'', m_operation = js ''file.write'' \<rparr>"

definition write_held :: "int \<Rightarrow> held" where
  "write_held n = \<lparr> h_observed = [(write_budget, [js ''file.write''], receipt_for write_budget (js ''file.write'') n 1 At_limit)],
     h_matched = [write_match], h_session = js ''s1'', h_group = js ''g1'', h_counted = True, h_post_hoc = False \<rparr>"

definition one_write :: session_counts where
  "one_write = \<lparr> sc_updated = jint 0, sc_counts = [(js ''budget-1|file.write'', 1)], sc_groups = [VStr (js ''g1'')],
     sc_keep = Some (jint (100 + day_ms)) \<rparr>"

lemma write_live: "t < 100 \<Longrightarrow> live_budgets [write_budget] t = [write_budget]"
  by (simp add: live_budgets_def write_budget_def)

lemma write_types: "types_of unix write_intent write_budget = [js ''file.write'']"
  by (simp add: types_of_def write_intent_def write_budget_def is_package_install_def)

lemma write_fields:
  "b_limits write_budget = [write_limit]" "b_enforce write_budget" "b_expires write_budget = 100" "b_session write_budget = js ''s1''"
  "l_ops write_limit = [js ''file.write'']" "l_max write_limit = 1"
  by (simp_all add: write_budget_def write_limit_def)

lemma write_key: "count_key write_budget write_limit = js ''budget-1|file.write''"
  by (simp add: count_key_def write_fields) (simp add: write_budget_def)

lemma write_hit: "limit_hit unix write_budget write_limit write_intent"
  by (simp add: limit_hit_def write_types write_fields)

lemma write_matched: "matched_limits unix [write_budget] [write_intent] = [write_match]"
  by (simp add: matched_limits_def match_limit_def write_types write_fields write_hit write_key write_match_def)

lemma write_match_fields:
  "m_budget write_match = write_budget" "m_limit write_match = write_limit" "m_index write_match = 0" "m_key write_match = js ''budget-1|file.write''"
  by (simp_all add: write_match_def)

lemma write_not_launch: "\<not> is_agent_launch unix write_intent"
  by (simp add: is_agent_launch_def write_intent_def)

lemma one_kept: "kept_counts 0 [(js ''s1'', one_write)] = [(js ''s1'', one_write)]"
  by (simp add: kept_counts_def wanted_def one_write_def keep_ms_def max_sessions_def jint_def jsub_def day_ms_def)

lemma one_read: "read_counts (write_counts 0 [(js ''s1'', one_write)]) = Inr [(js ''s1'', one_write)]"
  by (simp add: read_written_eq one_kept counts_ok_def) (simp add: one_write_def)

lemma first_counted:
  "reserve unix fine (js ''s1'') [write_budget] (js ''g1'') [write_intent] False 0 Count_missing =
     (Allowed (write_held 1), write_counts 0 [(js ''s1'', one_write)])"
proof -
  have up: "counted_session [write_match] (js ''g1'') 0 (100 + day_ms) (no_counts 0) = one_write"
    by (simp add: counted_session_def count_up_def no_counts_def one_write_def count_of_def newest_def write_match_fields max_groups_def jmax_def jint_def day_ms_def)
  have obs: "observe (no_counts 0) False write_match = receipt_for write_budget (js ''file.write'') 1 1 At_limit"
    by (simp add: observe_def count_of_def no_counts_def write_match_def count_state_def write_fields)
  have over: "\<not> over_limit (no_counts 0) False False write_match" by (simp add: over_limit_def obs receipt_for_def)
  have gs: "sc_groups (no_counts 0) = []" by (simp add: no_counts_def)
  show ?thesis
    by (simp add: reserve_def write_live write_matched write_not_launch write_fields reserve_locked_def fine_def read_counts_def Let_def over gs obs up
      write_held_def write_match_fields)
qed

lemma second_refused:
  "\<exists>n r why. reserve unix fine (js ''s1'') [write_budget] (js ''g2'') [write_intent] False 1 (write_counts 0 [(js ''s1'', one_write)]) =
     (Refused n r why, write_counts 0 [(js ''s1'', one_write)])"
proof -
  have "over_limit one_write False False write_match" "sc_groups one_write = [VStr (js ''g1'')]"
    by (simp_all add: over_limit_def observe_def write_match_def write_fields receipt_for_def count_state_def count_of_def one_write_def)
  then show ?thesis
    by (simp add: reserve_def write_live write_matched write_not_launch write_fields reserve_locked_def fine_def one_read Let_def)
qed

lemma demo_run: "budget_run unix (js ''s1'') [write_budget] 1 (write_counts 0 [(js ''s1'', one_write)]) [write_held 1]"
proof -
  have "budget_run unix (js ''s1'') [write_budget] 0 Count_missing []" by (rule budget_run.start) (simp add: read_counts_def)
  from budget_run.call [OF this order_refl _ first_counted]
  have one: "budget_run unix (js ''s1'') [write_budget] 0 (write_counts 0 [(js ''s1'', one_write)]) [write_held 1]"
    by (simp add: roomy_def read_counts_def max_sessions_def outstanding_def write_held_def)
  obtain n r why where r: "reserve unix fine (js ''s1'') [write_budget] (js ''g2'') [write_intent] False 1 (write_counts 0 [(js ''s1'', one_write)]) =
     (Refused n r why, write_counts 0 [(js ''s1'', one_write)])" using second_refused by blast
  have "roomy 1 (write_counts 0 [(js ''s1'', one_write)])" by (simp add: roomy_def one_read max_sessions_def)
  from budget_run.call [OF one _ this r] show ?thesis by (simp add: outstanding_def)
qed

theorem session_budget_bounded_witness:
  "\<exists>d hs. budget_run unix (js ''s1'') [write_budget] 1 d hs \<and> uses_limit write_budget write_limit (hd hs) \<and>
     length (filter (uses_limit write_budget write_limit) hs) \<le> nat (l_max write_limit)"
proof -
  have "uses_limit write_budget write_limit (write_held 1)" by (simp add: uses_limit_def write_held_def write_match_fields)
  with session_budget_bounded [OF demo_run, of write_budget write_limit] demo_run show ?thesis
    by (intro exI [of _ "write_counts 0 [(js ''s1'', one_write)]"] exI [of _ "[write_held 1]"]) (simp add: write_fields)
qed

lemma write_guard: "session_budget_guard [write_budget] (Session (js ''s1'')) = Some (Session_guard (js ''s1'') [write_budget])"
  by (simp add: session_budget_guard_def write_fields)

lemma write_allowed: "guard_reserve unix fine (Session_guard (js ''s1'') [write_budget]) (js ''g1'') [write_intent] False 0 Count_missing =
     (Allowed (write_held 1), write_counts 0 [(js ''s1'', one_write)])"
  by (simp add: guard_reserve_def first_counted)

theorem limited_call_counted_witness:
  "c_lock fine = None \<and> (\<exists>f. read_counts Count_missing = Inr f \<and>
     (VStr (js ''g1'') \<in> set (sc_groups (session_of (b_session write_budget) 0 f)) \<or>
      c_write fine = None \<and> h_counted (write_held 1) \<and> count_of (session_of (b_session write_budget) 0 f) (count_key write_budget write_limit) < l_max write_limit))"
  using limited_call_counted [OF write_guard write_allowed, of write_budget write_limit] write_hit by (simp add: write_fields)

text \<open>The same session under its old id has no writes left: the count of the first id is as before.\<close>

definition old_budget :: session_budget where
  "old_budget = write_budget\<lparr> b_session := js ''s0'', b_limits := [write_limit\<lparr> l_max := 0 \<rparr>] \<rparr>"

definition no_limit :: budget_limit where
  "no_limit = write_limit\<lparr> l_max := 0 \<rparr>"

definition old_match :: matched where
  "old_match = \<lparr> m_budget = old_budget, m_limit = no_limit, m_index = 0, m_key = js ''budget-1|file.write'', m_operation = js ''file.write'' \<rparr>"

lemma old_fields:
  "b_limits old_budget = [no_limit]" "b_enforce old_budget" "b_expires old_budget = 100" "l_ops no_limit = [js ''file.write'']" "l_max no_limit = 0"
  by (simp_all add: old_budget_def no_limit_def write_fields)

lemma old_types: "types_of unix write_intent old_budget = [js ''file.write'']"
  by (simp add: types_of_def old_budget_def write_budget_def write_intent_def is_package_install_def)

lemma old_matched: "matched_limits unix [old_budget] [write_intent] = [old_match]"
proof -
  have "count_key old_budget no_limit = js ''budget-1|file.write''" using write_key by (simp add: count_key_def old_budget_def no_limit_def)
  then show ?thesis by (simp add: matched_limits_def match_limit_def limit_hit_def old_types old_fields old_match_def)
qed

lemma old_refused:
  "\<exists>n r why. guard_reserve unix fine (Session_guard (js ''s0'') [old_budget]) (js ''g1'') [write_intent] False 0 (write_counts 0 [(js ''s1'', one_write)]) =
     (Refused n r why, write_counts 0 [(js ''s1'', one_write)])"
proof -
  have "over_limit (no_counts 0) False False old_match"
    by (simp add: over_limit_def observe_def old_match_def old_fields receipt_for_def count_state_def count_of_def no_counts_def)
  moreover have "sc_groups (no_counts 0) = []" by (simp add: no_counts_def)
  moreover have "live_budgets [old_budget] 0 = [old_budget]" by (simp add: live_budgets_def old_fields)
  ultimately show ?thesis
    by (simp add: guard_reserve_def reserve_def old_matched write_not_launch old_fields reserve_locked_def fine_def one_read Let_def)
qed

theorem refused_call_gives_back_witness:
  "\<exists>n r why d3 f3. reserve_guards unix fine fine [Session_guard (js ''s1'') [write_budget], Session_guard (js ''s0'') [old_budget]] []
       (js ''g1'') [write_intent] False 0 Count_missing = (Refused n r why, d3) \<and>
     read_counts d3 = Inr f3 \<and> count_of (session_of (js ''s1'') 0 f3) (js ''budget-1|file.write'') = 0"
proof -
  obtain n r why where no: "guard_reserve unix fine (Session_guard (js ''s0'') [old_budget]) (js ''g1'') [write_intent] False 0
      (write_counts 0 [(js ''s1'', one_write)]) = (Refused n r why, write_counts 0 [(js ''s1'', one_write)])" using old_refused by blast
  have z: "count_of (session_of (js ''s1'') 0 []) (js ''budget-1|file.write'') = 0" by (simp add: session_of_def no_counts_def count_of_def)
  have "\<exists>d3 f3. reserve_guards unix fine fine [Session_guard (js ''s1'') [write_budget], Session_guard (js ''s0'') [old_budget]] []
       (js ''g1'') [write_intent] False 0 Count_missing = (Refused n r why, d3) \<and> read_counts d3 = Inr f3 \<and>
      (\<forall>k. count_of (session_of (js ''s1'') 0 f3) k = count_of (session_of (js ''s1'') 0 []) k)"
    by (rule refused_call_gives_back [OF write_allowed no _ _ _ _ _ one_read])
      (simp_all add: fine_def read_counts_def roomy_def max_sessions_def one_read [unfolded read_counts_def])
  then obtain d3 f3 where "reserve_guards unix fine fine [Session_guard (js ''s1'') [write_budget], Session_guard (js ''s0'') [old_budget]] []
       (js ''g1'') [write_intent] False 0 Count_missing = (Refused n r why, d3)" "read_counts d3 = Inr f3"
      "count_of (session_of (js ''s1'') 0 f3) (js ''budget-1|file.write'') = count_of (session_of (js ''s1'') 0 []) (js ''budget-1|file.write'')" by blast
  then show ?thesis unfolding z by blast
qed

end
