(* ===== verification/ShellText.thy ===== *)
theory ShellText
  imports Patterns
begin

section \<open>Reading a command line\<close>

text \<open>
  \<^verbatim>\<open>packages/hook/src/shell.ts\<close>, the reader of command text: where a substitution or a block ends, the split at unquoted separators, the
  text of substitutions and groups, words and redirections. Each loop of the code over an index is a step on the rest of the text, which
  says how many characters it takes; the character before the index is kept beside it. \<open>ps\<close> reads the text as PowerShell.
\<close>

abbreviation c_nl :: nat where "c_nl \<equiv> 10"
abbreviation c_sp :: nat where "c_sp \<equiv> 32"
abbreviation c_bang :: nat where "c_bang \<equiv> 33"
abbreviation c_dq :: nat where "c_dq \<equiv> 34"
abbreviation c_hash :: nat where "c_hash \<equiv> 35"
abbreviation c_dollar :: nat where "c_dollar \<equiv> 36"
abbreviation c_amp :: nat where "c_amp \<equiv> 38"
abbreviation c_sq :: nat where "c_sq \<equiv> 39"
abbreviation c_open :: nat where "c_open \<equiv> 40"
abbreviation c_close :: nat where "c_close \<equiv> 41"
abbreviation c_minus :: nat where "c_minus \<equiv> 45"
abbreviation c_semi :: nat where "c_semi \<equiv> 59"
abbreviation c_lt :: nat where "c_lt \<equiv> 60"
abbreviation c_eq :: nat where "c_eq \<equiv> 61"
abbreviation c_gt :: nat where "c_gt \<equiv> 62"
abbreviation c_bslash :: nat where "c_bslash \<equiv> 92"
abbreviation c_tick :: nat where "c_tick \<equiv> 96"
abbreviation c_brace :: nat where "c_brace \<equiv> 123"
abbreviation c_bar :: nat where "c_bar \<equiv> 124"
abbreviation c_unbrace :: nat where "c_unbrace \<equiv> 125"

datatype quoting = Bare | Single | Double

definition quote_of :: "nat \<Rightarrow> quoting" where
  "quote_of c = (if c = c_sq then Single else if c = c_dq then Double else Bare)"

fun next_is :: "nat \<Rightarrow> jsstr \<Rightarrow> bool" where
  "next_is c [] = False"
| "next_is c (d # s) = (d = c)"

text \<open>The index of a character, and of one followed by another.\<close>

fun char_index :: "nat \<Rightarrow> jsstr \<Rightarrow> nat option" where
  "char_index c [] = None"
| "char_index c (d # s) = (if d = c then Some 0 else map_option Suc (char_index c s))"

fun pair_index :: "nat \<Rightarrow> nat \<Rightarrow> jsstr \<Rightarrow> nat option" where
  "pair_index a b [] = None"
| "pair_index a b (d # s) = (if d = a \<and> next_is b s then Some 0 else map_option Suc (pair_index a b s))"

subsection \<open>A loop over a text\<close>

text \<open>A turn gets the character before the index, the one at it and the rest, and takes at least one character.\<close>

function scan :: "('s \<Rightarrow> nat option \<Rightarrow> nat \<Rightarrow> jsstr \<Rightarrow> 's \<times> nat) \<Rightarrow> 's \<Rightarrow> nat option \<Rightarrow> jsstr \<Rightarrow> 's" where
  "scan turn st prev [] = st"
| "scan turn st prev (c # s) =
     (let (st', n) = turn st prev c s in scan turn st' (Some ((c # s) ! (min n (length (c # s)) - 1))) (drop (n - 1) s))"
  by pat_completeness auto
termination
  by (relation "measure (\<lambda>(_, _, _, s). length s)") auto

subsection \<open>Where a block and a substitution end\<close>

fun brace_end :: "nat \<Rightarrow> quoting \<Rightarrow> jsstr \<Rightarrow> nat option" where
  "brace_end depth q [] = None"
| "brace_end depth q [c] = (if c = c_tick then None else if q = Bare \<and> c = c_unbrace \<and> depth = 1 then Some 0 else None)"
| "brace_end depth q (c # d # s) =
     (if c = c_tick then map_option (\<lambda>n. n + 2) (brace_end depth q s)
      else if q \<noteq> Bare then map_option Suc (brace_end depth (if quote_of c = q then Bare else q) (d # s))
      else if quote_of c \<noteq> Bare then map_option Suc (brace_end depth (quote_of c) (d # s))
      else if c = c_brace then map_option Suc (brace_end (depth + 1) q (d # s))
      else if c = c_unbrace then (if depth = 1 then Some 0 else map_option Suc (brace_end (depth - 1) q (d # s)))
      else map_option Suc (brace_end depth q (d # s)))"

datatype nesting = Parens nat | In_quotes

function substitution_end :: "nesting list \<Rightarrow> jsstr \<Rightarrow> nat option" where
  "substitution_end [] s = None"
| "substitution_end (t # ts) [] = None"
| "substitution_end (t # ts) (c # s) =
     (if c = c_bslash then map_option (\<lambda>n. n + 2) (substitution_end (t # ts) (drop 1 s))
      else if c = c_tick then
        (case char_index c_tick s of None \<Rightarrow> None | Some k \<Rightarrow> map_option (\<lambda>n. n + k + 2) (substitution_end (t # ts) (drop (k + 1) s)))
      else
        (case t of
           In_quotes \<Rightarrow>
             if c = c_dq then map_option Suc (substitution_end ts s)
             else if c = c_dollar \<and> next_is c_open s then map_option (\<lambda>n. n + 2) (substitution_end (Parens 1 # t # ts) (drop 1 s))
             else map_option Suc (substitution_end (t # ts) s)
         | Parens p \<Rightarrow>
             if c = c_sq then
               (case char_index c_sq s of None \<Rightarrow> None | Some k \<Rightarrow> map_option (\<lambda>n. n + k + 2) (substitution_end (t # ts) (drop (k + 1) s)))
             else if c = c_dq then map_option Suc (substitution_end (In_quotes # t # ts) s)
             else if c = c_open then map_option Suc (substitution_end (Parens (p + 1) # ts) s)
             else if c = c_close then
               (if 1 < p then map_option Suc (substitution_end (Parens (p - 1) # ts) s)
                else if ts = [] then Some 0 else map_option Suc (substitution_end ts s))
             else map_option Suc (substitution_end (t # ts) s)))"
  by pat_completeness auto
termination
  by (relation "measure (\<lambda>(_, s). length s)") auto

subsection \<open>The split at separators\<close>

record split_state =
  ss_out :: "(jsstr \<times> jsstr) list"
  ss_cur :: jsstr
  ss_quote :: quoting
  ss_paren :: nat
  ss_tick :: bool
  ss_open :: bool

definition split_start :: split_state where
  "split_start = \<lparr> ss_out = [], ss_cur = [], ss_quote = Bare, ss_paren = 0, ss_tick = False, ss_open = False \<rparr>"

definition add_text :: "jsstr \<Rightarrow> split_state \<Rightarrow> split_state" where
  "add_text t st = st\<lparr> ss_cur := ss_cur st @ t \<rparr>"

definition flush :: "jsstr \<Rightarrow> split_state \<Rightarrow> split_state" where
  "flush sep st =
     (let t = js_trim (ss_cur st) in
      st\<lparr> ss_out := (if t = [] then ss_out st else ss_out st @ [(t, sep)]), ss_cur := [] \<rparr>)"

text \<open>\<open>/=\s*$/\<close> on the text so far.\<close>

definition ends_in_equals :: "jsstr \<Rightarrow> bool" where
  "ends_in_equals s \<longleftrightarrow> next_is c_eq (dropWhile is_space (rev s))"

definition before_comment :: "nat option \<Rightarrow> bool" where
  "before_comment prev = (case prev of None \<Rightarrow> True | Some p \<Rightarrow> is_space p \<or> p \<in> {c_semi, c_amp, c_bar, c_open, c_close})"

text \<open>One turn of the loop of \<open>splitTopLevel\<close> at the character \<open>c\<close>: the state after it, and how many characters it took.\<close>

definition split_step :: "bool \<Rightarrow> split_state \<Rightarrow> nat option \<Rightarrow> nat \<Rightarrow> jsstr \<Rightarrow> split_state \<times> nat" where
  "split_step ps st prev c s =
     (if ps \<and> c = c_tick then (add_text (c # take 1 s) st, 2)
      else if \<not> ps \<and> \<not> ss_tick st \<and> ss_quote st \<noteq> Single \<and> c = c_dollar \<and> next_is c_open s then
        (case substitution_end [Parens 1] (drop 1 s) of
           None \<Rightarrow> (add_text (c # s) (st\<lparr> ss_open := True \<rparr>), length (c # s))
         | Some e \<Rightarrow> (add_text (take (e + 3) (c # s)) st, e + 3))
      else if ss_quote st = Single then (add_text [c] (if c = c_sq then st\<lparr> ss_quote := Bare \<rparr> else st), 1)
      else if ss_quote st = Double then
        (if \<not> ps \<and> c = c_bslash \<and> s \<noteq> [] then (add_text (c # take 1 s) st, 2)
         else (add_text [c] (if c = c_dq then st\<lparr> ss_quote := Bare \<rparr> else st), 1))
      else if quote_of c \<noteq> Bare then (add_text [c] (st\<lparr> ss_quote := quote_of c \<rparr>), 1)
      else if ps \<and> c = c_brace then
        (case brace_end 0 Bare (c # s) of
           None \<Rightarrow> (add_text (c # s) (st\<lparr> ss_open := True \<rparr>), length (c # s))
         | Some e \<Rightarrow> (add_text (take (e + 1) (c # s)) st, e + 1))
      else if ps \<and> c = c_lt \<and> next_is c_hash s then
        (case pair_index c_hash c_gt (drop 1 s) of None \<Rightarrow> (st, length (c # s)) | Some e \<Rightarrow> (st, e + 4))
      else if \<not> ps \<and> c = c_tick then (add_text [c] (st\<lparr> ss_tick := \<not> ss_tick st \<rparr>), 1)
      else if ss_tick st then (add_text [c] st, 1)
      else if \<not> ps \<and> c = c_bslash \<and> s \<noteq> [] then (add_text (c # take 1 s) st, 2)
      else if c = c_dollar \<and> next_is c_open s then (add_text (c # take 1 s) (st\<lparr> ss_paren := ss_paren st + 1 \<rparr>), 2)
      else if c = c_open then (add_text [c] (st\<lparr> ss_paren := ss_paren st + 1 \<rparr>), 1)
      else if c = c_close then (add_text [c] (st\<lparr> ss_paren := ss_paren st - 1 \<rparr>), 1)
      else if 0 < ss_paren st then (add_text [c] st, 1)
      else if ps \<and> c = c_amp \<and> \<not> next_is c_amp s \<and> (js_trim (ss_cur st) = [] \<or> ends_in_equals (ss_cur st)) then (add_text [c] st, 1)
      else if c = c_hash \<and> before_comment prev then (st, 1 + length (takeWhile (\<lambda>d. d \<noteq> c_nl) s))
      else if c = c_amp \<and> (next_is c_gt s \<or> prev = Some c_gt \<or> prev = Some c_lt) then (add_text [c] st, 1)
      else if c = c_bar \<and> prev = Some c_gt then (add_text [c] st, 1)
      else if c = c_semi \<or> c = c_nl then (flush [c] st, 1)
      else if (c = c_amp \<or> c = c_bar) \<and> next_is c s then (flush [c, c] st, 2)
      else if c = c_amp \<or> c = c_bar then (flush [c] st, 1)
      else (add_text [c] st, 1))"

definition split_top_level :: "bool \<Rightarrow> jsstr \<Rightarrow> (jsstr \<times> jsstr) list \<times> bool" where
  "split_top_level ps src =
     (let st = scan (split_step ps) split_start None src in
      (ss_out (flush [] st), ss_quote st \<noteq> Bare \<or> ss_paren st \<noteq> 0 \<or> ss_tick st \<or> ss_open st))"

subsection \<open>Substitutions and groups\<close>

text \<open>A \<open>( \<dots> )\<close> group of PowerShell text, parentheses counted: its text, and how far it goes. A POSIX one ends where the shell ends it.\<close>

fun group_end :: "nat \<Rightarrow> jsstr \<Rightarrow> nat \<times> bool" where
  "group_end depth [] = (0, False)"
| "group_end depth (c # s) =
     (if c = c_open then (case group_end (depth + 1) s of (n, b) \<Rightarrow> (n + 1, b))
      else if c = c_close then (if depth = 1 then (1, True) else (case group_end (depth - 1) s of (n, b) \<Rightarrow> (n + 1, b)))
      else (case group_end depth s of (n, b) \<Rightarrow> (n + 1, b)))"

definition group_at :: "bool \<Rightarrow> jsstr \<Rightarrow> jsstr \<times> nat" where
  "group_at ps s =
     (if ps then (case group_end 1 s of (n, b) \<Rightarrow> (take (if b then n - 1 else n) s, n))
      else (case substitution_end [Parens 1] s of None \<Rightarrow> (s, length s) | Some e \<Rightarrow> (take e s, e + 1)))"

definition subst_mark :: jsstr where
  "subst_mark = js ''${__sb_subst}''"

record extracted =
  ex_outer :: jsstr
  ex_inner :: "jsstr list"
  ex_processes :: "nat list"
  ex_quote :: quoting

definition add_outer :: "jsstr \<Rightarrow> extracted \<Rightarrow> extracted" where
  "add_outer t x = x\<lparr> ex_outer := ex_outer x @ t \<rparr>"

definition add_inner :: "jsstr \<Rightarrow> extracted \<Rightarrow> extracted" where
  "add_inner t x = x\<lparr> ex_inner := ex_inner x @ [t] \<rparr>"

text \<open>\<open>/[\w\].:)}'"]/\<close> on the character before a group.\<close>

definition name_end :: "nat option \<Rightarrow> bool" where
  "name_end prev = (case prev of None \<Rightarrow> False
     | Some p \<Rightarrow> is_letter p \<or> is_digit p \<or> p = 95 \<or> p \<in> {93, 46, 58, c_close, c_unbrace, c_sq, c_dq})"

text \<open>One turn of the loop of \<open>extractSubstitutions\<close>.\<close>

definition extract_step :: "bool \<Rightarrow> extracted \<Rightarrow> nat option \<Rightarrow> nat \<Rightarrow> jsstr \<Rightarrow> extracted \<times> nat" where
  "extract_step ps x prev c s =
     (if ps \<and> c = c_tick then (add_outer (c # take 1 s) x, 2)
      else if ex_quote x = Single then (add_outer [c] (if c = c_sq then x\<lparr> ex_quote := Bare \<rparr> else x), 1)
      else if ps \<and> ex_quote x = Bare \<and> c = c_brace then
        (let e = (case brace_end 0 Bare (c # s) of None \<Rightarrow> length (c # s) | Some e \<Rightarrow> e) in
         (if prev = Some c_dollar then add_outer (take (e + 1) (c # s)) x else add_outer [c_sp] (add_inner (take (e - 1) s) x), e + 1))
      else if ps \<and> ex_quote x = Bare \<and> c = c_open \<and> \<not> next_is c_close s \<and> \<not> name_end prev then
        (case group_at True s of (t, n) \<Rightarrow> (add_outer subst_mark (add_inner t x), n + 1))
      else if \<not> ps \<and> c = c_tick then
        (case char_index c_tick s of
           None \<Rightarrow> (add_outer [c] x, 1)
         | Some k \<Rightarrow> (add_outer subst_mark (add_inner (take k s) x), k + 2))
      else if c = c_dollar \<and> next_is c_open s then
        (case group_at ps (drop 1 s) of (t, n) \<Rightarrow> (add_outer subst_mark (add_inner t x), n + 2))
      else if ex_quote x = Double then
        (if \<not> ps \<and> c = c_bslash \<and> s \<noteq> [] then (add_outer (c # take 1 s) x, 2)
         else (add_outer [c] (if c = c_dq then x\<lparr> ex_quote := Bare \<rparr> else x), 1))
      else if quote_of c \<noteq> Bare then (add_outer [c] (x\<lparr> ex_quote := quote_of c \<rparr>), 1)
      else if \<not> ps \<and> c = c_bslash \<and> s \<noteq> [] then (add_outer (c # take 1 s) x, 2)
      else if c = c_open \<and> next_is c_close s then (add_outer [c_open, c_close] x, 2)
      else if c = c_open then
        (let y = (if \<not> ps \<and> (prev = Some c_lt \<or> prev = Some c_gt) then x\<lparr> ex_processes := ex_processes x @ [length (ex_inner x)] \<rparr> else x) in
         (case group_at ps s of (t, n) \<Rightarrow> (add_inner t y, n + 1)))
      else (add_outer [c] x, 1))"

definition extract_substitutions :: "bool \<Rightarrow> jsstr \<Rightarrow> extracted" where
  "extract_substitutions ps seg = scan (extract_step ps) \<lparr> ex_outer = [], ex_inner = [], ex_processes = [], ex_quote = Bare \<rparr> None seg"

subsection \<open>Words and redirections\<close>

datatype token = Word jsstr | Op jsstr

record token_state =
  tk_out :: "token list"
  tk_cur :: jsstr
  tk_has :: bool
  tk_quote :: quoting

definition tk_add :: "jsstr \<Rightarrow> token_state \<Rightarrow> token_state" where
  "tk_add t st = st\<lparr> tk_cur := tk_cur st @ t, tk_has := True \<rparr>"

definition tk_push :: "token_state \<Rightarrow> token_state" where
  "tk_push st = (if tk_has st then st\<lparr> tk_out := tk_out st @ [Word (tk_cur st)], tk_cur := [], tk_has := False \<rparr> else st)"

definition escaped_in_double :: "nat \<Rightarrow> bool" where
  "escaped_in_double c \<longleftrightarrow> c \<in> {c_dollar, c_tick, c_dq, c_bslash, c_nl}"

text \<open>The operator that opens at \<open>c\<close>: its text, and how many characters it takes.\<close>

definition operator_at :: "nat \<Rightarrow> jsstr \<Rightarrow> jsstr \<times> nat" where
  "operator_at c s =
     (let (pre, d, rest) = (if c = c_amp then ([c_amp], c_gt, drop 1 s) else ([], c, s)) in
      if next_is d rest then
        (if d = c_lt \<and> next_is c_lt (drop 1 rest) then (pre @ [d, d, d], length pre + 3) else (pre @ [d, d], length pre + 2))
      else if next_is c_bar rest \<or> next_is c_amp rest \<or> (d = c_lt \<and> next_is c_gt rest) then (pre @ [d, hd rest], length pre + 2)
      else (pre @ [d], length pre + 1))"

definition token_step :: "token_state \<Rightarrow> nat option \<Rightarrow> nat \<Rightarrow> jsstr \<Rightarrow> token_state \<times> nat" where
  "token_step st prev c s =
     (if tk_quote st = Single then ((if c = c_sq then st\<lparr> tk_quote := Bare, tk_has := True \<rparr> else tk_add [c] st), 1)
      else if tk_quote st = Double then
        (if c = c_dq then (st\<lparr> tk_quote := Bare, tk_has := True \<rparr>, 1)
         else if c = c_bslash \<and> s \<noteq> [] \<and> escaped_in_double (hd s) then (tk_add [hd s] st, 2)
         else (tk_add [c] st, 1))
      else if quote_of c \<noteq> Bare then (st\<lparr> tk_quote := quote_of c, tk_has := True \<rparr>, 1)
      else if c = c_bslash \<and> s \<noteq> [] then (tk_add [hd s] st, 2)
      else if is_space c then (tk_push st, 1)
      else if c = c_gt \<or> c = c_lt \<or> (c = c_amp \<and> next_is c_gt s) then
        (case operator_at c s of (op, n) \<Rightarrow>
           let st' = (if tk_has st \<and> tk_cur st \<noteq> [] \<and> list_all is_digit (tk_cur st) then st\<lparr> tk_cur := [], tk_has := False \<rparr> else tk_push st) in
           (st'\<lparr> tk_out := tk_out st' @ [Op op] \<rparr>, n))
      else (tk_add [c] st, 1))"

definition token_start :: token_state where
  "token_start = \<lparr> tk_out = [], tk_cur = [], tk_has = False, tk_quote = Bare \<rparr>"

definition tokenize :: "jsstr \<Rightarrow> token list" where
  "tokenize s = tk_out (tk_push (scan token_step token_start None s))"

record redirect =
  rd_op :: jsstr
  rd_target :: jsstr

text \<open>The operator without a leading \<open>&\<close>; a here-document or a here-string, or an operator with no target, is dropped; so is a descriptor that
  is duplicated or closed.\<close>

definition redirect_for :: "jsstr \<Rightarrow> jsstr option \<Rightarrow> redirect list" where
  "redirect_for op target =
     (let o' = (if next_is c_amp op then drop 1 op else op) in
      case target of
        None \<Rightarrow> []
      | Some t \<Rightarrow>
          if starts_with o' (js ''<<'') then []
          else if (o' = js ''>&'' \<or> o' = js ''<&'') \<and> ((t \<noteq> [] \<and> list_all is_digit t) \<or> t = js ''-'') then []
          else [\<lparr> rd_op = (if o' = js ''>&'' then js ''>'' else if o' = js ''<&'' then js ''<'' else o'), rd_target = t \<rparr>])"

fun split_redirects :: "token list \<Rightarrow> jsstr list \<times> redirect list" where
  "split_redirects [] = ([], [])"
| "split_redirects (Word w # ts) = (case split_redirects ts of (ws, rs) \<Rightarrow> (w # ws, rs))"
| "split_redirects (Op op # Word t # ts) = (case split_redirects ts of (ws, rs) \<Rightarrow> (ws, redirect_for op (Some t) @ rs))"
| "split_redirects (Op op # ts) = (case split_redirects ts of (ws, rs) \<Rightarrow> (ws, redirect_for op None @ rs))"

fun word_texts :: "token list \<Rightarrow> jsstr list" where
  "word_texts [] = []"
| "word_texts (Word w # ts) = w # word_texts ts"
| "word_texts (Op op # ts) = word_texts ts"

definition shell_words :: "jsstr \<Rightarrow> jsstr list" where
  "shell_words s = word_texts (tokenize s)"

subsection \<open>A word of cmd\<close>

text \<open>A word cmd hands a program, spelled for the POSIX reader.\<close>

definition plain_unit :: "nat \<Rightarrow> bool" where
  "plain_unit c \<longleftrightarrow> is_letter c \<or> is_digit c \<or> c \<in> set (js ''_@%+:,./~*?=-'')"

definition quoted_text :: "jsstr \<Rightarrow> jsstr" where
  "quoted_text w = concat (map (\<lambda>c. if c = c_sq then [c_sq, c_bslash, c_sq, c_sq] else [c]) w)"

definition posix_word :: "bool \<Rightarrow> jsstr \<Rightarrow> jsstr" where
  "posix_word first w =
     (if w \<noteq> [] \<and> list_all plain_unit w \<and> \<not> (first \<and> c_eq \<in> set w) then w
      else [c_sq] @ quoted_text w @ [c_sq])"

definition posix_text :: "jsstr list \<Rightarrow> jsstr" where
  "posix_text ws = js_join [c_sp] (case ws of [] \<Rightarrow> [] | w # vs \<Rightarrow> posix_word True w # map (posix_word False) vs)"

end
