(* ===== verification/ShellPrefix.thy ===== *)
theory ShellPrefix
  imports ShellText
begin

section \<open>The program of a simple command\<close>

text \<open>
  \<^verbatim>\<open>packages/hook/src/shell.ts\<close>: the words before the program that run nothing or run it (assignments, keywords, wrappers such as \<open>sudo\<close>,
  each with its own options), and the places where a program takes a script: \<open>sh -c\<close>, \<open>cmd /c\<close>, \<open>pwsh -Command\<close>, \<open>find -exec\<close>.
\<close>

subsection \<open>Options that only describe\<close>

definition is_describe_option :: "jsstr \<Rightarrow> bool" where
  "is_describe_option w \<longleftrightarrow>
     w \<in> set (map js [''--help'', ''--version'', ''--dry-run'']) \<or>
     (starts_with w (js ''--dry-run='') \<and> ascii_lower (drop 10 w) \<notin> set (map js [''none'', ''false'']))"

definition halts :: "jsstr list" where
  "halts = map js [''shutdown'', ''halt'', ''poweroff'', ''reboot'']"

fun describe_scan :: "jsstr list \<Rightarrow> bool" where
  "describe_scan [] = False"
| "describe_scan (a # as) =
     (if a = js ''--'' \<or> a = js ''-'' \<or> \<not> next_is c_minus a then False else if is_describe_option a then True else describe_scan as)"

definition describes_itself :: "computer \<Rightarrow> jsstr \<Rightarrow> jsstr list \<Rightarrow> bool" where
  "describes_itself pc program argv =
     (if argv = [js ''-h''] then canon_program pc program \<notin> set halts else describe_scan argv)"

definition shells :: "jsstr list" where
  "shells = map js [''sh'', ''bash'', ''zsh'', ''dash'', ''ksh'', ''ash'', ''fish'']"

definition powershells :: "jsstr list" where
  "powershells = map js [''powershell'', ''pwsh'']"

subsection \<open>Wrappers\<close>

datatype lead_operand = No_lead | Duration | Digits | Cpu_mask | Not_option

record wrapper_spec =
  ws_short :: jsstr
  ws_optional :: jsstr
  ws_long :: "jsstr list"
  ws_lead :: lead_operand
  ws_write :: "jsstr list"
  ws_read :: "jsstr list"

definition spec_of :: "string \<Rightarrow> string list \<Rightarrow> wrapper_spec" where
  "spec_of short long = \<lparr> ws_short = js short, ws_optional = [], ws_long = map js long, ws_lead = No_lead, ws_write = [], ws_read = [] \<rparr>"

definition wrappers :: "(jsstr \<times> wrapper_spec) list" where
  "wrappers = map (\<lambda>(n, s). (js n, s))
    [(''sudo'', spec_of ''ugCDhpRrTtU'' [''--user'', ''--group'', ''--close-from'', ''--chdir'', ''--prompt'', ''--chroot'', ''--role'', ''--type'',
        ''--command-timeout'', ''--other-user'', ''--host'']),
     (''doas'', spec_of ''uCa'' []),
     (''pkexec'', spec_of '''' [''--user'']),
     (''env'', spec_of ''uCSPa'' [''--unset'', ''--chdir'', ''--split-string'', ''--argv0'']),
     (''command'', spec_of '''' []),
     (''builtin'', spec_of '''' []),
     (''nohup'', spec_of '''' []),
     (''nice'', spec_of ''n'' [''--adjustment'']),
     (''time'', (spec_of ''fo'' [''--format'', ''--output''])\<lparr> ws_write := map js [''-o'', ''--output''] \<rparr>),
     (''exec'', spec_of ''a'' []),
     (''stdbuf'', spec_of ''ioe'' [''--input'', ''--output'', ''--error'']),
     (''setsid'', spec_of '''' []),
     (''xargs'', (spec_of ''ILnPsdEa'' [''--arg-file'', ''--delimiter'', ''--max-args'', ''--max-procs'', ''--max-chars'', ''--process-slot-var''])
        \<lparr> ws_optional := js ''iel'', ws_read := map js [''-a'', ''--arg-file''] \<rparr>),
     (''busybox'', spec_of '''' []),
     (''timeout'', (spec_of ''sk'' [''--signal'', ''--kill-after''])\<lparr> ws_lead := Duration \<rparr>),
     (''gtimeout'', (spec_of ''sk'' [''--signal'', ''--kill-after''])\<lparr> ws_lead := Duration \<rparr>),
     (''ionice'', spec_of ''cnp'' [''--class'', ''--classdata'', ''--pid'']),
     (''chrt'', (spec_of ''TPD'' [''--sched-runtime'', ''--sched-period'', ''--sched-deadline''])\<lparr> ws_lead := Digits \<rparr>),
     (''taskset'', (spec_of '''' [])\<lparr> ws_lead := Cpu_mask \<rparr>),
     (''caffeinate'', spec_of ''wt'' []),
     (''strace'', (spec_of ''abeEIoOpPsSuX'' [''--output'', ''--trace'', ''--signal'', ''--status'', ''--attach'', ''--string-limit'', ''--user'', ''--env''])
        \<lparr> ws_write := map js [''-o'', ''--output''] \<rparr>),
     (''ltrace'', (spec_of ''aADeFlnopsuxw'' [''--output'', ''--library''])\<lparr> ws_write := map js [''-o'', ''--output''] \<rparr>),
     (''chroot'', (spec_of '''' [''--userspec'', ''--groups''])\<lparr> ws_lead := Not_option \<rparr>),
     (''unbuffer'', spec_of '''' []),
     (''catchsegv'', spec_of '''' []),
     (''torsocks'', spec_of ''uapP'' []),
     (''proxychains'', spec_of ''f'' []),
     (''proxychains4'', spec_of ''f'' [])]"

text \<open>The leading operands: a duration, digits, a hexadecimal or listed mask, anything that is no option.\<close>

definition duration_text :: "jsstr \<Rightarrow> bool" where
  "duration_text s \<longleftrightarrow>
     (let d = (\<lambda>c. is_digit c \<or> c = 46) in
      s \<noteq> [] \<and> (list_all d s \<or> (butlast s \<noteq> [] \<and> list_all d (butlast s) \<and> last (ascii_lower s) \<in> set (js ''smhd''))))"

definition lead_matches :: "lead_operand \<Rightarrow> jsstr \<Rightarrow> bool" where
  "lead_matches l s =
     (case l of
        No_lead \<Rightarrow> False
      | Duration \<Rightarrow> duration_text s
      | Digits \<Rightarrow> s \<noteq> [] \<and> list_all is_digit s
      | Cpu_mask \<Rightarrow>
          (let t = ascii_lower s in
           (starts_with t (js ''0x'') \<and> 2 < length t \<and> list_all is_lower_hex (drop 2 t)) \<or>
           (t \<noteq> [] \<and> list_all (\<lambda>c. is_digit c \<or> c = 44 \<or> c = c_minus) t))
      | Not_option \<Rightarrow> s \<noteq> [] \<and> \<not> next_is c_minus s)"

definition shell_keywords :: "jsstr list" where
  "shell_keywords = map js [''if'', ''then'', ''else'', ''elif'', ''fi'', ''do'', ''done'', ''while'', ''until'', ''{'', ''}'', ''!'', ''coproc'', ''esac'']"

definition name_unit :: "nat \<Rightarrow> bool" where
  "name_unit c \<longleftrightarrow> is_letter c \<or> is_digit c \<or> c = 95"

definition is_name :: "jsstr \<Rightarrow> bool" where
  "is_name s \<longleftrightarrow> s \<noteq> [] \<and> \<not> is_digit (hd s) \<and> list_all name_unit s"

definition is_assignment :: "jsstr \<Rightarrow> bool" where
  "is_assignment t \<longleftrightarrow> c_eq \<in> set t \<and> is_name (takeWhile (\<lambda>c. c \<noteq> c_eq) t)"

record wrapper =
  wr_name :: jsstr
  wr_raw :: jsstr
  wr_redirects :: "redirect list"
  wr_describes :: bool

text \<open>The options of a wrapper. \<open>value\<close> takes the attached text or the next word; it may name a file, or the words \<open>env -S\<close> splits.\<close>

record option_state =
  os_redirects :: "redirect list"
  os_describes :: bool
  os_split :: "jsstr option"

definition option_value :: "jsstr \<Rightarrow> wrapper_spec \<Rightarrow> jsstr \<Rightarrow> jsstr option \<Rightarrow> jsstr list \<Rightarrow> option_state \<Rightarrow> option_state \<times> jsstr list" where
  "option_value w spec name attached ts st =
     (let (v, rest) = (case attached of Some a \<Rightarrow> (Some a, ts) | None \<Rightarrow> (case ts of [] \<Rightarrow> (None, []) | t # us \<Rightarrow> (Some t, us))) in
      case v of
        None \<Rightarrow> (st, rest)
      | Some x \<Rightarrow>
          (st\<lparr> os_redirects := os_redirects st @ (if name \<in> set (ws_write spec) then [\<lparr> rd_op = js ''>'', rd_target = x \<rparr>] else [])
                 @ (if name \<in> set (ws_read spec) then [\<lparr> rd_op = js ''<'', rd_target = x \<rparr>] else []),
               os_split := (if w = js ''env'' \<and> (name = js ''-S'' \<or> name = js ''--split-string'') then Some x else os_split st) \<rparr>, rest))"

fun cluster_value :: "wrapper_spec \<Rightarrow> jsstr \<Rightarrow> (jsstr \<times> jsstr option) option" where
  "cluster_value spec [] = None"
| "cluster_value spec (c # s) =
     (if c \<in> set (ws_optional spec) then None
      else if c \<in> set (ws_short spec) then Some ([c_minus, c], if s = [] then None else Some s)
      else cluster_value spec s)"

definition option_step :: "jsstr \<Rightarrow> wrapper_spec \<Rightarrow> jsstr \<Rightarrow> jsstr list \<Rightarrow> option_state \<Rightarrow> option_state \<times> jsstr list" where
  "option_step w spec o' ts st =
     (let st1 = (if is_describe_option o' \<or> (o' = js ''-h'' \<and> ts = []) then st\<lparr> os_describes := True \<rparr> else st) in
      if starts_with o' (js ''--'') then
        (case char_index c_eq o' of
           Some k \<Rightarrow> option_value w spec (take k o') (Some (drop (k + 1) o')) ts st1
         | None \<Rightarrow> if o' \<in> set (ws_long spec) then option_value w spec o' None ts st1 else (st1, ts))
      else
        (case cluster_value spec (drop 1 o') of None \<Rightarrow> (st1, ts) | Some (name, attached) \<Rightarrow> option_value w spec name attached ts st1))"

lemma option_step_shorter: "length (snd (option_step w spec a ts st)) \<le> length ts"
  by (auto simp: option_step_def option_value_def Let_def split: option.splits list.splits prod.splits)

function wrapper_options :: "jsstr \<Rightarrow> wrapper_spec \<Rightarrow> jsstr list \<Rightarrow> option_state \<Rightarrow> option_state \<times> jsstr list" where
  "wrapper_options w spec [] st = (st, [])"
| "wrapper_options w spec (a # ts) st =
     (if a = js ''--'' then (st, ts)
      else if \<not> next_is c_minus a \<or> a = js ''-'' then (st, a # ts)
      else wrapper_options w spec (snd (option_step w spec a ts st)) (fst (option_step w spec a ts st)))"
  by pat_completeness auto
termination
  by (relation "measure (\<lambda>(_, _, ts, _). length ts)") (auto simp: less_Suc_eq_le option_step_shorter)

text \<open>\<open>command -v rm\<close> only describes \<open>rm\<close>.\<close>

definition command_query :: "jsstr list \<Rightarrow> bool" where
  "command_query ts = list_ex (\<lambda>a. case dropWhile (\<lambda>c. is_letter c \<and> c \<noteq> 118 \<and> c \<noteq> 86) (drop 1 a) of c # _ \<Rightarrow> c = 118 \<or> c = 86 | [] \<Rightarrow> False)
     (takeWhile (next_is c_minus) ts)"

definition case_pattern :: "jsstr \<Rightarrow> bool" where
  "case_pattern t \<longleftrightarrow> t \<noteq> [] \<and> last t = c_close \<and> list_all (\<lambda>c. c \<noteq> c_open \<and> c \<noteq> c_close) (butlast t) \<and> \<not> next_is c_dollar t"

definition drop_word :: "string \<Rightarrow> jsstr list \<Rightarrow> jsstr list" where
  "drop_word w ts = (case ts of t # us \<Rightarrow> if t = js w then us else ts | [] \<Rightarrow> [])"

text \<open>What a header \<open>for x in \<dots>\<close> sets.\<close>

definition for_words :: "jsstr list \<Rightarrow> jsstr list" where
  "for_words ts =
     (case ts of
        name # i # vs \<Rightarrow> if is_name name \<and> i = js ''in'' then map (\<lambda>v. name @ [c_eq] @ v) vs else []
      | _ \<Rightarrow> [])"

fun word_index :: "jsstr \<Rightarrow> jsstr list \<Rightarrow> nat option" where
  "word_index w [] = None"
| "word_index w (t # ts) = (if t = w then Some 0 else map_option Suc (word_index w ts))"

record prefix_state =
  px_tokens :: "jsstr list"
  px_wrappers :: "wrapper list"
  px_assigns :: "jsstr list"

text \<open>The wrapper's own words are behind: its options, the operand before its command, or the words \<open>env -S\<close> puts there.\<close>

definition strip_wrapper :: "jsstr \<Rightarrow> jsstr \<Rightarrow> wrapper_spec \<Rightarrow> jsstr list \<Rightarrow> prefix_state \<Rightarrow> prefix_state" where
  "strip_wrapper w raw spec ts px =
     (case wrapper_options w spec ts \<lparr> os_redirects = [], os_describes = False, os_split = None \<rparr> of
        (st, rest) \<Rightarrow>
          px\<lparr> px_tokens := (case os_split st of
                 Some x \<Rightarrow> shell_words x @ rest
               | None \<Rightarrow> (case rest of t # us \<Rightarrow> if lead_matches (ws_lead spec) t then us else rest | [] \<Rightarrow> [])),
              px_wrappers := px_wrappers px @ [\<lparr> wr_name = w, wr_raw = raw, wr_redirects = os_redirects st, wr_describes = os_describes st \<rparr>] \<rparr>)"

text \<open>One turn of \<open>stripPrefixes\<close> at the word \<open>t\<close>: the state to go on with (\<open>Inl\<close>), or where it ends.\<close>

definition prefix_step :: "computer \<Rightarrow> jsstr \<Rightarrow> jsstr list \<Rightarrow> prefix_state \<Rightarrow> prefix_state + prefix_state" where
  "prefix_step pc t ts px =
     (if is_assignment t then Inl (px\<lparr> px_tokens := ts, px_assigns := px_assigns px @ [t] \<rparr>)
      else if t \<in> set shell_keywords then Inl (px\<lparr> px_tokens := ts \<rparr>)
      else if t = js ''for'' \<or> t = js ''select'' then Inr (px\<lparr> px_tokens := [], px_assigns := px_assigns px @ for_words ts \<rparr>)
      else if t = js ''case'' then
        (case word_index (js ''in'') ts of None \<Rightarrow> Inr (px\<lparr> px_tokens := [] \<rparr>) | Some k \<Rightarrow> Inl (px\<lparr> px_tokens := drop (k + 1) ts \<rparr>))
      else if case_pattern t then Inl (px\<lparr> px_tokens := ts \<rparr>)
      else if 2 < length t \<and> ends_with t (js ''()'') then Inl (px\<lparr> px_tokens := drop_word ''{'' ts \<rparr>)
      else if t = js ''function'' \<and> ts \<noteq> [] then Inl (px\<lparr> px_tokens := drop_word ''{'' (drop_word ''()'' (drop 1 ts)) \<rparr>)
      else (let w = canon_program pc t in
        (case map_of wrappers w of
           None \<Rightarrow> Inr px
         | Some spec \<Rightarrow> if w = js ''command'' \<and> command_query ts then Inr px else Inl (strip_wrapper w t spec ts px))))"

fun strip_loop :: "computer \<Rightarrow> nat \<Rightarrow> prefix_state \<Rightarrow> prefix_state" where
  "strip_loop pc 0 px = px"
| "strip_loop pc (Suc n) px =
     (case px_tokens px of
        [] \<Rightarrow> px
      | t # ts \<Rightarrow> (case prefix_step pc t ts px of Inl px' \<Rightarrow> strip_loop pc n px' | Inr px' \<Rightarrow> px'))"

definition strip_prefixes :: "computer \<Rightarrow> jsstr list \<Rightarrow> prefix_state" where
  "strip_prefixes pc ws = strip_loop pc 1000 \<lparr> px_tokens = ws, px_wrappers = [], px_assigns = [] \<rparr>"

text \<open>A program only known at run time.\<close>

definition after_slash :: "jsstr \<Rightarrow> jsstr" where
  "after_slash t =
     (let line = takeWhile (\<lambda>c. \<not> line_terminator c) t; rest = dropWhile (\<lambda>c. \<not> line_terminator c) t in
      rev (takeWhile (\<lambda>c. c \<noteq> 47) (rev line)) @ rest)"

definition is_dynamic_program :: "jsstr \<Rightarrow> bool" where
  "is_dynamic_program w \<longleftrightarrow>
     list_ex (\<lambda>c. c = c_dollar \<or> c = c_tick) (after_slash w) \<or> list_ex (\<lambda>c. c \<in> {c_brace, c_unbrace, c_open, c_close}) w"

subsection \<open>Scripts given to a program\<close>

definition nonempty :: "jsstr \<Rightarrow> jsstr option" where
  "nonempty s = (if s = [] then None else Some s)"

text \<open>\<open>-\<close>, letters, \<open>c\<close>; \<open>at_least\<close> letters before the \<open>c\<close>.\<close>

definition c_cluster :: "nat \<Rightarrow> jsstr \<Rightarrow> bool" where
  "c_cluster at_least a \<longleftrightarrow>
     (case a of d # s \<Rightarrow> d = c_minus \<and> s \<noteq> [] \<and> last s = 99 \<and> list_all is_letter (butlast s) \<and> at_least \<le> length (butlast s) | [] \<Rightarrow> False)"

fun command_option :: "jsstr list \<Rightarrow> jsstr option" where
  "command_option [] = None"
| "command_option (a # as) =
     (if starts_with a (js ''--command='') \<or> starts_with a (js ''--session-command='') then Some (drop 1 (dropWhile (\<lambda>c. c \<noteq> c_eq) a))
      else if a \<in> set (map js [''-c'', ''--command'', ''--session-command'']) \<or> c_cluster 1 a then (case as of [] \<Rightarrow> None | b # _ \<Rightarrow> Some b)
      else command_option as)"

definition parallel_valued :: "jsstr list" where
  "parallel_valued = map js [''-j'', ''-P'', ''-S'', ''-a'', ''-d'', ''-I'', ''-E'', ''-C'', ''-N'', ''-n'', ''-L'', ''--jobs'', ''--sshlogin'', ''--sshloginfile'',
     ''--arg-file'', ''--delimiter'', ''--colsep'', ''--results'', ''--tmpdir'', ''--workdir'', ''--wd'', ''--joblog'', ''--halt'', ''--delay'', ''--timeout'',
     ''--retries'', ''--max-args'', ''--max-lines'', ''--env'', ''--basefile'', ''--return'', ''--transferfile'']"

fun skip_options :: "jsstr list \<Rightarrow> jsstr list" where
  "skip_options [] = []"
| "skip_options [a] = (if next_is c_minus a \<and> \<not> starts_with a (js '':::'') then [] else [a])"
| "skip_options (a # b # as) =
     (if next_is c_minus a \<and> \<not> starts_with a (js '':::'') then (if a \<in> set parallel_valued then skip_options as else skip_options (b # as)) else a # b # as)"

definition parallel_command :: "jsstr list \<Rightarrow> jsstr option" where
  "parallel_command argv =
     (let cmd = takeWhile (\<lambda>a. a \<notin> set (map js ['':::'', ''::::'', '':::+'', ''::::+''])) (skip_options argv) in
      if cmd = [] then None else Some (js_join [c_sp] cmd))"

fun watch_operands :: "jsstr list \<Rightarrow> jsstr list" where
  "watch_operands [] = []"
| "watch_operands [a] = (if next_is c_minus a then [] else [a])"
| "watch_operands (a # b # as) =
     (if \<not> next_is c_minus a then a # b # as
      else if a = js ''--'' then b # as
      else if a \<in> set (map js [''-n'', ''-q'', ''--interval'', ''--equexit'']) then watch_operands as
      else watch_operands (b # as))"

definition watch_command :: "jsstr list \<Rightarrow> jsstr option" where
  "watch_command argv = (let ops = watch_operands argv in if ops = [] then None else Some (js_join [c_sp] ops))"

fun shell_script_arg :: "jsstr list \<Rightarrow> jsstr option" where
  "shell_script_arg [] = None"
| "shell_script_arg (a # as) =
     (if c_cluster 0 a then (case find (\<lambda>b. \<not> next_is c_minus b) as of Some b \<Rightarrow> Some b | None \<Rightarrow> shell_script_arg as) else shell_script_arg as)"

fun group_operands :: "jsstr list \<Rightarrow> jsstr list" where
  "group_operands [] = []"
| "group_operands [a] = (if next_is c_minus a then [] else [a])"
| "group_operands (a # b # as) =
     (if next_is c_minus a then (if a \<in> set (map js [''-w'', ''-E'', ''-n'']) then group_operands as else group_operands (b # as)) else a # b # as)"

definition interpreters :: "jsstr list" where
  "interpreters = map js [''node'', ''deno'', ''bun'', ''python'', ''python3'', ''py'', ''ruby'', ''perl'', ''php'', ''osascript'', ''lua'', ''tclsh'']"

definition inline_code :: "jsstr \<Rightarrow> bool" where
  "inline_code a \<longleftrightarrow>
     a \<in> set (map js [''-c'', ''-e'', ''-E'', ''-r'', ''-p'', ''--eval'', ''--print'', ''--command'']) \<or> starts_with a (js ''--eval='') \<or> starts_with a (js ''--print='')"

definition interpreter_reads_stdin :: "jsstr list \<Rightarrow> bool" where
  "interpreter_reads_stdin argv \<longleftrightarrow>
     \<not> list_ex inline_code argv \<and>
     (case filter (\<lambda>a. \<not> next_is c_minus a \<or> a = js ''-'') argv of [] \<Rightarrow> True | o' # _ \<Rightarrow> o' = js ''-'')"

fun find_exec_commands :: "jsstr list \<Rightarrow> jsstr list" where
  "find_exec_commands [] = []"
| "find_exec_commands (a # as) =
     (if a \<in> set (map js [''-exec'', ''-execdir'', ''-ok'', ''-okdir'']) then
        (let fin = (\<lambda>b. b \<in> set [[c_semi], [43], [c_bslash, c_semi]]); cmd = takeWhile (\<lambda>b. \<not> fin b) as;
             quoted = map (\<lambda>w. if list_ex (\<lambda>c. is_space c \<or> c = c_sq \<or> c = c_dq) w then [c_sq] @ filter (\<lambda>c. c \<noteq> c_sq) w @ [c_sq] else w) cmd in
         (if cmd = [] then [] else [js_join [c_sp] quoted]) @ find_exec_commands (drop (length cmd + 1) as))
      else find_exec_commands as)"

end
