(* ===== verification/ShellScripts.thy ===== *)
theory ShellScripts
  imports ShellPrefix
begin

section \<open>Scripts in other languages, and here-documents\<close>

text \<open>
  \<^verbatim>\<open>packages/hook/src/shell.ts\<close>: the commands of a \<open>cmd /c\<close> script, the text and the statements of PowerShell, and here-documents, which are
  taken out of a command line before it is split.
\<close>

subsection \<open>cmd\<close>

text \<open>\<open>/^\/\/?[ck](?![\\/])/i\<close>: the text after the switch.\<close>

definition cmd_switch :: "jsstr \<Rightarrow> jsstr option" where
  "cmd_switch a =
     (let s = (if starts_with a (js ''//'') then drop 2 a else if starts_with a (js ''/'') then drop 1 a else []) in
      case s of
        c # r \<Rightarrow> if c \<in> {67, 75, 99, 107} \<and> \<not> next_is c_bslash r \<and> \<not> next_is 47 r then Some r else None
      | [] \<Rightarrow> None)"

fun cmd_script_arg :: "jsstr list \<Rightarrow> jsstr option" where
  "cmd_script_arg [] = None"
| "cmd_script_arg (a # as) =
     (case cmd_switch a of
        None \<Rightarrow> cmd_script_arg as
      | Some r \<Rightarrow> nonempty (js_join [c_sp] (filter (\<lambda>w. w \<noteq> []) (r # as))))"

fun positions :: "nat \<Rightarrow> nat \<Rightarrow> jsstr \<Rightarrow> nat list" where
  "positions c i [] = []"
| "positions c i (d # s) = (if d = c then i # positions c (i + 1) s else positions c (i + 1) s)"

fun pair_up :: "nat list \<Rightarrow> (nat \<times> nat) list" where
  "pair_up (p # q # ps) = (if p + 1 < q then (p, q) # pair_up ps else pair_up (q # ps))"
| "pair_up _ = []"

definition cmd_expansions :: "jsstr \<Rightarrow> (nat \<times> nat) list" where
  "cmd_expansions s = pair_up (positions 37 0 s) @ pair_up (positions c_bang 0 s)"

record cmd_command =
  cc_text :: jsstr
  cc_raw :: jsstr
  cc_dynamic :: bool

record cmd_state =
  cm_out :: "cmd_command list"
  cm_words :: "jsstr list"
  cm_word :: jsstr
  cm_in :: bool
  cm_quote :: bool
  cm_raw :: jsstr
  cm_start :: nat
  cm_at :: nat

definition slashed :: "jsstr \<Rightarrow> jsstr" where
  "slashed = map (\<lambda>c. if c = c_bslash then 47 else c)"

definition end_word :: "cmd_state \<Rightarrow> cmd_state" where
  "end_word st =
     st\<lparr> cm_words := (if cm_in st then cm_words st @ [posix_word (cm_words st = []) (slashed (cm_word st))] else cm_words st),
        cm_word := [], cm_in := False \<rparr>"

definition end_command :: "(nat \<times> nat) list \<Rightarrow> nat \<Rightarrow> cmd_state \<Rightarrow> cmd_state" where
  "end_command spans p st0 =
     (let st = end_word st0 in
      st\<lparr> cm_out := (if cm_words st = [] then cm_out st
             else cm_out st @ [\<lparr> cc_text = js_join [c_sp] (cm_words st), cc_raw = js_trim (slashed (cm_raw st)),
               cc_dynamic = list_ex (\<lambda>(s, e). s < p \<and> cm_start st \<le> e) spans \<rparr>]),
         cm_words := [], cm_raw := [] \<rparr>)"

definition add_char :: "nat \<Rightarrow> cmd_state \<Rightarrow> cmd_state" where
  "add_char c st = st\<lparr> cm_word := cm_word st @ [c], cm_in := True, cm_raw := cm_raw st @ [c] \<rparr>"

definition add_raw :: "jsstr \<Rightarrow> cmd_state \<Rightarrow> cmd_state" where
  "add_raw t st = st\<lparr> cm_raw := cm_raw st @ t \<rparr>"

text \<open>A redirection of cmd: its text, and how many characters it takes.\<close>

definition cmd_operator :: "nat \<Rightarrow> jsstr \<Rightarrow> jsstr \<times> nat" where
  "cmd_operator c s =
     (let (op, n) = (if c = c_gt \<and> next_is c_gt s then ([c, c], 2) else ([c], 1)); r = drop (n - 1) s in
      if next_is c_amp r \<and> (case r of _ # d # _ \<Rightarrow> is_digit d | _ \<Rightarrow> False) then (op @ take 2 r, n + 2) else (op, n))"

definition cmd_turn :: "(nat \<times> nat) list \<Rightarrow> cmd_state \<Rightarrow> nat \<Rightarrow> jsstr \<Rightarrow> cmd_state \<times> nat" where
  "cmd_turn spans st c s =
     (if cm_quote st then
        ((if c = c_dq then add_raw [c] (st\<lparr> cm_quote := False \<rparr>) else add_raw [c] (st\<lparr> cm_word := cm_word st @ [c] \<rparr>)), 1)
      else if c = c_dq then (add_raw [c] (st\<lparr> cm_quote := True, cm_in := True \<rparr>), 1)
      else if c = 94 then
        (case s of
           [] \<Rightarrow> (st, 1)
         | d # r \<Rightarrow>
             if d = 13 \<or> d = c_nl then (st, if d = 13 \<and> next_is c_nl r then 3 else 2)
             else (add_char d st, 2))
      else if c = c_amp \<or> c = c_bar \<or> c = c_nl \<or> c = 13 then
        (let n = (if (c = c_amp \<or> c = c_bar) \<and> next_is c s then 2 else 1) in ((end_command spans (cm_at st) st)\<lparr> cm_start := cm_at st + n \<rparr>, n))
      else if c = c_gt \<or> c = c_lt then
        (case cmd_operator c s of (op, n) \<Rightarrow>
           let handle = cm_in st \<and> length (cm_word st) = 1 \<and> list_all is_digit (cm_word st);
               op' = (if handle then cm_word st @ op else op);
               st' = (if handle then st\<lparr> cm_word := [], cm_in := False \<rparr> else end_word st) in
           (add_raw ([c_sp] @ op' @ [c_sp]) (st'\<lparr> cm_words := cm_words st' @ [op'] \<rparr>), n))
      else if c = c_open \<or> c = c_close \<or> c = c_sp \<or> c = 9 then (add_raw [c] (end_word st), 1)
      else if c = 64 \<and> \<not> cm_in st \<and> cm_words st = [] then (st, 1)
      else (add_char c st, 1))"

definition cmd_step :: "(nat \<times> nat) list \<Rightarrow> cmd_state \<Rightarrow> nat option \<Rightarrow> nat \<Rightarrow> jsstr \<Rightarrow> cmd_state \<times> nat" where
  "cmd_step spans st prev c s = (case cmd_turn spans st c s of (st', n) \<Rightarrow> (st'\<lparr> cm_at := cm_at st + n \<rparr>, n))"

definition cmd_commands :: "jsstr \<Rightarrow> cmd_command list" where
  "cmd_commands script =
     (let spans = cmd_expansions script in
      cm_out (end_command spans (length script) (scan (cmd_step spans)
        \<lparr> cm_out = [], cm_words = [], cm_word = [], cm_in = False, cm_quote = False, cm_raw = [], cm_start = 0, cm_at = 0 \<rparr> None script)))"

subsection \<open>PowerShell\<close>

fun drop_ticks :: "jsstr \<Rightarrow> jsstr" where
  "drop_ticks (c # d # s) = (if c = c_tick \<and> \<not> line_terminator d then d # drop_ticks s else c # drop_ticks (d # s))"
| "drop_ticks s = s"

definition powershell_text :: "jsstr \<Rightarrow> jsstr" where
  "powershell_text t = slashed (drop_ticks t)"

datatype ps_script = No_script | Unreadable_script | Script jsstr

definition command_flag :: "jsstr \<Rightarrow> bool" where
  "command_flag a \<longleftrightarrow>
     (next_is c_minus a \<or> next_is 47 a) \<and> drop 1 a \<in> set (map js [''c'', ''command'', ''com'', ''comm'', ''comma'', ''comman''])"

definition encoded_flag :: "jsstr \<Rightarrow> bool" where
  "encoded_flag a \<longleftrightarrow>
     (next_is c_minus a \<or> next_is 47 a) \<and>
     (drop 1 a \<in> set (map js [''e'', ''ec'', ''en'', ''enc'', ''enco'', ''encod'', ''encode'', ''encoded'']) \<or>
      (starts_with (drop 1 a) (js ''encodedc'') \<and> list_all name_unit (drop 9 a)))"

definition base64_unit :: "nat \<Rightarrow> bool" where
  "base64_unit c \<longleftrightarrow> is_letter c \<or> is_digit c \<or> c = 43 \<or> c = 47 \<or> c = c_eq"

text \<open>\<open>utf16\<close> stands for \<open>Buffer.from(b64, "base64").toString("utf16le")\<close>.\<close>

fun powershell_script_arg :: "computer \<Rightarrow> (jsstr \<Rightarrow> jsstr) \<Rightarrow> jsstr list \<Rightarrow> ps_script" where
  "powershell_script_arg pc utf16 [] = No_script"
| "powershell_script_arg pc utf16 (x # as) =
     (let a = lower_text pc x in
      if command_flag a then (if js_join [c_sp] as = [] then Unreadable_script else Script (js_join [c_sp] as))
      else if encoded_flag a then
        (case as of
           [] \<Rightarrow> Unreadable_script
         | b # _ \<Rightarrow>
             if b = [] \<or> \<not> list_all base64_unit b \<or> list_ex (\<lambda>c. c \<le> 8 \<or> c = 0xfffd) (utf16 b) then Unreadable_script else Script (utf16 b))
      else powershell_script_arg pc utf16 as)"

definition ps_statements :: "jsstr list" where
  "ps_statements = map js [''if'', ''elseif'', ''else'', ''foreach'', ''for'', ''while'', ''do'', ''until'', ''switch'', ''try'', ''catch'', ''finally'',
     ''trap'', ''begin'', ''process'', ''end'', ''clean'', ''dynamicparam'', ''param'', ''data'']"

definition ps_named :: "jsstr list" where
  "ps_named = map js [''function'', ''filter'', ''workflow'', ''configuration'', ''class'', ''enum'']"

definition ps_value :: "jsstr list" where
  "ps_value = map js [''return'', ''throw'', ''exit'', ''break'', ''continue'']"

text \<open>\<open>/\.Invoke\w*(?![\w-])/i\<close>.\<close>

fun invokes :: "jsstr \<Rightarrow> bool" where
  "invokes [] = False"
| "invokes (c # s) =
     ((starts_with (ascii_lower (c # s)) (js ''.invoke'') \<and> \<not> next_is c_minus (dropWhile name_unit (drop 6 s))) \<or> invokes s)"

definition block_parameter :: "jsstr \<Rightarrow> bool" where
  "block_parameter a \<longleftrightarrow> ascii_lower a \<in> set (map js [''-scriptblock'', ''-sb'', ''-filterscript'', ''-process'', ''-begin'', ''-end''])"

text \<open>A bracketed part \<open>\[[^\]]*\]\<close> at the start: the text after it.\<close>

definition after_bracket :: "jsstr \<Rightarrow> jsstr option" where
  "after_bracket s =
     (if next_is 91 s then (case dropWhile (\<lambda>c. c \<noteq> 93) s of [] \<Rightarrow> None | _ # r \<Rightarrow> Some r) else None)"

lemma after_bracket_shorter: "after_bracket s = Some r \<Longrightarrow> length r < length s"
  using length_dropWhile_le [of "\<lambda>c. c \<noteq> 93" s] by (auto simp: after_bracket_def split: if_splits list.splits)

definition skip_space :: "jsstr \<Rightarrow> jsstr" where
  "skip_space = dropWhile is_space"

lemma skip_space_le: "length (skip_space s) \<le> length s"
  by (simp add: skip_space_def length_dropWhile_le)

text \<open>The options and type filters after a keyword.\<close>

definition after_option :: "jsstr \<Rightarrow> jsstr option" where
  "after_option s =
     (case s of
        c # d # r \<Rightarrow> if c = c_minus \<and> name_unit d then Some (skip_space (dropWhile name_unit r)) else map_option skip_space (after_bracket s)
      | _ \<Rightarrow> map_option skip_space (after_bracket s))"

lemma after_option_shorter: "after_option s = Some r \<Longrightarrow> length r < length s"
proof -
  assume a: "after_option s = Some r"
  have b: "length r < length s" if "map_option skip_space (after_bracket s) = Some r"
    using that after_bracket_shorter [of s] skip_space_le by (auto intro: le_less_trans)
  show ?thesis
  proof (cases "map_option skip_space (after_bracket s) = Some r")
    case False
    then obtain c d t where s: "s = c # d # t" "r = skip_space (dropWhile name_unit t)"
      using a by (auto simp: after_option_def split: list.splits if_splits)
    have "length r \<le> length t" unfolding s(2) by (rule order_trans [OF skip_space_le length_dropWhile_le])
    then show ?thesis by (simp add: s(1))
  qed (rule b)
qed

function strip_ps_options :: "jsstr \<Rightarrow> jsstr" where
  "strip_ps_options s = (case after_option s of None \<Rightarrow> s | Some r \<Rightarrow> strip_ps_options r)"
  by pat_completeness auto
termination
  by (relation "measure length") (auto dest: after_option_shorter)

declare strip_ps_options.simps [simp del]

text \<open>The target and the operator of an assignment (\<open>PS_ASSIGNMENT\<close>): the text after it.\<close>

function skip_types :: "jsstr \<Rightarrow> jsstr" where
  "skip_types s =
     (case after_bracket s of
        None \<Rightarrow> s
      | Some r \<Rightarrow> if list_ex is_space (takeWhile (\<lambda>c. c \<noteq> 93) s) then s else skip_types (skip_space r))"
  by pat_completeness auto
termination
  by (relation "measure length") (use skip_space_le in \<open>auto dest: after_bracket_shorter intro: le_less_trans\<close>)

declare skip_types.simps [simp del]

function skip_accessors :: "jsstr \<Rightarrow> jsstr" where
  "skip_accessors s =
     (case s of
        c # d # r \<Rightarrow>
          if c = 46 \<and> name_unit d then skip_accessors (dropWhile name_unit r)
          else (case after_bracket s of None \<Rightarrow> s | Some u \<Rightarrow> skip_accessors u)
      | _ \<Rightarrow> s)"
  by pat_completeness auto
termination
  by (relation "measure length") (auto dest: after_bracket_shorter simp: less_Suc_eq_le length_dropWhile_le le_Suc_eq)

declare skip_accessors.simps [simp del]

definition variable_unit :: "nat \<Rightarrow> bool" where
  "variable_unit c \<longleftrightarrow> name_unit c \<or> c = 58 \<or> c = 63"

definition after_variable :: "jsstr \<Rightarrow> jsstr option" where
  "after_variable s =
     (case s of
        c # r \<Rightarrow>
          if c \<noteq> c_dollar then None
          else if next_is c_brace r then (case dropWhile (\<lambda>c. c \<noteq> c_unbrace) r of [] \<Rightarrow> None | _ # u \<Rightarrow> Some u)
          else if r \<noteq> [] \<and> variable_unit (hd r) then Some (dropWhile variable_unit r) else None
      | [] \<Rightarrow> None)"

definition after_equals :: "jsstr \<Rightarrow> jsstr option" where
  "after_equals s =
     (let r = (if s \<noteq> [] \<and> hd s \<in> set (js ''-+*/%'') then drop 1 s else if starts_with s (js ''??'') then drop 2 s else s) in
      case r of c # u \<Rightarrow> if c = c_eq \<and> \<not> next_is c_eq u then Some u else None | [] \<Rightarrow> None)"

definition ps_assignment :: "jsstr \<Rightarrow> jsstr option" where
  "ps_assignment t =
     (case after_variable (skip_types t) of None \<Rightarrow> None | Some r \<Rightarrow> after_equals (skip_space (skip_accessors r)))"

text \<open>\<open>/^\$\w+\s+in\s+/i\<close>: the collection a \<open>foreach\<close> reads.\<close>

definition ps_each :: "jsstr \<Rightarrow> jsstr option" where
  "ps_each t =
     (let r = drop 1 t; a = dropWhile name_unit r; b = skip_space a; d = drop 2 b in
      if next_is c_dollar t \<and> r \<noteq> [] \<and> name_unit (hd r) \<and> a \<noteq> [] \<and> is_space (hd a) \<and> ascii_lower (take 2 b) = js ''in'' \<and> d \<noteq> [] \<and> is_space (hd d)
      then Some (skip_space d) else None)"

datatype statement = Nothing_run | Unknown_run | Runs jsstr

definition ps_number :: "jsstr \<Rightarrow> bool" where
  "ps_number w \<longleftrightarrow> (let d = (if next_is c_minus w then drop 1 w else w) in d \<noteq> [] \<and> is_digit (hd d) \<and> list_all (\<lambda>c. is_digit c \<or> c = 46) d)"

text \<open>One turn of \<open>psStatement\<close>: the text to go on with (\<open>Inl\<close>), or what is run.\<close>

definition ps_turn :: "computer \<Rightarrow> jsstr \<Rightarrow> jsstr + statement" where
  "ps_turn pc t =
     (let word = takeWhile (\<lambda>c. \<not> is_space c) t; lower = lower_text pc word; after = js_trim (drop (length word) t) in
      case t of
        [] \<Rightarrow> Inr Nothing_run
      | c # r \<Rightarrow>
          if lower \<in> set ps_statements then Inl (strip_ps_options after)
          else if lower \<in> set ps_named then Inr Nothing_run
          else if lower \<in> set ps_value then Inl (if lower = js ''break'' \<or> lower = js ''continue'' then [] else after)
          else if c = c_amp \<or> (c = 46 \<and> r \<noteq> [] \<and> is_space (hd r)) then
            (let rest = js_trim r; target = takeWhile (\<lambda>c. \<not> is_space c) rest in
             if rest = [] then Inr Nothing_run
             else if next_is c_dollar (if next_is c_dq target \<or> next_is c_sq target then drop 1 target else target) \<or>
               (next_is c_dq target \<and> c_dollar \<in> set target) then Inr Unknown_run
             else Inr (Runs (if c = c_amp then rest else t)))
          else if c = c_dollar \<or> c = 91 then
            (case ps_assignment t of
               Some u \<Rightarrow> Inl (js_trim u)
             | None \<Rightarrow>
                 (case ps_each t of Some u \<Rightarrow> Inl u | None \<Rightarrow> Inr (if c = 91 then Runs t else Nothing_run)))
          else if c \<in> {c_dq, c_sq, 64} \<or> ps_number word then Inr Nothing_run
          else Inr (Runs t))"

fun ps_turns :: "computer \<Rightarrow> nat \<Rightarrow> jsstr \<Rightarrow> statement" where
  "ps_turns pc 0 t = Unknown_run"
| "ps_turns pc (Suc n) t = (case ps_turn pc t of Inl u \<Rightarrow> ps_turns pc n u | Inr r \<Rightarrow> r)"

definition ps_statement :: "computer \<Rightarrow> jsstr \<Rightarrow> statement" where
  "ps_statement pc text = (let t = js_trim text in if invokes t then Unknown_run else ps_turns pc 64 t)"

subsection \<open>Here-documents\<close>

record heredoc =
  hd_line :: nat
  hd_delim :: jsstr
  hd_dashed :: bool
  hd_shell :: bool
  hd_owner :: jsstr

definition strip_tabs :: "jsstr \<Rightarrow> jsstr" where
  "strip_tabs = dropWhile (\<lambda>c. c = 9)"

text \<open>Past a body and its terminator line: the text after it.\<close>

function skip_body :: "heredoc \<Rightarrow> jsstr \<Rightarrow> jsstr option" where
  "skip_body h s =
     (let line = takeWhile (\<lambda>c. c \<noteq> c_nl) s; r = dropWhile (\<lambda>c. c \<noteq> c_nl) s;
          text = (if line \<noteq> [] \<and> last line = 13 then butlast line else line) in
      if (if hd_dashed h then strip_tabs text else text) = hd_delim h then Some (drop 1 r)
      else if r = [] then None else skip_body h (drop 1 r))"
  by pat_completeness auto
termination
proof (relation "measure (\<lambda>(_, s). length s)", goal_cases)
  case (2 h s line r tx)
  then have "r \<noteq> []" "length r \<le> length s" using length_dropWhile_le [of "\<lambda>c. c \<noteq> c_nl" s] by simp_all
  then show ?case by (cases r) simp_all
qed simp

declare skip_body.simps [simp del]

fun skip_bodies :: "heredoc list \<Rightarrow> jsstr \<Rightarrow> jsstr option" where
  "skip_bodies [] s = Some s"
| "skip_bodies (h # hs) s = (case skip_body h s of None \<Rightarrow> None | Some r \<Rightarrow> skip_bodies hs r)"

record here_state =
  he_found :: "heredoc list"
  he_pending :: "heredoc list"
  he_stack :: "quoting list"
  he_quote :: quoting
  he_cmd :: jsstr
  he_line :: nat

definition delim_unit :: "nat \<Rightarrow> bool" where
  "delim_unit c \<longleftrightarrow> is_letter c \<or> is_digit c \<or> c \<in> set (js ''_./-'')"

text \<open>The opener after \<open><<\<close>: whether it is dashed, its delimiter, and how many characters it takes with the \<open><<\<close>. \<open>None\<close>: a quote that does not
  close on its line, and how many are taken then.\<close>

definition opener_at :: "jsstr \<Rightarrow> (bool \<times> jsstr) option \<times> nat" where
  "opener_at s =
     (let dashed = next_is c_minus s; s1 = (if dashed then drop 1 s else s); sp = takeWhile (\<lambda>c. c = c_sp \<or> c = 9) s1; s2 = drop (length sp) s1;
          n = 2 + (if dashed then 1 else 0) + length sp in
      case s2 of
        [] \<Rightarrow> (Some (dashed, []), n)
      | q # r \<Rightarrow>
          if q = c_sq \<or> q = c_dq then
            (case char_index q r of
               None \<Rightarrow> (None, n + 1)
             | Some k \<Rightarrow> if c_nl \<in> set (take k r) then (None, n + 1) else (Some (dashed, take k r), n + k + 2))
          else
            (let r' = (if q = c_bslash then r else q # r); delim = takeWhile delim_unit r' in
             (Some (dashed, delim), n + (if q = c_bslash then 1 else 0) + length delim)))"

definition he_eat :: "jsstr \<Rightarrow> here_state \<Rightarrow> here_state" where
  "he_eat t st = st\<lparr> he_cmd := he_cmd st @ t \<rparr>"

definition he_enter :: "quoting \<Rightarrow> here_state \<Rightarrow> here_state" where
  "he_enter q st = st\<lparr> he_stack := he_stack st @ [q], he_quote := Bare, he_cmd := [] \<rparr>"

definition he_opener :: "computer \<Rightarrow> bool \<Rightarrow> jsstr \<Rightarrow> here_state \<Rightarrow> here_state" where
  "he_opener pc dashed delim st =
     (let tokens = px_tokens (strip_prefixes pc (shell_words (he_cmd st)));
          prog = (case tokens of [] \<Rightarrow> [] | t # _ \<Rightarrow> canon_program pc t);
          h = \<lparr> hd_line = he_line st, hd_delim = delim, hd_dashed = dashed, hd_shell = (prog \<in> set shells), hd_owner = prog \<rparr> in
      st\<lparr> he_found := he_found st @ [h], he_pending := he_pending st @ [h] \<rparr>)"

definition newlines :: "jsstr \<Rightarrow> nat" where
  "newlines s = length (filter (\<lambda>c. c = c_nl) s)"

text \<open>One turn of \<open>findHeredocs\<close>. \<open>he_cmd\<close> is the text since \<open>cmdStart\<close>.\<close>

definition here_step :: "computer \<Rightarrow> here_state \<Rightarrow> nat option \<Rightarrow> nat \<Rightarrow> jsstr \<Rightarrow> here_state \<times> nat" where
  "here_step pc st prev c s =
     (if c = c_nl then
        (let st1 = st\<lparr> he_line := he_line st + 1 \<rparr> in
         if he_quote st \<noteq> Bare then (he_eat [c] st1, 1)
         else if he_pending st = [] then (st1\<lparr> he_cmd := [] \<rparr>, 1)
         else
           (let r = (case skip_bodies (he_pending st) s of None \<Rightarrow> s | Some r \<Rightarrow> r); k = length s - length r in
            (st1\<lparr> he_line := he_line st1 + newlines (take k s), he_pending := [], he_cmd := [] \<rparr>, k + 1)))
      else if he_quote st = Single then (he_eat [c] (if c = c_sq then st\<lparr> he_quote := Bare \<rparr> else st), 1)
      else if he_quote st = Double then
        (if c = c_bslash \<and> s \<noteq> [] then (he_eat (c # take 1 s) st, 2)
         else if c = c_dq then (he_eat [c] (st\<lparr> he_quote := Bare \<rparr>), 1)
         else if c = c_dollar \<and> next_is c_open s then (he_enter Double st, 2)
         else if c = c_tick then (he_enter Double st, 1)
         else (he_eat [c] st, 1))
      else if c = c_bslash \<and> s \<noteq> [] then (he_eat (c # take 1 s) st, 2)
      else if quote_of c \<noteq> Bare then (he_eat [c] (st\<lparr> he_quote := quote_of c \<rparr>), 1)
      else if c = c_dollar \<and> next_is c_open s then (he_enter Bare st, 2)
      else if c = c_tick \<or> c = c_open then (he_enter Bare st, 1)
      else if c = c_close then
        ((if he_stack st = [] then st else st\<lparr> he_quote := last (he_stack st), he_stack := butlast (he_stack st) \<rparr>)\<lparr> he_cmd := [] \<rparr>, 1)
      else if c = c_semi \<or> c = c_amp \<or> c = c_bar then (st\<lparr> he_cmd := [] \<rparr>, 1)
      else if c = c_lt \<and> next_is c_lt s then
        (if next_is c_lt (drop 1 s) then (he_eat (take 3 (c # s)) st, 3)
         else
           (case opener_at (drop 1 s) of
              (None, n) \<Rightarrow> (he_eat (take n (c # s)) st, n)
            | (Some (dashed, delim), n) \<Rightarrow> (he_eat (take n (c # s)) (if delim = [] then st else he_opener pc dashed delim st), n)))
      else (he_eat [c] st, 1))"

definition find_heredocs :: "computer \<Rightarrow> jsstr \<Rightarrow> heredoc list" where
  "find_heredocs pc src =
     he_found (scan (here_step pc) \<lparr> he_found = [], he_pending = [], he_stack = [], he_quote = Bare, he_cmd = [], he_line = 0 \<rparr> None src)"

record stripped =
  sh_lines :: "jsstr list"
  sh_scripts :: "jsstr list"
  sh_code :: "(jsstr \<times> jsstr) list"

definition body_text :: "heredoc \<Rightarrow> jsstr list \<Rightarrow> jsstr" where
  "body_text h ls = js_join [c_nl] (map (\<lambda>l. if hd_dashed h then strip_tabs l else l) ls)"

text \<open>The bodies of the openers of one line, in order: what is left of the lines after it, how many were skipped, and what was read.\<close>

fun take_bodies :: "heredoc list \<Rightarrow> jsstr list \<Rightarrow> nat \<Rightarrow> stripped \<Rightarrow> jsstr list \<times> nat \<times> stripped" where
  "take_bodies [] ls i acc = (ls, i, acc)"
| "take_bodies (h # hs) ls i acc =
     (case word_index (hd_delim h) (map (\<lambda>l. if hd_dashed h then strip_tabs l else l) ls) of
        None \<Rightarrow> take_bodies hs ls i acc
      | Some k \<Rightarrow>
          take_bodies hs (drop (k + 1) ls) (i + k + 1)
            (acc\<lparr> sh_scripts := sh_scripts acc @ (if hd_shell h then [body_text h (take k ls)] else []),
                sh_code := sh_code acc @ (if \<not> hd_shell h \<and> hd_owner h \<in> set interpreters then [(hd_owner h, body_text h (take k ls))] else []) \<rparr>))"

lemma take_bodies_shorter: "length (fst (take_bodies hs ls i acc)) \<le> length ls"
proof (induction hs arbitrary: ls i acc)
  case (Cons h hs)
  show ?case
  proof (cases "word_index (hd_delim h) (map (\<lambda>l. if hd_dashed h then strip_tabs l else l) ls)")
    case (Some k)
    have "length (fst (take_bodies hs (drop (k + 1) ls) j a)) \<le> length ls" for j a
      by (rule order_trans [OF Cons.IH]) simp
    then show ?thesis using Some by simp
  qed (simp add: Cons.IH)
qed simp

function strip_lines :: "heredoc list \<Rightarrow> nat \<Rightarrow> jsstr list \<Rightarrow> stripped \<Rightarrow> stripped" where
  "strip_lines hs i [] acc = acc"
| "strip_lines hs i (l # ls) acc =
     (let t = take_bodies (filter (\<lambda>h. hd_line h = i) hs) ls i (acc\<lparr> sh_lines := sh_lines acc @ [l] \<rparr>) in
      strip_lines hs (fst (snd t) + 1) (fst t) (snd (snd t)))"
  by pat_completeness auto
termination
  by (relation "measure (\<lambda>(_, _, ls, _). length ls)") (auto simp: less_Suc_eq_le take_bodies_shorter)

fun has_pair :: "nat \<Rightarrow> jsstr \<Rightarrow> bool" where
  "has_pair c [] = False"
| "has_pair c (d # s) = ((d = c \<and> next_is c s) \<or> has_pair c s)"

definition strip_heredocs :: "computer \<Rightarrow> jsstr \<Rightarrow> jsstr \<times> jsstr list \<times> (jsstr \<times> jsstr) list" where
  "strip_heredocs pc src =
     (let hs = (if has_pair c_lt src then find_heredocs pc src else []) in
      if hs = [] then (src, [], [])
      else
        (let r = strip_lines hs 0 (js_split c_nl src) \<lparr> sh_lines = [], sh_scripts = [], sh_code = [] \<rparr> in
         (js_join [c_nl] (sh_lines r), sh_scripts r, sh_code r)))"

end
