(* ===== verification/ShellDecompose.thy ===== *)
theory ShellDecompose
  imports ShellScripts
begin

section \<open>The commands of a command line\<close>

text \<open>
  \<open>decomposeShell\<close> of \<^verbatim>\<open>packages/hook/src/shell.ts\<close>: the simple commands a command line runs, with those of the scripts and the substitutions in
  it, read up to a depth of six. A text that cannot be read with confidence is one opaque command.
\<close>

record simple_command =
  sc_program :: jsstr
  sc_raw_program :: jsstr
  sc_argv :: "jsstr list"
  sc_redirects :: "redirect list"
  sc_raw :: jsstr
  sc_opaque :: bool
  sc_assigns :: "jsstr list option"
  sc_assign_only :: bool
  sc_describes :: bool
  sc_output_of :: "jsstr option"

definition plain_command :: "jsstr \<Rightarrow> jsstr \<Rightarrow> jsstr list \<Rightarrow> redirect list \<Rightarrow> jsstr \<Rightarrow> jsstr list option \<Rightarrow> simple_command" where
  "plain_command program raw_program argv redirects raw assigns =
     \<lparr> sc_program = program, sc_raw_program = raw_program, sc_argv = argv, sc_redirects = redirects, sc_raw = raw, sc_opaque = False,
       sc_assigns = assigns, sc_assign_only = False, sc_describes = False, sc_output_of = None \<rparr>"

definition opaque :: "jsstr \<Rightarrow> simple_command" where
  "opaque raw = (plain_command [] [] [] [] raw None)\<lparr> sc_opaque := True \<rparr>"

definition text_producers :: "jsstr list" where
  "text_producers = map js [''echo'', ''printf'', ''print'', ''yes'', ''seq'', ''date'', ''expr'', ''basename'', ''dirname'', ''realpath'', ''readlink'',
     ''printenv'', ''env'', ''getopt'', ''cat'', ''tac'', ''nl'', ''head'', ''tail'', ''sed'', ''gsed'', ''awk'', ''gawk'', ''mawk'', ''nawk'', ''perl'',
     ''tr'', ''rev'', ''cut'', ''paste'', ''join'', ''sort'', ''uniq'', ''comm'', ''column'', ''fold'', ''fmt'', ''pr'', ''expand'', ''unexpand'',
     ''tee'', ''grep'', ''egrep'', ''fgrep'', ''rg'', ''ag'', ''look'', ''strings'', ''od'', ''hexdump'', ''iconv'', ''envsubst'', ''m4'', ''xargs'',
     ''ls'', ''find'', ''stat'', ''du'', ''file'', ''base64'', ''gbase64'', ''base32'', ''basenc'', ''xxd'', ''uudecode'', ''openssl'', ''gzip'',
     ''gunzip'', ''zcat'', ''bzip2'', ''bunzip2'', ''bzcat'', ''xz'', ''unxz'', ''xzcat'', ''zstd'', ''zstdcat'', ''unzip'', ''tar'', ''bsdtar'',
     ''curl'', ''wget'', ''fetch'', ''nc'', ''ncat'', ''netcat'', ''socat'', ''telnet'', ''ssh'', ''jq'', ''yq'', ''gojq'', ''xq'', ''git'', ''cmd'',
     ''powershell'', ''pwsh'']"

definition plain_word :: "jsstr \<Rightarrow> bool" where
  "plain_word = list_all (\<lambda>c. name_unit c \<or> c \<in> set (js ''@%+=:,./~-''))"

definition output_runner :: "computer \<Rightarrow> jsstr \<Rightarrow> simple_command list \<Rightarrow> jsstr list \<Rightarrow> jsstr option" where
  "output_runner pc sub cs inh =
     (case cs of
        [c] \<Rightarrow>
          (let canon = canon_program pc (sc_program c) in
           if list_ex (\<lambda>u. u = c_dollar \<or> u = c_tick \<or> u = c_lt) sub then None
           else if sc_opaque c \<or> sc_assign_only c \<or> sc_program c = [] \<or>
             (case sc_assigns c of None \<Rightarrow> 0 | Some as \<Rightarrow> length as) \<noteq> length inh then None
           else if \<not> list_all plain_word (sc_raw_program c # sc_argv c) then None
           else if canon \<in> set text_producers then None
           else if (canon \<in> set interpreters \<or> (starts_with canon (js ''python'') \<and> list_all (\<lambda>u. is_digit u \<or> u = 46) (drop 6 canon))) \<and>
             list_ex inline_code (sc_argv c) then None
           else if canon \<in> set shells \<and> \<not> Option.is_none (shell_script_arg (sc_argv c)) then None
           else Some (sc_program c))
      | _ \<Rightarrow> None)"

text \<open>The reader of a nested script: its text, the assignments in force, and whether it is PowerShell.\<close>

type_synonym reader = "jsstr \<Rightarrow> jsstr list \<Rightarrow> bool \<Rightarrow> simple_command list"

definition nested :: "reader \<Rightarrow> jsstr list \<Rightarrow> jsstr option \<Rightarrow> simple_command list" where
  "nested rec assigns script = (case script of None \<Rightarrow> [] | Some s \<Rightarrow> if s = [] then [] else rec s assigns False)"

definition nested_powershell :: "reader \<Rightarrow> jsstr list \<Rightarrow> jsstr \<Rightarrow> simple_command list" where
  "nested_powershell rec assigns script = rec (powershell_text script) assigns True"

text \<open>What is known of the segment a command stands in.\<close>

record segment =
  sg_text :: jsstr
  sg_outer :: jsstr
  sg_inner :: "jsstr list"
  sg_inner_commands :: "simple_command list list"
  sg_processes :: "nat list"
  sg_prev :: jsstr
  sg_inherited :: "jsstr list"

definition input_count :: "jsstr \<Rightarrow> nat" where
  "input_count outer =
     length (filter (\<lambda>t. case t of Op o' \<Rightarrow> next_is c_lt (if next_is c_amp o' then drop 1 o' else o') | Word _ \<Rightarrow> False) (tokenize outer))"

definition output_of :: "computer \<Rightarrow> bool \<Rightarrow> segment \<Rightarrow> bool \<Rightarrow> jsstr list \<Rightarrow> redirect list \<Rightarrow> jsstr option" where
  "output_of pc ps sg process argv redirects =
     (case (sg_inner sg, sg_inner_commands sg) of
        ([t], [cs]) \<Rightarrow>
          if ps \<or> process \<noteq> (take 1 (sg_processes sg) = [0]) \<or> sg_prev sg = [c_bar] then None
          else if (if process then argv = [] \<and> redirects = [] \<and> input_count (sg_outer sg) = 1 else argv = [subst_mark] \<and> input_count (sg_outer sg) = 0)
          then output_runner pc t cs (sg_inherited sg) else None
      | _ \<Rightarrow> None)"

definition runs_output :: "segment \<Rightarrow> jsstr option \<Rightarrow> simple_command" where
  "runs_output sg from = (opaque (sg_text sg))\<lparr> sc_output_of := from \<rparr>"

definition command_prefix :: "jsstr \<Rightarrow> bool" where
  "command_prefix a \<longleftrightarrow> (let l = ascii_lower a in 2 \<le> length l \<and> l = take (length l) (js ''-command''))"

text \<open>What the program runs beside itself: the chain of \<open>if\<close>s on its name. \<open>src\<close> is the whole text, read at the top.\<close>

definition script_commands ::
  "computer \<Rightarrow> (jsstr \<Rightarrow> jsstr) \<Rightarrow> reader \<Rightarrow> bool \<Rightarrow> bool \<Rightarrow> jsstr \<Rightarrow> segment \<Rightarrow> jsstr list \<Rightarrow> jsstr \<Rightarrow> jsstr \<Rightarrow> jsstr list \<Rightarrow> redirect list \<Rightarrow>
     simple_command list" where
  "script_commands pc utf16 rec outmost ps src sg assigns program first argv redirects =
     (let canon = canon_program pc program; seg = sg_text sg in
      if canon \<in> set shells then
        nested rec assigns (shell_script_arg argv) @
        (if Option.is_none (shell_script_arg argv) \<and> list_all (next_is c_minus) argv \<and> \<not> list_ex (\<lambda>a. a = js ''--version'' \<or> a = js ''--help'') argv
         then [opaque seg] else [])
      else if canon \<in> set interpreters \<and> interpreter_reads_stdin argv \<and> outmost then [plain_command program first [js ''-e'', src] [] seg None]
      else if canon = js ''eval'' then
        (case output_of pc ps sg False argv redirects of
           Some from \<Rightarrow> [runs_output sg (Some from)]
         | None \<Rightarrow> nested rec assigns (Some (js_join [c_sp] argv)))
      else if \<not> ps \<and> (canon = js ''source'' \<or> canon = js ''.'') \<and> sg_processes sg \<noteq> [] then [runs_output sg (output_of pc ps sg True argv redirects)]
      else if canon = js ''iex'' \<or> canon = js ''invoke-expression'' then
        (let script = js_join [c_sp] (filter (\<lambda>a. \<not> command_prefix a) argv) in
         if js_trim script = [] then [opaque seg]
         else (if next_is c_dollar (js_trim script) then [opaque seg] else []) @ nested_powershell rec assigns script)
      else if canon = js ''trap'' then (if 2 \<le> length argv \<and> \<not> next_is c_minus (hd argv) then nested rec assigns (Some (hd argv)) else [])
      else if canon \<in> set (map js [''su'', ''runuser'', ''script'', ''flock'', ''sg'']) then
        (case command_option argv of
           Some s \<Rightarrow> if s = [] then nested rec assigns (if canon = js ''sg'' \<or> canon = js ''flock'' then Some (js_join [c_sp] (drop 1 (group_operands argv))) else None)
             else nested rec assigns (Some s)
         | None \<Rightarrow> nested rec assigns (if canon = js ''sg'' \<or> canon = js ''flock'' then Some (js_join [c_sp] (drop 1 (group_operands argv))) else None))
      else if canon = js ''watch'' then nested rec assigns (watch_command argv)
      else if canon = js ''parallel'' then nested rec assigns (parallel_command argv)
      else if canon = js ''cmd'' then
        (case cmd_script_arg argv of
           None \<Rightarrow> []
         | Some script \<Rightarrow> concat (map (\<lambda>p. (if cc_dynamic p then [opaque (cc_raw p)] else []) @ nested rec assigns (Some (cc_text p))) (cmd_commands script)))
      else if canon \<in> set powershells then
        (case powershell_script_arg pc utf16 argv of
           Unreadable_script \<Rightarrow> [opaque seg]
         | No_script \<Rightarrow> []
         | Script s \<Rightarrow> nested_powershell rec assigns s)
      else if canon = js ''find'' then concat (map (\<lambda>s. nested rec assigns (Some s)) (find_exec_commands argv))
      else [])"

definition wrapper_command :: "bool \<Rightarrow> segment \<Rightarrow> wrapper \<Rightarrow> simple_command" where
  "wrapper_command ps sg w =
     (plain_command (base_name (wr_raw w)) (wr_raw w) [] (wr_redirects w) (sg_text sg) (Some (sg_inherited sg)))\<lparr> sc_describes := (wr_describes w \<and> \<not> ps) \<rparr>"

fun hands_block :: "jsstr list \<Rightarrow> bool" where
  "hands_block (a # b # as) = ((block_parameter a \<and> next_is c_dollar b) \<or> hands_block (b # as))"
| "hands_block _ = False"

text \<open>The commands of one segment, after its substitutions.\<close>

definition segment_commands :: "computer \<Rightarrow> (jsstr \<Rightarrow> jsstr) \<Rightarrow> reader \<Rightarrow> bool \<Rightarrow> bool \<Rightarrow> jsstr \<Rightarrow> segment \<Rightarrow> simple_command list" where
  "segment_commands pc utf16 rec outmost ps src sg =
     (case split_redirects (tokenize (sg_outer sg)) of
        (words, redirects) \<Rightarrow>
          let px = strip_prefixes pc words; own = px_assigns px; assigns = sg_inherited sg @ own; seg = sg_text sg in
          map (wrapper_command ps sg) (px_wrappers px) @
          (case px_tokens px of
             [] \<Rightarrow>
               if redirects \<noteq> [] then [plain_command [] [] [] redirects seg (Some assigns)]
               else if own \<noteq> [] then [(plain_command [] [] [] [] seg (Some assigns))\<lparr> sc_assign_only := True \<rparr>]
               else []
           | first # argv \<Rightarrow>
               if is_dynamic_program first then [opaque seg]
               else
                 (let program = base_name first in
                  [(plain_command program first argv redirects seg (Some assigns))\<lparr> sc_describes := (\<not> ps \<and> describes_itself pc program argv) \<rparr>] @
                  (if ps \<and> hands_block argv then [opaque seg] else []) @
                  script_commands pc utf16 rec outmost ps src sg assigns program first argv redirects)))"

text \<open>One segment with its substitutions; under PowerShell, by its statement.\<close>

definition read_segment :: "computer \<Rightarrow> (jsstr \<Rightarrow> jsstr) \<Rightarrow> reader \<Rightarrow> bool \<Rightarrow> bool \<Rightarrow> jsstr \<Rightarrow> jsstr list \<Rightarrow> jsstr \<Rightarrow> jsstr \<Rightarrow> simple_command list" where
  "read_segment pc utf16 rec outmost ps src inh prev seg =
     (let x = extract_substitutions ps seg; inner = map (\<lambda>t. rec t inh ps) (ex_inner x);
          sg = \<lparr> sg_text = seg, sg_outer = ex_outer x, sg_inner = ex_inner x, sg_inner_commands = inner, sg_processes = ex_processes x, sg_prev = prev,
            sg_inherited = inh \<rparr> in
      concat inner @
      (if ps then
         (case ps_statement pc (ex_outer x) of
            Unknown_run \<Rightarrow> [opaque seg]
          | Nothing_run \<Rightarrow> [plain_command [] [] [] (snd (split_redirects (tokenize (ex_outer x)))) seg (Some inh)]
          | Runs t \<Rightarrow> segment_commands pc utf16 rec outmost ps src (sg\<lparr> sg_outer := t \<rparr>))
       else segment_commands pc utf16 rec outmost ps src sg))"

fun read_segments :: "(jsstr \<Rightarrow> jsstr \<Rightarrow> simple_command list) \<Rightarrow> jsstr \<Rightarrow> (jsstr \<times> jsstr) list \<Rightarrow> simple_command list" where
  "read_segments f prev [] = []"
| "read_segments f prev ((seg, sep) # ss) = f prev seg @ read_segments f sep ss"

definition heredoc_code :: "jsstr \<times> jsstr \<Rightarrow> simple_command" where
  "heredoc_code = (\<lambda>(program, body). plain_command program program [js ''-e'', body] [] (program @ js '' <<heredoc'') None)"

definition decompose_body :: "computer \<Rightarrow> (jsstr \<Rightarrow> jsstr) \<Rightarrow> reader \<Rightarrow> bool \<Rightarrow> reader" where
  "decompose_body pc utf16 rec outmost src inh ps =
     (case (if ps then (src, [], []) else strip_heredocs pc src) of
        (text, scripts, code) \<Rightarrow>
          let from_heredocs = concat (map (\<lambda>s. rec s inh False) scripts) @ map heredoc_code code in
          (case split_top_level ps text of
             (segments, unbalanced) \<Rightarrow>
               if unbalanced then opaque text # from_heredocs
               else
                 (let out = read_segments (read_segment pc utf16 rec outmost ps src inh) [] segments @ from_heredocs in
                  if list_ex (\<lambda>c. \<not> sc_assign_only c) out then out else out @ [opaque src])))"

text \<open>\<open>left\<close> is \<open>MAX_DEPTH + 1 - depth\<close>.\<close>

definition max_depth :: nat where "max_depth = 6"

fun decompose_at :: "computer \<Rightarrow> (jsstr \<Rightarrow> jsstr) \<Rightarrow> nat \<Rightarrow> reader" where
  "decompose_at pc utf16 0 command inh ps = (let src = js_trim command in if src = [] then [] else [opaque src])"
| "decompose_at pc utf16 (Suc left) command inh ps =
     (let src = js_trim command in
      if src = [] then [] else decompose_body pc utf16 (decompose_at pc utf16 left) (left = max_depth) src inh ps)"

definition decompose_shell :: "computer \<Rightarrow> (jsstr \<Rightarrow> jsstr) \<Rightarrow> jsstr \<Rightarrow> simple_command list" where
  "decompose_shell pc utf16 command = decompose_at pc utf16 (max_depth + 1) command [] False"

text \<open>A command line split at its separators, for readers that ask what feeds what.\<close>

definition split_command_line :: "computer \<Rightarrow> jsstr \<Rightarrow> (jsstr \<times> jsstr) list option" where
  "split_command_line pc command =
     (case split_top_level False (fst (strip_heredocs pc (js_trim command))) of (segments, unbalanced) \<Rightarrow> if unbalanced then None else Some segments)"

definition inline_powershell :: "computer \<Rightarrow> (jsstr \<Rightarrow> jsstr) \<Rightarrow> simple_command \<Rightarrow> jsstr option" where
  "inline_powershell pc utf16 c =
     (if sc_opaque c \<or> canon_program pc (sc_program c) \<notin> set powershells then None
      else (case powershell_script_arg pc utf16 (sc_argv c) of Script s \<Rightarrow> Some (powershell_text s) | _ \<Rightarrow> None))"

end
