(* ===== verification/GitPush.thy ===== *)
theory GitPush
  imports ShellDecompose
begin

section \<open>What a git push updates\<close>

text \<open>
  \<^verbatim>\<open>packages/hook/src/shell.ts\<close>: the arguments of a git command, the configuration its environment gives it, and the branches a push updates. A
  destination that cannot be read from the command is \<open>--unknown\<close>, which the branch rules refuse.
\<close>

subsection \<open>Configuration from the environment\<close>

definition ascii_upper :: "jsstr \<Rightarrow> jsstr" where
  "ascii_upper = map (\<lambda>c. if is_lower c then c - 32 else c)"

text \<open>The names \<open>isAssignment\<close> accepts are ASCII.\<close>

definition assignments_of :: "jsstr list \<Rightarrow> (jsstr \<times> jsstr) list" where
  "assignments_of ws =
     omap_of_list (concat (map (\<lambda>w. case char_index c_eq w of Some k \<Rightarrow> if 0 < k then [(ascii_upper (take k w), drop (k + 1) w)] else [] | None \<Rightarrow> []) ws))"

definition shown_value :: "jsstr option \<Rightarrow> bool" where
  "shown_value v = (case v of None \<Rightarrow> False | Some s \<Rightarrow> c_dollar \<notin> set s \<and> c_tick \<notin> set s)"

text \<open>\<open>/'([^']*)'/g\<close>.\<close>

function quoted_items :: "jsstr \<Rightarrow> jsstr list" where
  "quoted_items s =
     (case dropWhile (\<lambda>c. c \<noteq> c_sq) s of
        [] \<Rightarrow> []
      | _ # r \<Rightarrow> (case char_index c_sq r of None \<Rightarrow> [] | Some k \<Rightarrow> take k r # quoted_items (drop (k + 1) r)))"
  by pat_completeness auto
termination
proof (relation "measure length", goal_cases)
  case (2 s q r k)
  have "length (q # r) \<le> length s" using length_dropWhile_le [of "\<lambda>c. c \<noteq> c_sq" s] 2(1) by simp
  then show ?case by simp
qed simp

declare quoted_items.simps [simp del]

definition config_key_name :: "jsstr \<Rightarrow> bool" where
  "config_key_name n \<longleftrightarrow> starts_with n (js ''GIT_CONFIG_KEY_'') \<and> 15 < length n \<and> list_all is_digit (drop 15 n)"

definition include_path :: jsstr where
  "include_path = js ''include.path=''"

definition env_entry_configs :: "jsstr \<times> jsstr option \<Rightarrow> jsstr list" where
  "env_entry_configs = (\<lambda>(name, v).
     if config_key_name name then [if shown_value v then the v @ [c_eq] else include_path]
     else if name = js ''GIT_CONFIG_PARAMETERS'' then
       (let items = (if shown_value v then quoted_items (the v) else []) in
        if items \<noteq> [] then items else [if shown_value v then the v else include_path])
     else [])"

definition git_env_configs :: "(jsstr \<times> jsstr option) list \<Rightarrow> jsstr list" where
  "git_env_configs env =
     concat (map env_entry_configs env) @
     (if js ''GIT_CONFIG_COUNT'' \<in> fst ` set env \<and> \<not> list_ex (\<lambda>(n, _). config_key_name n) env then [include_path] else [])"

subsection \<open>The arguments of git\<close>

definition git_builtins :: "jsstr list" where
  "git_builtins = map js [''add'', ''am'', ''annotate'', ''apply'', ''archive'', ''bisect'', ''blame'', ''branch'', ''bugreport'', ''bundle'', ''cat-file'',
     ''check-attr'', ''check-ignore'', ''check-mailmap'', ''check-ref-format'', ''checkout'', ''checkout-index'', ''cherry'', ''cherry-pick'', ''citool'',
     ''clean'', ''clone'', ''column'', ''commit'', ''commit-graph'', ''commit-tree'', ''config'', ''count-objects'', ''credential'', ''describe'',
     ''diagnose'', ''diff'', ''diff-files'', ''diff-index'', ''diff-tree'', ''difftool'', ''fast-export'', ''fast-import'', ''fetch'', ''fetch-pack'',
     ''filter-branch'', ''fmt-merge-msg'', ''for-each-ref'', ''for-each-repo'', ''format-patch'', ''fsck'', ''gc'', ''get-tar-commit-id'', ''grep'',
     ''gui'', ''hash-object'', ''help'', ''index-pack'', ''init'', ''instaweb'', ''interpret-trailers'', ''log'', ''ls-files'', ''ls-remote'',
     ''ls-tree'', ''mailinfo'', ''mailsplit'', ''maintenance'', ''merge'', ''merge-base'', ''merge-file'', ''merge-index'', ''merge-tree'',
     ''mergetool'', ''mktag'', ''mktree'', ''multi-pack-index'', ''mv'', ''name-rev'', ''notes'', ''pack-objects'', ''pack-refs'', ''prune'',
     ''prune-packed'', ''pull'', ''push'', ''range-diff'', ''read-tree'', ''rebase'', ''reflog'', ''remote'', ''repack'', ''replace'', ''request-pull'',
     ''rerere'', ''reset'', ''restore'', ''rev-list'', ''rev-parse'', ''revert'', ''rm'', ''send-email'', ''shortlog'', ''show'', ''show-branch'',
     ''show-index'', ''show-ref'', ''sparse-checkout'', ''stash'', ''status'', ''stripspace'', ''submodule'', ''switch'', ''symbolic-ref'', ''tag'',
     ''unpack-file'', ''unpack-objects'', ''update-index'', ''update-ref'', ''update-server-info'', ''var'', ''verify-commit'', ''verify-pack'',
     ''verify-tag'', ''version'', ''whatchanged'', ''worktree'', ''write-tree'']"

definition git_extensions :: "jsstr list" where
  "git_extensions = map js [''lfs'', ''flow'']"

record git_call =
  gc_sub :: "jsstr option"
  gc_args :: "jsstr list"
  gc_configs :: "jsstr list"
  gc_dir :: "jsstr option"

definition rooted_dir :: "jsstr \<Rightarrow> bool" where
  "rooted_dir d \<longleftrightarrow> (case d of c # r \<Rightarrow> c = 47 \<or> c = c_bslash \<or> (is_letter c \<and> next_is 58 r) | [] \<Rightarrow> False)"

definition join_dir :: "jsstr option \<Rightarrow> jsstr \<Rightarrow> jsstr option" where
  "join_dir dir d = (case dir of None \<Rightarrow> Some d | Some p \<Rightarrow> if rooted_dir d then Some d else Some (p @ [47] @ d))"

text \<open>The options before the subcommand; an option's missing value is the empty text.\<close>

fun git_globals :: "jsstr list \<Rightarrow> jsstr list \<Rightarrow> jsstr option \<Rightarrow> git_call" where
  "git_globals [] configs dir = \<lparr> gc_sub = None, gc_args = [], gc_configs = configs, gc_dir = dir \<rparr>"
| "git_globals (t # ts) configs dir =
     (if t = js ''-c'' \<or> t = js ''--config-env'' then
        (case ts of [] \<Rightarrow> git_globals [] (configs @ [[]]) dir | v # us \<Rightarrow> git_globals us (configs @ [v]) dir)
      else if starts_with t (js ''--config-env='') then git_globals ts (configs @ [drop 13 t]) dir
      else if t = js ''-C'' then (case ts of [] \<Rightarrow> git_globals [] configs (join_dir dir []) | v # us \<Rightarrow> git_globals us configs (join_dir dir v))
      else if t \<in> set (map js [''--git-dir'', ''--work-tree'', ''--namespace'', ''--super-prefix'']) then (case ts of [] \<Rightarrow> git_globals [] configs dir | v # us \<Rightarrow> git_globals us configs dir)
      else if next_is c_minus t then git_globals ts configs dir
      else \<lparr> gc_sub = Some t, gc_args = ts, gc_configs = configs, gc_dir = dir \<rparr>)"

definition git_args :: "computer \<Rightarrow> simple_command \<Rightarrow> git_call option" where
  "git_args pc c =
     (if canon_program pc (sc_program c) \<noteq> js ''git'' then None
      else Some (git_globals (sc_argv c)
        (git_env_configs (map (\<lambda>(n, v). (n, Some v)) (assignments_of (case sc_assigns c of None \<Rightarrow> [] | Some as \<Rightarrow> as)))) None))"

subsection \<open>A push\<close>

record push_target =
  pt_ref :: "jsstr option"
  pt_force :: bool
  pt_del :: bool
  pt_all :: bool

record push =
  pu_force :: bool
  pu_remote :: "jsstr option"
  pu_ref :: "jsstr option"
  pu_targets :: "push_target list"

definition unknown_ref :: jsstr where
  "unknown_ref = js ''--unknown''"

definition strip_prefix :: "string \<Rightarrow> jsstr \<Rightarrow> jsstr" where
  "strip_prefix p s = (if starts_with s (js p) then drop (length p) s else s)"

definition canon_ref :: "jsstr \<Rightarrow> jsstr option" where
  "canon_ref dst =
     (let d = js_trim dst in
      if d = [] \<or> d = js ''HEAD'' \<or> d = js ''@'' then None else Some (strip_prefix ''heads/'' (strip_prefix ''refs/heads/'' d)))"

definition ends_key :: "jsstr \<Rightarrow> bool" where
  "ends_key s \<longleftrightarrow> s = [] \<or> next_is c_eq s"

fun push_key_tail :: "jsstr \<Rightarrow> bool" where
  "push_key_tail [] = False"
| "push_key_tail (c # s) =
     ((starts_with (c # s) (js ''.push'') \<and> ends_key (drop 4 s)) \<or> (starts_with (c # s) (js ''.pushurl'') \<and> ends_key (drop 7 s)) \<or>
      (\<not> line_terminator c \<and> push_key_tail s))"

definition alias_config :: "jsstr \<Rightarrow> bool" where
  "alias_config c \<longleftrightarrow> starts_with (ascii_lower c) (js ''alias.'')"

definition unshown_config :: "jsstr \<Rightarrow> bool" where
  "unshown_config c \<longleftrightarrow>
     (let l = ascii_lower c in (starts_with l (js ''include.path'') \<and> ends_key (drop 12 l)) \<or> starts_with l (js ''includeif.''))"

definition push_config :: "jsstr \<Rightarrow> bool" where
  "push_config c \<longleftrightarrow>
     (let l = ascii_lower c in
      (starts_with l (js ''remote.'') \<and> push_key_tail (drop 7 l)) \<or> (starts_with l (js ''push.default'') \<and> ends_key (drop 12 l)) \<or>
      (starts_with l (js ''remote.pushdefault'') \<and> ends_key (drop 18 l)))"

definition valued_push_option :: "jsstr \<Rightarrow> bool" where
  "valued_push_option t \<longleftrightarrow> t \<in> set (map js [''-o'', ''--push-option'', ''--receive-pack'', ''--exec''])"

text \<open>A rehearsal or a help page: an option that describes, before \<open>--\<close> and not as the value of another.\<close>

fun push_describes :: "jsstr list \<Rightarrow> bool" where
  "push_describes [] = False"
| "push_describes [t] = (t \<noteq> js ''--'' \<and> \<not> (valued_push_option t \<or> t = js ''--repo'') \<and> is_describe_option t \<and> t \<noteq> js ''--version'')"
| "push_describes (t # u # ts) =
     (if t = js ''--'' then False
      else if valued_push_option t \<or> t = js ''--repo'' then push_describes ts
      else (is_describe_option t \<and> t \<noteq> js ''--version'') \<or> push_describes (u # ts))"

record push_state =
  ps_force :: bool
  ps_everything :: "jsstr option"
  ps_tags :: bool
  ps_del :: bool
  ps_repo :: "jsstr option"
  ps_positional :: "jsstr list"

text \<open>A cluster of short options that holds the letter \<open>c\<close>.\<close>

definition short_option :: "nat \<Rightarrow> jsstr \<Rightarrow> bool" where
  "short_option c t \<longleftrightarrow> (case t of d # r \<Rightarrow> d = c_minus \<and> r \<noteq> [] \<and> list_all is_letter r \<and> c \<in> set r | [] \<Rightarrow> False)"

definition force_option :: "jsstr \<Rightarrow> bool" where
  "force_option t \<longleftrightarrow>
     t \<in> set (map js [''--force'', ''--force-with-lease'', ''--force-if-includes'']) \<or> starts_with t (js ''--force-with-lease='') \<or> short_option 102 t"

fun push_words :: "jsstr list \<Rightarrow> push_state \<Rightarrow> push_state" where
  "push_words [] st = st"
| "push_words (t # ts) st =
     (if force_option t then push_words ts (st\<lparr> ps_force := True \<rparr>)
      else if t = js ''--delete'' \<or> short_option 100 t then push_words ts (st\<lparr> ps_del := True \<rparr>)
      else if t \<in> set (map js [''--all'', ''--mirror'', ''--branches'']) then
        push_words ts (st\<lparr> ps_everything := Some t, ps_force := (ps_force st \<or> t = js ''--mirror'') \<rparr>)
      else if t = js ''--tags'' then push_words ts (st\<lparr> ps_tags := True \<rparr>)
      else if t = js ''--repo'' then (case ts of [] \<Rightarrow> st\<lparr> ps_repo := None \<rparr> | r # us \<Rightarrow> push_words us (st\<lparr> ps_repo := Some r \<rparr>))
      else if starts_with t (js ''--repo='') then push_words ts (st\<lparr> ps_repo := Some (drop 7 t) \<rparr>)
      else if valued_push_option t then (case ts of [] \<Rightarrow> st | _ # us \<Rightarrow> push_words us st)
      else if next_is c_minus t then push_words ts st
      else push_words ts (st\<lparr> ps_positional := ps_positional st @ [t] \<rparr>))"

definition unresolved :: "jsstr \<Rightarrow> bool" where
  "unresolved dst \<longleftrightarrow> list_ex (\<lambda>c. c \<in> set (js ''$*?[]{}'') \<or> c = c_tick) dst"

definition spec_target :: "bool \<Rightarrow> bool \<Rightarrow> jsstr \<Rightarrow> push_target" where
  "spec_target force del spec =
     (let plus = next_is 43 spec; s = (if plus then drop 1 spec else spec); colon = char_index 58 s;
          dst = (case colon of None \<Rightarrow> s | Some k \<Rightarrow> if drop (k + 1) s \<noteq> [] then drop (k + 1) s else take k s) in
      \<lparr> pt_ref = (if unresolved dst then Some unknown_ref else canon_ref (if next_is 43 dst then drop 1 dst else dst)),
        pt_force = (force \<or> plus \<or> next_is 43 dst), pt_del = (del \<or> colon = Some 0), pt_all = False \<rparr>)"

definition current_target :: "bool \<Rightarrow> bool \<Rightarrow> push_target" where
  "current_target force del = \<lparr> pt_ref = None, pt_force = force, pt_del = del, pt_all = False \<rparr>"

definition unknown_push :: push where
  "unknown_push = \<lparr> pu_force = False, pu_remote = None, pu_ref = Some unknown_ref,
     pu_targets = [\<lparr> pt_ref = Some unknown_ref, pt_force = False, pt_del = False, pt_all = False \<rparr>] \<rparr>"

definition push_specs :: "push_state \<Rightarrow> jsstr list" where
  "push_specs st = (case ps_repo st of Some _ \<Rightarrow> ps_positional st | None \<Rightarrow> drop 1 (ps_positional st))"

definition push_targets :: "push_state \<Rightarrow> push_target list" where
  "push_targets st =
     (let ts = (case ps_everything st of
                  Some x \<Rightarrow> [\<lparr> pt_ref = Some x, pt_force = ps_force st, pt_del = (x = js ''--mirror''), pt_all = True \<rparr>] | None \<Rightarrow> [])
               @ map (spec_target (ps_force st) (ps_del st)) (push_specs st)
               @ (if \<not> Option.is_none (ps_repo st) \<and> length (ps_positional st) \<le> 1 \<and> Option.is_none (ps_everything st) \<and> \<not> ps_tags st
                  then [current_target (ps_force st) (ps_del st)] else []) in
      if ts \<noteq> [] then ts
      else [if ps_tags st then \<lparr> pt_ref = Some (js ''--tags''), pt_force = ps_force st, pt_del = False, pt_all = False \<rparr>
            else current_target (ps_force st) (ps_del st)])"

definition parse_git_push :: "computer \<Rightarrow> simple_command \<Rightarrow> jsstr list \<Rightarrow> push option" where
  "parse_git_push pc cmd line_configs =
     (case git_args pc cmd of
        None \<Rightarrow> None
      | Some g \<Rightarrow>
          let configs = gc_configs g @ line_configs; sub = map_option (lower_text pc) (gc_sub g);
              aliasable = (case sub of None \<Rightarrow> False | Some s \<Rightarrow> s \<notin> set git_builtins);
              unshown = list_ex unshown_config configs;
              may_be_alias = unshown \<and> aliasable \<and> the sub \<notin> set git_extensions;
              low_level = gc_sub g = Some (js ''send-pack'') \<or> gc_sub g = Some (js ''http-push'') \<or> (gc_sub g = Some (js ''subtree'') \<and> js ''push'' \<in> set (gc_args g)) in
          if (aliasable \<and> list_ex alias_config configs) \<or> may_be_alias \<or> low_level then Some unknown_push
          else if gc_sub g \<noteq> Some (js ''push'') then None
          else if push_describes (gc_args g) then None
          else
            (let st = push_words (gc_args g)
                   \<lparr> ps_force = False, ps_everything = None, ps_tags = False, ps_del = False, ps_repo = None, ps_positional = [] \<rparr> in
             if (unshown \<or> list_ex push_config configs) \<and> push_specs st = [] \<and> Option.is_none (ps_everything st) \<and> \<not> ps_tags st then Some unknown_push
             else
               (let targets = push_targets st in
                Some \<lparr> pu_force = list_ex pt_force targets,
                  pu_remote = (case ps_repo st of Some r \<Rightarrow> Some r | None \<Rightarrow> (case ps_positional st of [] \<Rightarrow> None | p # _ \<Rightarrow> Some p)),
                  pu_ref = pt_ref (hd targets), pu_targets = targets \<rparr>)))"

end
