(* ===== verification/ShellWords.thy ===== *)
theory ShellWords
  imports ShellText
begin

section \<open>Words that stay words\<close>

text \<open>
  What the readers of \<open>ShellText\<close> do with a word spelled by \<open>posix_word\<close>. The three loops treat quotes alike, which the locale states:
  what a turn does at a plain character, at a single quote, inside single quotes and at an escaped quote.
\<close>

locale word_reader =
  fixes turn :: "'s \<Rightarrow> nat option \<Rightarrow> nat \<Rightarrow> jsstr \<Rightarrow> 's \<times> nat"
    and bare :: "'s \<Rightarrow> bool" and single :: "'s \<Rightarrow> bool"
    and enter :: "'s \<Rightarrow> 's" and leave :: "'s \<Rightarrow> 's" and lit :: "nat \<Rightarrow> 's \<Rightarrow> 's" and esc :: "'s \<Rightarrow> 's"
  assumes at_plain: "bare st \<Longrightarrow> plain_unit c \<Longrightarrow> turn st p c s = (lit c st, 1)"
    and at_quote: "bare st \<Longrightarrow> turn st p c_sq s = (enter st, 1)"
    and inside: "single st \<Longrightarrow> c \<noteq> c_sq \<Longrightarrow> turn st p c s = (lit c st, 1)"
    and at_close: "single st \<Longrightarrow> turn st p c_sq s = (leave st, 1)"
    and at_escape: "bare st \<Longrightarrow> turn st p c_bslash (c_sq # s) = (esc st, 2)"
    and bare_lit: "bare st \<Longrightarrow> bare (lit c st)" and single_lit: "single st \<Longrightarrow> single (lit c st)"
    and single_enter: "bare st \<Longrightarrow> single (enter st)" and bare_leave: "single st \<Longrightarrow> bare (leave st)" and bare_esc: "bare st \<Longrightarrow> bare (esc st)"
begin

definition quoted_effect :: "jsstr \<Rightarrow> 's \<Rightarrow> 's" where
  "quoted_effect w st = fold (\<lambda>c st. if c = c_sq then enter (esc (leave st)) else lit c st) w st"

lemma scan_plain: "bare st \<Longrightarrow> list_all plain_unit w \<Longrightarrow> w \<noteq> [] \<Longrightarrow>
    \<exists>q. plain_unit q \<and> scan turn st p (w @ s) = scan turn (fold lit w st) (Some q) s"
proof (induction w arbitrary: st p)
  case (Cons c w)
  have step: "scan turn st p ((c # w) @ s) = scan turn (lit c st) (Some c) (w @ s)" using Cons.prems by (simp add: at_plain)
  show ?case
  proof (cases "w = []")
    case True
    then show ?thesis using step Cons.prems by (intro exI [of _ c]) simp
  next
    case False
    then show ?thesis using step Cons.IH [of "lit c st" "Some c"] Cons.prems by (simp add: bare_lit)
  qed
qed simp

lemma scan_escaped: "single st \<Longrightarrow> scan turn st p ([c_sq, c_bslash, c_sq, c_sq] @ r) = scan turn (enter (esc (leave st))) (Some c_sq) r"
  by (simp add: at_close at_escape at_quote bare_leave bare_esc)

lemma scan_inside: "single st \<Longrightarrow>
    scan turn st p (quoted_text w @ [c_sq] @ s) = scan turn (leave (quoted_effect w st)) (Some c_sq) s \<and> single (quoted_effect w st)"
proof (induction w arbitrary: st p)
  case Nil
  then show ?case by (simp add: quoted_effect_def quoted_text_def at_close)
next
  case (Cons c w)
  show ?case
  proof (cases "c = c_sq")
    case True
    have "quoted_text (c # w) @ [c_sq] @ s = [c_sq, c_bslash, c_sq, c_sq] @ (quoted_text w @ [c_sq] @ s)" using True by (simp add: quoted_text_def)
    then have "scan turn st p (quoted_text (c # w) @ [c_sq] @ s) = scan turn (enter (esc (leave st))) (Some c_sq) (quoted_text w @ [c_sq] @ s)"
      by (simp only: scan_escaped [OF Cons.prems])
    then show ?thesis using True Cons.IH [of "enter (esc (leave st))" "Some c_sq"] Cons.prems
      by (simp add: quoted_effect_def single_enter bare_leave bare_esc)
  next
    case False
    then show ?thesis using Cons.IH [of "lit c st" "Some c"] Cons.prems by (simp add: quoted_effect_def quoted_text_def inside single_lit)
  qed
qed

lemma quoted_effect_put:
  assumes "\<And>x. put [] x = x" and "\<And>x c v. single x \<Longrightarrow> put v (if c = c_sq then enter (esc (leave x)) else lit c x) = put (c # v) x"
  shows "single x \<Longrightarrow> quoted_effect v x = put v x"
proof (induction v arbitrary: x)
  case Nil
  then show ?case by (simp add: quoted_effect_def assms(1))
next
  case (Cons c v)
  let ?y = "if c = c_sq then enter (esc (leave x)) else lit c x"
  have "single ?y" using Cons.prems by (simp add: single_enter bare_leave bare_esc single_lit)
  then have "quoted_effect v ?y = put v ?y" by (rule Cons.IH)
  then show ?case using assms(2) [OF Cons.prems, of v c] by (simp add: quoted_effect_def)
qed

definition word_effect :: "bool \<Rightarrow> jsstr \<Rightarrow> 's \<Rightarrow> 's" where
  "word_effect first w st =
     (if w \<noteq> [] \<and> list_all plain_unit w \<and> \<not> (first \<and> c_eq \<in> set w) then fold lit w st else leave (quoted_effect w (enter st)))"

lemma scan_word: "bare st \<Longrightarrow>
    \<exists>q. (plain_unit q \<or> q = c_sq) \<and> scan turn st p (posix_word first w @ s) = scan turn (word_effect first w st) (Some q) s"
  using scan_plain [of st w p s] scan_inside [of "enter st" "Some c_sq" w s]
  by (auto simp: posix_word_def word_effect_def at_quote single_enter)

lemma bare_word: "bare st \<Longrightarrow> bare (word_effect first w st)"
proof -
  assume b: "bare st"
  have "bare (fold lit v x)" if "bare x" for v x using that by (induction v arbitrary: x) (simp_all add: bare_lit)
  moreover have "single (quoted_effect v x)" if "single x" for v x using scan_inside [OF that] by blast
  ultimately show ?thesis using b by (simp add: word_effect_def single_enter bare_leave)
qed

end

text \<open>Words joined by spaces: the same for a reader that knows what a space does.\<close>

definition tail_text :: "jsstr list \<Rightarrow> jsstr" where
  "tail_text ws = concat (map (\<lambda>w. c_sp # posix_word False w) ws)"

lemma tail_text_simps: "tail_text [] = []" "tail_text (w # ws) = c_sp # posix_word False w @ tail_text ws"
  by (simp_all add: tail_text_def)

lemma posix_text_Cons: "posix_text (w # ws) = posix_word True w @ tail_text ws"
proof -
  have "js_join [c_sp] (v # map (posix_word False) ws) = v @ tail_text ws" for v
    by (induction ws arbitrary: v) (simp_all add: tail_text_def)
  then show ?thesis by (simp add: posix_text_def)
qed

definition word_end :: "nat \<Rightarrow> bool" where
  "word_end q \<longleftrightarrow> plain_unit q \<or> q = c_sq"

lemma scan_one: "turn st p c s = (st', 1) \<Longrightarrow> scan turn st p (c # s) = scan turn st' (Some c) s"
  by simp

locale text_reader = word_reader +
  fixes space :: "'a \<Rightarrow> 'a"
  assumes at_space: "bare st \<Longrightarrow> turn st p c_sp s = (space st, 1)" and bare_space: "bare st \<Longrightarrow> bare (space st)"
begin

definition tail_effect :: "jsstr list \<Rightarrow> 'a \<Rightarrow> 'a" where
  "tail_effect ws st = fold (\<lambda>w st. word_effect False w (space st)) ws st"

lemma scan_tail: "bare st \<Longrightarrow> word_end q \<Longrightarrow>
    \<exists>q'. word_end q' \<and> scan turn st (Some q) (tail_text ws @ s) = scan turn (tail_effect ws st) (Some q') s \<and> bare (tail_effect ws st)"
proof (induction ws arbitrary: st q)
  case Nil
  then show ?case by (auto simp: tail_text_def tail_effect_def)
next
  case (Cons w ws)
  let ?st = "word_effect False w (space st)"
  note sp = bare_space [OF Cons.prems(1)]
  obtain q1 where q1: "word_end q1" "scan turn (space st) (Some c_sp) (posix_word False w @ tail_text ws @ s) = scan turn ?st (Some q1) (tail_text ws @ s)"
    using scan_word [OF sp, of "Some c_sp" False w "tail_text ws @ s"] by (auto simp: word_end_def)
  obtain q2 where q2: "word_end q2" "scan turn ?st (Some q1) (tail_text ws @ s) = scan turn (tail_effect ws ?st) (Some q2) s" "bare (tail_effect ws ?st)"
    using Cons.IH [OF bare_word [OF sp] q1(1)] by blast
  have e: "tail_effect (w # ws) st = tail_effect ws ?st" by (simp add: tail_effect_def)
  have t: "tail_text (w # ws) @ s = c_sp # posix_word False w @ tail_text ws @ s" by (simp add: tail_text_simps)
  have "scan turn st (Some q) (c_sp # r) = scan turn (space st) (Some c_sp) r" for r
    by (rule scan_one) (rule at_space [OF Cons.prems(1)])
  then have "scan turn st (Some q) (tail_text (w # ws) @ s) = scan turn (tail_effect ws ?st) (Some q2) s"
    unfolding t by (simp only: q1(2) q2(2))
  then show ?case using q2(1,3) unfolding e by blast
qed

lemma tail_effect_put:
  assumes "\<And>x. put [] x = x" and "\<And>x w vs. bare x \<Longrightarrow> put vs (word_effect False w (space x)) = put (w # vs) x"
  shows "bare x \<Longrightarrow> tail_effect vs x = put vs x"
proof (induction vs arbitrary: x)
  case Nil
  then show ?case by (simp add: tail_effect_def assms(1))
next
  case (Cons w vs)
  from Cons.IH [OF bare_word [OF bare_space [OF Cons.prems]]] assms(2) [OF Cons.prems, of vs w] show ?case by (simp add: tail_effect_def)
qed

definition text_effect :: "jsstr list \<Rightarrow> 'a \<Rightarrow> 'a" where
  "text_effect ws st = (case ws of [] \<Rightarrow> st | w # vs \<Rightarrow> tail_effect vs (word_effect True w st))"

lemma scan_text:
  assumes "bare st" "ws \<noteq> []"
  shows "\<exists>q. word_end q \<and> scan turn st p (posix_text ws @ s) = scan turn (text_effect ws st) (Some q) s \<and> bare (text_effect ws st)"
proof -
  obtain w vs where w: "ws = w # vs" using assms(2) by (cases ws) auto
  obtain q where q: "word_end q" "scan turn st p (posix_word True w @ tail_text vs @ s) = scan turn (word_effect True w st) (Some q) (tail_text vs @ s)"
    using scan_word [OF assms(1), of p True w "tail_text vs @ s"] by (auto simp: word_end_def)
  have t: "posix_text ws @ s = posix_word True w @ tail_text vs @ s" and e: "text_effect ws st = tail_effect vs (word_effect True w st)"
    by (simp_all add: w posix_text_Cons text_effect_def)
  from scan_tail [OF bare_word [OF assms(1)] q(1)] show ?thesis unfolding t e q(2) .
qed

end

subsection \<open>The three readers\<close>

lemma plain_units:
  assumes "plain_unit c"
  shows "quote_of c = Bare" "\<not> is_space c" "c \<notin> {c_tick, c_dollar, c_bslash, c_open, c_close, c_brace, c_lt, c_gt, c_hash, c_amp, c_bar, c_semi, c_nl, c_sq, c_dq, c_sp}"
  using assms by (auto simp: plain_unit_def quote_of_def is_space_def is_letter_def is_lower_def is_upper_def is_digit_def js_def)

lemma space_sp: "is_space c_sp" "is_space c_nl"
  by (simp_all add: is_space_def)

interpretation tw: text_reader token_step "\<lambda>st. tk_quote st = Bare" "\<lambda>st. tk_quote st = Single"
  "\<lambda>st. st\<lparr> tk_quote := Single, tk_has := True \<rparr>" "\<lambda>st. st\<lparr> tk_quote := Bare, tk_has := True \<rparr>" "\<lambda>c. tk_add [c]" "tk_add [c_sq]" tk_push
  by unfold_locales (auto simp: token_step_def tk_add_def tk_push_def quote_of_def plain_units(2) space_sp dest: plain_units(1,3))

definition open_text :: "split_state \<Rightarrow> bool" where
  "open_text st \<longleftrightarrow> ss_paren st = 0 \<and> \<not> ss_tick st \<and> \<not> ss_open st"

interpretation sw: text_reader "split_step False" "\<lambda>st. ss_quote st = Bare \<and> open_text st" "\<lambda>st. ss_quote st = Single \<and> open_text st"
  "\<lambda>st. add_text [c_sq] (st\<lparr> ss_quote := Single \<rparr>)" "\<lambda>st. add_text [c_sq] (st\<lparr> ss_quote := Bare \<rparr>)" "\<lambda>c. add_text [c]" "add_text [c_bslash, c_sq]" "add_text [c_sp]"
  by unfold_locales (auto simp: split_step_def add_text_def quote_of_def open_text_def dest: plain_units(1,3))

interpretation xw: text_reader "extract_step False" "\<lambda>x. ex_quote x = Bare" "\<lambda>x. ex_quote x = Single"
  "\<lambda>x. add_outer [c_sq] (x\<lparr> ex_quote := Single \<rparr>)" "\<lambda>x. add_outer [c_sq] (x\<lparr> ex_quote := Bare \<rparr>)" "\<lambda>c. add_outer [c]" "add_outer [c_bslash, c_sq]" "add_outer [c_sp]"
  by unfold_locales (auto simp: extract_step_def add_outer_def quote_of_def dest: plain_units(1,3))

lemma fold_tk_add: "fold (\<lambda>c. tk_add [c]) w st = (if w = [] then st else tk_add w st)"
  by (induction w arbitrary: st) (simp_all add: tk_add_def)

lemma token_word:
  assumes "tk_quote st = Bare" shows "tw.word_effect first w st = tk_add w st"
proof -
  have q: "tw.quoted_effect w x = (if w = [] then x else tk_add w x)" if "tk_quote x = Single" for x
    by (rule tw.quoted_effect_put [where put = "\<lambda>v x. if v = [] then x else tk_add v x", OF _ _ that]) (auto simp: tk_add_def)
  show ?thesis unfolding tw.word_effect_def fold_tk_add using q [of "st\<lparr> tk_quote := Single, tk_has := True \<rparr>"] assms
    by (auto simp: tk_add_def)
qed

lemma fold_add_text: "fold (\<lambda>c. add_text [c]) w st = add_text w st"
  by (induction w arbitrary: st) (simp_all add: add_text_def)

lemma split_word:
  assumes "ss_quote st = Bare" "open_text st" shows "sw.word_effect first w st = add_text (posix_word first w) st"
proof -
  have q: "sw.quoted_effect w x = add_text (quoted_text w) x" if "ss_quote x = Single \<and> open_text x" for x
    by (rule sw.quoted_effect_put [where put = "\<lambda>v. add_text (quoted_text v)", OF _ _ that]) (auto simp: add_text_def quoted_text_def)
  have "ss_quote (add_text [c_sq] (st\<lparr> ss_quote := Single \<rparr>)) = Single \<and> open_text (add_text [c_sq] (st\<lparr> ss_quote := Single \<rparr>))"
    using assms by (simp add: add_text_def open_text_def)
  from q [OF this] show ?thesis unfolding sw.word_effect_def fold_add_text using assms by (auto simp: posix_word_def add_text_def)
qed

lemma fold_add_outer: "fold (\<lambda>c. add_outer [c]) w x = add_outer w x"
  by (induction w arbitrary: x) (simp_all add: add_outer_def)

lemma extract_word:
  assumes "ex_quote x = Bare" shows "xw.word_effect first w x = add_outer (posix_word first w) x"
proof -
  have q: "xw.quoted_effect w y = add_outer (quoted_text w) y" if "ex_quote y = Single" for y
    by (rule xw.quoted_effect_put [where put = "\<lambda>v. add_outer (quoted_text v)", OF _ _ that]) (auto simp: add_outer_def quoted_text_def)
  have "ex_quote (add_outer [c_sq] (x\<lparr> ex_quote := Single \<rparr>)) = Single" by (simp add: add_outer_def)
  from q [OF this] show ?thesis unfolding xw.word_effect_def fold_add_outer using assms by (auto simp: posix_word_def add_outer_def)
qed

lemma split_text:
  assumes b: "ss_quote st = Bare" "open_text st" and ws: "ws \<noteq> []"
  shows "sw.text_effect ws st = add_text (posix_text ws) st"
proof -
  have t: "sw.tail_effect vs x = add_text (tail_text vs) x" if "ss_quote x = Bare \<and> open_text x" for vs x
  proof (rule sw.tail_effect_put [where put = "\<lambda>vs. add_text (tail_text vs)", OF _ _ that])
    fix y w us assume y: "ss_quote y = Bare \<and> open_text y"
    then have "ss_quote (add_text [c_sp] y) = Bare" "open_text (add_text [c_sp] y)" by (simp_all add: add_text_def open_text_def)
    from split_word [OF this, of False w] show "add_text (tail_text us) (sw.word_effect False w (add_text [c_sp] y)) = add_text (tail_text (w # us)) y"
      by (simp only:) (simp add: add_text_def tail_text_simps)
  qed (simp add: add_text_def tail_text_simps)
  obtain w vs where w: "ws = w # vs" using ws by (cases ws) auto
  have "ss_quote (add_text (posix_word True w) st) = Bare \<and> open_text (add_text (posix_word True w) st)" using b by (simp add: add_text_def open_text_def)
  from t [OF this, of vs] show ?thesis unfolding w sw.text_effect_def list.case split_word [OF b] by (simp only:) (simp add: posix_text_Cons add_text_def)
qed

lemma extract_text:
  assumes b: "ex_quote x = Bare" and ws: "ws \<noteq> []"
  shows "xw.text_effect ws x = add_outer (posix_text ws) x"
proof -
  have t: "xw.tail_effect vs y = add_outer (tail_text vs) y" if "ex_quote y = Bare" for vs and y :: extracted
  proof (rule xw.tail_effect_put [where put = "\<lambda>vs. add_outer (tail_text vs)", OF _ _ that])
    fix y :: extracted and w us assume "ex_quote y = Bare"
    then have "ex_quote (add_outer [c_sp] y) = Bare" by (simp add: add_outer_def)
    from extract_word [OF this, of False w] show "add_outer (tail_text us) (xw.word_effect False w (add_outer [c_sp] y)) = add_outer (tail_text (w # us)) y"
      by (simp only:) (simp add: add_outer_def tail_text_simps)
  qed (simp add: add_outer_def tail_text_simps)
  obtain w vs where w: "ws = w # vs" using ws by (cases ws) auto
  have "ex_quote (add_outer (posix_word True w) x) = Bare" using b by (simp add: add_outer_def)
  from t [OF this, of vs] show ?thesis unfolding w xw.text_effect_def list.case extract_word [OF b] by (simp only:) (simp add: posix_text_Cons add_outer_def)
qed

lemma token_text:
  assumes b: "tk_quote st = Bare" "\<not> tk_has st" "tk_cur st = []" and ws: "ws \<noteq> []"
  shows "tk_push (tw.text_effect ws st) = st\<lparr> tk_out := tk_out st @ map Word ws \<rparr>"
proof -
  have t: "tk_push (tw.tail_effect vs x) = tk_push x \<lparr> tk_out := tk_out (tk_push x) @ map Word vs \<rparr>" if "tk_quote x = Bare" "tk_has x" for vs and x :: token_state
    using that
  proof (induction vs arbitrary: x)
    case (Cons w vs)
    have q: "tk_quote (tk_push x) = Bare" using Cons.prems by (simp add: tk_push_def)
    have e: "tw.tail_effect (w # vs) x = tw.tail_effect vs (tk_add w (tk_push x))" by (simp add: tw.tail_effect_def token_word [OF q])
    have y: "tk_quote (tk_add w (tk_push x)) = Bare" "tk_has (tk_add w (tk_push x))" using q by (simp_all add: tk_add_def)
    have p: "tk_push (tk_add w (tk_push x)) = (tk_push x)\<lparr> tk_out := tk_out (tk_push x) @ [Word w] \<rparr>"
      using Cons.prems by (simp add: tk_push_def tk_add_def)
    show ?case unfolding e Cons.IH [OF y] p by simp
  qed (simp add: tw.tail_effect_def)
  obtain w vs where w: "ws = w # vs" using ws by (cases ws) auto
  have "tk_quote (tk_add w st) = Bare" "tk_has (tk_add w st)" using b by (simp_all add: tk_add_def)
  note t [OF this, of vs]
  moreover have "tk_push (tk_add w st) = st\<lparr> tk_out := tk_out st @ [Word w] \<rparr>" using b by (simp add: tk_push_def tk_add_def)
  ultimately show ?thesis unfolding w tw.text_effect_def list.case token_word [OF b(1)] by simp
qed

subsection \<open>A command line\<close>

lemma posix_word_ends: "posix_word b w \<noteq> []" "word_end (hd (posix_word b w))" "word_end (last (posix_word b w))"
  by (auto simp: posix_word_def word_end_def list_all_iff)

lemma posix_text_ends:
  assumes "ws \<noteq> []" shows "posix_text ws \<noteq> []" "word_end (hd (posix_text ws))" "word_end (last (posix_text ws))"
proof -
  obtain w vs where w: "ws = w # vs" using assms by (cases ws) auto
  have l: "word_end (last (posix_word True w @ tail_text us))" for us
    by (cases us rule: rev_cases) (simp_all add: tail_text_def posix_word_ends)
  show "posix_text ws \<noteq> []" "word_end (hd (posix_text ws))" "word_end (last (posix_text ws))"
    using l by (simp_all add: w posix_text_Cons posix_word_ends)
qed

lemma word_end_not_space: "word_end c \<Longrightarrow> \<not> is_space c"
  by (auto simp: word_end_def dest: plain_units(2)) (simp add: is_space_def)

lemma trim_id: "s \<noteq> [] \<Longrightarrow> \<not> is_space (hd s) \<Longrightarrow> \<not> is_space (last s) \<Longrightarrow> js_trim s = s"
proof -
  assume s: "s \<noteq> []" "\<not> is_space (hd s)" "\<not> is_space (last s)"
  have d: "dropWhile is_space t = t" if "t \<noteq> []" "\<not> is_space (hd t)" for t using that by (cases t) auto
  show ?thesis using s d [of s] d [of "rev s"] by (simp add: js_trim_def hd_rev)
qed

lemma trim_text: "ws \<noteq> [] \<Longrightarrow> js_trim (posix_text ws) = posix_text ws"
  using posix_text_ends [of ws] by (intro trim_id) (auto dest: word_end_not_space)

definition separators :: "jsstr list" where
  "separators = [[c_semi], [c_nl], [c_amp, c_amp], [c_bar, c_bar], [c_bar], [c_amp]]"

text \<open>Commands of any words, one after the other.\<close>

definition line_text :: "(jsstr list \<times> jsstr) list \<Rightarrow> jsstr list \<Rightarrow> jsstr" where
  "line_text cmds ws = concat (map (\<lambda>(vs, sep). posix_text vs @ sep) cmds) @ posix_text ws"

lemma at_separator:
  assumes "sep \<in> set separators" "ss_quote st = Bare" "open_text st" "word_end q" and s: "s = [] \<or> word_end (hd s)"
  shows "\<exists>p. scan (split_step False) st (Some q) (sep @ s) = scan (split_step False) (flush sep st) p s"
proof -
  have q: "q \<noteq> c_gt" "q \<noteq> c_lt" using assms(4) by (auto simp: word_end_def dest: plain_units(3))
  have n: "\<not> next_is c_gt s" "\<not> next_is c_amp s" "\<not> next_is c_bar s" using s by (cases s; auto simp: word_end_def dest: plain_units(3))+
  show ?thesis using assms(1-3) q n
    by (auto simp: separators_def split_step_def quote_of_def open_text_def)
qed

lemma scan_line:
  assumes "list_all (\<lambda>(vs, sep). vs \<noteq> [] \<and> sep \<in> set separators) cmds" "ws \<noteq> []" "ss_quote st = Bare" "open_text st" "ss_cur st = []"
  shows "scan (split_step False) st p (line_text cmds ws) =
    st\<lparr> ss_out := ss_out st @ map (\<lambda>(vs, sep). (posix_text vs, sep)) cmds, ss_cur := posix_text ws \<rparr>"
  using assms
proof (induction cmds arbitrary: st p)
  case Nil
  have b: "ss_quote st = Bare \<and> open_text st" using Nil.prems by simp
  from sw.scan_text [OF b Nil.prems(2), of p "[]"] split_text [OF Nil.prems(3,4,2)] show ?case
    using Nil.prems(5) by (auto simp: line_text_def add_text_def)
next
  case (Cons x cmds)
  obtain vs sep where x: "x = (vs, sep)" by (cases x)
  have v: "vs \<noteq> []" "sep \<in> set separators" using Cons.prems(1) by (auto simp: x)
  have b: "ss_quote st = Bare \<and> open_text st" using Cons.prems by simp
  let ?st = "add_text (posix_text vs) st"
  have t: "line_text (x # cmds) ws = posix_text vs @ sep @ line_text cmds ws" by (simp add: line_text_def x)
  have hd: "line_text cmds ws = [] \<or> word_end (hd (line_text cmds ws))"
  proof (cases cmds)
    case (Cons y ys)
    then show ?thesis using Cons.prems(1) posix_text_ends [of "fst y"] by (cases y) (auto simp: line_text_def)
  qed (use posix_text_ends [OF Cons.prems(2)] in \<open>simp add: line_text_def\<close>)
  obtain q where q: "word_end q" "scan (split_step False) st p (posix_text vs @ sep @ line_text cmds ws) = scan (split_step False) ?st (Some q) (sep @ line_text cmds ws)"
    using sw.scan_text [OF b v(1), of p "sep @ line_text cmds ws"] split_text [OF conjunct1 [OF b] conjunct2 [OF b] v(1)] by auto
  have b1: "ss_quote ?st = Bare" "open_text ?st" using b by (simp_all add: add_text_def open_text_def)
  obtain p' where p': "scan (split_step False) ?st (Some q) (sep @ line_text cmds ws) = scan (split_step False) (flush sep ?st) p' (line_text cmds ws)"
    using at_separator [OF v(2) b1 q(1) hd] by blast
  have f: "flush sep ?st = st\<lparr> ss_out := ss_out st @ [(posix_text vs, sep)] \<rparr>"
    using Cons.prems(5) posix_text_ends(1) [OF v(1)] by (simp add: flush_def add_text_def trim_text [OF v(1)] Let_def)
  have "scan (split_step False) (flush sep ?st) p' (line_text cmds ws) =
    (flush sep ?st)\<lparr> ss_out := ss_out (flush sep ?st) @ map (\<lambda>(vs, sep). (posix_text vs, sep)) cmds, ss_cur := posix_text ws \<rparr>"
    by (rule Cons.IH) (use Cons.prems in \<open>simp_all add: f open_text_def\<close>)
  then show ?case unfolding t q(2) p' by (simp add: f x)
qed

end
