(* ===== verification/ShellPrefixProps.thy ===== *)
theory ShellPrefixProps
  imports ShellPrefix
begin

section \<open>What stands before a program\<close>

text \<open>
  Assignments, keywords and wrappers, each with its own options, spelled before a program; \<open>strip_prefixes\<close> takes exactly them off, whatever
  their values are.
\<close>

subsection \<open>The spellings\<close>

datatype wrapper_option = Lone jsstr | With_value jsstr jsstr

fun option_words :: "wrapper_option \<Rightarrow> jsstr list" where
  "option_words (Lone t) = [t]"
| "option_words (With_value t v) = [t, v]"

fun option_word :: "wrapper_option \<Rightarrow> jsstr" where
  "option_word (Lone t) = t"
| "option_word (With_value t v) = t"

text \<open>Whether an option takes the next word, and its name when it has a value.\<close>

definition takes_next :: "wrapper_spec \<Rightarrow> jsstr \<Rightarrow> bool" where
  "takes_next spec t \<longleftrightarrow>
     (if starts_with t (js ''--'') then char_index c_eq t = None \<and> t \<in> set (ws_long spec)
      else (case cluster_value spec (drop 1 t) of Some (_, None) \<Rightarrow> True | _ \<Rightarrow> False))"

definition splits_words :: "jsstr \<Rightarrow> wrapper_spec \<Rightarrow> jsstr \<Rightarrow> bool" where
  "splits_words w spec t \<longleftrightarrow> w = js ''env'' \<and>
     (let name = (if starts_with t (js ''--'') then (case char_index c_eq t of Some k \<Rightarrow> take k t | None \<Rightarrow> t)
                  else (case cluster_value spec (drop 1 t) of Some (n, _) \<Rightarrow> n | None \<Rightarrow> [])) in
      name = js ''-S'' \<or> name = js ''--split-string'')"

definition option_ok :: "jsstr \<Rightarrow> wrapper_spec \<Rightarrow> wrapper_option \<Rightarrow> bool" where
  "option_ok w spec a \<longleftrightarrow>
     (let t = option_word a in
      next_is c_minus t \<and> t \<noteq> js ''-'' \<and> t \<noteq> js ''--'' \<and> \<not> splits_words w spec t \<and>
      (case a of Lone _ \<Rightarrow> \<not> takes_next spec t | With_value _ _ \<Rightarrow> takes_next spec t))"

datatype before = Assign jsstr | Keyword jsstr | Wrap jsstr "wrapper_option list" bool "jsstr option"

fun prefix_words :: "before \<Rightarrow> jsstr list" where
  "prefix_words (Assign t) = [t]"
| "prefix_words (Keyword t) = [t]"
| "prefix_words (Wrap raw opts ended lead) =
     raw # concat (map option_words opts) @ (if ended then [js ''--''] else []) @ (case lead of Some l \<Rightarrow> [l] | None \<Rightarrow> [])"

text \<open>A word read as a command name, not as an assignment or as the grammar of the shell.\<close>

definition command_word :: "jsstr \<Rightarrow> bool" where
  "command_word t \<longleftrightarrow>
     \<not> is_assignment t \<and> t \<notin> set shell_keywords \<and> t \<notin> set (map js [''for'', ''select'', ''case'', ''function'']) \<and> \<not> case_pattern t \<and>
     \<not> (2 < length t \<and> ends_with t (js ''()''))"

definition wrap_ok :: "computer \<Rightarrow> jsstr \<Rightarrow> wrapper_option list \<Rightarrow> bool \<Rightarrow> jsstr option \<Rightarrow> jsstr \<Rightarrow> bool" where
  "wrap_ok pc raw opts ended lead next_word \<longleftrightarrow> command_word raw \<and>
     (let w = canon_program pc raw in
      case map_of wrappers w of
        None \<Rightarrow> False
      | Some spec \<Rightarrow> w \<noteq> js ''command'' \<and> list_all (option_ok w spec) opts \<and>
          (case lead of Some l \<Rightarrow> lead_matches (ws_lead spec) l | None \<Rightarrow> \<not> lead_matches (ws_lead spec) next_word) \<and>
          (ended \<or> \<not> next_is c_minus (case lead of Some l \<Rightarrow> l | None \<Rightarrow> next_word)))"

fun prefix_ok :: "computer \<Rightarrow> before \<Rightarrow> jsstr \<Rightarrow> bool" where
  "prefix_ok pc (Assign t) next_word = is_assignment t"
| "prefix_ok pc (Keyword t) next_word = (t \<in> set shell_keywords)"
| "prefix_ok pc (Wrap raw opts ended lead) next_word = wrap_ok pc raw opts ended lead next_word"

definition spelled :: "before list \<Rightarrow> jsstr list" where
  "spelled ps = concat (map prefix_words ps)"

fun prefixes_ok :: "computer \<Rightarrow> before list \<Rightarrow> jsstr \<Rightarrow> bool" where
  "prefixes_ok pc [] p = True"
| "prefixes_ok pc (x # xs) p = (prefix_ok pc x (hd (spelled xs @ [p])) \<and> prefixes_ok pc xs p)"

fun wrapper_word :: "before \<Rightarrow> jsstr list" where
  "wrapper_word (Wrap raw _ _ _) = [raw]"
| "wrapper_word _ = []"

definition wrapper_words :: "before list \<Rightarrow> jsstr list" where
  "wrapper_words ps = concat (map wrapper_word ps)"

text \<open>A word that names a program: no assignment, no keyword, no wrapper, nothing the shell computes.\<close>

definition is_program :: "computer \<Rightarrow> jsstr \<Rightarrow> bool" where
  "is_program pc p \<longleftrightarrow> command_word p \<and> map_of wrappers (canon_program pc p) = None \<and> \<not> is_dynamic_program p"

subsection \<open>The options of a wrapper\<close>

lemma option_value_rest:
  "snd (option_value w spec name attached ts st) = (case attached of Some _ \<Rightarrow> ts | None \<Rightarrow> drop 1 ts)"
  "\<not> (w = js ''env'' \<and> (name = js ''-S'' \<or> name = js ''--split-string'')) \<Longrightarrow> os_split (fst (option_value w spec name attached ts st)) = os_split st"
  by (auto simp: option_value_def Let_def split: option.splits list.splits prod.splits)

lemma option_step_read:
  "snd (option_step w spec t ts st) = (if takes_next spec t then drop 1 ts else ts)"
  "\<not> splits_words w spec t \<Longrightarrow> os_split (fst (option_step w spec t ts st)) = os_split st"
  by (auto simp: option_step_def takes_next_def splits_words_def option_value_rest Let_def split: option.splits prod.splits)

lemma options_eaten:
  "list_all (option_ok w spec) opts \<Longrightarrow>
    \<exists>st'. wrapper_options w spec (concat (map option_words opts) @ rest) st = wrapper_options w spec rest st' \<and> os_split st' = os_split st"
proof (induction opts arbitrary: st)
  case Nil
  show ?case by (rule exI [of _ st]) simp
next
  case (Cons a opts)
  let ?more = "concat (map option_words opts) @ rest"
  have a: "next_is c_minus (option_word a)" "option_word a \<noteq> js ''-''" "option_word a \<noteq> js ''--''" "\<not> splits_words w spec (option_word a)"
    using Cons.prems by (simp_all add: option_ok_def Let_def)
  show ?case
  proof (cases a)
    case (Lone t)
    then have "\<not> takes_next spec t" using Cons.prems by (simp add: option_ok_def)
    with a Cons.IH [of "fst (option_step w spec t ?more st)"] Cons.prems show ?thesis by (simp add: Lone option_step_read)
  next
    case (With_value t v)
    then have "takes_next spec t" using Cons.prems by (simp add: option_ok_def)
    with a Cons.IH [of "fst (option_step w spec t (v # ?more) st)"] Cons.prems show ?thesis by (simp add: With_value option_step_read)
  qed
qed

text \<open>The options end at \<open>--\<close>, after which anything may stand, or at a word that is none.\<close>

lemma options_end:
  "ended \<or> \<not> next_is c_minus (hd rest) \<Longrightarrow> rest \<noteq> [] \<Longrightarrow> wrapper_options w spec ((if ended then [js ''--''] else []) @ rest) st = (st, rest)"
  by (cases rest) (auto simp: js_def)

subsection \<open>The prefixes\<close>

lemma command_word_step:
  "command_word t \<Longrightarrow> prefix_step pc t ts px =
    (let w = canon_program pc t in
     (case map_of wrappers w of
        None \<Rightarrow> Inr px
      | Some spec \<Rightarrow> if w = js ''command'' \<and> command_query ts then Inr px else Inl (strip_wrapper w t spec ts px)))"
  by (auto simp: prefix_step_def command_word_def)

lemma wrap_step:
  assumes "wrap_ok pc raw opts ended lead (hd rest)" "rest \<noteq> []"
  shows "\<exists>wr. prefix_step pc raw (tl (prefix_words (Wrap raw opts ended lead)) @ rest) px = Inl (px\<lparr> px_tokens := rest, px_wrappers := px_wrappers px @ [wr] \<rparr>) \<and> wr_raw wr = raw"
proof -
  let ?w = "canon_program pc raw" and ?st = "\<lparr> os_redirects = [], os_describes = False, os_split = None \<rparr>"
  obtain spec where s: "map_of wrappers ?w = Some spec" and ok: "command_word raw" "?w \<noteq> js ''command''" "list_all (option_ok ?w spec) opts"
    and l: "case lead of Some l \<Rightarrow> lead_matches (ws_lead spec) l | None \<Rightarrow> \<not> lead_matches (ws_lead spec) (hd rest)"
    and e: "ended \<or> \<not> next_is c_minus (case lead of Some l \<Rightarrow> l | None \<Rightarrow> hd rest)"
    using assms(1) by (auto simp: wrap_ok_def Let_def split: option.splits)
  let ?r = "(case lead of Some l \<Rightarrow> [l] | None \<Rightarrow> []) @ rest"
  have r: "ended \<or> \<not> next_is c_minus (hd ?r)" using e by (auto split: option.splits)
  have ne: "?r \<noteq> []" using assms(2) by simp
  have "\<exists>st'. wrapper_options ?w spec (concat (map option_words opts) @ (if ended then [js ''--''] else []) @ ?r) ?st = (st', ?r) \<and> os_split st' = None"
    using options_eaten [OF ok(3), of "(if ended then [js ''--''] else []) @ ?r" ?st] unfolding options_end [OF r ne] by (auto simp del: append_assoc)
  then obtain st' where o': "wrapper_options ?w spec (concat (map option_words opts) @ (if ended then [js ''--''] else []) @ ?r) ?st = (st', ?r)" "os_split st' = None"
    by blast
  have "(case ?r of t # us \<Rightarrow> if lead_matches (ws_lead spec) t then us else ?r | [] \<Rightarrow> []) = rest"
    using l assms(2) by (auto split: option.splits list.splits)
  then have "strip_wrapper ?w raw spec (tl (prefix_words (Wrap raw opts ended lead)) @ rest) px =
      px\<lparr> px_tokens := rest, px_wrappers := px_wrappers px @ [\<lparr> wr_name = ?w, wr_raw = raw, wr_redirects = os_redirects st', wr_describes = os_describes st' \<rparr>] \<rparr>"
    using o' by (simp add: strip_wrapper_def)
  then show ?thesis using ok(2)
    by (intro exI [of _ "\<lparr> wr_name = ?w, wr_raw = raw, wr_redirects = os_redirects st', wr_describes = os_describes st' \<rparr>"])
      (simp add: command_word_step [OF ok(1)] s Let_def)
qed

lemma assignment_no_keyword: "t \<in> set shell_keywords \<Longrightarrow> \<not> is_assignment t"
  by (auto simp: shell_keywords_def is_assignment_def is_name_def js_def)

lemma prefix_read:
  assumes "prefix_ok pc x (hd rest)" "rest \<noteq> []"
  shows "\<exists>t us wr as. prefix_words x @ rest = t # us \<and>
    prefix_step pc t us px = Inl (px\<lparr> px_tokens := rest, px_wrappers := px_wrappers px @ wr, px_assigns := px_assigns px @ as \<rparr>) \<and> map wr_raw wr = wrapper_word x"
proof (cases x)
  case (Assign t)
  then show ?thesis using assms(1) by (intro exI [of _ t] exI [of _ rest] exI [of _ "[]"] exI [of _ "[t]"]) (simp add: prefix_step_def)
next
  case (Keyword t)
  then show ?thesis using assms(1) assignment_no_keyword [of t]
    by (intro exI [of _ t] exI [of _ rest] exI [of _ "[]"] exI [of _ "[]"]) (simp add: prefix_step_def)
next
  case (Wrap raw opts ended lead)
  have "wrap_ok pc raw opts ended lead (hd rest)" using assms(1) by (simp add: Wrap)
  from wrap_step [OF this assms(2), of px] obtain wr
    where "prefix_step pc raw (tl (prefix_words x) @ rest) px = Inl (px\<lparr> px_tokens := rest, px_wrappers := px_wrappers px @ [wr] \<rparr>)" "wr_raw wr = raw"
    by (auto simp: Wrap)
  then show ?thesis by (intro exI [of _ raw] exI [of _ "tl (prefix_words x) @ rest"] exI [of _ "[wr]"] exI [of _ "[]"]) (simp add: Wrap)
qed

lemma program_step: "is_program pc p \<Longrightarrow> prefix_step pc p args px = Inr px"
  by (simp add: command_word_step is_program_def)

lemma prefixes_read:
  assumes p: "is_program pc p"
  shows "prefixes_ok pc ps p \<Longrightarrow> length ps < n \<Longrightarrow> px_tokens px = spelled ps @ p # args \<Longrightarrow>
    \<exists>wr as. strip_loop pc n px = px\<lparr> px_tokens := p # args, px_wrappers := px_wrappers px @ wr, px_assigns := px_assigns px @ as \<rparr> \<and> map wr_raw wr = wrapper_words ps"
proof (induction ps arbitrary: n px)
  case Nil
  obtain m where n: "n = Suc m" using Nil.prems(2) by (cases n) auto
  show ?case using Nil.prems(3) by (intro exI [of _ "[]"]) (simp add: n spelled_def program_step [OF p] wrapper_words_def)
next
  case (Cons x ps)
  obtain m where n: "n = Suc m" "length ps < m" using Cons.prems(2) by (cases n) auto
  let ?rest = "spelled ps @ p # args"
  have h: "hd ?rest = hd (spelled ps @ [p])" "?rest \<noteq> []" by (cases "spelled ps"; simp)+
  have "prefix_ok pc x (hd ?rest)" using Cons.prems(1) by (simp add: h)
  from prefix_read [OF this h(2), of px] obtain t us wr as where x: "prefix_words x @ ?rest = t # us"
    "prefix_step pc t us px = Inl (px\<lparr> px_tokens := ?rest, px_wrappers := px_wrappers px @ wr, px_assigns := px_assigns px @ as \<rparr>)" "map wr_raw wr = wrapper_word x"
    by blast
  have t: "px_tokens px = t # us" using Cons.prems(3) x(1) by (simp add: spelled_def)
  have ok: "prefixes_ok pc ps p" using Cons.prems(1) by simp
  from Cons.IH [OF ok n(2), of "px\<lparr> px_tokens := ?rest, px_wrappers := px_wrappers px @ wr, px_assigns := px_assigns px @ as \<rparr>"]
  obtain wr' as' where i: "strip_loop pc m (px\<lparr> px_tokens := ?rest, px_wrappers := px_wrappers px @ wr, px_assigns := px_assigns px @ as \<rparr>) =
      px\<lparr> px_tokens := p # args, px_wrappers := (px_wrappers px @ wr) @ wr', px_assigns := (px_assigns px @ as) @ as' \<rparr>" "map wr_raw wr' = wrapper_words ps"
    by auto
  show ?case using x(3) i(2) by (intro exI [of _ "wr @ wr'"] exI [of _ "as @ as'"]) (simp add: n(1) t x(2) i(1) wrapper_words_def)
qed

lemma strip_prefixed:
  assumes "is_program pc p" "prefixes_ok pc ps p" "length ps < 1000"
  shows "\<exists>wr as. strip_prefixes pc (spelled ps @ p # args) = \<lparr> px_tokens = p # args, px_wrappers = wr, px_assigns = as \<rparr> \<and> map wr_raw wr = wrapper_words ps"
  using prefixes_read [OF assms, of "\<lparr> px_tokens = spelled ps @ p # args, px_wrappers = [], px_assigns = [] \<rparr>" args] by (simp add: strip_prefixes_def)

lemma strip_program: "is_program pc p \<Longrightarrow> strip_prefixes pc (p # args) = \<lparr> px_tokens = p # args, px_wrappers = [], px_assigns = [] \<rparr>"
proof -
  assume p: "is_program pc p"
  have "strip_loop pc 1000 = strip_loop pc (Suc 999)" by simp
  then show ?thesis by (simp only: strip_prefixes_def strip_loop.simps) (simp add: program_step [OF p])
qed

end
