(* ===== verification/ShellProps.thy ===== *)
theory ShellProps
  imports ShellWords ShellPrefixProps ShellDecompose
begin

section \<open>No command hides\<close>

text \<open>
  A line of commands, each of any words, is read as those commands: none hides behind a separator, in a quote or in a nested
  \<open>sh -c\<close>. A line nested deeper than the reader goes is opaque.
\<close>

subsection \<open>No here-document is seen in words\<close>

definition no_heredoc :: "here_state \<Rightarrow> bool" where
  "no_heredoc st \<longleftrightarrow> he_found st = [] \<and> he_pending st = []"

lemma here_plain: "he_quote st = Bare \<Longrightarrow> plain_unit c \<Longrightarrow> here_step pc st p c s = (he_eat [c] st, 1)"
  using plain_units [of c] by (simp add: here_step_def)

lemma here_bare:
  "he_quote st = Bare \<Longrightarrow> here_step pc st p c_sq s = (he_eat [c_sq] (st\<lparr> he_quote := Single \<rparr>), 1)"
  "he_quote st = Bare \<Longrightarrow> here_step pc st p c_bslash (c_sq # s) = (he_eat [c_bslash, c_sq] st, 2)"
  "he_quote st = Bare \<Longrightarrow> here_step pc st p c_sp s = (he_eat [c_sp] st, 1)"
  by (simp_all add: here_step_def quote_of_def)

lemma here_single:
  "he_quote st = Single \<Longrightarrow> c \<noteq> c_sq \<Longrightarrow> here_step pc st p c s = (he_eat [c] (if c = c_nl then st\<lparr> he_line := he_line st + 1 \<rparr> else st), 1)"
  "he_quote st = Single \<Longrightarrow> here_step pc st p c_sq s = (he_eat [c_sq] (st\<lparr> he_quote := Bare \<rparr>), 1)"
  by (simp_all add: here_step_def Let_def)

lemma plain_not_nl: "plain_unit c \<Longrightarrow> c \<noteq> c_nl"
  using plain_units(3) [of c] by simp

interpretation hw: text_reader "here_step pc" "\<lambda>st. he_quote st = Bare \<and> no_heredoc st" "\<lambda>st. he_quote st = Single \<and> no_heredoc st"
  "\<lambda>st. he_eat [c_sq] (st\<lparr> he_quote := Single \<rparr>)" "\<lambda>st. he_eat [c_sq] (st\<lparr> he_quote := Bare \<rparr>)"
  "\<lambda>c st. he_eat [c] (if c = c_nl then st\<lparr> he_line := he_line st + 1 \<rparr> else st)" "he_eat [c_bslash, c_sq]" "he_eat [c_sp]"
  by unfold_locales (simp_all add: here_plain here_bare here_single plain_not_nl, simp_all add: he_eat_def no_heredoc_def)

lemma here_separator:
  assumes "sep \<in> set separators" "he_quote st = Bare \<and> no_heredoc st"
  shows "\<exists>st' q. scan (here_step pc) st p (sep @ s) = scan (here_step pc) st' q s \<and> he_quote st' = Bare \<and> no_heredoc st'"
proof -
  have one: "\<exists>st' q. scan (here_step pc) x p (c # s) = scan (here_step pc) st' q s \<and> he_quote st' = Bare \<and> no_heredoc st'"
    if x: "he_quote x = Bare \<and> no_heredoc x" and c: "c \<in> {c_semi, c_nl, c_amp, c_bar}" for x p c s
  proof -
    obtain y where y: "here_step pc x p c s = (y, 1)" "he_quote y = Bare \<and> no_heredoc y"
      using x c by (auto simp: here_step_def quote_of_def no_heredoc_def)
    have "scan (here_step pc) x p (c # s) = scan (here_step pc) y (Some c) s" by (rule scan_one) (rule y(1))
    then show ?thesis using y(2) by blast
  qed
  have two: "\<exists>st' q. scan (here_step pc) st p (c # c # s) = scan (here_step pc) st' q s \<and> he_quote st' = Bare \<and> no_heredoc st'"
    if c: "c \<in> {c_amp, c_bar}" for c
  proof -
    from c obtain y q where y: "scan (here_step pc) st p (c # c # s) = scan (here_step pc) y q (c # s)" "he_quote y = Bare \<and> no_heredoc y"
      using one [OF assms(2), of c p "c # s"] by blast
    from c one [OF y(2), of c q s] show ?thesis unfolding y(1) by blast
  qed
  from assms(1) consider c where "sep = [c]" "c \<in> {c_semi, c_nl, c_amp, c_bar}" | c where "sep = [c, c]" "c \<in> {c_amp, c_bar}"
    by (auto simp: separators_def)
  then show ?thesis
  proof cases
    case 1
    then show ?thesis using one [OF assms(2)] by simp
  next
    case 2
    then show ?thesis using two by simp
  qed
qed

definition line_ok :: "(jsstr list \<times> jsstr) list \<Rightarrow> jsstr list \<Rightarrow> bool" where
  "line_ok cmds ws \<longleftrightarrow> list_all (\<lambda>(vs, sep). vs \<noteq> [] \<and> sep \<in> set separators) cmds \<and> ws \<noteq> []"

lemma here_line: "line_ok cmds ws \<Longrightarrow> he_quote st = Bare \<and> no_heredoc st \<Longrightarrow> no_heredoc (scan (here_step pc) st p (line_text cmds ws))"
proof (induction cmds arbitrary: st p)
  case Nil
  from hw.scan_text [OF Nil.prems(2), where ws = ws and p = p and pc = pc and s = "[]"] Nil.prems(1) show ?case by (auto simp: line_text_def line_ok_def)
next
  case (Cons x cmds)
  obtain vs sep where x: "x = (vs, sep)" by (cases x)
  have v: "vs \<noteq> []" "sep \<in> set separators" and ok: "line_ok cmds ws" using Cons.prems(1) by (auto simp: x line_ok_def)
  have t: "line_text (x # cmds) ws = posix_text vs @ sep @ line_text cmds ws" by (simp add: line_text_def x)
  obtain y q where y: "scan (here_step pc) st p (posix_text vs @ sep @ line_text cmds ws) = scan (here_step pc) y q (sep @ line_text cmds ws)"
    "he_quote y = Bare \<and> no_heredoc y"
    using hw.scan_text [OF Cons.prems(2) v(1), where p = p and pc = pc and s = "sep @ line_text cmds ws"] by blast
  obtain z q' where z: "scan (here_step pc) y q (sep @ line_text cmds ws) = scan (here_step pc) z q' (line_text cmds ws)" "he_quote z = Bare \<and> no_heredoc z"
    using here_separator [OF v(2) y(2)] by blast
  show ?case unfolding t y(1) z(1) by (rule Cons.IH [OF ok z(2)])
qed

lemma line_heredocs: "line_ok cmds ws \<Longrightarrow> strip_heredocs pc (line_text cmds ws) = (line_text cmds ws, [], [])"
proof -
  assume ok: "line_ok cmds ws"
  have "find_heredocs pc (line_text cmds ws) = []"
    using here_line [OF ok, of "\<lparr> he_found = [], he_pending = [], he_stack = [], he_quote = Bare, he_cmd = [], he_line = 0 \<rparr>" pc None]
    by (simp add: find_heredocs_def no_heredoc_def)
  then show ?thesis by (simp add: strip_heredocs_def)
qed

subsection \<open>A line and its commands\<close>

lemma line_split:
  assumes ok: "line_ok cmds ws"
  shows "split_top_level False (line_text cmds ws) = (map (\<lambda>(vs, sep). (posix_text vs, sep)) cmds @ [(posix_text ws, [])], False)"
proof -
  have w: "ws \<noteq> []" and c: "list_all (\<lambda>(vs, sep). vs \<noteq> [] \<and> sep \<in> set separators) cmds" using ok by (simp_all add: line_ok_def)
  have "scan (split_step False) split_start None (line_text cmds ws) =
    split_start\<lparr> ss_out := ss_out split_start @ map (\<lambda>(vs, sep). (posix_text vs, sep)) cmds, ss_cur := posix_text ws \<rparr>"
    by (rule scan_line [OF c w]) (simp_all add: split_start_def open_text_def)
  then show ?thesis using posix_text_ends(1) [OF w]
    by (simp add: split_top_level_def split_start_def flush_def trim_text [OF w] Let_def)
qed

lemma text_tokens: "ws \<noteq> [] \<Longrightarrow> tokenize (posix_text ws) = map Word ws"
proof -
  assume w: "ws \<noteq> []"
  have b: "tk_quote token_start = Bare" by (simp add: token_start_def)
  obtain q where "scan token_step token_start None (posix_text ws @ []) = scan token_step (tw.text_effect ws token_start) (Some q) []"
    using tw.scan_text [OF b w] by blast
  then have "scan token_step token_start None (posix_text ws) = tw.text_effect ws token_start" by simp
  then show ?thesis using token_text [OF b _ _ w] by (simp add: tokenize_def token_start_def)
qed

lemma text_extract: "ws \<noteq> [] \<Longrightarrow> extract_substitutions False (posix_text ws) = \<lparr> ex_outer = posix_text ws, ex_inner = [], ex_processes = [], ex_quote = Bare \<rparr>"
proof -
  assume w: "ws \<noteq> []"
  let ?x = "\<lparr> ex_outer = [], ex_inner = [], ex_processes = [], ex_quote = Bare \<rparr>"
  have b: "ex_quote ?x = Bare" by simp
  obtain q where "scan (extract_step False) ?x None (posix_text ws @ []) = scan (extract_step False) (xw.text_effect ws ?x) (Some q) []"
    using xw.scan_text [OF b w] by blast
  then show ?thesis using extract_text [OF b w] by (simp add: extract_substitutions_def add_outer_def)
qed

lemma redirects_words: "split_redirects (map Word ws) = (ws, [])"
  by (induction ws) simp_all















subsection \<open>Nested shells\<close>










text \<open>C40: words spelled for the POSIX reader are read back as the same words, whatever characters are in them: one command, with no
redirection, no substitution and no here-document.\<close>

theorem posix_words_read:
  assumes "ws \<noteq> []"
  shows "split_command_line pc (posix_text ws) = Some [(posix_text ws, [])] \<and> split_redirects (tokenize (posix_text ws)) = (ws, []) \<and>
    ex_outer (extract_substitutions False (posix_text ws)) = posix_text ws \<and> ex_inner (extract_substitutions False (posix_text ws)) = []"
proof -
  have ok: "line_ok [] ws" and l: "line_text [] ws = posix_text ws" using assms by (simp_all add: line_ok_def line_text_def)
  have "split_command_line pc (posix_text ws) = Some [(posix_text ws, [])]"
    using line_heredocs [OF ok, of pc] line_split [OF ok] by (simp add: split_command_line_def trim_text [OF assms] l)
  then show ?thesis by (simp add: text_tokens [OF assms] redirects_words text_extract [OF assms])
qed

end
