(* ===== verification/ShellDemo.thy ===== *)
theory ShellDemo
  imports ShellProps AllowanceDemo
begin

section \<open>Command lines\<close>

subsection \<open>A here-document after a continued line\<close>

text \<open>
  \<open>findHeredocs\<close> counts the lines it passes, but not the line end a backslash escapes, and \<open>stripHeredocs\<close> looks the openers up by that count. After a
  continued line the body is taken to begin one line early, so the line that holds the opener is dropped with it.
\<close>

definition inert :: "nat \<Rightarrow> bool" where
  "inert c \<longleftrightarrow> c \<notin> {c_nl, c_bslash, c_sq, c_dq, c_dollar, c_tick, c_open, c_close, c_semi, c_amp, c_bar, c_lt}"

lemma here_prev: "scan (here_step pc) st p s = scan (here_step pc) st None s"
  by (cases s) (simp_all add: here_step_def)

lemma here_step_prev: "here_step pc st p c s = here_step pc st None c s"
  by (simp add: here_step_def)

lemma here_next: "here_step pc st p c s = (st', 1) \<Longrightarrow> scan (here_step pc) st p (c # s) = scan (here_step pc) st' None s"
  using here_prev by (simp add: scan_one [of "here_step pc"])

lemma here_inert: "list_all inert t \<Longrightarrow> he_quote st = Bare \<Longrightarrow> scan (here_step pc) st p (t @ s) = scan (here_step pc) (he_eat t st) None s"
proof (induction t arbitrary: st p)
  case Nil
  then show ?case using here_prev by (simp add: he_eat_def)
next
  case (Cons c t)
  have i: "inert c" using Cons.prems by simp
  then have q: "quote_of c = Bare" by (simp add: inert_def quote_of_def)
  have "here_step pc st p c (t @ s) = (he_eat [c] st, 1)" using i q Cons.prems(2) by (simp add: here_step_def inert_def)
  from here_next [OF this] Cons.IH [of "he_eat [c] st" None] Cons.prems show ?case by (simp add: he_eat_def)
qed

definition hidden_line :: jsstr where
  "hidden_line = js ''true '' @ [c_bslash, c_nl, c_semi] @ js ''rm -rf / '' @ js ''<<E'' @ [c_nl] @ js ''x'' @ [c_nl] @ js ''E''"

lemma rm_words: "shell_words (js ''rm -rf / '') = [js ''rm'', js ''-rf'', js ''/'']"
  by (simp add: shell_words_def tokenize_def token_start_def token_step_def tk_add_def tk_push_def js_def quote_of_def is_space_def)

lemma unix_names:
  "canon_program unix (js ''rm'') = js ''rm''" "canon_program unix (js ''true'') = js ''true''" "base_name (js ''true'') = js ''true''"
  "base_name (js ''rm'') = js ''rm''" "lower_text unix (js ''sh'') = js ''sh''"
  by (simp_all add: canon_program_def unix_def ascii_lower_def base_name_def js_def line_terminator_def strip_suffix_def ends_with_def is_upper_def)

lemma program_words: "is_program unix (js ''rm'')" "is_program unix (js ''true'')"
proof -
  have "\<not> is_dynamic_program (js ''rm'')" "\<not> is_dynamic_program (js ''true'')"
    by (simp_all add: is_dynamic_program_def after_slash_def js_def line_terminator_def)
  moreover have "\<not> is_assignment (js ''rm'')" "\<not> is_assignment (js ''true'')" "\<not> case_pattern (js ''rm'')" "\<not> case_pattern (js ''true'')"
    "\<not> ends_with (js ''rm'') (js ''()'')" "\<not> ends_with (js ''true'') (js ''()'')"
    by (simp_all add: is_assignment_def case_pattern_def js_def ends_with_def)
  moreover have "map_of wrappers (js ''rm'') = None" "map_of wrappers (js ''true'') = None" by (simp_all add: wrappers_def)
  ultimately show "is_program unix (js ''rm'')" "is_program unix (js ''true'')"
    by (simp_all add: is_program_def command_word_def unix_names shell_keywords_def)
qed

definition hidden_opener :: heredoc where
  "hidden_opener = \<lparr> hd_line = 0, hd_delim = js ''E'', hd_dashed = False, hd_shell = False, hd_owner = js ''rm'' \<rparr>"

lemma hidden_owner:
  assumes "he_cmd st = js ''rm -rf / ''" "he_line st = 0"
  shows "he_opener unix False (js ''E'') st = st\<lparr> he_found := he_found st @ [hidden_opener], he_pending := he_pending st @ [hidden_opener] \<rparr>"
  using assms by (simp add: he_opener_def rm_words strip_program [OF program_words(1)] unix_names hidden_opener_def shells_def Let_def)

lemma skip_line: "skip_body h (js ''x'' @ c_nl # js ''E'') = Some []" if "hd_delim h = js ''E''" "\<not> hd_dashed h"
  using that by (simp add: skip_body.simps js_def)

lemma hidden_found: "find_heredocs unix hidden_line = [hidden_opener]"
proof -
  let ?st = "\<lparr> he_found = [], he_pending = [], he_stack = [], he_quote = Bare, he_cmd = [], he_line = 0 \<rparr>"
  let ?rm = "?st\<lparr> he_cmd := js ''rm -rf / '' \<rparr>"
  let ?found = "?rm\<lparr> he_found := [hidden_opener], he_pending := [hidden_opener], he_cmd := js ''rm -rf / <<E'' \<rparr>"
  have i: "list_all inert (js ''true '')" "list_all inert (js ''rm -rf / '')" by (simp_all add: inert_def js_def)
  have a: "scan (here_step unix) ?st None hidden_line =
      scan (here_step unix) (?st\<lparr> he_cmd := js ''true '' \<rparr>) None (c_bslash # c_nl # c_semi # js ''rm -rf / '' @ js ''<<E'' @ [c_nl] @ js ''x'' @ [c_nl] @ js ''E'')"
    using here_inert [OF i(1), of ?st unix None] by (simp add: hidden_line_def he_eat_def del: js_append)
  have b: "scan (here_step unix) (?st\<lparr> he_cmd := js ''true '' \<rparr>) None (c_bslash # c_nl # c_semi # r) = scan (here_step unix) ?st None r" for r
    using here_prev by (simp add: here_step_def he_eat_def quote_of_def)
  have c: "scan (here_step unix) ?st None (js ''rm -rf / '' @ r) = scan (here_step unix) ?rm None r" for r
    using here_inert [OF i(2), of ?st unix None] by (simp add: he_eat_def)
  have d: "opener_at (js ''E'' @ c_nl # r) = (Some (False, js ''E''), 3)" for r
    by (simp add: opener_at_def js_def delim_unit_def is_letter_def is_lower_def is_upper_def is_digit_def Let_def)
  have e: "scan (here_step unix) ?rm None (js ''<<E'' @ c_nl # r) = scan (here_step unix) ?found None (c_nl # r)" for r
  proof -
    have t: "js ''<<E'' @ c_nl # r = c_lt # c_lt # js ''E'' @ c_nl # r" "take 3 (c_lt # c_lt # js ''E'' @ c_nl # r) = js ''<<E''" by (simp_all add: js_def)
    have "here_step unix ?rm p c_lt (c_lt # js ''E'' @ c_nl # r) = (?found, 3)" for p
      using d [of r] hidden_owner [of ?rm] by (simp add: here_step_def quote_of_def t he_eat_def) (simp add: js_def)
    then show ?thesis unfolding t(1) by (simp add: js_def here_step_prev [of unix _ "Some 69"])
  qed
  have f: "he_found (scan (here_step unix) ?found None (c_nl # js ''x'' @ c_nl # js ''E'')) = [hidden_opener]"
    by (simp add: here_step_def skip_line hidden_opener_def Let_def)
  show ?thesis unfolding find_heredocs_def a b c append_Cons append_Nil e by (rule f)
qed

lemma hidden_stripped: "strip_heredocs unix hidden_line = (js ''true '' @ [c_bslash], [], [])"
proof -
  have l: "js_split c_nl hidden_line = [js ''true '' @ [c_bslash], js '';rm -rf / <<E'', js ''x'', js ''E'']" by (simp add: hidden_line_def js_def)
  have p: "has_pair c_lt hidden_line" by (simp add: hidden_line_def js_def)
  show ?thesis unfolding strip_heredocs_def if_P [OF p] hidden_found Let_def l
    by (simp add: hidden_opener_def interpreters_def Let_def)
qed

text \<open>The line runs \<open>rm -rf /\<close>, and the commands it is read as do not hold it.\<close>

theorem continued_heredoc_hides:
  "decompose_shell unix utf16 hidden_line =
     [plain_command (js ''true'') (js ''true'') [[c_bslash]] [] (js ''true '' @ [c_bslash]) (Some [])]"
proof -
  have t: "js_trim hidden_line = hidden_line" by (rule trim_id) (simp_all add: hidden_line_def js_def is_space_def)
  have s: "split_top_level False (js ''true '' @ [c_bslash]) = ([(js ''true '' @ [c_bslash], [])], False)"
    by (simp add: split_top_level_def split_start_def split_step_def add_text_def quote_of_def js_def flush_def js_trim_def is_space_def)
  have x: "extract_substitutions False (js ''true '' @ [c_bslash]) = \<lparr> ex_outer = js ''true '' @ [c_bslash], ex_inner = [], ex_processes = [], ex_quote = Bare \<rparr>"
    by (simp add: extract_substitutions_def extract_step_def add_outer_def quote_of_def js_def)
  have w: "tokenize (js ''true '' @ [c_bslash]) = map Word [js ''true'', [c_bslash]]"
    by (simp add: tokenize_def token_start_def token_step_def tk_add_def tk_push_def js_def quote_of_def is_space_def)
  have d: "\<not> is_dynamic_program (js ''true'')" using program_words(2) by (simp add: is_program_def)
  have c: "describes_itself unix (js ''true'') [[c_bslash]] = False" by (simp add: describes_itself_def js_def)
  have ne: "hidden_line \<noteq> []" by (simp add: hidden_line_def)
  have sc: "script_commands unix utf16 rec outmost False src sg as (js ''true'') first [[c_bslash]] [] = []" for rec outmost src sg as first
    by (simp add: script_commands_def unix_names shells_def interpreters_def powershells_def Let_def)
  have seg: "read_segment unix utf16 rec outmost False src [] prev (js ''true '' @ [c_bslash]) =
      [plain_command (js ''true'') (js ''true'') [[c_bslash]] [] (js ''true '' @ [c_bslash]) (Some [])]" for rec outmost src prev
    unfolding read_segment_def x segment_commands_def Let_def
    by (simp add: w redirects_words [of "[js ''true'', [c_bslash]]", simplified] strip_program [OF program_words(2)] d unix_names c sc del: js_append)
      (simp add: plain_command_def)
  show ?thesis
    by (simp add: decompose_shell_def t ne decompose_body_def hidden_stripped s seg Let_def del: js_append) (simp add: plain_command_def)
qed

subsection \<open>A command behind another\<close>






theorem posix_words_read_witness:
  "split_redirects (tokenize (posix_text [js ''echo'', js ''; rm x > y'' @ [c_sq]])) = ([js ''echo'', js ''; rm x > y'' @ [c_sq]], [])"
  using posix_words_read [of "[js ''echo'', js ''; rm x > y'' @ [c_sq]]" unix] by simp

end
