(* ===== verification/GitPushProps.thy ===== *)
theory GitPushProps
  imports GitPush ShellDemo
begin

section \<open>A push is read as what it updates\<close>

text \<open>
  The spellings of a push: the global options, the options and operands of \<open>push\<close> in any order, and the refspecs. The branch rules judge the targets
  that are read here, so a branch the command updates must be among them with its force and its deletion.
\<close>

subsection \<open>The options before the subcommand\<close>






lemma sub_stops:
  "\<not> next_is c_minus s \<Longrightarrow> git_globals (s # args) cs dir = \<lparr> gc_sub = Some s, gc_args = args, gc_configs = cs, gc_dir = dir \<rparr>"
  by (cases s) (simp_all add: starts_with_def js_def)


subsection \<open>The options of a push\<close>

datatype push_item = Force jsstr | Deletion jsstr | Quiet jsstr | Valued jsstr jsstr | Operand jsstr

definition deletion_option :: "jsstr \<Rightarrow> bool" where
  "deletion_option t \<longleftrightarrow> t = js ''--delete'' \<or> short_option 100 t"

definition wide_option :: "jsstr \<Rightarrow> bool" where
  "wide_option t \<longleftrightarrow> t \<in> set (map js [''--all'', ''--mirror'', ''--branches'', ''--tags'', ''--repo'']) \<or> starts_with t (js ''--repo='')"

fun item_words :: "push_item \<Rightarrow> jsstr list" where
  "item_words (Force t) = [t]"
| "item_words (Deletion t) = [t]"
| "item_words (Quiet t) = [t]"
| "item_words (Valued t v) = [t, v]"
| "item_words (Operand w) = [w]"

fun item_ok :: "push_item \<Rightarrow> bool" where
  "item_ok (Force t) = force_option t"
| "item_ok (Deletion t) = (deletion_option t \<and> \<not> force_option t)"
| "item_ok (Quiet t) = (next_is c_minus t \<and> \<not> force_option t \<and> \<not> deletion_option t \<and> \<not> wide_option t \<and> \<not> valued_push_option t \<and> \<not> is_describe_option t)"
| "item_ok (Valued t v) = valued_push_option t"
| "item_ok (Operand w) = (\<not> next_is c_minus w)"

definition forced :: "push_item list \<Rightarrow> bool" where
  "forced items \<longleftrightarrow> list_ex (\<lambda>i. case i of Force _ \<Rightarrow> True | _ \<Rightarrow> False) items"

definition deleting :: "push_item list \<Rightarrow> bool" where
  "deleting items \<longleftrightarrow> list_ex (\<lambda>i. case i of Deletion _ \<Rightarrow> True | _ \<Rightarrow> False) items"

definition operands :: "push_item list \<Rightarrow> jsstr list" where
  "operands items = concat (map (\<lambda>i. case i of Operand w \<Rightarrow> [w] | _ \<Rightarrow> []) items)"

lemma describes_form:
  assumes "is_describe_option t"
  shows "t \<in> set (map js [''--help'', ''--version'', ''--dry-run'']) \<or> (\<exists>r. t = js ''--dry-run='' @ r)"
  using assms unfolding is_describe_option_def starts_with_iff by blast

lemma describes_alone:
  assumes "is_describe_option t"
  shows "\<not> force_option t" "\<not> deletion_option t"
  using describes_form [OF assms]
  by (auto simp: force_option_def deletion_option_def short_option_def starts_with_def js_def is_letter_def is_lower_def is_upper_def)

lemma valued_alone:
  assumes "valued_push_option t"
  shows "\<not> force_option t" "\<not> deletion_option t" "\<not> wide_option t" "t \<noteq> js ''--''" "next_is c_minus t"
  using assms by (auto simp: valued_push_option_def force_option_def deletion_option_def short_option_def wide_option_def starts_with_def js_def is_letter_def is_lower_def is_upper_def)

lemma force_alone:
  assumes "force_option t"
  shows "\<not> valued_push_option t" "t \<noteq> js ''--repo''" "\<not> is_describe_option t"
  using assms valued_alone(1) describes_alone(1) by (auto simp: force_option_def short_option_def starts_with_def js_def is_letter_def is_lower_def is_upper_def)

lemma deletion_alone:
  assumes "deletion_option t"
  shows "\<not> valued_push_option t" "t \<noteq> js ''--repo''" "\<not> is_describe_option t"
  using assms valued_alone(2) describes_alone(2) by (auto simp: deletion_option_def short_option_def js_def is_letter_def is_lower_def is_upper_def)

lemma operand_alone:
  assumes "\<not> next_is c_minus w"
  shows "\<not> force_option w" "\<not> deletion_option w" "\<not> wide_option w" "\<not> valued_push_option w" "\<not> is_describe_option w" "w \<noteq> js ''--''"
  using assms by ((cases w; auto simp: force_option_def deletion_option_def short_option_def wide_option_def valued_push_option_def is_describe_option_def starts_with_def js_def)+)

lemma describes_step:
  "\<not> is_describe_option t \<Longrightarrow> \<not> valued_push_option t \<Longrightarrow> t \<noteq> js ''--repo'' \<Longrightarrow> \<not> push_describes ts \<Longrightarrow> \<not> push_describes (t # ts)"
  by (cases ts) auto

lemma items_describe: "list_all item_ok items \<Longrightarrow> \<not> push_describes (concat (map item_words items))"
proof (induction items)
  case (Cons i items)
  then have ih: "\<not> push_describes (concat (map item_words items))" by simp
  show ?case
  proof (cases i)
    case (Force t)
    then have "force_option t" using Cons.prems by simp
    from describes_step [OF force_alone(3,1,2) ih] this show ?thesis by (simp add: Force)
  next
    case (Deletion t)
    then have "deletion_option t" using Cons.prems by simp
    from describes_step [OF deletion_alone(3,1,2) ih] this show ?thesis by (simp add: Deletion)
  next
    case (Quiet t)
    then have "\<not> is_describe_option t" "\<not> valued_push_option t" "t \<noteq> js ''--repo''" using Cons.prems by (auto simp: wide_option_def)
    from describes_step [OF this ih] show ?thesis by (simp add: Quiet)
  next
    case (Valued t v)
    then have "valued_push_option t" using Cons.prems by simp
    then show ?thesis using ih by (simp add: Valued)
  next
    case (Operand w)
    then have w: "\<not> next_is c_minus w" using Cons.prems by simp
    have "w \<noteq> js ''--repo''" using operand_alone(3) [OF w] by (auto simp: wide_option_def)
    from describes_step [OF operand_alone(5) [OF w] operand_alone(4) [OF w] this ih] show ?thesis by (simp add: Operand)
  qed
qed simp

fun apply_item :: "push_item \<Rightarrow> push_state \<Rightarrow> push_state" where
  "apply_item (Force t) st = st\<lparr> ps_force := True \<rparr>"
| "apply_item (Deletion t) st = st\<lparr> ps_del := True \<rparr>"
| "apply_item (Operand w) st = st\<lparr> ps_positional := ps_positional st @ [w] \<rparr>"
| "apply_item _ st = st"

lemma push_word:
  assumes "item_ok i"
  shows "push_words (item_words i @ ts) st = push_words ts (apply_item i st)"
proof (cases i)
  case (Valued t v)
  then have t: "valued_push_option t" using assms by simp
  show ?thesis using valued_alone [OF t] t by (simp add: Valued deletion_option_def wide_option_def)
next
  case (Operand w)
  then have w: "\<not> next_is c_minus w" using assms by simp
  show ?thesis using operand_alone [OF w] w by (simp add: Operand deletion_option_def wide_option_def)
qed (use assms in \<open>simp_all add: deletion_option_def wide_option_def\<close>)

lemma push_items: "list_all item_ok items \<Longrightarrow> push_words (concat (map item_words items)) st = fold apply_item items st"
  by (induction items arbitrary: st) (simp_all add: push_word)

lemma apply_items:
  "ps_force (fold apply_item items st) = (ps_force st \<or> forced items)"
  "ps_del (fold apply_item items st) = (ps_del st \<or> deleting items)"
  "ps_positional (fold apply_item items st) = ps_positional st @ operands items"
  "ps_everything (fold apply_item items st) = ps_everything st" "ps_tags (fold apply_item items st) = ps_tags st" "ps_repo (fold apply_item items st) = ps_repo st"
proof (induction items arbitrary: st)
  case (Cons i items)
  {
    case 1
    show ?case using Cons.IH(1) by (cases i) (auto simp: forced_def)
  next
    case 2
    show ?case using Cons.IH(2) by (cases i) (auto simp: deleting_def)
  next
    case 3
    show ?case using Cons.IH(3) by (cases i) (auto simp: operands_def)
  next
    case 4
    show ?case using Cons.IH(4) by (cases i) auto
  next
    case 5
    show ?case using Cons.IH(5) by (cases i) auto
  next
    case 6
    show ?case using Cons.IH(6) by (cases i) auto
  }
qed (simp_all add: forced_def deleting_def operands_def)

subsection \<open>Refspecs\<close>

record ref_spec =
  rs_plus :: bool
  rs_src :: "jsstr option"
  rs_prefix :: string
  rs_branch :: jsstr

definition spec_text :: "ref_spec \<Rightarrow> jsstr" where
  "spec_text r = (if rs_plus r then [43] else []) @ (case rs_src r of Some s \<Rightarrow> s @ [58] | None \<Rightarrow> []) @ js (rs_prefix r) @ rs_branch r"

definition ref_unit :: "nat \<Rightarrow> bool" where
  "ref_unit c \<longleftrightarrow> \<not> is_space c \<and> c \<notin> set (js ''$*?[]{}:'') \<and> c \<noteq> c_tick"

definition plain_branch :: "jsstr \<Rightarrow> bool" where
  "plain_branch b \<longleftrightarrow> b \<noteq> [] \<and> list_all ref_unit b \<and> \<not> next_is 43 b \<and> b \<noteq> js ''HEAD'' \<and> b \<noteq> js ''@'' \<and>
     \<not> starts_with b (js ''heads/'') \<and> \<not> starts_with b (js ''refs/heads/'')"

definition spec_ok :: "ref_spec \<Rightarrow> bool" where
  "spec_ok r \<longleftrightarrow> plain_branch (rs_branch r) \<and> rs_prefix r \<in> {'''', ''heads/'', ''refs/heads/''} \<and>
     (case rs_src r of Some s \<Rightarrow> 58 \<notin> set s \<and> \<not> next_is 43 s | None \<Rightarrow> True) \<and> \<not> next_is c_minus (spec_text r)"

definition spec_meaning :: "bool \<Rightarrow> bool \<Rightarrow> ref_spec \<Rightarrow> push_target" where
  "spec_meaning force del r = \<lparr> pt_ref = Some (rs_branch r), pt_force = (force \<or> rs_plus r), pt_del = (del \<or> rs_src r = Some []), pt_all = False \<rparr>"

definition destination :: "ref_spec \<Rightarrow> jsstr" where
  "destination r = js (rs_prefix r) @ rs_branch r"

lemma destination_units: "spec_ok r \<Longrightarrow> list_all ref_unit (destination r) \<and> destination r \<noteq> [] \<and> \<not> next_is 43 (destination r)"
  by (auto simp: spec_ok_def plain_branch_def destination_def) (auto simp: js_def ref_unit_def is_space_def)

lemma destination_canon:
  assumes "spec_ok r"
  shows "canon_ref (destination r) = Some (rs_branch r)"
proof -
  have d: "destination r \<noteq> []" "list_all ref_unit (destination r)" using destination_units [OF assms] by auto
  then have t: "js_trim (destination r) = destination r"
    by (intro trim_id) (auto simp: list_all_iff ref_unit_def)
  have b: "plain_branch (rs_branch r)" "rs_prefix r \<in> {'''', ''heads/'', ''refs/heads/''}" using assms by (auto simp: spec_ok_def)
  have s: "strip_prefix ''heads/'' (strip_prefix ''refs/heads/'' (destination r)) = rs_branch r"
    using b by (auto simp: plain_branch_def destination_def strip_prefix_def starts_with_def js_def)
  have n: "destination r \<noteq> js ''HEAD''" "destination r \<noteq> js ''@''"
    using b by (auto simp: plain_branch_def destination_def js_def)
  show ?thesis using d n by (simp add: canon_ref_def t s)
qed

lemma char_index_None: "c \<notin> set s \<Longrightarrow> char_index c s = None"
  by (induction s) auto

lemma char_index_app: "c \<notin> set s \<Longrightarrow> char_index c (s @ c # t) = Some (length s)"
  by (induction s) auto

lemma target_read:
  assumes r: "spec_ok r"
  shows "spec_target force del (spec_text r) = spec_meaning force del r"
proof -
  have d: "list_all ref_unit (destination r)" "destination r \<noteq> []" "\<not> next_is 43 (destination r)" using destination_units [OF r] by auto
  have c: "58 \<notin> set (destination r)" "\<not> unresolved (destination r)"
    using d(1) by (auto simp: list_all_iff list_ex_iff unresolved_def ref_unit_def js_def)
  show ?thesis
  proof (cases "rs_src r")
    case None
    have t: "spec_text r = (if rs_plus r then [43] else []) @ destination r" by (simp add: spec_text_def None destination_def)
    have p: "next_is 43 (spec_text r) = rs_plus r" using d(3) by (simp add: t)
    have i: "char_index 58 (destination r) = None" using c(1) by (simp add: char_index_None)
    show ?thesis unfolding spec_target_def p by (simp add: t i Let_def c(2) d(3) destination_canon [OF r] spec_meaning_def None)
  next
    case (Some s)
    have t: "spec_text r = (if rs_plus r then [43] else []) @ s @ 58 # destination r" by (simp add: spec_text_def Some destination_def)
    have s: "58 \<notin> set s" "\<not> next_is 43 s" using r by (auto simp: spec_ok_def Some)
    then have p: "next_is 43 (spec_text r) = rs_plus r" by (cases s) (auto simp: t)
    have i: "char_index 58 (s @ 58 # destination r) = Some (length s)" using s(1) by (simp add: char_index_app)
    show ?thesis unfolding spec_target_def p by (simp add: t i Let_def c(2) d destination_canon [OF r] spec_meaning_def Some)
  qed
qed

subsection \<open>The push\<close>


section \<open>Pushes\<close>

definition git_command :: "string list \<Rightarrow> simple_command" where
  "git_command ws = plain_command (js ''git'') (js ''git'') (map js ws) [] (js_join [c_sp] (map js (''git'' # ws))) (Some [])"

lemma git_names: "canon_program unix (js ''git'') = js ''git''" "lower_text unix (js ''push'') = js ''push''"
  by (simp_all add: canon_program_def unix_def ascii_lower_def base_name_def js_def line_terminator_def strip_suffix_def ends_with_def is_upper_def)

lemma git_command_simps:
  "sc_program (git_command ws) = js ''git''" "sc_argv (git_command ws) = map js ws" "sc_assigns (git_command ws) = Some []"
  by (simp_all add: git_command_def plain_command_def)

subsection \<open>A push in its spellings\<close>








subsection \<open>Spellings git takes and the reader does not\<close>

text \<open>
  git takes an unambiguous beginning of a long option for the option, and the last of a cluster of short options may take a value. The reader knows neither:
  \<open>--mirr\<close> is an option of no effect, and the value of \<open>-uo\<close> is an operand, so the remote is taken for the branch.
\<close>

lemma git_push_words:
  assumes "concat (map item_words items) = map js ws" "list_all item_ok items"
  shows "push_words (map js ws) st = fold apply_item items st" "\<not> push_describes (map js ws)"
  using push_items [OF assms(2)] items_describe [OF assms(2)] by (simp_all add: assms(1))

lemma push_command:
  "git_args unix (git_command (''push'' # ws)) = Some \<lparr> gc_sub = Some (js ''push''), gc_args = map js ws, gc_configs = [], gc_dir = None \<rparr>"
proof -
  have np: "\<not> next_is c_minus (js ''push'')" by (simp add: js_def)
  show ?thesis
    by (simp add: git_args_def git_command_simps git_names sub_stops [OF np] git_env_configs_def assignments_of_def omap_of_list_def del: git_globals.simps)
qed

lemma push_parsed:
  assumes "concat (map item_words items) = map js ws" "list_all item_ok items"
  shows "parse_git_push unix (git_command (''push'' # ws)) [] =
    (let targets = push_targets (fold apply_item items \<lparr> ps_force = False, ps_everything = None, ps_tags = False, ps_del = False, ps_repo = None, ps_positional = [] \<rparr>) in
     Some \<lparr> pu_force = list_ex pt_force targets, pu_remote = (case operands items of [] \<Rightarrow> None | p # _ \<Rightarrow> Some p), pu_ref = pt_ref (hd targets), pu_targets = targets \<rparr>)"
proof -
  have built: "js ''push'' \<in> set git_builtins" by (simp add: git_builtins_def)
  have low: "js ''push'' \<noteq> js ''send-pack''" "js ''push'' \<noteq> js ''http-push''" "js ''push'' \<noteq> js ''subtree''" by (simp_all add: js_def)
  show ?thesis
    unfolding parse_git_push_def push_command using built low git_names(2) git_push_words [OF assms]
    by (simp add: Let_def apply_items)
qed

theorem abbreviated_mirror_missed:
  "parse_git_push unix (git_command [''push'', ''--mirr'', ''origin'']) [] =
     Some \<lparr> pu_force = False, pu_remote = Some (js ''origin''), pu_ref = None, pu_targets = [current_target False False] \<rparr>"
proof -
  have a: "concat (map item_words [Quiet (js ''--mirr''), Operand (js ''origin'')]) = map js [''--mirr'', ''origin'']" by simp
  have ok: "list_all item_ok [Quiet (js ''--mirr''), Operand (js ''origin'')]"
    by (simp add: force_option_def deletion_option_def wide_option_def short_option_def valued_push_option_def is_describe_option_def
      starts_with_def js_def is_letter_def is_lower_def is_upper_def)
  show ?thesis unfolding push_parsed [OF a ok]
    by (simp add: push_targets_def push_specs_def apply_items operands_def forced_def deleting_def current_target_def)
qed

theorem clustered_value_misread:
  "parse_git_push unix (git_command [''push'', ''-uo'', ''ci.skip'', ''origin'']) [] =
     Some \<lparr> pu_force = False, pu_remote = Some (js ''ci.skip''), pu_ref = Some (js ''origin''),
       pu_targets = [\<lparr> pt_ref = Some (js ''origin''), pt_force = False, pt_del = False, pt_all = False \<rparr>] \<rparr>"
proof -
  let ?items = "[Quiet (js ''-uo''), Operand (js ''ci.skip''), Operand (js ''origin'')]"
  let ?spec = "\<lparr> rs_plus = False, rs_src = None, rs_prefix = '''', rs_branch = js ''origin'' \<rparr>"
  have a: "concat (map item_words ?items) = map js [''-uo'', ''ci.skip'', ''origin'']" by simp
  have ok: "list_all item_ok ?items"
    by (simp add: force_option_def deletion_option_def wide_option_def short_option_def valued_push_option_def is_describe_option_def
      starts_with_def js_def is_letter_def is_lower_def is_upper_def)
  have o': "spec_ok ?spec" by (simp add: spec_ok_def plain_branch_def ref_unit_def spec_text_def starts_with_def js_def is_space_def)
  have t: "spec_target False False (js ''origin'') = spec_meaning False False ?spec"
    using target_read [OF o', of False False] by (simp add: spec_text_def)
  show ?thesis unfolding push_parsed [OF a ok]
    by (simp add: push_targets_def push_specs_def apply_items operands_def forced_def deleting_def t) (simp add: spec_meaning_def)
qed

end
