(* ===== verification/Spec2Isabelle.thy ===== *)
theory Spec2Isabelle
  imports CanonicalFacts MerkleFacts VerdictProps DispatchDemo SignatureProps CoverageProps AuthProps GatewayDemo LegacyProof SegmentDemo HistoryProps AllowanceDemo GitPushProps
begin

text \<open>
  \<^bold>\<open>Scopebond: the policy evaluator, the receipt log and the dispatch gateway.\<close>

  Scopebond decides whether an action of a coding agent may run and leaves a signed receipt of it. This development models the parts that
  decide and the parts that prove: the packages \<^verbatim>\<open>policy-schema\<close> and \<^verbatim>\<open>verify\<close> (canonical JSON, the verdict, signatures, Merkle trees,
  anchors, summaries, chain heads), the core of \<^verbatim>\<open>gateway\<close> (dispatch contracts, the stores, authentication, the handler of an action,
  reconciliation, anchoring), and of \<^verbatim>\<open>hook\<close> the allowances, the session budgets and the reading of command lines. Paths below are relative to \<^verbatim>\<open>src/packages\<close>.

  \<^bold>\<open>How the parts interact.\<close> A request reaches \<open>handleAction\<close> of \<^verbatim>\<open>gateway/src/app.ts\<close>. It is validated and authenticated
  (\<^verbatim>\<open>gateway/src/auth.ts\<close>), the policy engine asks the evaluator for a verdict over the receipts so far (\<^verbatim>\<open>gateway/src/engine.ts\<close>,
  \<^verbatim>\<open>verify/src/violates.ts\<close>), the authority store records the decision under single-use authorization ids (\<open>MemoryReceiptStore\<close> of
  \<^verbatim>\<open>gateway/src/receipts.ts\<close>), the dispatch guard spends approvals, delegations and budgets in the shared SQLite file
  (\<^verbatim>\<open>gateway/src/dispatch.ts\<close>, \<^verbatim>\<open>gateway/src/dispatch-store.ts\<close>), the executor is called, and a minimized, signed receipt is
  appended. Anchors over the growing log of receipts (\<^verbatim>\<open>verify/src/anchor.ts\<close>), summaries of routine receipts (\<^verbatim>\<open>verify/src/summary.ts\<close>)
  and signed heads of the delivered evidence (\<^verbatim>\<open>verify/src/chain.ts\<close>) let someone who trusts only keys check the log later.

  \<^bold>\<open>Values and effects.\<close> JavaScript values are \<open>jsval\<close>, strings are lists of UTF-16 code units, numbers are binary64 values
  (\<open>jnum\<close>: exact rationals with explicit rounding, infinities, NaN). Code that may throw returns \<open>'a outcome\<close> (\<open>Inl\<close> the error); code
  that reports reasons returns them as constructors of a datatype in the place of the code's texts. State is passed explicitly. An
  \<open>async\<close> function that touches shared state is cut at its awaits into phases, so that calls interleave. The record \<open>env\<close> holds what the
  language leaves to the platform or a digest that only collisions constrain: \<open>Date.parse\<close>, SHA-256, the regular expressions a policy
  author writes, the WHATWG host parser. \<open>webcrypto\<close>, \<open>verifier\<close> and \<open>key_lookup\<close> stand for WebCrypto, Node's \<open>crypto.verify\<close> and the key
  registry of an installation. A theorem that needs more of a parameter than its type says so in its hypotheses, as a digest of 32 bytes, a
  scheme nobody forges, or gives a collision of the digest as the alternative.

  \<^bold>\<open>Theories.\<close>
  \<^item> \<open>Prelude\<close>, \<open>JsNum\<close>, \<open>JsVal\<close>, \<open>NumText\<close>, \<open>NumFacts\<close>, \<open>Coerce\<close>, \<open>Bytes\<close>: outcomes, ordered maps, sorting, the semantics of values and
    conversions, number texts, bytes and UTF-8. Shared automation is in \<open>js_simps\<close> and in the interpretations of the small locales there.
  \<^item> \<open>Canonical\<close>, \<open>CanonicalFacts\<close> (\<^verbatim>\<open>policy-schema/src/canonical.ts\<close>): when canonicalization returns, and that its text determines the
    value up to the order of members.
  \<^item> \<open>Validate\<close>, \<open>Endpoint\<close>, \<open>Calendar\<close>, \<open>Violates\<close> (\<^verbatim>\<open>verify/src/validate.ts\<close>, \<^verbatim>\<open>violates.ts\<close>); \<open>PolicyFacts\<close>, \<open>ViolatesFacts\<close> and
    \<open>VerdictProps\<close> give the specification of a policy in exact integers and quantifiers over the history and show the verdict decides it.
  \<^item> \<open>Merkle\<close>, \<open>MerkleFacts\<close> (\<^verbatim>\<open>verify/src/anchor.ts\<close>, trees): completeness and soundness of inclusion and consistency proofs.
  \<^item> \<open>Keys\<close>, \<open>AnchorLog\<close>, \<open>AnchorProps\<close>, \<open>SignatureProps\<close> (\<^verbatim>\<open>verify/src/signature.ts\<close>, the anchors of \<^verbatim>\<open>anchor.ts\<close>): what an accepted
    receipt proves, what a verified log of anchors fixes.
  \<^item> \<open>Summary\<close>, \<open>SummaryProps\<close>, \<open>CoverageProps\<close> (\<^verbatim>\<open>verify/src/summary.ts\<close>): what a covering summary says of its receipts.
  \<^item> \<open>ChainHeads\<close>, \<open>ChainHeadsProps\<close>, \<open>Segments\<close>, \<open>SegmentsProps\<close> (\<^verbatim>\<open>verify/src/chain.ts\<close>): when heads of a chain agree, rollback, published
    lists; what a download of segments that passes holds, and that a head fixes the history before it.
  \<^item> \<open>JsonParse\<close>, \<open>JsonRoundTrip\<close>: the language's \<open>JSON.parse\<close>, and that it inverts \<open>canonical\<close>.
  \<^item> \<open>Dispatch\<close>, \<open>DispatchStore\<close>, \<open>Guard\<close>, \<open>GuardFacts\<close>, \<open>DispatchProps\<close>, \<open>ScopeProps\<close>, \<open>ApprovalProps\<close> (\<^verbatim>\<open>gateway/src/dispatch.ts\<close>,
    \<^verbatim>\<open>dispatch-store.ts\<close>): the shared store as a state machine of any number of processes; budgets, approvals, delegations.
  \<^item> \<open>Auth\<close>, \<open>AuthProps\<close> (\<^verbatim>\<open>gateway/src/auth.ts\<close>): who is let in, and what the kept evidence shows offline.
  \<^item> \<open>Authority\<close>, \<open>AuthorityProps\<close>, \<open>Runs\<close>, \<open>Receipt\<close>, \<open>Minimize\<close> (\<^verbatim>\<open>gateway/src/receipts.ts\<close>): the single-use
    authority store, the contract of a receipt, and minimization as an information-flow property.
  \<^item> \<open>Engine\<close>, \<open>EngineProps\<close>, \<open>Gateway\<close>, \<open>GatewayProps\<close>, \<open>Control\<close>, \<open>Reconcile\<close>, \<open>ReconcileProps\<close>, \<open>Anchoring\<close>, \<open>AnchoringProps\<close>,
    \<open>LegacyProof\<close> (\<^verbatim>\<open>gateway/src/engine.ts\<close>, \<^verbatim>\<open>app.ts\<close>, \<^verbatim>\<open>anchor.ts\<close>): the handler as a pool of interleaved machines over one store, with
    the kill switch, reconciliation and anchoring beside it. \<open>HistoryProps\<close> shows that the bounded history an evaluation reads gives the
    verdict of the whole log.
  \<^item> \<open>AllowPatterns\<close>, \<open>Patterns\<close>, \<open>Allowances\<close>, \<open>WildcardFacts\<close>, \<open>AllowanceProps\<close>, \<open>AllowanceMade\<close> (\<^verbatim>\<open>hook/src/allow-patterns.ts\<close>,
    \<^verbatim>\<open>delete-scope.ts\<close>, \<^verbatim>\<open>allowances.ts\<close>): what an exception a person made may allow, how two sets of them merge, and that the ones the code
    makes pass its own checks.
  \<^item> \<open>SessionBudgets\<close>, \<open>SessionBudgetProps\<close> (\<^verbatim>\<open>hook/src/session-budgets.ts\<close>, \<^verbatim>\<open>session-budget-shape.ts\<close>): the counts of a session in one file
    that every process of the machine shares; that a limit holds in any run, and that a failure never lets a limited call through.
  \<^item> \<open>ShellText\<close>, \<open>ShellWords\<close>, \<open>ShellPrefix\<close>, \<open>ShellPrefixProps\<close>, \<open>ShellScripts\<close>, \<open>ShellDecompose\<close>, \<open>ShellProps\<close>, \<open>GitPush\<close>,
    \<open>GitPushProps\<close> (\<^verbatim>\<open>hook/src/shell.ts\<close>): the simple commands a line runs (\<open>decompose_shell\<close> is \<open>decomposeShell\<close>), here-documents, the scripts of cmd and
    PowerShell, and the branches a push updates; that no command of a line hides, behind wrappers
    either, that words are read back as spelled, and that a push is
    read as what it updates. \<open>ShellDemo\<close> and \<open>GitPushProps\<close> also hold three readings that go wrong: a line lost to a here-document after a
    continued line, an abbreviated option of a push, the value of an option in a cluster.
  \<^item> The theories named \<open>\<dots>Demo\<close>, and the last sections of some others, apply the properties to concrete inputs.

  \<^bold>\<open>Interfaces.\<close> Locales state what a client relies on and are interpreted on the code's own operations: ordered maps and sorting
  (\<open>Prelude\<close>), a table written once for each key (\<open>GuardFacts\<close>: consumed approvals, slots of a budget), a machine in which things are spent
  (\<open>Runs\<close>: the authorization ids of the authority store), items linked by digests (\<open>SegmentsProps\<close>: segments as served), a reader that
  takes words spelled for a POSIX shell (\<open>word_reader\<close> and \<open>text_reader\<close> of \<open>ShellWords\<close>: the tokenizer, the splitter, the reader of
  substitutions and, in \<open>ShellProps\<close>, that of here-documents).

  \<^bold>\<open>Bounds and fuel.\<close> Recursion is structural or has a measure; the reader of JSON alone has a bound of the model's own. The code's bounds are kept: JSON deeper
  than 64 is refused by validation, the walk over a delegation's ancestors stops after 16. \<open>num_text\<close> looks for a decimal of at most 17
  digits, which every binary64 value has. The walks over segments stop after a million, as in the code; a command line is read to a depth of six, its prefixes in at
  most a thousand turns, a statement of PowerShell in 64. \<open>json_parse\<close> counts down twice the length of its
  text, a bound on the nesting (\<open>json_fuel\<close>). Sizes up to \<open>max_safe = 2 ^ 53 - 1\<close> are exact; where a theorem needs them
  below it, it says so.

  \<^bold>\<open>Not modelled.\<close> Transport and storage: the Hono routes around the modelled handlers, HTTP clients of a workspace, the SQLite and file stores
  of a Node installation (\<^verbatim>\<open>gateway/src/node-stores.ts\<close>), executors and workers, command lines. \<^verbatim>\<open>gateway/src/scrub.ts\<close> (a table of
  regular expressions) is the parameter of minimization. \<open>toLowerCase\<close> and the decoding of base64 as UTF-16 are parameters of the reading of commands
  (\<open>computer\<close>, \<open>utf16\<close>); how \<^verbatim>\<open>hook/src/map.ts\<close> turns the commands into actions is left out. The store that looks authorization ids up (\<open>authorizationUsed\<close>) and stores without
  \<open>reserveAction\<close> are variants of the handler that are left out. The other packages, which observe tools and install hooks, are outside:
  \<^verbatim>\<open>hook\<close> (but for the parts named above), \<^verbatim>\<open>agent\<close>, \<^verbatim>\<open>mcp\<close>, \<^verbatim>\<open>framework\<close>, \<^verbatim>\<open>github-action\<close>, \<^verbatim>\<open>sdk\<close>, \<^verbatim>\<open>fake-cloud\<close>, \<^verbatim>\<open>native\<close>, \<^verbatim>\<open>tray\<close>.
\<close>

end
